(* ===== verification/LLPS_Prelude.thy ===== *)
theory LLPS_Prelude
  imports Main "HOL-Library.Word"
begin

text \<open>
  Shared material of the LLPS development: the names of the machine integer types of the C
  sources, the collections of facts the component theories fill, and the generic lemmas on
  words, exclusive or and bounded loops that the component proofs rest on.
\<close>

unbundle bit_operations_syntax

section \<open>Machine integers\<close>

text \<open>
  \<open>uint8_t\<close>, \<open>uint16_t\<close>, \<open>uint32_t\<close> and \<open>uint64_t\<close> are words of their width. A C \<open>int\<close> is the
  32 bit pattern that holds it; the signed reading is taken with \<open>sint\<close> where the code compares
  it with zero.
\<close>

type_synonym u8 = "8 word"
type_synonym u16 = "16 word"
type_synonym u32 = "32 word"
type_synonym u64 = "64 word"
type_synonym c_int = "32 word"

abbreviation UINT32_MAX :: u32 where
  "UINT32_MAX \<equiv> 0xFFFFFFFF"

abbreviation UINT64_MAX :: u64 where
  "UINT64_MAX \<equiv> 0xFFFFFFFFFFFFFFFF"

section \<open>Collections\<close>

named_theorems xor_simps \<open>exclusive or: associativity, cancellation and bits\<close>
named_theorems bank_simps \<open>what a freshly written redundant bank holds\<close>
named_theorems frame_simps \<open>fields an operation leaves unchanged\<close>

section \<open>Exclusive or\<close>

lemma xor_cancel_left [xor_simps]: "(a :: 'a::len word) XOR (a XOR b) = b"
  by (simp flip: xor.assoc)

lemma xor_cancel_right [xor_simps]: "((a :: 'a::len word) XOR b) XOR b = a"
  by (simp add: xor.assoc)

lemma xor_right_cancel_iff [xor_simps]: "(a :: 'a::len word) XOR c = b XOR c \<longleftrightarrow> a = b"
  by (metis xor_cancel_right)

lemma xor_eq_0_iff_word: "(a :: 'a::len word) XOR b = 0 \<longleftrightarrow> a = b"
  by (metis xor.left_neutral xor.assoc xor_self_eq xor.right_neutral)

lemma xor_swap_middle:
  "((a :: 'a::len word) XOR b) XOR (c XOR d) = (a XOR c) XOR (b XOR d)"
  by (simp add: ac_simps)

lemma and_xor_distrib_word: "((a :: 'a::len word) XOR b) AND m = (a AND m) XOR (b AND m)"
  by (rule bit_word_eqI) (auto simp: bit_simps)

lemma drop_bit_xor_word: "drop_bit n ((a :: 'a::len word) XOR b) = drop_bit n a XOR drop_bit n b"
  by (rule bit_word_eqI) (auto simp: bit_simps)

lemma ucast_xor_word: "ucast ((a :: 'a::len word) XOR b) = (ucast a XOR ucast b :: 'b::len word)"
  by (rule bit_word_eqI) (auto simp: bit_simps)

lemma not_not_word [simp]: "NOT (NOT (a :: 'a::len word)) = a"
  by simp

lemma eq_not_iff_word: "a = NOT b \<longleftrightarrow> b = NOT (a :: 'a::len word)"
  by auto

section \<open>Linear functions over exclusive or\<close>

text \<open>
  A function on words that distributes over exclusive or is fixed by its values on the single
  bits. The parity and Hamming codes of \<^verbatim>\<open>llps_secded.c\<close> are such functions; the locale is
  interpreted on each of them.
\<close>

locale xor_linear =
  fixes f :: "'a::len word \<Rightarrow> 'b::len word"
  assumes linear: "f (x XOR y) = f x XOR f y"
begin

lemma zero: "f 0 = 0"
proof -
  have "f (0 XOR 0) = f 0 XOR f 0" by (rule linear)
  then show ?thesis by simp
qed

lemma flip: "f (x XOR e) XOR f x = f e"
  by (simp add: linear xor.commute [of "f x"] xor_simps)

end

lemma take_bit_Suc_xor_word:
  "take_bit (Suc n) (x :: 'a::len word) = take_bit n x XOR (if bit x n then 2 ^ n else 0)"
  by (rule bit_word_eqI) (auto simp: bit_simps less_Suc_eq)

lemma xor_linear_ext:
  fixes f g :: "'a::len word \<Rightarrow> 'b::len word"
  assumes f: "xor_linear f" and g: "xor_linear g"
    and basis: "\<And>i. i < LENGTH('a) \<Longrightarrow> f (2 ^ i) = g (2 ^ i)"
  shows "f x = g x"
proof -
  have "f (take_bit n x) = g (take_bit n x)" for n
  proof (induction n)
    case 0
    then show ?case by (simp add: xor_linear.zero [OF f] xor_linear.zero [OF g])
  next
    case (Suc n)
    have "f (2 ^ n) = g (2 ^ n)" if "bit x n"
      using that by (intro basis) (rule bit_imp_le_length)
    then show ?case
      by (simp add: take_bit_Suc_xor_word xor_linear.linear [OF f] xor_linear.linear [OF g] Suc.IH
          xor_linear.zero [OF f] xor_linear.zero [OF g])
  qed
  from this [of "LENGTH('a)"] show ?thesis by simp
qed

section \<open>Bounded loops\<close>

text \<open>
  A counting loop \<^verbatim>\<open>for (i = lo; i < hi; ++i)\<close> is a fold over the list of its indices.
\<close>

lemma list_all_upt_iff: "list_all P [i..<j] \<longleftrightarrow> (\<forall>k. i \<le> k \<and> k < j \<longrightarrow> P k)"
  by (auto simp: list_all_iff)

lemma all_nth_eq_iff:
  "length xs = n \<Longrightarrow> length ys = n \<Longrightarrow> list_all (\<lambda>i. xs ! i = ys ! i) [0..<n] \<longleftrightarrow> xs = ys"
  by (auto simp: list_all_iff intro: nth_equalityI)

text \<open>A loop that assigns a range of an array, and a projection of a loop.\<close>

lemma foldl_assign:
  "length (foldl (\<lambda>xs i. xs[i := f i]) xs [a..<b]) = length xs \<and>
   (b \<le> length xs \<longrightarrow> foldl (\<lambda>xs i. xs[i := f i]) xs [a..<b] ! p = (if a \<le> p \<and> p < b then f p else xs ! p))"
proof (induction b)
  case 0
  then show ?case by simp
next
  case (Suc b)
  then show ?case by (cases "a \<le> b") (auto simp: nth_list_update)
qed

lemma foldl_project:
  assumes "\<And>s x. h (f s x) = g (h s) x"
  shows "h (foldl f s xs) = foldl g (h s) xs"
  by (induction xs arbitrary: s) (simp_all add: assms)

text \<open>An invariant of a counting loop.\<close>

lemma loop_invariant:
  assumes "P 0 s" "\<And>i s. i < n \<Longrightarrow> P i s \<Longrightarrow> P (Suc i) (f s i)"
  shows "P n (foldl f s [0..<n])"
proof -
  have "m \<le> n \<Longrightarrow> P m (foldl f s [0..<m])" for m
    by (induction m) (simp_all add: assms)
  then show ?thesis by blast
qed

end
