(* ===== verification/Secded.thy ===== *)
theory Secded
  imports LLPS_Prelude
begin

text \<open>
  The single-error-correcting, double-error-detecting code of
  \<^verbatim>\<open>src/support/llps_secded.c\<close>: an extended Hamming code for 1 to 64 data bits whose low
  seven check bits are Hamming parities and whose bit 7 is the overall parity.
\<close>

section \<open>Definitions\<close>

datatype llps_secded_status = LLPS_SECDED_OK | LLPS_SECDED_CORRECTED | LLPS_SECDED_UNCORRECTABLE

abbreviation LLPS_SECDED_OVERALL_BIT :: u8 where
  "LLPS_SECDED_OVERALL_BIT \<equiv> 0x80"

abbreviation LLPS_SECDED_MAX_DATA_BITS :: u32 where
  "LLPS_SECDED_MAX_DATA_BITS \<equiv> 64"

definition llps_secded_is_power_of_two :: "u32 \<Rightarrow> bool" where
  "llps_secded_is_power_of_two value \<longleftrightarrow> value \<noteq> 0 \<and> value AND (value - 1) = 0"

definition llps_secded_parity_u64 :: "u64 \<Rightarrow> u8" where
  "llps_secded_parity_u64 value =
     (let v1 = value XOR drop_bit 32 value;
          v2 = v1 XOR drop_bit 16 v1;
          v3 = v2 XOR drop_bit 8 v2;
          v4 = v3 XOR drop_bit 4 v3;
          v5 = v4 AND 0x0f
      in ucast (drop_bit (unat v5) (0x6996 :: u64) AND 1))"

function secded_parity_bits_loop :: "u32 \<Rightarrow> u32 \<Rightarrow> u32" where
  "secded_parity_bits_loop data_bits parity_bits =
     (if parity_bits < 8 \<and> push_bit (unat parity_bits) 1 < data_bits + parity_bits + 1
      then secded_parity_bits_loop data_bits (parity_bits + 1)
      else parity_bits)"
  by pat_completeness auto
termination
  by (relation "measure (\<lambda>(d, p). 8 - unat p)") (auto simp: word_less_nat_alt unat_word_ariths)

definition llps_secded_parity_bits_for_data_bits :: "u32 \<Rightarrow> u32" where
  "llps_secded_parity_bits_for_data_bits data_bits = secded_parity_bits_loop data_bits 1"

definition llps_secded_data_mask :: "u32 \<Rightarrow> u64" where
  "llps_secded_data_mask data_bits =
     (if data_bits \<ge> LLPS_SECDED_MAX_DATA_BITS then UINT64_MAX
      else push_bit (unat data_bits) 1 - 1)"

definition secded_parity_masks :: "u64 list" where
  "secded_parity_masks =
     [0xab55555556aaad5b, 0xcd9999999b33366d, 0xf1e1e1e1e3c3c78e, 0x01fe01fe03fc07f0,
      0x01fffe0003fff800, 0x01fffffffc000000, 0xfe00000000000000]"

text \<open>The two lines that finish both encoders: the overall parity is put into bit 7.\<close>

definition secded_with_overall :: "u64 \<Rightarrow> u8 \<Rightarrow> u8" where
  "secded_with_overall data hamming =
     (let overall = llps_secded_parity_u64 data XOR llps_secded_parity_u64 (ucast hamming)
      in hamming OR push_bit 7 overall)"

definition secded_hamming_full :: "u64 \<Rightarrow> u8" where
  "secded_hamming_full data =
     foldl (\<lambda>hamming i. hamming OR
              push_bit i (llps_secded_parity_u64 (data AND secded_parity_masks ! i)))
       0 [0..<7]"

definition llps_secded_encode_u64_full :: "u64 \<Rightarrow> u8" where
  "llps_secded_encode_u64_full data = secded_with_overall data (secded_hamming_full data)"

text \<open>The positions \<open>1 .. total_positions\<close> a code word loop visits.\<close>

definition secded_positions :: "u32 \<Rightarrow> u32 list" where
  "secded_positions total_positions = map word_of_nat [1..<Suc (unat total_positions)]"

fun secded_data_index_loop :: "u32 \<Rightarrow> u32 \<Rightarrow> u32 list \<Rightarrow> u32" where
  "secded_data_index_loop code_position data_index [] = UINT32_MAX"
| "secded_data_index_loop code_position data_index (pos # positions) =
     (if llps_secded_is_power_of_two pos
      then secded_data_index_loop code_position data_index positions
      else if pos = code_position then data_index
      else secded_data_index_loop code_position (data_index + 1) positions)"

definition llps_secded_data_index_for_position :: "u32 \<Rightarrow> u32 \<Rightarrow> u32" where
  "llps_secded_data_index_for_position code_position data_bits =
     (let parity_bits = llps_secded_parity_bits_for_data_bits data_bits;
          total_positions = data_bits + parity_bits
      in secded_data_index_loop code_position 0 (secded_positions total_positions))"

text \<open>The inner loop of the generic encoder: one parity over the data positions it covers.\<close>

fun secded_parity_loop :: "u64 \<Rightarrow> u32 \<Rightarrow> u8 \<Rightarrow> u32 \<Rightarrow> u32 list \<Rightarrow> u8" where
  "secded_parity_loop masked_data parity_position parity data_index [] = parity"
| "secded_parity_loop masked_data parity_position parity data_index (pos # positions) =
     (if llps_secded_is_power_of_two pos
      then secded_parity_loop masked_data parity_position parity data_index positions
      else secded_parity_loop masked_data parity_position
             (if pos AND parity_position \<noteq> 0
              then parity XOR ucast (drop_bit (unat data_index) masked_data AND 1)
              else parity)
             (data_index + 1) positions)"

definition secded_hamming_loop :: "u64 \<Rightarrow> u32 \<Rightarrow> u32 \<Rightarrow> u8" where
  "secded_hamming_loop masked_data parity_bits total_positions =
     foldl (\<lambda>hamming parity_index. hamming OR
              push_bit parity_index
                (secded_parity_loop masked_data (push_bit parity_index 1) 0 0
                  (secded_positions total_positions)))
       0 [0..<unat parity_bits]"

definition secded_bounded_bits :: "u32 \<Rightarrow> u32" where
  "secded_bounded_bits data_bits =
     (if data_bits > LLPS_SECDED_MAX_DATA_BITS then LLPS_SECDED_MAX_DATA_BITS else data_bits)"

definition llps_secded_encode_u64 :: "u64 \<Rightarrow> u32 \<Rightarrow> u8" where
  "llps_secded_encode_u64 data data_bits =
     (let bounded_bits = secded_bounded_bits data_bits;
          parity_bits = llps_secded_parity_bits_for_data_bits bounded_bits;
          total_positions = bounded_bits + parity_bits;
          masked_data = data AND llps_secded_data_mask bounded_bits
      in if bounded_bits = LLPS_SECDED_MAX_DATA_BITS then llps_secded_encode_u64_full data
         else secded_with_overall masked_data
                (secded_hamming_loop masked_data parity_bits total_positions))"

definition llps_secded_is_valid_u64 :: "u64 \<Rightarrow> u32 \<Rightarrow> u8 \<Rightarrow> bool" where
  "llps_secded_is_valid_u64 data data_bits ecc \<longleftrightarrow> ecc = llps_secded_encode_u64 data data_bits"

text \<open>
  Repair returns the status with the new contents of the two words it was given by reference.
\<close>

definition llps_secded_apply_repair_u64 ::
    "u64 \<Rightarrow> u8 \<Rightarrow> u32 \<Rightarrow> u32 \<Rightarrow> u8 \<Rightarrow> u8 \<Rightarrow> u8 \<Rightarrow> u64 \<Rightarrow> llps_secded_status \<times> u64 \<times> u8" where
  "llps_secded_apply_repair_u64 data ecc bounded_bits total_positions expected_ecc syndrome
       overall_error masked_data =
     (if syndrome = 0 \<and> overall_error = 0 then (LLPS_SECDED_OK, data, ecc)
      else if syndrome = 0 \<and> overall_error \<noteq> 0 then (LLPS_SECDED_CORRECTED, data, expected_ecc)
      else if syndrome \<noteq> 0 \<and> overall_error = 0 then (LLPS_SECDED_UNCORRECTABLE, data, ecc)
      else if ucast syndrome > total_positions then (LLPS_SECDED_UNCORRECTABLE, data, ecc)
      else if llps_secded_is_power_of_two (ucast syndrome)
      then (LLPS_SECDED_CORRECTED, data, expected_ecc)
      else
        (let data_index = llps_secded_data_index_for_position (ucast syndrome) bounded_bits
         in if data_index \<ge> bounded_bits then (LLPS_SECDED_UNCORRECTABLE, data, ecc)
            else (let data' = masked_data XOR push_bit (unat data_index) 1
                  in (LLPS_SECDED_CORRECTED, data', llps_secded_encode_u64 data' bounded_bits))))"

definition llps_secded_repair_u64 :: "u64 \<Rightarrow> u32 \<Rightarrow> u8 \<Rightarrow> llps_secded_status \<times> u64 \<times> u8" where
  "llps_secded_repair_u64 data data_bits ecc =
     (let bounded_bits = secded_bounded_bits data_bits;
          parity_bits = llps_secded_parity_bits_for_data_bits bounded_bits;
          total_positions = bounded_bits + parity_bits;
          parity_mask = (ucast (push_bit (unat parity_bits) (1 :: u32) - 1) :: u8)
      in if bounded_bits = 0 then (LLPS_SECDED_UNCORRECTABLE, data, ecc)
         else
           (let masked_data = data AND llps_secded_data_mask bounded_bits;
                expected_ecc = llps_secded_encode_u64 masked_data bounded_bits;
                received_hamming = ecc AND parity_mask;
                received_overall = (if ecc AND LLPS_SECDED_OVERALL_BIT \<noteq> 0 then 1 else 0);
                syndrome = (expected_ecc XOR received_hamming) AND parity_mask;
                overall_error = (llps_secded_parity_u64 masked_data XOR
                  llps_secded_parity_u64 (ucast received_hamming)) XOR received_overall
            in llps_secded_apply_repair_u64 masked_data ecc bounded_bits total_positions
                 expected_ecc syndrome overall_error masked_data))"

definition llps_secded_encode_u32 :: "u32 \<Rightarrow> u8" where
  "llps_secded_encode_u32 data = llps_secded_encode_u64 (ucast data) 32"

definition llps_secded_is_valid_u32 :: "u32 \<Rightarrow> u8 \<Rightarrow> bool" where
  "llps_secded_is_valid_u32 data ecc \<longleftrightarrow> llps_secded_is_valid_u64 (ucast data) 32 ecc"

definition llps_secded_repair_u32 :: "u32 \<Rightarrow> u8 \<Rightarrow> llps_secded_status \<times> u32 \<times> u8" where
  "llps_secded_repair_u32 data ecc =
     (case llps_secded_repair_u64 (ucast data) 32 ecc of
        (status, wide, ecc') \<Rightarrow> (status, ucast wide, ecc'))"

definition llps_secded_encode_u16 :: "u16 \<Rightarrow> u8" where
  "llps_secded_encode_u16 data = llps_secded_encode_u64 (ucast data) 16"

definition llps_secded_is_valid_u16 :: "u16 \<Rightarrow> u8 \<Rightarrow> bool" where
  "llps_secded_is_valid_u16 data ecc \<longleftrightarrow> llps_secded_is_valid_u64 (ucast data) 16 ecc"

definition llps_secded_repair_u16 :: "u16 \<Rightarrow> u8 \<Rightarrow> llps_secded_status \<times> u16 \<times> u8" where
  "llps_secded_repair_u16 data ecc =
     (case llps_secded_repair_u64 (ucast data) 16 ecc of
        (status, wide, ecc') \<Rightarrow> (status, ucast wide, ecc'))"

section \<open>Vocabulary of the proofs\<close>

text \<open>
  The columns of the code are the positions that are no powers of two, in order: data bit \<open>k\<close> is
  checked by the parities that the binary digits of column \<open>k\<close> name.
\<close>

definition small_powers :: "nat set" where
  "small_powers = {1, 2, 4, 8, 16, 32, 64}"

definition secded_columns :: "u32 \<Rightarrow> u32 list" where
  "secded_columns d = filter (\<lambda>p. \<not> llps_secded_is_power_of_two p)
     (secded_positions (d + llps_secded_parity_bits_for_data_bits d))"

abbreviation secded_pb :: "u32 \<Rightarrow> nat" where
  "secded_pb d \<equiv> unat (llps_secded_parity_bits_for_data_bits d)"

definition parity_fold :: "nat \<Rightarrow> u64 \<Rightarrow> u64" where
  "parity_fold k v = v XOR drop_bit k v"

definition parity_nibble :: "u64 \<Rightarrow> u8" where
  "parity_nibble v = ucast (drop_bit (unat (v AND 0x0f)) (0x6996 :: u64) AND 1)"

definition secded_hamming :: "u32 \<Rightarrow> u64 \<Rightarrow> u8" where
  "secded_hamming d m =
     (if d = LLPS_SECDED_MAX_DATA_BITS then secded_hamming_full m
      else secded_hamming_loop m (llps_secded_parity_bits_for_data_bits d)
             (d + llps_secded_parity_bits_for_data_bits d))"

abbreviation secded_parity_mask :: "u32 \<Rightarrow> u8" where
  "secded_parity_mask d \<equiv> mask (secded_pb d)"

text \<open>
  The syndrome and the overall error depend on the error pattern only: \<open>ed\<close> is what was flipped
  in the data, \<open>ee\<close> what was flipped in the check byte.
\<close>

definition secded_syndrome :: "u32 \<Rightarrow> u64 \<Rightarrow> u8 \<Rightarrow> u8" where
  "secded_syndrome d ed ee = secded_hamming d ed XOR (ee AND secded_parity_mask d)"

definition secded_overall_error :: "u32 \<Rightarrow> u64 \<Rightarrow> u8 \<Rightarrow> u8" where
  "secded_overall_error d ed ee =
     (llps_secded_parity_u64 ed XOR llps_secded_parity_u64 (ucast (ee AND secded_parity_mask d)))
     XOR of_bool (bit ee 7)"

text \<open>
  Where one bit of a stored code word can flip. A check byte for \<open>d\<close> data bits uses its low
  parity bits and bit 7.
\<close>

datatype code_bit = DataBit nat | CheckBit nat

fun code_bit_used :: "u32 \<Rightarrow> code_bit \<Rightarrow> bool" where
  "code_bit_used d (DataBit i) \<longleftrightarrow> i < unat d"
| "code_bit_used d (CheckBit j) \<longleftrightarrow> j < secded_pb d \<or> j = 7"

fun flip_bit :: "code_bit \<Rightarrow> u64 \<times> u8 \<Rightarrow> u64 \<times> u8" where
  "flip_bit (DataBit i) (data, ecc) = (data XOR push_bit i 1, ecc)"
| "flip_bit (CheckBit j) (data, ecc) = (data, ecc XOR push_bit j 1)"

fun code_bit_column :: "u32 \<Rightarrow> code_bit \<Rightarrow> u8" where
  "code_bit_column d (DataBit i) = ucast (secded_columns d ! i)"
| "code_bit_column d (CheckBit j) = (if j = 7 then 0 else push_bit j 1)"

section \<open>Number of parity bits and columns\<close>

declare secded_parity_bits_loop.simps [simp del]

lemma unat_add_small: "unat d \<le> 64 \<Longrightarrow> c \<le> 100 \<Longrightarrow> unat (d + c :: u32) = unat d + unat c"
  by (rule unat_add_lem [THEN iffD1]) (simp add: word_le_nat_alt)

lemma parity_bits_eq:
  assumes "unat d \<le> 64"
  shows "unat (llps_secded_parity_bits_for_data_bits d) =
    (if unat d = 0 then 1 else if unat d \<le> 1 then 2 else if unat d \<le> 4 then 3
     else if unat d \<le> 11 then 4 else if unat d \<le> 26 then 5 else if unat d \<le> 57 then 6 else 7)"
proof -
  note step = secded_parity_bits_loop.simps [of d]
  show ?thesis
    unfolding llps_secded_parity_bits_for_data_bits_def
    using assms
    by (simp add: step [of 1] step [of 2] step [of 3] step [of 4] step [of 5] step [of 6]
        step [of 7] step [of 8] word_less_nat_alt add.assoc unat_add_small)
qed

lemma power_of_two_small_iff:
  assumes "p < 128"
  shows "llps_secded_is_power_of_two (word_of_nat p) \<longleftrightarrow> p \<in> small_powers"
proof -
  have "list_all (\<lambda>p. llps_secded_is_power_of_two (word_of_nat p) \<longleftrightarrow> p \<in> small_powers) [0..<128]"
    unfolding llps_secded_is_power_of_two_def small_powers_def
    by (simp add: upt_rec)
  with assms show ?thesis by (simp add: list_all_iff)
qed

lemma parity_bits_bounds:
  assumes "1 \<le> unat d" "unat d \<le> 64"
  shows "2 \<le> secded_pb d" "secded_pb d \<le> 7" "unat d + secded_pb d < 2 ^ secded_pb d"
    "2 ^ (secded_pb d - 1) \<le> unat d + secded_pb d"
  using assms by (simp_all add: parity_bits_eq)

lemma unat_total_positions:
  assumes "1 \<le> unat d" "unat d \<le> 64"
  shows "unat (d + llps_secded_parity_bits_for_data_bits d) = unat d + secded_pb d"
  using assms parity_bits_bounds [OF assms]
  by (intro unat_add_small) (simp_all add: word_le_nat_alt)

lemma secded_columns_eq:
  assumes "1 \<le> unat d" "unat d \<le> 64"
  shows "secded_columns d =
    map word_of_nat (filter (\<lambda>p. p \<notin> small_powers) [1..<Suc (unat d + secded_pb d)])"
proof -
  have "unat d + secded_pb d < 128"
    using parity_bits_bounds [OF assms] assms by linarith
  then show ?thesis
    unfolding secded_columns_def secded_positions_def unat_total_positions [OF assms] filter_map
    by (intro arg_cong [where f = "map word_of_nat"] filter_cong)
      (auto simp: power_of_two_small_iff simp del: upt_Suc)
qed

lemma small_powers_eq: "small_powers = (\<lambda>i. 2 ^ i) ` {..<7}"
  by (auto simp: small_powers_def numeral_eq_Suc lessThan_Suc)

lemma small_powers_upto:
  assumes "1 \<le> unat d" "unat d \<le> 64"
  shows "card {p \<in> {1..<Suc (unat d + secded_pb d)}. p \<in> small_powers} = secded_pb d"
proof -
  note pb = parity_bits_bounds [OF assms]
  have below: "2 ^ i \<le> unat d + secded_pb d \<longleftrightarrow> i < secded_pb d" for i
  proof
    assume "2 ^ i \<le> unat d + secded_pb d"
    then have "(2::nat) ^ i < 2 ^ secded_pb d" using pb(3) by linarith
    then show "i < secded_pb d" by simp
  next
    assume "i < secded_pb d"
    then have "(2::nat) ^ i \<le> 2 ^ (secded_pb d - 1)" by (intro power_increasing) auto
    then show "2 ^ i \<le> unat d + secded_pb d" using pb(4) by linarith
  qed
  have "{p \<in> {1..<Suc (unat d + secded_pb d)}. p \<in> small_powers} = (\<lambda>i. 2 ^ i) ` {..<secded_pb d}"
    using pb(2) by (auto simp: small_powers_eq below less_Suc_eq_le)
  then show ?thesis by (simp add: card_image inj_on_def)
qed

lemma length_secded_columns:
  assumes "1 \<le> unat d" "unat d \<le> 64"
  shows "length (secded_columns d) = unat d"
proof -
  let ?N = "Suc (unat d + secded_pb d)"
  have "length (filter (\<lambda>p. p \<in> small_powers) [1..<?N]) = card {p \<in> {1..<?N}. p \<in> small_powers}"
    by (subst distinct_card [symmetric]) (auto intro!: arg_cong [where f = card])
  then have "length (filter (\<lambda>p. p \<in> small_powers) [1..<?N]) = secded_pb d"
    by (simp only: small_powers_upto [OF assms])
  moreover have "length (filter (\<lambda>p. p \<in> small_powers) [1..<?N]) +
      length (filter (\<lambda>p. p \<notin> small_powers) [1..<?N]) = unat d + secded_pb d"
    by (simp add: sum_length_filter_compl del: upt_Suc)
  ultimately show ?thesis by (simp add: secded_columns_eq [OF assms] del: upt_Suc)
qed

lemma secded_column:
  assumes "1 \<le> unat d" "unat d \<le> 64" and "c \<in> set (secded_columns d)"
  shows "c \<noteq> 0" "\<not> llps_secded_is_power_of_two c" "unat c < 2 ^ secded_pb d"
    "c \<le> d + llps_secded_parity_bits_for_data_bits d"
proof -
  show "\<not> llps_secded_is_power_of_two c" using assms by (simp add: secded_columns_def)
  from assms obtain p where p: "c = word_of_nat p" "1 \<le> p" "p \<le> unat d + secded_pb d"
    by (auto simp: secded_columns_eq less_Suc_eq_le simp del: upt_Suc)
  have small: "p < 128" using p parity_bits_bounds [OF assms(1,2)] assms by linarith
  then have c: "unat c = p" by (simp add: p unat_of_nat take_bit_nat_eq_self)
  show "c \<noteq> 0" using c p by auto
  show "unat c < 2 ^ secded_pb d" using c p parity_bits_bounds(3) [OF assms(1,2)] by linarith
  show "c \<le> d + llps_secded_parity_bits_for_data_bits d"
    using c p by (simp add: word_le_nat_alt unat_total_positions [OF assms(1,2)])
qed

lemma distinct_secded_columns:
  assumes "1 \<le> unat d" "unat d \<le> 64"
  shows "distinct (secded_columns d)"
proof -
  have "unat d + secded_pb d < 128"
    using parity_bits_bounds [OF assms] assms by linarith
  then have "inj_on (word_of_nat :: nat \<Rightarrow> u32) {1..<Suc (unat d + secded_pb d)}"
    by (intro inj_on_inverseI [where g = unat]) (simp add: unat_of_nat take_bit_nat_eq_self)
  then have "inj_on (word_of_nat :: nat \<Rightarrow> u32)
      (set (filter (\<lambda>p. p \<notin> small_powers) [1..<Suc (unat d + secded_pb d)]))"
    by (rule inj_on_subset) (auto simp del: upt_Suc)
  then show ?thesis
    by (simp add: secded_columns_eq [OF assms] distinct_map del: upt_Suc)
qed

lemma column_bit_high:
  assumes "1 \<le> unat d" "unat d \<le> 64" "k < unat d" "secded_pb d \<le> j" "j < 8"
  shows "\<not> bit (secded_columns d ! k) j"
proof -
  have "secded_columns d ! k \<in> set (secded_columns d)" using assms by (simp add: length_secded_columns)
  then have "unat (secded_columns d ! k) < 2 ^ j"
    using secded_column(3) [OF assms(1,2)] assms(4)
    by (meson less_le_trans one_le_numeral power_increasing)
  then have "\<not> bit (unat (secded_columns d ! k)) j" by (simp add: bit_iff_odd)
  then show ?thesis using assms(5) by (simp add: bit_unsigned_iff)
qed

section \<open>Parity\<close>

lemma parity_u64_eq:
  "llps_secded_parity_u64 v =
     parity_nibble (parity_fold 4 (parity_fold 8 (parity_fold 16 (parity_fold 32 v))))"
  by (simp add: llps_secded_parity_u64_def parity_nibble_def parity_fold_def Let_def)

lemma and_15_cases:
  fixes v :: u64
  shows "v AND 15 \<in> {0,1,2,3,4,5,6,7,8,9,10,11,12,13,14,15}"
proof -
  have "v AND 15 \<le> 15" by (rule word_and_le1)
  then have "unat (v AND 15) \<in> set [0..<16]" by (simp add: word_le_nat_alt)
  then have "word_of_nat (unat (v AND 15)) \<in> (word_of_nat ` set [0..<16] :: u64 set)"
    by (rule imageI)
  then show ?thesis by (simp add: upt_rec)
qed

lemma parity_nibble_bits:
  "parity_nibble v = of_bool ((bit v 0 \<noteq> bit v 1) \<noteq> (bit v 2 \<noteq> bit v 3))"
proof -
  have low: "bit v k \<longleftrightarrow> bit (v AND 15) k" if "k < 4" for k
  proof -
    have "bit (15 :: u64) k" using that by (auto simp: numeral_eq_Suc less_Suc_eq bit_Suc)
    then show ?thesis by (simp add: bit_and_iff)
  qed
  have bits: "bit v 0 \<longleftrightarrow> bit (v AND 15) 0" "bit v 1 \<longleftrightarrow> bit (v AND 15) 1"
    "bit v 2 \<longleftrightarrow> bit (v AND 15) 2" "bit v 3 \<longleftrightarrow> bit (v AND 15) 3"
    by (rule low, simp)+
  show ?thesis
    unfolding parity_nibble_def bits
    using and_15_cases [of v] by (elim insertE emptyE) (simp_all add: bit_numeral_rec)
qed

lemma parity_nibble_linear: "parity_nibble (x XOR y) = parity_nibble x XOR parity_nibble y"
  by (auto simp: parity_nibble_bits bit_xor_iff)

lemma parity_fold_linear: "parity_fold k (x XOR y) = parity_fold k x XOR parity_fold k y"
  by (simp add: parity_fold_def drop_bit_xor_word ac_simps)

interpretation parity: xor_linear llps_secded_parity_u64
  by unfold_locales (simp add: parity_u64_eq parity_fold_linear parity_nibble_linear)

lemma bit_parity_fold: "bit (parity_fold k v) j \<longleftrightarrow> bit v j \<noteq> bit v (k + j)"
  by (auto simp: parity_fold_def bit_simps)

lemma parity_single:
  assumes "i < 64"
  shows "llps_secded_parity_u64 (2 ^ i) = 1"
proof -
  have "list_all (\<lambda>i. llps_secded_parity_u64 (2 ^ i) = 1) [0..<64]"
    unfolding parity_u64_eq parity_nibble_bits bit_parity_fold
    by (simp add: upt_rec bit_exp_iff del: power_numeral)
  with assms show ?thesis by (simp add: list_all_iff)
qed

lemma parity_eq_of_bool: "llps_secded_parity_u64 v = of_bool (llps_secded_parity_u64 v = 1)"
  by (simp add: parity_u64_eq parity_nibble_bits)

lemma xor_one_iff:
  "x = of_bool a \<Longrightarrow> y = of_bool b \<Longrightarrow> x XOR y = (1::u8) \<longleftrightarrow> a \<noteq> b"
  by simp

section \<open>The Hamming parities\<close>

text \<open>Both encoders collect one-bit values into a byte.\<close>

lemma bit_collect_bits:
  fixes g :: "nat \<Rightarrow> u8"
  assumes "\<And>i. i < n \<Longrightarrow> g i = of_bool (b i)" and "n \<le> 8"
  shows "bit (foldl (\<lambda>h i. h OR push_bit i (g i)) 0 [0..<n]) j \<longleftrightarrow> j < n \<and> b j"
  using assms
proof (induction n)
  case 0
  then show ?case by simp
next
  case (Suc n)
  have "bit (push_bit n (of_bool (b n) :: u8)) j \<longleftrightarrow> j = n \<and> b n"
    using Suc.prems(2) by (auto simp: bit_simps)
  moreover have "g n = of_bool (b n)" using Suc.prems(1) [of n] by simp
  ultimately show ?case using Suc by (auto simp: bit_or_iff less_Suc_eq)
qed

lemma parity_loop_linear:
  "secded_parity_loop (a XOR b) pp (p XOR q) di ps =
     secded_parity_loop a pp p di ps XOR secded_parity_loop b pp q di ps"
proof (induction ps arbitrary: p q di)
  case Nil
  then show ?case by simp
next
  case (Cons pos ps)
  have bit1: "ucast (drop_bit k (a XOR b) AND 1) =
      (ucast (drop_bit k a AND 1) XOR ucast (drop_bit k b AND 1) :: u8)" for k
    by (simp add: drop_bit_xor_word and_xor_distrib_word ucast_xor_word)
  have step: "secded_parity_loop (a XOR b) pp ((p XOR q) XOR (x XOR y)) di' ps =
      secded_parity_loop a pp (p XOR x) di' ps XOR secded_parity_loop b pp (q XOR y) di' ps" for x y di'
    unfolding xor_swap_middle [of p q x y] by (rule Cons.IH)
  show ?case
  proof (cases "llps_secded_is_power_of_two pos \<or> pos AND pp = 0")
    case True
    then show ?thesis by (auto simp: Cons.IH)
  next
    case False
    then show ?thesis
      by (simp only: secded_parity_loop.simps de_Morgan_disj not_False_eq_True if_False if_True bit1 step)
  qed
qed

lemma parity_loop_bool:
  "p = of_bool v \<Longrightarrow>
     secded_parity_loop m pp p di ps = of_bool (secded_parity_loop m pp p di ps = 1)"
proof (induction ps arbitrary: p v di)
  case Nil
  then show ?case by simp
next
  case (Cons pos ps)
  have "(p XOR ucast (drop_bit (unat di) m AND 1) :: u8) = of_bool (v \<noteq> bit m (unat di))"
    using Cons.prems by (simp add: and_one_eq bit_iff_odd_drop_bit mod_2_eq_odd)
  from Cons.IH [OF this] Cons.IH [OF Cons.prems] show ?case by simp
qed

lemma parity_loop_basis:
  assumes "k < 64" "unat di + length ps < 2 ^ 32"
  shows "secded_parity_loop (2 ^ k) pp p di ps = p XOR
     (let cols = filter (\<lambda>q. \<not> llps_secded_is_power_of_two q) ps
      in of_bool (unat di \<le> k \<and> k - unat di < length cols \<and> (cols ! (k - unat di)) AND pp \<noteq> 0))"
  using assms(2)
proof (induction ps arbitrary: p di)
  case Nil
  then show ?case by simp
next
  case (Cons pos ps)
  have sd: "unat (di + 1) = Suc (unat di)"
    using Cons.prems by (simp add: unat_word_ariths)
  have b: "ucast (drop_bit (unat di) (2 ^ k :: u64) AND 1) = (of_bool (unat di = k) :: u8)"
    using assms(1) by (auto simp: and_one_eq mod_2_eq_odd bit_exp_iff simp flip: bit_iff_odd_drop_bit)
  show ?case
  proof (cases "llps_secded_is_power_of_two pos")
    case True
    with Cons show ?thesis by simp
  next
    case False
    have len: "unat (di + 1) + length ps < 2 ^ 32" using Cons.prems sd by simp
    show ?thesis
    proof (cases "unat di = k")
      case True
      with False b show ?thesis by (simp add: Cons.IH [OF len] sd)
    next
      case ne: False
      then have "k - unat di = Suc (k - Suc (unat di))" if "unat di \<le> k" using that by simp
      with ne False show ?thesis by (auto simp: Cons.IH [OF len] sd b Let_def)
    qed
  qed
qed

lemma bit_hamming_full:
  "bit (secded_hamming_full m) j \<longleftrightarrow> j < 7 \<and> llps_secded_parity_u64 (m AND secded_parity_masks ! j) = 1"
  unfolding secded_hamming_full_def
  by (rule bit_collect_bits [OF parity_eq_of_bool]) simp

lemma bit_hamming_loop:
  assumes "unat pb \<le> 8"
  shows "bit (secded_hamming_loop m pb tot) j \<longleftrightarrow>
    j < unat pb \<and> secded_parity_loop m (push_bit j 1) 0 0 (secded_positions tot) = 1"
  unfolding secded_hamming_loop_def
  by (rule bit_collect_bits [OF parity_loop_bool [where v = False]]) (simp_all add: assms)

lemma hamming_loop_linear:
  assumes "1 \<le> unat d" "unat d \<le> 64"
  shows "xor_linear (\<lambda>m. secded_hamming_loop m (llps_secded_parity_bits_for_data_bits d)
    (d + llps_secded_parity_bits_for_data_bits d))"
proof (unfold_locales, rule bit_word_eqI)
  fix x y :: u64 and j
  have pb: "secded_pb d \<le> 8" using parity_bits_bounds [OF assms] by simp
  have loop: "secded_parity_loop (x XOR y) pp 0 0 ps =
      secded_parity_loop x pp 0 0 ps XOR secded_parity_loop y pp 0 0 ps" for pp ps
    using parity_loop_linear [of x y pp 0 0 0 ps] by simp
  let ?h = "\<lambda>m. secded_hamming_loop m (llps_secded_parity_bits_for_data_bits d)
    (d + llps_secded_parity_bits_for_data_bits d)"
  show "bit (?h (x XOR y)) j = bit (?h x XOR ?h y) j"
    by (auto simp: bit_xor_iff bit_hamming_loop [OF pb] loop
        xor_one_iff [OF parity_loop_bool [where v = False] parity_loop_bool [where v = False]])
qed

interpretation hamming_full: xor_linear secded_hamming_full
proof (unfold_locales, rule bit_word_eqI)
  fix x y :: u64 and j
  show "bit (secded_hamming_full (x XOR y)) j = bit (secded_hamming_full x XOR secded_hamming_full y) j"
    by (auto simp: bit_xor_iff bit_hamming_full and_xor_distrib_word parity.linear
        xor_one_iff [OF parity_eq_of_bool parity_eq_of_bool])
qed

lemma hamming_loop_basis:
  assumes "1 \<le> unat d" "unat d \<le> 64" "k < unat d"
  shows "secded_hamming_loop (2 ^ k) (llps_secded_parity_bits_for_data_bits d)
    (d + llps_secded_parity_bits_for_data_bits d) = ucast (secded_columns d ! k)"
proof (rule bit_word_eqI)
  fix j assume "j < LENGTH(8)"
  then have j: "j < 8" by simp
  have pb: "secded_pb d \<le> 7" by (rule parity_bits_bounds [OF assms(1,2)])
  have len: "k < length (secded_columns d)" by (simp add: length_secded_columns [OF assms(1,2)] assms)
  have small: "unat (0::u32) +
      length (secded_positions (d + llps_secded_parity_bits_for_data_bits d)) < 2 ^ 32"
    using pb assms by (simp add: secded_positions_def unat_total_positions)
  have "k < 64" using assms by simp
  from parity_loop_basis [OF this small, of _ 0] pb len j column_bit_high [OF assms, of j]
  show "bit (secded_hamming_loop (2 ^ k) (llps_secded_parity_bits_for_data_bits d)
    (d + llps_secded_parity_bits_for_data_bits d)) j = bit (ucast (secded_columns d ! k) :: u8) j"
    by (cases "j < secded_pb d") (auto simp: bit_hamming_loop bit_ucast_iff Let_def
        and_exp_eq_0_iff_not_bit push_bit_of_1 simp flip: secded_columns_def)
qed

lemma exp_and_eq: "(2 ^ k :: u64) AND m = (if bit m k then 2 ^ k else 0)"
  by (rule bit_word_eqI) (auto simp: bit_simps)

lemma secded_columns_64:
  "secded_columns 64 = [3, 5, 6, 7, 9, 10, 11, 12, 13, 14, 15, 17, 18, 19, 20, 21, 22, 23, 24, 25,
     26, 27, 28, 29, 30, 31, 33, 34, 35, 36, 37, 38, 39, 40, 41, 42, 43, 44, 45, 46, 47, 48, 49, 50,
     51, 52, 53, 54, 55, 56, 57, 58, 59, 60, 61, 62, 63, 65, 66, 67, 68, 69, 70, 71]"
  by (simp add: secded_columns_eq parity_bits_eq small_powers_def upt_rec)

lemma masks_columns:
  assumes "k < 64" "j < 7"
  shows "bit (secded_parity_masks ! j) k \<longleftrightarrow> bit (secded_columns 64 ! k) j"
proof -
  have "list_all (\<lambda>j. list_all (\<lambda>k. bit (secded_parity_masks ! j) k \<longleftrightarrow>
      bit (secded_columns 64 ! k) j) [0..<64]) [0..<7]"
    unfolding secded_columns_64 secded_parity_masks_def
    by (simp add: upt_rec bit_numeral_rec)
  with assms show ?thesis by (simp add: list_all_iff)
qed

lemma hamming_full_basis:
  assumes "k < 64"
  shows "secded_hamming_full (2 ^ k) = ucast (secded_columns 64 ! k)"
proof (rule bit_word_eqI)
  fix j assume "j < LENGTH(8)"
  moreover have "\<not> bit (secded_columns 64 ! k) 7"
    using assms by (intro column_bit_high) (simp_all add: parity_bits_eq)
  ultimately show "bit (secded_hamming_full (2 ^ k)) j = bit (ucast (secded_columns 64 ! k) :: u8) j"
    using assms masks_columns [of k j]
    by (cases "j < 7") (auto simp: bit_hamming_full exp_and_eq parity_single parity.zero bit_ucast_iff
        not_less less_Suc_eq numeral_eq_Suc)
qed

text \<open>The table-driven encoder for 64 bits agrees with the generic loop, bit by bit of its input.\<close>

lemma hamming_full_eq_loop:
  "secded_hamming_full m = secded_hamming_loop m (llps_secded_parity_bits_for_data_bits 64)
     (64 + llps_secded_parity_bits_for_data_bits 64)"
  by (rule xor_linear_ext [OF hamming_full.xor_linear_axioms hamming_loop_linear])
    (simp_all add: hamming_full_basis hamming_loop_basis)

lemma secded_hamming_eq_loop:
  "secded_hamming d m = secded_hamming_loop m (llps_secded_parity_bits_for_data_bits d)
     (d + llps_secded_parity_bits_for_data_bits d)"
  by (auto simp: secded_hamming_def hamming_full_eq_loop)

lemma hamming_linear:
  assumes "1 \<le> unat d" "unat d \<le> 64"
  shows "secded_hamming d (x XOR y) = secded_hamming d x XOR secded_hamming d y"
  using xor_linear.linear [OF hamming_loop_linear [OF assms]] by (simp add: secded_hamming_eq_loop)

lemma hamming_basis:
  assumes "1 \<le> unat d" "unat d \<le> 64" "k < unat d"
  shows "secded_hamming d (2 ^ k) = ucast (secded_columns d ! k)"
  using hamming_loop_basis [OF assms] by (simp add: secded_hamming_eq_loop)

lemma bit_hamming_lt:
  assumes "1 \<le> unat d" "unat d \<le> 64" "bit (secded_hamming d m) j"
  shows "j < secded_pb d"
proof -
  have "secded_pb d \<le> 8" using parity_bits_bounds [OF assms(1,2)] by simp
  from bit_hamming_loop [OF this] assms(3) show ?thesis by (simp add: secded_hamming_eq_loop)
qed

section \<open>The check byte\<close>

lemma xor_of_bool_eq: "of_bool a XOR of_bool b = (of_bool (a \<noteq> b) :: 'a::len word)"
  by simp

lemma bit_with_overall:
  assumes "\<not> bit h 7"
  shows "bit (secded_with_overall m h) j \<longleftrightarrow>
    (if j = 7 then llps_secded_parity_u64 m XOR llps_secded_parity_u64 (ucast h) = 1 else bit h j)"
proof -
  obtain a b where ab: "llps_secded_parity_u64 m = of_bool a"
    "llps_secded_parity_u64 (ucast h) = of_bool b"
    using parity_eq_of_bool by metis
  have bit7: "bit (push_bit 7 (of_bool c :: u8)) j \<longleftrightarrow> j = 7 \<and> c" for c
    by (auto simp: bit_push_bit_iff)
  show ?thesis
    unfolding secded_with_overall_def ab Let_def xor_of_bool_eq bit_or_iff bit7
    using assms by auto
qed

lemma data_mask_eq:
  assumes "unat d \<le> 64"
  shows "llps_secded_data_mask d = mask (unat d)"
proof (cases "unat d = 64")
  case True
  then show ?thesis by (simp add: llps_secded_data_mask_def word_le_nat_alt mask_eq_exp_minus_1)
next
  case False
  with assms show ?thesis
    by (simp add: llps_secded_data_mask_def word_le_nat_alt mask_eq_exp_minus_1 push_bit_of_1)
qed

lemma encode_eq:
  assumes "1 \<le> unat d" "unat d \<le> 64" "m AND llps_secded_data_mask d = m"
  shows "llps_secded_encode_u64 m d = secded_with_overall m (secded_hamming d m)"
proof -
  have "secded_bounded_bits d = d"
    using assms(2) by (simp add: secded_bounded_bits_def word_less_nat_alt)
  then show ?thesis
    using assms(3) by (simp add: llps_secded_encode_u64_def llps_secded_encode_u64_full_def Let_def
        secded_hamming_def)
qed

lemma and_mask_ucast32: "ucast (w :: u32) AND llps_secded_data_mask 32 = ucast w"
  by (rule bit_word_eqI) (auto simp: data_mask_eq bit_simps dest: bit_imp_le_length)

lemma and_mask_ucast16: "ucast (w :: u16) AND llps_secded_data_mask 16 = ucast w"
  by (rule bit_word_eqI) (auto simp: data_mask_eq bit_simps dest: bit_imp_le_length)

lemma and_mask_64: "w AND llps_secded_data_mask 64 = w"
  by (rule bit_word_eqI) (auto simp: data_mask_eq bit_simps)

lemma ucast_ucast_wide: "LENGTH('a) \<le> LENGTH('b) \<Longrightarrow>
    ucast (ucast (w :: 'a::len word) :: 'b::len word) = w"
  by (rule bit_word_eqI) (auto simp: bit_simps)

lemma parity_mask_eq:
  assumes "n \<le> 7"
  shows "ucast (push_bit n (1 :: u32) - 1) = (mask n :: u8)"
proof -
  have "push_bit n (1 :: u32) - 1 = mask n" by (simp add: mask_eq_exp_minus_1 push_bit_of_1)
  then show ?thesis using assms by (auto intro!: bit_word_eqI simp: bit_simps)
qed

lemma overall_bit_iff: "(e :: u8) AND LLPS_SECDED_OVERALL_BIT \<noteq> 0 \<longleftrightarrow> bit e 7"
proof -
  have "e AND 2 ^ 7 \<noteq> 0 \<longleftrightarrow> bit e 7" by (simp only: and_exp_eq_0_iff_not_bit) simp
  then show ?thesis by simp
qed

section \<open>What repair computes from an error pattern\<close>

lemma repair_of_error:
  fixes data ed :: u64 and ee :: u8
  assumes d: "1 \<le> unat d" "unat d \<le> 64"
    and data: "data AND llps_secded_data_mask d = data" and ed: "ed AND llps_secded_data_mask d = ed"
  shows "llps_secded_repair_u64 (data XOR ed) d (llps_secded_encode_u64 data d XOR ee) =
    llps_secded_apply_repair_u64 (data XOR ed) (llps_secded_encode_u64 data d XOR ee) d
      (d + llps_secded_parity_bits_for_data_bits d) (llps_secded_encode_u64 (data XOR ed) d)
      (secded_syndrome d ed ee) (secded_overall_error d ed ee) (data XOR ed)"
proof -
  let ?pm = "secded_parity_mask d" and ?h = "secded_hamming d"
  have pb: "secded_pb d \<le> 7" by (rule parity_bits_bounds [OF d])
  have m: "(data XOR ed) AND llps_secded_data_mask d = data XOR ed"
    by (simp add: and_xor_distrib_word data ed)
  have nb7: "\<not> bit (?h x) 7" for x using bit_hamming_lt [OF d] pb by fastforce
  have low: "secded_with_overall x (?h x) AND ?pm = ?h x" for x
    using pb by (intro bit_word_eqI) (auto simp: bit_and_iff bit_mask_iff bit_with_overall [OF nb7]
        nb7 intro: bit_hamming_lt [OF d])
  have syn: "(llps_secded_encode_u64 (data XOR ed) d XOR
      ((llps_secded_encode_u64 data d XOR ee) AND ?pm)) AND ?pm = secded_syndrome d ed ee"
  proof -
    have mask: "(x XOR (y AND ?pm)) AND ?pm = (x AND ?pm) XOR (y AND ?pm)" for x y
      by (rule bit_word_eqI) (auto simp: bit_simps)
    have cancel: "(?h data XOR ?h ed) XOR (?h data XOR z) = ?h ed XOR z" for z
      by (simp add: ac_simps xor_simps)
    show ?thesis
      unfolding encode_eq [OF d m] encode_eq [OF d data] secded_syndrome_def mask
      unfolding and_xor_distrib_word [of _ ee] low
      unfolding hamming_linear [OF d] by (rule cancel)
  qed
  obtain a b where ab: "llps_secded_parity_u64 data = of_bool a"
    "llps_secded_parity_u64 (ucast (?h data)) = of_bool b"
    using parity_eq_of_bool by metis
  have top: "(if bit (llps_secded_encode_u64 data d XOR ee) 7 then 1 else 0) =
      (llps_secded_parity_u64 data XOR llps_secded_parity_u64 (ucast (?h data))) XOR
      (of_bool (bit ee 7) :: u8)"
    by (simp add: bit_xor_iff encode_eq [OF d data] bit_with_overall [OF nb7] ab)
  have ov: "(llps_secded_parity_u64 (data XOR ed) XOR
      llps_secded_parity_u64 (ucast ((llps_secded_encode_u64 data d XOR ee) AND ?pm))) XOR
      (if bit (llps_secded_encode_u64 data d XOR ee) 7 then 1 else 0) = secded_overall_error d ed ee"
  proof -
    have cancel: "((p XOR q) XOR (r XOR s)) XOR ((p XOR r) XOR t) = (q XOR s) XOR t" for p q r s t :: u8
      by (simp add: ac_simps xor_simps)
    show ?thesis
      unfolding top secded_overall_error_def
      unfolding encode_eq [OF d data] and_xor_distrib_word [of _ ee] low
      unfolding ucast_xor_word parity.linear by (rule cancel)
  qed
  have bb: "secded_bounded_bits d = d"
    using d(2) by (simp add: secded_bounded_bits_def word_less_nat_alt)
  have "d \<noteq> 0" using d(1) by auto
  then show ?thesis
    unfolding llps_secded_repair_u64_def bb Let_def parity_mask_eq [OF pb] overall_bit_iff m syn ov
    by (rule if_not_P)
qed

lemma data_index_loop:
  assumes "unat di + length ps < 2 ^ 32 - 1"
    and "k < length cols" "cols = filter (\<lambda>q. \<not> llps_secded_is_power_of_two q) ps" "distinct cols"
  shows "secded_data_index_loop (cols ! k) di ps = di + word_of_nat k"
  using assms
proof (induction ps arbitrary: di k cols)
  case Nil
  then show ?case by simp
next
  case (Cons pos ps)
  have len: "unat (di + 1) + length ps < 2 ^ 32 - 1" if "length ps < 2 ^ 32"
    using Cons.prems(1) by (simp add: unat_word_ariths)
  show ?case
  proof (cases "llps_secded_is_power_of_two pos")
    case True
    with Cons show ?thesis by simp
  next
    case False
    then have cols: "cols = pos # filter (\<lambda>q. \<not> llps_secded_is_power_of_two q) ps"
      using Cons.prems(3) by simp
    show ?thesis
    proof (cases k)
      case 0
      with cols False show ?thesis by simp
    next
      case (Suc k')
      have "tl cols ! k' \<in> set (tl cols)" using Cons.prems(2) Suc cols by (intro nth_mem) auto
      then have "cols ! k \<noteq> pos" using Cons.prems(4) Suc cols by auto
      moreover have "secded_data_index_loop (tl cols ! k') (di + 1) ps = (di + 1) + word_of_nat k'"
        using Cons.prems Suc cols by (intro Cons.IH len) auto
      ultimately show ?thesis using False Suc cols by (auto simp: add.assoc)
    qed
  qed
qed

lemma data_index_of_column:
  assumes d: "1 \<le> unat d" "unat d \<le> 64" and k: "k < unat d"
  shows "llps_secded_data_index_for_position (secded_columns d ! k) d = word_of_nat k"
proof -
  have "secded_pb d \<le> 7" by (rule parity_bits_bounds [OF d])
  then have "unat (0 :: u32) + length (secded_positions (d + llps_secded_parity_bits_for_data_bits d))
      < 2 ^ 32 - 1"
    using d by (simp add: secded_positions_def unat_total_positions)
  from data_index_loop [OF this _ secded_columns_def distinct_secded_columns [OF d]] k show ?thesis
    by (simp add: llps_secded_data_index_for_position_def length_secded_columns [OF d])
qed

lemma flip_bit_xor: "flip_bit b (x, y) = (x XOR fst (flip_bit b (0, 0)), y XOR snd (flip_bit b (0, 0)))"
  by (cases b) simp_all

lemma syndrome_linear:
  assumes "1 \<le> unat d" "unat d \<le> 64"
  shows "secded_syndrome d (x XOR y) (e XOR f) = secded_syndrome d x e XOR secded_syndrome d y f"
  unfolding secded_syndrome_def hamming_linear [OF assms] and_xor_distrib_word by (rule xor_swap_middle)

lemma overall_error_linear:
  "secded_overall_error d (x XOR y) (e XOR f) = secded_overall_error d x e XOR secded_overall_error d y f"
proof -
  have "of_bool (bit (e XOR f) 7) = (of_bool (bit e 7) XOR of_bool (bit f 7) :: u8)"
    by (simp add: bit_xor_iff)
  then show ?thesis
    unfolding secded_overall_error_def and_xor_distrib_word ucast_xor_word parity.linear
    by (simp add: ac_simps)
qed

lemma code_bit_syndrome:
  assumes d: "1 \<le> unat d" "unat d \<le> 64" and used: "code_bit_used d b"
    and e: "flip_bit b (0, 0) = (ed, ee)"
  shows "secded_syndrome d ed ee = code_bit_column d b" "secded_overall_error d ed ee = 1"
    "ed AND llps_secded_data_mask d = ed"
proof -
  have pb: "secded_pb d \<le> 7" by (rule parity_bits_bounds [OF d])
  have h0: "secded_hamming d 0 = 0"
    using hamming_linear [OF d, of 0 0] by simp
  have "(push_bit j 1 :: u8) AND secded_parity_mask d = 0" if "secded_pb d \<le> j" for j
    using that by (intro bit_word_eqI) (auto simp: bit_simps)
  note z = this [OF pb]
  have k: "(push_bit j 1 :: u8) AND secded_parity_mask d = push_bit j 1" if "j < secded_pb d" for j
    using that pb by (intro bit_word_eqI) (auto simp: bit_simps)
  have par: "llps_secded_parity_u64 (ucast (push_bit j 1 :: u8)) = 1" if "j < 7" for j
  proof -
    have "ucast (push_bit j 1 :: u8) = (2 ^ j :: u64)"
      using that by (intro bit_word_eqI) (auto simp: bit_simps)
    with that show ?thesis by (simp add: parity_single)
  qed
  have nb: "\<not> bit (push_bit j 1 :: u8) 7" if "j < 7" for j using that by (auto simp: bit_simps)
  show "secded_syndrome d ed ee = code_bit_column d b"
    using used e h0 z k pb by (cases b)
      (auto simp: secded_syndrome_def push_bit_of_1 hamming_basis [OF d])
  show "secded_overall_error d ed ee = 1"
    using used e pb d(2) k z par nb by (cases b)
      (auto simp: secded_overall_error_def parity_single push_bit_of_1 parity.zero bit_exp_iff)
  show "ed AND llps_secded_data_mask d = ed"
    using used e d(2) by (cases b)
      (auto simp: data_mask_eq push_bit_of_1 exp_and_eq bit_mask_iff)
qed

lemma secded_column_byte:
  assumes "1 \<le> unat d" "unat d \<le> 64" "i < unat d"
  shows "ucast (ucast (secded_columns d ! i) :: u8) = secded_columns d ! i"
    "secded_columns d ! i \<in> set (secded_columns d)"
proof -
  show mem: "secded_columns d ! i \<in> set (secded_columns d)"
    using assms by (simp add: length_secded_columns)
  have "(2 :: nat) ^ secded_pb d \<le> 2 ^ 7"
    using parity_bits_bounds(2) [OF assms(1,2)] by (intro power_increasing) auto
  then have "unat (secded_columns d ! i) < 2 ^ 8"
    using secded_column(3) [OF assms(1,2) mem] by simp
  then show "ucast (ucast (secded_columns d ! i) :: u8) = secded_columns d ! i"
    by (simp add: word_unat_eq_iff unsigned_ucast_eq unsigned_take_bit_eq take_bit_nat_eq_self)
qed

lemma power_position:
  assumes "j < 7"
  shows "llps_secded_is_power_of_two (ucast (push_bit j 1 :: u8))" "(push_bit j 1 :: u8) \<noteq> 0"
    "unat (ucast (push_bit j 1 :: u8) :: u32) = 2 ^ j"
proof -
  have "j \<in> {0,1,2,3,4,5,6}" using assms by auto
  then show "llps_secded_is_power_of_two (ucast (push_bit j 1 :: u8))" "(push_bit j 1 :: u8) \<noteq> 0"
    "unat (ucast (push_bit j 1 :: u8) :: u32) = 2 ^ j"
    by (auto simp: llps_secded_is_power_of_two_def)
qed

lemma code_bit_column_inj:
  assumes d: "1 \<le> unat d" "unat d \<le> 64" and b: "code_bit_used d b" "code_bit_used d c"
    and eq: "code_bit_column d b = code_bit_column d c"
  shows "b = c"
proof -
  have pb: "secded_pb d \<le> 7" by (rule parity_bits_bounds [OF d])
  have check: "(if j = 7 then 0 else push_bit j 1 :: u8) \<noteq> ucast (secded_columns d ! i)"
    if "i < unat d" "j < secded_pb d \<or> j = 7" for i j
  proof
    assume eq: "(if j = 7 then 0 else push_bit j 1 :: u8) = ucast (secded_columns d ! i)"
    have "ucast (if j = 7 then 0 else push_bit j 1 :: u8) = secded_columns d ! i"
      unfolding eq by (rule secded_column_byte(1) [OF d that(1)])
    moreover have "llps_secded_is_power_of_two (ucast (push_bit j 1 :: u8))" if "j \<noteq> 7"
      using power_position(1) [of j] that \<open>j < secded_pb d \<or> j = 7\<close> pb by simp
    ultimately show False
      using secded_column(1,2) [OF d secded_column_byte(2) [OF d that(1)]]
      by (cases "j = 7") simp_all
  qed
  have two: "i = j" if "(if i = 7 then 0 else push_bit i 1 :: u8) = (if j = 7 then 0 else push_bit j 1)"
    "i < secded_pb d \<or> i = 7" "j < secded_pb d \<or> j = 7" for i j
  proof (cases "i = 7 \<or> j = 7")
    case True
    with that pb power_position(2) [of i] power_position(2) [of j] show ?thesis by (auto split: if_splits)
  next
    case False
    with that pb have "i < 7" "j < 7" "(push_bit i 1 :: u8) = push_bit j 1" by auto
    then have "unat (ucast (push_bit i 1 :: u8) :: u32) = unat (ucast (push_bit j 1 :: u8) :: u32)"
      by (simp only:)
    then have "(2 :: nat) ^ i = 2 ^ j" using \<open>i < 7\<close> \<open>j < 7\<close> by (simp only: power_position(3))
    then show ?thesis by simp
  qed
  show ?thesis
  proof (cases b; cases c)
    fix i j assume bc: "b = DataBit i" "c = DataBit j"
    with b eq have "secded_columns d ! i = secded_columns d ! j"
      using secded_column_byte(1) [OF d] by (metis code_bit_column.simps(1) code_bit_used.simps(1))
    with bc b show ?thesis
      using distinct_secded_columns [OF d] length_secded_columns [OF d] by (simp add: nth_eq_iff_index_eq)
  next
    fix i j assume "b = DataBit i" "c = CheckBit j"
    with b eq check [of i j] show ?thesis by simp
  next
    fix i j assume "b = CheckBit j" "c = DataBit i"
    with b eq check [of i j] show ?thesis by simp
  next
    fix i j assume "b = CheckBit i" "c = CheckBit j"
    with b eq two [of i j] show ?thesis by simp
  qed
qed

section \<open>Correction and detection\<close>

lemma repair_single_flip:
  assumes d: "1 \<le> unat d" "unat d \<le> 64" and data: "data AND llps_secded_data_mask d = data"
    and used: "code_bit_used d b"
    and stored: "flip_bit b (data, llps_secded_encode_u64 data d) = (data', ecc')"
  shows "llps_secded_repair_u64 data' d ecc' =
    (LLPS_SECDED_CORRECTED, data, llps_secded_encode_u64 data d)"
proof -
  obtain ed ee where e: "flip_bit b (0, 0) = (ed, ee)" by fastforce
  note syn = code_bit_syndrome [OF d used e]
  have st: "data' = data XOR ed" "ecc' = llps_secded_encode_u64 data d XOR ee"
    using stored e flip_bit_xor [of b data "llps_secded_encode_u64 data d"] by auto
  have pb: "secded_pb d \<le> 7" by (rule parity_bits_bounds [OF d])
  show ?thesis
  proof (cases b)
    case (DataBit i)
    with used e have i: "i < unat d" "ed = push_bit i 1" by auto
    note col = secded_column [OF d secded_column_byte(2) [OF d i(1)]]
    have ne: "(ucast (secded_columns d ! i) :: u8) \<noteq> 0"
      using col(1) secded_column_byte(1) [OF d i(1)] by (metis unsigned_0)
    have wi: "unat (word_of_nat i :: u32) = i" using i d by (simp add: unat_of_nat take_bit_nat_eq_self)
    show ?thesis
      unfolding st repair_of_error [OF d data syn(3)] syn
      using ne col i wi
      by (simp add: llps_secded_apply_repair_u64_def DataBit secded_column_byte(1) [OF d i(1)]
          data_index_of_column [OF d i(1)] Let_def word_le_nat_alt word_less_nat_alt not_less xor_simps)
  next
    case (CheckBit j)
    with e have ed: "ed = 0" by auto
    have le: "unat (ucast (push_bit j 1 :: u8) :: u32) \<le> unat (d + llps_secded_parity_bits_for_data_bits d)"
      if "j < secded_pb d"
    proof -
      have "(2 :: nat) ^ j \<le> 2 ^ (secded_pb d - 1)" using that by (intro power_increasing) auto
      then show ?thesis
        using parity_bits_bounds(4) [OF d] power_position(3) [of j] that pb
        unfolding unat_total_positions [OF d] by linarith
    qed
    show ?thesis
      unfolding st repair_of_error [OF d data syn(3)] syn
      using used CheckBit ed pb le power_position [of j]
      by (auto simp: llps_secded_apply_repair_u64_def word_less_nat_alt not_less)
  qed
qed

lemma repair_double_flip:
  assumes d: "1 \<le> unat d" "unat d \<le> 64" and data: "data AND llps_secded_data_mask d = data"
    and used: "code_bit_used d b" "code_bit_used d c" and "b \<noteq> c"
    and stored: "flip_bit b (flip_bit c (data, llps_secded_encode_u64 data d)) = (data', ecc')"
  shows "llps_secded_repair_u64 data' d ecc' = (LLPS_SECDED_UNCORRECTABLE, data', ecc')"
proof -
  obtain ed ee where e: "flip_bit b (0, 0) = (ed, ee)" by fastforce
  obtain fd fe where f: "flip_bit c (0, 0) = (fd, fe)" by fastforce
  note eb = code_bit_syndrome [OF d used(1) e] and ec = code_bit_syndrome [OF d used(2) f]
  have st: "data' = data XOR (fd XOR ed)" "ecc' = llps_secded_encode_u64 data d XOR (fe XOR ee)"
    using stored e f flip_bit_xor [of c data "llps_secded_encode_u64 data d"]
      flip_bit_xor [of b "data XOR fd"] by (auto simp: xor.assoc)
  have m: "(fd XOR ed) AND llps_secded_data_mask d = fd XOR ed"
    by (simp add: and_xor_distrib_word eb ec)
  have "code_bit_column d b \<noteq> code_bit_column d c"
    using code_bit_column_inj [OF d used] \<open>b \<noteq> c\<close> by blast
  then have "secded_syndrome d (fd XOR ed) (fe XOR ee) \<noteq> 0"
    unfolding syndrome_linear [OF d] eb ec xor_eq_0_iff_word by simp
  moreover have "secded_overall_error d (fd XOR ed) (fe XOR ee) = 0"
    unfolding overall_error_linear eb ec by simp
  ultimately show ?thesis
    unfolding st repair_of_error [OF d data m]
    by (simp add: llps_secded_apply_repair_u64_def)
qed

lemma repair_clean:
  assumes d: "1 \<le> unat d" "unat d \<le> 64" and data: "data AND llps_secded_data_mask d = data"
  shows "llps_secded_repair_u64 data d (llps_secded_encode_u64 data d) =
    (LLPS_SECDED_OK, data, llps_secded_encode_u64 data d)"
proof -
  have "secded_syndrome d 0 0 = 0" using syndrome_linear [OF d, of 0 0 0 0] by simp
  moreover have "secded_overall_error d 0 0 = 0" using overall_error_linear [of d 0 0 0 0] by simp
  ultimately show ?thesis
    using repair_of_error [OF d data, of 0 0] by (simp add: llps_secded_apply_repair_u64_def)
qed

lemma repair_u64_sound:
  assumes "llps_secded_repair_u64 data 64 ecc = (st, data', ecc')" "st \<noteq> LLPS_SECDED_UNCORRECTABLE"
  shows "llps_secded_is_valid_u64 data' 64 ecc'"
proof -
  define ee where "ee = llps_secded_encode_u64 data 64 XOR ecc"
  have ecc: "ecc = llps_secded_encode_u64 data 64 XOR ee" by (simp add: ee_def xor_simps)
  have r: "llps_secded_repair_u64 data 64 ecc =
      llps_secded_apply_repair_u64 data ecc 64 (64 + llps_secded_parity_bits_for_data_bits 64)
        (llps_secded_encode_u64 data 64) (secded_syndrome 64 0 ee) (secded_overall_error 64 0 ee) data"
    using repair_of_error [of 64 data 0 ee] by (simp add: and_mask_64 ecc)
  have h0: "secded_hamming 64 0 = 0" using hamming_linear [of 64 0 0] by simp
  have "ee = 0" if syn: "secded_syndrome 64 0 ee = 0" and ov: "secded_overall_error 64 0 ee = 0"
  proof (rule bit_word_eqI)
    fix j assume "j < LENGTH(8)"
    have m: "ee AND mask 7 = 0" using syn by (simp add: secded_syndrome_def h0 parity_bits_eq)
    then have "\<not> bit ee 7" using ov by (simp add: secded_overall_error_def parity_bits_eq parity.zero)
    moreover have "\<not> bit ee j" if "j < 7"
      using m that by (metis bit_0_eq bit_and_iff bit_mask_iff bot_apply bot_bool_def
          \<open>j < LENGTH(8)\<close> possible_bit_word)
    ultimately show "bit ee j = bit 0 j" using \<open>j < LENGTH(8)\<close> by (cases "j = 7") auto
  qed
  then show ?thesis
    using assms unfolding r llps_secded_apply_repair_u64_def llps_secded_is_valid_u64_def
    by (auto simp: ecc Let_def split: if_splits)
qed

text \<open>The fixed-width wrappers.\<close>

lemma repair_u32_clean [simp]:
  "llps_secded_repair_u32 w (llps_secded_encode_u32 w) = (LLPS_SECDED_OK, w, llps_secded_encode_u32 w)"
  using repair_clean [of 32 "ucast w"]
  by (simp add: and_mask_ucast32 llps_secded_repair_u32_def llps_secded_encode_u32_def ucast_ucast_wide)

lemma repair_u16_clean [simp]:
  "llps_secded_repair_u16 w (llps_secded_encode_u16 w) = (LLPS_SECDED_OK, w, llps_secded_encode_u16 w)"
  using repair_clean [of 16 "ucast w"]
  by (simp add: and_mask_ucast16 llps_secded_repair_u16_def llps_secded_encode_u16_def ucast_ucast_wide)

lemma repair_u64_clean [simp]:
  "llps_secded_repair_u64 w 64 (llps_secded_encode_u64 w 64) =
     (LLPS_SECDED_OK, w, llps_secded_encode_u64 w 64)"
  by (rule repair_clean) (simp_all add: and_mask_64)

lemma is_valid_encode [simp]:
  "llps_secded_is_valid_u64 w d (llps_secded_encode_u64 w d)"
  "llps_secded_is_valid_u32 v (llps_secded_encode_u32 v)"
  "llps_secded_is_valid_u16 u (llps_secded_encode_u16 u)"
  by (simp_all add: llps_secded_is_valid_u64_def llps_secded_is_valid_u32_def
      llps_secded_is_valid_u16_def llps_secded_encode_u32_def llps_secded_encode_u16_def)

lemma repair_u32_data_flip:
  assumes "i < 32"
  shows "llps_secded_repair_u32 (w XOR push_bit i 1) (llps_secded_encode_u32 w) =
    (LLPS_SECDED_CORRECTED, w, llps_secded_encode_u32 w)"
proof -
  have "ucast (w XOR push_bit i 1) = (ucast w XOR push_bit i 1 :: u64)"
    using assms by (intro bit_word_eqI) (auto simp: bit_simps)
  then show ?thesis
    using assms repair_single_flip [of 32 "ucast w" "DataBit i"]
    by (simp add: and_mask_ucast32 llps_secded_repair_u32_def llps_secded_encode_u32_def ucast_ucast_wide)
qed

lemma repair_u64_data_flip:
  assumes "i < 64"
  shows "llps_secded_repair_u64 (w XOR push_bit i 1) 64 (llps_secded_encode_u64 w 64) =
    (LLPS_SECDED_CORRECTED, w, llps_secded_encode_u64 w 64)"
  using assms repair_single_flip [of 64 w "DataBit i"] by (simp add: and_mask_64)

section \<open>Properties\<close>

text \<open>
  C21: single error correction. For every width from 1 to 64 data bits, flipping any one bit the
  code uses (a data bit, a Hamming parity or the overall parity) is repaired: the routine
  reports a correction and restores both the data word and the check byte.
\<close>

theorem secded_single_error_corrected:
  assumes "1 \<le> unat d" "unat d \<le> 64" "data AND llps_secded_data_mask d = data"
    and "code_bit_used d b"
    and "flip_bit b (data, llps_secded_encode_u64 data d) = (data', ecc')"
  shows "llps_secded_repair_u64 data' d ecc' =
    (LLPS_SECDED_CORRECTED, data, llps_secded_encode_u64 data d)"
  using assms by (rule repair_single_flip)

theorem secded_single_error_corrected_witness:
  "llps_secded_repair_u64 13 32 (llps_secded_encode_u64 5 32) =
     (LLPS_SECDED_CORRECTED, 5, llps_secded_encode_u64 5 32)"
  using secded_single_error_corrected [of 32 5 "DataBit 3" 13 "llps_secded_encode_u64 5 32"]
  by (simp add: llps_secded_data_mask_def)

text \<open>
  C10: double error detection. Flipping any two different bits among those the code uses at that width
  (\<open>code_bit_used\<close>: the data bits, the Hamming check bits and the overall parity bit of the width) is
  reported as uncorrectable and neither the data word nor the check byte is written.
\<close>

theorem secded_double_error_detected:
  assumes "1 \<le> unat d" "unat d \<le> 64" "data AND llps_secded_data_mask d = data"
    and "code_bit_used d b" "code_bit_used d c" "b \<noteq> c"
    and "flip_bit b (flip_bit c (data, llps_secded_encode_u64 data d)) = (data', ecc')"
  shows "llps_secded_repair_u64 data' d ecc' = (LLPS_SECDED_UNCORRECTABLE, data', ecc')"
  using assms by (rule repair_double_flip)

theorem secded_double_error_detected_witness:
  "llps_secded_repair_u64 4 64 (llps_secded_encode_u64 7 64) =
     (LLPS_SECDED_UNCORRECTABLE, 4, llps_secded_encode_u64 7 64)"
  using secded_double_error_detected
    [of 64 7 "DataBit 0" "DataBit 1" 4 "llps_secded_encode_u64 7 64"]
  by (simp add: and_mask_64)

text \<open>
  the verdict of the 64 bit repair is sound. Whatever the two words held before, when repair
  reports no error or a correction the pair it leaves behind is a valid code word.
\<close>

theorem secded_u64_verdict_sound:
  assumes "llps_secded_repair_u64 data 64 ecc = (st, data', ecc')" "st \<noteq> LLPS_SECDED_UNCORRECTABLE"
  shows "llps_secded_is_valid_u64 data' 64 ecc'"
  using assms by (rule repair_u64_sound)

theorem secded_u64_verdict_sound_witness:
  "llps_secded_is_valid_u64 7 64 (llps_secded_encode_u64 7 64)"
  using secded_u64_verdict_sound [of 7 "llps_secded_encode_u64 7 64" LLPS_SECDED_OK] by simp

text \<open>
  C30: the table-driven encoder for 64 data bits computes the same check byte as the generic
  position loop run with 64 data bits.
\<close>

theorem secded_full_encoder_matches_loop:
  "llps_secded_encode_u64_full data =
     secded_with_overall data
       (secded_hamming_loop data (llps_secded_parity_bits_for_data_bits 64)
         (64 + llps_secded_parity_bits_for_data_bits 64))"
  by (simp add: llps_secded_encode_u64_full_def hamming_full_eq_loop)

text \<open>
  C33: the check byte of a 32 bit word has a bit (bit 6) that no parity uses. Flipping it makes
  the stored pair invalid, yet repair reports it as clean and leaves it as it is, so the fault
  is neither corrected nor reported.
\<close>

theorem secded_u32_unused_check_bit_missed:
  "llps_secded_repair_u32 data (llps_secded_encode_u32 data XOR 0x40) =
     (LLPS_SECDED_OK, data, llps_secded_encode_u32 data XOR 0x40) \<and>
   \<not> llps_secded_is_valid_u32 data (llps_secded_encode_u32 data XOR 0x40)"
proof
  have h0: "secded_hamming 32 0 = 0" using hamming_linear [of 32 0 0] by simp
  have m: "(0x40 :: u8) AND mask 6 = 0" by (simp add: mask_eq_exp_minus_1)
  have "\<not> bit (0x40 :: u8) 7" by (simp add: bit_numeral_rec)
  with m have "secded_syndrome 32 0 0x40 = 0" "secded_overall_error 32 0 0x40 = 0"
    by (simp_all add: secded_syndrome_def secded_overall_error_def h0 parity_bits_eq parity.zero)
  then show "llps_secded_repair_u32 data (llps_secded_encode_u32 data XOR 0x40) =
     (LLPS_SECDED_OK, data, llps_secded_encode_u32 data XOR 0x40)"
    using repair_of_error [of 32 "ucast data" 0 "0x40"]
    by (simp add: and_mask_ucast32 llps_secded_repair_u32_def llps_secded_encode_u32_def
        llps_secded_apply_repair_u64_def ucast_ucast_wide)
  have "(x XOR 0x40) \<noteq> (x :: u8)" for x
  proof
    assume "x XOR 0x40 = x"
    then have "x XOR (x XOR 0x40) = x XOR x" by (simp only:)
    then show False by (simp add: xor_simps)
  qed
  then show "\<not> llps_secded_is_valid_u32 data (llps_secded_encode_u32 data XOR 0x40)"
    by (simp add: llps_secded_is_valid_u32_def llps_secded_is_valid_u64_def llps_secded_encode_u32_def)
qed

end
