(* ===== verification/Crc.thy ===== *)
theory Crc
  imports LLPS_Prelude
begin

text \<open>
  The CRC-32 update routines of \<^verbatim>\<open>src/support/llps_crc.c\<close> and the guarded booleans of
  \<^verbatim>\<open>src/support/llps_guard.c\<close>.
\<close>

section \<open>Definitions\<close>

text \<open>One iteration of the bit loop of \<^verbatim>\<open>llps_crc32_update_byte\<close>.\<close>

definition crc32_bit_step :: "u32 \<Rightarrow> u32" where
  "crc32_bit_step crc =
     (let mask = 0 - (crc AND 1)
      in drop_bit 1 crc XOR (0xEDB88320 AND mask))"

definition llps_crc32_update_byte :: "u32 \<Rightarrow> u8 \<Rightarrow> u32" where
  "llps_crc32_update_byte crc byte = (crc32_bit_step ^^ 8) (crc XOR ucast byte)"

definition llps_crc32_update_u32 :: "u32 \<Rightarrow> u32 \<Rightarrow> u32" where
  "llps_crc32_update_u32 crc value =
     foldl (\<lambda>c shift. llps_crc32_update_byte c (ucast (drop_bit shift value AND 0xFF)))
       crc [0, 8, 16, 24]"

definition llps_crc32_update_u64 :: "u32 \<Rightarrow> u64 \<Rightarrow> u32" where
  "llps_crc32_update_u64 crc value =
     foldl (\<lambda>c shift. llps_crc32_update_byte c (ucast (drop_bit shift value AND 0xFF)))
       crc [0, 8, 16, 24, 32, 40, 48, 56]"

definition llps_crc32_update_size :: "u32 \<Rightarrow> u64 \<Rightarrow> u32" where
  "llps_crc32_update_size crc value = llps_crc32_update_u64 crc value"

definition llps_crc32_update_ptr :: "u32 \<Rightarrow> u64 \<Rightarrow> u32" where
  "llps_crc32_update_ptr crc address = llps_crc32_update_u64 crc address"

text \<open>
  The bounded C string: the bytes of the array up to and including the first zero byte, at most
  \<open>cap\<close> of them. \<open>None\<close> is the \<^verbatim>\<open>NULL\<close> text.
\<close>

fun crc32_cstr_loop :: "u32 \<Rightarrow> u8 list \<Rightarrow> nat \<Rightarrow> u32" where
  "crc32_cstr_loop crc text 0 = crc"
| "crc32_cstr_loop crc [] (Suc cap) = crc"
| "crc32_cstr_loop crc (byte # text) (Suc cap) =
     (let crc' = llps_crc32_update_byte crc byte
      in if byte = 0 then crc' else crc32_cstr_loop crc' text cap)"

definition llps_crc32_update_cstr_bounded :: "u32 \<Rightarrow> u8 list option \<Rightarrow> nat \<Rightarrow> u32" where
  "llps_crc32_update_cstr_bounded crc text cap =
     (case text of
        None \<Rightarrow> llps_crc32_update_u32 crc 0
      | Some bytes \<Rightarrow> crc32_cstr_loop crc bytes cap)"

definition llps_nonzero_fingerprint :: "u32 \<Rightarrow> u32" where
  "llps_nonzero_fingerprint fingerprint = (if fingerprint \<noteq> 0 then fingerprint else UINT32_MAX)"

abbreviation LLPS_SESSION_CRC_INIT :: u32 where
  "LLPS_SESSION_CRC_INIT \<equiv> 0xFFFFFFFF"

abbreviation LLPS_SESSION_CRC_XOROUT :: u32 where
  "LLPS_SESSION_CRC_XOROUT \<equiv> 0xFFFFFFFF"

subsection \<open>Guarded booleans\<close>

definition llps_guarded_bool_word :: "bool \<Rightarrow> u32" where
  "llps_guarded_bool_word value = (if value then UINT32_MAX else 0)"

definition llps_bool_to_u32 :: "bool \<Rightarrow> u32" where
  "llps_bool_to_u32 value = (if value then 1 else 0)"

definition llps_guarded_bool_set :: "bool \<Rightarrow> bool \<times> u32" where
  "llps_guarded_bool_set value = (value, NOT (llps_guarded_bool_word value))"

definition llps_guarded_bool_is_valid :: "bool \<Rightarrow> u32 \<Rightarrow> bool" where
  "llps_guarded_bool_is_valid value inverse_word \<longleftrightarrow> inverse_word = NOT (llps_guarded_bool_word value)"

definition llps_guarded_bool_read :: "bool \<Rightarrow> u32 \<Rightarrow> bool" where
  "llps_guarded_bool_read value inverse_word \<longleftrightarrow> llps_guarded_bool_is_valid value inverse_word \<and> value"

section \<open>The bit step\<close>

lemma bit_step_eq: "crc32_bit_step crc = drop_bit 1 crc XOR (if bit crc 0 then 0xEDB88320 else 0)"
  by (simp add: crc32_bit_step_def Let_def and_one_eq mod_2_eq_odd bit_0)

interpretation bit_step: xor_linear crc32_bit_step
  by unfold_locales (simp add: bit_step_eq bit_xor_iff drop_bit_xor_word ac_simps xor_simps)

lemma bit_step_inj: "crc32_bit_step x = crc32_bit_step y \<longleftrightarrow> x = y"
proof
  assume eq: "crc32_bit_step x = crc32_bit_step y"
  have top: "bit (crc32_bit_step z) 31 \<longleftrightarrow> bit z 0" for z
    by (auto simp: bit_step_eq bit_xor_iff bit_drop_bit_eq bit_numeral_rec dest: bit_imp_le_length)
  then have low: "bit x 0 \<longleftrightarrow> bit y 0" using eq by metis
  then have rest: "drop_bit 1 x = drop_bit 1 y"
    using eq by (simp add: bit_step_eq xor_simps)
  have "bit x n \<longleftrightarrow> bit y n" for n
    using low arg_cong [OF rest, of "\<lambda>z. bit z (n - 1)"] by (cases n) (simp_all add: bit_drop_bit_eq)
  then show "x = y" by (rule bit_word_eqI)
qed simp

lemma bit_steps_linear:
  "(crc32_bit_step ^^ n) (x XOR y) = (crc32_bit_step ^^ n) x XOR (crc32_bit_step ^^ n) y"
  by (induction n) (simp_all add: bit_step.linear)

lemma bit_steps_inj: "(crc32_bit_step ^^ n) x = (crc32_bit_step ^^ n) y \<longleftrightarrow> x = y"
  by (induction n) (simp_all add: bit_step_inj)

lemma bit_steps_shift: "take_bit n x = 0 \<Longrightarrow> (crc32_bit_step ^^ n) x = drop_bit n x"
proof (induction n arbitrary: x)
  case 0
  then show ?case by simp
next
  case (Suc n)
  have "\<not> bit x 0" using arg_cong [OF Suc.prems, of "\<lambda>z. bit z 0"] by (simp add: bit_take_bit_iff)
  then have step: "crc32_bit_step x = drop_bit 1 x" by (simp add: bit_step_eq)
  have "take_bit n (drop_bit 1 x) = drop_bit 1 (take_bit (Suc n) x)"
    by (simp add: drop_bit_take_bit)
  then have "take_bit n (drop_bit 1 x) = 0" by (simp add: Suc.prems)
  from Suc.IH [OF this] show ?case
    by (simp add: funpow_Suc_right step ac_simps del: funpow.simps)
qed

lemma bit_steps_byte:
  "(crc32_bit_step ^^ 8) (crc XOR v) = (crc32_bit_step ^^ 8) (crc XOR (v AND 0xFF)) XOR drop_bit 8 v"
proof -
  have v: "v = (v AND 0xFF) XOR (v AND NOT 0xFF)" by (rule bit_word_eqI) (auto simp: bit_simps)
  have ff: "(0xFF :: u32) = mask 8" by (simp add: mask_eq_exp_minus_1)
  have "take_bit 8 (v AND NOT 0xFF) = 0" "drop_bit 8 (v AND NOT 0xFF) = drop_bit 8 v"
    unfolding ff by (rule bit_word_eqI; auto simp: bit_simps dest: bit_imp_le_length)+
  then have "(crc32_bit_step ^^ 8) (v AND NOT 0xFF) = drop_bit 8 v" by (simp only: bit_steps_shift)
  then show ?thesis by (subst v) (simp only: bit_steps_linear xor.assoc)
qed

section \<open>Whole words\<close>

lemma ff_mask: "(0xFF :: 'a::len word) = mask 8"
  by (simp add: mask_eq_exp_minus_1)

lemma update_u32_eq: "llps_crc32_update_u32 crc v = (crc32_bit_step ^^ 32) (crc XOR v)"
proof -
  let ?S = "crc32_bit_step ^^ 8"
  have ff: "(0xFF :: u32) = mask 8" by (simp add: mask_eq_exp_minus_1)
  have byte: "llps_crc32_update_byte c (ucast (w AND 0xFF)) = ?S (c XOR (w AND 0xFF))" for c w :: u32
  proof -
    have "ucast (ucast (w AND 0xFF) :: u8) = w AND 0xFF"
      unfolding ff by (rule bit_word_eqI) (auto simp: bit_simps)
    then show ?thesis by (simp add: llps_crc32_update_byte_def)
  qed
  have "crc32_bit_step ^^ 32 = ?S ^^ 4" by (simp add: funpow_mult)
  then have "(crc32_bit_step ^^ 32) (crc XOR v) = ?S (?S (?S (?S (crc XOR v))))"
    by (simp add: numeral_eq_Suc)
  then show ?thesis
    by (simp add: llps_crc32_update_u32_def byte bit_steps_byte [of _ v]
        bit_steps_byte [of _ "drop_bit 8 v"] bit_steps_byte [of _ "drop_bit 16 v"]
        bit_steps_byte [of _ "drop_bit 24 v"])
qed

lemma update_u32_crc_inj: "llps_crc32_update_u32 c v = llps_crc32_update_u32 c' v \<longleftrightarrow> c = c'"
  by (simp add: update_u32_eq bit_steps_inj xor_simps)

lemma update_u32_value_inj: "llps_crc32_update_u32 c v = llps_crc32_update_u32 c v' \<longleftrightarrow> v = v'"
  unfolding update_u32_eq bit_steps_inj by (metis xor_cancel_left)

lemma foldl_update_u32_crc_inj:
  "foldl llps_crc32_update_u32 c ws = foldl llps_crc32_update_u32 c' ws \<longleftrightarrow> c = c'"
  by (induction ws arbitrary: c c') (simp_all add: update_u32_crc_inj)

lemma update_u64_eq:
  "llps_crc32_update_u64 crc v =
     llps_crc32_update_u32 (llps_crc32_update_u32 crc (ucast v)) (ucast (drop_bit 32 v))"
proof -
  have low: "ucast (drop_bit n v AND 0xFF) = (ucast (drop_bit n (ucast v :: u32) AND 0xFF) :: u8)"
    if "n \<le> 24" for n
    using that by (intro bit_word_eqI) (auto simp: bit_simps ff_mask)
  have high: "ucast (drop_bit (32 + n) v AND 0xFF) =
      (ucast (drop_bit n (ucast (drop_bit 32 v) :: u32) AND 0xFF) :: u8)" if "n \<le> 24" for n
    using that by (intro bit_word_eqI) (auto simp: bit_simps ff_mask ac_simps)
  show ?thesis
    using low [of 0] low [of 8] low [of 16] low [of 24] high [of 0] high [of 8] high [of 16] high [of 24]
    by (simp add: llps_crc32_update_u64_def llps_crc32_update_u32_def)
qed

lemma update_u64_crc_inj: "llps_crc32_update_u64 c v = llps_crc32_update_u64 c' v \<longleftrightarrow> c = c'"
  by (simp add: update_u64_eq update_u32_crc_inj)

lemma foldl_update_u64_crc_inj:
  "foldl llps_crc32_update_u64 c ws = foldl llps_crc32_update_u64 c' ws \<longleftrightarrow> c = c'"
  by (induction ws arbitrary: c c') (simp_all add: update_u64_crc_inj)

text \<open>A change confined to one half of a 64 bit word always shows.\<close>

lemma update_u64_half_change:
  assumes "v \<noteq> w" "take_bit 32 v = take_bit 32 w \<or> drop_bit 32 v = drop_bit 32 w"
  shows "llps_crc32_update_u64 c v \<noteq> llps_crc32_update_u64 c w"
proof -
  have tk: "take_bit 32 x = ucast (ucast x :: u32)" "(ucast x :: u32) = ucast (take_bit 32 x)" for x :: u64
    by (rule bit_word_eqI; auto simp: bit_simps)+
  have dr: "drop_bit 32 x = ucast (ucast (drop_bit 32 x) :: u32)" for x :: u64
    by (rule bit_word_eqI) (auto simp: bit_simps dest: bit_imp_le_length)
  have "ucast v = (ucast w :: u32) \<longleftrightarrow> take_bit 32 v = take_bit 32 w"
    using tk by metis
  moreover have "ucast (drop_bit 32 v) = (ucast (drop_bit 32 w) :: u32) \<longleftrightarrow> drop_bit 32 v = drop_bit 32 w"
    using dr by metis
  moreover have "take_bit 32 v = take_bit 32 w \<Longrightarrow> drop_bit 32 v = drop_bit 32 w \<Longrightarrow> v = w"
    by (metis bits_ident)
  ultimately show ?thesis
    using assms unfolding update_u64_eq by (metis update_u32_crc_inj update_u32_value_inj)
qed

lemma foldl_update_u64_half_change:
  assumes "i < length ws" "v \<noteq> ws ! i"
    "take_bit 32 v = take_bit 32 (ws ! i) \<or> drop_bit 32 v = drop_bit 32 (ws ! i)"
  shows "foldl llps_crc32_update_u64 c (ws[i := v]) \<noteq> foldl llps_crc32_update_u64 c ws"
proof -
  have ws: "ws = take i ws @ ws ! i # drop (Suc i) ws" using assms(1) by (rule id_take_nth_drop)
  have "ws[i := v] = take i ws @ v # drop (Suc i) ws" using assms(1) by (rule upd_conv_take_nth_drop)
  then show ?thesis
    using update_u64_half_change [OF assms(2,3)]
    by (subst (2) ws) (simp add: foldl_update_u64_crc_inj)
qed

section \<open>Properties\<close>

text \<open>
  C31: the byte-wise update of a 32 bit word equals the bit-serial reference: exclusive or with
  the whole word followed by 32 steps of the reflected polynomial division.
\<close>

theorem crc32_u32_matches_bit_serial:
  "llps_crc32_update_u32 crc v = (crc32_bit_step ^^ 32) (crc XOR v)"
  by (rule update_u32_eq)

text \<open>
  a checksum over a sequence of 32 bit words, as every bank of the program computes it,
  changes whenever exactly one of the words changes, by whatever pattern.
\<close>

theorem crc32_detects_word_change:
  assumes "i < length ws" "v \<noteq> ws ! i"
  shows "foldl llps_crc32_update_u32 c (ws[i := v]) \<noteq> foldl llps_crc32_update_u32 c ws"
proof -
  have ws: "ws = take i ws @ ws ! i # drop (Suc i) ws" using assms(1) by (rule id_take_nth_drop)
  have "ws[i := v] = take i ws @ v # drop (Suc i) ws" using assms(1) by (rule upd_conv_take_nth_drop)
  then show ?thesis
    using assms(2) by (subst (2) ws) (simp add: foldl_update_u32_crc_inj update_u32_value_inj)
qed

theorem crc32_detects_word_change_witness:
  "foldl llps_crc32_update_u32 LLPS_SESSION_CRC_INIT [1, 9] \<noteq>
   foldl llps_crc32_update_u32 LLPS_SESSION_CRC_INIT [1, 2]"
  using crc32_detects_word_change [of 1 "[1, 2]" 9 LLPS_SESSION_CRC_INIT] by simp

end
