(* ===== verification/Safety_Counters.thy ===== *)
theory Safety_Counters
  imports Crc
begin

text \<open>
  The guarded block of memory-safety counters of \<^verbatim>\<open>src/session/llps_safety_counters.c\<close> and its
  header: 44 counters, a CRC over them, the inverse of the CRC, and the increment macro that
  reseals the block only when it was valid before.
\<close>

section \<open>Definitions\<close>

record llps_memory_safety_counters_t =
  tmr_single_bank_repairs :: u64
  tmr_majority_failures :: u64
  tmr_region_guard_faults :: u64
  tmr_layout_failures :: u64
  process_memory_lock_failures :: u64
  tmr_memory_lock_failures :: u64
  tmr_memory_prefault_failures :: u64
  tmr_memory_residency_failures :: u64
  tmr_memory_physical_frame_faults :: u64
  tmr_memory_domain_bind_failures :: u64
  tmr_memory_harden_failures :: u64
  contract_violations :: u64
  free_list_single_bank_repairs :: u64
  free_list_majority_failures :: u64
  runtime_cfg_single_bank_repairs :: u64
  runtime_cfg_majority_failures :: u64
  control_flag_single_bank_repairs :: u64
  control_flag_majority_failures :: u64
  secded_single_bit_repairs :: u64
  secded_double_bit_failures :: u64
  tmr_scrub_passes :: u64
  tmr_scrub_sessions_checked :: u64
  tmr_scrub_fail_closed_sessions :: u64
  payload_ecc_scrub_passes :: u64
  payload_ecc_scrub_sessions_checked :: u64
  payload_ecc_scrub_fail_closed_sessions :: u64
  readiness_runtime_monitor_passes :: u64
  readiness_runtime_software_evidence_patrol_passes :: u64
  readiness_runtime_synthetic_ecc_topology_patrol_passes :: u64
  readiness_runtime_synthetic_ecc_topology_patrol_failures :: u64
  readiness_runtime_synthetic_fault_patrol_passes :: u64
  readiness_runtime_synthetic_fault_patrol_failures :: u64
  readiness_runtime_synthetic_numa_patrol_passes :: u64
  readiness_runtime_synthetic_numa_patrol_failures :: u64
  readiness_runtime_monitor_failures :: u64
  readiness_runtime_cfg_failures :: u64
  readiness_runtime_software_tmr_failures :: u64
  readiness_runtime_ecc_failures :: u64
  readiness_runtime_physical_domain_failures :: u64
  readiness_runtime_tmr_memory_domain_failures :: u64
  readiness_runtime_hardware_tmr_failures :: u64
  readiness_runtime_identity_failures :: u64
  readiness_runtime_attestation_failures :: u64
  readiness_runtime_observation_digest_failures :: u64

text \<open>The three globals of the file.\<close>

record safety_counters =
  g_memory_safety_counters :: llps_memory_safety_counters_t
  g_memory_safety_counters_crc :: u32
  g_memory_safety_counters_crc_inverse :: u32

definition llps_memory_safety_counters_crc_tmr :: "u32 \<Rightarrow> llps_memory_safety_counters_t \<Rightarrow> u32" where
  "llps_memory_safety_counters_crc_tmr crc counters =
     foldl llps_crc32_update_u64 crc
       [tmr_single_bank_repairs counters,
        tmr_majority_failures counters,
        tmr_region_guard_faults counters,
        tmr_layout_failures counters,
        process_memory_lock_failures counters,
        tmr_memory_lock_failures counters,
        tmr_memory_prefault_failures counters,
        tmr_memory_residency_failures counters,
        tmr_memory_physical_frame_faults counters,
        tmr_memory_domain_bind_failures counters,
        tmr_memory_harden_failures counters,
        contract_violations counters]"

definition llps_memory_safety_counters_crc_session :: "u32 \<Rightarrow> llps_memory_safety_counters_t \<Rightarrow> u32" where
  "llps_memory_safety_counters_crc_session crc counters =
     foldl llps_crc32_update_u64 crc
       [free_list_single_bank_repairs counters,
        free_list_majority_failures counters,
        runtime_cfg_single_bank_repairs counters,
        runtime_cfg_majority_failures counters,
        control_flag_single_bank_repairs counters,
        control_flag_majority_failures counters,
        secded_single_bit_repairs counters,
        secded_double_bit_failures counters,
        tmr_scrub_passes counters,
        tmr_scrub_sessions_checked counters,
        tmr_scrub_fail_closed_sessions counters,
        payload_ecc_scrub_passes counters,
        payload_ecc_scrub_sessions_checked counters,
        payload_ecc_scrub_fail_closed_sessions counters]"

definition llps_memory_safety_counters_crc_readiness :: "u32 \<Rightarrow> llps_memory_safety_counters_t \<Rightarrow> u32" where
  "llps_memory_safety_counters_crc_readiness crc counters =
     foldl llps_crc32_update_u64 crc
       [readiness_runtime_monitor_passes counters,
        readiness_runtime_software_evidence_patrol_passes counters,
        readiness_runtime_synthetic_ecc_topology_patrol_passes counters,
        readiness_runtime_synthetic_ecc_topology_patrol_failures counters,
        readiness_runtime_synthetic_fault_patrol_passes counters,
        readiness_runtime_synthetic_fault_patrol_failures counters,
        readiness_runtime_synthetic_numa_patrol_passes counters,
        readiness_runtime_synthetic_numa_patrol_failures counters,
        readiness_runtime_monitor_failures counters,
        readiness_runtime_cfg_failures counters,
        readiness_runtime_software_tmr_failures counters,
        readiness_runtime_ecc_failures counters,
        readiness_runtime_physical_domain_failures counters,
        readiness_runtime_tmr_memory_domain_failures counters,
        readiness_runtime_hardware_tmr_failures counters,
        readiness_runtime_identity_failures counters,
        readiness_runtime_attestation_failures counters,
        readiness_runtime_observation_digest_failures counters]"

definition llps_memory_safety_counters_compute_crc :: "llps_memory_safety_counters_t \<Rightarrow> u32" where
  "llps_memory_safety_counters_compute_crc counters =
     (let crc = LLPS_SESSION_CRC_INIT;
          crc = llps_memory_safety_counters_crc_tmr crc counters;
          crc = llps_memory_safety_counters_crc_session crc counters;
          crc = llps_memory_safety_counters_crc_readiness crc counters
      in crc XOR LLPS_SESSION_CRC_XOROUT)"

definition llps_memory_safety_counters_seal :: "safety_counters \<Rightarrow> safety_counters" where
  "llps_memory_safety_counters_seal sc =
     (let crc = llps_memory_safety_counters_compute_crc (g_memory_safety_counters sc)
      in sc\<lparr>g_memory_safety_counters_crc := crc, g_memory_safety_counters_crc_inverse := NOT crc\<rparr>)"

text \<open>All counters zero: what \<^verbatim>\<open>memset\<close> leaves.\<close>

definition zero_counters :: llps_memory_safety_counters_t where
  "zero_counters = \<lparr>
     tmr_single_bank_repairs = 0,
     tmr_majority_failures = 0,
     tmr_region_guard_faults = 0,
     tmr_layout_failures = 0,
     process_memory_lock_failures = 0,
     tmr_memory_lock_failures = 0,
     tmr_memory_prefault_failures = 0,
     tmr_memory_residency_failures = 0,
     tmr_memory_physical_frame_faults = 0,
     tmr_memory_domain_bind_failures = 0,
     tmr_memory_harden_failures = 0,
     contract_violations = 0,
     free_list_single_bank_repairs = 0,
     free_list_majority_failures = 0,
     runtime_cfg_single_bank_repairs = 0,
     runtime_cfg_majority_failures = 0,
     control_flag_single_bank_repairs = 0,
     control_flag_majority_failures = 0,
     secded_single_bit_repairs = 0,
     secded_double_bit_failures = 0,
     tmr_scrub_passes = 0,
     tmr_scrub_sessions_checked = 0,
     tmr_scrub_fail_closed_sessions = 0,
     payload_ecc_scrub_passes = 0,
     payload_ecc_scrub_sessions_checked = 0,
     payload_ecc_scrub_fail_closed_sessions = 0,
     readiness_runtime_monitor_passes = 0,
     readiness_runtime_software_evidence_patrol_passes = 0,
     readiness_runtime_synthetic_ecc_topology_patrol_passes = 0,
     readiness_runtime_synthetic_ecc_topology_patrol_failures = 0,
     readiness_runtime_synthetic_fault_patrol_passes = 0,
     readiness_runtime_synthetic_fault_patrol_failures = 0,
     readiness_runtime_synthetic_numa_patrol_passes = 0,
     readiness_runtime_synthetic_numa_patrol_failures = 0,
     readiness_runtime_monitor_failures = 0,
     readiness_runtime_cfg_failures = 0,
     readiness_runtime_software_tmr_failures = 0,
     readiness_runtime_ecc_failures = 0,
     readiness_runtime_physical_domain_failures = 0,
     readiness_runtime_tmr_memory_domain_failures = 0,
     readiness_runtime_hardware_tmr_failures = 0,
     readiness_runtime_identity_failures = 0,
     readiness_runtime_attestation_failures = 0,
     readiness_runtime_observation_digest_failures = 0\<rparr>"

definition llps_memory_safety_counters_reset :: "safety_counters \<Rightarrow> safety_counters" where
  "llps_memory_safety_counters_reset sc =
     llps_memory_safety_counters_seal (sc\<lparr>g_memory_safety_counters := zero_counters\<rparr>)"

definition llps_memory_safety_counters_are_valid :: "safety_counters \<Rightarrow> bool" where
  "llps_memory_safety_counters_are_valid sc =
     (let crc = llps_memory_safety_counters_compute_crc (g_memory_safety_counters sc)
      in g_memory_safety_counters_crc_inverse sc = NOT (g_memory_safety_counters_crc sc) \<and>
         g_memory_safety_counters_crc sc = crc \<and> crc \<noteq> 0)"

text \<open>The macro: its argument is the update function of the counter's field.\<close>

definition LLPS_MEMORY_SAFETY_COUNTER_INC ::
    "((u64 \<Rightarrow> u64) \<Rightarrow> llps_memory_safety_counters_t \<Rightarrow> llps_memory_safety_counters_t) \<Rightarrow>
     safety_counters \<Rightarrow> safety_counters" where
  "LLPS_MEMORY_SAFETY_COUNTER_INC counter_field sc =
     (let was_valid = llps_memory_safety_counters_are_valid sc;
          sc' = sc\<lparr>g_memory_safety_counters :=
                   counter_field (\<lambda>n. n + 1) (g_memory_safety_counters sc)\<rparr>
      in if was_valid then llps_memory_safety_counters_seal sc' else sc')"

text \<open>The counters as the list of words the checksum runs over.\<close>

definition counter_words :: "llps_memory_safety_counters_t \<Rightarrow> u64 list" where
  "counter_words counters =
     [tmr_single_bank_repairs counters,
      tmr_majority_failures counters,
      tmr_region_guard_faults counters,
      tmr_layout_failures counters,
      process_memory_lock_failures counters,
      tmr_memory_lock_failures counters,
      tmr_memory_prefault_failures counters,
      tmr_memory_residency_failures counters,
      tmr_memory_physical_frame_faults counters,
      tmr_memory_domain_bind_failures counters,
      tmr_memory_harden_failures counters,
      contract_violations counters,
      free_list_single_bank_repairs counters,
      free_list_majority_failures counters,
      runtime_cfg_single_bank_repairs counters,
      runtime_cfg_majority_failures counters,
      control_flag_single_bank_repairs counters,
      control_flag_majority_failures counters,
      secded_single_bit_repairs counters,
      secded_double_bit_failures counters,
      tmr_scrub_passes counters,
      tmr_scrub_sessions_checked counters,
      tmr_scrub_fail_closed_sessions counters,
      payload_ecc_scrub_passes counters,
      payload_ecc_scrub_sessions_checked counters,
      payload_ecc_scrub_fail_closed_sessions counters,
      readiness_runtime_monitor_passes counters,
      readiness_runtime_software_evidence_patrol_passes counters,
      readiness_runtime_synthetic_ecc_topology_patrol_passes counters,
      readiness_runtime_synthetic_ecc_topology_patrol_failures counters,
      readiness_runtime_synthetic_fault_patrol_passes counters,
      readiness_runtime_synthetic_fault_patrol_failures counters,
      readiness_runtime_synthetic_numa_patrol_passes counters,
      readiness_runtime_synthetic_numa_patrol_failures counters,
      readiness_runtime_monitor_failures counters,
      readiness_runtime_cfg_failures counters,
      readiness_runtime_software_tmr_failures counters,
      readiness_runtime_ecc_failures counters,
      readiness_runtime_physical_domain_failures counters,
      readiness_runtime_tmr_memory_domain_failures counters,
      readiness_runtime_hardware_tmr_failures counters,
      readiness_runtime_identity_failures counters,
      readiness_runtime_attestation_failures counters,
      readiness_runtime_observation_digest_failures counters]"

section \<open>The checksum\<close>

lemma compute_crc_eq:
  "llps_memory_safety_counters_compute_crc counters =
     foldl llps_crc32_update_u64 LLPS_SESSION_CRC_INIT (counter_words counters) XOR LLPS_SESSION_CRC_XOROUT"
  by (simp add: llps_memory_safety_counters_compute_crc_def counter_words_def Let_def
      llps_memory_safety_counters_crc_tmr_def llps_memory_safety_counters_crc_session_def
      llps_memory_safety_counters_crc_readiness_def)

lemma are_valid_seal [simp]:
  "llps_memory_safety_counters_are_valid (llps_memory_safety_counters_seal sc) \<longleftrightarrow>
     llps_memory_safety_counters_compute_crc (g_memory_safety_counters sc) \<noteq> 0"
  by (simp add: llps_memory_safety_counters_are_valid_def llps_memory_safety_counters_seal_def Let_def)

lemma seal_idem [simp]:
  "llps_memory_safety_counters_seal (llps_memory_safety_counters_seal sc) =
   llps_memory_safety_counters_seal sc"
  by (simp add: llps_memory_safety_counters_seal_def Let_def)

lemma counters_seal [simp]:
  "g_memory_safety_counters (llps_memory_safety_counters_seal sc) = g_memory_safety_counters sc"
  by (simp add: llps_memory_safety_counters_seal_def Let_def)

lemma counters_INC [simp]:
  "g_memory_safety_counters (LLPS_MEMORY_SAFETY_COUNTER_INC f sc) =
   f (\<lambda>n. n + 1) (g_memory_safety_counters sc)"
  by (simp add: LLPS_MEMORY_SAFETY_COUNTER_INC_def Let_def)

text \<open>Two halves of a 64 bit word, the upper one 0 or 1.\<close>

lemma unat_halves:
  assumes "h < 2"
  shows "unat (word_of_nat (h * 2 ^ 32 + unat (l :: u32)) :: u64) = h * 2 ^ 32 + unat l"
proof -
  have "unat l < 2 ^ 32" using unsigned_less [of l, where 'a = nat] by simp
  then have "h * 2 ^ 32 + unat l < 2 ^ LENGTH(64)" using assms by simp
  then show ?thesis by (simp only: unat_of_nat mod_less)
qed

lemma half_injective_hits_zero:
  fixes f :: "u64 \<Rightarrow> u32"
  assumes half: "\<And>v w. v \<noteq> w \<Longrightarrow> take_bit 32 v = take_bit 32 w \<or> drop_bit 32 v = drop_bit 32 w \<Longrightarrow>
    f v \<noteq> f w"
  shows "\<exists>w. f w \<noteq> 0 \<and> f (w + 1) = 0"
proof -
  define at where "at h l = (word_of_nat (h * 2 ^ 32 + unat (l :: u32)) :: u64)" for h l
  have un: "unat (at h l) = h * 2 ^ 32 + unat l" if "h < 2" for h l
    using that unfolding at_def by (rule unat_halves)
  have low: "unat l < 2 ^ 32" for l :: u32 using unsigned_less [of l, where 'a = nat] by simp
  have hi: "drop_bit 32 (at h l) = drop_bit 32 (at h 0)" if "h < 2" for h l
  proof -
    have "(h * 2 ^ 32 + unat l) div 2 ^ 32 = (h * 2 ^ 32 + unat (0 :: u32)) div 2 ^ 32"
      using low [of l] by (simp add: div_mult_self3)
    then show ?thesis
      unfolding word_unat_eq_iff unat_drop_bit_eq un [OF that] by (simp only: drop_bit_eq_div)
  qed
  have lo: "take_bit 32 (at h 0) = 0" if "h < 2" for h
    unfolding word_unat_eq_iff unsigned_take_bit_eq un [OF that] by (simp add: take_bit_eq_mod)
  have inj: "l = l'" if "at h l = at h l'" "h < 2" for h l l'
    using un [OF that(2), of l] un [OF that(2), of l'] that(1) by (simp add: word_unat_eq_iff)
  have zero: "\<exists>l. f (at h l) = 0" if "h < 2" for h
  proof -
    have "inj (\<lambda>l. f (at h l))" using half hi [OF that] inj that by (intro injI) metis
    then have "surj (\<lambda>l. f (at h l))" by (intro finite_UNIV_inj_surj) simp_all
    then show ?thesis by (metis surjD)
  qed
  have "at 0 0 \<noteq> at 1 0" using un [of 0 0] un [of 1 0] by auto
  then have ne: "f (at 0 0) \<noteq> f (at 1 0)" by (rule half) (simp add: lo)
  obtain h l where hl: "h < 2" "f (at h l) = 0" "l \<noteq> 0"
    using zero [of 0] zero [of 1] ne by (metis one_less_numeral_iff semiring_norm(76) zero_less_numeral)
  have pred: "at h (l - 1) + 1 = at h l"
  proof -
    have "unat l = Suc (unat (l - 1))" using hl(3) by (simp add: unat_minus_one unat_gt_0)
    then show ?thesis by (simp only: at_def add_Suc_right of_nat_Suc) (simp only: ac_simps)
  qed
  have "f (at h (l - 1)) \<noteq> f (at h l)"
    using inj [of h "l - 1" l] hi [of h l] hi [of h "l - 1"] hl(1) by (intro half) auto
  then show ?thesis using hl(2) pred by metis
qed

lemma length_counter_words [simp]: "length (counter_words counters) = 44"
  by (simp add: counter_words_def)

section \<open>Properties\<close>

text \<open>
  an increment bumps exactly the chosen counter; a block that was valid is resealed over the
  new values and is valid again (unless its new checksum is zero), and a block that was not valid
  keeps its stale checksum pair, so the fault is not hidden by the increment.
\<close>

theorem counter_increment_reseals_only_valid:
  "g_memory_safety_counters (LLPS_MEMORY_SAFETY_COUNTER_INC f sc) =
     f (\<lambda>n. n + 1) (g_memory_safety_counters sc) \<and>
   (if llps_memory_safety_counters_are_valid sc
    then llps_memory_safety_counters_are_valid (LLPS_MEMORY_SAFETY_COUNTER_INC f sc) =
           (llps_memory_safety_counters_compute_crc
              (g_memory_safety_counters (LLPS_MEMORY_SAFETY_COUNTER_INC f sc)) \<noteq> 0)
    else g_memory_safety_counters_crc (LLPS_MEMORY_SAFETY_COUNTER_INC f sc) =
           g_memory_safety_counters_crc sc \<and>
         g_memory_safety_counters_crc_inverse (LLPS_MEMORY_SAFETY_COUNTER_INC f sc) =
           g_memory_safety_counters_crc_inverse sc)"
  by (simp add: LLPS_MEMORY_SAFETY_COUNTER_INC_def Let_def)

text \<open>
  after sealing, any change confined to one 32 bit half of one of the 44 counters is
  detected: whatever block carries the changed counter under the old checksum is not valid.
\<close>

theorem counter_corruption_detected:
  assumes "counter_words bad = (counter_words (g_memory_safety_counters sc))[i := w]" "i < 44"
    and "w \<noteq> counter_words (g_memory_safety_counters sc) ! i"
    and "take_bit 32 w = take_bit 32 (counter_words (g_memory_safety_counters sc) ! i) \<or>
         drop_bit 32 w = drop_bit 32 (counter_words (g_memory_safety_counters sc) ! i)"
  shows "\<not> llps_memory_safety_counters_are_valid
    ((llps_memory_safety_counters_seal sc)\<lparr>g_memory_safety_counters := bad\<rparr>)"
proof -
  have "foldl llps_crc32_update_u64 LLPS_SESSION_CRC_INIT (counter_words bad) \<noteq>
      foldl llps_crc32_update_u64 LLPS_SESSION_CRC_INIT (counter_words (g_memory_safety_counters sc))"
    using assms by (simp add: foldl_update_u64_half_change length_counter_words)
  then have "llps_memory_safety_counters_compute_crc bad \<noteq>
      llps_memory_safety_counters_compute_crc (g_memory_safety_counters sc)"
    by (simp add: compute_crc_eq xor_simps)
  then show ?thesis
    by (auto simp: llps_memory_safety_counters_are_valid_def llps_memory_safety_counters_seal_def Let_def)
qed

theorem counter_corruption_detected_witness:
  "\<not> llps_memory_safety_counters_are_valid
    ((llps_memory_safety_counters_seal \<lparr>g_memory_safety_counters = zero_counters,
        g_memory_safety_counters_crc = 0, g_memory_safety_counters_crc_inverse = 0\<rparr>)
      \<lparr>g_memory_safety_counters := zero_counters\<lparr>tmr_majority_failures := 7\<rparr>\<rparr>)"
  by (rule counter_corruption_detected [of _ _ 1 7])
    (simp_all add: zero_counters_def counter_words_def drop_bit_eq_div)

text \<open>
  C32: a valid block can become invalid by a single regular increment. The validity test asks for
  a non-zero checksum, and there are counter values whose checksum is zero, so a block that was
  sealed without any fault is rejected, and is never resealed afterwards.
\<close>

theorem counter_increment_can_invalidate:
  "\<exists>sc. llps_memory_safety_counters_are_valid sc \<and>
     \<not> llps_memory_safety_counters_are_valid
         (LLPS_MEMORY_SAFETY_COUNTER_INC readiness_runtime_observation_digest_failures_update sc)"
proof -
  let ?crc = "\<lambda>w. llps_memory_safety_counters_compute_crc
    (zero_counters\<lparr>readiness_runtime_observation_digest_failures := w\<rparr>)"
  have half: "?crc v \<noteq> ?crc w"
    if "v \<noteq> w" "take_bit 32 v = take_bit 32 w \<or> drop_bit 32 v = drop_bit 32 w" for v w
    using update_u64_half_change [OF that]
    by (simp add: compute_crc_eq counter_words_def zero_counters_def xor_simps)
  obtain w where "?crc w \<noteq> 0" "?crc (w + 1) = 0"
    using half_injective_hits_zero [of ?crc] half by blast
  then show ?thesis
    by (intro exI [of _ "llps_memory_safety_counters_seal
        \<lparr>g_memory_safety_counters = zero_counters\<lparr>readiness_runtime_observation_digest_failures := w\<rparr>,
         g_memory_safety_counters_crc = 0, g_memory_safety_counters_crc_inverse = 0\<rparr>"])
      (simp add: LLPS_MEMORY_SAFETY_COUNTER_INC_def Let_def o_def)
qed

end
