(* ===== verification/Tmr_Vote.thy ===== *)
theory Tmr_Vote
  imports LLPS_Prelude
begin

text \<open>
  Triple modular redundancy: the pair selection of \<^verbatim>\<open>src/tmr/llps_tmr_vote.c\<close> and the
  contract of a value kept in three redundant banks. The control flag, the runtime
  configuration and the free list each keep such a value; they interpret the locale
  \<open>tmr_bank\<close> below and take their fault-tolerance results from it.
\<close>

section \<open>Definitions\<close>

abbreviation LLPS_SESSION_TMR_BANK_COUNT :: nat where
  "LLPS_SESSION_TMR_BANK_COUNT \<equiv> 3"

text \<open>\<open>None\<close> is the result \<^verbatim>\<open>false\<close>, \<open>Some k\<close> is \<^verbatim>\<open>true\<close> with the majority index \<open>k\<close>.\<close>

definition llps_tmr_vote_find_matching_pair ::
    "bool list \<Rightarrow> bool \<Rightarrow> bool \<Rightarrow> bool \<Rightarrow> nat option" where
  "llps_tmr_vote_find_matching_pair valid equal_01 equal_02 equal_12 =
     (if valid ! 0 \<and> valid ! 1 \<and> equal_01 then Some 0
      else if valid ! 0 \<and> valid ! 2 \<and> equal_02 then Some 0
      else if valid ! 1 \<and> valid ! 2 \<and> equal_12 then Some 1
      else None)"

text \<open>
  The shape every reconcile routine of the sources has: validate the banks, take the snapshot of
  each valid one, vote, and rewrite the banks that are invalid or disagree. The parameters are
  the component's own validity test, snapshot, zero snapshot, comparison and bank writer; \<open>'c\<close>
  is the state of the safety counters, bumped once per rewritten bank or once on failure.
\<close>

definition tmr_repair_divergent_banks ::
    "('s \<Rightarrow> 's \<Rightarrow> bool) \<Rightarrow> (nat \<Rightarrow> 's \<Rightarrow> 'b) \<Rightarrow> ('c \<Rightarrow> 'c) \<Rightarrow> bool list \<Rightarrow> 's list \<Rightarrow> 's \<Rightarrow>
     'b list \<times> 'c \<Rightarrow> 'b list \<times> 'c" where
  "tmr_repair_divergent_banks snap_equal bank_from count_repair valid snapshots majority st =
     foldl (\<lambda>(banks, c) i.
         if \<not> valid ! i \<or> \<not> snap_equal (snapshots ! i) majority
         then (banks[i := bank_from i majority], count_repair c) else (banks, c))
       st [0..<LLPS_SESSION_TMR_BANK_COUNT]"

definition tmr_reconcile ::
    "(nat \<Rightarrow> 'b \<Rightarrow> bool) \<Rightarrow> ('b \<Rightarrow> 's) \<Rightarrow> 's \<Rightarrow> ('s \<Rightarrow> 's \<Rightarrow> bool) \<Rightarrow> (nat \<Rightarrow> 's \<Rightarrow> 'b) \<Rightarrow>
     ('c \<Rightarrow> 'c) \<Rightarrow> ('c \<Rightarrow> 'c) \<Rightarrow> 'b list \<Rightarrow> 'c \<Rightarrow> 's option \<times> 'b list \<times> 'c" where
  "tmr_reconcile is_valid snapshot zero snap_equal bank_from count_repair count_failure banks c =
     (let valid = map (\<lambda>i. is_valid i (banks ! i)) [0..<LLPS_SESSION_TMR_BANK_COUNT];
          snapshots = map (\<lambda>i. if valid ! i then snapshot (banks ! i) else zero)
            [0..<LLPS_SESSION_TMR_BANK_COUNT];
          valid_count = length (filter id valid)
      in if valid_count < 2 then (None, banks, count_failure c)
         else (case llps_tmr_vote_find_matching_pair valid
                     (snap_equal (snapshots ! 0) (snapshots ! 1))
                     (snap_equal (snapshots ! 0) (snapshots ! 2))
                     (snap_equal (snapshots ! 1) (snapshots ! 2)) of
                 None \<Rightarrow> (None, banks, count_failure c)
               | Some k \<Rightarrow>
                   (let majority = snapshots ! k;
                        (banks', c') = tmr_repair_divergent_banks snap_equal bank_from count_repair
                          valid snapshots majority (banks, c)
                    in (Some majority, banks', c'))))"

text \<open>A freshly written set of banks.\<close>

definition tmr_write_all :: "(nat \<Rightarrow> 's \<Rightarrow> 'b) \<Rightarrow> 's \<Rightarrow> 'b list" where
  "tmr_write_all bank_from s = map (\<lambda>i. bank_from i s) [0..<LLPS_SESSION_TMR_BANK_COUNT]"

section \<open>Lists of three\<close>

lemma upt_bank_count: "[0..<3] = [0, 1, 2 :: nat]"
  by (simp add: upt_rec)

lemma less_3_cases: "i < 3 \<longleftrightarrow> i = 0 \<or> i = 1 \<or> i = (2 :: nat)"
  by auto

lemma length_3_iff: "length xs = 3 \<longleftrightarrow> (\<exists>a b c. xs = [a, b, c])"
  by (auto simp: numeral_3_eq_3 length_Suc_conv)

lemma other_two: "\<exists>i j :: nat. i < 3 \<and> j < 3 \<and> i \<noteq> j \<and> i \<noteq> k \<and> j \<noteq> k"
  by (rule exI [of _ "if k = 0 then 1 else 0"], rule exI [of _ "if k = 2 then 1 else 2"]) auto

lemma restore_three:
  assumes "length saved = 3" "length banks = 3"
  shows "foldl (\<lambda>banks i. banks[i := map (\<lambda>i. saved ! i) [0..<3] ! i]) banks [0..<3] = saved"
  using assms by (auto simp: upt_bank_count length_3_iff)

lemmas bank_count_simps = upt_bank_count less_3_cases length_3_iff

text \<open>A loop that rewrites the banks a test picks, counting them.\<close>

lemma rewrite_loop:
  assumes "length banks = 3"
  shows "foldl (\<lambda>(banks, c) i. if d i then (banks[i := w i], f c) else (banks, c)) (banks, c) [0..<3] =
    (map (\<lambda>i. if d i then w i else banks ! i) [0..<3], (f ^^ length (filter d [0..<3])) c)"
proof -
  obtain b0 b1 b2 where "banks = [b0, b1, b2]" using assms by (auto simp: length_3_iff)
  then show ?thesis
    unfolding upt_bank_count by (cases "d 0"; cases "d 1"; cases "d 2") simp_all
qed

section \<open>The pair selection\<close>

lemma find_matching_pair_sound:
  assumes "llps_tmr_vote_find_matching_pair [v0, v1, v2] e01 e02 e12 = Some k"
  shows "(k = 0 \<and> v0 \<and> v1 \<and> e01) \<or> (k = 0 \<and> v0 \<and> v2 \<and> e02) \<or> (k = 1 \<and> v1 \<and> v2 \<and> e12)"
  using assms by (auto simp: llps_tmr_vote_find_matching_pair_def split: if_splits)

lemma find_matching_pair_None:
  "llps_tmr_vote_find_matching_pair [v0, v1, v2] e01 e02 e12 = None \<longleftrightarrow>
     \<not> (v0 \<and> v1 \<and> e01) \<and> \<not> (v0 \<and> v2 \<and> e02) \<and> \<not> (v1 \<and> v2 \<and> e12)"
  by (auto simp: llps_tmr_vote_find_matching_pair_def)

text \<open>What a caller does with the outcome of a vote can be pushed into the branches of the vote.\<close>

lemma case_vote:
  "(case (if few then (None, banks, c)
          else (case pair of
                  None \<Rightarrow> (None, banks, c)
                | Some k \<Rightarrow> (case rewrite k of (banks', c') \<Rightarrow> (Some (value k), banks', c')))) of
      (r, banks', c') \<Rightarrow> h r banks' c') =
   (if few then h None banks c
    else (case pair of
            None \<Rightarrow> h None banks c
          | Some k \<Rightarrow> (case rewrite k of (banks', c') \<Rightarrow> h (Some (value k)) banks' c')))"
  by (simp split: option.split prod.split)

section \<open>The contract of a triply kept value\<close>

locale tmr_bank =
  fixes is_valid :: "nat \<Rightarrow> 'b \<Rightarrow> bool"
    and snapshot :: "'b \<Rightarrow> 's"
    and zero :: 's
    and snap_equal :: "'s \<Rightarrow> 's \<Rightarrow> bool"
    and bank_from :: "nat \<Rightarrow> 's \<Rightarrow> 'b"
    and ok :: "'s \<Rightarrow> bool"
    and count_repair :: "'c \<Rightarrow> 'c"
    and count_failure :: "'c \<Rightarrow> 'c"
  assumes valid_from: "ok s \<Longrightarrow> i < 3 \<Longrightarrow> is_valid i (bank_from i s)"
    and snapshot_from: "ok s \<Longrightarrow> i < 3 \<Longrightarrow> snapshot (bank_from i s) = s"
    and valid_ok: "is_valid i b \<Longrightarrow> ok (snapshot b)"
    and equal_iff: "ok s \<Longrightarrow> ok t \<Longrightarrow> snap_equal s t \<longleftrightarrow> s = t"
begin

text \<open>Bank \<open>i\<close> holds \<open>s\<close>: it passes validation and its snapshot is \<open>s\<close>.\<close>

definition holds :: "'b list \<Rightarrow> nat \<Rightarrow> 's \<Rightarrow> bool" where
  "holds banks i s \<longleftrightarrow> is_valid i (banks ! i) \<and> snapshot (banks ! i) = s"

definition reconcile :: "'b list \<Rightarrow> 'c \<Rightarrow> 's option \<times> 'b list \<times> 'c" where
  "reconcile = tmr_reconcile is_valid snapshot zero snap_equal bank_from count_repair count_failure"

text \<open>What the vote returns, the banks it leaves and how many it rewrites.\<close>

definition voted :: "'b list \<Rightarrow> 's option" where
  "voted banks =
     (if is_valid 0 (banks ! 0) \<and> holds banks 1 (snapshot (banks ! 0)) then Some (snapshot (banks ! 0))
      else if is_valid 0 (banks ! 0) \<and> holds banks 2 (snapshot (banks ! 0)) then Some (snapshot (banks ! 0))
      else if is_valid 1 (banks ! 1) \<and> holds banks 2 (snapshot (banks ! 1)) then Some (snapshot (banks ! 1))
      else None)"

definition repaired :: "'b list \<Rightarrow> 's \<Rightarrow> 'b list" where
  "repaired banks s = map (\<lambda>k. if holds banks k s then banks ! k else bank_from k s) [0..<3]"

definition divergent :: "'b list \<Rightarrow> 's \<Rightarrow> nat" where
  "divergent banks s = length (filter (\<lambda>k. \<not> holds banks k s) [0..<3])"

lemma holds_unique: "holds banks i s \<Longrightarrow> holds banks i t \<Longrightarrow> s = t"
  by (simp add: holds_def)

lemma holds_write_all: "ok s \<Longrightarrow> i < 3 \<Longrightarrow> holds (tmr_write_all bank_from s) i s"
  by (auto simp: holds_def tmr_write_all_def valid_from snapshot_from bank_count_simps)

text \<open>The rewrite loop keeps the banks that hold the majority and rewrites the others.\<close>

lemma repair_eq:
  assumes ok: "ok s" "\<And>i. i < 3 \<Longrightarrow> valid ! i \<Longrightarrow> ok (ts ! i)" and banks: "length banks = 3"
  shows "tmr_repair_divergent_banks snap_equal bank_from count_repair valid ts s (banks, c) =
    (map (\<lambda>i. if valid ! i \<and> ts ! i = s then banks ! i else bank_from i s) [0..<3],
     (count_repair ^^ length (filter (\<lambda>i. \<not> (valid ! i \<and> ts ! i = s)) [0..<3])) c)"
proof -
  define d where "d i \<longleftrightarrow> \<not> valid ! i \<or> \<not> snap_equal (ts ! i) s" for i
  have d: "d i \<longleftrightarrow> \<not> (valid ! i \<and> ts ! i = s)" if "i < 3" for i
    using ok equal_iff that by (auto simp: d_def)
  have "tmr_repair_divergent_banks snap_equal bank_from count_repair valid ts s (banks, c) =
      (map (\<lambda>i. if d i then bank_from i s else banks ! i) [0..<3],
       (count_repair ^^ length (filter d [0..<3])) c)"
    unfolding tmr_repair_divergent_banks_def by (simp only: flip: d_def) (rule rewrite_loop [OF banks])
  also have "map (\<lambda>i. if d i then bank_from i s else banks ! i) [0..<3] =
      map (\<lambda>i. if valid ! i \<and> ts ! i = s then banks ! i else bank_from i s) [0..<3]"
    by (rule map_cong) (auto simp: d)
  also have "filter d [0..<3] = filter (\<lambda>i. \<not> (valid ! i \<and> ts ! i = s)) [0..<3]"
    by (rule filter_cong) (auto simp: d)
  finally show ?thesis .
qed

lemma pair_eq:
  assumes "\<And>i. i < 3 \<Longrightarrow> valid ! i \<Longrightarrow> ok (ts ! i)"
  shows "llps_tmr_vote_find_matching_pair valid (snap_equal (ts ! 0) (ts ! 1))
      (snap_equal (ts ! 0) (ts ! 2)) (snap_equal (ts ! 1) (ts ! 2)) =
    llps_tmr_vote_find_matching_pair valid (ts ! 0 = ts ! 1) (ts ! 0 = ts ! 2) (ts ! 1 = ts ! 2)"
  using assms [of 0] assms [of 1] assms [of 2] equal_iff
  by (cases "valid ! 0"; cases "valid ! 1"; cases "valid ! 2")
    (simp_all add: llps_tmr_vote_find_matching_pair_def)

lemma reconcile_eq:
  assumes "length banks = 3"
  shows "reconcile banks c =
    (case voted banks of
       None \<Rightarrow> (None, banks, count_failure c)
     | Some s \<Rightarrow> (Some s, repaired banks s, (count_repair ^^ divergent banks s) c))"
proof -
  define valid where "valid = map (\<lambda>i. is_valid i (banks ! i)) [0..<3]"
  define ts where "ts = map (\<lambda>i. if valid ! i then snapshot (banks ! i) else zero) [0..<3]"
  have v: "valid ! i \<longleftrightarrow> is_valid i (banks ! i)" if "i < 3" for i using that by (simp add: valid_def)
  have t: "ts ! i = (if valid ! i then snapshot (banks ! i) else zero)" if "i < 3" for i
    using that by (simp add: ts_def)
  have h: "valid ! i \<and> ts ! i = s \<longleftrightarrow> holds banks i s" if "i < 3" for i s
    using that by (auto simp: v t holds_def)
  have ok: "ok (ts ! i)" if "i < 3" "valid ! i" for i
    using that valid_ok by (auto simp: v t)
  have rep: "tmr_repair_divergent_banks snap_equal bank_from count_repair valid ts s (banks, c) =
      (repaired banks s, (count_repair ^^ divergent banks s) c)" if "ok s" for s
  proof -
    have "map (\<lambda>i. if valid ! i \<and> ts ! i = s then banks ! i else bank_from i s) [0..<3] =
        repaired banks s"
      unfolding repaired_def by (rule map_cong) (auto simp: h)
    moreover have "filter (\<lambda>i. \<not> (valid ! i \<and> ts ! i = s)) [0..<3] =
        filter (\<lambda>i. \<not> holds banks i s) [0..<3]"
      by (rule filter_cong) (auto simp: h)
    ultimately show ?thesis using repair_eq [OF that ok assms] by (simp add: divergent_def)
  qed
  define pair where "pair = llps_tmr_vote_find_matching_pair valid (ts ! 0 = ts ! 1) (ts ! 0 = ts ! 2)
      (ts ! 1 = ts ! 2)"
  have vt: "voted banks = map_option (\<lambda>k. ts ! k) pair"
    by (cases "valid ! 0"; cases "valid ! 1"; cases "valid ! 2")
      (simp_all add: pair_def llps_tmr_vote_find_matching_pair_def voted_def holds_def t v)
  have few: "pair = None" if "length (filter id valid) < 2"
    using that unfolding pair_def valid_def upt_bank_count
    by (cases "is_valid 0 (banks ! 0)"; cases "is_valid 1 (banks ! 1)"; cases "is_valid 2 (banks ! 2)")
      (simp_all add: find_matching_pair_None)
  have okp: "ok (ts ! k)" if "pair = Some k" for k
    using that ok [of 0] ok [of 1] unfolding pair_def llps_tmr_vote_find_matching_pair_def
    by (auto split: if_splits)
  have pe: "llps_tmr_vote_find_matching_pair valid (snap_equal (ts ! 0) (ts ! 1))
      (snap_equal (ts ! 0) (ts ! 2)) (snap_equal (ts ! 1) (ts ! 2)) = pair"
    unfolding pair_def by (rule pair_eq) (rule ok)
  have "reconcile banks c = (case pair of None \<Rightarrow> (None, banks, count_failure c)
      | Some k \<Rightarrow> (case tmr_repair_divergent_banks snap_equal bank_from count_repair valid ts (ts ! k) (banks, c) of
          (banks', c') \<Rightarrow> (Some (ts ! k), banks', c')))"
    unfolding reconcile_def tmr_reconcile_def Let_def valid_def [symmetric] ts_def [symmetric]
      pe
    using few by simp
  also have "\<dots> = (case voted banks of
       None \<Rightarrow> (None, banks, count_failure c)
     | Some s \<Rightarrow> (Some s, repaired banks s, (count_repair ^^ divergent banks s) c))"
    unfolding vt using rep okp by (cases pair) simp_all
  finally show ?thesis .
qed

text \<open>Two banks that hold the same value decide the vote.\<close>

lemma voted_agree:
  assumes "i < 3" "j < 3" "i \<noteq> j" "holds banks i s" "holds banks j s"
  shows "voted banks = Some s"
  using assms unfolding less_3_cases voted_def holds_def by (elim disjE) simp_all

lemma voted_sound:
  assumes "voted banks = Some s"
  shows "\<exists>i j. i < 3 \<and> j < 3 \<and> i \<noteq> j \<and> holds banks i s \<and> holds banks j s"
proof -
  have "(holds banks 0 s \<and> holds banks 1 s) \<or> (holds banks 0 s \<and> holds banks 2 s) \<or>
      (holds banks 1 s \<and> holds banks 2 s)"
    using assms by (auto simp: voted_def holds_def split: if_splits)
  moreover have "(0 :: nat) < 3" "(1 :: nat) < 3" "(2 :: nat) < 3" "(0 :: nat) \<noteq> 1" "(0 :: nat) \<noteq> 2"
    "(1 :: nat) \<noteq> 2" by simp_all
  ultimately show ?thesis by blast
qed

lemma voted_None_iff:
  "voted banks = None \<longleftrightarrow> \<not> (\<exists>s i j. i < 3 \<and> j < 3 \<and> i \<noteq> j \<and> holds banks i s \<and> holds banks j s)"
  using voted_agree voted_sound by (metis not_None_eq)

lemma holds_ok: "holds banks i s \<Longrightarrow> ok s"
  by (auto simp: holds_def valid_ok)

lemma holds_repaired: "ok s \<Longrightarrow> i < 3 \<Longrightarrow> holds (repaired banks s) i s"
  by (auto simp: holds_def repaired_def valid_from snapshot_from)

lemma length_repaired [simp]: "length (repaired banks s) = 3"
  by (simp add: repaired_def)

lemma repaired_nth: "k < 3 \<Longrightarrow> repaired banks s ! k = (if holds banks k s then banks ! k else bank_from k s)"
  by (simp add: repaired_def)

text \<open>Agreement: any two agreeing banks win, and afterwards all three hold the value.\<close>

theorem reconcile_agree:
  assumes "length banks = 3" "i < 3" "j < 3" "i \<noteq> j" "holds banks i s" "holds banks j s"
  shows "fst (reconcile banks c) = Some s \<and>
    (\<forall>k < 3. holds (fst (snd (reconcile banks c))) k s)"
proof -
  have "voted banks = Some s" using assms(2-) by (rule voted_agree)
  then show ?thesis using holds_ok [OF assms(5)]
    by (simp add: reconcile_eq [OF assms(1)] holds_repaired)
qed

text \<open>Soundness: a value that is returned is held by two different banks.\<close>

theorem reconcile_sound:
  assumes "length banks = 3" "reconcile banks c = (Some s, banks', c')"
  shows "(\<exists>i j. i < 3 \<and> j < 3 \<and> i \<noteq> j \<and> holds banks i s \<and> holds banks j s) \<and> length banks' = 3"
  using assms voted_sound by (auto simp: reconcile_eq split: option.splits)

text \<open>Fail closed: without two agreeing banks nothing is returned and nothing is written.\<close>

theorem reconcile_fails_iff:
  assumes "length banks = 3"
  shows "fst (reconcile banks c) = None \<longleftrightarrow>
    \<not> (\<exists>s i j. i < 3 \<and> j < 3 \<and> i \<noteq> j \<and> holds banks i s \<and> holds banks j s)"
  unfolding voted_None_iff [symmetric] by (simp add: reconcile_eq [OF assms] split: option.splits)

theorem reconcile_fails:
  assumes "length banks = 3" "fst (reconcile banks c) = None"
  shows "reconcile banks c = (None, banks, count_failure c)"
  using assms by (simp add: reconcile_eq split: option.splits)

text \<open>One bank may be replaced by anything at all: the others restore it.\<close>

theorem reconcile_masks_one_bank:
  assumes s: "ok s" and k: "k < 3"
  shows "fst (reconcile ((tmr_write_all bank_from s)[k := b]) c) = Some s \<and>
    (\<forall>m < 3. holds (fst (snd (reconcile ((tmr_write_all bank_from s)[k := b]) c))) m s)"
proof -
  obtain i j where ij: "i < 3" "j < 3" "i \<noteq> j" "i \<noteq> k" "j \<noteq> k"
    using other_two by blast
  have "holds ((tmr_write_all bank_from s)[k := b]) m s" if "m < 3" "m \<noteq> k" for m
    using holds_write_all [OF s that(1)] that(2) by (simp add: holds_def)
  then show ?thesis using ij
    by (intro reconcile_agree [of _ i j]) (simp_all add: tmr_write_all_def)
qed

text \<open>The three situations the startup self-tests build.\<close>

lemma reconcile_spared:
  assumes len: "length banks = 3" and held: "\<And>i. i < 3 \<Longrightarrow> i \<noteq> k \<Longrightarrow> holds banks i s"
  shows "\<exists>banks' c'. reconcile banks c = (Some s, banks', c') \<and> length banks' = 3 \<and>
    (\<forall>i < 3. holds banks' i s)"
proof -
  obtain i j where ij: "i < 3" "j < 3" "i \<noteq> j" "i \<noteq> k" "j \<noteq> k" using other_two by blast
  have h: "holds banks i s" "holds banks j s" using ij held by blast+
  obtain r b d where r: "reconcile banks c = (r, b, d)" by (cases "reconcile banks c") auto
  have "r = Some s" "\<forall>m < 3. holds b m s"
    using reconcile_agree [OF len ij(1-3) h, of c] by (simp_all add: r)
  moreover have "length b = 3" using reconcile_sound [OF len] r \<open>r = Some s\<close> by blast
  ultimately show ?thesis using r by blast
qed

lemma reconcile_no_pair:
  assumes len: "length banks = 3"
    and no: "\<And>i j. i < j \<Longrightarrow> j < 3 \<Longrightarrow> is_valid i (banks ! i) \<Longrightarrow> is_valid j (banks ! j) \<Longrightarrow>
      snapshot (banks ! i) \<noteq> snapshot (banks ! j)"
  shows "reconcile banks c = (None, banks, count_failure c)"
proof -
  have "\<not> (\<exists>s i j. i < 3 \<and> j < 3 \<and> i \<noteq> j \<and> holds banks i s \<and> holds banks j s)"
  proof (rule notI, elim exE conjE)
    fix s i j assume "i < 3" "j < 3" "i \<noteq> j" "holds banks i s" "holds banks j s"
    then show False using no [of i j] no [of j i] unfolding holds_def by (cases "i < j") auto
  qed
  then show ?thesis using reconcile_fails [OF len] reconcile_fails_iff [OF len] by blast
qed

lemma reconcile_two_dead:
  assumes "length banks = 3" "\<not> is_valid 0 (banks ! 0)" "\<not> is_valid 1 (banks ! 1)"
  shows "reconcile banks c = (None, banks, count_failure c)"
proof (rule reconcile_no_pair [OF assms(1)])
  fix i j :: nat assume "i < j" "j < 3" "is_valid i (banks ! i)"
  then have "i = 0 \<or> i = 1" by auto
  then show "snapshot (banks ! i) \<noteq> snapshot (banks ! j)"
    using assms(2,3) \<open>is_valid i (banks ! i)\<close> by auto
qed

text \<open>A second vote finds nothing to do.\<close>

theorem reconcile_idem:
  assumes "length banks = 3" "reconcile banks c = (Some s, banks', c')"
  shows "reconcile banks' c'' = (Some s, banks', c'')"
proof -
  from assms have v: "voted banks = Some s" and b: "banks' = repaired banks s"
    by (auto simp: reconcile_eq split: option.splits)
  have s: "ok s" using voted_sound [OF v] holds_ok by blast
  have all: "holds banks' k s" if "k < 3" for k using that s by (simp add: b holds_repaired)
  have "voted banks' = Some s" by (rule voted_agree [of 0 1]) (simp_all add: all)
  moreover have "repaired banks' s = banks'"
    using all b by (intro nth_equalityI) (simp_all add: repaired_nth)
  moreover have "divergent banks' s = 0" by (simp add: divergent_def all)
  ultimately show ?thesis using b by (simp add: reconcile_eq)
qed

end

end
