(* ===== verification/Config.thy ===== *)
theory Config
  imports Crc Tmr_Vote
begin

text \<open>
  The runtime configuration record of \<^verbatim>\<open>include/llps/llps.h\<close> and its validation:
  \<^verbatim>\<open>src/config/llps_config_validate.c\<close>, the domain-id tests of \<^verbatim>\<open>src/platform/llps_domain.c\<close>
  and the attestation fingerprint of \<^verbatim>\<open>src/platform/llps_platform.c\<close>.

  A fixed-size C array is the list of its elements; a text field is the list of its bytes. A loop
  over a whole array is the list function over it.
\<close>

section \<open>Definitions\<close>

datatype llps_status_t =
  LLPS_OK | LLPS_E_NULL | LLPS_E_RANGE | LLPS_E_STATE | LLPS_E_SOCKET | LLPS_E_IO | LLPS_E_RUNTIME

record llps_yml_config_t =
  max_clients :: u32
  buffer_size :: u32
  payload_ecc_enabled :: u32
  listen_host :: "u8 list"
  listen_port :: u16
  target_ip :: "u8 list"
  target_port :: u16
  listen_backlog :: u32
  accept_batch_max :: u32
  session_idle_timeout_ms :: u32
  max_sessions_per_client_ip :: u32
  max_new_sessions_per_client_ip_per_window :: u32
  client_ip_rate_window_ms :: u32
  client_preface_timeout_ms :: u32
  protocol_handshake_gate_enabled :: u32
  ip_audit_enabled :: u32
  ip_audit_path :: "u8 list"
  audit_mac_enabled :: u32
  audit_mac_key_path :: "u8 list"
  require_readiness :: u32
  platform_safety_flags :: u32
  platform_safety_evidence_id :: u64
  platform_attestation_fingerprint :: u32
  platform_observation_digest :: u32
  platform_evidence_mode :: u32
  platform_physical_memory_domains :: "u32 list"
  platform_hardware_tmr_domains :: "u32 list"
  platform_hardware_tmr_voter_domain :: u32
  software_ecc_enabled :: u32
  software_ecc_controller_count :: u32
  software_ecc_dimm_count :: u32
  software_ecc_scrub_rate :: u64
  software_ecc_controller_corrected_error_count :: u64
  software_ecc_controller_uncorrected_error_count :: u64
  software_ecc_dimm_corrected_error_count :: u64
  software_ecc_dimm_uncorrected_error_count :: u64
  software_numa_enabled :: u32
  software_numa_memtotal_kib :: u64
  software_numa_local_distance :: u64
  software_numa_remote_distance :: u64
  software_fault_injection_mode :: u32
  evidence_mac_enabled :: u32
  evidence_mac_key_path :: "u8 list"

abbreviation LLPS_MAX_CLIENTS :: u32 where
  "LLPS_MAX_CLIENTS \<equiv> 256"

abbreviation LLPS_BUFFER_SIZE :: u32 where
  "LLPS_BUFFER_SIZE \<equiv> 4096"

abbreviation LLPS_YML_MAX_TEXT :: nat where
  "LLPS_YML_MAX_TEXT \<equiv> 256"

abbreviation LLPS_PLATFORM_EVIDENCE_ECC_MEMORY :: u32 where
  "LLPS_PLATFORM_EVIDENCE_ECC_MEMORY \<equiv> 1"

abbreviation LLPS_PLATFORM_EVIDENCE_ECC_CLEAN :: u32 where
  "LLPS_PLATFORM_EVIDENCE_ECC_CLEAN \<equiv> 2"

abbreviation LLPS_PLATFORM_EVIDENCE_PHYS_SEP :: u32 where
  "LLPS_PLATFORM_EVIDENCE_PHYS_SEP \<equiv> 4"

abbreviation LLPS_PLATFORM_EVIDENCE_HW_TMR :: u32 where
  "LLPS_PLATFORM_EVIDENCE_HW_TMR \<equiv> 8"

abbreviation LLPS_PLATFORM_EVIDENCE_REQUIRED :: u32 where
  "LLPS_PLATFORM_EVIDENCE_REQUIRED \<equiv> 15"

abbreviation LLPS_PLATFORM_EVIDENCE_EXTERNAL_MASK :: u32 where
  "LLPS_PLATFORM_EVIDENCE_EXTERNAL_MASK \<equiv> 12"

subsection \<open>Domain ids\<close>

definition llps_domain_ids_are_distinct :: "u32 list \<Rightarrow> bool" where
  "llps_domain_ids_are_distinct ids \<longleftrightarrow>
     ids ! 0 \<noteq> 0 \<and> ids ! 1 \<noteq> 0 \<and> ids ! 2 \<noteq> 0 \<and>
     ids ! 0 \<noteq> ids ! 1 \<and> ids ! 0 \<noteq> ids ! 2 \<and> ids ! 1 \<noteq> ids ! 2"

definition llps_domain_ids_are_zero :: "u32 list \<Rightarrow> bool" where
  "llps_domain_ids_are_zero ids \<longleftrightarrow>
     list_all (\<lambda>i. \<not> ids ! i \<noteq> 0) [0..<LLPS_SESSION_TMR_BANK_COUNT]"

definition llps_domain_id_sets_are_disjoint :: "u32 list \<Rightarrow> u32 list \<Rightarrow> bool" where
  "llps_domain_id_sets_are_disjoint lhs rhs \<longleftrightarrow>
     list_all (\<lambda>i. list_all (\<lambda>j. \<not> (lhs ! i = 0 \<or> rhs ! j = 0 \<or> lhs ! i = rhs ! j))
       [0..<LLPS_SESSION_TMR_BANK_COUNT]) [0..<LLPS_SESSION_TMR_BANK_COUNT]"

definition llps_domain_id_is_disjoint_from_set :: "u32 list \<Rightarrow> u32 \<Rightarrow> bool" where
  "llps_domain_id_is_disjoint_from_set ids domain_id \<longleftrightarrow>
     (if domain_id = 0 then False
      else list_all (\<lambda>i. \<not> (ids ! i = 0 \<or> ids ! i = domain_id)) [0..<LLPS_SESSION_TMR_BANK_COUNT])"

definition llps_domain_ids_match :: "u32 list \<Rightarrow> u32 list \<Rightarrow> bool" where
  "llps_domain_ids_match lhs rhs \<longleftrightarrow>
     list_all (\<lambda>i. \<not> lhs ! i \<noteq> rhs ! i) [0..<LLPS_SESSION_TMR_BANK_COUNT]"

subsection \<open>The platform attestation fingerprint\<close>

definition llps_platform_attestation_inputs_invalid ::
    "u32 \<Rightarrow> u64 \<Rightarrow> u32 list \<Rightarrow> u32 list \<Rightarrow> u32 \<Rightarrow> bool" where
  "llps_platform_attestation_inputs_invalid flags evidence_id physical hardware voter =
     (let attested_flags = flags AND LLPS_PLATFORM_EVIDENCE_EXTERNAL_MASK
      in flags AND NOT LLPS_PLATFORM_EVIDENCE_REQUIRED \<noteq> 0 \<or>
         attested_flags \<noteq> 0 \<and> evidence_id = 0 \<or>
         attested_flags AND LLPS_PLATFORM_EVIDENCE_PHYS_SEP = 0 \<and>
           \<not> llps_domain_ids_are_zero physical \<or>
         attested_flags AND LLPS_PLATFORM_EVIDENCE_HW_TMR = 0 \<and>
           (\<not> llps_domain_ids_are_zero hardware \<or> voter \<noteq> 0) \<or>
         attested_flags AND LLPS_PLATFORM_EVIDENCE_PHYS_SEP \<noteq> 0 \<and>
           \<not> llps_domain_ids_are_distinct physical \<or>
         attested_flags AND LLPS_PLATFORM_EVIDENCE_HW_TMR \<noteq> 0 \<and>
           (\<not> llps_domain_ids_are_distinct hardware \<or>
            \<not> llps_domain_id_is_disjoint_from_set hardware voter) \<or>
         attested_flags = LLPS_PLATFORM_EVIDENCE_EXTERNAL_MASK \<and>
           (\<not> llps_domain_id_sets_are_disjoint physical hardware \<or>
            \<not> llps_domain_id_is_disjoint_from_set physical voter))"

definition llps_platform_attestation_domains_crc ::
    "u32 \<Rightarrow> u32 \<Rightarrow> u32 list \<Rightarrow> u32 list \<Rightarrow> u32" where
  "llps_platform_attestation_domains_crc crc attested_flags physical hardware =
     foldl (\<lambda>crc i.
         let crc = llps_crc32_update_u32 crc
               (if attested_flags AND LLPS_PLATFORM_EVIDENCE_PHYS_SEP \<noteq> 0 then physical ! i else 0)
         in llps_crc32_update_u32 crc
              (if attested_flags AND LLPS_PLATFORM_EVIDENCE_HW_TMR \<noteq> 0 then hardware ! i else 0))
       (llps_crc32_update_u32 crc 3) [0..<LLPS_SESSION_TMR_BANK_COUNT]"

text \<open>The status and the value left in \<^verbatim>\<open>*out_fingerprint\<close>.\<close>

definition llps_compute_platform_attestation_fingerprint ::
    "u32 \<Rightarrow> u64 \<Rightarrow> u32 list \<Rightarrow> u32 list \<Rightarrow> u32 \<Rightarrow> llps_status_t \<times> u32" where
  "llps_compute_platform_attestation_fingerprint flags evidence_id physical hardware voter =
     (let attested_flags = flags AND LLPS_PLATFORM_EVIDENCE_EXTERNAL_MASK
      in if llps_platform_attestation_inputs_invalid flags evidence_id physical hardware voter
         then (LLPS_E_RANGE, 0)
         else if attested_flags = 0 then (LLPS_OK, 0)
         else
           (let crc = llps_crc32_update_u32 LLPS_SESSION_CRC_INIT 0x5AFE4EED;
                crc = llps_crc32_update_u32 crc 55;
                crc = llps_crc32_update_u32 crc attested_flags;
                crc = llps_crc32_update_u64 crc evidence_id;
                crc = llps_platform_attestation_domains_crc crc attested_flags physical hardware;
                crc = llps_crc32_update_u32 crc
                  (if attested_flags AND LLPS_PLATFORM_EVIDENCE_HW_TMR \<noteq> 0 then voter else 0)
            in (LLPS_OK, llps_nonzero_fingerprint (crc XOR LLPS_SESSION_CRC_XOROUT))))"

subsection \<open>Text fields\<close>

text \<open>The index of the first zero byte below \<open>cap\<close>; \<open>None\<close> is the result \<^verbatim>\<open>false\<close>.\<close>

definition llps_config_bounded_strlen :: "u8 list \<Rightarrow> nat \<Rightarrow> nat option" where
  "llps_config_bounded_strlen text cap =
     (if cap = 0 then None else List.find (\<lambda>i. text ! i = 0) [0..<cap])"

definition llps_config_text_has_nul :: "u8 list \<Rightarrow> nat \<Rightarrow> bool" where
  "llps_config_text_has_nul text cap \<longleftrightarrow> llps_config_bounded_strlen text cap \<noteq> None"

text \<open>The suffix is \<^verbatim>\<open>.pxf\<close>.\<close>

definition llps_config_path_has_pxf_extension :: "u8 list \<Rightarrow> nat \<Rightarrow> bool" where
  "llps_config_path_has_pxf_extension text cap =
     (case llps_config_bounded_strlen text cap of
        None \<Rightarrow> False
      | Some len \<Rightarrow>
          if len \<le> 4 then False else take 4 (drop (len - 4) text) = [46, 112, 120, 102])"

fun parent_component_loop :: "u8 list \<Rightarrow> nat \<Rightarrow> nat \<Rightarrow> nat list \<Rightarrow> bool" where
  "parent_component_loop text len start [] = False"
| "parent_component_loop text len start (i # is) =
     (if i = len \<or> text ! i = 47
      then (let component_len = i - start
            in if component_len = 2 \<and> text ! start = 46 \<and> text ! (start + 1) = 46 then True
               else parent_component_loop text len (i + 1) is)
      else parent_component_loop text len start is)"

definition llps_config_path_has_parent_component :: "u8 list \<Rightarrow> nat \<Rightarrow> bool" where
  "llps_config_path_has_parent_component text len = parent_component_loop text len 0 [0..<len + 1]"

definition path_char_alnum :: "u8 \<Rightarrow> bool" where
  "path_char_alnum c \<longleftrightarrow> 48 \<le> c \<and> c \<le> 57 \<or> 65 \<le> c \<and> c \<le> 90 \<or> 97 \<le> c \<and> c \<le> 122"

definition llps_config_path_is_safe :: "u8 list \<Rightarrow> nat \<Rightarrow> bool \<Rightarrow> bool" where
  "llps_config_path_is_safe text cap allow_empty =
     (case llps_config_bounded_strlen text cap of
        None \<Rightarrow> False
      | Some len \<Rightarrow>
          if len = 0 then allow_empty
          else if text ! 0 \<noteq> 47 \<or> text ! (len - 1) = 47 \<or>
                  llps_config_path_has_parent_component text len
          then False
          else list_all (\<lambda>i.
              let c = text ! i
              in \<not> (\<not> path_char_alnum c \<and> c \<noteq> 47 \<and> c \<noteq> 46 \<and> c \<noteq> 95 \<and> c \<noteq> 45) \<and>
                 \<not> (c = 47 \<and> i > 0 \<and> text ! (i - 1) = 47)) [0..<len])"

text \<open>The text \<^verbatim>\<open>strcmp\<close> reads: the bytes before the first zero.\<close>

definition c_string :: "u8 list \<Rightarrow> u8 list" where
  "c_string text = takeWhile (\<lambda>c. c \<noteq> 0) text"

subsection \<open>Validation\<close>

definition llps_platform_attestation_config_is_valid :: "llps_yml_config_t \<Rightarrow> bool" where
  "llps_platform_attestation_config_is_valid cfg =
     (if platform_safety_flags cfg = 0 \<and> platform_safety_evidence_id cfg = 0 \<and>
         platform_attestation_fingerprint cfg = 0
      then True
      else (case llps_compute_platform_attestation_fingerprint (platform_safety_flags cfg)
              (platform_safety_evidence_id cfg) (platform_physical_memory_domains cfg)
              (platform_hardware_tmr_domains cfg) (platform_hardware_tmr_voter_domain cfg) of
              (status, expected_fingerprint) \<Rightarrow>
                if status \<noteq> LLPS_OK then False
                else if platform_attestation_fingerprint cfg = 0 then require_readiness cfg = 0
                else platform_attestation_fingerprint cfg = expected_fingerprint))"

definition llps_runtime_cfg_core_limits_are_valid :: "llps_yml_config_t \<Rightarrow> bool" where
  "llps_runtime_cfg_core_limits_are_valid cfg \<longleftrightarrow>
     max_clients cfg \<noteq> 0 \<and> max_clients cfg \<le> LLPS_MAX_CLIENTS \<and>
     buffer_size cfg \<noteq> 0 \<and> buffer_size cfg \<le> LLPS_BUFFER_SIZE \<and>
     accept_batch_max cfg \<noteq> 0 \<and> accept_batch_max cfg \<le> 32 \<and>
     accept_batch_max cfg \<le> max_clients cfg \<and>
     listen_backlog cfg \<noteq> 0 \<and> listen_backlog cfg \<le> 256 \<and>
     listen_backlog cfg \<ge> accept_batch_max cfg \<and>
     (session_idle_timeout_ms cfg = 0 \<or>
       session_idle_timeout_ms cfg \<ge> 2000 \<and> session_idle_timeout_ms cfg \<le> 600000) \<and>
     max_sessions_per_client_ip cfg \<le> max_clients cfg \<and>
     max_new_sessions_per_client_ip_per_window cfg \<le> 100000 \<and>
     client_ip_rate_window_ms cfg \<ge> 100 \<and> client_ip_rate_window_ms cfg \<le> 600000 \<and>
     (client_preface_timeout_ms cfg = 0 \<or>
       client_preface_timeout_ms cfg \<ge> 100 \<and> client_preface_timeout_ms cfg \<le> 600000) \<and>
     protocol_handshake_gate_enabled cfg \<le> 1 \<and>
     (protocol_handshake_gate_enabled cfg = 0 \<or> client_preface_timeout_ms cfg \<noteq> 0) \<and>
     listen_port cfg \<noteq> 0 \<and> target_port cfg \<noteq> 0"

definition llps_runtime_cfg_paths_are_valid :: "llps_yml_config_t \<Rightarrow> bool" where
  "llps_runtime_cfg_paths_are_valid cfg \<longleftrightarrow>
     payload_ecc_enabled cfg \<le> 1 \<and> ip_audit_enabled cfg \<le> 1 \<and>
     (ip_audit_enabled cfg = 0 \<or>
       llps_config_path_has_pxf_extension (ip_audit_path cfg) LLPS_YML_MAX_TEXT) \<and>
     audit_mac_enabled cfg \<le> 1 \<and>
     (audit_mac_enabled cfg = 0 \<or>
       ip_audit_enabled cfg \<noteq> 0 \<and>
       llps_config_path_is_safe (audit_mac_key_path cfg) LLPS_YML_MAX_TEXT False) \<and>
     (audit_mac_enabled cfg \<noteq> 0 \<or>
       llps_config_path_is_safe (audit_mac_key_path cfg) LLPS_YML_MAX_TEXT True) \<and>
     evidence_mac_enabled cfg \<le> 1 \<and>
     (evidence_mac_enabled cfg = 0 \<or>
       llps_config_path_is_safe (evidence_mac_key_path cfg) LLPS_YML_MAX_TEXT False) \<and>
     (evidence_mac_enabled cfg \<noteq> 0 \<or>
       llps_config_path_is_safe (evidence_mac_key_path cfg) LLPS_YML_MAX_TEXT True)"

definition llps_runtime_cfg_platform_basics_are_valid :: "llps_yml_config_t \<Rightarrow> bool" where
  "llps_runtime_cfg_platform_basics_are_valid cfg \<longleftrightarrow>
     require_readiness cfg \<le> 1 \<and> platform_evidence_mode cfg \<le> 2 \<and>
     software_ecc_enabled cfg \<le> 1 \<and> software_numa_enabled cfg \<le> 1 \<and>
     software_fault_injection_mode cfg \<le> 3 \<and>
     platform_safety_flags cfg AND NOT LLPS_PLATFORM_EVIDENCE_REQUIRED = 0 \<and>
     llps_config_text_has_nul (listen_host cfg) LLPS_YML_MAX_TEXT \<and>
     llps_config_text_has_nul (target_ip cfg) LLPS_YML_MAX_TEXT"

text \<open>\<^verbatim>\<open>UINT64_MAX / 1024\<close> and \<^verbatim>\<open>UINT64_MAX / 3\<close> are the two scale limits.\<close>

definition llps_runtime_cfg_software_ecc_is_valid :: "llps_yml_config_t \<Rightarrow> bool" where
  "llps_runtime_cfg_software_ecc_is_valid cfg =
     (if software_ecc_enabled cfg = 0
      then software_ecc_controller_count cfg = 0 \<and> software_ecc_dimm_count cfg = 0 \<and>
           software_ecc_scrub_rate cfg = 0 \<and>
           software_ecc_controller_corrected_error_count cfg = 0 \<and>
           software_ecc_controller_uncorrected_error_count cfg = 0 \<and>
           software_ecc_dimm_corrected_error_count cfg = 0 \<and>
           software_ecc_dimm_uncorrected_error_count cfg = 0
      else software_ecc_controller_count cfg \<noteq> 0 \<and> software_ecc_controller_count cfg \<le> 256 \<and>
           software_ecc_dimm_count cfg \<noteq> 0 \<and> software_ecc_dimm_count cfg \<le> 1024 \<and>
           software_ecc_controller_count cfg \<le> software_ecc_dimm_count cfg \<and>
           software_ecc_scrub_rate cfg \<noteq> 0 \<and> software_ecc_scrub_rate cfg \<le> UINT64_MAX div 1024)"

definition llps_runtime_cfg_software_numa_is_valid :: "llps_yml_config_t \<Rightarrow> bool" where
  "llps_runtime_cfg_software_numa_is_valid cfg =
     (if software_numa_enabled cfg = 0
      then software_numa_memtotal_kib cfg = 0 \<and> software_numa_local_distance cfg = 0 \<and>
           software_numa_remote_distance cfg = 0
      else software_numa_memtotal_kib cfg \<noteq> 0 \<and>
           software_numa_memtotal_kib cfg \<le> UINT64_MAX div 3 \<and>
           (software_numa_local_distance cfg = 0) = (software_numa_remote_distance cfg = 0) \<and>
           software_numa_local_distance cfg \<le> 1000000 \<and>
           software_numa_remote_distance cfg \<le> 1000000 \<and>
           (software_numa_local_distance cfg = 0 \<or>
            software_numa_remote_distance cfg > software_numa_local_distance cfg) \<and>
           platform_safety_flags cfg AND LLPS_PLATFORM_EVIDENCE_PHYS_SEP \<noteq> 0)"

definition llps_runtime_cfg_platform_policy_is_valid :: "llps_yml_config_t \<Rightarrow> bool" where
  "llps_runtime_cfg_platform_policy_is_valid cfg =
     (let synthetic = (platform_evidence_mode cfg = 1);
          flags = platform_safety_flags cfg;
          synthetic_ecc_required =
            (flags AND LLPS_PLATFORM_EVIDENCE_ECC_MEMORY \<noteq> 0 \<or>
             flags AND LLPS_PLATFORM_EVIDENCE_ECC_CLEAN \<noteq> 0)
      in (platform_evidence_mode cfg \<noteq> 0 \<or>
            software_ecc_enabled cfg = 0 \<and> software_numa_enabled cfg = 0) \<and>
         (require_readiness cfg = 0 \<or> software_ecc_enabled cfg = 0 \<or> payload_ecc_enabled cfg \<noteq> 0) \<and>
         (\<not> synthetic \<or> \<not> synthetic_ecc_required \<or> software_ecc_enabled cfg \<noteq> 0) \<and>
         (\<not> synthetic \<or> flags AND LLPS_PLATFORM_EVIDENCE_PHYS_SEP = 0 \<or>
            software_numa_enabled cfg \<noteq> 0) \<and>
         (require_readiness cfg = 0 \<or>
            platform_safety_evidence_id cfg \<noteq> 0 \<and> platform_attestation_fingerprint cfg \<noteq> 0 \<and>
            flags AND LLPS_PLATFORM_EVIDENCE_REQUIRED = LLPS_PLATFORM_EVIDENCE_REQUIRED))"

definition llps_runtime_cfg_domain_bindings_are_valid :: "llps_yml_config_t \<Rightarrow> bool" where
  "llps_runtime_cfg_domain_bindings_are_valid cfg =
     (let flags = platform_safety_flags cfg;
          physical = platform_physical_memory_domains cfg;
          hardware = platform_hardware_tmr_domains cfg
      in (flags AND LLPS_PLATFORM_EVIDENCE_PHYS_SEP \<noteq> 0 \<or> llps_domain_ids_are_zero physical) \<and>
         (flags AND LLPS_PLATFORM_EVIDENCE_HW_TMR \<noteq> 0 \<or> llps_domain_ids_are_zero hardware) \<and>
         (flags AND LLPS_PLATFORM_EVIDENCE_PHYS_SEP = 0 \<or> llps_domain_ids_are_distinct physical) \<and>
         (flags AND LLPS_PLATFORM_EVIDENCE_HW_TMR = 0 \<or> llps_domain_ids_are_distinct hardware) \<and>
         (flags AND LLPS_PLATFORM_EVIDENCE_EXTERNAL_MASK \<noteq> LLPS_PLATFORM_EVIDENCE_EXTERNAL_MASK \<or>
          llps_domain_id_sets_are_disjoint physical hardware))"

definition llps_runtime_cfg_values_are_valid :: "llps_yml_config_t \<Rightarrow> bool" where
  "llps_runtime_cfg_values_are_valid cfg =
     (if \<not> llps_runtime_cfg_core_limits_are_valid cfg \<or>
         \<not> llps_runtime_cfg_paths_are_valid cfg \<or>
         \<not> llps_runtime_cfg_platform_basics_are_valid cfg \<or>
         \<not> llps_runtime_cfg_software_ecc_is_valid cfg \<or>
         \<not> llps_runtime_cfg_software_numa_is_valid cfg \<or>
         \<not> llps_runtime_cfg_platform_policy_is_valid cfg \<or>
         \<not> llps_runtime_cfg_domain_bindings_are_valid cfg \<or>
         \<not> llps_platform_attestation_config_is_valid cfg
      then False
      else listen_port cfg \<noteq> target_port cfg \<or> c_string (listen_host cfg) \<noteq> c_string (target_ip cfg))"

subsection \<open>Reference notions\<close>

text \<open>The components of a path, and a small valid configuration: the defaults of the program.\<close>

fun split_slash :: "u8 list \<Rightarrow> u8 list list" where
  "split_slash [] = [[]]"
| "split_slash (c # cs) =
     (if c = 47 then [] # split_slash cs else (c # hd (split_slash cs)) # tl (split_slash cs))"

definition example_cfg :: llps_yml_config_t where
  "example_cfg = \<lparr>
     max_clients = 256,
     buffer_size = 4096,
     payload_ecc_enabled = 0,
     listen_host = [49, 50, 55, 46, 48, 46, 48, 46, 49] @ replicate 247 0,
     listen_port = 25565,
     target_ip = [49, 50, 55, 46, 48, 46, 48, 46, 49] @ replicate 247 0,
     target_port = 25566,
     listen_backlog = 256,
     accept_batch_max = 32,
     session_idle_timeout_ms = 30000,
     max_sessions_per_client_ip = 0,
     max_new_sessions_per_client_ip_per_window = 0,
     client_ip_rate_window_ms = 1000,
     client_preface_timeout_ms = 0,
     protocol_handshake_gate_enabled = 0,
     ip_audit_enabled = 0,
     ip_audit_path = replicate 256 0,
     audit_mac_enabled = 0,
     audit_mac_key_path = replicate 256 0,
     require_readiness = 0,
     platform_safety_flags = 0,
     platform_safety_evidence_id = 0,
     platform_attestation_fingerprint = 0,
     platform_observation_digest = 0,
     platform_evidence_mode = 0,
     platform_physical_memory_domains = [0, 0, 0],
     platform_hardware_tmr_domains = [0, 0, 0],
     platform_hardware_tmr_voter_domain = 0,
     software_ecc_enabled = 0,
     software_ecc_controller_count = 0,
     software_ecc_dimm_count = 0,
     software_ecc_scrub_rate = 0,
     software_ecc_controller_corrected_error_count = 0,
     software_ecc_controller_uncorrected_error_count = 0,
     software_ecc_dimm_corrected_error_count = 0,
     software_ecc_dimm_uncorrected_error_count = 0,
     software_numa_enabled = 0,
     software_numa_memtotal_kib = 0,
     software_numa_local_distance = 0,
     software_numa_remote_distance = 0,
     software_fault_injection_mode = 0,
     evidence_mac_enabled = 0,
     evidence_mac_key_path = replicate 256 0\<rparr>"

section \<open>Paths\<close>

lemma split_slash_no_slash: "47 \<notin> set cs \<Longrightarrow> split_slash cs = [cs]"
  by (induction cs) auto

lemma split_slash_append: "47 \<notin> set cs \<Longrightarrow> split_slash (cs @ 47 # ds) = cs # split_slash ds"
  by (induction cs) auto

lemma bounded_strlen_Some:
  assumes "llps_config_bounded_strlen text cap = Some len" "cap \<le> length text"
  shows "len < cap \<and> text ! len = 0 \<and> c_string text = take len text"
proof -
  from assms have "List.find (\<lambda>i. text ! i = 0) [0..<cap] = Some len"
    by (simp add: llps_config_bounded_strlen_def split: if_splits)
  then obtain k where k: "k < cap" "text ! k = 0" "\<forall>j < k. text ! j \<noteq> 0" "len = k"
    by (auto simp: find_Some_iff)
  have "takeWhile (\<lambda>c. c \<noteq> 0) text = take k text"
    using k assms(2) by (intro takeWhile_eq_take_P_nth) auto
  then show ?thesis using k by (simp add: c_string_def)
qed

text \<open>The scan finds a parent component exactly when one of the components is \<^verbatim>\<open>..\<close>.\<close>

lemma parent_component_loop_iff:
  assumes "start \<le> i" "i \<le> len" "len \<le> length text" "47 \<notin> set (drop start (take i text))"
  shows "parent_component_loop text len start [i..<Suc len] \<longleftrightarrow>
    [46, 46] \<in> set (split_slash (drop start (take len text)))"
  using assms
proof (induction "len - i" arbitrary: start i)
  case 0
  then have i: "i = len" by simp
  have comp: "split_slash (drop start (take len text)) = [drop start (take len text)]"
    using 0 i by (intro split_slash_no_slash) simp
  have two: "drop start (take len text) = [46, 46] \<longleftrightarrow>
      len - start = 2 \<and> text ! start = 46 \<and> text ! (start + 1) = 46"
    using 0 i by (auto simp: list_eq_iff_nth_eq less_Suc_eq numeral_2_eq_2)
  show ?case using two by (simp add: comp i Let_def eq_commute [of "[46, 46]"])
next
  case (Suc n)
  then have i: "i < len" by simp
  have upt: "[i..<Suc len] = i # [Suc i..<Suc len]" using i by (simp add: upt_conv_Cons)
  show ?case
  proof (cases "text ! i = 47")
    case True
    have parts: "drop start (take len text) =
        drop start (take i text) @ 47 # drop (Suc i) (take len text)"
    proof -
      have "take len text = take i text @ 47 # drop (Suc i) (take len text)"
        using i Suc.prems(3) True id_take_nth_drop [of i "take len text"] by (simp add: min_def)
      moreover have "start \<le> length (take i text)" using Suc.prems i by simp
      ultimately show ?thesis by (metis drop_append diff_is_0_eq drop_0)
    qed
    have two: "drop start (take i text) = [46, 46] \<longleftrightarrow>
        i - start = 2 \<and> text ! start = 46 \<and> text ! (start + 1) = 46"
      using Suc.prems by (auto simp: list_eq_iff_nth_eq less_Suc_eq numeral_2_eq_2)
    have "parent_component_loop text len (Suc i) [Suc i..<Suc len] \<longleftrightarrow>
        [46, 46] \<in> set (split_slash (drop (Suc i) (take len text)))"
      using Suc i by (intro Suc.hyps(1)) auto
    then show ?thesis
      using two
      by (simp add: upt parts split_slash_append [OF Suc.prems(4)] True Let_def eq_commute [of "[46, 46]"]
          del: upt_Suc) blast
  next
    case False
    have "drop start (take (Suc i) text) = drop start (take i text) @ [text ! i]"
      using Suc.prems i by (simp add: take_Suc_conv_app_nth)
    then have "47 \<notin> set (drop start (take (Suc i) text))" using Suc.prems(4) False by simp
    then have "parent_component_loop text len start [Suc i..<Suc len] \<longleftrightarrow>
        [46, 46] \<in> set (split_slash (drop start (take len text)))"
      using Suc i by (intro Suc.hyps(1)) auto
    then show ?thesis using False i by (simp add: upt del: upt_Suc)
  qed
qed

lemma parent_component_iff:
  "len \<le> length text \<Longrightarrow> llps_config_path_has_parent_component text len \<longleftrightarrow>
     [46, 46] \<in> set (split_slash (take len text))"
  using parent_component_loop_iff [of 0 0 len "text"]
  by (simp add: llps_config_path_has_parent_component_def)

lemma split_slash_ne [simp]: "split_slash cs \<noteq> []"
  by (induction cs) auto

lemma hd_split_slash: "hd (split_slash cs) = [] \<longleftrightarrow> cs = [] \<or> hd cs = 47"
  by (cases cs) auto

lemma split_slash_no_empty:
  "successively (\<lambda>a b. \<not> (a = 47 \<and> b = 47)) cs \<Longrightarrow> cs = [] \<or> last cs \<noteq> 47 \<Longrightarrow>
   [] \<notin> set (tl (split_slash cs))"
proof (induction cs)
  case (Cons c cs)
  have suc: "successively (\<lambda>a b. \<not> (a = 47 \<and> b = 47)) cs" and last: "cs = [] \<or> last cs \<noteq> 47"
    using Cons.prems by (auto simp: successively_Cons split: if_splits)
  have ih: "[] \<notin> set (tl (split_slash cs))" using Cons.IH suc last by blast
  show ?case
  proof (cases "c = 47")
    case True
    then have "cs \<noteq> []" "hd cs \<noteq> 47" using Cons.prems by (auto simp: successively_Cons)
    then have "hd (split_slash cs) \<noteq> []" by (simp add: hd_split_slash)
    then have "[] \<notin> set (split_slash cs)" using ih by (cases "split_slash cs") auto
    then show ?thesis using True by simp
  qed (simp add: ih)
qed simp

lemma successively_nth:
  "(\<And>i. Suc i < length cs \<Longrightarrow> P (cs ! i) (cs ! Suc i)) \<Longrightarrow> successively P cs"
  by (simp add: successively_conv_nth)

section \<open>Attestation\<close>

lemma example_cfg_valid: "llps_runtime_cfg_values_are_valid example_cfg"
  by code_simp

lemma flags_required:
  assumes "flags AND NOT LLPS_PLATFORM_EVIDENCE_REQUIRED = 0"
    "flags AND LLPS_PLATFORM_EVIDENCE_REQUIRED = LLPS_PLATFORM_EVIDENCE_REQUIRED"
  shows "flags = LLPS_PLATFORM_EVIDENCE_REQUIRED"
proof -
  have "flags = (flags AND LLPS_PLATFORM_EVIDENCE_REQUIRED) OR (flags AND NOT LLPS_PLATFORM_EVIDENCE_REQUIRED)"
    by (rule bit_word_eqI) (auto simp: bit_simps)
  then show ?thesis using assms by simp
qed

lemma fingerprint_OK:
  "fst (llps_compute_platform_attestation_fingerprint flags evidence physical hardware voter) = LLPS_OK \<longleftrightarrow>
     \<not> llps_platform_attestation_inputs_invalid flags evidence physical hardware voter"
  by (simp add: llps_compute_platform_attestation_fingerprint_def Let_def)

lemma fingerprint_nonzero:
  assumes "fst (llps_compute_platform_attestation_fingerprint flags evidence physical hardware voter) = LLPS_OK"
    "flags AND LLPS_PLATFORM_EVIDENCE_EXTERNAL_MASK \<noteq> 0"
  shows "snd (llps_compute_platform_attestation_fingerprint flags evidence physical hardware voter) \<noteq> 0"
  using assms by (simp add: llps_compute_platform_attestation_fingerprint_def Let_def
      llps_nonzero_fingerprint_def split: if_splits)

lemmas domain_defs = llps_domain_ids_are_distinct_def llps_domain_ids_are_zero_def
  llps_domain_id_sets_are_disjoint_def llps_domain_id_is_disjoint_from_set_def upt_bank_count

lemma domain_iffs:
  "llps_domain_ids_are_distinct [a, b, c] \<longleftrightarrow> distinct [a, b, c] \<and> 0 \<notin> {a, b, c}"
  "llps_domain_id_sets_are_disjoint [a, b, c] [d, e, f] \<longleftrightarrow>
     0 \<notin> {a, b, c, d, e, f} \<and> {a, b, c} \<inter> {d, e, f} = {}"
  "llps_domain_id_is_disjoint_from_set [a, b, c] v \<longleftrightarrow> 0 \<notin> {a, b, c, v} \<and> v \<notin> {a, b, c}"
  by (auto simp: domain_defs)

lemma full_inputs_valid:
  "\<not> llps_platform_attestation_inputs_invalid LLPS_PLATFORM_EVIDENCE_REQUIRED evidence [a, b, c] [d, e, f] v \<longleftrightarrow>
     evidence \<noteq> 0 \<and> distinct [a, b, c, d, e, f, v] \<and> 0 \<notin> set [a, b, c, d, e, f, v]"
proof -
  have "\<not> llps_platform_attestation_inputs_invalid LLPS_PLATFORM_EVIDENCE_REQUIRED evidence [a, b, c] [d, e, f] v \<longleftrightarrow>
      evidence \<noteq> 0 \<and> llps_domain_ids_are_distinct [a, b, c] \<and> llps_domain_ids_are_distinct [d, e, f] \<and>
      llps_domain_id_is_disjoint_from_set [d, e, f] v \<and>
      llps_domain_id_sets_are_disjoint [a, b, c] [d, e, f] \<and>
      llps_domain_id_is_disjoint_from_set [a, b, c] v"
    by (simp add: llps_platform_attestation_inputs_invalid_def) blast
  also have "\<dots> \<longleftrightarrow> evidence \<noteq> 0 \<and> distinct [a, b, c, d, e, f, v] \<and> 0 \<notin> set [a, b, c, d, e, f, v]"
    unfolding domain_iffs by auto
  finally show ?thesis .
qed

lemma valid_with_attestation:
  assumes "llps_runtime_cfg_values_are_valid cfg" "software_ecc_enabled cfg = 0" "software_numa_enabled cfg = 0"
    "platform_evidence_mode cfg = 0" "evidence \<noteq> 0" "distinct [a, b, c, d, e, f, v]" "0 \<notin> set [a, b, c, d, e, f, v]"
  shows "llps_runtime_cfg_values_are_valid (cfg\<lparr>require_readiness := 1, platform_safety_flags := 15,
         platform_safety_evidence_id := evidence, platform_physical_memory_domains := [a, b, c],
         platform_hardware_tmr_domains := [d, e, f], platform_hardware_tmr_voter_domain := v,
         platform_attestation_fingerprint :=
           snd (llps_compute_platform_attestation_fingerprint 15 evidence [a, b, c] [d, e, f] v)\<rparr>)"
proof -
  let ?fp = "llps_compute_platform_attestation_fingerprint 15 evidence [a, b, c] [d, e, f] v"
  have ok: "fst ?fp = LLPS_OK" unfolding fingerprint_OK full_inputs_valid using assms(5-) by blast
  then have nz: "snd ?fp \<noteq> 0" by (rule fingerprint_nonzero) simp
  obtain fp where fp: "?fp = (LLPS_OK, fp)" "fp \<noteq> 0" using ok nz by (cases ?fp) simp
  have dom: "llps_domain_ids_are_distinct [a, b, c]" "llps_domain_ids_are_distinct [d, e, f]"
    "llps_domain_id_sets_are_disjoint [a, b, c] [d, e, f]"
    unfolding domain_iffs using assms(6,7) by auto
  show ?thesis
    using assms(1-5) dom fp
    unfolding llps_runtime_cfg_values_are_valid_def llps_runtime_cfg_core_limits_are_valid_def
      llps_runtime_cfg_paths_are_valid_def llps_runtime_cfg_platform_basics_are_valid_def
      llps_runtime_cfg_software_ecc_is_valid_def llps_runtime_cfg_software_numa_is_valid_def
      llps_runtime_cfg_platform_policy_is_valid_def llps_runtime_cfg_domain_bindings_are_valid_def
      llps_platform_attestation_config_is_valid_def
    by (simp split: if_splits)
qed

section \<open>Properties\<close>

text \<open>
  a path the configuration accepts as safe is absolute, does not end in a slash, has no
  empty and no \<^verbatim>\<open>..\<close> component and consists of letters, digits, slash, dot, underscore and hyphen
  only.
\<close>

theorem config_safe_path_sound:
  assumes "llps_config_path_is_safe text cap allow_empty" "cap \<le> length text" "c_string text \<noteq> []"
  shows "hd (c_string text) = 47 \<and> last (c_string text) \<noteq> 47 \<and>
    [46, 46] \<notin> set (split_slash (c_string text)) \<and> [] \<notin> set (tl (split_slash (c_string text))) \<and>
    (\<forall>c \<in> set (c_string text). path_char_alnum c \<or> c \<in> {47, 46, 95, 45})"
proof -
  obtain len where len: "llps_config_bounded_strlen text cap = Some len"
    using assms(1) by (auto simp: llps_config_path_is_safe_def split: option.splits)
  have l: "len < cap" "c_string text = take len text"
    using bounded_strlen_Some [OF len assms(2)] by simp_all
  have lt: "len \<le> length text" using l assms(2) by simp
  have pos: "len \<noteq> 0" using assms(3) l by auto
  have chk: "text ! 0 = 47" "text ! (len - 1) \<noteq> 47" "\<not> llps_config_path_has_parent_component text len"
    and chars: "\<And>i. i < len \<Longrightarrow> path_char_alnum (text ! i) \<or> text ! i \<in> {47, 46, 95, 45}"
    and dbl: "\<And>i. i < len \<Longrightarrow> i > 0 \<Longrightarrow> \<not> (text ! i = 47 \<and> text ! (i - 1) = 47)"
    using assms(1) pos
    by (auto simp: llps_config_path_is_safe_def len list_all_upt_iff Let_def split: if_splits)
  have hd: "hd (take len text) = 47" using chk(1) pos lt by (subst hd_conv_nth) auto
  have last: "last (take len text) \<noteq> 47" using chk(2) pos lt by (subst last_conv_nth) auto
  have "successively (\<lambda>a b. \<not> (a = 47 \<and> b = 47)) (take len text)"
    using dbl [of "Suc _"] lt by (intro successively_nth) auto
  then have "[] \<notin> set (tl (split_slash (take len text)))" using last by (intro split_slash_no_empty) auto
  moreover have "[46, 46] \<notin> set (split_slash (take len text))"
    using chk(3) parent_component_iff [OF lt] by simp
  moreover have "\<forall>c \<in> set (take len text). path_char_alnum c \<or> c \<in> {47, 46, 95, 45}"
  proof
    fix c assume "c \<in> set (take len text)"
    then obtain i where "i < len" "c = text ! i" by (auto simp: in_set_conv_nth)
    then show "path_char_alnum c \<or> c \<in> {47, 46, 95, 45}" using chars by blast
  qed
  ultimately show ?thesis using hd last by (simp add: l(2))
qed

theorem config_safe_path_sound_witness:
  "llps_config_path_is_safe ([47, 97, 47, 46, 98, 0]) 6 False \<and>
   [46, 46] \<notin> set (split_slash (c_string [47, 97, 47, 46, 98, 0]))"
proof -
  have safe: "llps_config_path_is_safe ([47, 97, 47, 46, 98, 0]) 6 False" by code_simp
  moreover have "c_string [47, 97, 47, 46, 98, 0] \<noteq> []" by (simp add: c_string_def)
  ultimately show ?thesis using config_safe_path_sound [OF safe] by simp
qed

text \<open>
  C29: a configuration accepted with the readiness requirement on asks for all four kinds of
  evidence, names three memory domains, three hardware domains and a voter domain that are seven
  different non-zero ids, and its attestation fingerprint is the one computed from them.
\<close>

theorem config_readiness_bound:
  assumes "llps_runtime_cfg_values_are_valid cfg" "require_readiness cfg \<noteq> 0"
    and "length (platform_physical_memory_domains cfg) = 3" "length (platform_hardware_tmr_domains cfg) = 3"
  shows "platform_safety_flags cfg = LLPS_PLATFORM_EVIDENCE_REQUIRED \<and>
    platform_safety_evidence_id cfg \<noteq> 0 \<and>
    distinct (platform_physical_memory_domains cfg @ platform_hardware_tmr_domains cfg @
      [platform_hardware_tmr_voter_domain cfg]) \<and>
    0 \<notin> set (platform_physical_memory_domains cfg @ platform_hardware_tmr_domains cfg @
      [platform_hardware_tmr_voter_domain cfg]) \<and>
    llps_compute_platform_attestation_fingerprint (platform_safety_flags cfg)
      (platform_safety_evidence_id cfg) (platform_physical_memory_domains cfg)
      (platform_hardware_tmr_domains cfg) (platform_hardware_tmr_voter_domain cfg) =
      (LLPS_OK, platform_attestation_fingerprint cfg)"
proof -
  obtain a b c d e f where ids: "platform_physical_memory_domains cfg = [a, b, c]"
    "platform_hardware_tmr_domains cfg = [d, e, f]"
    using assms(3,4) unfolding length_3_iff by blast
  let ?fp = "llps_compute_platform_attestation_fingerprint (platform_safety_flags cfg)
      (platform_safety_evidence_id cfg) (platform_physical_memory_domains cfg)
      (platform_hardware_tmr_domains cfg) (platform_hardware_tmr_voter_domain cfg)"
  have basics: "llps_runtime_cfg_platform_basics_are_valid cfg"
    and policy: "llps_runtime_cfg_platform_policy_is_valid cfg"
    and att: "llps_platform_attestation_config_is_valid cfg"
    using assms(1) by (simp_all add: llps_runtime_cfg_values_are_valid_def split: if_splits)
  have pol: "platform_safety_evidence_id cfg \<noteq> 0" "platform_attestation_fingerprint cfg \<noteq> 0"
    "platform_safety_flags cfg AND LLPS_PLATFORM_EVIDENCE_REQUIRED = LLPS_PLATFORM_EVIDENCE_REQUIRED"
    using policy assms(2) by (simp_all add: llps_runtime_cfg_platform_policy_is_valid_def Let_def)
  have flags: "platform_safety_flags cfg = LLPS_PLATFORM_EVIDENCE_REQUIRED"
    by (rule flags_required)
      (use basics pol(3) in \<open>simp_all add: llps_runtime_cfg_platform_basics_are_valid_def\<close>)
  have fp: "?fp = (LLPS_OK, platform_attestation_fingerprint cfg)"
  proof -
    obtain st fp where fpe: "?fp = (st, fp)" by fastforce
    show ?thesis
      using att pol(1,2) unfolding llps_platform_attestation_config_is_valid_def fpe
      by (simp split: if_splits)
  qed
  then have "\<not> llps_platform_attestation_inputs_invalid LLPS_PLATFORM_EVIDENCE_REQUIRED
      (platform_safety_evidence_id cfg) [a, b, c] [d, e, f] (platform_hardware_tmr_voter_domain cfg)"
    unfolding flags ids by (metis fingerprint_OK fst_conv)
  then show ?thesis using fp flags unfolding full_inputs_valid ids by simp
qed

theorem config_readiness_bound_witness:
  "let cfg = example_cfg\<lparr>require_readiness := 1, platform_safety_flags := 15,
         platform_safety_evidence_id := 7, platform_physical_memory_domains := [1, 2, 3],
         platform_hardware_tmr_domains := [4, 5, 6], platform_hardware_tmr_voter_domain := 8,
         platform_attestation_fingerprint :=
           snd (llps_compute_platform_attestation_fingerprint 15 7 [1, 2, 3] [4, 5, 6] 8)\<rparr>
   in llps_runtime_cfg_values_are_valid cfg \<and> platform_safety_flags cfg = LLPS_PLATFORM_EVIDENCE_REQUIRED"
proof -
  let ?cfg = "example_cfg\<lparr>require_readiness := 1, platform_safety_flags := 15,
         platform_safety_evidence_id := 7, platform_physical_memory_domains := [1, 2, 3],
         platform_hardware_tmr_domains := [4, 5, 6], platform_hardware_tmr_voter_domain := 8,
         platform_attestation_fingerprint :=
           snd (llps_compute_platform_attestation_fingerprint 15 7 [1, 2, 3] [4, 5, 6] 8)\<rparr>"
  have valid: "llps_runtime_cfg_values_are_valid ?cfg"
    using example_cfg_valid by (rule valid_with_attestation) (simp_all add: example_cfg_def)
  show ?thesis unfolding Let_def using valid config_readiness_bound [OF valid] by simp
qed

end
