(* ===== verification/Session_Integrity.thy ===== *)
theory Session_Integrity
  imports Secded Safety_Counters Config
begin

text \<open>
  The private session record of \<^verbatim>\<open>src/internal/llps_internal.h\<close> and its local redundancy,
  \<^verbatim>\<open>src/session/llps_session_integrity.c\<close>: inverse copies, a SECDED check byte for each word, canaries
  and a checksum over the metadata. An \<^verbatim>\<open>enum\<close> value is the 32 bit word that stores it, because a
  damaged record may hold any pattern; a pointer is its address.
\<close>

section \<open>Definitions\<close>

type_synonym llps_state_t = u32

abbreviation ST_FREE :: llps_state_t where "ST_FREE \<equiv> 0"
abbreviation ST_ACTIVE :: llps_state_t where "ST_ACTIVE \<equiv> 1"
abbreviation LLPS_DIR_C2S :: u32 where "LLPS_DIR_C2S \<equiv> 0"
abbreviation LLPS_DIR_S2C :: u32 where "LLPS_DIR_S2C \<equiv> 1"
abbreviation LLPS_CLOSE_REASON_NORMAL :: u32 where "LLPS_CLOSE_REASON_NORMAL \<equiv> 0"
abbreviation LLPS_CLOSE_REASON_COUNT :: u32 where "LLPS_CLOSE_REASON_COUNT \<equiv> 7"
abbreviation LLPS_SESSION_MAGIC_FREE :: u32 where "LLPS_SESSION_MAGIC_FREE \<equiv> 0xDEADBEEF"
abbreviation LLPS_SESSION_MAGIC_ACTIVE :: u32 where "LLPS_SESSION_MAGIC_ACTIVE \<equiv> 0xC0FFEE00"
abbreviation LLPS_INVALID_FD :: c_int where "LLPS_INVALID_FD \<equiv> -1"

record llps_pump_args_t =
  pa_session :: "u64"
  pa_src_fd :: "c_int"
  pa_dst_fd :: "c_int"
  pa_buf :: "u64"
  pa_buf_len :: "u64"
  pa_direction :: "u32"

record llps_session_t =
  se_magic_start :: "u32"
  se_session_id :: "u32"
  se_session_id_secded :: "u8"
  se_state :: "llps_state_t"
  se_state_secded :: "u8"
  se_state_inverse :: "u32"
  se_state_inverse_secded :: "u8"
  se_last_activity_ns :: "u64"
  se_last_activity_ns_secded :: "u8"
  se_request_no :: "u64"
  se_request_no_secded :: "u8"
  se_request_no_inverse :: "u64"
  se_request_no_inverse_secded :: "u8"
  se_close_reason :: "u32"
  se_close_reason_secded :: "u8"
  se_close_reason_inverse :: "u32"
  se_close_reason_inverse_secded :: "u8"
  se_client_fd :: "c_int"
  se_client_fd_secded :: "u8"
  se_backend_fd :: "c_int"
  se_backend_fd_secded :: "u8"
  se_client_ip :: "u8 list"
  se_client_port :: "u16"
  se_client_port_secded :: "u8"
  se_client_port_inverse :: "u32"
  se_client_port_inverse_secded :: "u8"
  se_pump_c2s :: "llps_pump_args_t"
  se_pump_s2c :: "llps_pump_args_t"
  se_c2s_buf :: "u8 list"
  se_s2c_buf :: "u8 list"
  se_c2s_payload_ecc :: "u8 list"
  se_s2c_payload_ecc :: "u8 list"
  se_c2s_payload_ecc_len :: "u32"
  se_c2s_payload_ecc_len_secded :: "u8"
  se_c2s_payload_ecc_len_inverse :: "u32"
  se_c2s_payload_ecc_len_inverse_secded :: "u8"
  se_s2c_payload_ecc_len :: "u32"
  se_s2c_payload_ecc_len_secded :: "u8"
  se_s2c_payload_ecc_len_inverse :: "u32"
  se_s2c_payload_ecc_len_inverse_secded :: "u8"
  se_integrity_crc :: "u32"
  se_integrity_crc_inverse :: "u32"
  se_magic_end :: "u32"

definition llps_state_inverse_value :: "llps_state_t \<Rightarrow> u32" where
  "llps_state_inverse_value state = NOT state"

definition llps_state_is_valid :: "llps_state_t \<Rightarrow> bool" where
  "llps_state_is_valid state \<longleftrightarrow> state = ST_FREE \<or> state = ST_ACTIVE"

definition llps_magic_for_state :: "llps_state_t \<Rightarrow> u32" where
  "llps_magic_for_state state = (if state = ST_ACTIVE then LLPS_SESSION_MAGIC_ACTIVE else LLPS_SESSION_MAGIC_FREE)"

definition llps_encode_fd :: "c_int \<Rightarrow> u32" where
  "llps_encode_fd fd = fd"

definition llps_decode_fd :: "u32 \<Rightarrow> c_int" where
  "llps_decode_fd fd = fd"

definition llps_close_reason_is_valid :: "u32 \<Rightarrow> bool" where
  "llps_close_reason_is_valid reason \<longleftrightarrow> reason < LLPS_CLOSE_REASON_COUNT"

definition llps_close_reason_text :: "u32 \<Rightarrow> string" where
  "llps_close_reason_text reason =
     (if reason = 0 then ''closed''
      else if reason = 1 then ''idle_timeout''
      else if reason = 2 then ''payload_ecc''
      else if reason = 3 then ''metadata_fault''
      else if reason = 4 then ''contract_violation''
      else if reason = 5 then ''client_preface_timeout''
      else if reason = 6 then ''protocol_handshake_invalid''
      else ''unknown'')"

definition llps_session_state_pair_is_valid :: "llps_session_t \<Rightarrow> bool" where
  "llps_session_state_pair_is_valid sess \<longleftrightarrow>
     llps_state_is_valid (se_state sess) \<and> se_state_inverse sess = llps_state_inverse_value (se_state sess)"

definition llps_session_crc_metadata :: "u32 \<Rightarrow> llps_session_t \<Rightarrow> u32" where
  "llps_session_crc_metadata crc sess =
     (let crc = llps_crc32_update_u32 crc (se_magic_start sess);
          crc = llps_crc32_update_u32 crc (se_session_id sess);
          crc = llps_crc32_update_byte crc (se_session_id_secded sess);
          crc = llps_crc32_update_u32 crc (se_state sess);
          crc = llps_crc32_update_byte crc (se_state_secded sess);
          crc = llps_crc32_update_u32 crc (se_state_inverse sess);
          crc = llps_crc32_update_byte crc (se_state_inverse_secded sess);
          crc = llps_crc32_update_u64 crc (se_last_activity_ns sess);
          crc = llps_crc32_update_byte crc (se_last_activity_ns_secded sess);
          crc = llps_crc32_update_u64 crc (se_request_no sess);
          crc = llps_crc32_update_byte crc (se_request_no_secded sess);
          crc = llps_crc32_update_u64 crc (se_request_no_inverse sess);
          crc = llps_crc32_update_byte crc (se_request_no_inverse_secded sess);
          crc = llps_crc32_update_u32 crc (se_close_reason sess);
          crc = llps_crc32_update_byte crc (se_close_reason_secded sess);
          crc = llps_crc32_update_u32 crc (se_close_reason_inverse sess);
          crc = llps_crc32_update_byte crc (se_close_reason_inverse_secded sess);
          crc = llps_crc32_update_u32 crc (se_client_fd sess);
          crc = llps_crc32_update_byte crc (se_client_fd_secded sess);
          crc = llps_crc32_update_u32 crc (se_backend_fd sess);
          crc = llps_crc32_update_byte crc (se_backend_fd_secded sess);
          crc = llps_crc32_update_cstr_bounded crc (Some (se_client_ip sess)) 16;
          crc = llps_crc32_update_u32 crc (ucast (se_client_port sess));
          crc = llps_crc32_update_byte crc (se_client_port_secded sess);
          crc = llps_crc32_update_u32 crc (se_client_port_inverse sess);
          crc = llps_crc32_update_byte crc (se_client_port_inverse_secded sess);
          crc = llps_crc32_update_u32 crc (se_c2s_payload_ecc_len sess);
          crc = llps_crc32_update_byte crc (se_c2s_payload_ecc_len_secded sess);
          crc = llps_crc32_update_u32 crc (se_c2s_payload_ecc_len_inverse sess);
          crc = llps_crc32_update_byte crc (se_c2s_payload_ecc_len_inverse_secded sess);
          crc = llps_crc32_update_u32 crc (se_s2c_payload_ecc_len sess);
          crc = llps_crc32_update_byte crc (se_s2c_payload_ecc_len_secded sess);
          crc = llps_crc32_update_u32 crc (se_s2c_payload_ecc_len_inverse sess);
          crc = llps_crc32_update_byte crc (se_s2c_payload_ecc_len_inverse_secded sess)
      in crc)"

definition llps_session_crc_pumps :: "u32 \<Rightarrow> llps_session_t \<Rightarrow> u32" where
  "llps_session_crc_pumps crc sess =
     (let crc = llps_crc32_update_ptr crc (pa_session (se_pump_c2s sess));
          crc = llps_crc32_update_u32 crc (pa_src_fd (se_pump_c2s sess));
          crc = llps_crc32_update_u32 crc (pa_dst_fd (se_pump_c2s sess));
          crc = llps_crc32_update_ptr crc (pa_buf (se_pump_c2s sess));
          crc = llps_crc32_update_size crc (pa_buf_len (se_pump_c2s sess));
          crc = llps_crc32_update_u32 crc (pa_direction (se_pump_c2s sess));
          crc = llps_crc32_update_ptr crc (pa_session (se_pump_s2c sess));
          crc = llps_crc32_update_u32 crc (pa_src_fd (se_pump_s2c sess));
          crc = llps_crc32_update_u32 crc (pa_dst_fd (se_pump_s2c sess));
          crc = llps_crc32_update_ptr crc (pa_buf (se_pump_s2c sess));
          crc = llps_crc32_update_size crc (pa_buf_len (se_pump_s2c sess));
          crc = llps_crc32_update_u32 crc (pa_direction (se_pump_s2c sess))
      in crc)"

definition llps_session_compute_crc :: "llps_session_t \<Rightarrow> u32" where
  "llps_session_compute_crc sess =
     (let crc = LLPS_SESSION_CRC_INIT;
          crc = llps_session_crc_metadata crc sess;
          crc = llps_session_crc_pumps crc sess;
          crc = llps_crc32_update_u32 crc (se_magic_end sess)
      in crc XOR LLPS_SESSION_CRC_XOROUT)"

definition llps_session_refresh_secded :: "llps_session_t \<Rightarrow> llps_session_t" where
  "llps_session_refresh_secded sess =
     sess\<lparr>se_session_id_secded := llps_secded_encode_u32 (se_session_id sess),
       se_state_secded := llps_secded_encode_u32 (se_state sess),
       se_state_inverse_secded := llps_secded_encode_u32 (se_state_inverse sess),
       se_last_activity_ns_secded := llps_secded_encode_u64 (se_last_activity_ns sess) 64,
       se_request_no_secded := llps_secded_encode_u64 (se_request_no sess) 64,
       se_request_no_inverse_secded := llps_secded_encode_u64 (se_request_no_inverse sess) 64,
       se_close_reason_secded := llps_secded_encode_u32 (se_close_reason sess),
       se_close_reason_inverse_secded := llps_secded_encode_u32 (se_close_reason_inverse sess),
       se_client_fd_secded := llps_secded_encode_u32 (se_client_fd sess),
       se_backend_fd_secded := llps_secded_encode_u32 (se_backend_fd sess),
       se_client_port_secded := llps_secded_encode_u16 (se_client_port sess),
       se_client_port_inverse_secded := llps_secded_encode_u32 (se_client_port_inverse sess),
       se_c2s_payload_ecc_len_secded := llps_secded_encode_u32 (se_c2s_payload_ecc_len sess),
       se_c2s_payload_ecc_len_inverse_secded := llps_secded_encode_u32 (se_c2s_payload_ecc_len_inverse sess),
       se_s2c_payload_ecc_len_secded := llps_secded_encode_u32 (se_s2c_payload_ecc_len sess),
       se_s2c_payload_ecc_len_inverse_secded := llps_secded_encode_u32 (se_s2c_payload_ecc_len_inverse sess)\<rparr>"

definition llps_session_secded_is_valid :: "llps_session_t \<Rightarrow> bool" where
  "llps_session_secded_is_valid sess \<longleftrightarrow>
     llps_secded_is_valid_u32 (se_session_id sess) (se_session_id_secded sess) \<and>
     llps_secded_is_valid_u32 (se_state sess) (se_state_secded sess) \<and>
     llps_secded_is_valid_u32 (se_state_inverse sess) (se_state_inverse_secded sess) \<and>
     llps_secded_is_valid_u64 (se_last_activity_ns sess) 64 (se_last_activity_ns_secded sess) \<and>
     llps_secded_is_valid_u64 (se_request_no sess) 64 (se_request_no_secded sess) \<and>
     llps_secded_is_valid_u64 (se_request_no_inverse sess) 64 (se_request_no_inverse_secded sess) \<and>
     llps_secded_is_valid_u32 (se_close_reason sess) (se_close_reason_secded sess) \<and>
     llps_secded_is_valid_u32 (se_close_reason_inverse sess) (se_close_reason_inverse_secded sess) \<and>
     llps_secded_is_valid_u32 (se_client_fd sess) (se_client_fd_secded sess) \<and>
     llps_secded_is_valid_u32 (se_backend_fd sess) (se_backend_fd_secded sess) \<and>
     llps_secded_is_valid_u16 (se_client_port sess) (se_client_port_secded sess) \<and>
     llps_secded_is_valid_u32 (se_client_port_inverse sess) (se_client_port_inverse_secded sess) \<and>
     llps_secded_is_valid_u32 (se_c2s_payload_ecc_len sess) (se_c2s_payload_ecc_len_secded sess) \<and>
     llps_secded_is_valid_u32 (se_c2s_payload_ecc_len_inverse sess) (se_c2s_payload_ecc_len_inverse_secded sess) \<and>
     llps_secded_is_valid_u32 (se_s2c_payload_ecc_len sess) (se_s2c_payload_ecc_len_secded sess) \<and>
     llps_secded_is_valid_u32 (se_s2c_payload_ecc_len_inverse sess) (se_s2c_payload_ecc_len_inverse_secded sess)"

text \<open>A repair works on the session, the result so far and the counters.\<close>

type_synonym session_repair_state = "llps_session_t \<times> bool \<times> safety_counters"

definition llps_session_repair_status_ok :: "llps_secded_status \<Rightarrow> safety_counters \<Rightarrow> bool \<times> safety_counters" where
  "llps_session_repair_status_ok status sc =
     (if status = LLPS_SECDED_CORRECTED
      then (True, LLPS_MEMORY_SAFETY_COUNTER_INC secded_single_bit_repairs_update sc)
      else if status = LLPS_SECDED_UNCORRECTABLE
      then (False, LLPS_MEMORY_SAFETY_COUNTER_INC readiness_runtime_ecc_failures_update
              (LLPS_MEMORY_SAFETY_COUNTER_INC secded_double_bit_failures_update sc))
      else (True, sc))"

text \<open>
  One repaired word: \<open>repair\<close> is the SECDED routine of its width, the others read and write the word
  and its check byte.
\<close>

definition session_repair_word ::
    "('w \<Rightarrow> u8 \<Rightarrow> llps_secded_status \<times> 'w \<times> u8) \<Rightarrow>
     (llps_session_t \<Rightarrow> 'w) \<Rightarrow> (('w \<Rightarrow> 'w) \<Rightarrow> llps_session_t \<Rightarrow> llps_session_t) \<Rightarrow>
     (llps_session_t \<Rightarrow> u8) \<Rightarrow> ((u8 \<Rightarrow> u8) \<Rightarrow> llps_session_t \<Rightarrow> llps_session_t) \<Rightarrow>
     session_repair_state \<Rightarrow> session_repair_state" where
  "session_repair_word repair get upd get_ecc upd_ecc =
     (\<lambda>(sess, ok, sc).
       (case repair (get sess) (get_ecc sess) of
          (status, word, ecc) \<Rightarrow>
            (case llps_session_repair_status_ok status sc of
               (ok', sc') \<Rightarrow> (upd (\<lambda>_. word) (upd_ecc (\<lambda>_. ecc) sess), ok' \<and> ok, sc'))))"

abbreviation secded_repair_full :: "u64 \<Rightarrow> u8 \<Rightarrow> llps_secded_status \<times> u64 \<times> u8" where
  "secded_repair_full word ecc \<equiv> llps_secded_repair_u64 word 64 ecc"

definition llps_session_repair_identity_secded :: "session_repair_state \<Rightarrow> session_repair_state" where
  "llps_session_repair_identity_secded st =
     (let st = session_repair_word llps_secded_repair_u32 se_session_id se_session_id_update se_session_id_secded se_session_id_secded_update st;
          st = session_repair_word llps_secded_repair_u32 se_state se_state_update se_state_secded se_state_secded_update st;
          st = session_repair_word llps_secded_repair_u32 se_state_inverse se_state_inverse_update se_state_inverse_secded se_state_inverse_secded_update st
      in st)"

definition llps_session_repair_activity_secded :: "session_repair_state \<Rightarrow> session_repair_state" where
  "llps_session_repair_activity_secded st =
     (let st = session_repair_word secded_repair_full se_last_activity_ns se_last_activity_ns_update se_last_activity_ns_secded se_last_activity_ns_secded_update st;
          st = session_repair_word secded_repair_full se_request_no se_request_no_update se_request_no_secded se_request_no_secded_update st;
          st = session_repair_word secded_repair_full se_request_no_inverse se_request_no_inverse_update se_request_no_inverse_secded se_request_no_inverse_secded_update st;
          st = session_repair_word llps_secded_repair_u32 se_close_reason se_close_reason_update se_close_reason_secded se_close_reason_secded_update st;
          st = session_repair_word llps_secded_repair_u32 se_close_reason_inverse se_close_reason_inverse_update se_close_reason_inverse_secded se_close_reason_inverse_secded_update st
      in st)"

definition llps_session_repair_fd_port_secded :: "session_repair_state \<Rightarrow> session_repair_state" where
  "llps_session_repair_fd_port_secded st =
     (let st = session_repair_word llps_secded_repair_u32 se_client_fd se_client_fd_update se_client_fd_secded se_client_fd_secded_update st;
          st = session_repair_word llps_secded_repair_u32 se_backend_fd se_backend_fd_update se_backend_fd_secded se_backend_fd_secded_update st;
          st = session_repair_word llps_secded_repair_u16 se_client_port se_client_port_update se_client_port_secded se_client_port_secded_update st;
          st = session_repair_word llps_secded_repair_u32 se_client_port_inverse se_client_port_inverse_update se_client_port_inverse_secded se_client_port_inverse_secded_update st
      in st)"

definition llps_session_repair_payload_secded :: "session_repair_state \<Rightarrow> session_repair_state" where
  "llps_session_repair_payload_secded st =
     (let st = session_repair_word llps_secded_repair_u32 se_c2s_payload_ecc_len se_c2s_payload_ecc_len_update se_c2s_payload_ecc_len_secded se_c2s_payload_ecc_len_secded_update st;
          st = session_repair_word llps_secded_repair_u32 se_c2s_payload_ecc_len_inverse se_c2s_payload_ecc_len_inverse_update se_c2s_payload_ecc_len_inverse_secded se_c2s_payload_ecc_len_inverse_secded_update st;
          st = session_repair_word llps_secded_repair_u32 se_s2c_payload_ecc_len se_s2c_payload_ecc_len_update se_s2c_payload_ecc_len_secded se_s2c_payload_ecc_len_secded_update st;
          st = session_repair_word llps_secded_repair_u32 se_s2c_payload_ecc_len_inverse se_s2c_payload_ecc_len_inverse_update se_s2c_payload_ecc_len_inverse_secded se_s2c_payload_ecc_len_inverse_secded_update st
      in st)"

definition llps_session_repair_secded :: "llps_session_t \<Rightarrow> safety_counters \<Rightarrow> bool \<times> llps_session_t \<times> safety_counters" where
  "llps_session_repair_secded sess sc =
     (let st = (sess, True, sc);
          st = llps_session_repair_identity_secded st;
          st = llps_session_repair_activity_secded st;
          st = llps_session_repair_fd_port_secded st;
          st = llps_session_repair_payload_secded st
      in (case st of (sess, ok, sc) \<Rightarrow> (ok, sess, sc)))"

definition llps_session_local_integrity_is_valid :: "llps_session_t \<Rightarrow> bool" where
  "llps_session_local_integrity_is_valid sess =
     (if \<not> llps_session_secded_is_valid sess \<or> \<not> llps_session_state_pair_is_valid sess then False
      else
        (let expected_magic = llps_magic_for_state (se_state sess)
         in if se_magic_start sess \<noteq> expected_magic \<or> se_magic_end sess \<noteq> expected_magic \<or>
               se_request_no_inverse sess \<noteq> NOT (se_request_no sess) \<or>
               \<not> llps_close_reason_is_valid (se_close_reason sess) \<or>
               se_close_reason_inverse sess \<noteq> NOT (se_close_reason sess) \<or>
               se_client_port_inverse sess \<noteq> NOT (ucast (se_client_port sess)) \<or>
               se_c2s_payload_ecc_len sess > LLPS_BUFFER_SIZE \<or>
               se_s2c_payload_ecc_len sess > LLPS_BUFFER_SIZE \<or>
               se_c2s_payload_ecc_len_inverse sess \<noteq> NOT (se_c2s_payload_ecc_len sess) \<or>
               se_s2c_payload_ecc_len_inverse sess \<noteq> NOT (se_s2c_payload_ecc_len sess)
            then False
            else se_integrity_crc_inverse sess = NOT (se_integrity_crc sess) \<and>
                 se_integrity_crc sess = llps_session_compute_crc sess))"

definition llps_reset_pump_args :: "llps_pump_args_t \<Rightarrow> llps_pump_args_t" where
  "llps_reset_pump_args pump =
     pump\<lparr>pa_session := 0, pa_src_fd := LLPS_INVALID_FD, pa_dst_fd := LLPS_INVALID_FD, pa_buf := 0,
          pa_buf_len := 0, pa_direction := LLPS_DIR_C2S\<rparr>"

definition llps_session_set_state_fields :: "llps_state_t \<Rightarrow> llps_session_t \<Rightarrow> llps_session_t" where
  "llps_session_set_state_fields state sess =
     (let magic = llps_magic_for_state state
      in sess\<lparr>se_magic_start := magic, se_state := state,
              se_state_inverse := llps_state_inverse_value state, se_magic_end := magic\<rparr>)"

definition llps_direction_is_valid :: "u32 \<Rightarrow> bool" where
  "llps_direction_is_valid dir \<longleftrightarrow> dir = LLPS_DIR_C2S \<or> dir = LLPS_DIR_S2C"

definition llps_direction_text :: "u32 \<Rightarrow> string" where
  "llps_direction_text dir =
     (if dir = LLPS_DIR_C2S then ''c2s'' else if dir = LLPS_DIR_S2C then ''s2c'' else ''unknown'')"

section \<open>Vocabulary of the proofs\<close>

text \<open>
  A stored word and check byte that differ from the written ones in at most one bit the code uses,
  for each width.
\<close>

definition upset_wide :: "u32 \<Rightarrow> u64 \<times> u8 \<Rightarrow> u64 \<times> u8 \<Rightarrow> bool" where
  "upset_wide d written stored \<longleftrightarrow>
     stored = written \<or> (\<exists>b. code_bit_used d b \<and> stored = flip_bit b written)"

definition upset_u64 :: "u64 \<Rightarrow> u8 \<Rightarrow> u64 \<Rightarrow> u8 \<Rightarrow> bool" where
  "upset_u64 w e w' e' \<longleftrightarrow> upset_wide 64 (w, e) (w', e')"

definition upset_u32 :: "u32 \<Rightarrow> u8 \<Rightarrow> u32 \<Rightarrow> u8 \<Rightarrow> bool" where
  "upset_u32 w e w' e' \<longleftrightarrow> upset_wide 32 (ucast w, e) (ucast w', e')"

definition upset_u16 :: "u16 \<Rightarrow> u8 \<Rightarrow> u16 \<Rightarrow> u8 \<Rightarrow> bool" where
  "upset_u16 w e w' e' \<longleftrightarrow> upset_wide 16 (ucast w, e) (ucast w', e')"

text \<open>
  A session whose sixteen protected words have at most one flipped bit each, and that is otherwise
  the written one.
\<close>

definition session_upset :: "llps_session_t \<Rightarrow> llps_session_t \<Rightarrow> bool" where
  "session_upset sess damaged \<longleftrightarrow>
     upset_u32 (se_session_id sess) (se_session_id_secded sess) (se_session_id damaged) (se_session_id_secded damaged) \<and>
     upset_u32 (se_state sess) (se_state_secded sess) (se_state damaged) (se_state_secded damaged) \<and>
     upset_u32 (se_state_inverse sess) (se_state_inverse_secded sess) (se_state_inverse damaged) (se_state_inverse_secded damaged) \<and>
     upset_u64 (se_last_activity_ns sess) (se_last_activity_ns_secded sess) (se_last_activity_ns damaged) (se_last_activity_ns_secded damaged) \<and>
     upset_u64 (se_request_no sess) (se_request_no_secded sess) (se_request_no damaged) (se_request_no_secded damaged) \<and>
     upset_u64 (se_request_no_inverse sess) (se_request_no_inverse_secded sess) (se_request_no_inverse damaged) (se_request_no_inverse_secded damaged) \<and>
     upset_u32 (se_close_reason sess) (se_close_reason_secded sess) (se_close_reason damaged) (se_close_reason_secded damaged) \<and>
     upset_u32 (se_close_reason_inverse sess) (se_close_reason_inverse_secded sess) (se_close_reason_inverse damaged) (se_close_reason_inverse_secded damaged) \<and>
     upset_u32 (se_client_fd sess) (se_client_fd_secded sess) (se_client_fd damaged) (se_client_fd_secded damaged) \<and>
     upset_u32 (se_backend_fd sess) (se_backend_fd_secded sess) (se_backend_fd damaged) (se_backend_fd_secded damaged) \<and>
     upset_u16 (se_client_port sess) (se_client_port_secded sess) (se_client_port damaged) (se_client_port_secded damaged) \<and>
     upset_u32 (se_client_port_inverse sess) (se_client_port_inverse_secded sess) (se_client_port_inverse damaged) (se_client_port_inverse_secded damaged) \<and>
     upset_u32 (se_c2s_payload_ecc_len sess) (se_c2s_payload_ecc_len_secded sess) (se_c2s_payload_ecc_len damaged) (se_c2s_payload_ecc_len_secded damaged) \<and>
     upset_u32 (se_c2s_payload_ecc_len_inverse sess) (se_c2s_payload_ecc_len_inverse_secded sess) (se_c2s_payload_ecc_len_inverse damaged) (se_c2s_payload_ecc_len_inverse_secded damaged) \<and>
     upset_u32 (se_s2c_payload_ecc_len sess) (se_s2c_payload_ecc_len_secded sess) (se_s2c_payload_ecc_len damaged) (se_s2c_payload_ecc_len_secded damaged) \<and>
     upset_u32 (se_s2c_payload_ecc_len_inverse sess) (se_s2c_payload_ecc_len_inverse_secded sess) (se_s2c_payload_ecc_len_inverse damaged) (se_s2c_payload_ecc_len_inverse_secded damaged) \<and>
     damaged\<lparr>se_session_id := se_session_id sess, se_session_id_secded := se_session_id_secded sess,
       se_state := se_state sess, se_state_secded := se_state_secded sess,
       se_state_inverse := se_state_inverse sess, se_state_inverse_secded := se_state_inverse_secded sess,
       se_last_activity_ns := se_last_activity_ns sess, se_last_activity_ns_secded := se_last_activity_ns_secded sess,
       se_request_no := se_request_no sess, se_request_no_secded := se_request_no_secded sess,
       se_request_no_inverse := se_request_no_inverse sess, se_request_no_inverse_secded := se_request_no_inverse_secded sess,
       se_close_reason := se_close_reason sess, se_close_reason_secded := se_close_reason_secded sess,
       se_close_reason_inverse := se_close_reason_inverse sess, se_close_reason_inverse_secded := se_close_reason_inverse_secded sess,
       se_client_fd := se_client_fd sess, se_client_fd_secded := se_client_fd_secded sess,
       se_backend_fd := se_backend_fd sess, se_backend_fd_secded := se_backend_fd_secded sess,
       se_client_port := se_client_port sess, se_client_port_secded := se_client_port_secded sess,
       se_client_port_inverse := se_client_port_inverse sess, se_client_port_inverse_secded := se_client_port_inverse_secded sess,
       se_c2s_payload_ecc_len := se_c2s_payload_ecc_len sess, se_c2s_payload_ecc_len_secded := se_c2s_payload_ecc_len_secded sess,
       se_c2s_payload_ecc_len_inverse := se_c2s_payload_ecc_len_inverse sess, se_c2s_payload_ecc_len_inverse_secded := se_c2s_payload_ecc_len_inverse_secded sess,
       se_s2c_payload_ecc_len := se_s2c_payload_ecc_len sess, se_s2c_payload_ecc_len_secded := se_s2c_payload_ecc_len_secded sess,
       se_s2c_payload_ecc_len_inverse := se_s2c_payload_ecc_len_inverse sess, se_s2c_payload_ecc_len_inverse_secded := se_s2c_payload_ecc_len_inverse_secded sess\<rparr> = sess"

text \<open>What a repair step adds to the counters.\<close>

definition count_correction :: "llps_secded_status \<Rightarrow> safety_counters \<Rightarrow> safety_counters" where
  "count_correction st sc =
     (LLPS_MEMORY_SAFETY_COUNTER_INC secded_single_bit_repairs_update ^^ of_bool (st = LLPS_SECDED_CORRECTED)) sc"

section \<open>Repair of one word\<close>

lemma encode_of_valid:
  "llps_secded_is_valid_u64 w d e \<longleftrightarrow> e = llps_secded_encode_u64 w d"
  "llps_secded_is_valid_u32 v e \<longleftrightarrow> e = llps_secded_encode_u32 v"
  "llps_secded_is_valid_u16 u e \<longleftrightarrow> e = llps_secded_encode_u16 u"
  by (auto simp: llps_secded_is_valid_u64_def llps_secded_is_valid_u32_def llps_secded_is_valid_u16_def
      llps_secded_encode_u32_def llps_secded_encode_u16_def)

lemma repair_upset_wide:
  assumes "1 \<le> unat d" "unat d \<le> 64" "data AND llps_secded_data_mask d = data"
    and "upset_wide d (data, llps_secded_encode_u64 data d) (data', e')"
  shows "\<exists>st. llps_secded_repair_u64 data' d e' = (st, data, llps_secded_encode_u64 data d) \<and>
    st \<noteq> LLPS_SECDED_UNCORRECTABLE"
  using assms repair_clean [OF assms(1-3)] repair_single_flip [OF assms(1-3)]
  by (auto simp: upset_wide_def)

lemma repair_upset_u64:
  assumes "upset_u64 w e w' e'" "llps_secded_is_valid_u64 w 64 e"
  shows "\<exists>st. secded_repair_full w' e' = (st, w, e) \<and> st \<noteq> LLPS_SECDED_UNCORRECTABLE"
  using assms repair_upset_wide [of 64 w] by (simp add: upset_u64_def encode_of_valid and_mask_64)

lemma repair_upset_u32:
  assumes "upset_u32 w e w' e'" "llps_secded_is_valid_u32 w e"
  shows "\<exists>st. llps_secded_repair_u32 w' e' = (st, w, e) \<and> st \<noteq> LLPS_SECDED_UNCORRECTABLE"
  using assms repair_upset_wide [of 32 "ucast w" "ucast w'" e']
  by (auto simp: upset_u32_def encode_of_valid and_mask_ucast32 llps_secded_repair_u32_def
      llps_secded_encode_u32_def ucast_ucast_wide)

lemma repair_upset_u16:
  assumes "upset_u16 w e w' e'" "llps_secded_is_valid_u16 w e"
  shows "\<exists>st. llps_secded_repair_u16 w' e' = (st, w, e) \<and> st \<noteq> LLPS_SECDED_UNCORRECTABLE"
  using assms repair_upset_wide [of 16 "ucast w" "ucast w'" e']
  by (auto simp: upset_u16_def encode_of_valid and_mask_ucast16 llps_secded_repair_u16_def
      llps_secded_encode_u16_def ucast_ucast_wide)

lemma repair_word_step:
  assumes "repair (g s) (ge s) = (st, w, e)" "st \<noteq> LLPS_SECDED_UNCORRECTABLE"
  shows "session_repair_word repair g u ge ue (s, ok, sc) =
    (u (\<lambda>_. w) (ue (\<lambda>_. e) s), ok, count_correction st sc)"
  using assms by (simp add: session_repair_word_def llps_session_repair_status_ok_def count_correction_def)

section \<open>Repair of a session\<close>

text \<open>Each group of words: the damaged words are replaced by the written ones.\<close>

lemma repair_identity_upset:
  assumes "llps_session_secded_is_valid sess"
    and "upset_u32 (se_session_id sess) (se_session_id_secded sess) (se_session_id d) (se_session_id_secded d)"
    and "upset_u32 (se_state sess) (se_state_secded sess) (se_state d) (se_state_secded d)"
    and "upset_u32 (se_state_inverse sess) (se_state_inverse_secded sess) (se_state_inverse d) (se_state_inverse_secded d)"
  shows "\<exists>m \<le> 3. llps_session_repair_identity_secded (d, ok, sc) =
    (d\<lparr>se_session_id := se_session_id sess, se_session_id_secded := se_session_id_secded sess,
      se_state := se_state sess, se_state_secded := se_state_secded sess,
      se_state_inverse := se_state_inverse sess, se_state_inverse_secded := se_state_inverse_secded sess\<rparr>,
     ok, (LLPS_MEMORY_SAFETY_COUNTER_INC secded_single_bit_repairs_update ^^ m) sc)"
proof -
  note valid = assms(1) [unfolded llps_session_secded_is_valid_def]
  obtain s0 where s0: "llps_secded_repair_u32 (se_session_id d) (se_session_id_secded d) = (s0, se_session_id sess, se_session_id_secded sess)"
    "s0 \<noteq> LLPS_SECDED_UNCORRECTABLE"
    using repair_upset_u32 [OF assms(2)] valid by blast
  obtain s1 where s1: "llps_secded_repair_u32 (se_state d) (se_state_secded d) = (s1, se_state sess, se_state_secded sess)"
    "s1 \<noteq> LLPS_SECDED_UNCORRECTABLE"
    using repair_upset_u32 [OF assms(3)] valid by blast
  obtain s2 where s2: "llps_secded_repair_u32 (se_state_inverse d) (se_state_inverse_secded d) = (s2, se_state_inverse sess, se_state_inverse_secded sess)"
    "s2 \<noteq> LLPS_SECDED_UNCORRECTABLE"
    using repair_upset_u32 [OF assms(4)] valid by blast
  show ?thesis
    by (rule exI [of _ "of_bool (s0 = LLPS_SECDED_CORRECTED) + of_bool (s1 = LLPS_SECDED_CORRECTED) + of_bool (s2 = LLPS_SECDED_CORRECTED)"])
      (simp add: llps_session_repair_identity_secded_def repair_word_step s0 s1 s2
        count_correction_def funpow_add)
qed

lemma repair_activity_upset:
  assumes "llps_session_secded_is_valid sess"
    and "upset_u64 (se_last_activity_ns sess) (se_last_activity_ns_secded sess) (se_last_activity_ns d) (se_last_activity_ns_secded d)"
    and "upset_u64 (se_request_no sess) (se_request_no_secded sess) (se_request_no d) (se_request_no_secded d)"
    and "upset_u64 (se_request_no_inverse sess) (se_request_no_inverse_secded sess) (se_request_no_inverse d) (se_request_no_inverse_secded d)"
    and "upset_u32 (se_close_reason sess) (se_close_reason_secded sess) (se_close_reason d) (se_close_reason_secded d)"
    and "upset_u32 (se_close_reason_inverse sess) (se_close_reason_inverse_secded sess) (se_close_reason_inverse d) (se_close_reason_inverse_secded d)"
  shows "\<exists>m \<le> 5. llps_session_repair_activity_secded (d, ok, sc) =
    (d\<lparr>se_last_activity_ns := se_last_activity_ns sess, se_last_activity_ns_secded := se_last_activity_ns_secded sess,
      se_request_no := se_request_no sess, se_request_no_secded := se_request_no_secded sess,
      se_request_no_inverse := se_request_no_inverse sess, se_request_no_inverse_secded := se_request_no_inverse_secded sess,
      se_close_reason := se_close_reason sess, se_close_reason_secded := se_close_reason_secded sess,
      se_close_reason_inverse := se_close_reason_inverse sess, se_close_reason_inverse_secded := se_close_reason_inverse_secded sess\<rparr>,
     ok, (LLPS_MEMORY_SAFETY_COUNTER_INC secded_single_bit_repairs_update ^^ m) sc)"
proof -
  note valid = assms(1) [unfolded llps_session_secded_is_valid_def]
  obtain s0 where s0: "secded_repair_full (se_last_activity_ns d) (se_last_activity_ns_secded d) = (s0, se_last_activity_ns sess, se_last_activity_ns_secded sess)"
    "s0 \<noteq> LLPS_SECDED_UNCORRECTABLE"
    using repair_upset_u64 [OF assms(2)] valid by blast
  obtain s1 where s1: "secded_repair_full (se_request_no d) (se_request_no_secded d) = (s1, se_request_no sess, se_request_no_secded sess)"
    "s1 \<noteq> LLPS_SECDED_UNCORRECTABLE"
    using repair_upset_u64 [OF assms(3)] valid by blast
  obtain s2 where s2: "secded_repair_full (se_request_no_inverse d) (se_request_no_inverse_secded d) = (s2, se_request_no_inverse sess, se_request_no_inverse_secded sess)"
    "s2 \<noteq> LLPS_SECDED_UNCORRECTABLE"
    using repair_upset_u64 [OF assms(4)] valid by blast
  obtain s3 where s3: "llps_secded_repair_u32 (se_close_reason d) (se_close_reason_secded d) = (s3, se_close_reason sess, se_close_reason_secded sess)"
    "s3 \<noteq> LLPS_SECDED_UNCORRECTABLE"
    using repair_upset_u32 [OF assms(5)] valid by blast
  obtain s4 where s4: "llps_secded_repair_u32 (se_close_reason_inverse d) (se_close_reason_inverse_secded d) = (s4, se_close_reason_inverse sess, se_close_reason_inverse_secded sess)"
    "s4 \<noteq> LLPS_SECDED_UNCORRECTABLE"
    using repair_upset_u32 [OF assms(6)] valid by blast
  show ?thesis
    by (rule exI [of _ "of_bool (s0 = LLPS_SECDED_CORRECTED) + of_bool (s1 = LLPS_SECDED_CORRECTED) + of_bool (s2 = LLPS_SECDED_CORRECTED) + of_bool (s3 = LLPS_SECDED_CORRECTED) + of_bool (s4 = LLPS_SECDED_CORRECTED)"])
      (simp add: llps_session_repair_activity_secded_def repair_word_step s0 s1 s2 s3 s4
        count_correction_def funpow_add)
qed

lemma repair_fd_port_upset:
  assumes "llps_session_secded_is_valid sess"
    and "upset_u32 (se_client_fd sess) (se_client_fd_secded sess) (se_client_fd d) (se_client_fd_secded d)"
    and "upset_u32 (se_backend_fd sess) (se_backend_fd_secded sess) (se_backend_fd d) (se_backend_fd_secded d)"
    and "upset_u16 (se_client_port sess) (se_client_port_secded sess) (se_client_port d) (se_client_port_secded d)"
    and "upset_u32 (se_client_port_inverse sess) (se_client_port_inverse_secded sess) (se_client_port_inverse d) (se_client_port_inverse_secded d)"
  shows "\<exists>m \<le> 4. llps_session_repair_fd_port_secded (d, ok, sc) =
    (d\<lparr>se_client_fd := se_client_fd sess, se_client_fd_secded := se_client_fd_secded sess,
      se_backend_fd := se_backend_fd sess, se_backend_fd_secded := se_backend_fd_secded sess,
      se_client_port := se_client_port sess, se_client_port_secded := se_client_port_secded sess,
      se_client_port_inverse := se_client_port_inverse sess, se_client_port_inverse_secded := se_client_port_inverse_secded sess\<rparr>,
     ok, (LLPS_MEMORY_SAFETY_COUNTER_INC secded_single_bit_repairs_update ^^ m) sc)"
proof -
  note valid = assms(1) [unfolded llps_session_secded_is_valid_def]
  obtain s0 where s0: "llps_secded_repair_u32 (se_client_fd d) (se_client_fd_secded d) = (s0, se_client_fd sess, se_client_fd_secded sess)"
    "s0 \<noteq> LLPS_SECDED_UNCORRECTABLE"
    using repair_upset_u32 [OF assms(2)] valid by blast
  obtain s1 where s1: "llps_secded_repair_u32 (se_backend_fd d) (se_backend_fd_secded d) = (s1, se_backend_fd sess, se_backend_fd_secded sess)"
    "s1 \<noteq> LLPS_SECDED_UNCORRECTABLE"
    using repair_upset_u32 [OF assms(3)] valid by blast
  obtain s2 where s2: "llps_secded_repair_u16 (se_client_port d) (se_client_port_secded d) = (s2, se_client_port sess, se_client_port_secded sess)"
    "s2 \<noteq> LLPS_SECDED_UNCORRECTABLE"
    using repair_upset_u16 [OF assms(4)] valid by blast
  obtain s3 where s3: "llps_secded_repair_u32 (se_client_port_inverse d) (se_client_port_inverse_secded d) = (s3, se_client_port_inverse sess, se_client_port_inverse_secded sess)"
    "s3 \<noteq> LLPS_SECDED_UNCORRECTABLE"
    using repair_upset_u32 [OF assms(5)] valid by blast
  show ?thesis
    by (rule exI [of _ "of_bool (s0 = LLPS_SECDED_CORRECTED) + of_bool (s1 = LLPS_SECDED_CORRECTED) + of_bool (s2 = LLPS_SECDED_CORRECTED) + of_bool (s3 = LLPS_SECDED_CORRECTED)"])
      (simp add: llps_session_repair_fd_port_secded_def repair_word_step s0 s1 s2 s3
        count_correction_def funpow_add)
qed

lemma repair_payload_upset:
  assumes "llps_session_secded_is_valid sess"
    and "upset_u32 (se_c2s_payload_ecc_len sess) (se_c2s_payload_ecc_len_secded sess) (se_c2s_payload_ecc_len d) (se_c2s_payload_ecc_len_secded d)"
    and "upset_u32 (se_c2s_payload_ecc_len_inverse sess) (se_c2s_payload_ecc_len_inverse_secded sess) (se_c2s_payload_ecc_len_inverse d) (se_c2s_payload_ecc_len_inverse_secded d)"
    and "upset_u32 (se_s2c_payload_ecc_len sess) (se_s2c_payload_ecc_len_secded sess) (se_s2c_payload_ecc_len d) (se_s2c_payload_ecc_len_secded d)"
    and "upset_u32 (se_s2c_payload_ecc_len_inverse sess) (se_s2c_payload_ecc_len_inverse_secded sess) (se_s2c_payload_ecc_len_inverse d) (se_s2c_payload_ecc_len_inverse_secded d)"
  shows "\<exists>m \<le> 4. llps_session_repair_payload_secded (d, ok, sc) =
    (d\<lparr>se_c2s_payload_ecc_len := se_c2s_payload_ecc_len sess, se_c2s_payload_ecc_len_secded := se_c2s_payload_ecc_len_secded sess,
      se_c2s_payload_ecc_len_inverse := se_c2s_payload_ecc_len_inverse sess, se_c2s_payload_ecc_len_inverse_secded := se_c2s_payload_ecc_len_inverse_secded sess,
      se_s2c_payload_ecc_len := se_s2c_payload_ecc_len sess, se_s2c_payload_ecc_len_secded := se_s2c_payload_ecc_len_secded sess,
      se_s2c_payload_ecc_len_inverse := se_s2c_payload_ecc_len_inverse sess, se_s2c_payload_ecc_len_inverse_secded := se_s2c_payload_ecc_len_inverse_secded sess\<rparr>,
     ok, (LLPS_MEMORY_SAFETY_COUNTER_INC secded_single_bit_repairs_update ^^ m) sc)"
proof -
  note valid = assms(1) [unfolded llps_session_secded_is_valid_def]
  obtain s0 where s0: "llps_secded_repair_u32 (se_c2s_payload_ecc_len d) (se_c2s_payload_ecc_len_secded d) = (s0, se_c2s_payload_ecc_len sess, se_c2s_payload_ecc_len_secded sess)"
    "s0 \<noteq> LLPS_SECDED_UNCORRECTABLE"
    using repair_upset_u32 [OF assms(2)] valid by blast
  obtain s1 where s1: "llps_secded_repair_u32 (se_c2s_payload_ecc_len_inverse d) (se_c2s_payload_ecc_len_inverse_secded d) = (s1, se_c2s_payload_ecc_len_inverse sess, se_c2s_payload_ecc_len_inverse_secded sess)"
    "s1 \<noteq> LLPS_SECDED_UNCORRECTABLE"
    using repair_upset_u32 [OF assms(3)] valid by blast
  obtain s2 where s2: "llps_secded_repair_u32 (se_s2c_payload_ecc_len d) (se_s2c_payload_ecc_len_secded d) = (s2, se_s2c_payload_ecc_len sess, se_s2c_payload_ecc_len_secded sess)"
    "s2 \<noteq> LLPS_SECDED_UNCORRECTABLE"
    using repair_upset_u32 [OF assms(4)] valid by blast
  obtain s3 where s3: "llps_secded_repair_u32 (se_s2c_payload_ecc_len_inverse d) (se_s2c_payload_ecc_len_inverse_secded d) = (s3, se_s2c_payload_ecc_len_inverse sess, se_s2c_payload_ecc_len_inverse_secded sess)"
    "s3 \<noteq> LLPS_SECDED_UNCORRECTABLE"
    using repair_upset_u32 [OF assms(5)] valid by blast
  show ?thesis
    by (rule exI [of _ "of_bool (s0 = LLPS_SECDED_CORRECTED) + of_bool (s1 = LLPS_SECDED_CORRECTED) + of_bool (s2 = LLPS_SECDED_CORRECTED) + of_bool (s3 = LLPS_SECDED_CORRECTED)"])
      (simp add: llps_session_repair_payload_secded_def repair_word_step s0 s1 s2 s3
        count_correction_def funpow_add)
qed

lemma repair_session_upset:
  assumes "llps_session_secded_is_valid sess" "session_upset sess damaged"
  shows "\<exists>m \<le> 16. llps_session_repair_secded damaged sc =
    (True, sess, (LLPS_MEMORY_SAFETY_COUNTER_INC secded_single_bit_repairs_update ^^ m) sc)"
proof -
  note up = assms(2) [unfolded session_upset_def]
  let ?d0 = "damaged\<lparr>se_session_id := se_session_id sess, se_session_id_secded := se_session_id_secded sess,
      se_state := se_state sess, se_state_secded := se_state_secded sess,
      se_state_inverse := se_state_inverse sess, se_state_inverse_secded := se_state_inverse_secded sess\<rparr>"
  let ?c1 = "\<lambda>m. (LLPS_MEMORY_SAFETY_COUNTER_INC secded_single_bit_repairs_update ^^ m) sc"
  have "\<exists>m \<le> 3. llps_session_repair_identity_secded (damaged, True, sc) = (?d0, True, ?c1 m)"
    by (rule repair_identity_upset [OF assms(1)]) (use up in simp_all)
  then obtain m0 where m0: "m0 \<le> 3"
    "llps_session_repair_identity_secded (damaged, True, sc) = (?d0, True, ?c1 m0)" by blast
  let ?d1 = "?d0\<lparr>se_last_activity_ns := se_last_activity_ns sess, se_last_activity_ns_secded := se_last_activity_ns_secded sess,
      se_request_no := se_request_no sess, se_request_no_secded := se_request_no_secded sess,
      se_request_no_inverse := se_request_no_inverse sess, se_request_no_inverse_secded := se_request_no_inverse_secded sess,
      se_close_reason := se_close_reason sess, se_close_reason_secded := se_close_reason_secded sess,
      se_close_reason_inverse := se_close_reason_inverse sess, se_close_reason_inverse_secded := se_close_reason_inverse_secded sess\<rparr>"
  let ?c2 = "\<lambda>m. (LLPS_MEMORY_SAFETY_COUNTER_INC secded_single_bit_repairs_update ^^ m) (?c1 m0)"
  have "\<exists>m \<le> 5. llps_session_repair_activity_secded (?d0, True, (?c1 m0)) = (?d1, True, ?c2 m)"
    by (rule repair_activity_upset [OF assms(1)]) (use up in simp_all)
  then obtain m1 where m1: "m1 \<le> 5"
    "llps_session_repair_activity_secded (?d0, True, (?c1 m0)) = (?d1, True, ?c2 m1)" by blast
  let ?d2 = "?d1\<lparr>se_client_fd := se_client_fd sess, se_client_fd_secded := se_client_fd_secded sess,
      se_backend_fd := se_backend_fd sess, se_backend_fd_secded := se_backend_fd_secded sess,
      se_client_port := se_client_port sess, se_client_port_secded := se_client_port_secded sess,
      se_client_port_inverse := se_client_port_inverse sess, se_client_port_inverse_secded := se_client_port_inverse_secded sess\<rparr>"
  let ?c3 = "\<lambda>m. (LLPS_MEMORY_SAFETY_COUNTER_INC secded_single_bit_repairs_update ^^ m) (?c2 m1)"
  have "\<exists>m \<le> 4. llps_session_repair_fd_port_secded (?d1, True, (?c2 m1)) = (?d2, True, ?c3 m)"
    by (rule repair_fd_port_upset [OF assms(1)]) (use up in simp_all)
  then obtain m2 where m2: "m2 \<le> 4"
    "llps_session_repair_fd_port_secded (?d1, True, (?c2 m1)) = (?d2, True, ?c3 m2)" by blast
  let ?d3 = "?d2\<lparr>se_c2s_payload_ecc_len := se_c2s_payload_ecc_len sess, se_c2s_payload_ecc_len_secded := se_c2s_payload_ecc_len_secded sess,
      se_c2s_payload_ecc_len_inverse := se_c2s_payload_ecc_len_inverse sess, se_c2s_payload_ecc_len_inverse_secded := se_c2s_payload_ecc_len_inverse_secded sess,
      se_s2c_payload_ecc_len := se_s2c_payload_ecc_len sess, se_s2c_payload_ecc_len_secded := se_s2c_payload_ecc_len_secded sess,
      se_s2c_payload_ecc_len_inverse := se_s2c_payload_ecc_len_inverse sess, se_s2c_payload_ecc_len_inverse_secded := se_s2c_payload_ecc_len_inverse_secded sess\<rparr>"
  let ?c4 = "\<lambda>m. (LLPS_MEMORY_SAFETY_COUNTER_INC secded_single_bit_repairs_update ^^ m) (?c3 m2)"
  have "\<exists>m \<le> 4. llps_session_repair_payload_secded (?d2, True, (?c3 m2)) = (?d3, True, ?c4 m)"
    by (rule repair_payload_upset [OF assms(1)]) (use up in simp_all)
  then obtain m3 where m3: "m3 \<le> 4"
    "llps_session_repair_payload_secded (?d2, True, (?c3 m2)) = (?d3, True, ?c4 m3)" by blast
  from up have "?d3 = sess" by (elim conjE)
  then show ?thesis
    using m0 m1 m2 m3
    by (intro exI [of _ "m3 + (m2 + (m1 + m0))"]) (simp add: llps_session_repair_secded_def Let_def funpow_add)
qed

lemma refresh_secded_is_valid: "llps_session_secded_is_valid (llps_session_refresh_secded sess)"
  by (simp add: llps_session_secded_is_valid_def llps_session_refresh_secded_def)

lemma refresh_secded_id: "llps_session_secded_is_valid sess \<Longrightarrow> llps_session_refresh_secded sess = sess"
  by (cases sess) (simp add: llps_session_secded_is_valid_def llps_session_refresh_secded_def encode_of_valid)

section \<open>Properties\<close>

text \<open>A record of zeros, for examples.\<close>

definition blank_pump_args :: llps_pump_args_t where
  "blank_pump_args = \<lparr>pa_session = 0, pa_src_fd = 0, pa_dst_fd = 0, pa_buf = 0, pa_buf_len = 0, pa_direction = 0\<rparr>"

definition blank_session :: llps_session_t where
  "blank_session = \<lparr>se_magic_start = 0, se_session_id = 0, se_session_id_secded = 0, se_state = 0, se_state_secded
     = 0, se_state_inverse = 0, se_state_inverse_secded = 0, se_last_activity_ns = 0,
     se_last_activity_ns_secded = 0, se_request_no = 0, se_request_no_secded = 0,
     se_request_no_inverse = 0, se_request_no_inverse_secded = 0, se_close_reason = 0,
     se_close_reason_secded = 0, se_close_reason_inverse = 0, se_close_reason_inverse_secded = 0,
     se_client_fd = 0, se_client_fd_secded = 0, se_backend_fd = 0, se_backend_fd_secded = 0,
     se_client_ip = replicate 16 0, se_client_port = 0, se_client_port_secded = 0,
     se_client_port_inverse = 0, se_client_port_inverse_secded = 0, se_pump_c2s =
     llps_reset_pump_args blank_pump_args, se_pump_s2c = llps_reset_pump_args blank_pump_args,
     se_c2s_buf = replicate 4096 0, se_s2c_buf = replicate 4096 0, se_c2s_payload_ecc = replicate
     512 0, se_s2c_payload_ecc = replicate 512 0, se_c2s_payload_ecc_len = 0,
     se_c2s_payload_ecc_len_secded = 0, se_c2s_payload_ecc_len_inverse = 0,
     se_c2s_payload_ecc_len_inverse_secded = 0, se_s2c_payload_ecc_len = 0,
     se_s2c_payload_ecc_len_secded = 0, se_s2c_payload_ecc_len_inverse = 0,
     se_s2c_payload_ecc_len_inverse_secded = 0, se_integrity_crc = 0, se_integrity_crc_inverse = 0,
     se_magic_end = 0\<rparr>"

text \<open>
  Scattered upsets of a session's metadata are repaired. When every protected word of a sound
  session (identity, state, activity, request number, close reason, descriptors, port, payload
  lengths and the inverse copies, each with its check byte) has at most one flipped bit, in all
  sixteen words at once if need be, the repair succeeds, restores the session exactly and counts at
  most sixteen corrections.
\<close>

theorem session_upsets_repaired:
  assumes "llps_session_secded_is_valid sess" "session_upset sess damaged"
  shows "\<exists>m \<le> 16. llps_session_repair_secded damaged sc =
    (True, sess, (LLPS_MEMORY_SAFETY_COUNTER_INC secded_single_bit_repairs_update ^^ m) sc)"
  using assms by (rule repair_session_upset)

lemma sample_session_upset:
  "session_upset (llps_session_refresh_secded blank_session)
     ((llps_session_refresh_secded blank_session)\<lparr>se_session_id := 8, se_client_port := 2\<rparr>)"
proof -
  have "upset_u32 0 e 8 e" for e
    unfolding upset_u32_def upset_wide_def by (intro disjI2 exI [of _ "DataBit 3"]) simp
  moreover have "upset_u16 0 e 2 e" for e
    unfolding upset_u16_def upset_wide_def by (intro disjI2 exI [of _ "DataBit 1"]) simp
  moreover have "upset_u32 w e w e" "upset_u64 v e v e" for w v e
    by (simp_all add: upset_u32_def upset_u64_def upset_wide_def)
  ultimately show ?thesis
    by (simp add: session_upset_def llps_session_refresh_secded_def blank_session_def)
qed

theorem session_upsets_repaired_witness:
  "\<exists>m \<le> 16. llps_session_repair_secded
      ((llps_session_refresh_secded blank_session)\<lparr>se_session_id := 8, se_client_port := 2\<rparr>)
      \<lparr>g_memory_safety_counters = zero_counters, g_memory_safety_counters_crc = 0,
       g_memory_safety_counters_crc_inverse = 0\<rparr> =
    (True, llps_session_refresh_secded blank_session,
     (LLPS_MEMORY_SAFETY_COUNTER_INC secded_single_bit_repairs_update ^^ m)
      \<lparr>g_memory_safety_counters = zero_counters, g_memory_safety_counters_crc = 0,
       g_memory_safety_counters_crc_inverse = 0\<rparr>)"
  by (rule session_upsets_repaired [OF refresh_secded_is_valid sample_session_upset])

end
