(* ===== verification/Session_Record.thy ===== *)
theory Session_Record
  imports Session_Integrity
begin

text \<open>
  One redundant record of a session's metadata, from \<^verbatim>\<open>src/session/llps_session_tmr.c\<close>: every word
  has its bitwise inverse, both have a SECDED check byte, and the record has a checksum. The
  snapshot is the plain value it holds. The three guarded regions of such records are in
  \<open>Session_Tmr\<close>.
\<close>

section \<open>Definitions\<close>

abbreviation LLPS_SESSION_TMR_PAD_BYTES :: nat where
  "LLPS_SESSION_TMR_PAD_BYTES \<equiv> 64"

record llps_session_tmr_snapshot_t =
  ss_session_id :: "u32"
  ss_state :: "u32"
  ss_last_activity_ns :: "u64"
  ss_request_no :: "u64"
  ss_client_fd :: "c_int"
  ss_backend_fd :: "c_int"
  ss_close_reason :: "u32"
  ss_client_ip :: "u8 list"
  ss_client_port :: "u16"
  ss_c2s_payload_ecc_len :: "u32"
  ss_s2c_payload_ecc_len :: "u32"
  ss_session_crc :: "u32"

record llps_session_tmr_record_t =
  tr_magic_start :: "u32"
  tr_bank_id :: "u32"
  tr_session_id :: "u32"
  tr_session_id_secded :: "u8"
  tr_session_id_inverse :: "u32"
  tr_session_id_inverse_secded :: "u8"
  tr_state :: "u32"
  tr_state_secded :: "u8"
  tr_state_inverse :: "u32"
  tr_state_inverse_secded :: "u8"
  tr_last_activity_ns :: "u64"
  tr_last_activity_ns_secded :: "u8"
  tr_last_activity_ns_inverse :: "u64"
  tr_last_activity_ns_inverse_secded :: "u8"
  tr_request_no :: "u64"
  tr_request_no_secded :: "u8"
  tr_request_no_inverse :: "u64"
  tr_request_no_inverse_secded :: "u8"
  tr_close_reason :: "u32"
  tr_close_reason_secded :: "u8"
  tr_close_reason_inverse :: "u32"
  tr_close_reason_inverse_secded :: "u8"
  tr_client_fd :: "u32"
  tr_client_fd_secded :: "u8"
  tr_client_fd_inverse :: "u32"
  tr_client_fd_inverse_secded :: "u8"
  tr_backend_fd :: "u32"
  tr_backend_fd_secded :: "u8"
  tr_backend_fd_inverse :: "u32"
  tr_backend_fd_inverse_secded :: "u8"
  tr_client_ip :: "u8 list"
  tr_client_ip_inverse :: "u8 list"
  tr_client_port :: "u32"
  tr_client_port_secded :: "u8"
  tr_client_port_inverse :: "u32"
  tr_client_port_inverse_secded :: "u8"
  tr_c2s_payload_ecc_len :: "u32"
  tr_c2s_payload_ecc_len_secded :: "u8"
  tr_c2s_payload_ecc_len_inverse :: "u32"
  tr_c2s_payload_ecc_len_inverse_secded :: "u8"
  tr_s2c_payload_ecc_len :: "u32"
  tr_s2c_payload_ecc_len_secded :: "u8"
  tr_s2c_payload_ecc_len_inverse :: "u32"
  tr_s2c_payload_ecc_len_inverse_secded :: "u8"
  tr_session_crc :: "u32"
  tr_session_crc_secded :: "u8"
  tr_session_crc_inverse :: "u32"
  tr_session_crc_inverse_secded :: "u8"
  tr_record_crc :: "u32"
  tr_record_crc_inverse :: "u32"
  tr_magic_end :: "u32"
  tr_separation_pad :: "u8 list"

definition llps_session_tmr_magic_for_bank :: "u32 \<Rightarrow> u32" where
  "llps_session_tmr_magic_for_bank n = 0x51A7E004 XOR (0x11111111 * (n + 1))"

definition llps_session_tmr_record_crc_identity :: "u32 \<Rightarrow> llps_session_tmr_record_t \<Rightarrow> u32" where
  "llps_session_tmr_record_crc_identity crc rec =
     (let crc = llps_crc32_update_u32 crc (tr_magic_start rec);
          crc = llps_crc32_update_u32 crc (tr_bank_id rec);
          crc = llps_crc32_update_u32 crc (tr_session_id rec);
          crc = llps_crc32_update_byte crc (tr_session_id_secded rec);
          crc = llps_crc32_update_u32 crc (tr_session_id_inverse rec);
          crc = llps_crc32_update_byte crc (tr_session_id_inverse_secded rec);
          crc = llps_crc32_update_u32 crc (tr_state rec);
          crc = llps_crc32_update_byte crc (tr_state_secded rec);
          crc = llps_crc32_update_u32 crc (tr_state_inverse rec);
          crc = llps_crc32_update_byte crc (tr_state_inverse_secded rec);
          crc = llps_crc32_update_u64 crc (tr_last_activity_ns rec);
          crc = llps_crc32_update_byte crc (tr_last_activity_ns_secded rec);
          crc = llps_crc32_update_u64 crc (tr_last_activity_ns_inverse rec);
          crc = llps_crc32_update_byte crc (tr_last_activity_ns_inverse_secded rec)
      in crc)"

definition llps_session_tmr_record_crc_request :: "u32 \<Rightarrow> llps_session_tmr_record_t \<Rightarrow> u32" where
  "llps_session_tmr_record_crc_request crc rec =
     (let crc = llps_crc32_update_u64 crc (tr_request_no rec);
          crc = llps_crc32_update_byte crc (tr_request_no_secded rec);
          crc = llps_crc32_update_u64 crc (tr_request_no_inverse rec);
          crc = llps_crc32_update_byte crc (tr_request_no_inverse_secded rec);
          crc = llps_crc32_update_u32 crc (tr_close_reason rec);
          crc = llps_crc32_update_byte crc (tr_close_reason_secded rec);
          crc = llps_crc32_update_u32 crc (tr_close_reason_inverse rec);
          crc = llps_crc32_update_byte crc (tr_close_reason_inverse_secded rec);
          crc = llps_crc32_update_u32 crc (tr_client_fd rec);
          crc = llps_crc32_update_byte crc (tr_client_fd_secded rec);
          crc = llps_crc32_update_u32 crc (tr_client_fd_inverse rec);
          crc = llps_crc32_update_byte crc (tr_client_fd_inverse_secded rec);
          crc = llps_crc32_update_u32 crc (tr_backend_fd rec);
          crc = llps_crc32_update_byte crc (tr_backend_fd_secded rec);
          crc = llps_crc32_update_u32 crc (tr_backend_fd_inverse rec);
          crc = llps_crc32_update_byte crc (tr_backend_fd_inverse_secded rec)
      in crc)"

definition llps_session_tmr_record_crc_client :: "u32 \<Rightarrow> llps_session_tmr_record_t \<Rightarrow> u32" where
  "llps_session_tmr_record_crc_client crc rec =
     (let crc = foldl llps_crc32_update_byte crc (tr_client_ip rec);
          crc = foldl llps_crc32_update_byte crc (tr_client_ip_inverse rec);
          crc = llps_crc32_update_u32 crc (tr_client_port rec);
          crc = llps_crc32_update_byte crc (tr_client_port_secded rec);
          crc = llps_crc32_update_u32 crc (tr_client_port_inverse rec);
          crc = llps_crc32_update_byte crc (tr_client_port_inverse_secded rec)
      in crc)"

definition llps_session_tmr_record_crc_payload :: "u32 \<Rightarrow> llps_session_tmr_record_t \<Rightarrow> u32" where
  "llps_session_tmr_record_crc_payload crc rec =
     (let crc = llps_crc32_update_u32 crc (tr_c2s_payload_ecc_len rec);
          crc = llps_crc32_update_byte crc (tr_c2s_payload_ecc_len_secded rec);
          crc = llps_crc32_update_u32 crc (tr_c2s_payload_ecc_len_inverse rec);
          crc = llps_crc32_update_byte crc (tr_c2s_payload_ecc_len_inverse_secded rec);
          crc = llps_crc32_update_u32 crc (tr_s2c_payload_ecc_len rec);
          crc = llps_crc32_update_byte crc (tr_s2c_payload_ecc_len_secded rec);
          crc = llps_crc32_update_u32 crc (tr_s2c_payload_ecc_len_inverse rec);
          crc = llps_crc32_update_byte crc (tr_s2c_payload_ecc_len_inverse_secded rec);
          crc = llps_crc32_update_u32 crc (tr_session_crc rec);
          crc = llps_crc32_update_byte crc (tr_session_crc_secded rec);
          crc = llps_crc32_update_u32 crc (tr_session_crc_inverse rec);
          crc = llps_crc32_update_byte crc (tr_session_crc_inverse_secded rec)
      in crc)"

definition llps_session_tmr_record_compute_crc :: "llps_session_tmr_record_t \<Rightarrow> u32" where
  "llps_session_tmr_record_compute_crc rec =
     (let crc = LLPS_SESSION_CRC_INIT;
          crc = llps_session_tmr_record_crc_identity crc rec;
          crc = llps_session_tmr_record_crc_request crc rec;
          crc = llps_session_tmr_record_crc_client crc rec;
          crc = llps_session_tmr_record_crc_payload crc rec;
          crc = llps_crc32_update_u32 crc (tr_magic_end rec)
      in crc XOR LLPS_SESSION_CRC_XOROUT)"

definition llps_session_tmr_snapshot_equal ::
    "llps_session_tmr_snapshot_t \<Rightarrow> llps_session_tmr_snapshot_t \<Rightarrow> bool" where
  "llps_session_tmr_snapshot_equal lhs rhs \<longleftrightarrow>
     ss_session_id lhs = ss_session_id rhs \<and>
     ss_state lhs = ss_state rhs \<and>
     ss_last_activity_ns lhs = ss_last_activity_ns rhs \<and>
     ss_request_no lhs = ss_request_no rhs \<and>
     ss_client_fd lhs = ss_client_fd rhs \<and>
     ss_backend_fd lhs = ss_backend_fd rhs \<and>
     ss_close_reason lhs = ss_close_reason rhs \<and>
     ss_client_port lhs = ss_client_port rhs \<and>
     ss_c2s_payload_ecc_len lhs = ss_c2s_payload_ecc_len rhs \<and>
     ss_s2c_payload_ecc_len lhs = ss_s2c_payload_ecc_len rhs \<and>
     ss_client_ip lhs = ss_client_ip rhs \<and>
     ss_session_crc lhs = ss_session_crc rhs"

definition llps_session_tmr_record_refresh_secded ::
    "llps_session_tmr_record_t \<Rightarrow> llps_session_tmr_record_t" where
  "llps_session_tmr_record_refresh_secded rec =
     rec\<lparr>tr_session_id_secded := llps_secded_encode_u32 (tr_session_id rec),
       tr_session_id_inverse_secded := llps_secded_encode_u32 (tr_session_id_inverse rec),
       tr_state_secded := llps_secded_encode_u32 (tr_state rec),
       tr_state_inverse_secded := llps_secded_encode_u32 (tr_state_inverse rec),
       tr_last_activity_ns_secded := llps_secded_encode_u64 (tr_last_activity_ns rec) 64,
       tr_last_activity_ns_inverse_secded := llps_secded_encode_u64 (tr_last_activity_ns_inverse rec) 64,
       tr_request_no_secded := llps_secded_encode_u64 (tr_request_no rec) 64,
       tr_request_no_inverse_secded := llps_secded_encode_u64 (tr_request_no_inverse rec) 64,
       tr_close_reason_secded := llps_secded_encode_u32 (tr_close_reason rec),
       tr_close_reason_inverse_secded := llps_secded_encode_u32 (tr_close_reason_inverse rec),
       tr_client_fd_secded := llps_secded_encode_u32 (tr_client_fd rec),
       tr_client_fd_inverse_secded := llps_secded_encode_u32 (tr_client_fd_inverse rec),
       tr_backend_fd_secded := llps_secded_encode_u32 (tr_backend_fd rec),
       tr_backend_fd_inverse_secded := llps_secded_encode_u32 (tr_backend_fd_inverse rec),
       tr_client_port_secded := llps_secded_encode_u32 (tr_client_port rec),
       tr_client_port_inverse_secded := llps_secded_encode_u32 (tr_client_port_inverse rec),
       tr_c2s_payload_ecc_len_secded := llps_secded_encode_u32 (tr_c2s_payload_ecc_len rec),
       tr_c2s_payload_ecc_len_inverse_secded := llps_secded_encode_u32 (tr_c2s_payload_ecc_len_inverse rec),
       tr_s2c_payload_ecc_len_secded := llps_secded_encode_u32 (tr_s2c_payload_ecc_len rec),
       tr_s2c_payload_ecc_len_inverse_secded := llps_secded_encode_u32 (tr_s2c_payload_ecc_len_inverse rec),
       tr_session_crc_secded := llps_secded_encode_u32 (tr_session_crc rec),
       tr_session_crc_inverse_secded := llps_secded_encode_u32 (tr_session_crc_inverse rec)\<rparr>"

definition llps_session_tmr_record_secded_is_valid :: "llps_session_tmr_record_t \<Rightarrow> bool" where
  "llps_session_tmr_record_secded_is_valid rec \<longleftrightarrow>
     llps_secded_is_valid_u32 (tr_session_id rec) (tr_session_id_secded rec) \<and>
     llps_secded_is_valid_u32 (tr_session_id_inverse rec) (tr_session_id_inverse_secded rec) \<and>
     llps_secded_is_valid_u32 (tr_state rec) (tr_state_secded rec) \<and>
     llps_secded_is_valid_u32 (tr_state_inverse rec) (tr_state_inverse_secded rec) \<and>
     llps_secded_is_valid_u64 (tr_last_activity_ns rec) 64 (tr_last_activity_ns_secded rec) \<and>
     llps_secded_is_valid_u64 (tr_last_activity_ns_inverse rec) 64 (tr_last_activity_ns_inverse_secded rec) \<and>
     llps_secded_is_valid_u64 (tr_request_no rec) 64 (tr_request_no_secded rec) \<and>
     llps_secded_is_valid_u64 (tr_request_no_inverse rec) 64 (tr_request_no_inverse_secded rec) \<and>
     llps_secded_is_valid_u32 (tr_close_reason rec) (tr_close_reason_secded rec) \<and>
     llps_secded_is_valid_u32 (tr_close_reason_inverse rec) (tr_close_reason_inverse_secded rec) \<and>
     llps_secded_is_valid_u32 (tr_client_fd rec) (tr_client_fd_secded rec) \<and>
     llps_secded_is_valid_u32 (tr_client_fd_inverse rec) (tr_client_fd_inverse_secded rec) \<and>
     llps_secded_is_valid_u32 (tr_backend_fd rec) (tr_backend_fd_secded rec) \<and>
     llps_secded_is_valid_u32 (tr_backend_fd_inverse rec) (tr_backend_fd_inverse_secded rec) \<and>
     llps_secded_is_valid_u32 (tr_client_port rec) (tr_client_port_secded rec) \<and>
     llps_secded_is_valid_u32 (tr_client_port_inverse rec) (tr_client_port_inverse_secded rec) \<and>
     llps_secded_is_valid_u32 (tr_c2s_payload_ecc_len rec) (tr_c2s_payload_ecc_len_secded rec) \<and>
     llps_secded_is_valid_u32 (tr_c2s_payload_ecc_len_inverse rec) (tr_c2s_payload_ecc_len_inverse_secded rec) \<and>
     llps_secded_is_valid_u32 (tr_s2c_payload_ecc_len rec) (tr_s2c_payload_ecc_len_secded rec) \<and>
     llps_secded_is_valid_u32 (tr_s2c_payload_ecc_len_inverse rec) (tr_s2c_payload_ecc_len_inverse_secded rec) \<and>
     llps_secded_is_valid_u32 (tr_session_crc rec) (tr_session_crc_secded rec) \<and>
     llps_secded_is_valid_u32 (tr_session_crc_inverse rec) (tr_session_crc_inverse_secded rec)"

text \<open>
  A repair works on the record, the flag \<^verbatim>\<open>corrected\<close>, the result so far and the counters. Each step
  names a word, its check byte and how they are written.
\<close>

type_synonym tmr_repair_state = "llps_session_tmr_record_t \<times> bool \<times> bool \<times> safety_counters"

definition llps_session_tmr_repair_status_ok ::
    "llps_secded_status \<Rightarrow> bool \<Rightarrow> safety_counters \<Rightarrow> bool \<times> bool \<times> safety_counters" where
  "llps_session_tmr_repair_status_ok status corrected sc =
     (if status = LLPS_SECDED_CORRECTED
      then (True, True, LLPS_MEMORY_SAFETY_COUNTER_INC secded_single_bit_repairs_update sc)
      else if status = LLPS_SECDED_UNCORRECTABLE
      then (False, corrected,
        LLPS_MEMORY_SAFETY_COUNTER_INC readiness_runtime_ecc_failures_update
          (LLPS_MEMORY_SAFETY_COUNTER_INC secded_double_bit_failures_update sc))
      else (True, corrected, sc))"

definition tmr_repair_u32 ::
    "(llps_session_tmr_record_t \<Rightarrow> u32) \<Rightarrow> ((u32 \<Rightarrow> u32) \<Rightarrow> llps_session_tmr_record_t \<Rightarrow> llps_session_tmr_record_t) \<Rightarrow>
     (llps_session_tmr_record_t \<Rightarrow> u8) \<Rightarrow> ((u8 \<Rightarrow> u8) \<Rightarrow> llps_session_tmr_record_t \<Rightarrow> llps_session_tmr_record_t) \<Rightarrow>
     tmr_repair_state \<Rightarrow> tmr_repair_state" where
  "tmr_repair_u32 get upd get_ecc upd_ecc =
     (\<lambda>(rec, corrected, ok, sc).
       (case llps_secded_repair_u32 (get rec) (get_ecc rec) of
          (status, word, ecc) \<Rightarrow>
            (case llps_session_tmr_repair_status_ok status corrected sc of
               (ok', corrected', sc') \<Rightarrow>
                 (upd (\<lambda>_. word) (upd_ecc (\<lambda>_. ecc) rec), corrected', ok' \<and> ok, sc'))))"

definition tmr_repair_u64 ::
    "(llps_session_tmr_record_t \<Rightarrow> u64) \<Rightarrow> ((u64 \<Rightarrow> u64) \<Rightarrow> llps_session_tmr_record_t \<Rightarrow> llps_session_tmr_record_t) \<Rightarrow>
     (llps_session_tmr_record_t \<Rightarrow> u8) \<Rightarrow> ((u8 \<Rightarrow> u8) \<Rightarrow> llps_session_tmr_record_t \<Rightarrow> llps_session_tmr_record_t) \<Rightarrow>
     tmr_repair_state \<Rightarrow> tmr_repair_state" where
  "tmr_repair_u64 get upd get_ecc upd_ecc =
     (\<lambda>(rec, corrected, ok, sc).
       (case llps_secded_repair_u64 (get rec) 64 (get_ecc rec) of
          (status, word, ecc) \<Rightarrow>
            (case llps_session_tmr_repair_status_ok status corrected sc of
               (ok', corrected', sc') \<Rightarrow>
                 (upd (\<lambda>_. word) (upd_ecc (\<lambda>_. ecc) rec), corrected', ok' \<and> ok, sc'))))"

definition llps_session_tmr_record_repair_identity_secded :: "tmr_repair_state \<Rightarrow> tmr_repair_state" where
  "llps_session_tmr_record_repair_identity_secded st =
     (let st = tmr_repair_u32 tr_session_id tr_session_id_update tr_session_id_secded tr_session_id_secded_update st;
          st = tmr_repair_u32 tr_session_id_inverse tr_session_id_inverse_update tr_session_id_inverse_secded tr_session_id_inverse_secded_update st;
          st = tmr_repair_u32 tr_state tr_state_update tr_state_secded tr_state_secded_update st;
          st = tmr_repair_u32 tr_state_inverse tr_state_inverse_update tr_state_inverse_secded tr_state_inverse_secded_update st
      in st)"

definition llps_session_tmr_record_repair_activity_secded :: "tmr_repair_state \<Rightarrow> tmr_repair_state" where
  "llps_session_tmr_record_repair_activity_secded st =
     (let st = tmr_repair_u64 tr_last_activity_ns tr_last_activity_ns_update tr_last_activity_ns_secded tr_last_activity_ns_secded_update st;
          st = tmr_repair_u64 tr_last_activity_ns_inverse tr_last_activity_ns_inverse_update tr_last_activity_ns_inverse_secded tr_last_activity_ns_inverse_secded_update st;
          st = tmr_repair_u64 tr_request_no tr_request_no_update tr_request_no_secded tr_request_no_secded_update st;
          st = tmr_repair_u64 tr_request_no_inverse tr_request_no_inverse_update tr_request_no_inverse_secded tr_request_no_inverse_secded_update st;
          st = tmr_repair_u32 tr_close_reason tr_close_reason_update tr_close_reason_secded tr_close_reason_secded_update st;
          st = tmr_repair_u32 tr_close_reason_inverse tr_close_reason_inverse_update tr_close_reason_inverse_secded tr_close_reason_inverse_secded_update st
      in st)"

definition llps_session_tmr_record_repair_fd_port_secded :: "tmr_repair_state \<Rightarrow> tmr_repair_state" where
  "llps_session_tmr_record_repair_fd_port_secded st =
     (let st = tmr_repair_u32 tr_client_fd tr_client_fd_update tr_client_fd_secded tr_client_fd_secded_update st;
          st = tmr_repair_u32 tr_client_fd_inverse tr_client_fd_inverse_update tr_client_fd_inverse_secded tr_client_fd_inverse_secded_update st;
          st = tmr_repair_u32 tr_backend_fd tr_backend_fd_update tr_backend_fd_secded tr_backend_fd_secded_update st;
          st = tmr_repair_u32 tr_backend_fd_inverse tr_backend_fd_inverse_update tr_backend_fd_inverse_secded tr_backend_fd_inverse_secded_update st;
          st = tmr_repair_u32 tr_client_port tr_client_port_update tr_client_port_secded tr_client_port_secded_update st;
          st = tmr_repair_u32 tr_client_port_inverse tr_client_port_inverse_update tr_client_port_inverse_secded tr_client_port_inverse_secded_update st
      in st)"

definition llps_session_tmr_record_repair_payload_crc_secded :: "tmr_repair_state \<Rightarrow> tmr_repair_state" where
  "llps_session_tmr_record_repair_payload_crc_secded st =
     (let st = tmr_repair_u32 tr_c2s_payload_ecc_len tr_c2s_payload_ecc_len_update tr_c2s_payload_ecc_len_secded tr_c2s_payload_ecc_len_secded_update st;
          st = tmr_repair_u32 tr_c2s_payload_ecc_len_inverse tr_c2s_payload_ecc_len_inverse_update tr_c2s_payload_ecc_len_inverse_secded tr_c2s_payload_ecc_len_inverse_secded_update st;
          st = tmr_repair_u32 tr_s2c_payload_ecc_len tr_s2c_payload_ecc_len_update tr_s2c_payload_ecc_len_secded tr_s2c_payload_ecc_len_secded_update st;
          st = tmr_repair_u32 tr_s2c_payload_ecc_len_inverse tr_s2c_payload_ecc_len_inverse_update tr_s2c_payload_ecc_len_inverse_secded tr_s2c_payload_ecc_len_inverse_secded_update st;
          st = tmr_repair_u32 tr_session_crc tr_session_crc_update tr_session_crc_secded tr_session_crc_secded_update st;
          st = tmr_repair_u32 tr_session_crc_inverse tr_session_crc_inverse_update tr_session_crc_inverse_secded tr_session_crc_inverse_secded_update st
      in st)"

text \<open>The result, the record and the counters.\<close>

definition llps_session_tmr_record_repair_secded ::
    "llps_session_tmr_record_t \<Rightarrow> safety_counters \<Rightarrow> bool \<times> llps_session_tmr_record_t \<times> safety_counters" where
  "llps_session_tmr_record_repair_secded rec sc =
     (let st = (rec, False, True, sc);
          st = llps_session_tmr_record_repair_identity_secded st;
          st = llps_session_tmr_record_repair_activity_secded st;
          st = llps_session_tmr_record_repair_fd_port_secded st;
          st = llps_session_tmr_record_repair_payload_crc_secded st
      in (case st of (rec, corrected, ok, sc) \<Rightarrow>
            if ok \<and> corrected
            then (let rec = rec\<lparr>tr_record_crc := llps_session_tmr_record_compute_crc rec\<rparr>
                  in (ok, rec\<lparr>tr_record_crc_inverse := NOT (tr_record_crc rec)\<rparr>, sc))
            else (ok, rec, sc)))"

definition llps_session_tmr_record_is_valid :: "llps_session_tmr_record_t \<Rightarrow> u32 \<Rightarrow> u32 \<Rightarrow> bool" where
  "llps_session_tmr_record_is_valid rec expected_bank_id expected_session_id =
     (let expected_magic = llps_session_tmr_magic_for_bank expected_bank_id
      in if tr_magic_start rec \<noteq> expected_magic \<or> tr_magic_end rec \<noteq> expected_magic \<or>
            tr_bank_id rec \<noteq> expected_bank_id \<or> tr_session_id rec \<noteq> expected_session_id
         then False
         else if \<not> llps_session_tmr_record_secded_is_valid rec then False
         else if tr_session_id_inverse rec \<noteq> NOT (tr_session_id rec) \<or>
                 tr_state_inverse rec \<noteq> NOT (tr_state rec) \<or>
                 tr_last_activity_ns_inverse rec \<noteq> NOT (tr_last_activity_ns rec) \<or>
                 tr_request_no_inverse rec \<noteq> NOT (tr_request_no rec) \<or>
                 \<not> llps_close_reason_is_valid (tr_close_reason rec) \<or>
                 tr_close_reason_inverse rec \<noteq> NOT (tr_close_reason rec) \<or>
                 tr_client_fd_inverse rec \<noteq> NOT (tr_client_fd rec) \<or>
                 tr_backend_fd_inverse rec \<noteq> NOT (tr_backend_fd rec) \<or>
                 tr_client_port_inverse rec \<noteq> NOT (tr_client_port rec) \<or>
                 tr_c2s_payload_ecc_len rec > LLPS_BUFFER_SIZE \<or>
                 tr_s2c_payload_ecc_len rec > LLPS_BUFFER_SIZE \<or>
                 tr_c2s_payload_ecc_len_inverse rec \<noteq> NOT (tr_c2s_payload_ecc_len rec) \<or>
                 tr_s2c_payload_ecc_len_inverse rec \<noteq> NOT (tr_s2c_payload_ecc_len rec) \<or>
                 tr_session_crc_inverse rec \<noteq> NOT (tr_session_crc rec)
         then False
         else if \<not> list_all2 (\<lambda>v c. v = NOT c) (tr_client_ip_inverse rec) (tr_client_ip rec) then False
         else if \<not> llps_state_is_valid (tr_state rec) then False
         else tr_record_crc_inverse rec = NOT (tr_record_crc rec) \<and>
              tr_record_crc rec = llps_session_tmr_record_compute_crc rec)"

definition llps_session_tmr_record_to_snapshot :: "llps_session_tmr_record_t \<Rightarrow> llps_session_tmr_snapshot_t" where
  "llps_session_tmr_record_to_snapshot rec =
     \<lparr>ss_session_id = tr_session_id rec, ss_state = tr_state rec,
      ss_last_activity_ns = tr_last_activity_ns rec, ss_request_no = tr_request_no rec,
      ss_client_fd = llps_decode_fd (tr_client_fd rec), ss_backend_fd = llps_decode_fd (tr_backend_fd rec),
      ss_close_reason = tr_close_reason rec, ss_client_ip = tr_client_ip rec,
      ss_client_port = ucast (tr_client_port rec), ss_c2s_payload_ecc_len = tr_c2s_payload_ecc_len rec,
      ss_s2c_payload_ecc_len = tr_s2c_payload_ecc_len rec, ss_session_crc = tr_session_crc rec\<rparr>"

definition llps_session_tmr_record_from_snapshot ::
    "llps_session_tmr_record_t \<Rightarrow> u32 \<Rightarrow> llps_session_tmr_snapshot_t \<Rightarrow> llps_session_tmr_record_t" where
  "llps_session_tmr_record_from_snapshot rec n snapshot =
     (let magic = llps_session_tmr_magic_for_bank n;
          rec = rec\<lparr>tr_magic_start := magic, tr_bank_id := n,
            tr_session_id := ss_session_id snapshot, tr_session_id_inverse := NOT (ss_session_id snapshot),
            tr_state := ss_state snapshot, tr_state_inverse := NOT (ss_state snapshot),
            tr_last_activity_ns := ss_last_activity_ns snapshot,
            tr_last_activity_ns_inverse := NOT (ss_last_activity_ns snapshot),
            tr_request_no := ss_request_no snapshot, tr_request_no_inverse := NOT (ss_request_no snapshot),
            tr_close_reason := ss_close_reason snapshot,
            tr_close_reason_inverse := NOT (ss_close_reason snapshot),
            tr_client_fd := llps_encode_fd (ss_client_fd snapshot),
            tr_client_fd_inverse := NOT (llps_encode_fd (ss_client_fd snapshot)),
            tr_backend_fd := llps_encode_fd (ss_backend_fd snapshot),
            tr_backend_fd_inverse := NOT (llps_encode_fd (ss_backend_fd snapshot)),
            tr_client_ip := ss_client_ip snapshot,
            tr_client_ip_inverse := map (\<lambda>c. NOT c) (ss_client_ip snapshot),
            tr_client_port := ucast (ss_client_port snapshot),
            tr_client_port_inverse := NOT (ucast (ss_client_port snapshot)),
            tr_c2s_payload_ecc_len := ss_c2s_payload_ecc_len snapshot,
            tr_c2s_payload_ecc_len_inverse := NOT (ss_c2s_payload_ecc_len snapshot),
            tr_s2c_payload_ecc_len := ss_s2c_payload_ecc_len snapshot,
            tr_s2c_payload_ecc_len_inverse := NOT (ss_s2c_payload_ecc_len snapshot),
            tr_session_crc := ss_session_crc snapshot,
            tr_session_crc_inverse := NOT (ss_session_crc snapshot),
            tr_magic_end := magic,
            tr_separation_pad := replicate LLPS_SESSION_TMR_PAD_BYTES 0\<rparr>;
          rec = llps_session_tmr_record_refresh_secded rec;
          rec = rec\<lparr>tr_record_crc := llps_session_tmr_record_compute_crc rec\<rparr>
      in rec\<lparr>tr_record_crc_inverse := NOT (tr_record_crc rec)\<rparr>)"

section \<open>Vocabulary of the proofs\<close>

text \<open>
  A record whose twenty-two protected words have at most one flipped bit each, and that is otherwise
  the written one.
\<close>

definition record_upset :: "llps_session_tmr_record_t \<Rightarrow> llps_session_tmr_record_t \<Rightarrow> bool" where
  "record_upset rec damaged \<longleftrightarrow>
     upset_u32 (tr_session_id rec) (tr_session_id_secded rec) (tr_session_id damaged) (tr_session_id_secded damaged) \<and>
     upset_u32 (tr_session_id_inverse rec) (tr_session_id_inverse_secded rec) (tr_session_id_inverse damaged) (tr_session_id_inverse_secded damaged) \<and>
     upset_u32 (tr_state rec) (tr_state_secded rec) (tr_state damaged) (tr_state_secded damaged) \<and>
     upset_u32 (tr_state_inverse rec) (tr_state_inverse_secded rec) (tr_state_inverse damaged) (tr_state_inverse_secded damaged) \<and>
     upset_u64 (tr_last_activity_ns rec) (tr_last_activity_ns_secded rec) (tr_last_activity_ns damaged) (tr_last_activity_ns_secded damaged) \<and>
     upset_u64 (tr_last_activity_ns_inverse rec) (tr_last_activity_ns_inverse_secded rec) (tr_last_activity_ns_inverse damaged) (tr_last_activity_ns_inverse_secded damaged) \<and>
     upset_u64 (tr_request_no rec) (tr_request_no_secded rec) (tr_request_no damaged) (tr_request_no_secded damaged) \<and>
     upset_u64 (tr_request_no_inverse rec) (tr_request_no_inverse_secded rec) (tr_request_no_inverse damaged) (tr_request_no_inverse_secded damaged) \<and>
     upset_u32 (tr_close_reason rec) (tr_close_reason_secded rec) (tr_close_reason damaged) (tr_close_reason_secded damaged) \<and>
     upset_u32 (tr_close_reason_inverse rec) (tr_close_reason_inverse_secded rec) (tr_close_reason_inverse damaged) (tr_close_reason_inverse_secded damaged) \<and>
     upset_u32 (tr_client_fd rec) (tr_client_fd_secded rec) (tr_client_fd damaged) (tr_client_fd_secded damaged) \<and>
     upset_u32 (tr_client_fd_inverse rec) (tr_client_fd_inverse_secded rec) (tr_client_fd_inverse damaged) (tr_client_fd_inverse_secded damaged) \<and>
     upset_u32 (tr_backend_fd rec) (tr_backend_fd_secded rec) (tr_backend_fd damaged) (tr_backend_fd_secded damaged) \<and>
     upset_u32 (tr_backend_fd_inverse rec) (tr_backend_fd_inverse_secded rec) (tr_backend_fd_inverse damaged) (tr_backend_fd_inverse_secded damaged) \<and>
     upset_u32 (tr_client_port rec) (tr_client_port_secded rec) (tr_client_port damaged) (tr_client_port_secded damaged) \<and>
     upset_u32 (tr_client_port_inverse rec) (tr_client_port_inverse_secded rec) (tr_client_port_inverse damaged) (tr_client_port_inverse_secded damaged) \<and>
     upset_u32 (tr_c2s_payload_ecc_len rec) (tr_c2s_payload_ecc_len_secded rec) (tr_c2s_payload_ecc_len damaged) (tr_c2s_payload_ecc_len_secded damaged) \<and>
     upset_u32 (tr_c2s_payload_ecc_len_inverse rec) (tr_c2s_payload_ecc_len_inverse_secded rec) (tr_c2s_payload_ecc_len_inverse damaged) (tr_c2s_payload_ecc_len_inverse_secded damaged) \<and>
     upset_u32 (tr_s2c_payload_ecc_len rec) (tr_s2c_payload_ecc_len_secded rec) (tr_s2c_payload_ecc_len damaged) (tr_s2c_payload_ecc_len_secded damaged) \<and>
     upset_u32 (tr_s2c_payload_ecc_len_inverse rec) (tr_s2c_payload_ecc_len_inverse_secded rec) (tr_s2c_payload_ecc_len_inverse damaged) (tr_s2c_payload_ecc_len_inverse_secded damaged) \<and>
     upset_u32 (tr_session_crc rec) (tr_session_crc_secded rec) (tr_session_crc damaged) (tr_session_crc_secded damaged) \<and>
     upset_u32 (tr_session_crc_inverse rec) (tr_session_crc_inverse_secded rec) (tr_session_crc_inverse damaged) (tr_session_crc_inverse_secded damaged) \<and>
     damaged\<lparr>tr_session_id := tr_session_id rec, tr_session_id_secded := tr_session_id_secded rec,
       tr_session_id_inverse := tr_session_id_inverse rec, tr_session_id_inverse_secded := tr_session_id_inverse_secded rec,
       tr_state := tr_state rec, tr_state_secded := tr_state_secded rec,
       tr_state_inverse := tr_state_inverse rec, tr_state_inverse_secded := tr_state_inverse_secded rec,
       tr_last_activity_ns := tr_last_activity_ns rec, tr_last_activity_ns_secded := tr_last_activity_ns_secded rec,
       tr_last_activity_ns_inverse := tr_last_activity_ns_inverse rec, tr_last_activity_ns_inverse_secded := tr_last_activity_ns_inverse_secded rec,
       tr_request_no := tr_request_no rec, tr_request_no_secded := tr_request_no_secded rec,
       tr_request_no_inverse := tr_request_no_inverse rec, tr_request_no_inverse_secded := tr_request_no_inverse_secded rec,
       tr_close_reason := tr_close_reason rec, tr_close_reason_secded := tr_close_reason_secded rec,
       tr_close_reason_inverse := tr_close_reason_inverse rec, tr_close_reason_inverse_secded := tr_close_reason_inverse_secded rec,
       tr_client_fd := tr_client_fd rec, tr_client_fd_secded := tr_client_fd_secded rec,
       tr_client_fd_inverse := tr_client_fd_inverse rec, tr_client_fd_inverse_secded := tr_client_fd_inverse_secded rec,
       tr_backend_fd := tr_backend_fd rec, tr_backend_fd_secded := tr_backend_fd_secded rec,
       tr_backend_fd_inverse := tr_backend_fd_inverse rec, tr_backend_fd_inverse_secded := tr_backend_fd_inverse_secded rec,
       tr_client_port := tr_client_port rec, tr_client_port_secded := tr_client_port_secded rec,
       tr_client_port_inverse := tr_client_port_inverse rec, tr_client_port_inverse_secded := tr_client_port_inverse_secded rec,
       tr_c2s_payload_ecc_len := tr_c2s_payload_ecc_len rec, tr_c2s_payload_ecc_len_secded := tr_c2s_payload_ecc_len_secded rec,
       tr_c2s_payload_ecc_len_inverse := tr_c2s_payload_ecc_len_inverse rec, tr_c2s_payload_ecc_len_inverse_secded := tr_c2s_payload_ecc_len_inverse_secded rec,
       tr_s2c_payload_ecc_len := tr_s2c_payload_ecc_len rec, tr_s2c_payload_ecc_len_secded := tr_s2c_payload_ecc_len_secded rec,
       tr_s2c_payload_ecc_len_inverse := tr_s2c_payload_ecc_len_inverse rec, tr_s2c_payload_ecc_len_inverse_secded := tr_s2c_payload_ecc_len_inverse_secded rec,
       tr_session_crc := tr_session_crc rec, tr_session_crc_secded := tr_session_crc_secded rec,
       tr_session_crc_inverse := tr_session_crc_inverse rec, tr_session_crc_inverse_secded := tr_session_crc_inverse_secded rec\<rparr> = rec"

section \<open>Repair of one record\<close>

lemma tmr_repair_u32_step:
  assumes "llps_secded_repair_u32 (g s) (ge s) = (st, w, e)" "st \<noteq> LLPS_SECDED_UNCORRECTABLE"
  shows "\<exists>c' sc'. tmr_repair_u32 g u ge ue (s, c, ok, sc) = (u (\<lambda>_. w) (ue (\<lambda>_. e) s), c', ok, sc')"
  using assms by (auto simp: tmr_repair_u32_def llps_session_tmr_repair_status_ok_def)

lemma tmr_repair_u64_step:
  assumes "llps_secded_repair_u64 (g s) 64 (ge s) = (st, w, e)" "st \<noteq> LLPS_SECDED_UNCORRECTABLE"
  shows "\<exists>c' sc'. tmr_repair_u64 g u ge ue (s, c, ok, sc) = (u (\<lambda>_. w) (ue (\<lambda>_. e) s), c', ok, sc')"
  using assms by (auto simp: tmr_repair_u64_def llps_session_tmr_repair_status_ok_def)

lemma upset_step_u32:
  assumes "upset_u32 w e (g s) (ge s)" "llps_secded_is_valid_u32 w e"
  shows "\<exists>c' sc'. tmr_repair_u32 g u ge ue (s, c, ok, sc) = (u (\<lambda>_. w) (ue (\<lambda>_. e) s), c', ok, sc')"
  using repair_upset_u32 [OF assms] tmr_repair_u32_step [of g s ge] by blast

lemma upset_step_u64:
  assumes "upset_u64 w e (g s) (ge s)" "llps_secded_is_valid_u64 w 64 e"
  shows "\<exists>c' sc'. tmr_repair_u64 g u ge ue (s, c, ok, sc) = (u (\<lambda>_. w) (ue (\<lambda>_. e) s), c', ok, sc')"
  using repair_upset_u64 [OF assms] tmr_repair_u64_step [of g s ge] by blast

text \<open>What a step does to the record and the result does not depend on the counters.\<close>

abbreviation without_counters :: "tmr_repair_state \<Rightarrow> llps_session_tmr_record_t \<times> bool \<times> bool" where
  "without_counters \<equiv> \<lambda>(rec, corrected, ok, sc). (rec, corrected, ok)"

lemma repair_without_counters:
  "without_counters st = without_counters st' \<Longrightarrow>
     without_counters (tmr_repair_u32 g u ge ue st) = without_counters (tmr_repair_u32 g u ge ue st')"
  "without_counters st = without_counters st' \<Longrightarrow>
     without_counters (tmr_repair_u64 g' u' ge ue st) = without_counters (tmr_repair_u64 g' u' ge ue st')"
  by (auto simp: tmr_repair_u32_def tmr_repair_u64_def llps_session_tmr_repair_status_ok_def split: prod.splits)

lemma record_repair_without_counters:
  assumes "llps_session_tmr_record_repair_secded rec sc = (ok, rec1, sc1)"
  shows "\<exists>sc2. llps_session_tmr_record_repair_secded rec sc' = (ok, rec1, sc2)"
proof -
  define run where "run st = llps_session_tmr_record_repair_payload_crc_secded
    (llps_session_tmr_record_repair_fd_port_secded (llps_session_tmr_record_repair_activity_secded
      (llps_session_tmr_record_repair_identity_secded st)))" for st
  have "without_counters (run (rec, False, True, sc)) = without_counters (run (rec, False, True, sc'))"
    unfolding run_def llps_session_tmr_record_repair_identity_secded_def
      llps_session_tmr_record_repair_activity_secded_def llps_session_tmr_record_repair_fd_port_secded_def
      llps_session_tmr_record_repair_payload_crc_secded_def Let_def
    by (intro repair_without_counters) simp
  then show ?thesis
    using assms unfolding llps_session_tmr_record_repair_secded_def Let_def run_def [symmetric]
    by (auto split: prod.splits if_splits)
qed

lemma record_identity_upset:
  assumes "llps_session_tmr_record_secded_is_valid rec"
    and "upset_u32 (tr_session_id rec) (tr_session_id_secded rec) (tr_session_id d) (tr_session_id_secded d)"
    and "upset_u32 (tr_session_id_inverse rec) (tr_session_id_inverse_secded rec) (tr_session_id_inverse d) (tr_session_id_inverse_secded d)"
    and "upset_u32 (tr_state rec) (tr_state_secded rec) (tr_state d) (tr_state_secded d)"
    and "upset_u32 (tr_state_inverse rec) (tr_state_inverse_secded rec) (tr_state_inverse d) (tr_state_inverse_secded d)"
  shows "\<exists>c' sc'. llps_session_tmr_record_repair_identity_secded (d, c, ok, sc) =
    (d\<lparr>tr_session_id := tr_session_id rec, tr_session_id_secded := tr_session_id_secded rec,
      tr_session_id_inverse := tr_session_id_inverse rec, tr_session_id_inverse_secded := tr_session_id_inverse_secded rec,
      tr_state := tr_state rec, tr_state_secded := tr_state_secded rec,
      tr_state_inverse := tr_state_inverse rec, tr_state_inverse_secded := tr_state_inverse_secded rec\<rparr>,
     c', ok, sc')"
proof -
  note valid = assms(1) [unfolded llps_session_tmr_record_secded_is_valid_def]
  let ?d0 = "d\<lparr>tr_session_id := tr_session_id rec, tr_session_id_secded := tr_session_id_secded rec\<rparr>"
  obtain c0 sc0 where s0: "tmr_repair_u32 tr_session_id tr_session_id_update tr_session_id_secded
      tr_session_id_secded_update (d, c, ok, sc) = (?d0, c0, ok, sc0)"
    using upset_step_u32 [of "tr_session_id rec" "tr_session_id_secded rec" tr_session_id "d" tr_session_id_secded
        tr_session_id_update tr_session_id_secded_update c ok sc] assms(2) valid by auto
  let ?d1 = "?d0\<lparr>tr_session_id_inverse := tr_session_id_inverse rec, tr_session_id_inverse_secded := tr_session_id_inverse_secded rec\<rparr>"
  obtain c1 sc1 where s1: "tmr_repair_u32 tr_session_id_inverse tr_session_id_inverse_update tr_session_id_inverse_secded
      tr_session_id_inverse_secded_update (?d0, c0, ok, sc0) = (?d1, c1, ok, sc1)"
    using upset_step_u32 [of "tr_session_id_inverse rec" "tr_session_id_inverse_secded rec" tr_session_id_inverse "?d0" tr_session_id_inverse_secded
        tr_session_id_inverse_update tr_session_id_inverse_secded_update c0 ok sc0] assms(3) valid by auto
  let ?d2 = "?d1\<lparr>tr_state := tr_state rec, tr_state_secded := tr_state_secded rec\<rparr>"
  obtain c2 sc2 where s2: "tmr_repair_u32 tr_state tr_state_update tr_state_secded
      tr_state_secded_update (?d1, c1, ok, sc1) = (?d2, c2, ok, sc2)"
    using upset_step_u32 [of "tr_state rec" "tr_state_secded rec" tr_state "?d1" tr_state_secded
        tr_state_update tr_state_secded_update c1 ok sc1] assms(4) valid by auto
  let ?d3 = "?d2\<lparr>tr_state_inverse := tr_state_inverse rec, tr_state_inverse_secded := tr_state_inverse_secded rec\<rparr>"
  obtain c3 sc3 where s3: "tmr_repair_u32 tr_state_inverse tr_state_inverse_update tr_state_inverse_secded
      tr_state_inverse_secded_update (?d2, c2, ok, sc2) = (?d3, c3, ok, sc3)"
    using upset_step_u32 [of "tr_state_inverse rec" "tr_state_inverse_secded rec" tr_state_inverse "?d2" tr_state_inverse_secded
        tr_state_inverse_update tr_state_inverse_secded_update c2 ok sc2] assms(5) valid by auto
  show ?thesis
    by (simp add: llps_session_tmr_record_repair_identity_secded_def s0 s1 s2 s3)
qed

lemma record_activity_upset:
  assumes "llps_session_tmr_record_secded_is_valid rec"
    and "upset_u64 (tr_last_activity_ns rec) (tr_last_activity_ns_secded rec) (tr_last_activity_ns d) (tr_last_activity_ns_secded d)"
    and "upset_u64 (tr_last_activity_ns_inverse rec) (tr_last_activity_ns_inverse_secded rec) (tr_last_activity_ns_inverse d) (tr_last_activity_ns_inverse_secded d)"
    and "upset_u64 (tr_request_no rec) (tr_request_no_secded rec) (tr_request_no d) (tr_request_no_secded d)"
    and "upset_u64 (tr_request_no_inverse rec) (tr_request_no_inverse_secded rec) (tr_request_no_inverse d) (tr_request_no_inverse_secded d)"
    and "upset_u32 (tr_close_reason rec) (tr_close_reason_secded rec) (tr_close_reason d) (tr_close_reason_secded d)"
    and "upset_u32 (tr_close_reason_inverse rec) (tr_close_reason_inverse_secded rec) (tr_close_reason_inverse d) (tr_close_reason_inverse_secded d)"
  shows "\<exists>c' sc'. llps_session_tmr_record_repair_activity_secded (d, c, ok, sc) =
    (d\<lparr>tr_last_activity_ns := tr_last_activity_ns rec, tr_last_activity_ns_secded := tr_last_activity_ns_secded rec,
      tr_last_activity_ns_inverse := tr_last_activity_ns_inverse rec, tr_last_activity_ns_inverse_secded := tr_last_activity_ns_inverse_secded rec,
      tr_request_no := tr_request_no rec, tr_request_no_secded := tr_request_no_secded rec,
      tr_request_no_inverse := tr_request_no_inverse rec, tr_request_no_inverse_secded := tr_request_no_inverse_secded rec,
      tr_close_reason := tr_close_reason rec, tr_close_reason_secded := tr_close_reason_secded rec,
      tr_close_reason_inverse := tr_close_reason_inverse rec, tr_close_reason_inverse_secded := tr_close_reason_inverse_secded rec\<rparr>,
     c', ok, sc')"
proof -
  note valid = assms(1) [unfolded llps_session_tmr_record_secded_is_valid_def]
  let ?d0 = "d\<lparr>tr_last_activity_ns := tr_last_activity_ns rec, tr_last_activity_ns_secded := tr_last_activity_ns_secded rec\<rparr>"
  obtain c0 sc0 where s0: "tmr_repair_u64 tr_last_activity_ns tr_last_activity_ns_update tr_last_activity_ns_secded
      tr_last_activity_ns_secded_update (d, c, ok, sc) = (?d0, c0, ok, sc0)"
    using upset_step_u64 [of "tr_last_activity_ns rec" "tr_last_activity_ns_secded rec" tr_last_activity_ns "d" tr_last_activity_ns_secded
        tr_last_activity_ns_update tr_last_activity_ns_secded_update c ok sc] assms(2) valid by auto
  let ?d1 = "?d0\<lparr>tr_last_activity_ns_inverse := tr_last_activity_ns_inverse rec, tr_last_activity_ns_inverse_secded := tr_last_activity_ns_inverse_secded rec\<rparr>"
  obtain c1 sc1 where s1: "tmr_repair_u64 tr_last_activity_ns_inverse tr_last_activity_ns_inverse_update tr_last_activity_ns_inverse_secded
      tr_last_activity_ns_inverse_secded_update (?d0, c0, ok, sc0) = (?d1, c1, ok, sc1)"
    using upset_step_u64 [of "tr_last_activity_ns_inverse rec" "tr_last_activity_ns_inverse_secded rec" tr_last_activity_ns_inverse "?d0" tr_last_activity_ns_inverse_secded
        tr_last_activity_ns_inverse_update tr_last_activity_ns_inverse_secded_update c0 ok sc0] assms(3) valid by auto
  let ?d2 = "?d1\<lparr>tr_request_no := tr_request_no rec, tr_request_no_secded := tr_request_no_secded rec\<rparr>"
  obtain c2 sc2 where s2: "tmr_repair_u64 tr_request_no tr_request_no_update tr_request_no_secded
      tr_request_no_secded_update (?d1, c1, ok, sc1) = (?d2, c2, ok, sc2)"
    using upset_step_u64 [of "tr_request_no rec" "tr_request_no_secded rec" tr_request_no "?d1" tr_request_no_secded
        tr_request_no_update tr_request_no_secded_update c1 ok sc1] assms(4) valid by auto
  let ?d3 = "?d2\<lparr>tr_request_no_inverse := tr_request_no_inverse rec, tr_request_no_inverse_secded := tr_request_no_inverse_secded rec\<rparr>"
  obtain c3 sc3 where s3: "tmr_repair_u64 tr_request_no_inverse tr_request_no_inverse_update tr_request_no_inverse_secded
      tr_request_no_inverse_secded_update (?d2, c2, ok, sc2) = (?d3, c3, ok, sc3)"
    using upset_step_u64 [of "tr_request_no_inverse rec" "tr_request_no_inverse_secded rec" tr_request_no_inverse "?d2" tr_request_no_inverse_secded
        tr_request_no_inverse_update tr_request_no_inverse_secded_update c2 ok sc2] assms(5) valid by auto
  let ?d4 = "?d3\<lparr>tr_close_reason := tr_close_reason rec, tr_close_reason_secded := tr_close_reason_secded rec\<rparr>"
  obtain c4 sc4 where s4: "tmr_repair_u32 tr_close_reason tr_close_reason_update tr_close_reason_secded
      tr_close_reason_secded_update (?d3, c3, ok, sc3) = (?d4, c4, ok, sc4)"
    using upset_step_u32 [of "tr_close_reason rec" "tr_close_reason_secded rec" tr_close_reason "?d3" tr_close_reason_secded
        tr_close_reason_update tr_close_reason_secded_update c3 ok sc3] assms(6) valid by auto
  let ?d5 = "?d4\<lparr>tr_close_reason_inverse := tr_close_reason_inverse rec, tr_close_reason_inverse_secded := tr_close_reason_inverse_secded rec\<rparr>"
  obtain c5 sc5 where s5: "tmr_repair_u32 tr_close_reason_inverse tr_close_reason_inverse_update tr_close_reason_inverse_secded
      tr_close_reason_inverse_secded_update (?d4, c4, ok, sc4) = (?d5, c5, ok, sc5)"
    using upset_step_u32 [of "tr_close_reason_inverse rec" "tr_close_reason_inverse_secded rec" tr_close_reason_inverse "?d4" tr_close_reason_inverse_secded
        tr_close_reason_inverse_update tr_close_reason_inverse_secded_update c4 ok sc4] assms(7) valid by auto
  show ?thesis
    by (simp add: llps_session_tmr_record_repair_activity_secded_def s0 s1 s2 s3 s4 s5)
qed

lemma record_fd_port_upset:
  assumes "llps_session_tmr_record_secded_is_valid rec"
    and "upset_u32 (tr_client_fd rec) (tr_client_fd_secded rec) (tr_client_fd d) (tr_client_fd_secded d)"
    and "upset_u32 (tr_client_fd_inverse rec) (tr_client_fd_inverse_secded rec) (tr_client_fd_inverse d) (tr_client_fd_inverse_secded d)"
    and "upset_u32 (tr_backend_fd rec) (tr_backend_fd_secded rec) (tr_backend_fd d) (tr_backend_fd_secded d)"
    and "upset_u32 (tr_backend_fd_inverse rec) (tr_backend_fd_inverse_secded rec) (tr_backend_fd_inverse d) (tr_backend_fd_inverse_secded d)"
    and "upset_u32 (tr_client_port rec) (tr_client_port_secded rec) (tr_client_port d) (tr_client_port_secded d)"
    and "upset_u32 (tr_client_port_inverse rec) (tr_client_port_inverse_secded rec) (tr_client_port_inverse d) (tr_client_port_inverse_secded d)"
  shows "\<exists>c' sc'. llps_session_tmr_record_repair_fd_port_secded (d, c, ok, sc) =
    (d\<lparr>tr_client_fd := tr_client_fd rec, tr_client_fd_secded := tr_client_fd_secded rec,
      tr_client_fd_inverse := tr_client_fd_inverse rec, tr_client_fd_inverse_secded := tr_client_fd_inverse_secded rec,
      tr_backend_fd := tr_backend_fd rec, tr_backend_fd_secded := tr_backend_fd_secded rec,
      tr_backend_fd_inverse := tr_backend_fd_inverse rec, tr_backend_fd_inverse_secded := tr_backend_fd_inverse_secded rec,
      tr_client_port := tr_client_port rec, tr_client_port_secded := tr_client_port_secded rec,
      tr_client_port_inverse := tr_client_port_inverse rec, tr_client_port_inverse_secded := tr_client_port_inverse_secded rec\<rparr>,
     c', ok, sc')"
proof -
  note valid = assms(1) [unfolded llps_session_tmr_record_secded_is_valid_def]
  let ?d0 = "d\<lparr>tr_client_fd := tr_client_fd rec, tr_client_fd_secded := tr_client_fd_secded rec\<rparr>"
  obtain c0 sc0 where s0: "tmr_repair_u32 tr_client_fd tr_client_fd_update tr_client_fd_secded
      tr_client_fd_secded_update (d, c, ok, sc) = (?d0, c0, ok, sc0)"
    using upset_step_u32 [of "tr_client_fd rec" "tr_client_fd_secded rec" tr_client_fd "d" tr_client_fd_secded
        tr_client_fd_update tr_client_fd_secded_update c ok sc] assms(2) valid by auto
  let ?d1 = "?d0\<lparr>tr_client_fd_inverse := tr_client_fd_inverse rec, tr_client_fd_inverse_secded := tr_client_fd_inverse_secded rec\<rparr>"
  obtain c1 sc1 where s1: "tmr_repair_u32 tr_client_fd_inverse tr_client_fd_inverse_update tr_client_fd_inverse_secded
      tr_client_fd_inverse_secded_update (?d0, c0, ok, sc0) = (?d1, c1, ok, sc1)"
    using upset_step_u32 [of "tr_client_fd_inverse rec" "tr_client_fd_inverse_secded rec" tr_client_fd_inverse "?d0" tr_client_fd_inverse_secded
        tr_client_fd_inverse_update tr_client_fd_inverse_secded_update c0 ok sc0] assms(3) valid by auto
  let ?d2 = "?d1\<lparr>tr_backend_fd := tr_backend_fd rec, tr_backend_fd_secded := tr_backend_fd_secded rec\<rparr>"
  obtain c2 sc2 where s2: "tmr_repair_u32 tr_backend_fd tr_backend_fd_update tr_backend_fd_secded
      tr_backend_fd_secded_update (?d1, c1, ok, sc1) = (?d2, c2, ok, sc2)"
    using upset_step_u32 [of "tr_backend_fd rec" "tr_backend_fd_secded rec" tr_backend_fd "?d1" tr_backend_fd_secded
        tr_backend_fd_update tr_backend_fd_secded_update c1 ok sc1] assms(4) valid by auto
  let ?d3 = "?d2\<lparr>tr_backend_fd_inverse := tr_backend_fd_inverse rec, tr_backend_fd_inverse_secded := tr_backend_fd_inverse_secded rec\<rparr>"
  obtain c3 sc3 where s3: "tmr_repair_u32 tr_backend_fd_inverse tr_backend_fd_inverse_update tr_backend_fd_inverse_secded
      tr_backend_fd_inverse_secded_update (?d2, c2, ok, sc2) = (?d3, c3, ok, sc3)"
    using upset_step_u32 [of "tr_backend_fd_inverse rec" "tr_backend_fd_inverse_secded rec" tr_backend_fd_inverse "?d2" tr_backend_fd_inverse_secded
        tr_backend_fd_inverse_update tr_backend_fd_inverse_secded_update c2 ok sc2] assms(5) valid by auto
  let ?d4 = "?d3\<lparr>tr_client_port := tr_client_port rec, tr_client_port_secded := tr_client_port_secded rec\<rparr>"
  obtain c4 sc4 where s4: "tmr_repair_u32 tr_client_port tr_client_port_update tr_client_port_secded
      tr_client_port_secded_update (?d3, c3, ok, sc3) = (?d4, c4, ok, sc4)"
    using upset_step_u32 [of "tr_client_port rec" "tr_client_port_secded rec" tr_client_port "?d3" tr_client_port_secded
        tr_client_port_update tr_client_port_secded_update c3 ok sc3] assms(6) valid by auto
  let ?d5 = "?d4\<lparr>tr_client_port_inverse := tr_client_port_inverse rec, tr_client_port_inverse_secded := tr_client_port_inverse_secded rec\<rparr>"
  obtain c5 sc5 where s5: "tmr_repair_u32 tr_client_port_inverse tr_client_port_inverse_update tr_client_port_inverse_secded
      tr_client_port_inverse_secded_update (?d4, c4, ok, sc4) = (?d5, c5, ok, sc5)"
    using upset_step_u32 [of "tr_client_port_inverse rec" "tr_client_port_inverse_secded rec" tr_client_port_inverse "?d4" tr_client_port_inverse_secded
        tr_client_port_inverse_update tr_client_port_inverse_secded_update c4 ok sc4] assms(7) valid by auto
  show ?thesis
    by (simp add: llps_session_tmr_record_repair_fd_port_secded_def s0 s1 s2 s3 s4 s5)
qed

lemma record_payload_crc_upset:
  assumes "llps_session_tmr_record_secded_is_valid rec"
    and "upset_u32 (tr_c2s_payload_ecc_len rec) (tr_c2s_payload_ecc_len_secded rec) (tr_c2s_payload_ecc_len d) (tr_c2s_payload_ecc_len_secded d)"
    and "upset_u32 (tr_c2s_payload_ecc_len_inverse rec) (tr_c2s_payload_ecc_len_inverse_secded rec) (tr_c2s_payload_ecc_len_inverse d) (tr_c2s_payload_ecc_len_inverse_secded d)"
    and "upset_u32 (tr_s2c_payload_ecc_len rec) (tr_s2c_payload_ecc_len_secded rec) (tr_s2c_payload_ecc_len d) (tr_s2c_payload_ecc_len_secded d)"
    and "upset_u32 (tr_s2c_payload_ecc_len_inverse rec) (tr_s2c_payload_ecc_len_inverse_secded rec) (tr_s2c_payload_ecc_len_inverse d) (tr_s2c_payload_ecc_len_inverse_secded d)"
    and "upset_u32 (tr_session_crc rec) (tr_session_crc_secded rec) (tr_session_crc d) (tr_session_crc_secded d)"
    and "upset_u32 (tr_session_crc_inverse rec) (tr_session_crc_inverse_secded rec) (tr_session_crc_inverse d) (tr_session_crc_inverse_secded d)"
  shows "\<exists>c' sc'. llps_session_tmr_record_repair_payload_crc_secded (d, c, ok, sc) =
    (d\<lparr>tr_c2s_payload_ecc_len := tr_c2s_payload_ecc_len rec, tr_c2s_payload_ecc_len_secded := tr_c2s_payload_ecc_len_secded rec,
      tr_c2s_payload_ecc_len_inverse := tr_c2s_payload_ecc_len_inverse rec, tr_c2s_payload_ecc_len_inverse_secded := tr_c2s_payload_ecc_len_inverse_secded rec,
      tr_s2c_payload_ecc_len := tr_s2c_payload_ecc_len rec, tr_s2c_payload_ecc_len_secded := tr_s2c_payload_ecc_len_secded rec,
      tr_s2c_payload_ecc_len_inverse := tr_s2c_payload_ecc_len_inverse rec, tr_s2c_payload_ecc_len_inverse_secded := tr_s2c_payload_ecc_len_inverse_secded rec,
      tr_session_crc := tr_session_crc rec, tr_session_crc_secded := tr_session_crc_secded rec,
      tr_session_crc_inverse := tr_session_crc_inverse rec, tr_session_crc_inverse_secded := tr_session_crc_inverse_secded rec\<rparr>,
     c', ok, sc')"
proof -
  note valid = assms(1) [unfolded llps_session_tmr_record_secded_is_valid_def]
  let ?d0 = "d\<lparr>tr_c2s_payload_ecc_len := tr_c2s_payload_ecc_len rec, tr_c2s_payload_ecc_len_secded := tr_c2s_payload_ecc_len_secded rec\<rparr>"
  obtain c0 sc0 where s0: "tmr_repair_u32 tr_c2s_payload_ecc_len tr_c2s_payload_ecc_len_update tr_c2s_payload_ecc_len_secded
      tr_c2s_payload_ecc_len_secded_update (d, c, ok, sc) = (?d0, c0, ok, sc0)"
    using upset_step_u32 [of "tr_c2s_payload_ecc_len rec" "tr_c2s_payload_ecc_len_secded rec" tr_c2s_payload_ecc_len "d" tr_c2s_payload_ecc_len_secded
        tr_c2s_payload_ecc_len_update tr_c2s_payload_ecc_len_secded_update c ok sc] assms(2) valid by auto
  let ?d1 = "?d0\<lparr>tr_c2s_payload_ecc_len_inverse := tr_c2s_payload_ecc_len_inverse rec, tr_c2s_payload_ecc_len_inverse_secded := tr_c2s_payload_ecc_len_inverse_secded rec\<rparr>"
  obtain c1 sc1 where s1: "tmr_repair_u32 tr_c2s_payload_ecc_len_inverse tr_c2s_payload_ecc_len_inverse_update tr_c2s_payload_ecc_len_inverse_secded
      tr_c2s_payload_ecc_len_inverse_secded_update (?d0, c0, ok, sc0) = (?d1, c1, ok, sc1)"
    using upset_step_u32 [of "tr_c2s_payload_ecc_len_inverse rec" "tr_c2s_payload_ecc_len_inverse_secded rec" tr_c2s_payload_ecc_len_inverse "?d0" tr_c2s_payload_ecc_len_inverse_secded
        tr_c2s_payload_ecc_len_inverse_update tr_c2s_payload_ecc_len_inverse_secded_update c0 ok sc0] assms(3) valid by auto
  let ?d2 = "?d1\<lparr>tr_s2c_payload_ecc_len := tr_s2c_payload_ecc_len rec, tr_s2c_payload_ecc_len_secded := tr_s2c_payload_ecc_len_secded rec\<rparr>"
  obtain c2 sc2 where s2: "tmr_repair_u32 tr_s2c_payload_ecc_len tr_s2c_payload_ecc_len_update tr_s2c_payload_ecc_len_secded
      tr_s2c_payload_ecc_len_secded_update (?d1, c1, ok, sc1) = (?d2, c2, ok, sc2)"
    using upset_step_u32 [of "tr_s2c_payload_ecc_len rec" "tr_s2c_payload_ecc_len_secded rec" tr_s2c_payload_ecc_len "?d1" tr_s2c_payload_ecc_len_secded
        tr_s2c_payload_ecc_len_update tr_s2c_payload_ecc_len_secded_update c1 ok sc1] assms(4) valid by auto
  let ?d3 = "?d2\<lparr>tr_s2c_payload_ecc_len_inverse := tr_s2c_payload_ecc_len_inverse rec, tr_s2c_payload_ecc_len_inverse_secded := tr_s2c_payload_ecc_len_inverse_secded rec\<rparr>"
  obtain c3 sc3 where s3: "tmr_repair_u32 tr_s2c_payload_ecc_len_inverse tr_s2c_payload_ecc_len_inverse_update tr_s2c_payload_ecc_len_inverse_secded
      tr_s2c_payload_ecc_len_inverse_secded_update (?d2, c2, ok, sc2) = (?d3, c3, ok, sc3)"
    using upset_step_u32 [of "tr_s2c_payload_ecc_len_inverse rec" "tr_s2c_payload_ecc_len_inverse_secded rec" tr_s2c_payload_ecc_len_inverse "?d2" tr_s2c_payload_ecc_len_inverse_secded
        tr_s2c_payload_ecc_len_inverse_update tr_s2c_payload_ecc_len_inverse_secded_update c2 ok sc2] assms(5) valid by auto
  let ?d4 = "?d3\<lparr>tr_session_crc := tr_session_crc rec, tr_session_crc_secded := tr_session_crc_secded rec\<rparr>"
  obtain c4 sc4 where s4: "tmr_repair_u32 tr_session_crc tr_session_crc_update tr_session_crc_secded
      tr_session_crc_secded_update (?d3, c3, ok, sc3) = (?d4, c4, ok, sc4)"
    using upset_step_u32 [of "tr_session_crc rec" "tr_session_crc_secded rec" tr_session_crc "?d3" tr_session_crc_secded
        tr_session_crc_update tr_session_crc_secded_update c3 ok sc3] assms(6) valid by auto
  let ?d5 = "?d4\<lparr>tr_session_crc_inverse := tr_session_crc_inverse rec, tr_session_crc_inverse_secded := tr_session_crc_inverse_secded rec\<rparr>"
  obtain c5 sc5 where s5: "tmr_repair_u32 tr_session_crc_inverse tr_session_crc_inverse_update tr_session_crc_inverse_secded
      tr_session_crc_inverse_secded_update (?d4, c4, ok, sc4) = (?d5, c5, ok, sc5)"
    using upset_step_u32 [of "tr_session_crc_inverse rec" "tr_session_crc_inverse_secded rec" tr_session_crc_inverse "?d4" tr_session_crc_inverse_secded
        tr_session_crc_inverse_update tr_session_crc_inverse_secded_update c4 ok sc4] assms(7) valid by auto
  show ?thesis
    by (simp add: llps_session_tmr_record_repair_payload_crc_secded_def s0 s1 s2 s3 s4 s5)
qed

lemma valid_record_crc:
  assumes "llps_session_tmr_record_is_valid rec i n"
  shows "llps_session_tmr_record_secded_is_valid rec"
    "rec\<lparr>tr_record_crc := llps_session_tmr_record_compute_crc rec,
       tr_record_crc_inverse := NOT (llps_session_tmr_record_compute_crc rec)\<rparr> = rec"
  using assms by (auto simp: llps_session_tmr_record_is_valid_def Let_def split: if_splits)

lemma repair_record_upset_any:
  assumes "llps_session_tmr_record_secded_is_valid rec" "record_upset rec damaged"
  shows "\<exists>c sc'. llps_session_tmr_record_repair_secded damaged sc =
    (True, if c then rec\<lparr>tr_record_crc := llps_session_tmr_record_compute_crc rec,
       tr_record_crc_inverse := NOT (llps_session_tmr_record_compute_crc rec)\<rparr> else rec, sc')"
proof -
  note up = assms(2) [unfolded record_upset_def] and v = assms(1)
  let ?d0 = "damaged\<lparr>tr_session_id := tr_session_id rec, tr_session_id_secded := tr_session_id_secded rec,
      tr_session_id_inverse := tr_session_id_inverse rec, tr_session_id_inverse_secded := tr_session_id_inverse_secded rec,
      tr_state := tr_state rec, tr_state_secded := tr_state_secded rec,
      tr_state_inverse := tr_state_inverse rec, tr_state_inverse_secded := tr_state_inverse_secded rec\<rparr>"
  have "\<exists>c' sc'. llps_session_tmr_record_repair_identity_secded (damaged, False, True, sc) = (?d0, c', True, sc')"
    by (rule record_identity_upset [OF v]) (use up in simp_all)
  then obtain c0 sc0 where s0: "llps_session_tmr_record_repair_identity_secded (damaged, False, True, sc) =
    (?d0, c0, True, sc0)" by blast
  let ?d1 = "?d0\<lparr>tr_last_activity_ns := tr_last_activity_ns rec, tr_last_activity_ns_secded := tr_last_activity_ns_secded rec,
      tr_last_activity_ns_inverse := tr_last_activity_ns_inverse rec, tr_last_activity_ns_inverse_secded := tr_last_activity_ns_inverse_secded rec,
      tr_request_no := tr_request_no rec, tr_request_no_secded := tr_request_no_secded rec,
      tr_request_no_inverse := tr_request_no_inverse rec, tr_request_no_inverse_secded := tr_request_no_inverse_secded rec,
      tr_close_reason := tr_close_reason rec, tr_close_reason_secded := tr_close_reason_secded rec,
      tr_close_reason_inverse := tr_close_reason_inverse rec, tr_close_reason_inverse_secded := tr_close_reason_inverse_secded rec\<rparr>"
  have "\<exists>c' sc'. llps_session_tmr_record_repair_activity_secded (?d0, c0, True, sc0) = (?d1, c', True, sc')"
    by (rule record_activity_upset [OF v]) (use up in simp_all)
  then obtain c1 sc1 where s1: "llps_session_tmr_record_repair_activity_secded (?d0, c0, True, sc0) =
    (?d1, c1, True, sc1)" by blast
  let ?d2 = "?d1\<lparr>tr_client_fd := tr_client_fd rec, tr_client_fd_secded := tr_client_fd_secded rec,
      tr_client_fd_inverse := tr_client_fd_inverse rec, tr_client_fd_inverse_secded := tr_client_fd_inverse_secded rec,
      tr_backend_fd := tr_backend_fd rec, tr_backend_fd_secded := tr_backend_fd_secded rec,
      tr_backend_fd_inverse := tr_backend_fd_inverse rec, tr_backend_fd_inverse_secded := tr_backend_fd_inverse_secded rec,
      tr_client_port := tr_client_port rec, tr_client_port_secded := tr_client_port_secded rec,
      tr_client_port_inverse := tr_client_port_inverse rec, tr_client_port_inverse_secded := tr_client_port_inverse_secded rec\<rparr>"
  have "\<exists>c' sc'. llps_session_tmr_record_repair_fd_port_secded (?d1, c1, True, sc1) = (?d2, c', True, sc')"
    by (rule record_fd_port_upset [OF v]) (use up in simp_all)
  then obtain c2 sc2 where s2: "llps_session_tmr_record_repair_fd_port_secded (?d1, c1, True, sc1) =
    (?d2, c2, True, sc2)" by blast
  let ?d3 = "?d2\<lparr>tr_c2s_payload_ecc_len := tr_c2s_payload_ecc_len rec, tr_c2s_payload_ecc_len_secded := tr_c2s_payload_ecc_len_secded rec,
      tr_c2s_payload_ecc_len_inverse := tr_c2s_payload_ecc_len_inverse rec, tr_c2s_payload_ecc_len_inverse_secded := tr_c2s_payload_ecc_len_inverse_secded rec,
      tr_s2c_payload_ecc_len := tr_s2c_payload_ecc_len rec, tr_s2c_payload_ecc_len_secded := tr_s2c_payload_ecc_len_secded rec,
      tr_s2c_payload_ecc_len_inverse := tr_s2c_payload_ecc_len_inverse rec, tr_s2c_payload_ecc_len_inverse_secded := tr_s2c_payload_ecc_len_inverse_secded rec,
      tr_session_crc := tr_session_crc rec, tr_session_crc_secded := tr_session_crc_secded rec,
      tr_session_crc_inverse := tr_session_crc_inverse rec, tr_session_crc_inverse_secded := tr_session_crc_inverse_secded rec\<rparr>"
  have "\<exists>c' sc'. llps_session_tmr_record_repair_payload_crc_secded (?d2, c2, True, sc2) = (?d3, c', True, sc')"
    by (rule record_payload_crc_upset [OF v]) (use up in simp_all)
  then obtain c3 sc3 where s3: "llps_session_tmr_record_repair_payload_crc_secded (?d2, c2, True, sc2) =
    (?d3, c3, True, sc3)" by blast
  from up have "?d3 = rec" by (elim conjE)
  then show ?thesis
    using s0 s1 s2 s3 by (auto simp: llps_session_tmr_record_repair_secded_def Let_def)
qed

lemma repair_record_upset:
  assumes "llps_session_tmr_record_is_valid rec i n" "record_upset rec damaged"
  shows "\<exists>sc'. llps_session_tmr_record_repair_secded damaged sc = (True, rec, sc')"
  using repair_record_upset_any [OF valid_record_crc(1) [OF assms(1)] assms(2), of sc]
  by (auto simp: valid_record_crc(2) [OF assms(1)])

lemma upset_refl [simp]: "upset_u64 w e w e" "upset_u32 v e v e" "upset_u16 u e u e"
  by (simp_all add: upset_u64_def upset_u32_def upset_u16_def upset_wide_def)

lemma record_upset_refl [simp]: "record_upset rec rec"
  by (simp add: record_upset_def)

section \<open>A record and its snapshot\<close>

definition snapshot_ok :: "u32 \<Rightarrow> llps_session_tmr_snapshot_t \<Rightarrow> bool" where
  "snapshot_ok n s \<longleftrightarrow> ss_session_id s = n \<and> llps_state_is_valid (ss_state s) \<and>
     llps_close_reason_is_valid (ss_close_reason s) \<and> ss_c2s_payload_ecc_len s \<le> LLPS_BUFFER_SIZE \<and>
     ss_s2c_payload_ecc_len s \<le> LLPS_BUFFER_SIZE"

lemma snapshot_equal_iff [simp]: "llps_session_tmr_snapshot_equal lhs rhs \<longleftrightarrow> lhs = rhs"
  by (cases lhs; cases rhs) (auto simp: llps_session_tmr_snapshot_equal_def)

lemma record_from_snapshot_any:
  "llps_session_tmr_record_from_snapshot rec i s = llps_session_tmr_record_from_snapshot rec' i s"
  by (cases rec; cases rec')
    (simp add: llps_session_tmr_record_from_snapshot_def llps_session_tmr_record_refresh_secded_def Let_def
      llps_session_tmr_record_compute_crc_def llps_session_tmr_record_crc_identity_def
      llps_session_tmr_record_crc_request_def llps_session_tmr_record_crc_client_def
      llps_session_tmr_record_crc_payload_def)

lemma record_crc_fields [simp]:
  "llps_session_tmr_record_compute_crc (rec\<lparr>tr_record_crc := x\<rparr>) = llps_session_tmr_record_compute_crc rec"
  "llps_session_tmr_record_compute_crc (rec\<lparr>tr_record_crc_inverse := x\<rparr>) = llps_session_tmr_record_compute_crc rec"
  by (simp_all add: llps_session_tmr_record_compute_crc_def llps_session_tmr_record_crc_identity_def
      llps_session_tmr_record_crc_request_def llps_session_tmr_record_crc_client_def
      llps_session_tmr_record_crc_payload_def)

lemma record_from_snapshot_valid:
  assumes "snapshot_ok n s"
  shows "llps_session_tmr_record_is_valid (llps_session_tmr_record_from_snapshot rec i s) i n"
  using assms
  by (simp add: llps_session_tmr_record_is_valid_def llps_session_tmr_record_from_snapshot_def Let_def
      llps_session_tmr_record_refresh_secded_def llps_session_tmr_record_secded_is_valid_def snapshot_ok_def
      list_all2_map1 list_all2_same not_less)

lemma record_to_from_snapshot:
  "llps_session_tmr_record_to_snapshot (llps_session_tmr_record_from_snapshot rec i s) = s"
  by (cases s) (simp add: llps_session_tmr_record_to_snapshot_def llps_session_tmr_record_from_snapshot_def Let_def
      llps_session_tmr_record_refresh_secded_def llps_encode_fd_def llps_decode_fd_def ucast_ucast_wide)

lemma valid_snapshot_ok:
  "llps_session_tmr_record_is_valid rec i n \<Longrightarrow> snapshot_ok n (llps_session_tmr_record_to_snapshot rec)"
  by (auto simp: llps_session_tmr_record_is_valid_def snapshot_ok_def llps_session_tmr_record_to_snapshot_def
      Let_def not_less split: if_splits)

end
