(* ===== verification/Session_Tmr.thy ===== *)
theory Session_Tmr
  imports Session_Record Tmr_Vote
begin

text \<open>
  The session metadata kept in three guarded memory regions: \<^verbatim>\<open>src/session/llps_session_tmr.c\<close>.
  A region has canaries and filled guard pads around its records. A vote first repairs the
  single-bit upsets of each bank and then takes the majority; a write rebuilds damaged guards.
\<close>

section \<open>Definitions\<close>

abbreviation LLPS_SESSION_TMR_REGION_PAD_BYTES :: nat where
  "LLPS_SESSION_TMR_REGION_PAD_BYTES \<equiv> 16384"

record llps_session_tmr_region_t =
  sr_magic_start :: "u32"
  sr_bank_id :: "u32"
  sr_bank_id_inverse :: "u32"
  sr_magic_start_inverse :: "u32"
  sr_pre_guard_pad :: "u8 list"
  sr_records :: "llps_session_tmr_record_t list"
  sr_post_guard_pad :: "u8 list"
  sr_magic_end_inverse :: "u32"
  sr_bank_id_tail :: "u32"
  sr_bank_id_tail_inverse :: "u32"
  sr_magic_end :: "u32"

text \<open>The three regions and the safety counters.\<close>

type_synonym session_banks = "llps_session_tmr_region_t list \<times> safety_counters"

definition llps_session_tmr_region_head_magic_for_bank :: "u32 \<Rightarrow> u32" where
  "llps_session_tmr_region_head_magic_for_bank n = 0xA11CECC1 XOR (0x01010101 * (n + 1))"

definition llps_session_tmr_region_tail_magic_for_bank :: "u32 \<Rightarrow> u32" where
  "llps_session_tmr_region_tail_magic_for_bank n = 0xECC10B5E XOR (0x10101010 * (n + 1))"

definition llps_session_tmr_guard_byte :: "u32 \<Rightarrow> nat \<Rightarrow> bool \<Rightarrow> u8" where
  "llps_session_tmr_guard_byte n offset post_guard =
     (let v = (of_nat offset :: u32);
          v = v XOR drop_bit 8 v;
          v = v XOR drop_bit 16 v;
          v = v XOR (n + 1) * 0x3D;
          v = v XOR (if post_guard then 0x5A else 0xA5)
      in ucast (v AND 0xFF))"

definition llps_session_tmr_fill_guard_pad :: "u8 list \<Rightarrow> nat \<Rightarrow> u32 \<Rightarrow> bool \<Rightarrow> u8 list" where
  "llps_session_tmr_fill_guard_pad pad len n post_guard =
     foldl (\<lambda>pad i. pad[i := llps_session_tmr_guard_byte n i post_guard]) pad [0..<len]"

definition llps_session_tmr_guard_pad_is_valid :: "u8 list \<Rightarrow> nat \<Rightarrow> u32 \<Rightarrow> bool \<Rightarrow> bool" where
  "llps_session_tmr_guard_pad_is_valid pad len n post_guard =
     list_all (\<lambda>i. pad ! i = llps_session_tmr_guard_byte n i post_guard) [0..<len]"

definition llps_session_tmr_init_region :: "u32 \<Rightarrow> llps_session_tmr_region_t \<Rightarrow> llps_session_tmr_region_t" where
  "llps_session_tmr_init_region n region =
     (let head_magic = llps_session_tmr_region_head_magic_for_bank n;
          tail_magic = llps_session_tmr_region_tail_magic_for_bank n
      in region\<lparr>sr_magic_start := head_magic, sr_bank_id := n, sr_bank_id_inverse := NOT n,
           sr_magic_start_inverse := NOT head_magic,
           sr_pre_guard_pad := llps_session_tmr_fill_guard_pad (sr_pre_guard_pad region)
             LLPS_SESSION_TMR_REGION_PAD_BYTES n False,
           sr_post_guard_pad := llps_session_tmr_fill_guard_pad (sr_post_guard_pad region)
             LLPS_SESSION_TMR_REGION_PAD_BYTES n True,
           sr_magic_end_inverse := NOT tail_magic, sr_bank_id_tail := n, sr_bank_id_tail_inverse := NOT n,
           sr_magic_end := tail_magic\<rparr>)"

definition llps_session_tmr_restore_region_guard :: "nat \<Rightarrow> session_banks \<Rightarrow> session_banks" where
  "llps_session_tmr_restore_region_guard i =
     (\<lambda>(regions, sc). (regions[i := llps_session_tmr_init_region (of_nat i) (regions ! i)],
        LLPS_MEMORY_SAFETY_COUNTER_INC tmr_region_guard_faults_update sc))"

definition llps_session_tmr_region_guard_is_valid :: "u32 \<Rightarrow> llps_session_tmr_region_t \<Rightarrow> bool" where
  "llps_session_tmr_region_guard_is_valid n region \<longleftrightarrow>
     (let head_magic = llps_session_tmr_region_head_magic_for_bank n;
          tail_magic = llps_session_tmr_region_tail_magic_for_bank n
      in sr_magic_start region = head_magic \<and> sr_magic_start_inverse region = NOT head_magic \<and>
         sr_bank_id region = n \<and> sr_bank_id_inverse region = NOT n \<and>
         llps_session_tmr_guard_pad_is_valid (sr_pre_guard_pad region) LLPS_SESSION_TMR_REGION_PAD_BYTES n False \<and>
         llps_session_tmr_guard_pad_is_valid (sr_post_guard_pad region) LLPS_SESSION_TMR_REGION_PAD_BYTES n True \<and>
         sr_magic_end region = tail_magic \<and> sr_magic_end_inverse region = NOT tail_magic \<and>
         sr_bank_id_tail region = n \<and> sr_bank_id_tail_inverse region = NOT n)"

text \<open>
  The record reference of the sources: the slot number, when the region guards and the number are
  good. A raw reference asks for the number only.
\<close>

definition llps_session_tmr_record_raw_ref :: "u32 \<Rightarrow> nat option" where
  "llps_session_tmr_record_raw_ref n = (if n \<ge> LLPS_MAX_CLIENTS then None else Some (unat n))"

definition llps_session_tmr_record_ref :: "nat \<Rightarrow> u32 \<Rightarrow> llps_session_tmr_region_t list \<Rightarrow> nat option" where
  "llps_session_tmr_record_ref i n regions =
     (if n \<ge> LLPS_MAX_CLIENTS then None
      else if \<not> llps_session_tmr_region_guard_is_valid (of_nat i) (regions ! i) then None
      else Some (unat n))"

definition set_record ::
    "nat \<Rightarrow> nat \<Rightarrow> (llps_session_tmr_record_t \<Rightarrow> llps_session_tmr_record_t) \<Rightarrow>
     llps_session_tmr_region_t list \<Rightarrow> llps_session_tmr_region_t list" where
  "set_record i slot f regions =
     regions[i := (regions ! i)\<lparr>sr_records := (sr_records (regions ! i))[slot := f (sr_records (regions ! i) ! slot)]\<rparr>]"

definition llps_session_tmr_write_bank :: "nat \<Rightarrow> llps_session_tmr_snapshot_t \<Rightarrow> session_banks \<Rightarrow> session_banks" where
  "llps_session_tmr_write_bank i snapshot =
     (\<lambda>(regions, sc).
       (let ref = llps_session_tmr_record_ref i (ss_session_id snapshot) regions;
            (regions, sc) = (if ref = None then llps_session_tmr_restore_region_guard i (regions, sc)
                             else (regions, sc));
            ref = (if ref = None then llps_session_tmr_record_raw_ref (ss_session_id snapshot) else ref)
        in case ref of
             None \<Rightarrow> (regions, LLPS_MEMORY_SAFETY_COUNTER_INC contract_violations_update sc)
           | Some slot \<Rightarrow>
               (set_record i slot (\<lambda>rec. llps_session_tmr_record_from_snapshot rec (of_nat i) snapshot) regions, sc)))"

definition llps_session_tmr_write_all :: "llps_session_tmr_snapshot_t \<Rightarrow> session_banks \<Rightarrow> session_banks" where
  "llps_session_tmr_write_all snapshot banks =
     foldl (\<lambda>banks i. llps_session_tmr_write_bank i snapshot banks) banks [0..<LLPS_SESSION_TMR_BANK_COUNT]"

definition llps_session_tmr_repair_divergent_banks ::
    "bool list \<Rightarrow> llps_session_tmr_snapshot_t list \<Rightarrow> llps_session_tmr_snapshot_t \<Rightarrow> session_banks \<Rightarrow> session_banks" where
  "llps_session_tmr_repair_divergent_banks valid snapshots majority banks =
     foldl (\<lambda>banks i.
         if \<not> valid ! i \<or> \<not> llps_session_tmr_snapshot_equal (snapshots ! i) majority
         then (case llps_session_tmr_write_bank i majority banks of
                 (regions, sc) \<Rightarrow> (regions, LLPS_MEMORY_SAFETY_COUNTER_INC tmr_single_bank_repairs_update sc))
         else banks)
       banks [0..<LLPS_SESSION_TMR_BANK_COUNT]"

definition zero_session_snapshot :: llps_session_tmr_snapshot_t where
  "zero_session_snapshot = \<lparr>ss_session_id = 0, ss_state = 0, ss_last_activity_ns = 0, ss_request_no = 0,
     ss_client_fd = 0, ss_backend_fd = 0, ss_close_reason = 0, ss_client_ip = replicate 16 0,
     ss_client_port = 0, ss_c2s_payload_ecc_len = 0, ss_s2c_payload_ecc_len = 0, ss_session_crc = 0\<rparr>"

text \<open>The validation of one bank in a vote: the regions, the arrays \<^verbatim>\<open>valid\<close> and \<^verbatim>\<open>snapshots\<close>, the counters.\<close>

definition tmr_vote_bank ::
    "u32 \<Rightarrow> llps_session_tmr_region_t list \<times> bool list \<times> llps_session_tmr_snapshot_t list \<times> safety_counters \<Rightarrow>
     nat \<Rightarrow> llps_session_tmr_region_t list \<times> bool list \<times> llps_session_tmr_snapshot_t list \<times> safety_counters" where
  "tmr_vote_bank session_id =
     (\<lambda>(regions, valid, snapshots, sc) i.
       (case llps_session_tmr_record_ref i session_id regions of
          None \<Rightarrow> (regions, valid[i := False], snapshots, sc)
        | Some slot \<Rightarrow>
            (case llps_session_tmr_record_repair_secded (sr_records (regions ! i) ! slot) sc of
               (repaired, rec, sc) \<Rightarrow>
                 (let regions = set_record i slot (\<lambda>_. rec) regions;
                      v = (repaired \<and> llps_session_tmr_record_is_valid rec (of_nat i) session_id)
                  in (regions, valid[i := v],
                      if v then snapshots[i := llps_session_tmr_record_to_snapshot rec] else snapshots, sc)))))"

text \<open>\<open>None\<close> is the result \<^verbatim>\<open>false\<close>.\<close>

definition llps_session_tmr_vote ::
    "u32 \<Rightarrow> u32 \<Rightarrow> session_banks \<Rightarrow> llps_session_tmr_snapshot_t option \<times> session_banks" where
  "llps_session_tmr_vote session_id client_count =
     (\<lambda>(regions, sc).
       if client_count > LLPS_MAX_CLIENTS then (None, regions, sc)
       else if session_id \<ge> client_count then (None, regions, sc)
       else
         (case foldl (tmr_vote_bank session_id)
                 (regions, [False, False, False], replicate 3 zero_session_snapshot, sc)
                 [0..<LLPS_SESSION_TMR_BANK_COUNT] of
            (regions, valid, snapshots, sc) \<Rightarrow>
              (let valid_count = length (filter id valid)
               in if valid_count < 2
                  then (None, regions, LLPS_MEMORY_SAFETY_COUNTER_INC tmr_majority_failures_update sc)
                  else (case llps_tmr_vote_find_matching_pair valid
                              (llps_session_tmr_snapshot_equal (snapshots ! 0) (snapshots ! 1))
                              (llps_session_tmr_snapshot_equal (snapshots ! 0) (snapshots ! 2))
                              (llps_session_tmr_snapshot_equal (snapshots ! 1) (snapshots ! 2)) of
                          None \<Rightarrow> (None, regions, LLPS_MEMORY_SAFETY_COUNTER_INC tmr_majority_failures_update sc)
                        | Some k \<Rightarrow>
                            (Some (snapshots ! k),
                             llps_session_tmr_repair_divergent_banks valid snapshots (snapshots ! k)
                               (regions, sc))))))"

subsection \<open>The startup self-test\<close>

abbreviation LLPS_TMR_SELF_TEST_SESSION_SINGLE_REPAIR :: u32 where
  "LLPS_TMR_SELF_TEST_SESSION_SINGLE_REPAIR \<equiv> 0x1"

abbreviation LLPS_TMR_SELF_TEST_SESSION_DUAL_FAIL_CLOSED :: u32 where
  "LLPS_TMR_SELF_TEST_SESSION_DUAL_FAIL_CLOSED \<equiv> 0x2"

abbreviation LLPS_TMR_SELF_TEST_SESSION_NO_MAJORITY_FAIL_CLOSED :: u32 where
  "LLPS_TMR_SELF_TEST_SESSION_NO_MAJORITY_FAIL_CLOSED \<equiv> 0x4"

text \<open>The records of one slot in the three banks; \<open>None\<close> is the result \<^verbatim>\<open>false\<close>.\<close>

definition llps_session_tmr_save_records :: "u32 \<Rightarrow> session_banks \<Rightarrow> llps_session_tmr_record_t list option" where
  "llps_session_tmr_save_records session_id =
     (\<lambda>(regions, sc). if session_id \<ge> LLPS_MAX_CLIENTS then None
        else Some (map (\<lambda>i. sr_records (regions ! i) ! unat session_id) [0..<LLPS_SESSION_TMR_BANK_COUNT]))"

definition llps_session_tmr_restore_records ::
    "u32 \<Rightarrow> llps_session_tmr_record_t list \<Rightarrow> session_banks \<Rightarrow> session_banks" where
  "llps_session_tmr_restore_records session_id saved =
     (\<lambda>(regions, sc). if session_id \<ge> LLPS_MAX_CLIENTS
        then (regions, LLPS_MEMORY_SAFETY_COUNTER_INC contract_violations_update sc)
        else (foldl (\<lambda>regions i. set_record i (unat session_id) (\<lambda>_. saved ! i) regions) regions
                [0..<LLPS_SESSION_TMR_BANK_COUNT], sc))"

text \<open>The cases work on the records of slot \<open>slot\<close>, the raw references of the session.\<close>

definition llps_session_tmr_self_test_record_refs :: "u32 \<Rightarrow> safety_counters \<Rightarrow> nat option \<times> safety_counters" where
  "llps_session_tmr_self_test_record_refs session_id sc =
     (case llps_session_tmr_record_raw_ref session_id of
        None \<Rightarrow> (None, LLPS_MEMORY_SAFETY_COUNTER_INC contract_violations_update sc)
      | Some slot \<Rightarrow> (Some slot, sc))"

definition llps_session_tmr_self_test_single_repair ::
    "u32 \<Rightarrow> u32 \<Rightarrow> llps_session_tmr_snapshot_t \<Rightarrow> nat \<Rightarrow> u32 \<times> session_banks \<Rightarrow> bool \<times> u32 \<times> session_banks" where
  "llps_session_tmr_self_test_single_repair session_id client_count expected slot =
     (\<lambda>(coverage, regions, sc).
       (case llps_session_tmr_vote session_id client_count
               (set_record 0 slot (tr_magic_start_update (\<lambda>m. m XOR UINT32_MAX)) regions, sc) of
          (voted, regions, sc) \<Rightarrow>
            (let passed = (case voted of None \<Rightarrow> False
                   | Some v \<Rightarrow> llps_session_tmr_snapshot_equal expected v \<and>
                       llps_session_tmr_record_is_valid (sr_records (regions ! 0) ! slot) 0 session_id)
             in (passed, if passed then coverage OR LLPS_TMR_SELF_TEST_SESSION_SINGLE_REPAIR else coverage,
                 regions, sc))))"

definition llps_session_tmr_self_test_no_majority ::
    "u32 \<Rightarrow> u32 \<Rightarrow> llps_session_tmr_snapshot_t \<Rightarrow> nat \<Rightarrow> u32 \<times> session_banks \<Rightarrow> bool \<times> u32 \<times> session_banks" where
  "llps_session_tmr_self_test_no_majority session_id client_count expected slot =
     (\<lambda>(coverage, regions, sc).
       (let s1 = expected\<lparr>ss_last_activity_ns := ss_last_activity_ns expected XOR 0xA5A5A5A5A5A5A5A5\<rparr>;
            s2 = expected\<lparr>ss_last_activity_ns := ss_last_activity_ns expected XOR 0x5A5A5A5A5A5A5A5A\<rparr>;
            regions = set_record 0 slot (\<lambda>rec. llps_session_tmr_record_from_snapshot rec 0 expected) regions;
            regions = set_record 1 slot (\<lambda>rec. llps_session_tmr_record_from_snapshot rec 1 s1) regions;
            regions = set_record 2 slot (\<lambda>rec. llps_session_tmr_record_from_snapshot rec 2 s2) regions
        in (case llps_session_tmr_vote session_id client_count (regions, sc) of
              (voted, banks) \<Rightarrow>
                (let passed = (voted = None)
                 in (passed,
                     if passed then coverage OR LLPS_TMR_SELF_TEST_SESSION_NO_MAJORITY_FAIL_CLOSED
                     else coverage, banks)))))"

definition llps_session_tmr_self_test_dual_fail ::
    "u32 \<Rightarrow> u32 \<Rightarrow> llps_session_tmr_snapshot_t \<Rightarrow> nat \<Rightarrow> u32 \<times> session_banks \<Rightarrow> bool \<times> u32 \<times> session_banks" where
  "llps_session_tmr_self_test_dual_fail session_id client_count expected slot =
     (\<lambda>(coverage, banks).
       (case llps_session_tmr_write_all expected banks of
          (regions, sc) \<Rightarrow>
            (let regions = set_record 0 slot (tr_magic_start_update (\<lambda>_. 0)) regions;
                 regions = set_record 1 slot (tr_magic_start_update (\<lambda>_. 0)) regions
             in (case llps_session_tmr_vote session_id client_count (regions, sc) of
                   (voted, banks) \<Rightarrow>
                     (let passed = (voted = None)
                      in (passed,
                          if passed then coverage OR LLPS_TMR_SELF_TEST_SESSION_DUAL_FAIL_CLOSED
                          else coverage, banks))))))"

definition llps_session_tmr_self_test_run_cases ::
    "u32 \<Rightarrow> u32 \<Rightarrow> llps_session_tmr_snapshot_t \<Rightarrow> u32 \<times> session_banks \<Rightarrow> bool \<times> u32 \<times> session_banks" where
  "llps_session_tmr_self_test_run_cases session_id client_count expected =
     (\<lambda>(coverage, regions, sc).
       (case llps_session_tmr_self_test_record_refs session_id sc of
          (None, sc) \<Rightarrow> (False, coverage, regions, sc)
        | (Some slot, sc) \<Rightarrow>
            (let (passed, st) = llps_session_tmr_self_test_single_repair session_id client_count expected slot
                   (coverage, regions, sc);
                 (passed, st) = (if passed
                   then llps_session_tmr_self_test_no_majority session_id client_count expected slot st
                   else (passed, st))
             in if passed then llps_session_tmr_self_test_dual_fail session_id client_count expected slot st
                else (passed, st))))"

definition llps_session_tmr_startup_self_test :: "u32 \<Rightarrow> u32 \<times> session_banks \<Rightarrow> bool \<times> u32 \<times> session_banks" where
  "llps_session_tmr_startup_self_test client_count =
     (\<lambda>(coverage, banks).
       if client_count = 0 then (False, coverage, banks)
       else
         (case llps_session_tmr_save_records 0 banks of
            None \<Rightarrow> (False, coverage, banks)
          | Some saved \<Rightarrow>
              (let (expected, banks) = llps_session_tmr_vote 0 client_count banks;
                   (passed, coverage, banks) = (case expected of
                     None \<Rightarrow> (False, coverage, banks)
                   | Some e \<Rightarrow> llps_session_tmr_self_test_run_cases 0 client_count e (coverage, banks))
               in (passed, coverage, llps_session_tmr_restore_records 0 saved banks))))"

section \<open>Vocabulary of the proofs\<close>

text \<open>The sizes of the arrays of a region, which no upset changes.\<close>

definition region_shape :: "llps_session_tmr_region_t \<Rightarrow> bool" where
  "region_shape region \<longleftrightarrow> length (sr_pre_guard_pad region) = LLPS_SESSION_TMR_REGION_PAD_BYTES \<and>
     length (sr_post_guard_pad region) = LLPS_SESSION_TMR_REGION_PAD_BYTES \<and>
     length (sr_records region) = unat LLPS_MAX_CLIENTS"

definition regions_shape :: "llps_session_tmr_region_t list \<Rightarrow> bool" where
  "regions_shape regions \<longleftrightarrow> length regions = 3 \<and> (\<forall>i < 3. region_shape (regions ! i))"

abbreviation guarded :: "nat \<Rightarrow> llps_session_tmr_region_t \<Rightarrow> bool" where
  "guarded i region \<equiv> llps_session_tmr_region_guard_is_valid (of_nat i) region"

abbreviation slot_record :: "u32 \<Rightarrow> llps_session_tmr_region_t \<Rightarrow> llps_session_tmr_record_t" where
  "slot_record n region \<equiv> sr_records region ! unat n"

text \<open>The record a write leaves in bank \<open>i\<close>, and the whole region after the write.\<close>

definition fresh_record :: "nat \<Rightarrow> llps_session_tmr_snapshot_t \<Rightarrow> llps_session_tmr_record_t" where
  "fresh_record i s = llps_session_tmr_record_from_snapshot undefined (of_nat i) s"

definition put_record :: "u32 \<Rightarrow> llps_session_tmr_record_t \<Rightarrow> llps_session_tmr_region_t \<Rightarrow> llps_session_tmr_region_t" where
  "put_record n rec region = region\<lparr>sr_records := (sr_records region)[unat n := rec]\<rparr>"

definition written_region :: "nat \<Rightarrow> llps_session_tmr_snapshot_t \<Rightarrow> llps_session_tmr_region_t \<Rightarrow> llps_session_tmr_region_t" where
  "written_region i s region = put_record (ss_session_id s) (fresh_record i s)
     (if guarded i region then region else llps_session_tmr_init_region (of_nat i) region)"

definition blank_counters :: safety_counters where
  "blank_counters = \<lparr>g_memory_safety_counters = zero_counters, g_memory_safety_counters_crc = 0,
     g_memory_safety_counters_crc_inverse = 0\<rparr>"

text \<open>What the vote sees of a bank: whether the repair accepted it, and the repaired record.\<close>

definition repair_outcome :: "llps_session_tmr_record_t \<Rightarrow> bool \<times> llps_session_tmr_record_t" where
  "repair_outcome rec = (case llps_session_tmr_record_repair_secded rec blank_counters of (ok, rec', sc) \<Rightarrow> (ok, rec'))"

definition bank_view :: "u32 \<Rightarrow> nat \<Rightarrow> llps_session_tmr_region_t \<Rightarrow> bool \<times> llps_session_tmr_record_t" where
  "bank_view n i region = (if guarded i region then repair_outcome (slot_record n region) else (False, slot_record n region))"

definition bank_views :: "u32 \<Rightarrow> llps_session_tmr_region_t list \<Rightarrow> (bool \<times> llps_session_tmr_record_t) list" where
  "bank_views n regions = map (\<lambda>i. bank_view n i (regions ! i)) [0..<3]"

definition view_is_valid :: "u32 \<Rightarrow> nat \<Rightarrow> bool \<times> llps_session_tmr_record_t \<Rightarrow> bool" where
  "view_is_valid n i = (\<lambda>(ok, rec). ok \<and> llps_session_tmr_record_is_valid rec (of_nat i) n)"

definition view_snapshot :: "bool \<times> llps_session_tmr_record_t \<Rightarrow> llps_session_tmr_snapshot_t" where
  "view_snapshot = (\<lambda>(ok, rec). llps_session_tmr_record_to_snapshot rec)"

definition view_from :: "nat \<Rightarrow> llps_session_tmr_snapshot_t \<Rightarrow> bool \<times> llps_session_tmr_record_t" where
  "view_from i s = (True, fresh_record i s)"

section \<open>Guards\<close>

lemma fill_guard_pad_valid:
  "length pad = len \<Longrightarrow> llps_session_tmr_guard_pad_is_valid (llps_session_tmr_fill_guard_pad pad len n b) len n b"
  by (auto simp: llps_session_tmr_guard_pad_is_valid_def llps_session_tmr_fill_guard_pad_def list_all_upt_iff
      foldl_assign)

lemma length_fill_guard_pad [simp]: "length (llps_session_tmr_fill_guard_pad pad len n b) = length pad"
  by (simp add: llps_session_tmr_fill_guard_pad_def foldl_assign)

lemma init_region_guarded: "region_shape region \<Longrightarrow> guarded i (llps_session_tmr_init_region (of_nat i) region)"
  by (simp add: llps_session_tmr_region_guard_is_valid_def llps_session_tmr_init_region_def region_shape_def
      fill_guard_pad_valid Let_def)

lemma init_region_shape [simp]:
  "region_shape (llps_session_tmr_init_region n region) \<longleftrightarrow> region_shape region"
  "sr_records (llps_session_tmr_init_region n region) = sr_records region"
  by (simp_all add: region_shape_def llps_session_tmr_init_region_def Let_def)

lemma put_record_frame [simp]:
  "llps_session_tmr_region_guard_is_valid m (put_record n rec region) = llps_session_tmr_region_guard_is_valid m region"
  "region_shape (put_record n rec region) \<longleftrightarrow> region_shape region"
  by (simp_all add: llps_session_tmr_region_guard_is_valid_def put_record_def region_shape_def)

lemma slot_put_record [simp]:
  "region_shape region \<Longrightarrow> n < LLPS_MAX_CLIENTS \<Longrightarrow> slot_record n (put_record n rec region) = rec"
  by (simp add: put_record_def region_shape_def word_less_nat_alt)

lemma written_region_facts:
  assumes "region_shape region" "ss_session_id s < LLPS_MAX_CLIENTS"
  shows "guarded i (written_region i s region)" "region_shape (written_region i s region)"
    "slot_record (ss_session_id s) (written_region i s region) = fresh_record i s"
  using assms init_region_guarded [OF assms(1)] by (simp_all add: written_region_def)

lemma set_record_eq:
  "set_record i (unat n) f regions = regions[i := put_record n (f (slot_record n (regions ! i))) (regions ! i)]"
  by (simp add: set_record_def put_record_def)

section \<open>Writing\<close>

lemma from_snapshot_fresh: "llps_session_tmr_record_from_snapshot rec (of_nat i) s = fresh_record i s"
  unfolding fresh_record_def by (rule record_from_snapshot_any)

lemma write_bank_regions:
  assumes "ss_session_id s < LLPS_MAX_CLIENTS" "length regions = 3" "i < 3"
  shows "fst (llps_session_tmr_write_bank i s (regions, sc)) = regions[i := written_region i s (regions ! i)]"
  using assms(2,3) assms(1) [unfolded not_le [symmetric]]
  by (simp add: llps_session_tmr_write_bank_def llps_session_tmr_record_ref_def llps_session_tmr_record_raw_ref_def
      llps_session_tmr_restore_region_guard_def set_record_eq written_region_def from_snapshot_fresh)

text \<open>Writing all banks, and the repair loop of a vote, on the regions.\<close>

lemma write_all_regions:
  assumes "ss_session_id s < LLPS_MAX_CLIENTS" "length regions = 3"
  shows "fst (llps_session_tmr_write_all s (regions, sc)) = map (\<lambda>i. written_region i s (regions ! i)) [0..<3]"
proof -
  have "fst (foldl (\<lambda>banks i. llps_session_tmr_write_bank i s banks) (regions, sc) [0..<k]) =
      map (\<lambda>i. if i < k then written_region i s (regions ! i) else regions ! i) [0..<3]" if "k \<le> 3" for k
    using that
  proof (induction k)
    case 0
    show ?case using assms(2) by (auto simp: bank_count_simps)
  next
    case (Suc k)
    obtain rs sc' where r: "foldl (\<lambda>banks i. llps_session_tmr_write_bank i s banks) (regions, sc) [0..<k] = (rs, sc')"
      by fastforce
    have rs: "rs = map (\<lambda>i. if i < k then written_region i s (regions ! i) else regions ! i) [0..<3]"
      using Suc r by simp
    then have "fst (llps_session_tmr_write_bank k s (rs, sc')) = rs[k := written_region k s (rs ! k)]"
      using Suc.prems by (intro write_bank_regions assms(1)) simp_all
    also have "\<dots> = map (\<lambda>i. if i < Suc k then written_region i s (regions ! i) else regions ! i) [0..<3]"
      using Suc.prems rs by (intro nth_equalityI) (auto simp: nth_list_update less_Suc_eq)
    finally show ?case using r by simp
  qed
  from this [of 3] show ?thesis
    by (simp add: llps_session_tmr_write_all_def bank_count_simps)
qed

lemma repair_divergent_regions:
  assumes "ss_session_id s < LLPS_MAX_CLIENTS" "length regions = 3"
  shows "fst (llps_session_tmr_repair_divergent_banks valid ts s (regions, sc)) =
    map (\<lambda>i. if valid ! i \<and> ts ! i = s then regions ! i else written_region i s (regions ! i)) [0..<3]"
proof -
  define step where "step = (\<lambda>banks i. if \<not> valid ! i \<or> \<not> llps_session_tmr_snapshot_equal (ts ! i) s
    then (case llps_session_tmr_write_bank i s banks of
            (regions, sc) \<Rightarrow> (regions, LLPS_MEMORY_SAFETY_COUNTER_INC tmr_single_bank_repairs_update sc))
    else banks)"
  let ?goal = "\<lambda>k. map (\<lambda>i. if i < k \<and> \<not> (valid ! i \<and> ts ! i = s) then written_region i s (regions ! i)
    else regions ! i) [0..<3]"
  have "fst (foldl step (regions, sc) [0..<k]) = ?goal k" if "k \<le> 3" for k
    using that
  proof (induction k)
    case 0
    show ?case using assms(2) by (auto simp: bank_count_simps)
  next
    case (Suc k)
    obtain rs sc' where r: "foldl step (regions, sc) [0..<k] = (rs, sc')" by fastforce
    have rs: "rs = ?goal k" using Suc r by simp
    then have "fst (llps_session_tmr_write_bank k s (rs, sc')) = rs[k := written_region k s (rs ! k)]"
      using Suc.prems by (intro write_bank_regions assms(1)) simp_all
    moreover have "rs ! k = regions ! k" using rs Suc.prems by simp
    moreover have "rs[k := written_region k s (regions ! k)] = ?goal (Suc k)" if "\<not> (valid ! k \<and> ts ! k = s)"
      using Suc.prems rs that by (intro nth_equalityI) (auto simp: nth_list_update less_Suc_eq)
    moreover have "?goal k = ?goal (Suc k)" if "valid ! k \<and> ts ! k = s"
      using that by (auto simp: less_Suc_eq)
    ultimately have "fst (step (rs, sc') k) = ?goal (Suc k)"
      unfolding step_def using rs by (cases "valid ! k \<and> ts ! k = s") (auto split: prod.splits)
    then show ?case using r by simp
  qed
  from this [of 3] show ?thesis
    unfolding llps_session_tmr_repair_divergent_banks_def step_def [symmetric]
    by (auto simp: upt_bank_count)
qed

section \<open>Validation of the banks\<close>

lemma repair_outcome_eq:
  "llps_session_tmr_record_repair_secded rec sc = (ok, rec', sc') \<Longrightarrow> repair_outcome rec = (ok, rec')"
  using record_repair_without_counters [of rec sc ok rec' sc' blank_counters] by (auto simp: repair_outcome_def)

text \<open>The region after the repair of its record.\<close>

definition repaired_region :: "u32 \<Rightarrow> nat \<Rightarrow> llps_session_tmr_region_t \<Rightarrow> llps_session_tmr_region_t" where
  "repaired_region n i region =
     (if guarded i region then put_record n (snd (repair_outcome (slot_record n region))) region else region)"

lemma vote_bank_eq:
  assumes "n < LLPS_MAX_CLIENTS" "length valid = 3" "length ts = 3" "i < 3"
  shows "\<exists>sc'. tmr_vote_bank n (regions, valid, ts, sc) i =
    (regions[i := repaired_region n i (regions ! i)],
     valid[i := view_is_valid n i (bank_view n i (regions ! i))],
     if view_is_valid n i (bank_view n i (regions ! i))
     then ts[i := view_snapshot (bank_view n i (regions ! i))] else ts, sc')"
proof (cases "guarded i (regions ! i)")
  case True
  obtain ok rec' sc' where r: "llps_session_tmr_record_repair_secded (slot_record n (regions ! i)) sc = (ok, rec', sc')"
    by (metis prod_cases3)
  note o = repair_outcome_eq [OF r]
  show ?thesis using True assms(1)
    by (simp add: tmr_vote_bank_def llps_session_tmr_record_ref_def r set_record_eq repaired_region_def bank_view_def o
        view_is_valid_def view_snapshot_def Let_def not_le [symmetric] del: not_le)
next
  case False
  then show ?thesis
    by (simp add: tmr_vote_bank_def llps_session_tmr_record_ref_def repaired_region_def bank_view_def view_is_valid_def)
qed

lemma vote_banks_eq:
  assumes "n < LLPS_MAX_CLIENTS" "length regions = 3"
  shows "\<exists>sc'. foldl (tmr_vote_bank n) (regions, [False, False, False], replicate 3 zero_session_snapshot, sc) [0..<3] =
    (map (\<lambda>i. repaired_region n i (regions ! i)) [0..<3],
     map (\<lambda>i. view_is_valid n i (bank_views n regions ! i)) [0..<3],
     map (\<lambda>i. if view_is_valid n i (bank_views n regions ! i) then view_snapshot (bank_views n regions ! i)
       else zero_session_snapshot) [0..<3], sc')"
proof -
  obtain r0 r1 r2 where r: "regions = [r0, r1, r2]" using assms(2) by (auto simp: length_3_iff)
  note step = vote_bank_eq [OF assms(1)]
  obtain sc0 where 0: "tmr_vote_bank n (regions, [False, False, False], replicate 3 zero_session_snapshot, sc) 0 =
      ([repaired_region n 0 r0, r1, r2], [view_is_valid n 0 (bank_view n 0 r0), False, False],
       [if view_is_valid n 0 (bank_view n 0 r0) then view_snapshot (bank_view n 0 r0) else zero_session_snapshot,
        zero_session_snapshot, zero_session_snapshot], sc0)"
    using step [of "[False, False, False]" "replicate 3 zero_session_snapshot" 0 regions sc]
    by (auto simp: r numeral_3_eq_3)
  let ?v0 = "view_is_valid n 0 (bank_view n 0 r0)" and ?v1 = "view_is_valid n 1 (bank_view n 1 r1)"
  let ?t0 = "if ?v0 then view_snapshot (bank_view n 0 r0) else zero_session_snapshot"
  let ?t1 = "if ?v1 then view_snapshot (bank_view n 1 r1) else zero_session_snapshot"
  obtain sc1 where 1: "tmr_vote_bank n ([repaired_region n 0 r0, r1, r2], [?v0, False, False],
       [?t0, zero_session_snapshot, zero_session_snapshot], sc0) 1 =
      ([repaired_region n 0 r0, repaired_region n 1 r1, r2], [?v0, ?v1, False], [?t0, ?t1, zero_session_snapshot], sc1)"
    using step [of "[?v0, False, False]" "[?t0, zero_session_snapshot, zero_session_snapshot]" 1
        "[repaired_region n 0 r0, r1, r2]" sc0] by auto
  obtain sc2 where 2: "tmr_vote_bank n ([repaired_region n 0 r0, repaired_region n 1 r1, r2], [?v0, ?v1, False],
       [?t0, ?t1, zero_session_snapshot], sc1) 2 =
      ([repaired_region n 0 r0, repaired_region n 1 r1, repaired_region n 2 r2],
       [?v0, ?v1, view_is_valid n 2 (bank_view n 2 r2)],
       [?t0, ?t1, if view_is_valid n 2 (bank_view n 2 r2) then view_snapshot (bank_view n 2 r2)
         else zero_session_snapshot], sc2)"
    using step [of "[?v0, ?v1, False]" "[?t0, ?t1, zero_session_snapshot]" 2
        "[repaired_region n 0 r0, repaired_region n 1 r1, r2]" sc1] by auto
  show ?thesis
    unfolding upt_bank_count bank_views_def by (simp only: foldl.simps 0 1 2) (simp add: r)
qed

section \<open>The vote\<close>

text \<open>
  The three views of a slot are a triply kept value: the contract of \<open>tmr_bank\<close> holds for the
  records of the sessions. Its results count nothing, so the counter type is \<open>unit\<close>.
\<close>

interpretation stmr: tmr_bank "view_is_valid n" view_snapshot zero_session_snapshot llps_session_tmr_snapshot_equal
  view_from "snapshot_ok n" "\<lambda>u :: unit. u" "\<lambda>u :: unit. u" for n
proof unfold_locales
  show "snapshot_ok n s \<Longrightarrow> i < 3 \<Longrightarrow> view_is_valid n i (view_from i s)" for s i
    by (simp add: view_is_valid_def view_from_def fresh_record_def record_from_snapshot_valid)
  show "snapshot_ok n s \<Longrightarrow> i < 3 \<Longrightarrow> view_snapshot (view_from i s) = s" for s i
    by (simp add: view_snapshot_def view_from_def fresh_record_def record_to_from_snapshot)
  show "view_is_valid n i b \<Longrightarrow> snapshot_ok n (view_snapshot b)" for i b
    by (auto simp: view_is_valid_def view_snapshot_def dest: valid_snapshot_ok)
qed simp

abbreviation session_voted :: "u32 \<Rightarrow> (bool \<times> llps_session_tmr_record_t) list \<Rightarrow> llps_session_tmr_snapshot_t option" where
  "session_voted n \<equiv> tmr_bank.voted (view_is_valid n) view_snapshot"

abbreviation session_holds ::
    "u32 \<Rightarrow> (bool \<times> llps_session_tmr_record_t) list \<Rightarrow> nat \<Rightarrow> llps_session_tmr_snapshot_t \<Rightarrow> bool" where
  "session_holds n \<equiv> tmr_bank.holds (view_is_valid n) view_snapshot"

text \<open>The region a vote leaves.\<close>

definition voted_region :: "u32 \<Rightarrow> llps_session_tmr_region_t list \<Rightarrow> llps_session_tmr_snapshot_t \<Rightarrow> nat \<Rightarrow> llps_session_tmr_region_t" where
  "voted_region n regions s i =
     (if session_holds n (bank_views n regions) i s then repaired_region n i (regions ! i)
      else written_region i s (repaired_region n i (regions ! i)))"

lemma length_bank_views [simp]: "length (bank_views n regions) = 3"
  by (simp add: bank_views_def)

lemma vote_eq:
  assumes n: "n < client_count" "client_count \<le> LLPS_MAX_CLIENTS" and len: "length regions = 3"
  shows "\<exists>sc'. llps_session_tmr_vote n client_count (regions, sc) =
    (case session_voted n (bank_views n regions) of
       None \<Rightarrow> (None, map (\<lambda>i. repaired_region n i (regions ! i)) [0..<3],
                LLPS_MEMORY_SAFETY_COUNTER_INC tmr_majority_failures_update sc')
     | Some s \<Rightarrow> (Some s, map (voted_region n regions s) [0..<3], sc'))"
proof -
  let ?views = "bank_views n regions"
  define valid where "valid = map (\<lambda>i. view_is_valid n i (?views ! i)) [0..<3]"
  define ts where "ts = map (\<lambda>i. if valid ! i then view_snapshot (?views ! i) else zero_session_snapshot) [0..<3]"
  define pair where "pair = llps_tmr_vote_find_matching_pair valid (llps_session_tmr_snapshot_equal (ts ! 0) (ts ! 1))
    (llps_session_tmr_snapshot_equal (ts ! 0) (ts ! 2)) (llps_session_tmr_snapshot_equal (ts ! 1) (ts ! 2))"
  let ?few = "length (filter id valid) < 2"
  have max: "n < LLPS_MAX_CLIENTS" using n by (rule less_le_trans)
  have ts_eq: "map (\<lambda>i. if view_is_valid n i (?views ! i) then view_snapshot (?views ! i)
      else zero_session_snapshot) [0..<3] = ts"
    by (simp add: ts_def valid_def upt_bank_count)
  obtain sc1 where fold: "foldl (tmr_vote_bank n) (regions, [False, False, False], replicate 3 zero_session_snapshot, sc) [0..<3] =
      (map (\<lambda>i. repaired_region n i (regions ! i)) [0..<3], valid, ts, sc1)"
    using vote_banks_eq [OF max len, of sc] unfolding ts_eq valid_def [symmetric] by blast
  have "fst (stmr.reconcile n ?views ()) = (if ?few then None else map_option (\<lambda>k. ts ! k) pair)"
    unfolding stmr.reconcile_def tmr_reconcile_def Let_def valid_def [symmetric] ts_def [symmetric] pair_def
    by (simp split: option.split prod.split)
  moreover have "fst (stmr.reconcile n ?views ()) = session_voted n ?views"
    by (subst stmr.reconcile_eq) (simp_all split: option.split)
  ultimately have voted: "session_voted n ?views = (if ?few then None else map_option (\<lambda>k. ts ! k) pair)"
    by simp
  have vote: "llps_session_tmr_vote n client_count (regions, sc) =
      (if ?few then (None, map (\<lambda>i. repaired_region n i (regions ! i)) [0..<3],
         LLPS_MEMORY_SAFETY_COUNTER_INC tmr_majority_failures_update sc1)
       else (case pair of
           None \<Rightarrow> (None, map (\<lambda>i. repaired_region n i (regions ! i)) [0..<3],
             LLPS_MEMORY_SAFETY_COUNTER_INC tmr_majority_failures_update sc1)
         | Some k \<Rightarrow> (Some (ts ! k), llps_session_tmr_repair_divergent_banks valid ts (ts ! k)
             (map (\<lambda>i. repaired_region n i (regions ! i)) [0..<3], sc1))))"
    using n(2) n(1) [unfolded not_le [symmetric]]
    unfolding llps_session_tmr_vote_def pair_def
    by (simp only: fold prod.case Let_def not_less [symmetric] if_False)
  show ?thesis
  proof (cases "session_voted n ?views")
    case None
    then show ?thesis using voted by (auto simp: vote split: if_splits)
  next
    case (Some s)
    then obtain k where k: "\<not> ?few" "pair = Some k" "ts ! k = s" using voted by (auto split: if_splits)
    have "snapshot_ok n s" using Some stmr.voted_sound stmr.holds_ok by blast
    then have id: "ss_session_id s < LLPS_MAX_CLIENTS" using max by (simp add: snapshot_ok_def)
    have "valid ! i \<and> ts ! i = s \<longleftrightarrow> session_holds n ?views i s" if "i < 3" for i
      using that by (auto simp: valid_def ts_def stmr.holds_def)
    then have "fst (llps_session_tmr_repair_divergent_banks valid ts s
        (map (\<lambda>i. repaired_region n i (regions ! i)) [0..<3], sc1)) = map (voted_region n regions s) [0..<3]"
      by (subst repair_divergent_regions [OF id]) (auto simp: voted_region_def)
    then obtain sc2 where "llps_session_tmr_repair_divergent_banks valid ts s
        (map (\<lambda>i. repaired_region n i (regions ! i)) [0..<3], sc1) = (map (voted_region n regions s) [0..<3], sc2)"
      by (metis prod.collapse)
    then show ?thesis using k Some by (simp add: vote)
  qed
qed

section \<open>Consequences for one slot\<close>

text \<open>
  Bank \<open>i\<close> holds \<open>s\<close> for session \<open>n\<close>: its guards are intact and its record, after the repair of
  single-bit upsets, passes validation with snapshot \<open>s\<close>.
\<close>

definition bank_holds :: "u32 \<Rightarrow> nat \<Rightarrow> llps_session_tmr_region_t \<Rightarrow> llps_session_tmr_snapshot_t \<Rightarrow> bool" where
  "bank_holds n i region s \<longleftrightarrow> guarded i region \<and>
     (case llps_session_tmr_record_repair_secded (slot_record n region) blank_counters of
        (ok, rec, sc) \<Rightarrow> ok \<and> llps_session_tmr_record_is_valid rec (of_nat i) n \<and>
          llps_session_tmr_record_to_snapshot rec = s)"

lemma bank_holds_view:
  "i < 3 \<Longrightarrow> session_holds n (bank_views n regions) i s \<longleftrightarrow> bank_holds n i (regions ! i) s"
  unfolding stmr.holds_def
  by (auto simp: bank_views_def bank_view_def view_is_valid_def view_snapshot_def bank_holds_def
      repair_outcome_def split: prod.splits)

lemma bank_holds_upset:
  assumes "guarded i region" "llps_session_tmr_record_is_valid rec (of_nat i) n"
    and "record_upset rec (slot_record n region)" "llps_session_tmr_record_to_snapshot rec = s"
  shows "bank_holds n i region s" "snd (repair_outcome (slot_record n region)) = rec"
  using assms repair_record_upset [OF assms(2,3), of blank_counters]
  by (auto simp: bank_holds_def repair_outcome_def)

lemma bank_holds_ok: "bank_holds n i region s \<Longrightarrow> snapshot_ok n s"
  by (auto simp: bank_holds_def valid_snapshot_ok split: prod.splits)

text \<open>A region that stores \<open>s\<close> soundly, as it is.\<close>

definition bank_stores :: "u32 \<Rightarrow> nat \<Rightarrow> llps_session_tmr_region_t \<Rightarrow> llps_session_tmr_snapshot_t \<Rightarrow> bool" where
  "bank_stores n i region s \<longleftrightarrow> guarded i region \<and>
     llps_session_tmr_record_is_valid (slot_record n region) (of_nat i) n \<and>
     llps_session_tmr_record_to_snapshot (slot_record n region) = s"

lemma bank_stores_holds:
  "bank_stores n i region s \<Longrightarrow> bank_holds n i region s"
  "bank_stores n i region s \<Longrightarrow> snd (repair_outcome (slot_record n region)) = slot_record n region"
  using bank_holds_upset [of i region "slot_record n region" n s] by (simp_all add: bank_stores_def)

lemma written_region_stores:
  assumes "region_shape region" "snapshot_ok n s" "n < LLPS_MAX_CLIENTS"
  shows "bank_stores n i (written_region i s region) s" "region_shape (written_region i s region)"
  using assms written_region_facts [OF assms(1), of s i]
  by (auto simp: bank_stores_def snapshot_ok_def fresh_record_def record_from_snapshot_valid record_to_from_snapshot)

lemma repaired_region_shape [simp]: "region_shape (repaired_region n i region) = region_shape region"
  by (simp add: repaired_region_def)

lemma voted_region_stores:
  assumes "regions_shape regions" "snapshot_ok n s" "n < LLPS_MAX_CLIENTS" "i < 3"
  shows "bank_stores n i (voted_region n regions s i) s" "region_shape (voted_region n regions s i)"
proof -
  have shape: "region_shape (regions ! i)" using assms(1,4) by (simp add: regions_shape_def)
  have "bank_stores n i (repaired_region n i (regions ! i)) s" if "bank_holds n i (regions ! i) s"
    using that shape assms(3)
    by (auto simp: bank_holds_def bank_stores_def repaired_region_def repair_outcome_def split: prod.splits)
  then show "bank_stores n i (voted_region n regions s i) s"
    using written_region_stores(1) [OF _ assms(2,3)] shape bank_holds_view [OF assms(4)]
    by (simp add: voted_region_def)
  show "region_shape (voted_region n regions s i)"
    using written_region_stores(2) [OF _ assms(2,3)] shape by (simp add: voted_region_def)
qed

lemma session_voted_iff:
  "session_voted n (bank_views n regions) = Some s \<longleftrightarrow>
     (\<exists>i < 3. \<exists>j < 3. i \<noteq> j \<and> bank_holds n i (regions ! i) s \<and> bank_holds n j (regions ! j) s)"
proof
  assume "session_voted n (bank_views n regions) = Some s"
  from stmr.voted_sound [OF this] show "\<exists>i < 3. \<exists>j < 3. i \<noteq> j \<and> bank_holds n i (regions ! i) s \<and> bank_holds n j (regions ! j) s"
    using bank_holds_view by blast
next
  assume "\<exists>i < 3. \<exists>j < 3. i \<noteq> j \<and> bank_holds n i (regions ! i) s \<and> bank_holds n j (regions ! j) s"
  then obtain i j where "i < 3" "j < 3" "i \<noteq> j" "bank_holds n i (regions ! i) s" "bank_holds n j (regions ! j) s"
    by blast
  then show "session_voted n (bank_views n regions) = Some s"
    by (intro stmr.voted_agree [of i j]) (simp_all add: bank_holds_view)
qed

text \<open>What a vote does, in terms of the banks.\<close>

lemma vote_two_hold:
  assumes "n < client_count" "client_count \<le> LLPS_MAX_CLIENTS" "regions_shape regions"
    and "i < 3" "j < 3" "i \<noteq> j" "bank_holds n i (regions ! i) s" "bank_holds n j (regions ! j) s"
  shows "\<exists>restored sc'. llps_session_tmr_vote n client_count (regions, sc) = (Some s, restored, sc') \<and>
    regions_shape restored \<and> restored = map (voted_region n regions s) [0..<3] \<and>
    (\<forall>i < 3. bank_stores n i (restored ! i) s)"
proof -
  have voted: "session_voted n (bank_views n regions) = Some s" unfolding session_voted_iff using assms(4-) by blast
  have max: "n < LLPS_MAX_CLIENTS" using assms(1,2) by (rule less_le_trans)
  have len: "length regions = 3" using assms(3) by (simp add: regions_shape_def)
  obtain sc' where "llps_session_tmr_vote n client_count (regions, sc) =
      (Some s, map (voted_region n regions s) [0..<3], sc')"
    using vote_eq [OF assms(1,2) len, of sc] unfolding voted by auto
  then show ?thesis
    using voted_region_stores [OF assms(3) bank_holds_ok [OF assms(7)] max] by (simp add: regions_shape_def)
qed

lemma vote_none_holds:
  assumes "n < client_count" "client_count \<le> LLPS_MAX_CLIENTS" "length regions = 3"
    and "\<nexists>s. \<exists>i < 3. \<exists>j < 3. i \<noteq> j \<and> bank_holds n i (regions ! i) s \<and> bank_holds n j (regions ! j) s"
  shows "\<exists>sc'. llps_session_tmr_vote n client_count (regions, sc) =
    (None, map (\<lambda>i. repaired_region n i (regions ! i)) [0..<3],
     LLPS_MEMORY_SAFETY_COUNTER_INC tmr_majority_failures_update sc')"
proof -
  have "session_voted n (bank_views n regions) = None"
    using assms(4) session_voted_iff by (metis not_None_eq)
  then show ?thesis using vote_eq [OF assms(1-3), of sc] by simp
qed

section \<open>Properties\<close>

text \<open>
  C25: Session metadata survives the loss of one memory region together with scattered upsets of
  the two others. After a snapshot is written to all banks, one region may be overwritten with
  anything (its guards and all its records), and in each of the other two regions every protected
  word of the record may have one flipped bit: the vote still returns the snapshot, and afterwards
  all three banks hold it again, with intact guards.
\<close>

theorem session_vote_masks:
  assumes "regions_shape regions" "snapshot_ok n s" "n < client_count" "client_count \<le> LLPS_MAX_CLIENTS"
    and "llps_session_tmr_write_all s (regions, sc) = (written, sc1)"
    and "regions_shape damaged"
    and "\<And>i. i < 3 \<Longrightarrow> i \<noteq> k \<Longrightarrow> llps_session_tmr_region_guard_is_valid (of_nat i) (damaged ! i) \<and>
      record_upset (sr_records (written ! i) ! unat n) (sr_records (damaged ! i) ! unat n)"
  shows "\<exists>restored sc'. llps_session_tmr_vote n client_count (damaged, sc2) = (Some s, restored, sc') \<and>
    (\<forall>i < 3. bank_stores n i (restored ! i) s)"
proof -
  have n: "n < LLPS_MAX_CLIENTS" "ss_session_id s = n"
    using assms(2-4) by (auto simp: snapshot_ok_def intro: less_le_trans)
  have "written = map (\<lambda>i. written_region i s (regions ! i)) [0..<3]"
    using write_all_regions [of s regions sc] assms(1,5) n by (simp add: regions_shape_def)
  then have stored: "bank_stores n i (written ! i) s" if "i < 3" for i
    using that assms(1) written_region_stores(1) [OF _ assms(2) n(1)] by (simp add: regions_shape_def)
  have "bank_holds n i (damaged ! i) s" if "i < 3" "i \<noteq> k" for i
    using assms(7) [OF that] stored [OF that(1)] bank_holds_upset(1) [of i "damaged ! i"]
    by (auto simp: bank_stores_def)
  moreover obtain i j :: nat where "i < 3" "j < 3" "i \<noteq> j" "i \<noteq> k" "j \<noteq> k" using other_two by blast
  ultimately show ?thesis using vote_two_hold [OF assms(3,4,6)] by blast
qed


definition sample_region :: llps_session_tmr_region_t where
  "sample_region = \<lparr>sr_magic_start = 0, sr_bank_id = 0, sr_bank_id_inverse = 0, sr_magic_start_inverse = 0,
     sr_pre_guard_pad = replicate LLPS_SESSION_TMR_REGION_PAD_BYTES 0,
     sr_records = replicate (unat LLPS_MAX_CLIENTS) (fresh_record 0 zero_session_snapshot),
     sr_post_guard_pad = replicate LLPS_SESSION_TMR_REGION_PAD_BYTES 0,
     sr_magic_end_inverse = 0, sr_bank_id_tail = 0, sr_bank_id_tail_inverse = 0, sr_magic_end = 0\<rparr>"

definition sample_snapshot :: llps_session_tmr_snapshot_t where
  "sample_snapshot = zero_session_snapshot\<lparr>ss_session_id := 5, ss_state := ST_ACTIVE, ss_request_no := 77\<rparr>"

lemma sample_shape: "regions_shape [sample_region, sample_region, sample_region]"
  by (auto simp: regions_shape_def region_shape_def sample_region_def less_3_cases)

lemma sample_unguarded: "\<not> guarded i sample_region" if "i < 3"
  using that by (auto simp: less_3_cases llps_session_tmr_region_guard_is_valid_def sample_region_def
      llps_session_tmr_region_head_magic_for_bank_def Let_def)

lemma sample_snapshot_ok: "snapshot_ok 5 sample_snapshot"
  by (simp add: snapshot_ok_def sample_snapshot_def zero_session_snapshot_def llps_state_is_valid_def
      llps_close_reason_is_valid_def)

theorem session_vote_masks_witness:
  "\<exists>written sc1 restored sc'.
     llps_session_tmr_write_all sample_snapshot ([sample_region, sample_region, sample_region], blank_counters) = (written, sc1) \<and>
     llps_session_tmr_vote 5 10 (written[1 := sample_region], sc1) = (Some sample_snapshot, restored, sc') \<and>
     bank_stores 5 0 (restored ! 0) sample_snapshot \<and> bank_stores 5 1 (restored ! 1) sample_snapshot \<and>
     bank_stores 5 2 (restored ! 2) sample_snapshot"
proof -
  let ?regions = "[sample_region, sample_region, sample_region]"
  obtain written sc1 where w: "llps_session_tmr_write_all sample_snapshot (?regions, blank_counters) = (written, sc1)"
    by fastforce
  have written: "written = map (\<lambda>i. written_region i sample_snapshot (?regions ! i)) [0..<3]"
    using write_all_regions [of sample_snapshot ?regions blank_counters] w
    by (simp add: sample_snapshot_def)
  have facts: "bank_stores 5 i (written ! i) sample_snapshot" "region_shape (written ! i)" if "i < 3" for i
  proof -
    have "region_shape (?regions ! i)" using sample_shape that unfolding regions_shape_def by blast
    then show "bank_stores 5 i (written ! i) sample_snapshot" "region_shape (written ! i)"
      using written_region_stores [OF _ sample_snapshot_ok] that by (simp_all add: written)
  qed
  have shape: "regions_shape (written[1 := sample_region])"
    using facts(2) sample_shape [unfolded regions_shape_def, THEN conjunct2, rule_format, of 0] written
    by (simp add: regions_shape_def nth_list_update)
  have "\<exists>restored sc'. llps_session_tmr_vote 5 10 (written[1 := sample_region], sc1) = (Some sample_snapshot, restored, sc') \<and>
      (\<forall>i < 3. bank_stores 5 i (restored ! i) sample_snapshot)"
    by (rule session_vote_masks [OF sample_shape sample_snapshot_ok _ _ w shape, where k = 1])
      (use facts(1) in \<open>auto simp: bank_stores_def\<close>)
  then show ?thesis using w by fastforce
qed


section \<open>The startup self-test\<close>

text \<open>Regions that agree except for the records of one slot.\<close>

definition same_but :: "u32 \<Rightarrow> llps_session_tmr_region_t list \<Rightarrow> llps_session_tmr_region_t list \<Rightarrow> bool" where
  "same_but n regions regions' \<longleftrightarrow> length regions' = length regions \<and>
     (\<forall>i < length regions. \<exists>rec. regions' ! i = put_record n rec (regions ! i))"

lemma put_put_record [simp]: "put_record n r (put_record n r' region) = put_record n r region"
  by (simp add: put_record_def)

lemma put_same_record [simp]: "put_record n (slot_record n region) region = region"
  by (simp add: put_record_def)

lemma same_but_trans: "same_but n a b \<Longrightarrow> same_but n b c \<Longrightarrow> same_but n a c"
  unfolding same_but_def by (metis put_put_record)

lemma same_but_set_record: "same_but n a b \<Longrightarrow> same_but n a (set_record i (unat n) f b)"
  unfolding same_but_def set_record_eq by (metis length_list_update nth_list_update nth_list_update_neq put_put_record)

lemma same_but_facts:
  assumes "same_but n a b" "i < length a"
  shows "llps_session_tmr_region_guard_is_valid m (b ! i) = llps_session_tmr_region_guard_is_valid m (a ! i)"
    "region_shape (b ! i) = region_shape (a ! i)"
  using assms unfolding same_but_def by (metis put_record_frame)+

lemma same_but_shape: "same_but n a b \<Longrightarrow> regions_shape a \<Longrightarrow> regions_shape b"
  using same_but_facts(2) unfolding regions_shape_def by (metis same_but_def)

lemma same_but_repaired:
  "length regions = 3 \<Longrightarrow> same_but n regions (map (\<lambda>i. repaired_region n i (regions ! i)) [0..<3])"
  unfolding same_but_def repaired_region_def by simp (metis put_same_record)

lemma same_but_voted:
  assumes "regions_shape regions" "\<And>i. i < 3 \<Longrightarrow> guarded i (regions ! i)" "ss_session_id s = n"
  shows "same_but n regions (map (voted_region n regions s) [0..<3])"
proof -
  have "\<exists>rec. voted_region n regions s i = put_record n rec (regions ! i)" if "i < 3" for i
    using assms(2) [OF that] assms(3)
    by (auto simp: voted_region_def written_region_def repaired_region_def)
  then show ?thesis using assms(1) by (simp add: same_but_def regions_shape_def)
qed

lemma restore_same_but:
  assumes "same_but n regions regions'" "length regions = 3" "n < LLPS_MAX_CLIENTS"
    and "\<And>i. i < 3 \<Longrightarrow> saved ! i = slot_record n (regions ! i)"
  shows "llps_session_tmr_restore_records n saved (regions', sc) = (regions, sc)"
proof -
  obtain r0 r1 r2 where r: "regions = [r0, r1, r2]" using assms(2) by (auto simp: length_3_iff)
  obtain s0 s1 s2 where s: "regions' = [s0, s1, s2]"
    using assms(1,2) by (auto simp: same_but_def length_3_iff)
  have "\<exists>rec. regions' ! i = put_record n rec (regions ! i)" if "i < 3" for i
    using assms(1,2) that by (simp add: same_but_def)
  from this [of 0] this [of 1] this [of 2]
  obtain q0 q1 q2 where "regions' = [put_record n q0 r0, put_record n q1 r1, put_record n q2 r2]"
    by (auto simp: r s)
  then show ?thesis using assms(3) [unfolded not_le [symmetric]] assms(4) [of 0] assms(4) [of 1] assms(4) [of 2] r
    by (simp add: llps_session_tmr_restore_records_def set_record_eq upt_bank_count)
qed

text \<open>Regions a case of the self-test works on: intact guards, any records in the tested slot.\<close>

definition test_regions :: "llps_session_tmr_region_t list \<Rightarrow> bool" where
  "test_regions regions \<longleftrightarrow> regions_shape regions \<and> (\<forall>i < 3. guarded i (regions ! i))"

lemma test_regions_length: "test_regions regions \<Longrightarrow> length regions = 3"
  by (simp add: test_regions_def regions_shape_def)

lemma same_but_test_regions: "same_but n a b \<Longrightarrow> test_regions a \<Longrightarrow> test_regions b"
  using same_but_shape [of n a b] same_but_facts(1) [of n a b] test_regions_length [of a]
  unfolding test_regions_def by metis

lemma test_regions_set_record:
  assumes "test_regions regions" "i < 3" "n < LLPS_MAX_CLIENTS"
  shows "test_regions (set_record i (unat n) f regions)" "same_but n regions (set_record i (unat n) f regions)"
    "slot_record n (set_record i (unat n) f regions ! i) = f (slot_record n (regions ! i))"
    "j \<noteq> i \<Longrightarrow> set_record i (unat n) f regions ! j = regions ! j"
proof -
  have "same_but n regions regions" unfolding same_but_def by (metis put_same_record)
  from same_but_set_record [OF this] show s: "same_but n regions (set_record i (unat n) f regions)" .
  then show "test_regions (set_record i (unat n) f regions)" using assms(1) by (rule same_but_test_regions)
  have "region_shape (regions ! i)" "i < length regions"
    using assms(1,2) by (auto simp: test_regions_def regions_shape_def)
  then show "slot_record n (set_record i (unat n) f regions ! i) = f (slot_record n (regions ! i))"
    using assms(3) by (simp add: set_record_eq)
  show "j \<noteq> i \<Longrightarrow> set_record i (unat n) f regions ! j = regions ! j" by (simp add: set_record_eq)
qed

lemma bank_holds_unique: "bank_holds n i region s \<Longrightarrow> bank_holds n i region t \<Longrightarrow> s = t"
  by (auto simp: bank_holds_def split: prod.splits)

lemma bank_holds_fresh:
  assumes "guarded i region" "slot_record n region = fresh_record i s" "snapshot_ok n s"
  shows "bank_holds n i region t \<longleftrightarrow> t = s"
proof -
  have "bank_stores n i region s"
    using assms by (simp add: bank_stores_def fresh_record_def record_from_snapshot_valid record_to_from_snapshot)
  then show ?thesis using bank_stores_holds(1) bank_holds_unique by blast
qed

text \<open>A record whose canary is cleared is not accepted.\<close>

lemma bank_dead:
  assumes "slot_record n region = (fresh_record i s)\<lparr>tr_magic_start := 0\<rparr>" "i = 0 \<or> i = 1" "snapshot_ok n s"
  shows "\<not> bank_holds n i region t"
proof -
  let ?rec = "(fresh_record i s)\<lparr>tr_magic_start := 0\<rparr>"
  have "llps_session_tmr_record_secded_is_valid (fresh_record i s)"
    using record_from_snapshot_valid [OF assms(3)] valid_record_crc(1) unfolding fresh_record_def by blast
  then have "llps_session_tmr_record_secded_is_valid ?rec"
    by (simp add: llps_session_tmr_record_secded_is_valid_def)
  from repair_record_upset_any [OF this record_upset_refl, of blank_counters]
  obtain rec' sc' where "llps_session_tmr_record_repair_secded ?rec blank_counters = (True, rec', sc')"
    "tr_magic_start rec' = 0" by auto
  moreover have "llps_session_tmr_magic_for_bank (of_nat i) \<noteq> 0"
    using assms(2) by (auto simp: llps_session_tmr_magic_for_bank_def)
  ultimately show ?thesis
    by (simp add: bank_holds_def assms(1) llps_session_tmr_record_is_valid_def Let_def)
qed

lemma vote_none_test:
  assumes "n < client_count" "client_count \<le> LLPS_MAX_CLIENTS" "test_regions regions"
    and "\<And>t i j. i < j \<Longrightarrow> j < 3 \<Longrightarrow> bank_holds n i (regions ! i) t \<Longrightarrow> \<not> bank_holds n j (regions ! j) t"
  shows "\<exists>regions' sc'. llps_session_tmr_vote n client_count (regions, sc) = (None, regions', sc') \<and>
    same_but n regions regions'"
proof -
  have "\<nexists>s. \<exists>i < 3. \<exists>j < 3. i \<noteq> j \<and> bank_holds n i (regions ! i) s \<and> bank_holds n j (regions ! j) s"
    using assms(4) by (metis linorder_neqE_nat)
  from vote_none_holds [OF assms(1,2) test_regions_length [OF assms(3)] this, of sc]
  show ?thesis using same_but_repaired [OF test_regions_length [OF assms(3)]] by blast
qed

lemma self_test_single_repair:
  assumes n: "n < client_count" "client_count \<le> LLPS_MAX_CLIENTS" and s: "snapshot_ok n s"
    and regions: "test_regions regions" and held: "\<And>i. i < 3 \<Longrightarrow> bank_stores n i (regions ! i) s"
  shows "\<exists>regions' sc'. llps_session_tmr_self_test_single_repair n client_count s (unat n) (coverage, regions, sc) =
    (True, coverage OR LLPS_TMR_SELF_TEST_SESSION_SINGLE_REPAIR, regions', sc') \<and> same_but n regions regions'"
proof -
  have max: "n < LLPS_MAX_CLIENTS" using n by (rule less_le_trans)
  let ?regions = "set_record 0 (unat n) (tr_magic_start_update (\<lambda>m. m XOR UINT32_MAX)) regions"
  note set0 = test_regions_set_record [OF regions _ max, where i = 0 and f = "tr_magic_start_update (\<lambda>m. m XOR UINT32_MAX)"]
  have t: "test_regions ?regions" using set0(1) by simp
  have "bank_holds n i (?regions ! i) s" if "i < 3" "i \<noteq> 0" for i
    using held [OF that(1)] bank_stores_holds(1) set0(4) that(2) by simp
  from this [of 1] this [of 2] obtain regions' sc' where
    v: "llps_session_tmr_vote n client_count (?regions, sc) = (Some s, regions', sc')"
      "regions' = map (voted_region n ?regions s) [0..<3]" "\<forall>i < 3. bank_stores n i (regions' ! i) s"
    using vote_two_hold [OF n, of ?regions 1 2 s sc] t by (auto simp: test_regions_def)
  have "same_but n ?regions regions'"
    unfolding v(2) by (rule same_but_voted) (use t s in \<open>auto simp: test_regions_def snapshot_ok_def\<close>)
  then have "same_but n regions regions'" using set0(2) same_but_trans by simp
  then show ?thesis
    using v(3) [rule_format, of 0] by (simp add: llps_session_tmr_self_test_single_repair_def v(1) bank_stores_def)
qed

lemma differ_by_field: "f a \<noteq> f b \<Longrightarrow> a \<noteq> b"
  by auto

lemma self_test_no_majority:
  assumes n: "n < client_count" "client_count \<le> LLPS_MAX_CLIENTS" and s: "snapshot_ok n s"
    and regions: "test_regions regions"
  shows "\<exists>regions' sc'. llps_session_tmr_self_test_no_majority n client_count s (unat n) (coverage, regions, sc) =
    (True, coverage OR LLPS_TMR_SELF_TEST_SESSION_NO_MAJORITY_FAIL_CLOSED, regions', sc') \<and> same_but n regions regions'"
proof -
  have max: "n < LLPS_MAX_CLIENTS" using n by (rule less_le_trans)
  let ?s1 = "s\<lparr>ss_last_activity_ns := ss_last_activity_ns s XOR 0xA5A5A5A5A5A5A5A5\<rparr>"
  let ?s2 = "s\<lparr>ss_last_activity_ns := ss_last_activity_ns s XOR 0x5A5A5A5A5A5A5A5A\<rparr>"
  let ?r1 = "set_record 0 (unat n) (\<lambda>rec. llps_session_tmr_record_from_snapshot rec 0 s) regions"
  let ?r2 = "set_record 1 (unat n) (\<lambda>rec. llps_session_tmr_record_from_snapshot rec 1 ?s1) ?r1"
  let ?r3 = "set_record 2 (unat n) (\<lambda>rec. llps_session_tmr_record_from_snapshot rec 2 ?s2) ?r2"
  note a = test_regions_set_record [OF regions _ max, where i = 0 and f = "\<lambda>rec. llps_session_tmr_record_from_snapshot rec 0 s"]
  note b = test_regions_set_record [OF a(1) _ max, where i = 1 and f = "\<lambda>rec. llps_session_tmr_record_from_snapshot rec 1 ?s1"]
  note c = test_regions_set_record [OF b(1) _ max, where i = 2 and f = "\<lambda>rec. llps_session_tmr_record_from_snapshot rec 2 ?s2"]
  have t: "test_regions ?r3" by (rule c(1)) simp_all
  have same: "same_but n regions ?r3"
    by (rule same_but_trans [OF same_but_trans [OF a(2) b(2)] c(2)]) simp_all
  have rec: "slot_record n (?r3 ! 0) = fresh_record 0 s" "slot_record n (?r3 ! 1) = fresh_record 1 ?s1"
    "slot_record n (?r3 ! 2) = fresh_record 2 ?s2"
    using a(3) b(3,4) c(3,4) from_snapshot_fresh [of _ 0] from_snapshot_fresh [of _ 1] from_snapshot_fresh [of _ 2]
    by simp_all
  have ok: "snapshot_ok n ?s1" "snapshot_ok n ?s2" using s by (simp_all add: snapshot_ok_def)
  have g: "guarded i (?r3 ! i)" if "i < 3" for i using t that by (simp add: test_regions_def)
  have h: "bank_holds n 0 (?r3 ! 0) t \<longleftrightarrow> t = s" "bank_holds n 1 (?r3 ! 1) t \<longleftrightarrow> t = ?s1"
    "bank_holds n 2 (?r3 ! 2) t \<longleftrightarrow> t = ?s2" for t
    using bank_holds_fresh [OF g rec(1) s] bank_holds_fresh [OF g rec(2) ok(1)] bank_holds_fresh [OF g rec(3) ok(2)]
    by simp_all
  have xor_differs: "w XOR c \<noteq> w XOR d" if "c \<noteq> d" for w c d :: u64
    using that by (metis xor_cancel_left)
  have ne: "s \<noteq> ?s1" "s \<noteq> ?s2" "?s1 \<noteq> ?s2"
  proof -
    show "s \<noteq> ?s1" by (rule differ_by_field [of ss_last_activity_ns])
      (use xor_differs [of 0 "0xA5A5A5A5A5A5A5A5" "ss_last_activity_ns s"] in simp)
    show "s \<noteq> ?s2" by (rule differ_by_field [of ss_last_activity_ns])
      (use xor_differs [of 0 "0x5A5A5A5A5A5A5A5A" "ss_last_activity_ns s"] in simp)
    show "?s1 \<noteq> ?s2" by (rule differ_by_field [of ss_last_activity_ns])
      (use xor_differs [of "0xA5A5A5A5A5A5A5A5" "0x5A5A5A5A5A5A5A5A" "ss_last_activity_ns s"] in simp)
  qed
  have "\<exists>regions' sc'. llps_session_tmr_vote n client_count (?r3, sc) = (None, regions', sc') \<and> same_but n ?r3 regions'"
  proof (rule vote_none_test [OF n t])
    fix t and i j :: nat
    assume "i < j" "j < 3" "bank_holds n i (?r3 ! i) t"
    moreover from this have "(i = 0 \<and> j = 1) \<or> (i = 0 \<and> j = 2) \<or> (i = 1 \<and> j = 2)" by auto
    ultimately show "\<not> bank_holds n j (?r3 ! j) t" using h ne by (elim disjE) simp_all
  qed
  then show ?thesis
    using same_but_trans [OF same] by (auto simp: llps_session_tmr_self_test_no_majority_def Let_def)
qed

lemma self_test_dual_fail:
  assumes n: "n < client_count" "client_count \<le> LLPS_MAX_CLIENTS" and s: "snapshot_ok n s"
    and regions: "test_regions regions"
  shows "\<exists>regions' sc'. llps_session_tmr_self_test_dual_fail n client_count s (unat n) (coverage, regions, sc) =
    (True, coverage OR LLPS_TMR_SELF_TEST_SESSION_DUAL_FAIL_CLOSED, regions', sc') \<and> same_but n regions regions'"
proof -
  have max: "n < LLPS_MAX_CLIENTS" using n by (rule less_le_trans)
  have id: "ss_session_id s = n" using s by (simp add: snapshot_ok_def)
  obtain written sc1 where w: "llps_session_tmr_write_all s (regions, sc) = (written, sc1)" by fastforce
  have written: "written = map (\<lambda>i. put_record n (fresh_record i s) (regions ! i)) [0..<3]"
    using write_all_regions [of s regions sc] w max regions
    by (simp add: id test_regions_def regions_shape_def written_region_def)
  have same0: "same_but n regions written" using test_regions_length [OF regions] by (auto simp: same_but_def written)
  have t0: "test_regions written" using same_but_test_regions [OF same0 regions] .
  have rec0: "slot_record n (written ! i) = fresh_record i s" if "i < 3" for i
    using that max regions by (simp add: written test_regions_def regions_shape_def)
  let ?r1 = "set_record 0 (unat n) (tr_magic_start_update (\<lambda>_. 0)) written"
  let ?r2 = "set_record 1 (unat n) (tr_magic_start_update (\<lambda>_. 0)) ?r1"
  note a = test_regions_set_record [OF t0 _ max, where i = 0 and f = "tr_magic_start_update (\<lambda>_. 0)"]
  note b = test_regions_set_record [OF a(1) _ max, where i = 1 and f = "tr_magic_start_update (\<lambda>_. 0)"]
  have t: "test_regions ?r2" by (rule b(1)) simp_all
  have same: "same_but n regions ?r2"
    by (rule same_but_trans [OF same_but_trans [OF same0 a(2)] b(2)]) simp_all
  have dead: "\<not> bank_holds n 0 (?r2 ! 0) u" "\<not> bank_holds n 1 (?r2 ! 1) u" for u
    using bank_dead [OF _ _ s, of "?r2 ! 0" 0] bank_dead [OF _ _ s, of "?r2 ! 1" 1] a(3,4) b(3,4) rec0 by simp_all
  have "\<exists>regions' sc'. llps_session_tmr_vote n client_count (?r2, sc1) = (None, regions', sc') \<and> same_but n ?r2 regions'"
  proof (rule vote_none_test [OF n t])
    fix u and i j :: nat
    assume "i < j" "j < 3" "bank_holds n i (?r2 ! i) u"
    moreover from this have "i = 0 \<or> i = 1" by auto
    ultimately show "\<not> bank_holds n j (?r2 ! j) u" using dead by (elim disjE) simp_all
  qed
  then show ?thesis
    using same_but_trans [OF same] by (auto simp: llps_session_tmr_self_test_dual_fail_def w Let_def)
qed

text \<open>
  The startup self-test of the session banks works. When the three banks hold the same sound
  record of session 0, the test passes for every client limit the configuration allows, sets all
  three coverage bits and leaves the regions exactly as they were.
\<close>

theorem session_self_test_passes:
  assumes "regions_shape regions" "0 < client_count" "client_count \<le> LLPS_MAX_CLIENTS"
    and "\<And>i. i < 3 \<Longrightarrow> bank_stores 0 i (regions ! i) s"
  shows "\<exists>sc'. llps_session_tmr_startup_self_test client_count (coverage, regions, sc) =
    (True, coverage OR LLPS_TMR_SELF_TEST_SESSION_SINGLE_REPAIR
       OR LLPS_TMR_SELF_TEST_SESSION_NO_MAJORITY_FAIL_CLOSED OR LLPS_TMR_SELF_TEST_SESSION_DUAL_FAIL_CLOSED,
     regions, sc')"
proof -
  note n = assms(2,3)
  have t0: "test_regions regions" using assms(1,4) by (auto simp: test_regions_def bank_stores_def)
  note holds = bank_stores_holds(1) [OF assms(4)]
  have s: "snapshot_ok 0 s" using bank_holds_ok [OF holds [of 0]] by simp
  obtain r1 sc1 where v: "llps_session_tmr_vote 0 client_count (regions, sc) = (Some s, r1, sc1)"
    "r1 = map (voted_region 0 regions s) [0..<3]" "\<And>i. i < 3 \<Longrightarrow> bank_stores 0 i (r1 ! i) s"
    using vote_two_hold [OF n assms(1), of 0 1 s sc] holds [of 0] holds [of 1] by auto
  have same1: "same_but 0 regions r1"
    unfolding v(2) by (rule same_but_voted) (use t0 s in \<open>auto simp: test_regions_def snapshot_ok_def\<close>)
  have t1: "test_regions r1" using same1 t0 by (rule same_but_test_regions)
  obtain r2 sc2 where a: "llps_session_tmr_self_test_single_repair 0 client_count s 0 (coverage, r1, sc1) =
      (True, coverage OR LLPS_TMR_SELF_TEST_SESSION_SINGLE_REPAIR, r2, sc2)" "same_but 0 r1 r2"
    using self_test_single_repair [OF n s t1 v(3), of coverage sc1] by auto
  have t2: "test_regions r2" using a(2) t1 by (rule same_but_test_regions)
  let ?c1 = "coverage OR LLPS_TMR_SELF_TEST_SESSION_SINGLE_REPAIR"
  obtain r3 sc3 where b: "llps_session_tmr_self_test_no_majority 0 client_count s 0 (?c1, r2, sc2) =
      (True, ?c1 OR LLPS_TMR_SELF_TEST_SESSION_NO_MAJORITY_FAIL_CLOSED, r3, sc3)" "same_but 0 r2 r3"
    using self_test_no_majority [OF n s t2, of ?c1 sc2] by auto
  have t3: "test_regions r3" using b(2) t2 by (rule same_but_test_regions)
  let ?c2 = "?c1 OR LLPS_TMR_SELF_TEST_SESSION_NO_MAJORITY_FAIL_CLOSED"
  obtain r4 sc4 where c: "llps_session_tmr_self_test_dual_fail 0 client_count s 0 (?c2, r3, sc3) =
      (True, ?c2 OR LLPS_TMR_SELF_TEST_SESSION_DUAL_FAIL_CLOSED, r4, sc4)" "same_but 0 r3 r4"
    using self_test_dual_fail [OF n s t3, of ?c2 sc3] by auto
  have "same_but 0 regions r4"
    using same_but_trans [OF same_but_trans [OF same_but_trans [OF same1 a(2)] b(2)] c(2)] .
  then have "llps_session_tmr_restore_records 0 (map (\<lambda>i. slot_record 0 (regions ! i)) [0..<3]) (r4, sc4) = (regions, sc4)"
    by (rule restore_same_but) (use test_regions_length [OF t0] in auto)
  then show ?thesis
    using n a(1) b(1) c(1)
    by (simp add: llps_session_tmr_startup_self_test_def llps_session_tmr_save_records_def v(1)
        llps_session_tmr_self_test_run_cases_def llps_session_tmr_self_test_record_refs_def
        llps_session_tmr_record_raw_ref_def or.assoc)
qed

theorem session_self_test_passes_witness:
  "\<exists>written sc1 sc'. llps_session_tmr_write_all zero_session_snapshot
       ([sample_region, sample_region, sample_region], blank_counters) = (written, sc1) \<and>
     llps_session_tmr_startup_self_test 10 (0, written, sc1) = (True, 7, written, sc')"
proof -
  let ?regions = "[sample_region, sample_region, sample_region]"
  obtain written sc1 where w: "llps_session_tmr_write_all zero_session_snapshot (?regions, blank_counters) = (written, sc1)"
    by fastforce
  have written: "written = map (\<lambda>i. written_region i zero_session_snapshot (?regions ! i)) [0..<3]"
    using write_all_regions [of zero_session_snapshot ?regions blank_counters] w
    by (simp add: zero_session_snapshot_def)
  have ok: "snapshot_ok 0 zero_session_snapshot"
    by (simp add: snapshot_ok_def zero_session_snapshot_def llps_state_is_valid_def llps_close_reason_is_valid_def)
  have facts: "bank_stores 0 i (written ! i) zero_session_snapshot" "region_shape (written ! i)" if "i < 3" for i
  proof -
    have "region_shape (?regions ! i)" using sample_shape that unfolding regions_shape_def by blast
    then show "bank_stores 0 i (written ! i) zero_session_snapshot" "region_shape (written ! i)"
      using written_region_stores [OF _ ok] that by (simp_all add: written)
  qed
  have "regions_shape written" using facts(2) by (simp add: regions_shape_def written)
  then show ?thesis using session_self_test_passes [OF _ _ _ facts(1), of 10 0 sc1] w by fastforce
qed

end
