(* ===== verification/Runtime_Cfg_Tmr.thy ===== *)
theory Runtime_Cfg_Tmr
  imports Config Safety_Counters
begin

text \<open>
  The runtime configuration kept in three guarded banks:
  \<^verbatim>\<open>src/session/llps_runtime_cfg_tmr.c\<close>. Every field is stored with its bitwise inverse; a bank
  is accepted only when all inverses, the canaries, the checksum and the configuration rules hold.
\<close>

section \<open>Definitions\<close>

text \<open>The inverse fields of the bank structure, in the order of the header.\<close>

record runtime_cfg_inverse =
  max_clients_inverse :: "u32"
  buffer_size_inverse :: "u32"
  payload_ecc_enabled_inverse :: "u32"
  listen_port_inverse :: "u32"
  target_port_inverse :: "u32"
  listen_backlog_inverse :: "u32"
  accept_batch_max_inverse :: "u32"
  session_idle_timeout_ms_inverse :: "u32"
  max_sessions_per_client_ip_inverse :: "u32"
  max_new_sessions_per_client_ip_per_window_inverse :: "u32"
  client_ip_rate_window_ms_inverse :: "u32"
  client_preface_timeout_ms_inverse :: "u32"
  protocol_handshake_gate_enabled_inverse :: "u32"
  ip_audit_enabled_inverse :: "u32"
  audit_mac_enabled_inverse :: "u32"
  require_readiness_inverse :: "u32"
  platform_safety_flags_inverse :: "u32"
  platform_safety_evidence_id_inverse :: "u64"
  platform_attestation_fingerprint_inverse :: "u32"
  platform_observation_digest_inverse :: "u32"
  platform_evidence_mode_inverse :: "u32"
  platform_physical_memory_domains_inverse :: "u32 list"
  platform_hardware_tmr_domains_inverse :: "u32 list"
  platform_hardware_tmr_voter_domain_inverse :: "u32"
  software_ecc_enabled_inverse :: "u32"
  software_ecc_controller_count_inverse :: "u32"
  software_ecc_dimm_count_inverse :: "u32"
  software_ecc_scrub_rate_inverse :: "u64"
  software_ecc_controller_corrected_error_count_inverse :: "u64"
  software_ecc_controller_uncorrected_error_count_inverse :: "u64"
  software_ecc_dimm_corrected_error_count_inverse :: "u64"
  software_ecc_dimm_uncorrected_error_count_inverse :: "u64"
  software_numa_enabled_inverse :: "u32"
  software_numa_memtotal_kib_inverse :: "u64"
  software_numa_local_distance_inverse :: "u64"
  software_numa_remote_distance_inverse :: "u64"
  software_fault_injection_mode_inverse :: "u32"
  evidence_mac_enabled_inverse :: "u32"
  listen_host_inverse :: "u8 list"
  target_ip_inverse :: "u8 list"
  ip_audit_path_inverse :: "u8 list"
  audit_mac_key_path_inverse :: "u8 list"
  evidence_mac_key_path_inverse :: "u8 list"

record llps_runtime_cfg_bank_t =
  rc_magic_start :: u32
  rc_bank_id :: u32
  rc_cfg :: llps_yml_config_t
  rc_inverse :: runtime_cfg_inverse
  rc_crc :: u32
  rc_crc_inverse :: u32
  rc_magic_end :: u32

definition llps_runtime_cfg_bank_magic_for_bank :: "u32 \<Rightarrow> u32" where
  "llps_runtime_cfg_bank_magic_for_bank n = 0xC0A7F16D XOR (0x11001100 * (n + 1))"

definition llps_runtime_cfg_crc_text :: "u32 \<Rightarrow> u8 list \<Rightarrow> u32" where
  "llps_runtime_cfg_crc_text crc text = foldl llps_crc32_update_byte crc text"

definition llps_runtime_cfg_bank_crc_header :: "u32 \<Rightarrow> llps_runtime_cfg_bank_t \<Rightarrow> u32" where
  "llps_runtime_cfg_bank_crc_header crc bank =
     llps_crc32_update_u32 (llps_crc32_update_u32 crc (rc_magic_start bank)) (rc_bank_id bank)"

definition llps_runtime_cfg_bank_crc_network :: "u32 \<Rightarrow> llps_runtime_cfg_bank_t \<Rightarrow> u32" where
  "llps_runtime_cfg_bank_crc_network crc bank =
     (let cfg = rc_cfg bank;
          crc = llps_crc32_update_u32 crc (max_clients cfg);
          crc = llps_crc32_update_u32 crc (buffer_size cfg);
          crc = llps_crc32_update_u32 crc (payload_ecc_enabled cfg);
          crc = llps_runtime_cfg_crc_text crc (listen_host cfg);
          crc = llps_crc32_update_u32 crc (ucast (listen_port cfg));
          crc = llps_runtime_cfg_crc_text crc (target_ip cfg);
          crc = llps_crc32_update_u32 crc (ucast (target_port cfg));
          crc = llps_crc32_update_u32 crc (listen_backlog cfg);
          crc = llps_crc32_update_u32 crc (accept_batch_max cfg);
          crc = llps_crc32_update_u32 crc (session_idle_timeout_ms cfg);
          crc = llps_crc32_update_u32 crc (max_sessions_per_client_ip cfg);
          crc = llps_crc32_update_u32 crc (max_new_sessions_per_client_ip_per_window cfg);
          crc = llps_crc32_update_u32 crc (client_ip_rate_window_ms cfg);
          crc = llps_crc32_update_u32 crc (client_preface_timeout_ms cfg);
          crc = llps_crc32_update_u32 crc (protocol_handshake_gate_enabled cfg);
          crc = llps_crc32_update_u32 crc (ip_audit_enabled cfg);
          crc = llps_runtime_cfg_crc_text crc (ip_audit_path cfg);
          crc = llps_crc32_update_u32 crc (audit_mac_enabled cfg);
          crc = llps_runtime_cfg_crc_text crc (audit_mac_key_path cfg)
      in crc)"

definition llps_runtime_cfg_bank_crc_platform :: "u32 \<Rightarrow> llps_runtime_cfg_bank_t \<Rightarrow> u32" where
  "llps_runtime_cfg_bank_crc_platform crc bank =
     (let cfg = rc_cfg bank;
          crc = llps_crc32_update_u32 crc (require_readiness cfg);
          crc = llps_crc32_update_u32 crc (platform_safety_flags cfg);
          crc = llps_crc32_update_u64 crc (platform_safety_evidence_id cfg);
          crc = llps_crc32_update_u32 crc (platform_attestation_fingerprint cfg);
          crc = llps_crc32_update_u32 crc (platform_observation_digest cfg);
          crc = llps_crc32_update_u32 crc (platform_evidence_mode cfg);
          crc = foldl llps_crc32_update_u32 crc (platform_physical_memory_domains cfg);
          crc = foldl llps_crc32_update_u32 crc (platform_hardware_tmr_domains cfg);
          crc = llps_crc32_update_u32 crc (platform_hardware_tmr_voter_domain cfg)
      in crc)"

definition llps_runtime_cfg_bank_crc_software :: "u32 \<Rightarrow> llps_runtime_cfg_bank_t \<Rightarrow> u32" where
  "llps_runtime_cfg_bank_crc_software crc bank =
     (let cfg = rc_cfg bank;
          crc = llps_crc32_update_u32 crc (software_ecc_enabled cfg);
          crc = llps_crc32_update_u32 crc (software_ecc_controller_count cfg);
          crc = llps_crc32_update_u32 crc (software_ecc_dimm_count cfg);
          crc = llps_crc32_update_u64 crc (software_ecc_scrub_rate cfg);
          crc = llps_crc32_update_u64 crc (software_ecc_controller_corrected_error_count cfg);
          crc = llps_crc32_update_u64 crc (software_ecc_controller_uncorrected_error_count cfg);
          crc = llps_crc32_update_u64 crc (software_ecc_dimm_corrected_error_count cfg);
          crc = llps_crc32_update_u64 crc (software_ecc_dimm_uncorrected_error_count cfg);
          crc = llps_crc32_update_u32 crc (software_numa_enabled cfg);
          crc = llps_crc32_update_u64 crc (software_numa_memtotal_kib cfg);
          crc = llps_crc32_update_u64 crc (software_numa_local_distance cfg);
          crc = llps_crc32_update_u64 crc (software_numa_remote_distance cfg);
          crc = llps_crc32_update_u32 crc (software_fault_injection_mode cfg);
          crc = llps_crc32_update_u32 crc (evidence_mac_enabled cfg);
          crc = llps_runtime_cfg_crc_text crc (evidence_mac_key_path cfg)
      in crc)"

definition llps_runtime_cfg_bank_crc_runtime_inverse :: "u32 \<Rightarrow> llps_runtime_cfg_bank_t \<Rightarrow> u32" where
  "llps_runtime_cfg_bank_crc_runtime_inverse crc bank =
     (let inv = rc_inverse bank;
          crc = llps_crc32_update_u32 crc (max_clients_inverse inv);
          crc = llps_crc32_update_u32 crc (buffer_size_inverse inv);
          crc = llps_crc32_update_u32 crc (payload_ecc_enabled_inverse inv);
          crc = llps_crc32_update_u32 crc (listen_port_inverse inv);
          crc = llps_crc32_update_u32 crc (target_port_inverse inv);
          crc = llps_crc32_update_u32 crc (listen_backlog_inverse inv);
          crc = llps_crc32_update_u32 crc (accept_batch_max_inverse inv);
          crc = llps_crc32_update_u32 crc (session_idle_timeout_ms_inverse inv);
          crc = llps_crc32_update_u32 crc (max_sessions_per_client_ip_inverse inv);
          crc = llps_crc32_update_u32 crc (max_new_sessions_per_client_ip_per_window_inverse inv);
          crc = llps_crc32_update_u32 crc (client_ip_rate_window_ms_inverse inv);
          crc = llps_crc32_update_u32 crc (client_preface_timeout_ms_inverse inv);
          crc = llps_crc32_update_u32 crc (protocol_handshake_gate_enabled_inverse inv);
          crc = llps_crc32_update_u32 crc (ip_audit_enabled_inverse inv);
          crc = llps_crc32_update_u32 crc (audit_mac_enabled_inverse inv)
      in crc)"

definition llps_runtime_cfg_bank_crc_platform_inverse :: "u32 \<Rightarrow> llps_runtime_cfg_bank_t \<Rightarrow> u32" where
  "llps_runtime_cfg_bank_crc_platform_inverse crc bank =
     (let inv = rc_inverse bank;
          crc = llps_crc32_update_u32 crc (require_readiness_inverse inv);
          crc = llps_crc32_update_u32 crc (platform_safety_flags_inverse inv);
          crc = llps_crc32_update_u64 crc (platform_safety_evidence_id_inverse inv);
          crc = llps_crc32_update_u32 crc (platform_attestation_fingerprint_inverse inv);
          crc = llps_crc32_update_u32 crc (platform_observation_digest_inverse inv);
          crc = llps_crc32_update_u32 crc (platform_evidence_mode_inverse inv);
          crc = foldl llps_crc32_update_u32 crc (platform_physical_memory_domains_inverse inv);
          crc = foldl llps_crc32_update_u32 crc (platform_hardware_tmr_domains_inverse inv);
          crc = llps_crc32_update_u32 crc (platform_hardware_tmr_voter_domain_inverse inv)
      in crc)"

definition llps_runtime_cfg_bank_crc_software_inverse :: "u32 \<Rightarrow> llps_runtime_cfg_bank_t \<Rightarrow> u32" where
  "llps_runtime_cfg_bank_crc_software_inverse crc bank =
     (let inv = rc_inverse bank;
          crc = llps_crc32_update_u32 crc (software_ecc_enabled_inverse inv);
          crc = llps_crc32_update_u32 crc (software_ecc_controller_count_inverse inv);
          crc = llps_crc32_update_u32 crc (software_ecc_dimm_count_inverse inv);
          crc = llps_crc32_update_u64 crc (software_ecc_scrub_rate_inverse inv);
          crc = llps_crc32_update_u64 crc (software_ecc_controller_corrected_error_count_inverse inv);
          crc = llps_crc32_update_u64 crc (software_ecc_controller_uncorrected_error_count_inverse inv);
          crc = llps_crc32_update_u64 crc (software_ecc_dimm_corrected_error_count_inverse inv);
          crc = llps_crc32_update_u64 crc (software_ecc_dimm_uncorrected_error_count_inverse inv);
          crc = llps_crc32_update_u32 crc (software_numa_enabled_inverse inv);
          crc = llps_crc32_update_u64 crc (software_numa_memtotal_kib_inverse inv);
          crc = llps_crc32_update_u64 crc (software_numa_local_distance_inverse inv);
          crc = llps_crc32_update_u64 crc (software_numa_remote_distance_inverse inv);
          crc = llps_crc32_update_u32 crc (software_fault_injection_mode_inverse inv);
          crc = llps_crc32_update_u32 crc (evidence_mac_enabled_inverse inv)
      in crc)"

definition llps_runtime_cfg_bank_crc_text_inverse :: "u32 \<Rightarrow> llps_runtime_cfg_bank_t \<Rightarrow> u32" where
  "llps_runtime_cfg_bank_crc_text_inverse crc bank =
     (let inv = rc_inverse bank;
          crc = llps_runtime_cfg_crc_text crc (listen_host_inverse inv);
          crc = llps_runtime_cfg_crc_text crc (target_ip_inverse inv);
          crc = llps_runtime_cfg_crc_text crc (ip_audit_path_inverse inv);
          crc = llps_runtime_cfg_crc_text crc (audit_mac_key_path_inverse inv);
          crc = llps_runtime_cfg_crc_text crc (evidence_mac_key_path_inverse inv)
      in crc)"

definition llps_runtime_cfg_bank_compute_crc :: "llps_runtime_cfg_bank_t \<Rightarrow> u32" where
  "llps_runtime_cfg_bank_compute_crc bank =
     (let crc = LLPS_SESSION_CRC_INIT;
          crc = llps_runtime_cfg_bank_crc_header crc bank;
          crc = llps_runtime_cfg_bank_crc_network crc bank;
          crc = llps_runtime_cfg_bank_crc_platform crc bank;
          crc = llps_runtime_cfg_bank_crc_software crc bank;
          crc = llps_runtime_cfg_bank_crc_runtime_inverse crc bank;
          crc = llps_runtime_cfg_bank_crc_platform_inverse crc bank;
          crc = llps_runtime_cfg_bank_crc_software_inverse crc bank;
          crc = llps_runtime_cfg_bank_crc_text_inverse crc bank;
          crc = llps_crc32_update_u32 crc (rc_magic_end bank)
      in crc XOR LLPS_SESSION_CRC_XOROUT)"

definition llps_runtime_cfg_runtime_equal :: "llps_yml_config_t \<Rightarrow> llps_yml_config_t \<Rightarrow> bool" where
  "llps_runtime_cfg_runtime_equal lhs rhs \<longleftrightarrow>
     max_clients lhs = max_clients rhs \<and>
     buffer_size lhs = buffer_size rhs \<and>
     payload_ecc_enabled lhs = payload_ecc_enabled rhs \<and>
     listen_port lhs = listen_port rhs \<and>
     target_port lhs = target_port rhs \<and>
     listen_backlog lhs = listen_backlog rhs \<and>
     accept_batch_max lhs = accept_batch_max rhs \<and>
     session_idle_timeout_ms lhs = session_idle_timeout_ms rhs \<and>
     max_sessions_per_client_ip lhs = max_sessions_per_client_ip rhs \<and>
     max_new_sessions_per_client_ip_per_window lhs = max_new_sessions_per_client_ip_per_window rhs \<and>
     client_ip_rate_window_ms lhs = client_ip_rate_window_ms rhs \<and>
     client_preface_timeout_ms lhs = client_preface_timeout_ms rhs \<and>
     protocol_handshake_gate_enabled lhs = protocol_handshake_gate_enabled rhs \<and>
     ip_audit_enabled lhs = ip_audit_enabled rhs \<and>
     audit_mac_enabled lhs = audit_mac_enabled rhs"

definition llps_runtime_cfg_platform_equal :: "llps_yml_config_t \<Rightarrow> llps_yml_config_t \<Rightarrow> bool" where
  "llps_runtime_cfg_platform_equal lhs rhs \<longleftrightarrow>
     require_readiness lhs = require_readiness rhs \<and>
     platform_safety_flags lhs = platform_safety_flags rhs \<and>
     platform_safety_evidence_id lhs = platform_safety_evidence_id rhs \<and>
     platform_attestation_fingerprint lhs = platform_attestation_fingerprint rhs \<and>
     platform_observation_digest lhs = platform_observation_digest rhs \<and>
     platform_evidence_mode lhs = platform_evidence_mode rhs \<and>
     platform_hardware_tmr_voter_domain lhs = platform_hardware_tmr_voter_domain rhs"

definition llps_runtime_cfg_software_equal :: "llps_yml_config_t \<Rightarrow> llps_yml_config_t \<Rightarrow> bool" where
  "llps_runtime_cfg_software_equal lhs rhs \<longleftrightarrow>
     software_ecc_enabled lhs = software_ecc_enabled rhs \<and>
     software_ecc_controller_count lhs = software_ecc_controller_count rhs \<and>
     software_ecc_dimm_count lhs = software_ecc_dimm_count rhs \<and>
     software_ecc_scrub_rate lhs = software_ecc_scrub_rate rhs \<and>
     software_ecc_controller_corrected_error_count lhs = software_ecc_controller_corrected_error_count rhs \<and>
     software_ecc_controller_uncorrected_error_count lhs = software_ecc_controller_uncorrected_error_count rhs \<and>
     software_ecc_dimm_corrected_error_count lhs = software_ecc_dimm_corrected_error_count rhs \<and>
     software_ecc_dimm_uncorrected_error_count lhs = software_ecc_dimm_uncorrected_error_count rhs \<and>
     software_numa_enabled lhs = software_numa_enabled rhs \<and>
     software_numa_memtotal_kib lhs = software_numa_memtotal_kib rhs \<and>
     software_numa_local_distance lhs = software_numa_local_distance rhs \<and>
     software_numa_remote_distance lhs = software_numa_remote_distance rhs \<and>
     software_fault_injection_mode lhs = software_fault_injection_mode rhs \<and>
     evidence_mac_enabled lhs = evidence_mac_enabled rhs"

text \<open>\<^verbatim>\<open>memcmp\<close> over two arrays of the same size compares them element by element.\<close>

definition llps_runtime_cfg_arrays_equal :: "llps_yml_config_t \<Rightarrow> llps_yml_config_t \<Rightarrow> bool" where
  "llps_runtime_cfg_arrays_equal lhs rhs \<longleftrightarrow>
     list_all2 (=) (platform_physical_memory_domains lhs) (platform_physical_memory_domains rhs) \<and>
     list_all2 (=) (platform_hardware_tmr_domains lhs) (platform_hardware_tmr_domains rhs) \<and>
     list_all2 (=) (listen_host lhs) (listen_host rhs) \<and>
     list_all2 (=) (target_ip lhs) (target_ip rhs) \<and>
     list_all2 (=) (ip_audit_path lhs) (ip_audit_path rhs) \<and>
     list_all2 (=) (audit_mac_key_path lhs) (audit_mac_key_path rhs) \<and>
     list_all2 (=) (evidence_mac_key_path lhs) (evidence_mac_key_path rhs)"

definition llps_runtime_cfg_equal :: "llps_yml_config_t \<Rightarrow> llps_yml_config_t \<Rightarrow> bool" where
  "llps_runtime_cfg_equal lhs rhs \<longleftrightarrow>
     llps_runtime_cfg_runtime_equal lhs rhs \<and> llps_runtime_cfg_platform_equal lhs rhs \<and>
     llps_runtime_cfg_software_equal lhs rhs \<and> llps_runtime_cfg_arrays_equal lhs rhs"

definition llps_runtime_cfg_bank_runtime_inverse_is_invalid :: "llps_runtime_cfg_bank_t \<Rightarrow> bool" where
  "llps_runtime_cfg_bank_runtime_inverse_is_invalid bank =
     (let cfg = rc_cfg bank; inv = rc_inverse bank
      in max_clients_inverse inv \<noteq> NOT (max_clients cfg) \<or>
         buffer_size_inverse inv \<noteq> NOT (buffer_size cfg) \<or>
         payload_ecc_enabled_inverse inv \<noteq> NOT (payload_ecc_enabled cfg) \<or>
         listen_port_inverse inv \<noteq> NOT (ucast (listen_port cfg)) \<or>
         target_port_inverse inv \<noteq> NOT (ucast (target_port cfg)) \<or>
         listen_backlog_inverse inv \<noteq> NOT (listen_backlog cfg) \<or>
         accept_batch_max_inverse inv \<noteq> NOT (accept_batch_max cfg) \<or>
         session_idle_timeout_ms_inverse inv \<noteq> NOT (session_idle_timeout_ms cfg) \<or>
         max_sessions_per_client_ip_inverse inv \<noteq> NOT (max_sessions_per_client_ip cfg) \<or>
         max_new_sessions_per_client_ip_per_window_inverse inv \<noteq> NOT (max_new_sessions_per_client_ip_per_window cfg) \<or>
         client_ip_rate_window_ms_inverse inv \<noteq> NOT (client_ip_rate_window_ms cfg) \<or>
         client_preface_timeout_ms_inverse inv \<noteq> NOT (client_preface_timeout_ms cfg) \<or>
         protocol_handshake_gate_enabled_inverse inv \<noteq> NOT (protocol_handshake_gate_enabled cfg) \<or>
         ip_audit_enabled_inverse inv \<noteq> NOT (ip_audit_enabled cfg) \<or>
         audit_mac_enabled_inverse inv \<noteq> NOT (audit_mac_enabled cfg))"

definition llps_runtime_cfg_bank_platform_inverse_is_invalid :: "llps_runtime_cfg_bank_t \<Rightarrow> bool" where
  "llps_runtime_cfg_bank_platform_inverse_is_invalid bank =
     (let cfg = rc_cfg bank; inv = rc_inverse bank
      in require_readiness_inverse inv \<noteq> NOT (require_readiness cfg) \<or>
         platform_safety_flags_inverse inv \<noteq> NOT (platform_safety_flags cfg) \<or>
         platform_safety_evidence_id_inverse inv \<noteq> NOT (platform_safety_evidence_id cfg) \<or>
         platform_attestation_fingerprint_inverse inv \<noteq> NOT (platform_attestation_fingerprint cfg) \<or>
         platform_observation_digest_inverse inv \<noteq> NOT (platform_observation_digest cfg) \<or>
         platform_evidence_mode_inverse inv \<noteq> NOT (platform_evidence_mode cfg) \<or>
         platform_hardware_tmr_voter_domain_inverse inv \<noteq> NOT (platform_hardware_tmr_voter_domain cfg))"

definition llps_runtime_cfg_bank_software_inverse_is_invalid :: "llps_runtime_cfg_bank_t \<Rightarrow> bool" where
  "llps_runtime_cfg_bank_software_inverse_is_invalid bank =
     (let cfg = rc_cfg bank; inv = rc_inverse bank
      in software_ecc_enabled_inverse inv \<noteq> NOT (software_ecc_enabled cfg) \<or>
         software_ecc_controller_count_inverse inv \<noteq> NOT (software_ecc_controller_count cfg) \<or>
         software_ecc_dimm_count_inverse inv \<noteq> NOT (software_ecc_dimm_count cfg) \<or>
         software_ecc_scrub_rate_inverse inv \<noteq> NOT (software_ecc_scrub_rate cfg) \<or>
         software_ecc_controller_corrected_error_count_inverse inv \<noteq> NOT (software_ecc_controller_corrected_error_count cfg) \<or>
         software_ecc_controller_uncorrected_error_count_inverse inv \<noteq> NOT (software_ecc_controller_uncorrected_error_count cfg) \<or>
         software_ecc_dimm_corrected_error_count_inverse inv \<noteq> NOT (software_ecc_dimm_corrected_error_count cfg) \<or>
         software_ecc_dimm_uncorrected_error_count_inverse inv \<noteq> NOT (software_ecc_dimm_uncorrected_error_count cfg) \<or>
         software_numa_enabled_inverse inv \<noteq> NOT (software_numa_enabled cfg) \<or>
         software_numa_memtotal_kib_inverse inv \<noteq> NOT (software_numa_memtotal_kib cfg) \<or>
         software_numa_local_distance_inverse inv \<noteq> NOT (software_numa_local_distance cfg) \<or>
         software_numa_remote_distance_inverse inv \<noteq> NOT (software_numa_remote_distance cfg) \<or>
         software_fault_injection_mode_inverse inv \<noteq> NOT (software_fault_injection_mode cfg) \<or>
         evidence_mac_enabled_inverse inv \<noteq> NOT (evidence_mac_enabled cfg))"

definition llps_runtime_cfg_text_inverse_is_valid :: "u8 list \<Rightarrow> u8 list \<Rightarrow> bool" where
  "llps_runtime_cfg_text_inverse_is_valid inverse_text text \<longleftrightarrow>
     list_all2 (\<lambda>i c. i = NOT c) inverse_text text"

definition llps_runtime_cfg_bank_text_inverses_are_valid :: "llps_runtime_cfg_bank_t \<Rightarrow> bool" where
  "llps_runtime_cfg_bank_text_inverses_are_valid bank =
     (let cfg = rc_cfg bank; inv = rc_inverse bank
      in llps_runtime_cfg_text_inverse_is_valid (listen_host_inverse inv) (listen_host cfg) \<and>
         llps_runtime_cfg_text_inverse_is_valid (target_ip_inverse inv) (target_ip cfg) \<and>
         llps_runtime_cfg_text_inverse_is_valid (ip_audit_path_inverse inv) (ip_audit_path cfg) \<and>
         llps_runtime_cfg_text_inverse_is_valid (audit_mac_key_path_inverse inv) (audit_mac_key_path cfg) \<and>
         llps_runtime_cfg_text_inverse_is_valid (evidence_mac_key_path_inverse inv) (evidence_mac_key_path cfg))"

definition llps_runtime_cfg_bank_domain_inverses_are_valid :: "llps_runtime_cfg_bank_t \<Rightarrow> bool" where
  "llps_runtime_cfg_bank_domain_inverses_are_valid bank =
     (let cfg = rc_cfg bank; inv = rc_inverse bank
      in list_all2 (\<lambda>i d. i = NOT d) (platform_physical_memory_domains_inverse inv)
           (platform_physical_memory_domains cfg) \<and>
         list_all2 (\<lambda>i d. i = NOT d) (platform_hardware_tmr_domains_inverse inv)
           (platform_hardware_tmr_domains cfg))"

definition llps_runtime_cfg_bank_is_valid :: "llps_runtime_cfg_bank_t \<Rightarrow> u32 \<Rightarrow> bool" where
  "llps_runtime_cfg_bank_is_valid bank expected_bank_id =
     (let magic = llps_runtime_cfg_bank_magic_for_bank expected_bank_id
      in if rc_magic_start bank \<noteq> magic \<or> rc_magic_end bank \<noteq> magic \<or>
            rc_bank_id bank \<noteq> expected_bank_id \<or>
            llps_runtime_cfg_bank_runtime_inverse_is_invalid bank \<or>
            llps_runtime_cfg_bank_platform_inverse_is_invalid bank \<or>
            llps_runtime_cfg_bank_software_inverse_is_invalid bank \<or>
            \<not> llps_runtime_cfg_values_are_valid (rc_cfg bank) \<or>
            \<not> llps_runtime_cfg_bank_text_inverses_are_valid bank \<or>
            \<not> llps_runtime_cfg_bank_domain_inverses_are_valid bank
         then False
         else rc_crc_inverse bank = NOT (rc_crc bank) \<and>
              rc_crc bank = llps_runtime_cfg_bank_compute_crc bank)"

definition llps_runtime_cfg_bank_set_runtime_inverse ::
    "llps_yml_config_t \<Rightarrow> llps_runtime_cfg_bank_t \<Rightarrow> llps_runtime_cfg_bank_t" where
  "llps_runtime_cfg_bank_set_runtime_inverse cfg bank =
     bank\<lparr>rc_inverse := (rc_inverse bank)\<lparr>
       max_clients_inverse := NOT (max_clients cfg),
       buffer_size_inverse := NOT (buffer_size cfg),
       payload_ecc_enabled_inverse := NOT (payload_ecc_enabled cfg),
       listen_port_inverse := NOT (ucast (listen_port cfg)),
       target_port_inverse := NOT (ucast (target_port cfg)),
       listen_backlog_inverse := NOT (listen_backlog cfg),
       accept_batch_max_inverse := NOT (accept_batch_max cfg),
       session_idle_timeout_ms_inverse := NOT (session_idle_timeout_ms cfg),
       max_sessions_per_client_ip_inverse := NOT (max_sessions_per_client_ip cfg),
       max_new_sessions_per_client_ip_per_window_inverse := NOT (max_new_sessions_per_client_ip_per_window cfg),
       client_ip_rate_window_ms_inverse := NOT (client_ip_rate_window_ms cfg),
       client_preface_timeout_ms_inverse := NOT (client_preface_timeout_ms cfg),
       protocol_handshake_gate_enabled_inverse := NOT (protocol_handshake_gate_enabled cfg),
       ip_audit_enabled_inverse := NOT (ip_audit_enabled cfg),
       audit_mac_enabled_inverse := NOT (audit_mac_enabled cfg)\<rparr>\<rparr>"

definition llps_runtime_cfg_bank_set_platform_inverse ::
    "llps_yml_config_t \<Rightarrow> llps_runtime_cfg_bank_t \<Rightarrow> llps_runtime_cfg_bank_t" where
  "llps_runtime_cfg_bank_set_platform_inverse cfg bank =
     bank\<lparr>rc_inverse := (rc_inverse bank)\<lparr>
       require_readiness_inverse := NOT (require_readiness cfg),
       platform_safety_flags_inverse := NOT (platform_safety_flags cfg),
       platform_safety_evidence_id_inverse := NOT (platform_safety_evidence_id cfg),
       platform_attestation_fingerprint_inverse := NOT (platform_attestation_fingerprint cfg),
       platform_observation_digest_inverse := NOT (platform_observation_digest cfg),
       platform_evidence_mode_inverse := NOT (platform_evidence_mode cfg),
       platform_hardware_tmr_voter_domain_inverse := NOT (platform_hardware_tmr_voter_domain cfg),
       platform_physical_memory_domains_inverse := map (\<lambda>d. NOT d) (platform_physical_memory_domains cfg),
       platform_hardware_tmr_domains_inverse := map (\<lambda>d. NOT d) (platform_hardware_tmr_domains cfg)\<rparr>\<rparr>"

definition llps_runtime_cfg_bank_set_software_inverse ::
    "llps_yml_config_t \<Rightarrow> llps_runtime_cfg_bank_t \<Rightarrow> llps_runtime_cfg_bank_t" where
  "llps_runtime_cfg_bank_set_software_inverse cfg bank =
     bank\<lparr>rc_inverse := (rc_inverse bank)\<lparr>
       software_ecc_enabled_inverse := NOT (software_ecc_enabled cfg),
       software_ecc_controller_count_inverse := NOT (software_ecc_controller_count cfg),
       software_ecc_dimm_count_inverse := NOT (software_ecc_dimm_count cfg),
       software_ecc_scrub_rate_inverse := NOT (software_ecc_scrub_rate cfg),
       software_ecc_controller_corrected_error_count_inverse := NOT (software_ecc_controller_corrected_error_count cfg),
       software_ecc_controller_uncorrected_error_count_inverse := NOT (software_ecc_controller_uncorrected_error_count cfg),
       software_ecc_dimm_corrected_error_count_inverse := NOT (software_ecc_dimm_corrected_error_count cfg),
       software_ecc_dimm_uncorrected_error_count_inverse := NOT (software_ecc_dimm_uncorrected_error_count cfg),
       software_numa_enabled_inverse := NOT (software_numa_enabled cfg),
       software_numa_memtotal_kib_inverse := NOT (software_numa_memtotal_kib cfg),
       software_numa_local_distance_inverse := NOT (software_numa_local_distance cfg),
       software_numa_remote_distance_inverse := NOT (software_numa_remote_distance cfg),
       software_fault_injection_mode_inverse := NOT (software_fault_injection_mode cfg),
       evidence_mac_enabled_inverse := NOT (evidence_mac_enabled cfg)\<rparr>\<rparr>"

definition llps_runtime_cfg_bank_set_text_inverse :: "u8 list \<Rightarrow> u8 list" where
  "llps_runtime_cfg_bank_set_text_inverse text = map (\<lambda>c. NOT c) text"

definition llps_runtime_cfg_bank_set_text_inverses ::
    "llps_yml_config_t \<Rightarrow> llps_runtime_cfg_bank_t \<Rightarrow> llps_runtime_cfg_bank_t" where
  "llps_runtime_cfg_bank_set_text_inverses cfg bank =
     bank\<lparr>rc_inverse := (rc_inverse bank)\<lparr>
       listen_host_inverse := llps_runtime_cfg_bank_set_text_inverse (listen_host cfg),
       target_ip_inverse := llps_runtime_cfg_bank_set_text_inverse (target_ip cfg),
       ip_audit_path_inverse := llps_runtime_cfg_bank_set_text_inverse (ip_audit_path cfg),
       audit_mac_key_path_inverse := llps_runtime_cfg_bank_set_text_inverse (audit_mac_key_path cfg),
       evidence_mac_key_path_inverse := llps_runtime_cfg_bank_set_text_inverse (evidence_mac_key_path cfg)\<rparr>\<rparr>"

definition llps_runtime_cfg_bank_from_config ::
    "llps_runtime_cfg_bank_t \<Rightarrow> u32 \<Rightarrow> llps_yml_config_t \<Rightarrow> llps_runtime_cfg_bank_t" where
  "llps_runtime_cfg_bank_from_config bank n cfg =
     (let magic = llps_runtime_cfg_bank_magic_for_bank n;
          bank = bank\<lparr>rc_magic_start := magic, rc_bank_id := n, rc_cfg := cfg\<rparr>;
          bank = llps_runtime_cfg_bank_set_runtime_inverse cfg bank;
          bank = llps_runtime_cfg_bank_set_platform_inverse cfg bank;
          bank = llps_runtime_cfg_bank_set_software_inverse cfg bank;
          bank = llps_runtime_cfg_bank_set_text_inverses cfg bank;
          bank = bank\<lparr>rc_magic_end := magic\<rparr>;
          bank = bank\<lparr>rc_crc := llps_runtime_cfg_bank_compute_crc bank\<rparr>
      in bank\<lparr>rc_crc_inverse := NOT (rc_crc bank)\<rparr>)"

definition llps_runtime_cfg_write_all ::
    "llps_yml_config_t \<Rightarrow> llps_runtime_cfg_bank_t list \<Rightarrow> llps_runtime_cfg_bank_t list" where
  "llps_runtime_cfg_write_all cfg banks =
     foldl (\<lambda>banks i. banks[i := llps_runtime_cfg_bank_from_config (banks ! i) (of_nat i) cfg])
       banks [0..<LLPS_SESSION_TMR_BANK_COUNT]"

definition llps_runtime_cfg_repair_divergent_banks ::
    "bool list \<Rightarrow> llps_yml_config_t list \<Rightarrow> llps_yml_config_t \<Rightarrow>
     llps_runtime_cfg_bank_t list \<times> safety_counters \<Rightarrow> llps_runtime_cfg_bank_t list \<times> safety_counters" where
  "llps_runtime_cfg_repair_divergent_banks valid snapshots majority st =
     foldl (\<lambda>(banks, sc) i.
         if \<not> valid ! i \<or> \<not> llps_runtime_cfg_equal (snapshots ! i) majority
         then (banks[i := llps_runtime_cfg_bank_from_config (banks ! i) (of_nat i) majority],
               LLPS_MEMORY_SAFETY_COUNTER_INC runtime_cfg_single_bank_repairs_update sc)
         else (banks, sc))
       st [0..<LLPS_SESSION_TMR_BANK_COUNT]"

text \<open>All fields zero: what \<^verbatim>\<open>memset\<close> leaves in the snapshot of an invalid bank.\<close>

definition zero_cfg :: llps_yml_config_t where
  "zero_cfg = \<lparr>
     max_clients = 0,
     buffer_size = 0,
     payload_ecc_enabled = 0,
     listen_host = replicate 256 0,
     listen_port = 0,
     target_ip = replicate 256 0,
     target_port = 0,
     listen_backlog = 0,
     accept_batch_max = 0,
     session_idle_timeout_ms = 0,
     max_sessions_per_client_ip = 0,
     max_new_sessions_per_client_ip_per_window = 0,
     client_ip_rate_window_ms = 0,
     client_preface_timeout_ms = 0,
     protocol_handshake_gate_enabled = 0,
     ip_audit_enabled = 0,
     ip_audit_path = replicate 256 0,
     audit_mac_enabled = 0,
     audit_mac_key_path = replicate 256 0,
     require_readiness = 0,
     platform_safety_flags = 0,
     platform_safety_evidence_id = 0,
     platform_attestation_fingerprint = 0,
     platform_observation_digest = 0,
     platform_evidence_mode = 0,
     platform_physical_memory_domains = replicate 3 0,
     platform_hardware_tmr_domains = replicate 3 0,
     platform_hardware_tmr_voter_domain = 0,
     software_ecc_enabled = 0,
     software_ecc_controller_count = 0,
     software_ecc_dimm_count = 0,
     software_ecc_scrub_rate = 0,
     software_ecc_controller_corrected_error_count = 0,
     software_ecc_controller_uncorrected_error_count = 0,
     software_ecc_dimm_corrected_error_count = 0,
     software_ecc_dimm_uncorrected_error_count = 0,
     software_numa_enabled = 0,
     software_numa_memtotal_kib = 0,
     software_numa_local_distance = 0,
     software_numa_remote_distance = 0,
     software_fault_injection_mode = 0,
     evidence_mac_enabled = 0,
     evidence_mac_key_path = replicate 256 0\<rparr>"

text \<open>The returned boolean, \<^verbatim>\<open>*canonical_cfg\<close> afterwards, the banks and the counters.\<close>

definition llps_runtime_cfg_reconcile ::
    "llps_yml_config_t \<Rightarrow> llps_runtime_cfg_bank_t list \<Rightarrow> safety_counters \<Rightarrow>
     bool \<times> llps_yml_config_t \<times> llps_runtime_cfg_bank_t list \<times> safety_counters" where
  "llps_runtime_cfg_reconcile canonical_cfg banks sc =
     (let valid = map (\<lambda>i. llps_runtime_cfg_bank_is_valid (banks ! i) (of_nat i))
            [0..<LLPS_SESSION_TMR_BANK_COUNT];
          snapshots = map (\<lambda>i. if valid ! i then rc_cfg (banks ! i) else zero_cfg)
            [0..<LLPS_SESSION_TMR_BANK_COUNT];
          valid_count = length (filter id valid)
      in if valid_count < 2
         then (False, canonical_cfg, banks,
               LLPS_MEMORY_SAFETY_COUNTER_INC runtime_cfg_majority_failures_update sc)
         else (case llps_tmr_vote_find_matching_pair valid
                     (llps_runtime_cfg_equal (snapshots ! 0) (snapshots ! 1))
                     (llps_runtime_cfg_equal (snapshots ! 0) (snapshots ! 2))
                     (llps_runtime_cfg_equal (snapshots ! 1) (snapshots ! 2)) of
                 None \<Rightarrow> (False, canonical_cfg, banks,
                   LLPS_MEMORY_SAFETY_COUNTER_INC runtime_cfg_majority_failures_update sc)
               | Some majority_index \<Rightarrow>
                   (case llps_runtime_cfg_repair_divergent_banks valid snapshots
                           (snapshots ! majority_index) (banks, sc) of
                      (banks', sc') \<Rightarrow> (True, snapshots ! majority_index, banks', sc'))))"

subsection \<open>The startup self-test\<close>

abbreviation LLPS_TMR_SELF_TEST_RUNTIME_CFG_SINGLE_REPAIR :: u32 where
  "LLPS_TMR_SELF_TEST_RUNTIME_CFG_SINGLE_REPAIR \<equiv> 0x8"

abbreviation LLPS_TMR_SELF_TEST_RUNTIME_CFG_DUAL_FAIL_CLOSED :: u32 where
  "LLPS_TMR_SELF_TEST_RUNTIME_CFG_DUAL_FAIL_CLOSED \<equiv> 0x10"

abbreviation LLPS_TMR_SELF_TEST_RUNTIME_CFG_NO_MAJORITY_FAIL_CLOSED :: u32 where
  "LLPS_TMR_SELF_TEST_RUNTIME_CFG_NO_MAJORITY_FAIL_CLOSED \<equiv> 0x20"

text \<open>
  The search for two further ports: \<open>ports\<close> is \<^verbatim>\<open>out_ports\<close> up to \<^verbatim>\<open>count\<close>.
\<close>

function select_ports_loop :: "u16 \<Rightarrow> nat \<Rightarrow> u16 list \<Rightarrow> u16 list" where
  "select_ports_loop listen candidate ports =
     (if candidate \<le> 65535 \<and> length ports < LLPS_SESSION_TMR_BANK_COUNT
      then (let port = of_nat candidate
            in if port = listen then select_ports_loop listen (candidate + 1) ports
               else if list_ex (\<lambda>p. port = p) ports
               then select_ports_loop listen (candidate + 1) ports
               else select_ports_loop listen (candidate + 1) (ports @ [port]))
      else ports)"
  by pat_completeness auto
termination
  by (relation "measure (\<lambda>(listen, candidate, ports). 65536 - candidate)") auto

declare select_ports_loop.simps [simp del]

definition llps_select_runtime_cfg_no_majority_ports :: "llps_yml_config_t \<Rightarrow> u16 list option" where
  "llps_select_runtime_cfg_no_majority_ports cfg =
     (let ports = select_ports_loop (listen_port cfg) 1 [target_port cfg]
      in if length ports = LLPS_SESSION_TMR_BANK_COUNT then Some ports else None)"

definition llps_runtime_cfg_save_banks :: "llps_runtime_cfg_bank_t list \<Rightarrow> llps_runtime_cfg_bank_t list" where
  "llps_runtime_cfg_save_banks banks = map (\<lambda>i. banks ! i) [0..<LLPS_SESSION_TMR_BANK_COUNT]"

definition llps_runtime_cfg_restore_banks ::
    "llps_runtime_cfg_bank_t list \<Rightarrow> llps_runtime_cfg_bank_t list \<Rightarrow> llps_runtime_cfg_bank_t list" where
  "llps_runtime_cfg_restore_banks saved banks =
     foldl (\<lambda>banks i. banks[i := saved ! i]) banks [0..<LLPS_SESSION_TMR_BANK_COUNT]"

text \<open>An assignment to the \<^verbatim>\<open>magic_start\<close> of one bank.\<close>

definition set_rc_magic_start ::
    "nat \<Rightarrow> (u32 \<Rightarrow> u32) \<Rightarrow> llps_runtime_cfg_bank_t list \<Rightarrow> llps_runtime_cfg_bank_t list" where
  "set_rc_magic_start i f banks = banks[i := rc_magic_start_update f (banks ! i)]"

text \<open>
  A test case takes and returns the canonical configuration, the coverage word, the banks and the
  counters; the first component of the result is \<^verbatim>\<open>passed\<close>.
\<close>

type_synonym cfg_test_state =
  "llps_yml_config_t \<times> u32 \<times> llps_runtime_cfg_bank_t list \<times> safety_counters"

definition llps_runtime_cfg_self_test_single_repair ::
    "llps_yml_config_t \<Rightarrow> cfg_test_state \<Rightarrow> bool \<times> cfg_test_state" where
  "llps_runtime_cfg_self_test_single_repair saved_cfg =
     (\<lambda>(canonical_cfg, coverage, banks, sc).
       (let (ok, canonical_cfg', banks', sc') = llps_runtime_cfg_reconcile canonical_cfg
              (set_rc_magic_start 0 (\<lambda>m. m XOR UINT32_MAX) banks) sc;
            passed = (ok \<and> llps_runtime_cfg_equal canonical_cfg' saved_cfg \<and>
              llps_runtime_cfg_bank_is_valid (banks' ! 0) 0)
        in (passed, canonical_cfg',
            if passed then coverage OR LLPS_TMR_SELF_TEST_RUNTIME_CFG_SINGLE_REPAIR else coverage,
            banks', sc')))"

definition llps_runtime_cfg_self_test_no_majority ::
    "llps_yml_config_t \<Rightarrow> cfg_test_state \<Rightarrow> bool \<times> cfg_test_state" where
  "llps_runtime_cfg_self_test_no_majority saved_cfg =
     (\<lambda>(canonical_cfg, coverage, banks, sc).
       (case llps_select_runtime_cfg_no_majority_ports saved_cfg of
          None \<Rightarrow> (False, canonical_cfg, coverage, banks, sc)
        | Some ports \<Rightarrow>
            (let cfg0 = saved_cfg\<lparr>target_port := ports ! 0\<rparr>;
                 cfg1 = saved_cfg\<lparr>target_port := ports ! 1\<rparr>;
                 cfg2 = saved_cfg\<lparr>target_port := ports ! 2\<rparr>;
                 banks = banks[0 := llps_runtime_cfg_bank_from_config (banks ! 0) 0 cfg0];
                 banks = banks[1 := llps_runtime_cfg_bank_from_config (banks ! 1) 1 cfg1];
                 banks = banks[2 := llps_runtime_cfg_bank_from_config (banks ! 2) 2 cfg2];
                 (ok, canonical_cfg', banks', sc') = llps_runtime_cfg_reconcile canonical_cfg banks sc
             in (\<not> ok, canonical_cfg',
                 if \<not> ok then coverage OR LLPS_TMR_SELF_TEST_RUNTIME_CFG_NO_MAJORITY_FAIL_CLOSED
                 else coverage, banks', sc'))))"

definition llps_runtime_cfg_self_test_dual_fail ::
    "llps_yml_config_t \<Rightarrow> cfg_test_state \<Rightarrow> bool \<times> cfg_test_state" where
  "llps_runtime_cfg_self_test_dual_fail saved_cfg =
     (\<lambda>(canonical_cfg, coverage, banks, sc).
       (let canonical_cfg = saved_cfg;
            banks = llps_runtime_cfg_write_all saved_cfg banks;
            banks = set_rc_magic_start 0 (\<lambda>_. 0) banks;
            banks = set_rc_magic_start 1 (\<lambda>_. 0) banks;
            (ok, canonical_cfg', banks', sc') = llps_runtime_cfg_reconcile canonical_cfg banks sc
        in (\<not> ok, canonical_cfg',
            if \<not> ok then coverage OR LLPS_TMR_SELF_TEST_RUNTIME_CFG_DUAL_FAIL_CLOSED else coverage,
            banks', sc')))"

definition llps_runtime_cfg_tmr_startup_self_test ::
    "cfg_test_state \<Rightarrow> bool \<times> cfg_test_state" where
  "llps_runtime_cfg_tmr_startup_self_test =
     (\<lambda>(canonical_cfg, coverage, banks, sc).
       (let saved_cfg = canonical_cfg;
            saved_banks = llps_runtime_cfg_save_banks banks;
            (ok, canonical_cfg1, banks1, sc1) = llps_runtime_cfg_reconcile canonical_cfg banks sc;
            passed1 = (ok \<and> llps_runtime_cfg_equal canonical_cfg1 saved_cfg);
            st1 = (canonical_cfg1, coverage, banks1, sc1);
            (passed2, st2) =
              (if passed1 then llps_runtime_cfg_self_test_single_repair saved_cfg st1 else (passed1, st1));
            (passed3, st3) =
              (if passed2 then llps_runtime_cfg_self_test_no_majority saved_cfg st2 else (passed2, st2));
            (passed4, (canonical_cfg4, coverage4, banks4, sc4)) =
              (if passed3 then llps_runtime_cfg_self_test_dual_fail saved_cfg st3 else (passed3, st3))
        in (passed4, saved_cfg, coverage4, llps_runtime_cfg_restore_banks saved_banks banks4, sc4)))"

text \<open>A bank written over arbitrary earlier contents depends on those only in what is overwritten.\<close>

definition cfg_inverse_of :: "llps_yml_config_t \<Rightarrow> runtime_cfg_inverse" where
  "cfg_inverse_of cfg = \<lparr>
     max_clients_inverse = NOT (max_clients cfg),
     buffer_size_inverse = NOT (buffer_size cfg),
     payload_ecc_enabled_inverse = NOT (payload_ecc_enabled cfg),
     listen_port_inverse = NOT (ucast (listen_port cfg)),
     target_port_inverse = NOT (ucast (target_port cfg)),
     listen_backlog_inverse = NOT (listen_backlog cfg),
     accept_batch_max_inverse = NOT (accept_batch_max cfg),
     session_idle_timeout_ms_inverse = NOT (session_idle_timeout_ms cfg),
     max_sessions_per_client_ip_inverse = NOT (max_sessions_per_client_ip cfg),
     max_new_sessions_per_client_ip_per_window_inverse = NOT (max_new_sessions_per_client_ip_per_window cfg),
     client_ip_rate_window_ms_inverse = NOT (client_ip_rate_window_ms cfg),
     client_preface_timeout_ms_inverse = NOT (client_preface_timeout_ms cfg),
     protocol_handshake_gate_enabled_inverse = NOT (protocol_handshake_gate_enabled cfg),
     ip_audit_enabled_inverse = NOT (ip_audit_enabled cfg),
     audit_mac_enabled_inverse = NOT (audit_mac_enabled cfg),
     require_readiness_inverse = NOT (require_readiness cfg),
     platform_safety_flags_inverse = NOT (platform_safety_flags cfg),
     platform_safety_evidence_id_inverse = NOT (platform_safety_evidence_id cfg),
     platform_attestation_fingerprint_inverse = NOT (platform_attestation_fingerprint cfg),
     platform_observation_digest_inverse = NOT (platform_observation_digest cfg),
     platform_evidence_mode_inverse = NOT (platform_evidence_mode cfg),
     platform_physical_memory_domains_inverse = map (\<lambda>c. NOT c) (platform_physical_memory_domains cfg),
     platform_hardware_tmr_domains_inverse = map (\<lambda>c. NOT c) (platform_hardware_tmr_domains cfg),
     platform_hardware_tmr_voter_domain_inverse = NOT (platform_hardware_tmr_voter_domain cfg),
     software_ecc_enabled_inverse = NOT (software_ecc_enabled cfg),
     software_ecc_controller_count_inverse = NOT (software_ecc_controller_count cfg),
     software_ecc_dimm_count_inverse = NOT (software_ecc_dimm_count cfg),
     software_ecc_scrub_rate_inverse = NOT (software_ecc_scrub_rate cfg),
     software_ecc_controller_corrected_error_count_inverse = NOT (software_ecc_controller_corrected_error_count cfg),
     software_ecc_controller_uncorrected_error_count_inverse = NOT (software_ecc_controller_uncorrected_error_count cfg),
     software_ecc_dimm_corrected_error_count_inverse = NOT (software_ecc_dimm_corrected_error_count cfg),
     software_ecc_dimm_uncorrected_error_count_inverse = NOT (software_ecc_dimm_uncorrected_error_count cfg),
     software_numa_enabled_inverse = NOT (software_numa_enabled cfg),
     software_numa_memtotal_kib_inverse = NOT (software_numa_memtotal_kib cfg),
     software_numa_local_distance_inverse = NOT (software_numa_local_distance cfg),
     software_numa_remote_distance_inverse = NOT (software_numa_remote_distance cfg),
     software_fault_injection_mode_inverse = NOT (software_fault_injection_mode cfg),
     evidence_mac_enabled_inverse = NOT (evidence_mac_enabled cfg),
     listen_host_inverse = map (\<lambda>c. NOT c) (listen_host cfg),
     target_ip_inverse = map (\<lambda>c. NOT c) (target_ip cfg),
     ip_audit_path_inverse = map (\<lambda>c. NOT c) (ip_audit_path cfg),
     audit_mac_key_path_inverse = map (\<lambda>c. NOT c) (audit_mac_key_path cfg),
     evidence_mac_key_path_inverse = map (\<lambda>c. NOT c) (evidence_mac_key_path cfg)\<rparr>"

definition cfg_bank_from :: "nat \<Rightarrow> llps_yml_config_t \<Rightarrow> llps_runtime_cfg_bank_t" where
  "cfg_bank_from i cfg =
     (let magic = llps_runtime_cfg_bank_magic_for_bank (of_nat i);
          bank = \<lparr>rc_magic_start = magic, rc_bank_id = of_nat i, rc_cfg = cfg,
            rc_inverse = cfg_inverse_of cfg, rc_crc = 0, rc_crc_inverse = 0, rc_magic_end = magic\<rparr>;
          sum = llps_runtime_cfg_bank_compute_crc bank
      in bank\<lparr>rc_crc := sum, rc_crc_inverse := NOT sum\<rparr>)"

section \<open>The banks as a triply kept value\<close>

lemma cfg_inverse_complete:
  "rc_inverse (llps_runtime_cfg_bank_set_text_inverses cfg
     (llps_runtime_cfg_bank_set_software_inverse cfg
       (llps_runtime_cfg_bank_set_platform_inverse cfg
         (llps_runtime_cfg_bank_set_runtime_inverse cfg bank)))) = cfg_inverse_of cfg"
proof (cases "rc_inverse bank")
  case fields
  then show ?thesis
    by (simp add: cfg_inverse_of_def llps_runtime_cfg_bank_set_text_inverses_def
        llps_runtime_cfg_bank_set_text_inverse_def llps_runtime_cfg_bank_set_software_inverse_def
        llps_runtime_cfg_bank_set_platform_inverse_def llps_runtime_cfg_bank_set_runtime_inverse_def)
qed

text \<open>The checksum does not read the checksum fields.\<close>

lemma cfg_compute_crc_frame [simp]:
  "llps_runtime_cfg_bank_compute_crc (bank\<lparr>rc_crc := x\<rparr>) = llps_runtime_cfg_bank_compute_crc bank"
  "llps_runtime_cfg_bank_compute_crc (bank\<lparr>rc_crc_inverse := x\<rparr>) = llps_runtime_cfg_bank_compute_crc bank"
  unfolding llps_runtime_cfg_bank_compute_crc_def llps_runtime_cfg_bank_crc_header_def
    llps_runtime_cfg_bank_crc_network_def llps_runtime_cfg_bank_crc_platform_def
    llps_runtime_cfg_bank_crc_software_def llps_runtime_cfg_bank_crc_runtime_inverse_def
    llps_runtime_cfg_bank_crc_platform_inverse_def llps_runtime_cfg_bank_crc_software_inverse_def
    llps_runtime_cfg_bank_crc_text_inverse_def Let_def
  by simp_all

lemma cfg_set_inverses:
  "llps_runtime_cfg_bank_set_text_inverses cfg
     (llps_runtime_cfg_bank_set_software_inverse cfg
       (llps_runtime_cfg_bank_set_platform_inverse cfg
         (llps_runtime_cfg_bank_set_runtime_inverse cfg bank))) = bank\<lparr>rc_inverse := cfg_inverse_of cfg\<rparr>"
  using cfg_inverse_complete [of cfg bank]
  by (intro llps_runtime_cfg_bank_t.equality)
    (simp_all add: llps_runtime_cfg_bank_set_text_inverses_def llps_runtime_cfg_bank_set_software_inverse_def
        llps_runtime_cfg_bank_set_platform_inverse_def llps_runtime_cfg_bank_set_runtime_inverse_def)

lemma cfg_bank_from_config_eq [bank_simps]:
  "llps_runtime_cfg_bank_from_config bank (of_nat i) cfg = cfg_bank_from i cfg"
proof (cases bank)
  case (fields s n c v x y e)
  let ?m = "llps_runtime_cfg_bank_magic_for_bank (of_nat i)"
  let ?base = "\<lparr>rc_magic_start = ?m, rc_bank_id = of_nat i, rc_cfg = cfg, rc_inverse = cfg_inverse_of cfg,
     rc_crc = 0, rc_crc_inverse = 0, rc_magic_end = ?m\<rparr>"
  have "bank\<lparr>rc_magic_start := ?m, rc_bank_id := of_nat i, rc_cfg := cfg, rc_inverse := cfg_inverse_of cfg,
      rc_magic_end := ?m\<rparr> = ?base\<lparr>rc_crc := x, rc_crc_inverse := y\<rparr>"
    by (simp add: fields)
  then have "llps_runtime_cfg_bank_from_config bank (of_nat i) cfg =
      ?base\<lparr>rc_crc := llps_runtime_cfg_bank_compute_crc (?base\<lparr>rc_crc := x, rc_crc_inverse := y\<rparr>),
        rc_crc_inverse := NOT (llps_runtime_cfg_bank_compute_crc (?base\<lparr>rc_crc := x, rc_crc_inverse := y\<rparr>))\<rparr>"
    unfolding llps_runtime_cfg_bank_from_config_def Let_def cfg_set_inverses by (simp add: fields)
  then show ?thesis
    unfolding cfg_compute_crc_frame cfg_bank_from_def Let_def .
qed

lemmas cfg_bank_inverse_defs =
  llps_runtime_cfg_bank_runtime_inverse_is_invalid_def llps_runtime_cfg_bank_platform_inverse_is_invalid_def
  llps_runtime_cfg_bank_software_inverse_is_invalid_def llps_runtime_cfg_bank_text_inverses_are_valid_def
  llps_runtime_cfg_bank_domain_inverses_are_valid_def llps_runtime_cfg_text_inverse_is_valid_def

lemma cfg_bank_fields [simp]:
  "rc_cfg (cfg_bank_from i cfg) = cfg" "rc_inverse (cfg_bank_from i cfg) = cfg_inverse_of cfg"
  "rc_bank_id (cfg_bank_from i cfg) = of_nat i"
  "rc_magic_start (cfg_bank_from i cfg) = llps_runtime_cfg_bank_magic_for_bank (of_nat i)"
  "rc_magic_end (cfg_bank_from i cfg) = llps_runtime_cfg_bank_magic_for_bank (of_nat i)"
  "rc_crc_inverse (cfg_bank_from i cfg) = NOT (rc_crc (cfg_bank_from i cfg))"
  by (simp_all add: cfg_bank_from_def Let_def)

lemma cfg_bank_crc: "llps_runtime_cfg_bank_compute_crc (cfg_bank_from i cfg) = rc_crc (cfg_bank_from i cfg)"
  unfolding cfg_bank_from_def Let_def cfg_compute_crc_frame by simp

lemma cfg_bank_inverses_ok:
  "\<not> llps_runtime_cfg_bank_runtime_inverse_is_invalid (cfg_bank_from i cfg)"
  "\<not> llps_runtime_cfg_bank_platform_inverse_is_invalid (cfg_bank_from i cfg)"
  "\<not> llps_runtime_cfg_bank_software_inverse_is_invalid (cfg_bank_from i cfg)"
  "llps_runtime_cfg_bank_text_inverses_are_valid (cfg_bank_from i cfg)"
  "llps_runtime_cfg_bank_domain_inverses_are_valid (cfg_bank_from i cfg)"
  by (simp_all add: cfg_bank_inverse_defs cfg_inverse_of_def list_all2_map1 list.rel_refl)

lemma cfg_bank_from_valid:
  "llps_runtime_cfg_bank_is_valid (cfg_bank_from i cfg) (of_nat i) \<longleftrightarrow> llps_runtime_cfg_values_are_valid cfg"
  by (simp add: llps_runtime_cfg_bank_is_valid_def cfg_bank_inverses_ok cfg_bank_crc)

text \<open>The four comparison routines together compare every field.\<close>

lemma runtime_cfg_equal_iff: "llps_runtime_cfg_equal lhs rhs \<longleftrightarrow> lhs = rhs"
proof
  assume "llps_runtime_cfg_equal lhs rhs"
  then show "lhs = rhs"
    unfolding llps_runtime_cfg_equal_def llps_runtime_cfg_runtime_equal_def
      llps_runtime_cfg_platform_equal_def llps_runtime_cfg_software_equal_def
      llps_runtime_cfg_arrays_equal_def list_all2_eq [symmetric]
    by (intro llps_yml_config_t.equality) simp_all
next
  assume "lhs = rhs"
  then show "llps_runtime_cfg_equal lhs rhs"
    by (simp add: llps_runtime_cfg_equal_def llps_runtime_cfg_runtime_equal_def
      llps_runtime_cfg_platform_equal_def llps_runtime_cfg_software_equal_def
      llps_runtime_cfg_arrays_equal_def list.rel_refl)
qed

interpretation rcfg: tmr_bank
  "\<lambda>i b. llps_runtime_cfg_bank_is_valid b (of_nat i)" rc_cfg zero_cfg llps_runtime_cfg_equal
  cfg_bank_from llps_runtime_cfg_values_are_valid
  "LLPS_MEMORY_SAFETY_COUNTER_INC runtime_cfg_single_bank_repairs_update"
  "LLPS_MEMORY_SAFETY_COUNTER_INC runtime_cfg_majority_failures_update"
proof
  show "llps_runtime_cfg_values_are_valid (rc_cfg b)"
    if "llps_runtime_cfg_bank_is_valid b (of_nat i)" for i b
    using that by (simp add: llps_runtime_cfg_bank_is_valid_def Let_def split: if_splits)
qed (simp_all add: cfg_bank_from_valid runtime_cfg_equal_iff)

lemma cfg_repair_eq:
  "llps_runtime_cfg_repair_divergent_banks valid snapshots majority =
   tmr_repair_divergent_banks llps_runtime_cfg_equal cfg_bank_from
     (LLPS_MEMORY_SAFETY_COUNTER_INC runtime_cfg_single_bank_repairs_update) valid snapshots majority"
  unfolding llps_runtime_cfg_repair_divergent_banks_def tmr_repair_divergent_banks_def bank_simps ..

lemma cfg_reconcile_eq:
  "llps_runtime_cfg_reconcile canonical banks sc =
     (case rcfg.reconcile banks sc of (r, banks', sc') \<Rightarrow>
        (case r of None \<Rightarrow> (False, canonical, banks', sc') | Some cfg \<Rightarrow> (True, cfg, banks', sc')))"
  unfolding rcfg.reconcile_def tmr_reconcile_def llps_runtime_cfg_reconcile_def
    cfg_repair_eq Let_def case_vote option.case ..

lemma cfg_write_all_eq:
  "length banks = 3 \<Longrightarrow> llps_runtime_cfg_write_all cfg banks = tmr_write_all cfg_bank_from cfg"
  by (auto simp: llps_runtime_cfg_write_all_def tmr_write_all_def bank_simps upt_bank_count length_3_iff)

section \<open>The startup self-test\<close>

lemma select_ports_length: "length (select_ports_loop listen (Suc 0) [p]) = 3"
  by (simp add: select_ports_loop.simps [of _ "Suc 0"] select_ports_loop.simps [of _ "Suc (Suc 0)"]
      select_ports_loop.simps [of _ "Suc (Suc (Suc 0))"]
      select_ports_loop.simps [of _ "Suc (Suc (Suc (Suc 0)))"]
      select_ports_loop.simps [of _ "Suc (Suc (Suc (Suc (Suc 0))))"] Let_def)

lemma select_ports_step:
  assumes "candidate \<le> 65535 \<and> length ports < 3"
  shows "select_ports_loop listen candidate ports =
    (if of_nat candidate = listen \<or> list_ex (\<lambda>p. of_nat candidate = p) ports
     then select_ports_loop listen (candidate + 1) ports
     else select_ports_loop listen (candidate + 1) (ports @ [of_nat candidate]))"
  using assms by (subst select_ports_loop.simps) (simp add: Let_def)

lemma of_nat_port_nonzero: "0 < n \<Longrightarrow> n \<le> 65535 \<Longrightarrow> (of_nat n :: u16) \<noteq> 0"
  by (simp add: word_of_nat_eq_0_iff nat_dvd_not_less)

lemma select_ports_inv:
  assumes "ports \<noteq> []" "distinct ports" "\<forall>x \<in> set (tl ports). x \<noteq> 0 \<and> x \<noteq> listen" "0 < candidate"
  shows "hd (select_ports_loop listen candidate ports) = hd ports \<and>
    distinct (select_ports_loop listen candidate ports) \<and>
    (\<forall>x \<in> set (tl (select_ports_loop listen candidate ports)). x \<noteq> 0 \<and> x \<noteq> listen)"
  using assms
proof (induction listen candidate ports rule: select_ports_loop.induct)
  case (1 listen candidate ports)
  show ?case
  proof (cases "candidate \<le> 65535 \<and> length ports < 3")
    case False
    then have "select_ports_loop listen candidate ports = ports"
      unfolding select_ports_loop.simps [of listen candidate ports] by (rule if_not_P)
    then show ?thesis using "1.prems" by simp
  next
    case True
    then have nz: "(of_nat candidate :: u16) \<noteq> 0" using "1.prems" of_nat_port_nonzero by simp
    consider "of_nat candidate = listen" | "of_nat candidate \<noteq> listen" "list_ex (\<lambda>p. of_nat candidate = p) ports"
      | "of_nat candidate \<noteq> listen" "\<not> list_ex (\<lambda>p. of_nat candidate = p) ports" by blast
    then show ?thesis
    proof cases
      case 1
      then have eq: "select_ports_loop listen candidate ports = select_ports_loop listen (candidate + 1) ports"
        using select_ports_step [OF True, of listen] by simp
      show ?thesis unfolding eq by (rule "1.IH"(1) [OF True refl 1]) (use "1.prems" in auto)
    next
      case 2
      then have eq: "select_ports_loop listen candidate ports = select_ports_loop listen (candidate + 1) ports"
        using select_ports_step [OF True, of listen] by simp
      show ?thesis unfolding eq by (rule "1.IH"(2) [OF True refl 2]) (use "1.prems" in auto)
    next
      case 3
      then have eq: "select_ports_loop listen candidate ports =
          select_ports_loop listen (candidate + 1) (ports @ [of_nat candidate])"
        using select_ports_step [OF True, of listen] by simp
      have new: "of_nat candidate \<notin> set ports" using 3 by (auto simp: list_ex_iff)
      have "hd (ports @ [of_nat candidate]) = hd ports" using "1.prems"(1) by simp
      then show ?thesis
        unfolding eq using "1.IH"(3) [OF True refl 3] "1.prems" new nz 3(1) by simp
    qed
  qed
qed

lemma select_ports_total:
  obtains q r where "select_ports_loop listen (Suc 0) [p] = [p, q, r]" "distinct [p, q, r]"
    "q \<noteq> 0" "r \<noteq> 0" "q \<noteq> listen" "r \<noteq> listen"
proof -
  obtain x y z where xyz: "select_ports_loop listen (Suc 0) [p] = [x, y, z]"
    using select_ports_length [of listen p] by (auto simp: length_3_iff)
  have "x = p" "distinct [x, y, z]" "y \<noteq> 0" "z \<noteq> 0" "y \<noteq> listen" "z \<noteq> listen"
    using select_ports_inv [of "[p]" listen "Suc 0"] by (auto simp: xyz)
  then show thesis using that [of y z] xyz by blast
qed

text \<open>Moving the target port keeps a configuration valid as long as it stays off the listener.\<close>

lemma target_port_frame [simp]:
  "llps_runtime_cfg_paths_are_valid (cfg\<lparr>target_port := p\<rparr>) = llps_runtime_cfg_paths_are_valid cfg"
  "llps_runtime_cfg_platform_basics_are_valid (cfg\<lparr>target_port := p\<rparr>) =
   llps_runtime_cfg_platform_basics_are_valid cfg"
  "llps_runtime_cfg_software_ecc_is_valid (cfg\<lparr>target_port := p\<rparr>) = llps_runtime_cfg_software_ecc_is_valid cfg"
  "llps_runtime_cfg_software_numa_is_valid (cfg\<lparr>target_port := p\<rparr>) = llps_runtime_cfg_software_numa_is_valid cfg"
  "llps_runtime_cfg_platform_policy_is_valid (cfg\<lparr>target_port := p\<rparr>) =
   llps_runtime_cfg_platform_policy_is_valid cfg"
  "llps_runtime_cfg_domain_bindings_are_valid (cfg\<lparr>target_port := p\<rparr>) =
   llps_runtime_cfg_domain_bindings_are_valid cfg"
  "llps_platform_attestation_config_is_valid (cfg\<lparr>target_port := p\<rparr>) =
   llps_platform_attestation_config_is_valid cfg"
  by (simp_all add: llps_runtime_cfg_paths_are_valid_def llps_runtime_cfg_platform_basics_are_valid_def
    llps_runtime_cfg_software_ecc_is_valid_def llps_runtime_cfg_software_numa_is_valid_def
    llps_runtime_cfg_platform_policy_is_valid_def llps_runtime_cfg_domain_bindings_are_valid_def
    llps_platform_attestation_config_is_valid_def)

lemma core_limits_target_port:
  "llps_runtime_cfg_core_limits_are_valid cfg \<Longrightarrow> p \<noteq> 0 \<Longrightarrow>
   llps_runtime_cfg_core_limits_are_valid (cfg\<lparr>target_port := p\<rparr>)"
  by (simp add: llps_runtime_cfg_core_limits_are_valid_def)

lemma values_valid_target_port:
  assumes "llps_runtime_cfg_values_are_valid cfg" "p \<noteq> 0" "p \<noteq> listen_port cfg"
  shows "llps_runtime_cfg_values_are_valid (cfg\<lparr>target_port := p\<rparr>)"
  using assms core_limits_target_port [of cfg p]
  by (simp add: llps_runtime_cfg_values_are_valid_def split: if_splits)

lemma cfg_magic_nonzero: "i < 3 \<Longrightarrow> llps_runtime_cfg_bank_magic_for_bank (of_nat i) \<noteq> 0"
  by (auto simp: llps_runtime_cfg_bank_magic_for_bank_def less_3_cases)

lemma cfg_zero_magic_invalid:
  "rc_magic_start b = 0 \<Longrightarrow> i < 3 \<Longrightarrow> \<not> llps_runtime_cfg_bank_is_valid b (of_nat i)"
  using cfg_magic_nonzero [of i] by (auto simp: llps_runtime_cfg_bank_is_valid_def Let_def)

text \<open>The banks, except possibly number \<open>k\<close>, hold \<open>cfg\<close>.\<close>

lemma cfg_reconcile_spared:
  assumes "length banks = 3" "\<And>i. i < 3 \<Longrightarrow> i \<noteq> k \<Longrightarrow> rcfg.holds banks i cfg"
  shows "\<exists>banks' sc'. llps_runtime_cfg_reconcile canonical banks sc = (True, cfg, banks', sc') \<and>
    length banks' = 3 \<and> (\<forall>i < 3. rcfg.holds banks' i cfg)"
proof -
  obtain b c where "rcfg.reconcile banks sc = (Some cfg, b, c)" "length b = 3" "\<forall>i < 3. rcfg.holds b i cfg"
    using rcfg.reconcile_spared [of banks k cfg sc] assms by blast
  then show ?thesis by (simp add: cfg_reconcile_eq)
qed

lemma cfg_single_repair_passes:
  assumes "length banks = 3" "\<forall>i < 3. rcfg.holds banks i cfg"
  shows "\<exists>banks' sc'. llps_runtime_cfg_self_test_single_repair cfg (canonical, coverage, banks, sc) =
    (True, cfg, coverage OR LLPS_TMR_SELF_TEST_RUNTIME_CFG_SINGLE_REPAIR, banks', sc') \<and> length banks' = 3"
proof -
  let ?b = "set_rc_magic_start 0 (\<lambda>m. m XOR UINT32_MAX) banks"
  have "\<exists>banks' sc'. llps_runtime_cfg_reconcile canonical ?b sc = (True, cfg, banks', sc') \<and>
      length banks' = 3 \<and> (\<forall>i < 3. rcfg.holds banks' i cfg)"
    using assms by (intro cfg_reconcile_spared [of _ 0]) (auto simp: set_rc_magic_start_def rcfg.holds_def)
  then obtain banks' sc' where r: "llps_runtime_cfg_reconcile canonical ?b sc = (True, cfg, banks', sc')"
    and b: "length banks' = 3" "\<forall>i < 3. rcfg.holds banks' i cfg" by blast
  have "llps_runtime_cfg_bank_is_valid (banks' ! 0) 0"
    using b(2) by (auto simp: rcfg.holds_def dest: spec [of _ 0])
  then show ?thesis using b(1)
    by (simp add: llps_runtime_cfg_self_test_single_repair_def r runtime_cfg_equal_iff)
qed

lemma cfg_no_majority_passes:
  assumes "length banks = 3" "llps_runtime_cfg_values_are_valid cfg"
  shows "\<exists>banks' sc'. llps_runtime_cfg_self_test_no_majority cfg (canonical, coverage, banks, sc) =
    (True, canonical, coverage OR LLPS_TMR_SELF_TEST_RUNTIME_CFG_NO_MAJORITY_FAIL_CLOSED, banks', sc') \<and>
    length banks' = 3"
proof -
  obtain q r where ports: "select_ports_loop (listen_port cfg) (Suc 0) [target_port cfg] = [target_port cfg, q, r]"
    and d: "distinct [target_port cfg, q, r]" by (rule select_ports_total)
  obtain b0 b1 b2 where b: "banks = [b0, b1, b2]" using assms(1) by (auto simp: length_3_iff)
  let ?new = "[cfg_bank_from 0 (cfg\<lparr>target_port := target_port cfg\<rparr>), cfg_bank_from 1 (cfg\<lparr>target_port := q\<rparr>),
      cfg_bank_from 2 (cfg\<lparr>target_port := r\<rparr>)]"
  have fail: "rcfg.reconcile ?new sc =
      (None, ?new, LLPS_MEMORY_SAFETY_COUNTER_INC runtime_cfg_majority_failures_update sc)"
  proof (rule rcfg.reconcile_no_pair)
    fix i j :: nat assume "i < j" "j < 3"
    then have "(i, j) \<in> {(0, 1), (0, 2), (1, 2)}" by auto
    then have "target_port (rc_cfg (?new ! i)) \<noteq> target_port (rc_cfg (?new ! j))" using d by auto
    then show "rc_cfg (?new ! i) \<noteq> rc_cfg (?new ! j)" by metis
  qed simp
  have f: "llps_runtime_cfg_bank_from_config x 0 c = cfg_bank_from 0 c"
    "llps_runtime_cfg_bank_from_config x 1 c = cfg_bank_from 1 c"
    "llps_runtime_cfg_bank_from_config x 2 c = cfg_bank_from 2 c" for x c
    using cfg_bank_from_config_eq [of x 0 c] cfg_bank_from_config_eq [of x 1 c]
      cfg_bank_from_config_eq [of x 2 c] by simp_all
  show ?thesis
    using fail
    by (simp add: llps_runtime_cfg_self_test_no_majority_def llps_select_runtime_cfg_no_majority_ports_def
        ports Let_def f b cfg_reconcile_eq)
qed

lemma cfg_dual_fail_passes:
  assumes "length banks = 3"
  shows "\<exists>canonical' banks' sc'. llps_runtime_cfg_self_test_dual_fail cfg (canonical, coverage, banks, sc) =
    (True, canonical', coverage OR LLPS_TMR_SELF_TEST_RUNTIME_CFG_DUAL_FAIL_CLOSED, banks', sc') \<and>
    length banks' = 3"
proof -
  let ?b = "set_rc_magic_start 1 (\<lambda>_. 0) (set_rc_magic_start 0 (\<lambda>_. 0) (llps_runtime_cfg_write_all cfg banks))"
  have len: "length ?b = 3"
    by (simp add: set_rc_magic_start_def cfg_write_all_eq [OF assms] tmr_write_all_def)
  have z: "rc_magic_start (?b ! 0) = 0" "rc_magic_start (?b ! 1) = 0"
    by (simp_all add: set_rc_magic_start_def cfg_write_all_eq [OF assms] tmr_write_all_def)
  have "rcfg.reconcile ?b sc =
      (None, ?b, LLPS_MEMORY_SAFETY_COUNTER_INC runtime_cfg_majority_failures_update sc)"
    using cfg_zero_magic_invalid [of "?b ! 0" 0] cfg_zero_magic_invalid [of "?b ! 1" 1] z
    by (intro rcfg.reconcile_two_dead [OF len]) simp_all
  then show ?thesis using len
    by (simp add: llps_runtime_cfg_self_test_dual_fail_def Let_def cfg_reconcile_eq)
qed

section \<open>Properties\<close>

text \<open>
  C27: a valid configuration written to the banks survives any upset of any one bank: the vote
  succeeds, hands out that configuration, and afterwards all three banks are valid and hold it.
\<close>

theorem runtime_cfg_masks_one_bank:
  assumes "length banks = 3" "llps_runtime_cfg_values_are_valid cfg" "k < 3"
  shows "\<exists>banks' sc'.
    llps_runtime_cfg_reconcile canonical ((llps_runtime_cfg_write_all cfg banks)[k := b]) sc =
      (True, cfg, banks', sc') \<and> length banks' = 3 \<and>
    (\<forall>i < 3. llps_runtime_cfg_bank_is_valid (banks' ! i) (of_nat i) \<and> rc_cfg (banks' ! i) = cfg)"
proof -
  let ?b = "(llps_runtime_cfg_write_all cfg banks)[k := b]"
  have "rcfg.holds ?b i cfg" if "i < 3" "i \<noteq> k" for i
    using rcfg.holds_write_all [OF assms(2) that(1)] that(2)
    by (simp add: rcfg.holds_def cfg_write_all_eq [OF assms(1)])
  moreover have "length ?b = 3" by (simp add: cfg_write_all_eq [OF assms(1)] tmr_write_all_def)
  ultimately show ?thesis using cfg_reconcile_spared [of ?b k cfg canonical sc] by (simp add: rcfg.holds_def)
qed

theorem runtime_cfg_masks_one_bank_witness:
  "\<exists>banks' sc'. llps_runtime_cfg_reconcile zero_cfg
      ((llps_runtime_cfg_write_all example_cfg (replicate 3 (cfg_bank_from 0 zero_cfg)))[2 := cfg_bank_from 0 zero_cfg])
      \<lparr>g_memory_safety_counters = zero_counters, g_memory_safety_counters_crc = 0,
        g_memory_safety_counters_crc_inverse = 0\<rparr> = (True, example_cfg, banks', sc')"
  using runtime_cfg_masks_one_bank [of "replicate 3 (cfg_bank_from 0 zero_cfg)" example_cfg 2 zero_cfg
      "cfg_bank_from 0 zero_cfg"] example_cfg_valid by fastforce

text \<open>
  the vote is sound and fails closed. It hands out a configuration only when two different
  banks pass every check and hold it, and that configuration satisfies the validation rules;
  otherwise the canonical configuration and the banks stay as they are and the failure is counted.
\<close>

theorem runtime_cfg_reconcile_sound:
  assumes "length banks = 3" "llps_runtime_cfg_reconcile canonical banks sc = (ok, canonical', banks', sc')"
  shows "if ok
    then llps_runtime_cfg_values_are_valid canonical' \<and>
      (\<exists>i j. i < 3 \<and> j < 3 \<and> i \<noteq> j \<and>
        llps_runtime_cfg_bank_is_valid (banks ! i) (of_nat i) \<and> rc_cfg (banks ! i) = canonical' \<and>
        llps_runtime_cfg_bank_is_valid (banks ! j) (of_nat j) \<and> rc_cfg (banks ! j) = canonical')
    else canonical' = canonical \<and> banks' = banks \<and>
      sc' = LLPS_MEMORY_SAFETY_COUNTER_INC runtime_cfg_majority_failures_update sc"
proof -
  obtain r b c where r: "rcfg.reconcile banks sc = (r, b, c)" by (cases "rcfg.reconcile banks sc") auto
  show ?thesis
  proof (cases r)
    case None
    then show ?thesis using assms rcfg.reconcile_fails [OF assms(1), of sc] r by (simp add: cfg_reconcile_eq)
  next
    case (Some cfg)
    then have eqs: "ok" "canonical' = cfg" using assms(2) r by (simp_all add: cfg_reconcile_eq)
    obtain i j where ij: "i < 3" "j < 3" "i \<noteq> j" "rcfg.holds banks i cfg" "rcfg.holds banks j cfg"
      using rcfg.reconcile_sound [OF assms(1)] r Some by blast
    then show ?thesis using rcfg.holds_ok eqs unfolding rcfg.holds_def by auto
  qed
qed

theorem runtime_cfg_reconcile_sound_witness:
  "let sc = \<lparr>g_memory_safety_counters = zero_counters, g_memory_safety_counters_crc = 0,
        g_memory_safety_counters_crc_inverse = 0\<rparr>;
       banks = replicate 3 ((cfg_bank_from 0 zero_cfg)\<lparr>rc_magic_start := 0\<rparr>)
   in llps_runtime_cfg_reconcile example_cfg banks sc =
     (False, example_cfg, banks, LLPS_MEMORY_SAFETY_COUNTER_INC runtime_cfg_majority_failures_update sc)"
proof -
  let ?sc = "\<lparr>g_memory_safety_counters = zero_counters, g_memory_safety_counters_crc = 0,
        g_memory_safety_counters_crc_inverse = 0\<rparr>"
  let ?b = "replicate 3 ((cfg_bank_from 0 zero_cfg)\<lparr>rc_magic_start := 0\<rparr>)"
  obtain ok c b s where r: "llps_runtime_cfg_reconcile example_cfg ?b ?sc = (ok, c, b, s)"
    by (metis prod_cases4)
  have bad: "\<not> llps_runtime_cfg_bank_is_valid (?b ! i) (of_nat i)" if "i < 3" for i
    using that by (intro cfg_zero_magic_invalid) simp_all
  have "\<not> ok" using runtime_cfg_reconcile_sound [OF _ r] bad by (auto split: if_splits)
  then show ?thesis unfolding Let_def using runtime_cfg_reconcile_sound [OF _ r] r by simp
qed

text \<open>
  the startup self-test passes whenever the canonical configuration is valid and at least two
  banks hold it: the single-bank repair, the three-way disagreement and the double failure each
  behave as intended, all three coverage bits are set, and configuration and banks are restored.
\<close>

theorem runtime_cfg_self_test_passes:
  assumes "length banks = 3"
    "\<forall>i < 3. i = k \<or> llps_runtime_cfg_bank_is_valid (banks ! i) (of_nat i) \<and> rc_cfg (banks ! i) = cfg"
  shows "\<exists>sc'. llps_runtime_cfg_tmr_startup_self_test (cfg, coverage, banks, sc) =
    (True, cfg, coverage OR LLPS_TMR_SELF_TEST_RUNTIME_CFG_SINGLE_REPAIR OR
       LLPS_TMR_SELF_TEST_RUNTIME_CFG_NO_MAJORITY_FAIL_CLOSED OR
       LLPS_TMR_SELF_TEST_RUNTIME_CFG_DUAL_FAIL_CLOSED, banks, sc')"
proof -
  have held: "\<And>i. i < 3 \<Longrightarrow> i \<noteq> k \<Longrightarrow> rcfg.holds banks i cfg" using assms(2) by (auto simp: rcfg.holds_def)
  obtain b1 sc1 where r1: "llps_runtime_cfg_reconcile cfg banks sc = (True, cfg, b1, sc1)"
    and b1: "length b1 = 3" "\<forall>i < 3. rcfg.holds b1 i cfg" using cfg_reconcile_spared [OF assms(1) held] by blast
  have valid: "llps_runtime_cfg_values_are_valid cfg" using b1(2) rcfg.holds_ok by (meson zero_less_numeral)
  obtain b2 sc2 where r2: "llps_runtime_cfg_self_test_single_repair cfg (cfg, coverage, b1, sc1) =
      (True, cfg, coverage OR LLPS_TMR_SELF_TEST_RUNTIME_CFG_SINGLE_REPAIR, b2, sc2)" and b2: "length b2 = 3"
    using cfg_single_repair_passes [OF b1] by blast
  let ?c2 = "coverage OR LLPS_TMR_SELF_TEST_RUNTIME_CFG_SINGLE_REPAIR"
  obtain b3 sc3 where r3: "llps_runtime_cfg_self_test_no_majority cfg (cfg, ?c2, b2, sc2) =
      (True, cfg, ?c2 OR LLPS_TMR_SELF_TEST_RUNTIME_CFG_NO_MAJORITY_FAIL_CLOSED, b3, sc3)" and b3: "length b3 = 3"
    using cfg_no_majority_passes [OF b2 valid] by blast
  let ?c3 = "?c2 OR LLPS_TMR_SELF_TEST_RUNTIME_CFG_NO_MAJORITY_FAIL_CLOSED"
  obtain c4 b4 sc4 where r4: "llps_runtime_cfg_self_test_dual_fail cfg (cfg, ?c3, b3, sc3) =
      (True, c4, ?c3 OR LLPS_TMR_SELF_TEST_RUNTIME_CFG_DUAL_FAIL_CLOSED, b4, sc4)" and b4: "length b4 = 3"
    using cfg_dual_fail_passes [OF b3] by blast
  have rest: "llps_runtime_cfg_restore_banks (llps_runtime_cfg_save_banks banks) b4 = banks"
    unfolding llps_runtime_cfg_restore_banks_def llps_runtime_cfg_save_banks_def
    by (rule restore_three [OF assms(1) b4])
  have eq: "llps_runtime_cfg_equal cfg cfg" by (simp add: runtime_cfg_equal_iff)
  show ?thesis
    unfolding llps_runtime_cfg_tmr_startup_self_test_def Let_def prod.case r1
    by (simp only: simp_thms eq if_True r2 r3 r4 prod.case rest) (simp add: or.assoc)
qed

theorem runtime_cfg_self_test_passes_witness:
  "\<exists>sc'. llps_runtime_cfg_tmr_startup_self_test
    (example_cfg, 0, map (\<lambda>i. cfg_bank_from i example_cfg) [0..<3],
     \<lparr>g_memory_safety_counters = zero_counters, g_memory_safety_counters_crc = 0,
        g_memory_safety_counters_crc_inverse = 0\<rparr>) =
    (True, example_cfg, 0 OR LLPS_TMR_SELF_TEST_RUNTIME_CFG_SINGLE_REPAIR OR
       LLPS_TMR_SELF_TEST_RUNTIME_CFG_NO_MAJORITY_FAIL_CLOSED OR
       LLPS_TMR_SELF_TEST_RUNTIME_CFG_DUAL_FAIL_CLOSED, map (\<lambda>i. cfg_bank_from i example_cfg) [0..<3], sc')"
  by (rule runtime_cfg_self_test_passes [of _ 0]) (simp_all add: cfg_bank_from_valid example_cfg_valid)

end
