(* ===== verification/Free_List_Tmr.thy ===== *)
theory Free_List_Tmr
  imports Runtime_Cfg_Tmr
begin

text \<open>
  The list of free session slots kept in three guarded banks:
  \<^verbatim>\<open>src/session/llps_free_list_tmr.c\<close>. A vote first reconciles the runtime configuration,
  whose client limit bounds the count a bank may hold.
\<close>

section \<open>Definitions\<close>

record llps_free_list_bank_t =
  fl_magic_start :: u32
  fl_bank_id :: u32
  fl_count :: u32
  fl_count_inverse :: u32
  fl_entries :: "u32 list"
  fl_entries_inverse :: "u32 list"
  fl_crc :: u32
  fl_crc_inverse :: u32
  fl_magic_end :: u32

record llps_free_list_snapshot_t =
  fls_count :: u32
  fls_entries :: "u32 list"

text \<open>
  The state the routines work on: the canonical runtime configuration and its banks, the banks of
  the free list, and the safety counters.
\<close>

record free_list_env =
  env_runtime_cfg :: llps_yml_config_t
  env_cfg_banks :: "llps_runtime_cfg_bank_t list"
  env_free_banks :: "llps_free_list_bank_t list"
  env_counters :: safety_counters

definition llps_free_list_bank_magic_for_bank :: "u32 \<Rightarrow> u32" where
  "llps_free_list_bank_magic_for_bank n = 0xF3EE1157 XOR (0x01020408 * (n + 1))"

definition llps_free_list_bank_compute_crc :: "llps_free_list_bank_t \<Rightarrow> u32" where
  "llps_free_list_bank_compute_crc bank =
     (let crc = LLPS_SESSION_CRC_INIT;
          crc = llps_crc32_update_u32 crc (fl_magic_start bank);
          crc = llps_crc32_update_u32 crc (fl_bank_id bank);
          crc = llps_crc32_update_u32 crc (fl_count bank);
          crc = llps_crc32_update_u32 crc (fl_count_inverse bank);
          crc = foldl (\<lambda>crc (e, v). llps_crc32_update_u32 (llps_crc32_update_u32 crc e) v) crc
            (zip (fl_entries bank) (fl_entries_inverse bank));
          crc = llps_crc32_update_u32 crc (fl_magic_end bank)
      in crc XOR LLPS_SESSION_CRC_XOROUT)"

definition llps_free_list_snapshot_equal ::
    "llps_free_list_snapshot_t \<Rightarrow> llps_free_list_snapshot_t \<Rightarrow> bool" where
  "llps_free_list_snapshot_equal lhs rhs =
     (if fls_count lhs \<noteq> fls_count rhs then False
      else list_all2 (=) (fls_entries lhs) (fls_entries rhs))"

definition llps_free_list_bank_is_valid :: "llps_free_list_bank_t \<Rightarrow> u32 \<Rightarrow> u32 \<Rightarrow> bool" where
  "llps_free_list_bank_is_valid bank expected_bank_id limit =
     (let magic = llps_free_list_bank_magic_for_bank expected_bank_id
      in if fl_magic_start bank \<noteq> magic \<or> fl_magic_end bank \<noteq> magic \<or>
            fl_bank_id bank \<noteq> expected_bank_id \<or> fl_count bank > limit \<or>
            fl_count_inverse bank \<noteq> NOT (fl_count bank)
         then False
         else if \<not> list_all2 (\<lambda>v e. v = NOT e) (fl_entries_inverse bank) (fl_entries bank)
         then False
         else fl_crc_inverse bank = NOT (fl_crc bank) \<and>
              fl_crc bank = llps_free_list_bank_compute_crc bank)"

definition llps_free_list_bank_to_snapshot :: "llps_free_list_bank_t \<Rightarrow> llps_free_list_snapshot_t" where
  "llps_free_list_bank_to_snapshot bank = \<lparr>fls_count = fl_count bank, fls_entries = fl_entries bank\<rparr>"

definition llps_free_list_bank_from_snapshot ::
    "llps_free_list_bank_t \<Rightarrow> u32 \<Rightarrow> llps_free_list_snapshot_t \<Rightarrow> llps_free_list_bank_t" where
  "llps_free_list_bank_from_snapshot bank n snapshot =
     (let magic = llps_free_list_bank_magic_for_bank n;
          bank = bank\<lparr>fl_magic_start := magic, fl_bank_id := n, fl_count := fls_count snapshot,
            fl_count_inverse := NOT (fls_count snapshot), fl_entries := fls_entries snapshot,
            fl_entries_inverse := map (\<lambda>e. NOT e) (fls_entries snapshot), fl_magic_end := magic\<rparr>;
          bank = bank\<lparr>fl_crc := llps_free_list_bank_compute_crc bank\<rparr>
      in bank\<lparr>fl_crc_inverse := NOT (fl_crc bank)\<rparr>)"

definition llps_free_list_snapshot_from_canonical :: "u32 list \<Rightarrow> u32 \<Rightarrow> llps_free_list_snapshot_t" where
  "llps_free_list_snapshot_from_canonical entries count = \<lparr>fls_count = count, fls_entries = entries\<rparr>"

text \<open>The canonical entries and count after copying a snapshot over them.\<close>

definition llps_free_list_apply_snapshot :: "llps_free_list_snapshot_t \<Rightarrow> u32 list \<times> u32" where
  "llps_free_list_apply_snapshot snapshot = (fls_entries snapshot, fls_count snapshot)"

definition llps_free_list_write_all_from_snapshot ::
    "llps_free_list_snapshot_t \<Rightarrow> llps_free_list_bank_t list \<Rightarrow> llps_free_list_bank_t list" where
  "llps_free_list_write_all_from_snapshot snapshot banks =
     foldl (\<lambda>banks i. banks[i := llps_free_list_bank_from_snapshot (banks ! i) (of_nat i) snapshot])
       banks [0..<LLPS_SESSION_TMR_BANK_COUNT]"

definition llps_free_list_write_all_from_canonical ::
    "u32 list \<Rightarrow> u32 \<Rightarrow> llps_free_list_bank_t list \<Rightarrow> llps_free_list_bank_t list" where
  "llps_free_list_write_all_from_canonical entries count banks =
     llps_free_list_write_all_from_snapshot (llps_free_list_snapshot_from_canonical entries count) banks"

definition llps_free_list_repair_divergent_banks ::
    "bool list \<Rightarrow> llps_free_list_snapshot_t list \<Rightarrow> llps_free_list_snapshot_t \<Rightarrow>
     llps_free_list_bank_t list \<times> safety_counters \<Rightarrow> llps_free_list_bank_t list \<times> safety_counters" where
  "llps_free_list_repair_divergent_banks valid snapshots majority st =
     foldl (\<lambda>(banks, sc) i.
         if \<not> valid ! i \<or> \<not> llps_free_list_snapshot_equal (snapshots ! i) majority
         then (banks[i := llps_free_list_bank_from_snapshot (banks ! i) (of_nat i) majority],
               LLPS_MEMORY_SAFETY_COUNTER_INC free_list_single_bank_repairs_update sc)
         else (banks, sc))
       st [0..<LLPS_SESSION_TMR_BANK_COUNT]"

definition zero_free_snapshot :: llps_free_list_snapshot_t where
  "zero_free_snapshot = \<lparr>fls_count = 0, fls_entries = replicate 256 0\<rparr>"

text \<open>
  \<open>None\<close> is the result \<^verbatim>\<open>false\<close>; \<open>Some s\<close> is \<^verbatim>\<open>true\<close> with \<open>s\<close> in \<^verbatim>\<open>*out_snapshot\<close>.
\<close>

definition llps_free_list_vote ::
    "free_list_env \<Rightarrow> llps_free_list_snapshot_t option \<times> free_list_env" where
  "llps_free_list_vote env =
     (case llps_runtime_cfg_reconcile (env_runtime_cfg env) (env_cfg_banks env) (env_counters env) of
        (cfg_ok, cfg, cfg_banks, sc) \<Rightarrow>
          (let env = env\<lparr>env_runtime_cfg := cfg, env_cfg_banks := cfg_banks, env_counters := sc\<rparr>;
               banks = env_free_banks env;
               valid = map (\<lambda>i. llps_free_list_bank_is_valid (banks ! i) (of_nat i) (max_clients cfg))
                 [0..<LLPS_SESSION_TMR_BANK_COUNT];
               snapshots = map (\<lambda>i. if valid ! i then llps_free_list_bank_to_snapshot (banks ! i)
                                    else zero_free_snapshot) [0..<LLPS_SESSION_TMR_BANK_COUNT];
               valid_count = length (filter id valid)
           in if \<not> cfg_ok then (None, env)
              else if valid_count < 2
              then (None, env\<lparr>env_free_banks := banks,
                env_counters := LLPS_MEMORY_SAFETY_COUNTER_INC free_list_majority_failures_update sc\<rparr>)
              else (case llps_tmr_vote_find_matching_pair valid
                          (llps_free_list_snapshot_equal (snapshots ! 0) (snapshots ! 1))
                          (llps_free_list_snapshot_equal (snapshots ! 0) (snapshots ! 2))
                          (llps_free_list_snapshot_equal (snapshots ! 1) (snapshots ! 2)) of
                      None \<Rightarrow> (None, env\<lparr>env_free_banks := banks, env_counters :=
                        LLPS_MEMORY_SAFETY_COUNTER_INC free_list_majority_failures_update sc\<rparr>)
                    | Some majority_index \<Rightarrow>
                        (case llps_free_list_repair_divergent_banks valid snapshots
                                (snapshots ! majority_index) (banks, sc) of
                           (banks', sc') \<Rightarrow> (Some (snapshots ! majority_index),
                             env\<lparr>env_free_banks := banks', env_counters := sc'\<rparr>)))))"

text \<open>The result, the canonical entries and count, and the environment.\<close>

definition llps_free_list_reconcile ::
    "u32 list \<times> u32 \<Rightarrow> free_list_env \<Rightarrow> bool \<times> (u32 list \<times> u32) \<times> free_list_env" where
  "llps_free_list_reconcile canonical env =
     (case llps_free_list_vote env of
        (None, env') \<Rightarrow> (False, canonical, env')
      | (Some snapshot, env') \<Rightarrow> (True, llps_free_list_apply_snapshot snapshot, env'))"

subsection \<open>The startup self-test\<close>

abbreviation LLPS_TMR_SELF_TEST_FREE_LIST_SINGLE_REPAIR :: u32 where
  "LLPS_TMR_SELF_TEST_FREE_LIST_SINGLE_REPAIR \<equiv> 0x40"

abbreviation LLPS_TMR_SELF_TEST_FREE_LIST_DUAL_FAIL_CLOSED :: u32 where
  "LLPS_TMR_SELF_TEST_FREE_LIST_DUAL_FAIL_CLOSED \<equiv> 0x80"

abbreviation LLPS_TMR_SELF_TEST_FREE_LIST_NO_MAJORITY_FAIL_CLOSED :: u32 where
  "LLPS_TMR_SELF_TEST_FREE_LIST_NO_MAJORITY_FAIL_CLOSED \<equiv> 0x100"

definition llps_free_list_save_banks :: "llps_free_list_bank_t list \<Rightarrow> llps_free_list_bank_t list" where
  "llps_free_list_save_banks banks = map (\<lambda>i. banks ! i) [0..<LLPS_SESSION_TMR_BANK_COUNT]"

definition llps_free_list_restore_banks ::
    "llps_free_list_bank_t list \<Rightarrow> llps_free_list_bank_t list \<Rightarrow> llps_free_list_bank_t list" where
  "llps_free_list_restore_banks saved banks =
     foldl (\<lambda>banks i. banks[i := saved ! i]) banks [0..<LLPS_SESSION_TMR_BANK_COUNT]"

definition set_fl_magic_start :: "nat \<Rightarrow> (u32 \<Rightarrow> u32) \<Rightarrow> free_list_env \<Rightarrow> free_list_env" where
  "set_fl_magic_start i f env =
     env\<lparr>env_free_banks := (env_free_banks env)[i := fl_magic_start_update f (env_free_banks env ! i)]\<rparr>"

text \<open>A test case works on the canonical list, the coverage word and the environment.\<close>

type_synonym free_test_state = "(u32 list \<times> u32) \<times> u32 \<times> free_list_env"

definition llps_free_list_self_test_single_repair :: "free_test_state \<Rightarrow> bool \<times> free_test_state" where
  "llps_free_list_self_test_single_repair =
     (\<lambda>(canonical, coverage, env).
       (let (ok, canonical', env') = llps_free_list_reconcile canonical
              (set_fl_magic_start 0 (\<lambda>m. m XOR UINT32_MAX) env);
            passed = (ok \<and> llps_free_list_bank_is_valid (env_free_banks env' ! 0) 0
              (max_clients (env_runtime_cfg env')))
        in (passed, canonical',
            if passed then coverage OR LLPS_TMR_SELF_TEST_FREE_LIST_SINGLE_REPAIR else coverage, env')))"

definition llps_free_list_self_test_no_majority ::
    "llps_free_list_snapshot_t \<Rightarrow> free_test_state \<Rightarrow> bool \<times> free_test_state" where
  "llps_free_list_self_test_no_majority expected =
     (\<lambda>(canonical, coverage, env).
       if fls_count expected < 2 then (False, canonical, coverage, env)
       else
        (let s0 = expected\<lparr>fls_entries := (fls_entries expected)[0 := fls_entries expected ! 0 XOR 1]\<rparr>;
             s1 = expected\<lparr>fls_entries := (fls_entries expected)[1 := fls_entries expected ! 1 XOR 2]\<rparr>;
             s2 = expected\<lparr>fls_count := fls_count expected XOR 1\<rparr>;
             banks = env_free_banks env;
             banks = banks[0 := llps_free_list_bank_from_snapshot (banks ! 0) 0 s0];
             banks = banks[1 := llps_free_list_bank_from_snapshot (banks ! 1) 1 s1];
             banks = banks[2 := llps_free_list_bank_from_snapshot (banks ! 2) 2 s2];
             (result, env') = llps_free_list_vote (env\<lparr>env_free_banks := banks\<rparr>);
             passed = (result = None)
         in (passed, canonical,
             if passed then coverage OR LLPS_TMR_SELF_TEST_FREE_LIST_NO_MAJORITY_FAIL_CLOSED
             else coverage, env')))"

definition llps_free_list_self_test_dual_fail ::
    "llps_free_list_snapshot_t \<Rightarrow> free_test_state \<Rightarrow> bool \<times> free_test_state" where
  "llps_free_list_self_test_dual_fail expected =
     (\<lambda>(canonical, coverage, env).
       (let env = env\<lparr>env_free_banks := llps_free_list_write_all_from_snapshot expected (env_free_banks env)\<rparr>;
            env = set_fl_magic_start 0 (\<lambda>_. 0) env;
            env = set_fl_magic_start 1 (\<lambda>_. 0) env;
            (ok, canonical', env') = llps_free_list_reconcile canonical env
        in (\<not> ok, canonical',
            if \<not> ok then coverage OR LLPS_TMR_SELF_TEST_FREE_LIST_DUAL_FAIL_CLOSED else coverage, env')))"

definition llps_free_list_self_test_run_cases ::
    "llps_free_list_snapshot_t \<Rightarrow> free_test_state \<Rightarrow> bool \<times> free_test_state" where
  "llps_free_list_self_test_run_cases expected st =
     (let (passed1, st1) = llps_free_list_self_test_single_repair st;
          actual = (case st1 of ((entries, count), _) \<Rightarrow>
            llps_free_list_snapshot_from_canonical entries count);
          passed2 = (passed1 \<and> llps_free_list_snapshot_equal expected actual);
          (passed3, st3) = (if passed2 then llps_free_list_self_test_no_majority expected st1
                            else (passed2, st1))
      in if passed3 then llps_free_list_self_test_dual_fail expected st3 else (passed3, st3))"

definition llps_free_list_tmr_startup_self_test :: "free_test_state \<Rightarrow> bool \<times> free_test_state" where
  "llps_free_list_tmr_startup_self_test =
     (\<lambda>((entries, count), coverage, env).
       (let saved = llps_free_list_snapshot_from_canonical entries count;
            saved_banks = llps_free_list_save_banks (env_free_banks env);
            (ok, canonical1, env1) = llps_free_list_reconcile (entries, count) env;
            (passed, (canonical2, coverage2, env2)) =
              (if ok then llps_free_list_self_test_run_cases saved (canonical1, coverage, env1)
               else (ok, (canonical1, coverage, env1)))
        in (passed, llps_free_list_apply_snapshot saved, coverage2,
            env2\<lparr>env_free_banks := llps_free_list_restore_banks saved_banks (env_free_banks env2)\<rparr>)))"

text \<open>A bank written over cleared memory.\<close>

definition free_bank_from :: "nat \<Rightarrow> llps_free_list_snapshot_t \<Rightarrow> llps_free_list_bank_t" where
  "free_bank_from i snapshot = llps_free_list_bank_from_snapshot
     \<lparr>fl_magic_start = 0, fl_bank_id = 0, fl_count = 0, fl_count_inverse = 0, fl_entries = [],
      fl_entries_inverse = [], fl_crc = 0, fl_crc_inverse = 0, fl_magic_end = 0\<rparr> (of_nat i) snapshot"

text \<open>All configuration banks but possibly \<open>k\<close> hold \<open>cfg\<close>; all free-list banks but \<open>k\<close> hold \<open>s\<close>.\<close>

definition cfg_held :: "nat \<Rightarrow> llps_yml_config_t \<Rightarrow> free_list_env \<Rightarrow> bool" where
  "cfg_held k cfg env \<longleftrightarrow> length (env_cfg_banks env) = 3 \<and>
     (\<forall>i < 3. i = k \<or> llps_runtime_cfg_bank_is_valid (env_cfg_banks env ! i) (of_nat i) \<and>
        rc_cfg (env_cfg_banks env ! i) = cfg)"

definition free_held :: "nat \<Rightarrow> u32 \<Rightarrow> llps_free_list_snapshot_t \<Rightarrow> free_list_env \<Rightarrow> bool" where
  "free_held k limit s env \<longleftrightarrow> length (env_free_banks env) = 3 \<and>
     (\<forall>i < 3. i = k \<or> llps_free_list_bank_is_valid (env_free_banks env ! i) (of_nat i) limit \<and>
        llps_free_list_bank_to_snapshot (env_free_banks env ! i) = s)"

section \<open>The banks as a triply kept value\<close>

lemma free_bank_from_eq [bank_simps]:
  "llps_free_list_bank_from_snapshot bank (of_nat i) snapshot = free_bank_from i snapshot"
  by (cases bank) (simp add: free_bank_from_def llps_free_list_bank_from_snapshot_def Let_def
      llps_free_list_bank_compute_crc_def)

lemma free_snapshot_equal_iff: "llps_free_list_snapshot_equal s t \<longleftrightarrow> s = t"
  unfolding llps_free_list_snapshot_equal_def list_all2_eq [symmetric]
  by (cases s; cases t) auto

lemma free_bank_from_valid:
  "llps_free_list_bank_is_valid (free_bank_from i s) (of_nat i) limit \<longleftrightarrow> fls_count s \<le> limit"
  by (auto simp: llps_free_list_bank_is_valid_def free_bank_from_def llps_free_list_bank_from_snapshot_def
      Let_def llps_free_list_bank_compute_crc_def list_all2_map1 list.rel_refl)

lemma free_bank_to_from: "llps_free_list_bank_to_snapshot (free_bank_from i s) = s"
  by (cases s) (simp add: llps_free_list_bank_to_snapshot_def free_bank_from_def
      llps_free_list_bank_from_snapshot_def Let_def)

interpretation flist: tmr_bank
  "\<lambda>i b. llps_free_list_bank_is_valid b (of_nat i) limit" llps_free_list_bank_to_snapshot
  zero_free_snapshot llps_free_list_snapshot_equal free_bank_from "\<lambda>s. fls_count s \<le> limit"
  "LLPS_MEMORY_SAFETY_COUNTER_INC free_list_single_bank_repairs_update"
  "LLPS_MEMORY_SAFETY_COUNTER_INC free_list_majority_failures_update" for limit
proof
  show "fls_count (llps_free_list_bank_to_snapshot b) \<le> limit"
    if "llps_free_list_bank_is_valid b (of_nat i) limit" for i b
    using that by (simp add: llps_free_list_bank_is_valid_def llps_free_list_bank_to_snapshot_def Let_def
        linorder_not_less split: if_splits)
qed (simp_all add: free_bank_from_valid free_bank_to_from free_snapshot_equal_iff)

lemma free_repair_eq:
  "llps_free_list_repair_divergent_banks valid snapshots majority =
   tmr_repair_divergent_banks llps_free_list_snapshot_equal free_bank_from
     (LLPS_MEMORY_SAFETY_COUNTER_INC free_list_single_bank_repairs_update) valid snapshots majority"
  unfolding llps_free_list_repair_divergent_banks_def tmr_repair_divergent_banks_def bank_simps ..

lemma free_vote_eq:
  "llps_free_list_vote env =
     (case llps_runtime_cfg_reconcile (env_runtime_cfg env) (env_cfg_banks env) (env_counters env) of
        (cfg_ok, cfg, cfg_banks, sc) \<Rightarrow>
          (let env = env\<lparr>env_runtime_cfg := cfg, env_cfg_banks := cfg_banks, env_counters := sc\<rparr>
           in if \<not> cfg_ok then (None, env)
              else (case flist.reconcile (max_clients cfg) (env_free_banks env) sc of (r, banks, sc') \<Rightarrow>
                (r, env\<lparr>env_free_banks := banks, env_counters := sc'\<rparr>))))"
  unfolding flist.reconcile_def tmr_reconcile_def llps_free_list_vote_def free_repair_eq Let_def case_vote ..

lemma free_write_all_eq:
  "length banks = 3 \<Longrightarrow> llps_free_list_write_all_from_snapshot s banks = tmr_write_all free_bank_from s"
  by (auto simp: llps_free_list_write_all_from_snapshot_def tmr_write_all_def bank_simps upt_bank_count
      length_3_iff)

section \<open>Voting\<close>

text \<open>Bank number 3 does not exist: sparing it means that all three banks hold the value.\<close>

lemma cfg_held_3: "cfg_held 3 cfg env \<Longrightarrow> cfg_held k cfg env"
  by (auto simp: cfg_held_def)

lemma free_held_3: "free_held 3 limit s env \<Longrightarrow> free_held k limit s env"
  by (auto simp: free_held_def)

lemma free_vote_cfg_held:
  assumes "cfg_held k cfg env"
  shows "\<exists>cfg_banks sc. llps_free_list_vote env =
      (case flist.reconcile (max_clients cfg) (env_free_banks env) sc of (r, banks, sc') \<Rightarrow>
        (r, env\<lparr>env_runtime_cfg := cfg, env_cfg_banks := cfg_banks, env_free_banks := banks,
              env_counters := sc'\<rparr>)) \<and>
    (\<forall>env'. env_cfg_banks env' = cfg_banks \<longrightarrow> cfg_held 3 cfg env')"
proof -
  have len: "length (env_cfg_banks env) = 3" using assms by (simp add: cfg_held_def)
  have held: "\<And>i. i < 3 \<Longrightarrow> i \<noteq> k \<Longrightarrow> rcfg.holds (env_cfg_banks env) i cfg"
    using assms by (auto simp: cfg_held_def rcfg.holds_def)
  obtain b c where r: "llps_runtime_cfg_reconcile (env_runtime_cfg env) (env_cfg_banks env) (env_counters env) =
      (True, cfg, b, c)" and b: "length b = 3" "\<forall>i < 3. rcfg.holds b i cfg"
    using cfg_reconcile_spared [OF len held] by blast
  show ?thesis
    using b by (intro exI [of _ b] exI [of _ c])
      (simp add: free_vote_eq r Let_def cfg_held_def rcfg.holds_def)
qed

lemma free_reconcile_held:
  assumes "cfg_held k cfg env" "free_held l (max_clients cfg) s env"
  shows "\<exists>env'. llps_free_list_reconcile canonical env = (True, (fls_entries s, fls_count s), env') \<and>
    cfg_held 3 cfg env' \<and> free_held 3 (max_clients cfg) s env' \<and> env_runtime_cfg env' = cfg"
proof -
  obtain cfg_banks sc where v: "llps_free_list_vote env =
      (case flist.reconcile (max_clients cfg) (env_free_banks env) sc of (r, banks, sc') \<Rightarrow>
        (r, env\<lparr>env_runtime_cfg := cfg, env_cfg_banks := cfg_banks, env_free_banks := banks,
              env_counters := sc'\<rparr>))"
    and c: "\<And>env'. env_cfg_banks env' = cfg_banks \<Longrightarrow> cfg_held 3 cfg env'"
    using free_vote_cfg_held [OF assms(1)] by blast
  obtain b d where "flist.reconcile (max_clients cfg) (env_free_banks env) sc = (Some s, b, d)" "length b = 3"
    "\<forall>i < 3. flist.holds (max_clients cfg) b i s"
    using flist.reconcile_spared [of "env_free_banks env" l "max_clients cfg" s sc] assms(2)
    by (auto simp: free_held_def flist.holds_def)
  then show ?thesis
    by (simp add: llps_free_list_reconcile_def v llps_free_list_apply_snapshot_def c free_held_def flist.holds_def)
qed

lemma free_vote_None:
  assumes "cfg_held k cfg env"
    and "\<And>sc. flist.reconcile (max_clients cfg) (env_free_banks env) sc =
      (None, env_free_banks env, LLPS_MEMORY_SAFETY_COUNTER_INC free_list_majority_failures_update sc)"
  shows "\<exists>env'. llps_free_list_vote env = (None, env') \<and> cfg_held 3 cfg env' \<and>
    env_free_banks env' = env_free_banks env"
proof -
  obtain cfg_banks sc where v: "llps_free_list_vote env =
      (case flist.reconcile (max_clients cfg) (env_free_banks env) sc of (r, banks, sc') \<Rightarrow>
        (r, env\<lparr>env_runtime_cfg := cfg, env_cfg_banks := cfg_banks, env_free_banks := banks,
              env_counters := sc'\<rparr>))"
    and c: "\<And>env'. env_cfg_banks env' = cfg_banks \<Longrightarrow> cfg_held 3 cfg env'"
    using free_vote_cfg_held [OF assms(1)] by blast
  show ?thesis unfolding v assms(2) by (simp add: c)
qed

section \<open>The startup self-test\<close>

lemma free_zero_magic_invalid:
  "fl_magic_start b = 0 \<Longrightarrow> i < 3 \<Longrightarrow> \<not> llps_free_list_bank_is_valid b (of_nat i) limit"
  by (auto simp: llps_free_list_bank_is_valid_def llps_free_list_bank_magic_for_bank_def Let_def less_3_cases)

lemma free_single_repair_passes:
  assumes "cfg_held 3 cfg env" "free_held 3 (max_clients cfg) s env"
  shows "\<exists>env'. llps_free_list_self_test_single_repair (canonical, coverage, env) =
    (True, (fls_entries s, fls_count s), coverage OR LLPS_TMR_SELF_TEST_FREE_LIST_SINGLE_REPAIR, env') \<and>
    cfg_held 3 cfg env' \<and> free_held 3 (max_clients cfg) s env'"
proof -
  let ?env = "set_fl_magic_start 0 (\<lambda>m. m XOR UINT32_MAX) env"
  have h: "cfg_held 3 cfg ?env" "free_held 0 (max_clients cfg) s ?env"
    using assms by (auto simp: set_fl_magic_start_def cfg_held_def free_held_def)
  obtain env' where r: "llps_free_list_reconcile canonical ?env = (True, (fls_entries s, fls_count s), env')"
    and h': "cfg_held 3 cfg env'" "free_held 3 (max_clients cfg) s env'" "env_runtime_cfg env' = cfg"
    using free_reconcile_held [OF h] by blast
  have "llps_free_list_bank_is_valid (env_free_banks env' ! 0) 0 (max_clients cfg)"
    using h'(2) by (auto simp: free_held_def dest: spec [of _ 0])
  then show ?thesis using h' by (simp add: llps_free_list_self_test_single_repair_def r)
qed

lemma free_no_majority_passes:
  assumes "cfg_held 3 cfg env" "length (env_free_banks env) = 3" "2 \<le> fls_count s" "2 \<le> length (fls_entries s)"
  shows "\<exists>env'. llps_free_list_self_test_no_majority s (canonical, coverage, env) =
    (True, canonical, coverage OR LLPS_TMR_SELF_TEST_FREE_LIST_NO_MAJORITY_FAIL_CLOSED, env') \<and>
    cfg_held 3 cfg env' \<and> length (env_free_banks env') = 3"
proof -
  let ?s0 = "s\<lparr>fls_entries := (fls_entries s)[0 := fls_entries s ! 0 XOR 1]\<rparr>"
  let ?s1 = "s\<lparr>fls_entries := (fls_entries s)[1 := fls_entries s ! 1 XOR 2]\<rparr>"
  let ?s2 = "s\<lparr>fls_count := fls_count s XOR 1\<rparr>"
  let ?new = "[free_bank_from 0 ?s0, free_bank_from 1 ?s1, free_bank_from 2 ?s2]"
  have flip: "w XOR c \<noteq> w" if "c \<noteq> 0" for w c :: u32 using that by (metis xor_cancel_left xor_self_eq)
  have "fls_entries ?s0 ! 0 \<noteq> fls_entries ?s1 ! 0"
    using assms(4) flip [of 1] by (cases "fls_entries s") auto
  then have d01: "?s0 \<noteq> ?s1" by metis
  have "fls_count ?s0 \<noteq> fls_count ?s2" "fls_count ?s1 \<noteq> fls_count ?s2" using flip [of 1 "fls_count s"] by auto
  then have d2: "?s0 \<noteq> ?s2" "?s1 \<noteq> ?s2" by metis+
  obtain b0 b1 b2 where b: "env_free_banks env = [b0, b1, b2]" using assms(2) by (auto simp: length_3_iff)
  have f: "llps_free_list_bank_from_snapshot x 0 t = free_bank_from 0 t"
    "llps_free_list_bank_from_snapshot x 1 t = free_bank_from 1 t"
    "llps_free_list_bank_from_snapshot x 2 t = free_bank_from 2 t" for x t
    using free_bank_from_eq [of x 0 t] free_bank_from_eq [of x 1 t] free_bank_from_eq [of x 2 t] by simp_all
  have fail: "flist.reconcile (max_clients cfg) ?new sc =
      (None, ?new, LLPS_MEMORY_SAFETY_COUNTER_INC free_list_majority_failures_update sc)" for sc
  proof (rule flist.reconcile_no_pair)
    fix i j :: nat assume "i < j" "j < 3"
    then have "(i, j) \<in> {(0, 1), (0, 2), (1, 2)}" by auto
    then show "llps_free_list_bank_to_snapshot (?new ! i) \<noteq> llps_free_list_bank_to_snapshot (?new ! j)"
      using d01 d2 by (auto simp: free_bank_to_from)
  qed simp
  have "cfg_held 3 cfg (env\<lparr>env_free_banks := ?new\<rparr>)" using assms(1) by (simp add: cfg_held_def)
  then obtain env' where v: "llps_free_list_vote (env\<lparr>env_free_banks := ?new\<rparr>) = (None, env')"
    and h: "cfg_held 3 cfg env'" "env_free_banks env' = ?new"
    using free_vote_None [of 3 cfg "env\<lparr>env_free_banks := ?new\<rparr>"] fail by auto
  have ge: "\<not> fls_count s < 2" using assms(3) by simp
  have upd: "[b0, b1, b2][0 := x, 1 := y, 2 := z] = [x, y, z]" for x y z by simp
  show ?thesis
    unfolding llps_free_list_self_test_no_majority_def prod.case Let_def f b upd v if_not_P [OF ge]
    using h by simp
qed

lemma free_dual_fail_passes:
  assumes "cfg_held 3 cfg env" "length (env_free_banks env) = 3"
  shows "\<exists>env'. llps_free_list_self_test_dual_fail s (canonical, coverage, env) =
    (True, canonical, coverage OR LLPS_TMR_SELF_TEST_FREE_LIST_DUAL_FAIL_CLOSED, env') \<and>
    length (env_free_banks env') = 3"
proof -
  let ?env = "set_fl_magic_start 1 (\<lambda>_. 0) (set_fl_magic_start 0 (\<lambda>_. 0)
    (env\<lparr>env_free_banks := llps_free_list_write_all_from_snapshot s (env_free_banks env)\<rparr>))"
  let ?b = "env_free_banks ?env"
  have len: "length ?b = 3"
    by (simp add: set_fl_magic_start_def free_write_all_eq [OF assms(2)] tmr_write_all_def)
  have z: "fl_magic_start (?b ! 0) = 0" "fl_magic_start (?b ! 1) = 0"
    by (simp_all add: set_fl_magic_start_def free_write_all_eq [OF assms(2)] tmr_write_all_def)
  have dead: "flist.reconcile (max_clients cfg) ?b sc =
      (None, ?b, LLPS_MEMORY_SAFETY_COUNTER_INC free_list_majority_failures_update sc)" for sc
    using free_zero_magic_invalid [OF z(1), of 0] free_zero_magic_invalid [OF z(2), of 1]
    by (intro flist.reconcile_two_dead [OF len]) simp_all
  have "cfg_held 3 cfg ?env" using assms(1) by (simp add: cfg_held_def set_fl_magic_start_def)
  then obtain env' where v: "llps_free_list_vote ?env = (None, env')" "env_free_banks env' = ?b"
    using free_vote_None [of 3 cfg ?env] dead by blast
  then show ?thesis
    using len by (simp add: llps_free_list_self_test_dual_fail_def llps_free_list_reconcile_def Let_def)
qed

lemma free_run_cases_pass:
  assumes "cfg_held 3 cfg env" "free_held 3 (max_clients cfg) s env" "2 \<le> fls_count s" "2 \<le> length (fls_entries s)"
  shows "\<exists>canonical' env'. llps_free_list_self_test_run_cases s (canonical, coverage, env) =
    (True, canonical', coverage OR LLPS_TMR_SELF_TEST_FREE_LIST_SINGLE_REPAIR OR
       LLPS_TMR_SELF_TEST_FREE_LIST_NO_MAJORITY_FAIL_CLOSED OR
       LLPS_TMR_SELF_TEST_FREE_LIST_DUAL_FAIL_CLOSED, env') \<and> length (env_free_banks env') = 3"
proof -
  let ?c1 = "coverage OR LLPS_TMR_SELF_TEST_FREE_LIST_SINGLE_REPAIR"
  let ?c2 = "?c1 OR LLPS_TMR_SELF_TEST_FREE_LIST_NO_MAJORITY_FAIL_CLOSED"
  let ?can = "(fls_entries s, fls_count s)"
  obtain e1 where r1: "llps_free_list_self_test_single_repair (canonical, coverage, env) = (True, ?can, ?c1, e1)"
    and h1: "cfg_held 3 cfg e1" "free_held 3 (max_clients cfg) s e1"
    using free_single_repair_passes [OF assms(1,2)] by blast
  have l1: "length (env_free_banks e1) = 3" using h1(2) by (simp add: free_held_def)
  obtain e2 where r2: "llps_free_list_self_test_no_majority s (?can, ?c1, e1) = (True, ?can, ?c2, e2)"
    and h2: "cfg_held 3 cfg e2" "length (env_free_banks e2) = 3"
    using free_no_majority_passes [OF h1(1) l1 assms(3,4)] by blast
  obtain e3 where r3: "llps_free_list_self_test_dual_fail s (?can, ?c2, e2) =
      (True, ?can, ?c2 OR LLPS_TMR_SELF_TEST_FREE_LIST_DUAL_FAIL_CLOSED, e3)"
    and l3: "length (env_free_banks e3) = 3"
    using free_dual_fail_passes [OF h2] by blast
  have eq: "llps_free_list_snapshot_equal s (llps_free_list_snapshot_from_canonical (fls_entries s) (fls_count s))"
    by (simp add: free_snapshot_equal_iff llps_free_list_snapshot_from_canonical_def)
  show ?thesis
    unfolding llps_free_list_self_test_run_cases_def Let_def r1 prod.case
    by (simp only: simp_thms eq if_True r2 r3 prod.case) (use l3 in \<open>simp add: or.assoc\<close>)
qed

section \<open>Properties\<close>

text \<open>
  any upset of one free-list bank, together with any upset of one configuration bank, is
  masked: the reconciliation succeeds, returns the entries and the count that were written, and
  leaves all three free-list banks valid and equal again.
\<close>

theorem free_list_masks_one_bank:
  assumes "length (env_free_banks env) = 3" "cfg_held k cfg env" "count \<le> max_clients cfg" "l < 3"
  shows "\<exists>env'. llps_free_list_reconcile canonical
      (env\<lparr>env_free_banks :=
         (llps_free_list_write_all_from_canonical entries count (env_free_banks env))[l := b]\<rparr>) =
      (True, (entries, count), env') \<and> env_runtime_cfg env' = cfg \<and>
    free_held 3 (max_clients cfg) \<lparr>fls_count = count, fls_entries = entries\<rparr> env'"
proof -
  let ?s = "\<lparr>fls_count = count, fls_entries = entries\<rparr>"
  let ?banks = "(llps_free_list_write_all_from_canonical entries count (env_free_banks env))[l := b]"
  let ?env = "env\<lparr>env_free_banks := ?banks\<rparr>"
  have w: "?banks = (tmr_write_all free_bank_from ?s)[l := b]"
    by (simp add: llps_free_list_write_all_from_canonical_def free_write_all_eq [OF assms(1)]
        llps_free_list_snapshot_from_canonical_def)
  have "free_held l (max_clients cfg) ?s ?env"
    using assms(3) flist.holds_write_all [of ?s "max_clients cfg"]
    unfolding free_held_def flist.holds_def by (auto simp: w) (simp add: tmr_write_all_def)
  moreover have "cfg_held k cfg ?env" using assms(2) by (simp add: cfg_held_def)
  ultimately show ?thesis using free_reconcile_held [of k cfg ?env l ?s canonical] by auto
qed

theorem free_list_masks_one_bank_witness:
  "let banks = map (\<lambda>i. free_bank_from i zero_free_snapshot) [0..<3];
       env = \<lparr>env_runtime_cfg = example_cfg,
         env_cfg_banks = (map (\<lambda>i. cfg_bank_from i example_cfg) [0..<3])[0 := cfg_bank_from 1 zero_cfg],
         env_free_banks = banks,
         env_counters = \<lparr>g_memory_safety_counters = zero_counters, g_memory_safety_counters_crc = 0,
           g_memory_safety_counters_crc_inverse = 0\<rparr>\<rparr>
   in \<exists>env'. llps_free_list_reconcile ([], 0)
      (env\<lparr>env_free_banks := (llps_free_list_write_all_from_canonical [3, 7] 2 banks)[1 := banks ! 0]\<rparr>) =
      (True, ([3, 7], 2), env')"
proof -
  let ?env = "\<lparr>env_runtime_cfg = example_cfg,
         env_cfg_banks = (map (\<lambda>i. cfg_bank_from i example_cfg) [0..<3])[0 := cfg_bank_from 1 zero_cfg],
         env_free_banks = map (\<lambda>i. free_bank_from i zero_free_snapshot) [0..<3],
         env_counters = \<lparr>g_memory_safety_counters = zero_counters, g_memory_safety_counters_crc = 0,
           g_memory_safety_counters_crc_inverse = 0\<rparr>\<rparr>"
  have c: "cfg_held 0 example_cfg ?env"
    by (auto simp: cfg_held_def cfg_bank_from_valid example_cfg_valid nth_list_update)
  have m: "(2 :: u32) \<le> max_clients example_cfg" by (simp add: example_cfg_def)
  show ?thesis
    using free_list_masks_one_bank [OF _ c m, of 1 "([], 0)" "[3, 7]" "env_free_banks ?env ! 0"]
    by (auto simp: Let_def)
qed

text \<open>
  the vote over the free list is sound and fails closed. The canonical list is replaced only
  by a snapshot that two different valid banks hold, with a count within the voted client limit;
  when the vote fails the canonical list and the banks stay as they are.
\<close>

theorem free_list_reconcile_sound:
  assumes "length (env_free_banks env) = 3"
    and "llps_free_list_reconcile canonical env = (ok, canonical', env')"
  shows "if ok
    then snd canonical' \<le> max_clients (env_runtime_cfg env') \<and>
      (\<exists>i j. i < 3 \<and> j < 3 \<and> i \<noteq> j \<and> (\<forall>m \<in> {i, j}.
        llps_free_list_bank_is_valid (env_free_banks env ! m) (of_nat m) (max_clients (env_runtime_cfg env')) \<and>
        (fl_entries (env_free_banks env ! m), fl_count (env_free_banks env ! m)) = canonical'))
    else canonical' = canonical \<and> env_free_banks env' = env_free_banks env"
proof -
  obtain cok cfg cb sc where c: "llps_runtime_cfg_reconcile (env_runtime_cfg env) (env_cfg_banks env)
      (env_counters env) = (cok, cfg, cb, sc)" by (metis prod_cases4)
  obtain r b d where r: "flist.reconcile (max_clients cfg) (env_free_banks env) sc = (r, b, d)"
    by (metis prod_cases3)
  consider "\<not> cok" | "cok" "r = None" | t where "cok" "r = Some t" by (cases r) auto
  then show ?thesis
  proof cases
    case 1
    then show ?thesis using assms(2) by (auto simp: llps_free_list_reconcile_def free_vote_eq c Let_def)
  next
    case 2
    then have "b = env_free_banks env" using flist.reconcile_fails [OF assms(1), of "max_clients cfg" sc] r by simp
    then show ?thesis using 2 assms(2) by (auto simp: llps_free_list_reconcile_def free_vote_eq c r Let_def)
  next
    case 3
    then have eqs: "ok" "canonical' = (fls_entries t, fls_count t)" "env_runtime_cfg env' = cfg"
      using assms(2) by (auto simp: llps_free_list_reconcile_def free_vote_eq c r Let_def
          llps_free_list_apply_snapshot_def)
    obtain i j where ij: "i < 3" "j < 3" "i \<noteq> j" "flist.holds (max_clients cfg) (env_free_banks env) i t"
      "flist.holds (max_clients cfg) (env_free_banks env) j t"
      using flist.reconcile_sound [OF assms(1)] r 3(2) by blast
    have hold: "llps_free_list_bank_is_valid (env_free_banks env ! m) (of_nat m) (max_clients cfg) \<and>
        (fl_entries (env_free_banks env ! m), fl_count (env_free_banks env ! m)) = canonical'"
      if "m \<in> {i, j}" for m
      using that ij(4,5) by (auto simp: flist.holds_def eqs llps_free_list_bank_to_snapshot_def)
    have "fls_count t \<le> max_clients cfg" using ij(4) by (rule flist.holds_ok)
    then show ?thesis using ij(1-3) hold by (simp add: eqs) blast
  qed
qed

theorem free_list_reconcile_sound_witness:
  "let env = \<lparr>env_runtime_cfg = example_cfg, env_cfg_banks = [],
         env_free_banks = replicate 3 ((free_bank_from 0 zero_free_snapshot)\<lparr>fl_magic_start := 0\<rparr>),
         env_counters = \<lparr>g_memory_safety_counters = zero_counters, g_memory_safety_counters_crc = 0,
           g_memory_safety_counters_crc_inverse = 0\<rparr>\<rparr>
   in fst (snd (llps_free_list_reconcile ([5], 1) env)) = ([5], 1)"
proof -
  let ?env = "\<lparr>env_runtime_cfg = example_cfg, env_cfg_banks = [],
         env_free_banks = replicate 3 ((free_bank_from 0 zero_free_snapshot)\<lparr>fl_magic_start := 0\<rparr>),
         env_counters = \<lparr>g_memory_safety_counters = zero_counters, g_memory_safety_counters_crc = 0,
           g_memory_safety_counters_crc_inverse = 0\<rparr>\<rparr>"
  obtain ok can env' where r: "llps_free_list_reconcile ([5], 1) ?env = (ok, can, env')" by (metis prod_cases3)
  have bad: "\<not> llps_free_list_bank_is_valid (env_free_banks ?env ! m) (of_nat m) l" if "m < 3" for m l
    using that by (intro free_zero_magic_invalid) simp_all
  have "\<not> ok" using free_list_reconcile_sound [OF _ r] bad by (auto split: if_splits)
  then show ?thesis using free_list_reconcile_sound [OF _ r] r by (simp add: Let_def)
qed

text \<open>
  the startup self-test of the free list passes for every list of at least two free slots
  that at least two banks hold: it sets its three coverage bits and restores list and banks.
\<close>

theorem free_list_self_test_passes:
  assumes "cfg_held k cfg env" "free_held l (max_clients cfg) \<lparr>fls_count = count, fls_entries = entries\<rparr> env"
    "2 \<le> count" "2 \<le> length entries"
  shows "\<exists>env'. llps_free_list_tmr_startup_self_test ((entries, count), coverage, env) =
    (True, (entries, count), coverage OR LLPS_TMR_SELF_TEST_FREE_LIST_SINGLE_REPAIR OR
       LLPS_TMR_SELF_TEST_FREE_LIST_NO_MAJORITY_FAIL_CLOSED OR
       LLPS_TMR_SELF_TEST_FREE_LIST_DUAL_FAIL_CLOSED, env') \<and> env_free_banks env' = env_free_banks env"
proof -
  let ?s = "\<lparr>fls_count = count, fls_entries = entries\<rparr>"
  let ?cov = "coverage OR LLPS_TMR_SELF_TEST_FREE_LIST_SINGLE_REPAIR OR
       LLPS_TMR_SELF_TEST_FREE_LIST_NO_MAJORITY_FAIL_CLOSED OR
       LLPS_TMR_SELF_TEST_FREE_LIST_DUAL_FAIL_CLOSED"
  obtain e1 where r1: "llps_free_list_reconcile (entries, count) env = (True, (entries, count), e1)"
    and h1: "cfg_held 3 cfg e1" "free_held 3 (max_clients cfg) ?s e1"
    using free_reconcile_held [OF assms(1,2), of "(entries, count)"] by auto
  obtain can e2 where r2: "llps_free_list_self_test_run_cases ?s ((entries, count), coverage, e1) = (True, can, ?cov, e2)"
    and l2: "length (env_free_banks e2) = 3"
    using free_run_cases_pass [OF h1, of "(entries, count)" coverage] assms(3,4) by auto
  have l: "length (env_free_banks env) = 3" using assms(2) by (simp add: free_held_def)
  have rest: "llps_free_list_restore_banks (llps_free_list_save_banks (env_free_banks env)) (env_free_banks e2) =
      env_free_banks env"
    unfolding llps_free_list_restore_banks_def llps_free_list_save_banks_def by (rule restore_three [OF l l2])
  show ?thesis
    unfolding llps_free_list_tmr_startup_self_test_def Let_def prod.case r1
      llps_free_list_snapshot_from_canonical_def
    by (simp only: if_True r2 prod.case rest) (simp add: llps_free_list_apply_snapshot_def)
qed

theorem free_list_self_test_passes_witness:
  "let env = \<lparr>env_runtime_cfg = example_cfg, env_cfg_banks = map (\<lambda>i. cfg_bank_from i example_cfg) [0..<3],
         env_free_banks = map (\<lambda>i. free_bank_from i \<lparr>fls_count = 2, fls_entries = [1, 0]\<rparr>) [0..<3],
         env_counters = \<lparr>g_memory_safety_counters = zero_counters, g_memory_safety_counters_crc = 0,
           g_memory_safety_counters_crc_inverse = 0\<rparr>\<rparr>
   in fst (llps_free_list_tmr_startup_self_test (([1, 0], 2), 0, env))"
proof -
  let ?env = "\<lparr>env_runtime_cfg = example_cfg, env_cfg_banks = map (\<lambda>i. cfg_bank_from i example_cfg) [0..<3],
         env_free_banks = map (\<lambda>i. free_bank_from i \<lparr>fls_count = 2, fls_entries = [1, 0]\<rparr>) [0..<3],
         env_counters = \<lparr>g_memory_safety_counters = zero_counters, g_memory_safety_counters_crc = 0,
           g_memory_safety_counters_crc_inverse = 0\<rparr>\<rparr>"
  have c: "cfg_held 0 example_cfg ?env" by (simp add: cfg_held_def cfg_bank_from_valid example_cfg_valid)
  have m: "(2 :: u32) \<le> max_clients example_cfg" by (simp add: example_cfg_def)
  have f: "free_held 0 (max_clients example_cfg) \<lparr>fls_count = 2, fls_entries = [1, 0]\<rparr> ?env"
    by (simp add: free_held_def free_bank_from_valid free_bank_to_from m)
  show ?thesis unfolding Let_def using free_list_self_test_passes [OF c f, of 0] by auto
qed

text \<open>
  C28: with fewer than two free slots the startup self-test always reports failure, whatever the
  state of the banks. A configuration for a single client is valid, yet its self-test cannot pass.
\<close>

theorem free_list_self_test_rejects_small_lists:
  assumes "count < 2"
  shows "\<not> fst (llps_free_list_tmr_startup_self_test ((entries, count), coverage, env))"
proof -
  have "\<not> fst (llps_free_list_self_test_no_majority \<lparr>fls_count = count, fls_entries = entries\<rparr> st)" for st
    using assms by (cases st) (simp add: llps_free_list_self_test_no_majority_def)
  then have "\<not> fst (llps_free_list_self_test_run_cases \<lparr>fls_count = count, fls_entries = entries\<rparr> st)" for st
    by (auto simp: llps_free_list_self_test_run_cases_def Let_def split: prod.splits)
      (metis fst_conv)+
  then show ?thesis
    by (auto simp: llps_free_list_tmr_startup_self_test_def llps_free_list_snapshot_from_canonical_def Let_def
        split: prod.splits if_splits) (metis fst_conv)+
qed

theorem free_list_self_test_rejects_small_lists_witness:
  "llps_runtime_cfg_core_limits_are_valid (example_cfg\<lparr>max_clients := 1, accept_batch_max := 1\<rparr>) \<and>
   \<not> fst (llps_free_list_tmr_startup_self_test (([0], 1), 0,
     \<lparr>env_runtime_cfg = example_cfg\<lparr>max_clients := 1, accept_batch_max := 1\<rparr>, env_cfg_banks = [],
      env_free_banks = [], env_counters = \<lparr>g_memory_safety_counters = zero_counters,
        g_memory_safety_counters_crc = 0, g_memory_safety_counters_crc_inverse = 0\<rparr>\<rparr>))"
  using free_list_self_test_rejects_small_lists [of 1 "[0]" 0]
  by (simp add: llps_runtime_cfg_core_limits_are_valid_def example_cfg_def)

end
