(* ===== verification/Control_Flag.thy ===== *)
theory Control_Flag
  imports Safety_Counters Tmr_Vote
begin

text \<open>
  The process-wide shutdown flag of \<^verbatim>\<open>src/session/llps_control_flag.c\<close>, kept in three guarded
  banks. Reading it votes the banks and fails closed to "shutdown requested".
\<close>

section \<open>Definitions\<close>

record llps_control_flag_bank_t =
  cf_magic_start :: u32
  cf_bank_id :: u32
  shutdown_requested :: u32
  shutdown_requested_inverse :: u32
  cf_crc :: u32
  cf_crc_inverse :: u32
  cf_magic_end :: u32

text \<open>
  The globals of the file: the local copy of the flag and the banks
  \<^verbatim>\<open>g_control_flag_bank0\<close>, \<open>1\<close> and \<open>2\<close>, as the list of the three.
\<close>

record control_flag =
  g_server_shutdown_requested :: bool
  g_control_flag_banks :: "llps_control_flag_bank_t list"

definition llps_control_flag_bank_magic_for_bank :: "u32 \<Rightarrow> u32" where
  "llps_control_flag_bank_magic_for_bank n = 0xC071F1A6 XOR (0x01010101 * (n + 1))"

definition llps_control_flag_value_is_valid :: "u32 \<Rightarrow> bool" where
  "llps_control_flag_value_is_valid value \<longleftrightarrow> value \<le> 1"

definition llps_control_flag_bank_compute_crc :: "llps_control_flag_bank_t \<Rightarrow> u32" where
  "llps_control_flag_bank_compute_crc bank =
     foldl llps_crc32_update_u32 LLPS_SESSION_CRC_INIT
       [cf_magic_start bank, cf_bank_id bank, shutdown_requested bank, shutdown_requested_inverse bank,
        cf_magic_end bank] XOR LLPS_SESSION_CRC_XOROUT"

definition llps_control_flag_bank_is_valid :: "llps_control_flag_bank_t \<Rightarrow> u32 \<Rightarrow> bool" where
  "llps_control_flag_bank_is_valid bank expected_bank_id =
     (let magic = llps_control_flag_bank_magic_for_bank expected_bank_id
      in if cf_magic_start bank \<noteq> magic \<or> cf_magic_end bank \<noteq> magic \<or> cf_bank_id bank \<noteq> expected_bank_id \<or>
            \<not> llps_control_flag_value_is_valid (shutdown_requested bank) \<or>
            shutdown_requested_inverse bank \<noteq> NOT (shutdown_requested bank)
         then False
         else cf_crc_inverse bank = NOT (cf_crc bank) \<and> cf_crc bank = llps_control_flag_bank_compute_crc bank)"

definition llps_control_flag_bank_from_value ::
    "llps_control_flag_bank_t \<Rightarrow> u32 \<Rightarrow> bool \<Rightarrow> llps_control_flag_bank_t" where
  "llps_control_flag_bank_from_value bank n value =
     (let magic = llps_control_flag_bank_magic_for_bank n;
          encoded = llps_bool_to_u32 value;
          bank = bank\<lparr>cf_magic_start := magic, cf_bank_id := n, shutdown_requested := encoded,
                      shutdown_requested_inverse := NOT encoded, cf_magic_end := magic\<rparr>;
          bank = bank\<lparr>cf_crc := llps_control_flag_bank_compute_crc bank\<rparr>
      in bank\<lparr>cf_crc_inverse := NOT (cf_crc bank)\<rparr>)"

definition llps_control_flag_write_all :: "bool \<Rightarrow> control_flag \<Rightarrow> control_flag" where
  "llps_control_flag_write_all value cf =
     cf\<lparr>g_control_flag_banks :=
          foldl (\<lambda>banks i. banks[i := llps_control_flag_bank_from_value (banks ! i) (of_nat i) value])
            (g_control_flag_banks cf) [0..<LLPS_SESSION_TMR_BANK_COUNT],
        g_server_shutdown_requested := value\<rparr>"

definition llps_control_flag_repair_divergent_banks ::
    "bool list \<Rightarrow> bool list \<Rightarrow> bool \<Rightarrow> llps_control_flag_bank_t list \<times> safety_counters \<Rightarrow>
     llps_control_flag_bank_t list \<times> safety_counters" where
  "llps_control_flag_repair_divergent_banks valid snapshots majority st =
     foldl (\<lambda>(banks, sc) i.
         if \<not> valid ! i \<or> snapshots ! i \<noteq> majority
         then (banks[i := llps_control_flag_bank_from_value (banks ! i) (of_nat i) majority],
               LLPS_MEMORY_SAFETY_COUNTER_INC control_flag_single_bank_repairs_update sc)
         else (banks, sc))
       st [0..<LLPS_SESSION_TMR_BANK_COUNT]"

text \<open>
  The result is the returned boolean, the value stored through \<^verbatim>\<open>out_shutdown_requested\<close>, the
  flag state and the counters.
\<close>

definition llps_control_flag_reconcile ::
    "control_flag \<Rightarrow> safety_counters \<Rightarrow> bool \<times> bool \<times> control_flag \<times> safety_counters" where
  "llps_control_flag_reconcile cf sc =
     (let banks = g_control_flag_banks cf;
          valid = map (\<lambda>i. llps_control_flag_bank_is_valid (banks ! i) (of_nat i))
            [0..<LLPS_SESSION_TMR_BANK_COUNT];
          snapshots = map (\<lambda>i. if valid ! i then shutdown_requested (banks ! i) \<noteq> 0 else False)
            [0..<LLPS_SESSION_TMR_BANK_COUNT];
          valid_count = length (filter id valid);
          failed = (False, True, cf\<lparr>g_server_shutdown_requested := True\<rparr>,
            LLPS_MEMORY_SAFETY_COUNTER_INC control_flag_majority_failures_update sc)
      in if valid_count < 2 then failed
         else (case llps_tmr_vote_find_matching_pair valid
                     (snapshots ! 0 = snapshots ! 1)
                     (snapshots ! 0 = snapshots ! 2)
                     (snapshots ! 1 = snapshots ! 2) of
                 None \<Rightarrow> failed
               | Some majority_index \<Rightarrow>
                   (let majority = snapshots ! majority_index;
                        (banks', sc') = llps_control_flag_repair_divergent_banks valid snapshots
                          majority (banks, sc)
                    in (True, majority,
                        cf\<lparr>g_control_flag_banks := banks', g_server_shutdown_requested := majority\<rparr>,
                        sc'))))"

definition llps_control_shutdown_is_requested ::
    "control_flag \<Rightarrow> safety_counters \<Rightarrow> bool \<times> control_flag \<times> safety_counters" where
  "llps_control_shutdown_is_requested cf sc =
     (case llps_control_flag_reconcile cf sc of
        (ok, requested, st) \<Rightarrow> if \<not> ok then (True, st) else (requested, st))"

definition llps_control_request_shutdown :: "control_flag \<Rightarrow> control_flag" where
  "llps_control_request_shutdown cf = llps_control_flag_write_all True cf"

definition llps_control_clear_shutdown :: "control_flag \<Rightarrow> control_flag" where
  "llps_control_clear_shutdown cf = llps_control_flag_write_all False cf"

subsection \<open>The startup self-test\<close>

abbreviation LLPS_TMR_SELF_TEST_CONTROL_FLAG_SINGLE_REPAIR :: u32 where
  "LLPS_TMR_SELF_TEST_CONTROL_FLAG_SINGLE_REPAIR \<equiv> 0x200"

abbreviation LLPS_TMR_SELF_TEST_CONTROL_FLAG_DUAL_FAIL_CLOSED :: u32 where
  "LLPS_TMR_SELF_TEST_CONTROL_FLAG_DUAL_FAIL_CLOSED \<equiv> 0x400"

definition llps_control_flag_save_banks :: "control_flag \<Rightarrow> llps_control_flag_bank_t list" where
  "llps_control_flag_save_banks cf =
     map (\<lambda>i. g_control_flag_banks cf ! i) [0..<LLPS_SESSION_TMR_BANK_COUNT]"

definition llps_control_flag_restore_banks ::
    "llps_control_flag_bank_t list \<Rightarrow> bool \<Rightarrow> control_flag \<Rightarrow> control_flag" where
  "llps_control_flag_restore_banks saved value cf =
     cf\<lparr>g_server_shutdown_requested := value,
        g_control_flag_banks :=
          foldl (\<lambda>banks i. banks[i := saved ! i]) (g_control_flag_banks cf)
            [0..<LLPS_SESSION_TMR_BANK_COUNT]\<rparr>"

text \<open>An assignment to the \<^verbatim>\<open>magic_start\<close> of one bank.\<close>

definition set_magic_start :: "nat \<Rightarrow> (u32 \<Rightarrow> u32) \<Rightarrow> control_flag \<Rightarrow> control_flag" where
  "set_magic_start i f cf =
     cf\<lparr>g_control_flag_banks :=
          (g_control_flag_banks cf)[i := cf_magic_start_update f (g_control_flag_banks cf ! i)]\<rparr>"

definition llps_control_flag_tmr_startup_self_test ::
    "u32 \<Rightarrow> control_flag \<Rightarrow> safety_counters \<Rightarrow> bool \<times> u32 \<times> control_flag \<times> safety_counters" where
  "llps_control_flag_tmr_startup_self_test coverage cf sc =
     (let saved_value = g_server_shutdown_requested cf;
          saved_banks = llps_control_flag_save_banks cf;
          (ok, requested, cf1, sc1) = llps_control_flag_reconcile cf sc;
          passed1 = (ok \<and> requested = saved_value);
          (passed2, coverage2, cf2, sc2) =
            (if passed1
             then (let (ok, requested, cf', sc') =
                         llps_control_flag_reconcile
                           (set_magic_start 0 (\<lambda>m. m XOR UINT32_MAX) cf1) sc1;
                       passed = (ok \<and> requested = saved_value \<and>
                         llps_control_flag_bank_is_valid (g_control_flag_banks cf' ! 0) 0)
                   in (passed,
                       if passed then coverage OR LLPS_TMR_SELF_TEST_CONTROL_FLAG_SINGLE_REPAIR
                       else coverage, cf', sc'))
             else (False, coverage, cf1, sc1));
          (passed3, coverage3, cf3, sc3) =
            (if passed2
             then (let (ok, requested, cf', sc') =
                         llps_control_flag_reconcile
                           (set_magic_start 1 (\<lambda>_. 0) (set_magic_start 0 (\<lambda>_. 0) cf2)) sc2
                   in (\<not> ok,
                       if \<not> ok then coverage2 OR LLPS_TMR_SELF_TEST_CONTROL_FLAG_DUAL_FAIL_CLOSED
                       else coverage2, cf', sc'))
             else (False, coverage2, cf2, sc2))
      in (passed3, coverage3, llps_control_flag_restore_banks saved_banks saved_value cf3, sc3))"

subsection \<open>Faults between reads\<close>

text \<open>
  The runs of the flag in which at most one bank is upset, in any way, between two reads or
  writes: \<open>control_run v upset st\<close> says that \<open>v\<close> was written last and \<open>upset\<close> whether a bank was
  hit since.
\<close>

inductive control_run :: "bool \<Rightarrow> bool \<Rightarrow> control_flag \<times> safety_counters \<Rightarrow> bool" where
  start: "length (g_control_flag_banks cf) = 3 \<Longrightarrow>
    control_run v False (llps_control_flag_write_all v cf, sc)"
| request: "control_run v u (cf, sc) \<Longrightarrow> control_run True False (llps_control_request_shutdown cf, sc)"
| clear: "control_run v u (cf, sc) \<Longrightarrow> control_run False False (llps_control_clear_shutdown cf, sc)"
| upset: "control_run v False (cf, sc) \<Longrightarrow> i < 3 \<Longrightarrow>
    control_run v True (cf\<lparr>g_control_flag_banks := (g_control_flag_banks cf)[i := b]\<rparr>, sc)"
| read: "control_run v u (cf, sc) \<Longrightarrow>
    control_run v False (snd (llps_control_shutdown_is_requested cf sc))"

text \<open>A bank written over cleared memory, and: all banks, those of \<open>spared\<close> apart, hold \<open>v\<close>.\<close>

definition control_bank_from :: "nat \<Rightarrow> bool \<Rightarrow> llps_control_flag_bank_t" where
  "control_bank_from i v = llps_control_flag_bank_from_value
     \<lparr>cf_magic_start = 0, cf_bank_id = 0, shutdown_requested = 0, shutdown_requested_inverse = 0,
      cf_crc = 0, cf_crc_inverse = 0, cf_magic_end = 0\<rparr> (of_nat i) v"

definition flag_held :: "(nat \<Rightarrow> bool) \<Rightarrow> bool \<Rightarrow> control_flag \<Rightarrow> bool" where
  "flag_held spared v cf \<longleftrightarrow> length (g_control_flag_banks cf) = 3 \<and>
     (\<forall>i < 3. spared i \<or>
        llps_control_flag_bank_is_valid (g_control_flag_banks cf ! i) (of_nat i) \<and>
        (shutdown_requested (g_control_flag_banks cf ! i) \<noteq> 0) = v)"

section \<open>The banks as a triply kept value\<close>

lemma bank_from_value_eq [bank_simps]:
  "llps_control_flag_bank_from_value bank (of_nat i) v = control_bank_from i v"
  by (cases bank) (simp add: control_bank_from_def llps_control_flag_bank_from_value_def Let_def
      llps_control_flag_bank_compute_crc_def)

interpretation cflag: tmr_bank
  "\<lambda>i b. llps_control_flag_bank_is_valid b (of_nat i)" "\<lambda>b. shutdown_requested b \<noteq> 0" False "(=)"
  control_bank_from "\<lambda>_. True"
  "LLPS_MEMORY_SAFETY_COUNTER_INC control_flag_single_bank_repairs_update"
  "LLPS_MEMORY_SAFETY_COUNTER_INC control_flag_majority_failures_update"
proof
  fix s and i :: nat assume "i < 3"
  show "llps_control_flag_bank_is_valid (control_bank_from i s) (of_nat i)"
    by (simp add: llps_control_flag_bank_is_valid_def control_bank_from_def Let_def
        llps_control_flag_bank_from_value_def llps_control_flag_value_is_valid_def
        llps_control_flag_bank_compute_crc_def llps_bool_to_u32_def)
  show "(shutdown_requested (control_bank_from i s) \<noteq> 0) = s"
    by (simp add: control_bank_from_def llps_control_flag_bank_from_value_def Let_def
        llps_bool_to_u32_def)
qed simp_all

lemma control_repair_eq:
  "llps_control_flag_repair_divergent_banks valid snapshots majority =
   tmr_repair_divergent_banks (=) control_bank_from
     (LLPS_MEMORY_SAFETY_COUNTER_INC control_flag_single_bank_repairs_update) valid snapshots majority"
  unfolding llps_control_flag_repair_divergent_banks_def tmr_repair_divergent_banks_def bank_simps ..

lemma control_reconcile_eq:
  "llps_control_flag_reconcile cf sc =
     (case cflag.reconcile (g_control_flag_banks cf) sc of (r, banks, sc') \<Rightarrow>
        (case r of
           None \<Rightarrow> (False, True, cf\<lparr>g_server_shutdown_requested := True\<rparr>, sc')
         | Some v \<Rightarrow>
             (True, v, cf\<lparr>g_control_flag_banks := banks, g_server_shutdown_requested := v\<rparr>, sc')))"
  unfolding cflag.reconcile_def tmr_reconcile_def llps_control_flag_reconcile_def
    control_repair_eq Let_def case_vote option.case ..

lemma control_write_all_eq:
  assumes "length (g_control_flag_banks cf) = 3"
  shows "llps_control_flag_write_all v cf =
    cf\<lparr>g_control_flag_banks := tmr_write_all control_bank_from v, g_server_shutdown_requested := v\<rparr>"
  using assms by (auto simp: llps_control_flag_write_all_def tmr_write_all_def bank_simps
      upt_bank_count length_3_iff)

section \<open>Reading the flag\<close>

lemma flag_held_iff:
  "flag_held spared v cf \<longleftrightarrow> length (g_control_flag_banks cf) = 3 \<and>
     (\<forall>i < 3. spared i \<or> cflag.holds (g_control_flag_banks cf) i v)"
  by (simp add: flag_held_def cflag.holds_def)

lemma control_reconcile_held:
  assumes "flag_held (\<lambda>i. i = k) v cf"
  shows "\<exists>cf' sc'. llps_control_flag_reconcile cf sc = (True, v, cf', sc') \<and>
    flag_held (\<lambda>_. False) v cf' \<and> g_server_shutdown_requested cf' = v"
proof -
  obtain b c where "cflag.reconcile (g_control_flag_banks cf) sc = (Some v, b, c)" "length b = 3"
    "\<forall>i < 3. cflag.holds b i v"
    using cflag.reconcile_spared [of "g_control_flag_banks cf" k v sc] assms by (auto simp: flag_held_iff)
  then show ?thesis by (simp add: control_reconcile_eq flag_held_iff)
qed

lemma flag_held_any: "flag_held (\<lambda>_. False) v cf \<Longrightarrow> flag_held P v cf"
  by (auto simp: flag_held_iff)

lemma flag_held_write_all:
  "length (g_control_flag_banks cf) = 3 \<Longrightarrow> flag_held (\<lambda>_. False) v (llps_control_flag_write_all v cf)"
  by (simp add: control_write_all_eq flag_held_iff cflag.holds_write_all) (simp add: tmr_write_all_def)

lemma flag_held_upset:
  "flag_held (\<lambda>_. False) v cf \<Longrightarrow>
   flag_held (\<lambda>i. i = k) v (cf\<lparr>g_control_flag_banks := (g_control_flag_banks cf)[k := b]\<rparr>)"
  by (auto simp: flag_held_iff cflag.holds_def)

lemma valid_bank_value:
  assumes "llps_control_flag_bank_is_valid b n"
  shows "shutdown_requested b = llps_bool_to_u32 (shutdown_requested b \<noteq> 0)"
proof -
  have "shutdown_requested b \<le> 1"
    using assms by (simp add: llps_control_flag_bank_is_valid_def llps_control_flag_value_is_valid_def
        Let_def split: if_splits)
  then show ?thesis
    by (auto simp: llps_bool_to_u32_def word_le_nat_alt word_unat_eq_iff le_Suc_eq)
qed

lemma holds_value:
  assumes "cflag.holds banks i v"
  shows "shutdown_requested (banks ! i) = llps_bool_to_u32 v"
proof -
  have valid: "llps_control_flag_bank_is_valid (banks ! i) (of_nat i)"
    and v: "(shutdown_requested (banks ! i) \<noteq> 0) = v"
    using assms by (simp_all add: cflag.holds_def)
  show ?thesis using valid_bank_value [OF valid] unfolding v .
qed

lemma is_requested_held:
  assumes "flag_held (\<lambda>i. i = k) v cf"
  shows "fst (llps_control_shutdown_is_requested cf sc) = v \<and>
    flag_held (\<lambda>_. False) v (fst (snd (llps_control_shutdown_is_requested cf sc)))"
  using control_reconcile_held [OF assms, of sc] by (auto simp: llps_control_shutdown_is_requested_def)

lemma control_run_held:
  "control_run v u st \<Longrightarrow> \<exists>k. flag_held (\<lambda>i. u \<and> i = k) v (fst st)"
proof (induction rule: control_run.induct)
  case (start cf v sc)
  then show ?case using flag_held_write_all by auto
next
  case (request v u cf sc)
  then have "length (g_control_flag_banks cf) = 3" by (auto simp: flag_held_iff)
  then show ?case using flag_held_write_all by (auto simp: llps_control_request_shutdown_def)
next
  case (clear v u cf sc)
  then have "length (g_control_flag_banks cf) = 3" by (auto simp: flag_held_iff)
  then show ?case using flag_held_write_all by (auto simp: llps_control_clear_shutdown_def)
next
  case (upset v cf sc i b)
  then show ?case using flag_held_upset [of v cf i b] by auto
next
  case (read v u cf sc)
  then obtain k where "flag_held (\<lambda>i. i = k) v cf" by (auto simp: flag_held_iff)
  from is_requested_held [OF this, of sc] show ?case by auto
qed

section \<open>The startup self-test\<close>

lemma bank_magic_nonzero: "i < 3 \<Longrightarrow> llps_control_flag_bank_magic_for_bank (of_nat i) \<noteq> 0"
  by (auto simp: llps_control_flag_bank_magic_for_bank_def less_3_cases)

lemma zero_magic_invalid:
  "cf_magic_start b = 0 \<Longrightarrow> i < 3 \<Longrightarrow> \<not> llps_control_flag_bank_is_valid b (of_nat i)"
  using bank_magic_nonzero [of i] by (auto simp: llps_control_flag_bank_is_valid_def Let_def)

lemma reconcile_two_invalid:
  assumes "length (g_control_flag_banks cf) = 3"
    "\<And>i. i < 2 \<Longrightarrow> cf_magic_start (g_control_flag_banks cf ! i) = 0"
  shows "\<exists>cf' sc'. llps_control_flag_reconcile cf sc = (False, True, cf', sc') \<and>
    length (g_control_flag_banks cf') = 3"
proof -
  have "\<not> llps_control_flag_bank_is_valid (g_control_flag_banks cf ! i) (of_nat i)" if "i < 2" for i
    using zero_magic_invalid [OF assms(2) [OF that]] that by simp
  from this [of 0] this [of 1] show ?thesis
    using cflag.reconcile_two_dead [OF assms(1), of sc] assms(1) by (simp add: control_reconcile_eq)
qed

lemma set_magic_start_held:
  "flag_held (\<lambda>_. False) v cf \<Longrightarrow> flag_held (\<lambda>i. i = k) v (set_magic_start k f cf)"
  unfolding set_magic_start_def by (rule flag_held_upset)

lemma restore_saved:
  assumes "length (g_control_flag_banks cf) = 3" "length (g_control_flag_banks cf') = 3"
  shows "llps_control_flag_restore_banks (llps_control_flag_save_banks cf)
    (g_server_shutdown_requested cf) cf' = cf"
  using assms by (cases cf; cases cf')
    (auto simp: llps_control_flag_restore_banks_def llps_control_flag_save_banks_def
      upt_bank_count length_3_iff)

section \<open>Properties\<close>

text \<open>
  C13: in every run in which at most one bank is upset between two accesses, by any bit pattern,
  a read of the flag returns the value that was last requested or cleared.
\<close>

theorem control_flag_reads_last_write:
  assumes "control_run v u (cf, sc)"
  shows "fst (llps_control_shutdown_is_requested cf sc) = v"
proof -
  obtain k where "flag_held (\<lambda>i. i = k) v cf"
    using control_run_held [OF assms] by (auto simp: flag_held_iff)
  then show ?thesis using is_requested_held by blast
qed

theorem control_flag_reads_last_write_witness:
  "let st0 = \<lparr>g_server_shutdown_requested = False, g_control_flag_banks = replicate 3
         \<lparr>cf_magic_start = 0, cf_bank_id = 0, shutdown_requested = 0, shutdown_requested_inverse = 0,
          cf_crc = 0, cf_crc_inverse = 0, cf_magic_end = 0\<rparr>\<rparr>;
       sc = \<lparr>g_memory_safety_counters = zero_counters, g_memory_safety_counters_crc = 0,
         g_memory_safety_counters_crc_inverse = 0\<rparr>;
       st1 = llps_control_request_shutdown (llps_control_flag_write_all False st0);
       st2 = st1\<lparr>g_control_flag_banks := (g_control_flag_banks st1)[2 := g_control_flag_banks st0 ! 2]\<rparr>
   in fst (llps_control_shutdown_is_requested st2 sc) = True"
  unfolding Let_def
  by (rule control_flag_reads_last_write, rule control_run.upset, rule control_run.request,
      rule control_run.start) simp_all

text \<open>
  C23: the read fails closed. It answers "no shutdown" only when two different banks pass every
  check (canaries, bank number, inverse, checksum) and both hold zero; otherwise the answer is
  "shutdown requested", the vote is recorded as failed and no bank is touched.
\<close>

theorem control_flag_fails_closed:
  assumes "length (g_control_flag_banks cf) = 3"
    and "\<not> (\<exists>i j. i < 3 \<and> j < 3 \<and> i \<noteq> j \<and>
          llps_control_flag_bank_is_valid (g_control_flag_banks cf ! i) (of_nat i) \<and>
          llps_control_flag_bank_is_valid (g_control_flag_banks cf ! j) (of_nat j) \<and>
          shutdown_requested (g_control_flag_banks cf ! i) = shutdown_requested (g_control_flag_banks cf ! j))"
  shows "llps_control_shutdown_is_requested cf sc =
    (True, cf\<lparr>g_server_shutdown_requested := True\<rparr>,
     LLPS_MEMORY_SAFETY_COUNTER_INC control_flag_majority_failures_update sc)"
proof -
  have "\<not> (\<exists>s i j. i < 3 \<and> j < 3 \<and> i \<noteq> j \<and> cflag.holds (g_control_flag_banks cf) i s \<and>
      cflag.holds (g_control_flag_banks cf) j s)"
  proof (rule notI, elim exE conjE)
    fix s i j
    assume "i < 3" "j < 3" "i \<noteq> j" "cflag.holds (g_control_flag_banks cf) i s"
      "cflag.holds (g_control_flag_banks cf) j s"
    moreover from this have "shutdown_requested (g_control_flag_banks cf ! i) = llps_bool_to_u32 s"
      "shutdown_requested (g_control_flag_banks cf ! j) = llps_bool_to_u32 s"
      by (simp_all only: holds_value)
    ultimately show False using assms(2) unfolding cflag.holds_def by (metis (no_types))
  qed
  then have "cflag.reconcile (g_control_flag_banks cf) sc =
      (None, g_control_flag_banks cf, LLPS_MEMORY_SAFETY_COUNTER_INC control_flag_majority_failures_update sc)"
    using cflag.reconcile_fails [OF assms(1)] cflag.reconcile_fails_iff [OF assms(1)] by blast
  then show ?thesis by (simp add: llps_control_shutdown_is_requested_def control_reconcile_eq)
qed

theorem control_flag_fails_closed_witness:
  "let cf = \<lparr>g_server_shutdown_requested = False, g_control_flag_banks = replicate 3
         \<lparr>cf_magic_start = 0, cf_bank_id = 0, shutdown_requested = 0, shutdown_requested_inverse = 0,
          cf_crc = 0, cf_crc_inverse = 0, cf_magic_end = 0\<rparr>\<rparr>;
       sc = \<lparr>g_memory_safety_counters = zero_counters, g_memory_safety_counters_crc = 0,
         g_memory_safety_counters_crc_inverse = 0\<rparr>
   in llps_control_shutdown_is_requested cf sc =
    (True, cf\<lparr>g_server_shutdown_requested := True\<rparr>,
     LLPS_MEMORY_SAFETY_COUNTER_INC control_flag_majority_failures_update sc)"
  unfolding Let_def
  by (rule control_flag_fails_closed) (auto simp: zero_magic_invalid)

text \<open>
  the startup self-test passes on every state in which the local flag agrees with all banks
  but at most one: single-bank damage is repaired, double damage is refused, both coverage bits
  are set, and flag and banks are left exactly as they were found.
\<close>

theorem control_flag_self_test_passes:
  assumes "flag_held (\<lambda>i. i = k) (g_server_shutdown_requested cf) cf"
  shows "\<exists>sc'. llps_control_flag_tmr_startup_self_test coverage cf sc =
    (True, coverage OR LLPS_TMR_SELF_TEST_CONTROL_FLAG_SINGLE_REPAIR OR
       LLPS_TMR_SELF_TEST_CONTROL_FLAG_DUAL_FAIL_CLOSED, cf, sc')"
proof -
  let ?v = "g_server_shutdown_requested cf"
  obtain cf1 sc1 where r1: "llps_control_flag_reconcile cf sc = (True, ?v, cf1, sc1)"
    and h1: "flag_held (\<lambda>_. False) ?v cf1" using control_reconcile_held [OF assms] by blast
  let ?cf1 = "set_magic_start 0 (\<lambda>m. m XOR UINT32_MAX) cf1"
  obtain cf2 sc2 where r2: "llps_control_flag_reconcile ?cf1 sc1 = (True, ?v, cf2, sc2)"
    and h2: "flag_held (\<lambda>_. False) ?v cf2"
    using control_reconcile_held [OF set_magic_start_held [OF h1]] by blast
  have v2: "llps_control_flag_bank_is_valid (g_control_flag_banks cf2 ! 0) 0"
    using h2 by (auto simp: flag_held_def dest: spec [of _ 0])
  let ?cf2 = "set_magic_start 1 (\<lambda>_. 0) (set_magic_start 0 (\<lambda>_. 0) cf2)"
  have len2: "length (g_control_flag_banks cf2) = 3" using h2 by (simp add: flag_held_def)
  have "\<exists>cf3 sc3. llps_control_flag_reconcile ?cf2 sc2 = (False, True, cf3, sc3) \<and>
      length (g_control_flag_banks cf3) = 3"
    using len2 by (intro reconcile_two_invalid) (auto simp: set_magic_start_def less_2_cases_iff)
  then obtain cf3 sc3 where r3: "llps_control_flag_reconcile ?cf2 sc2 = (False, True, cf3, sc3)"
    and len3: "length (g_control_flag_banks cf3) = 3" by blast
  have len: "length (g_control_flag_banks cf) = 3" using assms by (simp add: flag_held_def)
  show ?thesis
    unfolding llps_control_flag_tmr_startup_self_test_def Let_def r1 prod.case
    by (simp only: simp_thms if_True r2 v2 prod.case r3 restore_saved [OF len len3] or.assoc) simp
qed

theorem control_flag_self_test_passes_witness:
  "let cf = llps_control_flag_write_all False \<lparr>g_server_shutdown_requested = True,
         g_control_flag_banks = replicate 3
           \<lparr>cf_magic_start = 0, cf_bank_id = 0, shutdown_requested = 0, shutdown_requested_inverse = 0,
            cf_crc = 0, cf_crc_inverse = 0, cf_magic_end = 0\<rparr>\<rparr>;
       sc = \<lparr>g_memory_safety_counters = zero_counters, g_memory_safety_counters_crc = 0,
         g_memory_safety_counters_crc_inverse = 0\<rparr>
   in \<exists>sc'. llps_control_flag_tmr_startup_self_test 0 cf sc =
    (True, 0 OR LLPS_TMR_SELF_TEST_CONTROL_FLAG_SINGLE_REPAIR OR
       LLPS_TMR_SELF_TEST_CONTROL_FLAG_DUAL_FAIL_CLOSED, cf, sc')"
  unfolding Let_def
proof (rule control_flag_self_test_passes [of 0])
  let ?st = "\<lparr>g_server_shutdown_requested = True, g_control_flag_banks = replicate 3
           \<lparr>cf_magic_start = 0, cf_bank_id = 0, shutdown_requested = 0, shutdown_requested_inverse = 0,
            cf_crc = 0, cf_crc_inverse = 0, cf_magic_end = 0\<rparr>\<rparr>"
  have "g_server_shutdown_requested (llps_control_flag_write_all False ?st) = False"
    by (simp add: llps_control_flag_write_all_def)
  moreover have "flag_held (\<lambda>i. i = 0) False (llps_control_flag_write_all False ?st)"
    by (rule flag_held_any, rule flag_held_write_all) simp
  ultimately show "flag_held (\<lambda>i. i = 0)
      (g_server_shutdown_requested (llps_control_flag_write_all False ?st))
      (llps_control_flag_write_all False ?st)" by simp
qed

end
