(* ===== verification/Runtime_State.thy ===== *)
theory Runtime_State
  imports Free_List_Tmr Control_Flag
begin

text \<open>
  The globals that the operations of \<^verbatim>\<open>src/core/llps_state.c\<close> share: the configuration and
  free-list banks with the safety counters, and the shutdown flag. A failed \<^verbatim>\<open>LLPS_EXPECT\<close> counts a
  contract violation and then runs its fallback action. What goes to \<^verbatim>\<open>stderr\<close> and to the log is
  left out.
\<close>

section \<open>Definitions\<close>

record runtime_state =
  rs_env :: free_list_env
  rs_control :: control_flag

definition llps_contract_violation :: "runtime_state \<Rightarrow> runtime_state" where
  "llps_contract_violation rs =
     rs\<lparr>rs_env := (rs_env rs)\<lparr>env_counters :=
       LLPS_MEMORY_SAFETY_COUNTER_INC contract_violations_update (env_counters (rs_env rs))\<rparr>\<rparr>"

text \<open>\<^verbatim>\<open>LLPS_EXPECT(false, llps_control_request_shutdown())\<close>.\<close>

definition expect_shutdown :: "runtime_state \<Rightarrow> runtime_state" where
  "expect_shutdown rs =
     (let rs = llps_contract_violation rs
      in rs\<lparr>rs_control := llps_control_request_shutdown (rs_control rs)\<rparr>)"

text \<open>\<^verbatim>\<open>llps_runtime_cfg_reconcile(&g_runtime_cfg)\<close> on the globals.\<close>

definition reconcile_cfg :: "runtime_state \<Rightarrow> bool \<times> runtime_state" where
  "reconcile_cfg rs =
     (case llps_runtime_cfg_reconcile (env_runtime_cfg (rs_env rs)) (env_cfg_banks (rs_env rs))
             (env_counters (rs_env rs)) of
        (ok, cfg, cfg_banks, sc) \<Rightarrow>
          (ok, rs\<lparr>rs_env := (rs_env rs)\<lparr>env_runtime_cfg := cfg, env_cfg_banks := cfg_banks,
                                     env_counters := sc\<rparr>\<rparr>))"

text \<open>The clock: \<open>now\<close> is what \<^verbatim>\<open>llam_now_ns\<close> returned, zero when it failed.\<close>

definition llps_llam_now_ns_checked :: "u64 \<Rightarrow> runtime_state \<Rightarrow> u64 \<times> runtime_state" where
  "llps_llam_now_ns_checked now rs = (now, if now = 0 then llps_contract_violation rs else rs)"

section \<open>The request counter\<close>

record request_counter =
  g_request_no :: u64
  g_request_no_inverse :: u64

definition llps_request_counter_reset :: "request_counter \<Rightarrow> request_counter" where
  "llps_request_counter_reset rc = rc\<lparr>g_request_no := 0, g_request_no_inverse := UINT64_MAX\<rparr>"

definition llps_request_counter_is_valid :: "request_counter \<Rightarrow> bool" where
  "llps_request_counter_is_valid rc \<longleftrightarrow> g_request_no_inverse rc = NOT (g_request_no rc)"

text \<open>\<open>None\<close> is the result \<^verbatim>\<open>false\<close>.\<close>

definition llps_next_request_no :: "request_counter \<Rightarrow> u64 option \<times> request_counter" where
  "llps_next_request_no rc =
     (if \<not> llps_request_counter_is_valid rc \<or> g_request_no rc = UINT64_MAX then (None, rc)
      else (let rc = rc\<lparr>g_request_no := g_request_no rc + 1\<rparr>;
                rc = rc\<lparr>g_request_no_inverse := NOT (g_request_no rc)\<rparr>
            in (Some (g_request_no rc), rc)))"

text \<open>The numbers of \<open>n\<close> requests in a row.\<close>

fun request_numbers :: "nat \<Rightarrow> request_counter \<Rightarrow> u64 option list" where
  "request_numbers 0 rc = []"
| "request_numbers (Suc n) rc =
     (case llps_next_request_no rc of (r, rc') \<Rightarrow> r # request_numbers n rc')"

section \<open>Copying a C string\<close>

text \<open>The loop over \<open>i\<close> with the indices it has left; the result says whether the terminator was copied.\<close>

fun copy_text_loop :: "u8 list \<Rightarrow> u8 list \<Rightarrow> nat list \<Rightarrow> bool \<times> u8 list" where
  "copy_text_loop dst src [] = (False, dst)"
| "copy_text_loop dst src (i # indices) =
     (let dst = dst[i := src ! i]
      in if src ! i = 0 then (True, dst) else copy_text_loop dst src indices)"

definition llps_state_copy_text :: "u8 list \<Rightarrow> nat \<Rightarrow> u8 list \<Rightarrow> bool \<times> u8 list" where
  "llps_state_copy_text dst dst_cap src =
     (if dst_cap = 0 then (False, dst)
      else (case copy_text_loop dst src [0..<dst_cap] of
              (done, dst) \<Rightarrow> if done then (True, dst) else (False, dst[dst_cap - 1 := 0])))"

text \<open>The text in a buffer of \<open>cap\<close> bytes, and that it is terminated there.\<close>

definition text_of :: "nat \<Rightarrow> u8 list \<Rightarrow> u8 list" where
  "text_of cap buf = takeWhile (\<lambda>c. c \<noteq> 0) (take cap buf)"

definition terminated :: "nat \<Rightarrow> u8 list \<Rightarrow> bool" where
  "terminated cap buf \<longleftrightarrow> 0 \<in> set (take cap buf)"

section \<open>Facts\<close>

lemma contract_violation_frame [simp]:
  "rs_control (llps_contract_violation rs) = rs_control rs"
  "env_runtime_cfg (rs_env (llps_contract_violation rs)) = env_runtime_cfg (rs_env rs)"
  "env_cfg_banks (rs_env (llps_contract_violation rs)) = env_cfg_banks (rs_env rs)"
  "env_free_banks (rs_env (llps_contract_violation rs)) = env_free_banks (rs_env rs)"
  by (simp_all add: llps_contract_violation_def)

lemma cfg_held_contract_violation [simp]:
  "cfg_held k cfg (rs_env (llps_contract_violation rs)) \<longleftrightarrow> cfg_held k cfg (rs_env rs)"
  by (simp add: cfg_held_def)

lemma reconcile_cfg_held:
  assumes "cfg_held k cfg (rs_env rs)"
  shows "\<exists>rs'. reconcile_cfg rs = (True, rs') \<and> cfg_held 3 cfg (rs_env rs') \<and>
    env_runtime_cfg (rs_env rs') = cfg \<and> env_free_banks (rs_env rs') = env_free_banks (rs_env rs) \<and>
    rs_control rs' = rs_control rs"
proof -
  have len: "length (env_cfg_banks (rs_env rs)) = 3" using assms by (simp add: cfg_held_def)
  have held: "\<And>i. i < 3 \<Longrightarrow> i \<noteq> k \<Longrightarrow> rcfg.holds (env_cfg_banks (rs_env rs)) i cfg"
    using assms by (auto simp: cfg_held_def rcfg.holds_def)
  obtain b c where "llps_runtime_cfg_reconcile (env_runtime_cfg (rs_env rs)) (env_cfg_banks (rs_env rs))
      (env_counters (rs_env rs)) = (True, cfg, b, c)" and "length b = 3" "\<forall>i < 3. rcfg.holds b i cfg"
    using cfg_reconcile_spared [OF len held] by blast
  then show ?thesis by (simp add: reconcile_cfg_def cfg_held_def rcfg.holds_def)
qed

text \<open>The copy loop from index \<open>k\<close> on, when the terminator stands at index \<open>n\<close>.\<close>

lemma copy_text_loop_found:
  assumes "k \<le> n" "n < cap" "src ! n = 0" "\<And>i. k \<le> i \<Longrightarrow> i < n \<Longrightarrow> src ! i \<noteq> 0"
    and "cap \<le> length dst" "n < length src"
  shows "copy_text_loop dst src [k..<cap] = (True, take k dst @ drop k (take (Suc n) src) @ drop (Suc n) dst)"
  using assms
proof (induction "n - k" arbitrary: k dst)
  case 0
  then show ?case
    by (simp add: upt_conv_Cons upd_conv_take_nth_drop take_Suc_conv_app_nth)
next
  case (Suc m)
  then have "k < n" by simp
  with Suc.prems have step: "copy_text_loop dst src [k..<cap] = copy_text_loop (dst[k := src ! k]) src [Suc k..<cap]"
    by (simp add: upt_conv_Cons)
  have "copy_text_loop (dst[k := src ! k]) src [Suc k..<cap] =
      (True, take (Suc k) (dst[k := src ! k]) @ drop (Suc k) (take (Suc n) src) @ drop (Suc n) (dst[k := src ! k]))"
    using Suc.hyps(2) \<open>k < n\<close> Suc.prems by (intro Suc.hyps(1)) auto
  moreover have "take (Suc k) (dst[k := src ! k]) = take k dst @ [src ! k]"
    using \<open>k < n\<close> Suc.prems by (simp add: take_Suc_conv_app_nth)
  moreover have "drop k (take (Suc n) src) = src ! k # drop (Suc k) (take (Suc n) src)"
    using \<open>k < n\<close> Suc.prems by (simp flip: Cons_nth_drop_Suc)
  ultimately show ?case using \<open>k < n\<close> by (simp add: step)
qed

lemma copy_text_loop_missing:
  assumes "\<And>i. k \<le> i \<Longrightarrow> i < cap \<Longrightarrow> src ! i \<noteq> 0" "k \<le> cap" "cap \<le> length dst" "cap \<le> length src"
  shows "copy_text_loop dst src [k..<cap] = (False, take k dst @ drop k (take cap src) @ drop cap dst)"
  using assms
proof (induction "cap - k" arbitrary: k dst)
  case 0
  then show ?case by simp
next
  case (Suc m)
  then have "k < cap" by simp
  then have step: "copy_text_loop dst src [k..<cap] = copy_text_loop (dst[k := src ! k]) src [Suc k..<cap]"
    using Suc.prems by (simp add: upt_conv_Cons)
  have "copy_text_loop (dst[k := src ! k]) src [Suc k..<cap] =
      (False, take (Suc k) (dst[k := src ! k]) @ drop (Suc k) (take cap src) @ drop cap (dst[k := src ! k]))"
    using Suc.hyps(2) \<open>k < cap\<close> Suc.prems by (intro Suc.hyps(1)) auto
  moreover have "take (Suc k) (dst[k := src ! k]) = take k dst @ [src ! k]"
    using \<open>k < cap\<close> Suc.prems by (simp add: take_Suc_conv_app_nth)
  moreover have "drop k (take cap src) = src ! k # drop (Suc k) (take cap src)"
    using \<open>k < cap\<close> Suc.prems by (simp flip: Cons_nth_drop_Suc)
  ultimately show ?case using \<open>k < cap\<close> by (simp add: step)
qed

lemma length_takeWhile_text: "x \<in> set xs \<Longrightarrow> \<not> P x \<Longrightarrow> length (takeWhile P xs) < length xs"
  by (induction xs) auto

lemma terminated_first:
  assumes "terminated cap buf"
  obtains n where "n < cap" "n < length buf" "buf ! n = 0" "\<And>i. i < n \<Longrightarrow> buf ! i \<noteq> 0" "text_of cap buf = take n buf"
proof -
  let ?P = "\<lambda>c :: u8. c \<noteq> 0"
  let ?n = "length (takeWhile ?P (take cap buf))"
  have "?n < length (take cap buf)"
    using assms unfolding terminated_def by (rule length_takeWhile_text) simp
  then have n: "?n < cap" "?n < length buf" by auto
  have "buf ! ?n = 0" using nth_length_takeWhile [of ?P "take cap buf"] n by simp
  moreover have "buf ! i \<noteq> 0" if "i < ?n" for i
  proof -
    have "takeWhile ?P (take cap buf) ! i = buf ! i" using that n by (simp add: takeWhile_nth)
    then show ?thesis using set_takeWhileD [OF nth_mem [OF that]] by simp
  qed
  moreover have "text_of cap buf = take ?n buf"
    using n takeWhile_eq_take [of ?P "take cap buf"] by (simp add: text_of_def)
  ultimately show ?thesis using n that by blast
qed

lemma text_split:
  assumes "length xs < cap" "\<forall>c \<in> set xs. c \<noteq> 0"
  shows "text_of cap (xs @ 0 # ys) = xs" "terminated cap (xs @ 0 # ys)"
  using assms by (auto simp: text_of_def terminated_def take_Cons' takeWhile_append2)

lemma copy_text_ok:
  assumes "terminated cap src" "length dst = cap"
  shows "\<exists>dst'. llps_state_copy_text dst cap src = (True, dst') \<and> length dst' = cap \<and>
    text_of cap dst' = text_of cap src \<and> terminated cap dst'"
proof -
  obtain n where n: "n < cap" "n < length src" "src ! n = 0" "\<And>i. i < n \<Longrightarrow> src ! i \<noteq> 0"
    and t: "text_of cap src = take n src" using assms(1) by (rule terminated_first) blast
  let ?dst = "take n src @ 0 # drop (Suc n) dst"
  have "copy_text_loop dst src [0..<cap] = (True, ?dst)"
    using copy_text_loop_found [of 0 n cap src dst] n assms(2) by (simp add: take_Suc_conv_app_nth)
  then have "llps_state_copy_text dst cap src = (True, ?dst)"
    using n(1) by (simp add: llps_state_copy_text_def)
  moreover have "\<forall>c \<in> set (take n src). c \<noteq> 0" using n by (auto simp: in_set_conv_nth)
  ultimately show ?thesis using n t assms(2) text_split [of "take n src" cap] by simp
qed

lemma copy_text_cut:
  assumes "\<not> terminated cap src" "length dst = cap" "0 < cap" "cap \<le> length src"
  shows "\<exists>dst'. llps_state_copy_text dst cap src = (False, dst') \<and> length dst' = cap \<and>
    text_of cap dst' = take (cap - 1) (text_of cap src) \<and> terminated cap dst'"
proof -
  have nz: "src ! i \<noteq> 0" if "i < cap" for i
    using that assms(1,4) by (auto simp: terminated_def in_set_conv_nth)
  have "copy_text_loop dst src [0..<cap] = (False, take cap src)"
    using copy_text_loop_missing [of 0 cap src dst] nz assms by simp
  moreover have "(take cap src)[cap - 1 := 0] = take (cap - 1) src @ [0]"
    using assms(3,4) by (simp add: upd_conv_take_nth_drop)
  ultimately have "llps_state_copy_text dst cap src = (False, take (cap - 1) src @ [0])"
    using assms(3) by (simp add: llps_state_copy_text_def)
  moreover have "text_of cap src = take cap src"
    using nz by (auto simp: text_of_def takeWhile_eq_all_conv in_set_conv_nth)
  moreover have "\<forall>c \<in> set (take (cap - 1) src). c \<noteq> 0"
    using nz by (auto simp: in_set_conv_nth)
  ultimately show ?thesis
    using assms(3,4) text_split [of "take (cap - 1) src" cap "[]"] by simp
qed

lemma next_request_no_step:
  assumes "Suc k < 2 ^ 64"
  shows "llps_next_request_no \<lparr>g_request_no = of_nat k, g_request_no_inverse = NOT (of_nat k)\<rparr> =
    (Some (of_nat (Suc k)), \<lparr>g_request_no = of_nat (Suc k), g_request_no_inverse = NOT (of_nat (Suc k))\<rparr>)"
proof -
  have "(of_nat k :: u64) \<noteq> UINT64_MAX"
  proof
    assume "(of_nat k :: u64) = UINT64_MAX"
    then have "unat (of_nat k :: u64) = unat UINT64_MAX" by (rule arg_cong)
    then show False using assms by (simp add: unat_of_nat)
  qed
  then show ?thesis
    by (simp add: llps_next_request_no_def llps_request_counter_is_valid_def Let_def add.commute)
qed

lemma request_numbers_from:
  "k + n < 2 ^ 64 \<Longrightarrow>
     request_numbers n \<lparr>g_request_no = of_nat k, g_request_no_inverse = NOT (of_nat k)\<rparr> =
     map (\<lambda>i. Some (of_nat (Suc i))) [k..<k + n]"
proof (induction n arbitrary: k)
  case 0
  then show ?case by simp
next
  case (Suc n)
  have "[k..<k + Suc n] = k # [Suc k..<Suc k + n]" by (simp add: upt_conv_Cons)
  then show ?case
    using Suc.prems Suc.IH [of "Suc k"] next_request_no_step [of k] by (simp del: of_nat_Suc)
qed

section \<open>Properties\<close>

text \<open>
  The request counter never repeats a number and never wraps: from a reset counter the first \<open>n\<close>
  requests get the numbers 1 to \<open>n\<close> in order, for every \<open>n\<close> that fits in 64 bits, and the counter
  refuses to go on at the largest number or once its guard copy disagrees.
\<close>

theorem request_numbers_count_up:
  assumes "n < 2 ^ 64"
  shows "request_numbers n (llps_request_counter_reset rc) = map (\<lambda>i. Some (of_nat (Suc i))) [0..<n] \<and>
    (\<forall>r. g_request_no r = UINT64_MAX \<or> g_request_no_inverse r \<noteq> NOT (g_request_no r) \<longrightarrow>
      llps_next_request_no r = (None, r))"
proof -
  have "llps_request_counter_reset rc = \<lparr>g_request_no = of_nat 0, g_request_no_inverse = NOT (of_nat 0)\<rparr>"
    by (cases rc) (simp add: llps_request_counter_reset_def)
  then have "request_numbers n (llps_request_counter_reset rc) = map (\<lambda>i. Some (of_nat (Suc i))) [0..<n]"
    using request_numbers_from [of 0 n] assms by simp
  then show ?thesis by (auto simp: llps_next_request_no_def llps_request_counter_is_valid_def)
qed

theorem request_numbers_count_up_witness:
  "request_numbers 3 (llps_request_counter_reset \<lparr>g_request_no = 9, g_request_no_inverse = 9\<rparr>) =
     [Some 1, Some 2, Some 3]"
  using request_numbers_count_up [of 3 "\<lparr>g_request_no = 9, g_request_no_inverse = 9\<rparr>"]
  by (simp add: upt_rec)

text \<open>
  Copying a C string into a buffer never overruns it and never leaves it without a terminator:
  the result keeps the buffer's size, holds the longest prefix of the text that fits, and success is
  reported exactly when the whole text fitted.
\<close>

theorem copy_text_bounded:
  assumes "length dst = cap" "0 < cap" "terminated cap src \<or> cap \<le> length src"
  shows "\<exists>dst'. llps_state_copy_text dst cap src = (terminated cap src, dst') \<and> length dst' = cap \<and>
    terminated cap dst' \<and> text_of cap dst' = take (cap - 1) (text_of cap src)"
proof (cases "terminated cap src")
  case True
  then obtain n where "n < cap" "text_of cap src = take n src" using terminated_first by metis
  then have "text_of cap src = take (cap - 1) (text_of cap src)" by simp
  with copy_text_ok [OF True assms(1)] True show ?thesis by auto
next
  case False
  with copy_text_cut [of cap src dst] assms show ?thesis by auto
qed

theorem copy_text_bounded_witness:
  "\<exists>dst'. llps_state_copy_text [7, 7, 7] 3 [0x61, 0x62, 0x63, 0] = (False, dst') \<and> text_of 3 dst' = [0x61, 0x62]"
  using copy_text_bounded [of "[7, 7, 7]" 3 "[0x61, 0x62, 0x63, 0]"]
  by (auto simp: terminated_def text_of_def)

end
