(* ===== verification/Rate_Limit.thy ===== *)
theory Rate_Limit
  imports Runtime_State
begin

text \<open>
  The admission limits of \<^verbatim>\<open>src/core/llps_state.c\<close>: the guarded table of rate buckets, one for each
  client address, and the decision whether one more session of an address may start in the current
  window. Buckets are addressed by their index; a bucket pointer that may be \<^verbatim>\<open>NULL\<close> is an option.
\<close>

section \<open>Definitions\<close>

abbreviation LLPS_CLIENT_IP_TEXT_LEN :: nat where
  "LLPS_CLIENT_IP_TEXT_LEN \<equiv> 16"

abbreviation LLPS_CLIENT_IP_RATE_BUCKET_COUNT :: nat where
  "LLPS_CLIENT_IP_RATE_BUCKET_COUNT \<equiv> 256"

abbreviation LLPS_CLIENT_IP_RATE_BUCKET_MAGIC_FREE :: u32 where
  "LLPS_CLIENT_IP_RATE_BUCKET_MAGIC_FREE \<equiv> 0xA11F4EED"

abbreviation LLPS_CLIENT_IP_RATE_BUCKET_MAGIC_ACTIVE :: u32 where
  "LLPS_CLIENT_IP_RATE_BUCKET_MAGIC_ACTIVE \<equiv> 0xA11FCAFE"

abbreviation LLPS_NSEC_PER_MSEC :: u64 where
  "LLPS_NSEC_PER_MSEC \<equiv> 1000000"

record llps_client_ip_rate_bucket_t =
  rb_magic_start :: u32
  rb_client_ip :: "u8 list"
  rb_window_start_ns :: u64
  rb_window_start_ns_inverse :: u64
  rb_count :: u32
  rb_count_inverse :: u32
  rb_crc :: u32
  rb_crc_inverse :: u32
  rb_magic_end :: u32

record llps_client_ip_rate_bucket_search_t =
  matching_bucket :: "nat option"
  free_bucket :: "nat option"
  integrity_fault :: bool

record rate_state =
  rate_rs :: runtime_state
  g_client_ip_rate_buckets :: "llps_client_ip_rate_bucket_t list"

text \<open>The texts that \<^verbatim>\<open>*out_reason\<close> can point to, and the other outputs.\<close>

datatype rate_reason =
  client_ip_rate_limit | client_ip_rate_config_fault | client_ip_rate_time_fault
  | client_ip_rate_integrity | client_ip_rate_table_full

record rate_out =
  out_count :: u32
  out_limit :: u32
  out_window_ms :: u32
  out_reason :: rate_reason

definition llps_client_ip_rate_bucket_compute_crc :: "llps_client_ip_rate_bucket_t \<Rightarrow> u32" where
  "llps_client_ip_rate_bucket_compute_crc bucket =
     (let crc = LLPS_SESSION_CRC_INIT;
          crc = llps_crc32_update_u32 crc (rb_magic_start bucket);
          crc = foldl llps_crc32_update_byte crc (rb_client_ip bucket);
          crc = llps_crc32_update_u64 crc (rb_window_start_ns bucket);
          crc = llps_crc32_update_u64 crc (rb_window_start_ns_inverse bucket);
          crc = llps_crc32_update_u32 crc (rb_count bucket);
          crc = llps_crc32_update_u32 crc (rb_count_inverse bucket);
          crc = llps_crc32_update_u32 crc (rb_magic_end bucket)
      in crc XOR LLPS_SESSION_CRC_XOROUT)"

definition llps_client_ip_rate_bucket_magic_is_valid :: "u32 \<Rightarrow> bool" where
  "llps_client_ip_rate_bucket_magic_is_valid magic \<longleftrightarrow>
     magic = LLPS_CLIENT_IP_RATE_BUCKET_MAGIC_FREE \<or> magic = LLPS_CLIENT_IP_RATE_BUCKET_MAGIC_ACTIVE"

definition llps_client_ip_rate_bucket_is_valid :: "llps_client_ip_rate_bucket_t \<Rightarrow> bool" where
  "llps_client_ip_rate_bucket_is_valid bucket \<longleftrightarrow>
     rb_magic_start bucket = rb_magic_end bucket \<and>
     llps_client_ip_rate_bucket_magic_is_valid (rb_magic_start bucket) \<and>
     rb_window_start_ns_inverse bucket = NOT (rb_window_start_ns bucket) \<and>
     rb_count_inverse bucket = NOT (rb_count bucket) \<and>
     rb_crc_inverse bucket = NOT (rb_crc bucket) \<and>
     rb_crc bucket = llps_client_ip_rate_bucket_compute_crc bucket"

definition llps_client_ip_rate_bucket_is_active :: "llps_client_ip_rate_bucket_t \<Rightarrow> bool" where
  "llps_client_ip_rate_bucket_is_active bucket \<longleftrightarrow>
     rb_magic_start bucket = LLPS_CLIENT_IP_RATE_BUCKET_MAGIC_ACTIVE"

definition llps_client_ip_rate_bucket_refresh_crc ::
    "llps_client_ip_rate_bucket_t \<Rightarrow> llps_client_ip_rate_bucket_t" where
  "llps_client_ip_rate_bucket_refresh_crc bucket =
     (let bucket = bucket\<lparr>rb_crc := llps_client_ip_rate_bucket_compute_crc bucket\<rparr>
      in bucket\<lparr>rb_crc_inverse := NOT (rb_crc bucket)\<rparr>)"

definition llps_client_ip_rate_bucket_reset ::
    "llps_client_ip_rate_bucket_t \<Rightarrow> llps_client_ip_rate_bucket_t" where
  "llps_client_ip_rate_bucket_reset bucket =
     llps_client_ip_rate_bucket_refresh_crc
       (bucket\<lparr>rb_magic_start := LLPS_CLIENT_IP_RATE_BUCKET_MAGIC_FREE,
               rb_client_ip := replicate LLPS_CLIENT_IP_TEXT_LEN 0,
               rb_window_start_ns := 0, rb_window_start_ns_inverse := UINT64_MAX,
               rb_count := 0, rb_count_inverse := UINT32_MAX,
               rb_magic_end := LLPS_CLIENT_IP_RATE_BUCKET_MAGIC_FREE\<rparr>)"

definition llps_client_ip_rate_bucket_write ::
    "llps_client_ip_rate_bucket_t \<Rightarrow> u8 list \<Rightarrow> u64 \<Rightarrow> u32 \<Rightarrow> bool \<times> llps_client_ip_rate_bucket_t" where
  "llps_client_ip_rate_bucket_write bucket client_ip window_start_ns count =
     (let bucket = bucket\<lparr>rb_magic_start := LLPS_CLIENT_IP_RATE_BUCKET_MAGIC_ACTIVE\<rparr>;
          (ok, copied) = llps_state_copy_text (rb_client_ip bucket) LLPS_CLIENT_IP_TEXT_LEN client_ip;
          bucket = bucket\<lparr>rb_client_ip := copied\<rparr>
      in if \<not> ok then (False, llps_client_ip_rate_bucket_reset bucket)
         else (True, llps_client_ip_rate_bucket_refresh_crc
           (bucket\<lparr>rb_window_start_ns := window_start_ns,
                   rb_window_start_ns_inverse := NOT window_start_ns,
                   rb_count := count, rb_count_inverse := NOT count,
                   rb_magic_end := LLPS_CLIENT_IP_RATE_BUCKET_MAGIC_ACTIVE\<rparr>)))"

definition llps_client_ip_rate_buckets_reset ::
    "llps_client_ip_rate_bucket_t list \<Rightarrow> llps_client_ip_rate_bucket_t list" where
  "llps_client_ip_rate_buckets_reset buckets =
     foldl (\<lambda>buckets i. buckets[i := llps_client_ip_rate_bucket_reset (buckets ! i)]) buckets
       [0..<LLPS_CLIENT_IP_RATE_BUCKET_COUNT]"

fun text_matches_loop :: "u8 list \<Rightarrow> u8 list \<Rightarrow> nat list \<Rightarrow> bool" where
  "text_matches_loop lhs rhs [] = False"
| "text_matches_loop lhs rhs (i # indices) =
     (if lhs ! i \<noteq> rhs ! i then False
      else if lhs ! i = 0 then True
      else text_matches_loop lhs rhs indices)"

definition llps_client_ip_text_matches :: "u8 list \<Rightarrow> u8 list \<Rightarrow> bool" where
  "llps_client_ip_text_matches lhs rhs = text_matches_loop lhs rhs [0..<LLPS_CLIENT_IP_TEXT_LEN]"

definition llps_client_ip_rate_outputs_init :: rate_out where
  "llps_client_ip_rate_outputs_init =
     \<lparr>out_count = 0, out_limit = 0, out_window_ms = 0, out_reason = client_ip_rate_limit\<rparr>"

text \<open>\<open>None\<close> is the result \<^verbatim>\<open>false\<close>; \<open>Some (limit, window_ms)\<close> is \<^verbatim>\<open>true\<close> with both outputs.\<close>

definition llps_client_ip_rate_load_config ::
    "rate_out \<Rightarrow> runtime_state \<Rightarrow> (u32 \<times> u32) option \<times> rate_out \<times> runtime_state" where
  "llps_client_ip_rate_load_config out rs =
     (case reconcile_cfg rs of (ok, rs) \<Rightarrow>
        if \<not> ok then (None, out\<lparr>out_reason := client_ip_rate_config_fault\<rparr>, expect_shutdown rs)
        else (Some (max_new_sessions_per_client_ip_per_window (env_runtime_cfg (rs_env rs)),
                    client_ip_rate_window_ms (env_runtime_cfg (rs_env rs))), out, rs))"

definition llps_client_ip_rate_bucket_is_expired ::
    "llps_client_ip_rate_bucket_t \<Rightarrow> u64 \<Rightarrow> u64 \<Rightarrow> bool" where
  "llps_client_ip_rate_bucket_is_expired bucket now_ns window_ns \<longleftrightarrow>
     now_ns \<ge> rb_window_start_ns bucket \<and> now_ns - rb_window_start_ns bucket \<ge> window_ns"

fun rate_find_loop ::
    "u8 list \<Rightarrow> u64 \<Rightarrow> u64 \<Rightarrow> llps_client_ip_rate_bucket_search_t \<Rightarrow> rate_state \<Rightarrow> nat list \<Rightarrow>
     llps_client_ip_rate_bucket_search_t \<times> rate_state" where
  "rate_find_loop client_ip now_ns window_ns search st [] = (search, st)"
| "rate_find_loop client_ip now_ns window_ns search st (i # indices) =
     (let bucket = g_client_ip_rate_buckets st ! i
      in if \<not> llps_client_ip_rate_bucket_is_valid bucket
         then (search\<lparr>integrity_fault := True\<rparr>, st\<lparr>rate_rs := expect_shutdown (rate_rs st)\<rparr>)
         else if llps_client_ip_rate_bucket_is_active bucket
         then (if llps_client_ip_text_matches (rb_client_ip bucket) client_ip
               then (search\<lparr>matching_bucket := Some i\<rparr>, st)
               else if free_bucket search = None \<and>
                       llps_client_ip_rate_bucket_is_expired bucket now_ns window_ns
               then rate_find_loop client_ip now_ns window_ns (search\<lparr>free_bucket := Some i\<rparr>)
                      (st\<lparr>g_client_ip_rate_buckets :=
                           (g_client_ip_rate_buckets st)[i := llps_client_ip_rate_bucket_reset bucket]\<rparr>)
                      indices
               else rate_find_loop client_ip now_ns window_ns search st indices)
         else if free_bucket search = None
         then rate_find_loop client_ip now_ns window_ns (search\<lparr>free_bucket := Some i\<rparr>) st indices
         else rate_find_loop client_ip now_ns window_ns search st indices)"

definition llps_client_ip_rate_find_bucket ::
    "u8 list \<Rightarrow> u64 \<Rightarrow> u64 \<Rightarrow> rate_state \<Rightarrow> llps_client_ip_rate_bucket_search_t \<times> rate_state" where
  "llps_client_ip_rate_find_bucket client_ip now_ns window_ns st =
     rate_find_loop client_ip now_ns window_ns
       \<lparr>matching_bucket = None, free_bucket = None, integrity_fault = False\<rparr> st
       [0..<LLPS_CLIENT_IP_RATE_BUCKET_COUNT]"

text \<open>The results are the returned boolean (\<^verbatim>\<open>true\<close>: refused), the bucket and the outputs.\<close>

definition llps_client_ip_rate_consume_existing ::
    "llps_client_ip_rate_bucket_t \<Rightarrow> u8 list \<Rightarrow> u64 \<Rightarrow> u64 \<Rightarrow> u32 \<Rightarrow> rate_out \<Rightarrow>
     bool \<times> llps_client_ip_rate_bucket_t \<times> rate_out" where
  "llps_client_ip_rate_consume_existing bucket client_ip now_ns window_ns limit out =
     (let fresh = (\<not> llps_client_ip_rate_bucket_is_expired bucket now_ns window_ns \<and>
                   now_ns \<ge> rb_window_start_ns bucket);
          count = (if fresh then rb_count bucket else 0);
          (ok, bucket) = (if fresh then (True, bucket)
                          else llps_client_ip_rate_bucket_write bucket client_ip now_ns 0);
          out = (if fresh then out\<lparr>out_count := count\<rparr> else out)
      in if \<not> ok then (True, bucket, out\<lparr>out_reason := client_ip_rate_integrity\<rparr>)
         else if count \<ge> limit then (True, bucket, out)
         else
           (let count = count + 1;
                (ok, bucket) = llps_client_ip_rate_bucket_write bucket client_ip
                  (rb_window_start_ns bucket) count
            in if \<not> ok then (True, bucket, out\<lparr>out_reason := client_ip_rate_integrity\<rparr>)
               else (False, bucket, out\<lparr>out_count := count\<rparr>)))"

definition llps_client_ip_rate_consume_new ::
    "nat option \<Rightarrow> u8 list \<Rightarrow> u64 \<Rightarrow> rate_out \<Rightarrow> llps_client_ip_rate_bucket_t list \<Rightarrow>
     bool \<times> llps_client_ip_rate_bucket_t list \<times> rate_out" where
  "llps_client_ip_rate_consume_new bucket client_ip now_ns out buckets =
     (case bucket of
        None \<Rightarrow> (True, buckets, out\<lparr>out_reason := client_ip_rate_table_full\<rparr>)
      | Some i \<Rightarrow>
          (case llps_client_ip_rate_bucket_write (buckets ! i) client_ip now_ns 1 of
             (ok, b) \<Rightarrow>
               if \<not> ok then (True, buckets[i := b], out\<lparr>out_reason := client_ip_rate_integrity\<rparr>)
               else (False, buckets[i := b], out\<lparr>out_count := 1\<rparr>)))"

definition llps_client_ip_rate_consume_search ::
    "llps_client_ip_rate_bucket_search_t \<Rightarrow> u8 list \<Rightarrow> u64 \<Rightarrow> u64 \<Rightarrow> u32 \<Rightarrow> rate_out \<Rightarrow>
     llps_client_ip_rate_bucket_t list \<Rightarrow> bool \<times> llps_client_ip_rate_bucket_t list \<times> rate_out" where
  "llps_client_ip_rate_consume_search search client_ip now_ns window_ns limit out buckets =
     (if integrity_fault search then (True, buckets, out\<lparr>out_reason := client_ip_rate_integrity\<rparr>)
      else (case matching_bucket search of
              Some i \<Rightarrow>
                (case llps_client_ip_rate_consume_existing (buckets ! i) client_ip now_ns window_ns limit out of
                   (refused, b, out) \<Rightarrow> (refused, buckets[i := b], out))
            | None \<Rightarrow> llps_client_ip_rate_consume_new (free_bucket search) client_ip now_ns out buckets))"

text \<open>\<open>now\<close> is the reading of the clock.\<close>

definition llps_client_ip_rate_limit_exceeded ::
    "u8 list \<Rightarrow> u64 \<Rightarrow> rate_state \<Rightarrow> bool \<times> rate_out \<times> rate_state" where
  "llps_client_ip_rate_limit_exceeded client_ip now st =
     (let out = llps_client_ip_rate_outputs_init;
          (loaded, out, rs) = llps_client_ip_rate_load_config out (rate_rs st);
          st = st\<lparr>rate_rs := rs\<rparr>
      in case loaded of
           None \<Rightarrow> (True, out, st)
         | Some (limit, window_ms) \<Rightarrow>
             (let out = out\<lparr>out_limit := limit, out_window_ms := window_ms\<rparr>
              in if limit = 0 \<or> client_ip ! 0 = 0 then (False, out, st)
                 else
                   (let (now_ns, rs) = llps_llam_now_ns_checked now (rate_rs st);
                        st = st\<lparr>rate_rs := rs\<rparr>
                    in if now_ns = 0 then (True, out\<lparr>out_reason := client_ip_rate_time_fault\<rparr>, st)
                       else
                         (let window_ns = ucast window_ms * LLPS_NSEC_PER_MSEC;
                              (search, st) = llps_client_ip_rate_find_bucket client_ip now_ns window_ns st;
                              (refused, buckets, out) = llps_client_ip_rate_consume_search search client_ip
                                now_ns window_ns limit out (g_client_ip_rate_buckets st)
                          in (refused, out, st\<lparr>g_client_ip_rate_buckets := buckets\<rparr>)))))"

section \<open>The table and its specification\<close>

definition bucket_key :: "llps_client_ip_rate_bucket_t \<Rightarrow> u8 list" where
  "bucket_key b = text_of LLPS_CLIENT_IP_TEXT_LEN (rb_client_ip b)"

definition bucket_ok :: "llps_client_ip_rate_bucket_t \<Rightarrow> bool" where
  "bucket_ok b \<longleftrightarrow> llps_client_ip_rate_bucket_is_valid b \<and>
     length (rb_client_ip b) = LLPS_CLIENT_IP_TEXT_LEN \<and>
     (llps_client_ip_rate_bucket_is_active b \<longrightarrow> terminated LLPS_CLIENT_IP_TEXT_LEN (rb_client_ip b))"

text \<open>Every bucket is intact and no two active buckets are kept for the same address.\<close>

definition table_ok :: "llps_client_ip_rate_bucket_t list \<Rightarrow> bool" where
  "table_ok bs \<longleftrightarrow> length bs = LLPS_CLIENT_IP_RATE_BUCKET_COUNT \<and> list_all bucket_ok bs \<and>
     (\<forall>i < LLPS_CLIENT_IP_RATE_BUCKET_COUNT. \<forall>j < LLPS_CLIENT_IP_RATE_BUCKET_COUNT.
        llps_client_ip_rate_bucket_is_active (bs ! i) \<and> llps_client_ip_rate_bucket_is_active (bs ! j) \<and>
        bucket_key (bs ! i) = bucket_key (bs ! j) \<longrightarrow> i = j)"

type_synonym rate_table = "u8 list \<rightharpoonup> u64 \<times> u32"

definition rate_table :: "llps_client_ip_rate_bucket_t list \<Rightarrow> rate_table" where
  "rate_table bs = map_of (map (\<lambda>b. (bucket_key b, (rb_window_start_ns b, rb_count b)))
     (filter llps_client_ip_rate_bucket_is_active bs))"

text \<open>A window that lies behind the clock, and one that contains it.\<close>

definition window_over :: "u64 \<Rightarrow> u64 \<Rightarrow> u64 \<Rightarrow> bool" where
  "window_over window now start \<longleftrightarrow> start \<le> now \<and> window \<le> now - start"

definition window_current :: "u64 \<Rightarrow> u64 \<Rightarrow> u64 \<Rightarrow> bool" where
  "window_current window now start \<longleftrightarrow> start \<le> now \<and> now - start < window"

text \<open>
  The specification: a step on a map from addresses to windows. It may first drop one entry of
  another address whose window is over.
\<close>

inductive rate_evict :: "u64 \<Rightarrow> u8 list \<Rightarrow> u64 \<Rightarrow> rate_table \<Rightarrow> rate_table \<Rightarrow> bool" for window ip now where
  keep: "rate_evict window ip now t t"
| drop_one: "t k = Some (start, count) \<Longrightarrow> k \<noteq> ip \<Longrightarrow> window_over window now start \<Longrightarrow>
    rate_evict window ip now t (t(k := None))"

inductive rate_step ::
    "u32 \<Rightarrow> u64 \<Rightarrow> rate_table \<Rightarrow> u8 list \<Rightarrow> u64 \<Rightarrow> bool \<Rightarrow> rate_table \<Rightarrow> bool" for limit window where
  used_up: "rate_evict window ip now t t' \<Longrightarrow> t ip = Some (start, count) \<Longrightarrow>
    window_current window now start \<Longrightarrow> count \<ge> limit \<Longrightarrow> rate_step limit window t ip now True t'"
| one_more: "rate_evict window ip now t t' \<Longrightarrow> t ip = Some (start, count) \<Longrightarrow>
    window_current window now start \<Longrightarrow> count < limit \<Longrightarrow>
    rate_step limit window t ip now False (t'(ip \<mapsto> (start, count + 1)))"
| next_window: "rate_evict window ip now t t' \<Longrightarrow> t ip = Some (start, count) \<Longrightarrow>
    \<not> window_current window now start \<Longrightarrow>
    rate_step limit window t ip now False (t'(ip \<mapsto> (now, 1)))"
| first_window: "rate_evict window ip now t t' \<Longrightarrow> t ip = None \<Longrightarrow>
    rate_step limit window t ip now False (t'(ip \<mapsto> (now, 1)))"
| table_full: "t ip = None \<Longrightarrow> card (dom t) = LLPS_CLIENT_IP_RATE_BUCKET_COUNT \<Longrightarrow>
    (\<And>k start count. t k = Some (start, count) \<Longrightarrow> \<not> window_over window now start) \<Longrightarrow>
    rate_step limit window t ip now True t"

inductive_cases rate_evictE: "rate_evict window ip now t t'"

section \<open>Texts and buckets\<close>

lemma text_matches_loop_iff:
  "k \<le> cap \<Longrightarrow> text_matches_loop a b [k..<cap] \<longleftrightarrow>
     (\<exists>n. k \<le> n \<and> n < cap \<and> a ! n = 0 \<and> b ! n = 0 \<and> (\<forall>i. k \<le> i \<and> i < n \<longrightarrow> a ! i = b ! i \<and> a ! i \<noteq> 0))"
  (is "_ \<Longrightarrow> _ \<longleftrightarrow> (\<exists>n. ?P k n)")
proof (induction "cap - k" arbitrary: k)
  case 0
  then show ?case by simp
next
  case (Suc m)
  then have k: "k < cap" by simp
  have IH: "text_matches_loop a b [Suc k..<cap] \<longleftrightarrow> (\<exists>n. ?P (Suc k) n)"
    using Suc.hyps(2) k by (intro Suc.hyps(1)) auto
  show ?case
  proof (cases "a ! k = b ! k \<and> a ! k \<noteq> 0")
    case True
    have "(\<exists>n. ?P k n) \<longleftrightarrow> (\<exists>n. ?P (Suc k) n)"
    proof
      assume "\<exists>n. ?P k n"
      then obtain n where n: "?P k n" by blast
      with True have "n \<noteq> k" by auto
      with n have "?P (Suc k) n" by (metis Suc_leD Suc_leI le_neq_implies_less)
      then show "\<exists>n. ?P (Suc k) n" by blast
    next
      assume "\<exists>n. ?P (Suc k) n"
      then obtain n where n: "?P (Suc k) n" by blast
      with True have "?P k n" by (metis Suc_leD Suc_leI le_neq_implies_less)
      then show "\<exists>n. ?P k n" by blast
    qed
    moreover have "text_matches_loop a b [k..<cap] = text_matches_loop a b [Suc k..<cap]"
      using True k by (auto simp: upt_conv_Cons)
    ultimately show ?thesis using IH by simp
  next
    case False
    have "(\<exists>n. ?P k n) \<longleftrightarrow> a ! k = 0 \<and> b ! k = 0"
    proof
      assume "\<exists>n. ?P k n"
      then obtain n where n: "?P k n" by blast
      with False have "\<not> k < n" by auto
      with n show "a ! k = 0 \<and> b ! k = 0" by (cases "n = k") auto
    qed (use k in auto)
    with False k show ?thesis by (auto simp: upt_conv_Cons)
  qed
qed

lemma text_matches_iff:
  assumes "terminated LLPS_CLIENT_IP_TEXT_LEN a" "terminated LLPS_CLIENT_IP_TEXT_LEN b"
  shows "llps_client_ip_text_matches a b \<longleftrightarrow>
    text_of LLPS_CLIENT_IP_TEXT_LEN a = text_of LLPS_CLIENT_IP_TEXT_LEN b"
proof -
  obtain n where n: "n < 16" "n < length a" "a ! n = 0" "\<And>i. i < n \<Longrightarrow> a ! i \<noteq> 0" "text_of 16 a = take n a"
    using assms(1) by (rule terminated_first) blast
  obtain m where m: "m < 16" "m < length b" "b ! m = 0" "\<And>i. i < m \<Longrightarrow> b ! i \<noteq> 0" "text_of 16 b = take m b"
    using assms(2) by (rule terminated_first) blast
  have "llps_client_ip_text_matches a b \<longleftrightarrow>
      (\<exists>k < 16. a ! k = 0 \<and> b ! k = 0 \<and> (\<forall>i < k. a ! i = b ! i \<and> a ! i \<noteq> 0))"
    by (auto simp: llps_client_ip_text_matches_def text_matches_loop_iff)
  also have "\<dots> \<longleftrightarrow> n = m \<and> (\<forall>i < n. a ! i = b ! i)"
  proof
    assume "\<exists>k < 16. a ! k = 0 \<and> b ! k = 0 \<and> (\<forall>i < k. a ! i = b ! i \<and> a ! i \<noteq> 0)"
    then obtain k where k: "a ! k = 0" "b ! k = 0" "\<forall>i < k. a ! i = b ! i \<and> a ! i \<noteq> 0" by blast
    have "k = n" using k(1,3) n(3,4) by (metis linorder_neqE_nat)
    moreover have "k = m" using k(2,3) m(3,4) by (metis linorder_neqE_nat)
    ultimately show "n = m \<and> (\<forall>i < n. a ! i = b ! i)" using k(3) by simp
  qed (use n m in auto)
  also have "\<dots> \<longleftrightarrow> take n a = take m b"
    using n(2) m(2) by (auto simp: list_eq_iff_nth_eq)
  finally show ?thesis using n(5) m(5) by simp
qed

lemma refresh_crc_fields [simp]:
  "rb_magic_start (llps_client_ip_rate_bucket_refresh_crc b) = rb_magic_start b"
  "rb_client_ip (llps_client_ip_rate_bucket_refresh_crc b) = rb_client_ip b"
  "rb_window_start_ns (llps_client_ip_rate_bucket_refresh_crc b) = rb_window_start_ns b"
  "rb_window_start_ns_inverse (llps_client_ip_rate_bucket_refresh_crc b) = rb_window_start_ns_inverse b"
  "rb_count (llps_client_ip_rate_bucket_refresh_crc b) = rb_count b"
  "rb_count_inverse (llps_client_ip_rate_bucket_refresh_crc b) = rb_count_inverse b"
  "rb_magic_end (llps_client_ip_rate_bucket_refresh_crc b) = rb_magic_end b"
  "rb_crc (llps_client_ip_rate_bucket_refresh_crc b) = llps_client_ip_rate_bucket_compute_crc b"
  "rb_crc_inverse (llps_client_ip_rate_bucket_refresh_crc b) = NOT (llps_client_ip_rate_bucket_compute_crc b)"
  "llps_client_ip_rate_bucket_compute_crc (llps_client_ip_rate_bucket_refresh_crc b) =
     llps_client_ip_rate_bucket_compute_crc b"
  by (simp_all add: llps_client_ip_rate_bucket_refresh_crc_def llps_client_ip_rate_bucket_compute_crc_def Let_def)

lemma bucket_reset_ok:
  "bucket_ok (llps_client_ip_rate_bucket_reset b)"
  "\<not> llps_client_ip_rate_bucket_is_active (llps_client_ip_rate_bucket_reset b)"
  by (auto simp: bucket_ok_def llps_client_ip_rate_bucket_reset_def llps_client_ip_rate_bucket_is_valid_def
      llps_client_ip_rate_bucket_magic_is_valid_def llps_client_ip_rate_bucket_is_active_def)

lemma bucket_write_ok:
  assumes "length (rb_client_ip b) = LLPS_CLIENT_IP_TEXT_LEN" "terminated LLPS_CLIENT_IP_TEXT_LEN ip"
  shows "\<exists>b'. llps_client_ip_rate_bucket_write b ip start count = (True, b') \<and> bucket_ok b' \<and>
    llps_client_ip_rate_bucket_is_active b' \<and> bucket_key b' = text_of LLPS_CLIENT_IP_TEXT_LEN ip \<and>
    rb_window_start_ns b' = start \<and> rb_count b' = count"
proof -
  obtain dst where "llps_state_copy_text (rb_client_ip b) 16 ip = (True, dst)" "length dst = 16"
    "text_of 16 dst = text_of 16 ip" "terminated 16 dst"
    using copy_text_ok [OF assms(2,1)] by blast
  then show ?thesis
    by (simp add: llps_client_ip_rate_bucket_write_def bucket_ok_def llps_client_ip_rate_bucket_is_valid_def
        llps_client_ip_rate_bucket_magic_is_valid_def llps_client_ip_rate_bucket_is_active_def bucket_key_def)
qed

section \<open>The table as a map\<close>

abbreviation active :: "llps_client_ip_rate_bucket_t \<Rightarrow> bool" where
  "active \<equiv> llps_client_ip_rate_bucket_is_active"

lemma table_ok_length: "table_ok bs \<Longrightarrow> length bs = LLPS_CLIENT_IP_RATE_BUCKET_COUNT"
  by (simp add: table_ok_def)

lemma table_ok_nth: "table_ok bs \<Longrightarrow> i < LLPS_CLIENT_IP_RATE_BUCKET_COUNT \<Longrightarrow> bucket_ok (bs ! i)"
  by (simp add: table_ok_def list_all_length)

lemma table_ok_inj:
  "table_ok bs \<Longrightarrow> i < LLPS_CLIENT_IP_RATE_BUCKET_COUNT \<Longrightarrow> j < LLPS_CLIENT_IP_RATE_BUCKET_COUNT \<Longrightarrow>
     active (bs ! i) \<Longrightarrow> active (bs ! j) \<Longrightarrow> bucket_key (bs ! i) = bucket_key (bs ! j) \<Longrightarrow> i = j"
  by (simp add: table_ok_def)

lemma table_okI:
  assumes "length bs = LLPS_CLIENT_IP_RATE_BUCKET_COUNT"
    and "\<And>i. i < LLPS_CLIENT_IP_RATE_BUCKET_COUNT \<Longrightarrow> bucket_ok (bs ! i)"
    and "\<And>i j. i < LLPS_CLIENT_IP_RATE_BUCKET_COUNT \<Longrightarrow> j < LLPS_CLIENT_IP_RATE_BUCKET_COUNT \<Longrightarrow>
      active (bs ! i) \<Longrightarrow> active (bs ! j) \<Longrightarrow> bucket_key (bs ! i) = bucket_key (bs ! j) \<Longrightarrow> i = j"
  shows "table_ok bs"
  using assms by (simp add: table_ok_def list_all_length)

lemma rate_table_Some_iff:
  assumes "table_ok bs"
  shows "rate_table bs k = Some v \<longleftrightarrow> (\<exists>i < LLPS_CLIENT_IP_RATE_BUCKET_COUNT.
    active (bs ! i) \<and> bucket_key (bs ! i) = k \<and> v = (rb_window_start_ns (bs ! i), rb_count (bs ! i)))"
  (is "_ \<longleftrightarrow> ?R v")
proof -
  have sound: "?R w" if "rate_table bs k = Some w" for w
  proof -
    have "(k, w) \<in> set (map (\<lambda>b. (bucket_key b, (rb_window_start_ns b, rb_count b))) (filter active bs))"
      using that unfolding rate_table_def by (rule map_of_SomeD)
    then show ?thesis using table_ok_length [OF assms] by (auto simp: in_set_conv_nth)
  qed
  have "rate_table bs k = Some v" if R: "?R v"
  proof -
    from R have "k \<in> bucket_key ` set (filter active bs)"
      using table_ok_length [OF assms] by (force simp: in_set_conv_nth)
    then have "rate_table bs k \<noteq> None"
      by (simp add: rate_table_def map_of_eq_None_iff image_image)
    then obtain w where w: "rate_table bs k = Some w" by blast
    from sound [OF w] R have "w = v" using table_ok_inj [OF assms] by metis
    with w show ?thesis by simp
  qed
  with sound show ?thesis by blast
qed

lemma rate_table_None_iff:
  assumes "table_ok bs"
  shows "rate_table bs k = None \<longleftrightarrow>
    (\<forall>i < LLPS_CLIENT_IP_RATE_BUCKET_COUNT. \<not> (active (bs ! i) \<and> bucket_key (bs ! i) = k))"
  using rate_table_Some_iff [OF assms, of k] by (cases "rate_table bs k") auto

text \<open>Writing an active bucket over a free one or over the one of the same address.\<close>

lemma table_write:
  assumes ok: "table_ok bs" and i: "i < LLPS_CLIENT_IP_RATE_BUCKET_COUNT"
    and b: "bucket_ok b" "active b"
    and slot: "if active (bs ! i) then bucket_key (bs ! i) = bucket_key b else rate_table bs (bucket_key b) = None"
  shows "table_ok (bs[i := b])"
    and "rate_table (bs[i := b]) = (rate_table bs)(bucket_key b \<mapsto> (rb_window_start_ns b, rb_count b))"
proof -
  have other: "bucket_key (bs ! j) \<noteq> bucket_key b"
    if "j < LLPS_CLIENT_IP_RATE_BUCKET_COUNT" "j \<noteq> i" "active (bs ! j)" for j
    using slot that i table_ok_inj [OF ok, of i j] rate_table_None_iff [OF ok, of "bucket_key b"]
    by (auto split: if_splits)
  note len = table_ok_length [OF ok]
  show ok': "table_ok (bs[i := b])"
  proof (rule table_okI)
    fix j l
    assume *: "j < LLPS_CLIENT_IP_RATE_BUCKET_COUNT" "l < LLPS_CLIENT_IP_RATE_BUCKET_COUNT"
      "active (bs[i := b] ! j)" "active (bs[i := b] ! l)"
      "bucket_key (bs[i := b] ! j) = bucket_key (bs[i := b] ! l)"
    then show "j = l"
      using i other [of j] other [of l] table_ok_inj [OF ok, of j l] len
      by (auto simp: nth_list_update split: if_splits)
  qed (use ok b len i in \<open>auto simp: nth_list_update table_ok_nth\<close>)
  show "rate_table (bs[i := b]) = (rate_table bs)(bucket_key b \<mapsto> (rb_window_start_ns b, rb_count b))"
  proof (rule ext)
    fix k
    show "rate_table (bs[i := b]) k = ((rate_table bs)(bucket_key b \<mapsto> (rb_window_start_ns b, rb_count b))) k"
    proof (cases "k = bucket_key b")
      case True
      then show ?thesis
        using i b(2) len by (auto simp: rate_table_Some_iff [OF ok'] intro!: exI [of _ i])
    next
      case False
      have "(active (bs[i := b] ! j) \<and> bucket_key (bs[i := b] ! j) = k \<and>
            v = (rb_window_start_ns (bs[i := b] ! j), rb_count (bs[i := b] ! j))) \<longleftrightarrow>
          active (bs ! j) \<and> bucket_key (bs ! j) = k \<and> v = (rb_window_start_ns (bs ! j), rb_count (bs ! j))"
        for j v
        using False slot len i by (cases "j = i") (auto split: if_splits)
      then have "rate_table (bs[i := b]) k = Some v \<longleftrightarrow> rate_table bs k = Some v" for v
        unfolding rate_table_Some_iff [OF ok'] rate_table_Some_iff [OF ok] by simp
      then show ?thesis using False by (cases "rate_table bs k"; cases "rate_table (bs[i := b]) k") auto
    qed
  qed
qed

text \<open>Freeing an active bucket.\<close>

lemma table_free:
  assumes ok: "table_ok bs" and i: "i < LLPS_CLIENT_IP_RATE_BUCKET_COUNT" "active (bs ! i)"
    and b: "bucket_ok b" "\<not> active b"
  shows "table_ok (bs[i := b])"
    and "rate_table (bs[i := b]) = (rate_table bs)(bucket_key (bs ! i) := None)"
proof -
  note len = table_ok_length [OF ok]
  show ok': "table_ok (bs[i := b])"
    using ok b len i by (intro table_okI) (auto simp: nth_list_update table_ok_nth split: if_splits intro: table_ok_inj)
  show "rate_table (bs[i := b]) = (rate_table bs)(bucket_key (bs ! i) := None)"
  proof (rule ext)
    fix k
    have "(active (bs[i := b] ! j) \<and> bucket_key (bs[i := b] ! j) = k \<and>
          v = (rb_window_start_ns (bs[i := b] ! j), rb_count (bs[i := b] ! j))) \<longleftrightarrow>
        k \<noteq> bucket_key (bs ! i) \<and>
        (active (bs ! j) \<and> bucket_key (bs ! j) = k \<and> v = (rb_window_start_ns (bs ! j), rb_count (bs ! j)))"
      if "j < LLPS_CLIENT_IP_RATE_BUCKET_COUNT" for j v
      using that i b(2) len table_ok_inj [OF ok that i(1) _ i(2)] by (cases "j = i") auto
    then have "rate_table (bs[i := b]) k = Some v \<longleftrightarrow> k \<noteq> bucket_key (bs ! i) \<and> rate_table bs k = Some v" for v
      unfolding rate_table_Some_iff [OF ok'] rate_table_Some_iff [OF ok] by blast
    then show "rate_table (bs[i := b]) k = ((rate_table bs)(bucket_key (bs ! i) := None)) k"
      by (cases "rate_table bs k"; cases "rate_table (bs[i := b]) k") (auto split: if_splits)
  qed
qed

section \<open>The search\<close>

abbreviation expired :: "llps_client_ip_rate_bucket_t \<Rightarrow> u64 \<Rightarrow> u64 \<Rightarrow> bool" where
  "expired \<equiv> llps_client_ip_rate_bucket_is_expired"

lemma expired_iff: "expired b now window \<longleftrightarrow> window_over window now (rb_window_start_ns b)"
  by (simp add: llps_client_ip_rate_bucket_is_expired_def window_over_def)

text \<open>
  What the search leaves: the buckets as they were, or with one expired bucket of another address
  reset; the bucket of the address, or none when the scanned buckets hold none; and a free bucket, or
  none when every scanned bucket is in use and not expired.
\<close>

definition find_post ::
    "u8 list \<Rightarrow> u64 \<Rightarrow> u64 \<Rightarrow> nat list \<Rightarrow> llps_client_ip_rate_bucket_search_t \<Rightarrow> rate_state \<Rightarrow>
     llps_client_ip_rate_bucket_search_t \<Rightarrow> rate_state \<Rightarrow> bool" where
  "find_post ip now window indices search st search' st' \<longleftrightarrow>
     (let bs = g_client_ip_rate_buckets st; bs' = g_client_ip_rate_buckets st'
      in \<not> integrity_fault search' \<and> rate_rs st' = rate_rs st \<and> table_ok bs' \<and>
         (bs' = bs \<or> free_bucket search = None \<and>
           (\<exists>i \<in> set indices. active (bs ! i) \<and> expired (bs ! i) now window \<and>
              \<not> llps_client_ip_text_matches (rb_client_ip (bs ! i)) ip \<and>
              bs' = bs[i := llps_client_ip_rate_bucket_reset (bs ! i)])) \<and>
         (case matching_bucket search' of
            Some i \<Rightarrow> i < LLPS_CLIENT_IP_RATE_BUCKET_COUNT \<and> active (bs' ! i) \<and>
              llps_client_ip_text_matches (rb_client_ip (bs' ! i)) ip
          | None \<Rightarrow> \<forall>i \<in> set indices. \<not> (active (bs ! i) \<and> llps_client_ip_text_matches (rb_client_ip (bs ! i)) ip)) \<and>
         (case free_bucket search' of
            Some j \<Rightarrow> j < LLPS_CLIENT_IP_RATE_BUCKET_COUNT \<and> \<not> active (bs' ! j)
          | None \<Rightarrow> matching_bucket search' = None \<longrightarrow>
              free_bucket search = None \<and> (\<forall>i \<in> set indices. active (bs ! i) \<and> \<not> expired (bs ! i) now window)))"

lemma find_loop_post:
  assumes "table_ok (g_client_ip_rate_buckets st)" "\<not> integrity_fault search" "matching_bucket search = None"
    and "\<And>j. free_bucket search = Some j \<Longrightarrow>
      j < LLPS_CLIENT_IP_RATE_BUCKET_COUNT \<and> \<not> active (g_client_ip_rate_buckets st ! j)"
    and "set indices \<subseteq> {..<LLPS_CLIENT_IP_RATE_BUCKET_COUNT}"
  shows "\<exists>search' st'. rate_find_loop ip now window search st indices = (search', st') \<and>
    find_post ip now window indices search st search' st'"
  using assms
proof (induction indices arbitrary: search st)
  case Nil
  then show ?case by (auto simp: find_post_def split: option.split)
next
  case (Cons i indices)
  let ?bs = "g_client_ip_rate_buckets st"
  have i: "i < LLPS_CLIENT_IP_RATE_BUCKET_COUNT" using Cons.prems(5) by simp
  have valid: "llps_client_ip_rate_bucket_is_valid (?bs ! i)"
    using table_ok_nth [OF Cons.prems(1) i] by (simp add: bucket_ok_def)
  consider (match) "active (?bs ! i)" "llps_client_ip_text_matches (rb_client_ip (?bs ! i)) ip"
    | (evict) "active (?bs ! i)" "\<not> llps_client_ip_text_matches (rb_client_ip (?bs ! i)) ip"
        "free_bucket search = None" "expired (?bs ! i) now window"
    | (skip) "active (?bs ! i)" "\<not> llps_client_ip_text_matches (rb_client_ip (?bs ! i)) ip"
        "\<not> (free_bucket search = None \<and> expired (?bs ! i) now window)"
    | (take_free) "\<not> active (?bs ! i)" "free_bucket search = None"
    | (other) "\<not> active (?bs ! i)" "free_bucket search \<noteq> None"
    by (cases "active (?bs ! i)"; cases "free_bucket search = None"; blast)
  then show ?case
  proof cases
    case match
    then show ?thesis
      using Cons.prems i valid
      by (auto simp: find_post_def Let_def split: option.split)
  next
    case evict
    let ?st = "st\<lparr>g_client_ip_rate_buckets := ?bs[i := llps_client_ip_rate_bucket_reset (?bs ! i)]\<rparr>"
    let ?search = "search\<lparr>free_bucket := Some i\<rparr>"
    have len: "i < length ?bs" using i table_ok_length [OF Cons.prems(1)] by simp
    have "\<exists>search' st'. rate_find_loop ip now window ?search ?st indices = (search', st') \<and>
        find_post ip now window indices ?search ?st search' st'"
      using Cons.prems i evict len
      by (intro Cons.IH) (auto simp: table_free bucket_reset_ok)
    then obtain search' st' where r: "rate_find_loop ip now window ?search ?st indices = (search', st')"
      and p: "find_post ip now window indices ?search ?st search' st'" by blast
    have bs': "g_client_ip_rate_buckets st' = ?bs[i := llps_client_ip_rate_bucket_reset (?bs ! i)]"
      using p by (simp add: find_post_def Let_def)
    have same: "?bs[i := llps_client_ip_rate_bucket_reset (?bs ! i)] ! j = ?bs ! j" if "j \<noteq> i" for j
      using that by simp
    note p' = p [unfolded find_post_def Let_def, simplified]
    have "\<not> (active (?bs ! j) \<and> llps_client_ip_text_matches (rb_client_ip (?bs ! j)) ip)"
      if "matching_bucket search' = None" "j \<in> set (i # indices)" for j
      using that p' evict(2) same [of j] by (cases "j = i") auto
    then have "find_post ip now window (i # indices) search st search' st'"
      using p' evict unfolding find_post_def Let_def bs' by (auto split: option.splits)
    then show ?thesis using r valid evict by simp
  next
    case skip
    then obtain search' st' where r: "rate_find_loop ip now window search st indices = (search', st')"
      and p: "find_post ip now window indices search st search' st'"
      using Cons.IH [OF Cons.prems(1-4)] Cons.prems(5) by auto
    have "find_post ip now window (i # indices) search st search' st'"
      using p skip unfolding find_post_def Let_def
      by (cases "matching_bucket search'"; cases "free_bucket search'") fastforce+
    then show ?thesis using r valid skip by (auto simp: Let_def)
  next
    case take_free
    let ?search = "search\<lparr>free_bucket := Some i\<rparr>"
    have "\<exists>search' st'. rate_find_loop ip now window ?search st indices = (search', st') \<and>
        find_post ip now window indices ?search st search' st'"
      using Cons.prems i take_free by (intro Cons.IH) auto
    then obtain search' st' where r: "rate_find_loop ip now window ?search st indices = (search', st')"
      and p: "find_post ip now window indices ?search st search' st'" by blast
    have "find_post ip now window (i # indices) search st search' st'"
      using p take_free unfolding find_post_def Let_def
      by (cases "matching_bucket search'"; cases "free_bucket search'") fastforce+
    then show ?thesis using r valid take_free by simp
  next
    case other
    then obtain search' st' where r: "rate_find_loop ip now window search st indices = (search', st')"
      and p: "find_post ip now window indices search st search' st'"
      using Cons.IH [OF Cons.prems(1-4)] Cons.prems(5) by auto
    have "find_post ip now window (i # indices) search st search' st'"
      using p other unfolding find_post_def Let_def
      by (cases "matching_bucket search'"; cases "free_bucket search'") fastforce+
    then show ?thesis using r valid other by auto
  qed
qed

section \<open>One admission decision\<close>

abbreviation all_buckets :: "nat list" where
  "all_buckets \<equiv> [0..<LLPS_CLIENT_IP_RATE_BUCKET_COUNT]"

abbreviation new_search :: llps_client_ip_rate_bucket_search_t where
  "new_search \<equiv> \<lparr>matching_bucket = None, free_bucket = None, integrity_fault = False\<rparr>"

lemma active_key:
  assumes "table_ok bs" "i < LLPS_CLIENT_IP_RATE_BUCKET_COUNT" "active (bs ! i)"
    and "terminated LLPS_CLIENT_IP_TEXT_LEN ip"
  shows "llps_client_ip_text_matches (rb_client_ip (bs ! i)) ip \<longleftrightarrow>
    bucket_key (bs ! i) = text_of LLPS_CLIENT_IP_TEXT_LEN ip"
  using table_ok_nth [OF assms(1,2)] assms(3,4)
  unfolding bucket_key_def by (intro text_matches_iff) (auto simp: bucket_ok_def)

lemma find_post_evict:
  assumes "find_post ip now window all_buckets new_search st search st'"
    and "table_ok (g_client_ip_rate_buckets st)" "terminated LLPS_CLIENT_IP_TEXT_LEN ip"
  shows "rate_evict window (text_of LLPS_CLIENT_IP_TEXT_LEN ip) now
    (rate_table (g_client_ip_rate_buckets st)) (rate_table (g_client_ip_rate_buckets st'))"
proof -
  let ?bs = "g_client_ip_rate_buckets st"
  from assms(1) consider "g_client_ip_rate_buckets st' = ?bs"
    | i where "i < LLPS_CLIENT_IP_RATE_BUCKET_COUNT" "active (?bs ! i)" "expired (?bs ! i) now window"
      "\<not> llps_client_ip_text_matches (rb_client_ip (?bs ! i)) ip"
      "g_client_ip_rate_buckets st' = ?bs[i := llps_client_ip_rate_bucket_reset (?bs ! i)]"
    by (auto simp: find_post_def Let_def)
  then show ?thesis
  proof cases
    case 2
    then have "rate_table ?bs (bucket_key (?bs ! i)) = Some (rb_window_start_ns (?bs ! i), rb_count (?bs ! i))"
      by (auto simp: rate_table_Some_iff [OF assms(2)])
    then show ?thesis
      using 2 active_key [OF assms(2) _ _ assms(3)]
      by (simp add: table_free [OF assms(2)] bucket_reset_ok expired_iff rate_evict.drop_one)
  qed (simp add: rate_evict.keep)
qed

lemma rate_evict_other: "rate_evict window ip now t t' \<Longrightarrow> t' ip = t ip"
  by (auto elim: rate_evictE)

lemma consume_existing_refines:
  assumes b: "bucket_ok b" "active b" "bucket_key b = text_of LLPS_CLIENT_IP_TEXT_LEN ip"
    and ip: "terminated LLPS_CLIENT_IP_TEXT_LEN ip" and limit: "limit \<noteq> 0"
  shows "\<exists>refused b' out'. llps_client_ip_rate_consume_existing b ip now window limit out = (refused, b', out') \<and>
    bucket_ok b' \<and> active b' \<and> bucket_key b' = text_of LLPS_CLIENT_IP_TEXT_LEN ip \<and>
    (if window_current window now (rb_window_start_ns b)
     then (if rb_count b \<ge> limit then refused \<and> b' = b
           else \<not> refused \<and> rb_window_start_ns b' = rb_window_start_ns b \<and> rb_count b' = rb_count b + 1)
     else \<not> refused \<and> rb_window_start_ns b' = now \<and> rb_count b' = 1)"
proof (cases "window_current window now (rb_window_start_ns b)")
  case True
  then have fresh: "\<not> expired b now window \<and> now \<ge> rb_window_start_ns b"
    by (auto simp: window_current_def window_over_def expired_iff)
  obtain b' where "llps_client_ip_rate_bucket_write b ip (rb_window_start_ns b) (rb_count b + 1) = (True, b')"
    "bucket_ok b'" "active b'" "bucket_key b' = text_of LLPS_CLIENT_IP_TEXT_LEN ip"
    "rb_window_start_ns b' = rb_window_start_ns b" "rb_count b' = rb_count b + 1"
    using bucket_write_ok [of b ip] b ip by (auto simp: bucket_ok_def)
  then show ?thesis
    using True fresh b by (auto simp: llps_client_ip_rate_consume_existing_def)
next
  case False
  then have stale: "\<not> (\<not> expired b now window \<and> now \<ge> rb_window_start_ns b)"
    by (auto simp: window_current_def window_over_def expired_iff)
  obtain b1 where w1: "llps_client_ip_rate_bucket_write b ip now 0 = (True, b1)"
    "bucket_ok b1" "rb_window_start_ns b1 = now"
    using bucket_write_ok [of b ip] b ip by (auto simp: bucket_ok_def)
  obtain b' where w2: "llps_client_ip_rate_bucket_write b1 ip now 1 = (True, b')"
    "bucket_ok b'" "active b'" "bucket_key b' = text_of LLPS_CLIENT_IP_TEXT_LEN ip" "rb_window_start_ns b' = now" "rb_count b' = 1"
    using bucket_write_ok [of b1 ip] w1(2) ip b(3) by (auto simp: bucket_ok_def)
  have "\<not> 0 \<ge> limit" using limit by simp
  then show ?thesis
    unfolding llps_client_ip_rate_consume_existing_def Let_def if_not_P [OF stale] w1(1) prod.case
    using False w1(3) w2 by (auto intro: exI [of _ False])
qed

lemma card_full_table:
  assumes "table_ok bs" "\<And>i. i < LLPS_CLIENT_IP_RATE_BUCKET_COUNT \<Longrightarrow> active (bs ! i)"
  shows "card (dom (rate_table bs)) = LLPS_CLIENT_IP_RATE_BUCKET_COUNT"
proof -
  have "dom (rate_table bs) = (\<lambda>i. bucket_key (bs ! i)) ` {..<LLPS_CLIENT_IP_RATE_BUCKET_COUNT}"
    using assms rate_table_None_iff [OF assms(1)] by (auto simp: dom_def)
  moreover have "inj_on (\<lambda>i. bucket_key (bs ! i)) {..<LLPS_CLIENT_IP_RATE_BUCKET_COUNT}"
    using assms table_ok_inj [OF assms(1)] by (auto intro: inj_onI)
  ultimately show ?thesis by (simp add: card_image)
qed

lemma consume_refines:
  assumes post: "find_post ip now window all_buckets new_search st search st'"
    and ok: "table_ok (g_client_ip_rate_buckets st)"
    and ip: "terminated LLPS_CLIENT_IP_TEXT_LEN ip" and limit: "limit \<noteq> 0"
  shows "\<exists>refused bs out'. llps_client_ip_rate_consume_search search ip now window limit out
      (g_client_ip_rate_buckets st') = (refused, bs, out') \<and> table_ok bs \<and>
    rate_step limit window (rate_table (g_client_ip_rate_buckets st)) (text_of LLPS_CLIENT_IP_TEXT_LEN ip)
      now refused (rate_table bs)"
proof -
  let ?t = "rate_table (g_client_ip_rate_buckets st)"
  let ?bs = "g_client_ip_rate_buckets st'"
  let ?k = "text_of LLPS_CLIENT_IP_TEXT_LEN ip"
  have ev: "rate_evict window ?k now ?t (rate_table ?bs)" by (rule find_post_evict [OF post ok ip])
  note same = rate_evict_other [OF ev]
  have nofault: "\<not> integrity_fault search" and ok': "table_ok ?bs"
    using post by (auto simp: find_post_def Let_def)
  show ?thesis
  proof (cases "matching_bucket search")
    case (Some i)
    then have i: "i < LLPS_CLIENT_IP_RATE_BUCKET_COUNT" "active (?bs ! i)"
      and m: "llps_client_ip_text_matches (rb_client_ip (?bs ! i)) ip"
      using post by (auto simp: find_post_def Let_def)
    have k: "bucket_key (?bs ! i) = ?k" using active_key [OF ok' i ip] m by simp
    have t: "?t ?k = Some (rb_window_start_ns (?bs ! i), rb_count (?bs ! i))"
      unfolding same [symmetric] rate_table_Some_iff [OF ok'] using i k by blast
    obtain refused b' out' where
      c: "llps_client_ip_rate_consume_existing (?bs ! i) ip now window limit out = (refused, b', out')"
      and b': "bucket_ok b'" "active b'" "bucket_key b' = ?k"
      and d: "if window_current window now (rb_window_start_ns (?bs ! i))
        then (if rb_count (?bs ! i) \<ge> limit then refused \<and> b' = ?bs ! i
              else \<not> refused \<and> rb_window_start_ns b' = rb_window_start_ns (?bs ! i) \<and>
                rb_count b' = rb_count (?bs ! i) + 1)
        else \<not> refused \<and> rb_window_start_ns b' = now \<and> rb_count b' = 1"
      using consume_existing_refines [OF table_ok_nth [OF ok' i(1)] i(2) k ip limit] by blast
    have w: "table_ok (?bs[i := b'])"
      "rate_table (?bs[i := b']) = (rate_table ?bs)(?k \<mapsto> (rb_window_start_ns b', rb_count b'))"
      using table_write [OF ok' i(1) b'(1,2)] i(2) b'(3) k by auto
    have "rate_step limit window ?t ?k now refused (rate_table (?bs[i := b']))"
    proof (cases "window_current window now (rb_window_start_ns (?bs ! i)) \<and> rb_count (?bs ! i) \<ge> limit")
      case True
      then have "refused" "?bs[i := b'] = ?bs" using d by auto
      then show ?thesis using rate_step.used_up [OF ev t] True by simp
    next
      case False
      show ?thesis
      proof (cases "window_current window now (rb_window_start_ns (?bs ! i))")
        case True
        with False d have "\<not> refused" "rb_window_start_ns b' = rb_window_start_ns (?bs ! i)"
          "rb_count b' = rb_count (?bs ! i) + 1" "rb_count (?bs ! i) < limit" by auto
        then show ?thesis unfolding w(2) using rate_step.one_more [OF ev t True, of limit] by simp
      next
        case False
        with d have "\<not> refused" "rb_window_start_ns b' = now" "rb_count b' = 1" by auto
        then show ?thesis unfolding w(2) using rate_step.next_window [OF ev t False, of limit] by simp
      qed
    qed
    then show ?thesis
      using w(1) nofault Some by (simp add: llps_client_ip_rate_consume_search_def c)
  next
    case None
    then have none: "\<not> (active (g_client_ip_rate_buckets st ! i) \<and>
        llps_client_ip_text_matches (rb_client_ip (g_client_ip_rate_buckets st ! i)) ip)"
      if "i < LLPS_CLIENT_IP_RATE_BUCKET_COUNT" for i
      using post that by (auto simp: find_post_def Let_def)
    have t: "?t ?k = None"
      unfolding rate_table_None_iff [OF ok] using none active_key [OF ok _ _ ip] by blast
    show ?thesis
    proof (cases "free_bucket search")
      case (Some j)
      then have j: "j < LLPS_CLIENT_IP_RATE_BUCKET_COUNT" "\<not> active (?bs ! j)"
        using post by (auto simp: find_post_def Let_def)
      obtain b' where b': "llps_client_ip_rate_bucket_write (?bs ! j) ip now 1 = (True, b')"
        "bucket_ok b'" "active b'" "bucket_key b' = ?k" "rb_window_start_ns b' = now" "rb_count b' = 1"
        using bucket_write_ok [of "?bs ! j" ip now 1] table_ok_nth [OF ok' j(1)] ip by (auto simp: bucket_ok_def)
      have w: "table_ok (?bs[j := b'])" "rate_table (?bs[j := b']) = (rate_table ?bs)(?k \<mapsto> (now, 1))"
        using table_write [OF ok' j(1) b'(2,3)] j(2) b' same t by auto
      then show ?thesis
        using None Some nofault b'(1) rate_step.first_window [OF ev t, of limit]
        by (auto simp: llps_client_ip_rate_consume_search_def llps_client_ip_rate_consume_new_def)
    next
      case None': None
      have full: "active (g_client_ip_rate_buckets st ! i)" "\<not> expired (g_client_ip_rate_buckets st ! i) now window"
        if "i < LLPS_CLIENT_IP_RATE_BUCKET_COUNT" for i
        using post None None' that by (auto simp: find_post_def Let_def)
      have unchanged: "?bs = g_client_ip_rate_buckets st"
        using post full by (auto simp: find_post_def Let_def)
      have current: "\<not> window_over window now start" if "?t k = Some (start, count)" for k start count
        using that full by (auto simp: rate_table_Some_iff [OF ok] simp flip: expired_iff)
      have "rate_step limit window ?t ?k now True ?t"
        by (rule rate_step.table_full [OF t card_full_table [OF ok full(1)]]) (assumption | rule current)+
      then show ?thesis
        using unchanged None None' nofault ok
        by (auto simp: llps_client_ip_rate_consume_search_def llps_client_ip_rate_consume_new_def)
    qed
  qed
qed

lemma rate_limit_refines:
  assumes cfg: "cfg_held k cfg (rs_env (rate_rs st))" and ok: "table_ok (g_client_ip_rate_buckets st)"
    and ip: "terminated LLPS_CLIENT_IP_TEXT_LEN ip" "ip ! 0 \<noteq> 0" and now: "now \<noteq> 0"
    and limit: "max_new_sessions_per_client_ip_per_window cfg \<noteq> 0"
  shows "\<exists>refused out st'. llps_client_ip_rate_limit_exceeded ip now st = (refused, out, st') \<and>
    cfg_held 3 cfg (rs_env (rate_rs st')) \<and> table_ok (g_client_ip_rate_buckets st') \<and>
    rate_step (max_new_sessions_per_client_ip_per_window cfg)
      (ucast (client_ip_rate_window_ms cfg) * LLPS_NSEC_PER_MSEC)
      (rate_table (g_client_ip_rate_buckets st)) (text_of LLPS_CLIENT_IP_TEXT_LEN ip) now refused
      (rate_table (g_client_ip_rate_buckets st'))"
proof -
  let ?limit = "max_new_sessions_per_client_ip_per_window cfg"
  let ?window = "ucast (client_ip_rate_window_ms cfg) * LLPS_NSEC_PER_MSEC"
  obtain rs where rs: "reconcile_cfg (rate_rs st) = (True, rs)" "cfg_held 3 cfg (rs_env rs)"
    "env_runtime_cfg (rs_env rs) = cfg" using reconcile_cfg_held [OF cfg] by blast
  let ?st = "st\<lparr>rate_rs := rs\<rparr>"
  have "\<exists>search st'. rate_find_loop ip now ?window new_search ?st all_buckets = (search, st') \<and>
      find_post ip now ?window all_buckets new_search ?st search st'"
    using ok by (intro find_loop_post) auto
  then obtain search st' where f: "llps_client_ip_rate_find_bucket ip now ?window ?st = (search, st')"
    and post: "find_post ip now ?window all_buckets new_search ?st search st'"
    unfolding llps_client_ip_rate_find_bucket_def by blast
  let ?out = "llps_client_ip_rate_outputs_init\<lparr>out_limit := ?limit, out_window_ms := client_ip_rate_window_ms cfg\<rparr>"
  obtain refused bs out where
    c: "llps_client_ip_rate_consume_search search ip now ?window ?limit ?out (g_client_ip_rate_buckets st') =
      (refused, bs, out)" "table_ok bs"
      "rate_step ?limit ?window (rate_table (g_client_ip_rate_buckets st)) (text_of LLPS_CLIENT_IP_TEXT_LEN ip)
        now refused (rate_table bs)"
    using consume_refines [OF post _ ip(1) limit] ok by fastforce
  have "rate_rs st' = rs" using post by (simp add: find_post_def Let_def)
  moreover have "llps_client_ip_rate_limit_exceeded ip now st =
      (refused, out, st'\<lparr>g_client_ip_rate_buckets := bs\<rparr>)"
    unfolding llps_client_ip_rate_limit_exceeded_def llps_client_ip_rate_load_config_def rs(1) Let_def
    using ip(2) now limit f c(1) by (simp add: rs(3) llps_llam_now_ns_checked_def)
  ultimately show ?thesis using c rs(2) by simp
qed

section \<open>Windows on a time line\<close>

text \<open>
  The admissions \<open>A\<close> of one address, as times, when its last window started at \<open>s\<close> and admitted \<open>c\<close>:
  windows start at least \<open>W\<close> apart, so an interval of length \<open>W\<close> meets at most two of them.
\<close>

abbreviation hits :: "(nat \<Rightarrow> bool) \<Rightarrow> nat list \<Rightarrow> nat" where
  "hits P A \<equiv> length (filter P A)"

definition windows_ok :: "nat \<Rightarrow> nat \<Rightarrow> nat list \<Rightarrow> nat \<Rightarrow> nat \<Rightarrow> bool" where
  "windows_ok L W A s c \<longleftrightarrow>
     c \<le> L \<and> hits (\<lambda>x. s \<le> x) A = c \<and> (\<forall>x \<in> set A. x < s + W) \<and>
     (\<forall>u. s < u + W \<longrightarrow> hits (\<lambda>x. u \<le> x \<and> x < s) A \<le> L) \<and>
     (\<forall>u. hits (\<lambda>x. u \<le> x \<and> x < u + W) A \<le> 2 * L)"

lemma hits_mono: "(\<And>x. x \<in> set A \<Longrightarrow> P x \<Longrightarrow> Q x) \<Longrightarrow> hits P A \<le> hits Q A"
  by (induction A) auto

lemma hits_split: "hits P A \<le> hits (\<lambda>x. P x \<and> x < s) A + hits (\<lambda>x. s \<le> x) A"
  by (induction A) auto

lemma windows_ok_first: "1 \<le> L \<Longrightarrow> 0 < W \<Longrightarrow> windows_ok L W [now] now 1"
  by (auto simp: windows_ok_def)

lemma windows_ok_same:
  assumes w: "windows_ok L W A s c" and now: "s \<le> now" "now < s + W" "c < L"
  shows "windows_ok L W (A @ [now]) s (c + 1)"
proof -
  have "hits (\<lambda>x. u \<le> x \<and> x < u + W) (A @ [now]) \<le> 2 * L" for u
  proof (cases "u \<le> now \<and> now < u + W")
    case True
    have "hits (\<lambda>x. (u \<le> x \<and> x < u + W) \<and> x < s) A \<le> hits (\<lambda>x. u \<le> x \<and> x < s) A" by (rule hits_mono) simp
    also have "\<dots> \<le> L" using w True now(1) by (simp add: windows_ok_def)
    finally have "hits (\<lambda>x. u \<le> x \<and> x < u + W) A \<le> L + c"
      using hits_split [of "\<lambda>x. u \<le> x \<and> x < u + W" A s] w by (simp add: windows_ok_def)
    then show ?thesis using True now(3) by simp
  qed (use w in \<open>auto simp: windows_ok_def\<close>)
  then show ?thesis using w now by (auto simp: windows_ok_def)
qed

lemma windows_ok_next:
  assumes w: "windows_ok L W A s c" and now: "s + W \<le> now" "1 \<le> L" "0 < W"
  shows "windows_ok L W (A @ [now]) now 1"
proof -
  have old: "hits (\<lambda>x. u \<le> x) A \<le> L" if "now < u + W" for u
  proof -
    have "hits (\<lambda>x. u \<le> x) A \<le> hits (\<lambda>x. s \<le> x) A" using that now(1) by (intro hits_mono) simp
    then show ?thesis using w by (simp add: windows_ok_def)
  qed
  have none: "hits (\<lambda>x. now \<le> x) A = 0"
    using w now(1) by (auto simp: windows_ok_def filter_empty_conv)
  have recent: "hits (\<lambda>x. u \<le> x \<and> x < now) A \<le> L" if "now < u + W" for u
    using old [OF that] hits_mono [of A "\<lambda>x. u \<le> x \<and> x < now" "\<lambda>x. u \<le> x"] by simp
  have "hits (\<lambda>x. u \<le> x \<and> x < u + W) (A @ [now]) \<le> 2 * L" for u
  proof (cases "now < u + W")
    case True
    then show ?thesis
      using old [OF True] now(2) hits_mono [of A "\<lambda>x. u \<le> x \<and> x < u + W" "\<lambda>x. u \<le> x"] by simp
  qed (use w in \<open>auto simp: windows_ok_def\<close>)
  moreover have "\<forall>x \<in> set A. x < now + W" using w now by (auto simp: windows_ok_def)
  ultimately show ?thesis using none recent now by (simp add: windows_ok_def)
qed

section \<open>Runs\<close>

text \<open>A run of decisions: the address, the clock and the answer of each, oldest first.\<close>

type_synonym rate_event = "u8 list \<times> u64 \<times> bool"

definition admitted :: "u8 list \<Rightarrow> rate_event list \<Rightarrow> nat list" where
  "admitted k tr = map (\<lambda>(ip, now, refused). unat now) (filter (\<lambda>(ip, now, refused). ip = k \<and> \<not> refused) tr)"

inductive rate_trace :: "u32 \<Rightarrow> u64 \<Rightarrow> rate_table \<Rightarrow> rate_event list \<Rightarrow> bool" for limit window where
  start: "rate_trace limit window Map.empty []"
| step: "rate_trace limit window t tr \<Longrightarrow> rate_step limit window t ip now refused t' \<Longrightarrow>
    (\<And>e. e \<in> set tr \<Longrightarrow> fst (snd e) \<le> now) \<Longrightarrow> rate_trace limit window t' (tr @ [(ip, now, refused)])"

definition window_inv :: "nat \<Rightarrow> nat \<Rightarrow> u8 list \<Rightarrow> rate_table \<Rightarrow> rate_event list \<Rightarrow> bool" where
  "window_inv L W k t tr \<longleftrightarrow>
     (case t k of
        Some (s, c) \<Rightarrow> windows_ok L W (admitted k tr) (unat s) (unat c) \<and> (\<exists>e \<in> set tr. s \<le> fst (snd e))
      | None \<Rightarrow> admitted k tr = [] \<or>
          (\<exists>s c. windows_ok L W (admitted k tr) s c \<and> (\<exists>e \<in> set tr. s + W \<le> unat (fst (snd e)))))"

lemma window_over_unat: "window_over window now start \<longleftrightarrow> unat start + unat window \<le> unat now"
  by (auto simp: window_over_def word_le_nat_alt unat_sub)

lemma window_current_unat:
  "window_current window now start \<longleftrightarrow> unat start \<le> unat now \<and> unat now < unat start + unat window"
  by (auto simp: window_current_def word_le_nat_alt word_less_nat_alt unat_sub)

lemma window_inv_kept:
  assumes "window_inv L W k t tr" "t' k = t k" "refused \<or> ip \<noteq> k"
  shows "window_inv L W k t' (tr @ [(ip, now, refused)])"
  using assms by (auto simp: window_inv_def admitted_def split: option.splits prod.splits)

lemma window_inv_evict:
  assumes "window_inv L (unat window) k t tr" "rate_evict window ip now t t'" "refused \<or> ip \<noteq> k"
  shows "window_inv L (unat window) k t' (tr @ [(ip, now, refused)])"
  using assms(2)
proof cases
  case (drop_one k' start count)
  show ?thesis
  proof (cases "k' = k")
    case True
    have "admitted k (tr @ [(ip, now, refused)]) = admitted k tr" using assms(3) by (auto simp: admitted_def)
    then show ?thesis
      using assms(1) drop_one True by (auto simp: window_inv_def window_over_unat)
  next
    case False
    then show ?thesis using window_inv_kept [OF assms(1), of t'] drop_one assms(3) by simp
  qed
qed (use window_inv_kept [OF assms(1), of t'] assms(3) in simp)

lemma window_inv_admit:
  assumes inv: "window_inv L (unat window) k t tr" and L: "1 \<le> L" and W: "0 < unat window"
    and later: "\<And>e. e \<in> set tr \<Longrightarrow> fst (snd e) \<le> now"
    and new: "\<And>start count. t k = Some (start, count) \<Longrightarrow> \<not> window_current window now start"
  shows "windows_ok L (unat window) (admitted k tr @ [unat now]) (unat now) 1"
proof (cases "t k")
  case None
  then consider "admitted k tr = []"
    | s c e where "windows_ok L (unat window) (admitted k tr) s c" "e \<in> set tr" "s + unat window \<le> unat (fst (snd e))"
    using inv by (auto simp: window_inv_def)
  then show ?thesis
  proof cases
    case 1
    then show ?thesis using windows_ok_first [OF L W] by simp
  next
    case 2
    then have "s + unat window \<le> unat now" using later [of e] by (simp add: word_le_nat_alt)
    then show ?thesis using windows_ok_next [OF 2(1) _ L W] by simp
  qed
next
  case (Some v)
  obtain s c where v: "v = (s, c)" by (cases v)
  then obtain e where w: "windows_ok L (unat window) (admitted k tr) (unat s) (unat c)"
    and e: "e \<in> set tr" "s \<le> fst (snd e)"
    using inv Some by (auto simp: window_inv_def)
  have "s \<le> now" using e later [OF e(1)] by simp
  then have "unat s + unat window \<le> unat now"
    using new Some v by (auto simp: window_current_unat word_le_nat_alt)
  then show ?thesis using windows_ok_next [OF w _ L W] by simp
qed

lemma rate_step_inv:
  assumes step: "rate_step limit window t ip now refused t'" and inv: "window_inv (unat limit) (unat window) k t tr"
    and L: "limit \<noteq> 0" and W: "window \<noteq> 0" and later: "\<And>e. e \<in> set tr \<Longrightarrow> fst (snd e) \<le> now"
  shows "window_inv (unat limit) (unat window) k t' (tr @ [(ip, now, refused)])"
proof -
  have LW: "1 \<le> unat limit" "0 < unat window" using L W by (auto simp: unat_gt_0 Suc_le_eq)
  let ?tr = "tr @ [(ip, now, refused)]"
  have fresh: ?thesis
    if "ip = k" "\<not> refused" "t' k = Some (now, 1)"
      "\<And>start count. t k = Some (start, count) \<Longrightarrow> \<not> window_current window now start"
    using window_inv_admit [OF inv LW later that(4)] that(1-3) by (simp add: window_inv_def admitted_def)
  have other: ?thesis if "rate_evict window ip now t t1" "t' = t1(ip := x)" "ip \<noteq> k" for t1 x
    using window_inv_evict [OF inv that(1), of refused] that by (simp add: window_inv_def)
  from step show ?thesis
  proof cases
    case (used_up start count)
    then show ?thesis using window_inv_evict [OF inv, of ip now t' True] by simp
  next
    case (one_more t1 start count)
    show ?thesis
    proof (cases "ip = k")
      case True
      have less: "unat count < unat limit" using one_more by (simp add: word_less_nat_alt)
      then have "unat (count + 1) = unat count + 1"
        using unsigned_less [where 'a = nat, of limit] by (simp add: unat_word_ariths)
      moreover have "windows_ok (unat limit) (unat window) (admitted k tr) (unat start) (unat count)"
        using inv one_more True by (simp add: window_inv_def)
      ultimately have "windows_ok (unat limit) (unat window) (admitted k tr @ [unat now]) (unat start) (unat (count + 1))"
        using windows_ok_same [OF _ _ _ less] one_more by (simp add: window_current_unat)
      then show ?thesis
        using one_more True by (auto simp: window_inv_def admitted_def window_current_def)
    next
      case False
      then show ?thesis using other one_more by blast
    qed
  next
    case (next_window t1 start count)
    then show ?thesis using fresh other by (cases "ip = k") auto
  next
    case (first_window t1)
    then show ?thesis using fresh other by (cases "ip = k") auto
  next
    case table_full
    then show ?thesis using window_inv_kept [OF inv, of t' refused] by simp
  qed
qed

lemma rate_trace_inv:
  assumes "rate_trace limit window t tr" "limit \<noteq> 0" "window \<noteq> 0"
  shows "window_inv (unat limit) (unat window) k t tr"
  using assms(1)
proof induction
  case start
  then show ?case by (simp add: window_inv_def admitted_def)
next
  case (step t tr ip now refused t')
  then show ?case using rate_step_inv assms(2,3) by blast
qed

lemma rate_trace_bound:
  assumes "rate_trace limit window t tr" "limit \<noteq> 0" "window \<noteq> 0"
  shows "hits (\<lambda>x. u \<le> x \<and> x < u + unat window) (admitted k tr) \<le> 2 * unat limit"
  using rate_trace_inv [OF assms, of k]
  by (auto simp: window_inv_def windows_ok_def split: option.splits prod.splits)

text \<open>The decisions on a sequence of arriving clients, each with the reading of the clock.\<close>

fun admission_run :: "rate_state \<Rightarrow> (u8 list \<times> u64) list \<Rightarrow> rate_event list" where
  "admission_run st [] = []"
| "admission_run st ((client_ip, now) # calls) =
     (case llps_client_ip_rate_limit_exceeded client_ip now st of
        (refused, out, st') \<Rightarrow> (text_of LLPS_CLIENT_IP_TEXT_LEN client_ip, now, refused) # admission_run st' calls)"

lemma foldl_update_all:
  "n \<le> length xs \<Longrightarrow> foldl (\<lambda>xs i. xs[i := f (xs ! i)]) xs [0..<n] = map f (take n xs) @ drop n xs"
proof (induction n)
  case 0
  then show ?case by simp
next
  case (Suc n)
  then have "drop n xs = xs ! n # drop (Suc n) xs" by (simp add: Cons_nth_drop_Suc)
  with Suc show ?case by (simp add: take_Suc_conv_app_nth nth_append list_update_append)
qed

lemma buckets_reset_table:
  assumes "length bs = LLPS_CLIENT_IP_RATE_BUCKET_COUNT"
  shows "table_ok (llps_client_ip_rate_buckets_reset bs)"
    and "rate_table (llps_client_ip_rate_buckets_reset bs) = Map.empty"
proof -
  have r: "llps_client_ip_rate_buckets_reset bs = map llps_client_ip_rate_bucket_reset bs"
    using foldl_update_all [of LLPS_CLIENT_IP_RATE_BUCKET_COUNT bs] assms
    by (simp add: llps_client_ip_rate_buckets_reset_def)
  show ok: "table_ok (llps_client_ip_rate_buckets_reset bs)"
    unfolding r using assms by (intro table_okI) (simp_all add: bucket_reset_ok)
  show "rate_table (llps_client_ip_rate_buckets_reset bs) = Map.empty"
    using assms by (simp add: fun_eq_iff rate_table_None_iff [OF ok]) (simp add: r bucket_reset_ok)
qed

lemma admission_run_trace:
  assumes "cfg_held k cfg (rs_env (rate_rs st))" "table_ok (g_client_ip_rate_buckets st)"
    and "max_new_sessions_per_client_ip_per_window cfg \<noteq> 0"
    and "list_all (\<lambda>(ip, now). terminated LLPS_CLIENT_IP_TEXT_LEN ip \<and> ip ! 0 \<noteq> 0 \<and> now \<noteq> 0) calls"
    and "sorted (map snd calls)"
    and "rate_trace (max_new_sessions_per_client_ip_per_window cfg)
      (ucast (client_ip_rate_window_ms cfg) * LLPS_NSEC_PER_MSEC) (rate_table (g_client_ip_rate_buckets st)) tr"
    and "\<And>e c. e \<in> set tr \<Longrightarrow> c \<in> set calls \<Longrightarrow> fst (snd e) \<le> snd c"
  shows "\<exists>t. rate_trace (max_new_sessions_per_client_ip_per_window cfg)
    (ucast (client_ip_rate_window_ms cfg) * LLPS_NSEC_PER_MSEC) t (tr @ admission_run st calls)"
  using assms
proof (induction calls arbitrary: k st tr)
  case Nil
  then show ?case by auto
next
  case (Cons c calls)
  obtain ip now where c: "c = (ip, now)" by (cases c)
  have ipn: "terminated LLPS_CLIENT_IP_TEXT_LEN ip" "ip ! 0 \<noteq> 0" "now \<noteq> 0" using Cons.prems(4) c by auto
  obtain refused out st' where r: "llps_client_ip_rate_limit_exceeded ip now st = (refused, out, st')"
    and h: "cfg_held 3 cfg (rs_env (rate_rs st'))" "table_ok (g_client_ip_rate_buckets st')"
    and s: "rate_step (max_new_sessions_per_client_ip_per_window cfg)
      (ucast (client_ip_rate_window_ms cfg) * LLPS_NSEC_PER_MSEC)
      (rate_table (g_client_ip_rate_buckets st)) (text_of LLPS_CLIENT_IP_TEXT_LEN ip) now refused
      (rate_table (g_client_ip_rate_buckets st'))"
    using rate_limit_refines [OF Cons.prems(1,2) ipn Cons.prems(3)] by blast
  let ?e = "(text_of LLPS_CLIENT_IP_TEXT_LEN ip, now, refused)"
  have "rate_trace (max_new_sessions_per_client_ip_per_window cfg)
      (ucast (client_ip_rate_window_ms cfg) * LLPS_NSEC_PER_MSEC) (rate_table (g_client_ip_rate_buckets st'))
      (tr @ [?e])"
    using Cons.prems(6) s by (rule rate_trace.step) (use Cons.prems(7) c in force)
  moreover have "fst (snd e) \<le> snd c'" if "e \<in> set (tr @ [?e])" "c' \<in> set calls" for e c'
    using that Cons.prems(5) Cons.prems(7) [of e c'] c by auto
  ultimately have "\<exists>t. rate_trace (max_new_sessions_per_client_ip_per_window cfg)
      (ucast (client_ip_rate_window_ms cfg) * LLPS_NSEC_PER_MSEC) t ((tr @ [?e]) @ admission_run st' calls)"
    using Cons.prems(3-5) h by (intro Cons.IH) auto
  then show ?case by (simp add: c r)
qed

lemma window_ns_unat:
  "unat (ucast (w :: u32) * LLPS_NSEC_PER_MSEC) = unat w * 1000000"
proof -
  have "unat (ucast w :: u64) = unat w"
    using unsigned_less [where 'a = nat, of w] by (simp add: unsigned_ucast_eq take_bit_nat_eq_self)
  moreover have "unat w * 1000000 < 2 ^ 64"
    using unsigned_less [where 'a = nat, of w] by simp
  ultimately show ?thesis by (simp add: unat_word_ariths)
qed

lemma cfg_held_valid:
  assumes "cfg_held k cfg env"
  shows "llps_runtime_cfg_values_are_valid cfg"
proof -
  obtain i :: nat where "i < 3" "i \<noteq> k" using other_two [of k] by blast
  then show ?thesis using assms rcfg.holds_ok [of "env_cfg_banks env" i cfg] by (auto simp: cfg_held_def rcfg.holds_def)
qed

lemma cfg_held_window: "cfg_held k cfg env \<Longrightarrow> client_ip_rate_window_ms cfg \<noteq> 0"
  by (drule cfg_held_valid)
    (auto simp: llps_runtime_cfg_values_are_valid_def llps_runtime_cfg_core_limits_are_valid_def split: if_splits)

section \<open>Properties\<close>

text \<open>
  C7: The rate limiter implements its specification. While at most one configuration bank is upset,
  a decision on an intact table is a step of the map from addresses to windows: an address in
  its current window is admitted exactly while it has used less than its limit, an address whose
  window is over starts a new one, another address's window that is over may be dropped, and only a
  table full of running windows refuses a new address. The table stays intact.
\<close>

theorem rate_limit_refinement:
  assumes "cfg_held k cfg (rs_env (rate_rs st))" "table_ok (g_client_ip_rate_buckets st)"
    and "terminated LLPS_CLIENT_IP_TEXT_LEN client_ip" "client_ip ! 0 \<noteq> 0" "now \<noteq> 0"
    and "max_new_sessions_per_client_ip_per_window cfg \<noteq> 0"
  shows "\<exists>refused out st'. llps_client_ip_rate_limit_exceeded client_ip now st = (refused, out, st') \<and>
    cfg_held 3 cfg (rs_env (rate_rs st')) \<and> table_ok (g_client_ip_rate_buckets st') \<and>
    rate_step (max_new_sessions_per_client_ip_per_window cfg)
      (ucast (client_ip_rate_window_ms cfg) * LLPS_NSEC_PER_MSEC)
      (rate_table (g_client_ip_rate_buckets st)) (text_of LLPS_CLIENT_IP_TEXT_LEN client_ip) now refused
      (rate_table (g_client_ip_rate_buckets st'))"
  using assms by (rule rate_limit_refines)

text \<open>
  C14: No client gets more sessions than the limiter promises. Whatever clients arrive in whatever
  order, starting from a reset table and as long as the clock does not run backwards, the sessions
  of one address admitted in any interval as long as the window are at most twice the limit.
\<close>

theorem rate_limit_bound:
  assumes "cfg_held k cfg (rs_env (rate_rs st))" "length buckets = LLPS_CLIENT_IP_RATE_BUCKET_COUNT"
    and "max_new_sessions_per_client_ip_per_window cfg \<noteq> 0"
    and "list_all (\<lambda>(client_ip, now).
      terminated LLPS_CLIENT_IP_TEXT_LEN client_ip \<and> client_ip ! 0 \<noteq> 0 \<and> now \<noteq> 0) calls"
    and "sorted (map snd calls)"
  shows "hits (\<lambda>x. u \<le> x \<and> x < u + unat (client_ip_rate_window_ms cfg) * 1000000)
      (admitted address (admission_run
        (st\<lparr>g_client_ip_rate_buckets := llps_client_ip_rate_buckets_reset buckets\<rparr>) calls)) \<le>
    2 * unat (max_new_sessions_per_client_ip_per_window cfg)"
proof -
  let ?st = "st\<lparr>g_client_ip_rate_buckets := llps_client_ip_rate_buckets_reset buckets\<rparr>"
  let ?limit = "max_new_sessions_per_client_ip_per_window cfg"
  let ?window = "ucast (client_ip_rate_window_ms cfg) * LLPS_NSEC_PER_MSEC"
  have "\<exists>t. rate_trace ?limit ?window t ([] @ admission_run ?st calls)"
    using assms buckets_reset_table [OF assms(2)] rate_trace.start [of ?limit ?window]
    by (intro admission_run_trace) auto
  then obtain t where t: "rate_trace ?limit ?window t (admission_run ?st calls)" by auto
  have "0 < unat (client_ip_rate_window_ms cfg)" using cfg_held_window [OF assms(1)] by (simp add: unat_gt_0)
  then have "0 < unat ?window" unfolding window_ns_unat by simp
  then have "?window \<noteq> 0" by (simp add: unat_gt_0)
  from rate_trace_bound [OF t assms(3) this] show ?thesis by (simp add: window_ns_unat)
qed

text \<open>The defaults of the program with a limit of two sessions in a window.\<close>

definition limited_cfg :: llps_yml_config_t where
  "limited_cfg = example_cfg\<lparr>max_new_sessions_per_client_ip_per_window := 2\<rparr>"

lemma limited_cfg_valid: "llps_runtime_cfg_values_are_valid limited_cfg"
  by code_simp

text \<open>A state with one upset configuration bank and a table that was just reset.\<close>

definition sample_rate_state :: rate_state where
  "sample_rate_state = \<lparr>
     rate_rs = \<lparr>rs_env = \<lparr>env_runtime_cfg = zero_cfg,
         env_cfg_banks = (map (\<lambda>i. cfg_bank_from i limited_cfg) [0..<3])[0 := cfg_bank_from 1 zero_cfg],
         env_free_banks = [],
         env_counters = \<lparr>g_memory_safety_counters = zero_counters, g_memory_safety_counters_crc = 0,
           g_memory_safety_counters_crc_inverse = 0\<rparr>\<rparr>,
       rs_control = \<lparr>g_server_shutdown_requested = False, g_control_flag_banks = []\<rparr>\<rparr>,
     g_client_ip_rate_buckets = llps_client_ip_rate_buckets_reset (replicate LLPS_CLIENT_IP_RATE_BUCKET_COUNT
       \<lparr>rb_magic_start = 0, rb_client_ip = [], rb_window_start_ns = 0, rb_window_start_ns_inverse = 0,
        rb_count = 0, rb_count_inverse = 0, rb_crc = 0, rb_crc_inverse = 0, rb_magic_end = 0\<rparr>)\<rparr>"

abbreviation sample_client :: "u8 list" where
  "sample_client \<equiv> [0x37, 0x2E, 0x38, 0, 0, 0, 0, 0, 0, 0, 0, 0, 0, 0, 0, 0]"

lemma sample_cfg_held: "cfg_held 0 limited_cfg (rs_env (rate_rs sample_rate_state))"
  by (auto simp: sample_rate_state_def cfg_held_def cfg_bank_from_valid limited_cfg_valid nth_list_update)

theorem rate_limit_refinement_witness:
  "\<exists>out st'. llps_client_ip_rate_limit_exceeded sample_client 5 sample_rate_state = (False, out, st') \<and>
    table_ok (g_client_ip_rate_buckets st')"
proof -
  let ?bs = "g_client_ip_rate_buckets sample_rate_state"
  have bs: "table_ok ?bs" "rate_table ?bs = Map.empty"
    unfolding sample_rate_state_def by (simp_all add: buckets_reset_table)
  have ip: "terminated LLPS_CLIENT_IP_TEXT_LEN sample_client" by (simp add: terminated_def)
  obtain refused out st' where "llps_client_ip_rate_limit_exceeded sample_client 5 sample_rate_state = (refused, out, st')"
    "table_ok (g_client_ip_rate_buckets st')"
    and s: "rate_step (max_new_sessions_per_client_ip_per_window limited_cfg)
      (ucast (client_ip_rate_window_ms limited_cfg) * LLPS_NSEC_PER_MSEC) (rate_table ?bs)
      (text_of LLPS_CLIENT_IP_TEXT_LEN sample_client) 5 refused (rate_table (g_client_ip_rate_buckets st'))"
    using rate_limit_refinement [OF sample_cfg_held bs(1) ip, of 5] by (auto simp: limited_cfg_def)
  moreover from s have "\<not> refused" unfolding bs(2) by cases auto
  ultimately show ?thesis by auto
qed

theorem rate_limit_bound_witness:
  "hits (\<lambda>x. 3 \<le> x \<and> x < 3 + unat (client_ip_rate_window_ms limited_cfg) * 1000000)
     (admitted (text_of LLPS_CLIENT_IP_TEXT_LEN sample_client) (admission_run
       (sample_rate_state\<lparr>g_client_ip_rate_buckets :=
          llps_client_ip_rate_buckets_reset (g_client_ip_rate_buckets sample_rate_state)\<rparr>)
       [(sample_client, 5), (sample_client, 7)])) \<le>
   2 * unat (max_new_sessions_per_client_ip_per_window limited_cfg)"
proof -
  have "table_ok (g_client_ip_rate_buckets sample_rate_state)"
    unfolding sample_rate_state_def by (simp add: buckets_reset_table)
  then have "length (g_client_ip_rate_buckets sample_rate_state) = LLPS_CLIENT_IP_RATE_BUCKET_COUNT"
    by (rule table_ok_length)
  then show ?thesis
    by (rule rate_limit_bound [OF sample_cfg_held]) (simp_all add: terminated_def limited_cfg_def)
qed

lemma upt_split_at: "i < n \<Longrightarrow> [0..<n] = [0..<i] @ i # [Suc i..<n]"
  using upt_add_eq_append [of 0 i "n - i"] upt_conv_Cons [of i n] by simp

lemma expect_shutdown_requests: "g_server_shutdown_requested (rs_control (expect_shutdown rs))"
  by (simp add: expect_shutdown_def Let_def llps_control_request_shutdown_def llps_control_flag_write_all_def)

lemma find_loop_damaged:
  assumes "\<not> llps_client_ip_rate_bucket_is_valid (g_client_ip_rate_buckets st ! i)"
    and "\<And>j. j \<in> set pre \<Longrightarrow> \<not> (active (g_client_ip_rate_buckets st ! j) \<and>
      llps_client_ip_text_matches (rb_client_ip (g_client_ip_rate_buckets st ! j)) ip)"
    and "distinct (pre @ [i])"
  shows "\<exists>search' st'. rate_find_loop ip now window search st (pre @ i # post) = (search', st') \<and>
    integrity_fault search' \<and> g_server_shutdown_requested (rs_control (rate_rs st'))"
  using assms
proof (induction pre arbitrary: search st)
  case Nil
  then show ?case by (simp add: Let_def expect_shutdown_requests)
next
  case (Cons j pre)
  let ?b = "g_client_ip_rate_buckets st ! j"
  let ?st = "st\<lparr>g_client_ip_rate_buckets := (g_client_ip_rate_buckets st)[j := llps_client_ip_rate_bucket_reset ?b]\<rparr>"
  have step: "rate_find_loop ip now window search st ((j # pre) @ i # post) =
      (if \<not> llps_client_ip_rate_bucket_is_valid ?b
       then (search\<lparr>integrity_fault := True\<rparr>, st\<lparr>rate_rs := expect_shutdown (rate_rs st)\<rparr>)
       else rate_find_loop ip now window
         (if free_bucket search = None \<and> (active ?b \<longrightarrow> expired ?b now window)
          then search\<lparr>free_bucket := Some j\<rparr> else search)
         (if free_bucket search = None \<and> active ?b \<and> expired ?b now window then ?st else st) (pre @ i # post))"
    using Cons.prems(2) [of j] by (auto simp: Let_def)
  have "\<exists>search' st'. rate_find_loop ip now window s u (pre @ i # post) = (search', st') \<and>
      integrity_fault search' \<and> g_server_shutdown_requested (rs_control (rate_rs st'))"
    if "u = st \<or> u = ?st" for s u
  proof (rule Cons.IH)
    have "g_client_ip_rate_buckets u ! m = g_client_ip_rate_buckets st ! m" if "m \<noteq> j" for m
      using \<open>u = st \<or> u = ?st\<close> that by auto
    then show "\<not> llps_client_ip_rate_bucket_is_valid (g_client_ip_rate_buckets u ! i)"
      "\<And>m. m \<in> set pre \<Longrightarrow> \<not> (active (g_client_ip_rate_buckets u ! m) \<and>
        llps_client_ip_text_matches (rb_client_ip (g_client_ip_rate_buckets u ! m)) ip)"
      using Cons.prems by (metis distinct.simps(2) in_set_conv_decomp append_Cons, metis distinct.simps(2) append_Cons Un_iff set_append list.set_intros(2))
  qed (use Cons.prems(3) in simp)
  then show ?case unfolding step by (auto simp: expect_shutdown_requests)
qed

text \<open>
  C34: The limiter fails closed. When the configuration banks have no majority, every client is refused
  with the reason. With a majority, a limit that is set (not 0) and an address that is not empty, the
  client is refused with the reason when the clock fails, and when the clock works and the scan meets a
  damaged bucket before any active bucket of this address; a damaged bucket behind the address's own
  is not looked at. A lost configuration and a damaged bucket also request the shutdown.
\<close>

theorem rate_limit_fails_closed:
  assumes "llps_client_ip_rate_limit_exceeded client_ip now st = (refused, out, st')"
    and "reconcile_cfg (rate_rs st) = (cfg_ok, rs)"
    and "limit = max_new_sessions_per_client_ip_per_window (env_runtime_cfg (rs_env rs))"
  shows "(\<not> cfg_ok \<longrightarrow> refused \<and> out_reason out = client_ip_rate_config_fault \<and>
      g_server_shutdown_requested (rs_control (rate_rs st'))) \<and>
    (cfg_ok \<and> limit \<noteq> 0 \<and> client_ip ! 0 \<noteq> 0 \<and> now = 0 \<longrightarrow>
      refused \<and> out_reason out = client_ip_rate_time_fault) \<and>
    (cfg_ok \<and> limit \<noteq> 0 \<and> client_ip ! 0 \<noteq> 0 \<and> now \<noteq> 0 \<and>
     (\<exists>i < LLPS_CLIENT_IP_RATE_BUCKET_COUNT.
        \<not> llps_client_ip_rate_bucket_is_valid (g_client_ip_rate_buckets st ! i) \<and>
        (\<forall>j < i. \<not> (active (g_client_ip_rate_buckets st ! j) \<and>
           llps_client_ip_text_matches (rb_client_ip (g_client_ip_rate_buckets st ! j)) client_ip))) \<longrightarrow>
      refused \<and> out_reason out = client_ip_rate_integrity \<and>
      g_server_shutdown_requested (rs_control (rate_rs st')))"
proof (intro conjI impI)
  assume "\<not> cfg_ok"
  then show "refused" "out_reason out = client_ip_rate_config_fault"
    "g_server_shutdown_requested (rs_control (rate_rs st'))"
    using assms by (auto simp: llps_client_ip_rate_limit_exceeded_def llps_client_ip_rate_load_config_def
        expect_shutdown_requests)
next
  assume "cfg_ok \<and> limit \<noteq> 0 \<and> client_ip ! 0 \<noteq> 0 \<and> now = 0"
  then show "refused" "out_reason out = client_ip_rate_time_fault"
    using assms by (auto simp: llps_client_ip_rate_limit_exceeded_def llps_client_ip_rate_load_config_def
        llps_llam_now_ns_checked_def)
next
  assume a: "cfg_ok \<and> limit \<noteq> 0 \<and> client_ip ! 0 \<noteq> 0 \<and> now \<noteq> 0 \<and>
     (\<exists>i < LLPS_CLIENT_IP_RATE_BUCKET_COUNT.
        \<not> llps_client_ip_rate_bucket_is_valid (g_client_ip_rate_buckets st ! i) \<and>
        (\<forall>j < i. \<not> (active (g_client_ip_rate_buckets st ! j) \<and>
           llps_client_ip_text_matches (rb_client_ip (g_client_ip_rate_buckets st ! j)) client_ip)))"
  then obtain i where i: "i < LLPS_CLIENT_IP_RATE_BUCKET_COUNT"
    "\<not> llps_client_ip_rate_bucket_is_valid (g_client_ip_rate_buckets st ! i)"
    "\<And>j. j < i \<Longrightarrow> \<not> (active (g_client_ip_rate_buckets st ! j) \<and>
       llps_client_ip_text_matches (rb_client_ip (g_client_ip_rate_buckets st ! j)) client_ip)" by blast
  let ?window = "ucast (client_ip_rate_window_ms (env_runtime_cfg (rs_env rs))) * LLPS_NSEC_PER_MSEC :: u64"
  have "\<exists>search st1. rate_find_loop client_ip now ?window new_search (st\<lparr>rate_rs := rs\<rparr>)
      ([0..<i] @ i # [Suc i..<LLPS_CLIENT_IP_RATE_BUCKET_COUNT]) = (search, st1) \<and>
    integrity_fault search \<and> g_server_shutdown_requested (rs_control (rate_rs st1))"
    by (rule find_loop_damaged) (use i(2,3) in simp_all)
  then obtain search st1 where
    f: "llps_client_ip_rate_find_bucket client_ip now ?window (st\<lparr>rate_rs := rs\<rparr>) = (search, st1)"
    "integrity_fault search" "g_server_shutdown_requested (rs_control (rate_rs st1))"
    unfolding llps_client_ip_rate_find_bucket_def upt_split_at [OF i(1)] by blast
  show "refused" "out_reason out = client_ip_rate_integrity"
    "g_server_shutdown_requested (rs_control (rate_rs st'))"
    using assms a f by (auto simp: llps_client_ip_rate_limit_exceeded_def llps_client_ip_rate_load_config_def
        llps_llam_now_ns_checked_def llps_client_ip_rate_consume_search_def)
qed

theorem rate_limit_fails_closed_witness:
  "let st = sample_rate_state\<lparr>g_client_ip_rate_buckets := (g_client_ip_rate_buckets sample_rate_state)
         [0 := (g_client_ip_rate_buckets sample_rate_state ! 0)\<lparr>rb_magic_start := 0\<rparr>]\<rparr>
   in \<exists>out st'. llps_client_ip_rate_limit_exceeded sample_client 5 st = (True, out, st') \<and>
     out_reason out = client_ip_rate_integrity \<and> g_server_shutdown_requested (rs_control (rate_rs st'))"
proof -
  let ?bs = "g_client_ip_rate_buckets sample_rate_state"
  let ?st = "sample_rate_state\<lparr>g_client_ip_rate_buckets := ?bs[0 := (?bs ! 0)\<lparr>rb_magic_start := 0\<rparr>]\<rparr>"
  have "table_ok ?bs" unfolding sample_rate_state_def by (simp add: buckets_reset_table)
  then have len: "length ?bs = LLPS_CLIENT_IP_RATE_BUCKET_COUNT" by (rule table_ok_length)
  have held: "cfg_held 0 limited_cfg (rs_env (rate_rs ?st))" using sample_cfg_held by simp
  obtain rs where rs: "reconcile_cfg (rate_rs ?st) = (True, rs)" "env_runtime_cfg (rs_env rs) = limited_cfg"
    using reconcile_cfg_held [OF held] by blast
  obtain refused out st' where r: "llps_client_ip_rate_limit_exceeded sample_client 5 ?st = (refused, out, st')"
    by (metis prod_cases3)
  have bad: "\<not> llps_client_ip_rate_bucket_is_valid (g_client_ip_rate_buckets ?st ! 0)"
    using len by (simp add: llps_client_ip_rate_bucket_is_valid_def llps_client_ip_rate_bucket_magic_is_valid_def)
  have "refused \<and> out_reason out = client_ip_rate_integrity \<and> g_server_shutdown_requested (rs_control (rate_rs st'))"
    by (rule rate_limit_fails_closed [OF r rs(1) refl, THEN conjunct2, THEN conjunct2, rule_format])
      (use bad in \<open>auto simp: rs(2) limited_cfg_def intro!: exI [of _ 0]\<close>)
  then show ?thesis using r by (auto simp: Let_def)
qed

end
