(* ===== verification/Payload_Ecc.thy ===== *)
theory Payload_Ecc
  imports Secded Safety_Counters
begin

text \<open>
  The shadow error-correcting codes of the transfer buffers, from \<^verbatim>\<open>src/core/llps_state.c\<close>: one
  check byte for every eight payload bytes. Buffers and code arrays are byte lists, lengths and
  indices natural numbers.
\<close>

section \<open>Definitions\<close>

abbreviation LLPS_PAYLOAD_ECC_WORD_BYTES :: nat where
  "LLPS_PAYLOAD_ECC_WORD_BYTES \<equiv> 8"

abbreviation LLPS_PAYLOAD_BUFFER_SIZE :: nat where
  "LLPS_PAYLOAD_BUFFER_SIZE \<equiv> 4096"

abbreviation LLPS_PAYLOAD_ECC_WORD_COUNT :: nat where
  "LLPS_PAYLOAD_ECC_WORD_COUNT \<equiv> 512"

definition llps_payload_ecc_word_count_for_len :: "nat \<Rightarrow> nat" where
  "llps_payload_ecc_word_count_for_len len = (len + (LLPS_PAYLOAD_ECC_WORD_BYTES - 1)) div LLPS_PAYLOAD_ECC_WORD_BYTES"

definition llps_payload_ecc_protected_len_for_len :: "nat \<Rightarrow> nat \<Rightarrow> nat" where
  "llps_payload_ecc_protected_len_for_len len cap =
     (let protected_len = llps_payload_ecc_word_count_for_len len * LLPS_PAYLOAD_ECC_WORD_BYTES
      in if protected_len > cap then cap else protected_len)"

text \<open>The two byte loops, with the indices they have left.\<close>

fun load_word_loop :: "u8 list \<Rightarrow> nat \<Rightarrow> nat \<Rightarrow> u64 \<Rightarrow> nat list \<Rightarrow> u64" where
  "load_word_loop buf len base word [] = word"
| "load_word_loop buf len base word (i # indices) =
     (let pos = base + i
      in if pos \<ge> len then word
         else load_word_loop buf len base (word OR push_bit (8 * i) (ucast (buf ! pos))) indices)"

definition llps_payload_ecc_load_word :: "u8 list \<Rightarrow> nat \<Rightarrow> nat \<Rightarrow> u64" where
  "llps_payload_ecc_load_word buf len word_index =
     load_word_loop buf len (word_index * LLPS_PAYLOAD_ECC_WORD_BYTES) 0 [0..<LLPS_PAYLOAD_ECC_WORD_BYTES]"

fun store_word_loop :: "u8 list \<Rightarrow> nat \<Rightarrow> nat \<Rightarrow> u64 \<Rightarrow> nat list \<Rightarrow> u8 list" where
  "store_word_loop buf len base word [] = buf"
| "store_word_loop buf len base word (i # indices) =
     (let pos = base + i
      in if pos \<ge> len then buf
         else store_word_loop (buf[pos := ucast (drop_bit (8 * i) word AND 0xff)]) len base word indices)"

definition llps_payload_ecc_store_word :: "u8 list \<Rightarrow> nat \<Rightarrow> nat \<Rightarrow> u64 \<Rightarrow> u8 list" where
  "llps_payload_ecc_store_word buf len word_index word =
     store_word_loop buf len (word_index * LLPS_PAYLOAD_ECC_WORD_BYTES) word [0..<LLPS_PAYLOAD_ECC_WORD_BYTES]"

text \<open>The results are the returned boolean and the buffers.\<close>

definition llps_payload_ecc_zero_padding :: "u8 list \<Rightarrow> nat \<Rightarrow> nat \<Rightarrow> bool \<times> u8 list" where
  "llps_payload_ecc_zero_padding buf len cap =
     (if len > cap \<or> cap > LLPS_PAYLOAD_BUFFER_SIZE then (False, buf)
      else (True, foldl (\<lambda>buf i. buf[i := 0]) buf
        [len..<llps_payload_ecc_protected_len_for_len len cap]))"

definition llps_payload_ecc_seal ::
    "u8 list \<Rightarrow> nat \<Rightarrow> nat \<Rightarrow> u8 list \<Rightarrow> nat \<Rightarrow> bool \<times> u8 list \<times> u8 list" where
  "llps_payload_ecc_seal buf len cap ecc ecc_cap =
     (let word_count = llps_payload_ecc_word_count_for_len len;
          protected_len = llps_payload_ecc_protected_len_for_len len cap
      in if len > cap \<or> word_count > ecc_cap \<or> ecc_cap > LLPS_PAYLOAD_ECC_WORD_COUNT then (False, buf, ecc)
         else
           (case llps_payload_ecc_zero_padding buf len cap of (padded, buf) \<Rightarrow>
              if \<not> padded then (False, buf, ecc)
              else
                (let ecc = foldl (\<lambda>ecc i. ecc[i :=
                       llps_secded_encode_u64 (llps_payload_ecc_load_word buf protected_len i) 64]) ecc [0..<word_count];
                     ecc = foldl (\<lambda>ecc i. ecc[i := 0]) ecc [word_count..<ecc_cap]
                 in (True, buf, ecc))))"

text \<open>The repair loop, with the word indices it has left.\<close>

fun payload_repair_loop ::
    "u8 list \<Rightarrow> nat \<Rightarrow> u8 list \<Rightarrow> safety_counters \<Rightarrow> nat list \<Rightarrow> bool \<times> u8 list \<times> u8 list \<times> safety_counters" where
  "payload_repair_loop buf protected_len ecc sc [] = (True, buf, ecc, sc)"
| "payload_repair_loop buf protected_len ecc sc (i # indices) =
     (case llps_secded_repair_u64 (llps_payload_ecc_load_word buf protected_len i) 64 (ecc ! i) of
        (status, word, code) \<Rightarrow>
          (let ecc = ecc[i := code]
           in if status = LLPS_SECDED_CORRECTED
              then payload_repair_loop (llps_payload_ecc_store_word buf protected_len i word) protected_len ecc
                     (LLPS_MEMORY_SAFETY_COUNTER_INC secded_single_bit_repairs_update sc) indices
              else if status = LLPS_SECDED_UNCORRECTABLE
              then (False, buf, ecc,
                LLPS_MEMORY_SAFETY_COUNTER_INC readiness_runtime_ecc_failures_update
                  (LLPS_MEMORY_SAFETY_COUNTER_INC secded_double_bit_failures_update sc))
              else payload_repair_loop buf protected_len ecc sc indices))"

definition llps_payload_ecc_repair ::
    "u8 list \<Rightarrow> nat \<Rightarrow> nat \<Rightarrow> u8 list \<Rightarrow> nat \<Rightarrow> safety_counters \<Rightarrow>
     bool \<times> u8 list \<times> u8 list \<times> safety_counters" where
  "llps_payload_ecc_repair buf len cap ecc ecc_cap sc =
     (let word_count = llps_payload_ecc_word_count_for_len len;
          protected_len = llps_payload_ecc_protected_len_for_len len cap
      in if len > cap \<or> cap > LLPS_PAYLOAD_BUFFER_SIZE \<or> word_count > ecc_cap \<or>
            ecc_cap > LLPS_PAYLOAD_ECC_WORD_COUNT
         then (False, buf, ecc, sc)
         else payload_repair_loop buf protected_len ecc sc [0..<word_count])"

section \<open>Vocabulary\<close>

text \<open>A stored word with its check byte that differs from the written one in at most one bit.\<close>

definition one_upset :: "u64 \<Rightarrow> u64 \<times> u8 \<Rightarrow> bool" where
  "one_upset w stored \<longleftrightarrow> stored = (w, llps_secded_encode_u64 w 64) \<or>
     (\<exists>b. code_bit_used 64 b \<and> stored = flip_bit b (w, llps_secded_encode_u64 w 64))"

definition two_upsets :: "u64 \<Rightarrow> u64 \<times> u8 \<Rightarrow> bool" where
  "two_upsets w stored \<longleftrightarrow> (\<exists>b c. code_bit_used 64 b \<and> code_bit_used 64 c \<and> b \<noteq> c \<and>
     stored = flip_bit b (flip_bit c (w, llps_secded_encode_u64 w 64)))"

section \<open>Words of a buffer\<close>

lemma bit_shifted_byte:
  "bit (push_bit (8 * k) (ucast (b :: u8)) :: u64) n \<longleftrightarrow> n < 64 \<and> n div 8 = k \<and> bit b (n mod 8)"
proof -
  have "bit (push_bit (8 * k) (ucast b) :: u64) n \<longleftrightarrow> n < 64 \<and> 8 * k \<le> n \<and> bit b (n - 8 * k)"
    by (auto simp: bit_simps)
  also have "\<dots> \<longleftrightarrow> n < 64 \<and> 8 * k \<le> n \<and> n - 8 * k < 8 \<and> bit b (n - 8 * k)"
    using bit_imp_le_length [of b] by auto
  also have "\<dots> \<longleftrightarrow> n < 64 \<and> n div 8 = k \<and> bit b (n mod 8)"
  proof -
    have "8 * k \<le> n \<and> n - 8 * k < 8 \<longleftrightarrow> n div 8 = k" by auto
    moreover have "n mod 8 = n - 8 * k" if "n div 8 = k" using that by (simp flip: minus_mult_div_eq_mod)
    ultimately show ?thesis by auto
  qed
  finally show ?thesis .
qed

lemma bit_load_loop:
  "k \<le> 8 \<Longrightarrow> bit (load_word_loop buf len base w [k..<8]) n \<longleftrightarrow>
     bit w n \<or> n < 64 \<and> k \<le> n div 8 \<and> base + n div 8 < len \<and> bit (buf ! (base + n div 8)) (n mod 8)"
proof (induction "8 - k" arbitrary: k w)
  case 0
  then show ?case by auto
next
  case (Suc d)
  then have k: "k < 8" and upt: "[k..<8] = k # [Suc k..<8]" by (auto simp: upt_conv_Cons)
  let ?w = "w OR push_bit (8 * k) (ucast (buf ! (base + k)))"
  have IH: "bit (load_word_loop buf len base ?w [Suc k..<8]) n \<longleftrightarrow>
     bit ?w n \<or> n < 64 \<and> Suc k \<le> n div 8 \<and> base + n div 8 < len \<and> bit (buf ! (base + n div 8)) (n mod 8)"
    using Suc.hyps(2) k by (intro Suc.hyps(1)) auto
  show ?case
  proof (cases "base + k < len")
    case True
    then show ?thesis
      unfolding upt by (auto simp: Let_def IH bit_or_iff bit_shifted_byte Suc_le_eq le_less)
  next
    case False
    then show ?thesis unfolding upt by auto
  qed
qed

lemma bit_load:
  "bit (llps_payload_ecc_load_word buf len j) n \<longleftrightarrow>
     n < 64 \<and> j * 8 + n div 8 < len \<and> bit (buf ! (j * 8 + n div 8)) (n mod 8)"
  by (simp add: llps_payload_ecc_load_word_def bit_load_loop)

lemma load_eq_iff:
  "llps_payload_ecc_load_word buf len j = llps_payload_ecc_load_word buf' len j \<longleftrightarrow>
     (\<forall>p. j * 8 \<le> p \<and> p < j * 8 + 8 \<and> p < len \<longrightarrow> buf ! p = buf' ! p)"
proof (intro iffI allI impI)
  fix p
  assume eq: "llps_payload_ecc_load_word buf len j = llps_payload_ecc_load_word buf' len j"
    and p: "j * 8 \<le> p \<and> p < j * 8 + 8 \<and> p < len"
  show "buf ! p = buf' ! p"
  proof (rule bit_word_eqI)
    fix i assume i: "i < LENGTH(8)"
    let ?n = "8 * (p - j * 8) + i"
    have "?n < 64" "?n div 8 = p - j * 8" "?n mod 8 = i" using p i by auto
    then show "bit (buf ! p) i = bit (buf' ! p) i"
      using arg_cong [OF eq, of "\<lambda>w. bit w ?n"] p unfolding bit_load by simp
  qed
next
  assume eq: "\<forall>p. j * 8 \<le> p \<and> p < j * 8 + 8 \<and> p < len \<longrightarrow> buf ! p = buf' ! p"
  show "llps_payload_ecc_load_word buf len j = llps_payload_ecc_load_word buf' len j"
  proof (rule bit_word_eqI)
    fix n assume "n < LENGTH(64)"
    then have "n div 8 < 8" by auto
    then show "bit (llps_payload_ecc_load_word buf len j) n = bit (llps_payload_ecc_load_word buf' len j) n"
      using eq by (auto simp: bit_load)
  qed
qed

lemma store_loop_nth:
  "k \<le> 8 \<Longrightarrow> len \<le> length buf \<Longrightarrow>
     length (store_word_loop buf len base w [k..<8]) = length buf \<and>
     store_word_loop buf len base w [k..<8] ! p =
       (if base + k \<le> p \<and> p < base + 8 \<and> p < len then ucast (drop_bit (8 * (p - base)) w AND 0xff)
        else buf ! p)"
proof (induction "8 - k" arbitrary: k buf)
  case 0
  then show ?case by auto
next
  case (Suc d)
  then have k: "k < 8" and upt: "[k..<8] = k # [Suc k..<8]" by (auto simp: upt_conv_Cons)
  show ?case
  proof (cases "base + k < len")
    case True
    let ?buf = "buf[base + k := ucast (drop_bit (8 * k) w AND 0xff)]"
    have "length (store_word_loop ?buf len base w [Suc k..<8]) = length ?buf \<and>
        store_word_loop ?buf len base w [Suc k..<8] ! p =
          (if base + Suc k \<le> p \<and> p < base + 8 \<and> p < len then ucast (drop_bit (8 * (p - base)) w AND 0xff)
           else ?buf ! p)"
      using Suc.hyps(2) Suc.prems k by (intro Suc.hyps(1)) auto
    then show ?thesis
      using True k Suc.prems(2) unfolding upt by (cases "p = base + k") (auto simp: Let_def)
  next
    case False
    then show ?thesis unfolding upt by auto
  qed
qed

lemmas store_nth = store_loop_nth [of 0, folded llps_payload_ecc_store_word_def, simplified]

lemma byte_of_load:
  assumes "j * 8 \<le> p" "p < j * 8 + 8" "p < len"
  shows "ucast (drop_bit (8 * (p - j * 8)) (llps_payload_ecc_load_word buf len j) AND 0xff) = buf ! p"
proof (rule bit_word_eqI)
  fix i assume i: "i < LENGTH(8)"
  let ?n = "8 * (p - j * 8) + i"
  have n: "?n < 64" "?n div 8 = p - j * 8" "?n mod 8 = i" using assms i by auto
  have "(0xff :: u64) = mask 8" by (simp add: mask_eq_exp_minus_1)
  then have "bit (0xff :: u64) i" using i by (simp only: bit_mask_iff) simp
  then show "bit (ucast (drop_bit (8 * (p - j * 8)) (llps_payload_ecc_load_word buf len j) AND 0xff) :: u8) i =
      bit (buf ! p) i"
    using i n assms bit_load [of buf len j ?n] by (simp add: bit_simps)
qed

text \<open>Writing back the word that was loaded from \<open>buf\<close> restores its bytes.\<close>

lemma store_load:
  assumes "len \<le> length buf'"
  shows "length (llps_payload_ecc_store_word buf' len j (llps_payload_ecc_load_word buf len j)) = length buf'"
    and "llps_payload_ecc_store_word buf' len j (llps_payload_ecc_load_word buf len j) ! p =
      (if j * 8 \<le> p \<and> p < j * 8 + 8 \<and> p < len then buf ! p else buf' ! p)"
  using store_nth [OF assms, of "j * 8" "llps_payload_ecc_load_word buf len j" p] byte_of_load [of j p len buf]
  unfolding llps_payload_ecc_store_word_def by auto

lemma word_count_bound: "p < llps_payload_ecc_protected_len_for_len len cap \<Longrightarrow>
    p div 8 < llps_payload_ecc_word_count_for_len len"
  by (auto simp: llps_payload_ecc_protected_len_for_len_def Let_def less_mult_imp_div_less split: if_splits)

lemma protected_len_ge: "len \<le> cap \<Longrightarrow> len \<le> llps_payload_ecc_protected_len_for_len len cap"
  and protected_len_le: "llps_payload_ecc_protected_len_for_len len cap \<le> cap"
  by (auto simp: llps_payload_ecc_protected_len_for_len_def llps_payload_ecc_word_count_for_len_def Let_def)

section \<open>The repair loop\<close>

lemma repair_one_upset:
  assumes "one_upset w (data, code)"
  shows "\<exists>st. llps_secded_repair_u64 data 64 code = (st, w, llps_secded_encode_u64 w 64) \<and>
    (st = LLPS_SECDED_OK \<and> data = w \<or> st = LLPS_SECDED_CORRECTED)"
  using assms repair_single_flip [of 64 w] repair_u64_clean [of w]
  by (auto simp: one_upset_def and_mask_64)

lemma repair_two_upsets:
  assumes "two_upsets w (data, code)"
  shows "llps_secded_repair_u64 data 64 code = (LLPS_SECDED_UNCORRECTABLE, data, code)"
proof -
  obtain b c where "code_bit_used 64 b" "code_bit_used 64 c" "b \<noteq> c"
    "flip_bit b (flip_bit c (w, llps_secded_encode_u64 w 64)) = (data, code)"
    using assms by (auto simp: two_upsets_def)
  then show ?thesis by (intro repair_double_flip [of 64 w b c]) (simp_all add: and_mask_64)
qed

text \<open>
  On words with at most one upset each the loop goes through and leaves the words of \<open>buf0\<close>; it
  touches no other word and no byte behind the protected ones.
\<close>

lemma repair_loop_restores:
  assumes "len \<le> length buf" "distinct indices" "\<And>j. j \<in> set indices \<Longrightarrow> j < length ecc"
    and "\<And>j. j \<in> set indices \<Longrightarrow>
      one_upset (llps_payload_ecc_load_word buf0 len j) (llps_payload_ecc_load_word buf len j, ecc ! j)"
  shows "\<exists>buf' ecc' sc'. payload_repair_loop buf len ecc sc (indices @ later) = payload_repair_loop buf' len ecc' sc' later \<and>
    length buf' = length buf \<and> length ecc' = length ecc \<and>
    (\<forall>p. buf' ! p = (if p < len \<and> p div 8 \<in> set indices then buf0 ! p else buf ! p)) \<and>
    (\<forall>j. ecc' ! j = (if j \<in> set indices
       then llps_secded_encode_u64 (llps_payload_ecc_load_word buf0 len j) 64 else ecc ! j))"
  using assms
proof (induction indices arbitrary: buf ecc sc)
  case Nil
  then show ?case by auto
next
  case (Cons j indices)
  let ?w = "llps_payload_ecc_load_word buf0 len j"
  let ?ecc = "ecc[j := llps_secded_encode_u64 ?w 64]"
  obtain st where st: "llps_secded_repair_u64 (llps_payload_ecc_load_word buf len j) 64 (ecc ! j) =
      (st, ?w, llps_secded_encode_u64 ?w 64)"
    and which: "st = LLPS_SECDED_OK \<and> llps_payload_ecc_load_word buf len j = ?w \<or> st = LLPS_SECDED_CORRECTED"
    using repair_one_upset [of ?w] Cons.prems(4) [of j] by auto
  define buf1 where "buf1 = (if st = LLPS_SECDED_CORRECTED then llps_payload_ecc_store_word buf len j ?w else buf)"
  define sc1 where "sc1 = (if st = LLPS_SECDED_CORRECTED
    then LLPS_MEMORY_SAFETY_COUNTER_INC secded_single_bit_repairs_update sc else sc)"
  have step: "payload_repair_loop buf len ecc sc ((j # indices) @ later) =
      payload_repair_loop buf1 len ?ecc sc1 (indices @ later)"
    using which by (auto simp: st buf1_def sc1_def Let_def)
  have range: "j * 8 \<le> p \<and> p < j * 8 + 8 \<longleftrightarrow> p div 8 = j" for p :: nat by auto
  have len1: "length buf1 = length buf" using store_load(1) [OF Cons.prems(1), of j buf0] by (simp add: buf1_def)
  have b1: "buf1 ! p = (if p < len \<and> p div 8 = j then buf0 ! p else buf ! p)" for p
    using which load_eq_iff [of buf len j buf0] store_load(2) [OF Cons.prems(1), of j buf0 p] range [of p]
    by (auto simp: buf1_def)
  have other: "llps_payload_ecc_load_word buf1 len m = llps_payload_ecc_load_word buf len m" if "m \<noteq> j" for m
    unfolding load_eq_iff using that b1 by auto
  have "\<exists>buf' ecc' sc'. payload_repair_loop buf1 len ?ecc sc1 (indices @ later) =
      payload_repair_loop buf' len ecc' sc' later \<and>
    length buf' = length buf1 \<and> length ecc' = length ?ecc \<and>
    (\<forall>p. buf' ! p = (if p < len \<and> p div 8 \<in> set indices then buf0 ! p else buf1 ! p)) \<and>
    (\<forall>m. ecc' ! m = (if m \<in> set indices
       then llps_secded_encode_u64 (llps_payload_ecc_load_word buf0 len m) 64 else ?ecc ! m))"
  proof (rule Cons.IH)
    fix m assume "m \<in> set indices"
    moreover from this Cons.prems(2) have "m \<noteq> j" by auto
    ultimately show "one_upset (llps_payload_ecc_load_word buf0 len m) (llps_payload_ecc_load_word buf1 len m, ?ecc ! m)"
      using Cons.prems(4) [of m] other by simp
  qed (use Cons.prems len1 in auto)
  then obtain buf' ecc' sc' where r: "payload_repair_loop buf1 len ?ecc sc1 (indices @ later) =
      payload_repair_loop buf' len ecc' sc' later" "length buf' = length buf1" "length ecc' = length ?ecc"
    and p: "\<And>p. buf' ! p = (if p < len \<and> p div 8 \<in> set indices then buf0 ! p else buf1 ! p)"
    and e: "\<And>m. ecc' ! m = (if m \<in> set indices
       then llps_secded_encode_u64 (llps_payload_ecc_load_word buf0 len m) 64 else ?ecc ! m)" by blast
  show ?case
    unfolding step r(1)
    by (rule exI [of _ buf'], rule exI [of _ ecc'], rule exI [of _ sc'])
      (use r(2,3) len1 Cons.prems(3) [of j] in \<open>auto simp: p e b1 nth_list_update\<close>)
qed

section \<open>Sealing\<close>

lemma seal_result:
  assumes "len \<le> cap" "cap \<le> length buf" "cap \<le> LLPS_PAYLOAD_BUFFER_SIZE"
    and "llps_payload_ecc_word_count_for_len len \<le> ecc_cap" "ecc_cap \<le> length ecc"
    and "ecc_cap \<le> LLPS_PAYLOAD_ECC_WORD_COUNT"
  shows "\<exists>buf1 ecc1. llps_payload_ecc_seal buf len cap ecc ecc_cap = (True, buf1, ecc1) \<and>
    length buf1 = length buf \<and> take len buf1 = take len buf \<and> length ecc1 = length ecc \<and>
    (\<forall>j < llps_payload_ecc_word_count_for_len len. ecc1 ! j = llps_secded_encode_u64
       (llps_payload_ecc_load_word buf1 (llps_payload_ecc_protected_len_for_len len cap) j) 64)"
proof -
  let ?plen = "llps_payload_ecc_protected_len_for_len len cap"
  let ?wc = "llps_payload_ecc_word_count_for_len len"
  let ?buf1 = "foldl (\<lambda>buf i. buf[i := 0]) buf [len..<?plen]"
  let ?enc = "\<lambda>j. llps_secded_encode_u64 (llps_payload_ecc_load_word ?buf1 ?plen j) 64"
  let ?ecc0 = "foldl (\<lambda>ecc i. ecc[i := ?enc i]) ecc [0..<?wc]"
  let ?ecc1 = "foldl (\<lambda>ecc i. ecc[i := 0]) ?ecc0 [?wc..<ecc_cap]"
  have "llps_payload_ecc_seal buf len cap ecc ecc_cap = (True, ?buf1, ?ecc1)"
    using assms by (simp add: llps_payload_ecc_seal_def llps_payload_ecc_zero_padding_def Let_def)
  moreover have "length ?buf1 = length buf" using foldl_assign [of "\<lambda>_. 0" buf len ?plen] by blast
  moreover have "take len ?buf1 = take len buf"
    using foldl_assign [of "\<lambda>_. 0" buf len ?plen] protected_len_le [of len cap] assms(2)
    by (intro nth_equalityI) (auto simp: calculation(2))
  moreover have e0: "length ?ecc0 = length ecc" using foldl_assign [of ?enc ecc 0 ?wc] by blast
  moreover have "length ?ecc1 = length ecc" using foldl_assign [of "\<lambda>_. 0" ?ecc0 ?wc ecc_cap] e0 by simp
  moreover have "?ecc1 ! j = ?enc j" if "j < ?wc" for j
    using that assms(4,5) foldl_assign [of "\<lambda>_. 0" ?ecc0 ?wc ecc_cap j] foldl_assign [of ?enc ecc 0 ?wc j] e0
    by simp
  ultimately show ?thesis by blast
qed

section \<open>The repair of a buffer\<close>

lemma repair_undamaged:
  assumes "len \<le> cap" "cap \<le> length buf'" "cap \<le> LLPS_PAYLOAD_BUFFER_SIZE"
    and "llps_payload_ecc_word_count_for_len len \<le> ecc_cap" "ecc_cap \<le> length ecc'"
    and "ecc_cap \<le> LLPS_PAYLOAD_ECC_WORD_COUNT"
    and "\<And>j. j < llps_payload_ecc_word_count_for_len len \<Longrightarrow>
      one_upset (llps_payload_ecc_load_word buf (llps_payload_ecc_protected_len_for_len len cap) j)
        (llps_payload_ecc_load_word buf' (llps_payload_ecc_protected_len_for_len len cap) j, ecc' ! j)"
  shows "\<exists>buf2 ecc2 sc2. llps_payload_ecc_repair buf' len cap ecc' ecc_cap sc = (True, buf2, ecc2, sc2) \<and>
    length buf2 = length buf' \<and> length ecc2 = length ecc' \<and>
    (\<forall>p < llps_payload_ecc_protected_len_for_len len cap. buf2 ! p = buf ! p) \<and>
    (\<forall>j < llps_payload_ecc_word_count_for_len len. ecc2 ! j = llps_secded_encode_u64
       (llps_payload_ecc_load_word buf (llps_payload_ecc_protected_len_for_len len cap) j) 64)"
proof -
  let ?plen = "llps_payload_ecc_protected_len_for_len len cap"
  let ?wc = "llps_payload_ecc_word_count_for_len len"
  have "?plen \<le> length buf'" using protected_len_le [of len cap] assms(2) by simp
  then obtain buf2 ecc2 sc2 where r: "payload_repair_loop buf' ?plen ecc' sc ([0..<?wc] @ []) =
      payload_repair_loop buf2 ?plen ecc2 sc2 []" "length buf2 = length buf'" "length ecc2 = length ecc'"
    "\<And>p. buf2 ! p = (if p < ?plen \<and> p div 8 \<in> set [0..<?wc] then buf ! p else buf' ! p)"
    "\<And>j. ecc2 ! j = (if j \<in> set [0..<?wc]
       then llps_secded_encode_u64 (llps_payload_ecc_load_word buf ?plen j) 64 else ecc' ! j)"
    using repair_loop_restores [of ?plen buf' "[0..<?wc]" ecc' buf sc "[]"] assms by auto
  have "llps_payload_ecc_repair buf' len cap ecc' ecc_cap sc = (True, buf2, ecc2, sc2)"
    using r(1) assms by (simp add: llps_payload_ecc_repair_def Let_def)
  then show ?thesis using r word_count_bound [of _ len cap] by auto
qed

lemma repair_detects:
  assumes "len \<le> cap" "cap \<le> length buf'" "cap \<le> LLPS_PAYLOAD_BUFFER_SIZE"
    and "llps_payload_ecc_word_count_for_len len \<le> ecc_cap" "ecc_cap \<le> length ecc'"
    and "ecc_cap \<le> LLPS_PAYLOAD_ECC_WORD_COUNT"
    and "i < llps_payload_ecc_word_count_for_len len"
    and "two_upsets (llps_payload_ecc_load_word buf (llps_payload_ecc_protected_len_for_len len cap) i)
      (llps_payload_ecc_load_word buf' (llps_payload_ecc_protected_len_for_len len cap) i, ecc' ! i)"
    and "\<And>j. j < i \<Longrightarrow>
      one_upset (llps_payload_ecc_load_word buf (llps_payload_ecc_protected_len_for_len len cap) j)
        (llps_payload_ecc_load_word buf' (llps_payload_ecc_protected_len_for_len len cap) j, ecc' ! j)"
  shows "\<not> fst (llps_payload_ecc_repair buf' len cap ecc' ecc_cap sc)"
proof -
  let ?plen = "llps_payload_ecc_protected_len_for_len len cap"
  let ?wc = "llps_payload_ecc_word_count_for_len len"
  have "?plen \<le> length buf'" using protected_len_le [of len cap] assms(2) by simp
  then obtain buf2 ecc2 sc2 where r: "payload_repair_loop buf' ?plen ecc' sc ([0..<i] @ i # [Suc i..<?wc]) =
      payload_repair_loop buf2 ?plen ecc2 sc2 (i # [Suc i..<?wc])"
    and b: "\<And>p. buf2 ! p = (if p < ?plen \<and> p div 8 \<in> set [0..<i] then buf ! p else buf' ! p)"
    and e: "\<And>j. ecc2 ! j = (if j \<in> set [0..<i]
       then llps_secded_encode_u64 (llps_payload_ecc_load_word buf ?plen j) 64 else ecc' ! j)"
    using repair_loop_restores [of ?plen buf' "[0..<i]" ecc' buf sc "i # [Suc i..<?wc]"] assms by auto
  have "llps_payload_ecc_load_word buf2 ?plen i = llps_payload_ecc_load_word buf' ?plen i"
    unfolding load_eq_iff using b by auto
  moreover have "ecc2 ! i = ecc' ! i" using e by simp
  ultimately have "\<not> fst (payload_repair_loop buf2 ?plen ecc2 sc2 (i # [Suc i..<?wc]))"
    using repair_two_upsets [OF assms(8)] by (simp add: Let_def)
  moreover have "[0..<?wc] = [0..<i] @ i # [Suc i..<?wc]"
    using assms(7) upt_add_eq_append [of 0 i "?wc - i"] upt_conv_Cons [of i ?wc] by simp
  ultimately show ?thesis
    using r assms by (simp add: llps_payload_ecc_repair_def Let_def)
qed

text \<open>The last word of a shorter length is not cut before the capacity.\<close>

lemma load_protected:
  assumes "j < llps_payload_ecc_word_count_for_len len"
  shows "llps_payload_ecc_load_word buf (llps_payload_ecc_protected_len_for_len len cap) j =
    llps_payload_ecc_load_word buf cap j"
proof (rule bit_word_eqI)
  fix n assume "n < LENGTH(64)"
  then have "n div 8 < 8" by auto
  then have "j * 8 + n div 8 < llps_payload_ecc_protected_len_for_len len cap \<longleftrightarrow> j * 8 + n div 8 < cap"
    using assms by (auto simp: llps_payload_ecc_protected_len_for_len_def Let_def)
  then show "bit (llps_payload_ecc_load_word buf (llps_payload_ecc_protected_len_for_len len cap) j) n =
      bit (llps_payload_ecc_load_word buf cap j) n" by (simp add: bit_load)
qed

text \<open>A stored word with its check byte, words up to the capacity, and a buffer that holds sealed data.\<close>

definition stored_word :: "u8 list \<Rightarrow> u8 list \<Rightarrow> nat \<Rightarrow> nat \<Rightarrow> u64 \<times> u8" where
  "stored_word buf ecc cap j = (llps_payload_ecc_load_word buf cap j, ecc ! j)"

definition word_sealed :: "u64 \<times> u8 \<Rightarrow> bool" where
  "word_sealed stored \<longleftrightarrow> snd stored = llps_secded_encode_u64 (fst stored) 64"

definition sealed_payload :: "u8 list \<Rightarrow> nat \<Rightarrow> u8 list \<Rightarrow> u8 list \<Rightarrow> bool" where
  "sealed_payload data cap buf ecc \<longleftrightarrow> length data \<le> cap \<and> take (length data) buf = data \<and>
     (\<forall>j < llps_payload_ecc_word_count_for_len (length data). word_sealed (stored_word buf ecc cap j))"

lemma word_count_le: "len \<le> 4096 \<Longrightarrow> llps_payload_ecc_word_count_for_len len \<le> 512"
  by (simp add: llps_payload_ecc_word_count_for_len_def)

lemma word_count_mono: "len \<le> cap \<Longrightarrow> llps_payload_ecc_word_count_for_len len \<le> llps_payload_ecc_word_count_for_len cap"
  by (simp add: llps_payload_ecc_word_count_for_len_def div_le_mono)

lemma seal_payload:
  assumes "length data \<le> cap" "cap \<le> LLPS_PAYLOAD_BUFFER_SIZE" "cap \<le> length buf" "take (length data) buf = data"
    and "length ecc = LLPS_PAYLOAD_ECC_WORD_COUNT"
  shows "\<exists>buf1 ecc1. llps_payload_ecc_seal buf (length data) cap ecc LLPS_PAYLOAD_ECC_WORD_COUNT = (True, buf1, ecc1) \<and>
    length buf1 = length buf \<and> length ecc1 = length ecc \<and> sealed_payload data cap buf1 ecc1"
  using seal_result [OF assms(1,3,2), of LLPS_PAYLOAD_ECC_WORD_COUNT ecc] assms word_count_le [of "length data"]
  by (auto simp: sealed_payload_def stored_word_def word_sealed_def load_protected)

text \<open>
  A repair of sealed data in which every word has at most two flipped bits: it succeeds when no word
  has two, and when it succeeds the data are sealed as before.
\<close>

lemma repair_verdict:
  assumes sealed: "sealed_payload data cap buf ecc" and cap: "cap \<le> LLPS_PAYLOAD_BUFFER_SIZE" "cap \<le> length buf'"
    and lens: "length buf' = length buf" "length ecc' = LLPS_PAYLOAD_ECC_WORD_COUNT"
    and upset: "\<And>j. j < llps_payload_ecc_word_count_for_len (length data) \<Longrightarrow>
      one_upset (fst (stored_word buf ecc cap j)) (stored_word buf' ecc' cap j) \<or>
      two_upsets (fst (stored_word buf ecc cap j)) (stored_word buf' ecc' cap j)"
    and r: "llps_payload_ecc_repair buf' (length data) cap ecc' LLPS_PAYLOAD_ECC_WORD_COUNT sc = (ok, buf2, ecc2, sc2)"
  shows "ok \<Longrightarrow> sealed_payload data cap buf2 ecc2 \<and> length buf2 = length buf \<and> length ecc2 = length ecc'"
    and "(\<And>j. j < llps_payload_ecc_word_count_for_len (length data) \<Longrightarrow>
      one_upset (fst (stored_word buf ecc cap j)) (stored_word buf' ecc' cap j)) \<Longrightarrow> ok"
proof -
  let ?plen = "llps_payload_ecc_protected_len_for_len (length data) cap"
  let ?wc = "llps_payload_ecc_word_count_for_len (length data)"
  let ?one = "\<lambda>j. one_upset (fst (stored_word buf ecc cap j)) (stored_word buf' ecc' cap j)"
  have len: "length data \<le> cap" "take (length data) buf = data" "?wc \<le> 512"
    using sealed cap word_count_le [of "length data"] by (simp_all add: sealed_payload_def)
  have word: "stored_word b e cap j = (llps_payload_ecc_load_word b ?plen j, e ! j)" if "j < ?wc" for b e j
    using load_protected [OF that] by (simp add: stored_word_def)
  have single: "ok \<and> sealed_payload data cap buf2 ecc2 \<and> length buf2 = length buf \<and> length ecc2 = length ecc'"
    if one: "\<And>j. j < ?wc \<Longrightarrow> ?one j"
  proof -
    have b: "ok" "length buf2 = length buf" "length ecc2 = length ecc'" "\<And>p. p < ?plen \<Longrightarrow> buf2 ! p = buf ! p"
      and e: "\<And>j. j < ?wc \<Longrightarrow> ecc2 ! j = llps_secded_encode_u64 (llps_payload_ecc_load_word buf ?plen j) 64"
      using repair_undamaged [OF len(1) cap(2,1), of 512 ecc' buf sc] one word lens len(3) r by auto
    have "take (length data) buf2 = take (length data) buf"
      using b protected_len_ge [OF len(1)] by (intro nth_equalityI) auto
    moreover have "llps_payload_ecc_load_word buf2 ?plen j = llps_payload_ecc_load_word buf ?plen j" for j
      unfolding load_eq_iff using b(4) by blast
    ultimately show ?thesis using b e len word by (simp add: sealed_payload_def word_sealed_def)
  qed
  moreover have "\<not> ok" if bad: "\<not> (\<forall>j < ?wc. ?one j)"
  proof -
    obtain i where i: "i < ?wc" "\<not> ?one i" and least: "\<And>j. j < i \<Longrightarrow> ?one j"
      using bad exists_least_iff [of "\<lambda>j. j < ?wc \<and> \<not> ?one j"] by (meson order.strict_trans)
    have two: "two_upsets (llps_payload_ecc_load_word buf ?plen i) (llps_payload_ecc_load_word buf' ?plen i, ecc' ! i)"
      using upset [OF i(1)] i word by simp
    have "\<not> fst (llps_payload_ecc_repair buf' (length data) cap ecc' 512 sc)"
      by (rule repair_detects [OF len(1) cap(2,1) len(3) _ _ i(1) two]) (use lens i(1) least word in auto)
    then show ?thesis using r by simp
  qed
  ultimately show "ok \<Longrightarrow> sealed_payload data cap buf2 ecc2 \<and> length buf2 = length buf \<and> length ecc2 = length ecc'"
    and "(\<And>j. j < ?wc \<Longrightarrow> ?one j) \<Longrightarrow> ok" by blast+
qed

section \<open>Properties\<close>

text \<open>
  C26: Sealed payload survives scattered upsets. After a buffer is sealed, flip any bit, at most one
  for each group of eight bytes with its check byte and possibly in all groups at once: the repair
  succeeds and the buffer holds the sealed payload again.
\<close>

theorem payload_ecc_roundtrip:
  assumes "len \<le> cap" "cap \<le> length buf" "cap \<le> LLPS_PAYLOAD_BUFFER_SIZE"
    and "llps_payload_ecc_word_count_for_len len \<le> ecc_cap" "ecc_cap \<le> length ecc"
    and "ecc_cap \<le> LLPS_PAYLOAD_ECC_WORD_COUNT"
    and "llps_payload_ecc_seal buf len cap ecc ecc_cap = (sealed, buf1, ecc1)"
    and "length buf' = length buf1" "length ecc' = length ecc1"
    and "\<And>j. j < llps_payload_ecc_word_count_for_len len \<Longrightarrow>
      one_upset (llps_payload_ecc_load_word buf1 (llps_payload_ecc_protected_len_for_len len cap) j)
        (llps_payload_ecc_load_word buf' (llps_payload_ecc_protected_len_for_len len cap) j, ecc' ! j)"
  shows "sealed \<and> (\<exists>buf2 ecc2 sc2. llps_payload_ecc_repair buf' len cap ecc' ecc_cap sc = (True, buf2, ecc2, sc2) \<and>
    take len buf2 = take len buf \<and> length buf2 = length buf)"
proof -
  have s: "sealed" "length buf1 = length buf" "take len buf1 = take len buf" "length ecc1 = length ecc"
    using seal_result [OF assms(1-6)] assms(7) by auto
  obtain buf2 ecc2 sc2 where r: "llps_payload_ecc_repair buf' len cap ecc' ecc_cap sc = (True, buf2, ecc2, sc2)"
    "length buf2 = length buf'" "\<forall>p < llps_payload_ecc_protected_len_for_len len cap. buf2 ! p = buf1 ! p"
    using repair_undamaged [of len cap buf' ecc_cap ecc' buf1 sc] assms s by auto
  have "take len buf2 = take len buf"
    unfolding s(3) [symmetric] using r(2,3) assms(8) protected_len_ge [OF assms(1)] by (intro nth_equalityI) auto
  then show ?thesis using r(1,2) s(1,2) assms(8) by auto
qed

lemma sample_seal:
  "llps_payload_ecc_seal [0x41, 0x42, 0x43, 9] 3 4 [7] 1 =
     (True, [0x41, 0x42, 0x43, 0], [llps_secded_encode_u64 0x434241 64])"
  by (simp add: llps_payload_ecc_seal_def llps_payload_ecc_zero_padding_def llps_payload_ecc_word_count_for_len_def
      llps_payload_ecc_protected_len_for_len_def llps_payload_ecc_load_word_def upt_rec)

lemma sample_lengths:
  "llps_payload_ecc_word_count_for_len 3 = 1" "llps_payload_ecc_protected_len_for_len 3 4 = 4"
  by (simp_all add: llps_payload_ecc_word_count_for_len_def llps_payload_ecc_protected_len_for_len_def)

theorem payload_ecc_roundtrip_witness:
  "\<exists>buf2 ecc2 sc2. llps_payload_ecc_repair [0x40, 0x42, 0x43, 0] 3 4 [llps_secded_encode_u64 0x434241 64] 1
     \<lparr>g_memory_safety_counters = zero_counters, g_memory_safety_counters_crc = 0,
      g_memory_safety_counters_crc_inverse = 0\<rparr> = (True, buf2, ecc2, sc2) \<and>
   take 3 buf2 = [0x41, 0x42, 0x43]"
proof -
  have "one_upset 0x434241 (0x434240, llps_secded_encode_u64 0x434241 64)"
    unfolding one_upset_def by (intro disjI2 exI [of _ "DataBit 0"]) simp
  then show ?thesis
    using payload_ecc_roundtrip [OF _ _ _ _ _ _ sample_seal, of "[0x40, 0x42, 0x43, 0]"
        "[llps_secded_encode_u64 0x434241 64]"
        "\<lparr>g_memory_safety_counters = zero_counters, g_memory_safety_counters_crc = 0,
          g_memory_safety_counters_crc_inverse = 0\<rparr>"]
    by (auto simp: sample_lengths llps_payload_ecc_load_word_def upt_rec)
qed

text \<open>
  Damage beyond repair is never forwarded. When some group of a sealed buffer has two flipped
  bits, and the groups before it at most one each, the repair reports failure.
\<close>

theorem payload_ecc_double_detected:
  assumes "len \<le> cap" "cap \<le> length buf" "cap \<le> LLPS_PAYLOAD_BUFFER_SIZE"
    and "llps_payload_ecc_word_count_for_len len \<le> ecc_cap" "ecc_cap \<le> length ecc"
    and "ecc_cap \<le> LLPS_PAYLOAD_ECC_WORD_COUNT"
    and "llps_payload_ecc_seal buf len cap ecc ecc_cap = (sealed, buf1, ecc1)"
    and "length buf' = length buf1" "length ecc' = length ecc1"
    and "i < llps_payload_ecc_word_count_for_len len"
    and "two_upsets (llps_payload_ecc_load_word buf1 (llps_payload_ecc_protected_len_for_len len cap) i)
      (llps_payload_ecc_load_word buf' (llps_payload_ecc_protected_len_for_len len cap) i, ecc' ! i)"
    and "\<And>j. j < i \<Longrightarrow>
      one_upset (llps_payload_ecc_load_word buf1 (llps_payload_ecc_protected_len_for_len len cap) j)
        (llps_payload_ecc_load_word buf' (llps_payload_ecc_protected_len_for_len len cap) j, ecc' ! j)"
  shows "\<not> fst (llps_payload_ecc_repair buf' len cap ecc' ecc_cap sc)"
proof -
  have "length buf1 = length buf" "length ecc1 = length ecc"
    using seal_result [OF assms(1-6)] assms(7) by auto
  then show ?thesis using repair_detects [OF assms(1) _ assms(3,4) _ assms(6,10-12)] assms by simp
qed

theorem payload_ecc_double_detected_witness:
  "\<not> fst (llps_payload_ecc_repair [0x42, 0x42, 0x43, 0] 3 4 [llps_secded_encode_u64 0x434241 64] 1
     \<lparr>g_memory_safety_counters = zero_counters, g_memory_safety_counters_crc = 0,
      g_memory_safety_counters_crc_inverse = 0\<rparr>)"
proof -
  have "two_upsets 0x434241 (0x434242, llps_secded_encode_u64 0x434241 64)"
    unfolding two_upsets_def by (intro exI [of _ "DataBit 0"] exI [of _ "DataBit 1"]) simp
  then show ?thesis
    by (intro payload_ecc_double_detected [OF _ _ _ _ _ _ sample_seal, where i = 0])
      (auto simp: sample_lengths llps_payload_ecc_load_word_def upt_rec)
qed

end
