(* ===== verification/Session_State.thy ===== *)
theory Session_State
  imports Session_Tmr Rate_Limit Payload_Ecc
begin

text \<open>
  Sessions under their redundancy, from \<^verbatim>\<open>src/core/llps_state.c\<close>: sealing a session into its banks,
  reconciling a session with them, the state queries, and the changes of a session's life. The
  session table, the three memory regions, the canonical free list and the globals of
  \<open>Runtime_State\<close> are one state record; a session pointer is the index into the table. Log output is
  left out.
\<close>

section \<open>Definitions\<close>

record server_state =
  sv_rs :: runtime_state
  sv_sessions :: "llps_session_t list"
  sv_regions :: "llps_session_tmr_region_t list"
  sv_free :: "u32 list \<times> u32"

definition sv_counters :: "server_state \<Rightarrow> safety_counters" where
  "sv_counters sv = env_counters (rs_env (sv_rs sv))"

definition sv_set_counters :: "safety_counters \<Rightarrow> server_state \<Rightarrow> server_state" where
  "sv_set_counters sc sv = sv\<lparr>sv_rs := (sv_rs sv)\<lparr>rs_env := (rs_env (sv_rs sv))\<lparr>env_counters := sc\<rparr>\<rparr>\<rparr>"

definition sv_cfg :: "server_state \<Rightarrow> llps_yml_config_t" where
  "sv_cfg sv = env_runtime_cfg (rs_env (sv_rs sv))"

definition sv_session :: "nat \<Rightarrow> server_state \<Rightarrow> llps_session_t" where
  "sv_session n sv = sv_sessions sv ! n"

definition sv_put_session :: "nat \<Rightarrow> llps_session_t \<Rightarrow> server_state \<Rightarrow> server_state" where
  "sv_put_session n sess sv = sv\<lparr>sv_sessions := (sv_sessions sv)[n := sess]\<rparr>"

text \<open>\<^verbatim>\<open>LLPS_EXPECT(false, return)\<close> and the bank operations on the globals.\<close>

definition sv_violation :: "server_state \<Rightarrow> server_state" where
  "sv_violation sv = sv\<lparr>sv_rs := llps_contract_violation (sv_rs sv)\<rparr>"

definition sv_reconcile_cfg :: "server_state \<Rightarrow> bool \<times> server_state" where
  "sv_reconcile_cfg sv = (case reconcile_cfg (sv_rs sv) of (ok, rs) \<Rightarrow> (ok, sv\<lparr>sv_rs := rs\<rparr>))"

definition sv_write_banks :: "llps_session_tmr_snapshot_t \<Rightarrow> server_state \<Rightarrow> server_state" where
  "sv_write_banks s sv =
     (case llps_session_tmr_write_all s (sv_regions sv, sv_counters sv) of
        (regions, sc) \<Rightarrow> (sv_set_counters sc sv)\<lparr>sv_regions := regions\<rparr>)"

definition llps_session_index_from_ptr :: "nat \<Rightarrow> u32 option" where
  "llps_session_index_from_ptr n = (if n < unat LLPS_MAX_CLIENTS then Some (of_nat n) else None)"

definition llps_session_tmr_snapshot_from_session :: "llps_session_t \<Rightarrow> llps_session_tmr_snapshot_t" where
  "llps_session_tmr_snapshot_from_session sess =
     \<lparr>ss_session_id = se_session_id sess, ss_state = se_state sess,
      ss_last_activity_ns = se_last_activity_ns sess, ss_request_no = se_request_no sess,
      ss_client_fd = se_client_fd sess, ss_backend_fd = se_backend_fd sess,
      ss_close_reason = se_close_reason sess, ss_client_ip = se_client_ip sess,
      ss_client_port = se_client_port sess, ss_c2s_payload_ecc_len = se_c2s_payload_ecc_len sess,
      ss_s2c_payload_ecc_len = se_s2c_payload_ecc_len sess, ss_session_crc = se_integrity_crc sess\<rparr>"

definition llps_session_tmr_write_all_from_session :: "llps_session_t \<Rightarrow> server_state \<Rightarrow> server_state" where
  "llps_session_tmr_write_all_from_session sess = sv_write_banks (llps_session_tmr_snapshot_from_session sess)"

definition llps_session_refresh_crc :: "nat \<Rightarrow> server_state \<Rightarrow> server_state" where
  "llps_session_refresh_crc n sv =
     (let sess = llps_session_refresh_secded (sv_session n sv);
          sess = sess\<lparr>se_integrity_crc := llps_session_compute_crc sess\<rparr>;
          sess = sess\<lparr>se_integrity_crc_inverse := NOT (se_integrity_crc sess)\<rparr>
      in llps_session_tmr_write_all_from_session sess (sv_put_session n sess sv))"

definition llps_session_apply_tmr_snapshot ::
    "llps_session_tmr_snapshot_t \<Rightarrow> llps_session_t \<Rightarrow> llps_session_t" where
  "llps_session_apply_tmr_snapshot snapshot sess =
     sess\<lparr>se_session_id := ss_session_id snapshot, se_state := ss_state snapshot,
       se_state_inverse := llps_state_inverse_value (ss_state snapshot),
       se_last_activity_ns := ss_last_activity_ns snapshot, se_request_no := ss_request_no snapshot,
       se_request_no_inverse := NOT (ss_request_no snapshot),
       se_close_reason := ss_close_reason snapshot,
       se_close_reason_inverse := NOT (ss_close_reason snapshot),
       se_client_fd := ss_client_fd snapshot, se_backend_fd := ss_backend_fd snapshot,
       se_client_ip := ss_client_ip snapshot, se_client_port := ss_client_port snapshot,
       se_client_port_inverse := NOT (ucast (ss_client_port snapshot)),
       se_c2s_payload_ecc_len := ss_c2s_payload_ecc_len snapshot,
       se_c2s_payload_ecc_len_inverse := NOT (ss_c2s_payload_ecc_len snapshot),
       se_s2c_payload_ecc_len := ss_s2c_payload_ecc_len snapshot,
       se_s2c_payload_ecc_len_inverse := NOT (ss_s2c_payload_ecc_len snapshot),
       se_magic_start := llps_magic_for_state (ss_state snapshot),
       se_magic_end := llps_magic_for_state (ss_state snapshot)\<rparr>"

definition llps_session_snapshot_differs ::
    "llps_session_t \<Rightarrow> llps_session_tmr_snapshot_t \<Rightarrow> bool \<Rightarrow> bool" where
  "llps_session_snapshot_differs sess snapshot local_secded_ok =
     (if \<not> local_secded_ok then True
      else se_session_id sess \<noteq> ss_session_id snapshot \<or>
           se_state sess \<noteq> ss_state snapshot \<or>
           se_state_inverse sess \<noteq> llps_state_inverse_value (ss_state snapshot) \<or>
           se_last_activity_ns sess \<noteq> ss_last_activity_ns snapshot \<or>
           se_request_no sess \<noteq> ss_request_no snapshot \<or>
           se_request_no_inverse sess \<noteq> NOT (ss_request_no snapshot) \<or>
           se_close_reason sess \<noteq> ss_close_reason snapshot \<or>
           se_close_reason_inverse sess \<noteq> NOT (ss_close_reason snapshot) \<or>
           se_client_fd sess \<noteq> ss_client_fd snapshot \<or>
           se_backend_fd sess \<noteq> ss_backend_fd snapshot \<or>
           se_client_ip sess \<noteq> ss_client_ip snapshot \<or>
           se_client_port sess \<noteq> ss_client_port snapshot \<or>
           se_client_port_inverse sess \<noteq> NOT (ucast (ss_client_port snapshot)) \<or>
           se_c2s_payload_ecc_len sess \<noteq> ss_c2s_payload_ecc_len snapshot \<or>
           se_c2s_payload_ecc_len_inverse sess \<noteq> NOT (ss_c2s_payload_ecc_len snapshot) \<or>
           se_s2c_payload_ecc_len sess \<noteq> ss_s2c_payload_ecc_len snapshot \<or>
           se_s2c_payload_ecc_len_inverse sess \<noteq> NOT (ss_s2c_payload_ecc_len snapshot) \<or>
           se_magic_start sess \<noteq> llps_magic_for_state (ss_state snapshot) \<or>
           se_magic_end sess \<noteq> llps_magic_for_state (ss_state snapshot))"

text \<open>
  What reconciling does to the session itself once the vote has returned \<open>snapshot\<close>: the result, the
  session and the counters.
\<close>

definition session_reconcile_local ::
    "llps_session_tmr_snapshot_t \<Rightarrow> llps_session_t \<Rightarrow> safety_counters \<Rightarrow> bool \<times> llps_session_t \<times> safety_counters" where
  "session_reconcile_local snapshot sess sc =
     (case llps_session_repair_secded sess sc of
        (local_secded_ok, sess, sc) \<Rightarrow>
          (let sess = (if llps_session_snapshot_differs sess snapshot local_secded_ok
                       then llps_session_apply_tmr_snapshot snapshot sess else sess);
               sess = llps_session_refresh_secded sess;
               computed_crc = llps_session_compute_crc sess
           in if computed_crc \<noteq> ss_session_crc snapshot then (False, sess, sc)
              else
                (let sess = sess\<lparr>se_integrity_crc := computed_crc, se_integrity_crc_inverse := NOT computed_crc\<rparr>
                 in (llps_session_local_integrity_is_valid sess, sess, sc))))"

text \<open>\<open>None\<close> is the result \<^verbatim>\<open>false\<close>.\<close>

definition llps_session_reconcile_integrity ::
    "nat \<Rightarrow> server_state \<Rightarrow> llps_session_tmr_snapshot_t option \<times> server_state" where
  "llps_session_reconcile_integrity n sv =
     (case sv_reconcile_cfg sv of
        (False, sv) \<Rightarrow> (None, sv)
      | (True, sv) \<Rightarrow>
          (case llps_session_index_from_ptr n of
             None \<Rightarrow> (None, sv)
           | Some session_index \<Rightarrow>
               (case llps_session_tmr_vote session_index (max_clients (sv_cfg sv)) (sv_regions sv, sv_counters sv) of
                  (voted, regions, sc) \<Rightarrow>
                    (case voted of
                       None \<Rightarrow> (None, (sv_set_counters sc sv)\<lparr>sv_regions := regions\<rparr>)
                     | Some snapshot \<Rightarrow>
                         (case session_reconcile_local snapshot (sv_session n sv) sc of
                            (ok, sess, sc) \<Rightarrow>
                              (if ok then Some snapshot else None,
                               sv_put_session n sess ((sv_set_counters sc sv)\<lparr>sv_regions := regions\<rparr>)))))))"

definition llps_session_is_active :: "nat \<Rightarrow> server_state \<Rightarrow> bool \<times> server_state" where
  "llps_session_is_active n sv =
     (case llps_session_reconcile_integrity n sv of
        (None, sv) \<Rightarrow> (False, sv)
      | (Some snapshot, sv) \<Rightarrow> (ss_state snapshot = ST_ACTIVE, sv))"

definition llps_session_is_free :: "nat \<Rightarrow> server_state \<Rightarrow> bool \<times> server_state" where
  "llps_session_is_free n sv =
     (case llps_session_reconcile_integrity n sv of
        (None, sv) \<Rightarrow> (False, sv)
      | (Some snapshot, sv) \<Rightarrow> (ss_state snapshot = ST_FREE, sv))"

definition llps_session_hot_path_is_active :: "llps_session_t \<Rightarrow> bool" where
  "llps_session_hot_path_is_active sess \<longleftrightarrow>
     se_magic_start sess = LLPS_SESSION_MAGIC_ACTIVE \<and> se_magic_end sess = LLPS_SESSION_MAGIC_ACTIVE \<and>
     se_state sess = ST_ACTIVE \<and> se_state_inverse sess = llps_state_inverse_value ST_ACTIVE \<and>
     se_request_no_inverse sess = NOT (se_request_no sess) \<and>
     se_close_reason_inverse sess = NOT (se_close_reason sess) \<and>
     llps_close_reason_is_valid (se_close_reason sess) \<and>
     se_client_port_inverse sess = NOT (ucast (se_client_port sess))"

subsection \<open>Changes of a session\<close>

text \<open>\<^verbatim>\<open>llps_secure_bzero\<close> and \<^verbatim>\<open>memset\<close> of a whole array.\<close>

definition zeroed :: "u8 list \<Rightarrow> u8 list" where
  "zeroed xs = replicate (length xs) 0"

definition session_clear_transfer :: "llps_session_t \<Rightarrow> llps_session_t" where
  "session_clear_transfer sess =
     sess\<lparr>se_pump_c2s := llps_reset_pump_args (se_pump_c2s sess),
       se_pump_s2c := llps_reset_pump_args (se_pump_s2c sess),
       se_c2s_buf := zeroed (se_c2s_buf sess), se_s2c_buf := zeroed (se_s2c_buf sess),
       se_c2s_payload_ecc := zeroed (se_c2s_payload_ecc sess),
       se_s2c_payload_ecc := zeroed (se_s2c_payload_ecc sess),
       se_c2s_payload_ecc_len := 0, se_c2s_payload_ecc_len_inverse := UINT32_MAX,
       se_s2c_payload_ecc_len := 0, se_s2c_payload_ecc_len_inverse := UINT32_MAX\<rparr>"

definition session_free_fields :: "u32 \<Rightarrow> llps_session_t \<Rightarrow> llps_session_t" where
  "session_free_fields session_id sess =
     (let sess = sess\<lparr>se_session_id := session_id, se_last_activity_ns := 0, se_request_no := 0,
            se_request_no_inverse := UINT64_MAX, se_close_reason := LLPS_CLOSE_REASON_NORMAL\<rparr>;
          sess = sess\<lparr>se_close_reason_inverse := NOT (se_close_reason sess),
            se_client_fd := LLPS_INVALID_FD, se_backend_fd := LLPS_INVALID_FD,
            se_client_ip := zeroed (se_client_ip sess), se_client_port := 0,
            se_client_port_inverse := NOT 0\<rparr>
      in llps_session_set_state_fields ST_FREE (session_clear_transfer sess))"

definition llps_session_reset_free :: "nat \<Rightarrow> u32 \<Rightarrow> server_state \<Rightarrow> server_state" where
  "llps_session_reset_free n session_id sv =
     llps_session_refresh_crc n (sv_put_session n (session_free_fields session_id (sv_session n sv)) sv)"

text \<open>The text \<^verbatim>\<open>"0.0.0.0"\<close> with its terminator, for a peer without an address.\<close>

definition unknown_ip :: "u8 list" where
  "unknown_ip = [0x30, 0x2E, 0x30, 0x2E, 0x30, 0x2E, 0x30, 0]"

definition session_active_fields ::
    "u32 \<Rightarrow> c_int \<Rightarrow> u8 list option \<Rightarrow> u16 \<Rightarrow> u64 \<Rightarrow> u64 \<Rightarrow> llps_session_t \<Rightarrow> llps_session_t" where
  "session_active_fields session_id client_fd client_ip client_port request_no now sess =
     (let sess = sess\<lparr>se_session_id := session_id, se_client_fd := client_fd, se_backend_fd := LLPS_INVALID_FD,
            se_client_ip := snd (llps_state_copy_text (zeroed (se_client_ip sess)) LLPS_CLIENT_IP_TEXT_LEN
              (case client_ip of Some ip \<Rightarrow> ip | None \<Rightarrow> unknown_ip)),
            se_client_port := client_port, se_client_port_inverse := NOT (ucast client_port),
            se_request_no := request_no, se_request_no_inverse := NOT request_no,
            se_close_reason := LLPS_CLOSE_REASON_NORMAL\<rparr>;
          sess = sess\<lparr>se_close_reason_inverse := NOT (se_close_reason sess), se_last_activity_ns := now\<rparr>
      in llps_session_set_state_fields ST_ACTIVE (session_clear_transfer sess))"

definition llps_session_prepare_active_with_peer ::
    "nat \<Rightarrow> u32 \<Rightarrow> c_int \<Rightarrow> u8 list option \<Rightarrow> u16 \<Rightarrow> u64 \<Rightarrow> u64 \<Rightarrow> server_state \<Rightarrow> server_state" where
  "llps_session_prepare_active_with_peer n session_id client_fd client_ip client_port request_no now sv =
     (case llps_llam_now_ns_checked now (sv_rs sv) of
        (now, rs) \<Rightarrow>
          llps_session_refresh_crc n (sv_put_session n
            (session_active_fields session_id client_fd client_ip client_port request_no now (sv_session n sv))
            (sv\<lparr>sv_rs := rs\<rparr>)))"

abbreviation LLPS_NSEC_PER_SEC :: u64 where
  "LLPS_NSEC_PER_SEC \<equiv> 1000000000"

definition llps_session_touch :: "nat \<Rightarrow> u64 \<Rightarrow> server_state \<Rightarrow> server_state" where
  "llps_session_touch n now sv =
     (case llps_llam_now_ns_checked now (sv_rs sv) of
        (now, rs) \<Rightarrow>
          (let sv = sv\<lparr>sv_rs := rs\<rparr>; sess = sv_session n sv
           in if se_last_activity_ns sess = 0 \<or>
                 (now > se_last_activity_ns sess \<and> now - se_last_activity_ns sess > LLPS_NSEC_PER_SEC)
              then llps_session_refresh_crc n (sv_put_session n (sess\<lparr>se_last_activity_ns := now\<rparr>) sv)
              else sv))"

definition llps_session_mark_close_reason :: "nat \<Rightarrow> u32 \<Rightarrow> server_state \<Rightarrow> server_state" where
  "llps_session_mark_close_reason n reason sv =
     (if \<not> llps_close_reason_is_valid reason then sv_violation sv
      else (let sess = (sv_session n sv)\<lparr>se_close_reason := reason\<rparr>;
                sess = sess\<lparr>se_close_reason_inverse := NOT (se_close_reason sess)\<rparr>
            in llps_session_refresh_crc n (sv_put_session n sess sv)))"

definition llps_session_mark_close_reason_if_active :: "nat \<Rightarrow> u32 \<Rightarrow> server_state \<Rightarrow> server_state" where
  "llps_session_mark_close_reason_if_active n reason sv =
     (if reason = LLPS_CLOSE_REASON_NORMAL then sv
      else if llps_session_hot_path_is_active (sv_session n sv) then llps_session_mark_close_reason n reason sv
      else (case llps_session_is_active n sv of
              (is_active, sv) \<Rightarrow> if is_active then llps_session_mark_close_reason n reason sv else sv))"

section \<open>Reconciling one session\<close>

text \<open>What the checks of a sound session say.\<close>

lemma local_integrity_iff:
  "llps_session_local_integrity_is_valid s \<longleftrightarrow>
     llps_session_secded_is_valid s \<and> se_state_inverse s = llps_state_inverse_value (se_state s) \<and>
     llps_state_is_valid (se_state s) \<and>
     se_magic_start s = llps_magic_for_state (se_state s) \<and> se_magic_end s = llps_magic_for_state (se_state s) \<and>
     se_request_no_inverse s = NOT (se_request_no s) \<and> llps_close_reason_is_valid (se_close_reason s) \<and>
     se_close_reason_inverse s = NOT (se_close_reason s) \<and>
     se_client_port_inverse s = NOT (ucast (se_client_port s)) \<and>
     se_c2s_payload_ecc_len s \<le> LLPS_BUFFER_SIZE \<and> se_s2c_payload_ecc_len s \<le> LLPS_BUFFER_SIZE \<and>
     se_c2s_payload_ecc_len_inverse s = NOT (se_c2s_payload_ecc_len s) \<and>
     se_s2c_payload_ecc_len_inverse s = NOT (se_s2c_payload_ecc_len s) \<and>
     se_integrity_crc_inverse s = NOT (se_integrity_crc s) \<and> se_integrity_crc s = llps_session_compute_crc s"
  unfolding llps_session_local_integrity_is_valid_def llps_session_state_pair_is_valid_def Let_def not_less [symmetric]
  by argo

lemma local_integrity_facts:
  assumes "llps_session_local_integrity_is_valid s"
  shows "llps_session_secded_is_valid s" "se_state_inverse s = llps_state_inverse_value (se_state s)"
    "llps_state_is_valid (se_state s)"
    "se_magic_start s = llps_magic_for_state (se_state s)" "se_magic_end s = llps_magic_for_state (se_state s)"
    "se_request_no_inverse s = NOT (se_request_no s)" "llps_close_reason_is_valid (se_close_reason s)"
    "se_close_reason_inverse s = NOT (se_close_reason s)"
    "se_client_port_inverse s = NOT (ucast (se_client_port s))"
    "se_c2s_payload_ecc_len s \<le> LLPS_BUFFER_SIZE" "se_s2c_payload_ecc_len s \<le> LLPS_BUFFER_SIZE"
    "se_c2s_payload_ecc_len_inverse s = NOT (se_c2s_payload_ecc_len s)"
    "se_s2c_payload_ecc_len_inverse s = NOT (se_s2c_payload_ecc_len s)"
    "se_integrity_crc_inverse s = NOT (se_integrity_crc s)" "se_integrity_crc s = llps_session_compute_crc s"
  using assms unfolding local_integrity_iff by simp_all

text \<open>The parts of a session no bank holds a copy of and no check covers: the payload and its codes.\<close>

definition with_payload_of :: "llps_session_t \<Rightarrow> llps_session_t \<Rightarrow> llps_session_t" where
  "with_payload_of d s = s\<lparr>se_c2s_buf := se_c2s_buf d, se_s2c_buf := se_s2c_buf d,
     se_c2s_payload_ecc := se_c2s_payload_ecc d, se_s2c_payload_ecc := se_s2c_payload_ecc d\<rparr>"

abbreviation unprotected :: "llps_session_t \<Rightarrow> llps_pump_args_t \<times> llps_pump_args_t \<times> u8 list \<times> u8 list \<times> u8 list \<times> u8 list" where
  "unprotected s \<equiv> (se_pump_c2s s, se_pump_s2c s, se_c2s_buf s, se_s2c_buf s, se_c2s_payload_ecc s, se_s2c_payload_ecc s)"

lemma repair_word_frame:
  assumes "\<And>w e s. f (u (\<lambda>_. w) (ue (\<lambda>_. e) s)) = f s"
  shows "f (fst (session_repair_word repair g u ge ue st)) = f (fst st)"
  using assms by (auto simp: session_repair_word_def split: prod.splits)

lemma repair_groups_frame:
  "unprotected (fst (llps_session_repair_identity_secded st)) = unprotected (fst st)"
  "unprotected (fst (llps_session_repair_activity_secded st)) = unprotected (fst st)"
  "unprotected (fst (llps_session_repair_fd_port_secded st)) = unprotected (fst st)"
  "unprotected (fst (llps_session_repair_payload_secded st)) = unprotected (fst st)"
  unfolding llps_session_repair_identity_secded_def llps_session_repair_activity_secded_def
    llps_session_repair_fd_port_secded_def llps_session_repair_payload_secded_def Let_def
  by (simp_all add: repair_word_frame [where f = se_pump_c2s] repair_word_frame [where f = se_pump_s2c]
      repair_word_frame [where f = se_c2s_buf] repair_word_frame [where f = se_s2c_buf]
      repair_word_frame [where f = se_c2s_payload_ecc] repair_word_frame [where f = se_s2c_payload_ecc])

lemma repair_frame:
  assumes "llps_session_repair_secded d sc = (ok, r, sc')"
  shows "unprotected r = unprotected d"
proof -
  have "r = fst (llps_session_repair_payload_secded (llps_session_repair_fd_port_secded
      (llps_session_repair_activity_secded (llps_session_repair_identity_secded (d, True, sc)))))"
    using assms by (auto simp: llps_session_repair_secded_def Let_def split: prod.splits)
  then show ?thesis using repair_groups_frame by (metis fst_conv)
qed

lemma apply_or_same:
  assumes valid: "llps_session_local_integrity_is_valid s"
    and pumps: "se_pump_c2s r = se_pump_c2s s" "se_pump_s2c r = se_pump_s2c s"
  shows "llps_session_refresh_secded
      (if llps_session_snapshot_differs r (llps_session_tmr_snapshot_from_session s) ok
       then llps_session_apply_tmr_snapshot (llps_session_tmr_snapshot_from_session s) r else r) =
    (with_payload_of r s)\<lparr>se_integrity_crc := se_integrity_crc r, se_integrity_crc_inverse := se_integrity_crc_inverse r\<rparr>"
proof -
  note facts = local_integrity_facts [OF valid]
  note enc = facts(1) [unfolded llps_session_secded_is_valid_def encode_of_valid]
  show ?thesis
  proof (cases "llps_session_snapshot_differs r (llps_session_tmr_snapshot_from_session s) ok")
    case True
    then show ?thesis
      using pumps facts enc
      by (intro llps_session_t.equality)
        (simp_all add: llps_session_refresh_secded_def llps_session_apply_tmr_snapshot_def with_payload_of_def
          llps_session_tmr_snapshot_from_session_def)
  next
    case False
    then have "se_session_id r = se_session_id s" "se_state r = se_state s" "se_state_inverse r = se_state_inverse s"
      "se_last_activity_ns r = se_last_activity_ns s" "se_request_no r = se_request_no s"
      "se_request_no_inverse r = se_request_no_inverse s" "se_close_reason r = se_close_reason s"
      "se_close_reason_inverse r = se_close_reason_inverse s" "se_client_fd r = se_client_fd s"
      "se_backend_fd r = se_backend_fd s" "se_client_ip r = se_client_ip s" "se_client_port r = se_client_port s"
      "se_client_port_inverse r = se_client_port_inverse s" "se_c2s_payload_ecc_len r = se_c2s_payload_ecc_len s"
      "se_c2s_payload_ecc_len_inverse r = se_c2s_payload_ecc_len_inverse s"
      "se_s2c_payload_ecc_len r = se_s2c_payload_ecc_len s"
      "se_s2c_payload_ecc_len_inverse r = se_s2c_payload_ecc_len_inverse s"
      "se_magic_start r = se_magic_start s" "se_magic_end r = se_magic_end s"
      using facts by (auto simp: llps_session_snapshot_differs_def llps_session_tmr_snapshot_from_session_def split: if_splits)
    then show ?thesis
      using False pumps enc
      by (intro llps_session_t.equality) (simp_all add: llps_session_refresh_secded_def with_payload_of_def)
  qed
qed

lemma compute_crc_frame [simp]:
  "llps_session_compute_crc (with_payload_of d s) = llps_session_compute_crc s"
  "llps_session_compute_crc (s\<lparr>se_integrity_crc := x\<rparr>) = llps_session_compute_crc s"
  "llps_session_compute_crc (s\<lparr>se_integrity_crc_inverse := x\<rparr>) = llps_session_compute_crc s"
  by (simp_all add: llps_session_compute_crc_def llps_session_crc_metadata_def llps_session_crc_pumps_def
      with_payload_of_def)

lemma secded_valid_frame [simp]:
  "llps_session_secded_is_valid (with_payload_of d s) = llps_session_secded_is_valid s"
  "llps_session_secded_is_valid (s\<lparr>se_integrity_crc := x\<rparr>) = llps_session_secded_is_valid s"
  "llps_session_secded_is_valid (s\<lparr>se_integrity_crc_inverse := x\<rparr>) = llps_session_secded_is_valid s"
  by (simp_all add: llps_session_secded_is_valid_def with_payload_of_def)

lemma local_integrity_payload [simp]:
  "llps_session_local_integrity_is_valid (with_payload_of d s) = llps_session_local_integrity_is_valid s"
  unfolding local_integrity_iff compute_crc_frame secded_valid_frame by (simp add: with_payload_of_def)

lemma reconcile_local_restores:
  assumes valid: "llps_session_local_integrity_is_valid s"
    and pumps: "se_pump_c2s d = se_pump_c2s s" "se_pump_s2c d = se_pump_s2c s"
  shows "\<exists>sc'. session_reconcile_local (llps_session_tmr_snapshot_from_session s) d sc = (True, with_payload_of d s, sc')"
proof -
  obtain ok r sc' where r: "llps_session_repair_secded d sc = (ok, r, sc')" by (metis prod_cases3)
  note frame = repair_frame [OF r]
  note facts = local_integrity_facts [OF valid]
  have p: "with_payload_of r s = with_payload_of d s" using frame by (simp add: with_payload_of_def)
  have pr: "se_pump_c2s r = se_pump_c2s s" "se_pump_s2c r = se_pump_s2c s" using frame pumps by simp_all
  have "(with_payload_of d s)\<lparr>se_integrity_crc := llps_session_compute_crc s,
      se_integrity_crc_inverse := NOT (llps_session_compute_crc s)\<rparr> = with_payload_of d s"
    using facts(14,15) by (simp add: with_payload_of_def)
  then show ?thesis
    unfolding session_reconcile_local_def r
    using facts(15) valid
    by (simp add: apply_or_same [OF valid pr] p Let_def) (simp add: llps_session_tmr_snapshot_from_session_def)
qed

section \<open>The state of the server\<close>

definition sv_shape :: "server_state \<Rightarrow> bool" where
  "sv_shape sv \<longleftrightarrow> regions_shape (sv_regions sv) \<and> length (sv_sessions sv) = unat LLPS_MAX_CLIENTS"

text \<open>
  Session \<open>n\<close> is sealed: it passes its own checks, carries its index, and all three banks store its
  snapshot.
\<close>

definition session_sealed :: "nat \<Rightarrow> server_state \<Rightarrow> bool" where
  "session_sealed n sv \<longleftrightarrow> llps_session_local_integrity_is_valid (sv_session n sv) \<and>
     se_session_id (sv_session n sv) = of_nat n \<and>
     (\<forall>i < 3. bank_stores (of_nat n) i (sv_regions sv ! i) (llps_session_tmr_snapshot_from_session (sv_session n sv)))"

text \<open>All checks of a session that do not concern check bytes and checksum.\<close>

definition session_consistent :: "u32 \<Rightarrow> llps_session_t \<Rightarrow> bool" where
  "session_consistent n s \<longleftrightarrow> se_session_id s = n \<and> se_state_inverse s = llps_state_inverse_value (se_state s) \<and>
     llps_state_is_valid (se_state s) \<and>
     se_magic_start s = llps_magic_for_state (se_state s) \<and> se_magic_end s = llps_magic_for_state (se_state s) \<and>
     se_request_no_inverse s = NOT (se_request_no s) \<and> llps_close_reason_is_valid (se_close_reason s) \<and>
     se_close_reason_inverse s = NOT (se_close_reason s) \<and>
     se_client_port_inverse s = NOT (ucast (se_client_port s)) \<and>
     se_c2s_payload_ecc_len s \<le> LLPS_BUFFER_SIZE \<and> se_s2c_payload_ecc_len s \<le> LLPS_BUFFER_SIZE \<and>
     se_c2s_payload_ecc_len_inverse s = NOT (se_c2s_payload_ecc_len s) \<and>
     se_s2c_payload_ecc_len_inverse s = NOT (se_s2c_payload_ecc_len s)"

lemma sealed_consistent: "session_sealed n sv \<Longrightarrow> session_consistent (of_nat n) (sv_session n sv)"
  using local_integrity_facts [of "sv_session n sv"] by (simp add: session_sealed_def session_consistent_def)

lemma cfg_held_max_clients:
  assumes "cfg_held k cfg env"
  shows "max_clients cfg \<le> LLPS_MAX_CLIENTS" "0 < max_clients cfg"
proof -
  obtain i :: nat where "i < 3" "i \<noteq> k" using other_two by blast
  then have "llps_runtime_cfg_values_are_valid cfg" using assms rcfg.valid_ok unfolding cfg_held_def by metis
  then show "max_clients cfg \<le> LLPS_MAX_CLIENTS" "0 < max_clients cfg"
    by (auto simp: llps_runtime_cfg_values_are_valid_def llps_runtime_cfg_core_limits_are_valid_def word_gt_0
        split: if_splits)
qed

lemma sv_frame [simp]:
  "sv_session m (sv_set_counters sc sv) = sv_session m sv"
  "sv_regions (sv_set_counters sc sv) = sv_regions sv"
  "sv_sessions (sv_set_counters sc sv) = sv_sessions sv"
  "sv_free (sv_set_counters sc sv) = sv_free sv"
  "sv_cfg (sv_set_counters sc sv) = sv_cfg sv"
  "sv_counters (sv_set_counters sc sv) = sc"
  "sv_set_counters sc (sv_set_counters sc' sv) = sv_set_counters sc sv"
  "sv_regions (sv_put_session n s sv) = sv_regions sv"
  "sv_free (sv_put_session n s sv) = sv_free sv"
  "sv_cfg (sv_put_session n s sv) = sv_cfg sv"
  "sv_counters (sv_put_session n s sv) = sv_counters sv"
  "sv_rs (sv_put_session n s sv) = sv_rs sv"
  "length (sv_sessions (sv_put_session n s sv)) = length (sv_sessions sv)"
  "n \<noteq> m \<Longrightarrow> sv_session m (sv_put_session n s sv) = sv_session m sv"
  "sv_session m (sv\<lparr>sv_regions := regions\<rparr>) = sv_session m sv"
  "sv_session m (sv\<lparr>sv_rs := rs\<rparr>) = sv_session m sv"
  "sv_put_session n s (sv\<lparr>sv_regions := regions\<rparr>) = (sv_put_session n s sv)\<lparr>sv_regions := regions\<rparr>"
  "sv_put_session n s (sv_set_counters sc sv) = sv_set_counters sc (sv_put_session n s sv)"
  "cfg_held k cfg (rs_env (sv_rs (sv_set_counters sc sv))) = cfg_held k cfg (rs_env (sv_rs sv))"
  "env_free_banks (rs_env (sv_rs (sv_set_counters sc sv))) = env_free_banks (rs_env (sv_rs sv))"
  "rs_control (sv_rs (sv_set_counters sc sv)) = rs_control (sv_rs sv)"
  "env_runtime_cfg (rs_env (sv_rs (sv_set_counters sc sv))) = env_runtime_cfg (rs_env (sv_rs sv))"
  by (simp_all add: sv_session_def sv_set_counters_def sv_put_session_def sv_cfg_def sv_counters_def cfg_held_def)

lemma sv_session_put [simp]: "n < length (sv_sessions sv) \<Longrightarrow> sv_session n (sv_put_session n s sv) = s"
  by (simp add: sv_session_def sv_put_session_def)

lemma snapshot_of_sound:
  assumes "session_consistent n s"
  shows "snapshot_ok n (llps_session_tmr_snapshot_from_session s)"
  using assms by (simp add: snapshot_ok_def session_consistent_def llps_session_tmr_snapshot_from_session_def)

lemma snapshot_with_payload [simp]:
  "llps_session_tmr_snapshot_from_session (with_payload_of d s) = llps_session_tmr_snapshot_from_session s"
  "se_session_id (with_payload_of d s) = se_session_id s"
  "se_state (with_payload_of d s) = se_state s"
  by (simp_all add: llps_session_tmr_snapshot_from_session_def with_payload_of_def)

text \<open>A write to one slot does not touch the others.\<close>

lemma slot_put_other [simp]: "n \<noteq> m \<Longrightarrow> slot_record m (put_record n rec region) = slot_record m region"
  by (simp add: put_record_def word_unat_eq_iff)

lemma bank_stores_other:
  assumes "bank_stores m i region s" "region_shape region" "ss_session_id t \<noteq> m"
  shows "bank_stores m i (written_region i t region) s"
  using assms init_region_guarded [OF assms(2)]
  by (auto simp: bank_stores_def written_region_def)

lemma bank_stores_repaired_other:
  assumes "bank_stores m i region s" "n \<noteq> m"
  shows "bank_stores m i (repaired_region n i region) s"
  using assms by (auto simp: bank_stores_def repaired_region_def)

lemma bank_stores_voted_other:
  assumes "bank_stores m i (regions ! i) s" "region_shape (regions ! i)" "ss_session_id t = n" "n \<noteq> m"
  shows "bank_stores m i (voted_region n regions t i) s"
  using bank_stores_other [OF bank_stores_repaired_other [OF assms(1,4)], of t] bank_stores_repaired_other [OF assms(1,4)]
    assms by (simp add: voted_region_def)

lemma of_nat_eq_iff_small: "n < 256 \<Longrightarrow> m < 256 \<Longrightarrow> (of_nat n :: u32) = of_nat m \<longleftrightarrow> n = m"
  by (auto dest!: arg_cong [of _ _ unat] simp: unat_of_nat)

section \<open>Sealing\<close>

text \<open>The session a refresh leaves.\<close>

definition sealed_session :: "llps_session_t \<Rightarrow> llps_session_t" where
  "sealed_session s =
     (let s = llps_session_refresh_secded s
      in s\<lparr>se_integrity_crc := llps_session_compute_crc s, se_integrity_crc_inverse := NOT (llps_session_compute_crc s)\<rparr>)"

lemma sealed_session_valid:
  assumes "session_consistent n s"
  shows "llps_session_local_integrity_is_valid (sealed_session s)" "se_session_id (sealed_session s) = n"
proof -
  have "llps_session_secded_is_valid (sealed_session s)"
    by (simp add: sealed_session_def Let_def refresh_secded_is_valid)
  moreover have "llps_session_compute_crc (sealed_session s) = se_integrity_crc (sealed_session s)"
    by (simp add: sealed_session_def Let_def)
  ultimately show "llps_session_local_integrity_is_valid (sealed_session s)"
    using assms unfolding local_integrity_iff
    by (simp add: session_consistent_def) (simp add: sealed_session_def Let_def llps_session_refresh_secded_def)
  show "se_session_id (sealed_session s) = n"
    using assms by (simp add: sealed_session_def Let_def llps_session_refresh_secded_def session_consistent_def)
qed

lemma refresh_crc_eq:
  "\<exists>sc. llps_session_refresh_crc n sv =
     (sv_set_counters sc (sv_put_session n (sealed_session (sv_session n sv)) sv))\<lparr>sv_regions :=
        fst (llps_session_tmr_write_all (llps_session_tmr_snapshot_from_session (sealed_session (sv_session n sv)))
          (sv_regions sv, sv_counters sv))\<rparr>"
proof -
  have s: "(llps_session_refresh_secded (sv_session n sv))\<lparr>
      se_integrity_crc := llps_session_compute_crc (llps_session_refresh_secded (sv_session n sv)),
      se_integrity_crc_inverse := NOT (llps_session_compute_crc (llps_session_refresh_secded (sv_session n sv)))\<rparr> =
    sealed_session (sv_session n sv)" by (simp add: sealed_session_def Let_def)
  show ?thesis
    by (simp add: llps_session_refresh_crc_def Let_def llps_session_tmr_write_all_from_session_def sv_write_banks_def s
        split: prod.split) blast
qed

lemma refresh_crc_seals:
  assumes shape: "sv_shape sv" and n: "n < unat LLPS_MAX_CLIENTS" and s: "session_consistent (of_nat n) (sv_session n sv)"
  defines "sv' \<equiv> llps_session_refresh_crc n sv"
  shows "session_sealed n sv'" "sv_shape sv'" "sv_session n sv' = sealed_session (sv_session n sv)"
    "m \<noteq> n \<Longrightarrow> sv_session m sv' = sv_session m sv"
    "m \<noteq> n \<Longrightarrow> m < unat LLPS_MAX_CLIENTS \<Longrightarrow> session_sealed m sv \<Longrightarrow> session_sealed m sv'"
    "\<exists>sc. sv_rs sv' = sv_rs (sv_set_counters sc sv)" "sv_free sv' = sv_free sv"
proof -
  let ?s = "sealed_session (sv_session n sv)"
  let ?t = "llps_session_tmr_snapshot_from_session ?s"
  note valid = sealed_session_valid [OF s]
  have len: "length (sv_regions sv) = 3" "\<And>i. i < 3 \<Longrightarrow> region_shape (sv_regions sv ! i)"
    and lens: "n < length (sv_sessions sv)"
    using shape n by (simp_all add: sv_shape_def regions_shape_def)
  have u: "(of_nat n :: u32) < LLPS_MAX_CLIENTS" using n by (simp add: word_less_nat_alt unat_of_nat)
  have id: "ss_session_id ?t = of_nat n" using valid(2) by (simp add: llps_session_tmr_snapshot_from_session_def)
  have ok: "snapshot_ok (of_nat n) ?t"
    using local_integrity_facts [OF valid(1)] valid(2)
    by (simp add: snapshot_ok_def llps_session_tmr_snapshot_from_session_def)
  have w: "fst (llps_session_tmr_write_all ?t (sv_regions sv, sv_counters sv)) =
      map (\<lambda>i. written_region i ?t (sv_regions sv ! i)) [0..<3]"
    by (rule write_all_regions) (simp_all add: id u len)
  obtain sc where sv': "sv' = (sv_set_counters sc (sv_put_session n ?s sv))\<lparr>sv_regions :=
      map (\<lambda>i. written_region i ?t (sv_regions sv ! i)) [0..<3]\<rparr>"
    using refresh_crc_eq [of n sv] unfolding sv'_def w by blast
  have stores: "bank_stores (of_nat n) i (written_region i ?t (sv_regions sv ! i)) ?t"
    "region_shape (written_region i ?t (sv_regions sv ! i))" if "i < 3" for i
    using written_region_stores [OF len(2) [OF that] ok u] by blast+
  show s': "sv_session n sv' = ?s" using lens by (simp add: sv')
  show "session_sealed n sv'" unfolding session_sealed_def s' using valid stores by (simp add: sv')
  show "sv_shape sv'" using shape stores by (simp add: sv' sv_shape_def regions_shape_def)
  show other: "sv_session m sv' = sv_session m sv" if "m \<noteq> n" for m using that by (simp add: sv')
  show "session_sealed m sv'" if "m \<noteq> n" "m < unat LLPS_MAX_CLIENTS" "session_sealed m sv"
  proof -
    have "(of_nat n :: u32) \<noteq> of_nat m" using that(1,2) n by (simp add: of_nat_eq_iff_small)
    then show ?thesis
      using that(3) unfolding session_sealed_def other [OF that(1)]
      by (simp add: sv' bank_stores_other len(2) id)
  qed
  show "\<exists>sc. sv_rs sv' = sv_rs (sv_set_counters sc sv)"
    by (rule exI [of _ sc]) (simp add: sv' sv_set_counters_def sv_put_session_def)
  show "sv_free sv' = sv_free sv" by (simp add: sv')
qed

section \<open>Reconciling with the banks\<close>

lemma sv_reconcile_cfg_held:
  assumes "cfg_held k cfg (rs_env (sv_rs sv))"
  shows "\<exists>rs'. sv_reconcile_cfg sv = (True, sv\<lparr>sv_rs := rs'\<rparr>) \<and> cfg_held 3 cfg (rs_env rs') \<and>
    env_runtime_cfg (rs_env rs') = cfg \<and> env_free_banks (rs_env rs') = env_free_banks (rs_env (sv_rs sv)) \<and>
    rs_control rs' = rs_control (sv_rs sv)"
  using reconcile_cfg_held [OF assms] by (auto simp: sv_reconcile_cfg_def)

text \<open>What a reconciliation keeps: the rest of the server.\<close>

definition reconciled_from :: "llps_yml_config_t \<Rightarrow> nat \<Rightarrow> server_state \<Rightarrow> server_state \<Rightarrow> bool" where
  "reconciled_from cfg n sv sv' \<longleftrightarrow> sv_shape sv' \<and> cfg_held 3 cfg (rs_env (sv_rs sv')) \<and> sv_cfg sv' = cfg \<and>
     env_free_banks (rs_env (sv_rs sv')) = env_free_banks (rs_env (sv_rs sv)) \<and> sv_free sv' = sv_free sv \<and>
     rs_control (sv_rs sv') = rs_control (sv_rs sv) \<and>
     (\<forall>m. m \<noteq> n \<longrightarrow> sv_session m sv' = sv_session m sv) \<and>
     (\<forall>m. m \<noteq> n \<longrightarrow> m < unat LLPS_MAX_CLIENTS \<longrightarrow> session_sealed m sv \<longrightarrow> session_sealed m sv')"

lemma reconcile_restores:
  assumes cfg: "cfg_held k cfg (rs_env (sv_rs sv))" and n: "n < unat (max_clients cfg)" and shape: "sv_shape sv"
    and s: "llps_session_local_integrity_is_valid s" "se_session_id s = of_nat n"
    and pumps: "se_pump_c2s (sv_session n sv) = se_pump_c2s s" "se_pump_s2c (sv_session n sv) = se_pump_s2c s"
    and banks: "i < 3" "j < 3" "i \<noteq> j"
      "bank_holds (of_nat n) i (sv_regions sv ! i) (llps_session_tmr_snapshot_from_session s)"
      "bank_holds (of_nat n) j (sv_regions sv ! j) (llps_session_tmr_snapshot_from_session s)"
  shows "\<exists>sv'. llps_session_reconcile_integrity n sv = (Some (llps_session_tmr_snapshot_from_session s), sv') \<and>
    sv_session n sv' = with_payload_of (sv_session n sv) s \<and> session_sealed n sv' \<and> reconciled_from cfg n sv sv'"
proof -
  let ?t = "llps_session_tmr_snapshot_from_session s"
  have max: "n < 256" "unat (max_clients cfg) \<le> 256"
    using n cfg_held_max_clients(1) [OF cfg] by (simp_all add: word_le_nat_alt)
  have u: "(of_nat n :: u32) < max_clients cfg" using n max by (simp add: word_less_nat_alt unat_of_nat)
  have idx: "llps_session_index_from_ptr n = Some (of_nat n)" using max by (simp add: llps_session_index_from_ptr_def)
  have regions: "regions_shape (sv_regions sv)" "length (sv_sessions sv) = 256" using shape by (simp_all add: sv_shape_def)
  obtain rs' where rs': "sv_reconcile_cfg sv = (True, sv\<lparr>sv_rs := rs'\<rparr>)" "cfg_held 3 cfg (rs_env rs')"
    "env_runtime_cfg (rs_env rs') = cfg" "env_free_banks (rs_env rs') = env_free_banks (rs_env (sv_rs sv))"
    "rs_control rs' = rs_control (sv_rs sv)"
    using sv_reconcile_cfg_held [OF cfg] by blast
  let ?sv = "sv\<lparr>sv_rs := rs'\<rparr>"
  obtain restored sc1 where v: "llps_session_tmr_vote (of_nat n) (max_clients cfg) (sv_regions sv, sv_counters ?sv) =
      (Some ?t, restored, sc1)" "regions_shape restored"
      "restored = map (voted_region (of_nat n) (sv_regions sv) ?t) [0..<3]"
      "\<And>i. i < 3 \<Longrightarrow> bank_stores (of_nat n) i (restored ! i) ?t"
    using vote_two_hold [OF u cfg_held_max_clients(1) [OF cfg] regions(1) banks, of "sv_counters ?sv"] by auto
  obtain sc2 where l: "session_reconcile_local ?t (sv_session n sv) sc1 = (True, with_payload_of (sv_session n sv) s, sc2)"
    using reconcile_local_restores [OF s(1) pumps] by blast
  define sv' where "sv' = (sv_set_counters sc2 (sv_put_session n (with_payload_of (sv_session n sv) s) ?sv))\<lparr>sv_regions := restored\<rparr>"
  have r: "llps_session_reconcile_integrity n sv = (Some ?t, sv')"
    using rs'(3) by (simp add: llps_session_reconcile_integrity_def rs'(1) idx sv_cfg_def v(1) l sv'_def sv_set_counters_def sv_put_session_def)
  have s': "sv_session n sv' = with_payload_of (sv_session n sv) s"
    using max(1) regions(2) by (simp add: sv'_def)
  have other: "sv_session m sv' = sv_session m sv" if "m \<noteq> n" for m using that by (simp add: sv'_def)
  have sealed: "session_sealed n sv'"
    unfolding session_sealed_def s' using s v(4) by (simp add: sv'_def)
  have sealed_other: "session_sealed m sv'" if m: "m \<noteq> n" "m < unat LLPS_MAX_CLIENTS" "session_sealed m sv" for m
  proof -
    have "(of_nat n :: u32) \<noteq> of_nat m" using m(1,2) max(1) by (simp add: of_nat_eq_iff_small)
    moreover have "region_shape (sv_regions sv ! i)" if "i < 3" for i using that regions by (simp add: regions_shape_def)
    moreover have "ss_session_id ?t = of_nat n" using s(2) by (simp add: llps_session_tmr_snapshot_from_session_def)
    ultimately have "bank_stores (of_nat m) i (voted_region (of_nat n) (sv_regions sv) ?t i) t"
      if "i < 3" "bank_stores (of_nat m) i (sv_regions sv ! i) t" for i t
      using that bank_stores_voted_other [of "of_nat m" i "sv_regions sv" t ?t "of_nat n"] by blast
    then show ?thesis using m(3) unfolding session_sealed_def other [OF m(1)] by (simp add: sv'_def v(3))
  qed
  have "reconciled_from cfg n sv sv'"
    unfolding reconciled_from_def
    using rs' v(2) regions(2) other sealed_other
    by (simp add: sv'_def sv_shape_def sv_cfg_def sv_put_session_def sv_set_counters_def cfg_held_def)
  with r s' sealed show ?thesis by blast
qed

lemma bank_stores_holds_sealed:
  "session_sealed n sv \<Longrightarrow> i < 3 \<Longrightarrow>
     bank_holds (of_nat n) i (sv_regions sv ! i) (llps_session_tmr_snapshot_from_session (sv_session n sv))"
  unfolding session_sealed_def by (blast intro: bank_stores_holds(1))

lemma with_own_payload [simp]: "with_payload_of s s = s"
  by (simp add: with_payload_of_def)

lemma reconcile_sealed:
  assumes "cfg_held k cfg (rs_env (sv_rs sv))" "n < unat (max_clients cfg)" "sv_shape sv" "session_sealed n sv"
  shows "\<exists>sv'. llps_session_reconcile_integrity n sv =
      (Some (llps_session_tmr_snapshot_from_session (sv_session n sv)), sv') \<and>
    sv_session n sv' = sv_session n sv \<and> session_sealed n sv' \<and> reconciled_from cfg n sv sv'"
  using reconcile_restores [OF assms(1-3), of "sv_session n sv" 0 1] assms(4)
    bank_stores_holds_sealed [OF assms(4), of 0] bank_stores_holds_sealed [OF assms(4), of 1]
  by (auto simp: session_sealed_def)

section \<open>Properties\<close>

text \<open>
  C8: The metadata of a session cannot be lost to upsets. Start from a sealed session and change its
  record in the session table in any way (every word, check byte, canary and checksum, but not the
  arguments of its pumps), overwrite one memory region with anything, flip one bit in every
  protected word of the two other records, and lose one bank of the configuration: reconciling
  succeeds, returns the sealed snapshot, restores the whole record in the table and in all banks, and
  changes no other session.
\<close>

theorem session_metadata_restored:
  assumes "sv_shape sv" "session_sealed n sv"
    and "cfg_held k cfg (rs_env (sv_rs sv'))" "n < unat (max_clients cfg)" "sv_shape sv'"
    and "se_pump_c2s (sv_session n sv') = se_pump_c2s (sv_session n sv)"
      "se_pump_s2c (sv_session n sv') = se_pump_s2c (sv_session n sv)"
    and "\<And>i. i < 3 \<Longrightarrow> i \<noteq> j \<Longrightarrow> llps_session_tmr_region_guard_is_valid (of_nat i) (sv_regions sv' ! i) \<and>
      record_upset (sr_records (sv_regions sv ! i) ! unat (of_nat n :: u32))
        (sr_records (sv_regions sv' ! i) ! unat (of_nat n :: u32))"
  shows "\<exists>sv''. llps_session_reconcile_integrity n sv' =
      (Some (llps_session_tmr_snapshot_from_session (sv_session n sv)), sv'') \<and>
    sv_session n sv'' = with_payload_of (sv_session n sv') (sv_session n sv) \<and> session_sealed n sv'' \<and>
    (\<forall>m. m \<noteq> n \<longrightarrow> sv_session m sv'' = sv_session m sv')"
proof -
  obtain a b :: nat where ab: "a < 3" "b < 3" "a \<noteq> b" "a \<noteq> j" "b \<noteq> j" using other_two by blast
  have "bank_holds (of_nat n) i (sv_regions sv' ! i) (llps_session_tmr_snapshot_from_session (sv_session n sv))"
    if "i < 3" "i \<noteq> j" for i
    using assms(8) [OF that] assms(2) that bank_holds_upset(1) [of i "sv_regions sv' ! i"]
    by (auto simp: session_sealed_def bank_stores_def)
  then show ?thesis
    using reconcile_restores [OF assms(3-5), of "sv_session n sv" a b] assms(2,6,7) ab
    by (auto simp: session_sealed_def reconciled_from_def)
qed

lemma free_fields_consistent: "session_consistent n (session_free_fields n s)"
  by (simp add: session_consistent_def session_free_fields_def session_clear_transfer_def Let_def
      llps_session_set_state_fields_def llps_state_is_valid_def llps_close_reason_is_valid_def)

lemma active_fields_consistent:
  "session_consistent n (session_active_fields n client_fd client_ip client_port request_no now s)"
  by (simp add: session_consistent_def session_active_fields_def session_clear_transfer_def Let_def
      llps_session_set_state_fields_def llps_state_is_valid_def llps_close_reason_is_valid_def)

lemma now_checked_eq: "llps_llam_now_ns_checked now rs = (now, if now = 0 then llps_contract_violation rs else rs)"
  by (simp add: llps_llam_now_ns_checked_def)

lemma sv_put_shape [simp]: "sv_shape (sv_put_session n s sv) = sv_shape sv" "sv_shape (sv\<lparr>sv_rs := rs\<rparr>) = sv_shape sv"
  "length (sv_sessions (sv\<lparr>sv_rs := rs\<rparr>)) = length (sv_sessions sv)"
  by (simp_all add: sv_shape_def sv_put_session_def)

lemma sv_shape_length: "sv_shape sv \<Longrightarrow> length (sv_sessions sv) = 256"
  by (simp add: sv_shape_def)

text \<open>Opening and freeing a session seal it; the others keep their seals.\<close>

lemma sealed_put_other:
  assumes "m \<noteq> n" shows "session_sealed m (sv_put_session n s sv) = session_sealed m sv"
  using assms by (simp add: session_sealed_def)

lemma sealed_rs [simp]: "session_sealed m (sv\<lparr>sv_rs := rs\<rparr>) = session_sealed m sv"
  by (simp add: session_sealed_def)

lemma put_refresh_seals:
  assumes shape: "sv_shape sv" and n: "n < 256" and s: "session_consistent (of_nat n) s"
  defines "sv' \<equiv> llps_session_refresh_crc n (sv_put_session n s sv)"
  shows "session_sealed n sv'" "sv_shape sv'" "sv_session n sv' = sealed_session s"
    "m \<noteq> n \<Longrightarrow> sv_session m sv' = sv_session m sv"
    "m \<noteq> n \<Longrightarrow> m < 256 \<Longrightarrow> session_sealed m sv \<Longrightarrow> session_sealed m sv'"
    "\<exists>sc. sv_rs sv' = sv_rs (sv_set_counters sc sv)" "sv_free sv' = sv_free sv"
proof -
  let ?sv = "sv_put_session n s sv"
  have sv: "sv_shape ?sv" "sv_session n ?sv = s" using shape n by (simp_all add: sv_shape_length)
  note r = refresh_crc_seals [OF sv(1), of n]
  show "session_sealed n sv'" "sv_shape sv'" "sv_session n sv' = sealed_session s" "sv_free sv' = sv_free sv"
    unfolding sv'_def using r(1-3,7) n s sv(2) by simp_all
  show "m \<noteq> n \<Longrightarrow> sv_session m sv' = sv_session m sv"
    unfolding sv'_def using r(4) [of m] n s sv(2) by simp
  show "m \<noteq> n \<Longrightarrow> m < 256 \<Longrightarrow> session_sealed m sv \<Longrightarrow> session_sealed m sv'"
    unfolding sv'_def using r(5) [of m] n s sv(2) by (simp add: sealed_put_other)
  show "\<exists>sc. sv_rs sv' = sv_rs (sv_set_counters sc sv)"
    unfolding sv'_def using r(6) n s sv(2) by (simp add: sv_set_counters_def)
qed

text \<open>An example: slot 5 of a fresh server is opened for a client on descriptor 7.\<close>

definition sample_server :: server_state where
  "sample_server = \<lparr>sv_rs = rate_rs sample_rate_state, sv_sessions = replicate 256 blank_session,
     sv_regions = [sample_region, sample_region, sample_region], sv_free = (replicate 256 0, 0)\<rparr>"

definition sample_open :: server_state where
  "sample_open = llps_session_prepare_active_with_peer 5 5 7 None 80 1 9 sample_server"

lemma sample_server_shape: "sv_shape sample_server"
  by (simp add: sv_shape_def sample_server_def sample_shape)

lemma sample_open_eq:
  "sample_open = llps_session_refresh_crc 5 (sv_put_session 5
     (session_active_fields 5 7 None 80 1 9 (sv_session 5 sample_server)) sample_server)"
  by (simp add: sample_open_def llps_session_prepare_active_with_peer_def now_checked_eq)

lemma sample_open_sealed: "session_sealed 5 sample_open" "sv_shape sample_open"
    "cfg_held 0 limited_cfg (rs_env (sv_rs sample_open))"
    "sv_session 5 sample_open = sealed_session (session_active_fields 5 7 None 80 1 9 (sv_session 5 sample_server))"
proof -
  have c: "session_consistent (of_nat 5) (session_active_fields 5 7 None 80 1 9 (sv_session 5 sample_server))"
    by (simp add: active_fields_consistent)
  note r = put_refresh_seals [OF sample_server_shape _ c]
  show "session_sealed 5 sample_open" "sv_shape sample_open"
    "sv_session 5 sample_open = sealed_session (session_active_fields 5 7 None 80 1 9 (sv_session 5 sample_server))"
    unfolding sample_open_eq using r(1-3) by simp_all
  obtain sc where "sv_rs sample_open = sv_rs (sv_set_counters sc sample_server)"
    unfolding sample_open_eq using r(6) by auto
  moreover have "cfg_held 0 limited_cfg (rs_env (sv_rs sample_server))"
    using sample_cfg_held by (simp add: sample_server_def)
  ultimately show "cfg_held 0 limited_cfg (rs_env (sv_rs sample_open))" by simp
qed

lemma session_fields_of_sample:
  "se_state (sv_session 5 sample_open) = ST_ACTIVE" "se_client_fd (sv_session 5 sample_open) = 7"
  "se_last_activity_ns (sv_session 5 sample_open) = 9"
  by (simp_all add: sample_open_sealed(4) sealed_session_def Let_def llps_session_refresh_secded_def
      session_active_fields_def llps_session_set_state_fields_def session_clear_transfer_def)

theorem session_metadata_restored_witness:
  "let s = sv_session 5 sample_open; d = s\<lparr>se_state := 0x1234, se_client_fd := 99, se_magic_end := 0\<rparr>;
       sv = sv_put_session 5 d sample_open
   in \<exists>sv''. llps_session_reconcile_integrity 5 (sv\<lparr>sv_regions := (sv_regions sample_open)[2 := sample_region]\<rparr>) =
        (Some (llps_session_tmr_snapshot_from_session s), sv'') \<and> sv_session 5 sv'' = s"
proof -
  let ?s = "sv_session 5 sample_open"
  let ?d = "?s\<lparr>se_state := 0x1234, se_client_fd := 99, se_magic_end := 0\<rparr>"
  let ?sv = "(sv_put_session 5 ?d sample_open)\<lparr>sv_regions := (sv_regions sample_open)[2 := sample_region]\<rparr>"
  have "region_shape sample_region" using sample_shape unfolding regions_shape_def by (metis nth_Cons_0 zero_less_numeral)
  then have shape: "sv_shape ?sv"
    using sample_open_sealed(2) by (simp add: sv_shape_def regions_shape_def nth_list_update sv_put_session_def)
  have d: "sv_session 5 ?sv = ?d" using sample_open_sealed(2) by (simp add: sv_shape_length)
  have g: "guarded i (sv_regions sample_open ! i)" if "i < 3" for i
    using sample_open_sealed(1) that by (auto simp: session_sealed_def bank_stores_def)
  have "\<exists>sv''. llps_session_reconcile_integrity 5 ?sv =
      (Some (llps_session_tmr_snapshot_from_session ?s), sv'') \<and>
    sv_session 5 sv'' = with_payload_of (sv_session 5 ?sv) ?s \<and> session_sealed 5 sv'' \<and>
    (\<forall>m. m \<noteq> 5 \<longrightarrow> sv_session m sv'' = sv_session m ?sv)"
    by (rule session_metadata_restored [OF sample_open_sealed(2,1), where j = 2 and k = 0 and cfg = limited_cfg])
      (use sample_open_sealed(3) shape d g in \<open>auto simp: limited_cfg_def example_cfg_def\<close>)
  then show ?thesis unfolding Let_def d by (auto simp: with_payload_of_def)
qed

lemma vote_sound:
  assumes "regions_shape regions" "llps_session_tmr_vote n client_count (regions, sc) = (Some s, regions', sc')"
  shows "n < client_count" "client_count \<le> LLPS_MAX_CLIENTS" "regions_shape regions'" "snapshot_ok n s"
    "i < 3 \<Longrightarrow> bank_stores n i (regions' ! i) s"
proof -
  show n: "n < client_count" "client_count \<le> LLPS_MAX_CLIENTS"
    using assms(2) by (auto simp: llps_session_tmr_vote_def not_le split: if_splits)
  have len: "length regions = 3" using assms(1) by (simp add: regions_shape_def)
  have "session_voted n (bank_views n regions) = Some s"
    using vote_eq [OF n len, of sc] assms(2) by (auto split: option.splits)
  then obtain a b where ab: "a < 3" "b < 3" "a \<noteq> b" "bank_holds n a (regions ! a) s" "bank_holds n b (regions ! b) s"
    unfolding session_voted_iff by blast
  show "snapshot_ok n s" using ab(4) by (rule bank_holds_ok)
  show "regions_shape regions'" "i < 3 \<Longrightarrow> bank_stores n i (regions' ! i) s"
    using vote_two_hold [OF n assms(1) ab, of sc] assms(2) by auto
qed

lemma reconcile_local_sound:
  assumes "session_reconcile_local t d sc = (True, s, sc')"
  shows "llps_session_local_integrity_is_valid s" "llps_session_tmr_snapshot_from_session s = t"
proof -
  obtain ok r sc1 where r: "llps_session_repair_secded d sc = (ok, r, sc1)" by (metis prod_cases3)
  define x where "x = llps_session_refresh_secded
    (if llps_session_snapshot_differs r t ok then llps_session_apply_tmr_snapshot t r else r)"
  have e: "session_reconcile_local t d sc =
      (if llps_session_compute_crc x \<noteq> ss_session_crc t then (False, x, sc1)
       else (llps_session_local_integrity_is_valid (x\<lparr>se_integrity_crc := llps_session_compute_crc x,
               se_integrity_crc_inverse := NOT (llps_session_compute_crc x)\<rparr>),
             x\<lparr>se_integrity_crc := llps_session_compute_crc x,
               se_integrity_crc_inverse := NOT (llps_session_compute_crc x)\<rparr>, sc1))"
    by (simp add: session_reconcile_local_def r x_def Let_def)
  have crc: "llps_session_compute_crc x = ss_session_crc t" and s: "s = x\<lparr>se_integrity_crc := llps_session_compute_crc x,
      se_integrity_crc_inverse := NOT (llps_session_compute_crc x)\<rparr>" and v: "llps_session_local_integrity_is_valid s"
    using assms unfolding e by (auto split: if_splits)
  show "llps_session_local_integrity_is_valid s" by (rule v)
  have "llps_session_tmr_snapshot_from_session (x\<lparr>se_integrity_crc := ss_session_crc t\<rparr>) = t"
    by (cases "llps_session_snapshot_differs r t ok")
      (simp_all add: x_def llps_session_refresh_secded_def llps_session_apply_tmr_snapshot_def
        llps_session_tmr_snapshot_from_session_def, auto simp: llps_session_snapshot_differs_def split: if_splits)
  then show "llps_session_tmr_snapshot_from_session s = t"
    unfolding s crc by (simp add: llps_session_tmr_snapshot_from_session_def)
qed

text \<open>
  C12: Reconciling a session fails closed. Whatever is in the session table and in the memory regions,
  a snapshot is returned only if afterwards the session passes every check, agrees with the snapshot
  in every field including its checksum, and all three banks store that snapshot.
\<close>

theorem session_reconcile_sound:
  assumes "sv_shape sv" "n < unat LLPS_MAX_CLIENTS"
    and "llps_session_reconcile_integrity n sv = (Some s, sv')"
  shows "session_sealed n sv' \<and> llps_session_tmr_snapshot_from_session (sv_session n sv') = s \<and>
    ss_session_id s = of_nat n"
proof -
  obtain ok rs where c: "sv_reconcile_cfg sv = (ok, sv\<lparr>sv_rs := rs\<rparr>)"
    unfolding sv_reconcile_cfg_def by (cases "reconcile_cfg (sv_rs sv)") auto
  have idx: "llps_session_index_from_ptr n = Some (of_nat n)" using assms(2) by (simp add: llps_session_index_from_ptr_def)
  let ?sv = "sv\<lparr>sv_rs := rs\<rparr>"
  obtain voted regions sc where v: "llps_session_tmr_vote (of_nat n) (max_clients (sv_cfg ?sv))
      (sv_regions sv, sv_counters ?sv) = (voted, regions, sc)" by (metis prod_cases3)
  have ok: "ok" and voted: "voted \<noteq> None"
    using assms(3) by (auto simp: llps_session_reconcile_integrity_def c idx v split: bool.splits option.splits)
  then obtain t where t: "voted = Some t" by blast
  obtain ok2 d sc2 where l: "session_reconcile_local t (sv_session n sv) sc = (ok2, d, sc2)" by (metis prod_cases3)
  have r: "ok2" "t = s" "sv' = sv_put_session n d ((sv_set_counters sc2 ?sv)\<lparr>sv_regions := regions\<rparr>)"
    using assms(3) ok by (auto simp: llps_session_reconcile_integrity_def c idx v t l split: if_splits)
  note local_sound = reconcile_local_sound [OF l [unfolded r(1) [THEN eqTrueI]]]
  have "regions_shape (sv_regions sv)" using assms(1) by (simp add: sv_shape_def)
  note vs = vote_sound [OF this v [unfolded t]]
  have d: "sv_session n sv' = d" using assms(1,2) by (simp add: r(3) sv_shape_length)
  have id: "ss_session_id s = of_nat n" using vs(4) r(2) by (simp add: snapshot_ok_def)
  have "se_session_id d = of_nat n"
    using local_sound(2) id r(2) by (auto simp: llps_session_tmr_snapshot_from_session_def)
  then have "session_sealed n sv'"
    unfolding session_sealed_def d using local_sound vs(5) by (simp add: r(3))
  then show ?thesis using d local_sound(2) r(2) id by simp
qed

theorem session_reconcile_sound_witness:
  "\<exists>s sv'. llps_session_reconcile_integrity 5 sample_open = (Some s, sv') \<and> session_sealed 5 sv'"
proof -
  obtain sv' where "llps_session_reconcile_integrity 5 sample_open =
      (Some (llps_session_tmr_snapshot_from_session (sv_session 5 sample_open)), sv')"
    using reconcile_sealed [OF sample_open_sealed(3) _ sample_open_sealed(2,1)]
    by (auto simp: limited_cfg_def example_cfg_def)
  then show ?thesis using session_reconcile_sound [OF sample_open_sealed(2), of 5] by auto
qed

text \<open>
  C38: A refresh does not check what it seals. Between two full integrity checks a pump only looks at
  the words that \<^verbatim>\<open>llps_session_hot_path_is_active\<close> compares; when the client descriptor of a sealed
  active session is upset in that time, the hot-path test still passes, and a due activity update
  seals the wrong descriptor with new check bytes and checksum into all three banks: the three
  copies of the right one are gone.
\<close>

theorem session_touch_seals_upset:
  fixes fd :: c_int
  assumes "sv_shape sv" "n < unat LLPS_MAX_CLIENTS" "session_sealed n sv" "se_state (sv_session n sv) = ST_ACTIVE"
    and "now > se_last_activity_ns (sv_session n sv)" "now - se_last_activity_ns (sv_session n sv) > LLPS_NSEC_PER_SEC"
  defines "damaged \<equiv> (sv_session n sv)\<lparr>se_client_fd := fd\<rparr>"
  shows "llps_session_hot_path_is_active damaged \<and>
    session_sealed n (llps_session_touch n now (sv_put_session n damaged sv)) \<and>
    se_client_fd (sv_session n (llps_session_touch n now (sv_put_session n damaged sv))) = fd"
proof -
  let ?s = "sv_session n sv"
  have c: "session_consistent (of_nat n) (damaged\<lparr>se_last_activity_ns := now\<rparr>)"
    using sealed_consistent [OF assms(3)] by (simp add: session_consistent_def damaged_def)
  have n: "n < 256" using assms(2) by simp
  obtain rs where rs: "llps_llam_now_ns_checked now (sv_rs sv) = (now, rs)" by (simp add: now_checked_eq)
  have same: "sv_put_session n t ((sv_put_session n damaged sv)\<lparr>sv_rs := rs\<rparr>) = sv_put_session n t (sv\<lparr>sv_rs := rs\<rparr>)" for t
    by (simp add: sv_put_session_def)
  have touch: "llps_session_touch n now (sv_put_session n damaged sv) =
      llps_session_refresh_crc n (sv_put_session n (damaged\<lparr>se_last_activity_ns := now\<rparr>) (sv\<lparr>sv_rs := rs\<rparr>))"
    using assms(5,6) n sv_shape_length [OF assms(1)]
    by (simp add: llps_session_touch_def rs Let_def same) (simp add: damaged_def)
  have "sv_shape (sv\<lparr>sv_rs := rs\<rparr>)" using assms(1) by simp
  note seals = put_refresh_seals [OF this n c]
  have hot: "llps_session_hot_path_is_active damaged"
    using sealed_consistent [OF assms(3)] assms(4)
    by (simp add: llps_session_hot_path_is_active_def damaged_def session_consistent_def llps_magic_for_state_def)
  show ?thesis
    unfolding touch seals(3) using seals(1) hot
    by (simp add: sealed_session_def Let_def llps_session_refresh_secded_def damaged_def)
qed

theorem session_touch_seals_upset_witness:
  "se_client_fd (sv_session 5 (llps_session_touch 5 2000000009
     (sv_put_session 5 ((sv_session 5 sample_open)\<lparr>se_client_fd := 6\<rparr>) sample_open))) = 6"
  using session_touch_seals_upset [OF sample_open_sealed(2) _ sample_open_sealed(1), of 2000000009 6]
    session_fields_of_sample by simp

end
