(* ===== verification/Session_Pool.thy ===== *)
theory Session_Pool
  imports Session_State
begin

text \<open>
  The pool of sessions, from \<^verbatim>\<open>src/core/llps_state.c\<close>: the initial pool, taking a free slot, opening a
  session on it and closing it again. What other software decides is an argument: the scheduler check
  of the coroutine runtime, the results of \<^verbatim>\<open>close\<close>, and the audit log. Descriptors that are shut down are returned as a list.
\<close>

section \<open>Definitions\<close>

definition llps_fd_is_valid :: "c_int \<Rightarrow> bool" where
  "llps_fd_is_valid fd \<longleftrightarrow> 0 \<le> sint fd"

text \<open>Whether \<^verbatim>\<open>close\<close> reported success, and the descriptor afterwards; \<open>closes\<close> is the system call.\<close>

definition llps_close_connected_fd :: "(c_int \<Rightarrow> bool) \<Rightarrow> c_int \<Rightarrow> bool \<times> c_int" where
  "llps_close_connected_fd closes fd = (if llps_fd_is_valid fd then (closes fd, LLPS_INVALID_FD) else (True, fd))"

definition llps_force_shutdown_session_fds :: "llps_session_t \<Rightarrow> c_int list" where
  "llps_force_shutdown_session_fds sess =
     (if llps_fd_is_valid (se_client_fd sess) then [se_client_fd sess] else []) @
     (if llps_fd_is_valid (se_backend_fd sess) then [se_backend_fd sess] else [])"

text \<open>\<open>contract_ok\<close> is the verdict of the runtime statistics; a bad one is counted.\<close>

definition llps_free_list_scheduler_contract_is_valid :: "bool \<Rightarrow> server_state \<Rightarrow> bool \<times> server_state" where
  "llps_free_list_scheduler_contract_is_valid contract_ok sv =
     (contract_ok, if contract_ok then sv else sv_violation sv)"

text \<open>\<^verbatim>\<open>llps_free_list_reconcile\<close> and \<^verbatim>\<open>llps_free_list_write_all_from_canonical\<close> on the globals.\<close>

definition sv_reconcile_free :: "server_state \<Rightarrow> bool \<times> server_state" where
  "sv_reconcile_free sv =
     (case llps_free_list_reconcile (sv_free sv) (rs_env (sv_rs sv)) of
        (ok, canonical, env) \<Rightarrow> (ok, sv\<lparr>sv_rs := (sv_rs sv)\<lparr>rs_env := env\<rparr>, sv_free := canonical\<rparr>))"

definition sv_write_free :: "u32 list \<Rightarrow> u32 \<Rightarrow> server_state \<Rightarrow> server_state" where
  "sv_write_free entries count sv =
     sv\<lparr>sv_free := (entries, count),
        sv_rs := (sv_rs sv)\<lparr>rs_env := (rs_env (sv_rs sv))\<lparr>env_free_banks :=
          llps_free_list_write_all_from_canonical entries count (env_free_banks (rs_env (sv_rs sv)))\<rparr>\<rparr>\<rparr>"

definition llps_free_list_contains :: "bool \<Rightarrow> u32 \<Rightarrow> server_state \<Rightarrow> bool \<times> server_state" where
  "llps_free_list_contains contract_ok session_id sv =
     (case llps_free_list_scheduler_contract_is_valid contract_ok sv of
        (False, sv) \<Rightarrow> (False, sv)
      | (True, sv) \<Rightarrow>
          (case sv_reconcile_free sv of
             (False, sv) \<Rightarrow> (False, sv_violation sv)
           | (True, sv) \<Rightarrow> (session_id \<in> set (take (unat (snd (sv_free sv))) (fst (sv_free sv))), sv)))"

definition llps_return_session_to_freelist :: "bool \<Rightarrow> u32 \<Rightarrow> server_state \<Rightarrow> server_state" where
  "llps_return_session_to_freelist contract_ok session_id sv =
     (case llps_free_list_scheduler_contract_is_valid contract_ok sv of
        (False, sv) \<Rightarrow> sv
      | (True, sv) \<Rightarrow>
          (case sv_reconcile_free sv of
             (False, sv) \<Rightarrow> sv_violation sv
           | (True, sv) \<Rightarrow>
               if session_id \<ge> max_clients (sv_cfg sv) then sv_violation sv
               else (case llps_free_list_contains contract_ok session_id sv of
                       (True, sv) \<Rightarrow> sv_violation sv
                     | (False, sv) \<Rightarrow>
                         (case sv_free sv of
                            (entries, count) \<Rightarrow>
                              if count \<ge> max_clients (sv_cfg sv) then sv_violation sv
                              else sv_write_free (entries[unat count := session_id]) (count + 1) sv))))"

text \<open>
  One turn of the loop over the attempts. Both tests of the slot end in \<^verbatim>\<open>LLPS_EXPECT(false, continue)\<close>,
  and the macro wraps its fallback in a \<^verbatim>\<open>do ... while (0)\<close> of its own: the \<^verbatim>\<open>continue\<close> leaves that, not
  the turn, and the slot is returned all the same. So the loop never takes a second turn.
\<close>

definition find_free_turn :: "server_state \<Rightarrow> (llps_status_t \<times> nat) \<times> server_state" where
  "find_free_turn sv =
     (case sv_free sv of
        (entries, count) \<Rightarrow>
          if count = 0 then ((LLPS_E_RANGE, 0), sv)
          else
            (let count = count - 1;
                 idx = entries ! unat count;
                 sv = sv_write_free entries count sv;
                 sv = (if idx \<ge> max_clients (sv_cfg sv) then sv_violation sv else sv);
                 (is_free, sv) = llps_session_is_free (unat idx) sv;
                 sv = (if \<not> is_free then sv_violation sv else sv)
             in ((LLPS_OK, unat idx), sv)))"

definition llps_find_free_session :: "bool \<Rightarrow> server_state \<Rightarrow> (llps_status_t \<times> nat) \<times> server_state" where
  "llps_find_free_session contract_ok sv =
     (case llps_free_list_scheduler_contract_is_valid contract_ok sv of
        (False, sv) \<Rightarrow> ((LLPS_E_STATE, 0), sv)
      | (True, sv) \<Rightarrow>
          (case sv_reconcile_free sv of
             (False, sv) \<Rightarrow> ((LLPS_E_STATE, 0), sv)
           | (True, sv) \<Rightarrow> find_free_turn sv))"

definition sv_request_shutdown :: "server_state \<Rightarrow> server_state" where
  "sv_request_shutdown sv = sv\<lparr>sv_rs := (sv_rs sv)\<lparr>rs_control := llps_control_request_shutdown (rs_control (sv_rs sv))\<rparr>\<rparr>"

text \<open>
  The audit log: whether it is enabled, the clock reading for its record, and whether the record was
  written. The texts are copied first; a text that does not fit stops the server as a failed write
  does.
\<close>

record audit_env =
  au_enabled :: bool
  au_now :: u64
  au_recorded :: bool

abbreviation audit_reason_size :: nat where
  "audit_reason_size \<equiv> 32"

definition text_bytes :: "string \<Rightarrow> u8 list" where
  "text_bytes s = map of_char s @ [0]"

definition llps_record_ip_audit_event :: "audit_env \<Rightarrow> u8 list \<Rightarrow> u8 list \<Rightarrow> server_state \<Rightarrow> bool \<times> server_state" where
  "llps_record_ip_audit_event audit client_ip reason sv =
     (if \<not> au_enabled audit then (True, sv)
      else
        (let sv = sv\<lparr>sv_rs := snd (llps_llam_now_ns_checked (au_now audit) (sv_rs sv))\<rparr>
         in if \<not> fst (llps_state_copy_text (replicate LLPS_CLIENT_IP_TEXT_LEN 0) LLPS_CLIENT_IP_TEXT_LEN client_ip) \<or>
               \<not> fst (llps_state_copy_text (replicate audit_reason_size 0) audit_reason_size reason)
            then (False, sv_request_shutdown sv)
            else if \<not> au_recorded audit then (False, sv_request_shutdown sv)
            else (True, sv)))"

text \<open>The audit record of a close, and closing one descriptor of the session.\<close>

definition session_close_audit :: "audit_env \<Rightarrow> nat \<Rightarrow> server_state \<Rightarrow> server_state" where
  "session_close_audit audit n sv =
     snd (llps_record_ip_audit_event audit (se_client_ip (sv_session n sv))
       (text_bytes (llps_close_reason_text (se_close_reason (sv_session n sv)))) sv)"

definition session_close_fd ::
    "(c_int \<Rightarrow> bool) \<Rightarrow> (llps_session_t \<Rightarrow> c_int) \<Rightarrow>
     ((c_int \<Rightarrow> c_int) \<Rightarrow> llps_session_t \<Rightarrow> llps_session_t) \<Rightarrow> nat \<Rightarrow> server_state \<Rightarrow> server_state" where
  "session_close_fd closes get_fd update_fd n sv =
     (case llps_close_connected_fd closes (get_fd (sv_session n sv)) of
        (ok, fd) \<Rightarrow>
          (let sv = sv_put_session n (update_fd (\<lambda>_. fd) (sv_session n sv)) sv
           in if \<not> ok then sv_violation sv else sv))"

definition llps_close_session :: "bool \<Rightarrow> (c_int \<Rightarrow> bool) \<Rightarrow> audit_env \<Rightarrow> nat \<Rightarrow> server_state \<Rightarrow> server_state" where
  "llps_close_session contract_ok closes audit n sv =
     (case llps_session_is_free n sv of
        (was_free, sv) \<Rightarrow>
          (case llps_session_index_from_ptr n of
             None \<Rightarrow> sv_violation sv
           | Some session_id \<Rightarrow>
               (let sv = (if \<not> was_free then session_close_audit audit n sv else sv);
                    sv = session_close_fd closes se_client_fd se_client_fd_update n sv;
                    sv = session_close_fd closes se_backend_fd se_backend_fd_update n sv
                in if session_id \<ge> max_clients (sv_cfg sv) then sv_violation sv
                   else
                     (let sv = llps_session_reset_free n session_id sv
                      in if \<not> was_free then llps_return_session_to_freelist contract_ok session_id sv else sv))))"

text \<open>The initial pool: every slot free, the free list in descending order.\<close>

definition llps_init_prepare_session_pool :: "server_state \<Rightarrow> server_state" where
  "llps_init_prepare_session_pool sv =
     (let sv = foldl (\<lambda>sv i. let sv = llps_session_reset_free i (of_nat i) sv
                          in sv\<lparr>sv_free := ((fst (sv_free sv))[i := 0], snd (sv_free sv))\<rparr>)
                 sv [0..<unat LLPS_MAX_CLIENTS];
          sv = foldl (\<lambda>sv i. sv\<lparr>sv_free := ((fst (sv_free sv))[i := (max_clients (sv_cfg sv) - 1) - of_nat i],
                                     snd (sv_free sv))\<rparr>)
                 sv [0..<unat (max_clients (sv_cfg sv))]
      in sv_write_free (fst (sv_free sv)) (max_clients (sv_cfg sv)) sv)"

section \<open>The state of the pool\<close>

definition free_ids :: "server_state \<Rightarrow> u32 list" where
  "free_ids sv = take (unat (snd (sv_free sv))) (fst (sv_free sv))"

text \<open>
  The pool is sound but for the slots in \<open>X\<close>: every other session is sealed, the free list holds
  distinct slots of the pool and none of \<open>X\<close>, and the others are listed exactly when they are in state
  \<^verbatim>\<open>ST_FREE\<close>. One bank of the configuration (\<open>k\<close>) and one of the free list (\<open>l\<close>) may be upset; number 3
  says that none is.
\<close>

definition pool_but :: "nat set \<Rightarrow> llps_yml_config_t \<Rightarrow> nat \<Rightarrow> nat \<Rightarrow> server_state \<Rightarrow> bool" where
  "pool_but X cfg k l sv \<longleftrightarrow> sv_shape sv \<and> sv_cfg sv = cfg \<and> cfg_held k cfg (rs_env (sv_rs sv)) \<and>
     free_held l (max_clients cfg) (llps_free_list_snapshot_from_canonical (fst (sv_free sv)) (snd (sv_free sv)))
       (rs_env (sv_rs sv)) \<and>
     length (fst (sv_free sv)) = unat LLPS_MAX_CLIENTS \<and> snd (sv_free sv) \<le> max_clients cfg \<and>
     (\<forall>n < unat LLPS_MAX_CLIENTS. n \<notin> X \<longrightarrow> session_sealed n sv) \<and>
     distinct (free_ids sv) \<and> (\<forall>i \<in> set (free_ids sv). i < max_clients cfg) \<and>
     (\<forall>n \<in> X. n < unat (max_clients cfg) \<longrightarrow> of_nat n \<notin> set (free_ids sv)) \<and>
     (\<forall>n < unat (max_clients cfg). n \<notin> X \<longrightarrow>
        (of_nat n \<in> set (free_ids sv) \<longleftrightarrow> se_state (sv_session n sv) = ST_FREE))"

abbreviation pool_inv :: "llps_yml_config_t \<Rightarrow> nat \<Rightarrow> nat \<Rightarrow> server_state \<Rightarrow> bool" where
  "pool_inv \<equiv> pool_but {}"

text \<open>What the pool promises, abstractly: a set of free slots.\<close>

definition free_slots :: "server_state \<Rightarrow> nat set" where
  "free_slots sv = {n. n < unat (max_clients (sv_cfg sv)) \<and> se_state (sv_session n sv) = ST_FREE}"

text \<open>Servers with the same sessions and free list, up to repairs and counters.\<close>

definition pool_same :: "server_state \<Rightarrow> server_state \<Rightarrow> bool" where
  "pool_same sv sv' \<longleftrightarrow> sv_free sv' = sv_free sv \<and> (\<forall>m. sv_session m sv' = sv_session m sv) \<and>
     rs_control (sv_rs sv') = rs_control (sv_rs sv)"

lemma pool_max:
  assumes "pool_but X cfg k l sv" shows "unat (max_clients cfg) \<le> 256" "0 < max_clients cfg" "max_clients cfg \<le> 256"
  using assms cfg_held_max_clients [of k cfg "rs_env (sv_rs sv)"] by (simp_all add: pool_but_def word_le_nat_alt)

lemma pool_count:
  assumes "pool_but X cfg k l sv"
  shows "unat (snd (sv_free sv)) \<le> unat (max_clients cfg)" "unat (snd (sv_free sv)) \<le> length (fst (sv_free sv))"
    "length (free_ids sv) = unat (snd (sv_free sv))"
proof -
  show a: "unat (snd (sv_free sv)) \<le> unat (max_clients cfg)"
    using assms by (simp add: pool_but_def word_le_nat_alt)
  then show "unat (snd (sv_free sv)) \<le> length (fst (sv_free sv))"
    using pool_max(1) [OF assms] assms by (simp add: pool_but_def)
  then show "length (free_ids sv) = unat (snd (sv_free sv))" by (simp add: free_ids_def)
qed

lemma free_ids_cong [simp]:
  "free_ids (sv\<lparr>sv_rs := rs\<rparr>) = free_ids sv" "free_ids (sv_put_session n s sv) = free_ids sv"
  "free_ids (sv_set_counters sc sv) = free_ids sv" "free_ids (sv\<lparr>sv_regions := regions\<rparr>) = free_ids sv"
  by (simp_all add: free_ids_def sv_put_session_def sv_set_counters_def)

lemma free_held_env:
  "env_free_banks env' = env_free_banks env \<Longrightarrow> free_held l limit s env' = free_held l limit s env"
  by (simp add: free_held_def)

lemma pool_sealed: "pool_but X cfg k l sv \<Longrightarrow> n < unat (max_clients cfg) \<Longrightarrow> n \<notin> X \<Longrightarrow> session_sealed n sv"
  using pool_max(1) [of X cfg k l sv] by (auto simp: pool_but_def)

text \<open>Reconciling a session of a sound pool repairs the configuration and changes nothing else.\<close>

lemma pool_reconcile:
  assumes inv: "pool_but X cfg k l sv" and n: "n < unat (max_clients cfg)" "session_sealed n sv"
  shows "\<exists>sv'. llps_session_reconcile_integrity n sv =
      (Some (llps_session_tmr_snapshot_from_session (sv_session n sv)), sv') \<and> pool_same sv sv' \<and> pool_but X cfg 3 l sv'"
proof -
  have c: "cfg_held k cfg (rs_env (sv_rs sv))" "sv_shape sv" "session_sealed n sv"
    using inv n pool_max [OF inv] by (auto simp: pool_but_def)
  obtain sv' where r: "llps_session_reconcile_integrity n sv =
      (Some (llps_session_tmr_snapshot_from_session (sv_session n sv)), sv')"
    and s: "sv_session n sv' = sv_session n sv" "session_sealed n sv'" and f: "reconciled_from cfg n sv sv'"
    using reconcile_sealed [OF c(1) n(1) c(2,3)] by blast
  note f' = f [unfolded reconciled_from_def]
  have free: "sv_free sv' = sv_free sv" "env_free_banks (rs_env (sv_rs sv')) = env_free_banks (rs_env (sv_rs sv))"
    using f' by blast+
  have same: "pool_same sv sv'" unfolding pool_same_def using f' s(1) by metis
  have ids: "free_ids sv' = free_ids sv" by (simp add: free_ids_def free)
  have sessions: "sv_session m sv' = sv_session m sv" for m using same by (simp add: pool_same_def)
  have "session_sealed m sv'" if "m < 256" "m \<notin> X" for m
    using that f' s(2) inv by (cases "m = n") (auto simp: pool_but_def)
  then have "pool_but X cfg 3 l sv'"
    using inv f' free_held_env [OF free(2)] unfolding pool_but_def ids sessions free by simp
  with r same show ?thesis by blast
qed

lemma pool_same_trans: "pool_same a b \<Longrightarrow> pool_same b c \<Longrightarrow> pool_same a c"
  by (simp add: pool_same_def)

lemma snapshot_state [simp]: "ss_state (llps_session_tmr_snapshot_from_session s) = se_state s"
  by (simp add: llps_session_tmr_snapshot_from_session_def)

lemma pool_is_free:
  assumes "pool_but X cfg k l sv" "n < unat (max_clients cfg)" "session_sealed n sv"
  shows "\<exists>sv'. llps_session_is_free n sv = (se_state (sv_session n sv) = ST_FREE, sv') \<and> pool_same sv sv' \<and> pool_but X cfg 3 l sv'"
  using pool_reconcile [OF assms] by (auto simp: llps_session_is_free_def)

lemma pool_is_active:
  assumes "pool_but X cfg k l sv" "n < unat (max_clients cfg)" "session_sealed n sv"
  shows "\<exists>sv'. llps_session_is_active n sv = (se_state (sv_session n sv) = ST_ACTIVE, sv') \<and> pool_same sv sv' \<and> pool_but X cfg 3 l sv'"
  using pool_reconcile [OF assms] by (auto simp: llps_session_is_active_def)

lemma pool_state:
  assumes "pool_but X cfg k l sv" "n < unat (max_clients cfg)" "session_sealed n sv"
  shows "se_state (sv_session n sv) = ST_FREE \<or> se_state (sv_session n sv) = ST_ACTIVE"
proof -
  show ?thesis
    using assms(3) local_integrity_facts(3) by (auto simp: session_sealed_def llps_state_is_valid_def)
qed

text \<open>Changes of the globals that keep what the banks hold.\<close>

lemma pool_env:
  assumes "pool_but X cfg k l sv" "cfg_held k' cfg (rs_env rs)" "env_runtime_cfg (rs_env rs) = cfg"
    and "free_held l' (max_clients cfg) (llps_free_list_snapshot_from_canonical (fst (sv_free sv)) (snd (sv_free sv)))
      (rs_env rs)"
  shows "pool_but X cfg k' l' (sv\<lparr>sv_rs := rs\<rparr>)"
  using assms unfolding pool_but_def free_ids_cong by (simp add: sv_cfg_def)

text \<open>Reconciling the free list repairs both kinds of banks.\<close>

lemma pool_reconcile_free:
  assumes inv: "pool_but X cfg k l sv"
  shows "\<exists>sv'. sv_reconcile_free sv = (True, sv') \<and> pool_same sv sv' \<and> pool_but X cfg 3 3 sv' \<and>
    (\<forall>m. session_sealed m sv' = session_sealed m sv)"
proof -
  let ?s = "llps_free_list_snapshot_from_canonical (fst (sv_free sv)) (snd (sv_free sv))"
  have h: "cfg_held k cfg (rs_env (sv_rs sv))" "free_held l (max_clients cfg) ?s (rs_env (sv_rs sv))"
    using inv by (auto simp: pool_but_def)
  obtain env where e: "llps_free_list_reconcile (sv_free sv) (rs_env (sv_rs sv)) = (True, sv_free sv, env)"
    "cfg_held 3 cfg env" "free_held 3 (max_clients cfg) ?s env" "env_runtime_cfg env = cfg"
    using free_reconcile_held [OF h, of "sv_free sv"] by (auto simp: llps_free_list_snapshot_from_canonical_def)
  let ?sv = "sv\<lparr>sv_rs := (sv_rs sv)\<lparr>rs_env := env\<rparr>\<rparr>"
  have "sv_reconcile_free sv = (True, ?sv)" by (simp add: sv_reconcile_free_def e(1))
  moreover have "pool_same sv ?sv" by (simp add: pool_same_def)
  moreover have "pool_but X cfg 3 3 ?sv" by (rule pool_env [OF inv]) (simp_all add: e)
  moreover have "session_sealed m ?sv = session_sealed m sv" for m by simp
  ultimately show ?thesis by blast
qed

section \<open>Writing the free list\<close>

lemma free_write_shape:
  "length (env_free_banks env) = 3 \<Longrightarrow> count \<le> limit \<Longrightarrow>
     free_held 3 limit (llps_free_list_snapshot_from_canonical entries count)
       (env\<lparr>env_free_banks := llps_free_list_write_all_from_canonical entries count (env_free_banks env)\<rparr>)"
  using flist.holds_write_all [of "llps_free_list_snapshot_from_canonical entries count" limit]
  by (simp add: llps_free_list_write_all_from_canonical_def free_write_all_eq free_held_def flist.holds_def
      llps_free_list_snapshot_from_canonical_def tmr_write_all_def bank_count_simps)

lemma write_free_frame [simp]:
  "sv_session m (sv_write_free entries count sv) = sv_session m sv"
  "sv_free (sv_write_free entries count sv) = (entries, count)"
  "sv_cfg (sv_write_free entries count sv) = sv_cfg sv"
  "session_sealed m (sv_write_free entries count sv) = session_sealed m sv"
  "sv_shape (sv_write_free entries count sv) = sv_shape sv"
  "rs_control (sv_rs (sv_write_free entries count sv)) = rs_control (sv_rs sv)"
  "cfg_held k cfg (rs_env (sv_rs (sv_write_free entries count sv))) = cfg_held k cfg (rs_env (sv_rs sv))"
  by (simp_all add: sv_write_free_def sv_cfg_def session_sealed_def sv_session_def sv_shape_def cfg_held_def)

lemma free_ids_write: "free_ids (sv_write_free entries count sv) = take (unat count) entries"
  by (simp add: free_ids_def)

text \<open>A free list written into the banks makes a sound pool, when it lists what the sessions say.\<close>

lemma pool_write_free:
  assumes sv: "sv_shape sv" "sv_cfg sv = cfg" "cfg_held k cfg (rs_env (sv_rs sv))"
      "length (env_free_banks (rs_env (sv_rs sv))) = 3"
    and len: "length entries = 256" and count: "count \<le> max_clients cfg"
    and ids: "distinct (take (unat count) entries)" "\<And>i. i \<in> set (take (unat count) entries) \<Longrightarrow> i < max_clients cfg"
    and sealed: "\<And>n. n < 256 \<Longrightarrow> n \<notin> Y \<Longrightarrow> session_sealed n sv"
    and out: "\<And>n. n \<in> Y \<Longrightarrow> n < unat (max_clients cfg) \<Longrightarrow> of_nat n \<notin> set (take (unat count) entries)"
    and listed: "\<And>n. n < unat (max_clients cfg) \<Longrightarrow> n \<notin> Y \<Longrightarrow>
      of_nat n \<in> set (take (unat count) entries) \<longleftrightarrow> se_state (sv_session n sv) = ST_FREE"
  shows "pool_but Y cfg k 3 (sv_write_free entries count sv)"
proof -
  from free_write_shape [OF sv(4) count, of entries]
  have "free_held 3 (max_clients cfg) (llps_free_list_snapshot_from_canonical entries count)
      (rs_env (sv_rs (sv_write_free entries count sv)))" by (simp add: sv_write_free_def)
  then show ?thesis
    using assms unfolding pool_but_def free_ids_write by simp
qed

lemma pool_write_pre:
  assumes "pool_but X cfg k l sv"
  shows "sv_shape sv" "sv_cfg sv = cfg" "cfg_held k cfg (rs_env (sv_rs sv))"
    "length (env_free_banks (rs_env (sv_rs sv))) = 3"
  using assms by (auto simp: pool_but_def free_held_def)

section \<open>Taking a free slot\<close>

lemma free_ids_slots:
  assumes "pool_inv cfg k l sv"
  shows "free_slots sv = unat ` set (free_ids sv)" "finite (free_slots sv)"
proof -
  have max: "unat (max_clients cfg) \<le> 256" by (rule pool_max(1) [OF assms])
  have id: "n \<in> free_slots sv \<longleftrightarrow> n \<in> unat ` set (free_ids sv)" for n
  proof
    assume "n \<in> free_slots sv"
    then have "(of_nat n :: u32) \<in> set (free_ids sv)" "n < 256"
      using assms max by (auto simp: free_slots_def pool_but_def)
    then show "n \<in> unat ` set (free_ids sv)" by (auto intro!: image_eqI [of _ _ "of_nat n"] simp: unat_of_nat)
  next
    assume "n \<in> unat ` set (free_ids sv)"
    then obtain i where i: "i \<in> set (free_ids sv)" "n = unat i" by blast
    moreover have "unat i < unat (max_clients cfg)" using i(1) assms by (simp add: pool_but_def word_less_nat_alt)
    ultimately show "n \<in> free_slots sv" using assms by (auto simp: free_slots_def pool_but_def)
  qed
  then show "free_slots sv = unat ` set (free_ids sv)" by blast
  then show "finite (free_slots sv)" by simp
qed

text \<open>The slot on top of the list.\<close>

lemma find_free_top:
  assumes inv: "pool_inv cfg 3 3 sv" and count: "snd (sv_free sv) \<noteq> 0"
  shows "\<exists>n sv'. find_free_turn sv = ((LLPS_OK, n), sv') \<and> n \<in> free_slots sv \<and>
    pool_but {n} cfg 3 3 sv' \<and> (\<forall>m. sv_session m sv' = sv_session m sv) \<and>
    rs_control (sv_rs sv') = rs_control (sv_rs sv)"
proof -
  let ?entries = "fst (sv_free sv)" and ?count = "snd (sv_free sv) - 1"
  let ?idx = "?entries ! unat ?count"
  let ?n = "unat ?idx"
  note count_facts = pool_count [OF inv]
  have c: "unat (snd (sv_free sv)) = Suc (unat ?count)"
    using count by (simp add: unat_minus_one unat_gt_0)
  have ids: "free_ids sv = take (unat ?count) ?entries @ [?idx]"
    using count_facts(2) by (simp add: free_ids_def c take_Suc_conv_app_nth)
  have d: "distinct (free_ids sv)" "\<And>i. i \<in> set (free_ids sv) \<Longrightarrow> i < max_clients cfg"
    using inv by (auto simp: pool_but_def)
  have idx: "?idx < max_clients cfg" "?idx \<in> set (free_ids sv)" using d(2) by (auto simp: ids)
  then have n: "?n < unat (max_clients cfg)" by (simp add: word_less_nat_alt)
  have listed: "of_nat m \<in> set (free_ids sv) \<longleftrightarrow> se_state (sv_session m sv) = ST_FREE" if "m < unat (max_clients cfg)" for m
    using inv that by (simp add: pool_but_def)
  let ?sv = "sv_write_free ?entries ?count sv"
  have le: "?count \<le> max_clients cfg" using count_facts(1) c by (simp add: word_le_nat_alt)
  have neq: "(of_nat m :: u32) \<noteq> ?idx" if "m < unat (max_clients cfg)" "m \<noteq> ?n" for m
    using that pool_max(1) [OF inv] by (auto dest!: arg_cong [of _ _ unat] simp: unat_of_nat)
  have held: "pool_but {?n} cfg 3 3 ?sv"
  proof (rule pool_write_free [OF pool_write_pre [OF inv]])
    show "length ?entries = 256" using inv by (simp add: pool_but_def)
    show "of_nat m \<in> set (take (unat ?count) ?entries) \<longleftrightarrow> se_state (sv_session m sv) = ST_FREE"
      if "m < unat (max_clients cfg)" "m \<notin> {?n}" for m
      using listed [OF that(1)] neq that by (simp add: ids)
  qed (use inv d le in \<open>auto simp: ids pool_but_def\<close>)
  have cfg: "sv_cfg sv = cfg" using inv by (simp add: pool_but_def)
  have sealed: "session_sealed ?n ?sv" using pool_sealed [OF inv n] by simp
  have free: "se_state (sv_session ?n sv) = ST_FREE" using listed [OF n] idx(2) by simp
  obtain sv' where r: "llps_session_is_free ?n ?sv = (True, sv')" "pool_same ?sv sv'" "pool_but {?n} cfg 3 3 sv'"
    using pool_is_free [OF held n sealed] free by auto
  have "find_free_turn sv = ((LLPS_OK, ?n), sv')"
    using count idx(1) r(1) cfg by (simp add: find_free_turn_def case_prod_beta Let_def linorder_not_le [symmetric])
  moreover have "?n \<in> free_slots sv" using n free inv by (simp add: free_slots_def pool_but_def)
  ultimately show ?thesis using r(2,3) by (auto simp: pool_same_def)
qed

text \<open>In a sound pool a slot is found exactly when one is free.\<close>

lemma find_free_session_post:
  assumes inv: "pool_inv cfg k l sv"
  shows "\<exists>sv'. (\<forall>m. sv_session m sv' = sv_session m sv) \<and> rs_control (sv_rs sv') = rs_control (sv_rs sv) \<and>
    (if free_slots sv = {} then llps_find_free_session True sv = ((LLPS_E_RANGE, 0), sv') \<and> pool_inv cfg 3 3 sv'
     else \<exists>n \<in> free_slots sv. llps_find_free_session True sv = ((LLPS_OK, n), sv') \<and> pool_but {n} cfg 3 3 sv')"
proof -
  obtain sv1 where r: "sv_reconcile_free sv = (True, sv1)" "pool_same sv sv1" "pool_inv cfg 3 3 sv1"
    using pool_reconcile_free [OF inv] by blast
  have f: "llps_find_free_session True sv = find_free_turn sv1"
    by (simp add: llps_find_free_session_def llps_free_list_scheduler_contract_is_valid_def r(1))
  have cfg: "sv_cfg sv = cfg" "sv_cfg sv1 = cfg" using inv r(3) by (simp_all add: pool_but_def)
  have slots: "free_slots sv1 = free_slots sv" using r(2) by (simp add: free_slots_def pool_same_def cfg)
  have "free_slots sv1 = {} \<longleftrightarrow> snd (sv_free sv1) = 0"
    using free_ids_slots(1) [OF r(3)] pool_count(3) [OF r(3)] by (auto simp: unat_eq_zero)
  then show ?thesis
    using r(2,3) find_free_top [OF r(3)] unfolding f slots
    by (cases "snd (sv_free sv1) = 0") (auto simp: pool_same_def case_prod_beta find_free_turn_def)
qed

section \<open>Sealing a session of the pool\<close>

text \<open>Globals with the same banks: only counters and the shutdown flag differ.\<close>

definition same_banks :: "runtime_state \<Rightarrow> runtime_state \<Rightarrow> bool" where
  "same_banks rs rs' \<longleftrightarrow> env_runtime_cfg (rs_env rs') = env_runtime_cfg (rs_env rs) \<and>
     env_cfg_banks (rs_env rs') = env_cfg_banks (rs_env rs) \<and> env_free_banks (rs_env rs') = env_free_banks (rs_env rs)"

lemma same_banks_refl [simp]: "same_banks rs rs"
  by (simp add: same_banks_def)

lemma same_banks_trans: "same_banks a b \<Longrightarrow> same_banks b c \<Longrightarrow> same_banks a c"
  by (simp add: same_banks_def)

lemma pool_same_banks:
  assumes "pool_but X cfg k l sv" "same_banks (sv_rs sv) rs" shows "pool_but X cfg k l (sv\<lparr>sv_rs := rs\<rparr>)"
  by (rule pool_env [OF assms(1)])
    (use assms in \<open>auto simp: same_banks_def pool_but_def cfg_held_def free_held_def sv_cfg_def\<close>)

lemma pool_seal:
  assumes inv: "pool_but X cfg k l sv" and n: "n < unat (max_clients cfg)" and X: "X \<subseteq> {n}"
    and s: "session_consistent (of_nat n) s"
    and listed: "n \<notin> Y \<Longrightarrow> of_nat n \<in> set (free_ids sv) \<longleftrightarrow> se_state s = ST_FREE"
    and out: "n \<in> Y \<Longrightarrow> of_nat n \<notin> set (free_ids sv)" and Y: "Y \<subseteq> {n}"
  defines "sv' \<equiv> llps_session_refresh_crc n (sv_put_session n s sv)"
  shows "pool_but Y cfg k l sv'" "session_sealed n sv'" "sv_session n sv' = sealed_session s"
    "m \<noteq> n \<Longrightarrow> sv_session m sv' = sv_session m sv" "rs_control (sv_rs sv') = rs_control (sv_rs sv)"
    "free_ids sv' = free_ids sv"
proof -
  have max: "unat (max_clients cfg) \<le> 256" by (rule pool_max(1) [OF inv])
  have n': "n < 256" using n max by simp
  have shape: "sv_shape sv" using inv by (simp add: pool_but_def)
  note r = put_refresh_seals [OF shape n' s]
  obtain sc where sc: "sv_rs sv' = sv_rs (sv_set_counters sc sv)" unfolding sv'_def using r(6) by blast
  show s': "session_sealed n sv'" "sv_session n sv' = sealed_session s" unfolding sv'_def using r(1,3) by blast+
  show other: "m \<noteq> n \<Longrightarrow> sv_session m sv' = sv_session m sv" for m unfolding sv'_def by (rule r(4))
  show "rs_control (sv_rs sv') = rs_control (sv_rs sv)" by (simp add: sc)
  have free: "sv_free sv' = sv_free sv" unfolding sv'_def by (rule r(7))
  then show ids: "free_ids sv' = free_ids sv" by (simp add: free_ids_def)
  have st: "se_state (sealed_session s) = se_state s"
    by (simp add: sealed_session_def Let_def llps_session_refresh_secded_def)
  have sealed: "session_sealed m sv'" if "m < 256" for m
    using that s'(1) r(5) [of m] inv X unfolding sv'_def by (cases "m = n") (auto simp: pool_but_def)
  have rs: "cfg_held k cfg (rs_env (sv_rs sv'))" "sv_cfg sv' = cfg"
    "free_held l (max_clients cfg) (llps_free_list_snapshot_from_canonical (fst (sv_free sv)) (snd (sv_free sv)))
       (rs_env (sv_rs sv'))"
    using inv by (simp_all add: sc pool_but_def sv_cfg_def free_held_def)
  have listed': "of_nat m \<in> set (free_ids sv) \<longleftrightarrow> se_state (sv_session m sv') = ST_FREE"
    if "m < unat (max_clients cfg)" "m \<notin> Y" for m
    using that inv X listed other [of m] by (cases "m = n") (auto simp: pool_but_def s'(2) st)
  show "pool_but Y cfg k l sv'"
    unfolding pool_but_def free ids using rs inv sealed listed' out Y r(2)
    by (auto simp: pool_but_def sv'_def)
qed

section \<open>Returning a slot\<close>

lemma count_below:
  assumes inv: "pool_but {n} cfg k l sv" and n: "n < unat (max_clients cfg)"
  shows "unat (snd (sv_free sv)) < unat (max_clients cfg)"
proof -
  have max: "unat (max_clients cfg) \<le> 256" by (rule pool_max(1) [OF inv])
  have "unat ` set (free_ids sv) \<subseteq> {..<unat (max_clients cfg)} - {n}"
    using inv n by (auto simp: pool_but_def word_less_nat_alt)
  then have "card (unat ` set (free_ids sv)) \<le> card ({..<unat (max_clients cfg)} - {n})"
    by (intro card_mono) auto
  moreover have "card (unat ` set (free_ids sv)) = length (free_ids sv)"
    using inv by (subst card_image) (auto simp: pool_but_def distinct_card inj_on_def word_unat_eq_iff)
  ultimately show ?thesis using n pool_count(3) [OF inv] by simp
qed

lemma return_to_freelist_post:
  assumes inv: "pool_but {n} cfg k l sv" and n: "n < unat (max_clients cfg)"
    and sealed: "session_sealed n sv" and free: "se_state (sv_session n sv) = ST_FREE"
  shows "\<exists>sv'. llps_return_session_to_freelist True (of_nat n) sv = sv' \<and> pool_inv cfg 3 3 sv' \<and>
    (\<forall>m. sv_session m sv' = sv_session m sv) \<and> rs_control (sv_rs sv') = rs_control (sv_rs sv)"
proof -
  obtain sv1 where r1: "sv_reconcile_free sv = (True, sv1)" "pool_same sv sv1" "pool_but {n} cfg 3 3 sv1"
    "\<And>m. session_sealed m sv1 = session_sealed m sv"
    using pool_reconcile_free [OF inv] by blast
  obtain sv2 where r2: "sv_reconcile_free sv1 = (True, sv2)" "pool_same sv1 sv2" "pool_but {n} cfg 3 3 sv2"
    "\<And>m. session_sealed m sv2 = session_sealed m sv1"
    using pool_reconcile_free [OF r1(3)] by blast
  have max: "unat (max_clients cfg) \<le> 256" by (rule pool_max(1) [OF inv])
  have u: "(of_nat n :: u32) < max_clients cfg" using n max by (simp add: word_less_nat_alt unat_of_nat)
  have cfg: "sv_cfg sv1 = cfg" "sv_cfg sv2 = cfg" using r1(3) r2(3) by (simp_all add: pool_but_def)
  have out: "of_nat n \<notin> set (free_ids sv2)" using r2(3) n by (simp add: pool_but_def)
  let ?entries = "fst (sv_free sv2)" and ?count = "snd (sv_free sv2)"
  have count: "?count < max_clients cfg" using count_below [OF r2(3) n] by (simp add: word_less_nat_alt)
  have suc: "unat (?count + 1) = Suc (unat ?count)" using count_below [OF r2(3) n] max by (simp add: unat_word_ariths)
  have r: "llps_return_session_to_freelist True (of_nat n) sv =
      sv_write_free (?entries[unat ?count := of_nat n]) (?count + 1) sv2"
    using u count out
    by (simp add: llps_return_session_to_freelist_def llps_free_list_scheduler_contract_is_valid_def r1(1) cfg
        llps_free_list_contains_def r2(1) free_ids_def case_prod_beta linorder_not_le [symmetric])
  have len: "length ?entries = 256" using r2(3) by (simp add: pool_but_def)
  have ids: "take (unat (?count + 1)) (?entries[unat ?count := of_nat n]) = free_ids sv2 @ [of_nat n]"
    using count_below [OF r2(3) n] max len by (simp add: suc take_Suc_conv_app_nth free_ids_def)
  have neq: "(of_nat m :: u32) = of_nat n \<longleftrightarrow> m = n" if "m < unat (max_clients cfg)" for m
    using that n max by (simp add: of_nat_eq_iff_small)
  have facts: "distinct (free_ids sv2)" "\<And>i. i \<in> set (free_ids sv2) \<Longrightarrow> i < max_clients cfg"
    using r2(3) by (auto simp: pool_but_def)
  have same: "sv_session m sv2 = sv_session m sv" for m using r1(2) r2(2) by (simp add: pool_same_def)
  have sealed2: "session_sealed m sv2" if "m < 256" for m
    using that sealed inv r1(4) r2(4) by (cases "m = n") (auto simp: pool_but_def)
  have "pool_inv cfg 3 3 (sv_write_free (?entries[unat ?count := of_nat n]) (?count + 1) sv2)"
  proof (rule pool_write_free [OF pool_write_pre [OF r2(3)]])
    show "?count + 1 \<le> max_clients cfg" using count by (metis inc_le)
    show "of_nat m \<in> set (take (unat (?count + 1)) (?entries[unat ?count := of_nat n])) \<longleftrightarrow>
        se_state (sv_session m sv2) = ST_FREE" if "m < unat (max_clients cfg)" "m \<notin> {}" for m
      using neq [OF that(1)] r2(3) that(1) free unfolding ids
      by (cases "m = n") (auto simp: pool_but_def same)
  qed (use len facts out u sealed2 in \<open>auto simp: ids\<close>)
  then show ?thesis unfolding r using r1(2) r2(2) by (simp add: pool_same_def)
qed

section \<open>Opening and closing\<close>

text \<open>
  Closing works on one session and on the globals; the record is written over at the end, so only the
  size of its address array matters.
\<close>

abbreviation ip_length :: "nat \<Rightarrow> server_state \<Rightarrow> nat" where
  "ip_length n sv \<equiv> length (se_client_ip (sv_session n sv))"

definition only_slot :: "nat \<Rightarrow> server_state \<Rightarrow> server_state \<Rightarrow> bool" where
  "only_slot n sv sv' \<longleftrightarrow> (\<exists>s rs. sv' = (sv_put_session n s sv)\<lparr>sv_rs := rs\<rparr> \<and> same_banks (sv_rs sv) rs \<and>
     length (se_client_ip s) = ip_length n sv)"

lemma sv_put_put [simp]:
  "sv_put_session n t (sv_put_session n s sv) = sv_put_session n t sv"
  "sv_put_session n t (sv\<lparr>sv_rs := rs\<rparr>) = (sv_put_session n t sv)\<lparr>sv_rs := rs\<rparr>"
  by (simp_all add: sv_put_session_def)

lemma sv_put_same: "sv_put_session n (sv_session n sv) sv = sv"
  by (simp add: sv_put_session_def sv_session_def)

lemma sv_rs_same: "sv\<lparr>sv_rs := sv_rs sv\<rparr> = sv"
  by simp

lemma only_slot_refl: "only_slot n sv sv"
  unfolding only_slot_def by (intro exI [of _ "sv_session n sv"] exI [of _ "sv_rs sv"]) (simp add: sv_put_same)

lemma only_slot_ip: "only_slot n sv sv' \<Longrightarrow> ip_length n sv' = ip_length n sv"
  by (cases "n < length (sv_sessions sv)") (auto simp: only_slot_def sv_put_session_def sv_session_def not_less list_update_beyond)

lemma only_slot_put:
  assumes "only_slot n sv sv'" "length (se_client_ip s) = ip_length n sv'"
  shows "only_slot n sv (sv_put_session n s sv')"
proof -
  obtain t rs where "sv' = (sv_put_session n t sv)\<lparr>sv_rs := rs\<rparr>" "same_banks (sv_rs sv) rs"
    using assms(1) by (auto simp: only_slot_def)
  then show ?thesis
    unfolding only_slot_def using assms(2) only_slot_ip [OF assms(1)]
    by (intro exI [of _ s] exI [of _ rs]) simp
qed

lemma only_slot_rs:
  assumes "only_slot n sv sv'" "same_banks (sv_rs sv') rs" shows "only_slot n sv (sv'\<lparr>sv_rs := rs\<rparr>)"
proof -
  obtain t rs' where "sv' = (sv_put_session n t sv)\<lparr>sv_rs := rs'\<rparr>" "same_banks (sv_rs sv) rs'"
    "length (se_client_ip t) = ip_length n sv"
    using assms(1) by (auto simp: only_slot_def)
  then show ?thesis
    unfolding only_slot_def using assms(2)
    by (intro exI [of _ t] exI [of _ rs]) (auto intro: same_banks_trans)
qed

lemma only_slot_violation: "only_slot n sv sv' \<Longrightarrow> only_slot n sv (sv_violation sv')"
  unfolding sv_violation_def by (erule only_slot_rs) (simp add: same_banks_def)

lemma only_slot_shutdown: "only_slot n sv sv' \<Longrightarrow> only_slot n sv (sv_request_shutdown sv')"
  unfolding sv_request_shutdown_def by (erule only_slot_rs) (simp add: same_banks_def)

lemma only_slot_now: "only_slot n sv sv' \<Longrightarrow> only_slot n sv (sv'\<lparr>sv_rs := snd (llps_llam_now_ns_checked now (sv_rs sv'))\<rparr>)"
  by (erule only_slot_rs) (simp add: same_banks_def now_checked_eq)

lemma only_slot_audit:
  "only_slot n sv sv' \<Longrightarrow> only_slot n sv (snd (llps_record_ip_audit_event audit client_ip reason sv'))"
  by (simp add: llps_record_ip_audit_event_def Let_def only_slot_now only_slot_shutdown)

lemma only_slot_close_fd:
  "only_slot n sv sv' \<Longrightarrow> only_slot n sv (session_close_fd closes se_client_fd se_client_fd_update n sv')"
  "only_slot n sv sv' \<Longrightarrow> only_slot n sv (session_close_fd closes se_backend_fd se_backend_fd_update n sv')"
  by (simp_all add: session_close_fd_def Let_def only_slot_put only_slot_violation split: prod.split)

lemmas only_slot_intros = only_slot_close_fd only_slot_audit only_slot_refl

lemma only_slot_pool:
  assumes "only_slot n sv sv'" "pool_but X cfg k l sv"
  obtains s rs where "sv' = (sv_put_session n s sv)\<lparr>sv_rs := rs\<rparr>" "pool_but X cfg k l (sv\<lparr>sv_rs := rs\<rparr>)"
  using assms pool_same_banks unfolding only_slot_def by blast

text \<open>What a freed record says, whatever it held before.\<close>

lemma free_fields_state [simp]:
  "length (se_client_ip (session_free_fields n s)) = length (se_client_ip s)"
  "se_state (session_free_fields n s) = ST_FREE" "se_client_fd (session_free_fields n s) = LLPS_INVALID_FD"
  "se_backend_fd (session_free_fields n s) = LLPS_INVALID_FD"
  by (simp_all add: session_free_fields_def session_clear_transfer_def Let_def llps_session_set_state_fields_def
      zeroed_def)

lemma active_fields_state [simp]:
  "se_state (session_active_fields n fd ip port no now s) = ST_ACTIVE"
  "se_client_fd (session_active_fields n fd ip port no now s) = fd"
  "se_backend_fd (session_active_fields n fd ip port no now s) = LLPS_INVALID_FD"
  "se_request_no (session_active_fields n fd ip port no now s) = no"
  by (simp_all add: session_active_fields_def session_clear_transfer_def Let_def llps_session_set_state_fields_def)

lemma sealed_session_fields [simp]:
  "se_state (sealed_session s) = se_state s" "se_client_fd (sealed_session s) = se_client_fd s"
  "se_backend_fd (sealed_session s) = se_backend_fd s" "se_request_no (sealed_session s) = se_request_no s"
  "se_client_ip (sealed_session s) = se_client_ip s"
  by (simp_all add: sealed_session_def Let_def llps_session_refresh_secded_def)

lemma pool_free_banks: "pool_but X cfg k 3 sv \<Longrightarrow> pool_but X cfg k l sv"
  unfolding pool_but_def using free_held_3 by blast

lemma reset_after:
  assumes "only_slot n sv sv'" "pool_inv cfg k l sv" and n: "n < unat (max_clients cfg)"
  defines "sv'' \<equiv> llps_session_reset_free n (of_nat n) sv'"
  shows "se_state (sv_session n sv) = ST_FREE \<Longrightarrow> pool_inv cfg k l sv''"
    "se_state (sv_session n sv) \<noteq> ST_FREE \<Longrightarrow> pool_but {n} cfg k l sv''"
    "session_sealed n sv''" "se_state (sv_session n sv'') = ST_FREE"
    "se_client_fd (sv_session n sv'') = LLPS_INVALID_FD" "se_backend_fd (sv_session n sv'') = LLPS_INVALID_FD"
    "m \<noteq> n \<Longrightarrow> sv_session m sv'' = sv_session m sv" "ip_length n sv'' = ip_length n sv"
proof -
  obtain s rs where sv': "sv' = (sv_put_session n s sv)\<lparr>sv_rs := rs\<rparr>" and inv: "pool_inv cfg k l (sv\<lparr>sv_rs := rs\<rparr>)"
    using only_slot_pool [OF assms(1,2)] by blast
  let ?s = "session_free_fields (of_nat n) (sv_session n sv')"
  have sv'': "sv'' = llps_session_refresh_crc n (sv_put_session n ?s (sv\<lparr>sv_rs := rs\<rparr>))"
    unfolding sv''_def llps_session_reset_free_def by (subst (2) sv') simp
  have c: "session_consistent (of_nat n) ?s" by (rule free_fields_consistent)
  have listed: "of_nat n \<in> set (free_ids sv) \<longleftrightarrow> se_state (sv_session n sv) = ST_FREE"
    using assms(2) n by (simp add: pool_but_def)
  define Y where "Y = (if se_state (sv_session n sv) = ST_FREE then {} else {n})"
  have "n \<notin> Y \<Longrightarrow> of_nat n \<in> set (free_ids (sv\<lparr>sv_rs := rs\<rparr>)) \<longleftrightarrow> se_state ?s = ST_FREE"
    "n \<in> Y \<Longrightarrow> of_nat n \<notin> set (free_ids (sv\<lparr>sv_rs := rs\<rparr>))" "Y \<subseteq> {n}"
    using listed by (auto simp: Y_def)
  note seal = pool_seal [OF inv n empty_subsetI c this, folded sv'']
  show "se_state (sv_session n sv) = ST_FREE \<Longrightarrow> pool_inv cfg k l sv''"
    "se_state (sv_session n sv) \<noteq> ST_FREE \<Longrightarrow> pool_but {n} cfg k l sv''"
    using seal(1) by (simp_all add: Y_def)
  show "session_sealed n sv''" by (rule seal(2))
  show "se_state (sv_session n sv'') = ST_FREE" "se_client_fd (sv_session n sv'') = LLPS_INVALID_FD"
    "se_backend_fd (sv_session n sv'') = LLPS_INVALID_FD"
    by (simp_all add: seal(3))
  show "m \<noteq> n \<Longrightarrow> sv_session m sv'' = sv_session m sv" using seal(4) by simp
  show "ip_length n sv'' = ip_length n sv" by (simp add: seal(3) only_slot_ip [OF assms(1)])
qed

lemma close_session_post:
  fixes closes :: "c_int \<Rightarrow> bool" and audit :: audit_env
  assumes inv: "pool_inv cfg k l sv" and n: "n < unat (max_clients cfg)"
  defines "sv' \<equiv> llps_close_session True closes audit n sv"
  shows "pool_inv cfg 3 l sv'" "se_state (sv_session n sv) \<noteq> ST_FREE \<Longrightarrow> pool_inv cfg 3 3 sv'"
    "se_state (sv_session n sv') = ST_FREE"
    "se_client_fd (sv_session n sv') = LLPS_INVALID_FD" "se_backend_fd (sv_session n sv') = LLPS_INVALID_FD"
    "m \<noteq> n \<Longrightarrow> sv_session m sv' = sv_session m sv" "ip_length n sv' = ip_length n sv"
proof -
  have max: "unat (max_clients cfg) \<le> 256" by (rule pool_max(1) [OF inv])
  have idx: "llps_session_index_from_ptr n = Some (of_nat n)" using n max by (simp add: llps_session_index_from_ptr_def)
  have u: "(of_nat n :: u32) < max_clients cfg" using n max by (simp add: word_less_nat_alt unat_of_nat)
  let ?free = "se_state (sv_session n sv) = ST_FREE"
  obtain sv1 where f: "llps_session_is_free n sv = (?free, sv1)" "pool_same sv sv1" "pool_inv cfg 3 l sv1"
    using pool_is_free [OF inv n pool_sealed [OF inv n]] by auto
  have same: "sv_session m sv1 = sv_session m sv" for m using f(2) by (simp add: pool_same_def)
  define sv6 where "sv6 = session_close_fd closes se_backend_fd se_backend_fd_update n
    (session_close_fd closes se_client_fd se_client_fd_update n
      (if \<not> ?free then session_close_audit audit n sv1 else sv1))"
  have only: "only_slot n sv1 sv6"
    unfolding sv6_def session_close_audit_def by (simp add: only_slot_intros)
  obtain s rs where s6: "sv6 = (sv_put_session n s sv1)\<lparr>sv_rs := rs\<rparr>" "pool_inv cfg 3 l (sv1\<lparr>sv_rs := rs\<rparr>)"
    using only_slot_pool [OF only f(3)] by blast
  then have cfg6: "sv_cfg sv6 = cfg" unfolding pool_but_def by (simp add: sv_cfg_def)
  let ?sv7 = "llps_session_reset_free n (of_nat n) sv6"
  have sv': "sv' = (if \<not> ?free then llps_return_session_to_freelist True (of_nat n) ?sv7 else ?sv7)"
    using u cfg6 unfolding sv'_def llps_close_session_def f(1)
    by (simp add: idx Let_def sv6_def [symmetric] linorder_not_le [symmetric])
  note reset = reset_after [OF only f(3) n, unfolded same]
  have post: "pool_inv cfg 3 l sv' \<and> (\<not> ?free \<longrightarrow> pool_inv cfg 3 3 sv') \<and> (\<forall>m. sv_session m sv' = sv_session m ?sv7)"
  proof (cases ?free)
    case True
    then show ?thesis using reset(1) by (simp add: sv')
  next
    case False
    then show ?thesis
      using return_to_freelist_post [OF reset(2) n reset(3,4)] pool_free_banks unfolding sv' by auto
  qed
  show "pool_inv cfg 3 l sv'" "\<not> ?free \<Longrightarrow> pool_inv cfg 3 3 sv'" "se_state (sv_session n sv') = ST_FREE"
    "se_client_fd (sv_session n sv') = LLPS_INVALID_FD" "se_backend_fd (sv_session n sv') = LLPS_INVALID_FD"
    "m \<noteq> n \<Longrightarrow> sv_session m sv' = sv_session m sv" "ip_length n sv' = ip_length n sv"
    using post reset(4-6) reset(7) [of m] reset(8) by simp_all
qed

text \<open>A slot that was found is opened for a client.\<close>

lemma open_session_post:
  fixes fd :: c_int and ip :: "u8 list option" and port :: u16 and no now :: u64
  assumes inv: "pool_but {n} cfg k l sv" and n: "n < unat (max_clients cfg)"
  defines "sv' \<equiv> llps_session_prepare_active_with_peer n (of_nat n) fd ip port no now sv"
  shows "pool_inv cfg k l sv'" "se_state (sv_session n sv') = ST_ACTIVE" "se_client_fd (sv_session n sv') = fd"
    "m \<noteq> n \<Longrightarrow> sv_session m sv' = sv_session m sv"
    "sv_session n sv' = sealed_session (session_active_fields (of_nat n) fd ip port no now (sv_session n sv))"
proof -
  obtain rs where rs: "llps_llam_now_ns_checked now (sv_rs sv) = (now, rs)" "same_banks (sv_rs sv) rs"
    by (simp add: now_checked_eq same_banks_def)
  let ?s = "session_active_fields (of_nat n) fd ip port no now (sv_session n sv)"
  have sv': "sv' = llps_session_refresh_crc n (sv_put_session n ?s (sv\<lparr>sv_rs := rs\<rparr>))"
    by (simp add: sv'_def llps_session_prepare_active_with_peer_def rs(1))
  have out: "of_nat n \<notin> set (free_ids sv)" using inv n by (simp add: pool_but_def)
  note seal = pool_seal [OF pool_same_banks [OF inv rs(2)] n _ active_fields_consistent [of "of_nat n" fd ip port no now], where Y = "{}"]
  show "pool_inv cfg k l sv'" "se_state (sv_session n sv') = ST_ACTIVE" "se_client_fd (sv_session n sv') = fd"
    "m \<noteq> n \<Longrightarrow> sv_session m sv' = sv_session m sv"
    "sv_session n sv' = sealed_session (session_active_fields (of_nat n) fd ip port no now (sv_session n sv))"
    unfolding sv' using out seal(1) seal(3) seal(4) [of _ m] by auto
qed

section \<open>The initial pool\<close>

lemma assign_entries_eq:
  "foldl (\<lambda>sv i. sv\<lparr>sv_free := ((fst (sv_free sv))[i := f (max_clients (sv_cfg sv)) i], snd (sv_free sv))\<rparr>) sv xs =
   sv\<lparr>sv_free := (foldl (\<lambda>e i. e[i := f (max_clients (sv_cfg sv)) i]) (fst (sv_free sv)) xs, snd (sv_free sv))\<rparr>"
  by (induction xs arbitrary: sv) (simp_all add: sv_cfg_def)

lemma sv_free_frame [simp]:
  "sv_session n (sv\<lparr>sv_free := x\<rparr>) = sv_session n sv" "sv_shape (sv\<lparr>sv_free := x\<rparr>) = sv_shape sv"
  "session_sealed n (sv\<lparr>sv_free := x\<rparr>) = session_sealed n sv" "sv_cfg (sv\<lparr>sv_free := x\<rparr>) = sv_cfg sv"
  by (simp_all add: sv_session_def sv_shape_def session_sealed_def sv_cfg_def)

text \<open>The globals before the pool is prepared.\<close>

definition pool_ready :: "llps_yml_config_t \<Rightarrow> nat \<Rightarrow> server_state \<Rightarrow> bool" where
  "pool_ready cfg k sv \<longleftrightarrow> sv_shape sv \<and> sv_cfg sv = cfg \<and> cfg_held k cfg (rs_env (sv_rs sv)) \<and>
     length (env_free_banks (rs_env (sv_rs sv))) = 3 \<and> length (fst (sv_free sv)) = unat LLPS_MAX_CLIENTS"

lemma reset_prefix:
  assumes P: "pool_ready cfg k sv" "\<And>n. n < i \<Longrightarrow> session_sealed n sv \<and> se_state (sv_session n sv) = ST_FREE" and i: "i < 256"
  defines "sv' \<equiv> llps_session_reset_free i (of_nat i) sv"
  shows "pool_ready cfg k sv'" "n < Suc i \<Longrightarrow> session_sealed n sv' \<and> se_state (sv_session n sv') = ST_FREE"
proof -
  have shape: "sv_shape sv" using P(1) by (simp add: pool_ready_def)
  note r = put_refresh_seals [OF shape i free_fields_consistent [of "of_nat i" "sv_session i sv"],
      folded llps_session_reset_free_def, folded sv'_def]
  obtain sc where sc: "sv_rs sv' = sv_rs (sv_set_counters sc sv)" using r(6) by blast
  show "pool_ready cfg k sv'"
    using P(1) r(2) by (simp add: pool_ready_def sv_cfg_def sc r(7))
  show "n < Suc i \<Longrightarrow> session_sealed n sv' \<and> se_state (sv_session n sv') = ST_FREE"
    using P(2) [of n] r(1,3) r(4,5) [of n] i by (cases "n = i") auto
qed

lemma descending_entries:
  fixes m :: u32
  assumes m: "unat m \<le> length entries"
  defines "es \<equiv> take (unat m) (foldl (\<lambda>e i. e[i := (m - 1) - of_nat i]) entries [0..<unat m])"
  shows "distinct es" "i \<in> set es \<longleftrightarrow> i < m"
proof -
  have len: "length es = unat m" using m by (simp add: es_def foldl_assign)
  have nth: "es ! p = (m - 1) - of_nat p" if "p < unat m" for p
    using that m by (simp add: es_def foldl_assign)
  have u: "unat (es ! p) = unat m - 1 - p" if "p < unat m" for p
  proof -
    have "m \<noteq> 0" using that by auto
    then have "unat (m - 1) = unat m - 1" by (simp add: unat_minus_one)
    moreover have "(of_nat p :: u32) \<le> m - 1"
      using that calculation by (simp add: word_le_nat_alt unat_of_nat unsigned_less order_le_less_trans [OF mod_less_eq_dividend])
    moreover have "unat m < 4294967296" by (rule order_less_le_trans [OF unsigned_less]) simp
    ultimately show ?thesis using that by (simp add: nth unat_sub unat_of_nat)
  qed
  show "distinct es" unfolding distinct_conv_nth len
    using u by (auto dest!: arg_cong [of _ _ unat])
  show "i \<in> set es \<longleftrightarrow> i < m"
  proof
    assume "i \<in> set es"
    then obtain p where "p < unat m" "i = es ! p" using len by (auto simp: in_set_conv_nth)
    then show "i < m" using u [of p] by (simp add: word_less_nat_alt)
  next
    assume "i < m"
    then have i: "unat i < unat m" by (simp add: word_less_nat_alt)
    then have "unat (es ! (unat m - 1 - unat i)) = unat i" by (subst u) auto
    then have "es ! (unat m - 1 - unat i) = i" by (simp only: word_unat_eq_iff)
    moreover have "unat m - 1 - unat i < length es" using i len by simp
    ultimately show "i \<in> set es" by (metis nth_mem)
  qed
qed

lemma init_pool:
  assumes ready: "pool_ready cfg k sv"
  shows "pool_inv cfg k 3 (llps_init_prepare_session_pool sv)"
    "free_slots (llps_init_prepare_session_pool sv) = {..<unat (max_clients cfg)}"
proof -
  let ?f = "\<lambda>sv i. let sv = llps_session_reset_free i (of_nat i) sv
                  in sv\<lparr>sv_free := ((fst (sv_free sv))[i := 0], snd (sv_free sv))\<rparr>"
  define sv1 where "sv1 = foldl ?f sv [0..<256]"
  have "pool_ready cfg k sv1 \<and> (\<forall>n < 256. session_sealed n sv1 \<and> se_state (sv_session n sv1) = ST_FREE)"
    unfolding sv1_def
  proof (rule loop_invariant)
    show "pool_ready cfg k sv \<and> (\<forall>n < 0. session_sealed n sv \<and> se_state (sv_session n sv) = ST_FREE)"
      using ready by simp
    fix i s
    assume i: "i < (256 :: nat)" and P: "pool_ready cfg k s \<and> (\<forall>n < i. session_sealed n s \<and> se_state (sv_session n s) = ST_FREE)"
    then show "pool_ready cfg k (?f s i) \<and> (\<forall>n < Suc i. session_sealed n (?f s i) \<and> se_state (sv_session n (?f s i)) = ST_FREE)"
      using reset_prefix [of cfg k s i] by (simp add: Let_def pool_ready_def)
  qed
  then have sv1: "pool_ready cfg k sv1" "\<And>n. n < 256 \<Longrightarrow> session_sealed n sv1 \<and> se_state (sv_session n sv1) = ST_FREE"
    by blast+
  note facts = sv1(1) [unfolded pool_ready_def]
  let ?m = "max_clients cfg"
  have max: "?m \<le> 256" using facts cfg_held_max_clients(1) by auto
  then have m: "unat ?m \<le> length (fst (sv_free sv1))" "unat ?m \<le> 256" using facts by (simp_all add: word_le_nat_alt)
  let ?e = "foldl (\<lambda>e i. e[i := (?m - 1) - of_nat i]) (fst (sv_free sv1)) [0..<unat ?m]"
  let ?sv2 = "sv1\<lparr>sv_free := (?e, snd (sv_free sv1))\<rparr>"
  have init: "llps_init_prepare_session_pool sv = sv_write_free ?e ?m ?sv2"
    using facts assign_entries_eq [of "\<lambda>m i. (m - 1) - of_nat i" sv1]
    by (simp add: llps_init_prepare_session_pool_def sv1_def [symmetric])
  note entries = descending_entries [OF m(1)]
  have in_pool: "(of_nat n :: u32) < ?m" if "n < unat ?m" for n
    using that m(2) by (simp add: word_less_nat_alt unat_of_nat)
  have "pool_inv cfg k 3 (sv_write_free ?e ?m ?sv2)"
  proof (rule pool_write_free)
    show "length ?e = 256" using facts by (simp add: foldl_assign)
  qed (use facts sv1(2) entries in_pool m(2) in \<open>simp_all\<close>)
  then show "pool_inv cfg k 3 (llps_init_prepare_session_pool sv)" by (simp only: init)
  show "free_slots (llps_init_prepare_session_pool sv) = {..<unat (max_clients cfg)}"
    using facts sv1(2) m(2) by (auto simp: init free_slots_def)
qed

section \<open>The life of the pool\<close>

text \<open>Between two operations one bank of the configuration and one of the free list may be upset.\<close>

definition upset_banks ::
    "nat \<Rightarrow> llps_runtime_cfg_bank_t \<Rightarrow> nat \<Rightarrow> llps_free_list_bank_t \<Rightarrow> server_state \<Rightarrow> server_state" where
  "upset_banks k b l f sv = sv\<lparr>sv_rs := (sv_rs sv)\<lparr>rs_env := (rs_env (sv_rs sv))\<lparr>
     env_cfg_banks := (env_cfg_banks (rs_env (sv_rs sv)))[k := b],
     env_free_banks := (env_free_banks (rs_env (sv_rs sv)))[l := f]\<rparr>\<rparr>\<rparr>"

text \<open>
  The operations: a client is given a slot, a client finds the pool full, and an active session is
  closed. The record of \<open>pool_open\<close> is that of \<^verbatim>\<open>llps_server_assign_session\<close>.
\<close>

inductive pool_step :: "server_state \<Rightarrow> server_state \<Rightarrow> bool" where
  pool_open: "llps_find_free_session True (upset_banks k b l f sv) = ((LLPS_OK, n), sv1) \<Longrightarrow>
     pool_step sv (llps_session_prepare_active_with_peer n (of_nat n) fd ip port no now sv1)"
| pool_full: "llps_find_free_session True (upset_banks k b l f sv) = ((LLPS_E_RANGE, n), sv1) \<Longrightarrow>
     pool_step sv sv1"
| pool_close: "n < unat (max_clients (sv_cfg sv)) \<Longrightarrow> se_state (sv_session n sv) = ST_ACTIVE \<Longrightarrow>
     pool_step sv (llps_close_session True closes audit n (upset_banks k b l f sv))"

inductive_cases pool_stepE: "pool_step sv sv'"

inductive pool_reach :: "llps_yml_config_t \<Rightarrow> server_state \<Rightarrow> bool" for cfg where
  pool_init: "pool_ready cfg 3 sv \<Longrightarrow> pool_reach cfg (llps_init_prepare_session_pool sv)"
| pool_next: "pool_reach cfg sv \<Longrightarrow> pool_step sv sv' \<Longrightarrow> pool_reach cfg sv'"

text \<open>What the pool promises: a set of free slots, from which a slot is taken and to which it is given back.\<close>

inductive slot_step :: "nat set \<Rightarrow> nat set \<Rightarrow> bool" where
  slot_take: "n \<in> F \<Longrightarrow> slot_step F (F - {n})"
| slot_none: "slot_step {} {}"
| slot_give: "n \<notin> F \<Longrightarrow> slot_step F (insert n F)"

inductive_simps slot_step_simps: "slot_step F F'"

lemma upset_pool:
  assumes inv: "pool_inv cfg 3 3 sv" shows "pool_inv cfg k l (upset_banks k b l f sv)"
  unfolding upset_banks_def
  by (rule pool_env [OF inv]) (use inv in \<open>auto simp: pool_but_def cfg_held_def free_held_def sv_cfg_def nth_list_update\<close>)

lemma upset_frame [simp]:
  "sv_session m (upset_banks k b l f sv) = sv_session m sv" "sv_cfg (upset_banks k b l f sv) = sv_cfg sv"
  "free_slots (upset_banks k b l f sv) = free_slots sv"
  by (simp_all add: upset_banks_def sv_cfg_def free_slots_def)

lemma pool_cfg: "pool_but X cfg k l sv \<Longrightarrow> sv_cfg sv = cfg"
  by (simp add: pool_but_def)

lemma pool_step_sound:
  assumes inv: "pool_inv cfg 3 3 sv" and step: "pool_step sv sv'"
  shows "pool_inv cfg 3 3 sv' \<and> slot_step (free_slots sv) (free_slots sv')"
proof -
  have cfg: "sv_cfg sv = cfg" by (rule pool_cfg [OF inv])
  note slots = free_slots_def [of sv, unfolded cfg]
  from step show ?thesis
  proof (rule pool_stepE)
    fix k b l f n sv1 fd ip port no now
    assume 1: "sv' = llps_session_prepare_active_with_peer n (of_nat n) fd ip port no now sv1"
      "llps_find_free_session True (upset_banks k b l f sv) = ((LLPS_OK, n), sv1)"
    note find = find_free_session_post [OF upset_pool [OF inv, where k = k and b = b and l = l and f = f], unfolded upset_frame]
    have "free_slots sv \<noteq> {}" using find 1(2) by (auto split: if_splits)
    then have n: "n \<in> free_slots sv" "pool_but {n} cfg 3 3 sv1" "\<forall>m. sv_session m sv1 = sv_session m sv"
      using find 1(2) by auto
    then have "n < unat (max_clients cfg)" by (simp add: slots)
    note opened = open_session_post [OF n(2) this, where fd = fd and ip = ip and port = port and no = no and now = now, folded 1(1)]
    have "se_state (sv_session m sv') = ST_FREE \<longleftrightarrow> m \<noteq> n \<and> se_state (sv_session m sv) = ST_FREE" for m
      using opened(2,4) n(3) by (cases "m = n") auto
    then have "free_slots sv' = free_slots sv - {n}"
      using pool_cfg [OF opened(1)] unfolding free_slots_def cfg by auto
    with opened(1) n(1) show ?thesis by (simp add: slot_take)
  next
    fix k b l f n
    assume 2: "llps_find_free_session True (upset_banks k b l f sv) = ((LLPS_E_RANGE, n), sv')"
    note find = find_free_session_post [OF upset_pool [OF inv, where k = k and b = b and l = l and f = f], unfolded upset_frame]
    have "free_slots sv = {}" using find 2 by (auto split: if_splits)
    then have "pool_inv cfg 3 3 sv'" "\<forall>m. sv_session m sv' = sv_session m sv" using find 2 by auto
    moreover from this have "free_slots sv' = free_slots sv"
      using pool_cfg unfolding free_slots_def cfg by simp
    ultimately show ?thesis using \<open>free_slots sv = {}\<close> by (simp add: slot_none)
  next
    fix n closes audit k b l f
    assume 3: "sv' = llps_close_session True closes audit n (upset_banks k b l f sv)"
      "n < unat (max_clients (sv_cfg sv))" "se_state (sv_session n sv) = ST_ACTIVE"
    have n: "n < unat (max_clients cfg)" using 3(2) cfg by simp
    note closed = close_session_post [OF upset_pool [OF inv, where k = k and b = b and l = l and f = f] n,
        where closes = closes and audit = audit, unfolded upset_frame, folded 3(1)]
    have inv': "pool_inv cfg 3 3 sv'" by (rule closed(2)) (use 3(3) in simp)
    have "se_state (sv_session m sv') = (if m = n then ST_FREE else se_state (sv_session m sv))" for m
      using closed(3,6) by auto
    then have "free_slots sv' = insert n (free_slots sv)"
      using n pool_cfg [OF inv'] unfolding free_slots_def cfg by auto
    moreover have "n \<notin> free_slots sv" using 3(3) by (simp add: slots)
    ultimately show ?thesis using inv' by (simp add: slot_give)
  qed
qed

lemma pool_reach_inv: "pool_reach cfg sv \<Longrightarrow> pool_inv cfg 3 3 sv"
  by (induction rule: pool_reach.induct) (use init_pool pool_step_sound in blast)+

section \<open>Properties\<close>

text \<open>
  C3: The pool of sessions implements a set of free slots. Start from the initial pool and let clients
  be given slots, be turned away and have their sessions closed in any order, with one upset bank of
  the configuration and one of the free list before each operation, and with the scheduler contract
  of the runtime holding at each (the argument \<open>True\<close> of the operations): every session stays sealed, the
  free list lists exactly the sessions in state \<^verbatim>\<open>ST_FREE\<close>, each once, and an operation takes one slot
  that was free, finds none only when none is free, or gives one back that was not free. So no slot is
  given to two clients and none is lost.
\<close>

theorem pool_refines_slots:
  assumes "pool_reach cfg sv" "pool_step sv sv'"
  shows "pool_inv cfg 3 3 sv' \<and> slot_step (free_slots sv) (free_slots sv')"
  using pool_step_sound [OF pool_reach_inv [OF assms(1)] assms(2)] .

text \<open>An example: a server with a limit of two sessions for one address.\<close>

definition pool_cfg_example :: llps_yml_config_t where
  "pool_cfg_example = example_cfg\<lparr>max_sessions_per_client_ip := 2\<rparr>"

lemma pool_cfg_valid: "llps_runtime_cfg_values_are_valid pool_cfg_example"
  by code_simp

definition pool_server :: server_state where
  "pool_server = sample_server\<lparr>sv_rs := (sv_rs sample_server)\<lparr>rs_env := (rs_env (sv_rs sample_server))\<lparr>
     env_runtime_cfg := pool_cfg_example, env_cfg_banks := map (\<lambda>i. cfg_bank_from i pool_cfg_example) [0..<3],
     env_free_banks := map (\<lambda>i. free_bank_from i zero_free_snapshot) [0..<3]\<rparr>\<rparr>\<rparr>"

lemma pool_server_ready: "pool_ready pool_cfg_example 3 pool_server"
proof -
  have "cfg_held 3 pool_cfg_example (rs_env (sv_rs pool_server))"
    by (auto simp: pool_server_def cfg_held_def cfg_bank_from_valid pool_cfg_valid)
  moreover have "sv_shape pool_server" using sample_server_shape by (simp add: pool_server_def)
  ultimately show ?thesis by (simp add: pool_ready_def) (simp add: pool_server_def sv_cfg_def sample_server_def)
qed

lemma pool_server_slots: "free_slots (llps_init_prepare_session_pool pool_server) = {..<256}"
  unfolding init_pool(2) [OF pool_server_ready] by (simp add: pool_cfg_example_def example_cfg_def)

theorem pool_refines_slots_witness:
  "\<exists>sv sv'. pool_step sv sv' \<and> pool_inv pool_cfg_example 3 3 sv' \<and> (\<exists>n < 256. free_slots sv' = {..<256} - {n})"
proof -
  let ?sv = "llps_init_prepare_session_pool pool_server"
  let ?cfg = pool_cfg_example
  have inv: "pool_inv ?cfg 3 3 ?sv" by (rule init_pool(1) [OF pool_server_ready])
  have max: "max_clients ?cfg = 256" by (simp add: pool_cfg_example_def example_cfg_def)
  obtain n sv1 where n: "n < 256" "\<forall>m. sv_session m sv1 = sv_session m ?sv" "pool_but {n} ?cfg 3 3 sv1"
    and f: "llps_find_free_session True (upset_banks 0 (cfg_bank_from 1 zero_cfg) 1 (free_bank_from 0 zero_free_snapshot) ?sv) =
      ((LLPS_OK, n), sv1)"
    using find_free_session_post [OF upset_pool [OF inv, where k = 0 and b = "cfg_bank_from 1 zero_cfg" and l = 1 and f = "free_bank_from 0 zero_free_snapshot"],
        unfolded upset_frame pool_server_slots] pool_server_slots
    by (auto simp: lessThan_empty_iff simp del: One_nat_def)
  let ?sv' = "llps_session_prepare_active_with_peer n (of_nat n) 7 None 80 1 9 sv1"
  have step: "pool_step ?sv ?sv'" by (rule pool_open [OF f])
  have n': "n < unat (max_clients ?cfg)" using n(1) by (simp add: max)
  note opened = open_session_post [OF n(3) n', where fd = 7 and ip = None and port = 80 and no = 1 and now = 9]
  have s: "se_state (sv_session m ?sv') = ST_FREE \<longleftrightarrow> m \<noteq> n \<and> se_state (sv_session m ?sv) = ST_FREE" for m
    using opened(2,4) n(2) by (cases "m = n") auto
  have "free_slots ?sv' = free_slots ?sv - {n}"
    using s pool_cfg [OF opened(1)] pool_cfg [OF inv] unfolding free_slots_def by auto
  then show ?thesis
    using step pool_refines_slots [OF pool_init [OF pool_server_ready] step] n(1) pool_server_slots by auto
qed

lemma is_free_sealed:
  assumes "cfg_held k cfg (rs_env (sv_rs sv))" "n < unat (max_clients cfg)" "sv_shape sv" "session_sealed n sv"
  shows "fst (llps_session_is_free n sv) \<longleftrightarrow> se_state (sv_session n sv) = ST_FREE"
  using reconcile_sealed [OF assms] by (auto simp: llps_session_is_free_def)

text \<open>
  C24: The test of a slot does not keep it from being handed out. When the slot on top of the free list
  belongs to an active session that passes every check, the test for a free session fails, a contract
  violation is counted, and the slot is returned with \<^verbatim>\<open>LLPS_OK\<close> nevertheless, because the
  \<^verbatim>\<open>continue\<close> of the failed expectation never leaves the macro: the next client is given a slot that
  another client is using.
\<close>

theorem find_free_hands_out_active:
  assumes "cfg_held k cfg (rs_env (sv_rs sv))" "free_held l (max_clients cfg) s (rs_env (sv_rs sv))"
    and "fls_count s \<noteq> 0" "n = unat (fls_entries s ! unat (fls_count s - 1))" "n < unat (max_clients cfg)"
    and "sv_shape sv" "session_sealed n sv" "se_state (sv_session n sv) = ST_ACTIVE"
  shows "\<not> fst (llps_session_is_free n sv) \<and> fst (llps_find_free_session True sv) = (LLPS_OK, n)"
proof
  show "\<not> fst (llps_session_is_free n sv)" using is_free_sealed [OF assms(1,5-7)] assms(8) by simp
  obtain env where "llps_free_list_reconcile (sv_free sv) (rs_env (sv_rs sv)) = (True, (fls_entries s, fls_count s), env)"
    using free_reconcile_held [OF assms(1,2)] by blast
  then show "fst (llps_find_free_session True sv) = (LLPS_OK, n)"
    using assms(3,4)
    by (simp add: llps_find_free_session_def llps_free_list_scheduler_contract_is_valid_def sv_reconcile_free_def
        find_free_turn_def Let_def case_prod_beta)
qed

theorem find_free_hands_out_active_witness:
  "\<exists>sv. se_state (sv_session 5 sv) = ST_ACTIVE \<and> se_client_fd (sv_session 5 sv) = 7 \<and>
     fst (llps_find_free_session True sv) = (LLPS_OK, 5)"
proof -
  let ?s = "\<lparr>fls_count = 1, fls_entries = 5 # replicate 255 0\<rparr>"
  let ?env = "(rs_env (sv_rs sample_open))\<lparr>env_free_banks := tmr_write_all free_bank_from ?s\<rparr>"
  let ?sv = "sample_open\<lparr>sv_rs := (sv_rs sample_open)\<lparr>rs_env := ?env\<rparr>\<rparr>"
  have max: "max_clients limited_cfg = 256" by (simp add: limited_cfg_def example_cfg_def)
  have "cfg_held 0 limited_cfg (rs_env (sv_rs ?sv))" using sample_open_sealed(3) by (simp add: cfg_held_def)
  moreover have "free_held 3 (max_clients limited_cfg) ?s (rs_env (sv_rs ?sv))"
    using flist.holds_write_all [of ?s "max_clients limited_cfg"]
    by (simp add: max free_held_def flist.holds_def tmr_write_all_def bank_count_simps)
  ultimately have "fst (llps_find_free_session True ?sv) = (LLPS_OK, 5)"
    using find_free_hands_out_active [of 0 limited_cfg ?sv 3 ?s 5] sample_open_sealed(1,2) session_fields_of_sample(1)
    by (simp add: max)
  then show ?thesis using session_fields_of_sample by (intro exI [of _ ?sv]) simp
qed

end
