(* ===== verification/Accept_Path.thy ===== *)
theory Accept_Path
  imports Session_Pool
begin

text \<open>
  The path of a new client, from \<^verbatim>\<open>src/core/llps_state.c\<close> and \<^verbatim>\<open>src/net/llps_net.c\<close>: the peer's address as
  text, accept errors, the limits for one address, the set-up of the descriptor, the assignment of a
  session and the bounded batch of accepts. What the operating system and the coroutine runtime answer
  is an argument; log output is left out.
\<close>

section \<open>Definitions\<close>

subsection \<open>The limit of sessions for one address\<close>

text \<open>
  The limit of sessions for one client address. The bound of the loop is read again in every turn;
  it is at most \<^verbatim>\<open>LLPS_MAX_CLIENTS\<close> whenever the configuration is sound. The result, the number of
  sessions found and the limit.
\<close>

fun session_limit_loop :: "u8 list \<Rightarrow> u32 \<Rightarrow> nat list \<Rightarrow> server_state \<Rightarrow> u32 \<times> server_state" where
  "session_limit_loop client_ip found [] sv = (found, sv)"
| "session_limit_loop client_ip found (i # indices) sv =
     (if \<not> i < unat (max_clients (sv_cfg sv)) then (found, sv)
      else (case llps_session_is_active i sv of
              (is_active, sv) \<Rightarrow>
                session_limit_loop client_ip
                  (if is_active \<and> llps_client_ip_text_matches (se_client_ip (sv_session i sv)) client_ip
                   then found + 1 else found) indices sv))"

definition llps_client_ip_session_limit_exceeded ::
    "u8 list option \<Rightarrow> server_state \<Rightarrow> (bool \<times> u32 \<times> u32) \<times> server_state" where
  "llps_client_ip_session_limit_exceeded client_ip sv =
     (case sv_reconcile_cfg sv of
        (False, sv) \<Rightarrow> ((True, 0, 0), sv\<lparr>sv_rs := expect_shutdown (sv_rs sv)\<rparr>)
      | (True, sv) \<Rightarrow>
          (let limit = max_sessions_per_client_ip (sv_cfg sv)
           in case client_ip of
                None \<Rightarrow> ((False, 0, limit), sv)
              | Some ip \<Rightarrow>
                  if limit = 0 \<or> ip ! 0 = 0 then ((False, 0, limit), sv)
                  else (case session_limit_loop ip 0 [0..<unat LLPS_MAX_CLIENTS] sv of
                          (found, sv) \<Rightarrow> ((found \<ge> limit, found, limit), sv))))"

subsection \<open>The peer's address\<close>

text \<open>A socket address as the kernel fills it in: family, port in host order and the four address bytes.\<close>

record sockaddr_in =
  sa_family :: u16
  sin_port :: u16
  sin_addr :: "u8 list"

abbreviation AF_INET :: u16 where
  "AF_INET \<equiv> 2"

abbreviation LLPS_IPV4_TEXT_LEN :: nat where
  "LLPS_IPV4_TEXT_LEN \<equiv> 16"

abbreviation sizeof_sockaddr_in :: u32 where
  "sizeof_sockaddr_in \<equiv> 16"

text \<open>\<^verbatim>\<open>inet_ntop\<close> of an IPv4 address: decimal bytes with dots, without leading zeros.\<close>

fun decimal :: "nat \<Rightarrow> u8 list" where
  "decimal n = (if n < 10 then [0x30 + of_nat n] else decimal (n div 10) @ [0x30 + of_nat (n mod 10)])"

definition dotted_quad :: "u8 list \<Rightarrow> u8 list" where
  "dotted_quad addr = decimal (unat (addr ! 0)) @ [0x2E] @ decimal (unat (addr ! 1)) @ [0x2E] @
     decimal (unat (addr ! 2)) @ [0x2E] @ decimal (unat (addr ! 3))"

definition inet_ntop :: "u8 list \<Rightarrow> u8 list \<Rightarrow> u8 list" where
  "inet_ntop addr out = dotted_quad addr @ 0 # drop (Suc (length (dotted_quad addr))) out"

text \<open>The status, the text buffer and the port; an absent address is \<open>None\<close>.\<close>

definition llps_sockaddr_ipv4_text_len ::
    "sockaddr_in option \<Rightarrow> u32 \<Rightarrow> u8 list \<Rightarrow> nat \<Rightarrow> u16 \<Rightarrow> llps_status_t \<times> u8 list \<times> u16" where
  "llps_sockaddr_ipv4_text_len addr addr_len out_ip out_ip_cap out_port =
     (case addr of
        None \<Rightarrow> (LLPS_E_NULL, out_ip, out_port)
      | Some a \<Rightarrow>
          if out_ip_cap < LLPS_IPV4_TEXT_LEN then (LLPS_E_RANGE, out_ip, out_port)
          else if addr_len < sizeof_sockaddr_in then (LLPS_E_RANGE, out_ip, out_port)
          else if sa_family a \<noteq> AF_INET then (LLPS_E_SOCKET, out_ip, out_port)
          else (LLPS_OK, inet_ntop (sin_addr a) out_ip, sin_port a))"

definition llps_peer_text_from_sockaddr :: "sockaddr_in option \<Rightarrow> u32 \<Rightarrow> nat \<Rightarrow> u8 list \<times> u16" where
  "llps_peer_text_from_sockaddr addr addr_len out_ip_cap =
     (let out_ip = replicate out_ip_cap 0;
          out_ip = snd (llps_state_copy_text out_ip out_ip_cap unknown_ip)
      in case addr of
           None \<Rightarrow> (out_ip, 0)
         | Some a \<Rightarrow> snd (llps_sockaddr_ipv4_text_len (Some a) addr_len out_ip out_ip_cap 0))"

subsection \<open>Descriptors\<close>

text \<open>The arguments before the descriptor are what the system calls return.\<close>

definition llps_set_nonblocking :: "c_int \<Rightarrow> c_int \<Rightarrow> c_int \<Rightarrow> llps_status_t" where
  "llps_set_nonblocking getfl setfl fd =
     (if \<not> llps_fd_is_valid fd then LLPS_E_RANGE
      else if sint getfl < 0 then LLPS_E_SOCKET
      else if sint setfl < 0 then LLPS_E_SOCKET
      else LLPS_OK)"

definition llps_set_close_on_exec :: "c_int \<Rightarrow> c_int \<Rightarrow> c_int \<Rightarrow> llps_status_t" where
  "llps_set_close_on_exec getfd setfd fd =
     (if \<not> llps_fd_is_valid fd then LLPS_E_RANGE
      else if sint getfd < 0 then LLPS_E_SOCKET
      else if sint setfd < 0 then LLPS_E_SOCKET
      else LLPS_OK)"

text \<open>Without \<^verbatim>\<open>SO_NOSIGPIPE\<close>, as on Linux.\<close>

definition llps_set_no_sigpipe :: "c_int \<Rightarrow> llps_status_t" where
  "llps_set_no_sigpipe fd = (if \<not> llps_fd_is_valid fd then LLPS_E_RANGE else LLPS_OK)"

definition llps_set_tcp_nodelay :: "c_int \<Rightarrow> c_int \<Rightarrow> llps_status_t" where
  "llps_set_tcp_nodelay rc fd =
     (if \<not> llps_fd_is_valid fd then LLPS_E_RANGE else if rc \<noteq> 0 then LLPS_E_SOCKET else LLPS_OK)"

subsection \<open>Accept errors\<close>

text \<open>The numbers of Linux: all of the optional ones are defined there.\<close>

definition llps_accept_errno_is_retryable :: "c_int \<Rightarrow> bool" where
  "llps_accept_errno_is_retryable err \<longleftrightarrow>
     err \<in> {11, 11, 4, 103} \<or> err = 100 \<or> err = 71 \<or> err = 92 \<or> err = 112 \<or> err = 64 \<or> err = 113 \<or>
     err = 95 \<or> err = 101"

definition llps_accept_errno_is_resource_pressure :: "c_int \<Rightarrow> bool" where
  "llps_accept_errno_is_resource_pressure err \<longleftrightarrow> err = 24 \<or> err = 23 \<or> err = 12 \<or> err = 105"

definition llps_accept_errno_is_listener_fault :: "c_int \<Rightarrow> bool" where
  "llps_accept_errno_is_listener_fault err \<longleftrightarrow> err = 9 \<or> err = 22 \<or> err = 88"

definition sv_shutdown_is_requested :: "server_state \<Rightarrow> bool \<times> server_state" where
  "sv_shutdown_is_requested sv =
     (case llps_control_shutdown_is_requested (rs_control (sv_rs sv)) (sv_counters sv) of
        (requested, cf, sc) \<Rightarrow>
          (requested, sv_set_counters sc (sv\<lparr>sv_rs := (sv_rs sv)\<lparr>rs_control := cf\<rparr>\<rparr>)))"

text \<open>A failed call of the runtime counts as a violation unless the server is stopping.\<close>

definition unless_stopping :: "bool \<Rightarrow> server_state \<Rightarrow> bool \<times> server_state" where
  "unless_stopping failed sv =
     (if \<not> failed then (False, sv)
      else (case sv_shutdown_is_requested sv of
              (requested, sv) \<Rightarrow> if \<not> requested then (True, sv_violation sv) else (False, sv)))"

definition llps_llam_poll_fd_checked ::
    "c_int \<Rightarrow> c_int \<Rightarrow> u16 \<Rightarrow> c_int \<Rightarrow> server_state \<Rightarrow> c_int \<times> server_state" where
  "llps_llam_poll_fd_checked poll_rc fd events timeout_ms sv =
     (if \<not> llps_fd_is_valid fd \<or> events = 0 \<or> sint timeout_ms < -1 then (-1, sv_violation sv)
      else (poll_rc, snd (unless_stopping (sint poll_rc < 0) sv)))"

definition llps_llam_sleep_ms_checked :: "c_int \<Rightarrow> c_int \<Rightarrow> server_state \<Rightarrow> bool \<times> server_state" where
  "llps_llam_sleep_ms_checked sleep_rc sleep_ms sv =
     (if sint sleep_ms \<le> 0 then (True, sv)
      else (case unless_stopping (sleep_rc \<noteq> 0) sv of (violated, sv) \<Rightarrow> (\<not> violated, sv)))"

abbreviation POLLIN :: u16 where
  "POLLIN \<equiv> 1"

text \<open>The pipe the watchdog sleeps on, and what a poll of it and a sleep return.\<close>

record sleep_env =
  sl_pipe_fd :: c_int
  sl_poll_rc :: c_int
  sl_sleep_rc :: c_int

definition llps_watchdog_sleep_ms :: "sleep_env \<Rightarrow> c_int \<Rightarrow> server_state \<Rightarrow> server_state" where
  "llps_watchdog_sleep_ms sl sleep_ms sv =
     (if llps_fd_is_valid (sl_pipe_fd sl)
      then snd (llps_llam_poll_fd_checked (sl_poll_rc sl) (sl_pipe_fd sl) POLLIN sleep_ms sv)
      else snd (llps_llam_sleep_ms_checked (sl_sleep_rc sl) sleep_ms sv))"

abbreviation LLPS_ACCEPT_ERROR_BACKOFF_MS :: c_int where
  "LLPS_ACCEPT_ERROR_BACKOFF_MS \<equiv> 5"

definition llps_handle_accept_error :: "sleep_env \<Rightarrow> c_int \<Rightarrow> server_state \<Rightarrow> bool \<times> server_state" where
  "llps_handle_accept_error sl accept_err sv =
     (let err = (if accept_err \<noteq> 0 then accept_err else 5)
      in if llps_accept_errno_is_retryable err then (True, sv)
         else if llps_accept_errno_is_resource_pressure err
         then (True, llps_watchdog_sleep_ms sl LLPS_ACCEPT_ERROR_BACKOFF_MS sv)
         else if llps_accept_errno_is_listener_fault err then (False, sv_violation sv)
         else (True, llps_watchdog_sleep_ms sl LLPS_ACCEPT_ERROR_BACKOFF_MS sv))"

subsection \<open>Accepting one client\<close>

record llps_accept_client_t =
  ac_client_fd :: c_int
  ac_client_ip :: "u8 list"
  ac_client_port :: u16
  ac_request_no :: u64

text \<open>The globals of the accept loop; \<open>as_running\<close> is \<^verbatim>\<open>*server_running\<close>.\<close>

record accept_state =
  as_server :: server_state
  as_buckets :: "llps_client_ip_rate_bucket_t list"
  as_requests :: request_counter
  as_running :: bool

definition as_update :: "(server_state \<Rightarrow> server_state) \<Rightarrow> accept_state \<Rightarrow> accept_state" where
  "as_update f st = st\<lparr>as_server := f (as_server st)\<rparr>"

text \<open>What \<^verbatim>\<open>accept\<close> returned, with \<^verbatim>\<open>errno\<close> and the peer's address.\<close>

record accept_result =
  ar_fd :: c_int
  ar_errno :: c_int
  ar_addr :: sockaddr_in
  ar_addr_len :: u32
  ar_sleep :: sleep_env

definition llps_server_accept_client ::
    "accept_result \<Rightarrow> accept_state \<Rightarrow> llps_accept_client_t option \<times> accept_state" where
  "llps_server_accept_client ar st =
     (if sint (ar_fd ar) < 0
      then (case llps_handle_accept_error (ar_sleep ar) (ar_errno ar) (as_server st) of
              (go_on, sv) \<Rightarrow>
                (None, if \<not> go_on then st\<lparr>as_server := sv, as_running := False\<rparr> else st\<lparr>as_server := sv\<rparr>))
      else (case llps_peer_text_from_sockaddr (Some (ar_addr ar)) (ar_addr_len ar) LLPS_CLIENT_IP_TEXT_LEN of
              (client_ip, client_port) \<Rightarrow>
                (case llps_next_request_no (as_requests st) of
                   (None, rc) \<Rightarrow>
                     (None, as_update (sv_request_shutdown \<circ> sv_violation) (st\<lparr>as_requests := rc, as_running := False\<rparr>))
                 | (Some request_no, rc) \<Rightarrow>
                     (Some \<lparr>ac_client_fd = ar_fd ar, ac_client_ip = client_ip, ac_client_port = client_port,
                            ac_request_no = request_no\<rparr>, st\<lparr>as_requests := rc\<rparr>))))"

text \<open>
  What the environment answers while a client is handled: clock readings, the audit log for each
  reason, the set-up calls of the descriptor, the scheduler checks, the results of \<^verbatim>\<open>close\<close>, and
  whether the task of the connection was started and detached.
\<close>

record handle_env =
  he_rate_now :: u64
  he_audit :: "string \<Rightarrow> audit_env"
  he_getfd :: c_int
  he_setfd :: c_int
  he_getfl :: c_int
  he_setfl :: c_int
  he_nodelay :: c_int
  he_find_contract :: bool
  he_return_contract :: bool
  he_now :: u64
  he_closes :: "c_int \<Rightarrow> bool"
  he_spawned :: bool
  he_detached :: bool

text \<open>Dropping a client: the audit record, and the descriptor is closed.\<close>

definition drop_client ::
    "handle_env \<Rightarrow> string \<Rightarrow> llps_accept_client_t \<Rightarrow> accept_state \<Rightarrow> llps_accept_client_t \<times> accept_state" where
  "drop_client he reason client st =
     (case llps_record_ip_audit_event (he_audit he reason) (ac_client_ip client) (text_bytes reason) (as_server st) of
        (ok, sv) \<Rightarrow>
          (client\<lparr>ac_client_fd := snd (llps_close_connected_fd (he_closes he) (ac_client_fd client))\<rparr>,
           if \<not> ok then st\<lparr>as_server := sv, as_running := False\<rparr> else st\<lparr>as_server := sv\<rparr>))"

fun rate_reason_text :: "rate_reason \<Rightarrow> string" where
  "rate_reason_text client_ip_rate_limit = ''client_ip_rate_limit''"
| "rate_reason_text client_ip_rate_config_fault = ''client_ip_rate_config_fault''"
| "rate_reason_text client_ip_rate_time_fault = ''client_ip_rate_time_fault''"
| "rate_reason_text client_ip_rate_integrity = ''client_ip_rate_integrity''"
| "rate_reason_text client_ip_rate_table_full = ''client_ip_rate_table_full''"

text \<open>The first result says whether the client was dropped.\<close>

definition llps_server_drop_for_rate_limit ::
    "handle_env \<Rightarrow> llps_accept_client_t \<Rightarrow> accept_state \<Rightarrow> bool \<times> llps_accept_client_t \<times> accept_state" where
  "llps_server_drop_for_rate_limit he client st =
     (case llps_client_ip_rate_limit_exceeded (ac_client_ip client) (he_rate_now he)
             \<lparr>rate_rs = sv_rs (as_server st), g_client_ip_rate_buckets = as_buckets st\<rparr> of
        (refused, out, rate) \<Rightarrow>
          (let st = st\<lparr>as_server := (as_server st)\<lparr>sv_rs := rate_rs rate\<rparr>,
                       as_buckets := g_client_ip_rate_buckets rate\<rparr>
           in if \<not> refused then (False, client, st)
              else (True, drop_client he (rate_reason_text (out_reason out)) client st)))"

definition llps_server_drop_for_session_limit ::
    "handle_env \<Rightarrow> llps_accept_client_t \<Rightarrow> accept_state \<Rightarrow> bool \<times> llps_accept_client_t \<times> accept_state" where
  "llps_server_drop_for_session_limit he client st =
     (case llps_client_ip_session_limit_exceeded (Some (ac_client_ip client)) (as_server st) of
        ((exceeded, _, _), sv) \<Rightarrow>
          (let st = st\<lparr>as_server := sv\<rparr>
           in if \<not> exceeded then (False, client, st)
              else (True, drop_client he ''client_ip_limit'' client st)))"

definition llps_server_setup_client_fd ::
    "handle_env \<Rightarrow> llps_accept_client_t \<Rightarrow> accept_state \<Rightarrow> bool \<times> llps_accept_client_t \<times> accept_state" where
  "llps_server_setup_client_fd he client st =
     (if llps_set_close_on_exec (he_getfd he) (he_setfd he) (ac_client_fd client) = LLPS_OK \<and>
         llps_set_nonblocking (he_getfl he) (he_setfl he) (ac_client_fd client) = LLPS_OK \<and>
         llps_set_no_sigpipe (ac_client_fd client) = LLPS_OK \<and>
         llps_set_tcp_nodelay (he_nodelay he) (ac_client_fd client) = LLPS_OK
      then (True, client, st)
      else (False, drop_client he ''fd_setup_failed'' client st))"

definition llps_server_drop_pool_full ::
    "handle_env \<Rightarrow> llps_accept_client_t \<Rightarrow> accept_state \<Rightarrow> llps_accept_client_t \<times> accept_state" where
  "llps_server_drop_pool_full he client st = drop_client he ''session_pool_full'' client st"

text \<open>Closing the session of a slot with the answers of this environment.\<close>

definition close_assigned :: "handle_env \<Rightarrow> nat \<Rightarrow> server_state \<Rightarrow> server_state" where
  "close_assigned he n = llps_close_session (he_return_contract he) (he_closes he) (he_audit he ''closed'') n"

text \<open>The task runs later; a failed detach shuts the descriptors down, which changes no state.\<close>

definition llps_server_spawn_connection :: "handle_env \<Rightarrow> nat \<Rightarrow> server_state \<Rightarrow> bool \<times> server_state" where
  "llps_server_spawn_connection he n sv =
     (if \<not> he_spawned he
      then (let sv = sv_violation sv;
                sv = snd (llps_record_ip_audit_event (he_audit he ''connection_spawn'')
                       (se_client_ip (sv_session n sv)) (text_bytes ''connection_spawn'') sv)
            in (False, close_assigned he n sv))
      else if \<not> he_detached he then (True, sv_violation (sv_violation sv))
      else (True, sv))"

definition llps_server_assign_session ::
    "handle_env \<Rightarrow> llps_accept_client_t \<Rightarrow> accept_state \<Rightarrow> bool \<times> llps_accept_client_t \<times> accept_state" where
  "llps_server_assign_session he client st =
     (case llps_find_free_session (he_find_contract he) (as_server st) of
        ((status, n), sv) \<Rightarrow>
          if status \<noteq> LLPS_OK
          then (False, llps_server_drop_pool_full he client (st\<lparr>as_server := sv\<rparr>))
          else
            (let sv = llps_session_prepare_active_with_peer n (of_nat n) (ac_client_fd client)
                        (Some (ac_client_ip client)) (ac_client_port client) (ac_request_no client) (he_now he) sv;
                 (ok, sv) = llps_record_ip_audit_event (he_audit he ''accepted'') (se_client_ip (sv_session n sv))
                        (text_bytes ''accepted'') sv
             in if \<not> ok
                then (False, client, st\<lparr>as_server := close_assigned he n sv, as_running := False\<rparr>)
                else (True, client, st\<lparr>as_server := snd (llps_server_spawn_connection he n sv)\<rparr>)))"

definition llps_server_handle_client ::
    "handle_env \<Rightarrow> llps_accept_client_t \<Rightarrow> accept_state \<Rightarrow> llps_accept_client_t \<times> accept_state" where
  "llps_server_handle_client he client st =
     (case llps_server_drop_for_rate_limit he client st of
        (True, client, st) \<Rightarrow> (client, st)
      | (False, client, st) \<Rightarrow>
          (case llps_server_drop_for_session_limit he client st of
             (True, client, st) \<Rightarrow> (client, st)
           | (False, client, st) \<Rightarrow>
               (case llps_server_setup_client_fd he client st of
                  (False, client, st) \<Rightarrow> (client, st)
                | (True, client, st) \<Rightarrow> snd (llps_server_assign_session he client st))))"

text \<open>
  A batch: the count of the clients taken so far, and what the environment answers for each of the
  next ones. The loop ends when the batch is full, when no client is waiting or when the server stops.
\<close>

fun accept_batch_loop :: "u32 \<Rightarrow> (accept_result \<times> handle_env) list \<Rightarrow> accept_state \<Rightarrow> accept_state" where
  "accept_batch_loop batch_count [] st = st"
| "accept_batch_loop batch_count ((ar, he) # answers) st =
     (if \<not> batch_count < accept_batch_max (sv_cfg (as_server st)) then st
      else (case llps_server_accept_client ar st of
              (None, st) \<Rightarrow> st
            | (Some client, st) \<Rightarrow>
                (let st = snd (llps_server_handle_client he client st)
                 in if \<not> as_running st then st else accept_batch_loop (batch_count + 1) answers st)))"

definition llps_server_accept_batch :: "(accept_result \<times> handle_env) list \<Rightarrow> accept_state \<Rightarrow> accept_state" where
  "llps_server_accept_batch answers st = accept_batch_loop 0 answers st"

section \<open>Addresses\<close>

text \<open>The address of every active session is a text of its array.\<close>

definition addresses_ok :: "server_state \<Rightarrow> bool" where
  "addresses_ok sv \<longleftrightarrow> (\<forall>n < unat LLPS_MAX_CLIENTS. ip_length n sv = LLPS_CLIENT_IP_TEXT_LEN \<and>
     (se_state (sv_session n sv) = ST_ACTIVE \<longrightarrow> terminated LLPS_CLIENT_IP_TEXT_LEN (se_client_ip (sv_session n sv))))"

text \<open>The active sessions of an address.\<close>

definition sessions_from :: "u8 list \<Rightarrow> server_state \<Rightarrow> nat set" where
  "sessions_from a sv = {n. n < unat (max_clients (sv_cfg sv)) \<and> se_state (sv_session n sv) = ST_ACTIVE \<and>
     text_of LLPS_CLIENT_IP_TEXT_LEN (se_client_ip (sv_session n sv)) = a}"

lemma finite_sessions_from [simp]: "finite (sessions_from a sv)"
  by (simp add: sessions_from_def)

lemma sessions_from_same:
  "sv_cfg sv' = sv_cfg sv \<Longrightarrow> (\<And>m. sv_session m sv' = sv_session m sv) \<Longrightarrow> sessions_from a sv' = sessions_from a sv"
  by (simp add: sessions_from_def)

lemma addresses_ok_same: "(\<And>m. sv_session m sv' = sv_session m sv) \<Longrightarrow> addresses_ok sv' = addresses_ok sv"
  by (simp add: addresses_ok_def)

text \<open>Weaker assumptions on the banks.\<close>

lemma pool_weaken: "pool_but X cfg 3 l sv \<Longrightarrow> pool_but X cfg k l sv"
  unfolding pool_but_def using cfg_held_3 by blast

section \<open>The limit of sessions\<close>

lemma session_limit_loop_post:
  assumes "pool_inv cfg 3 l sv" "i \<le> 256"
  shows "\<exists>sv'. session_limit_loop ip found [i..<256] sv =
      (found + of_nat (card {n. i \<le> n \<and> n < unat (max_clients cfg) \<and> se_state (sv_session n sv) = ST_ACTIVE \<and>
          llps_client_ip_text_matches (se_client_ip (sv_session n sv)) ip}), sv') \<and>
    pool_same sv sv' \<and> pool_inv cfg 3 l sv'"
  using assms
proof (induction "256 - i" arbitrary: i found sv)
  case 0
  have "unat (max_clients cfg) \<le> 256" by (rule pool_max(1) [OF 0(2)])
  with 0 have i: "i = 256" and e: "{n. i \<le> n \<and> n < unat (max_clients cfg) \<and> se_state (sv_session n sv) = ST_ACTIVE \<and>
          llps_client_ip_text_matches (se_client_ip (sv_session n sv)) ip} = {}" by auto
  show ?case unfolding e using 0 i by (simp add: pool_same_def)
next
  case (Suc d)
  let ?P = "\<lambda>i sv. {n. i \<le> n \<and> n < unat (max_clients cfg) \<and> se_state (sv_session n sv) = ST_ACTIVE \<and>
          llps_client_ip_text_matches (se_client_ip (sv_session n sv)) ip}"
  have i: "i < 256" using Suc.hyps(2) by simp
  then have upt: "[i..<256] = i # [Suc i..<256]" by (rule upt_conv_Cons)
  have cfg: "sv_cfg sv = cfg" by (rule pool_cfg [OF Suc.prems(1)])
  show ?case
  proof (cases "i < unat (max_clients cfg)")
    case False
    then have e: "?P i sv = {}" by auto
    show ?thesis unfolding e upt using Suc.prems False by (simp add: cfg pool_same_def)
  next
    case True
    obtain sv1 where a: "llps_session_is_active i sv = (se_state (sv_session i sv) = ST_ACTIVE, sv1)"
      "pool_same sv sv1" "pool_inv cfg 3 l sv1"
      using pool_is_active [OF Suc.prems(1) True pool_sealed [OF Suc.prems(1) True]] by auto
    have same: "sv_session m sv1 = sv_session m sv" for m using a(2) by (simp add: pool_same_def)
    let ?hit = "se_state (sv_session i sv) = ST_ACTIVE \<and> llps_client_ip_text_matches (se_client_ip (sv_session i sv)) ip"
    have "?P i sv = (if ?hit then insert i (?P (Suc i) sv) else ?P (Suc i) sv)"
      using True by (auto simp: Suc_le_eq le_less)
    then have card: "card (?P i sv) = (if ?hit then Suc (card (?P (Suc i) sv)) else card (?P (Suc i) sv))"
      by simp
    have d: "d = 256 - Suc i" "Suc i \<le> 256" using Suc.hyps(2) i by simp_all
    obtain sv' where l: "session_limit_loop ip (if ?hit then found + 1 else found) [Suc i..<256] sv1 =
        ((if ?hit then found + 1 else found) + of_nat (card (?P (Suc i) sv)), sv')"
      "pool_same sv1 sv'" "pool_inv cfg 3 l sv'"
      using Suc.hyps(1) [OF d(1) a(3) d(2), of "if ?hit then found + 1 else found"] unfolding same by blast
    have "session_limit_loop ip found [i..<256] sv = (found + of_nat (card (?P i sv)), sv')"
      unfolding upt using True l(1) by (simp add: cfg a(1) same card ac_simps)
    then show ?thesis using l(2,3) pool_same_trans [OF a(2)] by blast
  qed
qed

lemma pool_reconcile_cfg:
  assumes inv: "pool_but X cfg k l sv"
  shows "\<exists>sv'. sv_reconcile_cfg sv = (True, sv') \<and> pool_same sv sv' \<and> pool_but X cfg 3 l sv'"
proof -
  have "cfg_held k cfg (rs_env (sv_rs sv))"
    and free: "free_held l (max_clients cfg) (llps_free_list_snapshot_from_canonical (fst (sv_free sv)) (snd (sv_free sv)))
      (rs_env (sv_rs sv))"
    using inv by (auto simp: pool_but_def)
  then obtain rs where rs: "sv_reconcile_cfg sv = (True, sv\<lparr>sv_rs := rs\<rparr>)" "cfg_held 3 cfg (rs_env rs)"
    "env_runtime_cfg (rs_env rs) = cfg" "env_free_banks (rs_env rs) = env_free_banks (rs_env (sv_rs sv))"
    "rs_control rs = rs_control (sv_rs sv)"
    using sv_reconcile_cfg_held by blast
  have "pool_but X cfg 3 l (sv\<lparr>sv_rs := rs\<rparr>)"
    by (rule pool_env [OF inv rs(2,3)]) (use free free_held_env [OF rs(4)] in simp)
  then show ?thesis using rs by (auto simp: pool_same_def)
qed

lemma session_limit_post:
  assumes inv: "pool_inv cfg k l sv" and addr: "addresses_ok sv" and ip: "terminated LLPS_CLIENT_IP_TEXT_LEN ip"
  shows "\<exists>exceeded found sv'. llps_client_ip_session_limit_exceeded (Some ip) sv =
      ((exceeded, found, max_sessions_per_client_ip cfg), sv') \<and> pool_same sv sv' \<and> pool_inv cfg 3 l sv' \<and>
    (if max_sessions_per_client_ip cfg = 0 \<or> ip ! 0 = 0 then \<not> exceeded \<and> found = 0
     else unat found = card (sessions_from (text_of LLPS_CLIENT_IP_TEXT_LEN ip) sv) \<and>
       (exceeded \<longleftrightarrow> unat (max_sessions_per_client_ip cfg) \<le> card (sessions_from (text_of LLPS_CLIENT_IP_TEXT_LEN ip) sv)))"
proof -
  obtain sv1 where r: "sv_reconcile_cfg sv = (True, sv1)" "pool_same sv sv1" "pool_inv cfg 3 l sv1"
    using pool_reconcile_cfg [OF inv] by blast
  have max: "unat (max_clients cfg) \<le> 256" by (rule pool_max(1) [OF inv])
  have same: "sv_session m sv1 = sv_session m sv" for m using r(2) by (simp add: pool_same_def)
  have cfg: "sv_cfg sv = cfg" "sv_cfg sv1 = cfg" by (rule pool_cfg [OF inv], rule pool_cfg [OF r(3)])
  have set: "{n. 0 \<le> n \<and> n < unat (max_clients cfg) \<and> se_state (sv_session n sv1) = ST_ACTIVE \<and>
          llps_client_ip_text_matches (se_client_ip (sv_session n sv1)) ip} =
      sessions_from (text_of LLPS_CLIENT_IP_TEXT_LEN ip) sv"
    using addr max text_matches_iff [OF _ ip] by (auto simp: sessions_from_def same cfg addresses_ok_def)
  obtain sv2 where l: "session_limit_loop ip 0 [0..<256] sv1 =
      (of_nat (card (sessions_from (text_of LLPS_CLIENT_IP_TEXT_LEN ip) sv)), sv2)" "pool_same sv1 sv2" "pool_inv cfg 3 l sv2"
    using session_limit_loop_post [OF r(3), of 0 ip 0] unfolding set by auto
  have "card (sessions_from (text_of LLPS_CLIENT_IP_TEXT_LEN ip) sv) \<le> card {..<unat (max_clients cfg)}"
    by (rule card_mono) (auto simp: sessions_from_def cfg)
  then have small: "card (sessions_from (text_of LLPS_CLIENT_IP_TEXT_LEN ip) sv) \<le> 256" using max by simp
  then have u: "unat (of_nat (card (sessions_from (text_of LLPS_CLIENT_IP_TEXT_LEN ip) sv)) :: u32) =
      card (sessions_from (text_of LLPS_CLIENT_IP_TEXT_LEN ip) sv)" by (simp add: unat_of_nat)
  show ?thesis
    using r(2,3) l pool_same_trans [OF r(2) l(2)] u
    by (cases "max_sessions_per_client_ip cfg = 0 \<or> ip ! 0 = 0")
      (auto simp: llps_client_ip_session_limit_exceeded_def r(1) cfg word_le_nat_alt Let_def)
qed

section \<open>Handling a client\<close>

text \<open>Steps that only count, repair or set the shutdown flag.\<close>

definition only_rs :: "server_state \<Rightarrow> server_state \<Rightarrow> bool" where
  "only_rs sv sv' \<longleftrightarrow> (\<exists>rs. sv' = sv\<lparr>sv_rs := rs\<rparr> \<and> same_banks (sv_rs sv) rs)"

lemma only_rs_refl [simp]: "only_rs sv sv"
  unfolding only_rs_def by (intro exI [of _ "sv_rs sv"]) simp

lemma only_rsI: "same_banks (sv_rs sv) rs \<Longrightarrow> only_rs sv (sv\<lparr>sv_rs := rs\<rparr>)"
  by (auto simp: only_rs_def)

lemma only_rs_trans:
  assumes "only_rs a b" "only_rs b c" shows "only_rs a c"
proof -
  obtain rs where "c = a\<lparr>sv_rs := rs\<rparr>" "same_banks (sv_rs a) rs"
    using assms same_banks_trans unfolding only_rs_def by fastforce
  then show ?thesis by (simp add: only_rsI)
qed

lemma only_rs_violation [simp]: "only_rs sv (sv_violation sv)"
  unfolding sv_violation_def by (rule only_rsI) (simp add: same_banks_def)

lemma only_rs_request [simp]: "only_rs sv (sv_request_shutdown sv)"
  unfolding sv_request_shutdown_def by (rule only_rsI) (simp add: same_banks_def)

lemma only_rs_audit [simp]: "only_rs sv (snd (llps_record_ip_audit_event audit ip reason sv))"
proof -
  have "only_rs sv (sv\<lparr>sv_rs := snd (llps_llam_now_ns_checked now (sv_rs sv))\<rparr>)" for now
    by (rule only_rsI) (simp add: same_banks_def now_checked_eq)
  then show ?thesis
    by (auto simp: llps_record_ip_audit_event_def Let_def intro: only_rs_trans [OF _ only_rs_request])
qed

lemma only_rs_stopping [simp]: "only_rs sv (snd (sv_shutdown_is_requested sv))"
  unfolding sv_shutdown_is_requested_def sv_set_counters_def
  by (auto split: prod.splits simp: same_banks_def intro!: only_rsI)

lemma only_rs_unless_stopping [simp]: "only_rs sv (snd (unless_stopping failed sv))"
proof -
  obtain requested sv1 where s: "sv_shutdown_is_requested sv = (requested, sv1)" by fastforce
  then have "only_rs sv sv1" using only_rs_stopping [of sv, unfolded s] by simp
  with only_rs_trans [OF this only_rs_violation] show ?thesis by (simp add: unless_stopping_def s)
qed

lemma only_rs_sleep [simp]: "only_rs sv (llps_watchdog_sleep_ms sl sleep_ms sv)"
proof -
  have "snd (llps_llam_sleep_ms_checked (sl_sleep_rc sl) sleep_ms sv) =
      (if sint sleep_ms \<le> 0 then sv else snd (unless_stopping (sl_sleep_rc sl \<noteq> 0) sv))"
    by (simp add: llps_llam_sleep_ms_checked_def split: prod.split)
  then show ?thesis by (simp add: llps_watchdog_sleep_ms_def llps_llam_poll_fd_checked_def)
qed

lemma only_rs_accept_error [simp]: "only_rs sv (snd (llps_handle_accept_error sl err sv))"
  by (simp add: llps_handle_accept_error_def Let_def)

lemma only_rs_pool:
  assumes "pool_but X cfg k l sv" "only_rs sv sv'" shows "pool_but X cfg k l sv'"
  using assms pool_same_banks unfolding only_rs_def by blast

lemma only_rs_sessions: "only_rs sv sv' \<Longrightarrow> sv_session m sv' = sv_session m sv"
  by (auto simp: only_rs_def)

text \<open>The rate limiter repairs the configuration and leaves the other banks alone.\<close>

lemma expect_shutdown_banks [simp]: "same_banks rs (expect_shutdown rs)"
  by (simp add: same_banks_def expect_shutdown_def Let_def)

lemma now_checked_banks: "same_banks rs (snd (llps_llam_now_ns_checked now rs))"
  by (simp add: same_banks_def now_checked_eq)

lemma rate_find_banks:
  "same_banks (rate_rs st) (rate_rs (snd (rate_find_loop ip now window search st indices)))"
proof (induction indices arbitrary: search st)
  case (Cons i indices)
  show ?case
    using Cons.IH [where st = "st\<lparr>g_client_ip_rate_buckets := b\<rparr>" for b] Cons.IH [where st = st] by (simp add: Let_def)
qed simp

lemma rate_limit_banks:
  assumes cfg: "cfg_held k cfg (rs_env (rate_rs st))"
    and r: "llps_client_ip_rate_limit_exceeded ip now st = (refused, out, st')"
  shows "cfg_held 3 cfg (rs_env (rate_rs st'))" "env_runtime_cfg (rs_env (rate_rs st')) = cfg"
    "env_free_banks (rs_env (rate_rs st')) = env_free_banks (rs_env (rate_rs st))"
proof -
  obtain rs where rs: "reconcile_cfg (rate_rs st) = (True, rs)" "cfg_held 3 cfg (rs_env rs)"
    "env_runtime_cfg (rs_env rs) = cfg" "env_free_banks (rs_env rs) = env_free_banks (rs_env (rate_rs st))"
    using reconcile_cfg_held [OF cfg] by blast
  have find: "same_banks rs' (rate_rs (snd (llps_client_ip_rate_find_bucket ip now w (st\<lparr>rate_rs := rs'\<rparr>))))" for rs' w
    using rate_find_banks [of "st\<lparr>rate_rs := rs'\<rparr>"] unfolding llps_client_ip_rate_find_bucket_def by simp
  have "same_banks rs (rate_rs st')"
    using r find [of rs] now_checked_banks [of rs now]
    by (auto simp: llps_client_ip_rate_limit_exceeded_def llps_client_ip_rate_load_config_def rs(1) now_checked_eq
        Let_def case_prod_beta split: if_splits)
  then show "cfg_held 3 cfg (rs_env (rate_rs st'))" "env_runtime_cfg (rs_env (rate_rs st')) = cfg"
    "env_free_banks (rs_env (rate_rs st')) = env_free_banks (rs_env (rate_rs st))"
    using rs(2-4) by (simp_all add: same_banks_def cfg_held_def)
qed

section \<open>The invariant of the accept loop\<close>

text \<open>The pool is sound, addresses are texts, and no address has more sessions than the limit.\<close>

definition acc_inv :: "llps_yml_config_t \<Rightarrow> nat \<Rightarrow> nat \<Rightarrow> server_state \<Rightarrow> bool" where
  "acc_inv cfg k l sv \<longleftrightarrow> pool_inv cfg k l sv \<and> addresses_ok sv \<and>
     (max_sessions_per_client_ip cfg \<noteq> 0 \<longrightarrow>
        (\<forall>a. a \<noteq> [] \<longrightarrow> card (sessions_from a sv) \<le> unat (max_sessions_per_client_ip cfg)))"

lemma acc_same:
  assumes "acc_inv cfg k l sv" "pool_inv cfg k' l' sv'" "\<And>m. sv_session m sv' = sv_session m sv"
  shows "acc_inv cfg k' l' sv'"
proof -
  have "sv_cfg sv' = sv_cfg sv" using assms(1,2) unfolding acc_inv_def by (auto dest: pool_cfg)
  from sessions_from_same [OF this assms(3)] addresses_ok_same [OF assms(3)] show ?thesis
    using assms(1,2) by (simp add: acc_inv_def)
qed

lemma acc_pool: "acc_inv cfg k l sv \<Longrightarrow> pool_inv cfg k l sv"
  by (simp add: acc_inv_def)

lemma acc_only_rs:
  assumes "acc_inv cfg k l sv" "only_rs sv sv'" shows "acc_inv cfg k l sv'"
  by (rule acc_same [OF assms(1) only_rs_pool [OF acc_pool [OF assms(1)] assms(2)] only_rs_sessions [OF assms(2)]])

lemma acc_weaken: "acc_inv cfg 3 l sv \<Longrightarrow> acc_inv cfg k l sv"
  by (simp add: acc_inv_def pool_weaken)

lemma acc_free_banks: "acc_inv cfg k 3 sv \<Longrightarrow> acc_inv cfg k l sv"
  by (simp add: acc_inv_def pool_free_banks)

text \<open>Closing keeps it: the sessions of an address only become fewer.\<close>

lemma acc_close:
  assumes inv: "acc_inv cfg k l sv" and n: "n < unat (max_clients cfg)"
  shows "acc_inv cfg 3 l (llps_close_session True closes audit n sv)"
proof -
  let ?sv' = "llps_close_session True closes audit n sv"
  note closed = close_session_post [OF acc_pool [OF inv] n, where closes = closes and audit = audit]
  have cfg: "sv_cfg ?sv' = sv_cfg sv" using pool_cfg [OF closed(1)] pool_cfg [OF acc_pool [OF inv]] by simp
  have other: "sv_session m ?sv' = sv_session m sv" if "m \<noteq> n" for m using closed(6) that .
  have "m \<in> sessions_from a sv" if "m \<in> sessions_from a ?sv'" for m a
    using that other [of m] closed(3) cfg by (cases "m = n") (simp_all add: sessions_from_def)
  then have "card (sessions_from a ?sv') \<le> card (sessions_from a sv)" for a
    by (intro card_mono) auto
  moreover have "addresses_ok ?sv'"
    unfolding addresses_ok_def
  proof (intro allI impI)
    fix m :: nat assume "m < unat LLPS_MAX_CLIENTS"
    then show "ip_length m ?sv' = 16 \<and> (se_state (sv_session m ?sv') = ST_ACTIVE \<longrightarrow> terminated 16 (se_client_ip (sv_session m ?sv')))"
      using inv other [of m] closed(3,7) by (cases "m = n") (auto simp: acc_inv_def addresses_ok_def)
  qed
  ultimately show ?thesis
    using inv closed(1) order_trans unfolding acc_inv_def by blast
qed

text \<open>The address of an opened session.\<close>

lemma opened_ip:
  fixes n :: u32 and fd :: c_int and port :: u16 and no now :: u64
  assumes "length (se_client_ip s) = LLPS_CLIENT_IP_TEXT_LEN" "terminated LLPS_CLIENT_IP_TEXT_LEN ip"
  defines "a \<equiv> se_client_ip (session_active_fields n fd (Some ip) port no now s)"
  shows "length a = LLPS_CLIENT_IP_TEXT_LEN" "terminated LLPS_CLIENT_IP_TEXT_LEN a"
    "text_of LLPS_CLIENT_IP_TEXT_LEN a = text_of LLPS_CLIENT_IP_TEXT_LEN ip"
proof -
  have a: "a = snd (llps_state_copy_text (zeroed (se_client_ip s)) 16 ip)"
    by (simp add: a_def session_active_fields_def session_clear_transfer_def Let_def llps_session_set_state_fields_def)
  have "length (zeroed (se_client_ip s)) = 16" using assms(1) by (simp add: zeroed_def)
  from copy_text_ok [OF assms(2) this]
  show "length a = LLPS_CLIENT_IP_TEXT_LEN" "terminated LLPS_CLIENT_IP_TEXT_LEN a"
    "text_of LLPS_CLIENT_IP_TEXT_LEN a = text_of LLPS_CLIENT_IP_TEXT_LEN ip"
    unfolding a by auto
qed

text \<open>Opening keeps it, when the address is below its limit or has none.\<close>

lemma acc_open:
  assumes inv: "acc_inv cfg k l sv0" and pool: "pool_but {n} cfg 3 3 sv" and same: "\<And>m. sv_session m sv = sv_session m sv0"
    and n: "n \<in> free_slots sv0" and ip: "terminated LLPS_CLIENT_IP_TEXT_LEN ip"
    and below: "max_sessions_per_client_ip cfg = 0 \<or> text_of LLPS_CLIENT_IP_TEXT_LEN ip = [] \<or>
      card (sessions_from (text_of LLPS_CLIENT_IP_TEXT_LEN ip) sv0) < unat (max_sessions_per_client_ip cfg)"
  shows "acc_inv cfg 3 3 (llps_session_prepare_active_with_peer n (of_nat n) fd (Some ip) port no now sv)"
proof -
  let ?sv' = "llps_session_prepare_active_with_peer n (of_nat n) fd (Some ip) port no now sv"
  have cfg: "sv_cfg sv0 = cfg" by (rule pool_cfg [OF acc_pool [OF inv]])
  have n': "n < unat (max_clients cfg)" "se_state (sv_session n sv0) = ST_FREE" using n by (simp_all add: free_slots_def cfg)
  have max: "unat (max_clients cfg) \<le> 256" by (rule pool_max(1) [OF pool])
  note opened = open_session_post [OF pool n'(1), where fd = fd and ip = "Some ip" and port = port and no = no and now = now]
  have cfg': "sv_cfg ?sv' = cfg" by (rule pool_cfg [OF opened(1)])
  have "ip_length n sv = 16" using inv n' max by (simp add: same acc_inv_def addresses_ok_def)
  note a = opened_ip [OF this ip, where n = "of_nat n" and fd = fd and port = port and no = no and now = now]
  have ip': "ip_length n ?sv' = 16" "terminated 16 (se_client_ip (sv_session n ?sv'))"
    "text_of 16 (se_client_ip (sv_session n ?sv')) = text_of 16 ip"
    unfolding opened(5) using a by simp_all
  have other: "sv_session m ?sv' = sv_session m sv0" if "m \<noteq> n" for m using opened(4) same that by simp
  have from_n: "sessions_from b ?sv' = (if b = text_of 16 ip then insert n (sessions_from b sv0) else sessions_from b sv0)" for b
  proof (rule set_eqI)
    fix m show "m \<in> sessions_from b ?sv' \<longleftrightarrow> m \<in> (if b = text_of 16 ip then insert n (sessions_from b sv0) else sessions_from b sv0)"
      using other [of m] n' opened(2) ip'(3)
      by (cases "m = n") (auto simp: sessions_from_def cfg cfg')
  qed
  have "n \<notin> sessions_from b sv0" for b using n'(2) by (simp add: sessions_from_def)
  then have "card (sessions_from b ?sv') \<le> unat (max_sessions_per_client_ip cfg)"
    if "max_sessions_per_client_ip cfg \<noteq> 0" "b \<noteq> []" for b
    using that below inv unfolding from_n acc_inv_def by (auto simp: Suc_le_eq)
  moreover have "addresses_ok ?sv'"
    unfolding addresses_ok_def
  proof (intro allI impI)
    fix m :: nat assume "m < unat LLPS_MAX_CLIENTS"
    then show "ip_length m ?sv' = 16 \<and> (se_state (sv_session m ?sv') = ST_ACTIVE \<longrightarrow> terminated 16 (se_client_ip (sv_session m ?sv')))"
      using inv other [of m] ip' by (cases "m = n") (auto simp: acc_inv_def addresses_ok_def)
  qed
  ultimately show ?thesis using opened(1) by (simp add: acc_inv_def)
qed

text \<open>Every way to handle a client keeps the invariant.\<close>

lemma acc_drop:
  assumes "acc_inv cfg k l (as_server st)"
  shows "acc_inv cfg k l (as_server (snd (drop_client he reason client st)))"
proof -
  have "only_rs (as_server st) (as_server (snd (drop_client he reason client st)))"
    using only_rs_audit [of "as_server st" "he_audit he reason" "ac_client_ip client" "text_bytes reason"]
    by (simp add: drop_client_def case_prod_beta)
  then show ?thesis by (rule acc_only_rs [OF assms])
qed

lemma acc_dropped:
  "drop_client he reason client st = (client', st') \<Longrightarrow> acc_inv cfg k l (as_server st) \<Longrightarrow> acc_inv cfg k l (as_server st')"
  using acc_drop [of cfg k l st he reason client] by simp

lemma acc_rate:
  assumes inv: "acc_inv cfg k l (as_server st)"
    and r: "llps_server_drop_for_rate_limit he client st = (dropped, client', st')"
  shows "acc_inv cfg 3 l (as_server st')" "\<not> dropped \<Longrightarrow> client' = client"
proof -
  obtain refused out rate where x: "llps_client_ip_rate_limit_exceeded (ac_client_ip client) (he_rate_now he)
      \<lparr>rate_rs = sv_rs (as_server st), g_client_ip_rate_buckets = as_buckets st\<rparr> = (refused, out, rate)"
    by (metis prod_cases3)
  have pool: "pool_inv cfg k l (as_server st)" by (rule acc_pool [OF inv])
  have held: "cfg_held k cfg (rs_env (sv_rs (as_server st)))"
    and free: "free_held l (max_clients cfg) (llps_free_list_snapshot_from_canonical (fst (sv_free (as_server st)))
      (snd (sv_free (as_server st)))) (rs_env (sv_rs (as_server st)))"
    using pool by (auto simp: pool_but_def)
  have "cfg_held k cfg (rs_env (rate_rs \<lparr>rate_rs = sv_rs (as_server st), g_client_ip_rate_buckets = as_buckets st\<rparr>))"
    using held by simp
  note banks = rate_limit_banks [OF this x]
  let ?sv = "(as_server st)\<lparr>sv_rs := rate_rs rate\<rparr>"
  have "pool_inv cfg 3 l ?sv"
    by (rule pool_env [OF pool banks(1,2)]) (use free free_held_env [OF banks(3)] in simp)
  then have "acc_inv cfg 3 l ?sv" by (rule acc_same [OF inv]) simp
  then have "acc_inv cfg 3 l (as_server (st\<lparr>as_server := ?sv, as_buckets := g_client_ip_rate_buckets rate\<rparr>))" by simp
  then show "acc_inv cfg 3 l (as_server st')" "\<not> dropped \<Longrightarrow> client' = client"
    using r by (auto simp: llps_server_drop_for_rate_limit_def x Let_def split: if_splits intro: acc_dropped)
qed

lemma acc_limit:
  assumes inv: "acc_inv cfg k l (as_server st)" and ip: "terminated LLPS_CLIENT_IP_TEXT_LEN (ac_client_ip client)"
    and r: "llps_server_drop_for_session_limit he client st = (dropped, client', st')"
  shows "acc_inv cfg 3 l (as_server st')"
    "\<not> dropped \<Longrightarrow> client' = client \<and> (max_sessions_per_client_ip cfg = 0 \<or> ac_client_ip client ! 0 = 0 \<or>
      card (sessions_from (text_of LLPS_CLIENT_IP_TEXT_LEN (ac_client_ip client)) (as_server st')) <
        unat (max_sessions_per_client_ip cfg))"
proof -
  have addr: "addresses_ok (as_server st)" using inv by (simp add: acc_inv_def)
  obtain exceeded found sv where x: "llps_client_ip_session_limit_exceeded (Some (ac_client_ip client)) (as_server st) =
      ((exceeded, found, max_sessions_per_client_ip cfg), sv)" and same: "pool_same (as_server st) sv" "pool_inv cfg 3 l sv"
    and d: "if max_sessions_per_client_ip cfg = 0 \<or> ac_client_ip client ! 0 = 0 then \<not> exceeded \<and> found = 0
     else unat found = card (sessions_from (text_of LLPS_CLIENT_IP_TEXT_LEN (ac_client_ip client)) (as_server st)) \<and>
       (exceeded \<longleftrightarrow> unat (max_sessions_per_client_ip cfg) \<le>
          card (sessions_from (text_of LLPS_CLIENT_IP_TEXT_LEN (ac_client_ip client)) (as_server st)))"
    using session_limit_post [OF acc_pool [OF inv] addr ip] by blast
  have sess: "sv_session m sv = sv_session m (as_server st)" for m using same(1) by (simp add: pool_same_def)
  have cfg: "sv_cfg sv = sv_cfg (as_server st)" using pool_cfg [OF same(2)] pool_cfg [OF acc_pool [OF inv]] by simp
  have from_same: "sessions_from a sv = sessions_from a (as_server st)" for a
    by (rule sessions_from_same [OF cfg sess])
  have "acc_inv cfg 3 l sv" by (rule acc_same [OF inv same(2) sess])
  then have "acc_inv cfg 3 l (as_server (st\<lparr>as_server := sv\<rparr>))" by simp
  then show "acc_inv cfg 3 l (as_server st')"
    "\<not> dropped \<Longrightarrow> client' = client \<and> (max_sessions_per_client_ip cfg = 0 \<or> ac_client_ip client ! 0 = 0 \<or>
      card (sessions_from (text_of LLPS_CLIENT_IP_TEXT_LEN (ac_client_ip client)) (as_server st')) <
        unat (max_sessions_per_client_ip cfg))"
    using r d
    by (auto simp: llps_server_drop_for_session_limit_def x Let_def from_same split: if_splits intro: acc_dropped)
qed

lemma acc_setup:
  assumes "acc_inv cfg k l (as_server st)" "llps_server_setup_client_fd he client st = (ok, client', st')"
  shows "acc_inv cfg k l (as_server st')" "ok \<Longrightarrow> client' = client \<and> st' = st"
  using assms by (auto simp: llps_server_setup_client_fd_def split: if_splits intro: acc_dropped)

lemma text_nonempty: "terminated cap ip \<Longrightarrow> ip ! 0 = 0 \<Longrightarrow> text_of cap ip = []"
  by (cases ip; cases cap) (auto simp: terminated_def text_of_def)

lemma acc_close_assigned:
  assumes "acc_inv cfg 3 l sv" "n < unat (max_clients cfg)" "he_return_contract he"
  shows "acc_inv cfg 3 l (close_assigned he n sv)"
  using assms acc_close unfolding close_assigned_def by simp

lemma acc_spawn:
  assumes inv: "acc_inv cfg 3 l sv" and n: "n < unat (max_clients cfg)" and he: "he_return_contract he"
  shows "acc_inv cfg 3 l (snd (llps_server_spawn_connection he n sv))"
proof -
  let ?audited = "snd (llps_record_ip_audit_event (he_audit he ''connection_spawn'')
      (se_client_ip (sv_session n (sv_violation sv))) (text_bytes ''connection_spawn'') (sv_violation sv))"
  have v: "only_rs sv (sv_violation (sv_violation sv))" by (rule only_rs_trans [OF only_rs_violation only_rs_violation])
  have "only_rs sv ?audited" by (rule only_rs_trans [OF only_rs_violation only_rs_audit])
  note a = acc_close_assigned [OF acc_only_rs [OF inv this] n he]
  show ?thesis
    using a acc_only_rs [OF inv v] inv by (simp add: llps_server_spawn_connection_def Let_def)
qed

lemma acc_assign:
  assumes inv: "acc_inv cfg 3 l (as_server st)" and ip: "terminated LLPS_CLIENT_IP_TEXT_LEN (ac_client_ip client)"
    and he: "he_return_contract he"
    and below: "max_sessions_per_client_ip cfg = 0 \<or> text_of LLPS_CLIENT_IP_TEXT_LEN (ac_client_ip client) = [] \<or>
      card (sessions_from (text_of LLPS_CLIENT_IP_TEXT_LEN (ac_client_ip client)) (as_server st)) < unat (max_sessions_per_client_ip cfg)"
  shows "acc_inv cfg 3 l (as_server (snd (snd (llps_server_assign_session he client st))))"
proof -
  let ?sv = "as_server st"
  note pool = acc_pool [OF inv]
  obtain status n sv where f: "llps_find_free_session (he_find_contract he) ?sv = ((status, n), sv)" by (metis prod.exhaust)
  have full: "acc_inv cfg 3 l sv \<Longrightarrow> acc_inv cfg 3 l (as_server (snd (llps_server_drop_pool_full he client (st\<lparr>as_server := sv\<rparr>))))"
    unfolding llps_server_drop_pool_full_def by (rule acc_drop) simp
  show ?thesis
  proof (cases "he_find_contract he")
    case False
    then have "status = LLPS_E_STATE" "sv = sv_violation ?sv"
      using f by (simp_all add: llps_find_free_session_def llps_free_list_scheduler_contract_is_valid_def)
    then show ?thesis
      using full acc_only_rs [OF inv only_rs_violation] by (simp add: llps_server_assign_session_def f)
  next
    case True
    note find = find_free_session_post [OF pool] f [unfolded eqTrueI [OF True]]
    have same: "sv_session m sv = sv_session m ?sv" for m using find by (auto split: if_splits)
    show ?thesis
    proof (cases "free_slots ?sv = {}")
      case True
      then have "status = LLPS_E_RANGE" "pool_inv cfg 3 3 sv" using find by auto
      then show ?thesis
        using full acc_same [OF inv pool_free_banks same] by (simp add: llps_server_assign_session_def f)
    next
      case False
      then have s: "status = LLPS_OK" "n \<in> free_slots ?sv" "pool_but {n} cfg 3 3 sv" using find by auto
      then have n: "n < unat (max_clients cfg)" by (simp add: free_slots_def pool_cfg [OF pool])
      let ?opened = "llps_session_prepare_active_with_peer n (of_nat n) (ac_client_fd client)
          (Some (ac_client_ip client)) (ac_client_port client) (ac_request_no client) (he_now he) sv"
      let ?audit = "llps_record_ip_audit_event (he_audit he ''accepted'') (se_client_ip (sv_session n ?opened))
          (text_bytes ''accepted'') ?opened"
      have "acc_inv cfg 3 l ?opened"
        by (rule acc_free_banks [OF acc_open [OF inv s(3) same s(2) ip below]])
      then have a: "acc_inv cfg 3 l (snd ?audit)" using acc_only_rs only_rs_audit by blast
      show ?thesis
        using acc_close_assigned [OF a n he] acc_spawn [OF a n he]
        by (simp add: llps_server_assign_session_def f s(1) case_prod_beta Let_def)
    qed
  qed
qed

lemma acc_handle:
  assumes inv: "acc_inv cfg k l (as_server st)" and ip: "terminated LLPS_CLIENT_IP_TEXT_LEN (ac_client_ip client)"
    and he: "he_return_contract he"
  shows "acc_inv cfg 3 l (as_server (snd (llps_server_handle_client he client st)))"
proof -
  obtain d1 c1 st1 where r: "llps_server_drop_for_rate_limit he client st = (d1, c1, st1)" by (metis prod_cases3)
  note rate = acc_rate [OF inv r]
  show ?thesis
  proof (cases d1)
    case True
    then show ?thesis using rate by (simp add: llps_server_handle_client_def r)
  next
    case False
    with rate have c1: "c1 = client" by simp
    obtain d2 c2 st2 where s: "llps_server_drop_for_session_limit he client st1 = (d2, c2, st2)" by (metis prod_cases3)
    note limit = acc_limit [OF rate(1) ip s]
    show ?thesis
    proof (cases d2)
      case True
      then show ?thesis using limit False by (simp add: llps_server_handle_client_def r c1 s)
    next
      case d2: False
      with limit have c2: "c2 = client" by simp
      obtain ok c3 st3 where t: "llps_server_setup_client_fd he client st2 = (ok, c3, st3)" by (metis prod_cases3)
      note done_setup = acc_setup [OF limit(1) t]
      have "acc_inv cfg 3 l (as_server (snd (snd (llps_server_assign_session he client st2))))"
        by (rule acc_assign [OF limit(1) ip he]) (use limit(2) d2 text_nonempty [OF ip] in auto)
      then show ?thesis
        using done_setup False d2 by (cases ok) (simp_all add: llps_server_handle_client_def r c1 s c2 t)
    qed
  qed
qed

section \<open>The text of an address\<close>

lemma digit_byte: "d < 10 \<Longrightarrow> unat (0x30 + of_nat d :: u8) = 48 + d"
  by (simp add: unat_word_ariths unat_of_nat)

declare decimal.simps [simp del]

lemma decimal_bytes: "c \<in> set (decimal n) \<Longrightarrow> 48 \<le> unat c \<and> unat c < 58"
  by (induction n rule: decimal.induct) (subst (asm) (2) decimal.simps, auto simp: digit_byte split: if_splits)

lemma decimal_length: "n < 1000 \<Longrightarrow> length (decimal n) \<le> 3"
  by (subst decimal.simps, subst decimal.simps, subst decimal.simps) auto

lemma decimal_nonempty: "decimal n \<noteq> []"
  by (subst decimal.simps) simp

text \<open>Reading the number back.\<close>

definition undecimal :: "u8 list \<Rightarrow> nat" where
  "undecimal cs = foldl (\<lambda>n c. n * 10 + (unat c - 48)) 0 cs"

lemma undecimal_decimal: "undecimal (decimal n) = n"
  by (induction n rule: decimal.induct) (subst decimal.simps, auto simp: undecimal_def digit_byte)

lemma decimal_eq_iff: "decimal n = decimal m \<longleftrightarrow> n = m"
  by (metis undecimal_decimal)

lemma decimal_no_dot: "c \<in> set (decimal n) \<Longrightarrow> c \<noteq> 0x2E" and decimal_no_zero: "c \<in> set (decimal n) \<Longrightarrow> c \<noteq> 0"
  using decimal_bytes [of c n] by auto

lemma decimal_dot_eq: "decimal n @ 0x2E # r = decimal m @ 0x2E # s \<longleftrightarrow> n = m \<and> r = s"
proof
  assume e: "decimal n @ 0x2E # r = decimal m @ 0x2E # s"
  have t: "takeWhile (\<lambda>c. c \<noteq> 0x2E) (decimal p @ 0x2E # x) = decimal p" for p x
    using decimal_no_dot by (subst takeWhile_append2) auto
  from arg_cong [OF e, of "takeWhile (\<lambda>c. c \<noteq> 0x2E)"] have "n = m" by (simp only: t decimal_eq_iff)
  with e show "n = m \<and> r = s" by simp
qed auto

lemma dotted_quad_eq_iff:
  assumes "length a = 4" "length b = 4"
  shows "dotted_quad a = dotted_quad b \<longleftrightarrow> a = b"
proof -
  have "a = b \<longleftrightarrow> a ! 0 = b ! 0 \<and> a ! 1 = b ! 1 \<and> a ! 2 = b ! 2 \<and> a ! 3 = b ! 3"
    using assms by (auto simp: list_eq_iff_nth_eq numeral_eq_Suc less_Suc_eq)
  then show ?thesis
    by (simp add: dotted_quad_def decimal_dot_eq decimal_eq_iff word_unat_eq_iff)
qed

lemma dotted_quad_text:
  "length (dotted_quad a) \<le> 15" "c \<in> set (dotted_quad a) \<Longrightarrow> c \<noteq> 0" "dotted_quad a \<noteq> []"
proof -
  have "length (decimal (unat b)) \<le> 3" for b :: u8
    by (rule decimal_length) (rule order_less_le_trans [OF unsigned_less], simp)
  from this [of "a ! 0"] this [of "a ! 1"] this [of "a ! 2"] this [of "a ! 3"]
  show "length (dotted_quad a) \<le> 15" by (simp add: dotted_quad_def)
  show "c \<in> set (dotted_quad a) \<Longrightarrow> c \<noteq> 0" by (auto simp: dotted_quad_def dest: decimal_no_zero)
  show "dotted_quad a \<noteq> []" by (simp add: dotted_quad_def)
qed

lemma unknown_ip_text: "terminated 16 unknown_ip" "text_of 16 unknown_ip = dotted_quad [0, 0, 0, 0]"
  by (simp_all add: terminated_def unknown_ip_def text_of_def dotted_quad_def decimal.simps)

text \<open>What the accept loop takes for the address of a peer.\<close>

definition peer_addr :: "sockaddr_in \<Rightarrow> u32 \<Rightarrow> u8 list" where
  "peer_addr a addr_len = (if addr_len \<ge> sizeof_sockaddr_in \<and> sa_family a = AF_INET then sin_addr a else [0, 0, 0, 0])"

lemma peer_text:
  fixes a :: sockaddr_in and addr_len :: u32
  defines "t \<equiv> fst (llps_peer_text_from_sockaddr (Some a) addr_len LLPS_CLIENT_IP_TEXT_LEN)"
  shows "terminated LLPS_CLIENT_IP_TEXT_LEN t" "text_of LLPS_CLIENT_IP_TEXT_LEN t = dotted_quad (peer_addr a addr_len)"
proof -
  obtain dst where dst: "llps_state_copy_text (replicate 16 0) 16 unknown_ip = (True, dst)" "terminated 16 dst"
    "text_of 16 dst = text_of 16 unknown_ip"
    using copy_text_ok [OF unknown_ip_text(1), of "replicate 16 0"] by auto
  have "terminated 16 (inet_ntop x dst) \<and> text_of 16 (inet_ntop x dst) = dotted_quad x" for x
    using text_split [of "dotted_quad x" 16] dotted_quad_text(1) [of x] dotted_quad_text(2) [of _ x]
    by (simp add: inet_ntop_def)
  then show "terminated LLPS_CLIENT_IP_TEXT_LEN t" "text_of LLPS_CLIENT_IP_TEXT_LEN t = dotted_quad (peer_addr a addr_len)"
    using dst unknown_ip_text(2)
    by (auto simp: t_def llps_peer_text_from_sockaddr_def Let_def llps_sockaddr_ipv4_text_len_def peer_addr_def not_less)
qed

section \<open>A batch of clients\<close>

lemma only_rs_accept_errorD: "llps_handle_accept_error sl err sv = (go_on, sv') \<Longrightarrow> only_rs sv sv'"
  using only_rs_accept_error [of sv sl err] by simp

lemma accept_client_post:
  assumes inv: "acc_inv cfg k l (as_server st)"
    and r: "llps_server_accept_client ar st = (client, st')"
  shows "acc_inv cfg k l (as_server st')"
    "client = Some c \<Longrightarrow> terminated LLPS_CLIENT_IP_TEXT_LEN (ac_client_ip c)"
proof -
  have "only_rs (as_server st) (as_server st')"
    using r only_rs_trans [OF only_rs_violation only_rs_request]
    by (auto simp: llps_server_accept_client_def as_update_def split: if_splits prod.splits option.splits
        intro: only_rs_accept_errorD)
  then show "acc_inv cfg k l (as_server st')" by (rule acc_only_rs [OF inv])
  show "client = Some c \<Longrightarrow> terminated LLPS_CLIENT_IP_TEXT_LEN (ac_client_ip c)"
    using r peer_text(1) [of "ar_addr ar" "ar_addr_len ar"]
    by (auto simp: llps_server_accept_client_def split: if_splits prod.splits option.splits)
qed

lemma accept_batch_loop_inv:
  assumes "acc_inv cfg k l (as_server st)" "list_all (\<lambda>(ar, he). he_return_contract he) answers"
  shows "acc_inv cfg k l (as_server (accept_batch_loop count answers st))"
  using assms
proof (induction answers arbitrary: count st)
  case (Cons a answers)
  obtain ar he where a: "a = (ar, he)" by (cases a)
  obtain client st1 where r: "llps_server_accept_client ar st = (client, st1)" by fastforce
  note accepted = accept_client_post [OF Cons.prems(1) r]
  show ?case
  proof (cases client)
    case None
    then show ?thesis using Cons.prems(1) accepted(1) by (simp add: a r)
  next
    case (Some c)
    have h: "acc_inv cfg k l (as_server (snd (llps_server_handle_client he c st1)))"
      by (rule acc_weaken, rule acc_handle [OF accepted(1) accepted(2) [OF Some]]) (use Cons.prems(2) a in simp)
    show ?thesis
      using Cons.prems h Cons.IH [OF h] by (simp add: a r Some Let_def)
  qed
qed simp

section \<open>What becomes of a client\<close>

text \<open>Turned away: no session changes, and the descriptor is closed.\<close>

definition turned_away :: "llps_accept_client_t \<Rightarrow> accept_state \<Rightarrow> llps_accept_client_t \<Rightarrow> accept_state \<Rightarrow> bool" where
  "turned_away client st client' st' \<longleftrightarrow> (\<forall>m. sv_session m (as_server st') = sv_session m (as_server st)) \<and>
     (llps_fd_is_valid (ac_client_fd client) \<longrightarrow> ac_client_fd client' = LLPS_INVALID_FD)"

text \<open>Session \<open>s\<close> serves the client.\<close>

definition serves :: "llps_accept_client_t \<Rightarrow> llps_session_t \<Rightarrow> bool" where
  "serves client s \<longleftrightarrow> se_state s = ST_ACTIVE \<and> se_client_fd s = ac_client_fd client \<and>
     se_request_no s = ac_request_no client \<and>
     text_of LLPS_CLIENT_IP_TEXT_LEN (se_client_ip s) = text_of LLPS_CLIENT_IP_TEXT_LEN (ac_client_ip client)"

lemma only_rs_auditD: "llps_record_ip_audit_event audit ip reason sv = (ok, sv') \<Longrightarrow> only_rs sv sv'"
  using only_rs_audit [of sv audit ip reason] by simp

lemma drop_turns_away:
  assumes "drop_client he reason client st = (client', st')"
    and "\<And>m. sv_session m (as_server st) = sv_session m (as_server st0)"
  shows "turned_away client st0 client' st'"
proof -
  have "only_rs (as_server st) (as_server st')"
    using assms(1) by (auto simp: drop_client_def split: prod.splits if_splits intro: only_rs_auditD)
  from only_rs_sessions [OF this] show ?thesis
    using assms by (auto simp: turned_away_def drop_client_def llps_close_connected_fd_def split: prod.splits if_splits)
qed

lemma rate_outcome:
  assumes "llps_server_drop_for_rate_limit he client st = (dropped, client', st')"
  shows "\<not> dropped \<Longrightarrow> client' = client \<and> (\<forall>m. sv_session m (as_server st') = sv_session m (as_server st))"
    "dropped \<Longrightarrow> turned_away client st client' st'"
  using assms
  by (auto simp: llps_server_drop_for_rate_limit_def Let_def split: prod.splits if_splits intro!: drop_turns_away)

lemma limit_outcome:
  assumes inv: "acc_inv cfg k l (as_server st)" and ip: "terminated LLPS_CLIENT_IP_TEXT_LEN (ac_client_ip client)"
    and r: "llps_server_drop_for_session_limit he client st = (dropped, client', st')"
    and same: "\<And>m. sv_session m (as_server st) = sv_session m (as_server st0)"
  shows "\<not> dropped \<Longrightarrow> client' = client \<and> (\<forall>m. sv_session m (as_server st') = sv_session m (as_server st0))"
    "dropped \<Longrightarrow> turned_away client st0 client' st'"
proof -
  have addr: "addresses_ok (as_server st)" using inv by (simp add: acc_inv_def)
  obtain exceeded found sv where x: "llps_client_ip_session_limit_exceeded (Some (ac_client_ip client)) (as_server st) =
      ((exceeded, found, max_sessions_per_client_ip cfg), sv)" and s: "pool_same (as_server st) sv"
    using session_limit_post [OF acc_pool [OF inv] addr ip] by blast
  show "\<not> dropped \<Longrightarrow> client' = client \<and> (\<forall>m. sv_session m (as_server st') = sv_session m (as_server st0))"
    "dropped \<Longrightarrow> turned_away client st0 client' st'"
    using r s same
    by (auto simp: llps_server_drop_for_session_limit_def x Let_def pool_same_def split: if_splits intro!: drop_turns_away)
qed

lemma setup_outcome:
  assumes "llps_server_setup_client_fd he client st = (ok, client', st')"
    and "\<And>m. sv_session m (as_server st) = sv_session m (as_server st0)"
  shows "ok \<Longrightarrow> client' = client \<and> st' = st" "\<not> ok \<Longrightarrow> turned_away client st0 client' st'"
  using assms by (auto simp: llps_server_setup_client_fd_def split: if_splits intro: drop_turns_away)

lemma audit_passes:
  assumes "terminated LLPS_CLIENT_IP_TEXT_LEN ip" "terminated audit_reason_size reason"
    and "au_enabled audit \<Longrightarrow> au_recorded audit"
  shows "fst (llps_record_ip_audit_event audit ip reason sv)"
  using copy_text_ok [OF assms(1), of "replicate 16 0"] copy_text_ok [OF assms(2), of "replicate 32 0"] assms(3)
  by (auto simp: llps_record_ip_audit_event_def Let_def)

text \<open>The slot of a client whose session could not be started.\<close>

definition given_up :: "llps_session_t \<Rightarrow> bool" where
  "given_up s \<longleftrightarrow> se_state s = ST_FREE \<and> se_client_fd s = LLPS_INVALID_FD \<and> se_backend_fd s = LLPS_INVALID_FD"

lemma close_outcome:
  assumes "acc_inv cfg 3 l sv" "n < unat (max_clients cfg)" "he_return_contract he"
  shows "given_up (sv_session n (close_assigned he n sv))" "m \<noteq> n \<Longrightarrow> sv_session m (close_assigned he n sv) = sv_session m sv"
  using close_session_post [OF acc_pool [OF assms(1)] assms(2)] assms(3) by (simp_all add: close_assigned_def given_up_def)

lemma spawn_outcome:
  assumes inv: "acc_inv cfg 3 l sv" and n: "n < unat (max_clients cfg)" and he: "he_return_contract he"
  defines "sv' \<equiv> snd (llps_server_spawn_connection he n sv)"
  shows "m \<noteq> n \<Longrightarrow> sv_session m sv' = sv_session m sv"
    "if he_spawned he then sv_session n sv' = sv_session n sv else given_up (sv_session n sv')"
proof -
  let ?audited = "snd (llps_record_ip_audit_event (he_audit he ''connection_spawn'')
      (se_client_ip (sv_session n (sv_violation sv))) (text_bytes ''connection_spawn'') (sv_violation sv))"
  have a: "only_rs sv ?audited" by (rule only_rs_trans [OF only_rs_violation only_rs_audit])
  have v: "only_rs sv (sv_violation (sv_violation sv))" by (rule only_rs_trans [OF only_rs_violation only_rs_violation])
  note closed = close_outcome [OF acc_only_rs [OF inv a] n he]
  show "m \<noteq> n \<Longrightarrow> sv_session m sv' = sv_session m sv"
    "if he_spawned he then sv_session n sv' = sv_session n sv else given_up (sv_session n sv')"
    using closed(1) closed(2) [of m] only_rs_sessions [OF a] only_rs_sessions [OF v]
    by (simp_all add: sv'_def llps_server_spawn_connection_def Let_def)
qed

text \<open>One slot that was free is used; it serves the client unless the audit log or the runtime refused.\<close>

definition slot_used :: "llps_accept_client_t \<Rightarrow> server_state \<Rightarrow> server_state \<Rightarrow> nat \<Rightarrow> bool" where
  "slot_used client sv sv' n \<longleftrightarrow> n \<in> free_slots sv \<and> (\<forall>m. m \<noteq> n \<longrightarrow> sv_session m sv' = sv_session m sv) \<and>
     (serves client (sv_session n sv') \<or> given_up (sv_session n sv'))"

definition he_serving :: "handle_env \<Rightarrow> bool" where
  "he_serving he \<longleftrightarrow> he_find_contract he \<and> he_spawned he \<and>
     (\<forall>reason. au_enabled (he_audit he reason) \<longrightarrow> au_recorded (he_audit he reason))"

lemma assign_outcome:
  assumes inv: "acc_inv cfg 3 l (as_server st)" and ip: "terminated LLPS_CLIENT_IP_TEXT_LEN (ac_client_ip client)"
    and he: "he_return_contract he"
    and r: "llps_server_assign_session he client st = (ok, client', st')"
    and below: "max_sessions_per_client_ip cfg = 0 \<or> text_of LLPS_CLIENT_IP_TEXT_LEN (ac_client_ip client) = [] \<or>
      card (sessions_from (text_of LLPS_CLIENT_IP_TEXT_LEN (ac_client_ip client)) (as_server st)) < unat (max_sessions_per_client_ip cfg)"
  shows "turned_away client st client' st' \<or> (\<exists>n. slot_used client (as_server st) (as_server st') n)"
    "he_serving he \<Longrightarrow> free_slots (as_server st) \<noteq> {} \<Longrightarrow>
      \<exists>n. slot_used client (as_server st) (as_server st') n \<and> serves client (sv_session n (as_server st'))"
proof -
  let ?sv = "as_server st"
  note pool = acc_pool [OF inv]
  obtain status n sv where f: "llps_find_free_session (he_find_contract he) ?sv = ((status, n), sv)" by (metis prod.exhaust)
  have "if he_find_contract he \<and> free_slots ?sv \<noteq> {}
    then \<exists>n. slot_used client ?sv (as_server st') n \<and> (he_serving he \<longrightarrow> serves client (sv_session n (as_server st')))
    else turned_away client st client' st'"
  proof (cases "he_find_contract he \<and> free_slots ?sv \<noteq> {}")
    case False
    have "status \<noteq> LLPS_OK \<and> (\<forall>m. sv_session m sv = sv_session m ?sv)"
    proof (cases "he_find_contract he")
      case True
      then show ?thesis using find_free_session_post [OF pool] f False by auto
    next
      case no: False
      then show ?thesis
        using f only_rs_sessions [OF only_rs_violation]
        by (auto simp: llps_find_free_session_def llps_free_list_scheduler_contract_is_valid_def)
    qed
    then have "turned_away client st client' st'"
      using r by (auto simp: llps_server_assign_session_def f llps_server_drop_pool_full_def intro!: drop_turns_away)
    with False show ?thesis by (simp only: if_False)
  next
    case True
    then have s: "status = LLPS_OK" "n \<in> free_slots ?sv" "pool_but {n} cfg 3 3 sv" "\<And>m. sv_session m sv = sv_session m ?sv"
      using find_free_session_post [OF pool] f by auto
    then have n: "n < unat (max_clients cfg)" by (simp add: free_slots_def pool_cfg [OF pool])
    have max: "unat (max_clients cfg) \<le> 256" by (rule pool_max(1) [OF pool])
    let ?opened = "llps_session_prepare_active_with_peer n (of_nat n) (ac_client_fd client)
        (Some (ac_client_ip client)) (ac_client_port client) (ac_request_no client) (he_now he) sv"
    note opened = open_session_post [OF s(3) n, where fd = "ac_client_fd client" and ip = "Some (ac_client_ip client)"
        and port = "ac_client_port client" and no = "ac_request_no client" and now = "he_now he"]
    have "ip_length n sv = 16" using inv n max by (simp add: s(4) acc_inv_def addresses_ok_def)
    note a = opened_ip [OF this ip, where n = "of_nat n" and fd = "ac_client_fd client"
        and port = "ac_client_port client" and no = "ac_request_no client" and now = "he_now he"]
    have serves: "serves client (sv_session n ?opened)" unfolding serves_def opened(5) using a by simp
    have inv': "acc_inv cfg 3 l ?opened"
      by (rule acc_free_banks [OF acc_open [OF inv s(3,4,2) ip below]])
    obtain recorded sv1 where audit: "llps_record_ip_audit_event (he_audit he ''accepted'')
        (se_client_ip (sv_session n ?opened)) (text_bytes ''accepted'') ?opened = (recorded, sv1)" by fastforce
    have sv1: "only_rs ?opened sv1" by (rule only_rs_auditD [OF audit])
    note same1 = only_rs_sessions [OF sv1] and inv1 = acc_only_rs [OF inv' sv1]
    have st': "as_server st' = (if recorded then snd (llps_server_spawn_connection he n sv1) else close_assigned he n sv1)"
      using r by (auto simp: llps_server_assign_session_def f s(1) audit Let_def split: if_splits)
    have "terminated 16 (se_client_ip (sv_session n ?opened))" unfolding opened(5) using a by simp
    moreover have "terminated audit_reason_size (text_bytes ''accepted'')" by (simp add: terminated_def text_bytes_def)
    ultimately have "recorded" if "he_serving he"
      using audit_passes [of _ _ "he_audit he ''accepted''" ?opened] that audit by (fastforce simp: he_serving_def)
    then have "slot_used client ?sv (as_server st') n \<and> (he_serving he \<longrightarrow> serves client (sv_session n (as_server st')))"
      using s(2) serves spawn_outcome [OF inv1 n he] close_outcome [OF inv1 n he] opened(4) s(4) same1
      unfolding slot_used_def st' he_serving_def by (auto split: if_splits)
    with True show ?thesis by auto
  qed
  then show "turned_away client st client' st' \<or> (\<exists>n. slot_used client ?sv (as_server st') n)"
    "he_serving he \<Longrightarrow> free_slots ?sv \<noteq> {} \<Longrightarrow>
      \<exists>n. slot_used client ?sv (as_server st') n \<and> serves client (sv_session n (as_server st'))"
    by (auto simp: he_serving_def split: if_splits)
qed

lemma slot_used_same:
  assumes "\<And>m. sv_session m sv2 = sv_session m sv" "sv_cfg sv2 = sv_cfg sv" "slot_used client sv2 sv' n"
  shows "slot_used client sv sv' n"
  using assms by (simp add: slot_used_def free_slots_def)

lemma turned_away_same:
  assumes "\<And>m. sv_session m (as_server st2) = sv_session m (as_server st)" "turned_away client st2 client' st'"
  shows "turned_away client st client' st'"
  using assms by (simp add: turned_away_def)

lemma rate_drops_iff: "fst (llps_server_drop_for_rate_limit he client st) =
    fst (llps_client_ip_rate_limit_exceeded (ac_client_ip client) (he_rate_now he)
      \<lparr>rate_rs = sv_rs (as_server st), g_client_ip_rate_buckets = as_buckets st\<rparr>)"
  by (simp add: llps_server_drop_for_rate_limit_def Let_def split: prod.split)

lemma setup_state_indep:
  "fst (llps_server_setup_client_fd he client st2) = fst (llps_server_setup_client_fd he client st)"
  by (simp add: llps_server_setup_client_fd_def)

lemma limit_admits:
  assumes inv: "acc_inv cfg k l (as_server st)" and ip: "terminated LLPS_CLIENT_IP_TEXT_LEN (ac_client_ip client)"
    and below: "max_sessions_per_client_ip cfg = 0 \<or>
      card (sessions_from (text_of LLPS_CLIENT_IP_TEXT_LEN (ac_client_ip client)) (as_server st)) < unat (max_sessions_per_client_ip cfg)"
  shows "\<not> fst (llps_server_drop_for_session_limit he client st)"
proof -
  have addr: "addresses_ok (as_server st)" using inv by (simp add: acc_inv_def)
  obtain found sv where "llps_client_ip_session_limit_exceeded (Some (ac_client_ip client)) (as_server st) =
      ((False, found, max_sessions_per_client_ip cfg), sv)"
    using session_limit_post [OF acc_pool [OF inv] addr ip] below by (auto split: if_splits)
  then show ?thesis by (simp add: llps_server_drop_for_session_limit_def)
qed

lemma handle_outcome:
  assumes inv: "acc_inv cfg k l (as_server st)" and ip: "terminated LLPS_CLIENT_IP_TEXT_LEN (ac_client_ip client)"
    and he: "he_return_contract he"
    and r: "llps_server_handle_client he client st = (client', st')"
  shows "turned_away client st client' st' \<or> (\<exists>n. slot_used client (as_server st) (as_server st') n)"
    "\<not> fst (llps_client_ip_rate_limit_exceeded (ac_client_ip client) (he_rate_now he)
        \<lparr>rate_rs = sv_rs (as_server st), g_client_ip_rate_buckets = as_buckets st\<rparr>) \<Longrightarrow>
     max_sessions_per_client_ip cfg = 0 \<or>
       card (sessions_from (text_of LLPS_CLIENT_IP_TEXT_LEN (ac_client_ip client)) (as_server st)) < unat (max_sessions_per_client_ip cfg) \<Longrightarrow>
     fst (llps_server_setup_client_fd he client st) \<Longrightarrow> he_serving he \<Longrightarrow> free_slots (as_server st) \<noteq> {} \<Longrightarrow>
     \<exists>n. slot_used client (as_server st) (as_server st') n \<and> serves client (sv_session n (as_server st'))"
proof -
  note cfg = pool_cfg [OF acc_pool [OF inv]]
  obtain d1 c1 st1 where a: "llps_server_drop_for_rate_limit he client st = (d1, c1, st1)" by (metis prod_cases3)
  note rate = acc_rate [OF inv a] rate_outcome [OF a]
  obtain d2 c2 st2 where b: "llps_server_drop_for_session_limit he client st1 = (d2, c2, st2)" by (metis prod_cases3)
  obtain ok c3 st3 where c: "llps_server_setup_client_fd he client st2 = (ok, c3, st3)" by (metis prod_cases3)
  obtain given c4 st4 where d: "llps_server_assign_session he client st2 = (given, c4, st4)" by (metis prod_cases3)
  have rest: "(d2 \<longrightarrow> turned_away client st c2 st2) \<and> (\<not> d2 \<longrightarrow> c2 = client) \<and> (\<not> d2 \<and> \<not> ok \<longrightarrow> turned_away client st c3 st3) \<and>
    (\<not> d2 \<and> ok \<longrightarrow> c3 = client \<and> st3 = st2 \<and>
       (turned_away client st c4 st4 \<or> (\<exists>n. slot_used client (as_server st) (as_server st4) n)) \<and>
       (he_serving he \<and> free_slots (as_server st) \<noteq> {} \<longrightarrow>
          (\<exists>n. slot_used client (as_server st) (as_server st4) n \<and> serves client (sv_session n (as_server st4)))))"
    if d1: "\<not> d1"
  proof -
    have same1: "sv_session m (as_server st1) = sv_session m (as_server st)" for m using rate(3) d1 by blast
    note limit = acc_limit [OF rate(1) ip b] limit_outcome [OF rate(1) ip b same1]
    have same2: "sv_session m (as_server st2) = sv_session m (as_server st)" if "\<not> d2" for m using limit(3) that by blast
    note fd = setup_outcome [OF c same2]
    have below: "\<not> d2 \<Longrightarrow> max_sessions_per_client_ip cfg = 0 \<or> text_of LLPS_CLIENT_IP_TEXT_LEN (ac_client_ip client) = [] \<or>
      card (sessions_from (text_of LLPS_CLIENT_IP_TEXT_LEN (ac_client_ip client)) (as_server st2)) < unat (max_sessions_per_client_ip cfg)"
      using limit(2) text_nonempty [OF ip] by blast
    have cfg2: "sv_cfg (as_server st2) = sv_cfg (as_server st)" using pool_cfg [OF acc_pool [OF limit(1)]] cfg by simp
    have slots: "\<not> d2 \<Longrightarrow> free_slots (as_server st2) = free_slots (as_server st)" using same2 cfg2 by (simp add: free_slots_def)
    note given = assign_outcome [OF limit(1) ip he d below]
    show ?thesis
      using limit(3,4) fd given slots slot_used_same [OF same2 cfg2] turned_away_same [OF same2] by (metis (no_types))
  qed
  have h: "(client', st') = (if d1 then (c1, st1) else if d2 then (c2, st2) else if \<not> ok then (c3, st3) else (c4, st4))"
    using r rate(2) rest unfolding llps_server_handle_client_def a
    by (cases d1; cases d2; cases ok) (auto simp: b c d split: bool.splits)
  show "turned_away client st client' st' \<or> (\<exists>n. slot_used client (as_server st) (as_server st') n)"
    using h rate(4) rest by (cases d1; cases d2; cases ok) auto
  assume open_door: "\<not> fst (llps_client_ip_rate_limit_exceeded (ac_client_ip client) (he_rate_now he)
        \<lparr>rate_rs = sv_rs (as_server st), g_client_ip_rate_buckets = as_buckets st\<rparr>)"
    "max_sessions_per_client_ip cfg = 0 \<or>
       card (sessions_from (text_of LLPS_CLIENT_IP_TEXT_LEN (ac_client_ip client)) (as_server st)) < unat (max_sessions_per_client_ip cfg)"
    "fst (llps_server_setup_client_fd he client st)"
  have d1: "\<not> d1" using open_door(1) rate_drops_iff [of he client st] a by simp
  have "sv_session m (as_server st1) = sv_session m (as_server st)" for m using rate(3) d1 by blast
  moreover have "sv_cfg (as_server st1) = sv_cfg (as_server st)" using pool_cfg [OF acc_pool [OF rate(1)]] cfg by simp
  ultimately have "\<not> d2"
    using limit_admits [OF rate(1) ip, of he] open_door(2) b sessions_from_same [of "as_server st1" "as_server st"] by simp
  moreover have "ok" using open_door(3) setup_state_indep [of he client st2 st] c by simp
  moreover assume "he_serving he" "free_slots (as_server st) \<noteq> {}"
  ultimately show "\<exists>n. slot_used client (as_server st) (as_server st') n \<and> serves client (sv_session n (as_server st'))"
    using h rest d1 by simp
qed

section \<open>The initial server\<close>

lemma free_fields_ip: "se_client_ip (session_free_fields n s) = replicate (length (se_client_ip s)) 0"
  by (simp add: session_free_fields_def session_clear_transfer_def Let_def llps_session_set_state_fields_def zeroed_def)

lemma init_addresses:
  assumes shape: "sv_shape sv" and ip: "\<And>n. n < 256 \<Longrightarrow> ip_length n sv = 16" and n: "n < 256"
  shows "se_client_ip (sv_session n (llps_init_prepare_session_pool sv)) = replicate 16 0"
proof -
  let ?f = "\<lambda>sv i. let sv = llps_session_reset_free i (of_nat i) sv
                  in sv\<lparr>sv_free := ((fst (sv_free sv))[i := 0], snd (sv_free sv))\<rparr>"
  let ?P = "\<lambda>i s. sv_shape s \<and> (\<forall>n < 256. ip_length n s = 16 \<and> (n < i \<longrightarrow> se_client_ip (sv_session n s) = replicate 16 0))"
  define sv1 where "sv1 = foldl ?f sv [0..<256]"
  have "?P 256 sv1"
    unfolding sv1_def
  proof (rule loop_invariant [where P = ?P])
    show "?P 0 sv" using shape ip by simp
    fix i s assume i: "i < (256 :: nat)" and P: "?P i s"
    note r = put_refresh_seals [OF conjunct1 [OF P] i free_fields_consistent [of "of_nat i" "sv_session i s"],
        folded llps_session_reset_free_def]
    have "ip_length n (llps_session_reset_free i (of_nat i) s) = 16 \<and>
        (n < Suc i \<longrightarrow> se_client_ip (sv_session n (llps_session_reset_free i (of_nat i) s)) = replicate 16 0)"
      if "n < 256" for n
      using r(3) r(4) [of n] P that by (cases "n = i") (simp_all add: free_fields_ip)
    then show "?P (Suc i) (?f s i)" using r(2) by (simp add: Let_def)
  qed
  then have ip1: "se_client_ip (sv_session n sv1) = replicate 16 0" using n by blast
  show ?thesis
    using assign_entries_eq [of "\<lambda>m i. (m - 1) - of_nat i" sv1] ip1
    by (simp add: llps_init_prepare_session_pool_def sv1_def [symmetric])
qed

lemma acc_init:
  assumes ready: "pool_ready cfg k sv" and ip: "\<And>n. n < 256 \<Longrightarrow> ip_length n sv = LLPS_CLIENT_IP_TEXT_LEN"
  shows "acc_inv cfg k 3 (llps_init_prepare_session_pool sv)" "sessions_from a (llps_init_prepare_session_pool sv) = {}"
proof -
  let ?sv = "llps_init_prepare_session_pool sv"
  have shape: "sv_shape sv" using ready by (simp add: pool_ready_def)
  note inv = init_pool(1) [OF ready]
  have free: "se_state (sv_session n ?sv) = ST_FREE" if "n < unat (max_clients cfg)" for n
  proof -
    have "n \<in> free_slots ?sv" using init_pool(2) [OF ready] that by simp
    then show ?thesis by (simp add: free_slots_def)
  qed
  show s: "sessions_from a ?sv = {}" for a
    unfolding sessions_from_def pool_cfg [OF inv] using free by auto
  have "addresses_ok ?sv"
    unfolding addresses_ok_def using init_addresses [OF shape ip] by (simp add: terminated_def)
  then show "acc_inv cfg k 3 ?sv" using inv s by (simp add: acc_inv_def)
qed

text \<open>An example: a fresh server with a limit of two sessions for one address, and one client.\<close>

definition accept_sample :: accept_state where
  "accept_sample = \<lparr>as_server = llps_init_prepare_session_pool pool_server, as_buckets = [],
     as_requests = \<lparr>g_request_no = 0, g_request_no_inverse = UINT64_MAX\<rparr>, as_running = True\<rparr>"

definition sample_accepted :: llps_accept_client_t where
  "sample_accepted = \<lparr>ac_client_fd = 9, ac_client_ip = sample_client, ac_client_port = 80, ac_request_no = 1\<rparr>"

definition sample_accept :: accept_result where
  "sample_accept = \<lparr>ar_fd = 9, ar_errno = 0, ar_addr = \<lparr>sa_family = 2, sin_port = 80, sin_addr = [10, 0, 0, 1]\<rparr>,
     ar_addr_len = 16, ar_sleep = \<lparr>sl_pipe_fd = -1, sl_poll_rc = 0, sl_sleep_rc = 0\<rparr>\<rparr>"

definition sample_handle :: handle_env where
  "sample_handle = \<lparr>he_rate_now = 5, he_audit = \<lambda>_. \<lparr>au_enabled = True, au_now = 5, au_recorded = True\<rparr>,
     he_getfd = 0, he_setfd = 0, he_getfl = 0, he_setfl = 0, he_nodelay = 0, he_find_contract = True,
     he_return_contract = True, he_now = 5, he_closes = \<lambda>_. True, he_spawned = True, he_detached = True\<rparr>"

lemma pool_server_ip: "n < 256 \<Longrightarrow> ip_length n pool_server = 16"
  by (simp add: pool_server_def sample_server_def sv_session_def blank_session_def)

lemma accept_sample_inv: "acc_inv pool_cfg_example 3 3 (as_server accept_sample)"
  unfolding accept_sample_def by (simp add: acc_init(1) [OF pool_server_ready pool_server_ip])

lemma accept_sample_addr: "addresses_ok (as_server accept_sample)"
  using accept_sample_inv by (simp add: acc_inv_def)

lemma accept_sample_none: "sessions_from a (as_server accept_sample) = {}"
  unfolding accept_sample_def by (simp add: acc_init(2) [OF pool_server_ready pool_server_ip])

lemma accept_sample_client: "terminated 16 sample_client" "sample_client ! 0 \<noteq> 0"
  by (simp_all add: terminated_def)

text \<open>No limit of new sessions is set.\<close>

lemma accept_sample_rate: "\<not> fst (llps_client_ip_rate_limit_exceeded ip now
    \<lparr>rate_rs = sv_rs (as_server accept_sample), g_client_ip_rate_buckets = b\<rparr>)"
proof -
  have "cfg_held 3 pool_cfg_example (rs_env (sv_rs (as_server accept_sample)))"
    using acc_pool [OF accept_sample_inv] by (simp add: pool_but_def)
  then obtain rs where "reconcile_cfg (sv_rs (as_server accept_sample)) = (True, rs)"
    "env_runtime_cfg (rs_env rs) = pool_cfg_example"
    using reconcile_cfg_held by blast
  then show ?thesis
    by (simp add: llps_client_ip_rate_limit_exceeded_def llps_client_ip_rate_load_config_def Let_def
        pool_cfg_example_def example_cfg_def)
qed

section \<open>Properties\<close>


text \<open>
  C22: The limit of sessions for one address counts exactly. In a sound pool, with a configuration
  that sets a limit, the sessions found for an address are the active ones whose address reads the
  same, and the client is refused exactly when they have reached the limit; no session changes.
\<close>

theorem session_limit_exact:
  assumes "pool_inv cfg k l sv" "addresses_ok sv" "terminated LLPS_CLIENT_IP_TEXT_LEN ip" "ip ! 0 \<noteq> 0"
    and "max_sessions_per_client_ip cfg \<noteq> 0"
  shows "\<exists>found sv'. llps_client_ip_session_limit_exceeded (Some ip) sv =
      ((max_sessions_per_client_ip cfg \<le> found, found, max_sessions_per_client_ip cfg), sv') \<and>
    unat found = card {n. n < unat (max_clients cfg) \<and> se_state (sv_session n sv) = ST_ACTIVE \<and>
      text_of LLPS_CLIENT_IP_TEXT_LEN (se_client_ip (sv_session n sv)) = text_of LLPS_CLIENT_IP_TEXT_LEN ip} \<and>
    (\<forall>m. sv_session m sv' = sv_session m sv) \<and> pool_inv cfg 3 l sv'"
  using session_limit_post [OF assms(1-3)] assms(4,5)
  by (auto simp: sessions_from_def pool_cfg [OF assms(1)] pool_same_def word_le_nat_alt)

theorem session_limit_exact_witness:
  "\<exists>sv'. llps_client_ip_session_limit_exceeded (Some sample_client) (as_server accept_sample) = ((False, 0, 2), sv')"
proof -
  note inv = acc_pool [OF accept_sample_inv]
  have max: "max_sessions_per_client_ip pool_cfg_example = 2" by (simp add: pool_cfg_example_def)
  note none = accept_sample_none [of "text_of 16 sample_client", unfolded sessions_from_def pool_cfg [OF inv]]
  obtain found sv' where "llps_client_ip_session_limit_exceeded (Some sample_client) (as_server accept_sample) =
      ((2 \<le> found, found, 2), sv')" "unat found = 0"
    using session_limit_exact [OF inv accept_sample_addr accept_sample_client, unfolded none max] by auto
  then show ?thesis by (simp add: unat_eq_0)
qed

text \<open>
  Different clients have different addresses. For any socket address the kernel may fill in, the
  text of the peer fits its array with its terminator and is never empty, so neither limit takes it
  for no address; and the texts of two IPv4 peers are the same only if the addresses are.
\<close>

theorem peer_text_identifies:
  assumes "sa_family a = AF_INET" "sa_family b = AF_INET" "length (sin_addr a) = 4" "length (sin_addr b) = 4"
    and "addr_len \<ge> sizeof_sockaddr_in"
  defines "text x \<equiv> fst (llps_peer_text_from_sockaddr (Some x) addr_len LLPS_CLIENT_IP_TEXT_LEN)"
  shows "terminated LLPS_CLIENT_IP_TEXT_LEN (text a) \<and> text_of LLPS_CLIENT_IP_TEXT_LEN (text a) \<noteq> [] \<and>
    (text_of LLPS_CLIENT_IP_TEXT_LEN (text a) = text_of LLPS_CLIENT_IP_TEXT_LEN (text b) \<longleftrightarrow> sin_addr a = sin_addr b)"
  unfolding text_def using peer_text [of a addr_len] peer_text [of b addr_len] assms(1-5)
  by (simp add: peer_addr_def dotted_quad_eq_iff dotted_quad_text(3))

theorem peer_text_identifies_witness:
  "text_of 16 (fst (llps_peer_text_from_sockaddr (Some \<lparr>sa_family = 2, sin_port = 80, sin_addr = [10, 0, 0, 1]\<rparr>) 16 16)) \<noteq>
   text_of 16 (fst (llps_peer_text_from_sockaddr (Some \<lparr>sa_family = 2, sin_port = 80, sin_addr = [10, 0, 0, 2]\<rparr>) 16 16))"
  using peer_text_identifies [of "\<lparr>sa_family = 2, sin_port = 80, sin_addr = [10, 0, 0, 1]\<rparr>"
      "\<lparr>sa_family = 2, sin_port = 80, sin_addr = [10, 0, 0, 2]\<rparr>" 16] by simp

text \<open>
  C4: A batch of accepted clients keeps the server sound. Whatever the kernel, the clock and the
  audit log answer for each client, whether or not its task is started, and with one upset bank of the
  configuration and of the free list at the start: as long as the scheduler contract of the runtime
  holds whenever a session is closed again (\<open>he_return_contract\<close>), every session is sealed afterwards,
  the free list lists the free ones, and when a limit of sessions for one address is set, no address
  has more active sessions than that. When the contract is broken at a close, the code frees the slot
  and does not put it back on the list.
\<close>

theorem accept_batch_keeps_limits:
  assumes "acc_inv cfg k l (as_server st)" "list_all (\<lambda>(ar, he). he_return_contract he) answers"
  shows "pool_inv cfg k l (as_server (llps_server_accept_batch answers st)) \<and>
    (max_sessions_per_client_ip cfg \<noteq> 0 \<and> a \<noteq> [] \<longrightarrow>
     card {n. n < unat (max_clients cfg) \<and>
        se_state (sv_session n (as_server (llps_server_accept_batch answers st))) = ST_ACTIVE \<and>
        text_of LLPS_CLIENT_IP_TEXT_LEN (se_client_ip (sv_session n (as_server (llps_server_accept_batch answers st)))) = a}
      \<le> unat (max_sessions_per_client_ip cfg))"
proof -
  have inv: "acc_inv cfg k l (as_server (llps_server_accept_batch answers st))"
    unfolding llps_server_accept_batch_def by (rule accept_batch_loop_inv [OF assms(1,2)])
  show ?thesis
    using inv pool_cfg [OF acc_pool [OF inv]] by (simp add: acc_inv_def sessions_from_def)
qed

theorem accept_batch_keeps_limits_witness:
  "card {n. n < 256 \<and>
      se_state (sv_session n (as_server (llps_server_accept_batch [(sample_accept, sample_handle)] accept_sample))) = ST_ACTIVE \<and>
      text_of 16 (se_client_ip (sv_session n (as_server (llps_server_accept_batch [(sample_accept, sample_handle)] accept_sample)))) =
        text_of 16 sample_client} \<le> 2"
  using accept_batch_keeps_limits [OF accept_sample_inv, of "[(sample_accept, sample_handle)]" "text_of 16 sample_client"]
  by (simp add: sample_handle_def pool_cfg_example_def example_cfg_def text_of_def)

text \<open>
  C9: No client is forgotten and no session of another client is touched. A client that is handled is
  either turned away, with its descriptor closed and no session changed, or one slot that was free is
  used for it, and then that session is active with its descriptor, its address and its request
  number, or was given up again with the descriptor closed. Where both limits admit the client, its
  descriptor can be set up, a slot is free and neither the audit log nor the runtime refuses, it is
  served. The scheduler contract of the runtime is assumed to hold when a session is closed again
  (\<open>he_return_contract\<close>).
\<close>

theorem client_is_served_or_dropped:
  assumes "acc_inv cfg k l (as_server st)" "terminated LLPS_CLIENT_IP_TEXT_LEN (ac_client_ip client)"
    and "he_return_contract he" "llps_server_handle_client he client st = (client', st')"
  shows "(turned_away client st client' st' \<or> (\<exists>n. slot_used client (as_server st) (as_server st') n)) \<and>
    (\<not> fst (llps_client_ip_rate_limit_exceeded (ac_client_ip client) (he_rate_now he)
        \<lparr>rate_rs = sv_rs (as_server st), g_client_ip_rate_buckets = as_buckets st\<rparr>) \<and>
     (max_sessions_per_client_ip cfg = 0 \<or>
       card (sessions_from (text_of LLPS_CLIENT_IP_TEXT_LEN (ac_client_ip client)) (as_server st)) < unat (max_sessions_per_client_ip cfg)) \<and>
     fst (llps_server_setup_client_fd he client st) \<and> he_serving he \<and> free_slots (as_server st) \<noteq> {} \<longrightarrow>
     (\<exists>n. slot_used client (as_server st) (as_server st') n \<and> serves client (sv_session n (as_server st'))))"
  using handle_outcome [OF assms] by blast

theorem client_is_served_or_dropped_witness:
  "\<exists>n < 256. serves sample_accepted (sv_session n
     (as_server (snd (llps_server_handle_client sample_handle sample_accepted accept_sample))))"
proof -
  obtain client' st' where r: "llps_server_handle_client sample_handle sample_accepted accept_sample = (client', st')" by fastforce
  have ip: "terminated 16 (ac_client_ip sample_accepted)" using accept_sample_client by (simp add: sample_accepted_def)
  have he: "he_return_contract sample_handle" "he_serving sample_handle" by (simp_all add: sample_handle_def he_serving_def)
  have fd: "fst (llps_server_setup_client_fd sample_handle sample_accepted accept_sample)"
    by (simp add: llps_server_setup_client_fd_def sample_handle_def sample_accepted_def llps_set_close_on_exec_def
        llps_set_nonblocking_def llps_set_no_sigpipe_def llps_set_tcp_nodelay_def llps_fd_is_valid_def)
  have limit: "max_sessions_per_client_ip pool_cfg_example = 0 \<or>
      card (sessions_from (text_of 16 (ac_client_ip sample_accepted)) (as_server accept_sample)) <
        unat (max_sessions_per_client_ip pool_cfg_example)"
    unfolding accept_sample_none by (simp add: pool_cfg_example_def)
  have slots: "free_slots (as_server accept_sample) = {..<256}" by (simp add: accept_sample_def pool_server_slots)
  have ne: "free_slots (as_server accept_sample) \<noteq> {}" unfolding slots by (simp add: lessThan_empty_iff)
  obtain n where "slot_used sample_accepted (as_server accept_sample) (as_server st') n" "serves sample_accepted (sv_session n (as_server st'))"
    using client_is_served_or_dropped [OF accept_sample_inv ip he(1) r] accept_sample_rate fd limit ne he(2) by blast
  then show ?thesis using slots r by (auto simp: slot_used_def)
qed

end
