(* ===== verification/Pump.thy ===== *)
theory Pump
  imports Accept_Path
begin

text \<open>
  The pumps of a connection, from \<^verbatim>\<open>src/core/llps_state.c\<close>: one task for each direction reads from one
  descriptor into its buffer and sends the buffer to the other, with the payload codes sealed after
  the read and repaired before every send. What the descriptors answer, and what other tasks and
  upsets do to memory between two steps, are arguments. Log output is left out.
\<close>

section \<open>Definitions\<close>

text \<open>
  The addresses of each session and its buffers, and the array a pointer denotes; a pointer to neither
  has no memory in the model.
\<close>

record buffer_layout =
  ly_session :: "nat \<Rightarrow> u64"
  ly_c2s_buf :: "nat \<Rightarrow> u64"
  ly_s2c_buf :: "nat \<Rightarrow> u64"

datatype transfer = C2S_buf | S2C_buf | No_buf

definition pump_transfer :: "buffer_layout \<Rightarrow> nat \<Rightarrow> llps_pump_args_t \<Rightarrow> transfer" where
  "pump_transfer ly n pump =
     (if pa_buf pump = ly_c2s_buf ly n then C2S_buf
      else if pa_buf pump = ly_s2c_buf ly n then S2C_buf else No_buf)"

fun get_buf :: "transfer \<Rightarrow> llps_session_t \<Rightarrow> u8 list" where
  "get_buf C2S_buf s = se_c2s_buf s" | "get_buf S2C_buf s = se_s2c_buf s" | "get_buf No_buf s = []"

fun put_buf :: "transfer \<Rightarrow> u8 list \<Rightarrow> llps_session_t \<Rightarrow> llps_session_t" where
  "put_buf C2S_buf b s = s\<lparr>se_c2s_buf := b\<rparr>" | "put_buf S2C_buf b s = s\<lparr>se_s2c_buf := b\<rparr>"
| "put_buf No_buf b s = s"

fun get_ecc :: "transfer \<Rightarrow> llps_session_t \<Rightarrow> u8 list" where
  "get_ecc C2S_buf s = se_c2s_payload_ecc s" | "get_ecc S2C_buf s = se_s2c_payload_ecc s" | "get_ecc No_buf s = []"

fun put_ecc :: "transfer \<Rightarrow> u8 list \<Rightarrow> llps_session_t \<Rightarrow> llps_session_t" where
  "put_ecc C2S_buf e s = s\<lparr>se_c2s_payload_ecc := e\<rparr>" | "put_ecc S2C_buf e s = s\<lparr>se_s2c_payload_ecc := e\<rparr>"
| "put_ecc No_buf e s = s"

text \<open>The two pump records of a session: \<open>True\<close> is the one from the client to the server.\<close>

definition pump_of :: "bool \<Rightarrow> llps_session_t \<Rightarrow> llps_pump_args_t" where
  "pump_of c2s s = (if c2s then se_pump_c2s s else se_pump_s2c s)"

text \<open>\<open>No_buf\<close> is \<^verbatim>\<open>NULL\<close>.\<close>

definition llps_payload_ecc_for_pump :: "buffer_layout \<Rightarrow> nat \<Rightarrow> llps_pump_args_t \<Rightarrow> transfer" where
  "llps_payload_ecc_for_pump ly n pump =
     (if pa_direction pump = LLPS_DIR_C2S \<and> pa_buf pump = ly_c2s_buf ly n then C2S_buf
      else if pa_direction pump = LLPS_DIR_S2C \<and> pa_buf pump = ly_s2c_buf ly n then S2C_buf
      else No_buf)"

definition llps_payload_ecc_set_len_for_pump ::
    "buffer_layout \<Rightarrow> nat \<Rightarrow> llps_pump_args_t \<Rightarrow> nat \<Rightarrow> server_state \<Rightarrow> bool \<times> server_state" where
  "llps_payload_ecc_set_len_for_pump ly n pump len sv =
     (let bounded_len = of_nat len; sess = sv_session n sv
      in if len > LLPS_PAYLOAD_BUFFER_SIZE then (False, sv)
         else if pa_direction pump = LLPS_DIR_C2S \<and> pa_buf pump = ly_c2s_buf ly n
         then (if se_c2s_payload_ecc_len sess = bounded_len \<and> se_c2s_payload_ecc_len_inverse sess = NOT bounded_len
               then (True, sv)
               else (True, llps_session_refresh_crc n (sv_put_session n
                      (sess\<lparr>se_c2s_payload_ecc_len := bounded_len, se_c2s_payload_ecc_len_inverse := NOT bounded_len\<rparr>) sv)))
         else if pa_direction pump = LLPS_DIR_S2C \<and> pa_buf pump = ly_s2c_buf ly n
         then (if se_s2c_payload_ecc_len sess = bounded_len \<and> se_s2c_payload_ecc_len_inverse sess = NOT bounded_len
               then (True, sv)
               else (True, llps_session_refresh_crc n (sv_put_session n
                      (sess\<lparr>se_s2c_payload_ecc_len := bounded_len, se_s2c_payload_ecc_len_inverse := NOT bounded_len\<rparr>) sv)))
         else (False, sv))"

subsection \<open>The context of a pump\<close>

abbreviation LLPS_CLOSE_REASON_PAYLOAD_ECC :: u32 where
  "LLPS_CLOSE_REASON_PAYLOAD_ECC \<equiv> 2"

abbreviation LLPS_CLOSE_REASON_METADATA_FAULT :: u32 where
  "LLPS_CLOSE_REASON_METADATA_FAULT \<equiv> 3"

abbreviation LLPS_CLOSE_REASON_CONTRACT_VIOLATION :: u32 where
  "LLPS_CLOSE_REASON_CONTRACT_VIOLATION \<equiv> 4"

definition llps_connection_prepare_pump_args :: "buffer_layout \<Rightarrow> nat \<Rightarrow> server_state \<Rightarrow> server_state" where
  "llps_connection_prepare_pump_args ly n sv =
     (let sess = sv_session n sv;
          sess = sess\<lparr>se_pump_c2s := \<lparr>pa_session = ly_session ly n, pa_src_fd = se_client_fd sess, pa_dst_fd = se_backend_fd sess,
            pa_buf = ly_c2s_buf ly n, pa_buf_len = ucast (buffer_size (sv_cfg sv)), pa_direction = LLPS_DIR_C2S\<rparr>\<rparr>;
          sess = sess\<lparr>se_pump_s2c := \<lparr>pa_session = ly_session ly n, pa_src_fd = se_backend_fd sess, pa_dst_fd = se_client_fd sess,
            pa_buf = ly_s2c_buf ly n, pa_buf_len = ucast (buffer_size (sv_cfg sv)), pa_direction = LLPS_DIR_S2C\<rparr>\<rparr>
      in llps_session_refresh_crc n (sv_put_session n sess sv))"

text \<open>The session of a pump is the one that holds its record, as \<^verbatim>\<open>llps_connection_prepare_pump_args\<close> sets it.\<close>

record llps_pump_context_t =
  pc_c2s :: bool
  pc_sess :: nat
  pc_payload_ecc :: transfer
  pc_payload_ecc_enabled :: bool
  pc_close_reason :: u32

abbreviation pc_pump :: "llps_pump_context_t \<Rightarrow> server_state \<Rightarrow> llps_pump_args_t" where
  "pc_pump ctx sv \<equiv> pump_of (pc_c2s ctx) (sv_session (pc_sess ctx) sv)"

definition llps_pump_context_init :: "bool \<Rightarrow> nat \<Rightarrow> llps_pump_context_t" where
  "llps_pump_context_init c2s n =
     \<lparr>pc_c2s = c2s, pc_sess = n, pc_payload_ecc = No_buf, pc_payload_ecc_enabled = False,
      pc_close_reason = LLPS_CLOSE_REASON_NORMAL\<rparr>"

text \<open>\<open>getfl\<close> is what \<^verbatim>\<open>fcntl(fd, F_GETFL, 0)\<close> returns.\<close>

abbreviation O_NONBLOCK :: c_int where
  "O_NONBLOCK \<equiv> 0x800"

definition llps_fd_is_nonblocking :: "(c_int \<Rightarrow> c_int) \<Rightarrow> c_int \<Rightarrow> bool" where
  "llps_fd_is_nonblocking getfl fd =
     (if \<not> llps_fd_is_valid fd then False
      else if sint (getfl fd) < 0 then False
      else getfl fd AND O_NONBLOCK \<noteq> 0)"

definition llps_pump_args_are_valid :: "(c_int \<Rightarrow> c_int) \<Rightarrow> llps_pump_context_t \<Rightarrow> server_state \<Rightarrow> bool" where
  "llps_pump_args_are_valid getfl ctx sv \<longleftrightarrow>
     (let pump = pc_pump ctx sv
      in pa_buf pump \<noteq> 0 \<and> pa_buf_len pump \<noteq> 0 \<and> pa_buf_len pump \<le> ucast (buffer_size (sv_cfg sv)) \<and>
         unat (pa_buf_len pump) \<le> LLPS_PAYLOAD_BUFFER_SIZE \<and>
         llps_fd_is_valid (pa_src_fd pump) \<and> llps_fd_is_valid (pa_dst_fd pump) \<and>
         llps_fd_is_nonblocking getfl (pa_src_fd pump) \<and> llps_fd_is_nonblocking getfl (pa_dst_fd pump) \<and>
         llps_direction_is_valid (pa_direction pump))"

definition pump_fault :: "u32 \<Rightarrow> llps_pump_context_t \<Rightarrow> server_state \<Rightarrow> bool \<times> llps_pump_context_t \<times> server_state" where
  "pump_fault reason ctx sv = (False, ctx\<lparr>pc_close_reason := reason\<rparr>, sv_violation sv)"

definition llps_pump_prepare ::
    "buffer_layout \<Rightarrow> (c_int \<Rightarrow> c_int) \<Rightarrow> llps_pump_context_t \<Rightarrow> server_state \<Rightarrow>
     bool \<times> llps_pump_context_t \<times> server_state" where
  "llps_pump_prepare ly getfl ctx sv =
     (case llps_session_is_active (pc_sess ctx) sv of
        (is_active, sv) \<Rightarrow>
          if \<not> is_active \<or> \<not> llps_pump_args_are_valid getfl ctx sv
          then pump_fault LLPS_CLOSE_REASON_CONTRACT_VIOLATION ctx sv
          else
            (let ctx = ctx\<lparr>pc_payload_ecc_enabled := (payload_ecc_enabled (sv_cfg sv) \<noteq> 0)\<rparr>
             in if pc_payload_ecc_enabled ctx
                then (let ctx = ctx\<lparr>pc_payload_ecc := llps_payload_ecc_for_pump ly (pc_sess ctx) (pc_pump ctx sv)\<rparr>
                      in if pc_payload_ecc ctx = No_buf
                         then pump_fault LLPS_CLOSE_REASON_CONTRACT_VIOLATION ctx sv else (True, ctx, sv))
                else (True, ctx, sv)))"

text \<open>Descriptors that are shut down, and in which directions.\<close>

datatype shut_how = SHUT_WR | SHUT_RDWR

definition llps_pump_shutdown_both_fds :: "llps_pump_context_t \<Rightarrow> server_state \<Rightarrow> (c_int \<times> shut_how) list" where
  "llps_pump_shutdown_both_fds ctx sv =
     (let pump = pc_pump ctx sv
      in (if llps_fd_is_valid (pa_src_fd pump) then [(pa_src_fd pump, SHUT_RDWR)] else []) @
         (if llps_fd_is_valid (pa_dst_fd pump) then [(pa_dst_fd pump, SHUT_RDWR)] else []))"

definition llps_pump_cycle_can_continue ::
    "llps_pump_context_t \<Rightarrow> server_state \<Rightarrow> bool \<times> llps_pump_context_t \<times> server_state" where
  "llps_pump_cycle_can_continue ctx sv =
     (if \<not> llps_session_hot_path_is_active (sv_session (pc_sess ctx) sv)
      then pump_fault LLPS_CLOSE_REASON_METADATA_FAULT ctx sv
      else if \<not> llps_fd_is_valid (pa_src_fd (pc_pump ctx sv)) \<or> \<not> llps_fd_is_valid (pa_dst_fd (pc_pump ctx sv))
      then (False, ctx, sv)
      else (case sv_shutdown_is_requested sv of (requested, sv) \<Rightarrow> (\<not> requested, ctx, sv)))"

subsection \<open>Reading\<close>

text \<open>What \<^verbatim>\<open>read\<close> answers: bytes (none at the end of the stream), or it would block and then the poll
  returns, or it failed.\<close>

datatype read_answer = Read_bytes "u8 list" | Read_blocked c_int | Read_failed

datatype read_result = Got nat | Retry | Stop_eof | Stop_error

definition pump_store :: "buffer_layout \<Rightarrow> llps_pump_context_t \<Rightarrow> u8 list \<Rightarrow> server_state \<Rightarrow> server_state" where
  "pump_store ly ctx bs sv =
     (let n = pc_sess ctx; tr = pump_transfer ly n (pc_pump ctx sv); s = sv_session n sv
      in sv_put_session n (put_buf tr (bs @ drop (length bs) (get_buf tr s)) s) sv)"

definition llps_pump_read_bytes ::
    "buffer_layout \<Rightarrow> read_answer \<Rightarrow> llps_pump_context_t \<Rightarrow> server_state \<Rightarrow>
     read_result \<times> llps_pump_context_t \<times> server_state" where
  "llps_pump_read_bytes ly answer ctx sv =
     (case answer of
        Read_bytes bs \<Rightarrow>
          (let sv = pump_store ly ctx bs sv
           in if bs = [] then (Stop_eof, ctx, sv)
              else if length bs > unat (pa_buf_len (pc_pump ctx sv))
              then (case pump_fault LLPS_CLOSE_REASON_CONTRACT_VIOLATION ctx sv of (_, ctx, sv) \<Rightarrow> (Stop_error, ctx, sv))
              else (Got (length bs), ctx, sv))
      | Read_blocked poll_rc \<Rightarrow>
          (case llps_llam_poll_fd_checked poll_rc (pa_src_fd (pc_pump ctx sv)) POLLIN 10 sv of
             (rc, sv) \<Rightarrow>
               if sint rc < 0 then (Stop_error, ctx\<lparr>pc_close_reason := LLPS_CLOSE_REASON_CONTRACT_VIOLATION\<rparr>, sv)
               else (Retry, ctx, sv))
      | Read_failed \<Rightarrow> (Stop_error, ctx, sv))"

definition llps_pump_seal_read_payload ::
    "buffer_layout \<Rightarrow> nat \<Rightarrow> llps_pump_context_t \<Rightarrow> server_state \<Rightarrow> bool \<times> llps_pump_context_t \<times> server_state" where
  "llps_pump_seal_read_payload ly len ctx sv =
     (if \<not> pc_payload_ecc_enabled ctx then (True, ctx, sv)
      else
        (let n = pc_sess ctx; s = sv_session n sv; pump = pc_pump ctx sv;
             tr = pump_transfer ly n pump; te = pc_payload_ecc ctx;
             (sealed, buf, ecc) = llps_payload_ecc_seal (get_buf tr s) len (unat (pa_buf_len pump))
               (get_ecc te s) LLPS_PAYLOAD_ECC_WORD_COUNT;
             sv = sv_put_session n (put_ecc te ecc (put_buf tr buf s)) sv
         in if \<not> sealed then pump_fault LLPS_CLOSE_REASON_CONTRACT_VIOLATION ctx sv
            else (case llps_payload_ecc_set_len_for_pump ly n pump len sv of
                    (False, sv) \<Rightarrow> pump_fault LLPS_CLOSE_REASON_CONTRACT_VIOLATION ctx sv
                  | (True, sv) \<Rightarrow> (True, ctx, sv))))"

subsection \<open>Writing\<close>

definition llps_pump_repair_write_payload ::
    "buffer_layout \<Rightarrow> nat \<Rightarrow> llps_pump_context_t \<Rightarrow> server_state \<Rightarrow> bool \<times> llps_pump_context_t \<times> server_state" where
  "llps_pump_repair_write_payload ly len ctx sv =
     (if \<not> pc_payload_ecc_enabled ctx then (True, ctx, sv)
      else
        (let n = pc_sess ctx; s = sv_session n sv; pump = pc_pump ctx sv;
             tr = pump_transfer ly n pump; te = pc_payload_ecc ctx;
             (repaired, buf, ecc, sc) = llps_payload_ecc_repair (get_buf tr s) len (unat (pa_buf_len pump))
               (get_ecc te s) LLPS_PAYLOAD_ECC_WORD_COUNT (sv_counters sv);
             sv = sv_set_counters sc (sv_put_session n (put_ecc te ecc (put_buf tr buf s)) sv)
         in if \<not> repaired then pump_fault LLPS_CLOSE_REASON_PAYLOAD_ECC ctx sv else (True, ctx, sv)))"

text \<open>
  What \<^verbatim>\<open>send\<close> answers: how many bytes it took, or it would block and then the poll returns, or it
  failed; and what happened to memory since the step before.
\<close>

datatype send_answer = Sent nat | Send_blocked c_int | Send_failed

record write_answer =
  wa_before :: "server_state \<Rightarrow> server_state"
  wa_send :: send_answer

abbreviation LLPS_IO_RETRY_BUDGET :: u32 where
  "LLPS_IO_RETRY_BUDGET \<equiv> 1024"

abbreviation POLLOUT :: u16 where
  "POLLOUT \<equiv> 4"

text \<open>The progress of a write: the offset, what remains, the retries, and the bytes \<^verbatim>\<open>send\<close> has taken.\<close>

record write_progress =
  wp_off :: nat
  wp_remain :: nat
  wp_retry_count :: u32
  wp_sent :: "u8 list"

definition llps_pump_wait_writable ::
    "c_int \<Rightarrow> llps_pump_context_t \<Rightarrow> write_progress \<Rightarrow> server_state \<Rightarrow>
     bool \<times> llps_pump_context_t \<times> write_progress \<times> server_state" where
  "llps_pump_wait_writable poll_rc ctx wp sv =
     (if wp_retry_count wp \<ge> LLPS_IO_RETRY_BUDGET
      then (case pump_fault LLPS_CLOSE_REASON_CONTRACT_VIOLATION ctx sv of (ok, ctx, sv) \<Rightarrow> (ok, ctx, wp, sv))
      else
        (let wp = wp\<lparr>wp_retry_count := wp_retry_count wp + 1\<rparr>
         in case llps_llam_poll_fd_checked poll_rc (pa_dst_fd (pc_pump ctx sv)) POLLOUT 10 sv of
              (rc, sv) \<Rightarrow>
                if sint rc < 0
                then (False, ctx\<lparr>pc_close_reason := LLPS_CLOSE_REASON_CONTRACT_VIOLATION\<rparr>, wp, sv)
                else (True, ctx, wp, sv)))"

definition llps_pump_write_step ::
    "buffer_layout \<Rightarrow> send_answer \<Rightarrow> nat \<Rightarrow> llps_pump_context_t \<Rightarrow> write_progress \<Rightarrow> server_state \<Rightarrow>
     bool \<times> llps_pump_context_t \<times> write_progress \<times> server_state" where
  "llps_pump_write_step ly answer len ctx wp sv =
     (if \<not> llps_session_hot_path_is_active (sv_session (pc_sess ctx) sv)
      then (case pump_fault LLPS_CLOSE_REASON_METADATA_FAULT ctx sv of (ok, ctx, sv) \<Rightarrow> (ok, ctx, wp, sv))
      else (case llps_pump_repair_write_payload ly len ctx sv of
              (False, ctx, sv) \<Rightarrow> (False, ctx, wp, sv)
            | (True, ctx, sv) \<Rightarrow>
                (case answer of
                   Send_blocked poll_rc \<Rightarrow> llps_pump_wait_writable poll_rc ctx wp sv
                 | Send_failed \<Rightarrow> (False, ctx, wp, sv)
                 | Sent w \<Rightarrow>
                     if w = 0 then (False, ctx, wp, sv)
                     else if w > wp_remain wp
                     then (case pump_fault LLPS_CLOSE_REASON_CONTRACT_VIOLATION ctx sv of
                             (ok, ctx, sv) \<Rightarrow> (ok, ctx, wp, sv))
                     else (True, ctx,
                           wp\<lparr>wp_remain := wp_remain wp - w, wp_off := wp_off wp + w,
                              wp_sent := wp_sent wp @ take w (drop (wp_off wp)
                                (get_buf (pump_transfer ly (pc_sess ctx) (pc_pump ctx sv)) (sv_session (pc_sess ctx) sv)))\<rparr>,
                           sv))))"

text \<open>\<^verbatim>\<open>LLPS_SOCKET_IO_STEP_MAX\<close>: the size of the buffer and the budget of retries.\<close>

abbreviation LLPS_SOCKET_IO_STEP_MAX :: nat where
  "LLPS_SOCKET_IO_STEP_MAX \<equiv> 5120"

text \<open>The loop over the steps; \<open>answers io_step\<close> is what the step meets.\<close>

fun pump_write_loop ::
    "buffer_layout \<Rightarrow> (nat \<Rightarrow> write_answer) \<Rightarrow> nat \<Rightarrow> nat \<Rightarrow> nat \<Rightarrow> llps_pump_context_t \<Rightarrow> write_progress \<Rightarrow> server_state \<Rightarrow>
     bool \<times> llps_pump_context_t \<times> write_progress \<times> server_state" where
  "pump_write_loop ly answers len io_step 0 ctx wp sv = (True, ctx, wp, sv)"
| "pump_write_loop ly answers len io_step (Suc steps) ctx wp sv =
     (if wp_remain wp = 0 then (True, ctx, wp, sv)
      else (case llps_pump_write_step ly (wa_send (answers io_step)) len ctx wp (wa_before (answers io_step) sv) of
              (False, r) \<Rightarrow> (False, r)
            | (True, ctx, wp, sv) \<Rightarrow> pump_write_loop ly answers len (Suc io_step) steps ctx wp sv))"

definition llps_pump_write_all ::
    "buffer_layout \<Rightarrow> (nat \<Rightarrow> write_answer) \<Rightarrow> nat \<Rightarrow> llps_pump_context_t \<Rightarrow> u8 list \<Rightarrow> server_state \<Rightarrow>
     bool \<times> llps_pump_context_t \<times> u8 list \<times> server_state" where
  "llps_pump_write_all ly answers len ctx sent sv =
     (case pump_write_loop ly answers len 0 LLPS_SOCKET_IO_STEP_MAX ctx
             \<lparr>wp_off = 0, wp_remain = len, wp_retry_count = 0, wp_sent = sent\<rparr> sv of
        (False, ctx, wp, sv) \<Rightarrow> (False, ctx, wp_sent wp, sv)
      | (True, ctx, wp, sv) \<Rightarrow>
          if wp_remain wp > 0
          then (case pump_fault LLPS_CLOSE_REASON_CONTRACT_VIOLATION ctx sv of
                  (ok, ctx, sv) \<Rightarrow> (ok, ctx, wp_sent wp, sv))
          else (True, ctx, wp_sent wp, sv))"

subsection \<open>The task\<close>

abbreviation LLPS_PUMP_YIELD_AFTER_BYTES :: u64 where
  "LLPS_PUMP_YIELD_AFTER_BYTES \<equiv> 65536"

abbreviation LLPS_PUMP_INTEGRITY_CHECK_AFTER_BYTES :: u64 where
  "LLPS_PUMP_INTEGRITY_CHECK_AFTER_BYTES \<equiv> 1048576"

text \<open>The two counts are those since the last yield and since the last full check; a yield changes no state here.\<close>

definition llps_pump_after_success ::
    "nat \<Rightarrow> llps_pump_context_t \<Rightarrow> u64 \<times> u64 \<Rightarrow> server_state \<Rightarrow>
     bool \<times> llps_pump_context_t \<times> (u64 \<times> u64) \<times> server_state" where
  "llps_pump_after_success n ctx counts sv =
     (let bytes_since_yield = fst counts + of_nat n;
          bytes_since_integrity = snd counts + of_nat n;
          due = (bytes_since_integrity \<ge> LLPS_PUMP_INTEGRITY_CHECK_AFTER_BYTES);
          bytes_since_integrity = (if due then 0 else bytes_since_integrity);
          (is_active, sv) = (if due then llps_session_is_active (pc_sess ctx) sv else (True, sv))
      in if \<not> is_active
         then (case pump_fault LLPS_CLOSE_REASON_METADATA_FAULT ctx sv of
                 (ok, ctx, sv) \<Rightarrow> (ok, ctx, (bytes_since_yield, bytes_since_integrity), sv))
         else (True, ctx,
               (if bytes_since_yield \<ge> LLPS_PUMP_YIELD_AFTER_BYTES then 0 else bytes_since_yield,
                bytes_since_integrity), sv))"

definition llps_pump_finish ::
    "bool \<Rightarrow> llps_pump_context_t \<Rightarrow> server_state \<Rightarrow> (c_int \<times> shut_how) list \<times> server_state" where
  "llps_pump_finish hard_error ctx sv =
     (if hard_error
      then (let sv = llps_session_mark_close_reason_if_active (pc_sess ctx) (pc_close_reason ctx) sv
            in (llps_pump_shutdown_both_fds ctx sv, sv))
      else (if llps_fd_is_valid (pa_dst_fd (pc_pump ctx sv)) then [(pa_dst_fd (pc_pump ctx sv), SHUT_WR)] else [], sv))"

text \<open>What one turn of the loop meets.\<close>

record cycle_answer =
  ca_before :: "server_state \<Rightarrow> server_state"
  ca_read :: read_answer
  ca_now :: u64
  ca_writes :: "nat \<Rightarrow> write_answer"

text \<open>How far the task has come: it runs, or it stopped with or without a hard error.\<close>

datatype pump_end = Running | Stopped bool

record pump_state =
  ps_ctx :: llps_pump_context_t
  ps_server :: server_state
  ps_counts :: "u64 \<times> u64"
  ps_sent :: "u8 list"

text \<open>One turn; \<open>None\<close> when the loop goes on.\<close>

definition pump_cycle :: "buffer_layout \<Rightarrow> cycle_answer \<Rightarrow> pump_state \<Rightarrow> bool option \<times> pump_state" where
  "pump_cycle ly ca ps =
     (case llps_pump_cycle_can_continue (ps_ctx ps) (ca_before ca (ps_server ps)) of
        (False, ctx, sv) \<Rightarrow>
          (Some (pc_close_reason ctx \<noteq> LLPS_CLOSE_REASON_NORMAL), ps\<lparr>ps_ctx := ctx, ps_server := sv\<rparr>)
      | (True, ctx, sv) \<Rightarrow>
          (case llps_pump_read_bytes ly (ca_read ca) ctx sv of
             (Stop_eof, ctx, sv) \<Rightarrow> (Some False, ps\<lparr>ps_ctx := ctx, ps_server := sv\<rparr>)
           | (Stop_error, ctx, sv) \<Rightarrow> (Some True, ps\<lparr>ps_ctx := ctx, ps_server := sv\<rparr>)
           | (Retry, ctx, sv) \<Rightarrow> (None, ps\<lparr>ps_ctx := ctx, ps_server := sv\<rparr>)
           | (Got n, ctx, sv) \<Rightarrow>
               (let sv = llps_session_touch (pc_sess ctx) (ca_now ca) sv
                in case llps_pump_seal_read_payload ly n ctx sv of
                     (False, ctx, sv) \<Rightarrow> (Some True, ps\<lparr>ps_ctx := ctx, ps_server := sv\<rparr>)
                   | (True, ctx, sv) \<Rightarrow>
                       (case llps_pump_write_all ly (ca_writes ca) n ctx (ps_sent ps) sv of
                          (False, ctx, sent, sv) \<Rightarrow>
                            (Some True, ps\<lparr>ps_ctx := ctx, ps_server := sv, ps_sent := sent\<rparr>)
                        | (True, ctx, sent, sv) \<Rightarrow>
                            (case llps_pump_after_success n ctx (ps_counts ps) sv of
                               (ok, ctx, counts, sv) \<Rightarrow>
                                 (if ok then None else Some True,
                                  ps\<lparr>ps_ctx := ctx, ps_server := sv, ps_sent := sent, ps_counts := counts\<rparr>))))))"

text \<open>The loop over the answers met so far: it still runs when they are used up.\<close>

fun pump_loop :: "buffer_layout \<Rightarrow> u64 \<Rightarrow> cycle_answer list \<Rightarrow> pump_state \<Rightarrow> pump_end \<times> pump_state" where
  "pump_loop ly cycle [] ps = (Running, ps)"
| "pump_loop ly cycle (ca # answers) ps =
     (if \<not> cycle < UINT64_MAX then (Stopped False, ps)
      else (case pump_cycle ly ca ps of
              (None, ps) \<Rightarrow> pump_loop ly (cycle + 1) answers ps
            | (Some hard_error, ps) \<Rightarrow> (Stopped hard_error, ps)))"

text \<open>The result also has the descriptors that were shut down.\<close>

definition llps_task_pump ::
    "buffer_layout \<Rightarrow> (c_int \<Rightarrow> c_int) \<Rightarrow> cycle_answer list \<Rightarrow> bool \<Rightarrow> nat \<Rightarrow> server_state \<Rightarrow>
     pump_end \<times> (c_int \<times> shut_how) list \<times> u8 list \<times> server_state" where
  "llps_task_pump ly getfl answers c2s n sv =
     (case llps_pump_prepare ly getfl (llps_pump_context_init c2s n) sv of
        (False, ctx, sv) \<Rightarrow>
          (let sv = llps_session_mark_close_reason_if_active n (pc_close_reason ctx) sv
           in (Stopped True, llps_pump_shutdown_both_fds ctx sv, [], sv))
      | (True, ctx, sv) \<Rightarrow>
          (case pump_loop ly 0 answers \<lparr>ps_ctx = ctx, ps_server = sv, ps_counts = (0, 0), ps_sent = []\<rparr> of
             (Running, ps) \<Rightarrow> (Running, [], ps_sent ps, ps_server ps)
           | (Stopped hard_error, ps) \<Rightarrow>
               (case llps_pump_finish hard_error (ps_ctx ps) (ps_server ps) of
                  (shut, sv) \<Rightarrow> (Stopped hard_error, shut, ps_sent ps, sv))))"


section \<open>What stays during an operation\<close>

text \<open>The buffers, their codes and the records of the pumps of all sessions.\<close>

definition same_transfer :: "server_state \<Rightarrow> server_state \<Rightarrow> bool" where
  "same_transfer sv sv' \<longleftrightarrow> length (sv_sessions sv') = length (sv_sessions sv) \<and>
     (\<forall>m. unprotected (sv_session m sv') = unprotected (sv_session m sv))"

lemma same_transfer_refl [simp]: "same_transfer sv sv"
  by (simp add: same_transfer_def)

lemma same_transfer_trans: "same_transfer a b \<Longrightarrow> same_transfer b c \<Longrightarrow> same_transfer a c"
  by (simp add: same_transfer_def)

lemma same_transfer_rs [simp]:
  "same_transfer sv (sv\<lparr>sv_rs := rs\<rparr>)" "same_transfer sv (sv_set_counters sc sv)"
  "same_transfer sv (sv_violation sv)"
  by (simp_all add: same_transfer_def sv_violation_def sv_session_def sv_set_counters_def)

lemma session_put_cases:
  "sv_session m (sv_put_session n s sv) = (if m = n \<and> n < length (sv_sessions sv) then s else sv_session m sv)"
  by (auto simp: sv_session_def sv_put_session_def list_update_beyond)

lemma same_transfer_put:
  assumes "unprotected s = unprotected (sv_session n sv)"
  shows "same_transfer sv (sv_put_session n s sv)"
  using assms by (simp add: same_transfer_def session_put_cases)

lemma unprotected_sealed: "unprotected (sealed_session s) = unprotected s"
  by (simp add: sealed_session_def Let_def llps_session_refresh_secded_def)

lemma same_transfer_refresh [simp]: "same_transfer sv (llps_session_refresh_crc n sv)"
proof -
  obtain sc where "llps_session_refresh_crc n sv =
     (sv_set_counters sc (sv_put_session n (sealed_session (sv_session n sv)) sv))\<lparr>sv_regions :=
        fst (llps_session_tmr_write_all (llps_session_tmr_snapshot_from_session (sealed_session (sv_session n sv)))
          (sv_regions sv, sv_counters sv))\<rparr>"
    using refresh_crc_eq [of n sv] by blast
  then show ?thesis
    using same_transfer_put [OF unprotected_sealed, of sv n] by (simp add: same_transfer_def)
qed

lemma same_transfer_put_refresh:
  "unprotected s = unprotected (sv_session n sv) \<Longrightarrow> same_transfer sv (llps_session_refresh_crc n (sv_put_session n s sv))"
  by (rule same_transfer_trans [OF same_transfer_put same_transfer_refresh])

lemma unprotected_reconcile_local:
  assumes "session_reconcile_local t s sc = (ok, s', sc')"
  shows "unprotected s' = unprotected s"
proof -
  obtain ok1 r sc1 where r: "llps_session_repair_secded s sc = (ok1, r, sc1)" by (metis prod_cases3)
  have "unprotected s' = unprotected r"
    using assms by (auto simp: session_reconcile_local_def r Let_def llps_session_refresh_secded_def
        llps_session_apply_tmr_snapshot_def split: if_splits)
  with repair_frame [OF r] show ?thesis by simp
qed

lemma reconcile_cfg_rs: "\<exists>rs. snd (sv_reconcile_cfg sv) = sv\<lparr>sv_rs := rs\<rparr>"
  by (simp add: sv_reconcile_cfg_def split: prod.split) blast

lemma same_transfer_reconcile: "same_transfer sv (snd (llps_session_reconcile_integrity n sv))"
proof -
  obtain ok rs where c: "sv_reconcile_cfg sv = (ok, sv\<lparr>sv_rs := rs\<rparr>)"
    using reconcile_cfg_rs [of sv] by (metis prod.collapse)
  let ?sv = "sv\<lparr>sv_rs := rs\<rparr>"
  obtain voted regions sc where v: "llps_session_tmr_vote (of_nat n) (max_clients (sv_cfg ?sv))
      (sv_regions sv, sv_counters ?sv) = (voted, regions, sc)" by (metis prod_cases3)
  have "same_transfer sv (sv_put_session n s ((sv_set_counters sc' ?sv)\<lparr>sv_regions := regions\<rparr>))"
    if "unprotected s = unprotected (sv_session n sv)" for s sc'
    using same_transfer_put [OF that] by (simp add: same_transfer_def session_put_cases)
  moreover have "same_transfer sv ((sv_set_counters sc ?sv)\<lparr>sv_regions := regions\<rparr>)"
    by (simp add: same_transfer_def)
  ultimately show ?thesis
    by (auto simp: llps_session_reconcile_integrity_def c llps_session_index_from_ptr_def v
        split: bool.split option.split prod.split dest!: unprotected_reconcile_local)
qed

lemma same_transfer_is_active:
  assumes "llps_session_is_active n sv = (r, sv')" shows "same_transfer sv sv'"
  using assms same_transfer_reconcile [of sv n]
  by (auto simp: llps_session_is_active_def split: prod.splits option.splits)

lemma only_rs_same_transfer: "only_rs sv sv' \<Longrightarrow> same_transfer sv sv'"
  by (auto simp: only_rs_def)

lemma same_transfer_shutdown: "sv_shutdown_is_requested sv = (r, sv') \<Longrightarrow> same_transfer sv sv'"
  using only_rs_same_transfer [OF only_rs_stopping [of sv]] by simp

lemma same_transfer_poll: "llps_llam_poll_fd_checked rc fd ev t sv = (r, sv') \<Longrightarrow> same_transfer sv sv'"
  using only_rs_same_transfer [OF only_rs_unless_stopping [of sv "sint rc < 0"]]
  by (auto simp: llps_llam_poll_fd_checked_def split: if_splits)

lemma same_transfer_touch: "same_transfer sv (llps_session_touch n now sv)"
proof -
  obtain rs where rs: "llps_llam_now_ns_checked now (sv_rs sv) = (now, rs)" by (simp add: now_checked_eq)
  have "same_transfer sv (llps_session_refresh_crc n (sv_put_session n s (sv\<lparr>sv_rs := rs\<rparr>)))"
    if "unprotected s = unprotected (sv_session n sv)" for s
    using that by (intro same_transfer_trans [OF same_transfer_rs(1) same_transfer_put_refresh]) simp
  then show ?thesis by (simp add: llps_session_touch_def Let_def rs)
qed

lemma same_transfer_mark: "same_transfer sv (llps_session_mark_close_reason_if_active n reason sv)"
proof -
  have m: "same_transfer sv (llps_session_mark_close_reason n reason sv)" for sv
    by (simp add: llps_session_mark_close_reason_def Let_def same_transfer_put_refresh)
  show ?thesis
    using same_transfer_is_active [of n sv] m
    by (auto simp: llps_session_mark_close_reason_if_active_def split: prod.split intro: same_transfer_trans)
qed

lemma same_transfer_set_len [simp]: "same_transfer sv (snd (llps_payload_ecc_set_len_for_pump ly n pump len sv))"
  by (simp add: llps_payload_ecc_set_len_for_pump_def Let_def same_transfer_put_refresh)

lemma same_transfer_can_continue:
  "llps_pump_cycle_can_continue ctx sv = (go, ctx', sv') \<Longrightarrow> same_transfer sv sv' \<and> pc_c2s ctx' = pc_c2s ctx \<and>
     pc_sess ctx' = pc_sess ctx \<and> pc_payload_ecc ctx' = pc_payload_ecc ctx \<and>
     pc_payload_ecc_enabled ctx' = pc_payload_ecc_enabled ctx"
  by (auto simp: llps_pump_cycle_can_continue_def pump_fault_def split: if_splits prod.splits dest: same_transfer_shutdown)

section \<open>What a pump may meet\<close>

definition own_transfer :: "bool \<Rightarrow> transfer" where
  "own_transfer c2s = (if c2s then C2S_buf else S2C_buf)"

abbreviation own_buf :: "bool \<Rightarrow> nat \<Rightarrow> server_state \<Rightarrow> u8 list" where
  "own_buf c2s n sv \<equiv> get_buf (own_transfer c2s) (sv_session n sv)"

abbreviation own_ecc :: "bool \<Rightarrow> nat \<Rightarrow> server_state \<Rightarrow> u8 list" where
  "own_ecc c2s n sv \<equiv> get_ecc (own_transfer c2s) (sv_session n sv)"

definition pump_cap :: "bool \<Rightarrow> nat \<Rightarrow> server_state \<Rightarrow> nat" where
  "pump_cap c2s n sv = unat (pa_buf_len (pump_of c2s (sv_session n sv)))"

text \<open>The record of the pump points to its own buffer, and the arrays have their sizes.\<close>

definition pump_shape :: "buffer_layout \<Rightarrow> bool \<Rightarrow> nat \<Rightarrow> server_state \<Rightarrow> bool" where
  "pump_shape ly c2s n sv \<longleftrightarrow> n < length (sv_sessions sv) \<and> ly_c2s_buf ly n \<noteq> ly_s2c_buf ly n \<and>
     pa_buf (pump_of c2s (sv_session n sv)) = (if c2s then ly_c2s_buf ly n else ly_s2c_buf ly n) \<and>
     length (own_buf c2s n sv) = LLPS_PAYLOAD_BUFFER_SIZE \<and> length (own_ecc c2s n sv) = LLPS_PAYLOAD_ECC_WORD_COUNT"

text \<open>Other tasks may do anything to the server, but leave the record of this pump alone.\<close>

definition keeps_pump :: "bool \<Rightarrow> nat \<Rightarrow> server_state \<Rightarrow> server_state \<Rightarrow> bool" where
  "keeps_pump c2s n sv sv' \<longleftrightarrow> length (sv_sessions sv') = length (sv_sessions sv) \<and>
     pump_of c2s (sv_session n sv') = pump_of c2s (sv_session n sv) \<and>
     length (own_buf c2s n sv') = length (own_buf c2s n sv) \<and> length (own_ecc c2s n sv') = length (own_ecc c2s n sv)"

definition payload_word :: "bool \<Rightarrow> nat \<Rightarrow> nat \<Rightarrow> server_state \<Rightarrow> u64 \<times> u8" where
  "payload_word c2s n j sv = stored_word (own_buf c2s n sv) (own_ecc c2s n sv) (pump_cap c2s n sv) j"

text \<open>At most two flipped bits in every sealed word of the buffer.\<close>

definition upsets :: "bool \<Rightarrow> nat \<Rightarrow> server_state \<Rightarrow> server_state \<Rightarrow> bool" where
  "upsets c2s n sv sv' \<longleftrightarrow> keeps_pump c2s n sv sv' \<and>
     (\<forall>j < llps_payload_ecc_word_count_for_len (pump_cap c2s n sv). word_sealed (payload_word c2s n j sv) \<longrightarrow>
        one_upset (fst (payload_word c2s n j sv)) (payload_word c2s n j sv') \<or>
        two_upsets (fst (payload_word c2s n j sv)) (payload_word c2s n j sv'))"

text \<open>What memory may do between two steps of a write; without codes the buffer has to stay.\<close>

definition memory_step :: "bool \<Rightarrow> bool \<Rightarrow> nat \<Rightarrow> server_state \<Rightarrow> server_state \<Rightarrow> bool" where
  "memory_step protected c2s n sv sv' \<longleftrightarrow>
     (if protected then upsets c2s n sv sv'
      else keeps_pump c2s n sv sv' \<and> own_buf c2s n sv' = own_buf c2s n sv)"

text \<open>The buffer holds \<open>data\<close> from its start, sealed when the codes are on.\<close>

definition holds_data :: "buffer_layout \<Rightarrow> bool \<Rightarrow> bool \<Rightarrow> nat \<Rightarrow> u8 list \<Rightarrow> server_state \<Rightarrow> bool" where
  "holds_data ly protected c2s n data sv \<longleftrightarrow> pump_shape ly c2s n sv \<and>
     pump_cap c2s n sv \<le> LLPS_PAYLOAD_BUFFER_SIZE \<and> length data \<le> pump_cap c2s n sv \<and>
     take (length data) (own_buf c2s n sv) = data \<and>
     (protected \<longrightarrow> sealed_payload data (pump_cap c2s n sv) (own_buf c2s n sv) (own_ecc c2s n sv))"

text \<open>The context of the pump, but for the reason.\<close>

definition pump_ctx :: "bool \<Rightarrow> bool \<Rightarrow> nat \<Rightarrow> llps_pump_context_t \<Rightarrow> bool" where
  "pump_ctx protected c2s n ctx \<longleftrightarrow> pc_c2s ctx = c2s \<and> pc_sess ctx = n \<and> pc_payload_ecc_enabled ctx = protected \<and>
     (protected \<longrightarrow> pc_payload_ecc ctx = own_transfer c2s)"

lemma own_frame:
  assumes "same_transfer sv sv'"
  shows "own_buf c2s n sv' = own_buf c2s n sv" "own_ecc c2s n sv' = own_ecc c2s n sv"
    "pump_of c2s (sv_session n sv') = pump_of c2s (sv_session n sv)" "pump_cap c2s n sv' = pump_cap c2s n sv"
    "length (sv_sessions sv') = length (sv_sessions sv)"
  using assms by (simp_all add: same_transfer_def own_transfer_def pump_of_def pump_cap_def)

lemma holds_same: "same_transfer sv sv' \<Longrightarrow> holds_data ly protected c2s n data sv \<Longrightarrow> holds_data ly protected c2s n data sv'"
  by (simp add: holds_data_def pump_shape_def own_frame)

lemma shape_same: "same_transfer sv sv' \<Longrightarrow> pump_shape ly c2s n sv \<Longrightarrow> pump_shape ly c2s n sv'"
  by (simp add: pump_shape_def own_frame)

lemma shape_keeps: "keeps_pump c2s n sv sv' \<Longrightarrow> pump_shape ly c2s n sv \<Longrightarrow> pump_shape ly c2s n sv'"
  by (simp add: pump_shape_def keeps_pump_def)

lemma cap_keeps: "keeps_pump c2s n sv sv' \<Longrightarrow> pump_cap c2s n sv' = pump_cap c2s n sv"
  by (simp add: pump_cap_def keeps_pump_def)

lemma transfer_of_shape:
  "pump_shape ly c2s n sv \<Longrightarrow> pump_transfer ly n (pump_of c2s (sv_session n sv)) = own_transfer c2s"
  unfolding pump_shape_def pump_transfer_def own_transfer_def by (cases c2s) auto

lemma pump_ctx_reason [simp]: "pump_ctx protected c2s n (ctx\<lparr>pc_close_reason := r\<rparr>) = pump_ctx protected c2s n ctx"
  by (simp add: pump_ctx_def)

lemma pump_fault_eq: "pump_fault r ctx sv = (False, ctx\<lparr>pc_close_reason := r\<rparr>, sv_violation sv)"
  by (simp add: pump_fault_def)

lemma put_own [simp]:
  "get_buf (own_transfer c2s) (put_buf (own_transfer c2s) b s) = b"
  "get_ecc (own_transfer c2s) (put_buf (own_transfer c2s) b s) = get_ecc (own_transfer c2s) s"
  "get_ecc (own_transfer c2s) (put_ecc (own_transfer c2s) e s) = e"
  "get_buf (own_transfer c2s) (put_ecc (own_transfer c2s) e s) = get_buf (own_transfer c2s) s"
  "pump_of c2s (put_buf (own_transfer c2s) b s) = pump_of c2s s"
  "pump_of c2s (put_ecc (own_transfer c2s) e s) = pump_of c2s s"
  by (simp_all add: own_transfer_def pump_of_def)

lemma session_put_in: "n < length (sv_sessions sv) \<Longrightarrow> sv_session n (sv_put_session n s sv) = s"
  by simp


section \<open>Repair before a send\<close>

lemma set_counters_holds:
  "holds_data ly protected c2s n data (sv_set_counters sc sv) = holds_data ly protected c2s n data sv"
  using holds_same [of sv "sv_set_counters sc sv"] holds_same [of "sv_set_counters sc sv" sv]
  by (auto simp: same_transfer_def)

lemma holds_put:
  assumes shape: "pump_shape ly c2s n sv" and cap: "pump_cap c2s n sv \<le> LLPS_PAYLOAD_BUFFER_SIZE"
    and b: "length b = LLPS_PAYLOAD_BUFFER_SIZE" "length e = LLPS_PAYLOAD_ECC_WORD_COUNT"
    and sealed: "sealed_payload data (pump_cap c2s n sv) b e"
  shows "holds_data ly protected c2s n data (sv_put_session n
     (put_ecc (own_transfer c2s) e (put_buf (own_transfer c2s) b (sv_session n sv))) sv)"
proof -
  have n: "n < length (sv_sessions sv)" using shape by (simp add: pump_shape_def)
  let ?s = "put_ecc (own_transfer c2s) e (put_buf (own_transfer c2s) b (sv_session n sv))"
  have "sv_session n (sv_put_session n ?s sv) = ?s" using n by simp
  moreover from this have "pump_cap c2s n (sv_put_session n ?s sv) = pump_cap c2s n sv" by (simp add: pump_cap_def)
  ultimately show ?thesis
    using assms n by (simp add: holds_data_def pump_shape_def sealed_payload_def)
qed

text \<open>
  After a step of memory the repair either restores the data, with the codes, or reports the damage.
  With at most one upset in every word it restores them.
\<close>

lemma repair_payload_eq:
  assumes "pump_shape ly c2s n sv" "pump_ctx True c2s n ctx"
  shows "llps_pump_repair_write_payload ly len ctx sv =
     (case llps_payload_ecc_repair (own_buf c2s n sv) len (pump_cap c2s n sv) (own_ecc c2s n sv)
        LLPS_PAYLOAD_ECC_WORD_COUNT (sv_counters sv) of
        (repaired, buf, ecc, sc) \<Rightarrow>
          let sv = sv_set_counters sc (sv_put_session n
            (put_ecc (own_transfer c2s) ecc (put_buf (own_transfer c2s) buf (sv_session n sv))) sv)
          in if \<not> repaired then pump_fault LLPS_CLOSE_REASON_PAYLOAD_ECC ctx sv else (True, ctx, sv))"
  using assms(2) transfer_of_shape [OF assms(1)]
  by (simp add: llps_pump_repair_write_payload_def pump_ctx_def pump_cap_def Let_def split: prod.split)

lemma repair_after_step:
  assumes holds: "holds_data ly protected c2s n data sv" and step: "memory_step protected c2s n sv sv1"
    and ctx: "pump_ctx protected c2s n ctx"
    and r: "llps_pump_repair_write_payload ly (length data) ctx sv1 = (ok, ctx', sv2)"
  shows "ok \<Longrightarrow> holds_data ly protected c2s n data sv2 \<and> ctx' = ctx"
    and "protected \<Longrightarrow> (\<And>j. j < llps_payload_ecc_word_count_for_len (length data) \<Longrightarrow>
      one_upset (fst (payload_word c2s n j sv)) (payload_word c2s n j sv1)) \<Longrightarrow> ok"
    and "\<not> protected \<Longrightarrow> ok"
proof -
  let ?cap = "pump_cap c2s n sv"
  have facts: "pump_shape ly c2s n sv" "?cap \<le> 4096" "length data \<le> ?cap" "take (length data) (own_buf c2s n sv) = data"
    "protected \<Longrightarrow> sealed_payload data ?cap (own_buf c2s n sv) (own_ecc c2s n sv)"
    using holds by (simp_all add: holds_data_def)
  have keeps: "keeps_pump c2s n sv sv1" using step by (simp add: memory_step_def upsets_def split: if_splits)
  note shape1 = shape_keeps [OF keeps facts(1)] and cap1 = cap_keeps [OF keeps]
  have plain: "ok \<and> holds_data ly protected c2s n data sv2 \<and> ctx' = ctx" if np: "\<not> protected"
  proof -
    have "ok" "sv2 = sv1" "ctx' = ctx" using r ctx np by (auto simp: llps_pump_repair_write_payload_def pump_ctx_def)
    then show ?thesis using facts shape1 cap1 step np by (simp add: holds_data_def memory_step_def)
  qed
  obtain repaired buf2 ecc2 sc2 where rep: "llps_payload_ecc_repair (own_buf c2s n sv1) (length data) ?cap (own_ecc c2s n sv1)
      LLPS_PAYLOAD_ECC_WORD_COUNT (sv_counters sv1) = (repaired, buf2, ecc2, sc2)" by (metis prod_cases4)
  have eq: "ok = repaired" "ok \<Longrightarrow> ctx' = ctx \<and> sv2 = sv_set_counters sc2 (sv_put_session n
      (put_ecc (own_transfer c2s) ecc2 (put_buf (own_transfer c2s) buf2 (sv_session n sv1))) sv1)" if protected
    using r ctx that repair_payload_eq [OF shape1, of ctx "length data"] rep cap1
    by (auto simp: pump_fault_eq Let_def split: if_splits)
  have verdict: "ok \<Longrightarrow> sealed_payload data ?cap buf2 ecc2 \<and> length buf2 = 4096 \<and> length ecc2 = 512"
    "(\<And>j. j < llps_payload_ecc_word_count_for_len (length data) \<Longrightarrow>
      one_upset (fst (payload_word c2s n j sv)) (payload_word c2s n j sv1)) \<Longrightarrow> ok" if p: protected
  proof -
    have lens: "?cap \<le> length (own_buf c2s n sv1)" "length (own_buf c2s n sv1) = length (own_buf c2s n sv)"
      "length (own_ecc c2s n sv1) = 512" "length (own_buf c2s n sv) = 4096"
      using shape1 facts(1,2) by (simp_all add: pump_shape_def)
    have upset: "one_upset (fst (payload_word c2s n j sv)) (payload_word c2s n j sv1) \<or>
        two_upsets (fst (payload_word c2s n j sv)) (payload_word c2s n j sv1)"
      if "j < llps_payload_ecc_word_count_for_len (length data)" for j
      using step p that facts(5) [OF p] order.strict_trans2 [OF that word_count_mono [OF facts(3)]]
      by (auto simp: memory_step_def upsets_def sealed_payload_def payload_word_def)
    note v = repair_verdict [OF facts(5) [OF p] facts(2) lens(1-3) upset [unfolded payload_word_def cap1] rep]
    show "ok \<Longrightarrow> sealed_payload data ?cap buf2 ecc2 \<and> length buf2 = 4096 \<and> length ecc2 = 512"
      using v(1) eq(1) [OF p] lens by simp
    show "(\<And>j. j < llps_payload_ecc_word_count_for_len (length data) \<Longrightarrow>
      one_upset (fst (payload_word c2s n j sv)) (payload_word c2s n j sv1)) \<Longrightarrow> ok"
      using v(2) eq(1) [OF p] by (simp add: payload_word_def cap1)
  qed
  show "ok \<Longrightarrow> holds_data ly protected c2s n data sv2 \<and> ctx' = ctx"
  proof (cases protected)
    case True
    assume ok
    note v = verdict(1) [OF True this]
    have "holds_data ly protected c2s n data (sv_put_session n
        (put_ecc (own_transfer c2s) ecc2 (put_buf (own_transfer c2s) buf2 (sv_session n sv1))) sv1)"
      by (rule holds_put [OF shape1]) (use v cap1 facts(2) in auto)
    then show ?thesis using eq(2) [OF True \<open>ok\<close>] by (simp add: set_counters_holds)
  qed (use plain in blast)
  show "protected \<Longrightarrow> (\<And>j. j < llps_payload_ecc_word_count_for_len (length data) \<Longrightarrow>
      one_upset (fst (payload_word c2s n j sv)) (payload_word c2s n j sv1)) \<Longrightarrow> ok"
    using verdict(2) by blast
  show "\<not> protected \<Longrightarrow> ok" using plain by blast
qed

section \<open>Writing\<close>

text \<open>How far a write is: \<open>sent0\<close> was sent before it.\<close>

definition write_at :: "u8 list \<Rightarrow> u8 list \<Rightarrow> write_progress \<Rightarrow> bool" where
  "write_at sent0 data wp \<longleftrightarrow> wp_off wp + wp_remain wp = length data \<and> wp_sent wp = sent0 @ take (wp_off wp) data"

lemma wait_writable_post:
  assumes "llps_pump_wait_writable rc ctx wp sv = (ok, ctx', wp', sv')" "pump_ctx protected c2s n ctx"
  shows "pump_ctx protected c2s n ctx'" "same_transfer sv sv'"
    "wp' = wp \<or> wp' = wp\<lparr>wp_retry_count := wp_retry_count wp + 1\<rparr>"
    "ok \<Longrightarrow> wp_retry_count wp < LLPS_IO_RETRY_BUDGET \<and> wp' = wp\<lparr>wp_retry_count := wp_retry_count wp + 1\<rparr>"
    "wp_retry_count wp < LLPS_IO_RETRY_BUDGET \<Longrightarrow> 0 \<le> sint rc \<Longrightarrow> llps_fd_is_valid (pa_dst_fd (pc_pump ctx sv)) \<Longrightarrow>
      ok \<and> sv' = sv \<and> ctx' = ctx"
  using assms
  by (auto simp: llps_pump_wait_writable_def pump_fault_eq Let_def not_le split: if_splits prod.splits
      dest: same_transfer_poll) (auto simp: llps_llam_poll_fd_checked_def unless_stopping_def split: if_splits)

lemma write_step_post:
  assumes holds: "holds_data ly protected c2s n data sv" and step: "memory_step protected c2s n sv sv1"
    and ctx: "pump_ctx protected c2s n ctx" and wp: "write_at sent0 data wp"
    and r: "llps_pump_write_step ly answer (length data) ctx wp sv1 = (ok, ctx', wp', sv')"
  shows "write_at sent0 data wp'" "ok \<Longrightarrow> holds_data ly protected c2s n data sv'" "pump_ctx protected c2s n ctx'"
proof -
  let ?c = "llps_session_hot_path_is_active (sv_session (pc_sess ctx) sv1)"
  have sess: "pc_sess ctx = n" "pc_c2s ctx = c2s" using ctx by (simp_all add: pump_ctx_def)
  obtain ok2 ctx2 sv2 where rep: "llps_pump_repair_write_payload ly (length data) ctx sv1 = (ok2, ctx2, sv2)"
    by (metis prod_cases3)
  note restored = repair_after_step(1) [OF holds step ctx rep]
  have ctx2: "pump_ctx protected c2s n ctx2"
    using rep ctx by (auto simp: llps_pump_repair_write_payload_def pump_fault_eq Let_def split: if_splits prod.splits)
  have bytes: "take w (drop (wp_off wp) (get_buf (pump_transfer ly (pc_sess ctx) (pc_pump ctx sv2)) (sv_session (pc_sess ctx) sv2))) =
      take w (drop (wp_off wp) data)" if "ok2" "w \<le> wp_remain wp" for w
  proof -
    have h: "holds_data ly protected c2s n data sv2" using restored that by blast
    then have t: "take (length data) (own_buf c2s n sv2) = data" and s: "pump_shape ly c2s n sv2" by (simp_all add: holds_data_def)
    have "take w (drop (wp_off wp) (own_buf c2s n sv2)) = take w (drop (wp_off wp) (take (length data) (own_buf c2s n sv2)))"
    proof -
      have "w \<le> length data - wp_off wp" using wp that(2) unfolding write_at_def by linarith
      then show ?thesis by (simp add: drop_take min_absorb1)
    qed
    then show ?thesis using t transfer_of_shape [OF s] sess by simp
  qed
  have waits: "write_at sent0 data wp'" "ok \<Longrightarrow> holds_data ly protected c2s n data sv'" "pump_ctx protected c2s n ctx'"
    if "ok2" "llps_pump_wait_writable rc ctx2 wp sv2 = (ok, ctx', wp', sv')" for rc
    using wait_writable_post [OF that(2) ctx2] wp restored that(1) holds_same by (auto simp: write_at_def)
  have sends: "write_at sent0 data (wp\<lparr>wp_remain := wp_remain wp - w, wp_off := wp_off wp + w,
      wp_sent := wp_sent wp @ take w (drop (wp_off wp) data)\<rparr>)" if "w \<le> wp_remain wp" for w
    using wp that by (simp add: write_at_def take_add)
  note cases = r [unfolded llps_pump_write_step_def rep pump_fault_eq]
  have "write_at sent0 data wp' \<and> (ok \<longrightarrow> holds_data ly protected c2s n data sv') \<and> pump_ctx protected c2s n ctx'"
  proof (cases "?c \<and> ok2")
    case False
    then show ?thesis using cases wp ctx ctx2 by (auto split: if_splits)
  next
    case True
    then have c2: "ctx2 = ctx" "holds_data ly protected c2s n data sv2" using restored by auto
    show ?thesis
    proof (cases answer)
      case (Sent w)
      then show ?thesis using cases True wp ctx c2 sends [of w] bytes [of w] by (auto simp: not_less split: if_splits)
    next
      case (Send_blocked rc)
      then show ?thesis using cases True waits [of rc] by auto
    next
      case Send_failed
      then show ?thesis using cases True wp ctx c2 by auto
    qed
  qed
  then show "write_at sent0 data wp'" "ok \<Longrightarrow> holds_data ly protected c2s n data sv'" "pump_ctx protected c2s n ctx'"
    by simp_all
qed

lemma write_loop_post:
  assumes "holds_data ly protected c2s n data sv" "pump_ctx protected c2s n ctx" "write_at sent0 data wp"
    and "\<And>i sv. memory_step protected c2s n sv (wa_before (answers i) sv)"
    and "pump_write_loop ly answers (length data) i steps ctx wp sv = (ok, ctx', wp', sv')"
  shows "write_at sent0 data wp' \<and> pump_ctx protected c2s n ctx' \<and> (ok \<longrightarrow> holds_data ly protected c2s n data sv')"
  using assms
proof (induction steps arbitrary: i ctx wp sv)
  case 0
  then show ?case by auto
next
  case (Suc steps)
  show ?case
  proof (cases "wp_remain wp = 0")
    case True
    then show ?thesis using Suc.prems by auto
  next
    case False
    obtain ok1 ctx1 wp1 sv1 where s: "llps_pump_write_step ly (wa_send (answers i)) (length data) ctx wp
        (wa_before (answers i) sv) = (ok1, ctx1, wp1, sv1)" by (metis prod_cases4)
    note post = write_step_post [OF Suc.prems(1,4,2,3) s]
    show ?thesis
    proof (cases ok1)
      case True
      have "pump_write_loop ly answers (length data) (Suc i) steps ctx1 wp1 sv1 = (ok, ctx', wp', sv')"
        using Suc.prems(5) False True s by simp
      from Suc.IH [OF post(2) [OF True] post(3,1) Suc.prems(4) this] show ?thesis .
    next
      case f: False
      then show ?thesis using Suc.prems(5) False s post by auto
    qed
  qed
qed

text \<open>Every step that goes on sends a byte or uses up a retry.\<close>

definition write_measure :: "write_progress \<Rightarrow> nat" where
  "write_measure wp = wp_remain wp + (1024 - unat (wp_retry_count wp))"

lemma write_step_measure:
  assumes "llps_pump_write_step ly answer len ctx wp sv = (True, ctx', wp', sv')"
  shows "write_measure wp' < write_measure wp"
proof -
  have "1024 - unat (wp_retry_count wp + 1) < 1024 - unat (wp_retry_count wp)" if "wp_retry_count wp < 1024"
    using that by (simp add: word_less_nat_alt unat_word_ariths)
  then have "write_measure w' < write_measure wp"
    if "llps_pump_wait_writable rc ctx1 wp sv1 = (True, c', w', s')" for rc ctx1 sv1 w' c' s'
    using that by (auto simp: llps_pump_wait_writable_def pump_fault_eq Let_def write_measure_def not_le split: if_splits prod.splits)
  with assms show ?thesis
    by (auto simp: llps_pump_write_step_def pump_fault_eq write_measure_def split: if_splits prod.splits bool.splits send_answer.splits)
qed

lemma write_loop_measure:
  "pump_write_loop ly answers len i steps ctx wp sv = (True, ctx', wp', sv') \<Longrightarrow> write_measure wp \<le> steps \<Longrightarrow>
     wp_remain wp' = 0"
proof (induction steps arbitrary: i ctx wp sv)
  case 0
  then show ?case by (simp add: write_measure_def)
next
  case (Suc steps)
  show ?case
  proof (cases "wp_remain wp = 0")
    case True
    then show ?thesis using Suc.prems by simp
  next
    case False
    then obtain ctx1 wp1 sv1 where s: "llps_pump_write_step ly (wa_send (answers i)) len ctx wp
        (wa_before (answers i) sv) = (True, ctx1, wp1, sv1)"
      and "pump_write_loop ly answers len (Suc i) steps ctx1 wp1 sv1 = (True, ctx', wp', sv')"
      using Suc.prems(1) by (auto split: prod.splits bool.splits)
    then show ?thesis using Suc.IH write_step_measure [OF s] Suc.prems(2) by simp
  qed
qed

lemma write_all_eq:
  assumes "len \<le> LLPS_PAYLOAD_BUFFER_SIZE"
    and "pump_write_loop ly answers len 0 LLPS_SOCKET_IO_STEP_MAX ctx
      \<lparr>wp_off = 0, wp_remain = len, wp_retry_count = 0, wp_sent = sent\<rparr> sv = (ok, ctx', wp', sv')"
  shows "llps_pump_write_all ly answers len ctx sent sv = (ok, ctx', wp_sent wp', sv') \<and> (ok \<longrightarrow> wp_remain wp' = 0)"
proof -
  have "wp_remain wp' = 0" if ok
    by (rule write_loop_measure) (use assms that in \<open>auto simp: write_measure_def\<close>)
  then show ?thesis using assms(2) by (cases ok) (auto simp: llps_pump_write_all_def)
qed

section \<open>One turn of a pump\<close>

lemma write_all_post:
  assumes holds: "holds_data ly protected c2s n data sv" and ctx: "pump_ctx protected c2s n ctx"
    and step: "\<And>i sv. memory_step protected c2s n sv (wa_before (answers i) sv)"
    and r: "llps_pump_write_all ly answers (length data) ctx sent sv = (ok, ctx', sent', sv')"
  shows "\<exists>k. sent' = sent @ take k data" "pump_ctx protected c2s n ctx'"
    "ok \<Longrightarrow> sent' = sent @ data \<and> holds_data ly protected c2s n data sv'"
proof -
  let ?wp = "\<lparr>wp_off = 0, wp_remain = length data, wp_retry_count = 0, wp_sent = sent\<rparr>"
  obtain ok1 ctx1 wp1 sv1 where l: "pump_write_loop ly answers (length data) 0 LLPS_SOCKET_IO_STEP_MAX ctx ?wp sv =
      (ok1, ctx1, wp1, sv1)" by (metis prod_cases4)
  have at: "write_at sent data ?wp" by (simp add: write_at_def)
  have "length data \<le> 4096" using holds by (simp add: holds_data_def)
  from write_all_eq [OF this l] r have e: "ok1 = ok" "ctx1 = ctx'" "wp_sent wp1 = sent'" "sv1 = sv'" "ok \<Longrightarrow> wp_remain wp1 = 0"
    by auto
  note post = write_loop_post [OF holds ctx at step l]
  show "\<exists>k. sent' = sent @ take k data" "pump_ctx protected c2s n ctx'"
    using post e by (auto simp: write_at_def)
  show "ok \<Longrightarrow> sent' = sent @ data \<and> holds_data ly protected c2s n data sv'"
    using post e by (auto simp: write_at_def)
qed

lemma same_transfer_holds_shape: "holds_data ly protected c2s n data sv \<Longrightarrow> pump_shape ly c2s n sv"
  by (simp add: holds_data_def)

text \<open>After a read the bytes are in the buffer.\<close>

lemma pump_store_post:
  assumes "pump_shape ly c2s n sv" "pump_ctx protected c2s n ctx" "length bs \<le> LLPS_PAYLOAD_BUFFER_SIZE"
  shows "pump_shape ly c2s n (pump_store ly ctx bs sv)" "take (length bs) (own_buf c2s n (pump_store ly ctx bs sv)) = bs"
    "pump_cap c2s n (pump_store ly ctx bs sv) = pump_cap c2s n sv"
proof -
  have s: "pump_store ly ctx bs sv = sv_put_session n
      (put_buf (own_transfer c2s) (bs @ drop (length bs) (own_buf c2s n sv)) (sv_session n sv)) sv"
    using assms(2) transfer_of_shape [OF assms(1)] by (simp add: pump_store_def pump_ctx_def Let_def)
  have n: "n < length (sv_sessions sv)" using assms(1) by (simp add: pump_shape_def)
  show "pump_shape ly c2s n (pump_store ly ctx bs sv)" "take (length bs) (own_buf c2s n (pump_store ly ctx bs sv)) = bs"
    "pump_cap c2s n (pump_store ly ctx bs sv) = pump_cap c2s n sv"
    using assms n unfolding s by (simp_all add: pump_shape_def pump_cap_def)
qed

fun read_bytes :: "read_answer \<Rightarrow> u8 list" where
  "read_bytes (Read_bytes bs) = bs" | "read_bytes (Read_blocked rc) = []" | "read_bytes Read_failed = []"

lemma read_post:
  assumes shape: "pump_shape ly c2s n sv" and ctx: "pump_ctx protected c2s n ctx"
    and cap: "pump_cap c2s n sv \<le> LLPS_PAYLOAD_BUFFER_SIZE"
    and r: "llps_pump_read_bytes ly answer ctx sv = (res, ctx', sv')"
  shows "pump_ctx protected c2s n ctx'"
    "res = Retry \<Longrightarrow> read_bytes answer = [] \<and> pump_shape ly c2s n sv' \<and> pump_cap c2s n sv' = pump_cap c2s n sv"
    "res = Got m \<Longrightarrow> m = length (read_bytes answer) \<and> holds_data ly False c2s n (read_bytes answer) sv' \<and>
      pump_cap c2s n sv' = pump_cap c2s n sv"
    "res = Stop_eof \<Longrightarrow> read_bytes answer = []"
proof -
  have sess: "pc_sess ctx = n" "pc_c2s ctx = c2s" using ctx by (simp_all add: pump_ctx_def)
  show "pump_ctx protected c2s n ctx'" "res = Stop_eof \<Longrightarrow> read_bytes answer = []"
    "res = Retry \<Longrightarrow> read_bytes answer = [] \<and> pump_shape ly c2s n sv' \<and> pump_cap c2s n sv' = pump_cap c2s n sv"
    using r ctx shape
    by (auto simp: llps_pump_read_bytes_def pump_fault_eq Let_def own_frame shape_same
        split: read_answer.splits if_splits prod.splits dest!: same_transfer_poll)
  assume res: "res = Got m"
  then obtain bs where a: "answer = Read_bytes bs" using r
    by (auto simp: llps_pump_read_bytes_def pump_fault_eq Let_def split: read_answer.splits if_splits prod.splits)
  then have l: "length bs \<le> unat (pa_buf_len (pc_pump ctx (pump_store ly ctx bs sv)))"
    and e: "m = length bs" "sv' = pump_store ly ctx bs sv"
    using r res by (auto simp: llps_pump_read_bytes_def pump_fault_eq Let_def split: if_splits)
  have "pa_buf_len (pc_pump ctx (pump_store ly ctx bs sv)) = pa_buf_len (pump_of c2s (sv_session n sv))"
    using sess transfer_of_shape [OF shape] by (simp add: pump_store_def Let_def session_put_cases)
  with l cap have "length bs \<le> pump_cap c2s n sv" "length bs \<le> 4096" by (simp_all add: pump_cap_def)
  then show "m = length (read_bytes answer) \<and> holds_data ly False c2s n (read_bytes answer) sv' \<and>
      pump_cap c2s n sv' = pump_cap c2s n sv"
    using pump_store_post [OF shape ctx, of bs] a e cap by (simp add: holds_data_def)
qed

lemma seal_post:
  assumes holds: "holds_data ly False c2s n data sv" and ctx: "pump_ctx protected c2s n ctx"
    and r: "llps_pump_seal_read_payload ly (length data) ctx sv = (ok, ctx', sv')"
  shows "pump_ctx protected c2s n ctx'" "ok \<Longrightarrow> holds_data ly protected c2s n data sv'"
    "ok \<Longrightarrow> pump_cap c2s n sv' = pump_cap c2s n sv"
proof -
  have sess: "pc_sess ctx = n" "pc_c2s ctx = c2s" "pc_payload_ecc_enabled ctx = protected"
    "protected \<Longrightarrow> pc_payload_ecc ctx = own_transfer c2s" using ctx by (simp_all add: pump_ctx_def)
  have facts: "pump_shape ly c2s n sv" "pump_cap c2s n sv \<le> 4096" "length data \<le> pump_cap c2s n sv"
    "take (length data) (own_buf c2s n sv) = data" using holds by (simp_all add: holds_data_def)
  have lens: "length (own_buf c2s n sv) = 4096" "length (own_ecc c2s n sv) = 512" "n < length (sv_sessions sv)"
    using facts(1) by (simp_all add: pump_shape_def)
  obtain buf1 ecc1 where s: "llps_payload_ecc_seal (own_buf c2s n sv) (length data) (pump_cap c2s n sv) (own_ecc c2s n sv) 512 =
      (True, buf1, ecc1)" "length buf1 = 4096" "length ecc1 = 512" "sealed_payload data (pump_cap c2s n sv) buf1 ecc1"
    using seal_payload [OF facts(3,2) _ facts(4), of "own_ecc c2s n sv"] facts(2) lens by auto
  let ?sv = "sv_put_session n (put_ecc (own_transfer c2s) ecc1 (put_buf (own_transfer c2s) buf1 (sv_session n sv))) sv"
  have h: "holds_data ly protected c2s n data ?sv" by (rule holds_put [OF facts(1,2) s(2-4)])
  have c: "pump_cap c2s n ?sv = pump_cap c2s n sv" using lens(3) by (simp add: pump_cap_def)
  obtain ok2 sv2 where l: "llps_payload_ecc_set_len_for_pump ly n (pump_of c2s (sv_session n sv)) (length data) ?sv = (ok2, sv2)"
    by fastforce
  then have t: "same_transfer ?sv sv2" by (metis same_transfer_set_len snd_conv)
  have "(protected \<longrightarrow> ok = ok2 \<and> (ok \<longrightarrow> sv' = sv2 \<and> ctx' = ctx) \<and> (\<not> ok \<longrightarrow> pump_ctx protected c2s n ctx')) \<and>
      (\<not> protected \<longrightarrow> ok \<and> sv' = sv \<and> ctx' = ctx)"
    using r ctx sess s(1) l transfer_of_shape [OF facts(1)]
    by (auto simp: llps_pump_seal_read_payload_def pump_fault_eq Let_def pump_cap_def split: bool.splits)
  then show "pump_ctx protected c2s n ctx'" "ok \<Longrightarrow> holds_data ly protected c2s n data sv'"
    "ok \<Longrightarrow> pump_cap c2s n sv' = pump_cap c2s n sv"
    using ctx holds_same [OF t h] own_frame(4) [OF t] c holds by (auto simp: holds_data_def)
qed

section \<open>The task\<close>

text \<open>What a pump keeps between its turns.\<close>

definition pump_runs :: "buffer_layout \<Rightarrow> bool \<Rightarrow> bool \<Rightarrow> nat \<Rightarrow> pump_state \<Rightarrow> bool" where
  "pump_runs ly protected c2s n ps \<longleftrightarrow> pump_shape ly c2s n (ps_server ps) \<and>
     pump_cap c2s n (ps_server ps) \<le> LLPS_PAYLOAD_BUFFER_SIZE \<and> pump_ctx protected c2s n (ps_ctx ps)"

text \<open>What other tasks and upsets may do during a turn.\<close>

definition answer_sound :: "bool \<Rightarrow> bool \<Rightarrow> nat \<Rightarrow> cycle_answer \<Rightarrow> bool" where
  "answer_sound protected c2s n ca \<longleftrightarrow> (\<forall>sv. keeps_pump c2s n sv (ca_before ca sv)) \<and>
     (\<forall>i sv. memory_step protected c2s n sv (wa_before (ca_writes ca i) sv))"

lemma after_success_post:
  assumes "llps_pump_after_success m ctx counts sv = (ok, ctx', counts', sv')" "pump_ctx protected c2s n ctx"
  shows "same_transfer sv sv'" "pump_ctx protected c2s n ctx'"
proof -
  obtain r sv1 where a: "llps_session_is_active (pc_sess ctx) sv = (r, sv1)" by fastforce
  show "same_transfer sv sv'" "pump_ctx protected c2s n ctx'"
    using assms same_transfer_is_active [OF a] same_transfer_trans [OF same_transfer_is_active [OF a] same_transfer_rs(3)]
    by (auto simp: llps_pump_after_success_def Let_def a pump_fault_eq split: if_splits)
qed

lemma cycle_post:
  assumes runs: "pump_runs ly protected c2s n ps" and sound: "answer_sound protected c2s n ca"
    and r: "pump_cycle ly ca ps = (res, ps')"
  shows "res = None \<Longrightarrow> ps_sent ps' = ps_sent ps @ read_bytes (ca_read ca) \<and> pump_runs ly protected c2s n ps'"
    "res = Some h \<Longrightarrow> (\<exists>k. ps_sent ps' = ps_sent ps @ take k (read_bytes (ca_read ca)))"
    "res = Some False \<Longrightarrow> ps_sent ps' = ps_sent ps"
proof -
  let ?data = "read_bytes (ca_read ca)"
  let ?sv0 = "ca_before ca (ps_server ps)"
  have k: "keeps_pump c2s n (ps_server ps) ?sv0" and step: "\<And>i sv. memory_step protected c2s n sv (wa_before (ca_writes ca i) sv)"
    using sound by (auto simp: answer_sound_def)
  have s0: "pump_shape ly c2s n ?sv0" "pump_cap c2s n ?sv0 \<le> 4096" "pump_ctx protected c2s n (ps_ctx ps)"
    using runs shape_keeps [OF k] cap_keeps [OF k] by (auto simp: pump_runs_def)
  obtain go ctx1 sv1 where c: "llps_pump_cycle_can_continue (ps_ctx ps) ?sv0 = (go, ctx1, sv1)" by (metis prod_cases3)
  have s1: "pump_shape ly c2s n sv1" "pump_cap c2s n sv1 \<le> 4096" "pump_ctx protected c2s n ctx1"
    using same_transfer_can_continue [OF c] s0 shape_same own_frame(4) by (auto simp: pump_ctx_def)
  obtain res2 ctx2 sv2 where rd: "llps_pump_read_bytes ly (ca_read ca) ctx1 sv1 = (res2, ctx2, sv2)" by (metis prod_cases3)
  note read = read_post [OF s1(1,3,2) rd]
  have turn: "(res = None \<longrightarrow> ps_sent ps' = ps_sent ps @ ?data \<and> pump_runs ly protected c2s n ps') \<and>
      (\<forall>h. res = Some h \<longrightarrow> (\<exists>k. ps_sent ps' = ps_sent ps @ take k ?data)) \<and> (res = Some False \<longrightarrow> ps_sent ps' = ps_sent ps)"
    if "go" "res2 = Got m" for m
  proof -
    have d: "m = length ?data" "holds_data ly False c2s n ?data sv2" "pump_cap c2s n sv2 \<le> 4096"
      using read(3) [OF that(2)] s1(2) by auto
    let ?sv2 = "llps_session_touch (pc_sess ctx2) (ca_now ca) sv2"
    have h2: "holds_data ly False c2s n ?data ?sv2" by (rule holds_same [OF same_transfer_touch d(2)])
    obtain ok3 ctx3 sv3 where sl: "llps_pump_seal_read_payload ly (length ?data) ctx2 ?sv2 = (ok3, ctx3, sv3)" by (metis prod_cases3)
    note seal = seal_post [OF h2 read(1) sl]
    obtain ok4 ctx4 sent4 sv4 where w: "llps_pump_write_all ly (ca_writes ca) (length ?data) ctx3 (ps_sent ps) sv3 =
        (ok4, ctx4, sent4, sv4)" by (metis prod_cases4)
    obtain ok5 ctx5 counts5 sv5 where a: "llps_pump_after_success (length ?data) ctx4 (ps_counts ps) sv4 =
        (ok5, ctx5, counts5, sv5)" by (metis prod_cases4)
    have rd2: "llps_pump_read_bytes ly (ca_read ca) ctx1 sv1 = (Got (length ?data), ctx2, sv2)"
      using rd that(2) d(1) by simp
    have c1: "pump_cycle ly ca ps = (case llps_pump_seal_read_payload ly (length ?data) ctx2 ?sv2 of
         (False, ctx, sv) \<Rightarrow> (Some True, ps\<lparr>ps_ctx := ctx, ps_server := sv\<rparr>)
       | (True, ctx, sv) \<Rightarrow>
           (case llps_pump_write_all ly (ca_writes ca) (length ?data) ctx (ps_sent ps) sv of
              (False, ctx, sent, sv) \<Rightarrow> (Some True, ps\<lparr>ps_ctx := ctx, ps_server := sv, ps_sent := sent\<rparr>)
            | (True, ctx, sent, sv) \<Rightarrow>
                (case llps_pump_after_success (length ?data) ctx (ps_counts ps) sv of
                   (ok, ctx, counts, sv) \<Rightarrow>
                     (if ok then None else Some True,
                      ps\<lparr>ps_ctx := ctx, ps_server := sv, ps_sent := sent, ps_counts := counts\<rparr>))))"
      using \<open>go\<close> by (simp add: pump_cycle_def c rd2 Let_def)
    show ?thesis
    proof (cases ok3)
      case False
      then show ?thesis using c1 r by (auto simp: sl intro: exI [of _ 0])
    next
      case True
      note wrote = write_all_post [OF seal(2) [OF True] seal(1) step w]
      note aft = after_success_post [OF a wrote(2)]
      show ?thesis
      proof (cases ok4)
        case False
        then show ?thesis using c1 r True wrote(1) by (auto simp: sl w)
      next
        case ok4: True
        have e: "res = (if ok5 then None else Some True)" "ps_sent ps' = ps_sent ps @ ?data"
          "ps_ctx ps' = ctx5" "ps_server ps' = sv5"
          using c1 r True ok4 wrote(3) [OF ok4] by (auto simp: sl w a)
        have "holds_data ly protected c2s n ?data sv5" using holds_same [OF aft(1)] wrote(3) [OF ok4] by blast
        then have "pump_runs ly protected c2s n ps'"
          unfolding pump_runs_def e(3,4) using aft(2) by (simp add: holds_data_def)
        then show ?thesis using e by (auto intro: exI [of _ "length ?data"])
      qed
    qed
  qed
  have "(res = None \<longrightarrow> ps_sent ps' = ps_sent ps @ ?data \<and> pump_runs ly protected c2s n ps') \<and>
      (\<forall>h. res = Some h \<longrightarrow> (\<exists>k. ps_sent ps' = ps_sent ps @ take k ?data)) \<and> (res = Some False \<longrightarrow> ps_sent ps' = ps_sent ps)"
  proof (cases "go \<and> (\<exists>m. res2 = Got m)")
    case True
    then show ?thesis using turn by blast
  next
    case False
    then show ?thesis
      using r read s1 by (cases go; cases res2) (auto simp: pump_cycle_def c rd pump_runs_def intro: exI [of _ 0])
  qed
  then show "res = None \<Longrightarrow> ps_sent ps' = ps_sent ps @ ?data \<and> pump_runs ly protected c2s n ps'"
    "res = Some h \<Longrightarrow> (\<exists>k. ps_sent ps' = ps_sent ps @ take k ?data)"
    "res = Some False \<Longrightarrow> ps_sent ps' = ps_sent ps" by blast+
qed

definition received :: "cycle_answer list \<Rightarrow> u8 list" where
  "received answers = concat (map (read_bytes \<circ> ca_read) answers)"

lemma pump_loop_post:
  assumes "pump_runs ly protected c2s n ps" "\<And>ca. ca \<in> set answers \<Longrightarrow> answer_sound protected c2s n ca"
    and "pump_loop ly cycle answers ps = (status, ps')"
  shows "\<exists>more rest. ps_sent ps' = ps_sent ps @ more \<and> received answers = more @ rest \<and>
    (status = Running \<longrightarrow> rest = []) \<and>
    (status = Stopped False \<longrightarrow> (\<exists>k < length answers. more = received (take k answers)))"
  using assms
proof (induction answers arbitrary: cycle ps)
  case Nil
  then show ?case by (simp add: received_def)
next
  case (Cons ca answers)
  have rec: "received (ca # answers) = read_bytes (ca_read ca) @ received answers" by (simp add: received_def)
  show ?case
  proof (cases "cycle < UINT64_MAX")
    case False
    then show ?thesis using Cons.prems(3) by (auto simp: received_def)
  next
    case True
    obtain res ps1 where c: "pump_cycle ly ca ps = (res, ps1)" by fastforce
    have "answer_sound protected c2s n ca" using Cons.prems(2) by simp
    note post = cycle_post [OF Cons.prems(1) this c]
    show ?thesis
    proof (cases res)
      case (Some h)
      then have e: "status = Stopped h" "ps' = ps1" using Cons.prems(3) True c by auto
      obtain k where k: "ps_sent ps1 = ps_sent ps @ take k (read_bytes (ca_read ca))" using post(2) [OF Some] by blast
      have "received (ca # answers) = take k (read_bytes (ca_read ca)) @ drop k (read_bytes (ca_read ca)) @ received answers"
        using rec by simp
      moreover have "take k (read_bytes (ca_read ca)) = received (take 0 (ca # answers))" if "\<not> h"
        using post(3) Some that k by (simp add: received_def)
      ultimately show ?thesis using e k
        by (intro exI [of _ "take k (read_bytes (ca_read ca))"] exI [of _ "drop k (read_bytes (ca_read ca)) @ received answers"])
          (auto intro!: exI [of _ 0])
    next
      case None
      then have l1: "pump_loop ly (cycle + 1) answers ps1 = (status, ps')" using Cons.prems(3) True c by simp
      have p1: "ps_sent ps1 = ps_sent ps @ read_bytes (ca_read ca)" "pump_runs ly protected c2s n ps1" using post(1) [OF None] by auto
      obtain more rest where ih: "ps_sent ps' = ps_sent ps1 @ more" "received answers = more @ rest"
        "status = Running \<longrightarrow> rest = []"
        "status = Stopped False \<longrightarrow> (\<exists>k < length answers. more = received (take k answers))"
        using Cons.IH [OF p1(2) _ l1] Cons.prems(2) by (metis list.set_intros(2))
      have "\<exists>k < length (ca # answers). read_bytes (ca_read ca) @ more = received (take k (ca # answers))"
        if "status = Stopped False"
      proof -
        obtain k where "k < length answers" "more = received (take k answers)" using ih(4) \<open>status = Stopped False\<close> by blast
        then show ?thesis by (intro exI [of _ "Suc k"]) (simp add: received_def)
      qed
      then show ?thesis using ih p1(1) rec
        by (intro exI [of _ "read_bytes (ca_read ca) @ more"] exI [of _ rest]) simp
    qed
  qed
qed

section \<open>Writes that succeed\<close>

text \<open>At most one flipped bit in every sealed word, and the session is still active on the hot path.\<close>

definition quiet_step :: "bool \<Rightarrow> bool \<Rightarrow> nat \<Rightarrow> server_state \<Rightarrow> server_state \<Rightarrow> bool" where
  "quiet_step protected c2s n sv sv' \<longleftrightarrow> keeps_pump c2s n sv sv' \<and>
     (llps_session_hot_path_is_active (sv_session n sv) \<longrightarrow> llps_session_hot_path_is_active (sv_session n sv')) \<and>
     (if protected then \<forall>j < llps_payload_ecc_word_count_for_len (pump_cap c2s n sv). word_sealed (payload_word c2s n j sv) \<longrightarrow>
        one_upset (fst (payload_word c2s n j sv)) (payload_word c2s n j sv')
      else own_buf c2s n sv' = own_buf c2s n sv)"

text \<open>Answers that take the bytes that remain, with at most so many waits in between.\<close>

fun good_sends :: "nat \<Rightarrow> nat \<Rightarrow> send_answer list \<Rightarrow> bool" where
  "good_sends remain retries [] \<longleftrightarrow> remain = 0"
| "good_sends remain retries (Sent w # answers) \<longleftrightarrow> 0 < w \<and> w \<le> remain \<and> good_sends (remain - w) retries answers"
| "good_sends remain retries (Send_blocked rc # answers) \<longleftrightarrow>
     0 \<le> sint rc \<and> 0 < retries \<and> good_sends remain (retries - 1) answers"
| "good_sends remain retries (Send_failed # answers) \<longleftrightarrow> False"

lemma quiet_memory_step: "quiet_step protected c2s n sv sv' \<Longrightarrow> memory_step protected c2s n sv sv'"
  by (auto simp: quiet_step_def memory_step_def upsets_def)

lemma hot_put [simp]:
  "llps_session_hot_path_is_active (put_buf tr b s) = llps_session_hot_path_is_active s"
  "llps_session_hot_path_is_active (put_ecc tr e s) = llps_session_hot_path_is_active s"
  by (cases tr; simp add: llps_session_hot_path_is_active_def)+

lemma repair_hot:
  assumes "llps_pump_repair_write_payload ly len ctx sv = (True, ctx', sv')"
  shows "llps_session_hot_path_is_active (sv_session n sv') = llps_session_hot_path_is_active (sv_session n sv)"
  using assms
  by (auto simp: llps_pump_repair_write_payload_def pump_fault_eq Let_def session_put_cases split: if_splits prod.splits)

text \<open>A pump that may write: the data are there, the session is active, the descriptor is valid.\<close>

definition may_write :: "buffer_layout \<Rightarrow> bool \<Rightarrow> bool \<Rightarrow> nat \<Rightarrow> u8 list \<Rightarrow> server_state \<Rightarrow> bool" where
  "may_write ly protected c2s n data sv \<longleftrightarrow> holds_data ly protected c2s n data sv \<and>
     llps_session_hot_path_is_active (sv_session n sv) \<and> llps_fd_is_valid (pa_dst_fd (pump_of c2s (sv_session n sv)))"

lemma repair_quiet:
  assumes may: "may_write ly protected c2s n data sv" and step: "quiet_step protected c2s n sv sv1"
    and ctx: "pump_ctx protected c2s n ctx"
  shows "\<exists>sv2. llps_pump_repair_write_payload ly (length data) ctx sv1 = (True, ctx, sv2) \<and>
    may_write ly protected c2s n data sv2" "llps_session_hot_path_is_active (sv_session n sv1)"
proof -
  have holds: "holds_data ly protected c2s n data sv" and len: "length data \<le> pump_cap c2s n sv"
    using may by (simp_all add: may_write_def holds_data_def)
  obtain ok ctx2 sv2 where r: "llps_pump_repair_write_payload ly (length data) ctx sv1 = (ok, ctx2, sv2)" by (metis prod_cases3)
  note post = repair_after_step [OF holds quiet_memory_step [OF step] ctx r]
  have "one_upset (fst (payload_word c2s n j sv)) (payload_word c2s n j sv1)"
    if "protected" "j < llps_payload_ecc_word_count_for_len (length data)" for j
    using that step holds order.strict_trans2 [OF that(2) word_count_mono [OF len]]
    by (auto simp: quiet_step_def holds_data_def sealed_payload_def payload_word_def)
  then have ok: "ok" using post(2,3) by blast
  show hot: "llps_session_hot_path_is_active (sv_session n sv1)" using may step by (simp add: may_write_def quiet_step_def)
  have keeps: "keeps_pump c2s n sv sv1" using step by (simp add: quiet_step_def)
  have "pump_of c2s (sv_session n sv2) = pump_of c2s (sv_session n sv1)"
  proof -
    have "pump_of c2s (put_buf tr b s) = pump_of c2s s" "pump_of c2s (put_ecc tr e s) = pump_of c2s s" for tr b e s
      by (cases tr; simp add: pump_of_def)+
    then show ?thesis using r [unfolded ok [THEN eqTrueI]]
      by (auto simp: llps_pump_repair_write_payload_def pump_fault_eq Let_def session_put_cases split: if_splits prod.splits)
  qed
  then have "may_write ly protected c2s n data sv2"
    using post(1) [OF ok] repair_hot [OF r [unfolded ok [THEN eqTrueI]], of n] hot keeps may
    by (simp add: may_write_def keeps_pump_def)
  then show "\<exists>sv2. llps_pump_repair_write_payload ly (length data) ctx sv1 = (True, ctx, sv2) \<and>
      may_write ly protected c2s n data sv2"
    using r ok post(1) [OF ok] by auto
qed

lemma poll_ok: "llps_fd_is_valid fd \<Longrightarrow> 0 \<le> sint rc \<Longrightarrow> llps_llam_poll_fd_checked rc fd POLLOUT 10 sv = (rc, sv)"
  by (simp add: llps_llam_poll_fd_checked_def unless_stopping_def)

lemma write_loop_succeeds:
  assumes "may_write ly protected c2s n data sv" "pump_ctx protected c2s n ctx"
    and "\<And>i sv. quiet_step protected c2s n sv (wa_before (answers i) sv)"
    and "good_sends (wp_remain wp) (1024 - unat (wp_retry_count wp)) sends"
    and "\<And>k. k < length sends \<Longrightarrow> wa_send (answers (i + k)) = sends ! k"
    and "write_measure wp \<le> steps"
  shows "\<exists>wp' sv'. pump_write_loop ly answers (length data) i steps ctx wp sv = (True, ctx, wp', sv') \<and>
    may_write ly protected c2s n data sv'"
  using assms
proof (induction steps arbitrary: i wp sv sends)
  case 0
  then show ?case by auto
next
  case (Suc steps)
  show ?case
  proof (cases "wp_remain wp = 0")
    case True
    then show ?thesis using Suc.prems(1) by simp
  next
    case False
    then obtain a rest where sends: "sends = a # rest" using Suc.prems(4) by (cases sends) auto
    have a: "wa_send (answers i) = a" using Suc.prems(5) [of 0] sends by simp
    have rest: "\<And>k. k < length rest \<Longrightarrow> wa_send (answers (Suc i + k)) = rest ! k"
      using Suc.prems(5) [of "Suc k" for k] sends by auto
    let ?sv1 = "wa_before (answers i) sv"
    obtain sv2 where rep: "llps_pump_repair_write_payload ly (length data) ctx ?sv1 = (True, ctx, sv2)"
      "may_write ly protected c2s n data sv2" and hot: "llps_session_hot_path_is_active (sv_session n ?sv1)"
      using repair_quiet [OF Suc.prems(1,3,2)] by blast
    have sess: "pc_sess ctx = n" "pc_c2s ctx = c2s" using Suc.prems(2) by (simp_all add: pump_ctx_def)
    have "\<exists>wp1. llps_pump_write_step ly a (length data) ctx wp ?sv1 = (True, ctx, wp1, sv2) \<and>
        good_sends (wp_remain wp1) (1024 - unat (wp_retry_count wp1)) rest"
    proof (cases a)
      case (Sent w)
      then show ?thesis using Suc.prems(4) sends hot sess rep(1) by (auto simp: llps_pump_write_step_def)
    next
      case (Send_blocked rc)
      have fd: "llps_fd_is_valid (pa_dst_fd (pump_of c2s (sv_session n sv2)))" using rep(2) by (simp add: may_write_def)
      have c: "wp_retry_count wp < 1024" "0 \<le> sint rc" using Suc.prems(4) sends Send_blocked
        by (auto simp: word_less_nat_alt)
      then have "unat (wp_retry_count wp + 1) = Suc (unat (wp_retry_count wp))"
        by (simp add: word_less_nat_alt unat_word_ariths)
      then show ?thesis
        using Suc.prems(4) sends hot sess rep(1) Send_blocked c poll_ok [OF fd c(2)]
        by (auto simp: llps_pump_write_step_def llps_pump_wait_writable_def not_le Let_def)
    next
      case Send_failed
      then show ?thesis using Suc.prems(4) sends by simp
    qed
    then obtain wp1 where s: "llps_pump_write_step ly (wa_send (answers i)) (length data) ctx wp ?sv1 = (True, ctx, wp1, sv2)"
      "good_sends (wp_remain wp1) (1024 - unat (wp_retry_count wp1)) rest" using a by blast
    have "write_measure wp1 \<le> steps" using write_step_measure [OF s(1)] Suc.prems(6) by simp
    from Suc.IH [OF rep(2) Suc.prems(2,3) s(2) rest this]
    show ?thesis using False s(1) by auto
  qed
qed

section \<open>Properties\<close>

lemma is_active_cfg:
  assumes "cfg_held k cfg (rs_env (sv_rs sv))" "llps_session_is_active n sv = (r, sv')"
  shows "sv_cfg sv' = cfg"
proof -
  obtain rs where c: "sv_reconcile_cfg sv = (True, sv\<lparr>sv_rs := rs\<rparr>)" "env_runtime_cfg (rs_env rs) = cfg"
    using sv_reconcile_cfg_held [OF assms(1)] by blast
  then show ?thesis
    using assms(2)
    by (auto simp: llps_session_is_active_def llps_session_reconcile_integrity_def sv_cfg_def sv_put_session_def
        sv_set_counters_def split: option.splits prod.splits)
qed

lemma prepare_post:
  assumes "cfg_held k cfg (rs_env (sv_rs sv))" "pump_shape ly c2s n sv"
    and "llps_pump_prepare ly getfl (llps_pump_context_init c2s n) sv = (True, ctx, sv')"
  shows "pump_ctx (payload_ecc_enabled cfg \<noteq> 0) c2s n ctx" "same_transfer sv sv'"
    "pump_cap c2s n sv' \<le> LLPS_PAYLOAD_BUFFER_SIZE"
proof -
  obtain r sv1 where a: "llps_session_is_active n sv = (r, sv1)" by fastforce
  note t = same_transfer_is_active [OF a] and c = is_active_cfg [OF assms(1) a]
  let ?ctx = "llps_pump_context_init c2s n"
  have p: "llps_payload_ecc_for_pump ly n (pump_of c2s (sv_session n sv1)) \<in> {own_transfer c2s, No_buf}"
    using shape_same [OF t assms(2)]
    by (auto simp: llps_payload_ecc_for_pump_def pump_shape_def own_transfer_def split: if_splits)
  have e: "r" "llps_pump_args_are_valid getfl ?ctx sv1" "sv' = sv1"
    using assms(3) by (auto simp: llps_pump_prepare_def a pump_fault_eq Let_def llps_pump_context_init_def split: if_splits)
  show "same_transfer sv sv'" using e t by simp
  show "pump_cap c2s n sv' \<le> LLPS_PAYLOAD_BUFFER_SIZE"
    using e by (simp add: llps_pump_args_are_valid_def Let_def pump_cap_def llps_pump_context_init_def)
  have p0: "pump_of (pc_c2s ?ctx) (sv_session (pc_sess ?ctx) sv1) = pump_of c2s (sv_session n sv1)"
    by (simp add: llps_pump_context_init_def)
  show "pump_ctx (payload_ecc_enabled cfg \<noteq> 0) c2s n ctx"
    using assms(3) e p c
    by (auto simp: llps_pump_prepare_def a pump_fault_eq Let_def pump_ctx_def llps_pump_context_init_def split: if_splits)
qed



text \<open>
  C16: The bound of steps never ends a write. A step that goes on sends a byte or uses up one of the
  1024 retries, so with any answers and any changes of memory the loop over the steps either fails in
  a step or has sent everything; the check for remaining bytes behind it never fires.
\<close>

theorem pump_write_steps_suffice:
  assumes "len \<le> LLPS_PAYLOAD_BUFFER_SIZE"
    and "pump_write_loop ly answers len 0 LLPS_SOCKET_IO_STEP_MAX ctx
      \<lparr>wp_off = 0, wp_remain = len, wp_retry_count = 0, wp_sent = sent\<rparr> sv = (ok, ctx', wp, sv')"
  shows "llps_pump_write_all ly answers len ctx sent sv = (ok, ctx', wp_sent wp, sv') \<and> (ok \<longrightarrow> wp_remain wp = 0)"
  by (rule write_all_eq [OF assms])

text \<open>
  C19: A write gets through. With the data sealed in the buffer and the session active, however the
  peer splits the bytes and with up to 1024 waits in between, and with up to one flipped bit in every
  protected word before every step, the write succeeds and exactly the data have been sent.
\<close>

theorem pump_write_gets_through:
  assumes "may_write ly protected c2s n data sv" "pump_ctx protected c2s n ctx"
    and "\<And>i sv. quiet_step protected c2s n sv (wa_before (answers i) sv)"
    and "good_sends (length data) (unat LLPS_IO_RETRY_BUDGET) sends"
    and "\<And>i. i < length sends \<Longrightarrow> wa_send (answers i) = sends ! i"
  shows "\<exists>sv'. llps_pump_write_all ly answers (length data) ctx sent sv = (True, ctx, sent @ data, sv')"
proof -
  let ?wp = "\<lparr>wp_off = 0, wp_remain = length data, wp_retry_count = 0, wp_sent = sent\<rparr>"
  have holds: "holds_data ly protected c2s n data sv" and len: "length data \<le> 4096"
    using assms(1) by (simp_all add: may_write_def holds_data_def)
  obtain wp' sv' where l: "pump_write_loop ly answers (length data) 0 LLPS_SOCKET_IO_STEP_MAX ctx ?wp sv = (True, ctx, wp', sv')"
    using write_loop_succeeds [OF assms(1,2), where answers = answers and wp = ?wp and sends = sends and i = 0 and steps = 5120] assms(3-5) len by (auto simp: write_measure_def)
  from write_all_eq [OF len l] have a: "llps_pump_write_all ly answers (length data) ctx sent sv = (True, ctx, wp_sent wp', sv')"
    by simp
  from write_all_post(3) [OF holds assms(2) quiet_memory_step [OF assms(3)] a] a show ?thesis by simp
qed

subsection \<open>Examples\<close>

text \<open>A connection on slot 5: the client is descriptor 7, the backend 8; payload codes are on.\<close>

definition sample_layout :: buffer_layout where
  "sample_layout = \<lparr>ly_session = (\<lambda>n. of_nat n * 0x8000), ly_c2s_buf = (\<lambda>n. of_nat n * 0x8000 + 0x1000),
     ly_s2c_buf = (\<lambda>n. of_nat n * 0x8000 + 0x2000)\<rparr>"

definition coded_cfg :: llps_yml_config_t where
  "coded_cfg = example_cfg\<lparr>payload_ecc_enabled := 1\<rparr>"

lemma coded_cfg_valid: "llps_runtime_cfg_values_are_valid coded_cfg"
  by code_simp

definition coded_server :: server_state where
  "coded_server = sample_server\<lparr>sv_rs := (sv_rs sample_server)\<lparr>rs_env := (rs_env (sv_rs sample_server))\<lparr>
     env_runtime_cfg := coded_cfg, env_cfg_banks := map (\<lambda>i. cfg_bank_from i coded_cfg) [0..<3]\<rparr>\<rparr>\<rparr>"

definition sample_connection :: server_state where
  "sample_connection = llps_connection_prepare_pump_args sample_layout 5 (sv_put_session 5
     ((session_active_fields 5 7 None 80 1 9 blank_session)\<lparr>se_backend_fd := 8\<rparr>) coded_server)"

lemma coded_cfg_held: "cfg_held k coded_cfg (rs_env (sv_rs coded_server))"
  by (simp add: coded_server_def cfg_held_def cfg_bank_from_valid coded_cfg_valid)

text \<open>Preparing the records gives both pumps their shape.\<close>

lemma prepare_pump_args_shape:
  assumes n: "n < length (sv_sessions sv)" and ly: "ly_c2s_buf ly n \<noteq> ly_s2c_buf ly n"
    and lens: "length (own_buf c2s n sv) = LLPS_PAYLOAD_BUFFER_SIZE" "length (own_ecc c2s n sv) = LLPS_PAYLOAD_ECC_WORD_COUNT"
  shows "pump_shape ly c2s n (llps_connection_prepare_pump_args ly n sv)"
proof -
  let ?s = "(sv_session n sv)\<lparr>se_pump_c2s := \<lparr>pa_session = ly_session ly n, pa_src_fd = se_client_fd (sv_session n sv),
      pa_dst_fd = se_backend_fd (sv_session n sv), pa_buf = ly_c2s_buf ly n,
      pa_buf_len = ucast (buffer_size (sv_cfg sv)), pa_direction = LLPS_DIR_C2S\<rparr>,
    se_pump_s2c := \<lparr>pa_session = ly_session ly n, pa_src_fd = se_backend_fd (sv_session n sv),
      pa_dst_fd = se_client_fd (sv_session n sv), pa_buf = ly_s2c_buf ly n,
      pa_buf_len = ucast (buffer_size (sv_cfg sv)), pa_direction = LLPS_DIR_S2C\<rparr>\<rparr>"
  have e: "llps_connection_prepare_pump_args ly n sv = llps_session_refresh_crc n (sv_put_session n ?s sv)"
    by (simp add: llps_connection_prepare_pump_args_def Let_def)
  have "pump_shape ly c2s n (sv_put_session n ?s sv)"
    using assms by (cases c2s) (simp_all add: pump_shape_def own_transfer_def pump_of_def)
  then show ?thesis unfolding e by (rule shape_same [OF same_transfer_refresh])
qed

lemma sample_connection_shape: "pump_shape sample_layout c2s 5 sample_connection"
proof -
  have n: "5 < length (sv_sessions coded_server)" by (simp add: coded_server_def sample_server_def)
  show ?thesis
    unfolding sample_connection_def
    by (rule prepare_pump_args_shape) (use n in \<open>simp_all add: sample_layout_def own_transfer_def session_active_fields_def
      session_clear_transfer_def Let_def llps_session_set_state_fields_def zeroed_def blank_session_def split: if_splits\<close>)
qed

text \<open>An upset that flips the lowest bit of the first byte of the buffer.\<close>

definition upset_first :: "bool \<Rightarrow> nat \<Rightarrow> server_state \<Rightarrow> server_state" where
  "upset_first c2s n sv = sv_put_session n (put_buf (own_transfer c2s)
     ((own_buf c2s n sv)[0 := own_buf c2s n sv ! 0 XOR 1]) (sv_session n sv)) sv"

lemma load_upset_first:
  "llps_payload_ecc_load_word (b[0 := b ! 0 XOR 1]) cap j =
     (if j = 0 \<and> 0 < cap \<and> b \<noteq> [] then llps_payload_ecc_load_word b cap j XOR 1 else llps_payload_ecc_load_word b cap j)"
  by (rule bit_word_eqI)
    (auto simp: bit_load bit_xor_iff nth_list_update bit_1_iff div_eq_0_iff)

lemma upset_first_quiet: "quiet_step True c2s n sv (upset_first c2s n sv)"
proof (cases "n < length (sv_sessions sv)")
  case False
  then show ?thesis
    by (simp add: upset_first_def quiet_step_def keeps_pump_def session_put_cases payload_word_def stored_word_def pump_cap_def
        one_upset_def word_sealed_def)
next
  case True
  let ?b = "own_buf c2s n sv" and ?sv = "upset_first c2s n sv"
  have s: "sv_session n ?sv = put_buf (own_transfer c2s) (?b[0 := ?b ! 0 XOR 1]) (sv_session n sv)"
    using True by (simp add: upset_first_def)
  have k: "keeps_pump c2s n sv ?sv" using True by (simp add: keeps_pump_def s) (simp add: upset_first_def)
  have "one_upset (fst (payload_word c2s n j sv)) (payload_word c2s n j ?sv)" if "word_sealed (payload_word c2s n j sv)" for j
  proof (cases "j = 0 \<and> 0 < pump_cap c2s n sv \<and> ?b \<noteq> []")
    case hit: True
    then have "payload_word c2s n j ?sv = flip_bit (DataBit 0) (payload_word c2s n j sv)"
      using cap_keeps [OF k] by (simp add: payload_word_def stored_word_def s load_upset_first)
    moreover have "payload_word c2s n j sv = (fst (payload_word c2s n j sv), llps_secded_encode_u64 (fst (payload_word c2s n j sv)) 64)"
      using that by (simp add: word_sealed_def prod_eq_iff)
    ultimately show ?thesis unfolding one_upset_def by (intro disjI2 exI [of _ "DataBit 0"]) simp
  next
    case False
    then have "payload_word c2s n j ?sv = payload_word c2s n j sv"
      using cap_keeps [OF k] by (auto simp: payload_word_def stored_word_def s load_upset_first)
    then show ?thesis using that by (simp add: one_upset_def word_sealed_def prod_eq_iff)
  qed
  then show ?thesis using k by (simp add: quiet_step_def s)
qed

lemma refresh_session: "n < length (sv_sessions sv) \<Longrightarrow>
    sv_session n (llps_session_refresh_crc n sv) = sealed_session (sv_session n sv)"
  and refresh_cfg_held: "cfg_held k cfg (rs_env (sv_rs (llps_session_refresh_crc n sv))) = cfg_held k cfg (rs_env (sv_rs sv))"
proof -
  obtain sc where e: "llps_session_refresh_crc n sv =
     (sv_set_counters sc (sv_put_session n (sealed_session (sv_session n sv)) sv))\<lparr>sv_regions :=
        fst (llps_session_tmr_write_all (llps_session_tmr_snapshot_from_session (sealed_session (sv_session n sv)))
          (sv_regions sv, sv_counters sv))\<rparr>"
    using refresh_crc_eq [of n sv] by blast
  show "n < length (sv_sessions sv) \<Longrightarrow> sv_session n (llps_session_refresh_crc n sv) = sealed_session (sv_session n sv)"
    unfolding e by simp
  show "cfg_held k cfg (rs_env (sv_rs (llps_session_refresh_crc n sv))) = cfg_held k cfg (rs_env (sv_rs sv))"
    unfolding e by (simp add: sv_set_counters_def sv_put_session_def cfg_held_def)
qed

lemma sample_connection_cfg: "cfg_held k coded_cfg (rs_env (sv_rs sample_connection))"
  by (simp add: sample_connection_def llps_connection_prepare_pump_args_def Let_def refresh_cfg_held coded_cfg_held)

lemma sample_connection_fields:
  "llps_session_hot_path_is_active (sv_session 5 sample_connection)"
  "llps_fd_is_valid (pa_dst_fd (pump_of True (sv_session 5 sample_connection)))"
  "pump_cap True 5 sample_connection = 4096"
proof -
  have "5 < length (sv_sessions coded_server)" "sv_cfg coded_server = coded_cfg"
    by (simp_all add: coded_server_def sample_server_def sv_cfg_def)
  note s = this refresh_session llps_magic_for_state_def
  show "llps_session_hot_path_is_active (sv_session 5 sample_connection)"
    "llps_fd_is_valid (pa_dst_fd (pump_of True (sv_session 5 sample_connection)))"
    "pump_cap True 5 sample_connection = 4096"
    by (simp_all add: s sample_connection_def llps_connection_prepare_pump_args_def Let_def
        sealed_session_def llps_session_refresh_secded_def session_active_fields_def session_clear_transfer_def
        llps_session_set_state_fields_def llps_session_hot_path_is_active_def llps_fd_is_valid_def pump_of_def
        llps_close_reason_is_valid_def pump_cap_def coded_cfg_def example_cfg_def)
qed

text \<open>The text \<open>Hi\<close> is read while the first byte is upset before every send.\<close>

definition sample_answers :: "cycle_answer list" where
  "sample_answers =
     [\<lparr>ca_before = (\<lambda>sv. sv), ca_read = Read_bytes [0x48, 0x69], ca_now = 10,
       ca_writes = (\<lambda>i. \<lparr>wa_before = upset_first True 5, wa_send = Sent 1\<rparr>)\<rparr>,
      \<lparr>ca_before = (\<lambda>sv. sv), ca_read = Read_bytes [], ca_now = 11,
       ca_writes = (\<lambda>i. \<lparr>wa_before = upset_first True 5, wa_send = Sent 1\<rparr>)\<rparr>]"


text \<open>The same connection with the text sealed in its buffer.\<close>

definition sample_sealed :: server_state where
  "sample_sealed =
     (case llps_payload_ecc_seal ([0x48, 0x69] @ replicate 4094 0) 2 4096 (replicate 512 0) 512 of
        (_, b, e) \<Rightarrow> sv_put_session 5 (put_ecc (own_transfer True) e (put_buf (own_transfer True) b
          (sv_session 5 sample_connection))) sample_connection)"

lemma sample_sealed_may_write: "may_write sample_layout True True 5 [0x48, 0x69] sample_sealed"
proof -
  obtain b e where s: "llps_payload_ecc_seal ([0x48, 0x69] @ replicate 4094 0) 2 4096 (replicate 512 0) 512 = (True, b, e)"
    "length b = 4096" "length e = 512" "sealed_payload [0x48, 0x69] 4096 b e"
    using seal_payload [of "[0x48, 0x69]" 4096 "[0x48, 0x69] @ replicate 4094 0" "replicate 512 0"]
    by (auto simp: numeral_2_eq_2)
  have n: "5 < length (sv_sessions sample_connection)" using sample_connection_shape [of True] by (simp add: pump_shape_def)
  have eq: "sample_sealed = sv_put_session 5 (put_ecc (own_transfer True) e (put_buf (own_transfer True) b
      (sv_session 5 sample_connection))) sample_connection"
    unfolding sample_sealed_def s(1) by simp
  have "holds_data sample_layout True True 5 [0x48, 0x69] sample_sealed"
    unfolding eq by (rule holds_put [OF sample_connection_shape]) (use s sample_connection_fields(3) in auto)
  moreover have "sv_session 5 sample_sealed = put_ecc (own_transfer True) e (put_buf (own_transfer True) b (sv_session 5 sample_connection))"
    unfolding eq using n by simp
  ultimately show ?thesis using sample_connection_fields(1,2) by (simp add: may_write_def)
qed

abbreviation sample_ctx :: llps_pump_context_t where
  "sample_ctx \<equiv> (llps_pump_context_init True 5)\<lparr>pc_payload_ecc_enabled := True, pc_payload_ecc := C2S_buf\<rparr>"

abbreviation sample_sends :: "nat \<Rightarrow> write_answer" where
  "sample_sends \<equiv> \<lambda>i. \<lparr>wa_before = upset_first True 5, wa_send = [Sent 1, Send_blocked 0, Sent 1] ! i\<rparr>"

lemma sample_ctx: "pump_ctx True True 5 sample_ctx"
  by (simp add: pump_ctx_def llps_pump_context_init_def own_transfer_def)

lemma sample_good_sends: "good_sends (length [0x48, 0x69 :: u8]) (unat LLPS_IO_RETRY_BUDGET) [Sent 1, Send_blocked 0, Sent 1]"
  by simp

theorem pump_write_steps_suffice_witness:
  "\<exists>ctx' (wp :: write_progress) sv'. llps_pump_write_all sample_layout sample_sends 2 sample_ctx [] sample_sealed =
     (True, ctx', wp_sent wp, sv') \<and> wp_remain wp = 0"
proof -
  let ?wp = "\<lparr>wp_off = 0, wp_remain = 2, wp_retry_count = 0, wp_sent = []\<rparr>"
  have len: "length [0x48, 0x69 :: u8] = 2" by simp
  obtain wp sv' where l: "pump_write_loop sample_layout sample_sends 2 0 LLPS_SOCKET_IO_STEP_MAX sample_ctx ?wp sample_sealed =
      (True, sample_ctx, wp, sv')"
    using write_loop_succeeds [OF sample_sealed_may_write sample_ctx, where answers = sample_sends and wp = ?wp
        and sends = "[Sent 1, Send_blocked 0, Sent 1]" and i = 0 and steps = 5120] upset_first_quiet
    unfolding len by (auto simp: write_measure_def)
  have "(2 :: nat) \<le> LLPS_PAYLOAD_BUFFER_SIZE" by simp
  from pump_write_steps_suffice [OF this l] show ?thesis by blast
qed

theorem pump_write_gets_through_witness:
  "\<exists>sv'. llps_pump_write_all sample_layout sample_sends 2 sample_ctx [] sample_sealed = (True, sample_ctx, [0x48, 0x69], sv')"
proof -
  have len: "length [0x48, 0x69 :: u8] = 2" by simp
  from pump_write_gets_through [OF sample_sealed_may_write sample_ctx _ sample_good_sends,
      where answers = sample_sends and sent = "[]"]
  show ?thesis using upset_first_quiet unfolding len append_Nil by auto
qed

end
