(* ===== verification/Handshake.thy ===== *)
theory Handshake
  imports LLPS_Prelude
begin

text \<open>
  The gate on the first client packet: the handshake parser of \<^verbatim>\<open>src/core/llps_state.c\<close>. It runs
  on every prefix of the client's bytes as they arrive and answers "need more", "valid" or
  "invalid". Offsets are natural numbers: the buffer has at most 4096 bytes.
\<close>

section \<open>Definitions\<close>

datatype llps_protocol_handshake_status_t =
  LLPS_PROTOCOL_HANDSHAKE_NEED_MORE | LLPS_PROTOCOL_HANDSHAKE_VALID | LLPS_PROTOCOL_HANDSHAKE_INVALID

abbreviation LLPS_PROTOCOL_HANDSHAKE_PACKET_BYTES_MAX :: u32 where
  "LLPS_PROTOCOL_HANDSHAKE_PACKET_BYTES_MAX \<equiv> 1024"

abbreviation LLPS_PROTOCOL_HANDSHAKE_ADDR_BYTES_MAX :: u32 where
  "LLPS_PROTOCOL_HANDSHAKE_ADDR_BYTES_MAX \<equiv> 255"

abbreviation SIZE_MAX :: nat where
  "SIZE_MAX \<equiv> 2 ^ 64 - 1"

text \<open>
  The status, the new offset and \<^verbatim>\<open>*out_value\<close>, which every caller initialises to zero and reads
  only after "valid". The last argument lists the byte indices the loop has left.
\<close>

fun varint_loop ::
    "u8 list \<Rightarrow> nat \<Rightarrow> nat \<Rightarrow> u32 \<Rightarrow> nat list \<Rightarrow> llps_protocol_handshake_status_t \<times> nat \<times> u32" where
  "varint_loop buf len offset value [] = (LLPS_PROTOCOL_HANDSHAKE_INVALID, offset, 0)"
| "varint_loop buf len offset value (byte_index # indices) =
     (if offset \<ge> len then (LLPS_PROTOCOL_HANDSHAKE_NEED_MORE, offset, 0)
      else
        (let byte = buf ! offset;
             offset = offset + 1;
             byte_value = (ucast (byte AND 0x7F) :: u32);
             shift = byte_index * 7
         in if byte_index = 4 \<and> byte_value > 0x0F
            then (LLPS_PROTOCOL_HANDSHAKE_INVALID, offset, 0)
            else
              (let value = value OR push_bit shift byte_value
               in if byte AND 0x80 = 0
                  then (if byte_index > 0 \<and> value < push_bit shift 1
                        then (LLPS_PROTOCOL_HANDSHAKE_INVALID, offset, 0)
                        else (LLPS_PROTOCOL_HANDSHAKE_VALID, offset, value))
                  else varint_loop buf len offset value indices)))"

definition llps_protocol_read_varint ::
    "u8 list \<Rightarrow> nat \<Rightarrow> nat \<Rightarrow> llps_protocol_handshake_status_t \<times> nat \<times> u32" where
  "llps_protocol_read_varint buf len offset = varint_loop buf len offset 0 [0..<5]"

text \<open>The status, the offset and the packet end.\<close>

definition llps_protocol_read_packet_frame ::
    "u8 list \<Rightarrow> nat \<Rightarrow> nat \<Rightarrow> llps_protocol_handshake_status_t \<times> nat \<times> nat" where
  "llps_protocol_read_packet_frame buf len offset =
     (case llps_protocol_read_varint buf len offset of (st, offset, packet_len) \<Rightarrow>
        if st \<noteq> LLPS_PROTOCOL_HANDSHAKE_VALID then (st, offset, 0)
        else if packet_len = 0 \<or> packet_len > LLPS_PROTOCOL_HANDSHAKE_PACKET_BYTES_MAX \<or>
                unat packet_len > SIZE_MAX - offset
        then (LLPS_PROTOCOL_HANDSHAKE_INVALID, offset, 0)
        else (let packet_end = offset + unat packet_len
              in (if len < packet_end then LLPS_PROTOCOL_HANDSHAKE_NEED_MORE
                  else LLPS_PROTOCOL_HANDSHAKE_VALID, offset, packet_end)))"

definition llps_protocol_read_packet_id ::
    "u8 list \<Rightarrow> nat \<Rightarrow> nat \<Rightarrow> llps_protocol_handshake_status_t \<times> nat" where
  "llps_protocol_read_packet_id buf packet_end offset =
     (case llps_protocol_read_varint buf packet_end offset of (st, offset, packet_id) \<Rightarrow>
        (if st = LLPS_PROTOCOL_HANDSHAKE_VALID \<and> packet_id = 0
         then LLPS_PROTOCOL_HANDSHAKE_VALID else LLPS_PROTOCOL_HANDSHAKE_INVALID, offset))"

definition llps_protocol_read_protocol_version ::
    "u8 list \<Rightarrow> nat \<Rightarrow> nat \<Rightarrow> llps_protocol_handshake_status_t \<times> nat" where
  "llps_protocol_read_protocol_version buf packet_end offset =
     (case llps_protocol_read_varint buf packet_end offset of (st, offset, protocol_version) \<Rightarrow>
        (if st = LLPS_PROTOCOL_HANDSHAKE_VALID \<and> protocol_version \<noteq> 0 \<and> protocol_version \<le> 0x7FFFFFFF
         then LLPS_PROTOCOL_HANDSHAKE_VALID else LLPS_PROTOCOL_HANDSHAKE_INVALID, offset))"

definition llps_protocol_skip_server_address ::
    "u8 list \<Rightarrow> nat \<Rightarrow> nat \<Rightarrow> llps_protocol_handshake_status_t \<times> nat" where
  "llps_protocol_skip_server_address buf packet_end offset =
     (case llps_protocol_read_varint buf packet_end offset of (st, offset, server_addr_len) \<Rightarrow>
        if st \<noteq> LLPS_PROTOCOL_HANDSHAKE_VALID \<or> server_addr_len = 0 \<or>
           server_addr_len > LLPS_PROTOCOL_HANDSHAKE_ADDR_BYTES_MAX
        then (LLPS_PROTOCOL_HANDSHAKE_INVALID, offset)
        else if unat server_addr_len > packet_end - offset \<or>
                packet_end - offset - unat server_addr_len < 3
        then (LLPS_PROTOCOL_HANDSHAKE_INVALID, offset)
        else (let offset = offset + unat server_addr_len
              in if buf ! offset = 0 \<and> buf ! (offset + 1) = 0
                 then (LLPS_PROTOCOL_HANDSHAKE_INVALID, offset)
                 else (LLPS_PROTOCOL_HANDSHAKE_VALID, offset + 2)))"

definition llps_protocol_read_next_state ::
    "u8 list \<Rightarrow> nat \<Rightarrow> nat \<Rightarrow> llps_protocol_handshake_status_t \<times> nat" where
  "llps_protocol_read_next_state buf packet_end offset =
     (case llps_protocol_read_varint buf packet_end offset of (st, offset, next_state) \<Rightarrow>
        (if st = LLPS_PROTOCOL_HANDSHAKE_VALID \<and> (next_state = 1 \<or> next_state = 2) \<and> offset = packet_end
         then LLPS_PROTOCOL_HANDSHAKE_VALID else LLPS_PROTOCOL_HANDSHAKE_INVALID, offset))"

definition llps_protocol_handshake_validate :: "u8 list \<Rightarrow> nat \<Rightarrow> llps_protocol_handshake_status_t" where
  "llps_protocol_handshake_validate buf len =
     (if len = 0 then LLPS_PROTOCOL_HANDSHAKE_NEED_MORE
      else
        (let (st, offset, packet_end) = llps_protocol_read_packet_frame buf len 0;
             (st, offset) = (if st = LLPS_PROTOCOL_HANDSHAKE_VALID
               then llps_protocol_read_packet_id buf packet_end offset else (st, offset));
             (st, offset) = (if st = LLPS_PROTOCOL_HANDSHAKE_VALID
               then llps_protocol_read_protocol_version buf packet_end offset else (st, offset));
             (st, offset) = (if st = LLPS_PROTOCOL_HANDSHAKE_VALID
               then llps_protocol_skip_server_address buf packet_end offset else (st, offset));
             (st, offset) = (if st = LLPS_PROTOCOL_HANDSHAKE_VALID
               then llps_protocol_read_next_state buf packet_end offset else (st, offset))
         in st))"

subsection \<open>The format\<close>

text \<open>The shortest encoding of a number, seven bits a byte, and the packet the gate expects.\<close>

fun varint_encode :: "nat \<Rightarrow> u8 list" where
  "varint_encode n = (if n < 128 then [of_nat n] else of_nat (128 + n mod 128) # varint_encode (n div 128))"

declare varint_encode.simps [simp del]

definition handshake_body :: "nat \<Rightarrow> u8 list \<Rightarrow> u8 \<Rightarrow> u8 \<Rightarrow> nat \<Rightarrow> u8 list" where
  "handshake_body version addr port_hi port_lo next_state =
     varint_encode 0 @ varint_encode version @ varint_encode (length addr) @ addr @ [port_hi, port_lo] @
     varint_encode next_state"

definition handshake_packet :: "nat \<Rightarrow> u8 list \<Rightarrow> u8 \<Rightarrow> u8 \<Rightarrow> nat \<Rightarrow> u8 list" where
  "handshake_packet version addr port_hi port_lo next_state =
     varint_encode (length (handshake_body version addr port_hi port_lo next_state)) @
     handshake_body version addr port_hi port_lo next_state"

definition handshake_fields_ok :: "nat \<Rightarrow> u8 list \<Rightarrow> u8 \<Rightarrow> u8 \<Rightarrow> nat \<Rightarrow> bool" where
  "handshake_fields_ok version addr port_hi port_lo next_state \<longleftrightarrow>
     1 \<le> version \<and> version < 2 ^ 31 \<and> 1 \<le> length addr \<and> length addr \<le> 255 \<and>
     \<not> (port_hi = 0 \<and> port_lo = 0) \<and> (next_state = 1 \<or> next_state = 2)"

text \<open>The bytes \<open>xs\<close> stand at an offset of the buffer, below \<open>len\<close>.\<close>

definition stands_at :: "u8 list \<Rightarrow> nat \<Rightarrow> nat \<Rightarrow> u8 list \<Rightarrow> bool" where
  "stands_at buf len offset xs \<longleftrightarrow>
     offset + length xs \<le> len \<and> (\<forall>i < length xs. buf ! (offset + i) = xs ! i)"

section \<open>Variable-length integers\<close>

lemma stands_at_Cons:
  "stands_at buf len offset (x # xs) \<longleftrightarrow>
     offset < len \<and> buf ! offset = x \<and> stands_at buf len (Suc offset) xs"
  by (auto simp: stands_at_def less_Suc_eq_0_disj all_conj_distrib)

lemma stands_at_Nil: "stands_at buf len offset [] \<longleftrightarrow> offset \<le> len"
  by (simp add: stands_at_def)

lemma stands_at_append:
  "stands_at buf len offset (xs @ ys) \<longleftrightarrow>
     stands_at buf len offset xs \<and> stands_at buf len (offset + length xs) ys"
proof (induction xs arbitrary: offset)
  case Nil
  then show ?case by (auto simp: stands_at_Nil stands_at_def)
next
  case (Cons x xs)
  then show ?case by (simp add: stands_at_Cons)
qed

lemma and_7F_mod: "unat ((b :: u8) AND 0x7F) = unat b mod 128"
proof -
  have "b AND 0x7F = take_bit 7 b"
    by (simp add: take_bit_eq_mask mask_numeral flip: mask_eq_exp_minus_1)
  then show ?thesis by (simp add: unsigned_take_bit_eq) (simp add: take_bit_eq_mod)
qed

lemma and_80_iff: "(b :: u8) AND 0x80 = 0 \<longleftrightarrow> unat b < 128"
proof -
  have "b AND 2 ^ 7 = 0 \<longleftrightarrow> \<not> bit b 7" by (rule and_exp_eq_0_iff_not_bit)
  moreover have "bit b 7 \<longleftrightarrow> odd (unat b div 2 ^ 7)"
    using bit_unsigned_iff [where 'a = nat, of b 7] by (simp add: bit_iff_odd)
  moreover have "unat b < 256" using unsigned_less [where 'a = nat, of b] by simp
  moreover have "unat b div 128 = (if unat b < 128 then 0 else 1)" if "unat b < 256"
    using that by (auto intro: div_nat_eqI)
  ultimately show ?thesis by (simp split: if_splits)
qed

lemma unat_ucast_u8: "unat (ucast (x :: u8) :: u32) = unat x"
  using unsigned_less [where 'a = nat, of x] by (simp add: unsigned_ucast_eq take_bit_nat_eq_self)

lemma unat_one_shifted: "n < 32 \<Longrightarrow> unat (2 ^ n :: u32) = 2 ^ n"
  using unat_of_nat [where 'a = 32, of "2 ^ n"] power_strict_increasing [of n 32 "2 :: nat"]
  by (simp add: push_bit_eq_mult)

lemma or_shifted:
  assumes "unat (value :: u32) < 2 ^ n" and "2 ^ n * unat (x :: u8) < 2 ^ 32"
  shows "unat (value OR push_bit n (ucast x)) = unat value + 2 ^ n * unat x"
proof -
  have p: "unat (push_bit n (ucast x :: u32)) = push_bit n (unat x)"
    using assms(2) 
    by (simp add: unsigned_push_bit_eq unat_ucast_u8) (simp add: push_bit_eq_mult take_bit_nat_eq_self mult.commute)
  have "unat value AND push_bit n (unat x) = 0"
  proof (rule bit_eqI)
    fix i
    have "\<not> bit (unat value) i" if "n \<le> i"
      using assms(1) that by (metis bit_take_bit_iff leD take_bit_nat_eq_self)
    then show "bit (unat value AND push_bit n (unat x)) i = bit 0 i"
      by (auto simp: bit_simps)
  qed
  then have "unat value OR push_bit n (unat x) = unat value + push_bit n (unat x)"
    by (simp add: disjunctive_add_eq_or)
  then show ?thesis
    by (simp add: unsigned_or_eq p) (simp add: push_bit_eq_mult mult.commute)
qed

text \<open>
  What the loop still has to find once \<open>k\<close> bytes are read: the encoding of the number above them.
\<close>

definition varint_rest :: "u8 list \<Rightarrow> nat \<Rightarrow> nat \<Rightarrow> nat \<Rightarrow> nat \<Rightarrow> nat \<Rightarrow> nat \<Rightarrow> bool" where
  "varint_rest buf len k offset acc offset' v \<longleftrightarrow>
     (\<exists>m. (k = 0 \<or> m > 0) \<and> v = acc + 2 ^ (7 * k) * m \<and> v < 2 ^ 32 \<and>
          offset' = offset + length (varint_encode m) \<and> stands_at buf len offset (varint_encode m))"

lemma unat_u8_of_nat: "n < 256 \<Longrightarrow> unat (of_nat n :: u8) = n"
  by (simp add: unat_of_nat)

lemma unat_u8_less: "unat (b :: u8) < 256"
  using unsigned_less [where 'a = nat, of b] by simp

lemma varint_encode_small: "m < 128 \<Longrightarrow> varint_encode m = [of_nat m]"
  by (simp add: varint_encode.simps [of m])

lemma stands_at_varint:
  "stands_at buf len offset (varint_encode m) \<longleftrightarrow>
     offset < len \<and>
     (if unat (buf ! offset) < 128 then m = unat (buf ! offset)
      else m mod 128 = unat (buf ! offset) mod 128 \<and> m \<ge> 128 \<and>
           stands_at buf len (Suc offset) (varint_encode (m div 128)))"
proof (cases "m < 128")
  case True
  then show ?thesis
    by (auto simp: varint_encode.simps [of m] stands_at_Cons stands_at_Nil unat_u8_of_nat)
next
  case False
  have "buf ! offset = of_nat (128 + m mod 128) \<longleftrightarrow>
      unat (buf ! offset) \<ge> 128 \<and> unat (buf ! offset) mod 128 = m mod 128"
  proof
    assume "buf ! offset = of_nat (128 + m mod 128)"
    then have "unat (buf ! offset) = 128 + m mod 128"
      by (simp only:) (rule unat_u8_of_nat, simp)
    then show "unat (buf ! offset) \<ge> 128 \<and> unat (buf ! offset) mod 128 = m mod 128" by simp
  next
    assume *: "unat (buf ! offset) \<ge> 128 \<and> unat (buf ! offset) mod 128 = m mod 128"
    then have "unat (buf ! offset) = 128 + m mod 128"
      using unat_u8_less [of "buf ! offset"] le_mod_geq [of 128 "unat (buf ! offset)"] by auto
    then show "buf ! offset = of_nat (128 + m mod 128)"
      using unat_u8_of_nat [of "128 + m mod 128"] unfolding word_unat_eq_iff by simp
  qed
  moreover have "varint_encode m = of_nat (128 + m mod 128) # varint_encode (m div 128)"
    using False varint_encode.simps [of m] by simp
  ultimately show ?thesis
    using False by (simp only: stands_at_Cons) auto
qed

lemma varint_rest_step:
  "varint_rest buf len k offset acc offset' v \<longleftrightarrow>
     offset < len \<and>
     (let r = unat (buf ! offset) mod 128
      in if unat (buf ! offset) < 128
         then (k = 0 \<or> r > 0) \<and> v = acc + 2 ^ (7 * k) * r \<and> v < 2 ^ 32 \<and> offset' = Suc offset
         else varint_rest buf len (Suc k) (Suc offset) (acc + 2 ^ (7 * k) * r) offset' v)"
proof (cases "offset < len \<and> unat (buf ! offset) \<ge> 128")
  case False
  then show ?thesis
    unfolding varint_rest_def stands_at_varint [of buf len offset] Let_def
    by (auto simp: varint_encode_small)
next
  case True
  let ?r = "unat (buf ! offset) mod 128"
  have enc: "length (varint_encode m) = Suc (length (varint_encode (m div 128)))" if "m \<ge> 128" for m
    using that by (simp add: varint_encode.simps [of m])
  have pow: "2 ^ (7 * k) * (?r + 128 * m) = 2 ^ (7 * k) * ?r + 2 ^ (7 * Suc k) * m" for m
    by (simp add: power_add algebra_simps)
  have "varint_rest buf len k offset acc offset' v \<longleftrightarrow>
      varint_rest buf len (Suc k) (Suc offset) (acc + 2 ^ (7 * k) * ?r) offset' v"
  proof
    assume "varint_rest buf len k offset acc offset' v"
    then obtain m where m: "v = acc + 2 ^ (7 * k) * m" "v < 2 ^ 32"
      "offset' = offset + length (varint_encode m)" "stands_at buf len offset (varint_encode m)"
      by (auto simp: varint_rest_def)
    with True have r: "m mod 128 = ?r" "m \<ge> 128"
      "stands_at buf len (Suc offset) (varint_encode (m div 128))"
      by (auto simp: stands_at_varint [of buf len offset])
    have "m = ?r + 128 * (m div 128)" using r(1) by (metis add.commute mult_div_mod_eq)
    then have "v = acc + 2 ^ (7 * k) * ?r + 2 ^ (7 * Suc k) * (m div 128)"
      using m(1) pow [of "m div 128"] by simp
    with r m enc [OF r(2)] show "varint_rest buf len (Suc k) (Suc offset) (acc + 2 ^ (7 * k) * ?r) offset' v"
      unfolding varint_rest_def by (intro exI [of _ "m div 128"]) (auto simp: div_greater_zero_iff)
  next
    assume "varint_rest buf len (Suc k) (Suc offset) (acc + 2 ^ (7 * k) * ?r) offset' v"
    then obtain m where m: "m > 0" "v = acc + 2 ^ (7 * k) * ?r + 2 ^ (7 * Suc k) * m" "v < 2 ^ 32"
      "offset' = Suc offset + length (varint_encode m)" "stands_at buf len (Suc offset) (varint_encode m)"
      by (auto simp: varint_rest_def)
    have big: "?r + 128 * m \<ge> 128" "(?r + 128 * m) div 128 = m" "(?r + 128 * m) mod 128 = ?r"
      using m(1) by auto
    have "stands_at buf len offset (varint_encode (?r + 128 * m))"
      using True m(5) big by (simp add: stands_at_varint [of buf len offset])
    with m enc [OF big(1)] big pow [of m] show "varint_rest buf len k offset acc offset' v"
      unfolding varint_rest_def by (intro exI [of _ "?r + 128 * m"]) auto
  qed
  with True show ?thesis by (simp add: Let_def)
qed

lemma varint_rest_end: "\<not> varint_rest buf len 5 offset acc offset' v"
  by (auto simp: varint_rest_def)

lemma varint_acc_less:
  assumes "acc < 2 ^ (7 * k)" and "r < (128 :: nat)"
  shows "acc + 2 ^ (7 * k) * r < 2 ^ (7 * Suc k)"
proof -
  have "acc + 2 ^ (7 * k) * r < 2 ^ (7 * k) * Suc r" using assms(1) by simp
  also have "\<dots> \<le> 2 ^ (7 * k) * 128" using assms(2) by (intro mult_le_mono) auto
  also have "\<dots> = 2 ^ (7 * Suc k)" by (simp add: power_add)
  finally show ?thesis .
qed

lemma varint_loop_valid_iff:
  assumes "k \<le> 5" and "unat value < 2 ^ (7 * k)"
  shows "varint_loop buf len offset value [k..<5] = (LLPS_PROTOCOL_HANDSHAKE_VALID, offset', v) \<longleftrightarrow>
    varint_rest buf len k offset (unat value) offset' (unat v)"
  using assms
proof (induction "5 - k" arbitrary: k offset "value")
  case 0
  then show ?case by (simp add: varint_rest_end)
next
  case (Suc d)
  then have k: "k < 5" and upt: "[k..<5] = k # [Suc k..<5]" by (auto simp: upt_conv_Cons)
  let ?b = "buf ! offset"
  let ?x = "?b AND 0x7F"
  let ?v1 = "value OR push_bit (k * 7) (ucast ?x)"
  have x: "unat ?x = unat ?b mod 128" by (rule and_7F_mod)
  have wide: "unat (ucast ?x :: u32) = unat ?x" by (rule unat_ucast_u8)
  then have top: "(ucast ?x :: u32) > 0x0F \<longleftrightarrow> unat ?x > 15" by (simp add: word_less_nat_alt)
  note step = varint_rest_step [of buf len k offset]
  show ?case
  proof (cases "offset < len \<and> \<not> (k = 4 \<and> unat ?x > 15)")
    case False
    then show ?thesis
      using Suc.prems(2) unfolding upt step varint_loop.simps(2) Let_def top
      by (auto simp: x varint_rest_end)
  next
    case True
    have fits: "2 ^ (k * 7) * unat ?x < 2 ^ 32"
    proof (cases "k = 4")
      case False
      then have "(2 :: nat) ^ (k * 7) \<le> 2 ^ 21" using k by (intro power_increasing) auto
      moreover have "unat ?x < 128" by (simp add: x)
      ultimately have "2 ^ (k * 7) * unat ?x \<le> 2 ^ 21 * 128" by (intro mult_le_mono) auto
      then show ?thesis by (rule le_less_trans) simp
    qed (use True in simp)
    have new: "unat ?v1 = unat value + 2 ^ (7 * k) * unat ?x"
      using or_shifted [OF _ fits] Suc.prems(2) by (simp add: mult.commute)
    have short: "?v1 < push_bit (k * 7) 1 \<longleftrightarrow> unat ?x = 0"
      using k Suc.prems(2) by (cases "unat ?x") (auto simp: word_less_nat_alt new unat_one_shifted mult.commute)
    have less: "unat ?v1 < 2 ^ (7 * Suc k)"
      using varint_acc_less [OF Suc.prems(2), of "unat ?x"] by (simp add: new x)
    have IH: "varint_loop buf len (Suc offset) ?v1 [Suc k..<5] =
        (LLPS_PROTOCOL_HANDSHAKE_VALID, offset', v) \<longleftrightarrow>
      varint_rest buf len (Suc k) (Suc offset) (unat ?v1) offset' (unat v)"
      using Suc.hyps(2) k by (intro Suc.hyps(1) less) auto
    define w where "w = ?v1"
    have "unat w < 2 ^ 32" using unsigned_less [where 'a = nat, of w] by simp
    moreover have "w = v \<longleftrightarrow> unat v = unat w" by (auto simp: word_unat_eq_iff)
    ultimately have fin: "(Suc offset = offset' \<and> w = v) \<longleftrightarrow>
        unat v = unat w \<and> unat v < 2 ^ 32 \<and> offset' = Suc offset" by auto
    show ?thesis
      using True IH new x fin short unfolding upt step varint_loop.simps(2) Let_def top and_80_iff
        w_def [symmetric]
      by (cases "unat ?b < 128"; cases "k = 0"; cases "k = 4") simp_all
  qed
qed

lemma read_varint_valid_iff:
  "llps_protocol_read_varint buf len offset = (LLPS_PROTOCOL_HANDSHAKE_VALID, offset', v) \<longleftrightarrow>
     stands_at buf len offset (varint_encode (unat v)) \<and>
     offset' = offset + length (varint_encode (unat v))"
  unfolding llps_protocol_read_varint_def
  using unsigned_less [where 'a = nat, of v]
  by (subst varint_loop_valid_iff) (auto simp: varint_rest_def)

lemma varint_encode_length: "m < 2 ^ (7 * Suc k) \<Longrightarrow> length (varint_encode m) \<le> Suc k"
proof (induction k arbitrary: m)
  case 0
  then show ?case by (simp add: varint_encode_small)
next
  case (Suc k)
  have "m div 128 < 2 ^ (7 * Suc k)"
    using Suc.prems by (intro less_mult_imp_div_less) (simp add: power_add)
  from Suc.IH [OF this] show ?case by (simp add: varint_encode.simps [of m])
qed

lemma varint_encode_ne: "varint_encode m \<noteq> []"
  by (simp add: varint_encode.simps [of m])

section \<open>The fields of the packet\<close>

lemma stands_at_prefix:
  "stands_at buf packet_end offset xs \<Longrightarrow> packet_end \<le> len \<Longrightarrow> stands_at buf len offset xs"
  by (auto simp: stands_at_def)

lemma stands_at_shorter:
  "stands_at buf len offset xs \<Longrightarrow> offset + length xs \<le> packet_end \<Longrightarrow> stands_at buf packet_end offset xs"
  by (auto simp: stands_at_def)

text \<open>A field that is one number: what is read is the encoding of the number.\<close>

lemma ex_u32_iff:
  assumes "\<And>n. P n \<Longrightarrow> n < 2 ^ 32"
  shows "(\<exists>v :: u32. P (unat v)) \<longleftrightarrow> (\<exists>n. P n)"
proof
  assume "\<exists>n. P n"
  then obtain n where "P n" by blast
  then show "\<exists>v :: u32. P (unat v)"
    using assms [of n] by (intro exI [of _ "of_nat n"]) (simp add: unat_of_nat)
qed blast

lemma frame_valid_iff:
  "llps_protocol_read_packet_frame buf len 0 = (LLPS_PROTOCOL_HANDSHAKE_VALID, offset, packet_end) \<longleftrightarrow>
     (\<exists>n. 1 \<le> n \<and> n \<le> 1024 \<and> stands_at buf len 0 (varint_encode n) \<and>
          offset = length (varint_encode n) \<and> packet_end = offset + n \<and> packet_end \<le> len)"
  (is "?l \<longleftrightarrow> ?r")
proof -
  have small: "length (varint_encode n) \<le> 2" if "n \<le> 1024" for n
    using varint_encode_length [of n 1] that by simp
  have "?l \<longleftrightarrow> (\<exists>v :: u32. (1 \<le> unat v \<and> unat v \<le> 1024 \<and> stands_at buf len 0 (varint_encode (unat v)) \<and>
          offset = length (varint_encode (unat v)) \<and> packet_end = offset + unat v \<and> packet_end \<le> len))"
    (is "_ \<longleftrightarrow> (\<exists>v. ?P v)")
  proof
    assume ?l
    then show "\<exists>v. ?P v" 
      unfolding llps_protocol_read_packet_frame_def
      by (auto split: prod.splits if_splits simp: Let_def read_varint_valid_iff word_le_nat_alt unat_gt_0 not_less Suc_le_eq)
  next
    assume "\<exists>v. ?P v"
    then obtain v where v: "?P v" by blast
    then have "llps_protocol_read_varint buf len 0 = (LLPS_PROTOCOL_HANDSHAKE_VALID, length (varint_encode (unat v)), v)"
      by (simp add: read_varint_valid_iff)
    with v small [of "unat v"] show ?l
      unfolding llps_protocol_read_packet_frame_def
      by (auto simp: Let_def word_le_nat_alt unat_gt_0 not_less)
  qed
  also have "\<dots> \<longleftrightarrow> ?r" by (rule ex_u32_iff) auto
  finally show ?thesis .
qed

lemma number_field_iff:
  "(case llps_protocol_read_varint buf packet_end offset of (st, offset, v) \<Rightarrow>
      (if st = LLPS_PROTOCOL_HANDSHAKE_VALID \<and> Q v offset
       then LLPS_PROTOCOL_HANDSHAKE_VALID else LLPS_PROTOCOL_HANDSHAKE_INVALID, offset)) =
     (LLPS_PROTOCOL_HANDSHAKE_VALID, offset') \<longleftrightarrow>
   (\<exists>v. Q v offset' \<and> stands_at buf packet_end offset (varint_encode (unat v)) \<and>
        offset' = offset + length (varint_encode (unat v)))"
  (is "?l \<longleftrightarrow> ?r")
proof
  assume ?l
  then show ?r by (auto simp: read_varint_valid_iff split: prod.splits if_splits)
next
  assume ?r
  then obtain v where v: "Q v offset'" "stands_at buf packet_end offset (varint_encode (unat v))"
    "offset' = offset + length (varint_encode (unat v))" by blast
  then have "llps_protocol_read_varint buf packet_end offset = (LLPS_PROTOCOL_HANDSHAKE_VALID, offset', v)"
    by (simp add: read_varint_valid_iff)
  with v(1) show ?l by simp
qed

lemma packet_id_valid_iff:
  "llps_protocol_read_packet_id buf packet_end offset = (LLPS_PROTOCOL_HANDSHAKE_VALID, offset') \<longleftrightarrow>
     stands_at buf packet_end offset (varint_encode 0) \<and> offset' = offset + length (varint_encode 0)"
  unfolding llps_protocol_read_packet_id_def number_field_iff by auto

lemma version_valid_iff:
  "llps_protocol_read_protocol_version buf packet_end offset = (LLPS_PROTOCOL_HANDSHAKE_VALID, offset') \<longleftrightarrow>
     (\<exists>n. 1 \<le> n \<and> n < 2 ^ 31 \<and> stands_at buf packet_end offset (varint_encode n) \<and>
          offset' = offset + length (varint_encode n))"
proof -
  have "v \<noteq> 0 \<and> v \<le> 0x7FFFFFFF \<longleftrightarrow> 1 \<le> unat v \<and> unat v < 2 ^ 31" for v :: u32
    by (auto simp: word_le_nat_alt Suc_le_eq unat_gt_0)
  then have "llps_protocol_read_protocol_version buf packet_end offset =
      (LLPS_PROTOCOL_HANDSHAKE_VALID, offset') \<longleftrightarrow>
    (\<exists>v :: u32. 1 \<le> unat v \<and> unat v < 2 ^ 31 \<and>
       stands_at buf packet_end offset (varint_encode (unat v)) \<and>
       offset' = offset + length (varint_encode (unat v)))"
    unfolding llps_protocol_read_protocol_version_def number_field_iff [where Q = "\<lambda>v _. v \<noteq> 0 \<and> v \<le> 0x7FFFFFFF"]
    by simp
  also have "\<dots> \<longleftrightarrow> (\<exists>n. 1 \<le> n \<and> n < 2 ^ 31 \<and> stands_at buf packet_end offset (varint_encode n) \<and>
          offset' = offset + length (varint_encode n))"
    by (rule ex_u32_iff) auto
  finally show ?thesis .
qed

lemma next_state_valid_iff:
  "llps_protocol_read_next_state buf packet_end offset = (LLPS_PROTOCOL_HANDSHAKE_VALID, offset') \<longleftrightarrow>
     (\<exists>n. (n = 1 \<or> n = 2) \<and> stands_at buf packet_end offset (varint_encode n) \<and>
          offset' = packet_end \<and> packet_end = offset + length (varint_encode n))"
proof -
  have "v = 1 \<or> v = 2 \<longleftrightarrow> unat v = 1 \<or> unat v = 2" for v :: u32
    by (auto simp: word_unat_eq_iff)
  then have "llps_protocol_read_next_state buf packet_end offset =
      (LLPS_PROTOCOL_HANDSHAKE_VALID, offset') \<longleftrightarrow>
    (\<exists>v :: u32. (unat v = 1 \<or> unat v = 2) \<and>
       stands_at buf packet_end offset (varint_encode (unat v)) \<and>
       offset' = packet_end \<and> packet_end = offset + length (varint_encode (unat v)))"
    unfolding llps_protocol_read_next_state_def
      number_field_iff [where Q = "\<lambda>v o'. (v = 1 \<or> v = 2) \<and> o' = packet_end"]
    by auto
  also have "\<dots> \<longleftrightarrow> (\<exists>n. (n = 1 \<or> n = 2) \<and> stands_at buf packet_end offset (varint_encode n) \<and>
          offset' = packet_end \<and> packet_end = offset + length (varint_encode n))"
    by (rule ex_u32_iff) auto
  finally show ?thesis .
qed

text \<open>The address: a length, that many bytes, a port that is not zero and at least one byte more.\<close>

lemma address_valid_iff:
  "llps_protocol_skip_server_address buf packet_end offset = (LLPS_PROTOCOL_HANDSHAKE_VALID, offset') \<longleftrightarrow>
     (\<exists>addr hi lo. 1 \<le> length addr \<and> length addr \<le> 255 \<and> \<not> (hi = 0 \<and> lo = 0) \<and>
        stands_at buf packet_end offset (varint_encode (length addr) @ addr @ [hi, lo]) \<and>
        offset' = offset + length (varint_encode (length addr)) + length addr + 2 \<and> offset' < packet_end)"
  (is "?l \<longleftrightarrow> ?r")
proof
  assume ?l
  then obtain a v where v: "llps_protocol_read_varint buf packet_end offset = (LLPS_PROTOCOL_HANDSHAKE_VALID, a, v)"
    and *: "v \<noteq> 0" "v \<le> 255" "unat v \<le> packet_end - a" "\<not> packet_end - a - unat v < 3"
      "\<not> (buf ! (a + unat v) = 0 \<and> buf ! (a + unat v + 1) = 0)" "offset' = a + unat v + 2"
    unfolding llps_protocol_skip_server_address_def
    by (auto split: prod.splits if_splits simp: Let_def not_less)
  let ?addr = "map (\<lambda>i. buf ! (a + i)) [0..<unat v]"
  have len: "length ?addr = unat v" by simp
  have "stands_at buf packet_end a (?addr @ [buf ! (a + unat v), buf ! (a + unat v + 1)])"
    using *(3,4) by (auto simp: stands_at_append stands_at_Cons stands_at_Nil) (simp add: stands_at_def)
  with v * len show ?r
    unfolding read_varint_valid_iff
    by (intro exI [of _ ?addr] exI [of _ "buf ! (a + unat v)"] exI [of _ "buf ! (a + unat v + 1)"])
      (auto simp: stands_at_append word_le_nat_alt Suc_le_eq unat_gt_0)
next
  assume ?r
  then obtain addr hi lo where *: "1 \<le> length addr" "length addr \<le> 255" "\<not> (hi = 0 \<and> lo = 0)"
    "stands_at buf packet_end offset (varint_encode (length addr) @ addr @ [hi, lo])"
    "offset' = offset + length (varint_encode (length addr)) + length addr + 2" "offset' < packet_end"
    by blast
  let ?v = "of_nat (length addr) :: u32"
  let ?a = "offset + length (varint_encode (length addr))"
  have v: "unat ?v = length addr" using *(2) by (simp add: unat_of_nat)
  then have "llps_protocol_read_varint buf packet_end offset = (LLPS_PROTOCOL_HANDSHAKE_VALID, ?a, ?v)"
    using *(4) by (simp add: read_varint_valid_iff stands_at_append)
  moreover have "?v \<noteq> 0" "?v \<le> 255" using v *(1,2) by (auto simp: word_le_nat_alt word_unat_eq_iff)
  moreover have "buf ! (?a + length addr) = hi" "buf ! (?a + length addr + 1) = lo"
    using *(4) by (auto simp: stands_at_append stands_at_Cons)
  ultimately show ?l
    using *(3,5,6) v unfolding llps_protocol_skip_server_address_def by (auto simp: Let_def)
qed

section \<open>The verdict\<close>

lemma validate_valid_iff:
  "llps_protocol_handshake_validate buf len = LLPS_PROTOCOL_HANDSHAKE_VALID \<longleftrightarrow>
     len \<noteq> 0 \<and>
     (\<exists>o0 packet_end o1 o2 o3 o4.
        llps_protocol_read_packet_frame buf len 0 = (LLPS_PROTOCOL_HANDSHAKE_VALID, o0, packet_end) \<and>
        llps_protocol_read_packet_id buf packet_end o0 = (LLPS_PROTOCOL_HANDSHAKE_VALID, o1) \<and>
        llps_protocol_read_protocol_version buf packet_end o1 = (LLPS_PROTOCOL_HANDSHAKE_VALID, o2) \<and>
        llps_protocol_skip_server_address buf packet_end o2 = (LLPS_PROTOCOL_HANDSHAKE_VALID, o3) \<and>
        llps_protocol_read_next_state buf packet_end o3 = (LLPS_PROTOCOL_HANDSHAKE_VALID, o4))"
  unfolding llps_protocol_handshake_validate_def Let_def
  by (auto split: prod.splits if_splits)

lemma handshake_body_length:
  assumes "handshake_fields_ok version addr hi lo next_state"
  shows "1 \<le> length (handshake_body version addr hi lo next_state)"
    and "length (handshake_body version addr hi lo next_state) \<le> 266"
proof -
  have "length (varint_encode version) \<le> 5" "length (varint_encode (length addr)) \<le> 2"
    "length (varint_encode next_state) \<le> 1"
    using assms varint_encode_length [of version 4] varint_encode_length [of "length addr" 1]
      varint_encode_length [of next_state 0]
    by (auto simp: handshake_fields_ok_def)
  with assms show "1 \<le> length (handshake_body version addr hi lo next_state)"
    and "length (handshake_body version addr hi lo next_state) \<le> 266"
    by (auto simp: handshake_body_def handshake_fields_ok_def varint_encode_small)
qed

lemma handshake_valid_sound:
  assumes "llps_protocol_handshake_validate buf len = LLPS_PROTOCOL_HANDSHAKE_VALID"
  shows "\<exists>version addr port_hi port_lo next_state.
    handshake_fields_ok version addr port_hi port_lo next_state \<and>
    stands_at buf len 0 (handshake_packet version addr port_hi port_lo next_state)"
proof -
  from assms obtain o0 packet_end o1 o2 o3 o4 where
    reads: "llps_protocol_read_packet_frame buf len 0 = (LLPS_PROTOCOL_HANDSHAKE_VALID, o0, packet_end)"
      "llps_protocol_read_packet_id buf packet_end o0 = (LLPS_PROTOCOL_HANDSHAKE_VALID, o1)"
      "llps_protocol_read_protocol_version buf packet_end o1 = (LLPS_PROTOCOL_HANDSHAKE_VALID, o2)"
      "llps_protocol_skip_server_address buf packet_end o2 = (LLPS_PROTOCOL_HANDSHAKE_VALID, o3)"
      "llps_protocol_read_next_state buf packet_end o3 = (LLPS_PROTOCOL_HANDSHAKE_VALID, o4)"
    unfolding validate_valid_iff by blast
  from reads(1) obtain n where n: "stands_at buf len 0 (varint_encode n)" "o0 = length (varint_encode n)"
    "packet_end = o0 + n" "packet_end \<le> len"
    unfolding frame_valid_iff by blast
  note id0 = reads(2) [unfolded packet_id_valid_iff]
  from reads(3) obtain ver where ver: "1 \<le> ver" "ver < 2 ^ 31"
    "stands_at buf packet_end o1 (varint_encode ver)" "o2 = o1 + length (varint_encode ver)"
    unfolding version_valid_iff by blast
  from reads(4) obtain addr hi lo where addr: "1 \<le> length addr" "length addr \<le> 255" "\<not> (hi = 0 \<and> lo = 0)"
    "stands_at buf packet_end o2 (varint_encode (length addr) @ addr @ [hi, lo])"
    "o3 = o2 + length (varint_encode (length addr)) + length addr + 2"
    unfolding address_valid_iff by blast
  from reads(5) obtain ns where ns: "ns = 1 \<or> ns = 2" "stands_at buf packet_end o3 (varint_encode ns)"
    "packet_end = o3 + length (varint_encode ns)"
    unfolding next_state_valid_iff by blast
  let ?body = "handshake_body ver addr hi lo ns"
  have "stands_at buf packet_end o0 ?body"
    using id0 ver(3,4) addr(4,5) ns(2)
    by (simp add: handshake_body_def stands_at_append stands_at_Cons stands_at_Nil add.assoc)
  moreover have "n = length ?body"
    using n(3) ns(3) id0 ver(4) addr(5) by (simp add: handshake_body_def)
  ultimately have "stands_at buf len 0 (handshake_packet ver addr hi lo ns)"
    using n(1,2,4) by (simp add: handshake_packet_def stands_at_append stands_at_prefix)
  with ver(1,2) addr(1-3) ns(1) show ?thesis unfolding handshake_fields_ok_def by blast
qed

lemma handshake_valid_complete:
  assumes ok: "handshake_fields_ok ver addr hi lo ns"
    and at: "stands_at buf len 0 (handshake_packet ver addr hi lo ns)"
  shows "llps_protocol_handshake_validate buf len = LLPS_PROTOCOL_HANDSHAKE_VALID"
proof -
  let ?body = "handshake_body ver addr hi lo ns"
  let ?o0 = "length (varint_encode (length ?body))"
  let ?fin = "?o0 + length ?body"
  let ?o1 = "?o0 + length (varint_encode 0)"
  let ?o2 = "?o1 + length (varint_encode ver)"
  let ?o3 = "?o2 + length (varint_encode (length addr)) + length addr + 2"
  have frame: "stands_at buf len 0 (varint_encode (length ?body))" "?fin \<le> len"
    using at by (auto simp: handshake_packet_def stands_at_append stands_at_def [of buf len _ ?body])
  have "stands_at buf ?fin ?o0 ?body"
    by (rule stands_at_shorter [of buf len]) (use at in \<open>simp_all add: handshake_packet_def stands_at_append\<close>)
  then have parts: "stands_at buf ?fin ?o0 (varint_encode 0)" "stands_at buf ?fin ?o1 (varint_encode ver)"
    "stands_at buf ?fin ?o2 (varint_encode (length addr) @ addr @ [hi, lo])"
    "stands_at buf ?fin ?o3 (varint_encode ns)"
    unfolding handshake_body_def stands_at_append
    by (simp_all add: add.assoc stands_at_Cons stands_at_Nil)
  have fin_eq: "?fin = ?o3 + length (varint_encode ns)"
    by (simp add: handshake_body_def)
  then have "?o3 < ?fin" using varint_encode_ne [of ns] by (cases "varint_encode ns") auto
  have "llps_protocol_read_packet_frame buf len 0 = (LLPS_PROTOCOL_HANDSHAKE_VALID, ?o0, ?fin)"
    unfolding frame_valid_iff using frame handshake_body_length [OF ok] by auto
  moreover have "llps_protocol_read_packet_id buf ?fin ?o0 = (LLPS_PROTOCOL_HANDSHAKE_VALID, ?o1)"
    unfolding packet_id_valid_iff using parts(1) by simp
  moreover have "llps_protocol_read_protocol_version buf ?fin ?o1 = (LLPS_PROTOCOL_HANDSHAKE_VALID, ?o2)"
    unfolding version_valid_iff using parts(2) ok unfolding handshake_fields_ok_def by blast
  moreover have "llps_protocol_skip_server_address buf ?fin ?o2 = (LLPS_PROTOCOL_HANDSHAKE_VALID, ?o3)"
    unfolding address_valid_iff using parts(3) ok \<open>?o3 < ?fin\<close> unfolding handshake_fields_ok_def by blast
  moreover have "llps_protocol_read_next_state buf ?fin ?o3 = (LLPS_PROTOCOL_HANDSHAKE_VALID, ?fin)"
    unfolding next_state_valid_iff using parts(4) ok fin_eq unfolding handshake_fields_ok_def by blast
  moreover have "len \<noteq> 0" using frame(2) handshake_body_length(1) [OF ok] by auto
  ultimately show ?thesis unfolding validate_valid_iff by blast
qed

text \<open>
  C11: The gate lets a client through exactly when its first bytes are a well-formed handshake: the
  shortest length prefix, packet id zero, a protocol version from 1 to \<open>2 ^ 31 - 1\<close> in its shortest
  encoding, an address of 1 to 255 bytes, a port other than zero and next state 1 or 2, with no byte
  of the declared packet left over. Nothing malformed, truncated, padded or overlong is accepted,
  and no packet of the format is refused.
\<close>

theorem handshake_valid_iff:
  "llps_protocol_handshake_validate buf len = LLPS_PROTOCOL_HANDSHAKE_VALID \<longleftrightarrow>
     (\<exists>version addr port_hi port_lo next_state.
        handshake_fields_ok version addr port_hi port_lo next_state \<and>
        stands_at buf len 0 (handshake_packet version addr port_hi port_lo next_state))"
  using handshake_valid_sound handshake_valid_complete by blast

lemma stands_at_self:
  "length xs = length ys \<Longrightarrow>
     stands_at (pre @ xs @ post) (length (pre @ xs @ post)) (length pre) ys \<longleftrightarrow> xs = ys"
  by (auto simp: stands_at_def nth_append list_eq_iff_nth_eq)

text \<open>
  C35: The integer reader and the shortest encoding are inverse to each other: wherever the bytes
  stand in the buffer, they are read to their last byte as the number \<open>v\<close> exactly when they are the
  shortest encoding of \<open>v\<close>. Every 32 bit number is read back, and has one accepted spelling.
\<close>

theorem varint_roundtrip:
  "llps_protocol_read_varint (pre @ xs @ post) (length (pre @ xs @ post)) (length pre) =
     (LLPS_PROTOCOL_HANDSHAKE_VALID, length pre + length xs, v) \<longleftrightarrow> xs = varint_encode (unat v)"
  unfolding read_varint_valid_iff using stands_at_self [of xs "varint_encode (unat v)" pre post]
  by auto

lemma varint_loop_reads:
  "(\<And>i. i < len \<Longrightarrow> buf ! i = buf' ! i) \<Longrightarrow>
     varint_loop buf len offset value ks = varint_loop buf' len offset value ks"
  by (induction ks arbitrary: offset "value") (simp_all add: Let_def)

lemma varint_loop_longer:
  "fst (varint_loop buf len offset value ks) \<noteq> LLPS_PROTOCOL_HANDSHAKE_NEED_MORE \<Longrightarrow> len \<le> len' \<Longrightarrow>
     varint_loop buf len' offset value ks = varint_loop buf len offset value ks"
  by (induction ks arbitrary: offset "value") (auto simp: Let_def)

lemma varint_loop_need_more:
  "fst (varint_loop buf len offset value ks) = LLPS_PROTOCOL_HANDSHAKE_NEED_MORE \<Longrightarrow>
     len < offset + length ks"
  by (induction ks arbitrary: offset "value") (auto simp: Let_def split: if_splits, fastforce+)


lemma frame_bounds:
  assumes "llps_protocol_read_packet_frame buf len 0 = (st, offset, packet_end)"
    and "st = LLPS_PROTOCOL_HANDSHAKE_VALID"
  shows "packet_end \<le> len"
  using assms by (auto simp: frame_valid_iff)

lemma skip_reads:
  assumes "\<And>i. i < packet_end \<Longrightarrow> buf ! i = buf' ! i"
  shows "llps_protocol_skip_server_address buf packet_end offset =
    llps_protocol_skip_server_address buf' packet_end offset"
proof -
  have "llps_protocol_read_varint buf packet_end offset = llps_protocol_read_varint buf' packet_end offset"
    unfolding llps_protocol_read_varint_def by (rule varint_loop_reads) (rule assms)
  moreover have "buf ! (a + n) = buf' ! (a + n)" "buf ! (a + n + 1) = buf' ! (a + n + 1)"
    if "n \<le> packet_end - a" "\<not> packet_end - a - n < 3" for a n
    using that by (auto intro!: assms)
  ultimately show ?thesis
    unfolding llps_protocol_skip_server_address_def
    by (auto simp: Let_def split: prod.splits)
qed

lemma validate_reads:
  assumes "\<And>i. i < len \<Longrightarrow> buf ! i = buf' ! i"
  shows "llps_protocol_handshake_validate buf len = llps_protocol_handshake_validate buf' len"
proof -
  have varint: "llps_protocol_read_varint buf n offset = llps_protocol_read_varint buf' n offset"
    if "n \<le> len" for n offset
    unfolding llps_protocol_read_varint_def using that assms by (auto intro: varint_loop_reads)
  obtain st offset packet_end where
    frame: "llps_protocol_read_packet_frame buf len 0 = (st, offset, packet_end)"
    by (metis surj_pair)
  then have frame': "llps_protocol_read_packet_frame buf' len 0 = (st, offset, packet_end)"
    unfolding llps_protocol_read_packet_frame_def varint [OF order_refl] .
  show ?thesis
  proof (cases "st = LLPS_PROTOCOL_HANDSHAKE_VALID")
    case True
    then have "packet_end \<le> len" using frame frame_bounds by blast
    then have fields: "llps_protocol_read_packet_id buf packet_end = llps_protocol_read_packet_id buf' packet_end"
      "llps_protocol_read_protocol_version buf packet_end = llps_protocol_read_protocol_version buf' packet_end"
      "llps_protocol_skip_server_address buf packet_end = llps_protocol_skip_server_address buf' packet_end"
      "llps_protocol_read_next_state buf packet_end = llps_protocol_read_next_state buf' packet_end"
      using assms
      by (auto simp: fun_eq_iff llps_protocol_read_packet_id_def llps_protocol_read_protocol_version_def
          llps_protocol_read_next_state_def varint intro!: skip_reads)
    show ?thesis
      unfolding llps_protocol_handshake_validate_def frame frame' Let_def prod.case fields ..
  qed (simp add: llps_protocol_handshake_validate_def frame frame')
qed

text \<open>
  C37: The verdict depends on the received bytes only: two buffers that agree below the fill level
  get the same verdict, so the parser reads nothing behind the received bytes.
\<close>

theorem handshake_reads_received:
  assumes "\<And>i. i < len \<Longrightarrow> buf ! i = buf' ! i"
  shows "llps_protocol_handshake_validate buf len = llps_protocol_handshake_validate buf' len"
  using assms by (rule validate_reads)

lemma later_fields_decide:
  "fst (llps_protocol_read_packet_id buf packet_end offset) \<noteq> LLPS_PROTOCOL_HANDSHAKE_NEED_MORE"
  "fst (llps_protocol_read_protocol_version buf packet_end offset) \<noteq> LLPS_PROTOCOL_HANDSHAKE_NEED_MORE"
  "fst (llps_protocol_skip_server_address buf packet_end offset) \<noteq> LLPS_PROTOCOL_HANDSHAKE_NEED_MORE"
  "fst (llps_protocol_read_next_state buf packet_end offset) \<noteq> LLPS_PROTOCOL_HANDSHAKE_NEED_MORE"
  by (simp_all add: llps_protocol_read_packet_id_def llps_protocol_read_protocol_version_def
      llps_protocol_skip_server_address_def llps_protocol_read_next_state_def Let_def split: prod.split)

lemma validate_need_more_iff:
  "llps_protocol_handshake_validate buf len = LLPS_PROTOCOL_HANDSHAKE_NEED_MORE \<longleftrightarrow>
     len = 0 \<or> fst (llps_protocol_read_packet_frame buf len 0) = LLPS_PROTOCOL_HANDSHAKE_NEED_MORE"
  using later_fields_decide unfolding llps_protocol_handshake_validate_def Let_def
  by (auto split: prod.splits if_splits) (metis fst_conv)+

lemma frame_longer:
  assumes "fst (llps_protocol_read_packet_frame buf len offset) \<noteq> LLPS_PROTOCOL_HANDSHAKE_NEED_MORE"
    and "len \<le> len'"
  shows "llps_protocol_read_packet_frame buf len' offset = llps_protocol_read_packet_frame buf len offset"
proof -
  have "fst (llps_protocol_read_varint buf len offset) \<noteq> LLPS_PROTOCOL_HANDSHAKE_NEED_MORE"
    using assms(1) by (auto simp: llps_protocol_read_packet_frame_def split: prod.splits)
  then have "llps_protocol_read_varint buf len' offset = llps_protocol_read_varint buf len offset"
    using assms(2) unfolding llps_protocol_read_varint_def by (rule varint_loop_longer)
  with assms show ?thesis
    by (auto simp: llps_protocol_read_packet_frame_def Let_def split: prod.splits if_splits)
qed

lemma frame_need_more:
  assumes "fst (llps_protocol_read_packet_frame buf len 0) = LLPS_PROTOCOL_HANDSHAKE_NEED_MORE"
  shows "len < 1026"
proof -
  obtain st offset n where v: "llps_protocol_read_varint buf len 0 = (st, offset, n)" by (metis surj_pair)
  consider "st = LLPS_PROTOCOL_HANDSHAKE_NEED_MORE"
    | "st = LLPS_PROTOCOL_HANDSHAKE_VALID" "unat n \<le> 1024" "len < offset + unat n"
    using assms v
    by (auto simp: llps_protocol_read_packet_frame_def Let_def word_le_nat_alt not_less split: if_splits)
  then show ?thesis
  proof cases
    case 1
    with v have "len < 0 + length [0..<5]"
      unfolding llps_protocol_read_varint_def by (intro varint_loop_need_more [of buf _ _ 0]) simp
    then show ?thesis by simp
  next
    case 2
    with v have "offset = length (varint_encode (unat n))" by (simp add: read_varint_valid_iff)
    also have "\<dots> \<le> 2" using 2(2) varint_encode_length [of "unat n" 1] by simp
    finally show ?thesis using 2 by simp
  qed
qed

lemma validate_longer:
  assumes "llps_protocol_handshake_validate buf len \<noteq> LLPS_PROTOCOL_HANDSHAKE_NEED_MORE" "len \<le> len'"
  shows "llps_protocol_handshake_validate buf len' = llps_protocol_handshake_validate buf len"
proof -
  from assms have "llps_protocol_read_packet_frame buf len' 0 = llps_protocol_read_packet_frame buf len 0" "len \<noteq> 0"
    by (auto simp: validate_need_more_iff intro: frame_longer)
  with assms(2) show ?thesis by (simp add: llps_protocol_handshake_validate_def)
qed

text \<open>
  No packet of the format is a proper beginning of another, so a packet that has only partly arrived
  is neither refused nor taken for a shorter one.
\<close>

lemma varint_encode_prefix: "varint_encode m @ x = varint_encode n @ y \<Longrightarrow> m = n"
proof (induction m arbitrary: n rule: varint_encode.induct)
  case (1 m)
  have small: "unat (of_nat (if k < 128 then k else 128 + k mod 128) :: u8) =
      (if k < 128 then k else 128 + k mod 128)" for k :: nat
    by (rule unat_u8_of_nat) (auto intro: order.strict_trans2 [of _ "128 + 128"])
  have hd: "hd (varint_encode k) = of_nat (if k < 128 then k else 128 + k mod 128)" for k
    by (subst varint_encode.simps) simp
  have "hd (varint_encode m) = hd (varint_encode n)"
    using 1(2) varint_encode_ne by (metis hd_append2)
  then have first: "(if m < 128 then m else 128 + m mod 128) = (if n < 128 then n else 128 + n mod 128)"
    unfolding hd by (metis small)
  show ?case
  proof (cases "m < 128")
    case True
    then show ?thesis using first by (auto split: if_splits)
  next
    case False
    then have big: "\<not> n < 128" "m mod 128 = n mod 128" using first by (auto split: if_splits)
    then have "varint_encode (m div 128) @ x = varint_encode (n div 128) @ y"
      using 1(2) False varint_encode.simps [of m] varint_encode.simps [of n] by simp
    then have "m div 128 = n div 128" by (rule 1(1) [OF False])
    then show ?thesis using big(2) div_mult_mod_eq [of m 128] div_mult_mod_eq [of n 128] by metis
  qed
qed

lemma handshake_packet_prefix:
  assumes "handshake_packet ver addr hi lo ns = handshake_packet ver' addr' hi' lo' ns' @ z"
  shows "z = []"
proof -
  let ?b = "handshake_body ver addr hi lo ns" and ?b' = "handshake_body ver' addr' hi' lo' ns'"
  have eq: "varint_encode (length ?b) @ ?b = varint_encode (length ?b') @ (?b' @ z)"
    using assms by (simp add: handshake_packet_def)
  then have "length ?b = length ?b'" by (rule varint_encode_prefix)
  moreover from this eq have "?b = ?b' @ z" by simp
  ultimately show ?thesis by simp
qed

lemma handshake_incomplete:
  assumes ok: "handshake_fields_ok ver addr hi lo ns"
    and len: "len < length (handshake_packet ver addr hi lo ns)"
    and at: "\<And>i. i < len \<Longrightarrow> buf ! i = handshake_packet ver addr hi lo ns ! i"
  shows "llps_protocol_handshake_validate buf len = LLPS_PROTOCOL_HANDSHAKE_NEED_MORE"
proof (rule ccontr)
  let ?p = "handshake_packet ver addr hi lo ns"
  assume "llps_protocol_handshake_validate buf len \<noteq> LLPS_PROTOCOL_HANDSHAKE_NEED_MORE"
  then have early: "llps_protocol_handshake_validate ?p len \<noteq> LLPS_PROTOCOL_HANDSHAKE_NEED_MORE"
    using validate_reads [OF at] by simp
  have "llps_protocol_handshake_validate ?p (length ?p) = LLPS_PROTOCOL_HANDSHAKE_VALID"
    by (rule handshake_valid_complete [OF ok]) (simp add: stands_at_def)
  then have "llps_protocol_handshake_validate ?p len = LLPS_PROTOCOL_HANDSHAKE_VALID"
    using validate_longer [OF early, of "length ?p"] len by simp
  then obtain ver' addr' hi' lo' ns' where
    at': "stands_at ?p len 0 (handshake_packet ver' addr' hi' lo' ns')" (is "stands_at _ _ _ ?q")
    using handshake_valid_sound by blast
  then have "take (length ?q) ?p = ?q"
    using len by (intro nth_equalityI) (auto simp: stands_at_def)
  then have "?p = ?q @ drop (length ?q) ?p" by (metis append_take_drop_id)
  then have "drop (length ?q) ?p = []" by (rule handshake_packet_prefix)
  then show False using at' len by (simp add: stands_at_def)
qed

text \<open>
  C36: The gate always decides: once 1026 bytes have arrived the verdict is no longer "need more", and
  a verdict once given is not changed by bytes that arrive later.
\<close>

theorem handshake_decides:
  "(len \<ge> 1026 \<longrightarrow> llps_protocol_handshake_validate buf len \<noteq> LLPS_PROTOCOL_HANDSHAKE_NEED_MORE) \<and>
   (llps_protocol_handshake_validate buf len \<noteq> LLPS_PROTOCOL_HANDSHAKE_NEED_MORE \<longrightarrow> len \<le> len' \<longrightarrow>
      llps_protocol_handshake_validate buf len' = llps_protocol_handshake_validate buf len)"
proof (intro conjI impI)
  assume "len \<ge> 1026"
  then show "llps_protocol_handshake_validate buf len \<noteq> LLPS_PROTOCOL_HANDSHAKE_NEED_MORE"
    using frame_need_more [of buf len] by (auto simp: validate_need_more_iff)
next
  assume "llps_protocol_handshake_validate buf len \<noteq> LLPS_PROTOCOL_HANDSHAKE_NEED_MORE" "len \<le> len'"
  then show "llps_protocol_handshake_validate buf len' = llps_protocol_handshake_validate buf len"
    by (rule validate_longer)
qed

text \<open>A status handshake for the host "a.b", port 25565, protocol version 765, and a byte behind it.\<close>

definition sample_handshake :: "u8 list" where
  "sample_handshake = [0x0A, 0, 0xFD, 0x05, 3, 0x61, 0x2E, 0x62, 0x63, 0xDD, 1, 0xFF]"

lemma sample_handshake_valid:
  "llps_protocol_handshake_validate sample_handshake 11 = LLPS_PROTOCOL_HANDSHAKE_VALID"
proof (rule handshake_valid_complete)
  show "handshake_fields_ok 765 [0x61, 0x2E, 0x62] 0x63 0xDD 1"
    by (simp add: handshake_fields_ok_def)
  show "stands_at sample_handshake 11 0 (handshake_packet 765 [0x61, 0x2E, 0x62] 0x63 0xDD 1)"
    by (simp add: handshake_packet_def handshake_body_def sample_handshake_def varint_encode_small
        varint_encode.simps [of 765] stands_at_Cons stands_at_Nil)
qed

theorem handshake_decides_witness:
  "llps_protocol_handshake_validate sample_handshake 12 = LLPS_PROTOCOL_HANDSHAKE_VALID \<and>
   llps_protocol_handshake_validate sample_handshake 2000 \<noteq> LLPS_PROTOCOL_HANDSHAKE_NEED_MORE"
  using handshake_decides [of 11 sample_handshake 12] handshake_decides [of 2000 sample_handshake 2000]
  unfolding sample_handshake_valid by simp

theorem handshake_reads_received_witness:
  "llps_protocol_handshake_validate (sample_handshake @ [7]) 11 =
     llps_protocol_handshake_validate sample_handshake 11"
  by (rule handshake_reads_received) (simp add: nth_append, simp add: sample_handshake_def)

end
