(* ===== verification/Connection.thy ===== *)
theory Connection
  imports Pump Handshake
begin

text \<open>
  The task of a connection, from \<^verbatim>\<open>src/core/llps_state.c\<close>: the first bytes of the client under the
  handshake gate, the connection to the backend, sending those bytes, and starting the two pumps.
  What the descriptors and the runtime answer, and what other tasks and upsets do to memory while the
  task waits, are arguments. Log output is left out; a failure reason is its text.
\<close>

section \<open>Definitions\<close>

definition llps_build_backend_addr :: "bool \<Rightarrow> server_state \<Rightarrow> llps_status_t \<times> server_state" where
  "llps_build_backend_addr g_backend_addr_valid sv =
     (case sv_reconcile_cfg sv of
        (False, sv) \<Rightarrow> (LLPS_E_STATE, sv)
      | (True, sv) \<Rightarrow> (if \<not> g_backend_addr_valid then LLPS_E_STATE else LLPS_OK, sv))"

subsection \<open>The first bytes of the client\<close>

abbreviation LLPS_CLIENT_PREFACE_TIMEOUT_REASON :: string where
  "LLPS_CLIENT_PREFACE_TIMEOUT_REASON \<equiv> ''client_preface_timeout''"

abbreviation LLPS_PROTOCOL_HANDSHAKE_INVALID_REASON :: string where
  "LLPS_PROTOCOL_HANDSHAKE_INVALID_REASON \<equiv> ''protocol_handshake_invalid''"

text \<open>
  The errors of a read that the code tells apart, and what a read returns. A refused call leaves the
  \<^verbatim>\<open>errno\<close> of an earlier one.
\<close>

datatype read_errno = Timed_out | Would_block | Other_errno

datatype ready_answer = Ready_bytes "u8 list" | Ready_error read_errno

definition llps_llam_read_when_ready_checked ::
    "ready_answer \<Rightarrow> read_errno \<Rightarrow> (server_state \<Rightarrow> server_state) \<Rightarrow> c_int \<Rightarrow> u64 \<Rightarrow> c_int \<Rightarrow> server_state \<Rightarrow>
     ready_answer \<times> server_state" where
  "llps_llam_read_when_ready_checked answer stale_errno wait fd count timeout_ms sv =
     (if \<not> llps_fd_is_valid fd \<or> count = 0 \<or> count > 0x7FFFFFFFFFFFFFFF \<or> sint timeout_ms < -1
      then (Ready_error stale_errno, sv_violation sv)
      else (case answer of
              Ready_bytes bs \<Rightarrow> (answer, wait sv)
            | Ready_error e \<Rightarrow> (answer, snd (unless_stopping (e \<noteq> Timed_out) (wait sv)))))"

text \<open>What one turn of the read loop meets: clock readings, the read, and what happens to the server before
  the turn and while the read waits.\<close>

record preface_answer =
  pr_before :: "server_state \<Rightarrow> server_state"
  pr_now :: u64
  pr_wait :: "server_state \<Rightarrow> server_state"
  pr_read :: ready_answer
  pr_stale :: read_errno
  pr_touch :: u64

definition preface_room :: "nat \<Rightarrow> server_state \<Rightarrow> u64" where
  "preface_room len sv = ucast (buffer_size (sv_cfg sv)) - of_nat len"

definition preface_store :: "nat \<Rightarrow> nat \<Rightarrow> u8 list \<Rightarrow> server_state \<Rightarrow> server_state" where
  "preface_store n off bs sv =
     (let s = sv_session n sv
      in sv_put_session n (s\<lparr>se_c2s_buf := take off (se_c2s_buf s) @ bs @ drop (off + length bs) (se_c2s_buf s)\<rparr>) sv)"

definition llps_client_preface_seal :: "buffer_layout \<Rightarrow> nat \<Rightarrow> nat \<Rightarrow> server_state \<Rightarrow> string option \<times> server_state" where
  "llps_client_preface_seal ly n len sv =
     (if payload_ecc_enabled (sv_cfg sv) = 0 then (None, sv)
      else
        (let preface_pump = \<lparr>pa_session = ly_session ly n, pa_src_fd = 0, pa_dst_fd = 0, pa_buf = ly_c2s_buf ly n,
               pa_buf_len = ucast (buffer_size (sv_cfg sv)), pa_direction = LLPS_DIR_C2S\<rparr>;
             s = sv_session n sv;
             (sealed, buf, ecc) = llps_payload_ecc_seal (se_c2s_buf s) len (unat (buffer_size (sv_cfg sv)))
               (se_c2s_payload_ecc s) LLPS_PAYLOAD_ECC_WORD_COUNT;
             sv = sv_put_session n (s\<lparr>se_c2s_buf := buf, se_c2s_payload_ecc := ecc\<rparr>) sv
         in if \<not> sealed then (Some ''client_preface_payload_ecc'', sv)
            else (case llps_payload_ecc_set_len_for_pump ly n preface_pump len sv of
                    (ok, sv) \<Rightarrow> (if ok then None else Some ''client_preface_payload_ecc'', sv))))"

definition llps_client_preface_deadline_ns :: "u64 \<Rightarrow> u32 \<Rightarrow> server_state \<Rightarrow> u64 \<times> server_state" where
  "llps_client_preface_deadline_ns now timeout_ms sv =
     (case llps_llam_now_ns_checked now (sv_rs sv) of
        (start_ns, rs) \<Rightarrow>
          (let timeout_ns = ucast timeout_ms * LLPS_NSEC_PER_MSEC
           in (if UINT64_MAX - start_ns < timeout_ns then UINT64_MAX else start_ns + timeout_ns, sv\<lparr>sv_rs := rs\<rparr>)))"

definition remaining_ms :: "u64 \<Rightarrow> u64" where
  "remaining_ms remaining_ns =
     (let ms = remaining_ns div LLPS_NSEC_PER_MSEC;
          ms = (if remaining_ns mod LLPS_NSEC_PER_MSEC \<noteq> 0 then ms + 1 else ms)
      in if ms = 0 then 1 else ms)"

definition llps_client_preface_read_timeout_ms ::
    "u64 \<Rightarrow> u64 \<Rightarrow> server_state \<Rightarrow> (string option \<times> c_int) \<times> server_state" where
  "llps_client_preface_read_timeout_ms now deadline_ns sv =
     (case llps_llam_now_ns_checked now (sv_rs sv) of
        (now_ns, rs) \<Rightarrow>
          (if now_ns \<ge> deadline_ns then (Some LLPS_CLIENT_PREFACE_TIMEOUT_REASON, 0)
           else (None, if remaining_ms (deadline_ns - now_ns) > 0x7FFFFFFF then 0x7FFFFFFF
                       else ucast (remaining_ms (deadline_ns - now_ns))), sv\<lparr>sv_rs := rs\<rparr>))"

text \<open>The results are the reason, whether bytes came, their number so far and the server.\<close>

definition llps_client_preface_read_chunk ::
    "preface_answer \<Rightarrow> nat \<Rightarrow> nat \<Rightarrow> c_int \<Rightarrow> server_state \<Rightarrow> string option \<times> bool \<times> nat \<times> server_state" where
  "llps_client_preface_read_chunk pa n out_len read_timeout_ms sv =
     (let fd = se_client_fd (sv_session n sv); count = preface_room out_len sv
      in case llps_llam_read_when_ready_checked (pr_read pa) (pr_stale pa) (pr_wait pa) fd count read_timeout_ms sv of
           (Ready_bytes bs, sv) \<Rightarrow>
             (let sv = preface_store n out_len bs sv
              in if bs = [] then (Some ''client_preface_eof'', False, out_len, sv)
                 else if length bs > unat (preface_room out_len sv)
                 then (Some ''client_preface_contract'', False, out_len, sv_violation sv)
                 else (None, True, out_len + length bs, llps_session_touch n (pr_touch pa) sv))
         | (Ready_error Timed_out, sv) \<Rightarrow> (Some LLPS_CLIENT_PREFACE_TIMEOUT_REASON, False, out_len, sv)
         | (Ready_error Would_block, sv) \<Rightarrow> (None, False, out_len, sv)
         | (Ready_error Other_errno, sv) \<Rightarrow> (Some ''client_preface_read'', False, out_len, sv))"

definition llps_client_preface_check_gate :: "nat \<Rightarrow> nat \<Rightarrow> bool \<Rightarrow> server_state \<Rightarrow> string option \<times> bool" where
  "llps_client_preface_check_gate n len protocol_gate_enabled sv =
     (if \<not> protocol_gate_enabled then (None, True)
      else (case llps_protocol_handshake_validate (se_c2s_buf (sv_session n sv)) len of
              LLPS_PROTOCOL_HANDSHAKE_NEED_MORE \<Rightarrow>
                (if len \<ge> unat (buffer_size (sv_cfg sv)) then (Some LLPS_PROTOCOL_HANDSHAKE_INVALID_REASON, False)
                 else (None, False))
            | LLPS_PROTOCOL_HANDSHAKE_INVALID \<Rightarrow> (Some LLPS_PROTOCOL_HANDSHAKE_INVALID_REASON, False)
            | LLPS_PROTOCOL_HANDSHAKE_VALID \<Rightarrow> (None, True)))"

definition llps_client_preface_load_config :: "server_state \<Rightarrow> (string option \<times> u32 \<times> bool) \<times> server_state" where
  "llps_client_preface_load_config sv =
     (case sv_reconcile_cfg sv of
        (False, sv) \<Rightarrow> ((Some ''client_preface_config'', 0, False), sv)
      | (True, sv) \<Rightarrow> ((None, client_preface_timeout_ms (sv_cfg sv), protocol_handshake_gate_enabled (sv_cfg sv) \<noteq> 0), sv))"

definition llps_client_preface_read_cycle ::
    "preface_answer \<Rightarrow> nat \<Rightarrow> nat \<Rightarrow> u64 \<Rightarrow> bool \<Rightarrow> server_state \<Rightarrow> string option \<times> bool \<times> nat \<times> server_state" where
  "llps_client_preface_read_cycle pa n out_len deadline_ns protocol_gate_enabled sv =
     (case llps_client_preface_read_timeout_ms (pr_now pa) deadline_ns sv of
        ((Some reason, _), sv) \<Rightarrow> (Some reason, False, out_len, sv)
      | ((None, read_timeout_ms), sv) \<Rightarrow>
          if out_len \<ge> unat (buffer_size (sv_cfg sv))
          then (Some (if protocol_gate_enabled then LLPS_PROTOCOL_HANDSHAKE_INVALID_REASON else ''client_preface_contract''),
                False, out_len, sv)
          else
            (case llps_client_preface_read_chunk pa n out_len read_timeout_ms sv of
               (reason, read_progress, out_len, sv) \<Rightarrow>
                 if reason \<noteq> None \<or> \<not> read_progress then (reason, False, out_len, sv)
                 else (case llps_client_preface_check_gate n out_len protocol_gate_enabled sv of
                         (reason, complete) \<Rightarrow> (reason, complete, out_len, sv))))"

text \<open>The loop over the turns; \<open>answers read_cycle\<close> is what the turn meets.\<close>

fun preface_read_loop ::
    "buffer_layout \<Rightarrow> (nat \<Rightarrow> preface_answer) \<Rightarrow> nat \<Rightarrow> u64 \<Rightarrow> bool \<Rightarrow> nat \<Rightarrow> nat \<Rightarrow> nat \<Rightarrow> server_state \<Rightarrow>
     string option \<times> nat \<times> server_state" where
  "preface_read_loop ly answers n deadline_ns gate read_cycle 0 out_len sv = (Some ''client_preface_retry'', out_len, sv)"
| "preface_read_loop ly answers n deadline_ns gate read_cycle (Suc cycles) out_len sv =
     (case llps_client_preface_read_cycle (answers read_cycle) n out_len deadline_ns gate (pr_before (answers read_cycle) sv) of
        (Some reason, _, out_len, sv) \<Rightarrow> (Some reason, out_len, sv)
      | (None, preface_complete, out_len, sv) \<Rightarrow>
          if preface_complete
          then (case llps_client_preface_seal ly n out_len sv of (reason, sv) \<Rightarrow> (reason, out_len, sv))
          else preface_read_loop ly answers n deadline_ns gate (Suc read_cycle) cycles out_len sv)"

definition llps_client_preface_read ::
    "buffer_layout \<Rightarrow> u64 \<Rightarrow> (nat \<Rightarrow> preface_answer) \<Rightarrow> nat \<Rightarrow> server_state \<Rightarrow> string option \<times> nat \<times> server_state" where
  "llps_client_preface_read ly start_now answers n sv =
     (case llps_client_preface_load_config sv of
        ((Some reason, _, _), sv) \<Rightarrow> (Some reason, 0, sv)
      | ((None, timeout_ms, protocol_gate_enabled), sv) \<Rightarrow>
          if timeout_ms = 0 then (None, 0, sv)
          else (case llps_client_preface_deadline_ns start_now timeout_ms sv of
                  (deadline_ns, sv) \<Rightarrow>
                    preface_read_loop ly answers n deadline_ns protocol_gate_enabled 0 LLPS_SOCKET_IO_STEP_MAX 0 sv))"

subsection \<open>Sending them to the backend\<close>

text \<open>The progress: the offset, the retries and the bytes \<^verbatim>\<open>send\<close> has taken.\<close>

record flush_progress =
  fp_off :: nat
  fp_retry_count :: u32
  fp_sent :: "u8 list"

definition llps_backend_preface_flush_validate :: "nat \<Rightarrow> server_state \<Rightarrow> string option" where
  "llps_backend_preface_flush_validate len sv =
     (if len > unat (buffer_size (sv_cfg sv)) then Some ''client_preface_flush_contract'' else None)"

definition llps_backend_preface_repair_payload :: "nat \<Rightarrow> nat \<Rightarrow> server_state \<Rightarrow> string option \<times> server_state" where
  "llps_backend_preface_repair_payload n len sv =
     (if payload_ecc_enabled (sv_cfg sv) = 0 then (None, sv)
      else
        (let s = sv_session n sv;
             (repaired, buf, ecc, sc) = llps_payload_ecc_repair (se_c2s_buf s) len (unat (buffer_size (sv_cfg sv)))
               (se_c2s_payload_ecc s) LLPS_PAYLOAD_ECC_WORD_COUNT (sv_counters sv)
         in (if repaired then None else Some ''client_preface_payload_ecc'',
             sv_set_counters sc (sv_put_session n (s\<lparr>se_c2s_buf := buf, se_c2s_payload_ecc := ecc\<rparr>) sv))))"

definition llps_backend_preface_wait_writable ::
    "c_int \<Rightarrow> c_int \<Rightarrow> flush_progress \<Rightarrow> server_state \<Rightarrow> string option \<times> flush_progress \<times> server_state" where
  "llps_backend_preface_wait_writable poll_rc backend_fd fp sv =
     (if fp_retry_count fp \<ge> LLPS_IO_RETRY_BUDGET then (Some ''client_preface_flush_retry'', fp, sv)
      else (case llps_llam_poll_fd_checked poll_rc backend_fd POLLOUT 10 sv of
              (rc, sv) \<Rightarrow>
                (if sint rc < 0 then Some ''client_preface_flush_poll'' else None,
                 fp\<lparr>fp_retry_count := fp_retry_count fp + 1\<rparr>, sv)))"

definition llps_backend_preface_flush_step ::
    "send_answer \<Rightarrow> nat \<Rightarrow> nat \<Rightarrow> flush_progress \<Rightarrow> server_state \<Rightarrow> string option \<times> flush_progress \<times> server_state" where
  "llps_backend_preface_flush_step answer n len fp sv =
     (let remain = len - fp_off fp
      in case llps_backend_preface_repair_payload n len sv of
           (Some reason, sv) \<Rightarrow> (Some reason, fp, sv)
         | (None, sv) \<Rightarrow>
             (case answer of
                Send_blocked poll_rc \<Rightarrow>
                  llps_backend_preface_wait_writable poll_rc (se_backend_fd (sv_session n sv)) fp sv
              | Send_failed \<Rightarrow> (Some ''client_preface_flush'', fp, sv)
              | Sent w \<Rightarrow>
                  if w = 0 then (Some ''client_preface_flush_zero'', fp, sv)
                  else if w > remain then (Some ''client_preface_flush_contract'', fp, sv_violation sv)
                  else (None, fp\<lparr>fp_off := fp_off fp + w,
                          fp_sent := fp_sent fp @ take w (drop (fp_off fp) (se_c2s_buf (sv_session n sv)))\<rparr>, sv)))"

fun preface_flush_loop ::
    "(nat \<Rightarrow> write_answer) \<Rightarrow> nat \<Rightarrow> nat \<Rightarrow> nat \<Rightarrow> nat \<Rightarrow> flush_progress \<Rightarrow> server_state \<Rightarrow>
     string option \<times> flush_progress \<times> server_state" where
  "preface_flush_loop answers n len io_step 0 fp sv = (None, fp, sv)"
| "preface_flush_loop answers n len io_step (Suc steps) fp sv =
     (if \<not> fp_off fp < len then (None, fp, sv)
      else (case llps_backend_preface_flush_step (wa_send (answers io_step)) n len fp (wa_before (answers io_step) sv) of
              (Some reason, fp, sv) \<Rightarrow> (Some reason, fp, sv)
            | (None, fp, sv) \<Rightarrow> preface_flush_loop answers n len (Suc io_step) steps fp sv))"

text \<open>The reason, the bytes sent and the server.\<close>

definition llps_backend_preface_flush ::
    "(nat \<Rightarrow> write_answer) \<Rightarrow> u64 \<Rightarrow> nat \<Rightarrow> nat \<Rightarrow> server_state \<Rightarrow> string option \<times> u8 list \<times> server_state" where
  "llps_backend_preface_flush answers touch_now n len sv =
     (case llps_backend_preface_flush_validate len sv of
        Some reason \<Rightarrow> (Some reason, [], sv)
      | None \<Rightarrow>
          if len = 0 then (None, [], sv)
          else (case preface_flush_loop answers n len 0 LLPS_SOCKET_IO_STEP_MAX
                       \<lparr>fp_off = 0, fp_retry_count = 0, fp_sent = []\<rparr> sv of
                  (Some reason, fp, sv) \<Rightarrow> (Some reason, fp_sent fp, sv)
                | (None, fp, sv) \<Rightarrow>
                    if fp_off fp < len then (Some ''client_preface_flush_retry'', fp_sent fp, sv)
                    else (None, fp_sent fp, llps_session_touch n touch_now sv)))"

subsection \<open>Connecting to the backend\<close>

text \<open>The \<^verbatim>\<open>revents\<close> of a poll and what \<^verbatim>\<open>getsockopt\<close> gives.\<close>

record connect_answer =
  cn_before :: "server_state \<Rightarrow> server_state"
  cn_poll_rc :: c_int
  cn_revents :: u16
  cn_sockopt_rc :: c_int
  cn_so_error :: c_int

abbreviation POLLERR :: u16 where "POLLERR \<equiv> 0x8"
abbreviation POLLHUP :: u16 where "POLLHUP \<equiv> 0x10"
abbreviation POLLNVAL :: u16 where "POLLNVAL \<equiv> 0x20"
abbreviation EINPROGRESS :: c_int where "EINPROGRESS \<equiv> 115"
abbreviation EALREADY :: c_int where "EALREADY \<equiv> 114"

text \<open>The reason and whether the socket is connected.\<close>

definition llps_backend_connect_poll_once ::
    "connect_answer \<Rightarrow> c_int \<Rightarrow> server_state \<Rightarrow> (string option \<times> bool) \<times> server_state" where
  "llps_backend_connect_poll_once ca fd sv =
     (case llps_llam_poll_fd_checked (cn_poll_rc ca) fd POLLOUT 10 sv of
        (poll_rc, sv) \<Rightarrow>
          (if sint poll_rc < 0 then (Some ''backend_poll'', False)
           else if poll_rc = 0 then (None, False)
           else if cn_revents ca AND POLLNVAL \<noteq> 0 then (Some ''backend_poll_invalid'', False)
           else if sint (cn_sockopt_rc ca) < 0 then (Some ''backend_so_error'', False)
           else if cn_so_error ca = 0
           then (if cn_revents ca AND (POLLERR OR POLLHUP) \<noteq> 0 \<and> cn_revents ca AND POLLOUT = 0
                 then (Some ''backend_so_error'', False) else (None, True))
           else if cn_so_error ca = EINPROGRESS \<or> cn_so_error ca = EALREADY then (None, False)
           else (Some ''backend_so_error'', False), sv))"

text \<open>\<^verbatim>\<open>LLPS_BACKEND_CONNECT_POLL_ATTEMPTS\<close> is 500.\<close>

fun connect_wait_loop ::
    "(nat \<Rightarrow> connect_answer) \<Rightarrow> c_int \<Rightarrow> nat \<Rightarrow> nat \<Rightarrow> server_state \<Rightarrow> string option \<times> server_state" where
  "connect_wait_loop answers fd attempt 0 sv = (Some ''backend_timeout'', sv)"
| "connect_wait_loop answers fd attempt (Suc attempts) sv =
     (case llps_backend_connect_poll_once (answers attempt) fd (cn_before (answers attempt) sv) of
        ((Some reason, _), sv) \<Rightarrow> (Some reason, sv)
      | ((None, True), sv) \<Rightarrow> (None, sv)
      | ((None, False), sv) \<Rightarrow> connect_wait_loop answers fd (Suc attempt) attempts sv)"

text \<open>\<open>connect_rc\<close> is what \<^verbatim>\<open>connect\<close> returns, with its \<^verbatim>\<open>errno\<close>.\<close>

definition llps_backend_connect_wait ::
    "c_int \<Rightarrow> c_int \<Rightarrow> (nat \<Rightarrow> connect_answer) \<Rightarrow> c_int \<Rightarrow> server_state \<Rightarrow> string option \<times> server_state" where
  "llps_backend_connect_wait connect_rc errno answers fd sv =
     (if \<not> llps_fd_is_valid fd then (Some ''backend_connect_arg'', sv)
      else if connect_rc = 0 then (None, sv)
      else if errno \<noteq> EINPROGRESS then (Some ''backend_connect'', sv)
      else connect_wait_loop answers fd 0 500 sv)"

subsection \<open>The task\<close>

text \<open>
  What the environment answers: the backend address, the first bytes, the backend socket and its
  set-up, the connection, the sending, the set-up of the client, whether the tasks of the pumps
  could be started, what those and all other tasks do until they are joined, and the audit log,
  \<^verbatim>\<open>close\<close> and the scheduler checks.
\<close>

record connection_env =
  ce_addr_valid :: bool
  ce_start_now :: u64
  ce_preface :: "nat \<Rightarrow> preface_answer"
  ce_socket :: c_int
  ce_getfd :: c_int
  ce_setfd :: c_int
  ce_getfl :: c_int
  ce_setfl :: c_int
  ce_nodelay :: c_int
  ce_connect_rc :: c_int
  ce_connect_errno :: c_int
  ce_connect :: "nat \<Rightarrow> connect_answer"
  ce_connect_now :: u64
  ce_flush :: "nat \<Rightarrow> write_answer"
  ce_flush_now :: u64
  ce_client_getfl :: c_int
  ce_client_setfl :: c_int
  ce_group_created :: bool
  ce_opts_prepared :: bool
  ce_spawned_c2s :: bool
  ce_spawned_s2c :: bool
  ce_joined :: bool
  ce_destroyed :: bool
  ce_pumps :: "server_state \<Rightarrow> server_state"
  ce_audit :: "string \<Rightarrow> audit_env"
  ce_closes :: "c_int \<Rightarrow> bool"
  ce_contract :: bool

definition llps_connection_record_backend_fail :: "connection_env \<Rightarrow> string \<Rightarrow> nat \<Rightarrow> server_state \<Rightarrow> server_state" where
  "llps_connection_record_backend_fail ce reason n sv =
     snd (llps_record_ip_audit_event (ce_audit ce reason) (se_client_ip (sv_session n sv)) (text_bytes reason) sv)"

text \<open>\<^verbatim>\<open>llps_close_session\<close> with the answers of this environment, and recording a failure before it.\<close>

definition close_connection :: "connection_env \<Rightarrow> nat \<Rightarrow> server_state \<Rightarrow> server_state" where
  "close_connection ce n = llps_close_session (ce_contract ce) (ce_closes ce) (ce_audit ce ''closed'') n"

definition fail_connection :: "connection_env \<Rightarrow> string \<Rightarrow> nat \<Rightarrow> server_state \<Rightarrow> bool \<times> server_state" where
  "fail_connection ce reason n sv = (False, close_connection ce n (llps_connection_record_backend_fail ce reason n sv))"

definition llps_connection_prepare_backend_addr :: "connection_env \<Rightarrow> nat \<Rightarrow> server_state \<Rightarrow> bool \<times> server_state" where
  "llps_connection_prepare_backend_addr ce n sv =
     (case llps_build_backend_addr (ce_addr_valid ce) sv of
        (status, sv) \<Rightarrow> if status = LLPS_OK then (True, sv) else fail_connection ce ''backend_addr'' n sv)"

abbreviation LLPS_CLOSE_REASON_CLIENT_PREFACE_TIMEOUT :: u32 where
  "LLPS_CLOSE_REASON_CLIENT_PREFACE_TIMEOUT \<equiv> 5"

abbreviation LLPS_CLOSE_REASON_PROTOCOL_HANDSHAKE :: u32 where
  "LLPS_CLOSE_REASON_PROTOCOL_HANDSHAKE \<equiv> 6"

definition llps_connection_read_preface ::
    "buffer_layout \<Rightarrow> connection_env \<Rightarrow> nat \<Rightarrow> server_state \<Rightarrow> bool \<times> nat \<times> server_state" where
  "llps_connection_read_preface ly ce n sv =
     (case llps_client_preface_read ly (ce_start_now ce) (ce_preface ce) n sv of
        (None, len, sv) \<Rightarrow> (True, len, sv)
      | (Some failure, len, sv) \<Rightarrow>
          (let sv = (if failure = LLPS_CLIENT_PREFACE_TIMEOUT_REASON
                     then llps_session_mark_close_reason n LLPS_CLOSE_REASON_CLIENT_PREFACE_TIMEOUT sv
                     else if failure = LLPS_PROTOCOL_HANDSHAKE_INVALID_REASON
                     then llps_session_mark_close_reason n LLPS_CLOSE_REASON_PROTOCOL_HANDSHAKE sv else sv);
               (ok, sv) = fail_connection ce failure n sv
           in (ok, len, sv)))"

definition set_backend_fd :: "c_int \<Rightarrow> nat \<Rightarrow> server_state \<Rightarrow> server_state" where
  "set_backend_fd fd n sv =
     llps_session_refresh_crc n (sv_put_session n ((sv_session n sv)\<lparr>se_backend_fd := fd\<rparr>) sv)"

definition llps_connection_open_backend_socket :: "connection_env \<Rightarrow> nat \<Rightarrow> server_state \<Rightarrow> bool \<times> server_state" where
  "llps_connection_open_backend_socket ce n sv =
     (if 0 \<le> sint (ce_socket ce) then (True, set_backend_fd (ce_socket ce) n sv)
      else fail_connection ce ''backend_socket'' n (set_backend_fd LLPS_INVALID_FD n sv))"

definition llps_connection_setup_backend_fd :: "connection_env \<Rightarrow> nat \<Rightarrow> server_state \<Rightarrow> bool \<times> server_state" where
  "llps_connection_setup_backend_fd ce n sv =
     (let fd = se_backend_fd (sv_session n sv)
      in if llps_set_close_on_exec (ce_getfd ce) (ce_setfd ce) fd = LLPS_OK \<and>
            llps_set_nonblocking (ce_getfl ce) (ce_setfl ce) fd = LLPS_OK \<and>
            llps_set_no_sigpipe fd = LLPS_OK \<and> llps_set_tcp_nodelay (ce_nodelay ce) fd = LLPS_OK
         then (True, sv) else fail_connection ce ''backend_fd_setup'' n sv)"

definition llps_connection_connect_backend :: "connection_env \<Rightarrow> nat \<Rightarrow> server_state \<Rightarrow> bool \<times> server_state" where
  "llps_connection_connect_backend ce n sv =
     (case llps_backend_connect_wait (ce_connect_rc ce) (ce_connect_errno ce) (ce_connect ce)
             (se_backend_fd (sv_session n sv)) sv of
        (Some failure, sv) \<Rightarrow> fail_connection ce failure n sv
      | (None, sv) \<Rightarrow> (True, llps_session_touch n (ce_connect_now ce) sv))"

definition llps_connection_flush_preface ::
    "connection_env \<Rightarrow> nat \<Rightarrow> nat \<Rightarrow> server_state \<Rightarrow> bool \<times> u8 list \<times> server_state" where
  "llps_connection_flush_preface ce n client_preface_len sv =
     (case llps_backend_preface_flush (ce_flush ce) (ce_flush_now ce) n client_preface_len sv of
        (Some failure, sent, sv) \<Rightarrow> (case fail_connection ce failure n sv of (ok, sv) \<Rightarrow> (ok, sent, sv))
      | (None, sent, sv) \<Rightarrow> (True, sent, sv))"

definition llps_connection_record_connected :: "connection_env \<Rightarrow> nat \<Rightarrow> server_state \<Rightarrow> bool \<times> server_state" where
  "llps_connection_record_connected ce n sv =
     (case llps_record_ip_audit_event (ce_audit ce ''connected'') (se_client_ip (sv_session n sv))
             (text_bytes ''connected'') sv of
        (ok, sv) \<Rightarrow> if ok then (True, sv) else (False, close_connection ce n sv))"

definition llps_connection_setup_client_fd :: "connection_env \<Rightarrow> nat \<Rightarrow> server_state \<Rightarrow> bool \<times> server_state" where
  "llps_connection_setup_client_fd ce n sv =
     (if llps_set_nonblocking (ce_client_getfl ce) (ce_client_setfl ce) (se_client_fd (sv_session n sv)) = LLPS_OK
      then (True, sv) else fail_connection ce ''client_fd_setup'' n sv)"

text \<open>A failed call of the runtime on the group of tasks counts as a violation.\<close>

definition group_call :: "bool \<Rightarrow> server_state \<Rightarrow> server_state" where
  "group_call ok sv = (if ok then sv else sv_violation sv)"

definition llps_connection_prepare_pump_group :: "connection_env \<Rightarrow> server_state \<Rightarrow> bool \<times> server_state" where
  "llps_connection_prepare_pump_group ce sv =
     (let sv = group_call (ce_group_created ce) sv
      in if \<not> ce_group_created ce then (False, sv)
         else (let sv = group_call (ce_opts_prepared ce) sv
               in if \<not> ce_opts_prepared ce then (False, group_call (ce_destroyed ce) sv) else (True, sv)))"

text \<open>When only the first task could be started, both descriptors are shut down and that task is joined.\<close>

definition llps_connection_spawn_pump_pair :: "connection_env \<Rightarrow> server_state \<Rightarrow> bool \<times> server_state" where
  "llps_connection_spawn_pump_pair ce sv =
     (let sv = group_call (ce_spawned_c2s ce) sv
      in if \<not> ce_spawned_c2s ce then (False, sv)
         else (let sv = group_call (ce_spawned_s2c ce) sv
               in if \<not> ce_spawned_s2c ce then (False, group_call (ce_joined ce) (ce_pumps ce sv)) else (True, sv)))"

definition llps_connection_run_pumps :: "connection_env \<Rightarrow> nat \<Rightarrow> server_state \<Rightarrow> bool \<times> server_state" where
  "llps_connection_run_pumps ce n sv =
     (case llps_connection_prepare_pump_group ce sv of
        (False, sv) \<Rightarrow> fail_connection ce ''pump_group'' n sv
      | (True, sv) \<Rightarrow>
          (case llps_connection_spawn_pump_pair ce sv of
             (False, sv) \<Rightarrow> fail_connection ce ''pump_spawn'' n (group_call (ce_destroyed ce) sv)
           | (True, sv) \<Rightarrow> (True, group_call (ce_destroyed ce) (group_call (ce_joined ce) (ce_pumps ce sv)))))"

text \<open>
  The result: how far the task came, and the bytes it sent to the backend itself. \<open>Pumps_on sv\<close> is
  the server when the tasks of the pumps are started.
\<close>

datatype connection_stage = Gave_up | Pumps_on server_state

definition llps_task_connection ::
    "buffer_layout \<Rightarrow> connection_env \<Rightarrow> nat \<Rightarrow> server_state \<Rightarrow> connection_stage \<times> u8 list \<times> server_state" where
  "llps_task_connection ly ce n sv =
     (case llps_session_is_active n sv of
        (False, sv) \<Rightarrow> (Gave_up, [], sv_violation sv)
      | (True, sv) \<Rightarrow>
     (case llps_connection_prepare_backend_addr ce n sv of
        (False, sv) \<Rightarrow> (Gave_up, [], sv)
      | (True, sv) \<Rightarrow>
     (case llps_connection_read_preface ly ce n sv of
        (False, len, sv) \<Rightarrow> (Gave_up, [], sv)
      | (True, len, sv) \<Rightarrow>
     (case llps_connection_open_backend_socket ce n sv of
        (False, sv) \<Rightarrow> (Gave_up, [], sv)
      | (True, sv) \<Rightarrow>
     (case llps_connection_setup_backend_fd ce n sv of
        (False, sv) \<Rightarrow> (Gave_up, [], sv)
      | (True, sv) \<Rightarrow>
     (case llps_connection_connect_backend ce n sv of
        (False, sv) \<Rightarrow> (Gave_up, [], sv)
      | (True, sv) \<Rightarrow>
     (case llps_connection_flush_preface ce n len sv of
        (False, sent, sv) \<Rightarrow> (Gave_up, sent, sv)
      | (True, sent, sv) \<Rightarrow>
     (case llps_connection_record_connected ce n sv of
        (False, sv) \<Rightarrow> (Gave_up, sent, sv)
      | (True, sv) \<Rightarrow>
     (case llps_connection_setup_client_fd ce n sv of
        (False, sv) \<Rightarrow> (Gave_up, sent, sv)
      | (True, sv) \<Rightarrow>
          (let ready = llps_connection_prepare_pump_args ly n sv
           in case llps_connection_run_pumps ce n ready of
                (False, sv) \<Rightarrow> (Gave_up, sent, sv)
              | (True, sv) \<Rightarrow> (Pumps_on ready, sent, close_connection ce n sv)))))))))))"


section \<open>Operations that keep the buffers and the configuration\<close>

definition calm :: "server_state \<Rightarrow> server_state \<Rightarrow> bool" where
  "calm sv sv' \<longleftrightarrow> same_transfer sv sv' \<and> sv_cfg sv' = sv_cfg sv"

lemma calm_refl [simp]: "calm sv sv"
  by (simp add: calm_def)

lemma calm_trans: "calm a b \<Longrightarrow> calm b c \<Longrightarrow> calm a c"
  using same_transfer_trans by (auto simp: calm_def)

lemma calm_only_rs: "only_rs sv sv' \<Longrightarrow> calm sv sv'"
  using only_rs_same_transfer by (auto simp: calm_def only_rs_def same_banks_def sv_cfg_def)

lemma calm_put_refresh:
  assumes "unprotected s = unprotected (sv_session n sv)"
  shows "calm sv (llps_session_refresh_crc n (sv_put_session n s sv))"
proof -
  obtain sc where "sv_cfg (llps_session_refresh_crc n (sv_put_session n s sv)) = sv_cfg (sv_put_session n s sv)"
    using refresh_crc_eq [of n "sv_put_session n s sv"] by (auto simp: sv_cfg_def sv_set_counters_def sv_put_session_def)
  then show ?thesis using same_transfer_put_refresh [OF assms] by (simp add: calm_def)
qed

lemma calm_now: "calm sv (sv\<lparr>sv_rs := snd (llps_llam_now_ns_checked now (sv_rs sv))\<rparr>)"
  by (rule calm_only_rs, rule only_rsI) (simp add: same_banks_def now_checked_eq)

lemma calm_touch: "calm sv (llps_session_touch n now sv)"
proof -
  obtain rs where rs: "llps_llam_now_ns_checked now (sv_rs sv) = (now, rs)" by (simp add: now_checked_eq)
  have c: "calm sv (sv\<lparr>sv_rs := rs\<rparr>)" using calm_now [of sv now] rs by simp
  have "calm (sv\<lparr>sv_rs := rs\<rparr>) (llps_session_refresh_crc n (sv_put_session n s (sv\<lparr>sv_rs := rs\<rparr>)))"
    if "unprotected s = unprotected (sv_session n sv)" for s
    using that by (intro calm_put_refresh) simp
  with c have "calm sv (llps_session_refresh_crc n (sv_put_session n s (sv\<lparr>sv_rs := rs\<rparr>)))"
    if "unprotected s = unprotected (sv_session n sv)" for s
    using that calm_trans by blast
  with c show ?thesis by (simp add: llps_session_touch_def Let_def rs)
qed

lemma calm_poll: "llps_llam_poll_fd_checked rc fd ev t sv = (r, sv') \<Longrightarrow> calm sv sv'"
  using calm_only_rs [OF only_rs_unless_stopping [of sv "sint rc < 0"]] calm_only_rs [OF only_rs_violation [of sv]]
  by (auto simp: llps_llam_poll_fd_checked_def split: if_splits)

lemma calm_set_len: "llps_payload_ecc_set_len_for_pump ly n pump len sv = (ok, sv') \<Longrightarrow> calm sv sv'"
  by (auto simp: llps_payload_ecc_set_len_for_pump_def Let_def calm_put_refresh split: if_splits)

lemma calm_set_backend_fd: "calm sv (set_backend_fd fd n sv)"
  unfolding set_backend_fd_def by (rule calm_put_refresh) simp

section \<open>What the task may meet\<close>

text \<open>Other tasks keep the two fields of the configuration in use, and the arrays keep their sizes.\<close>

definition keeps_connection :: "nat \<Rightarrow> server_state \<Rightarrow> server_state \<Rightarrow> bool" where
  "keeps_connection n sv sv' \<longleftrightarrow> length (sv_sessions sv') = length (sv_sessions sv) \<and>
     buffer_size (sv_cfg sv') = buffer_size (sv_cfg sv) \<and> payload_ecc_enabled (sv_cfg sv') = payload_ecc_enabled (sv_cfg sv) \<and>
     length (se_c2s_buf (sv_session n sv')) = length (se_c2s_buf (sv_session n sv)) \<and>
     length (se_c2s_payload_ecc (sv_session n sv')) = length (se_c2s_payload_ecc (sv_session n sv))"

text \<open>
  While the task connects, memory is left alone: nothing reads the buffer, and what happens to it then
  counts to the first step of the sending.
\<close>

definition keeps_preface :: "nat \<Rightarrow> server_state \<Rightarrow> server_state \<Rightarrow> bool" where
  "keeps_preface n sv sv' \<longleftrightarrow> keeps_connection n sv sv' \<and> se_c2s_buf (sv_session n sv') = se_c2s_buf (sv_session n sv) \<and>
     se_c2s_payload_ecc (sv_session n sv') = se_c2s_payload_ecc (sv_session n sv)"

abbreviation preface_word :: "nat \<Rightarrow> nat \<Rightarrow> server_state \<Rightarrow> u64 \<times> u8" where
  "preface_word n j sv \<equiv> stored_word (se_c2s_buf (sv_session n sv)) (se_c2s_payload_ecc (sv_session n sv))
     (unat (buffer_size (sv_cfg sv))) j"

definition preface_upsets :: "nat \<Rightarrow> server_state \<Rightarrow> server_state \<Rightarrow> bool" where
  "preface_upsets n sv sv' \<longleftrightarrow> keeps_connection n sv sv' \<and>
     (if payload_ecc_enabled (sv_cfg sv) \<noteq> 0
      then \<forall>j < llps_payload_ecc_word_count_for_len (unat (buffer_size (sv_cfg sv))). word_sealed (preface_word n j sv) \<longrightarrow>
        one_upset (fst (preface_word n j sv)) (preface_word n j sv') \<or> two_upsets (fst (preface_word n j sv)) (preface_word n j sv')
      else se_c2s_buf (sv_session n sv') = se_c2s_buf (sv_session n sv))"

definition connection_sound :: "nat \<Rightarrow> connection_env \<Rightarrow> bool" where
  "connection_sound n ce \<longleftrightarrow>
     (\<forall>i sv. keeps_connection n sv (pr_before (ce_preface ce i) sv) \<and> keeps_connection n sv (pr_wait (ce_preface ce i) sv)) \<and>
     (\<forall>i sv. keeps_preface n sv (cn_before (ce_connect ce i) sv)) \<and>
     (\<forall>i sv. preface_upsets n sv (wa_before (ce_flush ce i) sv))"

text \<open>
  What a turn received from the client; and reading that nothing else disturbs: neither before a turn
  nor while a read waits does anyone else write to the buffer or change the descriptors and the address of the session.
\<close>

abbreviation peers_of :: "llps_session_t \<Rightarrow> c_int \<times> c_int \<times> u8 list" where
  "peers_of s \<equiv> (se_client_fd s, se_backend_fd s, se_client_ip s)"

definition received :: "preface_answer \<Rightarrow> u8 list" where
  "received pa = (case pr_read pa of Ready_bytes bs \<Rightarrow> bs | Ready_error e \<Rightarrow> [])"

definition keeps_reading :: "nat \<Rightarrow> (server_state \<Rightarrow> server_state) \<Rightarrow> bool" where
  "keeps_reading n f \<longleftrightarrow>
     (\<forall>sv. keeps_preface n sv (f sv) \<and> peers_of (sv_session n (f sv)) = peers_of (sv_session n sv))"

definition reading_undisturbed :: "nat \<Rightarrow> (nat \<Rightarrow> preface_answer) \<Rightarrow> bool" where
  "reading_undisturbed n answers \<longleftrightarrow>
     (\<forall>i. keeps_reading n (pr_before (answers i)) \<and> keeps_reading n (pr_wait (answers i)))"

text \<open>What the turns from \<open>i\<close> on to \<open>j\<close> received.\<close>

definition client_bytes :: "(nat \<Rightarrow> preface_answer) \<Rightarrow> nat \<Rightarrow> nat \<Rightarrow> u8 list" where
  "client_bytes answers i j = concat (List.map (\<lambda>k. received (answers k)) [i..<j])"

lemma client_bytes_step: "i < j \<Longrightarrow> client_bytes answers i j = received (answers i) @ client_bytes answers (Suc i) j"
  by (simp add: client_bytes_def upt_conv_Cons)

lemma client_bytes_one: "client_bytes answers i (Suc i) = received (answers i)"
  by (simp add: client_bytes_def)

text \<open>The arrays of the session, and the configuration in use.\<close>

definition connection_shape :: "llps_yml_config_t \<Rightarrow> nat \<Rightarrow> server_state \<Rightarrow> bool" where
  "connection_shape cfg n sv \<longleftrightarrow> n < length (sv_sessions sv) \<and>
     length (se_c2s_buf (sv_session n sv)) = LLPS_PAYLOAD_BUFFER_SIZE \<and>
     length (se_c2s_payload_ecc (sv_session n sv)) = LLPS_PAYLOAD_ECC_WORD_COUNT \<and>
     buffer_size (sv_cfg sv) = buffer_size cfg \<and> payload_ecc_enabled (sv_cfg sv) = payload_ecc_enabled cfg"

text \<open>The buffer holds \<open>d\<close>, sealed when the codes are on.\<close>

definition holds_preface :: "llps_yml_config_t \<Rightarrow> nat \<Rightarrow> u8 list \<Rightarrow> server_state \<Rightarrow> bool" where
  "holds_preface cfg n d sv \<longleftrightarrow> connection_shape cfg n sv \<and> length d \<le> unat (buffer_size cfg) \<and>
     take (length d) (se_c2s_buf (sv_session n sv)) = d \<and>
     (payload_ecc_enabled cfg \<noteq> 0 \<longrightarrow> sealed_payload d (unat (buffer_size cfg)) (se_c2s_buf (sv_session n sv))
        (se_c2s_payload_ecc (sv_session n sv)))"

lemma calm_fields:
  assumes "calm sv sv'"
  shows "se_c2s_buf (sv_session n sv') = se_c2s_buf (sv_session n sv)"
    "se_c2s_payload_ecc (sv_session n sv') = se_c2s_payload_ecc (sv_session n sv)"
    "length (sv_sessions sv') = length (sv_sessions sv)" "sv_cfg sv' = sv_cfg sv"
  using assms by (simp_all add: calm_def same_transfer_def)

lemma shape_calm: "calm sv sv' \<Longrightarrow> connection_shape cfg n sv \<Longrightarrow> connection_shape cfg n sv'"
  by (simp add: connection_shape_def calm_fields)

lemma holds_preface_calm: "calm sv sv' \<Longrightarrow> holds_preface cfg n d sv \<Longrightarrow> holds_preface cfg n d sv'"
  using shape_calm by (simp add: holds_preface_def calm_fields)

lemma shape_kept: "keeps_connection n sv sv' \<Longrightarrow> connection_shape cfg n sv \<Longrightarrow> connection_shape cfg n sv'"
  by (simp add: connection_shape_def keeps_connection_def)

lemma holds_preface_kept: "keeps_preface n sv sv' \<Longrightarrow> holds_preface cfg n d sv \<Longrightarrow> holds_preface cfg n d sv'"
  using shape_kept [of n sv sv' cfg] by (simp add: holds_preface_def keeps_preface_def)

lemma connection_put:
  assumes "n < length (sv_sessions sv)"
  shows "se_c2s_buf (sv_session n (sv_put_session n s sv)) = se_c2s_buf s"
    "se_c2s_payload_ecc (sv_session n (sv_put_session n s sv)) = se_c2s_payload_ecc s"
  using assms by simp_all

section \<open>The first bytes\<close>

definition opens_with_handshake :: "u8 list \<Rightarrow> bool" where
  "opens_with_handshake d \<longleftrightarrow> (\<exists>version addr port_hi port_lo next_state more.
     handshake_fields_ok version addr port_hi port_lo next_state \<and>
     d = handshake_packet version addr port_hi port_lo next_state @ more)"

lemma stands_at_head:
  assumes "stands_at buf len 0 xs" "len \<le> length buf"
  shows "\<exists>more. take len buf = xs @ more"
proof -
  have "take (length xs) (take len buf) = xs"
    using assms by (intro nth_equalityI) (auto simp: stands_at_def)
  then show ?thesis by (metis append_take_drop_id)
qed

lemma gate_complete:
  assumes "llps_client_preface_check_gate n len True sv = (None, True)" "len \<le> length (se_c2s_buf (sv_session n sv))"
  shows "opens_with_handshake (take len (se_c2s_buf (sv_session n sv)))"
proof -
  have "llps_protocol_handshake_validate (se_c2s_buf (sv_session n sv)) len = LLPS_PROTOCOL_HANDSHAKE_VALID"
    using assms(1) by (auto simp: llps_client_preface_check_gate_def split: llps_protocol_handshake_status_t.splits if_splits)
  from handshake_valid_sound [OF this] stands_at_head [OF _ assms(2)] show ?thesis
    unfolding opens_with_handshake_def by blast
qed

lemma read_answer_calm:
  assumes "llps_llam_read_when_ready_checked answer e wait fd count t sv = (r, sv')"
  shows "calm sv sv' \<or> calm (wait sv) sv'" "r = Ready_bytes bs \<Longrightarrow> sv' = wait sv"
proof -
  show "calm sv sv' \<or> calm (wait sv) sv'"
    using assms calm_only_rs [OF only_rs_violation [of sv]] calm_only_rs [OF only_rs_unless_stopping [of "wait sv"]]
    by (auto simp: llps_llam_read_when_ready_checked_def split: if_splits ready_answer.splits)
  show "r = Ready_bytes bs \<Longrightarrow> sv' = wait sv"
    using assms by (auto simp: llps_llam_read_when_ready_checked_def split: if_splits ready_answer.splits)
qed

lemma room_unat:
  assumes "connection_shape cfg n sv" "len \<le> unat (buffer_size cfg)"
  shows "unat (preface_room len sv) = unat (buffer_size cfg) - len"
proof -
  have "unat (buffer_size cfg) < 2 ^ 32" using unsigned_less [of "buffer_size cfg"] by simp
  then have "unat (of_nat len :: u64) = len" using assms(2) by (simp add: unat_of_nat take_bit_nat_eq_self)
  moreover have "unat (ucast (buffer_size cfg) :: u64) = unat (buffer_size cfg)" by (simp add: unsigned_ucast_eq take_bit_nat_eq_self order.strict_trans [OF unsigned_less])
  ultimately show ?thesis
    using assms by (simp add: preface_room_def connection_shape_def unat_sub word_le_nat_alt)
qed

lemma shape_store:
  assumes "connection_shape cfg n sv" "buffer_size cfg \<le> LLPS_BUFFER_SIZE" "off + length bs \<le> unat (buffer_size cfg)"
  shows "connection_shape cfg n (preface_store n off bs sv)"
proof -
  have "unat (buffer_size cfg) \<le> 4096" using assms(2) by (simp add: word_le_nat_alt)
  then show ?thesis using assms(1,3) by (simp add: connection_shape_def preface_store_def Let_def)
qed

lemma read_chunk_post:
  assumes shape: "connection_shape cfg n sv" and size: "buffer_size cfg \<le> LLPS_BUFFER_SIZE" and len: "len \<le> unat (buffer_size cfg)"
    and wait: "\<And>sv. keeps_connection n sv (pr_wait pa sv)"
    and r: "llps_client_preface_read_chunk pa n len t sv = (None, progress, len', sv')"
  shows "connection_shape cfg n sv' \<and> len' \<le> unat (buffer_size cfg)"
proof -
  obtain a sv1 where a: "llps_llam_read_when_ready_checked (pr_read pa) (pr_stale pa) (pr_wait pa)
      (se_client_fd (sv_session n sv)) (preface_room len sv) t sv = (a, sv1)" by fastforce
  have s1: "connection_shape cfg n sv1"
    using read_answer_calm(1) [OF a] shape_calm shape shape_kept [OF wait shape] by blast
  show ?thesis
  proof (cases a)
    case (Ready_error e)
    then show ?thesis using r a s1 len by (cases e) (auto simp: llps_client_preface_read_chunk_def Let_def)
  next
    case (Ready_bytes bs)
    let ?st = "preface_store n len bs sv1"
    have fits: "length bs \<le> unat (preface_room len ?st)" and r': "len' = len + length bs" "sv' = llps_session_touch n (pr_touch pa) ?st"
      using r a Ready_bytes by (auto simp: llps_client_preface_read_chunk_def Let_def split: if_splits)
    have "preface_room len ?st = preface_room len sv1"
      by (simp add: preface_room_def preface_store_def Let_def sv_cfg_def sv_put_session_def)
    then have "len + length bs \<le> unat (buffer_size cfg)" using fits room_unat [OF s1 len] len by simp
    moreover from this have "connection_shape cfg n ?st" by (rule shape_store [OF s1 size])
    ultimately show ?thesis using r' shape_calm [OF calm_touch] by simp
  qed
qed

lemma read_cycle_post:
  assumes shape: "connection_shape cfg n sv" and size: "buffer_size cfg \<le> LLPS_BUFFER_SIZE" and len: "len \<le> unat (buffer_size cfg)"
    and wait: "\<And>sv. keeps_connection n sv (pr_wait pa sv)"
    and r: "llps_client_preface_read_cycle pa n len deadline True sv = (None, complete, len', sv')"
  shows "connection_shape cfg n sv' \<and> len' \<le> unat (buffer_size cfg) \<and>
    (complete \<longrightarrow> opens_with_handshake (take len' (se_c2s_buf (sv_session n sv'))))"
proof -
  obtain t sv1 where t: "llps_client_preface_read_timeout_ms (pr_now pa) deadline sv = ((None, t), sv1)"
    using r by (auto simp: llps_client_preface_read_cycle_def split: prod.splits option.splits)
  have sv1: "sv1 = sv\<lparr>sv_rs := snd (llps_llam_now_ns_checked (pr_now pa) (sv_rs sv))\<rparr>"
    using t by (auto simp: llps_client_preface_read_timeout_ms_def split: prod.splits if_splits)
  have s1: "connection_shape cfg n sv1" unfolding sv1 by (rule shape_calm [OF calm_now shape])
  obtain reason progress len1 sv2 where c: "llps_client_preface_read_chunk pa n len t sv1 = (reason, progress, len1, sv2)"
    by (metis prod_cases4)
  have "reason = None" using r t c by (auto simp: llps_client_preface_read_cycle_def split: if_splits)
  note p = read_chunk_post [OF s1 size len wait c [unfolded this]]
  have "len' = len1" "sv' = sv2" and g: "complete \<Longrightarrow> llps_client_preface_check_gate n len1 True sv2 = (None, True)"
    using r t c by (auto simp: llps_client_preface_read_cycle_def split: if_splits prod.splits)
  moreover have "len1 \<le> length (se_c2s_buf (sv_session n sv2))"
    using p size by (simp add: connection_shape_def word_le_nat_alt)
  ultimately show ?thesis using p gate_complete by blast
qed

lemma preface_seal_post:
  assumes shape: "connection_shape cfg n sv" and size: "buffer_size cfg \<le> LLPS_BUFFER_SIZE" and len: "len \<le> unat (buffer_size cfg)"
    and r: "llps_client_preface_seal ly n len sv = (None, sv')"
  shows "holds_preface cfg n (take len (se_c2s_buf (sv_session n sv))) sv'"
proof -
  let ?d = "take len (se_c2s_buf (sv_session n sv))"
  have d: "length ?d = len" "unat (buffer_size cfg) \<le> 4096" "n < length (sv_sessions sv)" "sv_cfg (sv_put_session n s sv) = sv_cfg sv" for s
    using shape size len by (simp_all add: connection_shape_def word_le_nat_alt sv_cfg_def sv_put_session_def)
  show ?thesis
  proof (cases "payload_ecc_enabled cfg = 0")
    case True
    then show ?thesis
      using r shape len d by (simp add: llps_client_preface_seal_def holds_preface_def connection_shape_def)
  next
    case False
    obtain buf1 ecc1 where s: "llps_payload_ecc_seal (se_c2s_buf (sv_session n sv)) len (unat (buffer_size cfg))
        (se_c2s_payload_ecc (sv_session n sv)) LLPS_PAYLOAD_ECC_WORD_COUNT = (True, buf1, ecc1)"
      "length buf1 = 4096" "length ecc1 = 512" "sealed_payload ?d (unat (buffer_size cfg)) buf1 ecc1"
      using seal_payload [of ?d "unat (buffer_size cfg)" "se_c2s_buf (sv_session n sv)" "se_c2s_payload_ecc (sv_session n sv)"]
        shape len d by (auto simp: connection_shape_def)
    let ?sv = "sv_put_session n ((sv_session n sv)\<lparr>se_c2s_buf := buf1, se_c2s_payload_ecc := ecc1\<rparr>) sv"
    have "holds_preface cfg n ?d ?sv"
      using s shape len d by (auto simp: holds_preface_def connection_shape_def sealed_payload_def)
    moreover have "calm ?sv sv'"
      using r s(1) False shape calm_set_len
      by (fastforce simp: llps_client_preface_seal_def connection_shape_def Let_def split: prod.splits if_splits)
    ultimately show ?thesis using holds_preface_calm by blast
  qed
qed

lemma preface_loop_post:
  assumes "connection_shape cfg n sv" "buffer_size cfg \<le> LLPS_BUFFER_SIZE" "len \<le> unat (buffer_size cfg)"
    and "\<And>i sv. keeps_connection n sv (pr_before (answers i) sv)" "\<And>i sv. keeps_connection n sv (pr_wait (answers i) sv)"
    and "preface_read_loop ly answers n deadline True i cycles len sv = (None, len', sv')"
  shows "\<exists>d. length d = len' \<and> opens_with_handshake d \<and> holds_preface cfg n d sv'"
  using assms
proof (induction cycles arbitrary: i len sv)
  case 0
  then show ?case by simp
next
  case (Suc cycles)
  obtain reason complete len1 sv1 where c: "llps_client_preface_read_cycle (answers i) n len deadline True
      (pr_before (answers i) sv) = (reason, complete, len1, sv1)" by (metis prod_cases4)
  have "reason = None" using Suc.prems(6) c by (cases reason) auto
  note p = read_cycle_post [OF shape_kept [OF Suc.prems(4,1)] Suc.prems(2,3,5) c [unfolded this]]
  show ?case
  proof (cases complete)
    case True
    then have "llps_client_preface_seal ly n len1 sv1 = (None, sv')" "len' = len1"
      using Suc.prems(6) c \<open>reason = None\<close> by (auto split: prod.splits)
    moreover have "length (take len1 (se_c2s_buf (sv_session n sv1))) = len1"
      using p Suc.prems(2) by (simp add: connection_shape_def word_le_nat_alt)
    ultimately show ?thesis using p True preface_seal_post [of cfg n sv1 len1] Suc.prems(2) by blast
  next
    case False
    then have "preface_read_loop ly answers n deadline True (Suc i) cycles len1 sv1 = (None, len', sv')"
      using Suc.prems(6) c \<open>reason = None\<close> by simp
    then show ?thesis using Suc.IH [of sv1 len1 "Suc i"] p Suc.prems(2,4,5) by blast
  qed
qed

subsection \<open>They are the bytes of the client\<close>

lemma peers_put:
  "peers_of s = peers_of (sv_session n sv) \<Longrightarrow>
     peers_of (sv_session n (sv_put_session n s sv)) = peers_of (sv_session n sv)"
  by (simp add: session_put_cases)

lemma peers_refresh: "peers_of (sv_session n (llps_session_refresh_crc n sv)) = peers_of (sv_session n sv)"
proof -
  obtain sc where "llps_session_refresh_crc n sv =
     (sv_set_counters sc (sv_put_session n (sealed_session (sv_session n sv)) sv))\<lparr>sv_regions :=
        fst (llps_session_tmr_write_all (llps_session_tmr_snapshot_from_session (sealed_session (sv_session n sv)))
          (sv_regions sv, sv_counters sv))\<rparr>"
    using refresh_crc_eq [of n sv] by blast
  then show ?thesis by (simp add: peers_put)
qed

lemma peers_touch: "peers_of (sv_session n (llps_session_touch n now sv)) = peers_of (sv_session n sv)"
proof -
  obtain rs where rs: "llps_llam_now_ns_checked now (sv_rs sv) = (now, rs)" by (simp add: now_checked_eq)
  have "sv_session n (sv\<lparr>sv_rs := rs\<rparr>) = sv_session n sv" by (simp add: sv_session_def)
  then show ?thesis by (simp add: llps_session_touch_def Let_def rs session_put_cases peers_refresh [simplified])
qed

lemma peers_set_len:
  "llps_payload_ecc_set_len_for_pump ly n pump len sv = (ok, sv') \<Longrightarrow> peers_of (sv_session n sv') = peers_of (sv_session n sv)"
  by (auto simp: llps_payload_ecc_set_len_for_pump_def Let_def peers_refresh [simplified] session_put_cases split: if_splits)

lemma session_rs [simp]: "sv_session n (sv\<lparr>sv_rs := rs\<rparr>) = sv_session n sv"
  by (simp add: sv_session_def)

lemma positive_timeout:
  "now < deadline \<Longrightarrow>
     \<exists>t. llps_client_preface_read_timeout_ms now deadline sv = ((None, t), sv\<lparr>sv_rs := snd (llps_llam_now_ns_checked now (sv_rs sv))\<rparr>) \<and>
       0 \<le> sint t"
proof -
  assume "now < deadline"
  let ?m = "remaining_ms (deadline - now)"
  have "0 \<le> sint (ucast ?m :: c_int)" if "?m \<le> 0x7FFFFFFF"
  proof -
    have "uint ?m < 2 ^ 31" using that by (simp add: word_le_def)
    moreover from this have "signed_take_bit 31 (uint ?m) = uint ?m"
      by (intro signed_take_bit_int_eq_self order.trans [OF _ unsigned_greater_eq]) simp_all
    ultimately have "sint (ucast ?m :: c_int) = uint ?m"
      by (simp add: sint_uint unsigned_ucast_eq take_bit_int_eq_self)
    then show ?thesis by simp
  qed
  then show ?thesis
    using \<open>now < deadline\<close> by (auto simp: llps_client_preface_read_timeout_ms_def now_checked_eq not_less)
qed

lemma read_call_made:
  assumes "llps_fd_is_valid fd" "count \<noteq> 0" "count \<le> 0x7FFFFFFFFFFFFFFF" "0 \<le> sint t"
  shows "llps_llam_read_when_ready_checked answer e wait fd count t sv = (case answer of
     Ready_bytes bs \<Rightarrow> (answer, wait sv) | Ready_error e \<Rightarrow> (answer, snd (unless_stopping (e \<noteq> Timed_out) (wait sv))))"
  using assms by (auto simp: llps_llam_read_when_ready_checked_def not_less)

lemma unless_stopping_session [simp]: "sv_session n (snd (unless_stopping b sv)) = sv_session n sv"
  using only_rs_unless_stopping [of sv b] by (auto simp: only_rs_def sv_session_def)

lemma room_open:
  assumes "connection_shape cfg n sv" "len < unat (buffer_size cfg)" "buffer_size cfg \<le> LLPS_BUFFER_SIZE"
  shows "preface_room len sv \<noteq> 0" "preface_room len sv \<le> 0x7FFFFFFFFFFFFFFF"
proof -
  have "unat (buffer_size cfg) \<le> 4096" using assms(3) by (simp add: word_le_nat_alt)
  then show "preface_room len sv \<noteq> 0" "preface_room len sv \<le> 0x7FFFFFFFFFFFFFFF"
    using room_unat [OF assms(1), of len] assms(2) by (auto simp: word_le_nat_alt unat_eq_0)
qed

lemma read_chunk_bytes:
  assumes shape: "connection_shape cfg n sv" and size: "buffer_size cfg \<le> LLPS_BUFFER_SIZE" and len: "len < unat (buffer_size cfg)"
    and quiet: "keeps_reading n (pr_wait pa)" and t: "0 \<le> sint t"
    and r: "llps_client_preface_read_chunk pa n len t sv = (None, progress, len', sv')"
  shows "se_client_fd (sv_session n sv') = se_client_fd (sv_session n sv)"
    "progress \<Longrightarrow> llps_fd_is_valid (se_client_fd (sv_session n sv))"
    "llps_fd_is_valid (se_client_fd (sv_session n sv)) \<Longrightarrow>
       take len' (se_c2s_buf (sv_session n sv')) = take len (se_c2s_buf (sv_session n sv)) @ received pa"
proof -
  let ?fd = "se_client_fd (sv_session n sv)" and ?w = "pr_wait pa sv"
  have w: "keeps_preface n sv ?w" "se_client_fd (sv_session n ?w) = ?fd" using quiet by (simp_all add: keeps_reading_def)
  have sw: "connection_shape cfg n ?w" "se_c2s_buf (sv_session n ?w) = se_c2s_buf (sv_session n sv)"
    using w(1) shape_kept [OF _ shape, of ?w] by (simp_all add: keeps_preface_def)
  have "se_client_fd (sv_session n sv') = ?fd \<and> (progress \<longrightarrow> llps_fd_is_valid ?fd) \<and>
      (llps_fd_is_valid ?fd \<longrightarrow>
        take len' (se_c2s_buf (sv_session n sv')) = take len (se_c2s_buf (sv_session n sv)) @ received pa)"
  proof (cases "llps_fd_is_valid ?fd")
    case False
    then have a: "llps_llam_read_when_ready_checked (pr_read pa) (pr_stale pa) (pr_wait pa) ?fd (preface_room len sv) t sv =
        (Ready_error (pr_stale pa), sv_violation sv)"
      by (simp add: llps_llam_read_when_ready_checked_def)
    have "sv_session n (sv_violation sv) = sv_session n sv"
      using only_rs_violation [of sv] by (auto simp: only_rs_def sv_session_def)
    then show ?thesis
      using r False unfolding llps_client_preface_read_chunk_def a Let_def by (cases "pr_stale pa") auto
  next
    case True
    note made = read_call_made [OF True room_open [OF shape len size] t]
    show ?thesis
    proof (cases "pr_read pa")
      case (Ready_error e)
      then show ?thesis
        using r True made w(2) sw(2)
        by (cases e) (auto simp: llps_client_preface_read_chunk_def received_def Let_def)
    next
      case (Ready_bytes bs)
      let ?st = "preface_store n len bs ?w"
      have r': "len' = len + length bs" "sv' = llps_session_touch n (pr_touch pa) ?st"
        using r Ready_bytes made by (auto simp: llps_client_preface_read_chunk_def Let_def split: if_splits)
      have n: "n < length (sv_sessions ?w)" "len \<le> length (se_c2s_buf (sv_session n ?w))"
        using sw(1) len size by (simp_all add: connection_shape_def word_le_nat_alt)
      then have "take len' (se_c2s_buf (sv_session n ?st)) = take len (se_c2s_buf (sv_session n sv)) @ bs"
        by (simp add: preface_store_def Let_def r'(1) sw(2))
      moreover have "se_client_fd (sv_session n ?st) = ?fd" using n w(2) by (simp add: preface_store_def Let_def)
      ultimately show ?thesis
        using True Ready_bytes calm_fields(1) [OF calm_touch] peers_touch by (simp add: r'(2) received_def)
    qed
  qed
  then show "se_client_fd (sv_session n sv') = ?fd" "progress \<Longrightarrow> llps_fd_is_valid ?fd"
    "llps_fd_is_valid ?fd \<Longrightarrow>
       take len' (se_c2s_buf (sv_session n sv')) = take len (se_c2s_buf (sv_session n sv)) @ received pa" by blast+
qed

lemma read_cycle_bytes:
  assumes shape: "connection_shape cfg n sv" and size: "buffer_size cfg \<le> LLPS_BUFFER_SIZE"
    and quiet: "keeps_reading n (pr_wait pa)"
    and r: "llps_client_preface_read_cycle pa n len deadline True sv = (None, complete, len', sv')"
  shows "se_client_fd (sv_session n sv') = se_client_fd (sv_session n sv)"
    "complete \<Longrightarrow> llps_fd_is_valid (se_client_fd (sv_session n sv))"
    "llps_fd_is_valid (se_client_fd (sv_session n sv)) \<Longrightarrow>
       take len' (se_c2s_buf (sv_session n sv')) = take len (se_c2s_buf (sv_session n sv)) @ received pa"
proof -
  obtain t sv1 where t: "llps_client_preface_read_timeout_ms (pr_now pa) deadline sv = ((None, t), sv1)"
    using r by (auto simp: llps_client_preface_read_cycle_def split: prod.splits option.splits)
  have "pr_now pa < deadline"
    using t by (auto simp: llps_client_preface_read_timeout_ms_def now_checked_eq not_le split: if_splits)
  from positive_timeout [OF this, of sv] have pos: "0 \<le> sint t"
    and sv1: "sv1 = sv\<lparr>sv_rs := snd (llps_llam_now_ns_checked (pr_now pa) (sv_rs sv))\<rparr>" using t by auto
  have s1: "connection_shape cfg n sv1" "sv_session n sv1 = sv_session n sv"
    using shape_calm [OF calm_now shape] by (simp_all add: sv1)
  obtain reason progress len1 sv2 where c: "llps_client_preface_read_chunk pa n len t sv1 = (reason, progress, len1, sv2)"
    by (metis prod_cases4)
  have open_room: "len < unat (buffer_size cfg)"
    using r t s1(1) by (auto simp: llps_client_preface_read_cycle_def connection_shape_def split: if_splits)
  have "reason = None" "len' = len1" "sv' = sv2" "complete \<longrightarrow> progress"
    using r t c by (auto simp: llps_client_preface_read_cycle_def split: if_splits prod.splits)
  with read_chunk_bytes [OF s1(1) size open_room quiet pos] c
  show "se_client_fd (sv_session n sv') = se_client_fd (sv_session n sv)"
    "complete \<Longrightarrow> llps_fd_is_valid (se_client_fd (sv_session n sv))"
    "llps_fd_is_valid (se_client_fd (sv_session n sv)) \<Longrightarrow>
       take len' (se_c2s_buf (sv_session n sv')) = take len (se_c2s_buf (sv_session n sv)) @ received pa"
    unfolding s1(2) by blast+
qed

lemma keeps_reading_connection: "keeps_reading n f \<Longrightarrow> keeps_connection n sv (f sv)"
  by (simp add: keeps_reading_def keeps_preface_def)

text \<open>When the loop ends well, its calls were made, and the buffer holds what they returned.\<close>

lemma preface_loop_bytes:
  assumes "connection_shape cfg n sv" "buffer_size cfg \<le> LLPS_BUFFER_SIZE" "len \<le> unat (buffer_size cfg)"
    and "reading_undisturbed n answers"
    and "preface_read_loop ly answers n deadline True i cycles len sv = (None, len', sv')"
  shows "llps_fd_is_valid (se_client_fd (sv_session n sv)) \<and>
    (\<exists>j > i. take len' (se_c2s_buf (sv_session n sv')) = take len (se_c2s_buf (sv_session n sv)) @ client_bytes answers i j)"
  using assms
proof (induction cycles arbitrary: i len sv)
  case 0
  then show ?case by simp
next
  case (Suc cycles)
  let ?sv = "pr_before (answers i) sv"
  have quiet: "keeps_reading n (pr_before (answers i))" "keeps_reading n (pr_wait (answers i))"
    using Suc.prems(4) by (simp_all add: reading_undisturbed_def)
  have b: "se_c2s_buf (sv_session n ?sv) = se_c2s_buf (sv_session n sv)"
    "se_client_fd (sv_session n ?sv) = se_client_fd (sv_session n sv)"
    using quiet(1) by (simp_all add: keeps_reading_def keeps_preface_def)
  have shape: "connection_shape cfg n ?sv" using shape_kept [OF keeps_reading_connection [OF quiet(1)] Suc.prems(1)] .
  obtain reason complete len1 sv1 where c: "llps_client_preface_read_cycle (answers i) n len deadline True ?sv =
      (reason, complete, len1, sv1)" by (metis prod_cases4)
  have none: "reason = None" using Suc.prems(5) c by (cases reason) auto
  note p = read_cycle_post [OF shape Suc.prems(2,3) keeps_reading_connection [OF quiet(2)] c [unfolded none]]
  note turn = read_cycle_bytes [OF shape Suc.prems(2) quiet(2) c [unfolded none]]
  show ?case
  proof (cases complete)
    case True
    then have seal: "llps_client_preface_seal ly n len1 sv1 = (None, sv')" "len' = len1"
      using Suc.prems(5) c none by (auto split: prod.splits)
    have "length (take len1 (se_c2s_buf (sv_session n sv1))) = len1"
      using p Suc.prems(2) by (simp add: connection_shape_def word_le_nat_alt)
    then have "take len1 (se_c2s_buf (sv_session n sv')) = take len1 (se_c2s_buf (sv_session n sv1))"
      using preface_seal_post [OF _ Suc.prems(2) _ seal(1)] p by (auto simp: holds_preface_def)
    then show ?thesis
      using turn(2,3) True seal(2) b client_bytes_one [of answers i] by (intro conjI exI [of _ "Suc i"]) simp_all
  next
    case False
    then have "preface_read_loop ly answers n deadline True (Suc i) cycles len1 sv1 = (None, len', sv')"
      using Suc.prems(5) c none by simp
    from Suc.IH [OF _ Suc.prems(2) _ Suc.prems(4) this] p
    obtain j where j: "j > Suc i" "llps_fd_is_valid (se_client_fd (sv_session n sv1))"
      "take len' (se_c2s_buf (sv_session n sv')) = take len1 (se_c2s_buf (sv_session n sv1)) @ client_bytes answers (Suc i) j"
      by blast
    then show ?thesis
      using turn(1,3) b client_bytes_step [of i j answers] by (intro conjI exI [of _ j]) simp_all
  qed
qed

definition gate_on :: "llps_yml_config_t \<Rightarrow> bool" where
  "gate_on cfg \<longleftrightarrow> protocol_handshake_gate_enabled cfg \<noteq> 0 \<and> client_preface_timeout_ms cfg \<noteq> 0 \<and>
     buffer_size cfg \<le> LLPS_BUFFER_SIZE"

lemma cfg_held_gate:
  assumes "cfg_held k cfg env" "protocol_handshake_gate_enabled cfg \<noteq> 0"
  shows "gate_on cfg"
proof -
  obtain i :: nat where "i < 3" "i \<noteq> k" using other_two by blast
  then have "llps_runtime_cfg_values_are_valid cfg" using assms rcfg.valid_ok unfolding cfg_held_def by metis
  then show ?thesis
    using assms(2) by (auto simp: gate_on_def llps_runtime_cfg_values_are_valid_def llps_runtime_cfg_core_limits_are_valid_def
        split: if_splits)
qed

lemma preface_read_post:
  assumes gate: "gate_on cfg" and held: "cfg_held k cfg (rs_env (sv_rs sv))" and shape: "connection_shape cfg n sv"
    and waits: "\<And>i sv. keeps_connection n sv (pr_before (answers i) sv)" "\<And>i sv. keeps_connection n sv (pr_wait (answers i) sv)"
    and r: "llps_client_preface_read ly now answers n sv = (None, len, sv')"
  shows "\<exists>d. length d = len \<and> opens_with_handshake d \<and> holds_preface cfg n d sv' \<and>
    (reading_undisturbed n answers \<longrightarrow> (\<exists>turns. d = client_bytes answers 0 turns))"
proof -
  obtain rs where c: "sv_reconcile_cfg sv = (True, sv\<lparr>sv_rs := rs\<rparr>)" "env_runtime_cfg (rs_env rs) = cfg"
    using sv_reconcile_cfg_held [OF held] by blast
  let ?sv = "sv\<lparr>sv_rs := rs\<rparr>"
  have cfg: "sv_cfg ?sv = cfg" using c by (simp add: sv_cfg_def)
  then have s: "connection_shape cfg n ?sv" using shape by (simp add: connection_shape_def sv_session_def)
  obtain dl sv2 where dl: "llps_client_preface_deadline_ns now (client_preface_timeout_ms cfg) ?sv = (dl, sv2)" by fastforce
  have "calm ?sv sv2"
    using dl calm_now [of ?sv now] by (auto simp: llps_client_preface_deadline_ns_def Let_def split: prod.splits)
  then have s2: "connection_shape cfg n sv2" using s shape_calm by blast
  have loop: "preface_read_loop ly answers n dl True 0 LLPS_SOCKET_IO_STEP_MAX 0 sv2 = (None, len, sv')"
    using r c(1) cfg dl gate by (simp add: llps_client_preface_read_def llps_client_preface_load_config_def gate_on_def)
  have size: "buffer_size cfg \<le> LLPS_BUFFER_SIZE" using gate by (simp add: gate_on_def)
  obtain d where d: "length d = len" "opens_with_handshake d" "holds_preface cfg n d sv'"
    using preface_loop_post [OF s2 size _ waits loop] by auto
  then have "d = take len (se_c2s_buf (sv_session n sv'))" by (simp add: holds_preface_def)
  moreover have "\<exists>turns. take len (se_c2s_buf (sv_session n sv')) = client_bytes answers 0 turns"
    if "reading_undisturbed n answers"
    using preface_loop_bytes [OF s2 size _ that loop] by auto
  ultimately show ?thesis using d by (intro exI [of _ d]) blast
qed

section \<open>Sending them\<close>

lemma preface_repair_post:
  assumes holds: "holds_preface cfg n d sv" and size: "buffer_size cfg \<le> LLPS_BUFFER_SIZE" and step: "preface_upsets n sv sv1"
    and r: "llps_backend_preface_repair_payload n (length d) sv1 = (reason, sv2)"
  shows "reason = None \<Longrightarrow> holds_preface cfg n d sv2"
    and "(payload_ecc_enabled cfg \<noteq> 0 \<Longrightarrow> (\<And>j. j < llps_payload_ecc_word_count_for_len (length d) \<Longrightarrow>
      one_upset (fst (preface_word n j sv)) (preface_word n j sv1))) \<Longrightarrow> reason = None"
proof -
  let ?cap = "unat (buffer_size cfg)"
  let ?buf = "\<lambda>sv. se_c2s_buf (sv_session n sv)" and ?ecc = "\<lambda>sv. se_c2s_payload_ecc (sv_session n sv)"
  let ?word = "\<lambda>sv. stored_word (?buf sv) (?ecc sv) ?cap"
  have shape: "connection_shape cfg n sv" and cap: "?cap \<le> 4096" "length d \<le> ?cap"
    using holds size by (simp_all add: holds_preface_def word_le_nat_alt)
  have keeps: "keeps_connection n sv sv1" using step by (simp add: preface_upsets_def)
  note shape1 = shape_kept [OF keeps shape]
  have words: "preface_word n j sv = ?word sv j" "preface_word n j sv1 = ?word sv1 j" for j
    using shape shape1 by (simp_all add: connection_shape_def)
  have off: "reason = None \<and> holds_preface cfg n d sv2" if "payload_ecc_enabled cfg = 0"
  proof -
    have "sv2 = sv1" "reason = None"
      using r shape1 that by (simp_all add: llps_backend_preface_repair_payload_def connection_shape_def)
    then show ?thesis using holds shape shape1 step that by (simp add: holds_preface_def preface_upsets_def connection_shape_def)
  qed
  have on: "(reason = None \<longrightarrow> holds_preface cfg n d sv2) \<and>
      ((\<forall>j < llps_payload_ecc_word_count_for_len (length d). one_upset (fst (?word sv j)) (?word sv1 j)) \<longrightarrow> reason = None)"
    if p: "payload_ecc_enabled cfg \<noteq> 0"
  proof -
    have sealed: "sealed_payload d ?cap (?buf sv) (?ecc sv)" using holds p by (simp add: holds_preface_def)
    obtain ok buf2 ecc2 sc2 where rep: "llps_payload_ecc_repair (?buf sv1) (length d) ?cap (?ecc sv1)
        LLPS_PAYLOAD_ECC_WORD_COUNT (sv_counters sv1) = (ok, buf2, ecc2, sc2)" by (metis prod_cases4)
    have lens: "?cap \<le> length (?buf sv1)" "length (?buf sv1) = length (?buf sv)" "length (?ecc sv1) = LLPS_PAYLOAD_ECC_WORD_COUNT"
      using shape shape1 cap by (simp_all add: connection_shape_def)
    have upset: "one_upset (fst (?word sv j)) (?word sv1 j) \<or> two_upsets (fst (?word sv j)) (?word sv1 j)"
      if "j < llps_payload_ecc_word_count_for_len (length d)" for j
      using step p shape shape1 sealed that order.strict_trans2 [OF that word_count_mono [OF cap(2)]]
      by (simp add: preface_upsets_def sealed_payload_def connection_shape_def)
    have res: "reason = None \<longleftrightarrow> ok" "sv2 = sv_set_counters sc2 (sv_put_session n
        ((sv_session n sv1)\<lparr>se_c2s_buf := buf2, se_c2s_payload_ecc := ecc2\<rparr>) sv1)"
      using r rep p shape1
      by (auto simp: llps_backend_preface_repair_payload_def connection_shape_def Let_def split: if_splits)
    note v = repair_verdict [OF sealed _ lens upset rep]
    have "holds_preface cfg n d sv2" if ok
    proof -
      have w: "sealed_payload d ?cap buf2 ecc2" "length buf2 = 4096" "length ecc2 = 512"
        using v(1) that cap shape shape1 by (auto simp: connection_shape_def)
      have "sv_cfg sv2 = sv_cfg sv1" by (simp add: res(2) sv_cfg_def sv_set_counters_def sv_put_session_def)
      then show ?thesis
        using w cap shape1 by (simp add: holds_preface_def connection_shape_def sealed_payload_def res(2))
    qed
    then show ?thesis using res(1) v(2) cap by auto
  qed
  show "reason = None \<Longrightarrow> holds_preface cfg n d sv2" using on off by blast
  show "(payload_ecc_enabled cfg \<noteq> 0 \<Longrightarrow> (\<And>j. j < llps_payload_ecc_word_count_for_len (length d) \<Longrightarrow>
      one_upset (fst (preface_word n j sv)) (preface_word n j sv1))) \<Longrightarrow> reason = None"
    using on off unfolding words by blast
qed

definition flush_at :: "u8 list \<Rightarrow> flush_progress \<Rightarrow> bool" where
  "flush_at d fp \<longleftrightarrow> fp_off fp \<le> length d \<and> fp_sent fp = take (fp_off fp) d"

lemma flush_wait_post:
  assumes "llps_backend_preface_wait_writable rc fd fp sv = (reason, fp', sv')"
  shows "calm sv sv'" "fp_off fp' = fp_off fp \<and> fp_sent fp' = fp_sent fp"
  using assms by (auto simp: llps_backend_preface_wait_writable_def split: if_splits prod.splits dest: calm_poll)

lemma flush_step_post:
  assumes holds: "holds_preface cfg n d sv" and size: "buffer_size cfg \<le> LLPS_BUFFER_SIZE" and step: "preface_upsets n sv sv1"
    and at: "flush_at d fp"
    and r: "llps_backend_preface_flush_step answer n (length d) fp sv1 = (reason, fp', sv')"
  shows "flush_at d fp'" "reason = None \<Longrightarrow> holds_preface cfg n d sv'"
proof -
  obtain failed sv2 where rep: "llps_backend_preface_repair_payload n (length d) sv1 = (failed, sv2)" by fastforce
  have "flush_at d fp' \<and> (reason = None \<longrightarrow> holds_preface cfg n d sv')"
  proof (cases failed)
    case (Some f)
    then show ?thesis using r rep at by (auto simp: llps_backend_preface_flush_step_def Let_def)
  next
    case None
    have h: "holds_preface cfg n d sv2" by (rule preface_repair_post(1) [OF holds size step rep None])
    have d: "take (length d) (se_c2s_buf (sv_session n sv2)) = d" using h by (simp add: holds_preface_def)
    have bytes: "take w (drop (fp_off fp) (se_c2s_buf (sv_session n sv2))) = take w (drop (fp_off fp) d)"
      if "w \<le> length d - fp_off fp" for w
    proof -
      have "take w (drop (fp_off fp) (se_c2s_buf (sv_session n sv2))) =
          take w (drop (fp_off fp) (take (length d) (se_c2s_buf (sv_session n sv2))))"
        using that by (simp add: drop_take min_absorb1)
      then show ?thesis using d by simp
    qed
    note cases = r [unfolded llps_backend_preface_flush_step_def rep None, simplified Let_def, simplified]
    show ?thesis
    proof (cases answer)
      case (Sent w)
      then show ?thesis
        using cases at h bytes [of w] by (auto simp: flush_at_def take_add not_less split: if_splits)
    next
      case (Send_blocked rc)
      then show ?thesis using cases at h flush_wait_post holds_preface_calm by (fastforce simp: flush_at_def)
    next
      case Send_failed
      then show ?thesis using cases at by auto
    qed
  qed
  then show "flush_at d fp'" "reason = None \<Longrightarrow> holds_preface cfg n d sv'" by simp_all
qed

lemma flush_loop_post:
  assumes "holds_preface cfg n d sv" "buffer_size cfg \<le> LLPS_BUFFER_SIZE" "\<And>i sv. preface_upsets n sv (wa_before (answers i) sv)"
    and "flush_at d fp" "preface_flush_loop answers n (length d) i steps fp sv = (reason, fp', sv')"
  shows "flush_at d fp'"
  using assms
proof (induction steps arbitrary: i fp sv)
  case 0
  then show ?case by simp
next
  case (Suc steps)
  obtain r1 fp1 sv1 where s: "llps_backend_preface_flush_step (wa_send (answers i)) n (length d) fp
      (wa_before (answers i) sv) = (r1, fp1, sv1)" by (metis prod_cases3)
  note p = flush_step_post [OF Suc.prems(1,2,3,4) s]
  show ?case
  proof (cases "fp_off fp < length d \<and> r1 = None")
    case True
    then have "preface_flush_loop answers n (length d) (Suc i) steps fp1 sv1 = (reason, fp', sv')"
      using Suc.prems(5) s by simp
    from Suc.IH [OF p(2) Suc.prems(2,3) p(1) this] True show ?thesis by blast
  next
    case False
    then show ?thesis using Suc.prems(4,5) s p(1) by (auto split: if_splits option.splits)
  qed
qed

lemma flush_post:
  assumes holds: "holds_preface cfg n d sv" and size: "buffer_size cfg \<le> LLPS_BUFFER_SIZE"
    and steps: "\<And>i sv. preface_upsets n sv (wa_before (answers i) sv)"
    and r: "llps_backend_preface_flush answers now n (length d) sv = (reason, sent, sv')"
  shows "(\<exists>rest. d = sent @ rest) \<and> (reason = None \<longrightarrow> sent = d)"
proof -
  have len: "length d \<le> unat (buffer_size (sv_cfg sv))" using holds by (simp add: holds_preface_def connection_shape_def)
  obtain r1 fp sv1 where l: "preface_flush_loop answers n (length d) 0 LLPS_SOCKET_IO_STEP_MAX
      \<lparr>fp_off = 0, fp_retry_count = 0, fp_sent = []\<rparr> sv = (r1, fp, sv1)" by (metis prod_cases3)
  have "flush_at d fp" by (rule flush_loop_post [OF holds size steps _ l]) (simp add: flush_at_def)
  then have at: "fp_off fp \<le> length d" "fp_sent fp = take (fp_off fp) d" by (simp_all add: flush_at_def)
  have "\<exists>rest. d = fp_sent fp @ rest" using at by (metis append_take_drop_id)
  then show ?thesis
    using r len l at by (auto simp: llps_backend_preface_flush_def llps_backend_preface_flush_validate_def split: if_splits option.splits)
qed

section \<open>The task\<close>

lemma is_active_held:
  assumes "cfg_held k cfg (rs_env (sv_rs sv))" "llps_session_is_active n sv = (r, sv')"
  shows "cfg_held 3 cfg (rs_env (sv_rs sv'))"
proof -
  obtain rs where c: "sv_reconcile_cfg sv = (True, sv\<lparr>sv_rs := rs\<rparr>)" "cfg_held 3 cfg (rs_env rs)"
    using sv_reconcile_cfg_held [OF assms(1)] by blast
  then show ?thesis
    using assms(2)
    by (auto simp: llps_session_is_active_def llps_session_reconcile_integrity_def sv_put_session_def cfg_held_def
        sv_set_counters_def split: option.splits prod.splits)
qed

lemma shape_is_active:
  assumes "cfg_held k cfg (rs_env (sv_rs sv))" "llps_session_is_active n sv = (r, sv')" "n < length (sv_sessions sv)"
    and "length (se_c2s_buf (sv_session n sv)) = LLPS_PAYLOAD_BUFFER_SIZE"
      "length (se_c2s_payload_ecc (sv_session n sv)) = LLPS_PAYLOAD_ECC_WORD_COUNT"
  shows "connection_shape cfg n sv'"
  using same_transfer_is_active [OF assms(2)] is_active_cfg [OF assms(1,2)] assms(3-5)
  by (simp add: connection_shape_def same_transfer_def)

lemma connect_wait_post:
  assumes "\<And>i sv. keeps_preface n sv (cn_before (answers i) sv)" "holds_preface cfg n d sv"
    and "connect_wait_loop answers fd i attempts sv = (None, sv')"
  shows "holds_preface cfg n d sv'"
  using assms(2,3)
proof (induction attempts arbitrary: i sv)
  case 0
  then show ?case by simp
next
  case (Suc attempts)
  let ?sv = "cn_before (answers i) sv"
  obtain reason up sv1 where p: "llps_backend_connect_poll_once (answers i) fd ?sv = ((reason, up), sv1)" by (metis prod.exhaust)
  have "calm ?sv sv1" using p calm_poll by (fastforce simp: llps_backend_connect_poll_once_def split: prod.splits)
  then have h: "holds_preface cfg n d sv1" using holds_preface_kept [OF assms(1) Suc.prems(1)] holds_preface_calm by blast
  have "reason = None" using Suc.prems(2) p by (cases reason) auto
  then show ?case using Suc.prems(2) Suc.IH [OF h, of "Suc i"] p h by (cases up) auto
qed

lemma connect_post:
  assumes "\<And>i sv. keeps_preface n sv (cn_before (ce_connect ce i) sv)" "holds_preface cfg n d sv"
    and "llps_connection_connect_backend ce n sv = (True, sv')"
  shows "holds_preface cfg n d sv'"
proof -
  obtain r sv1 where w: "llps_backend_connect_wait (ce_connect_rc ce) (ce_connect_errno ce) (ce_connect ce)
      (se_backend_fd (sv_session n sv)) sv = (r, sv1)" by fastforce
  then have "r = None" and sv': "sv' = llps_session_touch n (ce_connect_now ce) sv1"
    using assms(3) by (auto simp: llps_connection_connect_backend_def fail_connection_def split: option.splits)
  have "holds_preface cfg n d sv1"
    using w \<open>r = None\<close> assms(2) connect_wait_post [OF assms(1,2)]
    by (auto simp: llps_backend_connect_wait_def split: if_splits)
  then show ?thesis using holds_preface_calm [OF calm_touch] sv' by blast
qed

lemma before_flush_post:
  assumes holds: "holds_preface cfg n d sv" and ce: "connection_sound n ce"
    and o: "llps_connection_open_backend_socket ce n sv = (True, sv1)"
    and s: "llps_connection_setup_backend_fd ce n sv1 = (True, sv2)"
    and c: "llps_connection_connect_backend ce n sv2 = (True, sv3)"
  shows "holds_preface cfg n d sv3"
proof -
  have "sv1 = set_backend_fd (ce_socket ce) n sv"
    using o by (auto simp: llps_connection_open_backend_socket_def fail_connection_def split: if_splits)
  moreover have "sv2 = sv1"
    using s by (auto simp: llps_connection_setup_backend_fd_def fail_connection_def Let_def split: if_splits)
  ultimately have "holds_preface cfg n d sv2" using holds_preface_calm [OF calm_set_backend_fd holds] by simp
  then show ?thesis by (rule connect_post [OF _ _ c, rotated]) (use ce in \<open>simp add: connection_sound_def\<close>)
qed

text \<open>What the task sends to the backend itself, when it has read the first bytes.\<close>

lemma task_sent:
  assumes holds: "holds_preface cfg n d sv" and size: "buffer_size cfg \<le> LLPS_BUFFER_SIZE" and ce: "connection_sound n ce"
    and steps: "llps_connection_open_backend_socket ce n sv = (True, sv1)" "llps_connection_setup_backend_fd ce n sv1 = (True, sv2)"
      "llps_connection_connect_backend ce n sv2 = (True, sv3)"
    and f: "llps_connection_flush_preface ce n (length d) sv3 = (ok, sent, sv4)"
  shows "(\<exists>rest. d = sent @ rest) \<and> (ok \<longrightarrow> sent = d)"
proof -
  obtain reason sv5 where r: "llps_backend_preface_flush (ce_flush ce) (ce_flush_now ce) n (length d) sv3 = (reason, sent, sv5)"
    using f by (auto simp: llps_connection_flush_preface_def split: prod.splits option.splits)
  have "ok \<Longrightarrow> reason = None"
    using f r by (auto simp: llps_connection_flush_preface_def fail_connection_def split: option.splits)
  moreover have "(\<exists>rest. d = sent @ rest) \<and> (reason = None \<longrightarrow> sent = d)"
    by (rule flush_post [OF before_flush_post [OF holds ce steps] size _ r]) (use ce in \<open>simp add: connection_sound_def\<close>)
  ultimately show ?thesis by blast
qed

lemma read_preface_post:
  assumes gate: "gate_on cfg" and held: "cfg_held k cfg (rs_env (sv_rs sv))" and shape: "connection_shape cfg n sv"
    and ce: "connection_sound n ce" and r: "llps_connection_read_preface ly ce n sv = (True, len, sv')"
  shows "\<exists>d. length d = len \<and> opens_with_handshake d \<and> holds_preface cfg n d sv' \<and>
    (reading_undisturbed n (ce_preface ce) \<longrightarrow> (\<exists>turns. d = client_bytes (ce_preface ce) 0 turns))"
proof -
  have "llps_client_preface_read ly (ce_start_now ce) (ce_preface ce) n sv = (None, len, sv')"
    using r by (auto simp: llps_connection_read_preface_def fail_connection_def Let_def split: prod.splits option.splits)
  from preface_read_post [OF gate held shape _ _ this] ce show ?thesis by (simp add: connection_sound_def)
qed

lemma backend_addr_post:
  assumes held: "cfg_held k cfg (rs_env (sv_rs sv))" and shape: "connection_shape cfg n sv"
    and r: "llps_connection_prepare_backend_addr ce n sv = (True, sv')"
  shows "cfg_held 3 cfg (rs_env (sv_rs sv')) \<and> connection_shape cfg n sv'"
proof -
  obtain rs where c: "sv_reconcile_cfg sv = (True, sv\<lparr>sv_rs := rs\<rparr>)" "env_runtime_cfg (rs_env rs) = cfg"
      "cfg_held 3 cfg (rs_env rs)"
    using sv_reconcile_cfg_held [OF held] by blast
  have "sv' = sv\<lparr>sv_rs := rs\<rparr>"
    using r c by (auto simp: llps_connection_prepare_backend_addr_def llps_build_backend_addr_def fail_connection_def split: if_splits)
  then show ?thesis using c shape by (simp add: connection_shape_def sv_session_def sv_cfg_def)
qed

section \<open>Properties\<close>

text \<open>
  C2: With the gate on, nothing reaches the backend of a connection whose first bytes do not begin with a
  well-formed handshake. Either the task gives up without having sent a byte, or there is a text
  that begins with a handshake packet of the protocol, what the task sent is a prefix of that text,
  and the pumps are started only when all of it is sent. When nothing else writes to the buffer of the
  session or changes its peers while the task reads (\<open>reading_undisturbed\<close>), that text is what the first
  so many reads returned, in their order: the bytes of the client. This holds whatever the client
  sends, in pieces of any size, whatever the backend socket answers, and with up to two flipped bits in
  every protected word before every step of the sending: a bit that flips after the check of the gate
  cannot turn the bytes that were checked into others.
\<close>

theorem connection_gate:
  assumes "cfg_held k cfg (rs_env (sv_rs sv))" "protocol_handshake_gate_enabled cfg \<noteq> 0"
    and "n < length (sv_sessions sv)" "length (se_c2s_buf (sv_session n sv)) = LLPS_PAYLOAD_BUFFER_SIZE"
      "length (se_c2s_payload_ecc (sv_session n sv)) = LLPS_PAYLOAD_ECC_WORD_COUNT"
    and "connection_sound n ce"
    and "llps_task_connection ly ce n sv = (stage, sent, sv')"
  shows "stage = Gave_up \<and> sent = [] \<or>
    (\<exists>version addr port_hi port_lo next_state more rest.
       handshake_fields_ok version addr port_hi port_lo next_state \<and>
       handshake_packet version addr port_hi port_lo next_state @ more = sent @ rest \<and> (stage = Gave_up \<or> rest = []) \<and>
       (reading_undisturbed n (ce_preface ce) \<longrightarrow> (\<exists>turns. sent @ rest = client_bytes (ce_preface ce) 0 turns)))"
proof -
  have gate: "gate_on cfg" by (rule cfg_held_gate [OF assms(1,2)])
  then have size: "buffer_size cfg \<le> LLPS_BUFFER_SIZE" by (simp add: gate_on_def)
  have "\<exists>d rest. opens_with_handshake d \<and> d = sent @ rest \<and> (stage = Gave_up \<or> rest = []) \<and>
      (reading_undisturbed n (ce_preface ce) \<longrightarrow> (\<exists>turns. d = client_bytes (ce_preface ce) 0 turns))"
    if sends: "\<not> (stage = Gave_up \<and> sent = [])"
  proof -
    obtain svA svB svC svD svE svF sv4 len ok where
      steps: "llps_session_is_active n sv = (True, svA)" "llps_connection_prepare_backend_addr ce n svA = (True, svB)"
        "llps_connection_read_preface ly ce n svB = (True, len, svC)"
        "llps_connection_open_backend_socket ce n svC = (True, svD)" "llps_connection_setup_backend_fd ce n svD = (True, svE)"
        "llps_connection_connect_backend ce n svE = (True, svF)" "llps_connection_flush_preface ce n len svF = (ok, sent, sv4)"
      and done_if: "ok \<or> stage = Gave_up"
      using assms(7) sends by (auto simp: llps_task_connection_def Let_def split: prod.splits bool.splits)
    note active = is_active_held [OF assms(1) steps(1)] shape_is_active [OF assms(1) steps(1) assms(3-5)]
    obtain d where d: "length d = len" "opens_with_handshake d" "holds_preface cfg n d svC"
        "reading_undisturbed n (ce_preface ce) \<longrightarrow> (\<exists>turns. d = client_bytes (ce_preface ce) 0 turns)"
      using read_preface_post [OF gate _ _ assms(6) steps(3)] backend_addr_post [OF active steps(2)] by blast
    from task_sent [OF d(3) size assms(6) steps(4-6)] steps(7) d(1)
    obtain rest where "d = sent @ rest" "ok \<Longrightarrow> sent = d" by blast
    then show ?thesis using d(2,4) done_if by auto
  qed
  then show ?thesis unfolding opens_with_handshake_def by metis
qed

section \<open>A client with a handshake gets through\<close>

lemma deadline_ahead:
  assumes "unat start + unat timeout * 1000000 < 2 ^ 64" "unat now < unat start + unat timeout * 1000000"
  shows "fst (llps_client_preface_deadline_ns start timeout sv) > now"
proof -
  have u: "unat (ucast timeout :: u64) = unat timeout"
    by (simp add: unsigned_ucast_eq take_bit_nat_eq_self order.strict_trans [OF unsigned_less])
  have t: "unat (ucast timeout * LLPS_NSEC_PER_MSEC :: u64) = unat timeout * 1000000"
    using assms(1) by (simp add: unat_word_ariths u)
  have "\<not> UINT64_MAX - start < ucast timeout * LLPS_NSEC_PER_MSEC"
    using assms(1) t unsigned_less [of start] by (simp add: word_less_nat_alt unat_sub word_le_nat_alt)
  moreover have "unat (start + ucast timeout * LLPS_NSEC_PER_MSEC) = unat start + unat timeout * 1000000"
    using assms(1) t by (simp add: unat_word_ariths)
  ultimately show ?thesis
    using assms(2) by (simp add: llps_client_preface_deadline_ns_def now_checked_eq word_less_nat_alt)
qed

subsection \<open>Environments that do not stand in the way\<close>

text \<open>
  The reads: each turn up to \<open>turns\<close> starts before the deadline and brings some bytes or finds none
  there yet.
\<close>

definition reads_in_time :: "llps_yml_config_t \<Rightarrow> nat \<Rightarrow> connection_env \<Rightarrow> nat \<Rightarrow> bool" where
  "reads_in_time cfg n ce turns \<longleftrightarrow> reading_undisturbed n (ce_preface ce) \<and> turns \<le> LLPS_SOCKET_IO_STEP_MAX \<and>
     unat (ce_start_now ce) + unat (client_preface_timeout_ms cfg) * 1000000 < 2 ^ 64 \<and>
     (\<forall>i < turns. unat (pr_now (ce_preface ce i)) < unat (ce_start_now ce) + unat (client_preface_timeout_ms cfg) * 1000000 \<and>
        (pr_read (ce_preface ce i) = Ready_error Would_block \<or> (\<exists>bs. bs \<noteq> [] \<and> pr_read (ce_preface ce i) = Ready_bytes bs)))"

text \<open>The connection: at once, or in progress and there after fewer than 500 polls.\<close>

definition still_connecting :: "connect_answer \<Rightarrow> bool" where
  "still_connecting ca \<longleftrightarrow> cn_poll_rc ca = 0 \<or>
     0 < sint (cn_poll_rc ca) \<and> cn_revents ca AND POLLNVAL = 0 \<and> 0 \<le> sint (cn_sockopt_rc ca) \<and>
     (cn_so_error ca = EINPROGRESS \<or> cn_so_error ca = EALREADY)"

definition now_connected :: "connect_answer \<Rightarrow> bool" where
  "now_connected ca \<longleftrightarrow> 0 < sint (cn_poll_rc ca) \<and> cn_revents ca AND POLLNVAL = 0 \<and> cn_revents ca AND POLLOUT \<noteq> 0 \<and>
     0 \<le> sint (cn_sockopt_rc ca) \<and> cn_so_error ca = 0"

definition connects :: "nat \<Rightarrow> connection_env \<Rightarrow> nat \<Rightarrow> bool" where
  "connects n ce polls \<longleftrightarrow> ce_addr_valid ce \<and> 0 \<le> sint (ce_socket ce) \<and> 0 \<le> sint (ce_getfd ce) \<and> 0 \<le> sint (ce_setfd ce) \<and>
     0 \<le> sint (ce_getfl ce) \<and> 0 \<le> sint (ce_setfl ce) \<and> ce_nodelay ce = 0 \<and>
     (ce_connect_rc ce = 0 \<or>
      ce_connect_rc ce \<noteq> 0 \<and> ce_connect_errno ce = EINPROGRESS \<and> polls < 500 \<and> (\<forall>i. keeps_reading n (cn_before (ce_connect ce i))) \<and>
      (\<forall>i < polls. still_connecting (ce_connect ce i)) \<and> now_connected (ce_connect ce polls))"

text \<open>
  The sending: a step before a send upsets at most one bit of every protected word and leaves the peers alone,
  and the socket takes the bytes in pieces of any size, with waits in between within the retry budget.
\<close>

definition quiet_preface :: "nat \<Rightarrow> server_state \<Rightarrow> server_state \<Rightarrow> bool" where
  "quiet_preface n sv sv' \<longleftrightarrow> preface_upsets n sv sv' \<and> peers_of (sv_session n sv') = peers_of (sv_session n sv) \<and>
     (payload_ecc_enabled (sv_cfg sv) \<noteq> 0 \<longrightarrow>
       (\<forall>j < llps_payload_ecc_word_count_for_len (unat (buffer_size (sv_cfg sv))). word_sealed (preface_word n j sv) \<longrightarrow>
          one_upset (fst (preface_word n j sv)) (preface_word n j sv')))"

definition takes_bytes :: "nat \<Rightarrow> connection_env \<Rightarrow> send_answer list \<Rightarrow> nat \<Rightarrow> bool" where
  "takes_bytes n ce sends count \<longleftrightarrow> (\<forall>i sv. quiet_preface n sv (wa_before (ce_flush ce i) sv)) \<and>
     good_sends count (unat LLPS_IO_RETRY_BUDGET) sends \<and> (\<forall>i < length sends. wa_send (ce_flush ce i) = sends ! i)"

text \<open>The rest: the audit log, when it is on, records the event, and the tasks of the pumps start.\<close>

definition starts_pumps :: "connection_env \<Rightarrow> bool" where
  "starts_pumps ce \<longleftrightarrow> (au_enabled (ce_audit ce ''connected'') \<longrightarrow> au_recorded (ce_audit ce ''connected'')) \<and>
     0 \<le> sint (ce_client_getfl ce) \<and> 0 \<le> sint (ce_client_setfl ce) \<and>
     ce_group_created ce \<and> ce_opts_prepared ce \<and> ce_spawned_c2s ce \<and> ce_spawned_s2c ce"

subsection \<open>Reading\<close>

lemma client_bytes_Suc: "client_bytes answers 0 (Suc i) = client_bytes answers 0 i @ received (answers i)"
  by (simp add: client_bytes_def)

lemma client_bytes_prefix: "i \<le> j \<Longrightarrow> \<exists>z. client_bytes answers 0 j = client_bytes answers 0 i @ z"
proof (induction j rule: dec_induct)
  case (step j)
  then show ?case by (auto simp: client_bytes_Suc)
qed simp

text \<open>One turn. Its verdict is that of the text read so far.\<close>

lemma read_cycle_turn:
  assumes shape: "connection_shape cfg n sv" and size: "buffer_size cfg \<le> LLPS_BUFFER_SIZE"
    and fd: "llps_fd_is_valid (se_client_fd (sv_session n sv))" and quiet: "keeps_reading n (pr_wait pa)"
    and time: "pr_now pa < deadline" and room: "len < unat (buffer_size cfg)" "len + length (received pa) \<le> unat (buffer_size cfg)"
    and read: "pr_read pa = Ready_error Would_block \<or> (\<exists>bs. bs \<noteq> [] \<and> pr_read pa = Ready_bytes bs)"
    and verdict: "\<And>buf. take (len + length (received pa)) buf = take len (se_c2s_buf (sv_session n sv)) @ received pa \<Longrightarrow>
        llps_protocol_handshake_validate buf (len + length (received pa)) =
          (if complete then LLPS_PROTOCOL_HANDSHAKE_VALID else LLPS_PROTOCOL_HANDSHAKE_NEED_MORE)"
    and goes_on: "received pa = [] \<Longrightarrow> \<not> complete" "\<not> complete \<Longrightarrow> len + length (received pa) < unat (buffer_size cfg)"
  shows "\<exists>sv'. llps_client_preface_read_cycle pa n len deadline True sv = (None, complete, len + length (received pa), sv') \<and>
    connection_shape cfg n sv' \<and> peers_of (sv_session n sv') = peers_of (sv_session n sv) \<and>
    take (len + length (received pa)) (se_c2s_buf (sv_session n sv')) = take len (se_c2s_buf (sv_session n sv)) @ received pa"
proof -
  obtain t sv1 where t: "llps_client_preface_read_timeout_ms (pr_now pa) deadline sv = ((None, t), sv1)" "0 \<le> sint t"
    and sv1: "sv1 = sv\<lparr>sv_rs := snd (llps_llam_now_ns_checked (pr_now pa) (sv_rs sv))\<rparr>"
    using positive_timeout [OF time] by blast
  have s1: "connection_shape cfg n sv1" "sv_session n sv1 = sv_session n sv"
    using shape_calm [OF calm_now shape] by (simp_all add: sv1)
  let ?w = "pr_wait pa sv1"
  have w: "keeps_preface n sv1 ?w" "peers_of (sv_session n ?w) = peers_of (sv_session n sv)"
    using quiet by (simp_all add: keeps_reading_def s1(2))
  have sw: "connection_shape cfg n ?w" "se_c2s_buf (sv_session n ?w) = se_c2s_buf (sv_session n sv)"
    using w(1) shape_kept [OF _ s1(1), of ?w] by (simp_all add: keeps_preface_def s1(2))
  have fd1: "llps_fd_is_valid (se_client_fd (sv_session n sv1))" using fd s1(2) by simp
  note made = read_call_made [OF fd1 room_open [OF s1(1) room(1) size] t(2)]
  have sz: "unat (buffer_size (sv_cfg sv1)) = unat (buffer_size cfg)" using s1(1) by (simp add: connection_shape_def)
  show ?thesis
  proof (cases "pr_read pa = Ready_error Would_block")
    case True
    then have r: "received pa = []" "\<not> complete" using goes_on(1) by (simp_all add: received_def)
    let ?sv' = "snd (unless_stopping True ?w)"
    have "llps_client_preface_read_chunk pa n len t sv1 = (None, False, len, ?sv')"
      by (simp add: llps_client_preface_read_chunk_def made True Let_def)
    then have c: "llps_client_preface_read_cycle pa n len deadline True sv = (None, False, len, ?sv')"
      using t(1) room(1) sz by (simp add: llps_client_preface_read_cycle_def not_le)
    have "connection_shape cfg n ?sv'" by (rule shape_calm [OF calm_only_rs [OF only_rs_unless_stopping] sw(1)])
    then show ?thesis using c r w(2) sw(2) by simp
  next
    case False
    then obtain bs where b: "bs \<noteq> []" "pr_read pa = Ready_bytes bs" using read by blast
    then have rec: "received pa = bs" by (simp add: received_def)
    let ?st = "preface_store n len bs ?w" and ?sv' = "llps_session_touch n (pr_touch pa) (preface_store n len bs ?w)"
    have n: "n < length (sv_sessions ?w)" "len \<le> length (se_c2s_buf (sv_session n sv))"
      using sw shape room(1) size by (simp_all add: connection_shape_def word_le_nat_alt)
    have st: "connection_shape cfg n ?st" by (rule shape_store [OF sw(1) size]) (use room(2) rec in simp)
    have "length bs \<le> unat (preface_room len ?st)" using room_unat [OF st, of len] room rec by simp
    then have c: "llps_client_preface_read_chunk pa n len t sv1 = (None, True, len + length bs, ?sv')"
      using b by (simp add: llps_client_preface_read_chunk_def made Let_def not_less)
    have f: "connection_shape cfg n ?sv'" "se_c2s_buf (sv_session n ?sv') = se_c2s_buf (sv_session n ?st)"
      "peers_of (sv_session n ?sv') = peers_of (sv_session n sv)"
      using shape_calm [OF calm_touch st] calm_fields(1) [OF calm_touch] peers_touch [of n "pr_touch pa" ?st] n(1) w(2)
      by (simp_all add: preface_store_def Let_def)
    have whole: "take (len + length bs) (se_c2s_buf (sv_session n ?sv')) = take len (se_c2s_buf (sv_session n sv)) @ bs"
      unfolding f(2) using n sw(2) by (simp add: preface_store_def Let_def)
    have "llps_client_preface_check_gate n (len + length bs) True ?sv' = (None, complete)"
      using verdict [of "se_c2s_buf (sv_session n ?sv')"] whole goes_on(2) f(1)
      by (cases complete) (simp_all add: llps_client_preface_check_gate_def rec connection_shape_def not_le)
    then have "llps_client_preface_read_cycle pa n len deadline True sv = (None, complete, len + length bs, ?sv')"
      using t(1) c room(1) sz by (simp add: llps_client_preface_read_cycle_def not_le)
    then show ?thesis using f whole rec by blast
  qed
qed

lemma seal_admits:
  assumes shape: "connection_shape cfg n sv" and size: "buffer_size cfg \<le> LLPS_BUFFER_SIZE" and len: "len \<le> unat (buffer_size cfg)"
  shows "\<exists>sv'. llps_client_preface_seal ly n len sv = (None, sv') \<and> peers_of (sv_session n sv') = peers_of (sv_session n sv)"
proof (cases "payload_ecc_enabled cfg = 0")
  case True
  then show ?thesis using shape by (simp add: llps_client_preface_seal_def connection_shape_def)
next
  case False
  have d: "unat (buffer_size cfg) \<le> 4096" using size by (simp add: word_le_nat_alt)
  have n: "n < length (sv_sessions sv)" using shape by (simp add: connection_shape_def)
  have t: "length (take len (se_c2s_buf (sv_session n sv))) = len" using shape len d by (simp add: connection_shape_def)
  obtain buf1 ecc1 where s: "llps_payload_ecc_seal (se_c2s_buf (sv_session n sv)) len (unat (buffer_size cfg))
      (se_c2s_payload_ecc (sv_session n sv)) LLPS_PAYLOAD_ECC_WORD_COUNT = (True, buf1, ecc1)"
    using seal_payload [of "take len (se_c2s_buf (sv_session n sv))" "unat (buffer_size cfg)" "se_c2s_buf (sv_session n sv)"
      "se_c2s_payload_ecc (sv_session n sv)"] shape len d t
    by (auto simp: connection_shape_def)
  let ?sv = "sv_put_session n ((sv_session n sv)\<lparr>se_c2s_buf := buf1, se_c2s_payload_ecc := ecc1\<rparr>) sv"
  let ?pump = "\<lparr>pa_session = ly_session ly n, pa_src_fd = 0, pa_dst_fd = 0, pa_buf = ly_c2s_buf ly n,
       pa_buf_len = ucast (buffer_size (sv_cfg sv)), pa_direction = LLPS_DIR_C2S\<rparr>"
  obtain ok sv' where l: "llps_payload_ecc_set_len_for_pump ly n ?pump len ?sv = (ok, sv')" by fastforce
  have ok using l len d by (auto simp: llps_payload_ecc_set_len_for_pump_def Let_def split: if_splits)
  moreover have "peers_of (sv_session n sv') = peers_of (sv_session n sv)"
    using peers_set_len [OF l] by (simp add: peers_put)
  ultimately show ?thesis
    using s l False shape by (auto simp: llps_client_preface_seal_def connection_shape_def Let_def)
qed

text \<open>All turns: the packet is complete in the last one and not before.\<close>

lemma read_loop_turns:
  assumes size: "buffer_size cfg \<le> LLPS_BUFFER_SIZE" and quiet: "reading_undisturbed n answers"
    and time: "\<And>i. i < turns \<Longrightarrow> pr_now (answers i) < deadline"
    and reads: "\<And>i. i < turns \<Longrightarrow> pr_read (answers i) = Ready_error Would_block \<or>
        (\<exists>bs. bs \<noteq> [] \<and> pr_read (answers i) = Ready_bytes bs)"
    and whole: "bs = client_bytes answers 0 turns" "length bs \<le> unat (buffer_size cfg)"
    and ok: "handshake_fields_ok ver addr hi lo ns" and bs: "bs = handshake_packet ver addr hi lo ns @ others"
    and last_turn: "length (client_bytes answers 0 (turns - 1)) < length (handshake_packet ver addr hi lo ns)"
    and "connection_shape cfg n sv" "llps_fd_is_valid (se_client_fd (sv_session n sv))"
      "len = length (client_bytes answers 0 i)" "take len (se_c2s_buf (sv_session n sv)) = client_bytes answers 0 i"
      "i < turns" "turns \<le> i + cycles"
  shows "\<exists>sv'. preface_read_loop ly answers n deadline True i cycles len sv = (None, length bs, sv') \<and>
    holds_preface cfg n bs sv' \<and> peers_of (sv_session n sv') = peers_of (sv_session n sv)"
  using assms(10-)
proof (induction cycles arbitrary: i len sv)
  case 0
  then show ?case by simp
next
  case (Suc cycles)
  let ?p = "handshake_packet ver addr hi lo ns" and ?sv = "pr_before (answers i) sv"
  let ?complete = "Suc i = turns" and ?c = "client_bytes answers 0 (Suc i)"
  have keeps: "keeps_reading n (pr_before (answers i))" "keeps_reading n (pr_wait (answers i))"
    using quiet by (simp_all add: reading_undisturbed_def)
  have sv: "connection_shape cfg n ?sv" "se_c2s_buf (sv_session n ?sv) = se_c2s_buf (sv_session n sv)"
    "peers_of (sv_session n ?sv) = peers_of (sv_session n sv)"
    using shape_kept [OF keeps_reading_connection [OF keeps(1)] Suc.prems(1)] keeps(1)
    by (simp_all add: keeps_reading_def keeps_preface_def)
  have c: "?c = client_bytes answers 0 i @ received (answers i)" "len + length (received (answers i)) = length ?c"
    using Suc.prems(3) by (simp_all add: client_bytes_Suc)
  obtain z where z: "bs = ?c @ z" using client_bytes_prefix [of "Suc i" turns answers] Suc.prems(5) whole(1) by auto
  have early: "length (client_bytes answers 0 j) < length ?p" if "j < turns" for j
  proof -
    have "j \<le> turns - 1" using that by simp
    then obtain y where "client_bytes answers 0 (turns - 1) = client_bytes answers 0 j @ y"
      using client_bytes_prefix by blast
    then show ?thesis using last_turn by simp
  qed
  have verdict: "llps_protocol_handshake_validate buf (length ?c) =
      (if ?complete then LLPS_PROTOCOL_HANDSHAKE_VALID else LLPS_PROTOCOL_HANDSHAKE_NEED_MORE)"
    if b: "take (length ?c) buf = ?c" for buf
  proof -
    have len_c: "length ?c \<le> length buf" using b by (metis length_take min.absorb_iff2 min.commute)
    have at: "buf ! j = bs ! j" if "j < length ?c" for j
      using that b z by (metis nth_append nth_take)
    show ?thesis
    proof (cases ?complete)
      case True
      then have "bs = ?c" using whole(1) by simp
      then have "?c = ?p @ others" using bs by simp
      moreover have "buf ! j = (?p @ others) ! j" if "j < length ?p + length others" for j
        using at [of j] that \<open>?c = ?p @ others\<close> bs by simp
      ultimately have "stands_at buf (length ?c) 0 ?p" by (simp add: stands_at_def nth_append)
      then show ?thesis using True handshake_valid_complete [OF ok] by simp
    next
      case False
      then have short: "length ?c < length ?p" using Suc.prems(5) by (intro early) simp
      have "buf ! j = ?p ! j" if "j < length ?c" for j
        using at [OF that] that short bs by (simp add: nth_append)
      then show ?thesis using False handshake_incomplete [OF ok short] by simp
    qed
  qed
  have p_len: "length ?p \<le> unat (buffer_size cfg)" using bs whole(2) by simp
  have room: "len < unat (buffer_size cfg)" "length ?c \<le> unat (buffer_size cfg)"
    using early [OF Suc.prems(5)] p_len Suc.prems(3) z whole(2) by simp_all
  have goes_on: "received (answers i) = [] \<Longrightarrow> \<not> ?complete" "\<not> ?complete \<Longrightarrow> length ?c < unat (buffer_size cfg)"
  proof -
    show "length ?c < unat (buffer_size cfg)" if "\<not> ?complete"
      using early [of "Suc i"] that Suc.prems(5) p_len by simp
    show "\<not> ?complete" if none: "received (answers i) = []"
    proof
      assume ?complete
      then have "length bs < length ?p" using early [OF Suc.prems(5)] none c(1) whole(1) by auto
      then show False using bs by simp
    qed
  qed
  obtain sv1 where r: "llps_client_preface_read_cycle (answers i) n len deadline True ?sv = (None, ?complete, length ?c, sv1)"
      "connection_shape cfg n sv1" "peers_of (sv_session n sv1) = peers_of (sv_session n sv)"
      "take (length ?c) (se_c2s_buf (sv_session n sv1)) = ?c"
    using read_cycle_turn [OF sv(1) size _ keeps(2) time [OF Suc.prems(5)] room(1) _ reads [OF Suc.prems(5)], of ?complete]
      Suc.prems(2,4) sv(2,3) c verdict goes_on room(2) by auto
  show ?case
  proof (cases ?complete)
    case True
    then have b: "bs = ?c" using whole(1) by simp
    obtain sv2 where l: "llps_client_preface_seal ly n (length ?c) sv1 = (None, sv2)"
        "peers_of (sv_session n sv2) = peers_of (sv_session n sv1)"
      using seal_admits [OF r(2) size room(2)] by blast
    have "holds_preface cfg n bs sv2" using preface_seal_post [OF r(2) size room(2) l(1)] r(4) b by simp
    then show ?thesis using r(1,3) l True b by simp
  next
    case False
    then have "\<exists>sv'. preface_read_loop ly answers n deadline True (Suc i) cycles (length ?c) sv1 = (None, length bs, sv') \<and>
        holds_preface cfg n bs sv' \<and> peers_of (sv_session n sv') = peers_of (sv_session n sv1)"
      using Suc.prems(2,5,6) r by (intro Suc.IH) auto
    then show ?thesis using r(1,3) False by simp
  qed
qed

lemma preface_read_admits:
  assumes gate: "gate_on cfg" and held: "cfg_held k cfg (rs_env (sv_rs sv))" and shape: "connection_shape cfg n sv"
    and fd: "llps_fd_is_valid (se_client_fd (sv_session n sv))" and reads: "reads_in_time cfg n ce turns"
    and whole: "bs = client_bytes (ce_preface ce) 0 turns" "length bs \<le> unat (buffer_size cfg)"
    and ok: "handshake_fields_ok ver addr hi lo ns" and bs: "bs = handshake_packet ver addr hi lo ns @ others"
    and last_turn: "length (client_bytes (ce_preface ce) 0 (turns - 1)) < length (handshake_packet ver addr hi lo ns)"
  shows "\<exists>sv'. llps_connection_read_preface ly ce n sv = (True, length bs, sv') \<and> holds_preface cfg n bs sv' \<and>
    peers_of (sv_session n sv') = peers_of (sv_session n sv)"
proof -
  obtain rs where c: "sv_reconcile_cfg sv = (True, sv\<lparr>sv_rs := rs\<rparr>)" "env_runtime_cfg (rs_env rs) = cfg"
    using sv_reconcile_cfg_held [OF held] by blast
  let ?sv = "sv\<lparr>sv_rs := rs\<rparr>"
  have cfg: "sv_cfg ?sv = cfg" using c by (simp add: sv_cfg_def)
  then have s: "connection_shape cfg n ?sv" using shape by (simp add: connection_shape_def)
  obtain dl sv2 where dl: "llps_client_preface_deadline_ns (ce_start_now ce) (client_preface_timeout_ms cfg) ?sv = (dl, sv2)" by fastforce
  have sv2: "sv2 = ?sv\<lparr>sv_rs := snd (llps_llam_now_ns_checked (ce_start_now ce) (sv_rs ?sv))\<rparr>"
    using dl by (auto simp: llps_client_preface_deadline_ns_def Let_def split: prod.splits)
  have s2: "connection_shape cfg n sv2" "sv_session n sv2 = sv_session n sv"
    using s shape_calm [OF calm_now s] by (simp_all add: sv2)
  have later: "pr_now (ce_preface ce i) < dl" if "i < turns" for i
    using deadline_ahead [of "ce_start_now ce" "client_preface_timeout_ms cfg" "pr_now (ce_preface ce i)" ?sv] reads dl that
    by (simp add: reads_in_time_def)
  have size: "buffer_size cfg \<le> LLPS_BUFFER_SIZE" using gate by (simp add: gate_on_def)
  have "turns \<noteq> 0" using whole(1) bs by (auto simp: client_bytes_def handshake_packet_def varint_encode_ne intro!: gr0I)
  then have "\<exists>sv'. preface_read_loop ly (ce_preface ce) n dl True 0 LLPS_SOCKET_IO_STEP_MAX 0 sv2 = (None, length bs, sv') \<and>
      holds_preface cfg n bs sv' \<and> peers_of (sv_session n sv') = peers_of (sv_session n sv2)"
    using reads fd s2 later
    by (intro read_loop_turns [OF size _ _ _ whole ok bs last_turn])
      (auto simp: reads_in_time_def client_bytes_def)
  then obtain sv3 where l: "preface_read_loop ly (ce_preface ce) n dl True 0 LLPS_SOCKET_IO_STEP_MAX 0 sv2 = (None, length bs, sv3)"
      "holds_preface cfg n bs sv3" "peers_of (sv_session n sv3) = peers_of (sv_session n sv)"
    unfolding s2(2) by blast
  have "llps_client_preface_read ly (ce_start_now ce) (ce_preface ce) n sv = (None, length bs, sv3)"
    using l(1) c(1) cfg dl gate
    by (simp add: llps_client_preface_read_def llps_client_preface_load_config_def gate_on_def)
  then show ?thesis using l(2,3) by (simp add: llps_connection_read_preface_def)
qed

subsection \<open>Connecting and sending\<close>

lemma connect_wait_connects:
  assumes fd: "llps_fd_is_valid fd" and quiet: "\<And>i. keeps_reading n (cn_before (answers i))"
    and "holds_preface cfg n d sv" "\<And>j. j < polls \<Longrightarrow> still_connecting (answers (i + j))" "now_connected (answers (i + polls))"
      "polls < attempts"
  shows "\<exists>sv'. connect_wait_loop answers fd i attempts sv = (None, sv') \<and> holds_preface cfg n d sv' \<and>
    peers_of (sv_session n sv') = peers_of (sv_session n sv)"
  using assms(3-)
proof (induction attempts arbitrary: i polls sv)
  case 0
  then show ?case by simp
next
  case (Suc attempts)
  let ?sv = "cn_before (answers i) sv"
  have sv: "holds_preface cfg n d ?sv" "peers_of (sv_session n ?sv) = peers_of (sv_session n sv)"
    using quiet [of i] holds_preface_kept [OF _ Suc.prems(1)] by (simp_all add: keeps_reading_def)
  have poll: "llps_llam_poll_fd_checked rc fd POLLOUT 10 ?sv = (rc, ?sv)" if "0 \<le> sint rc" for rc
    using poll_ok [OF fd that] .
  show ?case
  proof (cases polls)
    case 0
    then have connected: "now_connected (answers i)" using Suc.prems(3) by simp
    then have "cn_poll_rc (answers i) \<noteq> 0" "0 \<le> sint (cn_poll_rc (answers i))" by (auto simp: now_connected_def)
    then have "llps_backend_connect_poll_once (answers i) fd ?sv = ((None, True), ?sv)"
      using connected by (simp add: llps_backend_connect_poll_once_def poll now_connected_def not_less)
    then show ?thesis using sv by simp
  next
    case (Suc p)
    then have still: "still_connecting (answers i)" using Suc.prems(2) [of 0] by simp
    then have "0 \<le> sint (cn_poll_rc (answers i))" by (auto simp: still_connecting_def)
    then have "llps_backend_connect_poll_once (answers i) fd ?sv = ((None, False), ?sv)"
      using still by (auto simp: llps_backend_connect_poll_once_def poll still_connecting_def not_less)
    moreover have "\<exists>sv'. connect_wait_loop answers fd (Suc i) attempts ?sv = (None, sv') \<and> holds_preface cfg n d sv' \<and>
        peers_of (sv_session n sv') = peers_of (sv_session n ?sv)"
      using Suc.prems(2) [of "Suc j" for j] Suc.prems(3,4) Suc by (intro Suc.IH [OF sv(1), of p]) auto
    ultimately show ?thesis using sv(2) by simp
  qed
qed

lemma connect_admits:
  assumes holds: "holds_preface cfg n bs sv" and ce: "connects n ce polls"
  shows "\<exists>sv1 sv3. llps_connection_open_backend_socket ce n sv = (True, sv1) \<and>
    llps_connection_setup_backend_fd ce n sv1 = (True, sv1) \<and> llps_connection_connect_backend ce n sv1 = (True, sv3) \<and>
    holds_preface cfg n bs sv3 \<and> se_client_fd (sv_session n sv3) = se_client_fd (sv_session n sv) \<and>
    se_client_ip (sv_session n sv3) = se_client_ip (sv_session n sv) \<and> llps_fd_is_valid (se_backend_fd (sv_session n sv3))"
proof -
  let ?sv1 = "set_backend_fd (ce_socket ce) n sv"
  have n: "n < length (sv_sessions sv)" using holds by (simp add: holds_preface_def connection_shape_def)
  have fd: "peers_of (sv_session n ?sv1) = (se_client_fd (sv_session n sv), ce_socket ce, se_client_ip (sv_session n sv))"
    using n peers_refresh [of n "sv_put_session n ((sv_session n sv)\<lparr>se_backend_fd := ce_socket ce\<rparr>) sv"]
    by (simp add: set_backend_fd_def)
  have valid: "llps_fd_is_valid (ce_socket ce)" using ce by (simp add: connects_def llps_fd_is_valid_def)
  have h1: "holds_preface cfg n bs ?sv1" by (rule holds_preface_calm [OF calm_set_backend_fd holds])
  have o: "llps_connection_open_backend_socket ce n sv = (True, ?sv1)"
    using ce by (simp add: llps_connection_open_backend_socket_def connects_def)
  have s: "llps_connection_setup_backend_fd ce n ?sv1 = (True, ?sv1)"
    using ce valid fd by (simp add: llps_connection_setup_backend_fd_def connects_def llps_set_close_on_exec_def
        llps_set_nonblocking_def llps_set_no_sigpipe_def llps_set_tcp_nodelay_def not_less)
  have "\<exists>sv2. llps_backend_connect_wait (ce_connect_rc ce) (ce_connect_errno ce) (ce_connect ce) (ce_socket ce) ?sv1 = (None, sv2) \<and>
      holds_preface cfg n bs sv2 \<and> peers_of (sv_session n sv2) = peers_of (sv_session n ?sv1)"
  proof (cases "ce_connect_rc ce = 0")
    case True
    then show ?thesis using valid h1 by (simp add: llps_backend_connect_wait_def)
  next
    case False
    then have "ce_connect_errno ce = EINPROGRESS" "polls < 500" "\<And>i. keeps_reading n (cn_before (ce_connect ce i))"
      "\<And>i. i < polls \<Longrightarrow> still_connecting (ce_connect ce i)" "now_connected (ce_connect ce polls)"
      using ce by (auto simp: connects_def)
    then show ?thesis
      using connect_wait_connects [OF valid _ h1, of "ce_connect ce" polls 0 500] False valid
      by (simp add: llps_backend_connect_wait_def)
  qed
  then obtain sv2 where w: "llps_backend_connect_wait (ce_connect_rc ce) (ce_connect_errno ce) (ce_connect ce) (ce_socket ce) ?sv1 = (None, sv2)"
    "holds_preface cfg n bs sv2" "peers_of (sv_session n sv2) = peers_of (sv_session n ?sv1)" by blast
  have "llps_connection_connect_backend ce n ?sv1 = (True, llps_session_touch n (ce_connect_now ce) sv2)"
    using w(1) fd by (simp add: llps_connection_connect_backend_def)
  moreover have "peers_of (sv_session n (llps_session_touch n (ce_connect_now ce) sv2)) = peers_of (sv_session n sv2)"
    by (rule peers_touch)
  ultimately show ?thesis using o s holds_preface_calm [OF calm_touch w(2)] w(3) fd valid by auto
qed

lemma good_sends_length: "good_sends count retries sends \<Longrightarrow> length sends \<le> count + retries"
  by (induction count retries sends rule: good_sends.induct) auto

text \<open>One step of the sending after a quiet change.\<close>

lemma flush_repair_quiet:
  assumes holds: "holds_preface cfg n d sv" and size: "buffer_size cfg \<le> LLPS_BUFFER_SIZE" and quiet: "quiet_preface n sv sv1"
  shows "\<exists>sv2. llps_backend_preface_repair_payload n (length d) sv1 = (None, sv2) \<and> holds_preface cfg n d sv2 \<and>
    peers_of (sv_session n sv2) = peers_of (sv_session n sv)"
proof -
  have up: "preface_upsets n sv sv1" using quiet by (simp add: quiet_preface_def)
  have len: "length d \<le> unat (buffer_size cfg)" "connection_shape cfg n sv" using holds by (simp_all add: holds_preface_def)
  have ones: "one_upset (fst (preface_word n j sv)) (preface_word n j sv1)"
    if "payload_ecc_enabled cfg \<noteq> 0" "j < llps_payload_ecc_word_count_for_len (length d)" for j
    using quiet that holds len order.strict_trans2 [OF that(2) word_count_mono [OF len(1)]]
    by (simp add: quiet_preface_def holds_preface_def connection_shape_def sealed_payload_def)
  obtain reason sv2 where rep: "llps_backend_preface_repair_payload n (length d) sv1 = (reason, sv2)" by fastforce
  have r: "reason = None" using preface_repair_post(2) [OF holds size up rep] ones by blast
  have "peers_of (sv_session n sv2) = peers_of (sv_session n sv1)"
    using rep r by (auto simp: llps_backend_preface_repair_payload_def session_put_cases Let_def split: if_splits prod.splits)
  then show ?thesis using rep r preface_repair_post(1) [OF holds size up rep r] quiet by (simp add: quiet_preface_def)
qed

lemma flush_loop_succeeds:
  assumes size: "buffer_size cfg \<le> LLPS_BUFFER_SIZE" and quiet: "\<And>i sv. quiet_preface n sv (wa_before (answers i) sv)"
    and "holds_preface cfg n d sv" "llps_fd_is_valid (se_backend_fd (sv_session n sv))" "fp_off fp \<le> length d"
      "good_sends (length d - fp_off fp) (1024 - unat (fp_retry_count fp)) sends"
      "\<And>k. k < length sends \<Longrightarrow> wa_send (answers (i + k)) = sends ! k" "length sends \<le> steps"
  shows "\<exists>fp' sv'. preface_flush_loop answers n (length d) i steps fp sv = (None, fp', sv') \<and> fp_off fp' = length d \<and>
    peers_of (sv_session n sv') = peers_of (sv_session n sv)"
  using assms(3-)
proof (induction steps arbitrary: i fp sv sends)
  case 0
  then show ?case by simp
next
  case (Suc steps)
  show ?case
  proof (cases "fp_off fp = length d")
    case True
    then show ?thesis by simp
  next
    case False
    then obtain a rest where sends: "sends = a # rest" using Suc.prems(3,4) by (cases sends) auto
    have a: "wa_send (answers i) = a" using Suc.prems(5) [of 0] sends by simp
    have rest: "\<And>k. k < length rest \<Longrightarrow> wa_send (answers (Suc i + k)) = rest ! k"
      using Suc.prems(5) [of "Suc k" for k] sends by auto
    let ?sv1 = "wa_before (answers i) sv"
    obtain sv2 where rep: "llps_backend_preface_repair_payload n (length d) ?sv1 = (None, sv2)" "holds_preface cfg n d sv2"
        "peers_of (sv_session n sv2) = peers_of (sv_session n sv)"
      using flush_repair_quiet [OF Suc.prems(1) size quiet] by blast
    have "\<exists>fp1. llps_backend_preface_flush_step a n (length d) fp ?sv1 = (None, fp1, sv2) \<and> fp_off fp1 \<le> length d \<and>
        good_sends (length d - fp_off fp1) (1024 - unat (fp_retry_count fp1)) rest"
    proof (cases a)
      case (Sent w)
      then show ?thesis
        using Suc.prems(3,4) sends rep(1) by (auto simp: llps_backend_preface_flush_step_def Let_def)
    next
      case (Send_blocked rc)
      have fd: "llps_fd_is_valid (se_backend_fd (sv_session n sv2))" using rep(3) Suc.prems(2) by simp
      have c: "fp_retry_count fp < 1024" "0 \<le> sint rc"
        using Suc.prems(4) sends Send_blocked by (auto simp: word_less_nat_alt)
      then have "unat (fp_retry_count fp + 1) = Suc (unat (fp_retry_count fp))"
        by (simp add: word_less_nat_alt unat_word_ariths)
      then show ?thesis
        using Suc.prems(3,4) sends rep(1) Send_blocked c poll_ok [OF fd c(2)]
        by (auto simp: llps_backend_preface_flush_step_def llps_backend_preface_wait_writable_def not_le Let_def)
    next
      case Send_failed
      then show ?thesis using Suc.prems(4) sends by simp
    qed
    then obtain fp1 where s: "llps_backend_preface_flush_step (wa_send (answers i)) n (length d) fp ?sv1 = (None, fp1, sv2)"
      "fp_off fp1 \<le> length d" "good_sends (length d - fp_off fp1) (1024 - unat (fp_retry_count fp1)) rest" using a by blast
    have "\<exists>fp' sv'. preface_flush_loop answers n (length d) (Suc i) steps fp1 sv2 = (None, fp', sv') \<and> fp_off fp' = length d \<and>
        peers_of (sv_session n sv') = peers_of (sv_session n sv2)"
      using rep Suc.prems(2,6) sends by (intro Suc.IH [OF rep(2) _ s(2,3) rest]) auto
    then show ?thesis using False Suc.prems(3) s(1) rep(3) by auto
  qed
qed

lemma flush_admits:
  assumes holds: "holds_preface cfg n bs sv" and size: "buffer_size cfg \<le> LLPS_BUFFER_SIZE" and bs: "bs \<noteq> []"
    and fd: "llps_fd_is_valid (se_backend_fd (sv_session n sv))" and ce: "takes_bytes n ce sends (length bs)"
  shows "\<exists>sv'. llps_connection_flush_preface ce n (length bs) sv = (True, bs, sv') \<and>
    peers_of (sv_session n sv') = peers_of (sv_session n sv)"
proof -
  let ?fp = "\<lparr>fp_off = 0, fp_retry_count = 0, fp_sent = []\<rparr> :: flush_progress"
  have quiet: "\<And>i sv. quiet_preface n sv (wa_before (ce_flush ce i) sv)" using ce by (simp add: takes_bytes_def)
  have len: "length bs \<le> unat (buffer_size cfg)" "length bs \<le> unat (buffer_size (sv_cfg sv))" "length bs \<le> 4096"
    using holds size by (simp_all add: holds_preface_def connection_shape_def word_le_nat_alt)
  have good: "good_sends (length bs) 1024 sends" "length sends \<le> 5120"
    using ce good_sends_length [of "length bs" 1024 sends] len(3) by (simp_all add: takes_bytes_def)
  obtain fp' sv1 where l: "preface_flush_loop (ce_flush ce) n (length bs) 0 5120 ?fp sv = (None, fp', sv1)"
      "fp_off fp' = length bs" "peers_of (sv_session n sv1) = peers_of (sv_session n sv)"
    using flush_loop_succeeds [of cfg n "ce_flush ce" bs sv ?fp sends 0 5120] size quiet holds fd good ce
    by (auto simp: takes_bytes_def)
  have fl: "llps_backend_preface_flush (ce_flush ce) (ce_flush_now ce) n (length bs) sv =
      (None, fp_sent fp', llps_session_touch n (ce_flush_now ce) sv1)"
    using l bs len(2) by (simp add: llps_backend_preface_flush_def llps_backend_preface_flush_validate_def)
  have "fp_sent fp' = bs"
    using flush_post [OF holds size _ fl] quiet by (simp add: quiet_preface_def)
  then show ?thesis using fl l(3) peers_touch [of n "ce_flush_now ce" sv1] by (simp add: llps_connection_flush_preface_def)
qed

lemma connected_recorded:
  assumes "starts_pumps ce" "terminated LLPS_CLIENT_IP_TEXT_LEN (se_client_ip (sv_session n sv))"
  shows "\<exists>sv'. llps_connection_record_connected ce n sv = (True, sv') \<and> sv_session n sv' = sv_session n sv"
proof -
  have reason: "terminated audit_reason_size (text_bytes ''connected'')" by code_simp
  have "fst (llps_state_copy_text (replicate LLPS_CLIENT_IP_TEXT_LEN 0) LLPS_CLIENT_IP_TEXT_LEN (se_client_ip (sv_session n sv)))"
    "fst (llps_state_copy_text (replicate audit_reason_size 0) audit_reason_size (text_bytes ''connected''))"
    using copy_text_ok [OF assms(2), of "replicate LLPS_CLIENT_IP_TEXT_LEN 0"]
      copy_text_ok [OF reason, of "replicate audit_reason_size 0"] by auto
  then show ?thesis
    using assms(1) by (auto simp: llps_connection_record_connected_def llps_record_ip_audit_event_def starts_pumps_def Let_def)
qed

text \<open>
  C6: The gate does not keep out what it should let in. An active session is sealed, its client sends a text
  that begins with a well-formed handshake, and the reads bring that text before the deadline, in
  pieces of any size with idle turns in between, so that the handshake is complete in the last of
  them. The backend is connected at once or after waiting for it, and takes the bytes in pieces of any
  size with waits within the retry budget; the audit log, when it is on, accepts the event. Then the
  task sends exactly that text to the backend and starts the pumps. An upset in every protected word
  before every send, and one bank of the configuration in any state, change nothing.
\<close>

theorem handshake_gets_through:
  assumes "cfg_held k cfg (rs_env (sv_rs sv))" "protocol_handshake_gate_enabled cfg \<noteq> 0" "n < unat (max_clients cfg)"
    and "sv_shape sv" "session_sealed n sv" "se_state (sv_session n sv) = ST_ACTIVE"
    and "llps_fd_is_valid (se_client_fd (sv_session n sv))" "terminated LLPS_CLIENT_IP_TEXT_LEN (se_client_ip (sv_session n sv))"
    and "length (se_c2s_buf (sv_session n sv)) = LLPS_PAYLOAD_BUFFER_SIZE"
      "length (se_c2s_payload_ecc (sv_session n sv)) = LLPS_PAYLOAD_ECC_WORD_COUNT"
    and "reads_in_time cfg n ce turns" "connects n ce polls" "takes_bytes n ce sends (length bs)" "starts_pumps ce"
    and "bs = client_bytes (ce_preface ce) 0 turns" "length bs \<le> unat (buffer_size cfg)"
    and "handshake_fields_ok version addr port_hi port_lo next_state"
      "bs = handshake_packet version addr port_hi port_lo next_state @ others"
      "length (client_bytes (ce_preface ce) 0 (turns - 1)) < length (handshake_packet version addr port_hi port_lo next_state)"
  shows "\<exists>ready sv'. llps_task_connection ly ce n sv = (Pumps_on ready, bs, sv')"
proof -
  have gate: "gate_on cfg" by (rule cfg_held_gate [OF assms(1,2)])
  then have size: "buffer_size cfg \<le> LLPS_BUFFER_SIZE" by (simp add: gate_on_def)
  have bs: "bs \<noteq> []" using assms(18) by (auto simp: handshake_packet_def varint_encode_ne)
  obtain svA where a: "llps_session_is_active n sv = (True, svA)" "sv_session n svA = sv_session n sv"
    using reconcile_sealed [OF assms(1,3-5)] assms(6)
    by (auto simp: llps_session_is_active_def llps_session_tmr_snapshot_from_session_def)
  have n: "n < length (sv_sessions sv)" using assms(3,4) cfg_held_max_clients(1) [OF assms(1)]
    by (simp add: sv_shape_def word_le_nat_alt)
  note active = is_active_held [OF assms(1) a(1)] shape_is_active [OF assms(1) a(1) n assms(9,10)]
  obtain rs where c: "sv_reconcile_cfg svA = (True, svA\<lparr>sv_rs := rs\<rparr>)" using sv_reconcile_cfg_held [OF active(1)] by blast
  let ?svB = "svA\<lparr>sv_rs := rs\<rparr>"
  have b: "llps_connection_prepare_backend_addr ce n svA = (True, ?svB)"
    using c assms(12) by (simp add: llps_connection_prepare_backend_addr_def llps_build_backend_addr_def connects_def)
  note held = backend_addr_post [OF active b]
  have client: "llps_fd_is_valid (se_client_fd (sv_session n ?svB))" using a(2) assms(7) by simp
  obtain svC where r: "llps_connection_read_preface ly ce n ?svB = (True, length bs, svC)" "holds_preface cfg n bs svC"
      "peers_of (sv_session n svC) = peers_of (sv_session n sv)"
    using preface_read_admits [OF gate conjunct1 [OF held] conjunct2 [OF held] client assms(11,15-19)] a(2) by auto
  obtain svD svF where d: "llps_connection_open_backend_socket ce n svC = (True, svD)"
      "llps_connection_setup_backend_fd ce n svD = (True, svD)" "llps_connection_connect_backend ce n svD = (True, svF)"
      "holds_preface cfg n bs svF" "se_client_fd (sv_session n svF) = se_client_fd (sv_session n svC)"
      "se_client_ip (sv_session n svF) = se_client_ip (sv_session n svC)" "llps_fd_is_valid (se_backend_fd (sv_session n svF))"
    using connect_admits [OF r(2) assms(12)] by blast
  obtain svG where f: "llps_connection_flush_preface ce n (length bs) svF = (True, bs, svG)"
      "peers_of (sv_session n svG) = peers_of (sv_session n svF)"
    using flush_admits [OF d(4) size bs d(7) assms(13)] by blast
  obtain svH where rec: "llps_connection_record_connected ce n svG = (True, svH)" "sv_session n svH = sv_session n svG"
    using connected_recorded [OF assms(14), of n svG] assms(8) r(3) d(6) f(2) by auto
  have up: "llps_connection_setup_client_fd ce n svH = (True, svH)"
    using assms(14) assms(7) r(3) d(5) f(2) rec(2)
    by (simp add: llps_connection_setup_client_fd_def starts_pumps_def llps_set_nonblocking_def not_less)
  obtain svI where run: "llps_connection_run_pumps ce n (llps_connection_prepare_pump_args ly n svH) = (True, svI)"
    using assms(14) by (simp add: llps_connection_run_pumps_def llps_connection_prepare_pump_group_def
        llps_connection_spawn_pump_pair_def group_call_def starts_pumps_def)
  show ?thesis
    by (simp add: llps_task_connection_def Let_def a(1) b r(1) d(1-3) f(1) rec(1) up run)
qed

section \<open>Examples\<close>

text \<open>An open session under a configuration with the gate and the payload codes on.\<close>

definition gated_cfg :: llps_yml_config_t where
  "gated_cfg = example_cfg\<lparr>payload_ecc_enabled := 1, client_preface_timeout_ms := 1000, protocol_handshake_gate_enabled := 1\<rparr>"

lemma gated_cfg_valid: "llps_runtime_cfg_values_are_valid gated_cfg"
  by code_simp

definition gated_server :: server_state where
  "gated_server = sample_open\<lparr>sv_rs := (sv_rs sample_open)\<lparr>rs_env := (rs_env (sv_rs sample_open))\<lparr>
     env_runtime_cfg := gated_cfg, env_cfg_banks := map (\<lambda>i. cfg_bank_from i gated_cfg) [0..<3]\<rparr>\<rparr>\<rparr>"

lemma gated_server_facts:
  "cfg_held k gated_cfg (rs_env (sv_rs gated_server))" "sv_shape gated_server" "session_sealed 5 gated_server"
  "sv_session 5 gated_server = sv_session 5 sample_open" "5 < length (sv_sessions gated_server)"
  using sample_open_sealed(1,2)
  by (simp_all add: gated_server_def cfg_held_def cfg_bank_from_valid gated_cfg_valid sv_shape_def)

lemma sample_open_buffers:
  "length (se_c2s_buf (sv_session 5 sample_open)) = LLPS_PAYLOAD_BUFFER_SIZE"
  "length (se_c2s_payload_ecc (sv_session 5 sample_open)) = LLPS_PAYLOAD_ECC_WORD_COUNT"
proof -
  have "sv_session 5 sample_server = blank_session" by (simp add: sample_server_def sv_session_def)
  then show "length (se_c2s_buf (sv_session 5 sample_open)) = LLPS_PAYLOAD_BUFFER_SIZE"
    "length (se_c2s_payload_ecc (sv_session 5 sample_open)) = LLPS_PAYLOAD_ECC_WORD_COUNT"
    unfolding sample_open_sealed(4)
    by (simp_all add: sealed_session_def Let_def llps_session_refresh_secded_def session_active_fields_def
        session_clear_transfer_def llps_session_set_state_fields_def zeroed_def blank_session_def)
qed

lemma sample_open_address: "terminated LLPS_CLIENT_IP_TEXT_LEN (se_client_ip (sv_session 5 sample_open))"
proof -
  have "sv_session 5 sample_server = blank_session" by (simp add: sample_server_def sv_session_def)
  then have "se_client_ip (sv_session 5 sample_open) =
      snd (llps_state_copy_text (zeroed (se_client_ip blank_session)) LLPS_CLIENT_IP_TEXT_LEN unknown_ip)"
    unfolding sample_open_sealed(4)
    by (simp add: sealed_session_def Let_def llps_session_refresh_secded_def session_active_fields_def
        session_clear_transfer_def llps_session_set_state_fields_def)
  moreover have "terminated LLPS_CLIENT_IP_TEXT_LEN
      (snd (llps_state_copy_text (zeroed (se_client_ip blank_session)) LLPS_CLIENT_IP_TEXT_LEN unknown_ip))" by code_simp
  ultimately show ?thesis by simp
qed

text \<open>The handshake of a client: version 47, address \<open>a\<close>, port 25565, next state 1.\<close>

definition sample_hello :: "u8 list" where
  "sample_hello = handshake_packet 47 [0x61] 0x63 0xDD 1"

lemma sample_hello_ok: "handshake_fields_ok 47 [0x61] 0x63 0xDD 1" "length sample_hello \<le> unat (buffer_size gated_cfg)"
  by (simp_all add: handshake_fields_ok_def sample_hello_def handshake_packet_def handshake_body_def varint_encode.simps
      gated_cfg_def example_cfg_def)

text \<open>
  It arrives in two pieces with an idle turn between them, the connection needs a second poll, and the backend
  takes the text in two pieces with a wait between them. A bit of the payload flips before every send.
\<close>

definition sample_env :: connection_env where
  "sample_env = \<lparr>ce_addr_valid = True, ce_start_now = 100,
     ce_preface = (\<lambda>i. \<lparr>pr_before = (\<lambda>sv. sv), pr_now = 200, pr_wait = (\<lambda>sv. sv),
       pr_read = (if i = 0 then Ready_bytes (take 3 sample_hello)
         else if i = 1 then Ready_error Would_block else Ready_bytes (drop 3 sample_hello)),
       pr_stale = Other_errno, pr_touch = 300\<rparr>),
     ce_socket = 8, ce_getfd = 0, ce_setfd = 0, ce_getfl = 0, ce_setfl = 0, ce_nodelay = 0, ce_connect_rc = - 1,
     ce_connect_errno = EINPROGRESS,
     ce_connect = (\<lambda>i. \<lparr>cn_before = (\<lambda>sv. sv), cn_poll_rc = (if i = 0 then 0 else 1), cn_revents = POLLOUT,
       cn_sockopt_rc = 0, cn_so_error = 0\<rparr>),
     ce_connect_now = 400, ce_flush = (\<lambda>i. \<lparr>wa_before = (\<lambda>sv. if payload_ecc_enabled (sv_cfg sv) = 0 then sv else upset_first True 5 sv),
       wa_send = (if i = 0 then Sent 3 else if i = 1 then Send_blocked 1 else Sent (length sample_hello - 3))\<rparr>),
     ce_flush_now = 500, ce_client_getfl = 0, ce_client_setfl = 0, ce_group_created = True, ce_opts_prepared = True,
     ce_spawned_c2s = True, ce_spawned_s2c = True, ce_joined = True, ce_destroyed = True, ce_pumps = (\<lambda>sv. sv),
     ce_audit = (\<lambda>reason. \<lparr>au_enabled = True, au_now = 0, au_recorded = True\<rparr>), ce_closes = (\<lambda>fd. True), ce_contract = True\<rparr>"

lemma one_upset_sealed: "word_sealed w \<Longrightarrow> one_upset (fst w) w"
  by (simp add: one_upset_def word_sealed_def prod_eq_iff)

lemma upset_first_preface:
  assumes "payload_ecc_enabled (sv_cfg sv) \<noteq> 0" shows "quiet_preface 5 sv (upset_first True 5 sv)"
proof (cases "5 < length (sv_sessions sv)")
  case False
  then show ?thesis
    using assms by (simp add: upset_first_def quiet_preface_def preface_upsets_def keeps_connection_def session_put_cases
        one_upset_sealed sv_cfg_def sv_put_session_def sv_session_def list_update_beyond)
next
  case True
  let ?b = "se_c2s_buf (sv_session 5 sv)" and ?sv = "upset_first True 5 sv"
  have s: "sv_session 5 ?sv = (sv_session 5 sv)\<lparr>se_c2s_buf := ?b[0 := ?b ! 0 XOR 1]\<rparr>"
    using True by (simp add: upset_first_def own_transfer_def)
  have c: "sv_cfg ?sv = sv_cfg sv" by (simp add: upset_first_def sv_cfg_def sv_put_session_def)
  have k: "keeps_connection 5 sv ?sv" by (simp add: keeps_connection_def s c) (simp add: upset_first_def)
  have one: "one_upset (fst (preface_word 5 j sv)) (preface_word 5 j ?sv)" if "word_sealed (preface_word 5 j sv)" for j
  proof (cases "j = 0 \<and> 0 < unat (buffer_size (sv_cfg sv)) \<and> ?b \<noteq> []")
    case hit: True
    then have "preface_word 5 j ?sv = flip_bit (DataBit 0) (preface_word 5 j sv)"
      by (simp add: stored_word_def s c load_upset_first)
    moreover have "preface_word 5 j sv = (fst (preface_word 5 j sv), llps_secded_encode_u64 (fst (preface_word 5 j sv)) 64)"
      using that by (simp add: word_sealed_def prod_eq_iff)
    ultimately show ?thesis unfolding one_upset_def by (intro disjI2 exI [of _ "DataBit 0"]) simp
  next
    case False
    then have "preface_word 5 j ?sv = preface_word 5 j sv" by (auto simp: stored_word_def s c load_upset_first)
    then show ?thesis using that one_upset_sealed by simp
  qed
  then show ?thesis using k assms by (simp add: quiet_preface_def preface_upsets_def s)
qed

lemma sample_env_quiet: "quiet_preface 5 sv (wa_before (ce_flush sample_env i) sv)"
  using upset_first_preface [of sv]
  by (simp add: sample_env_def) (auto simp: quiet_preface_def preface_upsets_def keeps_connection_def)

lemma sample_env_sound: "connection_sound 5 sample_env"
proof -
  have "preface_upsets 5 sv (wa_before (ce_flush sample_env i) sv)" for i sv
    using sample_env_quiet by (simp add: quiet_preface_def)
  then show ?thesis
    by (simp add: connection_sound_def sample_env_def keeps_connection_def keeps_preface_def)
qed

lemma sample_env_reads: "reading_undisturbed 5 (ce_preface sample_env)" "client_bytes (ce_preface sample_env) 0 3 = sample_hello"
  "client_bytes (ce_preface sample_env) 0 (3 - 1) = take 3 sample_hello"
  by (simp_all add: reading_undisturbed_def keeps_reading_def keeps_preface_def keeps_connection_def sample_env_def client_bytes_def
      received_def numeral_3_eq_3 numeral_2_eq_2 del: take_Suc_Cons)

theorem connection_gate_witness:
  "\<exists>stage sent sv'. llps_task_connection sample_layout sample_env 5 gated_server = (stage, sent, sv') \<and>
     (stage = Gave_up \<and> sent = [] \<or>
      (\<exists>version addr port_hi port_lo next_state more rest turns.
         handshake_fields_ok version addr port_hi port_lo next_state \<and>
         handshake_packet version addr port_hi port_lo next_state @ more = sent @ rest \<and> (stage = Gave_up \<or> rest = []) \<and>
         sent @ rest = client_bytes (ce_preface sample_env) 0 turns))"
proof -
  obtain stage sent sv' where r: "llps_task_connection sample_layout sample_env 5 gated_server = (stage, sent, sv')"
    by (metis prod_cases3)
  have "protocol_handshake_gate_enabled gated_cfg \<noteq> 0" by (simp add: gated_cfg_def)
  from connection_gate [OF gated_server_facts(1) this gated_server_facts(5) _ _ sample_env_sound r]
  show ?thesis using r sample_open_buffers sample_env_reads(1) unfolding gated_server_facts(4) by blast
qed

lemma sample_env_admits:
  "reads_in_time gated_cfg 5 sample_env 3" "connects 5 sample_env 1"
  "takes_bytes 5 sample_env [Sent 3, Send_blocked 1, Sent (length sample_hello - 3)] (length sample_hello)" "starts_pumps sample_env"
proof -
  have hello: "length sample_hello = 8"
    by (simp add: sample_hello_def handshake_packet_def handshake_body_def varint_encode.simps)
  then have "sample_hello \<noteq> []" "drop 3 sample_hello \<noteq> []" by auto
  then show "reads_in_time gated_cfg 5 sample_env 3"
    using sample_env_reads(1) by (simp add: reads_in_time_def) (simp add: sample_env_def gated_cfg_def)
  show "connects 5 sample_env 1"
    by (simp add: connects_def sample_env_def still_connecting_def now_connected_def keeps_reading_def keeps_preface_def
        keeps_connection_def)
  show "takes_bytes 5 sample_env [Sent 3, Send_blocked 1, Sent (length sample_hello - 3)] (length sample_hello)"
    using sample_env_quiet by (simp add: takes_bytes_def hello All_less_Suc) (simp add: sample_env_def hello)
  show "starts_pumps sample_env" by (simp add: starts_pumps_def sample_env_def)
qed

theorem handshake_gets_through_witness:
  "\<exists>ready sv'. llps_task_connection sample_layout sample_env 5 gated_server = (Pumps_on ready, sample_hello, sv')"
proof (rule handshake_gets_through [where version = 47 and addr = "[0x61]" and port_hi = "0x63" and port_lo = "0xDD" and
    next_state = 1 and others = "[]" and turns = 3, OF gated_server_facts(1) _ _ gated_server_facts(2,3) _ _ _ _ _ sample_env_admits])
  show "protocol_handshake_gate_enabled gated_cfg \<noteq> 0" "5 < unat (max_clients gated_cfg)"
    by (simp_all add: gated_cfg_def example_cfg_def)
  show "handshake_fields_ok 47 [0x61] 0x63 0xDD 1" "sample_hello = handshake_packet 47 [0x61] 0x63 0xDD 1 @ []"
    using sample_hello_ok(1) by (simp_all only: sample_hello_def append_Nil2)
  show "length (client_bytes (ce_preface sample_env) 0 (3 - 1)) < length (handshake_packet 47 [0x61] 0x63 0xDD 1)"
    unfolding sample_env_reads(3) by (simp add: handshake_packet_def handshake_body_def varint_encode.simps)
qed (simp_all add: gated_server_facts(4) session_fields_of_sample sample_open_buffers sample_hello_ok sample_env_reads(2)
    sample_open_address llps_fd_is_valid_def)

end
