(* ===== verification/Latches.thy ===== *)
theory Latches
  imports Crc
begin

text \<open>
  The latches of \<^verbatim>\<open>src/session/llps_runtime_latches.c\<close>: what start-up established about the memory of
  the process, each value beside its inverse. An identifier of a memory domain stands in two arrays.
\<close>

section \<open>Definitions\<close>

abbreviation LLPS_TMR_MEMORY_DOMAIN_UNKNOWN :: u32 where
  "LLPS_TMR_MEMORY_DOMAIN_UNKNOWN \<equiv> UINT32_MAX"

record runtime_latches =
  g_process_memory_locked :: bool
  g_process_memory_locked_inverse :: u32
  g_tmr_memory_locked :: bool
  g_tmr_memory_locked_inverse :: u32
  g_tmr_memory_prefaulted :: bool
  g_tmr_memory_prefaulted_inverse :: u32
  g_tmr_memory_domains_bound :: bool
  g_tmr_memory_domains_bound_inverse :: u32
  g_tmr_memory_hardened :: bool
  g_tmr_memory_hardened_inverse :: u32
  g_tmr_startup_self_test_passed :: bool
  g_tmr_startup_self_test_passed_inverse :: u32
  g_tmr_startup_self_test_coverage :: u32
  g_tmr_startup_self_test_coverage_inverse :: u32
  g_tmr_memory_prefault_pages :: u64
  g_tmr_memory_prefault_pages_inverse :: u64
  g_tmr_memory_domain_observation_fingerprint :: u32
  g_tmr_memory_domain_observation_fingerprint_inverse :: u32
  g_tmr_memory_observed_domain_ids :: "u32 list"
  g_tmr_memory_observed_domain_ids_inverse :: "u32 list"

text \<open>The initial values of the file.\<close>

definition initial_latches :: runtime_latches where
  "initial_latches = \<lparr>
     g_process_memory_locked = False, g_process_memory_locked_inverse = UINT32_MAX,
     g_tmr_memory_locked = False, g_tmr_memory_locked_inverse = UINT32_MAX,
     g_tmr_memory_prefaulted = False, g_tmr_memory_prefaulted_inverse = UINT32_MAX,
     g_tmr_memory_domains_bound = False, g_tmr_memory_domains_bound_inverse = UINT32_MAX,
     g_tmr_memory_hardened = False, g_tmr_memory_hardened_inverse = UINT32_MAX,
     g_tmr_startup_self_test_passed = False, g_tmr_startup_self_test_passed_inverse = UINT32_MAX,
     g_tmr_startup_self_test_coverage = 0, g_tmr_startup_self_test_coverage_inverse = UINT32_MAX,
     g_tmr_memory_prefault_pages = 0, g_tmr_memory_prefault_pages_inverse = UINT64_MAX,
     g_tmr_memory_domain_observation_fingerprint = 0, g_tmr_memory_domain_observation_fingerprint_inverse = UINT32_MAX,
     g_tmr_memory_observed_domain_ids = replicate 3 LLPS_TMR_MEMORY_DOMAIN_UNKNOWN,
     g_tmr_memory_observed_domain_ids_inverse = replicate 3 (NOT LLPS_TMR_MEMORY_DOMAIN_UNKNOWN)\<rparr>"

definition llps_process_memory_locked_set :: "bool \<Rightarrow> runtime_latches \<Rightarrow> runtime_latches" where
  "llps_process_memory_locked_set value l =
     (case llps_guarded_bool_set value of
        (v, w) \<Rightarrow> l\<lparr>g_process_memory_locked := v, g_process_memory_locked_inverse := w\<rparr>)"

definition llps_tmr_memory_locked_set :: "bool \<Rightarrow> runtime_latches \<Rightarrow> runtime_latches" where
  "llps_tmr_memory_locked_set value l =
     (case llps_guarded_bool_set value of
        (v, w) \<Rightarrow> l\<lparr>g_tmr_memory_locked := v, g_tmr_memory_locked_inverse := w\<rparr>)"

definition llps_tmr_memory_prefaulted_set :: "bool \<Rightarrow> runtime_latches \<Rightarrow> runtime_latches" where
  "llps_tmr_memory_prefaulted_set value l =
     (case llps_guarded_bool_set value of
        (v, w) \<Rightarrow> l\<lparr>g_tmr_memory_prefaulted := v, g_tmr_memory_prefaulted_inverse := w\<rparr>)"

definition llps_tmr_memory_prefault_pages_set :: "u64 \<Rightarrow> runtime_latches \<Rightarrow> runtime_latches" where
  "llps_tmr_memory_prefault_pages_set pages l =
     l\<lparr>g_tmr_memory_prefault_pages := pages, g_tmr_memory_prefault_pages_inverse := NOT pages\<rparr>"

definition llps_tmr_memory_prefault_pages_is_valid :: "runtime_latches \<Rightarrow> bool" where
  "llps_tmr_memory_prefault_pages_is_valid l \<longleftrightarrow>
     g_tmr_memory_prefault_pages_inverse l = NOT (g_tmr_memory_prefault_pages l)"

definition llps_tmr_memory_prefault_pages_read :: "runtime_latches \<Rightarrow> u64" where
  "llps_tmr_memory_prefault_pages_read l =
     (if llps_tmr_memory_prefault_pages_is_valid l then g_tmr_memory_prefault_pages l else 0)"

definition llps_tmr_memory_domains_bound_set :: "bool \<Rightarrow> runtime_latches \<Rightarrow> runtime_latches" where
  "llps_tmr_memory_domains_bound_set value l =
     (case llps_guarded_bool_set value of
        (v, w) \<Rightarrow> l\<lparr>g_tmr_memory_domains_bound := v, g_tmr_memory_domains_bound_inverse := w\<rparr>)"

definition llps_tmr_memory_hardened_set :: "bool \<Rightarrow> runtime_latches \<Rightarrow> runtime_latches" where
  "llps_tmr_memory_hardened_set value l =
     (case llps_guarded_bool_set value of
        (v, w) \<Rightarrow> l\<lparr>g_tmr_memory_hardened := v, g_tmr_memory_hardened_inverse := w\<rparr>)"

definition llps_tmr_startup_self_test_passed_set :: "bool \<Rightarrow> runtime_latches \<Rightarrow> runtime_latches" where
  "llps_tmr_startup_self_test_passed_set value l =
     (case llps_guarded_bool_set value of
        (v, w) \<Rightarrow> l\<lparr>g_tmr_startup_self_test_passed := v, g_tmr_startup_self_test_passed_inverse := w\<rparr>)"

definition llps_tmr_startup_self_test_set_coverage :: "u32 \<Rightarrow> runtime_latches \<Rightarrow> runtime_latches" where
  "llps_tmr_startup_self_test_set_coverage coverage l =
     l\<lparr>g_tmr_startup_self_test_coverage := coverage, g_tmr_startup_self_test_coverage_inverse := NOT coverage\<rparr>"

definition llps_tmr_startup_self_test_coverage_is_valid :: "runtime_latches \<Rightarrow> bool" where
  "llps_tmr_startup_self_test_coverage_is_valid l \<longleftrightarrow>
     g_tmr_startup_self_test_coverage_inverse l = NOT (g_tmr_startup_self_test_coverage l)"

definition llps_tmr_memory_domain_observation_fingerprint_set :: "u32 \<Rightarrow> runtime_latches \<Rightarrow> runtime_latches" where
  "llps_tmr_memory_domain_observation_fingerprint_set fingerprint l =
     l\<lparr>g_tmr_memory_domain_observation_fingerprint := fingerprint,
       g_tmr_memory_domain_observation_fingerprint_inverse := NOT fingerprint\<rparr>"

definition llps_tmr_memory_domain_observation_fingerprint_is_valid :: "runtime_latches \<Rightarrow> bool" where
  "llps_tmr_memory_domain_observation_fingerprint_is_valid l \<longleftrightarrow>
     g_tmr_memory_domain_observation_fingerprint_inverse l = NOT (g_tmr_memory_domain_observation_fingerprint l)"

text \<open>\<open>None\<close> is the \<^verbatim>\<open>NULL\<close> array.\<close>

definition llps_tmr_memory_observed_domains_set :: "u32 list option \<Rightarrow> runtime_latches \<Rightarrow> runtime_latches" where
  "llps_tmr_memory_observed_domains_set domain_ids l =
     fold (\<lambda>i l.
         let domain_id = (case domain_ids of Some ids \<Rightarrow> ids ! i | None \<Rightarrow> LLPS_TMR_MEMORY_DOMAIN_UNKNOWN)
         in l\<lparr>g_tmr_memory_observed_domain_ids := (g_tmr_memory_observed_domain_ids l)[i := domain_id],
              g_tmr_memory_observed_domain_ids_inverse := (g_tmr_memory_observed_domain_ids_inverse l)[i := NOT domain_id]\<rparr>)
       [0, 1, 2] l"

definition llps_tmr_memory_observed_domains_are_valid :: "runtime_latches \<Rightarrow> bool" where
  "llps_tmr_memory_observed_domains_are_valid l \<longleftrightarrow>
     (\<forall>i \<in> set [0, 1, 2].
        g_tmr_memory_observed_domain_ids_inverse l ! i = NOT (g_tmr_memory_observed_domain_ids l ! i))"

definition llps_runtime_safety_latches_are_valid :: "runtime_latches \<Rightarrow> bool" where
  "llps_runtime_safety_latches_are_valid l \<longleftrightarrow>
     llps_guarded_bool_is_valid (g_process_memory_locked l) (g_process_memory_locked_inverse l) \<and>
     llps_guarded_bool_is_valid (g_tmr_memory_locked l) (g_tmr_memory_locked_inverse l) \<and>
     llps_guarded_bool_is_valid (g_tmr_memory_prefaulted l) (g_tmr_memory_prefaulted_inverse l) \<and>
     llps_tmr_memory_prefault_pages_is_valid l \<and>
     llps_guarded_bool_is_valid (g_tmr_memory_domains_bound l) (g_tmr_memory_domains_bound_inverse l) \<and>
     llps_guarded_bool_is_valid (g_tmr_memory_hardened l) (g_tmr_memory_hardened_inverse l) \<and>
     llps_guarded_bool_is_valid (g_tmr_startup_self_test_passed l) (g_tmr_startup_self_test_passed_inverse l) \<and>
     llps_tmr_startup_self_test_coverage_is_valid l \<and>
     llps_tmr_memory_domain_observation_fingerprint_is_valid l \<and>
     llps_tmr_memory_observed_domains_are_valid l"

section \<open>Upsets of one half\<close>

text \<open>
  An upset that changes, of every latch, at most one half: the value or its inverse. The arrays keep
  their three elements.
\<close>

definition half_upset :: "runtime_latches \<Rightarrow> runtime_latches \<Rightarrow> bool" where
  "half_upset l l' \<longleftrightarrow>
     (g_process_memory_locked l' = g_process_memory_locked l \<or>
        g_process_memory_locked_inverse l' = g_process_memory_locked_inverse l) \<and>
     (g_tmr_memory_locked l' = g_tmr_memory_locked l \<or> g_tmr_memory_locked_inverse l' = g_tmr_memory_locked_inverse l) \<and>
     (g_tmr_memory_prefaulted l' = g_tmr_memory_prefaulted l \<or>
        g_tmr_memory_prefaulted_inverse l' = g_tmr_memory_prefaulted_inverse l) \<and>
     (g_tmr_memory_domains_bound l' = g_tmr_memory_domains_bound l \<or>
        g_tmr_memory_domains_bound_inverse l' = g_tmr_memory_domains_bound_inverse l) \<and>
     (g_tmr_memory_hardened l' = g_tmr_memory_hardened l \<or>
        g_tmr_memory_hardened_inverse l' = g_tmr_memory_hardened_inverse l) \<and>
     (g_tmr_startup_self_test_passed l' = g_tmr_startup_self_test_passed l \<or>
        g_tmr_startup_self_test_passed_inverse l' = g_tmr_startup_self_test_passed_inverse l) \<and>
     (g_tmr_startup_self_test_coverage l' = g_tmr_startup_self_test_coverage l \<or>
        g_tmr_startup_self_test_coverage_inverse l' = g_tmr_startup_self_test_coverage_inverse l) \<and>
     (g_tmr_memory_prefault_pages l' = g_tmr_memory_prefault_pages l \<or>
        g_tmr_memory_prefault_pages_inverse l' = g_tmr_memory_prefault_pages_inverse l) \<and>
     (g_tmr_memory_domain_observation_fingerprint l' = g_tmr_memory_domain_observation_fingerprint l \<or>
        g_tmr_memory_domain_observation_fingerprint_inverse l' = g_tmr_memory_domain_observation_fingerprint_inverse l) \<and>
     length (g_tmr_memory_observed_domain_ids l') = 3 \<and> length (g_tmr_memory_observed_domain_ids_inverse l') = 3 \<and>
     (\<forall>i < 3. g_tmr_memory_observed_domain_ids l' ! i = g_tmr_memory_observed_domain_ids l ! i \<or>
        g_tmr_memory_observed_domain_ids_inverse l' ! i = g_tmr_memory_observed_domain_ids_inverse l ! i)"

lemma guarded_half:
  assumes "llps_guarded_bool_is_valid v i" "llps_guarded_bool_is_valid v' i'" "v' = v \<or> i' = i"
  shows "v' = v \<and> i' = i"
  using assms by (auto simp: llps_guarded_bool_is_valid_def llps_guarded_bool_word_def split: if_splits)

lemma inverse_half: "i = NOT v \<Longrightarrow> i' = NOT v' \<Longrightarrow> v' = v \<or> i' = i \<Longrightarrow> v' = v \<and> i' = i" for v :: "'a::len word"
  by auto

definition latches_shape :: "runtime_latches \<Rightarrow> bool" where
  "latches_shape l \<longleftrightarrow> length (g_tmr_memory_observed_domain_ids l) = 3 \<and> length (g_tmr_memory_observed_domain_ids_inverse l) = 3"

lemma latches_eqI:
  fixes l l' :: runtime_latches
  assumes "latches_shape l" "half_upset l l'" "llps_runtime_safety_latches_are_valid l" "llps_runtime_safety_latches_are_valid l'"
  shows "l' = l"
proof -
  note u = assms(2) [unfolded half_upset_def]
  note v = assms(3,4) [unfolded llps_runtime_safety_latches_are_valid_def llps_tmr_memory_prefault_pages_is_valid_def
      llps_tmr_startup_self_test_coverage_is_valid_def llps_tmr_memory_domain_observation_fingerprint_is_valid_def
      llps_tmr_memory_observed_domains_are_valid_def]
  have b: "g_process_memory_locked l' = g_process_memory_locked l \<and> g_process_memory_locked_inverse l' = g_process_memory_locked_inverse l"
    "g_tmr_memory_locked l' = g_tmr_memory_locked l \<and> g_tmr_memory_locked_inverse l' = g_tmr_memory_locked_inverse l"
    "g_tmr_memory_prefaulted l' = g_tmr_memory_prefaulted l \<and> g_tmr_memory_prefaulted_inverse l' = g_tmr_memory_prefaulted_inverse l"
    "g_tmr_memory_domains_bound l' = g_tmr_memory_domains_bound l \<and>
      g_tmr_memory_domains_bound_inverse l' = g_tmr_memory_domains_bound_inverse l"
    "g_tmr_memory_hardened l' = g_tmr_memory_hardened l \<and> g_tmr_memory_hardened_inverse l' = g_tmr_memory_hardened_inverse l"
    "g_tmr_startup_self_test_passed l' = g_tmr_startup_self_test_passed l \<and>
      g_tmr_startup_self_test_passed_inverse l' = g_tmr_startup_self_test_passed_inverse l"
    using u v by - (elim conjE, rule guarded_half; assumption)+
  have w: "g_tmr_startup_self_test_coverage l' = g_tmr_startup_self_test_coverage l \<and>
      g_tmr_startup_self_test_coverage_inverse l' = g_tmr_startup_self_test_coverage_inverse l"
    "g_tmr_memory_prefault_pages l' = g_tmr_memory_prefault_pages l \<and>
      g_tmr_memory_prefault_pages_inverse l' = g_tmr_memory_prefault_pages_inverse l"
    "g_tmr_memory_domain_observation_fingerprint l' = g_tmr_memory_domain_observation_fingerprint l \<and>
      g_tmr_memory_domain_observation_fingerprint_inverse l' = g_tmr_memory_domain_observation_fingerprint_inverse l"
    using u v by - (elim conjE, rule inverse_half; assumption)+
  have d: "g_tmr_memory_observed_domain_ids l' ! i = g_tmr_memory_observed_domain_ids l ! i \<and>
      g_tmr_memory_observed_domain_ids_inverse l' ! i = g_tmr_memory_observed_domain_ids_inverse l ! i" if "i < 3" for i
  proof -
    have "i \<in> set [0, 1, 2]" using that by auto
    then have "g_tmr_memory_observed_domain_ids_inverse l ! i = NOT (g_tmr_memory_observed_domain_ids l ! i)"
      "g_tmr_memory_observed_domain_ids_inverse l' ! i = NOT (g_tmr_memory_observed_domain_ids l' ! i)"
      using v by (elim conjE, blast)+
    moreover have "g_tmr_memory_observed_domain_ids l' ! i = g_tmr_memory_observed_domain_ids l ! i \<or>
        g_tmr_memory_observed_domain_ids_inverse l' ! i = g_tmr_memory_observed_domain_ids_inverse l ! i"
      using u that by (elim conjE) blast
    ultimately show ?thesis by (rule inverse_half)
  qed
  have "g_tmr_memory_observed_domain_ids l' = g_tmr_memory_observed_domain_ids l"
    "g_tmr_memory_observed_domain_ids_inverse l' = g_tmr_memory_observed_domain_ids_inverse l"
    using u d assms(1) by (simp_all add: list_eq_iff_nth_eq latches_shape_def)
  then show ?thesis using b w by (simp add: runtime_latches.equality)
qed

section \<open>The set operations keep the latches valid\<close>

lemma initial_latches_valid: "llps_runtime_safety_latches_are_valid initial_latches" "latches_shape initial_latches"
  by (simp_all add: llps_runtime_safety_latches_are_valid_def initial_latches_def llps_guarded_bool_is_valid_def
      llps_guarded_bool_word_def llps_tmr_memory_prefault_pages_is_valid_def llps_tmr_startup_self_test_coverage_is_valid_def
      llps_tmr_memory_domain_observation_fingerprint_is_valid_def llps_tmr_memory_observed_domains_are_valid_def latches_shape_def)

text \<open>One operation of the file.\<close>

inductive latch_step :: "runtime_latches \<Rightarrow> runtime_latches \<Rightarrow> bool" where
  "latch_step l (llps_process_memory_locked_set value l)"
| "latch_step l (llps_tmr_memory_locked_set value l)"
| "latch_step l (llps_tmr_memory_prefaulted_set value l)"
| "latch_step l (llps_tmr_memory_prefault_pages_set pages l)"
| "latch_step l (llps_tmr_memory_domains_bound_set value l)"
| "latch_step l (llps_tmr_memory_hardened_set value l)"
| "latch_step l (llps_tmr_startup_self_test_passed_set value l)"
| "latch_step l (llps_tmr_startup_self_test_set_coverage coverage l)"
| "latch_step l (llps_tmr_memory_domain_observation_fingerprint_set coverage l)"
| "latch_step l (llps_tmr_memory_observed_domains_set domain_ids l)"

lemma latch_step_valid:
  assumes "latch_step l l'" "llps_runtime_safety_latches_are_valid l" "latches_shape l"
  shows "llps_runtime_safety_latches_are_valid l' \<and> latches_shape l'"
  using assms
  by (induction rule: latch_step.induct)
    (simp_all add: llps_runtime_safety_latches_are_valid_def llps_guarded_bool_is_valid_def latches_shape_def
      llps_guarded_bool_set_def llps_tmr_memory_prefault_pages_is_valid_def llps_tmr_startup_self_test_coverage_is_valid_def
      llps_tmr_memory_domain_observation_fingerprint_is_valid_def llps_tmr_memory_observed_domains_are_valid_def
      llps_process_memory_locked_set_def llps_tmr_memory_locked_set_def llps_tmr_memory_prefaulted_set_def
      llps_tmr_memory_prefault_pages_set_def llps_tmr_memory_domains_bound_set_def llps_tmr_memory_hardened_set_def
      llps_tmr_startup_self_test_passed_set_def llps_tmr_startup_self_test_set_coverage_def
      llps_tmr_memory_domain_observation_fingerprint_set_def llps_tmr_memory_observed_domains_set_def Let_def)

lemma latch_steps_valid:
  "latch_step\<^sup>*\<^sup>* initial_latches l \<Longrightarrow> llps_runtime_safety_latches_are_valid l \<and> latches_shape l"
  by (induction rule: rtranclp_induct) (use initial_latches_valid latch_step_valid in blast)+

section \<open>Properties\<close>

text \<open>
  C39: The latches are valid after start-up, whichever operations of the file run and in whichever order,
  and from then on no upset of one half of any of them goes unseen: latches in which every value or
  its inverse is as it was written pass the check only when nothing has changed.
\<close>

theorem latches_upset_seen:
  assumes "latch_step\<^sup>*\<^sup>* initial_latches l" "half_upset l l'"
  shows "llps_runtime_safety_latches_are_valid l \<and> (llps_runtime_safety_latches_are_valid l' \<longleftrightarrow> l' = l)"
  using latch_steps_valid [OF assms(1)] latches_eqI [OF _ assms(2)] by blast

theorem latches_upset_seen_witness:
  "llps_runtime_safety_latches_are_valid (llps_tmr_memory_locked_set True initial_latches) \<and>
   \<not> llps_runtime_safety_latches_are_valid
      ((llps_tmr_memory_locked_set True initial_latches)\<lparr>g_tmr_memory_prefault_pages := 7\<rparr>)"
proof -
  let ?l = "llps_tmr_memory_locked_set True initial_latches"
  have r: "latch_step\<^sup>*\<^sup>* initial_latches ?l" by (intro r_into_rtranclp latch_step.intros)
  have p: "g_tmr_memory_prefault_pages ?l = 0" and s: "latches_shape ?l"
    using latch_steps_valid [OF r] by (simp_all add: llps_tmr_memory_locked_set_def llps_guarded_bool_set_def initial_latches_def)
  have h: "half_upset ?l (?l\<lparr>g_tmr_memory_prefault_pages := 7\<rparr>)" using s by (simp add: half_upset_def latches_shape_def)
  have n: "?l\<lparr>g_tmr_memory_prefault_pages := 7\<rparr> \<noteq> ?l"
  proof
    assume "?l\<lparr>g_tmr_memory_prefault_pages := 7\<rparr> = ?l"
    then have "g_tmr_memory_prefault_pages (?l\<lparr>g_tmr_memory_prefault_pages := 7\<rparr>) = g_tmr_memory_prefault_pages ?l" by simp
    then show False using p by simp
  qed
  show ?thesis using latches_upset_seen [OF r h] n by blast
qed

end
