(* ===== verification/Synthetic_Evidence.thy ===== *)
theory Synthetic_Evidence
  imports Config Secded Safety_Counters
begin

text \<open>
  The software model of ECC memory and of NUMA domains: the synthetic observations of
  \<^verbatim>\<open>src/platform/llps_edac.c\<close> and \<^verbatim>\<open>src/platform/llps_numa.c\<close>, and the patrols of
  \<^verbatim>\<open>src/core/llps_state.c\<close> that check them, and the Hamming code, at every tick of the readiness
  monitor. A patrol counts its result, so it takes and returns the safety counters.
\<close>

section \<open>Definitions\<close>

subsection \<open>Synthetic ECC\<close>

record llps_edac_observation_t =
  eo_controller_count :: u32
  eo_dimm_count :: u32
  eo_scrub_rate_count :: u32
  eo_controller_counter_coverage :: u32
  eo_dimm_mode_coverage :: u32
  eo_dimm_counter_coverage :: u32
  eo_scrub_rate_coverage :: u32
  eo_corrected_error_count :: u64
  eo_uncorrected_error_count :: u64
  eo_dimm_corrected_error_count :: u64
  eo_dimm_uncorrected_error_count :: u64
  eo_scrub_rate_sum :: u64

definition llps_edac_observation_clear :: llps_edac_observation_t where
  "llps_edac_observation_clear =
     \<lparr>eo_controller_count = 0, eo_dimm_count = 0, eo_scrub_rate_count = 0, eo_controller_counter_coverage = 0,
      eo_dimm_mode_coverage = 0, eo_dimm_counter_coverage = 0, eo_scrub_rate_coverage = 0, eo_corrected_error_count = 0,
      eo_uncorrected_error_count = 0, eo_dimm_corrected_error_count = 0, eo_dimm_uncorrected_error_count = 0,
      eo_scrub_rate_sum = 0\<rparr>"

text \<open>The labels with their terminators: \<^verbatim>\<open>software-ecc\<close>, \<^verbatim>\<open>SECDED\<close> and \<^verbatim>\<open>software-numa\<close>.\<close>

definition label_bytes :: "string \<Rightarrow> u8 list" where
  "label_bytes s = map of_char s @ [0]"

definition add_label :: "string \<Rightarrow> u32 \<Rightarrow> u32" where
  "add_label s crc = llps_crc32_update_cstr_bounded crc (Some (label_bytes s)) (length (label_bytes s))"

text \<open>The share of one of \<open>parts\<close> parts when \<open>amount\<close> is spread over them.\<close>

definition spread_share :: "u64 \<Rightarrow> u32 \<Rightarrow> u32 \<Rightarrow> u64" where
  "spread_share amount parts i =
     amount div ucast parts + (if i < ucast (amount mod ucast parts) then 1 else 0)"

definition edac_controller_crc :: "u32 \<Rightarrow> u32 \<Rightarrow> u64 \<Rightarrow> u64 \<Rightarrow> u64 \<Rightarrow> u32 \<Rightarrow> u32 \<Rightarrow> u32" where
  "edac_controller_crc controller_count dimm_count scrub_rate ce ue crc controller =
     (let crc = llps_crc32_update_u32 crc controller;
          crc = llps_crc32_update_u32 crc
            (dimm_count div controller_count + (if controller < dimm_count mod controller_count then 1 else 0));
          crc = llps_crc32_update_u64 crc scrub_rate;
          crc = llps_crc32_update_u64 crc (spread_share ce controller_count controller)
      in llps_crc32_update_u64 crc (spread_share ue controller_count controller))"

definition edac_dimm_crc :: "u32 \<Rightarrow> u32 \<Rightarrow> u64 \<Rightarrow> u64 \<Rightarrow> u32 \<Rightarrow> u32 \<Rightarrow> u32" where
  "edac_dimm_crc controller_count dimm_count ce ue crc dimm =
     (let crc = llps_crc32_update_u32 crc dimm;
          crc = llps_crc32_update_u32 crc (dimm mod controller_count);
          crc = llps_crc32_update_u32 crc (dimm div controller_count);
          crc = add_label ''SECDED'' crc;
          crc = llps_crc32_update_u64 crc (spread_share ce dimm_count dimm)
      in llps_crc32_update_u64 crc (spread_share ue dimm_count dimm))"

text \<open>The results are whether ECC is present, whether the counters are clean, the fingerprint and the observation.\<close>

definition llps_edac_synthesize_ecc ::
    "u32 \<Rightarrow> u32 \<Rightarrow> u64 \<Rightarrow> u64 \<Rightarrow> u64 \<Rightarrow> u64 \<Rightarrow> u64 \<Rightarrow> bool \<times> bool \<times> u32 \<times> llps_edac_observation_t" where
  "llps_edac_synthesize_ecc controller_count dimm_count scrub_rate controller_ce controller_ue dimm_ce dimm_ue =
     (if controller_count = 0 \<or> controller_count > 256 \<or> dimm_count = 0 \<or> dimm_count > 1024 \<or>
         controller_count > dimm_count \<or> scrub_rate = 0 \<or> scrub_rate > UINT64_MAX div 1024 \<or>
         scrub_rate > UINT64_MAX div ucast controller_count
      then (False, False, 0, llps_edac_observation_clear)
      else
        (let observation = \<lparr>eo_controller_count = controller_count, eo_dimm_count = dimm_count,
               eo_scrub_rate_count = controller_count, eo_controller_counter_coverage = 1, eo_dimm_mode_coverage = 1,
               eo_dimm_counter_coverage = 1, eo_scrub_rate_coverage = 1, eo_corrected_error_count = controller_ce,
               eo_uncorrected_error_count = controller_ue, eo_dimm_corrected_error_count = dimm_ce,
               eo_dimm_uncorrected_error_count = dimm_ue, eo_scrub_rate_sum = scrub_rate * ucast controller_count\<rparr>;
             crc = add_label ''software-ecc'' LLPS_SESSION_CRC_INIT;
             crc = llps_crc32_update_u32 crc controller_count;
             crc = llps_crc32_update_u32 crc dimm_count;
             crc = llps_crc32_update_u32 crc (eo_controller_count observation);
             crc = llps_crc32_update_u32 crc (eo_scrub_rate_count observation);
             crc = llps_crc32_update_u32 crc (eo_controller_counter_coverage observation);
             crc = llps_crc32_update_u32 crc (eo_dimm_mode_coverage observation);
             crc = llps_crc32_update_u32 crc (eo_dimm_counter_coverage observation);
             crc = llps_crc32_update_u32 crc (eo_scrub_rate_coverage observation);
             crc = llps_crc32_update_u64 crc (eo_corrected_error_count observation);
             crc = llps_crc32_update_u64 crc (eo_uncorrected_error_count observation);
             crc = llps_crc32_update_u64 crc (eo_dimm_corrected_error_count observation);
             crc = llps_crc32_update_u64 crc (eo_dimm_uncorrected_error_count observation);
             crc = llps_crc32_update_u64 crc (eo_scrub_rate_sum observation);
             crc = foldl (edac_controller_crc controller_count dimm_count scrub_rate controller_ce controller_ue)
               crc (map of_nat [0..<unat controller_count]);
             crc = foldl (edac_dimm_crc controller_count dimm_count dimm_ce dimm_ue)
               crc (map of_nat [0..<unat dimm_count])
         in (True, controller_ce = 0 \<and> controller_ue = 0 \<and> dimm_ce = 0 \<and> dimm_ue = 0,
             llps_nonzero_fingerprint (crc XOR LLPS_SESSION_CRC_XOROUT), observation)))"

subsection \<open>Synthetic NUMA domains\<close>

abbreviation LLPS_SOFTWARE_NUMA_LOCAL_DISTANCE_DEFAULT :: u64 where
  "LLPS_SOFTWARE_NUMA_LOCAL_DISTANCE_DEFAULT \<equiv> 10"

abbreviation LLPS_SOFTWARE_NUMA_REMOTE_DISTANCE_DEFAULT :: u64 where
  "LLPS_SOFTWARE_NUMA_REMOTE_DISTANCE_DEFAULT \<equiv> 20"

record llps_synthetic_numa_observation_t =
  no_domains_observed :: bool
  no_fingerprint :: u32
  no_topology_coverage :: u32
  no_observed_count :: u32
  no_memtotal_kib :: u64
  no_distance_entries :: u64
  no_distance_sum :: u64
  no_distance_pair_coverage :: u32
  no_distance_01 :: u64
  no_distance_02 :: u64
  no_distance_12 :: u64

definition no_numa_observation :: llps_synthetic_numa_observation_t where
  "no_numa_observation = \<lparr>no_domains_observed = False, no_fingerprint = 0, no_topology_coverage = 0, no_observed_count = 0,
     no_memtotal_kib = 0, no_distance_entries = 0, no_distance_sum = 0, no_distance_pair_coverage = 0, no_distance_01 = 0,
     no_distance_02 = 0, no_distance_12 = 0\<rparr>"

definition numa_row_crc :: "u32 list \<Rightarrow> u64 \<Rightarrow> u64 \<Rightarrow> u32 \<Rightarrow> nat \<Rightarrow> u32" where
  "numa_row_crc domain_ids local_distance remote_distance crc row =
     foldl (\<lambda>crc column. llps_crc32_update_u64 crc (if row = column then local_distance else remote_distance))
       (llps_crc32_update_u32 crc (domain_ids ! row)) [0..<3]"

definition llps_numa_synthesize_physical_memory_domains ::
    "u32 list \<Rightarrow> u64 \<Rightarrow> u64 \<Rightarrow> u64 \<Rightarrow> llps_synthetic_numa_observation_t" where
  "llps_numa_synthesize_physical_memory_domains domain_ids memtotal_kib_per_domain configured_local_distance
       configured_remote_distance =
     (let local_distance = (if configured_local_distance \<noteq> 0 then configured_local_distance
                            else LLPS_SOFTWARE_NUMA_LOCAL_DISTANCE_DEFAULT);
          remote_distance = (if configured_remote_distance \<noteq> 0 then configured_remote_distance
                             else LLPS_SOFTWARE_NUMA_REMOTE_DISTANCE_DEFAULT)
      in if \<not> llps_domain_ids_are_distinct domain_ids \<or> memtotal_kib_per_domain = 0 \<or>
            memtotal_kib_per_domain > UINT64_MAX div 3
         then no_numa_observation
         else if local_distance = 0 \<or> remote_distance \<le> local_distance \<or> local_distance > 1000000 \<or>
            remote_distance > 1000000
         then no_numa_observation
         else
           (let total_memtotal_kib = memtotal_kib_per_domain * 3;
                total_distance_sum = 3 * local_distance + 3 * (3 - 1) * remote_distance;
                crc = add_label ''software-numa'' LLPS_SESSION_CRC_INIT;
                crc = llps_crc32_update_u64 crc memtotal_kib_per_domain;
                crc = llps_crc32_update_u64 crc local_distance;
                crc = llps_crc32_update_u64 crc remote_distance;
                crc = llps_crc32_update_u64 crc total_memtotal_kib;
                crc = llps_crc32_update_u64 crc (3 * 3);
                crc = llps_crc32_update_u64 crc total_distance_sum;
                crc = foldl (numa_row_crc domain_ids local_distance remote_distance) crc [0..<3]
            in \<lparr>no_domains_observed = True,
                no_fingerprint = llps_nonzero_fingerprint (crc XOR LLPS_SESSION_CRC_XOROUT),
                no_topology_coverage = 0x7FF, no_observed_count = 3, no_memtotal_kib = total_memtotal_kib,
                no_distance_entries = 3 * 3, no_distance_sum = total_distance_sum, no_distance_pair_coverage = 7,
                no_distance_01 = remote_distance, no_distance_02 = remote_distance, no_distance_12 = remote_distance\<rparr>))"

subsection \<open>The patrols\<close>

abbreviation LLPS_PLATFORM_EVIDENCE_MODE_REAL :: u32 where
  "LLPS_PLATFORM_EVIDENCE_MODE_REAL \<equiv> 0"

abbreviation LLPS_SOFTWARE_FAULT_INJECTION_OFF :: u32 where
  "LLPS_SOFTWARE_FAULT_INJECTION_OFF \<equiv> 0"

abbreviation LLPS_SOFTWARE_FAULT_INJECTION_SINGLE :: u32 where
  "LLPS_SOFTWARE_FAULT_INJECTION_SINGLE \<equiv> 1"

abbreviation LLPS_SOFTWARE_FAULT_INJECTION_DOUBLE :: u32 where
  "LLPS_SOFTWARE_FAULT_INJECTION_DOUBLE \<equiv> 2"

abbreviation LLPS_SOFTWARE_FAULT_INJECTION_FULL :: u32 where
  "LLPS_SOFTWARE_FAULT_INJECTION_FULL \<equiv> 3"

definition llps_runtime_cfg_uses_software_evidence_patrol :: "llps_yml_config_t \<Rightarrow> bool" where
  "llps_runtime_cfg_uses_software_evidence_patrol cfg \<longleftrightarrow>
     platform_evidence_mode cfg \<noteq> LLPS_PLATFORM_EVIDENCE_MODE_REAL \<and>
     (software_ecc_enabled cfg \<noteq> 0 \<or> software_numa_enabled cfg \<noteq> 0)"

definition llps_runtime_cfg_uses_synthetic_fault_patrol :: "llps_yml_config_t \<Rightarrow> bool" where
  "llps_runtime_cfg_uses_synthetic_fault_patrol cfg \<longleftrightarrow>
     platform_evidence_mode cfg \<noteq> LLPS_PLATFORM_EVIDENCE_MODE_REAL \<and> software_ecc_enabled cfg \<noteq> 0 \<and>
     software_fault_injection_mode cfg \<noteq> LLPS_SOFTWARE_FAULT_INJECTION_OFF"

definition llps_runtime_cfg_uses_synthetic_ecc_topology_patrol :: "llps_yml_config_t \<Rightarrow> bool" where
  "llps_runtime_cfg_uses_synthetic_ecc_topology_patrol cfg \<longleftrightarrow>
     platform_evidence_mode cfg \<noteq> LLPS_PLATFORM_EVIDENCE_MODE_REAL \<and> software_ecc_enabled cfg \<noteq> 0"

definition llps_runtime_cfg_uses_synthetic_numa_patrol :: "llps_yml_config_t \<Rightarrow> bool" where
  "llps_runtime_cfg_uses_synthetic_numa_patrol cfg \<longleftrightarrow>
     platform_evidence_mode cfg \<noteq> LLPS_PLATFORM_EVIDENCE_MODE_REAL \<and> software_numa_enabled cfg \<noteq> 0"

definition llps_runtime_synthetic_ecc_observation_matches ::
    "llps_yml_config_t \<Rightarrow> llps_edac_observation_t \<Rightarrow> bool \<Rightarrow> bool \<Rightarrow> u32 \<Rightarrow> bool" where
  "llps_runtime_synthetic_ecc_observation_matches cfg observation ecc_present counters_clean fingerprint =
     (let clean_required = platform_safety_flags cfg AND LLPS_PLATFORM_EVIDENCE_ECC_CLEAN \<noteq> 0;
          expected_scrub_rate_sum = software_ecc_scrub_rate cfg * ucast (software_ecc_controller_count cfg)
      in ecc_present \<and> fingerprint \<noteq> 0 \<and> (\<not> clean_required \<or> counters_clean) \<and>
         eo_controller_count observation = software_ecc_controller_count cfg \<and>
         eo_dimm_count observation = software_ecc_dimm_count cfg \<and>
         eo_scrub_rate_count observation = software_ecc_controller_count cfg \<and>
         eo_controller_counter_coverage observation \<noteq> 0 \<and> eo_dimm_mode_coverage observation \<noteq> 0 \<and>
         eo_dimm_counter_coverage observation \<noteq> 0 \<and> eo_scrub_rate_coverage observation \<noteq> 0 \<and>
         eo_corrected_error_count observation = software_ecc_controller_corrected_error_count cfg \<and>
         eo_uncorrected_error_count observation = software_ecc_controller_uncorrected_error_count cfg \<and>
         eo_dimm_corrected_error_count observation = software_ecc_dimm_corrected_error_count cfg \<and>
         eo_dimm_uncorrected_error_count observation = software_ecc_dimm_uncorrected_error_count cfg \<and>
         eo_scrub_rate_sum observation = expected_scrub_rate_sum)"

definition llps_runtime_synthetic_ecc_record_result :: "bool \<Rightarrow> safety_counters \<Rightarrow> safety_counters" where
  "llps_runtime_synthetic_ecc_record_result ok sc =
     (if ok then LLPS_MEMORY_SAFETY_COUNTER_INC readiness_runtime_synthetic_ecc_topology_patrol_passes_update sc
      else LLPS_MEMORY_SAFETY_COUNTER_INC readiness_runtime_synthetic_ecc_topology_patrol_failures_update sc)"

definition llps_runtime_synthetic_ecc_topology_patrol ::
    "llps_yml_config_t \<Rightarrow> safety_counters \<Rightarrow> bool \<times> safety_counters" where
  "llps_runtime_synthetic_ecc_topology_patrol cfg sc =
     (if \<not> llps_runtime_cfg_uses_synthetic_ecc_topology_patrol cfg then (True, sc)
      else (case llps_edac_synthesize_ecc (software_ecc_controller_count cfg) (software_ecc_dimm_count cfg)
              (software_ecc_scrub_rate cfg) (software_ecc_controller_corrected_error_count cfg)
              (software_ecc_controller_uncorrected_error_count cfg) (software_ecc_dimm_corrected_error_count cfg)
              (software_ecc_dimm_uncorrected_error_count cfg) of
              (ecc_present, counters_clean, fingerprint, observation) \<Rightarrow>
                (let ok = llps_runtime_synthetic_ecc_observation_matches cfg observation ecc_present counters_clean fingerprint
                 in (ok, llps_runtime_synthetic_ecc_record_result ok sc))))"

definition llps_runtime_synthetic_fault_seed :: "llps_yml_config_t \<Rightarrow> safety_counters \<Rightarrow> u64" where
  "llps_runtime_synthetic_fault_seed cfg sc =
     0xA5D39E3779B97F4A XOR push_bit 17 (readiness_runtime_monitor_passes (g_memory_safety_counters sc)) XOR
     push_bit 41 (ucast (software_ecc_controller_count cfg)) XOR push_bit 29 (ucast (software_ecc_dimm_count cfg)) XOR
     software_ecc_scrub_rate cfg"

definition llps_runtime_synthetic_fault_single_case :: "u64 \<Rightarrow> bool" where
  "llps_runtime_synthetic_fault_single_case seed =
     (let single_ecc = llps_secded_encode_u64 seed 64;
          bit_index = ucast (drop_bit 3 seed AND 63) :: u32;
          single_data = seed XOR push_bit (unat bit_index) 1
      in case llps_secded_repair_u64 single_data 64 single_ecc of
           (status, single_data, single_ecc) \<Rightarrow>
             status = LLPS_SECDED_CORRECTED \<and> single_data = seed \<and> llps_secded_is_valid_u64 single_data 64 single_ecc)"

definition llps_runtime_synthetic_fault_double_case :: "u64 \<Rightarrow> bool" where
  "llps_runtime_synthetic_fault_double_case seed =
     (let double_data = seed XOR 0x5A5A1F2E3D4C8778;
          double_ecc = llps_secded_encode_u64 double_data 64;
          bit0 = ucast (drop_bit 11 seed AND 63) :: u32;
          bit1 = (bit0 + 19) AND 63;
          double_data = double_data XOR push_bit (unat bit0) 1;
          double_data = double_data XOR push_bit (unat bit1) 1
      in fst (llps_secded_repair_u64 double_data 64 double_ecc) = LLPS_SECDED_UNCORRECTABLE)"

definition llps_runtime_synthetic_fault_record_result :: "bool \<Rightarrow> safety_counters \<Rightarrow> safety_counters" where
  "llps_runtime_synthetic_fault_record_result ok sc =
     (if ok then LLPS_MEMORY_SAFETY_COUNTER_INC readiness_runtime_synthetic_fault_patrol_passes_update sc
      else LLPS_MEMORY_SAFETY_COUNTER_INC readiness_runtime_synthetic_fault_patrol_failures_update sc)"

definition llps_runtime_synthetic_fault_patrol :: "llps_yml_config_t \<Rightarrow> safety_counters \<Rightarrow> bool \<times> safety_counters" where
  "llps_runtime_synthetic_fault_patrol cfg sc =
     (let seed = llps_runtime_synthetic_fault_seed cfg sc; mode = software_fault_injection_mode cfg
      in if \<not> llps_runtime_cfg_uses_synthetic_fault_patrol cfg then (True, sc)
         else if mode > LLPS_SOFTWARE_FAULT_INJECTION_FULL
         then (False, LLPS_MEMORY_SAFETY_COUNTER_INC readiness_runtime_synthetic_fault_patrol_failures_update sc)
         else
           (let ok = True;
                ok = (if mode = LLPS_SOFTWARE_FAULT_INJECTION_SINGLE \<or> mode = LLPS_SOFTWARE_FAULT_INJECTION_FULL
                      then llps_runtime_synthetic_fault_single_case seed \<and> ok else ok);
                ok = (if mode = LLPS_SOFTWARE_FAULT_INJECTION_DOUBLE \<or> mode = LLPS_SOFTWARE_FAULT_INJECTION_FULL
                      then llps_runtime_synthetic_fault_double_case seed \<and> ok else ok)
            in (ok, llps_runtime_synthetic_fault_record_result ok sc)))"

definition llps_runtime_synthetic_numa_collect :: "llps_yml_config_t \<Rightarrow> llps_synthetic_numa_observation_t" where
  "llps_runtime_synthetic_numa_collect cfg =
     llps_numa_synthesize_physical_memory_domains (platform_physical_memory_domains cfg) (software_numa_memtotal_kib cfg)
       (software_numa_local_distance cfg) (software_numa_remote_distance cfg)"

definition llps_runtime_synthetic_numa_expected_distance_sum :: "u64 \<Rightarrow> u64 \<Rightarrow> u64" where
  "llps_runtime_synthetic_numa_expected_distance_sum local_distance remote_distance =
     3 * local_distance + 3 * (3 - 1) * remote_distance"

definition llps_runtime_synthetic_numa_observation_matches ::
    "llps_yml_config_t \<Rightarrow> llps_synthetic_numa_observation_t \<Rightarrow> u64 \<Rightarrow> u64 \<Rightarrow> bool" where
  "llps_runtime_synthetic_numa_observation_matches cfg obs local_distance remote_distance \<longleftrightarrow>
     no_domains_observed obs \<and> no_fingerprint obs \<noteq> 0 \<and> no_topology_coverage obs = 0x7FF \<and> no_observed_count obs = 3 \<and>
     software_numa_memtotal_kib cfg \<noteq> 0 \<and> no_memtotal_kib obs = software_numa_memtotal_kib cfg * 3 \<and>
     no_distance_entries obs = 3 * 3 \<and>
     no_distance_sum obs = llps_runtime_synthetic_numa_expected_distance_sum local_distance remote_distance \<and>
     no_distance_pair_coverage obs = 7 \<and> no_distance_01 obs = remote_distance \<and> no_distance_02 obs = remote_distance \<and>
     no_distance_12 obs = remote_distance"

definition llps_runtime_synthetic_numa_record_result :: "bool \<Rightarrow> safety_counters \<Rightarrow> safety_counters" where
  "llps_runtime_synthetic_numa_record_result ok sc =
     (if ok then LLPS_MEMORY_SAFETY_COUNTER_INC readiness_runtime_synthetic_numa_patrol_passes_update sc
      else LLPS_MEMORY_SAFETY_COUNTER_INC readiness_runtime_synthetic_numa_patrol_failures_update sc)"

definition llps_runtime_synthetic_numa_patrol :: "llps_yml_config_t \<Rightarrow> safety_counters \<Rightarrow> bool \<times> safety_counters" where
  "llps_runtime_synthetic_numa_patrol cfg sc =
     (let local_distance = (if software_numa_local_distance cfg \<noteq> 0 then software_numa_local_distance cfg
                            else LLPS_SOFTWARE_NUMA_LOCAL_DISTANCE_DEFAULT);
          remote_distance = (if software_numa_remote_distance cfg \<noteq> 0 then software_numa_remote_distance cfg
                             else LLPS_SOFTWARE_NUMA_REMOTE_DISTANCE_DEFAULT)
      in if \<not> llps_runtime_cfg_uses_synthetic_numa_patrol cfg then (True, sc)
         else (let obs = llps_runtime_synthetic_numa_collect cfg;
                   ok = llps_runtime_synthetic_numa_observation_matches cfg obs local_distance remote_distance
               in (ok, llps_runtime_synthetic_numa_record_result ok sc)))"


section \<open>The patrols of a valid configuration\<close>

lemma observation_fingerprint_nonzero: "llps_nonzero_fingerprint f \<noteq> 0"
  by (simp add: llps_nonzero_fingerprint_def)

lemma scrub_rate_bound:
  assumes "(rate :: u64) \<le> UINT64_MAX div 1024" "(count :: u32) \<noteq> 0" "count \<le> 256"
  shows "\<not> rate > UINT64_MAX div ucast count"
proof -
  have c: "unat (ucast count :: u64) = unat count"
    by (simp add: unsigned_ucast_eq take_bit_nat_eq_self order.strict_trans [OF unsigned_less])
  have "unat count \<le> 1024" "0 < unat count" using assms(2,3) by (simp_all add: word_le_nat_alt unat_gt_0)
  then have "unat (UINT64_MAX :: u64) div 1024 \<le> unat (UINT64_MAX :: u64) div unat count" by (intro div_le_mono2)
  then show ?thesis using assms(1) c by (simp add: word_le_nat_alt not_less unat_div)
qed

lemma ecc_patrol_verdict:
  assumes "llps_runtime_cfg_software_ecc_is_valid cfg"
  shows "fst (llps_runtime_synthetic_ecc_topology_patrol cfg sc) \<longleftrightarrow>
    \<not> (llps_runtime_cfg_uses_synthetic_ecc_topology_patrol cfg \<and>
       platform_safety_flags cfg AND LLPS_PLATFORM_EVIDENCE_ECC_CLEAN \<noteq> 0 \<and>
       \<not> (software_ecc_controller_corrected_error_count cfg = 0 \<and> software_ecc_controller_uncorrected_error_count cfg = 0 \<and>
          software_ecc_dimm_corrected_error_count cfg = 0 \<and> software_ecc_dimm_uncorrected_error_count cfg = 0))"
proof (cases "llps_runtime_cfg_uses_synthetic_ecc_topology_patrol cfg")
  case False
  then show ?thesis by (simp add: llps_runtime_synthetic_ecc_topology_patrol_def)
next
  case True
  then have b: "software_ecc_controller_count cfg \<noteq> 0" "software_ecc_controller_count cfg \<le> 256"
    "software_ecc_dimm_count cfg \<noteq> 0" "software_ecc_dimm_count cfg \<le> 1024"
    "software_ecc_controller_count cfg \<le> software_ecc_dimm_count cfg"
    "software_ecc_scrub_rate cfg \<noteq> 0" "software_ecc_scrub_rate cfg \<le> UINT64_MAX div 1024"
    using assms by (simp_all add: llps_runtime_cfg_software_ecc_is_valid_def
        llps_runtime_cfg_uses_synthetic_ecc_topology_patrol_def split: if_splits)
  have accepted: "\<not> (software_ecc_controller_count cfg = 0 \<or> software_ecc_controller_count cfg > 256 \<or>
      software_ecc_dimm_count cfg = 0 \<or> software_ecc_dimm_count cfg > 1024 \<or>
      software_ecc_controller_count cfg > software_ecc_dimm_count cfg \<or> software_ecc_scrub_rate cfg = 0 \<or>
      software_ecc_scrub_rate cfg > UINT64_MAX div 1024 \<or>
      software_ecc_scrub_rate cfg > UINT64_MAX div ucast (software_ecc_controller_count cfg))"
    using b scrub_rate_bound [OF b(7,1,2)] by (auto simp: not_less)
  show ?thesis
    unfolding llps_runtime_synthetic_ecc_topology_patrol_def llps_edac_synthesize_ecc_def if_not_P [OF accepted]
    using True by (auto simp: Let_def llps_runtime_synthetic_ecc_observation_matches_def observation_fingerprint_nonzero)
qed

lemma numa_patrol_passes:
  assumes "llps_runtime_cfg_software_numa_is_valid cfg" "llps_runtime_cfg_domain_bindings_are_valid cfg"
  shows "fst (llps_runtime_synthetic_numa_patrol cfg sc)"
proof (cases "llps_runtime_cfg_uses_synthetic_numa_patrol cfg")
  case False
  then show ?thesis by (simp add: llps_runtime_synthetic_numa_patrol_def Let_def)
next
  case True
  then have b: "software_numa_memtotal_kib cfg \<noteq> 0" "software_numa_memtotal_kib cfg \<le> UINT64_MAX div 3"
    "(software_numa_local_distance cfg = 0) = (software_numa_remote_distance cfg = 0)"
    "software_numa_local_distance cfg \<le> 1000000" "software_numa_remote_distance cfg \<le> 1000000"
    "software_numa_local_distance cfg = 0 \<or> software_numa_remote_distance cfg > software_numa_local_distance cfg"
    "llps_domain_ids_are_distinct (platform_physical_memory_domains cfg)"
    using assms by (auto simp: llps_runtime_cfg_software_numa_is_valid_def llps_runtime_cfg_uses_synthetic_numa_patrol_def
        llps_runtime_cfg_domain_bindings_are_valid_def Let_def split: if_splits)
  let ?l = "if software_numa_local_distance cfg \<noteq> 0 then software_numa_local_distance cfg else 10"
  let ?r = "if software_numa_remote_distance cfg \<noteq> 0 then software_numa_remote_distance cfg else 20"
  have accepted: "\<not> (\<not> llps_domain_ids_are_distinct (platform_physical_memory_domains cfg) \<or> software_numa_memtotal_kib cfg = 0 \<or>
      software_numa_memtotal_kib cfg > UINT64_MAX div 3)" "\<not> (?l = 0 \<or> ?r \<le> ?l \<or> ?l > 1000000 \<or> ?r > 1000000)"
    using b by (auto simp: not_less not_le)
  show ?thesis
    unfolding llps_runtime_synthetic_numa_patrol_def llps_runtime_synthetic_numa_collect_def Let_def
      llps_numa_synthesize_physical_memory_domains_def if_not_P [OF accepted(1)] if_not_P [OF accepted(2)]
    using True b(1) by (simp add: llps_runtime_synthetic_numa_observation_matches_def
        llps_runtime_synthetic_numa_expected_distance_sum_def observation_fingerprint_nonzero)
qed

lemma and_63_less: "unat ((w :: 'a::len word) AND 63) < 64"
proof -
  have "w AND 63 = take_bit 6 w" by (simp add: take_bit_eq_mask mask_numeral)
  then show ?thesis by (simp add: unsigned_take_bit_eq take_bit_nat_def)
qed

lemma repair_u64_two_flips:
  assumes "i < 64" "j < 64" "i \<noteq> j"
  shows "fst (llps_secded_repair_u64 ((w XOR push_bit i 1) XOR push_bit j 1) 64 (llps_secded_encode_u64 w 64)) =
    LLPS_SECDED_UNCORRECTABLE"
  using repair_double_flip [of 64 w "DataBit j" "DataBit i"] assms by (simp add: and_mask_64)

lemma single_case_passes: "llps_runtime_synthetic_fault_single_case seed"
proof -
  have "unat (ucast (drop_bit 3 seed AND 63) :: u32) < 64"
    using and_63_less [of "drop_bit 3 seed"] by (simp add: unsigned_ucast_eq take_bit_nat_eq_self)
  note repair_u64_data_flip [OF this, of seed]
  then show ?thesis
    unfolding llps_runtime_synthetic_fault_single_case_def Let_def by (simp only: prod.case is_valid_encode simp_thms)
qed

lemma next_mod_differs: "n < 64 \<Longrightarrow> (n + 19) mod 64 \<noteq> (n :: nat)"
  by (cases "n + 19 < 64") (auto simp: le_mod_geq)

lemma next_bit_differs:
  fixes b :: u32 assumes "unat b < 64" shows "unat ((b + 19) AND 63) \<noteq> unat b"
proof -
  have "(b + 19) AND 63 = take_bit 6 (b + 19)" by (simp add: take_bit_eq_mask mask_numeral)
  moreover have "unat (b + 19) = unat b + 19" using assms by (simp add: unat_word_ariths)
  ultimately have "unat ((b + 19) AND 63) = (unat b + 19) mod 64" by (simp add: unsigned_take_bit_eq take_bit_nat_def)
  then show ?thesis using next_mod_differs [OF assms] by simp
qed

lemma double_case_passes: "llps_runtime_synthetic_fault_double_case seed"
proof -
  let ?b0 = "ucast (drop_bit 11 seed AND 63) :: u32"
  have b0: "unat ?b0 < 64" using and_63_less [of "drop_bit 11 seed"] by (simp add: unsigned_ucast_eq take_bit_nat_eq_self)
  show ?thesis
    unfolding llps_runtime_synthetic_fault_double_case_def Let_def
    by (rule repair_u64_two_flips [OF b0 and_63_less next_bit_differs [OF b0, symmetric]])
qed

lemma fault_patrol_passes:
  assumes "software_fault_injection_mode cfg \<le> 3"
  shows "fst (llps_runtime_synthetic_fault_patrol cfg sc)"
proof -
  have "\<not> software_fault_injection_mode cfg > 3" using assms by (simp add: not_less)
  then show ?thesis
    unfolding llps_runtime_synthetic_fault_patrol_def Let_def by (simp add: single_case_passes double_case_passes)
qed

text \<open>A patrol that runs adds one to its passes or to its failures, and to nothing else.\<close>

lemma patrols_count:
  "g_memory_safety_counters (snd (llps_runtime_synthetic_fault_patrol cfg sc)) =
     (if \<not> llps_runtime_cfg_uses_synthetic_fault_patrol cfg then g_memory_safety_counters sc
      else if fst (llps_runtime_synthetic_fault_patrol cfg sc)
      then readiness_runtime_synthetic_fault_patrol_passes_update (\<lambda>n. n + 1) (g_memory_safety_counters sc)
      else readiness_runtime_synthetic_fault_patrol_failures_update (\<lambda>n. n + 1) (g_memory_safety_counters sc))"
  "g_memory_safety_counters (snd (llps_runtime_synthetic_numa_patrol cfg sc)) =
     (if \<not> llps_runtime_cfg_uses_synthetic_numa_patrol cfg then g_memory_safety_counters sc
      else if fst (llps_runtime_synthetic_numa_patrol cfg sc)
      then readiness_runtime_synthetic_numa_patrol_passes_update (\<lambda>n. n + 1) (g_memory_safety_counters sc)
      else readiness_runtime_synthetic_numa_patrol_failures_update (\<lambda>n. n + 1) (g_memory_safety_counters sc))"
  "g_memory_safety_counters (snd (llps_runtime_synthetic_ecc_topology_patrol cfg sc)) =
     (if \<not> llps_runtime_cfg_uses_synthetic_ecc_topology_patrol cfg then g_memory_safety_counters sc
      else if fst (llps_runtime_synthetic_ecc_topology_patrol cfg sc)
      then readiness_runtime_synthetic_ecc_topology_patrol_passes_update (\<lambda>n. n + 1) (g_memory_safety_counters sc)
      else readiness_runtime_synthetic_ecc_topology_patrol_failures_update (\<lambda>n. n + 1) (g_memory_safety_counters sc))"
  by (simp_all add: llps_runtime_synthetic_fault_patrol_def llps_runtime_synthetic_fault_record_result_def
      llps_runtime_synthetic_numa_patrol_def llps_runtime_synthetic_numa_record_result_def
      llps_runtime_synthetic_ecc_topology_patrol_def llps_runtime_synthetic_ecc_record_result_def
      Let_def split: prod.split)

section \<open>Properties\<close>

text \<open>
  C40: What the readiness monitor's synthetic checks can say about a server with a valid configuration. The
  injected single fault is repaired and the injected double fault refused for every seed, and the
  synthetic memory domains always match what the configuration asks for, so these two patrols never
  fail. The patrol of the synthetic ECC fails in one case only: clean error counters are required and
  the configuration itself sets one of the error counts. A patrol that the configuration uses adds
  one to its counter of passes when it passes and one to its counter of failures when it fails, and
  changes no other counter; one that is not used counts nothing.
\<close>

theorem synthetic_patrols_verdict:
  assumes "llps_runtime_cfg_values_are_valid cfg"
  shows "fst (llps_runtime_synthetic_fault_patrol cfg sc) \<and> fst (llps_runtime_synthetic_numa_patrol cfg sc) \<and>
    (fst (llps_runtime_synthetic_ecc_topology_patrol cfg sc) \<longleftrightarrow>
       \<not> (llps_runtime_cfg_uses_synthetic_ecc_topology_patrol cfg \<and>
          platform_safety_flags cfg AND LLPS_PLATFORM_EVIDENCE_ECC_CLEAN \<noteq> 0 \<and>
          \<not> (software_ecc_controller_corrected_error_count cfg = 0 \<and>
             software_ecc_controller_uncorrected_error_count cfg = 0 \<and>
             software_ecc_dimm_corrected_error_count cfg = 0 \<and> software_ecc_dimm_uncorrected_error_count cfg = 0))) \<and>
    g_memory_safety_counters (snd (llps_runtime_synthetic_fault_patrol cfg sc)) =
      (if llps_runtime_cfg_uses_synthetic_fault_patrol cfg
       then readiness_runtime_synthetic_fault_patrol_passes_update (\<lambda>n. n + 1) (g_memory_safety_counters sc)
       else g_memory_safety_counters sc) \<and>
    g_memory_safety_counters (snd (llps_runtime_synthetic_numa_patrol cfg sc)) =
      (if llps_runtime_cfg_uses_synthetic_numa_patrol cfg
       then readiness_runtime_synthetic_numa_patrol_passes_update (\<lambda>n. n + 1) (g_memory_safety_counters sc)
       else g_memory_safety_counters sc) \<and>
    g_memory_safety_counters (snd (llps_runtime_synthetic_ecc_topology_patrol cfg sc)) =
      (if \<not> llps_runtime_cfg_uses_synthetic_ecc_topology_patrol cfg then g_memory_safety_counters sc
       else if fst (llps_runtime_synthetic_ecc_topology_patrol cfg sc)
       then readiness_runtime_synthetic_ecc_topology_patrol_passes_update (\<lambda>n. n + 1) (g_memory_safety_counters sc)
       else readiness_runtime_synthetic_ecc_topology_patrol_failures_update (\<lambda>n. n + 1) (g_memory_safety_counters sc))"
proof -
  have parts: "llps_runtime_cfg_software_ecc_is_valid cfg" "llps_runtime_cfg_software_numa_is_valid cfg"
    "llps_runtime_cfg_domain_bindings_are_valid cfg" "software_fault_injection_mode cfg \<le> 3"
    using assms by (auto simp: llps_runtime_cfg_values_are_valid_def llps_runtime_cfg_platform_basics_are_valid_def split: if_splits)
  have pass: "fst (llps_runtime_synthetic_fault_patrol cfg sc)" "fst (llps_runtime_synthetic_numa_patrol cfg sc)"
    using parts numa_patrol_passes fault_patrol_passes by blast+
  show ?thesis
    using pass ecc_patrol_verdict [OF parts(1), of sc] patrols_count [of cfg sc] by (simp only: if_True if_False if_not_P) argo
qed

text \<open>A configuration that uses all three patrols.\<close>

definition synthetic_cfg :: llps_yml_config_t where
  "synthetic_cfg = example_cfg\<lparr>platform_evidence_mode := 1, software_ecc_enabled := 1, software_ecc_controller_count := 2,
     software_ecc_dimm_count := 3, software_ecc_scrub_rate := 4096, software_fault_injection_mode := 3,
     software_numa_enabled := 1, software_numa_memtotal_kib := 1024, platform_safety_flags := 7, platform_safety_evidence_id := 9,
     platform_physical_memory_domains := [1, 2, 3], payload_ecc_enabled := 1\<rparr>"

definition fresh_counters :: safety_counters where
  "fresh_counters = llps_memory_safety_counters_reset
     \<lparr>g_memory_safety_counters = zero_counters, g_memory_safety_counters_crc = 0, g_memory_safety_counters_crc_inverse = 0\<rparr>"

lemma synthetic_cfg_valid: "llps_runtime_cfg_values_are_valid synthetic_cfg"
proof -
  have parts: "llps_runtime_cfg_core_limits_are_valid synthetic_cfg" "llps_runtime_cfg_paths_are_valid synthetic_cfg"
    "llps_runtime_cfg_platform_basics_are_valid synthetic_cfg" "llps_runtime_cfg_software_ecc_is_valid synthetic_cfg"
    "llps_runtime_cfg_software_numa_is_valid synthetic_cfg" "llps_runtime_cfg_platform_policy_is_valid synthetic_cfg"
    "llps_runtime_cfg_domain_bindings_are_valid synthetic_cfg" "listen_port synthetic_cfg \<noteq> target_port synthetic_cfg"
    by code_simp+
  have "\<not> llps_platform_attestation_inputs_invalid (platform_safety_flags synthetic_cfg) (platform_safety_evidence_id synthetic_cfg)
      (platform_physical_memory_domains synthetic_cfg) (platform_hardware_tmr_domains synthetic_cfg)
      (platform_hardware_tmr_voter_domain synthetic_cfg)" by code_simp
  note ok = this [folded fingerprint_OK]
  have "platform_attestation_fingerprint synthetic_cfg = 0" "require_readiness synthetic_cfg = 0" by code_simp+
  then have "llps_platform_attestation_config_is_valid synthetic_cfg"
    using ok unfolding llps_platform_attestation_config_is_valid_def by (auto split: prod.split)
  then show ?thesis using parts by (simp add: llps_runtime_cfg_values_are_valid_def)
qed

theorem synthetic_patrols_verdict_witness:
  "let (ok, sc) = llps_runtime_synthetic_fault_patrol synthetic_cfg fresh_counters;
       (ok', sc') = llps_runtime_synthetic_numa_patrol synthetic_cfg fresh_counters;
       (ok'', sc'') = llps_runtime_synthetic_ecc_topology_patrol synthetic_cfg fresh_counters
   in ok \<and> ok' \<and> ok'' \<and>
      g_memory_safety_counters sc = zero_counters\<lparr>readiness_runtime_synthetic_fault_patrol_passes := 1\<rparr> \<and>
      g_memory_safety_counters sc' = zero_counters\<lparr>readiness_runtime_synthetic_numa_patrol_passes := 1\<rparr> \<and>
      g_memory_safety_counters sc'' = zero_counters\<lparr>readiness_runtime_synthetic_ecc_topology_patrol_passes := 1\<rparr>"
proof -
  have uses: "llps_runtime_cfg_uses_synthetic_fault_patrol synthetic_cfg"
    "llps_runtime_cfg_uses_synthetic_numa_patrol synthetic_cfg"
    "llps_runtime_cfg_uses_synthetic_ecc_topology_patrol synthetic_cfg" by code_simp+
  have fresh: "g_memory_safety_counters fresh_counters = zero_counters"
    by (simp add: fresh_counters_def llps_memory_safety_counters_reset_def)
  show ?thesis
    using synthetic_patrols_verdict [OF synthetic_cfg_valid, of "fresh_counters"] uses fresh
    by (simp add: split_beta Let_def) (simp add: synthetic_cfg_def example_cfg_def zero_counters_def)
qed

end
