(* ===== verification/Watchdog.thy ===== *)
theory Watchdog
  imports Connection Latches Synthetic_Evidence
begin

text \<open>
  The watchdog task of \<^verbatim>\<open>src/core/llps_state.c\<close>: the scrubs of the redundant metadata and of the
  payload codes, the tick of the readiness monitor with the checks of
  \<^verbatim>\<open>src/readiness/llps_readiness_config.c\<close> and \<^verbatim>\<open>src/tmr/llps_tmr_layout.c\<close>, the scan for idle sessions,
  and shutting all sessions down. An operation that shuts descriptors down returns their list. What
  other tasks do at the points where a loop may yield is left out: a scan is one step.
\<close>

section \<open>Definitions\<close>

definition sv_count ::
    "((u64 \<Rightarrow> u64) \<Rightarrow> llps_memory_safety_counters_t \<Rightarrow> llps_memory_safety_counters_t) \<Rightarrow> server_state \<Rightarrow> server_state" where
  "sv_count field sv = sv_set_counters (LLPS_MEMORY_SAFETY_COUNTER_INC field (sv_counters sv)) sv"

text \<open>
  The loops over the sessions read the bound from the configuration before every turn; a turn may change
  it. \<open>'a\<close> is what the loop collects.
\<close>

function session_loop ::
    "(nat \<Rightarrow> 'a \<times> server_state \<Rightarrow> 'a \<times> server_state) \<Rightarrow> nat \<Rightarrow> 'a \<times> server_state \<Rightarrow> 'a \<times> server_state" where
  "session_loop turn i st =
     (if i < unat (max_clients (sv_cfg (snd st))) then session_loop turn (Suc i) (turn i st) else st)"
  by pat_completeness auto

termination
proof (relation "measure (\<lambda>(turn, i, st). 2 ^ 32 - i)")
  show "((turn, Suc i, turn i st), turn, i, st) \<in> measure (\<lambda>(turn, i, st). 2 ^ 32 - i)"
    if "i < unat (max_clients (sv_cfg (snd st)))" for turn :: "nat \<Rightarrow> 'a \<times> server_state \<Rightarrow> 'a \<times> server_state" and i st
    using order.strict_trans [OF that unsigned_less] by simp
qed simp

declare session_loop.simps [simp del]

subsection \<open>Shutting all sessions down\<close>

definition shutdown_turn :: "nat \<Rightarrow> c_int list \<times> server_state \<Rightarrow> c_int list \<times> server_state" where
  "shutdown_turn i = (\<lambda>(fds, sv).
     case llps_session_is_active i sv of
       (True, sv) \<Rightarrow> (fds @ llps_force_shutdown_session_fds (sv_session i sv), sv)
     | (False, sv) \<Rightarrow>
         (case llps_session_is_free i sv of
            (True, sv) \<Rightarrow> (fds, sv)
          | (False, sv) \<Rightarrow>
              (let sv = sv_violation sv in (fds @ llps_force_shutdown_session_fds (sv_session i sv), sv))))"

definition llps_shutdown_all_sessions :: "server_state \<Rightarrow> c_int list \<times> server_state" where
  "llps_shutdown_all_sessions sv =
     (case sv_reconcile_cfg sv of
        (ok, sv) \<Rightarrow>
          (let bound = (if ok then max_clients (sv_cfg sv) else LLPS_MAX_CLIENTS)
           in fold shutdown_turn [0..<unat bound] ([], sv)))"

text \<open>Requesting the shutdown and shutting all sessions down stand together.\<close>

definition stop_server :: "server_state \<Rightarrow> c_int list \<times> server_state" where
  "stop_server sv = llps_shutdown_all_sessions (sv_request_shutdown sv)"

subsection \<open>Scrubbing the payload codes\<close>

definition llps_payload_ecc_scrub_session :: "nat \<Rightarrow> server_state \<Rightarrow> bool \<times> server_state" where
  "llps_payload_ecc_scrub_session n sv =
     (let cap = buffer_size (sv_cfg sv); s = sv_session n sv
      in if payload_ecc_enabled (sv_cfg sv) = 0 then (True, sv)
         else if cap = 0 \<or> cap > LLPS_BUFFER_SIZE \<or> se_c2s_payload_ecc_len s > cap \<or> se_s2c_payload_ecc_len s > cap \<or>
            se_c2s_payload_ecc_len_inverse s \<noteq> NOT (se_c2s_payload_ecc_len s) \<or>
            se_s2c_payload_ecc_len_inverse s \<noteq> NOT (se_s2c_payload_ecc_len s)
         then (False, sv_count readiness_runtime_ecc_failures_update sv)
         else
           (case llps_payload_ecc_repair (se_c2s_buf s) (unat (se_c2s_payload_ecc_len s)) (unat cap)
                   (se_c2s_payload_ecc s) LLPS_PAYLOAD_ECC_WORD_COUNT (sv_counters sv) of
              (repaired, buf, ecc, sc) \<Rightarrow>
                (let sv = sv_set_counters sc (sv_put_session n (s\<lparr>se_c2s_buf := buf, se_c2s_payload_ecc := ecc\<rparr>) sv);
                     s = sv_session n sv
                 in if \<not> repaired then (False, sv)
                    else
                      (case llps_payload_ecc_repair (se_s2c_buf s) (unat (se_s2c_payload_ecc_len s)) (unat cap)
                              (se_s2c_payload_ecc s) LLPS_PAYLOAD_ECC_WORD_COUNT (sv_counters sv) of
                         (repaired, buf, ecc, sc) \<Rightarrow>
                           (repaired, sv_set_counters sc
                              (sv_put_session n (s\<lparr>se_s2c_buf := buf, se_s2c_payload_ecc := ecc\<rparr>) sv))))))"

definition payload_scrub_turn ::
    "nat \<Rightarrow> (bool \<times> c_int list) \<times> server_state \<Rightarrow> (bool \<times> c_int list) \<times> server_state" where
  "payload_scrub_turn i = (\<lambda>((scrub_ok, fds), sv).
     case llps_session_is_active i sv of
       (True, sv) \<Rightarrow>
         (case llps_payload_ecc_scrub_session i (sv_count payload_ecc_scrub_sessions_checked_update sv) of
            (True, sv) \<Rightarrow> ((scrub_ok, fds), sv)
          | (False, sv) \<Rightarrow>
              (let sv = sv_count payload_ecc_scrub_fail_closed_sessions_update sv;
                   sv = llps_session_mark_close_reason i LLPS_CLOSE_REASON_PAYLOAD_ECC sv
               in ((False, fds @ llps_force_shutdown_session_fds (sv_session i sv)), sv)))
     | (False, sv) \<Rightarrow>
         (case llps_session_is_free i sv of
            (True, sv) \<Rightarrow> ((scrub_ok, fds), sv)
          | (False, sv) \<Rightarrow>
              (let sv = sv_violation sv
               in ((scrub_ok, fds @ llps_force_shutdown_session_fds (sv_session i sv)), sv))))"

definition llps_payload_ecc_scrub_all :: "server_state \<Rightarrow> bool \<times> c_int list \<times> server_state" where
  "llps_payload_ecc_scrub_all sv =
     (if payload_ecc_enabled (sv_cfg sv) = 0 then (True, [], sv)
      else (case session_loop payload_scrub_turn 0 ((True, []), sv) of
              ((scrub_ok, fds), sv) \<Rightarrow>
                (scrub_ok, fds, if scrub_ok then sv_count payload_ecc_scrub_passes_update sv else sv)))"

subsection \<open>Scrubbing the metadata\<close>

definition sv_reconcile_control :: "server_state \<Rightarrow> bool \<times> bool \<times> server_state" where
  "sv_reconcile_control sv =
     (case llps_control_flag_reconcile (rs_control (sv_rs sv)) (sv_counters sv) of
        (ok, requested, cf, sc) \<Rightarrow>
          (ok, requested, sv_set_counters sc (sv\<lparr>sv_rs := (sv_rs sv)\<lparr>rs_control := cf\<rparr>\<rparr>)))"

definition llps_tmr_metadata_scrub_all :: "server_state \<Rightarrow> bool \<times> c_int list \<times> server_state" where
  "llps_tmr_metadata_scrub_all sv =
     (case sv_reconcile_cfg sv of
        (False, sv) \<Rightarrow> (False, stop_server sv)
      | (True, sv) \<Rightarrow>
          (case sv_reconcile_free sv of
             (False, sv) \<Rightarrow> (False, stop_server sv)
           | (True, sv) \<Rightarrow>
               (case sv_reconcile_control sv of
                  (False, _, sv) \<Rightarrow> (False, stop_server sv)
                | (True, True, sv) \<Rightarrow> (False, llps_shutdown_all_sessions sv)
                | (True, False, sv) \<Rightarrow> (True, [], sv))))"

definition tmr_scrub_turn ::
    "nat \<Rightarrow> (bool \<times> c_int list) \<times> server_state \<Rightarrow> (bool \<times> c_int list) \<times> server_state" where
  "tmr_scrub_turn i = (\<lambda>((scrub_ok, fds), sv).
     case llps_session_tmr_vote (of_nat i) (max_clients (sv_cfg sv)) (sv_regions sv, sv_counters sv) of
       (voted, regions, sc) \<Rightarrow>
         (let sv = (sv_set_counters sc sv)\<lparr>sv_regions := regions\<rparr>
          in case voted of
               None \<Rightarrow>
                 (let sv = sv_count tmr_scrub_fail_closed_sessions_update sv;
                      sv = llps_session_mark_close_reason i LLPS_CLOSE_REASON_METADATA_FAULT sv
                  in ((False, fds @ llps_force_shutdown_session_fds (sv_session i sv)), sv))
             | Some _ \<Rightarrow> ((scrub_ok, fds), sv_count tmr_scrub_sessions_checked_update sv)))"

definition llps_session_tmr_scrub_all :: "server_state \<Rightarrow> bool \<times> c_int list \<times> server_state" where
  "llps_session_tmr_scrub_all sv =
     (case llps_tmr_metadata_scrub_all sv of
        (False, fds, sv) \<Rightarrow> (False, fds, sv)
      | (True, _, sv) \<Rightarrow>
          (case session_loop tmr_scrub_turn 0 ((True, []), sv) of
             ((scrub_ok, fds), sv) \<Rightarrow>
               if \<not> scrub_ok then (case stop_server sv of (more_fds, sv) \<Rightarrow> (False, fds @ more_fds, sv))
               else (True, fds, sv_count tmr_scrub_passes_update sv)))"

subsection \<open>The layout of the banks\<close>

text \<open>
  The addresses of the three session regions and of the three banks of each kind, and the sizes of these
  twelve objects.
\<close>

record memory_layout =
  ml_session :: "u64 list"
  ml_cfg :: "u64 list"
  ml_free :: "u64 list"
  ml_control :: "u64 list"
  ml_sizes :: "u64 list"

abbreviation LLPS_SESSION_TMR_ALIGNMENT_BYTES :: u64 where
  "LLPS_SESSION_TMR_ALIGNMENT_BYTES \<equiv> 16384"

abbreviation LLPS_SESSION_TMR_MIN_DISTANCE_BYTES :: u64 where
  "LLPS_SESSION_TMR_MIN_DISTANCE_BYTES \<equiv> 16384"

definition llps_abs_addr_distance :: "u64 \<Rightarrow> u64 \<Rightarrow> u64" where
  "llps_abs_addr_distance lhs rhs = (if lhs \<ge> rhs then lhs - rhs else rhs - lhs)"

definition llps_min_addr_distance :: "u64 \<Rightarrow> u64 \<Rightarrow> u64" where
  "llps_min_addr_distance lhs rhs = (if lhs < rhs then lhs else rhs)"

definition llps_tmr_triplet_min_bank_distance :: "u64 list \<Rightarrow> u64" where
  "llps_tmr_triplet_min_bank_distance banks =
     (let dist01 = llps_abs_addr_distance (banks ! 0) (banks ! 1);
          dist02 = llps_abs_addr_distance (banks ! 0) (banks ! 2);
          dist12 = llps_abs_addr_distance (banks ! 1) (banks ! 2)
      in llps_min_addr_distance dist01 (llps_min_addr_distance dist02 dist12))"

definition llps_tmr_triplet_layout_is_valid :: "u64 list \<Rightarrow> bool" where
  "llps_tmr_triplet_layout_is_valid banks =
     (if banks ! 0 = 0 \<or> banks ! 1 = 0 \<or> banks ! 2 = 0 then False
      else if banks ! 0 mod LLPS_SESSION_TMR_ALIGNMENT_BYTES \<noteq> 0 \<or> banks ! 1 mod LLPS_SESSION_TMR_ALIGNMENT_BYTES \<noteq> 0 \<or>
         banks ! 2 mod LLPS_SESSION_TMR_ALIGNMENT_BYTES \<noteq> 0
      then False
      else llps_tmr_triplet_min_bank_distance banks \<ge> LLPS_SESSION_TMR_MIN_DISTANCE_BYTES)"

definition llps_tmr_metadata_min_bank_distance :: "memory_layout \<Rightarrow> u64" where
  "llps_tmr_metadata_min_bank_distance ml =
     (let min_distance = llps_tmr_triplet_min_bank_distance (ml_session ml);
          min_distance = llps_min_addr_distance min_distance (llps_tmr_triplet_min_bank_distance (ml_cfg ml));
          min_distance = llps_min_addr_distance min_distance (llps_tmr_triplet_min_bank_distance (ml_free ml))
      in llps_min_addr_distance min_distance (llps_tmr_triplet_min_bank_distance (ml_control ml)))"

definition llps_session_tmr_layout_is_valid :: "memory_layout \<Rightarrow> server_state \<Rightarrow> bool" where
  "llps_session_tmr_layout_is_valid ml sv =
     (if \<not> llps_tmr_triplet_layout_is_valid (ml_session ml) then False
      else list_all (\<lambda>i. llps_session_tmr_region_guard_is_valid (of_nat i) (sv_regions sv ! i)) [0..<3])"

definition llps_tmr_metadata_layout_is_valid :: "memory_layout \<Rightarrow> server_state \<Rightarrow> bool" where
  "llps_tmr_metadata_layout_is_valid ml sv =
     (if \<not> llps_session_tmr_layout_is_valid ml sv then False
      else if \<not> llps_tmr_triplet_layout_is_valid (ml_cfg ml) then False
      else if \<not> llps_tmr_triplet_layout_is_valid (ml_free ml) then False
      else llps_tmr_triplet_layout_is_valid (ml_control ml))"

definition llps_tmr_layout_fingerprint_add_region :: "u32 \<Rightarrow> u32 \<Rightarrow> u64 \<Rightarrow> u32" where
  "llps_tmr_layout_fingerprint_add_region crc region_id len =
     llps_crc32_update_size (llps_crc32_update_u32 crc region_id) len"

definition llps_tmr_layout_fingerprint :: "memory_layout \<Rightarrow> u32" where
  "llps_tmr_layout_fingerprint ml =
     (let crc = llps_crc32_update_u32 LLPS_SESSION_CRC_INIT 3;
          crc = llps_crc32_update_u32 crc 16384;
          crc = llps_crc32_update_u32 crc 16384;
          crc = llps_crc32_update_u64 crc (llps_tmr_metadata_min_bank_distance ml);
          crc = foldl (\<lambda>crc i. llps_tmr_layout_fingerprint_add_region crc (of_nat i) (ml_sizes ml ! i)) crc [0..<12]
      in crc XOR LLPS_SESSION_CRC_XOROUT)"

subsection \<open>The checks of the readiness monitor\<close>

definition llps_readiness_runtime_fast_reconciles :: "server_state \<Rightarrow> bool \<times> server_state" where
  "llps_readiness_runtime_fast_reconciles sv =
     (case sv_reconcile_cfg sv of
        (False, sv) \<Rightarrow> (False, sv)
      | (True, sv) \<Rightarrow>
          (case sv_reconcile_control sv of
             (False, _, sv) \<Rightarrow> (False, sv)
           | (True, requested, sv) \<Rightarrow>
               (case sv_reconcile_free sv of (ok, sv) \<Rightarrow> (ok \<and> \<not> requested, sv))))"

definition llps_readiness_runtime_fast_payload_policy_ok :: "llps_yml_config_t \<Rightarrow> bool" where
  "llps_readiness_runtime_fast_payload_policy_ok cfg \<longleftrightarrow>
     require_readiness cfg = 0 \<or> software_ecc_enabled cfg = 0 \<or> payload_ecc_enabled cfg \<noteq> 0"

definition llps_readiness_runtime_fast_tmr_layout_ok :: "memory_layout \<Rightarrow> server_state \<Rightarrow> bool" where
  "llps_readiness_runtime_fast_tmr_layout_ok ml sv \<longleftrightarrow>
     llps_tmr_metadata_layout_is_valid ml sv \<and>
     llps_session_tmr_region_guard_is_valid 0 (sv_regions sv ! 0) \<and>
     llps_session_tmr_region_guard_is_valid 1 (sv_regions sv ! 1) \<and>
     llps_session_tmr_region_guard_is_valid 2 (sv_regions sv ! 2) \<and>
     llps_abs_addr_distance (ml_session ml ! 0) (ml_session ml ! 1) \<ge> LLPS_SESSION_TMR_MIN_DISTANCE_BYTES \<and>
     llps_abs_addr_distance (ml_session ml ! 0) (ml_session ml ! 2) \<ge> LLPS_SESSION_TMR_MIN_DISTANCE_BYTES \<and>
     llps_abs_addr_distance (ml_session ml ! 1) (ml_session ml ! 2) \<ge> LLPS_SESSION_TMR_MIN_DISTANCE_BYTES"

abbreviation LLPS_TMR_SELF_TEST_REQUIRED_COVERAGE :: u32 where
  "LLPS_TMR_SELF_TEST_REQUIRED_COVERAGE \<equiv> 0x7FF"

definition llps_readiness_runtime_fast_latches_ok :: "runtime_latches \<Rightarrow> bool" where
  "llps_readiness_runtime_fast_latches_ok l \<longleftrightarrow>
     llps_guarded_bool_read (g_process_memory_locked l) (g_process_memory_locked_inverse l) \<and>
     llps_guarded_bool_read (g_tmr_memory_locked l) (g_tmr_memory_locked_inverse l) \<and>
     llps_guarded_bool_read (g_tmr_memory_prefaulted l) (g_tmr_memory_prefaulted_inverse l) \<and>
     llps_tmr_memory_prefault_pages_is_valid l \<and> llps_tmr_memory_prefault_pages_read l \<noteq> 0 \<and>
     llps_guarded_bool_read (g_tmr_memory_hardened l) (g_tmr_memory_hardened_inverse l) \<and>
     llps_guarded_bool_read (g_tmr_startup_self_test_passed l) (g_tmr_startup_self_test_passed_inverse l) \<and>
     llps_tmr_startup_self_test_coverage_is_valid l \<and>
     g_tmr_startup_self_test_coverage l = LLPS_TMR_SELF_TEST_REQUIRED_COVERAGE \<and>
     llps_runtime_safety_latches_are_valid l"

definition llps_readiness_runtime_fast_counters_ok :: "safety_counters \<Rightarrow> bool" where
  "llps_readiness_runtime_fast_counters_ok sc \<longleftrightarrow>
     llps_memory_safety_counters_are_valid sc \<and>
     (let c = g_memory_safety_counters sc
      in tmr_majority_failures c = 0 \<and> tmr_region_guard_faults c = 0 \<and> tmr_layout_failures c = 0 \<and>
         process_memory_lock_failures c = 0 \<and> tmr_memory_lock_failures c = 0 \<and> tmr_memory_prefault_failures c = 0 \<and>
         tmr_memory_residency_failures c = 0 \<and> tmr_memory_physical_frame_faults c = 0 \<and>
         tmr_memory_domain_bind_failures c = 0 \<and> tmr_memory_harden_failures c = 0 \<and> contract_violations c = 0 \<and>
         free_list_majority_failures c = 0 \<and> runtime_cfg_majority_failures c = 0 \<and> control_flag_majority_failures c = 0 \<and>
         tmr_scrub_passes c \<noteq> 0 \<and> tmr_scrub_sessions_checked c \<noteq> 0 \<and> tmr_scrub_fail_closed_sessions c = 0)"

definition llps_readiness_runtime_fast_readiness_counters_ok :: "safety_counters \<Rightarrow> bool" where
  "llps_readiness_runtime_fast_readiness_counters_ok sc \<longleftrightarrow>
     (let c = g_memory_safety_counters sc
      in readiness_runtime_synthetic_ecc_topology_patrol_failures c = 0 \<and>
         readiness_runtime_synthetic_fault_patrol_failures c = 0 \<and>
         readiness_runtime_synthetic_numa_patrol_failures c = 0 \<and> readiness_runtime_monitor_failures c = 0 \<and>
         readiness_runtime_cfg_failures c = 0 \<and> readiness_runtime_software_tmr_failures c = 0 \<and>
         readiness_runtime_ecc_failures c = 0 \<and> readiness_runtime_physical_domain_failures c = 0 \<and>
         readiness_runtime_tmr_memory_domain_failures c = 0 \<and> readiness_runtime_hardware_tmr_failures c = 0 \<and>
         readiness_runtime_identity_failures c = 0 \<and> readiness_runtime_attestation_failures c = 0 \<and>
         readiness_runtime_observation_digest_failures c = 0)"

definition llps_readiness_runtime_fast_software_ready ::
    "memory_layout \<Rightarrow> runtime_latches \<Rightarrow> server_state \<Rightarrow> bool \<times> server_state" where
  "llps_readiness_runtime_fast_software_ready ml latches sv =
     (case llps_readiness_runtime_fast_reconciles sv of
        (False, sv) \<Rightarrow> (False, sv)
      | (True, sv) \<Rightarrow>
          if \<not> llps_readiness_runtime_fast_payload_policy_ok (sv_cfg sv) then (False, sv)
          else (llps_readiness_runtime_fast_tmr_layout_ok ml sv \<and> llps_readiness_runtime_fast_latches_ok latches \<and>
                llps_readiness_runtime_fast_counters_ok (sv_counters sv) \<and>
                llps_readiness_runtime_fast_readiness_counters_ok (sv_counters sv), sv))"

subsection \<open>Failure masks\<close>

abbreviation LLPS_READINESS_RUNTIME_FAILURE_CFG :: u32 where "LLPS_READINESS_RUNTIME_FAILURE_CFG \<equiv> 0x1"
abbreviation LLPS_READINESS_RUNTIME_FAILURE_SOFTWARE_TMR :: u32 where "LLPS_READINESS_RUNTIME_FAILURE_SOFTWARE_TMR \<equiv> 0x2"
abbreviation LLPS_READINESS_RUNTIME_FAILURE_ECC :: u32 where "LLPS_READINESS_RUNTIME_FAILURE_ECC \<equiv> 0x4"
abbreviation LLPS_READINESS_RUNTIME_FAILURE_PHYSICAL_DOMAIN :: u32 where
  "LLPS_READINESS_RUNTIME_FAILURE_PHYSICAL_DOMAIN \<equiv> 0x8"
abbreviation LLPS_READINESS_RUNTIME_FAILURE_TMR_MEMORY_DOMAIN :: u32 where
  "LLPS_READINESS_RUNTIME_FAILURE_TMR_MEMORY_DOMAIN \<equiv> 0x10"
abbreviation LLPS_READINESS_RUNTIME_FAILURE_HW_TMR :: u32 where "LLPS_READINESS_RUNTIME_FAILURE_HW_TMR \<equiv> 0x20"
abbreviation LLPS_READINESS_RUNTIME_FAILURE_IDENTITY :: u32 where "LLPS_READINESS_RUNTIME_FAILURE_IDENTITY \<equiv> 0x40"
abbreviation LLPS_READINESS_RUNTIME_FAILURE_ATTESTATION :: u32 where "LLPS_READINESS_RUNTIME_FAILURE_ATTESTATION \<equiv> 0x80"
abbreviation LLPS_READINESS_RUNTIME_FAILURE_OBSERVATION_DIGEST :: u32 where
  "LLPS_READINESS_RUNTIME_FAILURE_OBSERVATION_DIGEST \<equiv> 0x100"
abbreviation LLPS_READINESS_RUNTIME_DETAIL_TMR_RESIDENCY :: u32 where
  "LLPS_READINESS_RUNTIME_DETAIL_TMR_RESIDENCY \<equiv> 0x10000"
abbreviation LLPS_READINESS_RUNTIME_DETAIL_TMR_PHYSICAL_FRAME :: u32 where
  "LLPS_READINESS_RUNTIME_DETAIL_TMR_PHYSICAL_FRAME \<equiv> 0x20000"
abbreviation LLPS_READINESS_RUNTIME_DETAIL_TMR_DOMAIN_BIND :: u32 where
  "LLPS_READINESS_RUNTIME_DETAIL_TMR_DOMAIN_BIND \<equiv> 0x40000"

definition count_when ::
    "u32 \<Rightarrow> u32 \<Rightarrow> ((u64 \<Rightarrow> u64) \<Rightarrow> llps_memory_safety_counters_t \<Rightarrow> llps_memory_safety_counters_t) \<Rightarrow>
     safety_counters \<Rightarrow> safety_counters" where
  "count_when failure_mask flag field sc = (if failure_mask AND flag \<noteq> 0 then LLPS_MEMORY_SAFETY_COUNTER_INC field sc else sc)"

definition llps_readiness_runtime_monitor_count_failure_mask :: "u32 \<Rightarrow> safety_counters \<Rightarrow> safety_counters" where
  "llps_readiness_runtime_monitor_count_failure_mask failure_mask sc =
     (let sc = count_when failure_mask LLPS_READINESS_RUNTIME_FAILURE_CFG readiness_runtime_cfg_failures_update sc;
          sc = count_when failure_mask LLPS_READINESS_RUNTIME_FAILURE_SOFTWARE_TMR readiness_runtime_software_tmr_failures_update sc;
          sc = count_when failure_mask LLPS_READINESS_RUNTIME_FAILURE_ECC readiness_runtime_ecc_failures_update sc;
          sc = count_when failure_mask LLPS_READINESS_RUNTIME_FAILURE_PHYSICAL_DOMAIN
                 readiness_runtime_physical_domain_failures_update sc;
          sc = count_when failure_mask LLPS_READINESS_RUNTIME_FAILURE_TMR_MEMORY_DOMAIN
                 readiness_runtime_tmr_memory_domain_failures_update sc;
          sc = count_when failure_mask LLPS_READINESS_RUNTIME_FAILURE_HW_TMR readiness_runtime_hardware_tmr_failures_update sc;
          sc = count_when failure_mask LLPS_READINESS_RUNTIME_FAILURE_IDENTITY readiness_runtime_identity_failures_update sc;
          sc = count_when failure_mask LLPS_READINESS_RUNTIME_FAILURE_ATTESTATION readiness_runtime_attestation_failures_update sc
      in count_when failure_mask LLPS_READINESS_RUNTIME_FAILURE_OBSERVATION_DIGEST
           readiness_runtime_observation_digest_failures_update sc)"

definition llps_readiness_runtime_monitor_count_failure_details :: "u32 \<Rightarrow> safety_counters \<Rightarrow> safety_counters" where
  "llps_readiness_runtime_monitor_count_failure_details failure_mask sc =
     (let sc = count_when failure_mask LLPS_READINESS_RUNTIME_DETAIL_TMR_RESIDENCY tmr_memory_residency_failures_update sc;
          sc = count_when failure_mask LLPS_READINESS_RUNTIME_DETAIL_TMR_PHYSICAL_FRAME tmr_memory_physical_frame_faults_update sc
      in count_when failure_mask LLPS_READINESS_RUNTIME_DETAIL_TMR_DOMAIN_BIND tmr_memory_domain_bind_failures_update sc)"

text \<open>\<open>None\<close> is the \<^verbatim>\<open>NULL\<close> configuration.\<close>

definition llps_readiness_runtime_collection_failure_mask_from_cfg :: "llps_yml_config_t option \<Rightarrow> u32" where
  "llps_readiness_runtime_collection_failure_mask_from_cfg c =
     (case c of
        None \<Rightarrow> LLPS_READINESS_RUNTIME_FAILURE_CFG
      | Some cfg \<Rightarrow>
          (let flags = platform_safety_flags cfg;
               failure_mask = LLPS_READINESS_RUNTIME_FAILURE_ATTESTATION;
               failure_mask = (if flags AND (LLPS_PLATFORM_EVIDENCE_ECC_MEMORY OR LLPS_PLATFORM_EVIDENCE_ECC_CLEAN) \<noteq> 0
                       then failure_mask OR LLPS_READINESS_RUNTIME_FAILURE_ECC else failure_mask);
               failure_mask = (if flags AND LLPS_PLATFORM_EVIDENCE_PHYS_SEP \<noteq> 0
                       then failure_mask OR (LLPS_READINESS_RUNTIME_FAILURE_PHYSICAL_DOMAIN OR
                                     LLPS_READINESS_RUNTIME_FAILURE_TMR_MEMORY_DOMAIN) else failure_mask)
           in if flags AND LLPS_PLATFORM_EVIDENCE_HW_TMR \<noteq> 0 then failure_mask OR LLPS_READINESS_RUNTIME_FAILURE_HW_TMR else failure_mask))"

subsection \<open>The tick of the monitor\<close>

text \<open>
  What a tick of the monitor meets: the layout of memory, the latches, the audit log for an event, and
  the answer of the worker that probes the platform: a status, the mask of what failed, and whether
  there was a result to consume.
\<close>

record monitor_env =
  me_layout :: memory_layout
  me_latches :: runtime_latches
  me_audit :: "string \<Rightarrow> audit_env"
  me_now :: u64
  me_worker :: "llps_status_t \<times> u32 \<times> bool"

text \<open>An event for the audit log; the event holds 32 bytes of text.\<close>

definition llps_record_readiness_evidence_event :: "audit_env \<Rightarrow> string \<Rightarrow> server_state \<Rightarrow> bool \<times> server_state" where
  "llps_record_readiness_evidence_event audit event_name sv =
     (if \<not> au_enabled audit then (True, sv)
      else if \<not> fst (llps_state_copy_text (replicate 32 0) 32 (text_bytes event_name)) then (False, sv_request_shutdown sv)
      else
        (let sv = sv\<lparr>sv_rs := snd (llps_llam_now_ns_checked (au_now audit) (sv_rs sv))\<rparr>
         in if \<not> au_recorded audit then (False, sv_request_shutdown sv) else (True, sv)))"

definition llps_readiness_monitor_shutdown_after_failure :: "server_state \<Rightarrow> c_int list \<times> server_state" where
  "llps_readiness_monitor_shutdown_after_failure sv = llps_shutdown_all_sessions (sv_request_shutdown sv)"

definition llps_readiness_monitor_record_failure ::
    "monitor_env \<Rightarrow> string \<Rightarrow> server_state \<Rightarrow> c_int list \<times> server_state" where
  "llps_readiness_monitor_record_failure me event_name sv =
     llps_readiness_monitor_shutdown_after_failure
       (snd (llps_record_readiness_evidence_event (me_audit me event_name) event_name sv))"

text \<open>\<open>Inl\<close> is the result \<^verbatim>\<open>false\<close>, with the descriptors that were shut down.\<close>

definition llps_readiness_monitor_load_snapshot :: "server_state \<Rightarrow> (c_int list + llps_yml_config_t) \<times> server_state" where
  "llps_readiness_monitor_load_snapshot sv =
     (case sv_reconcile_cfg sv of
        (False, sv) \<Rightarrow>
          (let sv = sv_count readiness_runtime_monitor_failures_update sv;
               sv = sv_count readiness_runtime_cfg_failures_update sv
           in case llps_readiness_monitor_shutdown_after_failure sv of (fds, sv) \<Rightarrow> (Inl fds, sv))
      | (True, sv) \<Rightarrow> (Inr (sv_cfg sv), sv))"

text \<open>A gate that failed: its counters, the event, the shutdown.\<close>

definition gate_failure ::
    "monitor_env \<Rightarrow> ((u64 \<Rightarrow> u64) \<Rightarrow> llps_memory_safety_counters_t \<Rightarrow> llps_memory_safety_counters_t) list \<Rightarrow> string \<Rightarrow>
     server_state \<Rightarrow> bool \<times> c_int list \<times> server_state" where
  "gate_failure me counted event_name sv =
     (False, llps_readiness_monitor_record_failure me event_name (fold sv_count counted sv))"

definition llps_readiness_monitor_fast_software_gate :: "monitor_env \<Rightarrow> server_state \<Rightarrow> bool \<times> c_int list \<times> server_state" where
  "llps_readiness_monitor_fast_software_gate me sv =
     (case llps_readiness_runtime_fast_software_ready (me_layout me) (me_latches me) sv of
        (True, sv) \<Rightarrow> (True, [], sv)
      | (False, sv) \<Rightarrow>
          gate_failure me [readiness_runtime_monitor_failures_update, readiness_runtime_software_tmr_failures_update]
            ''readiness_software_tmr_fail'' sv)"

definition run_patrol :: "(safety_counters \<Rightarrow> bool \<times> safety_counters) \<Rightarrow> server_state \<Rightarrow> bool \<times> server_state" where
  "run_patrol patrol sv = (case patrol (sv_counters sv) of (ok, sc) \<Rightarrow> (ok, sv_set_counters sc sv))"

definition llps_readiness_monitor_ecc_topology_gate ::
    "monitor_env \<Rightarrow> llps_yml_config_t \<Rightarrow> server_state \<Rightarrow> bool \<times> c_int list \<times> server_state" where
  "llps_readiness_monitor_ecc_topology_gate me cfg sv =
     (case run_patrol (llps_runtime_synthetic_ecc_topology_patrol cfg) sv of
        (True, sv) \<Rightarrow> (True, [], sv)
      | (False, sv) \<Rightarrow>
          gate_failure me [readiness_runtime_monitor_failures_update, readiness_runtime_ecc_failures_update]
            ''readiness_ecc_topology_fail'' sv)"

definition llps_readiness_monitor_fault_patrol_gate ::
    "monitor_env \<Rightarrow> llps_yml_config_t \<Rightarrow> server_state \<Rightarrow> bool \<times> c_int list \<times> server_state" where
  "llps_readiness_monitor_fault_patrol_gate me cfg sv =
     (case run_patrol (llps_runtime_synthetic_fault_patrol cfg) sv of
        (True, sv) \<Rightarrow> (True, [], sv)
      | (False, sv) \<Rightarrow>
          gate_failure me [readiness_runtime_monitor_failures_update, readiness_runtime_ecc_failures_update]
            ''readiness_fault_patrol_fail'' sv)"

definition llps_readiness_monitor_numa_patrol_gate ::
    "monitor_env \<Rightarrow> llps_yml_config_t \<Rightarrow> server_state \<Rightarrow> bool \<times> c_int list \<times> server_state" where
  "llps_readiness_monitor_numa_patrol_gate me cfg sv =
     (case run_patrol (llps_runtime_synthetic_numa_patrol cfg) sv of
        (True, sv) \<Rightarrow> (True, [], sv)
      | (False, sv) \<Rightarrow>
          gate_failure me [readiness_runtime_monitor_failures_update, readiness_runtime_physical_domain_failures_update,
             readiness_runtime_tmr_memory_domain_failures_update, tmr_memory_domain_bind_failures_update]
            ''readiness_numa_patrol_fail'' sv)"

text \<open>The three gates in order, up to the first that fails.\<close>

definition llps_readiness_monitor_synthetic_gates ::
    "monitor_env \<Rightarrow> llps_yml_config_t \<Rightarrow> server_state \<Rightarrow> bool \<times> c_int list \<times> server_state" where
  "llps_readiness_monitor_synthetic_gates me cfg sv =
     (case llps_readiness_monitor_ecc_topology_gate me cfg sv of
        (False, fds, sv) \<Rightarrow> (False, fds, sv)
      | (True, _, sv) \<Rightarrow>
          (case llps_readiness_monitor_fault_patrol_gate me cfg sv of
             (False, fds, sv) \<Rightarrow> (False, fds, sv)
           | (True, _, sv) \<Rightarrow> llps_readiness_monitor_numa_patrol_gate me cfg sv))"

definition llps_readiness_monitor_record_pass :: "monitor_env \<Rightarrow> llps_yml_config_t \<Rightarrow> server_state \<Rightarrow> server_state" where
  "llps_readiness_monitor_record_pass me cfg sv =
     (let sv = sv_count readiness_runtime_monitor_passes_update sv;
          sv = (if llps_runtime_cfg_uses_software_evidence_patrol cfg
                then sv_count readiness_runtime_software_evidence_patrol_passes_update sv else sv)
      in snd (llps_record_readiness_evidence_event (me_audit me ''readiness_monitor_pass'') ''readiness_monitor_pass'' sv))"

definition llps_readiness_monitor_handle_platform_result ::
    "monitor_env \<Rightarrow> llps_yml_config_t \<Rightarrow> llps_status_t \<Rightarrow> u32 \<Rightarrow> bool \<Rightarrow> server_state \<Rightarrow> c_int list \<times> server_state" where
  "llps_readiness_monitor_handle_platform_result me cfg status failure_mask consumed sv =
     (if status \<noteq> LLPS_OK
      then
        (let sv = sv_count readiness_runtime_monitor_failures_update sv;
             failure_mask = (if failure_mask = 0 then LLPS_READINESS_RUNTIME_FAILURE_SOFTWARE_TMR else failure_mask);
             sv = sv_set_counters (llps_readiness_runtime_monitor_count_failure_details failure_mask (sv_counters sv)) sv;
             sv = sv_set_counters (llps_readiness_runtime_monitor_count_failure_mask failure_mask (sv_counters sv)) sv
         in llps_readiness_monitor_record_failure me ''readiness_platform_fail'' sv)
      else if consumed then ([], llps_readiness_monitor_record_pass me cfg sv)
      else ([], sv))"

definition llps_readiness_runtime_monitor_tick :: "monitor_env \<Rightarrow> server_state \<Rightarrow> c_int list \<times> server_state" where
  "llps_readiness_runtime_monitor_tick me sv =
     (case llps_readiness_monitor_load_snapshot sv of
        (Inl fds, sv) \<Rightarrow> (fds, sv)
      | (Inr cfg, sv) \<Rightarrow>
          if require_readiness cfg = 0 then ([], sv)
          else
            (case llps_readiness_monitor_fast_software_gate me sv of
               (False, fds, sv) \<Rightarrow> (fds, sv)
             | (True, _, sv) \<Rightarrow>
                 (case llps_readiness_monitor_synthetic_gates me cfg sv of
                    (False, fds, sv) \<Rightarrow> (fds, sv)
                  | (True, _, sv) \<Rightarrow>
                      (let sv = sv\<lparr>sv_rs := snd (llps_llam_now_ns_checked (me_now me) (sv_rs sv))\<rparr>
                       in case me_worker me of
                            (status, failure_mask, consumed) \<Rightarrow>
                              llps_readiness_monitor_handle_platform_result me cfg status failure_mask consumed sv))))"

subsection \<open>The watchdog\<close>

definition llps_session_idle_timeout_ns :: "server_state \<Rightarrow> u64" where
  "llps_session_idle_timeout_ns sv =
     (let timeout_ms = session_idle_timeout_ms (sv_cfg sv);
          timeout_ms = (if timeout_ms = 0 then 30000 else timeout_ms)
      in ucast timeout_ms * LLPS_NSEC_PER_MSEC)"

text \<open>\<open>contract_ok\<close> is the verdict on the statistics of the runtime.\<close>

definition llps_watchdog_runtime_contract_ok :: "bool \<Rightarrow> server_state \<Rightarrow> bool \<times> c_int list \<times> server_state" where
  "llps_watchdog_runtime_contract_ok contract_ok sv =
     (if contract_ok then (True, [], sv)
      else (False, stop_server (sv_count readiness_runtime_monitor_failures_update (sv_violation sv))))"

definition llps_watchdog_run_safety_scrubs :: "server_state \<Rightarrow> c_int list \<times> server_state" where
  "llps_watchdog_run_safety_scrubs sv =
     (case llps_session_tmr_scrub_all sv of
        (scrub_ok, fds, sv) \<Rightarrow>
          (let (more_fds, sv) =
                 (if scrub_ok then ([], sv)
                  else stop_server (sv_count readiness_runtime_software_tmr_failures_update
                         (sv_count readiness_runtime_monitor_failures_update sv)))
           in case llps_payload_ecc_scrub_all sv of
                (_, payload_fds, sv) \<Rightarrow> (fds @ more_fds @ payload_fds, sv)))"

abbreviation LLPS_CLOSE_REASON_IDLE_TIMEOUT :: u32 where
  "LLPS_CLOSE_REASON_IDLE_TIMEOUT \<equiv> 1"

definition llps_watchdog_close_idle_session :: "nat \<Rightarrow> server_state \<Rightarrow> c_int list \<times> server_state" where
  "llps_watchdog_close_idle_session n sv =
     (let sv = llps_session_mark_close_reason n LLPS_CLOSE_REASON_IDLE_TIMEOUT sv
      in (llps_force_shutdown_session_fds (sv_session n sv), sv))"

definition idle_scan_turn :: "u64 \<Rightarrow> u64 \<Rightarrow> nat \<Rightarrow> c_int list \<times> server_state \<Rightarrow> c_int list \<times> server_state" where
  "idle_scan_turn now idle_timeout_ns i = (\<lambda>(fds, sv).
     case llps_session_is_active i sv of
       (True, sv) \<Rightarrow>
         if now \<ge> se_last_activity_ns (sv_session i sv) \<and> now - se_last_activity_ns (sv_session i sv) > idle_timeout_ns
         then (case llps_watchdog_close_idle_session i sv of (closed, sv) \<Rightarrow> (fds @ closed, sv))
         else (fds, sv)
     | (False, sv) \<Rightarrow>
         (case llps_session_is_free i sv of
            (True, sv) \<Rightarrow> (fds, sv)
          | (False, sv) \<Rightarrow>
              (let sv = sv_violation sv in (fds @ llps_force_shutdown_session_fds (sv_session i sv), sv))))"

definition llps_watchdog_scan_idle_sessions :: "u64 \<Rightarrow> server_state \<Rightarrow> c_int list \<times> server_state" where
  "llps_watchdog_scan_idle_sessions now sv =
     session_loop (idle_scan_turn now (llps_session_idle_timeout_ns sv)) 0 ([], sv)"

text \<open>What one cycle meets; \<open>wd_asleep\<close> is what other tasks do while the watchdog sleeps.\<close>

record watchdog_env =
  wd_now :: u64
  wd_contract :: bool
  wd_monitor :: monitor_env
  wd_sleep :: sleep_env
  wd_asleep :: "server_state \<Rightarrow> server_state"

text \<open>A request to stop ends the loop with all sessions shut down.\<close>

definition stop_when_requested :: "server_state \<Rightarrow> bool \<times> c_int list \<times> server_state" where
  "stop_when_requested sv =
     (case sv_shutdown_is_requested sv of
        (True, sv) \<Rightarrow> (True, llps_shutdown_all_sessions sv)
      | (False, sv) \<Rightarrow> (False, [], sv))"

text \<open>One cycle: whether the loop ends, the descriptors shut down and the server.\<close>

definition watchdog_cycle :: "watchdog_env \<Rightarrow> server_state \<Rightarrow> bool \<times> c_int list \<times> server_state" where
  "watchdog_cycle wd sv =
     (let now = wd_now wd; sv = sv\<lparr>sv_rs := snd (llps_llam_now_ns_checked now (sv_rs sv))\<rparr>
      in case stop_when_requested sv of
           (True, fds, sv) \<Rightarrow> (True, fds, sv)
         | (False, _, sv) \<Rightarrow>
             (case llps_watchdog_runtime_contract_ok (wd_contract wd) sv of
                (False, fds, sv) \<Rightarrow> (True, fds, sv)
              | (True, _, sv) \<Rightarrow>
                  (case llps_watchdog_run_safety_scrubs sv of
                     (fds1, sv) \<Rightarrow>
                       (case llps_readiness_runtime_monitor_tick (wd_monitor wd) sv of
                          (fds2, sv) \<Rightarrow>
                            (case stop_when_requested sv of
                               (True, fds3, sv) \<Rightarrow> (True, fds1 @ fds2 @ fds3, sv)
                             | (False, _, sv) \<Rightarrow>
                                 (case llps_watchdog_scan_idle_sessions now sv of
                                    (fds3, sv) \<Rightarrow>
                                      (case stop_when_requested (wd_asleep wd (llps_watchdog_sleep_ms (wd_sleep wd) 1000 sv)) of
                                         (ended, fds4, sv) \<Rightarrow> (ended, fds1 @ fds2 @ fds3 @ fds4, sv))))))))"

text \<open>The loop over the cycles that are met; its bound of \<open>2 ^ 64 - 1\<close> cycles is never reached.\<close>

fun llps_task_watchdog :: "watchdog_env list \<Rightarrow> c_int list \<times> server_state \<Rightarrow> c_int list \<times> server_state" where
  "llps_task_watchdog [] (fds, sv) = (fds, sv)"
| "llps_task_watchdog (wd # wds) (fds, sv) =
     (case watchdog_cycle wd sv of
        (ended, closed, sv) \<Rightarrow> if ended then (fds @ closed, sv) else llps_task_watchdog wds (fds @ closed, sv))"


section \<open>Shutting down a sound pool\<close>

abbreviation active_slot :: "nat \<Rightarrow> server_state \<Rightarrow> bool" where
  "active_slot n sv \<equiv> se_state (sv_session n sv) = ST_ACTIVE"

definition session_fds :: "(nat \<Rightarrow> bool) \<Rightarrow> nat list \<Rightarrow> server_state \<Rightarrow> c_int list" where
  "session_fds chosen slots sv =
     concat (map (\<lambda>n. if chosen n then llps_force_shutdown_session_fds (sv_session n sv) else []) slots)"

text \<open>The descriptors of all active sessions.\<close>

definition active_fds :: "llps_yml_config_t \<Rightarrow> server_state \<Rightarrow> c_int list" where
  "active_fds cfg sv = session_fds (\<lambda>n. active_slot n sv) [0..<unat (max_clients cfg)] sv"

lemma session_fds_cong:
  "(\<And>n. n \<in> set slots \<Longrightarrow> chosen' n = chosen n \<and> sv_session n sv' = sv_session n sv) \<Longrightarrow>
     session_fds chosen' slots sv' = session_fds chosen slots sv"
  unfolding session_fds_def by (rule arg_cong [where f = concat], rule map_cong) auto

lemma session_fds_append [simp]:
  "session_fds chosen (slots @ [n]) sv =
     session_fds chosen slots sv @ (if chosen n then llps_force_shutdown_session_fds (sv_session n sv) else [])"
  by (simp add: session_fds_def)

lemma active_fds_same: "pool_same sv sv' \<Longrightarrow> active_fds cfg sv' = active_fds cfg sv"
  unfolding active_fds_def by (rule session_fds_cong) (simp add: pool_same_def)

lemma pool_same_refl [simp]: "pool_same sv sv"
  by (simp add: pool_same_def)

lemma active_not_free: "se_state s = ST_ACTIVE \<Longrightarrow> se_state s \<noteq> ST_FREE"
  by auto

text \<open>What a turn over a slot finds out.\<close>

lemma pool_slot:
  assumes inv: "pool_inv cfg k l sv" and n: "n < unat (max_clients cfg)"
  shows "(\<exists>sv'. active_slot n sv \<and> llps_session_is_active n sv = (True, sv') \<and> pool_same sv sv' \<and> pool_inv cfg 3 l sv') \<or>
    (\<exists>sv1 sv'. \<not> active_slot n sv \<and> llps_session_is_active n sv = (False, sv1) \<and> llps_session_is_free n sv1 = (True, sv') \<and>
       pool_same sv sv' \<and> pool_inv cfg 3 l sv')"
proof -
  note sealed = pool_sealed [OF inv n, simplified]
  obtain sv1 where a: "llps_session_is_active n sv = (active_slot n sv, sv1)" "pool_same sv sv1" "pool_inv cfg 3 l sv1"
    using pool_is_active [OF inv n sealed] by blast
  obtain sv2 where f: "llps_session_is_free n sv1 = (se_state (sv_session n sv1) = ST_FREE, sv2)" "pool_same sv1 sv2" "pool_inv cfg 3 l sv2"
    using pool_is_free [OF a(3) n pool_sealed [OF a(3) n, simplified]] by blast
  show ?thesis
  proof (cases "active_slot n sv")
    case True
    then show ?thesis using a by auto
  next
    case False
    then have "se_state (sv_session n sv1) = ST_FREE"
      using pool_state [OF inv n sealed] a(2) by (simp add: pool_same_def)
    then show ?thesis using False a f pool_same_trans by auto
  qed
qed

lemma shutdown_turn_pool:
  assumes "pool_inv cfg k l sv" "n < unat (max_clients cfg)"
  shows "\<exists>sv'. shutdown_turn n (fds, sv) =
      (fds @ (if active_slot n sv then llps_force_shutdown_session_fds (sv_session n sv) else []), sv') \<and>
    pool_same sv sv' \<and> pool_inv cfg 3 l sv'"
  using pool_slot [OF assms] by (auto simp: shutdown_turn_def pool_same_def)

lemma shutdown_fold_pool:
  assumes "pool_inv cfg 3 l sv" "m \<le> unat (max_clients cfg)"
  shows "\<exists>sv'. fold shutdown_turn [0..<m] ([], sv) = (session_fds (\<lambda>n. active_slot n sv) [0..<m] sv, sv') \<and>
    pool_same sv sv' \<and> pool_inv cfg 3 l sv'"
  using assms(2)
proof (induction m)
  case 0
  then show ?case using assms(1) by (simp add: session_fds_def)
next
  case (Suc m)
  then obtain sv1 where one: "fold shutdown_turn [0..<m] ([], sv) = (session_fds (\<lambda>n. active_slot n sv) [0..<m] sv, sv1)"
    "pool_same sv sv1" "pool_inv cfg 3 l sv1" by auto
  obtain sv2 where two: "shutdown_turn m (session_fds (\<lambda>n. active_slot n sv) [0..<m] sv, sv1) =
      (session_fds (\<lambda>n. active_slot n sv) [0..<m] sv @
        (if active_slot m sv1 then llps_force_shutdown_session_fds (sv_session m sv1) else []), sv2)"
    "pool_same sv1 sv2" "pool_inv cfg 3 l sv2"
    using shutdown_turn_pool [OF one(3), of m] Suc.prems by (metis Suc_le_eq)
  show ?case using one two pool_same_trans [OF one(2) two(2)] by (simp add: pool_same_def)
qed

lemma shutdown_all_pool:
  assumes "pool_inv cfg k l sv"
  shows "\<exists>sv'. llps_shutdown_all_sessions sv = (active_fds cfg sv, sv') \<and> pool_same sv sv' \<and> pool_inv cfg 3 l sv'"
proof -
  obtain sv1 where c: "sv_reconcile_cfg sv = (True, sv1)" "pool_same sv sv1" "pool_inv cfg 3 l sv1"
    using pool_reconcile_cfg [OF assms] by blast
  have "sv_cfg sv1 = cfg" using c(3) by (rule pool_cfg)
  then obtain sv' where "llps_shutdown_all_sessions sv = (active_fds cfg sv1, sv')" "pool_same sv1 sv'" "pool_inv cfg 3 l sv'"
    using shutdown_fold_pool [OF c(3), of "unat (max_clients cfg)"] c(1)
    by (auto simp: llps_shutdown_all_sessions_def active_fds_def)
  then show ?thesis using active_fds_same [OF c(2)] pool_same_trans [OF c(2)] by auto
qed

text \<open>What changes only the globals.\<close>

lemma only_rs_count [simp]: "only_rs sv (sv_count field sv)"
  unfolding sv_count_def sv_set_counters_def by (rule only_rsI) (simp add: same_banks_def)

lemma only_rs_set_counters [simp]: "only_rs sv (sv_set_counters sc sv)"
  unfolding sv_set_counters_def by (rule only_rsI) (simp add: same_banks_def)

lemma only_rs_counts [simp]: "only_rs sv (fold sv_count fs sv)"
proof (induction fs arbitrary: sv)
  case (Cons f fs)
  show ?case using only_rs_trans [OF only_rs_count Cons.IH] by simp
qed simp

lemma only_rs_now [simp]: "only_rs sv (sv\<lparr>sv_rs := snd (llps_llam_now_ns_checked now (sv_rs sv))\<rparr>)"
  by (rule only_rsI) (simp add: now_checked_banks)

lemma only_rs_event [simp]: "only_rs sv (snd (llps_record_readiness_evidence_event audit name sv))"
  by (auto simp: llps_record_readiness_evidence_event_def Let_def intro: only_rs_trans [OF only_rs_now only_rs_request])

lemma only_rs_active_fds: "only_rs sv sv' \<Longrightarrow> active_fds cfg sv' = active_fds cfg sv"
  unfolding active_fds_def by (rule session_fds_cong) (simp add: only_rs_sessions)

text \<open>The shutdown flag is set in all banks, and stays set.\<close>

definition stopping :: "server_state \<Rightarrow> bool" where
  "stopping sv \<longleftrightarrow> flag_held (\<lambda>_. False) True (rs_control (sv_rs sv))"

definition three_flags :: "server_state \<Rightarrow> bool" where
  "three_flags sv \<longleftrightarrow> length (g_control_flag_banks (rs_control (sv_rs sv))) = 3"

lemma request_stops: "three_flags sv \<Longrightarrow> stopping (sv_request_shutdown sv)"
  by (simp add: stopping_def three_flags_def sv_request_shutdown_def llps_control_request_shutdown_def flag_held_write_all)

lemma stopping_same: "pool_same sv sv' \<Longrightarrow> stopping sv' = stopping sv"
  by (simp add: stopping_def pool_same_def)

lemma stop_server_pool:
  assumes "pool_inv cfg k l sv" "three_flags sv"
  shows "\<exists>sv'. stop_server sv = (active_fds cfg sv, sv') \<and> stopping sv' \<and> pool_inv cfg 3 l sv'"
proof -
  have inv: "pool_inv cfg k l (sv_request_shutdown sv)" using assms(1) by (rule only_rs_pool) simp
  obtain sv' where "llps_shutdown_all_sessions (sv_request_shutdown sv) = (active_fds cfg (sv_request_shutdown sv), sv')"
    "pool_same (sv_request_shutdown sv) sv'" "pool_inv cfg 3 l sv'" using shutdown_all_pool [OF inv] by blast
  then show ?thesis
    using request_stops [OF assms(2)] stopping_same only_rs_active_fds [OF only_rs_request [of sv]] by (auto simp: stop_server_def)
qed

section \<open>A violation under the readiness requirement\<close>

text \<open>The reconciliations count repairs and lost votes, never a violation.\<close>

context tmr_bank
begin

lemma reconcile_keeps:
  assumes "length banks = 3" "reconcile banks c = (r, banks', c')"
    and repair: "\<And>c. v (count_repair c) = v c" and failure: "\<And>c. v (count_failure c) = v c"
  shows "v c' = v c \<and> length banks' = 3"
proof -
  have repairs: "v ((count_repair ^^ m) c) = v c" for m by (induction m) (simp_all add: repair)
  show ?thesis
    using assms(1,2) repairs failure by (auto simp: reconcile_eq repaired_def split: option.splits)
qed

end

definition violations :: "server_state \<Rightarrow> u64" where
  "violations sv = contract_violations (g_memory_safety_counters (sv_counters sv))"

lemma violations_counted [simp]:
  "violations (sv_violation sv) = violations sv + 1"
  "violations (sv_set_counters sc sv) = contract_violations (g_memory_safety_counters sc)"
  by (simp_all add: violations_def sv_violation_def llps_contract_violation_def sv_set_counters_def sv_counters_def)

lemma cfg_keeps_violations:
  assumes "length (env_cfg_banks (rs_env (sv_rs sv))) = 3" "sv_reconcile_cfg sv = (ok, sv')"
  shows "violations sv' = violations sv"
proof -
  obtain r banks' sc' where r: "rcfg.reconcile (env_cfg_banks (rs_env (sv_rs sv))) (sv_counters sv) = (r, banks', sc')"
    by (metis prod_cases3)
  have "contract_violations (g_memory_safety_counters sc') = violations sv"
    using rcfg.reconcile_keeps [OF assms(1) r, of "\<lambda>sc. contract_violations (g_memory_safety_counters sc)"]
    by (simp add: violations_def)
  then show ?thesis
    using assms(2) r by (auto simp: sv_reconcile_cfg_def reconcile_cfg_def cfg_reconcile_eq sv_counters_def violations_def
        split: option.splits)
qed

lemma control_keeps_violations:
  assumes "three_flags sv" "sv_reconcile_control sv = (ok, requested, sv')"
  shows "violations sv' = violations sv" "three_flags sv'"
proof -
  obtain r banks' sc' where r: "cflag.reconcile (g_control_flag_banks (rs_control (sv_rs sv))) (sv_counters sv) = (r, banks', sc')"
    by (metis prod_cases3)
  have "contract_violations (g_memory_safety_counters sc') = violations sv \<and> length banks' = 3"
    using cflag.reconcile_keeps [OF assms(1) [unfolded three_flags_def] r, of "\<lambda>sc. contract_violations (g_memory_safety_counters sc)"]
    by (simp add: violations_def)
  then show "violations sv' = violations sv" "three_flags sv'"
    using assms r by (auto simp: sv_reconcile_control_def control_reconcile_eq three_flags_def sv_set_counters_def
        violations_def sv_counters_def split: option.splits)
qed

lemma free_keeps_violations:
  assumes "length (env_cfg_banks (rs_env (sv_rs sv))) = 3" "length (env_free_banks (rs_env (sv_rs sv))) = 3"
    and "sv_reconcile_free sv = (ok, sv')"
  shows "violations sv' = violations sv"
proof -
  let ?env = "rs_env (sv_rs sv)" and ?v = "\<lambda>sc. contract_violations (g_memory_safety_counters sc)"
  obtain r banks' sc' where r: "rcfg.reconcile (env_cfg_banks ?env) (env_counters ?env) = (r, banks', sc')" by (metis prod_cases3)
  have 1: "?v sc' = ?v (env_counters ?env)" using rcfg.reconcile_keeps [OF assms(1) r, of ?v] by simp
  have 2: "?v sc'' = ?v sc'" if "flist.reconcile n (env_free_banks ?env) sc' = (r, banks'', sc'')" for n r banks'' sc''
    using flist.reconcile_keeps [OF assms(2) that, of ?v] by simp
  show ?thesis
    using assms(3) r 1 2 by (auto simp: sv_reconcile_free_def llps_free_list_reconcile_def free_vote_eq cfg_reconcile_eq Let_def
        violations_def sv_counters_def split: option.splits prod.splits)
qed

lemma pool_banks: "pool_but X cfg k l sv \<Longrightarrow> length (env_cfg_banks (rs_env (sv_rs sv))) = 3"
    "pool_but X cfg k l sv \<Longrightarrow> length (env_free_banks (rs_env (sv_rs sv))) = 3"
  by (simp_all add: pool_but_def cfg_held_def free_held_def)

lemma only_rs_control [simp]: "only_rs sv (snd (snd (sv_reconcile_control sv)))"
  unfolding sv_reconcile_control_def sv_set_counters_def
  by (auto split: prod.splits simp: same_banks_def intro!: only_rsI)

lemma three_flags_same: "pool_same sv sv' \<Longrightarrow> three_flags sv' = three_flags sv"
  by (simp add: three_flags_def pool_same_def)

lemma three_flags_frame [simp]:
  "three_flags (sv_set_counters sc sv) = three_flags sv" "three_flags (sv_count field sv) = three_flags sv"
  "three_flags (sv_violation sv) = three_flags sv"
  by (simp_all add: three_flags_def sv_count_def sv_set_counters_def sv_violation_def llps_contract_violation_def)

lemma three_flags_counts [simp]: "three_flags (fold sv_count fs sv) = three_flags sv"
  by (induction fs arbitrary: sv) simp_all

lemma request_length [simp]: "length (g_control_flag_banks (llps_control_request_shutdown cf)) = length (g_control_flag_banks cf)"
  by (simp add: llps_control_request_shutdown_def llps_control_flag_write_all_def upt_bank_count)

lemma three_flags_request [simp]: "three_flags (sv_request_shutdown sv) = three_flags sv"
  by (simp add: three_flags_def sv_request_shutdown_def)

lemma three_flags_now [simp]: "three_flags (sv\<lparr>sv_rs := snd (llps_llam_now_ns_checked now (sv_rs sv))\<rparr>) = three_flags sv"
  by (simp add: three_flags_def now_checked_eq expect_shutdown_def Let_def llps_contract_violation_def)

lemma three_flags_event [simp]: "three_flags (snd (llps_record_readiness_evidence_event audit name sv)) = three_flags sv"
  by (simp add: llps_record_readiness_evidence_event_def Let_def)

lemma gate_failure_stops:
  assumes "pool_inv cfg k l sv" "three_flags sv"
  shows "\<exists>sv'. gate_failure me counted name sv = (False, active_fds cfg sv, sv') \<and> stopping sv' \<and> pool_inv cfg 3 l sv'"
proof -
  let ?sv = "snd (llps_record_readiness_evidence_event (me_audit me name) name (fold sv_count counted sv))"
  have only: "only_rs sv ?sv" by (rule only_rs_trans [OF only_rs_counts only_rs_event])
  obtain sv' where "stop_server ?sv = (active_fds cfg ?sv, sv')" "stopping sv'" "pool_inv cfg 3 l sv'"
    using stop_server_pool [OF only_rs_pool [OF assms(1) only]] assms(2) by auto
  then show ?thesis
    using only_rs_active_fds [OF only]
    by (simp add: gate_failure_def llps_readiness_monitor_record_failure_def llps_readiness_monitor_shutdown_after_failure_def
        stop_server_def)
qed

lemma fast_ready_violations:
  assumes inv: "pool_inv cfg k l sv" and flags: "three_flags sv" and v: "violations sv \<noteq> 0"
  shows "\<exists>l' sv'. llps_readiness_runtime_fast_software_ready ml latches sv = (False, sv') \<and> pool_inv cfg 3 l' sv' \<and>
    three_flags sv' \<and> active_fds cfg sv' = active_fds cfg sv"
proof -
  obtain sv1 where c: "sv_reconcile_cfg sv = (True, sv1)" "pool_same sv sv1" "pool_inv cfg 3 l sv1"
    using pool_reconcile_cfg [OF inv] by blast
  have 1: "violations sv1 = violations sv" "three_flags sv1" "active_fds cfg sv1 = active_fds cfg sv"
    using cfg_keeps_violations [OF pool_banks(1) [OF inv] c(1)] three_flags_same [OF c(2)] flags active_fds_same [OF c(2)] by simp_all
  obtain ok requested sv2 where d: "sv_reconcile_control sv1 = (ok, requested, sv2)" by (metis prod_cases3)
  have only: "only_rs sv1 sv2" using only_rs_control [of sv1] d by simp
  note inv2 = only_rs_pool [OF c(3) only]
  have 2: "violations sv2 = violations sv" "three_flags sv2" "active_fds cfg sv2 = active_fds cfg sv"
    using control_keeps_violations [OF 1(2) d] 1 only_rs_active_fds [OF only] by simp_all
  obtain sv3 where f: "sv_reconcile_free sv2 = (True, sv3)" "pool_same sv2 sv3" "pool_inv cfg 3 3 sv3"
    using pool_reconcile_free [OF inv2] by blast
  have 3: "violations sv3 = violations sv" "three_flags sv3" "active_fds cfg sv3 = active_fds cfg sv"
    using free_keeps_violations [OF pool_banks [OF inv2] f(1)] three_flags_same [OF f(2)] active_fds_same [OF f(2)] 2 by simp_all
  have bad: "\<not> llps_readiness_runtime_fast_counters_ok (sv_counters sv3)"
    using v 3(1) by (simp add: llps_readiness_runtime_fast_counters_ok_def violations_def Let_def)
  have "llps_readiness_runtime_fast_software_ready ml latches sv = (False, if ok then sv3 else sv2)"
    by (simp add: llps_readiness_runtime_fast_software_ready_def llps_readiness_runtime_fast_reconciles_def c(1) d f(1) bad split: bool.split)
  then show ?thesis using inv2 f(3) 2 3 by auto
qed

text \<open>With readiness required, one counted violation makes the next tick stop the server.\<close>

lemma violation_stops:
  assumes inv: "pool_inv cfg k l sv" and flags: "three_flags sv" and v: "violations sv \<noteq> 0" and req: "require_readiness cfg \<noteq> 0"
  shows "\<exists>l' sv'. llps_readiness_runtime_monitor_tick me sv = (active_fds cfg sv, sv') \<and> stopping sv' \<and> pool_inv cfg 3 l' sv'"
proof -
  obtain sv1 where c: "sv_reconcile_cfg sv = (True, sv1)" "pool_same sv sv1" "pool_inv cfg 3 l sv1"
    using pool_reconcile_cfg [OF inv] by blast
  have load: "llps_readiness_monitor_load_snapshot sv = (Inr cfg, sv1)"
    using pool_cfg [OF c(3)] by (simp add: llps_readiness_monitor_load_snapshot_def c(1))
  have 1: "violations sv1 \<noteq> 0" "three_flags sv1"
    using cfg_keeps_violations [OF pool_banks(1) [OF inv] c(1)] three_flags_same [OF c(2)] flags v by simp_all
  obtain l' sv2 where f: "llps_readiness_runtime_fast_software_ready (me_layout me) (me_latches me) sv1 = (False, sv2)"
    "pool_inv cfg 3 l' sv2" "three_flags sv2" "active_fds cfg sv2 = active_fds cfg sv1"
    using fast_ready_violations [OF c(3) 1(2,1)] by blast
  obtain sv3 where g: "llps_readiness_monitor_fast_software_gate me sv1 = (False, active_fds cfg sv, sv3)"
    "stopping sv3" "pool_inv cfg 3 l' sv3"
    using gate_failure_stops [OF f(2,3)] f(1,4) active_fds_same [OF c(2)] unfolding llps_readiness_monitor_fast_software_gate_def by fastforce
  then show ?thesis by (auto simp: llps_readiness_runtime_monitor_tick_def load req)
qed

text \<open>Reading the flag is a reconciliation of its banks.\<close>

lemma shutdown_is_requested_eq:
  "sv_shutdown_is_requested sv = (case sv_reconcile_control sv of (ok, requested, sv') \<Rightarrow> (\<not> ok \<or> requested, sv'))"
  by (simp add: sv_shutdown_is_requested_def sv_reconcile_control_def llps_control_shutdown_is_requested_def split: prod.split)

lemma flag_reads:
  assumes "flag_held (\<lambda>i. i = j) v (rs_control (sv_rs sv))"
  shows "\<exists>sv'. sv_shutdown_is_requested sv = (v, sv') \<and> only_rs sv sv' \<and> violations sv' = violations sv \<and>
    flag_held (\<lambda>_. False) v (rs_control (sv_rs sv'))"
proof -
  obtain ok requested sv' where r: "sv_reconcile_control sv = (ok, requested, sv')" by (metis prod_cases3)
  have "three_flags sv" using assms by (simp add: three_flags_def flag_held_def)
  then have "violations sv' = violations sv" using control_keeps_violations r by blast
  moreover have "only_rs sv sv'" using only_rs_control [of sv] r by simp
  moreover have "(\<not> ok \<or> requested) = v" "flag_held (\<lambda>_. False) v (rs_control (sv_rs sv'))"
    using control_reconcile_held [OF assms, of "sv_counters sv"] r by (auto simp: sv_reconcile_control_def sv_set_counters_def)
  ultimately show ?thesis by (simp add: shutdown_is_requested_eq r)
qed

lemma flag_three: "flag_held P v (rs_control (sv_rs sv)) \<Longrightarrow> three_flags sv"
  by (simp add: flag_held_def three_flags_def)

text \<open>A reset while the first bytes are read is counted.\<close>

lemma read_reset_counted:
  assumes inv: "pool_inv cfg k l sv" and flag: "flag_held (\<lambda>i. i = j) False (rs_control (sv_rs sv))"
    and fd: "llps_fd_is_valid (se_client_fd (sv_session n sv))"
    and room: "len < unat (buffer_size cfg)" and timeout: "sint t \<ge> -1"
    and pa: "pr_wait pa sv = sv" "pr_read pa = Ready_error Other_errno"
  shows "\<exists>sv'. llps_client_preface_read_chunk pa n len t sv = (Some ''client_preface_read'', False, len, sv') \<and>
    only_rs sv sv' \<and> violations sv' = violations sv + 1 \<and> flag_held (\<lambda>_. False) False (rs_control (sv_rs sv'))"
proof -
  obtain sv1 where s: "sv_shutdown_is_requested sv = (False, sv1)" "only_rs sv sv1" "violations sv1 = violations sv"
    "flag_held (\<lambda>_. False) False (rs_control (sv_rs sv1))" using flag_reads [OF flag] by blast
  have cfg: "sv_cfg sv = cfg" using inv by (rule pool_cfg)
  have small: "unat (buffer_size cfg) < 2 ^ 32" using unsigned_less [of "buffer_size cfg"] by simp
  moreover from this have "unat (of_nat len :: u64) = len" using room by (simp add: unat_of_nat take_bit_nat_eq_self)
  moreover have "unat (ucast (buffer_size cfg) :: u64) = unat (buffer_size cfg)"
    by (simp add: unsigned_ucast_eq take_bit_nat_eq_self order.strict_trans [OF unsigned_less])
  ultimately have u: "unat (preface_room len sv) = unat (buffer_size cfg) - len"
    using room by (simp add: preface_room_def cfg unat_sub word_le_nat_alt)
  have "preface_room len sv \<noteq> 0" using u room by (simp add: unat_eq_0 [symmetric])
  moreover have "\<not> preface_room len sv > 0x7FFFFFFFFFFFFFFF"
    using u small by (simp add: word_less_nat_alt)
  ultimately have "llps_llam_read_when_ready_checked (pr_read pa) (pr_stale pa) (pr_wait pa) (se_client_fd (sv_session n sv))
      (preface_room len sv) t sv = (Ready_error Other_errno, sv_violation sv1)"
    using fd timeout pa by (simp add: llps_llam_read_when_ready_checked_def unless_stopping_def s(1))
  then have "llps_client_preface_read_chunk pa n len t sv = (Some ''client_preface_read'', False, len, sv_violation sv1)"
    by (simp add: llps_client_preface_read_chunk_def)
  moreover have "flag_held (\<lambda>_. False) False (rs_control (sv_rs (sv_violation sv1)))"
    using s(4) by (simp add: sv_violation_def llps_contract_violation_def)
  ultimately show ?thesis using only_rs_trans [OF s(2) only_rs_violation] s(3) by simp
qed


section \<open>The scan for idle sessions\<close>

text \<open>A loop over the sessions keeps what every turn keeps.\<close>

lemma session_loop_keeps:
  assumes "P i st" "i \<le> N" "\<And>i st. P i st \<Longrightarrow> i < N \<Longrightarrow> P (Suc i) (turn i st)"
    and N: "\<And>i st. P i st \<Longrightarrow> unat (max_clients (sv_cfg (snd st))) = N"
  shows "P N (session_loop turn i st)"
  using assms(1,2)
proof (induction "N - i" arbitrary: i st)
  case 0
  then show ?case using N by (subst session_loop.simps) simp
next
  case (Suc d)
  then have "i < N" by simp
  moreover from this have "P N (session_loop turn (Suc i) (turn i st))"
    using Suc.hyps(1) [of "Suc i" "turn i st"] Suc.hyps(2) assms(3) [OF Suc.prems(1)] by simp
  ultimately show ?case using N [OF Suc.prems(1)] by (subst session_loop.simps) simp
qed

text \<open>What the scan looks for.\<close>

definition idle_slot :: "u64 \<Rightarrow> u64 \<Rightarrow> nat \<Rightarrow> server_state \<Rightarrow> bool" where
  "idle_slot now timeout n sv \<longleftrightarrow> active_slot n sv \<and> se_last_activity_ns (sv_session n sv) \<le> now \<and>
     timeout < now - se_last_activity_ns (sv_session n sv)"

lemma reason_1_valid [simp]: "llps_close_reason_is_valid 1"
  by (simp add: llps_close_reason_is_valid_def)

lemma sealed_close_reason [simp]: "se_close_reason (sealed_session s) = se_close_reason s"
  by (simp add: sealed_session_def Let_def llps_session_refresh_secded_def)

text \<open>Closing marks the session and leaves the pool sound.\<close>

lemma close_idle_pool:
  assumes inv: "pool_inv cfg k l sv" and n: "n < unat (max_clients cfg)"
  shows "\<exists>sv'. llps_watchdog_close_idle_session n sv = (llps_force_shutdown_session_fds (sv_session n sv), sv') \<and>
    pool_inv cfg k l sv' \<and> (\<forall>m. m \<noteq> n \<longrightarrow> sv_session m sv' = sv_session m sv) \<and>
    sv_session n sv' = sealed_session ((sv_session n sv)\<lparr>se_close_reason := 1, se_close_reason_inverse := NOT 1\<rparr>)"
proof -
  let ?s = "(sv_session n sv)\<lparr>se_close_reason := 1, se_close_reason_inverse := NOT 1\<rparr>"
  let ?sv = "llps_session_refresh_crc n (sv_put_session n ?s sv)"
  have c: "session_consistent (of_nat n) ?s"
    using sealed_consistent [OF pool_sealed [OF inv n, simplified]] by (simp add: session_consistent_def)
  have "of_nat n \<in> set (free_ids sv) \<longleftrightarrow> se_state ?s = ST_FREE" using inv n by (simp add: pool_but_def)
  then have seal: "pool_inv cfg k l ?sv" "sv_session n ?sv = sealed_session ?s" "\<And>m. m \<noteq> n \<Longrightarrow> sv_session m ?sv = sv_session m sv"
    using pool_seal(1,3) [OF inv n _ c, where Y = "{}"] pool_seal(4) [OF inv n _ c, where Y = "{}"] by auto
  have "llps_watchdog_close_idle_session n sv = (llps_force_shutdown_session_fds (sv_session n ?sv), ?sv)"
    by (simp add: llps_watchdog_close_idle_session_def llps_session_mark_close_reason_def Let_def)
  moreover have "llps_force_shutdown_session_fds (sv_session n ?sv) = llps_force_shutdown_session_fds (sv_session n sv)"
    using seal(2) by (simp add: llps_force_shutdown_session_fds_def)
  ultimately show ?thesis using seal by simp
qed

definition scanned :: "llps_yml_config_t \<Rightarrow> nat \<Rightarrow> u64 \<Rightarrow> server_state \<Rightarrow> nat \<Rightarrow> c_int list \<times> server_state \<Rightarrow> bool" where
  "scanned cfg l now sv i = (\<lambda>(fds, sv').
     let timeout = llps_session_idle_timeout_ns sv
     in (\<exists>k. pool_inv cfg k l sv') \<and> fds = session_fds (\<lambda>n. idle_slot now timeout n sv) [0..<i] sv \<and>
        (\<forall>m. sv_session m sv' =
           (if m < i \<and> idle_slot now timeout m sv
            then sealed_session ((sv_session m sv)\<lparr>se_close_reason := 1, se_close_reason_inverse := NOT 1\<rparr>)
            else sv_session m sv)))"

lemma scan_turn:
  assumes st: "scanned cfg l now sv i st" and i: "i < unat (max_clients cfg)"
  shows "scanned cfg l now sv (Suc i) (idle_scan_turn now (llps_session_idle_timeout_ns sv) i st)"
proof -
  let ?t = "llps_session_idle_timeout_ns sv"
  obtain fds sv1 k where st': "st = (fds, sv1)" and inv: "pool_inv cfg k l sv1"
    and fds: "fds = session_fds (\<lambda>n. idle_slot now ?t n sv) [0..<i] sv"
    and s: "\<And>m. sv_session m sv1 = (if m < i \<and> idle_slot now ?t m sv
            then sealed_session ((sv_session m sv)\<lparr>se_close_reason := 1, se_close_reason_inverse := NOT 1\<rparr>)
            else sv_session m sv)"
    using st by (cases st) (auto simp: scanned_def Let_def)
  have si: "sv_session i sv1 = sv_session i sv" using s by simp
  consider sv2 where "active_slot i sv1" "llps_session_is_active i sv1 = (True, sv2)" "pool_same sv1 sv2" "pool_inv cfg 3 l sv2"
    | sv0 sv2 where "\<not> active_slot i sv1" "llps_session_is_active i sv1 = (False, sv0)" "llps_session_is_free i sv0 = (True, sv2)"
      "pool_same sv1 sv2" "pool_inv cfg 3 l sv2"
    using pool_slot [OF inv i] by blast
  then show ?thesis
  proof cases
    case 1
    have same: "sv_session m sv2 = sv_session m sv1" for m using 1(3) by (simp add: pool_same_def)
    show ?thesis
    proof (cases "idle_slot now ?t i sv")
      case True
      then have idle: "se_last_activity_ns (sv_session i sv2) \<le> now \<and> ?t < now - se_last_activity_ns (sv_session i sv2)"
        by (simp add: idle_slot_def same si)
      obtain sv3 where c: "llps_watchdog_close_idle_session i sv2 = (llps_force_shutdown_session_fds (sv_session i sv2), sv3)"
        "pool_inv cfg 3 l sv3" "\<And>m. m \<noteq> i \<Longrightarrow> sv_session m sv3 = sv_session m sv2"
        "sv_session i sv3 = sealed_session ((sv_session i sv2)\<lparr>se_close_reason := 1, se_close_reason_inverse := NOT 1\<rparr>)"
        using close_idle_pool [OF 1(4) i] by blast
      have "idle_scan_turn now ?t i st = (fds @ llps_force_shutdown_session_fds (sv_session i sv), sv3)"
        using idle by (simp add: idle_scan_turn_def st' 1(2) c(1)) (simp add: same si)
      moreover have "sv_session m sv3 = (if m < Suc i \<and> idle_slot now ?t m sv
          then sealed_session ((sv_session m sv)\<lparr>se_close_reason := 1, se_close_reason_inverse := NOT 1\<rparr>)
          else sv_session m sv)" for m
        using c(3) [of m] c(4) True s [of m] same [of m] si by (cases "m = i") auto
      ultimately show ?thesis using c(2) True fds by (auto simp: scanned_def Let_def)
    next
      case False
      then have idle: "\<not> (se_last_activity_ns (sv_session i sv2) \<le> now \<and> ?t < now - se_last_activity_ns (sv_session i sv2))"
        using 1(1) by (simp add: idle_slot_def same si)
      have "idle_scan_turn now ?t i st = (fds, sv2)"
        unfolding idle_scan_turn_def st' prod.case 1(2) bool.case if_not_P [OF idle] ..
      then show ?thesis using 1(4) False fds s same by (auto simp: scanned_def Let_def less_Suc_eq)
    qed
  next
    case 2
    have same: "sv_session m sv2 = sv_session m sv1" for m using 2(4) by (simp add: pool_same_def)
    have idle: "\<not> idle_slot now ?t i sv" using 2(1) by (simp add: idle_slot_def si)
    have "idle_scan_turn now ?t i st = (fds, sv2)" by (simp add: idle_scan_turn_def st' 2(2,3))
    then show ?thesis using 2(5) idle fds s same by (auto simp: scanned_def Let_def less_Suc_eq)
  qed
qed

lemma scan_pool:
  assumes "pool_inv cfg k l sv"
  shows "scanned cfg l now sv (unat (max_clients cfg)) (llps_watchdog_scan_idle_sessions now sv)"
  unfolding llps_watchdog_scan_idle_sessions_def
proof (rule session_loop_keeps [where P = "scanned cfg l now sv"])
  show "scanned cfg l now sv 0 ([], sv)" using assms by (auto simp: scanned_def session_fds_def Let_def)
  show "unat (max_clients (sv_cfg (snd st))) = unat (max_clients cfg)" if "scanned cfg l now sv i st" for i st
    using that pool_cfg by (cases st) (auto simp: scanned_def Let_def)
qed (use scan_turn in auto)

section \<open>The scrub of the metadata\<close>

lemma bank_holds_other:
  assumes "bank_holds m i region s" "region_shape region" "ss_session_id t \<noteq> m"
  shows "bank_holds m i (written_region i t region) s"
  using assms init_region_guarded [OF assms(2)]
  by (auto simp: bank_holds_def written_region_def)

lemma bank_holds_repaired_other:
  "bank_holds m i region s \<Longrightarrow> n \<noteq> m \<Longrightarrow> bank_holds m i (repaired_region n i region) s"
  by (auto simp: bank_holds_def repaired_region_def)

lemma bank_holds_voted_other:
  assumes "bank_holds m i (regions ! i) s" "region_shape (regions ! i)" "ss_session_id t = n" "n \<noteq> m"
  shows "bank_holds m i (voted_region n regions t i) s"
  using bank_holds_other [OF bank_holds_repaired_other [OF assms(1,4)], of t] bank_holds_repaired_other [OF assms(1,4)]
    assms by (simp add: voted_region_def)

text \<open>Two banks hold the value of slot \<open>n\<close>.\<close>

definition two_hold :: "nat \<Rightarrow> llps_session_tmr_region_t list \<Rightarrow> llps_session_tmr_snapshot_t \<Rightarrow> bool" where
  "two_hold n regions s \<longleftrightarrow>
     (\<exists>i < 3. \<exists>j < 3. i \<noteq> j \<and> bank_holds (of_nat n) i (regions ! i) s \<and> bank_holds (of_nat n) j (regions ! j) s)"

definition all_store :: "nat \<Rightarrow> llps_session_tmr_region_t list \<Rightarrow> llps_session_tmr_snapshot_t \<Rightarrow> bool" where
  "all_store n regions s \<longleftrightarrow> (\<forall>i < 3. bank_stores (of_nat n) i (regions ! i) s)"

text \<open>What the first turns have reached: the slots below \<open>i\<close> are stored in all banks.\<close>

definition scrubbed ::
    "(nat \<Rightarrow> llps_session_tmr_snapshot_t) \<Rightarrow> nat \<Rightarrow> server_state \<Rightarrow> nat \<Rightarrow> (bool \<times> c_int list) \<times> server_state \<Rightarrow> bool" where
  "scrubbed t limit sv i = (\<lambda>(verdict, sv').
     verdict = (True, []) \<and>
     (\<exists>sc regions. sv' = (sv_set_counters sc sv)\<lparr>sv_regions := regions\<rparr> \<and> regions_shape regions \<and>
        (\<forall>n < limit. two_hold n regions (t n) \<and> (n < i \<longrightarrow> all_store n regions (t n)))))"

lemma vote_keeps_others:
  assumes shape: "regions_shape regions" and s: "ss_session_id s = of_nat n" and n: "n < 256" "m < 256" "m \<noteq> n"
  defines "restored \<equiv> map (voted_region (of_nat n) regions s) [0..<3]"
  shows "two_hold m regions u \<Longrightarrow> two_hold m restored u" "all_store m regions u \<Longrightarrow> all_store m restored u"
proof -
  have ne: "(of_nat n :: u32) \<noteq> of_nat m" using n by (simp add: of_nat_eq_iff_small)
  have r: "region_shape (regions ! i)" "restored ! i = voted_region (of_nat n) regions s i" if "i < 3" for i
    using that shape by (simp_all add: restored_def regions_shape_def)
  show "two_hold m regions u \<Longrightarrow> two_hold m restored u"
    unfolding two_hold_def using bank_holds_voted_other [OF _ r(1) s ne] r(2) by metis
  show "all_store m regions u \<Longrightarrow> all_store m restored u"
    unfolding all_store_def using bank_stores_voted_other [OF _ r(1) s ne] r(2) by simp
qed

lemma scrub_turn:
  assumes st: "scrubbed t (unat limit) sv i st" and i: "i < unat limit" and limit: "limit \<le> 256" "max_clients (sv_cfg sv) = limit"
  shows "scrubbed t (unat limit) sv (Suc i) (tmr_scrub_turn i st)"
proof -
  obtain sc regions where st': "st = ((True, []), (sv_set_counters sc sv)\<lparr>sv_regions := regions\<rparr>)"
    and shape: "regions_shape regions"
    and slots: "\<And>n. n < unat limit \<Longrightarrow> two_hold n regions (t n) \<and> (n < i \<longrightarrow> all_store n regions (t n))"
    using st by (cases st) (auto simp: scrubbed_def)
  have small: "unat limit \<le> 256" using limit(1) by (simp add: word_le_nat_alt)
  have u: "(of_nat i :: u32) < limit" using i small by (simp add: word_less_nat_alt unat_of_nat)
  obtain a b where ab: "a < 3" "b < 3" "a \<noteq> b" "bank_holds (of_nat i) a (regions ! a) (t i)" "bank_holds (of_nat i) b (regions ! b) (t i)"
    using slots [OF i] by (auto simp: two_hold_def)
  have id: "ss_session_id (t i) = of_nat i" using bank_holds_ok [OF ab(4)] by (simp add: snapshot_ok_def)
  obtain restored sc' where v: "llps_session_tmr_vote (of_nat i) limit (regions, sc) = (Some (t i), restored, sc')"
    "regions_shape restored" "restored = map (voted_region (of_nat i) regions (t i)) [0..<3]"
    "\<forall>j < 3. bank_stores (of_nat i) j (restored ! j) (t i)"
    using vote_two_hold [OF u limit(1) shape ab, of sc] by blast
  have own: "all_store i restored (t i)" using v(4) by (simp add: all_store_def)
  moreover from this have "two_hold i restored (t i)"
    unfolding two_hold_def all_store_def by (intro exI [of _ 0] conjI exI [of _ 1]) (simp_all add: bank_stores_holds(1))
  ultimately have "two_hold n restored (t n) \<and> (n < Suc i \<longrightarrow> all_store n restored (t n))" if "n < unat limit" for n
    using slots [OF that] vote_keeps_others [OF shape id, of n, folded v(3)] that i small
    by (cases "n = i") (auto simp: less_Suc_eq)
  moreover have "tmr_scrub_turn i st = ((True, []),
      (sv_set_counters (LLPS_MEMORY_SAFETY_COUNTER_INC tmr_scrub_sessions_checked_update sc') sv)\<lparr>sv_regions := restored\<rparr>)"
    using v(1) limit(2) by (simp add: tmr_scrub_turn_def st' sv_count_def sv_counters_def sv_set_counters_def sv_cfg_def)
  ultimately show ?thesis using v(2) by (auto simp: scrubbed_def)
qed

lemma scrub_loop:
  assumes shape: "regions_shape (sv_regions sv)" and limit: "max_clients (sv_cfg sv) \<le> 256"
    and two: "\<And>n. n < unat (max_clients (sv_cfg sv)) \<Longrightarrow> two_hold n (sv_regions sv) (t n)"
  defines "N \<equiv> unat (max_clients (sv_cfg sv))"
  shows "scrubbed t N sv N (session_loop tmr_scrub_turn 0 ((True, []), sv))"
proof (rule session_loop_keeps [where P = "scrubbed t N sv"])
  have "sv = (sv_set_counters (sv_counters sv) sv)\<lparr>sv_regions := sv_regions sv\<rparr>"
    by (simp add: sv_set_counters_def sv_counters_def)
  then show "scrubbed t N sv 0 ((True, []), sv)"
    using shape two unfolding scrubbed_def N_def by (simp split: prod.split) blast
  show "unat (max_clients (sv_cfg (snd st))) = N" if "scrubbed t N sv i st" for i st
    using that by (cases st) (auto simp: scrubbed_def N_def sv_cfg_def sv_set_counters_def)
  show "scrubbed t N sv (Suc i) (tmr_scrub_turn i st)" if "scrubbed t N sv i st" "i < N" for i st
    using that scrub_turn [OF _ _ limit refl] by (simp add: N_def)
qed simp

text \<open>The metadata of a server: the configuration, the free list and the flag, each up to one bank.\<close>

definition metadata_held ::
    "nat \<Rightarrow> nat \<Rightarrow> nat \<Rightarrow> llps_yml_config_t \<Rightarrow> llps_free_list_snapshot_t \<Rightarrow> server_state \<Rightarrow> bool" where
  "metadata_held k l j cfg s sv \<longleftrightarrow> cfg_held k cfg (rs_env (sv_rs sv)) \<and> free_held l (max_clients cfg) s (rs_env (sv_rs sv)) \<and>
     flag_held (\<lambda>i. i = j) False (rs_control (sv_rs sv))"

lemma scrub_metadata:
  assumes held: "metadata_held k l j cfg s sv"
  shows "\<exists>sv'. llps_tmr_metadata_scrub_all sv = (True, [], sv') \<and> metadata_held 3 3 3 cfg s sv' \<and> sv_cfg sv' = cfg \<and>
    sv_free sv' = (fls_entries s, fls_count s) \<and> sv_regions sv' = sv_regions sv \<and> sv_sessions sv' = sv_sessions sv"
proof -
  obtain rs1 where c: "sv_reconcile_cfg sv = (True, sv\<lparr>sv_rs := rs1\<rparr>)" "cfg_held 3 cfg (rs_env rs1)"
    "env_free_banks (rs_env rs1) = env_free_banks (rs_env (sv_rs sv))" "rs_control rs1 = rs_control (sv_rs sv)"
    using sv_reconcile_cfg_held held unfolding metadata_held_def by blast
  have "free_held l (max_clients cfg) s (rs_env rs1)" using held free_held_env [OF c(3)] by (simp add: metadata_held_def)
  then obtain env where f: "llps_free_list_reconcile (sv_free sv) (rs_env rs1) = (True, (fls_entries s, fls_count s), env)"
    "cfg_held 3 cfg env" "free_held 3 (max_clients cfg) s env" "env_runtime_cfg env = cfg"
    using free_reconcile_held [OF c(2)] by blast
  obtain cf sc where h: "llps_control_flag_reconcile (rs_control (sv_rs sv)) (env_counters env) = (True, False, cf, sc)"
    "flag_held (\<lambda>_. False) False cf"
    using control_reconcile_held held unfolding metadata_held_def by blast
  have same: "cfg_held 3 cfg (env\<lparr>env_counters := sc\<rparr>)" "free_held 3 (max_clients cfg) s (env\<lparr>env_counters := sc\<rparr>)"
    using f(2,3) by (simp_all add: cfg_held_def free_held_def)
  show ?thesis
    using same f(4) flag_held_any [OF h(2)]
    by (simp add: llps_tmr_metadata_scrub_all_def c(1) sv_reconcile_free_def f(1) sv_reconcile_control_def c(4)
        sv_counters_def h(1) metadata_held_def sv_set_counters_def sv_cfg_def)
qed

section \<open>Properties\<close>

text \<open>
  C17: With readiness required, a client that resets its connection while its first bytes are awaited stops
  the server: the failed read counts as a violation of a contract, and the next tick of the monitor finds
  the violation, requests the shutdown in all three banks and shuts the descriptors of all active
  sessions down. Memory is intact and nobody had asked to stop.
\<close>

theorem one_reset_stops_the_server:
  assumes "pool_inv cfg k l sv" "flag_held (\<lambda>i. i = j) False (rs_control (sv_rs sv))" "require_readiness cfg \<noteq> 0"
    and "llps_fd_is_valid (se_client_fd (sv_session n sv))" "len < unat (buffer_size cfg)" "sint t \<ge> -1"
    and "pr_wait pa sv = sv" "pr_read pa = Ready_error Other_errno" "violations sv \<noteq> -1"
  shows "\<exists>sv1 sv2. llps_client_preface_read_chunk pa n len t sv = (Some ''client_preface_read'', False, len, sv1) \<and>
    llps_readiness_runtime_monitor_tick me sv1 = (active_fds cfg sv, sv2) \<and>
    flag_held (\<lambda>_. False) True (rs_control (sv_rs sv2))"
proof -
  obtain sv1 where r: "llps_client_preface_read_chunk pa n len t sv = (Some ''client_preface_read'', False, len, sv1)"
    "only_rs sv sv1" "violations sv1 = violations sv + 1" "flag_held (\<lambda>_. False) False (rs_control (sv_rs sv1))"
    using read_reset_counted [OF assms(1,2,4-8)] by blast
  have "violations sv1 \<noteq> 0" using r(3) assms(9) by (simp add: add_eq_0_iff2)
  then show ?thesis
    using violation_stops [OF only_rs_pool [OF assms(1) r(2)] flag_three [OF r(4)] _ assms(3)] r(1)
      only_rs_active_fds [OF r(2)] by (auto simp: stopping_def)
qed

text \<open>
  C18: The scan shuts down exactly the sessions that are active and have been silent for longer than the
  timeout: it returns the descriptors of these, in order, marks them as timed out and changes no other
  session; the pool stays sound.
\<close>

theorem idle_scan_closes_the_idle:
  assumes "pool_inv cfg k l sv"
  shows "\<exists>sv' k'. llps_watchdog_scan_idle_sessions now sv =
      (session_fds (\<lambda>n. idle_slot now (llps_session_idle_timeout_ns sv) n sv) [0..<unat (max_clients cfg)] sv, sv') \<and>
    pool_inv cfg k' l sv' \<and>
    (\<forall>n < unat (max_clients cfg).
       if idle_slot now (llps_session_idle_timeout_ns sv) n sv
       then se_close_reason (sv_session n sv') = LLPS_CLOSE_REASON_IDLE_TIMEOUT \<and> session_sealed n sv' \<and>
         se_state (sv_session n sv') = ST_ACTIVE \<and> se_client_fd (sv_session n sv') = se_client_fd (sv_session n sv)
       else sv_session n sv' = sv_session n sv)"
proof -
  obtain fds sv' where r: "llps_watchdog_scan_idle_sessions now sv = (fds, sv')" by fastforce
  obtain k' where s: "pool_inv cfg k' l sv'"
    "fds = session_fds (\<lambda>n. idle_slot now (llps_session_idle_timeout_ns sv) n sv) [0..<unat (max_clients cfg)] sv"
    "\<And>m. sv_session m sv' = (if m < unat (max_clients cfg) \<and> idle_slot now (llps_session_idle_timeout_ns sv) m sv
       then sealed_session ((sv_session m sv)\<lparr>se_close_reason := 1, se_close_reason_inverse := NOT 1\<rparr>) else sv_session m sv)"
    using scan_pool [OF assms, of now] by (auto simp: r scanned_def Let_def)
  show ?thesis
    using r s(1-3) pool_sealed [OF s(1)] by (intro exI [of _ sv'] exI [of _ k']) (auto simp: idle_slot_def)
qed

text \<open>
  C15: A requested shutdown takes effect: in the next cycle of the watchdog, also with one bank of the flag
  upset, the loop ends, the descriptors of all active sessions are shut down and the flag stands in all
  three banks.
\<close>

theorem requested_stop_ends_the_watchdog:
  assumes "pool_inv cfg k l sv" "flag_held (\<lambda>i. i = j) True (rs_control (sv_rs sv))"
  shows "\<exists>sv'. llps_task_watchdog (wd # wds) (fds, sv) = (fds @ active_fds cfg sv, sv') \<and>
    flag_held (\<lambda>_. False) True (rs_control (sv_rs sv'))"
proof -
  let ?sv = "sv\<lparr>sv_rs := snd (llps_llam_now_ns_checked (wd_now wd) (sv_rs sv))\<rparr>"
  have flag: "flag_held (\<lambda>i. i = j) True (rs_control (sv_rs ?sv))"
    using assms(2) flag_held_any [OF flag_held_write_all]
    by (simp add: now_checked_eq expect_shutdown_def Let_def llps_contract_violation_def llps_control_request_shutdown_def flag_held_def)
  obtain sv1 where s: "sv_shutdown_is_requested ?sv = (True, sv1)" "only_rs ?sv sv1" "flag_held (\<lambda>_. False) True (rs_control (sv_rs sv1))"
    using flag_reads [OF flag] by blast
  have only: "only_rs sv sv1" using only_rs_trans [OF only_rs_now s(2)] .
  obtain sv2 where a: "llps_shutdown_all_sessions sv1 = (active_fds cfg sv1, sv2)" "pool_same sv1 sv2"
    using shutdown_all_pool [OF only_rs_pool [OF assms(1) only]] by blast
  have "watchdog_cycle wd sv = (True, active_fds cfg sv, sv2)"
    using a(1) only_rs_active_fds [OF only] by (simp add: watchdog_cycle_def stop_when_requested_def s(1) Let_def)
  moreover have "flag_held (\<lambda>_. False) True (rs_control (sv_rs sv2))" using s(3) a(2) by (simp add: pool_same_def)
  ultimately show ?thesis by simp
qed

text \<open>
  C5: The scrub heals: when of the configuration, the free list and the shutdown flag one bank may be lost,
  and every slot still has two of its three banks, also after repair of single bits, the scrub passes,
  shuts nothing down, and leaves every one of these values in all three banks; the slots carry the
  values the two banks held.
\<close>

theorem scrub_heals:
  assumes "metadata_held k l j cfg s sv" "regions_shape (sv_regions sv)"
    and "\<And>n. n < unat (max_clients cfg) \<Longrightarrow> two_hold n (sv_regions sv) (t n)"
  shows "\<exists>sv'. llps_session_tmr_scrub_all sv = (True, [], sv') \<and> metadata_held 3 3 3 cfg s sv' \<and>
    sv_free sv' = (fls_entries s, fls_count s) \<and>
    (\<forall>n < unat (max_clients cfg). all_store n (sv_regions sv') (t n)) \<and> sv_sessions sv' = sv_sessions sv"
proof -
  obtain sv1 where m: "llps_tmr_metadata_scrub_all sv = (True, [], sv1)" "metadata_held 3 3 3 cfg s sv1" "sv_cfg sv1 = cfg"
    "sv_free sv1 = (fls_entries s, fls_count s)" "sv_regions sv1 = sv_regions sv" "sv_sessions sv1 = sv_sessions sv"
    using scrub_metadata [OF assms(1)] by blast
  have "max_clients cfg \<le> 256" using m(2) cfg_held_max_clients [of 3 cfg "rs_env (sv_rs sv1)"] by (simp add: metadata_held_def)
  then have "scrubbed t (unat (max_clients cfg)) sv1 (unat (max_clients cfg)) (session_loop tmr_scrub_turn 0 ((True, []), sv1))"
    using scrub_loop [of sv1 t] assms(2,3) m(3,5) by simp
  then obtain sc regions where r: "session_loop tmr_scrub_turn 0 ((True, []), sv1) =
      ((True, []), (sv_set_counters sc sv1)\<lparr>sv_regions := regions\<rparr>)"
    "\<forall>n < unat (max_clients cfg). all_store n regions (t n)"
    by (cases "session_loop tmr_scrub_turn 0 ((True, []), sv1)") (auto simp: scrubbed_def)
  have "cfg_held 3 cfg (rs_env (sv_rs (sv_set_counters c sv1)))" "free_held 3 (max_clients cfg) s (rs_env (sv_rs (sv_set_counters c sv1)))"
    "rs_control (sv_rs (sv_set_counters c sv1)) = rs_control (sv_rs sv1)" for c
    using m(2) by (simp_all add: metadata_held_def cfg_held_def free_held_def sv_set_counters_def)
  then show ?thesis
    using m(2,4,6) r(2)
    by (simp add: llps_session_tmr_scrub_all_def m(1) r(1) sv_count_def metadata_held_def) (simp add: sv_set_counters_def)
qed

section \<open>Examples\<close>

text \<open>A configuration with readiness required, a pool under it and one session open in it.\<close>

definition ready_cfg :: llps_yml_config_t where
  "ready_cfg = example_cfg\<lparr>require_readiness := 1, platform_safety_flags := 15, platform_safety_evidence_id := 7,
     platform_physical_memory_domains := [1, 2, 3], platform_hardware_tmr_domains := [4, 5, 6],
     platform_hardware_tmr_voter_domain := 8,
     platform_attestation_fingerprint :=
       snd (llps_compute_platform_attestation_fingerprint 15 7 [1, 2, 3] [4, 5, 6] 8)\<rparr>"

lemma ready_cfg_valid: "llps_runtime_cfg_values_are_valid ready_cfg"
  unfolding ready_cfg_def using example_cfg_valid by (rule valid_with_attestation) (simp_all add: example_cfg_def)

lemma ready_cfg_fields [simp]: "max_clients ready_cfg = 256" "buffer_size ready_cfg = 4096" "require_readiness ready_cfg = 1"
    "session_idle_timeout_ms ready_cfg = 30000"
  by (simp_all add: ready_cfg_def example_cfg_def)

definition ready_server :: server_state where
  "ready_server = sample_server\<lparr>sv_rs := (sv_rs sample_server)\<lparr>rs_env := (rs_env (sv_rs sample_server))\<lparr>
     env_runtime_cfg := ready_cfg, env_cfg_banks := map (\<lambda>i. cfg_bank_from i ready_cfg) [0..<3],
     env_free_banks := map (\<lambda>i. free_bank_from i zero_free_snapshot) [0..<3]\<rparr>\<rparr>\<rparr>"

lemma ready_server_ready: "pool_ready ready_cfg 3 ready_server"
proof -
  have "cfg_held 3 ready_cfg (rs_env (sv_rs ready_server))"
    by (auto simp: ready_server_def cfg_held_def cfg_bank_from_valid ready_cfg_valid)
  moreover have "sv_shape ready_server" using sample_server_shape by (simp add: ready_server_def)
  ultimately show ?thesis by (simp add: pool_ready_def) (simp add: ready_server_def sv_cfg_def sample_server_def)
qed

text \<open>With the flag at \<open>v\<close> in all banks.\<close>

lemma ready_pool:
  "\<exists>(sv :: server_state) n. pool_inv ready_cfg 3 3 sv \<and> flag_held (\<lambda>_. False) v (rs_control (sv_rs sv)) \<and> violations sv = 0 \<and>
     n < 256 \<and> se_state (sv_session n sv) = ST_ACTIVE \<and> se_client_fd (sv_session n sv) = 9 \<and> se_last_activity_ns (sv_session n sv) = 80"
proof -
  let ?sv = "llps_init_prepare_session_pool ready_server"
  obtain n sv1 where n: "n < 256" "pool_but {n} ready_cfg 3 3 sv1"
    using find_free_session_post [OF init_pool(1) [OF ready_server_ready]] unfolding init_pool(2) [OF ready_server_ready]
    by (auto simp: lessThan_empty_iff)
  have "n < unat (max_clients ready_cfg)" using n(1) by simp
  note o = open_session_post [OF n(2) this, where fd = 9 and ip = None and port = 80 and no = 1 and now = 80]
  let ?o = "llps_session_prepare_active_with_peer n (of_nat n) 9 None 80 1 80 sv1"
  let ?cf = "llps_control_flag_write_all v \<lparr>g_server_shutdown_requested = False, g_control_flag_banks = replicate 3 (control_bank_from 0 False)\<rparr>"
  let ?rs = "(sv_rs ?o)\<lparr>rs_env := (rs_env (sv_rs ?o))\<lparr>env_counters := blank_counters\<rparr>, rs_control := ?cf\<rparr>"
  have "pool_inv ready_cfg 3 3 (?o\<lparr>sv_rs := ?rs\<rparr>)" by (rule pool_same_banks [OF o(1)]) (simp add: same_banks_def)
  moreover have "flag_held (\<lambda>_. False) v ?cf" by (rule flag_held_write_all) simp
  moreover have "violations (?o\<lparr>sv_rs := ?rs\<rparr>) = 0"
    by (simp add: violations_def sv_counters_def blank_counters_def zero_counters_def)
  moreover have "se_last_activity_ns (sv_session n ?o) = 80"
    unfolding o(5) by (simp add: sealed_session_def Let_def llps_session_refresh_secded_def
      session_active_fields_def llps_session_set_state_fields_def session_clear_transfer_def)
  ultimately show ?thesis using n(1) o(2,3)
    by (intro exI [of _ "?o\<lparr>sv_rs := ?rs\<rparr>"] exI [of _ n]) simp
qed

definition reset_answer :: preface_answer where
  "reset_answer = \<lparr>pr_before = id, pr_now = 90, pr_wait = id, pr_read = Ready_error Other_errno, pr_stale = Other_errno, pr_touch = 90\<rparr>"

definition sample_monitor :: monitor_env where
  "sample_monitor = \<lparr>me_layout = \<lparr>ml_session = [0x4000, 0x8000, 0xC000], ml_cfg = [0x10000, 0x14000, 0x18000],
       ml_free = [0x1C000, 0x20000, 0x24000], ml_control = [0x28000, 0x2C000, 0x30000], ml_sizes = replicate 12 64\<rparr>,
     me_latches = initial_latches, me_audit = \<lambda>_. \<lparr>au_enabled = True, au_now = 95, au_recorded = True\<rparr>, me_now = 95,
     me_worker = (LLPS_OK, 0, False)\<rparr>"

definition sample_watchdog :: watchdog_env where
  "sample_watchdog = \<lparr>wd_now = 95, wd_contract = True, wd_monitor = sample_monitor,
     wd_sleep = \<lparr>sl_pipe_fd = -1, sl_poll_rc = 0, sl_sleep_rc = 0\<rparr>, wd_asleep = id\<rparr>"

theorem one_reset_stops_the_server_witness:
  "\<exists>(sv :: server_state) n (sv1 :: server_state) fds (sv2 :: server_state). pool_inv ready_cfg 3 3 sv \<and>
     se_state (sv_session n sv) = ST_ACTIVE \<and> flag_held (\<lambda>_. False) False (rs_control (sv_rs sv)) \<and>
     llps_client_preface_read_chunk reset_answer n 0 1000 sv = (Some ''client_preface_read'', False, 0, sv1) \<and>
     llps_readiness_runtime_monitor_tick sample_monitor sv1 = (fds, sv2) \<and> flag_held (\<lambda>_. False) True (rs_control (sv_rs sv2))"
proof -
  obtain sv :: server_state and n where s: "pool_inv ready_cfg 3 3 sv" "flag_held (\<lambda>_. False) False (rs_control (sv_rs sv))"
    "violations sv = 0" "se_state (sv_session n sv) = ST_ACTIVE" "se_client_fd (sv_session n sv) = 9" using ready_pool by blast
  have fd: "llps_fd_is_valid (se_client_fd (sv_session n sv))" by (simp add: s(5) llps_fd_is_valid_def)
  show ?thesis
    using one_reset_stops_the_server [OF s(1) flag_held_any [OF s(2)] _ fd, where len = 0 and t = 1000 and pa = reset_answer and me = sample_monitor] s
    by (fastforce simp: reset_answer_def)
qed

theorem idle_scan_closes_the_idle_witness:
  "\<exists>(sv :: server_state) n fds (sv' :: server_state). pool_inv ready_cfg 3 3 sv \<and>
     llps_watchdog_scan_idle_sessions 30000000081 sv = (fds, sv') \<and> se_close_reason (sv_session n sv') = 1 \<and>
     se_client_fd (sv_session n sv') = 9"
proof -
  obtain sv :: server_state and n where s: "pool_inv ready_cfg 3 3 sv" "n < 256" "se_state (sv_session n sv) = ST_ACTIVE"
    "se_client_fd (sv_session n sv) = 9" "se_last_activity_ns (sv_session n sv) = 80" using ready_pool by blast
  have "idle_slot 30000000081 (llps_session_idle_timeout_ns sv) n sv"
    by (simp add: idle_slot_def s llps_session_idle_timeout_ns_def pool_cfg [OF s(1)])
  then show ?thesis using idle_scan_closes_the_idle [OF s(1), where now = 30000000081] s(1,2,4) by fastforce
qed

theorem requested_stop_ends_the_watchdog_witness:
  "\<exists>(sv :: server_state) (sv' :: server_state). pool_inv ready_cfg 3 3 sv \<and> llps_task_watchdog [sample_watchdog] ([], sv) = (active_fds ready_cfg sv, sv')"
proof -
  obtain sv :: server_state where s: "pool_inv ready_cfg 3 3 sv" "flag_held (\<lambda>_. False) True (rs_control (sv_rs sv))"
    using ready_pool by blast
  show ?thesis using requested_stop_ends_the_watchdog [OF s(1) flag_held_any [OF s(2)], where wd = sample_watchdog and wds = "[]" and fds = "[]"] s(1) by fastforce
qed

text \<open>A region is lost as a whole, and comes back.\<close>

theorem scrub_heals_witness:
  "\<exists>(sv :: server_state) (sv' :: server_state). sv_regions sv ! 2 = sample_region \<and> llps_session_tmr_scrub_all sv = (True, [], sv') \<and>
     all_store 5 (sv_regions sv') (llps_session_tmr_snapshot_from_session (sv_session 5 sv))"
proof -
  obtain sv :: server_state where s: "pool_inv ready_cfg 3 3 sv" "flag_held (\<lambda>_. False) False (rs_control (sv_rs sv))"
    using ready_pool by blast
  let ?d = "sv\<lparr>sv_regions := (sv_regions sv)[2 := sample_region]\<rparr>"
  let ?s = "llps_free_list_snapshot_from_canonical (fst (sv_free sv)) (snd (sv_free sv))"
  let ?t = "\<lambda>n. llps_session_tmr_snapshot_from_session (sv_session n sv)"
  have held: "metadata_held 3 3 3 ready_cfg ?s ?d"
    using s flag_held_any [OF s(2)] by (simp add: metadata_held_def pool_but_def)
  have shape: "regions_shape (sv_regions sv)" using s(1) by (simp add: pool_but_def sv_shape_def)
  have "region_shape sample_region" using sample_shape unfolding regions_shape_def by (metis nth_Cons_0 zero_less_numeral)
  with shape have damaged: "regions_shape (sv_regions ?d)" by (simp add: regions_shape_def nth_list_update)
  have two: "two_hold n (sv_regions ?d) (?t n)" if "n < unat (max_clients ready_cfg)" for n
  proof -
    have "bank_holds (of_nat n) i (sv_regions sv ! i) (?t n)" if "i < 3" for i
      using bank_stores_holds_sealed [OF pool_sealed [OF s(1) \<open>n < unat (max_clients ready_cfg)\<close>] that] by simp
    then show ?thesis unfolding two_hold_def by (intro exI [of _ 0] conjI exI [of _ 1]) simp_all
  qed
  have "sv_regions ?d ! 2 = sample_region" using shape by (simp add: regions_shape_def)
  moreover obtain sv' where "llps_session_tmr_scrub_all ?d = (True, [], sv')" "all_store 5 (sv_regions sv') (?t 5)"
    using scrub_heals [OF held damaged two] by auto
  ultimately show ?thesis by (intro exI [of _ ?d] exI [of _ sv']) simp
qed

end
