(* ===== verification/Yml_Scalar.thy ===== *)
theory Yml_Scalar
  imports Config
begin

text \<open>
  The text level of the configuration parser \<^verbatim>\<open>src/config/yml_parser.c\<close>: its character classes, the
  bounded string helpers, trimming, comments and quotes, and the parsers of the scalar values:
  numbers, modes, ports, IPv4 addresses, host names and paths.

  A C string is the list of its bytes before the terminator; \<^verbatim>\<open>s[len]\<close>, the terminator, is written out
  where the code reads it. The pointers the callers pass are never \<^verbatim>\<open>NULL\<close>, so the branches
  for null arguments have no counterpart. A parser that leaves its output alone on an error returns
  \<open>Inl\<close> of the status, and \<open>Inr\<close> of what it stored when the status is \<^verbatim>\<open>LLPS_YML_OK\<close>.
\<close>

section \<open>Definitions\<close>

datatype llps_yml_status_t =
  LLPS_YML_OK | LLPS_YML_E_NULL | LLPS_YML_E_OPEN | LLPS_YML_E_READ | LLPS_YML_E_CLOSE
| LLPS_YML_E_TOO_LARGE | LLPS_YML_E_TOO_MANY_LINES | LLPS_YML_E_LINE_TOO_LONG | LLPS_YML_E_SYNTAX
| LLPS_YML_E_KEY | LLPS_YML_E_DUPLICATE | LLPS_YML_E_REQUIRED | LLPS_YML_E_RANGE | LLPS_YML_E_STRING

type_synonym 'a yml_result = "llps_yml_status_t + 'a"

abbreviation LLPS_YML_MAX_LINE_LEN :: nat where
  "LLPS_YML_MAX_LINE_LEN \<equiv> 320"

abbreviation LLPS_YML_MAX_KEY_LEN :: nat where
  "LLPS_YML_MAX_KEY_LEN \<equiv> 64"

abbreviation LLPS_YML_MAX_VALUE_LEN :: nat where
  "LLPS_YML_MAX_VALUE_LEN \<equiv> 256"

abbreviation LLPS_YML_MAX_DNS_NAME_LEN :: nat where
  "LLPS_YML_MAX_DNS_NAME_LEN \<equiv> 254"

abbreviation LLPS_YML_MAX_DNS_LABEL_LEN :: nat where
  "LLPS_YML_MAX_DNS_LABEL_LEN \<equiv> 63"

text \<open>The bytes of a string literal of the source.\<close>

definition ascii :: "string \<Rightarrow> u8 list" where
  "ascii s = List.map of_char s"

subsection \<open>Characters\<close>

definition llps_yml_is_space :: "u8 \<Rightarrow> bool" where
  "llps_yml_is_space c \<longleftrightarrow> c = 0x20 \<or> c = 0x09"

definition llps_yml_is_digit :: "u8 \<Rightarrow> bool" where
  "llps_yml_is_digit c \<longleftrightarrow> c \<ge> 48 \<and> c \<le> 57"

definition llps_yml_is_lower_alpha :: "u8 \<Rightarrow> bool" where
  "llps_yml_is_lower_alpha c \<longleftrightarrow> c \<ge> 97 \<and> c \<le> 122"

definition llps_yml_is_upper_alpha :: "u8 \<Rightarrow> bool" where
  "llps_yml_is_upper_alpha c \<longleftrightarrow> c \<ge> 65 \<and> c \<le> 90"

definition llps_yml_is_alpha :: "u8 \<Rightarrow> bool" where
  "llps_yml_is_alpha c \<longleftrightarrow> llps_yml_is_lower_alpha c \<or> llps_yml_is_upper_alpha c"

definition llps_yml_is_alnum :: "u8 \<Rightarrow> bool" where
  "llps_yml_is_alnum c \<longleftrightarrow> llps_yml_is_alpha c \<or> llps_yml_is_digit c"

definition llps_yml_is_key_char :: "u8 \<Rightarrow> bool" where
  "llps_yml_is_key_char c \<longleftrightarrow> llps_yml_is_lower_alpha c \<or> llps_yml_is_digit c \<or> c = 95"

definition llps_yml_is_dns_label_char :: "u8 \<Rightarrow> bool" where
  "llps_yml_is_dns_label_char c \<longleftrightarrow> llps_yml_is_alnum c \<or> c = 45"

definition llps_yml_is_allowed_text_byte :: "u8 \<Rightarrow> bool" where
  "llps_yml_is_allowed_text_byte c \<longleftrightarrow> c \<ge> 0x20 \<and> c \<le> 0x7E \<or> c = 0x09"

subsection \<open>Bounded strings\<close>

text \<open>The terminator is looked for in the first \<open>max_len\<close> bytes.\<close>

definition llps_yml_bounded_strlen :: "u8 list \<Rightarrow> nat \<Rightarrow> nat option" where
  "llps_yml_bounded_strlen s max_len = (if length s < max_len then Some (length s) else None)"

text \<open>Two equal strings are only reported equal when the terminator is within the bound.\<close>

fun llps_yml_streq :: "u8 list \<Rightarrow> u8 list \<Rightarrow> nat \<Rightarrow> bool" where
  "llps_yml_streq a b 0 = False"
| "llps_yml_streq [] [] (Suc n) = True"
| "llps_yml_streq (x # a) (y # b) (Suc n) = (if x \<noteq> y then False else llps_yml_streq a b n)"
| "llps_yml_streq [] (y # b) (Suc n) = False"
| "llps_yml_streq (x # a) [] (Suc n) = False"

text \<open>The array that results: the text, its terminator, and what was behind them before.\<close>

definition llps_yml_copy_cstr :: "u8 list \<Rightarrow> nat \<Rightarrow> u8 list \<Rightarrow> u8 list yml_result" where
  "llps_yml_copy_cstr dst dst_cap src =
     (case llps_yml_bounded_strlen src dst_cap of
        None \<Rightarrow> Inl LLPS_YML_E_STRING
      | Some len \<Rightarrow> Inr (take len src @ 0 # drop (len + 1) dst))"

subsection \<open>Trimming, comments and quotes\<close>

definition llps_yml_trim_in_place :: "u8 list \<Rightarrow> u8 list option" where
  "llps_yml_trim_in_place s =
     (case llps_yml_bounded_strlen s (LLPS_YML_MAX_LINE_LEN + 1) of
        None \<Rightarrow> None
      | Some len \<Rightarrow> Some (rev (dropWhile llps_yml_is_space (rev (dropWhile llps_yml_is_space s)))))"

text \<open>The loop of the comment stripper; the last argument counts the bytes still looked at.\<close>

fun strip_comment_loop :: "bool \<Rightarrow> bool \<Rightarrow> u8 list \<Rightarrow> nat \<Rightarrow> u8 list" where
  "strip_comment_loop in_single in_double s 0 = s"
| "strip_comment_loop in_single in_double [] (Suc n) = []"
| "strip_comment_loop in_single in_double (c # s) (Suc n) =
     (if c = 39 \<and> \<not> in_double then c # strip_comment_loop (\<not> in_single) in_double s n
      else if c = 34 \<and> \<not> in_single then c # strip_comment_loop in_single (\<not> in_double) s n
      else if c = 35 \<and> \<not> in_single \<and> \<not> in_double then []
      else c # strip_comment_loop in_single in_double s n)"

definition llps_yml_strip_comment :: "u8 list \<Rightarrow> u8 list" where
  "llps_yml_strip_comment line = strip_comment_loop False False line LLPS_YML_MAX_LINE_LEN"

definition llps_yml_unquote_value :: "u8 list \<Rightarrow> u8 list yml_result" where
  "llps_yml_unquote_value s =
     (case llps_yml_bounded_strlen s (LLPS_YML_MAX_VALUE_LEN + 1) of
        None \<Rightarrow> Inl LLPS_YML_E_STRING
      | Some len \<Rightarrow>
          if len = 0 then Inl LLPS_YML_E_SYNTAX
          else if s ! 0 = 39 \<or> s ! 0 = 34
          then (let quote = s ! 0
                in if len < 2 \<or> s ! (len - 1) \<noteq> quote then Inl LLPS_YML_E_SYNTAX
                   else if list_ex (\<lambda>i. s ! i = quote \<or> s ! i = 92) [1..<len - 1]
                   then Inl LLPS_YML_E_SYNTAX
                   else Inr (drop 1 (take (len - 1) s)))
          else if list_ex (\<lambda>i. s ! i = 39 \<or> s ! i = 34 \<or> s ! i = 92) [0..<len]
          then Inl LLPS_YML_E_SYNTAX
          else Inr s)"

subsection \<open>Numbers\<close>

text \<open>The digit loops of the two parsers; all arithmetic is that of the C type.\<close>

fun parse_u32_loop :: "u32 \<Rightarrow> u32 \<Rightarrow> u8 list \<Rightarrow> u32 yml_result" where
  "parse_u32_loop max_value acc [] = Inr acc"
| "parse_u32_loop max_value acc (c # s) =
     (if \<not> llps_yml_is_digit c then Inl LLPS_YML_E_SYNTAX
      else (let digit = ucast (c - 48)
            in if acc > (max_value - digit) div 10 then Inl LLPS_YML_E_RANGE
               else parse_u32_loop max_value (acc * 10 + digit) s))"

definition llps_yml_parse_u32 :: "u8 list \<Rightarrow> u32 \<Rightarrow> u32 \<Rightarrow> u32 yml_result" where
  "llps_yml_parse_u32 s min_value max_value =
     (if min_value > max_value then Inl LLPS_YML_E_RANGE
      else (case llps_yml_bounded_strlen s (LLPS_YML_MAX_VALUE_LEN + 1) of
          None \<Rightarrow> Inl LLPS_YML_E_STRING
        | Some len \<Rightarrow>
            if len = 0 then Inl LLPS_YML_E_SYNTAX
            else (case parse_u32_loop max_value 0 s of
                Inl st \<Rightarrow> Inl st
              | Inr parsed \<Rightarrow>
                  if parsed < min_value \<or> parsed > max_value then Inl LLPS_YML_E_RANGE
                  else Inr parsed)))"

fun parse_u64_loop :: "u64 \<Rightarrow> u8 list \<Rightarrow> u64 yml_result" where
  "parse_u64_loop acc [] = Inr acc"
| "parse_u64_loop acc (c # s) =
     (if \<not> llps_yml_is_digit c then Inl LLPS_YML_E_SYNTAX
      else (let digit = ucast ((ucast c :: u32) - 48)
            in if acc > (UINT64_MAX - digit) div 10 then Inl LLPS_YML_E_RANGE
               else parse_u64_loop (acc * 10 + digit) s))"

definition llps_yml_parse_u64 :: "u8 list \<Rightarrow> u64 \<Rightarrow> u64 \<Rightarrow> u64 yml_result" where
  "llps_yml_parse_u64 s min_value max_value =
     (if min_value > max_value then Inl LLPS_YML_E_RANGE
      else (case llps_yml_bounded_strlen s (LLPS_YML_MAX_VALUE_LEN + 1) of
          None \<Rightarrow> Inl LLPS_YML_E_STRING
        | Some len \<Rightarrow>
            if len = 0 then Inl LLPS_YML_E_SYNTAX
            else (case parse_u64_loop 0 s of
                Inl st \<Rightarrow> Inl st
              | Inr parsed \<Rightarrow>
                  if parsed < min_value \<or> parsed > max_value then Inl LLPS_YML_E_RANGE
                  else Inr parsed)))"

text \<open>Any failure to read a mode as a number is a syntax error.\<close>

definition llps_yml_parse_platform_evidence_mode :: "u8 list \<Rightarrow> u32 yml_result" where
  "llps_yml_parse_platform_evidence_mode s =
     (if llps_yml_streq s (ascii ''real'') LLPS_YML_MAX_VALUE_LEN then Inr 0
      else if llps_yml_streq s (ascii ''synthetic'') LLPS_YML_MAX_VALUE_LEN then Inr 1
      else if llps_yml_streq s (ascii ''hybrid'') LLPS_YML_MAX_VALUE_LEN then Inr 2
      else (case llps_yml_parse_u32 s 0 2 of
          Inl st \<Rightarrow> Inl LLPS_YML_E_SYNTAX
        | Inr parsed \<Rightarrow> Inr parsed))"

definition llps_yml_parse_software_fault_injection_mode :: "u8 list \<Rightarrow> u32 yml_result" where
  "llps_yml_parse_software_fault_injection_mode s =
     (if llps_yml_streq s (ascii ''off'') LLPS_YML_MAX_VALUE_LEN then Inr 0
      else if llps_yml_streq s (ascii ''single'') LLPS_YML_MAX_VALUE_LEN then Inr 1
      else if llps_yml_streq s (ascii ''double'') LLPS_YML_MAX_VALUE_LEN then Inr 2
      else if llps_yml_streq s (ascii ''full'') LLPS_YML_MAX_VALUE_LEN then Inr 3
      else (case llps_yml_parse_u32 s 0 3 of
          Inl st \<Rightarrow> Inl LLPS_YML_E_SYNTAX
        | Inr parsed \<Rightarrow> Inr parsed))"

definition llps_yml_parse_port :: "u8 list \<Rightarrow> u16 yml_result" where
  "llps_yml_parse_port s =
     (case llps_yml_parse_u32 s 1 65535 of Inl st \<Rightarrow> Inl st | Inr parsed \<Rightarrow> Inr (ucast parsed))"

subsection \<open>Addresses and host names\<close>

record llps_yml_ipv4_scan_t =
  octet_count :: u32
  digit_count :: u32
  scan_value :: u32
  first_digit :: u8

definition llps_yml_ipv4_scan_init :: llps_yml_ipv4_scan_t where
  "llps_yml_ipv4_scan_init =
     \<lparr>octet_count = 0, digit_count = 0, scan_value = 0, first_digit = 0\<rparr>"

definition llps_yml_ipv4_scan_digit ::
    "llps_yml_ipv4_scan_t \<Rightarrow> u8 \<Rightarrow> llps_yml_ipv4_scan_t yml_result" where
  "llps_yml_ipv4_scan_digit scan c =
     (if digit_count scan \<noteq> 0 \<and> first_digit scan = 48 then Inl LLPS_YML_E_SYNTAX
      else (let scan = (if digit_count scan = 0 then scan\<lparr>first_digit := c, scan_value := 0\<rparr> else scan);
                scan = scan\<lparr>digit_count := digit_count scan + 1\<rparr>
            in if digit_count scan > 3 then Inl LLPS_YML_E_RANGE
               else (let scan = scan\<lparr>scan_value := scan_value scan * 10 + ucast (c - 48)\<rparr>
                     in if scan_value scan > 255 then Inl LLPS_YML_E_RANGE else Inr scan)))"

text \<open>The scan and the flag \<^verbatim>\<open>*out_done\<close>.\<close>

definition llps_yml_ipv4_scan_separator ::
    "llps_yml_ipv4_scan_t \<Rightarrow> u8 \<Rightarrow> (llps_yml_ipv4_scan_t \<times> bool) yml_result" where
  "llps_yml_ipv4_scan_separator scan c =
     (if digit_count scan = 0 then Inl LLPS_YML_E_SYNTAX
      else (let scan = scan\<lparr>octet_count := octet_count scan + 1\<rparr>
            in if c = 0 then Inr (scan, True)
               else if octet_count scan \<ge> 4 then Inl LLPS_YML_E_SYNTAX
               else Inr (scan\<lparr>digit_count := 0, scan_value := 0, first_digit := 0\<rparr>, False)))"

text \<open>The loop over the text and its terminator.\<close>

fun ipv4_scan_loop :: "llps_yml_ipv4_scan_t \<Rightarrow> u8 list \<Rightarrow> llps_yml_ipv4_scan_t yml_result" where
  "ipv4_scan_loop scan [] = Inr scan"
| "ipv4_scan_loop scan (c # s) =
     (if llps_yml_is_digit c
      then (case llps_yml_ipv4_scan_digit scan c of
          Inl st \<Rightarrow> Inl st
        | Inr scan' \<Rightarrow> ipv4_scan_loop scan' s)
      else if c = 46 \<or> c = 0
      then (case llps_yml_ipv4_scan_separator scan c of
          Inl st \<Rightarrow> Inl st
        | Inr (scan', stop) \<Rightarrow> if stop then Inr scan' else ipv4_scan_loop scan' s)
      else Inl LLPS_YML_E_SYNTAX)"

definition llps_yml_parse_ipv4_text_only :: "u8 list \<Rightarrow> u8 list \<Rightarrow> nat \<Rightarrow> u8 list yml_result" where
  "llps_yml_parse_ipv4_text_only s dst dst_cap =
     (if dst_cap < LLPS_YML_MAX_TEXT then Inl LLPS_YML_E_RANGE
      else (case llps_yml_bounded_strlen s LLPS_YML_MAX_TEXT of
          None \<Rightarrow> Inl LLPS_YML_E_STRING
        | Some len \<Rightarrow>
            if len = 0 then Inl LLPS_YML_E_SYNTAX
            else (case ipv4_scan_loop llps_yml_ipv4_scan_init (s @ [0]) of
                Inl st \<Rightarrow> Inl st
              | Inr scan \<Rightarrow>
                  if octet_count scan \<noteq> 4 then Inl LLPS_YML_E_SYNTAX
                  else llps_yml_copy_cstr dst dst_cap s)))"

text \<open>The loop over the name, with \<open>label_len\<close> and \<open>previous\<close>.\<close>

fun dns_host_loop :: "nat \<Rightarrow> u8 \<Rightarrow> u8 list \<Rightarrow> (nat \<times> u8) yml_result" where
  "dns_host_loop label_len previous [] = Inr (label_len, previous)"
| "dns_host_loop label_len previous (c # s) =
     (if c = 46
      then (if label_len = 0 \<or> previous = 45 then Inl LLPS_YML_E_SYNTAX else dns_host_loop 0 c s)
      else if \<not> llps_yml_is_dns_label_char c then Inl LLPS_YML_E_SYNTAX
      else if label_len = 0 \<and> c = 45 then Inl LLPS_YML_E_SYNTAX
      else if label_len + 1 > LLPS_YML_MAX_DNS_LABEL_LEN then Inl LLPS_YML_E_RANGE
      else dns_host_loop (label_len + 1) c s)"

definition llps_yml_validate_dns_host_text :: "u8 list \<Rightarrow> nat \<Rightarrow> llps_yml_status_t" where
  "llps_yml_validate_dns_host_text s len =
     (if len = 0 \<or> len > LLPS_YML_MAX_DNS_NAME_LEN then LLPS_YML_E_RANGE
      else (case dns_host_loop 0 0 (take len s) of
          Inl st \<Rightarrow> st
        | Inr (label_len, previous) \<Rightarrow>
            if label_len = 0 \<and> s ! (len - 1) \<noteq> 46 then LLPS_YML_E_SYNTAX
            else if previous = 45 then LLPS_YML_E_SYNTAX
            else LLPS_YML_OK))"

definition llps_yml_parse_host_text :: "u8 list \<Rightarrow> u8 list \<Rightarrow> nat \<Rightarrow> u8 list yml_result" where
  "llps_yml_parse_host_text s dst dst_cap =
     (if dst_cap < LLPS_YML_MAX_TEXT then Inl LLPS_YML_E_RANGE
      else (case llps_yml_bounded_strlen s LLPS_YML_MAX_TEXT of
          None \<Rightarrow> Inl LLPS_YML_E_STRING
        | Some len \<Rightarrow>
            if len = 0 then Inl LLPS_YML_E_SYNTAX
            else if list_all (\<lambda>c. llps_yml_is_digit c \<or> c = 46) s
            then llps_yml_parse_ipv4_text_only s dst dst_cap
            else (let st = llps_yml_validate_dns_host_text s len
                  in if st \<noteq> LLPS_YML_OK then Inl st else llps_yml_copy_cstr dst dst_cap s)))"

subsection \<open>Paths\<close>

definition llps_yml_path_has_parent_component :: "u8 list \<Rightarrow> nat \<Rightarrow> bool" where
  "llps_yml_path_has_parent_component s len = parent_component_loop s len 0 [0..<len + 1]"

definition llps_yml_path_has_pxf_extension :: "u8 list \<Rightarrow> nat \<Rightarrow> bool" where
  "llps_yml_path_has_pxf_extension s len \<longleftrightarrow>
     len \<ge> 5 \<and> s ! (len - 4) = 46 \<and> s ! (len - 3) = 112 \<and> s ! (len - 2) = 120 \<and> s ! (len - 1) = 102"

text \<open>The character loop that ends both path parsers.\<close>

definition yml_path_chars_ok :: "u8 list \<Rightarrow> nat \<Rightarrow> bool" where
  "yml_path_chars_ok s len =
     list_all (\<lambda>i.
         let c = s ! i
         in \<not> (\<not> llps_yml_is_alnum c \<and> c \<noteq> 47 \<and> c \<noteq> 46 \<and> c \<noteq> 95 \<and> c \<noteq> 45) \<and>
            \<not> (c = 47 \<and> i > 0 \<and> s ! (i - 1) = 47)) [0..<len]"

definition llps_yml_parse_path_text :: "u8 list \<Rightarrow> u8 list \<Rightarrow> nat \<Rightarrow> u8 list yml_result" where
  "llps_yml_parse_path_text s dst dst_cap =
     (if dst_cap < LLPS_YML_MAX_TEXT then Inl LLPS_YML_E_RANGE
      else (case llps_yml_bounded_strlen s LLPS_YML_MAX_TEXT of
          None \<Rightarrow> Inl LLPS_YML_E_STRING
        | Some len \<Rightarrow>
            if len = 0 \<or> s ! 0 \<noteq> 47 \<or> s ! (len - 1) = 47 then Inl LLPS_YML_E_SYNTAX
            else if llps_yml_path_has_parent_component s len then Inl LLPS_YML_E_SYNTAX
            else if \<not> llps_yml_path_has_pxf_extension s len then Inl LLPS_YML_E_SYNTAX
            else if \<not> yml_path_chars_ok s len then Inl LLPS_YML_E_SYNTAX
            else llps_yml_copy_cstr dst dst_cap s))"

definition llps_yml_parse_key_path_text :: "u8 list \<Rightarrow> u8 list \<Rightarrow> nat \<Rightarrow> u8 list yml_result" where
  "llps_yml_parse_key_path_text s dst dst_cap =
     (if dst_cap < LLPS_YML_MAX_TEXT then Inl LLPS_YML_E_RANGE
      else (case llps_yml_bounded_strlen s LLPS_YML_MAX_TEXT of
          None \<Rightarrow> Inl LLPS_YML_E_STRING
        | Some len \<Rightarrow>
            if len = 0 \<or> s ! 0 \<noteq> 47 \<or> s ! (len - 1) = 47 then Inl LLPS_YML_E_SYNTAX
            else if llps_yml_path_has_parent_component s len then Inl LLPS_YML_E_SYNTAX
            else if \<not> yml_path_chars_ok s len then Inl LLPS_YML_E_SYNTAX
            else llps_yml_copy_cstr dst dst_cap s))"

subsection \<open>Reference notions\<close>

definition digits_value :: "nat \<Rightarrow> u8 list \<Rightarrow> nat" where
  "digits_value acc s = foldl (\<lambda>n c. n * 10 + unat (c - 48)) acc s"

fun split_dot :: "u8 list \<Rightarrow> u8 list list" where
  "split_dot [] = [[]]"
| "split_dot (c # cs) =
     (if c = 46 then [] # split_dot cs else (c # hd (split_dot cs)) # tl (split_dot cs))"

definition ipv4_octet :: "u8 list \<Rightarrow> bool" where
  "ipv4_octet p \<longleftrightarrow> p \<noteq> [] \<and> length p \<le> 3 \<and> list_all llps_yml_is_digit p \<and>
     (hd p = 48 \<longrightarrow> length p = 1) \<and> digits_value 0 p \<le> 255"

definition ipv4_address :: "u8 list \<Rightarrow> bool" where
  "ipv4_address s \<longleftrightarrow> length (split_dot s) = 4 \<and> list_all ipv4_octet (split_dot s)"

definition dns_label :: "u8 list \<Rightarrow> bool" where
  "dns_label p \<longleftrightarrow> p \<noteq> [] \<and> length p \<le> LLPS_YML_MAX_DNS_LABEL_LEN \<and>
     list_all llps_yml_is_dns_label_char p \<and> hd p \<noteq> 45 \<and> last p \<noteq> 45"

text \<open>One dot may follow the last label.\<close>

definition dns_labels :: "u8 list list \<Rightarrow> bool" where
  "dns_labels ps \<longleftrightarrow> list_all dns_label (butlast ps) \<and> (last ps = [] \<or> dns_label (last ps))"

definition dns_name :: "u8 list \<Rightarrow> bool" where
  "dns_name s \<longleftrightarrow> s \<noteq> [] \<and> length s \<le> LLPS_YML_MAX_DNS_NAME_LEN \<and> dns_labels (split_dot s)"

section \<open>Numbers\<close>

lemma digits_value_simps [simp]:
  "digits_value acc [] = acc"
  "digits_value acc (c # s) = digits_value (acc * 10 + unat (c - 48)) s"
  by (simp_all add: digits_value_def)

lemma digits_value_append: "digits_value acc (s @ t) = digits_value (digits_value acc s) t"
  by (simp add: digits_value_def)

lemma digits_value_ge: "acc \<le> digits_value acc s"
proof (induction s arbitrary: acc)
  case (Cons c s)
  from Cons [of "acc * 10 + unat (c - 48)"] show ?case by simp
qed simp

lemma unat_ucast_wide:
  "LENGTH('a) \<le> LENGTH('b) \<Longrightarrow> unat (ucast (x :: 'a::len word) :: 'b::len word) = unat x"
  by (simp add: unsigned_ucast_eq take_bit_nat_eq_self
      order.strict_trans2 [OF unsigned_less [where ?'a = nat, of x]])

lemma digit_value_le: "llps_yml_is_digit c \<Longrightarrow> unat (c - 48) \<le> 9"
proof -
  assume "llps_yml_is_digit c"
  then have "c - 48 \<le> 9" unfolding llps_yml_is_digit_def by unat_arith
  then show ?thesis by (simp add: word_le_nat_alt)
qed

text \<open>The guard of both loops: the next value fits exactly when it is not above the maximum.\<close>

lemma decimal_guard:
  fixes limit acc d :: "'a::len word"
  assumes "unat d \<le> 9" "9 \<le> unat limit" "unat (10 :: 'a word) = 10"
  shows "acc > (limit - d) div 10 \<longleftrightarrow> unat acc * 10 + unat d > unat limit"
    and "\<not> acc > (limit - d) div 10 \<Longrightarrow> unat (acc * 10 + d) = unat acc * 10 + unat d"
proof -
  have "unat ((limit - d) div 10) = (unat limit - unat d) div 10"
    using assms by (simp add: unat_div unat_sub word_le_nat_alt)
  then show guard: "acc > (limit - d) div 10 \<longleftrightarrow> unat acc * 10 + unat d > unat limit"
    using assms by (simp add: word_less_nat_alt div_less_iff_less_mult) linarith
  assume "\<not> acc > (limit - d) div 10"
  then have "unat acc * 10 + unat d \<le> unat limit" using guard by simp
  then have "unat acc * 10 + unat d < 2 ^ LENGTH('a)"
    using unsigned_less [where ?'a = nat, of limit] by linarith
  then show "unat (acc * 10 + d) = unat acc * 10 + unat d"
    using assms(3) by (simp add: unat_word_ariths)
qed

lemma parse_u32_loop_iff:
  assumes "9 \<le> max_value" "acc \<le> max_value"
  shows "parse_u32_loop max_value acc s = Inr v \<longleftrightarrow>
    list_all llps_yml_is_digit s \<and> digits_value (unat acc) s \<le> unat max_value \<and>
    unat v = digits_value (unat acc) s"
  using assms(2)
proof (induction s arbitrary: acc)
  case Nil
  then show ?case by (auto simp: word_le_nat_alt word_unat_eq_iff)
next
  case (Cons c s)
  show ?case
  proof (cases "llps_yml_is_digit c")
    case True
    let ?d = "ucast (c - 48) :: u32"
    have d: "unat ?d = unat (c - 48)" "unat ?d \<le> 9"
      using digit_value_le [OF True] by (simp_all add: unat_ucast_wide)
    have nine: "9 \<le> unat max_value" using assms(1) by (simp add: word_le_nat_alt)
    note guard = decimal_guard [OF d(2) nine, of acc, simplified]
    show ?thesis
    proof (cases "acc > (max_value - ?d) div 10")
      case False
      then have "acc * 10 + ?d \<le> max_value" using guard by (simp add: word_le_nat_alt d)
      then show ?thesis using False True guard(2) d by (simp add: Cons.IH Let_def)
    next
      case over: True
      have "digits_value (unat acc * 10 + unat (c - 48)) s > unat max_value"
        using guard(1) over digits_value_ge [of "unat acc * 10 + unat (c - 48)" s] d by simp
      then show ?thesis using True over by (simp add: Let_def)
    qed
  qed simp
qed

lemma parse_u64_loop_iff:
  "parse_u64_loop acc s = Inr v \<longleftrightarrow>
    list_all llps_yml_is_digit s \<and> digits_value (unat acc) s \<le> unat UINT64_MAX \<and>
    unat v = digits_value (unat acc) s"
proof (induction s arbitrary: acc)
  case Nil
  have "unat acc \<le> unat UINT64_MAX" using unsigned_less [where ?'a = nat, of acc] by simp
  then show ?case by (auto simp: word_unat_eq_iff)
next
  case (Cons c s)
  show ?case
  proof (cases "llps_yml_is_digit c")
    case True
    let ?d = "ucast ((ucast c :: u32) - 48) :: u64"
    have "unat c \<ge> 48" using True by (simp add: llps_yml_is_digit_def word_le_nat_alt)
    then have d: "unat ?d = unat (c - 48)" "unat ?d \<le> 9"
      using digit_value_le [OF True] by (simp_all add: unat_ucast_wide unat_sub word_le_nat_alt)
    have nine: "9 \<le> unat UINT64_MAX" by simp
    note guard = decimal_guard [OF d(2) nine, of acc, simplified]
    show ?thesis
    proof (cases "acc > (UINT64_MAX - ?d) div 10")
      case False
      then show ?thesis using True guard(2) d by (simp add: Cons.IH Let_def)
    next
      case over: True
      have "digits_value (unat acc * 10 + unat (c - 48)) s > unat UINT64_MAX"
        using guard(1) over digits_value_ge [of "unat acc * 10 + unat (c - 48)" s] d by simp
      then show ?thesis using True over by (simp add: Let_def)
    qed
  qed simp
qed

section \<open>Addresses and host names\<close>

lemma split_dot_ne [simp]: "split_dot s \<noteq> []"
  by (induction s) auto

text \<open>The scan after \<open>k\<close> octets and the digits \<open>p\<close> of the next one.\<close>

definition scan_of :: "nat \<Rightarrow> u8 list \<Rightarrow> llps_yml_ipv4_scan_t" where
  "scan_of k p = \<lparr>octet_count = of_nat k, digit_count = of_nat (length p),
     scan_value = of_nat (digits_value 0 p), first_digit = (if p = [] then 0 else hd p)\<rparr>"

lemma octet_snoc:
  "ipv4_octet (p @ [c]) \<longleftrightarrow> (p = [] \<or> ipv4_octet p \<and> hd p \<noteq> 48) \<and> length p < 3 \<and>
     llps_yml_is_digit c \<and> digits_value 0 p * 10 + unat (c - 48) \<le> 255"
proof (cases "p = []")
  case True
  then show ?thesis by (auto simp: ipv4_octet_def)
next
  case False
  then have "hd (p @ [c]) = hd p" by simp
  then show ?thesis using False by (auto simp: ipv4_octet_def digits_value_append)
qed

lemma octet_prefix: "ipv4_octet (p @ q) \<Longrightarrow> p = [] \<or> ipv4_octet p"
  by (induction q arbitrary: p rule: rev_induct) (auto simp: octet_snoc simp flip: append_assoc)

lemma short_zero: "length p \<le> 3 \<Longrightarrow> (of_nat (length p) :: u32) = 0 \<longleftrightarrow> p = []"
  by (simp add: word_unat_eq_iff unat_of_nat take_bit_nat_eq_self)

lemma scan_digit:
  assumes "p = [] \<or> ipv4_octet p" "llps_yml_is_digit c"
  shows "llps_yml_ipv4_scan_digit (scan_of k p) c =
    (if ipv4_octet (p @ [c]) then Inr (scan_of k (p @ [c]))
     else Inl (if p \<noteq> [] \<and> hd p = 48 then LLPS_YML_E_SYNTAX else LLPS_YML_E_RANGE))"
proof -
  have d: "unat (ucast (c - 48) :: u32) = unat (c - 48)" "unat (c - 48) \<le> 9"
    using digit_value_le [OF assms(2)] by (simp_all add: unat_ucast_wide)
  have len: "length p \<le> 3" and val: "digits_value 0 p \<le> 255"
    using assms(1) by (auto simp: ipv4_octet_def)
  have dc: "(of_nat (length p) :: u32) = 0 \<longleftrightarrow> p = []"
    by (rule short_zero) (use len in simp)
  have dc3: "(of_nat (length p) + 1 :: u32) > 3 \<longleftrightarrow> \<not> length p < 3"
    using len by (cases "length p = 3")
      (auto simp: word_less_nat_alt unat_of_nat unat_word_ariths take_bit_nat_eq_self)
  let ?v = "of_nat (digits_value 0 p) * 10 + ucast (c - 48) :: u32"
  have "ucast (c - 48) = (of_nat (unat (c - 48)) :: u32)"
    using d by (simp add: word_unat_eq_iff unat_of_nat take_bit_nat_eq_self)
  then have v: "?v = of_nat (digits_value 0 (p @ [c]))"
    by (simp add: digits_value_append)
  have "digits_value 0 (p @ [c]) < 2 ^ 32" using val d by (simp add: digits_value_append)
  then have big: "?v > 255 \<longleftrightarrow> \<not> digits_value 0 p * 10 + unat (c - 48) \<le> 255"
    unfolding v
    by (simp add: word_less_nat_alt unat_of_nat take_bit_nat_eq_self not_le del: of_nat_add of_nat_mult)
      (simp add: digits_value_append)
  show ?thesis
  proof (cases "p = []")
    case True
    then show ?thesis
      using big v assms(2) octet_snoc [of "[]" c]
      by (simp add: llps_yml_ipv4_scan_digit_def scan_of_def Let_def octet_snoc not_le)
  next
    case False
    then show ?thesis
      using dc dc3 big v assms
      by (auto simp: llps_yml_ipv4_scan_digit_def scan_of_def Let_def octet_snoc not_le)
  qed
qed

lemma scan_separator:
  assumes "p = [] \<or> ipv4_octet p" "k < 4"
  shows "llps_yml_ipv4_scan_separator (scan_of k p) c =
    (if p = [] then Inl LLPS_YML_E_SYNTAX
     else if c = 0 then Inr ((scan_of k p)\<lparr>octet_count := of_nat (Suc k)\<rparr>, True)
     else if k = 3 then Inl LLPS_YML_E_SYNTAX
     else Inr (scan_of (Suc k) [], False))"
proof -
  have len: "length p \<le> 3" using assms(1) by (auto simp: ipv4_octet_def)
  have dc: "(of_nat (length p) :: u32) = 0 \<longleftrightarrow> p = []"
    by (rule short_zero) (use len in simp)
  have "k = 0 \<or> k = 1 \<or> k = 2 \<or> k = 3" using assms(2) by arith
  then show ?thesis
    using dc by (elim disjE) (auto simp: llps_yml_ipv4_scan_separator_def scan_of_def Let_def word_le_nat_alt)
qed

lemma ipv4_scan_loop_iff:
  assumes "list_all (\<lambda>c. llps_yml_is_digit c \<or> c = 46) s" "p = [] \<or> ipv4_octet p" "k < 4"
  shows "(\<exists>scan. ipv4_scan_loop (scan_of k p) (s @ [0]) = Inr scan \<and> octet_count scan = 4) \<longleftrightarrow>
    k + length (split_dot s) = 4 \<and> ipv4_octet (p @ hd (split_dot s)) \<and>
    list_all ipv4_octet (tl (split_dot s))"
  using assms
proof (induction s arbitrary: p k)
  case Nil
  have "k = 0 \<or> k = 1 \<or> k = 2 \<or> k = 3" using Nil by arith
  then show ?case
    using Nil by (auto simp: scan_separator llps_yml_is_digit_def ipv4_octet_def)
next
  case (Cons c s)
  have s: "list_all (\<lambda>c. llps_yml_is_digit c \<or> c = 46) s" using Cons.prems by simp
  show ?case
  proof (cases "llps_yml_is_digit c")
    case True
    then have c: "c \<noteq> 46" by (auto simp: llps_yml_is_digit_def)
    show ?thesis
    proof (cases "ipv4_octet (p @ [c])")
      case oct: True
      then show ?thesis
        using True c Cons.IH [OF s, of "p @ [c]" k] Cons.prems
        by (simp add: scan_digit)
    next
      case False
      then have "\<not> ipv4_octet (p @ c # hd (split_dot s))"
        using octet_prefix [of "p @ [c]" "hd (split_dot s)"] by auto
      then show ?thesis using True False c Cons.prems by (simp add: scan_digit)
    qed
  next
    case False
    then have c: "c = 46" using Cons.prems by simp
    have nd: "\<not> llps_yml_is_digit 46" by (simp add: llps_yml_is_digit_def)
    show ?thesis
    proof (cases "p = []")
      case True
      then show ?thesis using c nd Cons.prems by (simp add: scan_separator ipv4_octet_def)
    next
      case p: False
      show ?thesis
      proof (cases "k = 3")
        case True
        have "length (split_dot s) \<noteq> 0" by simp
        then show ?thesis using True c nd p Cons.prems by (simp add: scan_separator)
      next
        case False
        then show ?thesis
          using c nd p Cons.prems Cons.IH [OF s, of "[]" "Suc k"]
          by (cases "split_dot s") (auto simp: scan_separator)
      qed
    qed
  qed
qed

lemma ipv4_text_iff:
  assumes "list_all (\<lambda>c. llps_yml_is_digit c \<or> c = 46) s" "s \<noteq> []" "length s < 256"
  shows "llps_yml_parse_ipv4_text_only s dst 256 = Inr t \<longleftrightarrow>
    ipv4_address s \<and> t = s @ 0 # drop (length s + 1) dst"
proof -
  have init: "llps_yml_ipv4_scan_init = scan_of 0 []"
    by (simp add: llps_yml_ipv4_scan_init_def scan_of_def)
  have "ipv4_address s \<longleftrightarrow> 0 + length (split_dot s) = 4 \<and> ipv4_octet ([] @ hd (split_dot s)) \<and>
      list_all ipv4_octet (tl (split_dot s))"
    by (cases "split_dot s") (auto simp: ipv4_address_def)
  also have "\<dots> \<longleftrightarrow> (\<exists>scan. ipv4_scan_loop (scan_of 0 []) (s @ [0]) = Inr scan \<and> octet_count scan = 4)"
    using ipv4_scan_loop_iff [OF assms(1), of "[]" 0] by simp
  finally show ?thesis
    using assms
    by (auto simp: llps_yml_parse_ipv4_text_only_def llps_yml_bounded_strlen_def init
        llps_yml_copy_cstr_def split: sum.splits)
qed

text \<open>Names.\<close>

lemma label_snoc:
  "p \<noteq> [] \<Longrightarrow> dns_label (p @ q) \<Longrightarrow> length p \<le> 63 \<and> list_all llps_yml_is_dns_label_char p \<and> hd p \<noteq> 45"
  by (auto simp: dns_label_def)

lemma dns_host_loop_iff:
  assumes "length p \<le> 63" "list_all llps_yml_is_dns_label_char p" "p \<noteq> [] \<longrightarrow> hd p \<noteq> 45"
    and "previous = (if p = [] then previous else last p)" "p = [] \<longrightarrow> previous \<noteq> 45"
  shows "(\<exists>l pr. dns_host_loop (length p) previous s = Inr (l, pr) \<and> pr \<noteq> 45 \<and>
       (l = 0 \<longrightarrow> p @ s = [] \<or> last (p @ s) = 46)) \<longleftrightarrow>
    dns_labels ((p @ hd (split_dot s)) # tl (split_dot s))"
  using assms
proof (induction s arbitrary: p previous)
  case Nil
  then show ?case by (auto simp: dns_labels_def dns_label_def)
next
  case (Cons c s)
  show ?case
  proof (cases "c = 46")
    case dot: True
    have nl: "\<not> llps_yml_is_dns_label_char 46" by code_simp
    show ?thesis
    proof (cases "p = [] \<or> previous = 45")
      case True
      then have "\<not> dns_label p" using Cons.prems(4) by (auto simp: dns_label_def split: if_splits)
      then show ?thesis using True dot by (cases "split_dot s") (auto simp: dns_labels_def)
    next
      case False
      then have "dns_label p" using Cons.prems by (auto simp: dns_label_def split: if_splits)
      then have "dns_labels (p # split_dot s) \<longleftrightarrow> dns_labels (split_dot s)"
        by (simp add: dns_labels_def)
      moreover have "(\<exists>l pr. dns_host_loop (length ([] :: u8 list)) 46 s = Inr (l, pr) \<and> pr \<noteq> 45 \<and>
           (l = 0 \<longrightarrow> [] @ s = [] \<or> last ([] @ s) = 46)) \<longleftrightarrow>
          dns_labels (([] @ hd (split_dot s)) # tl (split_dot s))"
        by (rule Cons.IH) simp_all
      ultimately show ?thesis
        using False dot by (simp add: list.collapse) (cases s, auto)
    qed
  next
    case c: False
    show ?thesis
    proof (cases "llps_yml_is_dns_label_char c \<and> \<not> (p = [] \<and> c = 45) \<and> length p < 63")
      case True
      have "(\<exists>l pr. dns_host_loop (length (p @ [c])) c s = Inr (l, pr) \<and> pr \<noteq> 45 \<and>
           (l = 0 \<longrightarrow> (p @ [c]) @ s = [] \<or> last ((p @ [c]) @ s) = 46)) \<longleftrightarrow>
          dns_labels (((p @ [c]) @ hd (split_dot s)) # tl (split_dot s))"
        using True Cons.prems by (intro Cons.IH) (auto simp: hd_append)
      then show ?thesis using True c by (cases "p = []") simp_all
    next
      case False
      then have bad: "\<not> dns_label (p @ c # q)" for q
        using c by (cases p) (auto simp: dns_label_def)
      then have "\<not> dns_labels ((p @ c # hd (split_dot s)) # tl (split_dot s))"
        by (cases "tl (split_dot s)") (auto simp: dns_labels_def)
      then show ?thesis using False c by auto
    qed
  qed
qed

lemma dns_host_loop_error: "dns_host_loop l previous s \<noteq> Inl LLPS_YML_OK"
  by (induction s arbitrary: l previous) auto

lemma dns_host_iff:
  assumes "s \<noteq> []"
  shows "llps_yml_validate_dns_host_text s (length s) = LLPS_YML_OK \<longleftrightarrow> dns_name s"
proof -
  have "(\<exists>l pr. dns_host_loop 0 0 s = Inr (l, pr) \<and> pr \<noteq> 45 \<and> (l = 0 \<longrightarrow> s = [] \<or> last s = 46)) \<longleftrightarrow>
      dns_labels (split_dot s)"
    using dns_host_loop_iff [of "[]" 0 s] by simp
  moreover have "s ! (length s - 1) = last s" using assms by (simp add: last_conv_nth)
  ultimately show ?thesis
    using assms dns_host_loop_error [of 0 0 s]
    by (auto simp: llps_yml_validate_dns_host_text_def dns_name_def split: sum.splits prod.splits if_splits)
qed

section \<open>Strings and paths\<close>

lemma streq_iff: "llps_yml_streq a b n \<longleftrightarrow> a = b \<and> length a < n"
  by (induction a b n rule: llps_yml_streq.induct) auto

lemma copy_cstr_iff:
  "llps_yml_copy_cstr dst cap s = Inr t \<longleftrightarrow> length s < cap \<and> t = s @ 0 # drop (length s + 1) dst"
  by (auto simp: llps_yml_copy_cstr_def llps_yml_bounded_strlen_def)

lemma strlen_terminated:
  assumes "length s < cap" "0 \<notin> set s"
  shows "llps_config_bounded_strlen (s @ 0 # r) cap = Some (length s)"
proof -
  have "s ! j \<noteq> 0" if "j < length s" for j using assms(2) nth_mem [OF that] by auto
  then show ?thesis
    using assms(1) by (auto simp: llps_config_bounded_strlen_def find_Some_iff nth_append
        intro!: exI [of _ "length s"])
qed

lemma c_string_terminated: "0 \<notin> set s \<Longrightarrow> c_string (s @ 0 # r) = s"
  unfolding c_string_def by (subst takeWhile_append2) auto

lemma alnum_same: "llps_yml_is_alnum c \<longleftrightarrow> path_char_alnum c"
  by (auto simp: llps_yml_is_alnum_def llps_yml_is_alpha_def llps_yml_is_lower_alpha_def
      llps_yml_is_upper_alpha_def llps_yml_is_digit_def path_char_alnum_def)

lemma alnum_nonzero: "\<not> llps_yml_is_alnum 0"
  by code_simp

lemma path_chars_nonzero: "yml_path_chars_ok s (length s) \<Longrightarrow> 0 \<notin> set s"
  by (auto simp: yml_path_chars_ok_def list_all_upt_iff Let_def in_set_conv_nth alnum_nonzero)

lemma key_path_iff:
  "llps_yml_parse_key_path_text s dst LLPS_YML_MAX_TEXT = Inr t \<longleftrightarrow>
     s \<noteq> [] \<and> s ! 0 = 47 \<and> s ! (length s - 1) \<noteq> 47 \<and>
     \<not> llps_yml_path_has_parent_component s (length s) \<and> yml_path_chars_ok s (length s) \<and>
     length s < LLPS_YML_MAX_TEXT \<and> t = s @ 0 # drop (length s + 1) dst"
  by (auto simp: llps_yml_parse_key_path_text_def llps_yml_bounded_strlen_def copy_cstr_iff)

lemma path_iff:
  "llps_yml_parse_path_text s dst LLPS_YML_MAX_TEXT = Inr t \<longleftrightarrow>
     llps_yml_parse_key_path_text s dst LLPS_YML_MAX_TEXT = Inr t \<and>
     llps_yml_path_has_pxf_extension s (length s)"
  unfolding key_path_iff
  by (auto simp: llps_yml_parse_path_text_def llps_yml_bounded_strlen_def copy_cstr_iff)

text \<open>A path the parser stores passes the test of the runtime configuration.\<close>

lemma key_path_safe:
  assumes "llps_yml_parse_key_path_text s dst LLPS_YML_MAX_TEXT = Inr t"
  shows "llps_config_path_is_safe t LLPS_YML_MAX_TEXT allow_empty"
proof -
  have s: "s \<noteq> []" "s ! 0 = 47" "s ! (length s - 1) \<noteq> 47"
    "\<not> llps_yml_path_has_parent_component s (length s)" "yml_path_chars_ok s (length s)"
    "length s < LLPS_YML_MAX_TEXT" and t: "t = s @ 0 # drop (length s + 1) dst"
    using assms unfolding key_path_iff by blast+
  have nz: "0 \<notin> set s" by (rule path_chars_nonzero [OF s(5)])
  have at: "t ! i = s ! i" if "i < length s" for i using that by (simp add: t nth_append)
  have "llps_yml_path_has_parent_component s (length s) = llps_config_path_has_parent_component s (length s)"
    by (simp add: llps_yml_path_has_parent_component_def llps_config_path_has_parent_component_def)
  then have par: "\<not> llps_config_path_has_parent_component t (length s)"
    using s(4) parent_component_iff [of "length s" s] parent_component_iff [of "length s" t]
    by (simp add: t)
  have ends: "t ! 0 = 47" "t ! (length s - 1) \<noteq> 47" using s(1-3) at by simp_all
  have len: "llps_config_bounded_strlen t LLPS_YML_MAX_TEXT = Some (length s)"
    unfolding t by (rule strlen_terminated [OF s(6) nz])
  have "list_all (\<lambda>i. let c = t ! i
      in \<not> (\<not> path_char_alnum c \<and> c \<noteq> 47 \<and> c \<noteq> 46 \<and> c \<noteq> 95 \<and> c \<noteq> 45) \<and>
         \<not> (c = 47 \<and> i > 0 \<and> t ! (i - 1) = 47)) [0..<length s]"
    using s(5) at by (simp add: yml_path_chars_ok_def list_all_upt_iff Let_def alnum_same)
  then show ?thesis using s(1) par ends by (simp add: llps_config_path_is_safe_def len)
qed

lemma path_pxf:
  assumes "llps_yml_parse_path_text s dst LLPS_YML_MAX_TEXT = Inr t"
  shows "llps_config_path_has_pxf_extension t LLPS_YML_MAX_TEXT"
proof -
  have key: "llps_yml_parse_key_path_text s dst LLPS_YML_MAX_TEXT = Inr t"
    and pxf: "llps_yml_path_has_pxf_extension s (length s)"
    using assms unfolding path_iff by blast+
  have len: "length s < LLPS_YML_MAX_TEXT" and t: "t = s @ 0 # drop (length s + 1) dst"
    and nz: "0 \<notin> set s"
    using key path_chars_nonzero unfolding key_path_iff by blast+
  have five: "length s \<ge> 5" using pxf by (simp add: llps_yml_path_has_pxf_extension_def)
  have sl: "llps_config_bounded_strlen t LLPS_YML_MAX_TEXT = Some (length s)"
    unfolding t by (rule strlen_terminated [OF len nz])
  obtain a b where ab: "s = a @ b" "length b = 4"
    using five by (intro that [of "take (length s - 4) s" "drop (length s - 4) s"]) simp_all
  then obtain w x y z where b: "b = [w, x, y, z]" by (auto simp: numeral_eq_Suc length_Suc_conv)
  have "b = [46, 112, 120, 102]"
    using pxf ab b by (simp add: llps_yml_path_has_pxf_extension_def nth_append)
  then have "take 4 (drop (length s - 4) t) = [46, 112, 120, 102]" using ab by (simp add: t)
  then show ?thesis using five by (simp add: llps_config_path_has_pxf_extension_def sl)
qed

lemma path_length:
  "llps_yml_parse_key_path_text s dst LLPS_YML_MAX_TEXT = Inr t \<Longrightarrow> length dst = LLPS_YML_MAX_TEXT \<Longrightarrow>
   length t = LLPS_YML_MAX_TEXT"
  unfolding key_path_iff by auto

lemma host_iff:
  "llps_yml_parse_host_text s dst LLPS_YML_MAX_TEXT = Inr t \<longleftrightarrow>
     s \<noteq> [] \<and> length s < LLPS_YML_MAX_TEXT \<and>
     (if list_all (\<lambda>c. llps_yml_is_digit c \<or> c = 46) s then ipv4_address s else dns_name s) \<and>
     t = s @ 0 # drop (length s + 1) dst"
proof (cases "s \<noteq> [] \<and> length s < LLPS_YML_MAX_TEXT")
  case True
  then show ?thesis
    using ipv4_text_iff [of s dst t] dns_host_iff [of s]
    by (auto simp: llps_yml_parse_host_text_def llps_yml_bounded_strlen_def copy_cstr_iff Let_def)
next
  case False
  then show ?thesis by (auto simp: llps_yml_parse_host_text_def llps_yml_bounded_strlen_def)
qed

lemma split_dot_chars: "c \<in> set s \<Longrightarrow> c = 46 \<or> c \<in> \<Union> (set ` set (split_dot s))"
proof (induction s)
  case (Cons d s)
  then show ?case by (cases "split_dot s") auto
qed simp

lemma host_nonzero:
  assumes "llps_yml_parse_host_text s dst LLPS_YML_MAX_TEXT = Inr t"
  shows "0 \<notin> set s"
proof
  assume z: "0 \<in> set s"
  then have "\<not> list_all (\<lambda>c. llps_yml_is_digit c \<or> c = 46) s"
    by (auto simp: list_all_iff llps_yml_is_digit_def intro!: bexI [of _ 0])
  then have name: "dns_name s" using assms unfolding host_iff by simp
  obtain p where p: "p \<in> set (split_dot s)" "0 \<in> set p" using split_dot_chars [OF z] by auto
  have "\<not> llps_yml_is_dns_label_char 0" by code_simp
  then have bad: "\<not> dns_label p" "p \<noteq> []" using p(2) by (auto simp: dns_label_def list_all_iff)
  have "split_dot s = butlast (split_dot s) @ [last (split_dot s)]" by simp
  then have "p \<in> set (butlast (split_dot s)) \<or> p = last (split_dot s)"
    using p(1) by (metis Un_iff empty_iff empty_set set_append set_ConsD)
  then show False using name bad by (auto simp: dns_name_def dns_labels_def list_all_iff)
qed

section \<open>Properties\<close>

text \<open>
  The number parsers accept exactly the decimal numerals of at most 256 digits, leading
  zeros allowed, whose value is in the range, and return that value; for the 32 bit parser the
  range has to reach 9.
\<close>

theorem yml_numbers_exact:
  assumes range: "9 \<le> max_value"
  shows "(llps_yml_parse_u32 s min_value max_value = Inr v \<longleftrightarrow>
       s \<noteq> [] \<and> length s \<le> LLPS_YML_MAX_VALUE_LEN \<and> list_all llps_yml_is_digit s \<and>
       unat v = digits_value 0 s \<and> min_value \<le> v \<and> v \<le> max_value) \<and>
    (llps_yml_parse_u64 s lo hi = Inr w \<longleftrightarrow>
       s \<noteq> [] \<and> length s \<le> LLPS_YML_MAX_VALUE_LEN \<and> list_all llps_yml_is_digit s \<and>
       unat w = digits_value 0 s \<and> lo \<le> w \<and> w \<le> hi)"
proof
  have loop: "parse_u32_loop max_value 0 s = Inr u \<longleftrightarrow> list_all llps_yml_is_digit s \<and>
      digits_value 0 s \<le> unat max_value \<and> unat u = digits_value 0 s" for u
    using parse_u32_loop_iff [OF range, of 0 s u] by simp
  show "llps_yml_parse_u32 s min_value max_value = Inr v \<longleftrightarrow>
       s \<noteq> [] \<and> length s \<le> LLPS_YML_MAX_VALUE_LEN \<and> list_all llps_yml_is_digit s \<and>
       unat v = digits_value 0 s \<and> min_value \<le> v \<and> v \<le> max_value"
  proof (cases "parse_u32_loop max_value 0 s")
    case (Inl st)
    then show ?thesis
      using loop [of v] by (auto simp: llps_yml_parse_u32_def llps_yml_bounded_strlen_def word_le_nat_alt)
  next
    case (Inr u)
    then have "v = u \<longleftrightarrow> unat v = digits_value 0 s" using loop [of u] word_unat_eq_iff [of v u] by simp
    then show ?thesis
      using Inr loop [of u] by (auto simp: llps_yml_parse_u32_def llps_yml_bounded_strlen_def)
  qed
next
  have loop: "parse_u64_loop 0 s = Inr u \<longleftrightarrow> list_all llps_yml_is_digit s \<and>
      digits_value 0 s \<le> unat UINT64_MAX \<and> unat u = digits_value 0 s" for u
    using parse_u64_loop_iff [of 0 s u] by simp
  show "llps_yml_parse_u64 s lo hi = Inr w \<longleftrightarrow>
       s \<noteq> [] \<and> length s \<le> LLPS_YML_MAX_VALUE_LEN \<and> list_all llps_yml_is_digit s \<and>
       unat w = digits_value 0 s \<and> lo \<le> w \<and> w \<le> hi"
  proof (cases "parse_u64_loop 0 s")
    case (Inl st)
    moreover have "unat w \<le> unat UINT64_MAX" using unsigned_less [where 'a = nat, of w] by simp
    ultimately show ?thesis
      using loop [of w] by (auto simp: llps_yml_parse_u64_def llps_yml_bounded_strlen_def)
  next
    case (Inr u)
    then have "w = u \<longleftrightarrow> unat w = digits_value 0 s" using loop [of u] word_unat_eq_iff [of w u] by simp
    then show ?thesis
      using Inr loop [of u] by (auto simp: llps_yml_parse_u64_def llps_yml_bounded_strlen_def)
  qed
qed

theorem yml_numbers_exact_witness:
  "llps_yml_parse_u32 [48, 52, 50] 1 256 = Inr 42 \<and>
   llps_yml_parse_u64 [48, 52, 50] 0 100 \<noteq> Inr 1"
  using yml_numbers_exact [where max_value = 256 and s = "[48, 52, 50]" and min_value = 1 and v = 42 and lo = 0 and hi = 100 and w = 1]
  by (simp add: llps_yml_is_digit_def)

text \<open>
  A host is accepted exactly when it is a dotted quad of four octets from 0 to 255 without
  leading zeros, if it has digits and dots only, and otherwise a domain name of at most 254 bytes whose
  labels have 1 to 63 letters, digits and inner hyphens, with at most one dot behind the last; what is
  stored is the text and its terminator.
\<close>

theorem yml_host_exact:
  "llps_yml_parse_host_text s dst LLPS_YML_MAX_TEXT = Inr t \<longleftrightarrow>
     length s < LLPS_YML_MAX_TEXT \<and>
     (if list_all (\<lambda>c. llps_yml_is_digit c \<or> c = 46) s then ipv4_address s else dns_name s) \<and>
     t = s @ 0 # drop (length s + 1) dst"
proof -
  have "\<not> ipv4_address []" by (simp add: ipv4_address_def)
  then show ?thesis unfolding host_iff by (cases "s = []") auto
qed

end
