(* ===== verification/Yml_Parser.thy ===== *)
theory Yml_Parser
  imports Yml_Scalar
begin

text \<open>
  The configuration parser of \<^verbatim>\<open>src/config/yml_parser.c\<close>: the table of keys, the assignment of a value
  to its field, the validation of the whole record, the line parser and the reader of the file.

  The environment of a load is the answer of \<^verbatim>\<open>open\<close>, the answers of the calls of \<^verbatim>\<open>read\<close> in their order, and
  the answer of \<^verbatim>\<open>close\<close>. A function that reports with a flag whether it handled the key returns
  \<open>None\<close> when it did not.
\<close>

section \<open>Definitions\<close>

subsection \<open>Keys\<close>

datatype llps_yml_key_t =
  LLPS_YML_KEY_MAX_CLIENTS
| LLPS_YML_KEY_BUFFER_SIZE
| LLPS_YML_KEY_LISTEN_HOST
| LLPS_YML_KEY_LISTEN_PORT
| LLPS_YML_KEY_TARGET_IP
| LLPS_YML_KEY_TARGET_PORT
| LLPS_YML_KEY_LISTEN_BACKLOG
| LLPS_YML_KEY_ACCEPT_BATCH_MAX
| LLPS_YML_KEY_SESSION_IDLE_TIMEOUT_MS
| LLPS_YML_KEY_MAX_SESSIONS_PER_CLIENT_IP
| LLPS_YML_KEY_MAX_NEW_SESSIONS_PER_CLIENT_IP_PER_WINDOW
| LLPS_YML_KEY_CLIENT_IP_RATE_WINDOW_MS
| LLPS_YML_KEY_CLIENT_PREFACE_TIMEOUT_MS
| LLPS_YML_KEY_PROTOCOL_HANDSHAKE_GATE_ENABLED
| LLPS_YML_KEY_PAYLOAD_ECC_ENABLED
| LLPS_YML_KEY_IP_AUDIT_ENABLED
| LLPS_YML_KEY_IP_AUDIT_PATH
| LLPS_YML_KEY_AUDIT_MAC_ENABLED
| LLPS_YML_KEY_AUDIT_MAC_KEY_PATH
| LLPS_YML_KEY_REQUIRE_READINESS
| LLPS_YML_KEY_PLATFORM_SAFETY_FLAGS
| LLPS_YML_KEY_PLATFORM_SAFETY_EVIDENCE_ID
| LLPS_YML_KEY_PLATFORM_ATTESTATION_FINGERPRINT
| LLPS_YML_KEY_PLATFORM_OBSERVATION_DIGEST
| LLPS_YML_KEY_PLATFORM_EVIDENCE_MODE
| LLPS_YML_KEY_PHYS_MEM_DOMAIN0
| LLPS_YML_KEY_PHYS_MEM_DOMAIN1
| LLPS_YML_KEY_PHYS_MEM_DOMAIN2
| LLPS_YML_KEY_HW_TMR_DOMAIN0
| LLPS_YML_KEY_HW_TMR_DOMAIN1
| LLPS_YML_KEY_HW_TMR_DOMAIN2
| LLPS_YML_KEY_HW_TMR_VOTER_DOMAIN
| LLPS_YML_KEY_SOFTWARE_ECC_ENABLED
| LLPS_YML_KEY_SOFTWARE_ECC_CONTROLLER_COUNT
| LLPS_YML_KEY_SOFTWARE_ECC_DIMM_COUNT
| LLPS_YML_KEY_SOFTWARE_ECC_SCRUB_RATE
| LLPS_YML_KEY_SOFTWARE_ECC_CONTROLLER_CORRECTED_ERROR_COUNT
| LLPS_YML_KEY_SOFTWARE_ECC_CONTROLLER_UNCORRECTED_ERROR_COUNT
| LLPS_YML_KEY_SOFTWARE_ECC_DIMM_CORRECTED_ERROR_COUNT
| LLPS_YML_KEY_SOFTWARE_ECC_DIMM_UNCORRECTED_ERROR_COUNT
| LLPS_YML_KEY_SOFTWARE_NUMA_ENABLED
| LLPS_YML_KEY_SOFTWARE_NUMA_MEMTOTAL_KIB
| LLPS_YML_KEY_SOFTWARE_NUMA_LOCAL_DISTANCE
| LLPS_YML_KEY_SOFTWARE_NUMA_REMOTE_DISTANCE
| LLPS_YML_KEY_SOFTWARE_FAULT_INJECTION_MODE
| LLPS_YML_KEY_EVIDENCE_MAC_ENABLED
| LLPS_YML_KEY_EVIDENCE_MAC_KEY_PATH

text \<open>The keys in the order of the enumeration.\<close>

definition llps_yml_keys :: "llps_yml_key_t list" where
  "llps_yml_keys =
     [LLPS_YML_KEY_MAX_CLIENTS, LLPS_YML_KEY_BUFFER_SIZE, LLPS_YML_KEY_LISTEN_HOST,
      LLPS_YML_KEY_LISTEN_PORT, LLPS_YML_KEY_TARGET_IP, LLPS_YML_KEY_TARGET_PORT,
      LLPS_YML_KEY_LISTEN_BACKLOG, LLPS_YML_KEY_ACCEPT_BATCH_MAX,
      LLPS_YML_KEY_SESSION_IDLE_TIMEOUT_MS, LLPS_YML_KEY_MAX_SESSIONS_PER_CLIENT_IP,
      LLPS_YML_KEY_MAX_NEW_SESSIONS_PER_CLIENT_IP_PER_WINDOW,
      LLPS_YML_KEY_CLIENT_IP_RATE_WINDOW_MS, LLPS_YML_KEY_CLIENT_PREFACE_TIMEOUT_MS,
      LLPS_YML_KEY_PROTOCOL_HANDSHAKE_GATE_ENABLED, LLPS_YML_KEY_PAYLOAD_ECC_ENABLED,
      LLPS_YML_KEY_IP_AUDIT_ENABLED, LLPS_YML_KEY_IP_AUDIT_PATH, LLPS_YML_KEY_AUDIT_MAC_ENABLED,
      LLPS_YML_KEY_AUDIT_MAC_KEY_PATH, LLPS_YML_KEY_REQUIRE_READINESS,
      LLPS_YML_KEY_PLATFORM_SAFETY_FLAGS, LLPS_YML_KEY_PLATFORM_SAFETY_EVIDENCE_ID,
      LLPS_YML_KEY_PLATFORM_ATTESTATION_FINGERPRINT, LLPS_YML_KEY_PLATFORM_OBSERVATION_DIGEST,
      LLPS_YML_KEY_PLATFORM_EVIDENCE_MODE, LLPS_YML_KEY_PHYS_MEM_DOMAIN0,
      LLPS_YML_KEY_PHYS_MEM_DOMAIN1, LLPS_YML_KEY_PHYS_MEM_DOMAIN2, LLPS_YML_KEY_HW_TMR_DOMAIN0,
      LLPS_YML_KEY_HW_TMR_DOMAIN1, LLPS_YML_KEY_HW_TMR_DOMAIN2, LLPS_YML_KEY_HW_TMR_VOTER_DOMAIN,
      LLPS_YML_KEY_SOFTWARE_ECC_ENABLED, LLPS_YML_KEY_SOFTWARE_ECC_CONTROLLER_COUNT,
      LLPS_YML_KEY_SOFTWARE_ECC_DIMM_COUNT, LLPS_YML_KEY_SOFTWARE_ECC_SCRUB_RATE,
      LLPS_YML_KEY_SOFTWARE_ECC_CONTROLLER_CORRECTED_ERROR_COUNT,
      LLPS_YML_KEY_SOFTWARE_ECC_CONTROLLER_UNCORRECTED_ERROR_COUNT,
      LLPS_YML_KEY_SOFTWARE_ECC_DIMM_CORRECTED_ERROR_COUNT,
      LLPS_YML_KEY_SOFTWARE_ECC_DIMM_UNCORRECTED_ERROR_COUNT, LLPS_YML_KEY_SOFTWARE_NUMA_ENABLED,
      LLPS_YML_KEY_SOFTWARE_NUMA_MEMTOTAL_KIB, LLPS_YML_KEY_SOFTWARE_NUMA_LOCAL_DISTANCE,
      LLPS_YML_KEY_SOFTWARE_NUMA_REMOTE_DISTANCE, LLPS_YML_KEY_SOFTWARE_FAULT_INJECTION_MODE,
      LLPS_YML_KEY_EVIDENCE_MAC_ENABLED, LLPS_YML_KEY_EVIDENCE_MAC_KEY_PATH]"

definition llps_yml_key_index :: "llps_yml_key_t \<Rightarrow> nat" where
  "llps_yml_key_index key = length (takeWhile (\<lambda>k. k \<noteq> key) llps_yml_keys)"

definition yml_key_bit :: "llps_yml_key_t \<Rightarrow> u64" where
  "yml_key_bit key = push_bit (llps_yml_key_index key) 1"

text \<open>The bits of the first eight keys.\<close>

definition LLPS_YML_REQUIRED_MASK :: u64 where
  "LLPS_YML_REQUIRED_MASK = push_bit 8 1 - 1"

definition g_llps_yml_key_names :: "(string \<times> llps_yml_key_t) list" where
  "g_llps_yml_key_names =
     [(''max_clients'', LLPS_YML_KEY_MAX_CLIENTS),
      (''buffer_size'', LLPS_YML_KEY_BUFFER_SIZE),
      (''listen_host'', LLPS_YML_KEY_LISTEN_HOST),
      (''listen_port'', LLPS_YML_KEY_LISTEN_PORT),
      (''target_ip'', LLPS_YML_KEY_TARGET_IP),
      (''target_host'', LLPS_YML_KEY_TARGET_IP),
      (''target_port'', LLPS_YML_KEY_TARGET_PORT),
      (''listen_backlog'', LLPS_YML_KEY_LISTEN_BACKLOG),
      (''accept_batch_max'', LLPS_YML_KEY_ACCEPT_BATCH_MAX),
      (''session_idle_timeout_ms'', LLPS_YML_KEY_SESSION_IDLE_TIMEOUT_MS),
      (''max_sessions_per_client_ip'', LLPS_YML_KEY_MAX_SESSIONS_PER_CLIENT_IP),
      (''max_new_sessions_per_client_ip_per_window'', LLPS_YML_KEY_MAX_NEW_SESSIONS_PER_CLIENT_IP_PER_WINDOW),
      (''client_ip_rate_window_ms'', LLPS_YML_KEY_CLIENT_IP_RATE_WINDOW_MS),
      (''client_preface_timeout_ms'', LLPS_YML_KEY_CLIENT_PREFACE_TIMEOUT_MS),
      (''protocol_handshake_gate_enabled'', LLPS_YML_KEY_PROTOCOL_HANDSHAKE_GATE_ENABLED),
      (''payload_ecc_enabled'', LLPS_YML_KEY_PAYLOAD_ECC_ENABLED),
      (''ip_audit_enabled'', LLPS_YML_KEY_IP_AUDIT_ENABLED),
      (''ip_audit_path'', LLPS_YML_KEY_IP_AUDIT_PATH),
      (''audit_mac_enabled'', LLPS_YML_KEY_AUDIT_MAC_ENABLED),
      (''audit_mac_key_path'', LLPS_YML_KEY_AUDIT_MAC_KEY_PATH),
      (''require_readiness'', LLPS_YML_KEY_REQUIRE_READINESS),
      (''platform_safety_flags'', LLPS_YML_KEY_PLATFORM_SAFETY_FLAGS),
      (''platform_safety_evidence_id'', LLPS_YML_KEY_PLATFORM_SAFETY_EVIDENCE_ID),
      (''platform_attestation_fingerprint'', LLPS_YML_KEY_PLATFORM_ATTESTATION_FINGERPRINT),
      (''platform_observation_digest'', LLPS_YML_KEY_PLATFORM_OBSERVATION_DIGEST),
      (''platform_evidence_mode'', LLPS_YML_KEY_PLATFORM_EVIDENCE_MODE),
      (''phys_mem_domain0'', LLPS_YML_KEY_PHYS_MEM_DOMAIN0),
      (''phys_mem_domain1'', LLPS_YML_KEY_PHYS_MEM_DOMAIN1),
      (''phys_mem_domain2'', LLPS_YML_KEY_PHYS_MEM_DOMAIN2),
      (''hw_tmr_domain0'', LLPS_YML_KEY_HW_TMR_DOMAIN0),
      (''hw_tmr_domain1'', LLPS_YML_KEY_HW_TMR_DOMAIN1),
      (''hw_tmr_domain2'', LLPS_YML_KEY_HW_TMR_DOMAIN2),
      (''hw_tmr_voter_domain'', LLPS_YML_KEY_HW_TMR_VOTER_DOMAIN),
      (''software_ecc_enabled'', LLPS_YML_KEY_SOFTWARE_ECC_ENABLED),
      (''software_ecc_controller_count'', LLPS_YML_KEY_SOFTWARE_ECC_CONTROLLER_COUNT),
      (''software_ecc_dimm_count'', LLPS_YML_KEY_SOFTWARE_ECC_DIMM_COUNT),
      (''software_ecc_scrub_rate'', LLPS_YML_KEY_SOFTWARE_ECC_SCRUB_RATE),
      (''software_ecc_controller_corrected_error_count'', LLPS_YML_KEY_SOFTWARE_ECC_CONTROLLER_CORRECTED_ERROR_COUNT),
      (''software_ecc_controller_uncorrected_error_count'', LLPS_YML_KEY_SOFTWARE_ECC_CONTROLLER_UNCORRECTED_ERROR_COUNT),
      (''software_ecc_dimm_corrected_error_count'', LLPS_YML_KEY_SOFTWARE_ECC_DIMM_CORRECTED_ERROR_COUNT),
      (''software_ecc_dimm_uncorrected_error_count'', LLPS_YML_KEY_SOFTWARE_ECC_DIMM_UNCORRECTED_ERROR_COUNT),
      (''software_numa_enabled'', LLPS_YML_KEY_SOFTWARE_NUMA_ENABLED),
      (''software_numa_memtotal_kib'', LLPS_YML_KEY_SOFTWARE_NUMA_MEMTOTAL_KIB),
      (''software_numa_local_distance'', LLPS_YML_KEY_SOFTWARE_NUMA_LOCAL_DISTANCE),
      (''software_numa_remote_distance'', LLPS_YML_KEY_SOFTWARE_NUMA_REMOTE_DISTANCE),
      (''software_fault_injection_mode'', LLPS_YML_KEY_SOFTWARE_FAULT_INJECTION_MODE),
      (''evidence_mac_enabled'', LLPS_YML_KEY_EVIDENCE_MAC_ENABLED),
      (''evidence_mac_key_path'', LLPS_YML_KEY_EVIDENCE_MAC_KEY_PATH)]"

definition llps_yml_validate_key_syntax :: "u8 list \<Rightarrow> llps_yml_status_t" where
  "llps_yml_validate_key_syntax key =
     (case llps_yml_bounded_strlen key (LLPS_YML_MAX_KEY_LEN + 1) of
        None \<Rightarrow> LLPS_YML_E_STRING
      | Some len \<Rightarrow>
          if len = 0 then LLPS_YML_E_SYNTAX
          else if \<not> list_all llps_yml_is_key_char key then LLPS_YML_E_SYNTAX
          else LLPS_YML_OK)"

definition llps_yml_key_from_string :: "u8 list \<Rightarrow> llps_yml_key_t yml_result" where
  "llps_yml_key_from_string key =
     (case List.find (\<lambda>entry. llps_yml_streq key (ascii (fst entry)) LLPS_YML_MAX_KEY_LEN)
          g_llps_yml_key_names of
        None \<Rightarrow> Inl LLPS_YML_E_KEY
      | Some entry \<Rightarrow> Inr (snd entry))"

subsection \<open>Defaults\<close>

text \<open>Every field is assigned, so the record does not depend on the memory it is written to.\<close>

definition llps_yml_zero_config :: llps_yml_config_t where
  "llps_yml_zero_config = \<lparr>
     max_clients = 0,
     buffer_size = 0,
     payload_ecc_enabled = 0,
     listen_host = replicate LLPS_YML_MAX_TEXT 0,
     listen_port = 0,
     target_ip = replicate LLPS_YML_MAX_TEXT 0,
     target_port = 0,
     listen_backlog = 0,
     accept_batch_max = 0,
     session_idle_timeout_ms = 30000,
     max_sessions_per_client_ip = 0,
     max_new_sessions_per_client_ip_per_window = 0,
     client_ip_rate_window_ms = 1000,
     client_preface_timeout_ms = 0,
     protocol_handshake_gate_enabled = 0,
     ip_audit_enabled = 0,
     ip_audit_path = replicate LLPS_YML_MAX_TEXT 0,
     audit_mac_enabled = 0,
     audit_mac_key_path = replicate LLPS_YML_MAX_TEXT 0,
     require_readiness = 0,
     platform_safety_flags = 0,
     platform_safety_evidence_id = 0,
     platform_attestation_fingerprint = 0,
     platform_observation_digest = 0,
     platform_evidence_mode = 0,
     platform_physical_memory_domains = replicate LLPS_SESSION_TMR_BANK_COUNT 0,
     platform_hardware_tmr_domains = replicate LLPS_SESSION_TMR_BANK_COUNT 0,
     platform_hardware_tmr_voter_domain = 0,
     software_ecc_enabled = 0,
     software_ecc_controller_count = 0,
     software_ecc_dimm_count = 0,
     software_ecc_scrub_rate = 0,
     software_ecc_controller_corrected_error_count = 0,
     software_ecc_controller_uncorrected_error_count = 0,
     software_ecc_dimm_corrected_error_count = 0,
     software_ecc_dimm_uncorrected_error_count = 0,
     software_numa_enabled = 0,
     software_numa_memtotal_kib = 0,
     software_numa_local_distance = 0,
     software_numa_remote_distance = 0,
     software_fault_injection_mode = 3,
     evidence_mac_enabled = 0,
     evidence_mac_key_path = replicate LLPS_YML_MAX_TEXT 0\<rparr>"

subsection \<open>Assignment of a value\<close>

text \<open>The last argument of the field parsers is the assignment to \<^verbatim>\<open>*dst\<close>.\<close>

definition yml_assign :: "'a yml_result \<Rightarrow> ('a \<Rightarrow> llps_yml_config_t) \<Rightarrow> llps_yml_config_t yml_result" where
  "yml_assign r dst = (case r of Inl st \<Rightarrow> Inl st | Inr parsed \<Rightarrow> Inr (dst parsed))"

definition llps_yml_apply_u32_field ::
    "u8 list \<Rightarrow> u32 \<Rightarrow> u32 \<Rightarrow> (u32 \<Rightarrow> llps_yml_config_t) \<Rightarrow> llps_yml_config_t yml_result" where
  "llps_yml_apply_u32_field s min_value max_value dst =
     yml_assign (llps_yml_parse_u32 s min_value max_value) dst"

definition llps_yml_apply_u64_field ::
    "u8 list \<Rightarrow> u64 \<Rightarrow> u64 \<Rightarrow> (u64 \<Rightarrow> llps_yml_config_t) \<Rightarrow> llps_yml_config_t yml_result" where
  "llps_yml_apply_u64_field s min_value max_value dst =
     yml_assign (llps_yml_parse_u64 s min_value max_value) dst"

definition llps_yml_apply_capacity_key ::
    "llps_yml_key_t \<Rightarrow> u8 list \<Rightarrow> llps_yml_config_t \<Rightarrow> llps_yml_config_t yml_result option" where
  "llps_yml_apply_capacity_key key s cfg =
     (case key of
        LLPS_YML_KEY_MAX_CLIENTS \<Rightarrow>
          Some (llps_yml_apply_u32_field s 1 LLPS_MAX_CLIENTS (\<lambda>v. cfg\<lparr>max_clients := v\<rparr>))
      | LLPS_YML_KEY_BUFFER_SIZE \<Rightarrow>
          Some (llps_yml_apply_u32_field s 1 LLPS_BUFFER_SIZE (\<lambda>v. cfg\<lparr>buffer_size := v\<rparr>))
      | LLPS_YML_KEY_LISTEN_BACKLOG \<Rightarrow>
          Some (llps_yml_apply_u32_field s 1 256 (\<lambda>v. cfg\<lparr>listen_backlog := v\<rparr>))
      | LLPS_YML_KEY_ACCEPT_BATCH_MAX \<Rightarrow>
          Some (llps_yml_apply_u32_field s 1 32 (\<lambda>v. cfg\<lparr>accept_batch_max := v\<rparr>))
      | _ \<Rightarrow> None)"

definition llps_yml_apply_endpoint_key ::
    "llps_yml_key_t \<Rightarrow> u8 list \<Rightarrow> llps_yml_config_t \<Rightarrow> llps_yml_config_t yml_result option" where
  "llps_yml_apply_endpoint_key key s cfg =
     (case key of
        LLPS_YML_KEY_LISTEN_HOST \<Rightarrow>
          Some (yml_assign (llps_yml_parse_host_text s (listen_host cfg) LLPS_YML_MAX_TEXT) (\<lambda>t. cfg\<lparr>listen_host := t\<rparr>))
      | LLPS_YML_KEY_LISTEN_PORT \<Rightarrow>
          Some (yml_assign (llps_yml_parse_port s) (\<lambda>v. cfg\<lparr>listen_port := v\<rparr>))
      | LLPS_YML_KEY_TARGET_IP \<Rightarrow>
          Some (yml_assign (llps_yml_parse_host_text s (target_ip cfg) LLPS_YML_MAX_TEXT) (\<lambda>t. cfg\<lparr>target_ip := t\<rparr>))
      | LLPS_YML_KEY_TARGET_PORT \<Rightarrow>
          Some (yml_assign (llps_yml_parse_port s) (\<lambda>v. cfg\<lparr>target_port := v\<rparr>))
      | _ \<Rightarrow> None)"

definition llps_yml_apply_preface_timeout ::
    "u8 list \<Rightarrow> llps_yml_config_t \<Rightarrow> llps_yml_config_t yml_result" where
  "llps_yml_apply_preface_timeout s cfg =
     (case llps_yml_parse_u32 s 0 600000 of
        Inl st \<Rightarrow> Inl st
      | Inr parsed \<Rightarrow>
          if parsed \<noteq> 0 \<and> parsed < 100 then Inl LLPS_YML_E_RANGE
          else Inr (cfg\<lparr>client_preface_timeout_ms := parsed\<rparr>))"

definition llps_yml_apply_session_key ::
    "llps_yml_key_t \<Rightarrow> u8 list \<Rightarrow> llps_yml_config_t \<Rightarrow> llps_yml_config_t yml_result option" where
  "llps_yml_apply_session_key key s cfg =
     (case key of
        LLPS_YML_KEY_SESSION_IDLE_TIMEOUT_MS \<Rightarrow>
          Some (llps_yml_apply_u32_field s 2000 600000 (\<lambda>v. cfg\<lparr>session_idle_timeout_ms := v\<rparr>))
      | LLPS_YML_KEY_MAX_SESSIONS_PER_CLIENT_IP \<Rightarrow>
          Some (llps_yml_apply_u32_field s 0 LLPS_MAX_CLIENTS (\<lambda>v. cfg\<lparr>max_sessions_per_client_ip := v\<rparr>))
      | LLPS_YML_KEY_MAX_NEW_SESSIONS_PER_CLIENT_IP_PER_WINDOW \<Rightarrow>
          Some (llps_yml_apply_u32_field s 0 100000 (\<lambda>v. cfg\<lparr>max_new_sessions_per_client_ip_per_window := v\<rparr>))
      | LLPS_YML_KEY_CLIENT_IP_RATE_WINDOW_MS \<Rightarrow>
          Some (llps_yml_apply_u32_field s 100 600000 (\<lambda>v. cfg\<lparr>client_ip_rate_window_ms := v\<rparr>))
      | LLPS_YML_KEY_CLIENT_PREFACE_TIMEOUT_MS \<Rightarrow>
          Some (llps_yml_apply_preface_timeout s cfg)
      | LLPS_YML_KEY_PROTOCOL_HANDSHAKE_GATE_ENABLED \<Rightarrow>
          Some (llps_yml_apply_u32_field s 0 1 (\<lambda>v. cfg\<lparr>protocol_handshake_gate_enabled := v\<rparr>))
      | LLPS_YML_KEY_PAYLOAD_ECC_ENABLED \<Rightarrow>
          Some (llps_yml_apply_u32_field s 0 1 (\<lambda>v. cfg\<lparr>payload_ecc_enabled := v\<rparr>))
      | _ \<Rightarrow> None)"

definition llps_yml_apply_audit_key ::
    "llps_yml_key_t \<Rightarrow> u8 list \<Rightarrow> llps_yml_config_t \<Rightarrow> llps_yml_config_t yml_result option" where
  "llps_yml_apply_audit_key key s cfg =
     (case key of
        LLPS_YML_KEY_IP_AUDIT_ENABLED \<Rightarrow>
          Some (llps_yml_apply_u32_field s 0 1 (\<lambda>v. cfg\<lparr>ip_audit_enabled := v\<rparr>))
      | LLPS_YML_KEY_IP_AUDIT_PATH \<Rightarrow>
          Some (yml_assign (llps_yml_parse_path_text s (ip_audit_path cfg) LLPS_YML_MAX_TEXT) (\<lambda>t. cfg\<lparr>ip_audit_path := t\<rparr>))
      | LLPS_YML_KEY_AUDIT_MAC_ENABLED \<Rightarrow>
          Some (llps_yml_apply_u32_field s 0 1 (\<lambda>v. cfg\<lparr>audit_mac_enabled := v\<rparr>))
      | LLPS_YML_KEY_AUDIT_MAC_KEY_PATH \<Rightarrow>
          Some (yml_assign (llps_yml_parse_key_path_text s (audit_mac_key_path cfg) LLPS_YML_MAX_TEXT) (\<lambda>t. cfg\<lparr>audit_mac_key_path := t\<rparr>))
      | LLPS_YML_KEY_REQUIRE_READINESS \<Rightarrow>
          Some (llps_yml_apply_u32_field s 0 1 (\<lambda>v. cfg\<lparr>require_readiness := v\<rparr>))
      | _ \<Rightarrow> None)"

definition llps_yml_apply_platform_key ::
    "llps_yml_key_t \<Rightarrow> u8 list \<Rightarrow> llps_yml_config_t \<Rightarrow> llps_yml_config_t yml_result option" where
  "llps_yml_apply_platform_key key s cfg =
     (case key of
        LLPS_YML_KEY_PLATFORM_SAFETY_FLAGS \<Rightarrow>
          Some (llps_yml_apply_u32_field s 0 LLPS_PLATFORM_EVIDENCE_REQUIRED (\<lambda>v. cfg\<lparr>platform_safety_flags := v\<rparr>))
      | LLPS_YML_KEY_PLATFORM_SAFETY_EVIDENCE_ID \<Rightarrow>
          Some (llps_yml_apply_u64_field s 0 UINT64_MAX (\<lambda>v. cfg\<lparr>platform_safety_evidence_id := v\<rparr>))
      | LLPS_YML_KEY_PLATFORM_ATTESTATION_FINGERPRINT \<Rightarrow>
          Some (llps_yml_apply_u32_field s 0 UINT32_MAX (\<lambda>v. cfg\<lparr>platform_attestation_fingerprint := v\<rparr>))
      | LLPS_YML_KEY_PLATFORM_OBSERVATION_DIGEST \<Rightarrow>
          Some (llps_yml_apply_u32_field s 0 UINT32_MAX (\<lambda>v. cfg\<lparr>platform_observation_digest := v\<rparr>))
      | LLPS_YML_KEY_PLATFORM_EVIDENCE_MODE \<Rightarrow>
          Some (yml_assign (llps_yml_parse_platform_evidence_mode s) (\<lambda>v. cfg\<lparr>platform_evidence_mode := v\<rparr>))
      | _ \<Rightarrow> None)"

definition llps_yml_domain_key_is_supported :: "llps_yml_key_t \<Rightarrow> bool" where
  "llps_yml_domain_key_is_supported key \<longleftrightarrow>
     key = LLPS_YML_KEY_PHYS_MEM_DOMAIN0 \<or>
     key = LLPS_YML_KEY_PHYS_MEM_DOMAIN1 \<or>
     key = LLPS_YML_KEY_PHYS_MEM_DOMAIN2 \<or>
     key = LLPS_YML_KEY_HW_TMR_DOMAIN0 \<or>
     key = LLPS_YML_KEY_HW_TMR_DOMAIN1 \<or>
     key = LLPS_YML_KEY_HW_TMR_DOMAIN2 \<or>
     key = LLPS_YML_KEY_HW_TMR_VOTER_DOMAIN"

definition llps_yml_apply_physical_domain_value ::
    "llps_yml_key_t \<Rightarrow> u32 \<Rightarrow> llps_yml_config_t \<Rightarrow> llps_yml_config_t option" where
  "llps_yml_apply_physical_domain_value key v cfg =
     (let domains = platform_physical_memory_domains cfg
      in case key of
        LLPS_YML_KEY_PHYS_MEM_DOMAIN0 \<Rightarrow> Some (cfg\<lparr>platform_physical_memory_domains := domains[0 := v]\<rparr>)
      | LLPS_YML_KEY_PHYS_MEM_DOMAIN1 \<Rightarrow> Some (cfg\<lparr>platform_physical_memory_domains := domains[1 := v]\<rparr>)
      | LLPS_YML_KEY_PHYS_MEM_DOMAIN2 \<Rightarrow> Some (cfg\<lparr>platform_physical_memory_domains := domains[2 := v]\<rparr>)
      | _ \<Rightarrow> None)"

definition llps_yml_apply_tmr_domain_value ::
    "llps_yml_key_t \<Rightarrow> u32 \<Rightarrow> llps_yml_config_t \<Rightarrow> llps_yml_config_t option" where
  "llps_yml_apply_tmr_domain_value key v cfg =
     (let domains = platform_hardware_tmr_domains cfg
      in case key of
        LLPS_YML_KEY_HW_TMR_DOMAIN0 \<Rightarrow> Some (cfg\<lparr>platform_hardware_tmr_domains := domains[0 := v]\<rparr>)
      | LLPS_YML_KEY_HW_TMR_DOMAIN1 \<Rightarrow> Some (cfg\<lparr>platform_hardware_tmr_domains := domains[1 := v]\<rparr>)
      | LLPS_YML_KEY_HW_TMR_DOMAIN2 \<Rightarrow> Some (cfg\<lparr>platform_hardware_tmr_domains := domains[2 := v]\<rparr>)
      | LLPS_YML_KEY_HW_TMR_VOTER_DOMAIN \<Rightarrow> Some (cfg\<lparr>platform_hardware_tmr_voter_domain := v\<rparr>)
      | _ \<Rightarrow> None)"

definition llps_yml_apply_domain_key ::
    "llps_yml_key_t \<Rightarrow> u8 list \<Rightarrow> llps_yml_config_t \<Rightarrow> llps_yml_config_t yml_result option" where
  "llps_yml_apply_domain_key key s cfg =
     (if \<not> llps_yml_domain_key_is_supported key then None
      else Some (case llps_yml_parse_u32 s 0 UINT32_MAX of
          Inl st \<Rightarrow> Inl st
        | Inr parsed \<Rightarrow>
            (case llps_yml_apply_physical_domain_value key parsed cfg of
               Some cfg' \<Rightarrow> Inr cfg'
             | None \<Rightarrow>
                 (case llps_yml_apply_tmr_domain_value key parsed cfg of
                    Some cfg' \<Rightarrow> Inr cfg'
                  | None \<Rightarrow> Inr cfg))))"

definition llps_yml_apply_software_ecc_u32_key ::
    "llps_yml_key_t \<Rightarrow> u8 list \<Rightarrow> llps_yml_config_t \<Rightarrow> llps_yml_config_t yml_result option" where
  "llps_yml_apply_software_ecc_u32_key key s cfg =
     (case key of
        LLPS_YML_KEY_SOFTWARE_ECC_ENABLED \<Rightarrow>
          Some (llps_yml_apply_u32_field s 0 1 (\<lambda>v. cfg\<lparr>software_ecc_enabled := v\<rparr>))
      | LLPS_YML_KEY_SOFTWARE_ECC_CONTROLLER_COUNT \<Rightarrow>
          Some (llps_yml_apply_u32_field s 0 256 (\<lambda>v. cfg\<lparr>software_ecc_controller_count := v\<rparr>))
      | LLPS_YML_KEY_SOFTWARE_ECC_DIMM_COUNT \<Rightarrow>
          Some (llps_yml_apply_u32_field s 0 1024 (\<lambda>v. cfg\<lparr>software_ecc_dimm_count := v\<rparr>))
      | _ \<Rightarrow> None)"

definition llps_yml_apply_software_ecc_u64_key ::
    "llps_yml_key_t \<Rightarrow> u8 list \<Rightarrow> llps_yml_config_t \<Rightarrow> llps_yml_config_t yml_result option" where
  "llps_yml_apply_software_ecc_u64_key key s cfg =
     (case key of
        LLPS_YML_KEY_SOFTWARE_ECC_SCRUB_RATE \<Rightarrow>
          Some (llps_yml_apply_u64_field s 0 (UINT64_MAX div 1024) (\<lambda>v. cfg\<lparr>software_ecc_scrub_rate := v\<rparr>))
      | LLPS_YML_KEY_SOFTWARE_ECC_CONTROLLER_CORRECTED_ERROR_COUNT \<Rightarrow>
          Some (llps_yml_apply_u64_field s 0 UINT64_MAX (\<lambda>v. cfg\<lparr>software_ecc_controller_corrected_error_count := v\<rparr>))
      | LLPS_YML_KEY_SOFTWARE_ECC_CONTROLLER_UNCORRECTED_ERROR_COUNT \<Rightarrow>
          Some (llps_yml_apply_u64_field s 0 UINT64_MAX (\<lambda>v. cfg\<lparr>software_ecc_controller_uncorrected_error_count := v\<rparr>))
      | LLPS_YML_KEY_SOFTWARE_ECC_DIMM_CORRECTED_ERROR_COUNT \<Rightarrow>
          Some (llps_yml_apply_u64_field s 0 UINT64_MAX (\<lambda>v. cfg\<lparr>software_ecc_dimm_corrected_error_count := v\<rparr>))
      | LLPS_YML_KEY_SOFTWARE_ECC_DIMM_UNCORRECTED_ERROR_COUNT \<Rightarrow>
          Some (llps_yml_apply_u64_field s 0 UINT64_MAX (\<lambda>v. cfg\<lparr>software_ecc_dimm_uncorrected_error_count := v\<rparr>))
      | _ \<Rightarrow> None)"

definition llps_yml_apply_software_ecc_key ::
    "llps_yml_key_t \<Rightarrow> u8 list \<Rightarrow> llps_yml_config_t \<Rightarrow> llps_yml_config_t yml_result option" where
  "llps_yml_apply_software_ecc_key key s cfg =
     (case llps_yml_apply_software_ecc_u32_key key s cfg of
        Some r \<Rightarrow> Some r
      | None \<Rightarrow> llps_yml_apply_software_ecc_u64_key key s cfg)"

definition llps_yml_apply_software_numa_key ::
    "llps_yml_key_t \<Rightarrow> u8 list \<Rightarrow> llps_yml_config_t \<Rightarrow> llps_yml_config_t yml_result option" where
  "llps_yml_apply_software_numa_key key s cfg =
     (case key of
        LLPS_YML_KEY_SOFTWARE_NUMA_ENABLED \<Rightarrow>
          Some (llps_yml_apply_u32_field s 0 1 (\<lambda>v. cfg\<lparr>software_numa_enabled := v\<rparr>))
      | LLPS_YML_KEY_SOFTWARE_NUMA_MEMTOTAL_KIB \<Rightarrow>
          Some (llps_yml_apply_u64_field s 0 (UINT64_MAX div 3) (\<lambda>v. cfg\<lparr>software_numa_memtotal_kib := v\<rparr>))
      | LLPS_YML_KEY_SOFTWARE_NUMA_LOCAL_DISTANCE \<Rightarrow>
          Some (llps_yml_apply_u64_field s 0 1000000 (\<lambda>v. cfg\<lparr>software_numa_local_distance := v\<rparr>))
      | LLPS_YML_KEY_SOFTWARE_NUMA_REMOTE_DISTANCE \<Rightarrow>
          Some (llps_yml_apply_u64_field s 0 1000000 (\<lambda>v. cfg\<lparr>software_numa_remote_distance := v\<rparr>))
      | LLPS_YML_KEY_SOFTWARE_FAULT_INJECTION_MODE \<Rightarrow>
          Some (yml_assign (llps_yml_parse_software_fault_injection_mode s) (\<lambda>v. cfg\<lparr>software_fault_injection_mode := v\<rparr>))
      | _ \<Rightarrow> None)"

definition llps_yml_apply_evidence_key ::
    "llps_yml_key_t \<Rightarrow> u8 list \<Rightarrow> llps_yml_config_t \<Rightarrow> llps_yml_config_t yml_result option" where
  "llps_yml_apply_evidence_key key s cfg =
     (case key of
        LLPS_YML_KEY_EVIDENCE_MAC_ENABLED \<Rightarrow>
          Some (llps_yml_apply_u32_field s 0 1 (\<lambda>v. cfg\<lparr>evidence_mac_enabled := v\<rparr>))
      | LLPS_YML_KEY_EVIDENCE_MAC_KEY_PATH \<Rightarrow>
          Some (yml_assign (llps_yml_parse_key_path_text s (evidence_mac_key_path cfg) LLPS_YML_MAX_TEXT) (\<lambda>t. cfg\<lparr>evidence_mac_key_path := t\<rparr>))
      | _ \<Rightarrow> None)"

text \<open>The groups are asked in turn; the first that handles the key decides.\<close>

definition llps_yml_apply_key_value ::
    "llps_yml_key_t \<Rightarrow> u8 list \<Rightarrow> llps_yml_config_t \<Rightarrow> llps_yml_config_t yml_result" where
  "llps_yml_apply_key_value key s cfg =
     (case llps_yml_apply_capacity_key key s cfg of Some r \<Rightarrow> r | None \<Rightarrow>
     (case llps_yml_apply_endpoint_key key s cfg of Some r \<Rightarrow> r | None \<Rightarrow>
     (case llps_yml_apply_session_key key s cfg of Some r \<Rightarrow> r | None \<Rightarrow>
     (case llps_yml_apply_audit_key key s cfg of Some r \<Rightarrow> r | None \<Rightarrow>
     (case llps_yml_apply_platform_key key s cfg of Some r \<Rightarrow> r | None \<Rightarrow>
     (case llps_yml_apply_domain_key key s cfg of Some r \<Rightarrow> r | None \<Rightarrow>
     (case llps_yml_apply_software_ecc_key key s cfg of Some r \<Rightarrow> r | None \<Rightarrow>
     (case llps_yml_apply_software_numa_key key s cfg of Some r \<Rightarrow> r | None \<Rightarrow>
     (case llps_yml_apply_evidence_key key s cfg of Some r \<Rightarrow> r | None \<Rightarrow>
      Inl LLPS_YML_E_KEY)))))))))"

subsection \<open>Validation of the record\<close>

definition llps_yml_domain_ids_are_distinct :: "u32 list \<Rightarrow> bool" where
  "llps_yml_domain_ids_are_distinct ids \<longleftrightarrow>
     ids ! 0 \<noteq> 0 \<and> ids ! 1 \<noteq> 0 \<and> ids ! 2 \<noteq> 0 \<and>
     ids ! 0 \<noteq> ids ! 1 \<and> ids ! 0 \<noteq> ids ! 2 \<and> ids ! 1 \<noteq> ids ! 2"

definition llps_yml_domain_ids_are_zero :: "u32 list \<Rightarrow> bool" where
  "llps_yml_domain_ids_are_zero ids \<longleftrightarrow>
     list_all (\<lambda>i. \<not> ids ! i \<noteq> 0) [0..<LLPS_SESSION_TMR_BANK_COUNT]"

definition llps_yml_domain_id_sets_are_disjoint :: "u32 list \<Rightarrow> u32 list \<Rightarrow> bool" where
  "llps_yml_domain_id_sets_are_disjoint lhs rhs \<longleftrightarrow>
     list_all (\<lambda>i. list_all (\<lambda>j. \<not> (lhs ! i = 0 \<or> rhs ! j = 0 \<or> lhs ! i = rhs ! j))
       [0..<LLPS_SESSION_TMR_BANK_COUNT]) [0..<LLPS_SESSION_TMR_BANK_COUNT]"

definition llps_yml_domain_id_is_disjoint_from_set :: "u32 list \<Rightarrow> u32 \<Rightarrow> bool" where
  "llps_yml_domain_id_is_disjoint_from_set ids domain_id \<longleftrightarrow>
     (if domain_id = 0 then False
      else list_all (\<lambda>i. \<not> (ids ! i = 0 \<or> ids ! i = domain_id)) [0..<LLPS_SESSION_TMR_BANK_COUNT])"

definition llps_yml_validate_listener_limits :: "llps_yml_config_t \<Rightarrow> llps_yml_status_t" where
  "llps_yml_validate_listener_limits cfg =
     (if max_clients cfg = 0 \<or> max_clients cfg > LLPS_MAX_CLIENTS then LLPS_YML_E_RANGE
      else if buffer_size cfg = 0 \<or> buffer_size cfg > LLPS_BUFFER_SIZE then LLPS_YML_E_RANGE
      else if listen_port cfg = 0 \<or> target_port cfg = 0 then LLPS_YML_E_RANGE
      else if listen_backlog cfg = 0 \<or> listen_backlog cfg > 256 then LLPS_YML_E_RANGE
      else if accept_batch_max cfg = 0 \<or> accept_batch_max cfg > 32 \<or>
              accept_batch_max cfg > max_clients cfg \<or> listen_backlog cfg < accept_batch_max cfg
      then LLPS_YML_E_RANGE
      else LLPS_YML_OK)"

definition llps_yml_validate_session_limits :: "llps_yml_config_t \<Rightarrow> llps_yml_status_t" where
  "llps_yml_validate_session_limits cfg =
     (if session_idle_timeout_ms cfg < 2000 \<or> session_idle_timeout_ms cfg > 600000
      then LLPS_YML_E_RANGE
      else if max_sessions_per_client_ip cfg > max_clients cfg \<or>
              max_new_sessions_per_client_ip_per_window cfg > 100000
      then LLPS_YML_E_RANGE
      else if client_ip_rate_window_ms cfg < 100 \<or> client_ip_rate_window_ms cfg > 600000
      then LLPS_YML_E_RANGE
      else if client_preface_timeout_ms cfg \<noteq> 0 \<and>
              (client_preface_timeout_ms cfg < 100 \<or> client_preface_timeout_ms cfg > 600000)
      then LLPS_YML_E_RANGE
      else LLPS_YML_OK)"

definition llps_yml_validate_feature_modes :: "llps_yml_config_t \<Rightarrow> llps_yml_status_t" where
  "llps_yml_validate_feature_modes cfg =
     (if protocol_handshake_gate_enabled cfg > 1 \<or>
         protocol_handshake_gate_enabled cfg \<noteq> 0 \<and> client_preface_timeout_ms cfg = 0
      then LLPS_YML_E_RANGE
      else if payload_ecc_enabled cfg > 1 \<or> require_readiness cfg > 1 \<or> ip_audit_enabled cfg > 1 \<or>
              audit_mac_enabled cfg > 1
      then LLPS_YML_E_RANGE
      else if platform_evidence_mode cfg > 2 \<or> evidence_mac_enabled cfg > 1 \<or>
              software_ecc_enabled cfg > 1 \<or> software_numa_enabled cfg > 1 \<or>
              software_fault_injection_mode cfg > 3
      then LLPS_YML_E_RANGE
      else LLPS_YML_OK)"

definition llps_yml_validate_software_mode_mix :: "llps_yml_config_t \<Rightarrow> llps_yml_status_t" where
  "llps_yml_validate_software_mode_mix cfg =
     (if platform_evidence_mode cfg = 0 \<and>
         (software_ecc_enabled cfg \<noteq> 0 \<or> software_numa_enabled cfg \<noteq> 0)
      then LLPS_YML_E_RANGE
      else if require_readiness cfg \<noteq> 0 \<and> software_ecc_enabled cfg \<noteq> 0 \<and> payload_ecc_enabled cfg = 0
      then LLPS_YML_E_RANGE
      else LLPS_YML_OK)"

definition llps_yml_software_ecc_fields_are_zero :: "llps_yml_config_t \<Rightarrow> bool" where
  "llps_yml_software_ecc_fields_are_zero cfg \<longleftrightarrow>
     software_ecc_controller_count cfg = 0 \<and> software_ecc_dimm_count cfg = 0 \<and>
     software_ecc_scrub_rate cfg = 0 \<and>
     software_ecc_controller_corrected_error_count cfg = 0 \<and>
     software_ecc_controller_uncorrected_error_count cfg = 0 \<and>
     software_ecc_dimm_corrected_error_count cfg = 0 \<and>
     software_ecc_dimm_uncorrected_error_count cfg = 0"

definition llps_yml_validate_software_ecc :: "llps_yml_config_t \<Rightarrow> llps_yml_status_t" where
  "llps_yml_validate_software_ecc cfg =
     (if software_ecc_enabled cfg = 0
      then (if llps_yml_software_ecc_fields_are_zero cfg then LLPS_YML_OK else LLPS_YML_E_RANGE)
      else if software_ecc_controller_count cfg = 0 \<or> software_ecc_controller_count cfg > 256 \<or>
              software_ecc_dimm_count cfg = 0 \<or> software_ecc_dimm_count cfg > 1024 \<or>
              software_ecc_controller_count cfg > software_ecc_dimm_count cfg \<or>
              software_ecc_scrub_rate cfg = 0 \<or> software_ecc_scrub_rate cfg > UINT64_MAX div 1024
      then LLPS_YML_E_RANGE
      else LLPS_YML_OK)"

definition llps_yml_software_numa_fields_are_zero :: "llps_yml_config_t \<Rightarrow> bool" where
  "llps_yml_software_numa_fields_are_zero cfg \<longleftrightarrow>
     software_numa_memtotal_kib cfg = 0 \<and> software_numa_local_distance cfg = 0 \<and>
     software_numa_remote_distance cfg = 0"

definition llps_yml_validate_software_numa :: "llps_yml_config_t \<Rightarrow> llps_yml_status_t" where
  "llps_yml_validate_software_numa cfg =
     (if software_numa_enabled cfg = 0
      then (if llps_yml_software_numa_fields_are_zero cfg then LLPS_YML_OK else LLPS_YML_E_RANGE)
      else if software_numa_memtotal_kib cfg = 0 \<or> software_numa_memtotal_kib cfg > UINT64_MAX div 3 \<or>
              (software_numa_local_distance cfg = 0) \<noteq> (software_numa_remote_distance cfg = 0) \<or>
              software_numa_local_distance cfg > 1000000 \<or> software_numa_remote_distance cfg > 1000000 \<or>
              software_numa_local_distance cfg \<noteq> 0 \<and>
                software_numa_remote_distance cfg \<le> software_numa_local_distance cfg \<or>
              platform_safety_flags cfg AND LLPS_PLATFORM_EVIDENCE_PHYS_SEP = 0
      then LLPS_YML_E_RANGE
      else LLPS_YML_OK)"

definition llps_yml_validate_required_paths :: "llps_yml_config_t \<Rightarrow> llps_yml_status_t" where
  "llps_yml_validate_required_paths cfg =
     (if ip_audit_enabled cfg \<noteq> 0 \<and> ip_audit_path cfg ! 0 = 0 then LLPS_YML_E_REQUIRED
      else if audit_mac_enabled cfg \<noteq> 0 \<and> (ip_audit_enabled cfg = 0 \<or> audit_mac_key_path cfg ! 0 = 0)
      then LLPS_YML_E_REQUIRED
      else if evidence_mac_enabled cfg \<noteq> 0 \<and> evidence_mac_key_path cfg ! 0 = 0
      then LLPS_YML_E_REQUIRED
      else LLPS_YML_OK)"

definition llps_yml_validate_platform_policy :: "llps_yml_config_t \<Rightarrow> llps_yml_status_t" where
  "llps_yml_validate_platform_policy cfg =
     (let flags = platform_safety_flags cfg
      in if flags AND NOT LLPS_PLATFORM_EVIDENCE_REQUIRED \<noteq> 0 then LLPS_YML_E_RANGE
         else if platform_evidence_mode cfg = 1 \<and>
                 (flags AND LLPS_PLATFORM_EVIDENCE_ECC_MEMORY \<noteq> 0 \<or>
                  flags AND LLPS_PLATFORM_EVIDENCE_ECC_CLEAN \<noteq> 0) \<and>
                 software_ecc_enabled cfg = 0
         then LLPS_YML_E_RANGE
         else if platform_evidence_mode cfg = 1 \<and> flags AND LLPS_PLATFORM_EVIDENCE_PHYS_SEP \<noteq> 0 \<and>
                 software_numa_enabled cfg = 0
         then LLPS_YML_E_RANGE
         else LLPS_YML_OK)"

definition llps_yml_validate_platform_domains :: "llps_yml_config_t \<Rightarrow> llps_yml_status_t" where
  "llps_yml_validate_platform_domains cfg =
     (let flags = platform_safety_flags cfg;
          physical = platform_physical_memory_domains cfg;
          hardware = platform_hardware_tmr_domains cfg;
          voter = platform_hardware_tmr_voter_domain cfg
      in if flags AND LLPS_PLATFORM_EVIDENCE_PHYS_SEP = 0 \<and> \<not> llps_yml_domain_ids_are_zero physical
         then LLPS_YML_E_RANGE
         else if flags AND LLPS_PLATFORM_EVIDENCE_HW_TMR = 0 \<and>
                 (\<not> llps_yml_domain_ids_are_zero hardware \<or> voter \<noteq> 0)
         then LLPS_YML_E_RANGE
         else if flags AND LLPS_PLATFORM_EVIDENCE_PHYS_SEP \<noteq> 0 \<and>
                 \<not> llps_yml_domain_ids_are_distinct physical
         then LLPS_YML_E_RANGE
         else if flags AND LLPS_PLATFORM_EVIDENCE_HW_TMR \<noteq> 0 \<and>
                 (\<not> llps_yml_domain_ids_are_distinct hardware \<or>
                  \<not> llps_yml_domain_id_is_disjoint_from_set hardware voter)
         then LLPS_YML_E_RANGE
         else LLPS_YML_OK)"

definition llps_yml_validate_external_domain_mix :: "llps_yml_config_t \<Rightarrow> llps_yml_status_t" where
  "llps_yml_validate_external_domain_mix cfg =
     (if platform_safety_flags cfg AND LLPS_PLATFORM_EVIDENCE_EXTERNAL_MASK =
           LLPS_PLATFORM_EVIDENCE_EXTERNAL_MASK \<and>
         (\<not> llps_yml_domain_id_sets_are_disjoint (platform_physical_memory_domains cfg)
              (platform_hardware_tmr_domains cfg) \<or>
          \<not> llps_yml_domain_id_is_disjoint_from_set (platform_physical_memory_domains cfg)
              (platform_hardware_tmr_voter_domain cfg))
      then LLPS_YML_E_RANGE
      else LLPS_YML_OK)"

definition llps_yml_validate_readiness_contract :: "llps_yml_config_t \<Rightarrow> bool \<Rightarrow> llps_yml_status_t" where
  "llps_yml_validate_readiness_contract cfg enforce_attestation_fingerprint =
     (if require_readiness cfg \<noteq> 0 \<and>
         (platform_safety_evidence_id cfg = 0 \<or>
          enforce_attestation_fingerprint \<and> platform_attestation_fingerprint cfg = 0 \<or>
          platform_safety_flags cfg AND LLPS_PLATFORM_EVIDENCE_REQUIRED \<noteq>
            LLPS_PLATFORM_EVIDENCE_REQUIRED)
      then LLPS_YML_E_RANGE
      else LLPS_YML_OK)"

definition llps_yml_validate_attestation_fingerprint ::
    "llps_yml_config_t \<Rightarrow> bool \<Rightarrow> llps_yml_status_t" where
  "llps_yml_validate_attestation_fingerprint cfg enforce_attestation_fingerprint =
     (if platform_safety_flags cfg = 0 \<and> platform_safety_evidence_id cfg = 0 \<and>
         platform_attestation_fingerprint cfg = 0 \<and> platform_observation_digest cfg = 0
      then LLPS_YML_OK
      else (case llps_compute_platform_attestation_fingerprint (platform_safety_flags cfg)
              (platform_safety_evidence_id cfg) (platform_physical_memory_domains cfg)
              (platform_hardware_tmr_domains cfg) (platform_hardware_tmr_voter_domain cfg) of
              (st, expected_fingerprint) \<Rightarrow>
                if st \<noteq> LLPS_OK then LLPS_YML_E_RANGE
                else if enforce_attestation_fingerprint \<and> platform_attestation_fingerprint cfg \<noteq> 0 \<and>
                        platform_attestation_fingerprint cfg \<noteq> expected_fingerprint
                then LLPS_YML_E_RANGE
                else LLPS_YML_OK))"

text \<open>The comparison reads the two arrays as strings.\<close>

definition llps_yml_validate_no_self_loop :: "llps_yml_config_t \<Rightarrow> llps_yml_status_t" where
  "llps_yml_validate_no_self_loop cfg =
     (if listen_port cfg = target_port cfg \<and>
         llps_yml_streq (c_string (listen_host cfg)) (c_string (target_ip cfg)) LLPS_YML_MAX_TEXT
      then LLPS_YML_E_RANGE
      else LLPS_YML_OK)"

text \<open>\<open>yml_and_then st next\<close> is \<^verbatim>\<open>if (st == LLPS_YML_OK) { st = next; }\<close>.\<close>

definition yml_and_then :: "llps_yml_status_t \<Rightarrow> llps_yml_status_t \<Rightarrow> llps_yml_status_t" where
  "yml_and_then st next_st = (if st = LLPS_YML_OK then next_st else st)"

definition llps_yml_validate_config :: "llps_yml_config_t \<Rightarrow> bool \<Rightarrow> llps_yml_status_t" where
  "llps_yml_validate_config cfg enforce_attestation_fingerprint =
     (let st = llps_yml_validate_listener_limits cfg;
          st = yml_and_then st (llps_yml_validate_session_limits cfg);
          st = yml_and_then st (llps_yml_validate_feature_modes cfg);
          st = yml_and_then st (llps_yml_validate_software_mode_mix cfg);
          st = yml_and_then st (llps_yml_validate_software_ecc cfg);
          st = yml_and_then st (llps_yml_validate_software_numa cfg);
          st = yml_and_then st (llps_yml_validate_required_paths cfg);
          st = yml_and_then st (llps_yml_validate_platform_policy cfg);
          st = yml_and_then st (llps_yml_validate_platform_domains cfg);
          st = yml_and_then st (llps_yml_validate_external_domain_mix cfg);
          st = yml_and_then st (llps_yml_validate_readiness_contract cfg enforce_attestation_fingerprint);
          st = yml_and_then st
            (llps_yml_validate_attestation_fingerprint cfg enforce_attestation_fingerprint)
      in yml_and_then st (llps_yml_validate_no_self_loop cfg))"

subsection \<open>One line\<close>

text \<open>The record and the mask of the keys that were present, as they are after the line.\<close>

definition llps_yml_parse_line ::
    "u8 list \<Rightarrow> llps_yml_config_t \<Rightarrow> u64 \<Rightarrow> (llps_yml_config_t \<times> u64) yml_result" where
  "llps_yml_parse_line line cfg present_mask =
     (if llps_yml_bounded_strlen line (LLPS_YML_MAX_LINE_LEN + 1) = None
      then Inl LLPS_YML_E_LINE_TOO_LONG
      else (case llps_yml_trim_in_place (llps_yml_strip_comment line) of
          None \<Rightarrow> Inl LLPS_YML_E_SYNTAX
        | Some work \<Rightarrow>
            if work = [] then Inr (cfg, present_mask)
            else if work ! 0 = 45 \<or> work ! 0 = 91 \<or> work ! 0 = 123 then Inl LLPS_YML_E_SYNTAX
            else (case List.filter (\<lambda>i. work ! i = 58) [0..<min (length work) LLPS_YML_MAX_LINE_LEN] of
                [colon] \<Rightarrow>
                  (case (llps_yml_trim_in_place (take colon work),
                         llps_yml_trim_in_place (drop (colon + 1) work)) of
                     (Some key, Some text) \<Rightarrow>
                       if key = [] \<or> text = [] then Inl LLPS_YML_E_SYNTAX
                       else if llps_yml_validate_key_syntax key \<noteq> LLPS_YML_OK
                       then Inl (llps_yml_validate_key_syntax key)
                       else (case llps_yml_unquote_value text of
                           Inl st \<Rightarrow> Inl st
                         | Inr text \<Rightarrow>
                             (case llps_yml_key_from_string key of
                                Inl st \<Rightarrow> Inl st
                              | Inr parsed_key \<Rightarrow>
                                  (let key_bit = yml_key_bit parsed_key
                                   in if present_mask AND key_bit \<noteq> 0 then Inl LLPS_YML_E_DUPLICATE
                                      else (case llps_yml_apply_key_value parsed_key text cfg of
                                          Inl st \<Rightarrow> Inl st
                                        | Inr cfg' \<Rightarrow> Inr (cfg', present_mask OR key_bit)))))
                   | _ \<Rightarrow> Inl LLPS_YML_E_SYNTAX)
              | _ \<Rightarrow> Inl LLPS_YML_E_SYNTAX)))"

subsection \<open>The reader\<close>

text \<open>
  The answer of one call of \<^verbatim>\<open>read\<close>: bytes, the interruption \<^verbatim>\<open>EINTR\<close>, or another error. No bytes is the
  end of the file, and so is the end of the list of answers.
\<close>

datatype yml_read = Yml_Bytes "u8 list" | Yml_Interrupted | Yml_Failed

text \<open>The variables of the loop; \<open>yr_line\<close> is the line buffer up to \<^verbatim>\<open>line_len\<close>.\<close>

record yml_reader =
  yr_line :: "u8 list"
  yr_line_no :: u32
  yr_total_bytes :: u32
  yr_present_mask :: u64
  yr_pending_cr :: bool
  yr_saw_any_byte :: bool
  yr_cfg :: llps_yml_config_t

text \<open>A failed load: the status and the value of \<^verbatim>\<open>*error_line_ref\<close>.\<close>

type_synonym 'a yml_outcome = "(llps_yml_status_t \<times> u32) + 'a"

definition llps_yml_commit_line ::
    "u8 list \<Rightarrow> u32 \<Rightarrow> llps_yml_config_t \<Rightarrow> u64 \<Rightarrow> (llps_yml_config_t \<times> u64) yml_outcome" where
  "llps_yml_commit_line line line_no cfg present_mask =
     (if line_no > 128 then Inl (LLPS_YML_E_TOO_MANY_LINES, line_no)
      else if length line > LLPS_YML_MAX_LINE_LEN then Inl (LLPS_YML_E_LINE_TOO_LONG, line_no)
      else (case llps_yml_parse_line line cfg present_mask of
          Inl st \<Rightarrow> Inl (st, line_no)
        | Inr r \<Rightarrow> Inr r))"

text \<open>The end of a line: the commit, the next line number and the empty buffer.\<close>

definition yml_end_line :: "yml_reader \<Rightarrow> yml_reader yml_outcome" where
  "yml_end_line r =
     (case llps_yml_commit_line (yr_line r) (yr_line_no r) (yr_cfg r) (yr_present_mask r) of
        Inl e \<Rightarrow> Inl e
      | Inr (cfg, present_mask) \<Rightarrow>
          Inr (r\<lparr>yr_cfg := cfg, yr_present_mask := present_mask, yr_line_no := yr_line_no r + 1,
                 yr_line := [], yr_pending_cr := False\<rparr>))"

text \<open>The body of the loop over the bytes of a chunk.\<close>

definition yml_read_byte :: "u8 \<Rightarrow> yml_reader \<Rightarrow> yml_reader yml_outcome" where
  "yml_read_byte c r =
     (let r = r\<lparr>yr_saw_any_byte := True\<rparr>
      in if yr_total_bytes r \<ge> 128 * (320 + 2) then Inl (LLPS_YML_E_TOO_LARGE, 0)
         else (let r = r\<lparr>yr_total_bytes := yr_total_bytes r + 1\<rparr>
               in if yr_pending_cr r
                  then (if c \<noteq> 10 then Inl (LLPS_YML_E_SYNTAX, yr_line_no r) else yml_end_line r)
                  else if c = 13 then Inr (r\<lparr>yr_pending_cr := True\<rparr>)
                  else if c = 10 then yml_end_line r
                  else if c = 0 \<or> \<not> llps_yml_is_allowed_text_byte c
                  then Inl (LLPS_YML_E_SYNTAX, yr_line_no r)
                  else if length (yr_line r) \<ge> LLPS_YML_MAX_LINE_LEN
                  then Inl (LLPS_YML_E_LINE_TOO_LONG, yr_line_no r)
                  else Inr (r\<lparr>yr_line := yr_line r @ [c]\<rparr>)))"

fun yml_read_chunk :: "u8 list \<Rightarrow> yml_reader \<Rightarrow> yml_reader yml_outcome" where
  "yml_read_chunk [] r = Inr r"
| "yml_read_chunk (c # cs) r =
     (case yml_read_byte c r of Inl e \<Rightarrow> Inl e | Inr r' \<Rightarrow> yml_read_chunk cs r')"

fun yml_read_loop :: "u64 \<Rightarrow> yml_read list \<Rightarrow> yml_reader \<Rightarrow> yml_reader yml_outcome" where
  "yml_read_loop read_cycle [] r = Inr r"
| "yml_read_loop read_cycle (answer # answers) r =
     (if \<not> read_cycle < UINT64_MAX then Inr r
      else (case answer of
          Yml_Failed \<Rightarrow> Inl (LLPS_YML_E_READ, 0)
        | Yml_Interrupted \<Rightarrow> yml_read_loop (read_cycle + 1) answers r
        | Yml_Bytes chunk \<Rightarrow>
            if chunk = [] then Inr r
            else (case yml_read_chunk chunk r of
                Inl e \<Rightarrow> Inl e
              | Inr r' \<Rightarrow> yml_read_loop (read_cycle + 1) answers r')))"

text \<open>The last line may lack its line feed.\<close>

definition yml_finish_lines :: "yml_reader \<Rightarrow> yml_reader yml_outcome" where
  "yml_finish_lines r =
     (case (if yr_pending_cr r then yml_end_line r else Inr r) of
        Inl e \<Rightarrow> Inl e
      | Inr r \<Rightarrow> if length (yr_line r) > 0 then yml_end_line r else Inr r)"

definition yml_reader_start :: yml_reader where
  "yml_reader_start = \<lparr>yr_line = [], yr_line_no = 1, yr_total_bytes = 0, yr_present_mask = 0,
     yr_pending_cr = False, yr_saw_any_byte = False, yr_cfg = llps_yml_zero_config\<rparr>"

definition llps_yml_open_readonly :: "u8 list \<Rightarrow> bool \<Rightarrow> llps_yml_status_t" where
  "llps_yml_open_readonly path opens =
     (case llps_yml_bounded_strlen path LLPS_YML_MAX_TEXT of
        None \<Rightarrow> LLPS_YML_E_RANGE
      | Some path_len \<Rightarrow>
          if path_len = 0 then LLPS_YML_E_RANGE
          else if \<not> opens then LLPS_YML_E_OPEN
          else LLPS_YML_OK)"

definition llps_yml_load_config_internal ::
    "u8 list \<Rightarrow> bool \<Rightarrow> yml_read list \<Rightarrow> bool \<Rightarrow> bool \<Rightarrow> llps_yml_config_t yml_outcome" where
  "llps_yml_load_config_internal path opens answers closes enforce_attestation_fingerprint =
     (let st = llps_yml_open_readonly path opens
      in if st \<noteq> LLPS_YML_OK then Inl (st, 0)
         else (case yml_read_loop 0 answers yml_reader_start of
             Inl e \<Rightarrow> Inl e
           | Inr r \<Rightarrow>
               (case yml_finish_lines r of
                  Inl e \<Rightarrow> Inl e
                | Inr r \<Rightarrow>
                    if \<not> closes then Inl (LLPS_YML_E_CLOSE, 0)
                    else if \<not> yr_saw_any_byte r then Inl (LLPS_YML_E_REQUIRED, 0)
                    else if yr_present_mask r AND LLPS_YML_REQUIRED_MASK \<noteq> LLPS_YML_REQUIRED_MASK
                    then Inl (LLPS_YML_E_REQUIRED, 0)
                    else (let st = llps_yml_validate_config (yr_cfg r) enforce_attestation_fingerprint
                          in if st \<noteq> LLPS_YML_OK then Inl (st, 0) else Inr (yr_cfg r)))))"

definition llps_yml_load_config_ex ::
    "u8 list \<Rightarrow> bool \<Rightarrow> yml_read list \<Rightarrow> bool \<Rightarrow> llps_yml_config_t yml_outcome" where
  "llps_yml_load_config_ex path opens answers closes =
     llps_yml_load_config_internal path opens answers closes True"

definition llps_yml_load_config_for_attestation_ex ::
    "u8 list \<Rightarrow> bool \<Rightarrow> yml_read list \<Rightarrow> bool \<Rightarrow> llps_yml_config_t yml_outcome" where
  "llps_yml_load_config_for_attestation_ex path opens answers closes =
     llps_yml_load_config_internal path opens answers closes False"

section \<open>The text fields\<close>

text \<open>
  What every assignment keeps of the arrays of the record: they have their size, the host names end
  inside it, and a path is either still empty or one of the accepted ones.
\<close>

definition host_array :: "u8 list \<Rightarrow> bool" where
  "host_array t \<longleftrightarrow> length t = LLPS_YML_MAX_TEXT \<and> (\<exists>len < LLPS_YML_MAX_TEXT. t ! len = 0)"

definition empty_array :: "u8 list \<Rightarrow> bool" where
  "empty_array t \<longleftrightarrow> t = replicate LLPS_YML_MAX_TEXT 0"

definition yml_arrays_ok :: "llps_yml_config_t \<Rightarrow> bool" where
  "yml_arrays_ok cfg \<longleftrightarrow>
     host_array (listen_host cfg) \<and> host_array (target_ip cfg) \<and>
     length (ip_audit_path cfg) = LLPS_YML_MAX_TEXT \<and>
     (empty_array (ip_audit_path cfg) \<or>
       llps_config_path_has_pxf_extension (ip_audit_path cfg) LLPS_YML_MAX_TEXT) \<and>
     length (audit_mac_key_path cfg) = LLPS_YML_MAX_TEXT \<and>
     (empty_array (audit_mac_key_path cfg) \<or>
       (\<forall>e. llps_config_path_is_safe (audit_mac_key_path cfg) LLPS_YML_MAX_TEXT e)) \<and>
     length (evidence_mac_key_path cfg) = LLPS_YML_MAX_TEXT \<and>
     (empty_array (evidence_mac_key_path cfg) \<or>
       (\<forall>e. llps_config_path_is_safe (evidence_mac_key_path cfg) LLPS_YML_MAX_TEXT e)) \<and>
     length (platform_physical_memory_domains cfg) = 3 \<and>
     length (platform_hardware_tmr_domains cfg) = 3"

lemma zero_config_arrays: "yml_arrays_ok llps_yml_zero_config"
proof -
  have "host_array (replicate LLPS_YML_MAX_TEXT 0)"
    unfolding host_array_def by (intro conjI exI [of _ 0]) simp_all
  then show ?thesis by (simp add: yml_arrays_ok_def llps_yml_zero_config_def empty_array_def)
qed

lemma host_stored:
  assumes "llps_yml_parse_host_text s dst LLPS_YML_MAX_TEXT = Inr t" "host_array dst"
  shows "host_array t"
proof -
  have s: "length s < LLPS_YML_MAX_TEXT" "t = s @ 0 # drop (length s + 1) dst"
    using assms(1) unfolding host_iff by blast+
  then have "t ! length s = 0" "length t = LLPS_YML_MAX_TEXT"
    using assms(2) by (auto simp: host_array_def)
  then show ?thesis using s(1) by (auto simp: host_array_def)
qed

lemma yml_assign_Inr [simp]: "yml_assign r dst = Inr cfg \<longleftrightarrow> (\<exists>v. r = Inr v \<and> cfg = dst v)"
  by (auto simp: yml_assign_def split: sum.splits)

lemma path_stored:
  assumes "llps_yml_parse_path_text s dst LLPS_YML_MAX_TEXT = Inr t" "length dst = LLPS_YML_MAX_TEXT"
  shows "length t = LLPS_YML_MAX_TEXT \<and> llps_config_path_has_pxf_extension t LLPS_YML_MAX_TEXT"
  using path_pxf [OF assms(1)] path_length [of s dst t] assms by (simp add: path_iff)

lemma key_path_stored:
  assumes "llps_yml_parse_key_path_text s dst LLPS_YML_MAX_TEXT = Inr t" "length dst = LLPS_YML_MAX_TEXT"
  shows "length t = LLPS_YML_MAX_TEXT \<and> llps_config_path_is_safe t LLPS_YML_MAX_TEXT e"
  using key_path_safe [OF assms(1)] path_length [OF assms] by simp

text \<open>The numbers of the record are not part of it.\<close>

lemma yml_arrays_frame [simp]:
  "yml_arrays_ok (cfg\<lparr>max_clients := v0\<rparr>) = yml_arrays_ok cfg"
  "yml_arrays_ok (cfg\<lparr>buffer_size := v1\<rparr>) = yml_arrays_ok cfg"
  "yml_arrays_ok (cfg\<lparr>listen_backlog := v2\<rparr>) = yml_arrays_ok cfg"
  "yml_arrays_ok (cfg\<lparr>accept_batch_max := v3\<rparr>) = yml_arrays_ok cfg"
  "yml_arrays_ok (cfg\<lparr>session_idle_timeout_ms := v4\<rparr>) = yml_arrays_ok cfg"
  "yml_arrays_ok (cfg\<lparr>max_sessions_per_client_ip := v5\<rparr>) = yml_arrays_ok cfg"
  "yml_arrays_ok (cfg\<lparr>max_new_sessions_per_client_ip_per_window := v6\<rparr>) = yml_arrays_ok cfg"
  "yml_arrays_ok (cfg\<lparr>client_ip_rate_window_ms := v7\<rparr>) = yml_arrays_ok cfg"
  "yml_arrays_ok (cfg\<lparr>client_preface_timeout_ms := v8\<rparr>) = yml_arrays_ok cfg"
  "yml_arrays_ok (cfg\<lparr>protocol_handshake_gate_enabled := v9\<rparr>) = yml_arrays_ok cfg"
  "yml_arrays_ok (cfg\<lparr>payload_ecc_enabled := v10\<rparr>) = yml_arrays_ok cfg"
  "yml_arrays_ok (cfg\<lparr>ip_audit_enabled := v11\<rparr>) = yml_arrays_ok cfg"
  "yml_arrays_ok (cfg\<lparr>audit_mac_enabled := v12\<rparr>) = yml_arrays_ok cfg"
  "yml_arrays_ok (cfg\<lparr>require_readiness := v13\<rparr>) = yml_arrays_ok cfg"
  "yml_arrays_ok (cfg\<lparr>platform_safety_flags := v14\<rparr>) = yml_arrays_ok cfg"
  "yml_arrays_ok (cfg\<lparr>platform_safety_evidence_id := v15\<rparr>) = yml_arrays_ok cfg"
  "yml_arrays_ok (cfg\<lparr>platform_attestation_fingerprint := v16\<rparr>) = yml_arrays_ok cfg"
  "yml_arrays_ok (cfg\<lparr>platform_observation_digest := v17\<rparr>) = yml_arrays_ok cfg"
  "yml_arrays_ok (cfg\<lparr>platform_evidence_mode := v18\<rparr>) = yml_arrays_ok cfg"
  "yml_arrays_ok (cfg\<lparr>platform_hardware_tmr_voter_domain := v19\<rparr>) = yml_arrays_ok cfg"
  "yml_arrays_ok (cfg\<lparr>software_ecc_enabled := v20\<rparr>) = yml_arrays_ok cfg"
  "yml_arrays_ok (cfg\<lparr>software_ecc_controller_count := v21\<rparr>) = yml_arrays_ok cfg"
  "yml_arrays_ok (cfg\<lparr>software_ecc_dimm_count := v22\<rparr>) = yml_arrays_ok cfg"
  "yml_arrays_ok (cfg\<lparr>software_ecc_scrub_rate := v23\<rparr>) = yml_arrays_ok cfg"
  "yml_arrays_ok (cfg\<lparr>software_ecc_controller_corrected_error_count := v24\<rparr>) = yml_arrays_ok cfg"
  "yml_arrays_ok (cfg\<lparr>software_ecc_controller_uncorrected_error_count := v25\<rparr>) = yml_arrays_ok cfg"
  "yml_arrays_ok (cfg\<lparr>software_ecc_dimm_corrected_error_count := v26\<rparr>) = yml_arrays_ok cfg"
  "yml_arrays_ok (cfg\<lparr>software_ecc_dimm_uncorrected_error_count := v27\<rparr>) = yml_arrays_ok cfg"
  "yml_arrays_ok (cfg\<lparr>software_numa_enabled := v28\<rparr>) = yml_arrays_ok cfg"
  "yml_arrays_ok (cfg\<lparr>software_numa_memtotal_kib := v29\<rparr>) = yml_arrays_ok cfg"
  "yml_arrays_ok (cfg\<lparr>software_numa_local_distance := v30\<rparr>) = yml_arrays_ok cfg"
  "yml_arrays_ok (cfg\<lparr>software_numa_remote_distance := v31\<rparr>) = yml_arrays_ok cfg"
  "yml_arrays_ok (cfg\<lparr>software_fault_injection_mode := v32\<rparr>) = yml_arrays_ok cfg"
  "yml_arrays_ok (cfg\<lparr>evidence_mac_enabled := v33\<rparr>) = yml_arrays_ok cfg"
  "yml_arrays_ok (cfg\<lparr>listen_port := v34\<rparr>) = yml_arrays_ok cfg"
  "yml_arrays_ok (cfg\<lparr>target_port := v35\<rparr>) = yml_arrays_ok cfg"
  by (simp_all add: yml_arrays_ok_def)

lemmas apply_field_defs = llps_yml_apply_u32_field_def llps_yml_apply_u64_field_def

lemma apply_capacity_arrays:
  "llps_yml_apply_capacity_key key s cfg = Some (Inr cfg') \<Longrightarrow> yml_arrays_ok cfg \<Longrightarrow> yml_arrays_ok cfg'"
  by (cases key) (auto simp: llps_yml_apply_capacity_key_def apply_field_defs)

lemma apply_endpoint_arrays:
  "llps_yml_apply_endpoint_key key s cfg = Some (Inr cfg') \<Longrightarrow> yml_arrays_ok cfg \<Longrightarrow> yml_arrays_ok cfg'"
  by (cases key) (auto simp: llps_yml_apply_endpoint_key_def yml_arrays_ok_def dest: host_stored)

lemma apply_session_arrays:
  "llps_yml_apply_session_key key s cfg = Some (Inr cfg') \<Longrightarrow> yml_arrays_ok cfg \<Longrightarrow> yml_arrays_ok cfg'"
  by (cases key) (auto simp: llps_yml_apply_session_key_def llps_yml_apply_preface_timeout_def
      apply_field_defs split: sum.splits if_splits)

lemma apply_audit_arrays:
  "llps_yml_apply_audit_key key s cfg = Some (Inr cfg') \<Longrightarrow> yml_arrays_ok cfg \<Longrightarrow> yml_arrays_ok cfg'"
  by (cases key) (auto simp: llps_yml_apply_audit_key_def apply_field_defs yml_arrays_ok_def
      dest: path_stored key_path_stored)

lemma apply_platform_arrays:
  "llps_yml_apply_platform_key key s cfg = Some (Inr cfg') \<Longrightarrow> yml_arrays_ok cfg \<Longrightarrow> yml_arrays_ok cfg'"
  by (cases key) (auto simp: llps_yml_apply_platform_key_def apply_field_defs)

lemma yml_arrays_domains:
  "yml_arrays_ok cfg \<Longrightarrow> length d = 3 \<Longrightarrow> yml_arrays_ok (cfg\<lparr>platform_physical_memory_domains := d\<rparr>)"
  "yml_arrays_ok cfg \<Longrightarrow> length d = 3 \<Longrightarrow> yml_arrays_ok (cfg\<lparr>platform_hardware_tmr_domains := d\<rparr>)"
  "yml_arrays_ok cfg \<Longrightarrow> length (platform_physical_memory_domains cfg) = 3"
  "yml_arrays_ok cfg \<Longrightarrow> length (platform_hardware_tmr_domains cfg) = 3"
  by (simp_all add: yml_arrays_ok_def)

lemma apply_physical_domain_arrays:
  "llps_yml_apply_physical_domain_value key v cfg = Some cfg' \<Longrightarrow> yml_arrays_ok cfg \<Longrightarrow> yml_arrays_ok cfg'"
  by (cases key) (auto simp: llps_yml_apply_physical_domain_value_def Let_def yml_arrays_domains)

lemma apply_tmr_domain_arrays:
  "llps_yml_apply_tmr_domain_value key v cfg = Some cfg' \<Longrightarrow> yml_arrays_ok cfg \<Longrightarrow> yml_arrays_ok cfg'"
  by (cases key) (auto simp: llps_yml_apply_tmr_domain_value_def Let_def yml_arrays_domains)

lemma apply_domain_arrays:
  "llps_yml_apply_domain_key key s cfg = Some (Inr cfg') \<Longrightarrow> yml_arrays_ok cfg \<Longrightarrow> yml_arrays_ok cfg'"
  using apply_physical_domain_arrays apply_tmr_domain_arrays
  unfolding llps_yml_apply_domain_key_def
  by (simp split: if_splits sum.splits option.splits)

lemma apply_software_ecc_arrays:
  "llps_yml_apply_software_ecc_key key s cfg = Some (Inr cfg') \<Longrightarrow> yml_arrays_ok cfg \<Longrightarrow> yml_arrays_ok cfg'"
  by (cases key) (auto simp: llps_yml_apply_software_ecc_key_def llps_yml_apply_software_ecc_u32_key_def
      llps_yml_apply_software_ecc_u64_key_def apply_field_defs)

lemma apply_software_numa_arrays:
  "llps_yml_apply_software_numa_key key s cfg = Some (Inr cfg') \<Longrightarrow> yml_arrays_ok cfg \<Longrightarrow> yml_arrays_ok cfg'"
  by (cases key) (auto simp: llps_yml_apply_software_numa_key_def apply_field_defs)

lemma apply_evidence_arrays:
  "llps_yml_apply_evidence_key key s cfg = Some (Inr cfg') \<Longrightarrow> yml_arrays_ok cfg \<Longrightarrow> yml_arrays_ok cfg'"
  by (cases key) (auto simp: llps_yml_apply_evidence_key_def apply_field_defs yml_arrays_ok_def
      dest: key_path_stored)

lemma apply_key_value_arrays:
  assumes "llps_yml_apply_key_value key s cfg = Inr cfg'" "yml_arrays_ok cfg"
  shows "yml_arrays_ok cfg'"
  using assms apply_capacity_arrays apply_endpoint_arrays apply_session_arrays apply_audit_arrays
    apply_platform_arrays apply_domain_arrays apply_software_ecc_arrays apply_software_numa_arrays
    apply_evidence_arrays
  unfolding llps_yml_apply_key_value_def by (simp split: option.splits)

text \<open>A line that is accepted is blank or assigns one key that was not yet present.\<close>

lemma parse_line_cases:
  assumes line: "llps_yml_parse_line line cfg m = Inr (cfg', m')"
  shows "cfg' = cfg \<and> m' = m \<or>
    (\<exists>key s. llps_yml_apply_key_value key s cfg = Inr cfg' \<and> m AND yml_key_bit key = 0 \<and>
       m' = m OR yml_key_bit key)"
proof (cases "llps_yml_trim_in_place (llps_yml_strip_comment line)")
  case None
  then show ?thesis using line by (simp add: llps_yml_parse_line_def split: if_splits)
next
  case work: (Some work)
  show ?thesis
  proof (cases "List.filter (\<lambda>i. work ! i = 58) [0..<min (length work) LLPS_YML_MAX_LINE_LEN]")
    case Nil
    then show ?thesis using line work by (simp add: llps_yml_parse_line_def split: if_splits)
  next
    case colon: (Cons colon rest)
    show ?thesis
      using line
      unfolding llps_yml_parse_line_def work colon option.case list.case Let_def
      by (simp split: if_splits list.splits option.splits sum.splits) blast
  qed
qed

lemma parse_line_arrays:
  "llps_yml_parse_line line cfg m = Inr (cfg', m') \<Longrightarrow> yml_arrays_ok cfg \<Longrightarrow> yml_arrays_ok cfg'"
  using parse_line_cases apply_key_value_arrays by blast

lemma end_line_arrays:
  "yml_end_line r = Inr r' \<Longrightarrow> yml_arrays_ok (yr_cfg r) \<Longrightarrow> yml_arrays_ok (yr_cfg r')"
  by (auto simp: yml_end_line_def llps_yml_commit_line_def dest: parse_line_arrays
      split: sum.splits prod.splits if_splits)

lemma read_byte_arrays:
  "yml_read_byte c r = Inr r' \<Longrightarrow> yml_arrays_ok (yr_cfg r) \<Longrightarrow> yml_arrays_ok (yr_cfg r')"
  by (auto simp: yml_read_byte_def Let_def dest: end_line_arrays split: if_splits)

lemma read_chunk_arrays:
  "yml_read_chunk cs r = Inr r' \<Longrightarrow> yml_arrays_ok (yr_cfg r) \<Longrightarrow> yml_arrays_ok (yr_cfg r')"
  by (induction cs r rule: yml_read_chunk.induct) (auto dest: read_byte_arrays split: sum.splits)

lemma read_loop_arrays:
  "yml_read_loop k answers r = Inr r' \<Longrightarrow> yml_arrays_ok (yr_cfg r) \<Longrightarrow> yml_arrays_ok (yr_cfg r')"
  by (induction k answers r rule: yml_read_loop.induct)
    (auto dest: read_chunk_arrays split: sum.splits if_splits yml_read.splits)

lemma finish_lines_arrays:
  "yml_finish_lines r = Inr r' \<Longrightarrow> yml_arrays_ok (yr_cfg r) \<Longrightarrow> yml_arrays_ok (yr_cfg r')"
  by (auto simp: yml_finish_lines_def dest: end_line_arrays split: sum.splits if_splits)

lemma load_arrays:
  assumes "llps_yml_load_config_internal path opens answers closes enforce = Inr cfg"
  shows "yml_arrays_ok cfg \<and> llps_yml_validate_config cfg enforce = LLPS_YML_OK"
proof -
  obtain r r' where r: "yml_read_loop 0 answers yml_reader_start = Inr r"
    "yml_finish_lines r = Inr r'" "cfg = yr_cfg r'"
    and valid: "llps_yml_validate_config cfg enforce = LLPS_YML_OK"
    using assms by (auto simp: llps_yml_load_config_internal_def Let_def split: sum.splits if_splits)
  have "yml_arrays_ok (yr_cfg yml_reader_start)"
    by (simp add: yml_reader_start_def zero_config_arrays)
  then show ?thesis
    using read_loop_arrays [OF r(1)] finish_lines_arrays [OF r(2)] valid r(3) by blast
qed

section \<open>Validation\<close>

lemma and_then_OK [simp]: "yml_and_then st st' = LLPS_YML_OK \<longleftrightarrow> st = LLPS_YML_OK \<and> st' = LLPS_YML_OK"
  by (auto simp: yml_and_then_def)

lemma yml_domain_same:
  "llps_yml_domain_ids_are_distinct = llps_domain_ids_are_distinct"
  "llps_yml_domain_ids_are_zero = llps_domain_ids_are_zero"
  "llps_yml_domain_id_sets_are_disjoint = llps_domain_id_sets_are_disjoint"
  by (simp_all add: fun_eq_iff llps_yml_domain_ids_are_distinct_def llps_domain_ids_are_distinct_def
      llps_yml_domain_ids_are_zero_def llps_domain_ids_are_zero_def
      llps_yml_domain_id_sets_are_disjoint_def llps_domain_id_sets_are_disjoint_def)

lemma host_array_nul: "host_array t \<Longrightarrow> llps_config_text_has_nul t LLPS_YML_MAX_TEXT"
  by (auto simp: host_array_def llps_config_text_has_nul_def llps_config_bounded_strlen_def
      find_None_iff)

lemma host_array_string:
  assumes "host_array t"
  shows "length (c_string t) < LLPS_YML_MAX_TEXT"
proof -
  obtain len where len: "len < LLPS_YML_MAX_TEXT" "t ! len = 0"
    using assms by (auto simp: host_array_def)
  have "\<not> len < length (c_string t)"
  proof
    assume less: "len < length (c_string t)"
    then have "c_string t ! len = 0" using len(2) by (simp add: c_string_def takeWhile_nth)
    then show False using nth_mem [OF less] by (auto simp: c_string_def dest: set_takeWhileD)
  qed
  then show ?thesis using len(1) by simp
qed

lemma empty_array_nth: "empty_array t \<Longrightarrow> t ! 0 = 0"
  by (simp add: empty_array_def)

lemma empty_array_safe: "empty_array t \<Longrightarrow> llps_config_path_is_safe t LLPS_YML_MAX_TEXT True"
proof -
  assume "empty_array t"
  then have t: "t = [] @ 0 # replicate 255 0" by (simp add: empty_array_def flip: replicate_Suc)
  have "llps_config_bounded_strlen t LLPS_YML_MAX_TEXT = Some (length ([] :: u8 list))"
    unfolding t by (rule strlen_terminated) simp_all
  then show ?thesis by (simp add: llps_config_path_is_safe_def)
qed

lemma valid_core:
  assumes "llps_yml_validate_config cfg True = LLPS_YML_OK"
  shows "llps_runtime_cfg_core_limits_are_valid cfg"
  using assms
  by (auto simp: llps_yml_validate_config_def llps_yml_validate_listener_limits_def
      llps_yml_validate_session_limits_def llps_yml_validate_feature_modes_def
      llps_runtime_cfg_core_limits_are_valid_def Let_def not_less split: if_splits)

lemma valid_paths:
  assumes "llps_yml_validate_config cfg True = LLPS_YML_OK" "yml_arrays_ok cfg"
  shows "llps_runtime_cfg_paths_are_valid cfg"
proof -
  have "llps_yml_validate_feature_modes cfg = LLPS_YML_OK" "llps_yml_validate_required_paths cfg = LLPS_YML_OK"
    using assms(1) by (simp_all add: llps_yml_validate_config_def Let_def)
  then show ?thesis
    using assms(2) empty_array_nth empty_array_safe
    unfolding llps_yml_validate_feature_modes_def llps_yml_validate_required_paths_def
      llps_runtime_cfg_paths_are_valid_def yml_arrays_ok_def
    by (simp add: not_less split: if_splits) blast
qed

lemma valid_software:
  assumes "llps_yml_validate_config cfg True = LLPS_YML_OK"
  shows "llps_runtime_cfg_software_ecc_is_valid cfg \<and> llps_runtime_cfg_software_numa_is_valid cfg"
proof -
  have "llps_yml_validate_software_ecc cfg = LLPS_YML_OK" "llps_yml_validate_software_numa cfg = LLPS_YML_OK"
    using assms(1) by (simp_all add: llps_yml_validate_config_def Let_def)
  then show ?thesis
    by (auto simp: llps_yml_validate_software_ecc_def llps_yml_validate_software_numa_def
      llps_yml_software_ecc_fields_are_zero_def llps_yml_software_numa_fields_are_zero_def
      llps_runtime_cfg_software_ecc_is_valid_def llps_runtime_cfg_software_numa_is_valid_def
      not_less not_le split: if_splits)
qed

lemma valid_platform:
  assumes "llps_yml_validate_config cfg True = LLPS_YML_OK" "yml_arrays_ok cfg"
  shows "llps_runtime_cfg_platform_basics_are_valid cfg \<and> llps_runtime_cfg_platform_policy_is_valid cfg"
proof -
  have "llps_yml_validate_feature_modes cfg = LLPS_YML_OK" "llps_yml_validate_software_mode_mix cfg = LLPS_YML_OK"
    "llps_yml_validate_platform_policy cfg = LLPS_YML_OK"
    "llps_yml_validate_readiness_contract cfg True = LLPS_YML_OK"
    using assms(1) by (simp_all add: llps_yml_validate_config_def Let_def)
  then show ?thesis
    using assms(2) host_array_nul
    unfolding llps_yml_validate_feature_modes_def llps_yml_validate_software_mode_mix_def
      llps_yml_validate_platform_policy_def llps_yml_validate_readiness_contract_def
      llps_runtime_cfg_platform_basics_are_valid_def llps_runtime_cfg_platform_policy_is_valid_def
      yml_arrays_ok_def
    by (simp add: not_less Let_def split: if_splits) blast
qed

lemma valid_domains:
  assumes "llps_yml_validate_config cfg True = LLPS_YML_OK"
  shows "llps_runtime_cfg_domain_bindings_are_valid cfg \<and> llps_platform_attestation_config_is_valid cfg"
proof -
  have "llps_yml_validate_platform_domains cfg = LLPS_YML_OK"
    "llps_yml_validate_external_domain_mix cfg = LLPS_YML_OK"
    "llps_yml_validate_readiness_contract cfg True = LLPS_YML_OK"
    "llps_yml_validate_attestation_fingerprint cfg True = LLPS_YML_OK"
    using assms(1) by (simp_all add: llps_yml_validate_config_def Let_def)
  then show ?thesis
    unfolding llps_yml_validate_platform_domains_def llps_yml_validate_external_domain_mix_def
      llps_yml_validate_readiness_contract_def llps_yml_validate_attestation_fingerprint_def
      llps_runtime_cfg_domain_bindings_are_valid_def llps_platform_attestation_config_is_valid_def
      yml_domain_same
    by (auto simp: Let_def split: if_splits prod.splits)
qed

lemma valid_loop:
  assumes "llps_yml_validate_config cfg True = LLPS_YML_OK" "yml_arrays_ok cfg"
  shows "listen_port cfg \<noteq> target_port cfg \<or> c_string (listen_host cfg) \<noteq> c_string (target_ip cfg)"
proof -
  have "llps_yml_validate_no_self_loop cfg = LLPS_YML_OK"
    using assms(1) by (simp add: llps_yml_validate_config_def Let_def)
  then show ?thesis
    using assms(2) host_array_string
    by (auto simp: llps_yml_validate_no_self_loop_def streq_iff yml_arrays_ok_def split: if_splits)
qed

lemma yml_valid_runtime:
  "llps_yml_validate_config cfg True = LLPS_YML_OK \<Longrightarrow> yml_arrays_ok cfg \<Longrightarrow>
   llps_runtime_cfg_values_are_valid cfg"
  using valid_core valid_paths valid_software valid_platform valid_domains valid_loop
  unfolding llps_runtime_cfg_values_are_valid_def by simp

subsection \<open>Reference notions\<close>

text \<open>The lines of a file taken one after the other; an error carries the number of its line.\<close>

fun yml_config_lines ::
    "u8 list list \<Rightarrow> nat \<Rightarrow> llps_yml_config_t \<Rightarrow> u64 \<Rightarrow> (llps_yml_config_t \<times> u64) yml_outcome" where
  "yml_config_lines [] n cfg m = Inr (cfg, m)"
| "yml_config_lines (l # ls) n cfg m =
     (case llps_yml_parse_line l cfg m of
        Inl st \<Rightarrow> Inl (st, of_nat n)
      | Inr (cfg', m') \<Rightarrow> yml_config_lines ls (n + 1) cfg' m')"

definition yml_load_lines :: "u8 list list \<Rightarrow> bool \<Rightarrow> bool \<Rightarrow> llps_yml_config_t yml_outcome" where
  "yml_load_lines ls closes enforce =
     (case yml_config_lines ls 1 llps_yml_zero_config 0 of
        Inl e \<Rightarrow> Inl e
      | Inr (cfg, m) \<Rightarrow>
          if \<not> closes then Inl (LLPS_YML_E_CLOSE, 0)
          else if ls = [] \<or> m AND LLPS_YML_REQUIRED_MASK \<noteq> LLPS_YML_REQUIRED_MASK
          then Inl (LLPS_YML_E_REQUIRED, 0)
          else if llps_yml_validate_config cfg enforce \<noteq> LLPS_YML_OK
          then Inl (llps_yml_validate_config cfg enforce, 0)
          else Inr cfg)"

text \<open>
  A file of terminated lines, each with a flag for the carriage return before its line feed, and a last
  line without terminator.
\<close>

definition yml_terminated :: "(u8 list \<times> bool) list \<Rightarrow> u8 list" where
  "yml_terminated ls = concat (List.map (\<lambda>(l, cr). l @ (if cr then [13, 10] else [10])) ls)"

definition yml_line_ok :: "u8 list \<Rightarrow> bool" where
  "yml_line_ok l \<longleftrightarrow> length l \<le> LLPS_YML_MAX_LINE_LEN \<and> list_all llps_yml_is_allowed_text_byte l"

fun answer_bytes :: "yml_read \<Rightarrow> u8 list" where
  "answer_bytes (Yml_Bytes cs) = cs"
| "answer_bytes Yml_Interrupted = []"
| "answer_bytes Yml_Failed = []"

fun answer_ok :: "yml_read \<Rightarrow> bool" where
  "answer_ok (Yml_Bytes cs) = (cs \<noteq> [])"
| "answer_ok Yml_Interrupted = True"
| "answer_ok Yml_Failed = False"

section \<open>Reading lines\<close>

lemma read_chunk_append:
  "yml_read_chunk (a @ b) r = (case yml_read_chunk a r of Inl e \<Rightarrow> Inl e | Inr r' \<Rightarrow> yml_read_chunk b r')"
  by (induction a arbitrary: r) (auto split: sum.splits)

lemma read_loop_bytes:
  assumes "list_all answer_ok answers" "unat k + length answers \<le> unat UINT64_MAX"
  shows "yml_read_loop k answers r = yml_read_chunk (concat (List.map answer_bytes answers)) r"
  using assms
proof (induction answers arbitrary: k r)
  case (Cons a answers)
  have k: "k < UINT64_MAX" using Cons.prems(2) by (simp add: word_less_nat_alt)
  then have "unat (k + 1) = unat k + 1"
    using Cons.prems(2) by (simp add: unat_word_ariths)
  then have ih: "yml_read_loop (k + 1) answers r' = yml_read_chunk (concat (List.map answer_bytes answers)) r'" for r'
    using Cons.prems by (intro Cons.IH) simp_all
  show ?case
    using k Cons.prems(1)
    by (cases a) (auto simp: ih read_chunk_append split: sum.splits)
qed simp

text \<open>The reader between two bytes, with its counters as numbers.\<close>

definition reader_at :: "u8 list \<Rightarrow> nat \<Rightarrow> nat \<Rightarrow> llps_yml_config_t \<Rightarrow> u64 \<Rightarrow> yml_reader" where
  "reader_at l n t cfg m = \<lparr>yr_line = l, yr_line_no = of_nat n, yr_total_bytes = of_nat t,
     yr_present_mask = m, yr_pending_cr = False, yr_saw_any_byte = (t \<noteq> 0), yr_cfg = cfg\<rparr>"

lemma reader_start: "yml_reader_start = reader_at [] 1 0 llps_yml_zero_config 0"
  by (simp add: yml_reader_start_def reader_at_def)

lemma total_guard: "t < 41216 \<Longrightarrow> \<not> (of_nat t :: u32) \<ge> 128 * (320 + 2)"
  by (simp add: word_le_nat_alt unat_of_nat take_bit_nat_eq_self)

lemma line_no_guard: "n \<le> 128 \<Longrightarrow> \<not> (of_nat n :: u32) > 128"
  by (simp add: word_less_nat_alt unat_of_nat take_bit_nat_eq_self)

lemma allowed_byte: "llps_yml_is_allowed_text_byte c \<Longrightarrow> c \<noteq> 10 \<and> c \<noteq> 13 \<and> c \<noteq> 0"
  by (auto simp: llps_yml_is_allowed_text_byte_def)

lemma read_text_byte:
  assumes "llps_yml_is_allowed_text_byte c" "t < 41216" "length l < LLPS_YML_MAX_LINE_LEN"
  shows "yml_read_byte c (reader_at l n t cfg m) = Inr (reader_at (l @ [c]) n (Suc t) cfg m)"
  using allowed_byte [OF assms(1)] total_guard [OF assms(2)] assms
  by (simp add: yml_read_byte_def reader_at_def Let_def not_le)

lemma read_text:
  assumes "list_all llps_yml_is_allowed_text_byte s" "t + length s \<le> 41216"
    "length l + length s \<le> LLPS_YML_MAX_LINE_LEN"
  shows "yml_read_chunk s (reader_at l n t cfg m) = Inr (reader_at (l @ s) n (t + length s) cfg m)"
  using assms
proof (induction s arbitrary: l t)
  case (Cons c s)
  then show ?case by (simp add: read_text_byte)
qed simp

lemma end_line_at:
  assumes "n \<le> 128" "length l \<le> LLPS_YML_MAX_LINE_LEN" "0 < t" "r = reader_at l n t cfg m \<or>
    r = (reader_at l n t cfg m)\<lparr>yr_pending_cr := True\<rparr>"
  shows "yml_end_line r = (case llps_yml_parse_line l cfg m of
     Inl st \<Rightarrow> Inl (st, of_nat n) | Inr (cfg', m') \<Rightarrow> Inr (reader_at [] (Suc n) t cfg' m'))"
  using assms line_no_guard [OF assms(1)]
  by (auto simp: yml_end_line_def llps_yml_commit_line_def reader_at_def add.commute
      split: sum.splits prod.splits)

lemma read_line:
  assumes "yml_line_ok l" "n \<le> 128" "t + length l + 2 \<le> 41216"
  shows "yml_read_chunk (l @ (if cr then [13, 10] else [10])) (reader_at [] n t cfg m) =
    (case llps_yml_parse_line l cfg m of
       Inl st \<Rightarrow> Inl (st, of_nat n)
     | Inr (cfg', m') \<Rightarrow>
         Inr (reader_at [] (Suc n) (t + length l + (if cr then 2 else 1)) cfg' m'))"
proof -
  let ?r = "reader_at l n (t + length l) cfg m"
  have whole: "yml_read_chunk l (reader_at [] n t cfg m) = Inr ?r"
    using assms read_text [of l t "[]" n cfg m] by (simp add: yml_line_ok_def)
  have lf: "yml_read_byte 10 ?r = yml_end_line (reader_at l n (Suc (t + length l)) cfg m)"
    using assms(3) total_guard [of "t + length l"]
    by (simp add: yml_read_byte_def reader_at_def Let_def) (simp add: add_ac)
  let ?p = "(reader_at l n (Suc (t + length l)) cfg m)\<lparr>yr_pending_cr := True\<rparr>"
  have cr1: "yml_read_byte 13 ?r = Inr ?p"
    using assms(3) total_guard [of "t + length l"]
    by (simp add: yml_read_byte_def reader_at_def Let_def add_ac)
  have cr2: "yml_read_byte 10 ?p =
      yml_end_line ((reader_at l n (Suc (Suc (t + length l))) cfg m)\<lparr>yr_pending_cr := True\<rparr>)"
    using assms(3) total_guard [of "Suc (t + length l)"]
    by (simp add: yml_read_byte_def reader_at_def Let_def add_ac)
  have len: "length l \<le> LLPS_YML_MAX_LINE_LEN" using assms(1) by (simp add: yml_line_ok_def)
  show ?thesis
  proof (cases cr)
    case True
    have "yml_end_line ((reader_at l n (Suc (Suc (t + length l))) cfg m)\<lparr>yr_pending_cr := True\<rparr>) =
        (case llps_yml_parse_line l cfg m of Inl st \<Rightarrow> Inl (st, of_nat n)
         | Inr (cfg', m') \<Rightarrow> Inr (reader_at [] (Suc n) (Suc (Suc (t + length l))) cfg' m'))"
      by (rule end_line_at [OF assms(2) len]) simp_all
    then show ?thesis
      using True by (simp add: read_chunk_append whole cr1 cr2 split: sum.splits prod.splits)
  next
    case False
    have "yml_end_line (reader_at l n (Suc (t + length l)) cfg m) =
        (case llps_yml_parse_line l cfg m of Inl st \<Rightarrow> Inl (st, of_nat n)
         | Inr (cfg', m') \<Rightarrow> Inr (reader_at [] (Suc n) (Suc (t + length l)) cfg' m'))"
      by (rule end_line_at [OF assms(2) len]) simp_all
    then show ?thesis
      using False by (simp add: read_chunk_append whole lf split: sum.splits prod.splits)
  qed
qed

lemma terminated_length:
  "list_all yml_line_ok (List.map fst ls) \<Longrightarrow> length (yml_terminated ls) \<le> 322 * length ls"
  by (induction ls) (auto simp: yml_terminated_def yml_line_ok_def)

lemma read_lines:
  assumes "list_all yml_line_ok (List.map fst ls)" "n + length ls \<le> 129" "t + 322 * length ls \<le> 41216"
  shows "yml_read_chunk (yml_terminated ls) (reader_at [] n t cfg m) =
    (case yml_config_lines (List.map fst ls) n cfg m of
       Inl e \<Rightarrow> Inl e
     | Inr (cfg', m') \<Rightarrow>
         Inr (reader_at [] (n + length ls) (t + length (yml_terminated ls)) cfg' m'))"
  using assms
proof (induction ls arbitrary: n t cfg m)
  case Nil
  then show ?case by (simp add: yml_terminated_def)
next
  case (Cons x ls)
  obtain l cr where x: "x = (l, cr)" by (cases x)
  have l: "yml_line_ok l" using Cons.prems(1) x by simp
  then have len: "length l \<le> 320" by (simp add: yml_line_ok_def)
  have line: "yml_read_chunk (l @ (if cr then [13, 10] else [10])) (reader_at [] n t cfg m) =
    (case llps_yml_parse_line l cfg m of
       Inl st \<Rightarrow> Inl (st, of_nat n)
     | Inr (cfg', m') \<Rightarrow>
         Inr (reader_at [] (Suc n) (t + length l + (if cr then 2 else 1)) cfg' m'))"
    using Cons.prems len by (intro read_line [OF l]) simp_all
  have split: "yml_terminated (x # ls) = (l @ (if cr then [13, 10] else [10])) @ yml_terminated ls"
    by (simp add: yml_terminated_def x)
  have rest: "yml_read_chunk (yml_terminated ls) (reader_at [] (Suc n) (t + length l + (if cr then 2 else 1)) cfg' m') =
    (case yml_config_lines (List.map fst ls) (Suc n) cfg' m' of
       Inl e \<Rightarrow> Inl e
     | Inr (cfg'', m'') \<Rightarrow> Inr (reader_at [] (Suc n + length ls)
         (t + length l + (if cr then 2 else 1) + length (yml_terminated ls)) cfg'' m''))" for cfg' m'
    using Cons.prems len by (intro Cons.IH) auto
  show ?case
    unfolding split read_chunk_append [of "l @ (if cr then [13, 10] else [10])"] line
    by (cases cr) (use rest in \<open>simp_all add: x add.assoc split: sum.splits prod.splits\<close>)
qed

lemma load_lines:
  assumes "list_all yml_line_ok (List.map fst ls)" "yml_line_ok final"
    "length ls + (if final = [] then 0 else 1) \<le> 128"
  shows "(case yml_read_chunk (yml_terminated ls @ final) yml_reader_start of
       Inl e \<Rightarrow> Inl e | Inr r \<Rightarrow> yml_finish_lines r) =
    (case yml_config_lines (List.map fst ls @ (if final = [] then [] else [final])) 1 llps_yml_zero_config 0 of
       Inl e \<Rightarrow> Inl e
     | Inr (cfg, m) \<Rightarrow> Inr (reader_at [] (1 + length ls + (if final = [] then 0 else 1))
         (length (yml_terminated ls @ final)) cfg m))"
proof -
  have lens: "322 * length ls + length final \<le> 41216"
    using assms(2,3) by (cases "final = []") (auto simp: yml_line_ok_def)
  have app: "yml_config_lines (a @ b) n cfg m =
      (case yml_config_lines a n cfg m of Inl e \<Rightarrow> Inl e
       | Inr (cfg', m') \<Rightarrow> yml_config_lines b (n + length a) cfg' m')" for a b n cfg m
    by (induction a arbitrary: n cfg m) (auto split: sum.splits prod.splits)
  have lines: "yml_read_chunk (yml_terminated ls) yml_reader_start =
    (case yml_config_lines (List.map fst ls) 1 llps_yml_zero_config 0 of
       Inl e \<Rightarrow> Inl e
     | Inr (cfg, m) \<Rightarrow> Inr (reader_at [] (1 + length ls) (length (yml_terminated ls)) cfg m))"
    using read_lines [OF assms(1), of 1 0 llps_yml_zero_config 0, unfolded add_0] lens assms(3)
    unfolding reader_start by simp
  have last_line: "(case yml_read_chunk final (reader_at [] (1 + length ls) (length (yml_terminated ls)) cfg m) of
       Inl e \<Rightarrow> Inl e | Inr r \<Rightarrow> yml_finish_lines r) =
    (case yml_config_lines (if final = [] then [] else [final]) (1 + length ls) cfg m of
       Inl e \<Rightarrow> Inl e
     | Inr (cfg', m') \<Rightarrow> Inr (reader_at [] (1 + length ls + (if final = [] then 0 else 1))
         (length (yml_terminated ls @ final)) cfg' m'))" for cfg m
  proof (cases "final = []")
    case True
    then show ?thesis by (simp add: yml_finish_lines_def reader_at_def)
  next
    case False
    let ?t = "length (yml_terminated ls) + length final"
    have whole: "yml_read_chunk final (reader_at [] (1 + length ls) (length (yml_terminated ls)) cfg m) =
        Inr (reader_at final (1 + length ls) ?t cfg m)"
      using assms(2) lens terminated_length [OF assms(1)]
        read_text [of final "length (yml_terminated ls)" "[]" "1 + length ls" cfg m]
      by (simp add: yml_line_ok_def)
    have "yml_end_line (reader_at final (1 + length ls) ?t cfg m) =
       (case llps_yml_parse_line final cfg m of Inl st \<Rightarrow> Inl (st, of_nat (1 + length ls))
        | Inr (cfg', m') \<Rightarrow> Inr (reader_at [] (Suc (1 + length ls)) ?t cfg' m'))"
      using assms(2,3) False by (intro end_line_at) (auto simp: yml_line_ok_def)
    moreover have "yml_finish_lines (reader_at final (1 + length ls) ?t cfg m) =
        yml_end_line (reader_at final (1 + length ls) ?t cfg m)"
      using False by (simp add: yml_finish_lines_def reader_at_def)
    ultimately show ?thesis
      unfolding whole using False by (auto split: sum.splits prod.splits)
  qed
  show ?thesis
  proof (cases "yml_config_lines (List.map fst ls) 1 llps_yml_zero_config 0")
    case (Inl e)
    then show ?thesis unfolding read_chunk_append [of "yml_terminated ls"] lines app by simp
  next
    case (Inr p)
    obtain cfg m where p: "p = (cfg, m)" by (cases p)
    show ?thesis
      unfolding read_chunk_append [of "yml_terminated ls"] lines app Inr p sum.case prod.case length_map
      by (rule last_line)
  qed
qed

section \<open>Properties\<close>

text \<open>
  However the calls of \<^verbatim>\<open>read\<close> cut the file into pieces, and however often they are interrupted, a load
  is the work on its lines one after the other; a line ends with a line feed or with a carriage return
  and a line feed, and the last one may have no end.
\<close>

theorem yml_reads_lines:
  assumes "path \<noteq> []" "length path < LLPS_YML_MAX_TEXT"
    and "list_all answer_ok answers" "length answers \<le> unat UINT64_MAX"
    and "concat (List.map answer_bytes answers) = yml_terminated ls @ final"
    and "list_all yml_line_ok (List.map fst ls)" "yml_line_ok final" "length ls + (if final = [] then 0 else 1) \<le> 128"
  shows "llps_yml_load_config_internal path True answers closes enforce =
    yml_load_lines (List.map fst ls @ (if final = [] then [] else [final])) closes enforce"
proof -
  let ?lines = "List.map fst ls @ (if final = [] then [] else [final])"
  have opened: "llps_yml_open_readonly path True = LLPS_YML_OK"
    using assms(1,2) by (simp add: llps_yml_open_readonly_def llps_yml_bounded_strlen_def)
  have "yml_read_loop 0 answers yml_reader_start = yml_read_chunk (yml_terminated ls @ final) yml_reader_start"
    using read_loop_bytes [OF assms(3), of 0 yml_reader_start] assms(4,5) by simp
  then have r: "(case yml_read_loop 0 answers yml_reader_start of Inl e \<Rightarrow> Inl e | Inr r \<Rightarrow> yml_finish_lines r) =
    (case yml_config_lines ?lines 1 llps_yml_zero_config 0 of
       Inl e \<Rightarrow> Inl e
     | Inr (cfg, m) \<Rightarrow> Inr (reader_at [] (1 + length ls + (if final = [] then 0 else 1))
         (length (yml_terminated ls @ final)) cfg m))"
    using load_lines [OF assms(6-8)] by simp
  have some: "length (yml_terminated ls @ final) = 0 \<longleftrightarrow> ?lines = []"
    by (cases ls) (auto simp: yml_terminated_def split: if_splits)
  show ?thesis
  proof (cases "yml_config_lines ?lines 1 llps_yml_zero_config 0")
    case (Inl e)
    then show ?thesis
      using r opened unfolding llps_yml_load_config_internal_def yml_load_lines_def Inl
      by (cases "yml_read_loop 0 answers yml_reader_start") (simp_all add: Let_def)
  next
    case (Inr p)
    obtain cfg m where p: "p = (cfg, m)" by (cases p)
    obtain r1 where r1: "yml_read_loop 0 answers yml_reader_start = Inr r1" "yml_finish_lines r1 =
        Inr (reader_at [] (1 + length ls + (if final = [] then 0 else 1)) (length (yml_terminated ls @ final)) cfg m)"
      using r unfolding Inr p by (cases "yml_read_loop 0 answers yml_reader_start") simp_all
    show ?thesis
      using opened some
      unfolding llps_yml_load_config_internal_def yml_load_lines_def Inr p r1(1) sum.case r1(2) prod.case Let_def
      by (simp add: reader_at_def)
  qed
qed

text \<open>
  A configuration that the parser hands out passes the checks of the server at run time: the two
  validations of the code, which were written separately, agree in this direction, and every text
  field of the record is terminated.
\<close>

theorem yml_loaded_config_valid:
  assumes "llps_yml_load_config_ex path opens answers closes = Inr cfg"
  shows "llps_runtime_cfg_values_are_valid cfg \<and> yml_arrays_ok cfg"
  using assms load_arrays [of path opens answers closes True cfg] yml_valid_runtime [of cfg]
  by (simp add: llps_yml_load_config_ex_def)

text \<open>A file of nine lines.\<close>

definition example_file :: "(u8 list \<times> bool) list" where
  "example_file =
     [(ascii ''# example'', True), (ascii ''max_clients: 256'', True), (ascii ''buffer_size: 4096'', False),
      (ascii ''listen_host: 127.0.0.1'', False), (ascii ''listen_port: 25565  # players'', False),
      (ascii ''target_ip: 10.0.0.2'', False), (ascii ''target_port: 25566'', False),
      (ascii ''listen_backlog: 64'', False), (ascii ''accept_batch_max: 16'', False)]"

definition example_file_cfg :: llps_yml_config_t where
  "example_file_cfg = llps_yml_zero_config\<lparr>max_clients := 256, buffer_size := 4096,
     listen_host := ascii ''127.0.0.1'' @ replicate 247 0, listen_port := 25565,
     target_ip := ascii ''10.0.0.2'' @ replicate 248 0, target_port := 25566, listen_backlog := 64, accept_batch_max := 16\<rparr>"

lemma example_file_lines: "yml_load_lines (List.map fst example_file) True True = Inr example_file_cfg"
  by code_simp

theorem yml_reads_lines_witness:
  "llps_yml_load_config_ex (ascii ''/etc/llps.pxf'') True
     [Yml_Bytes (take 100 (yml_terminated example_file)), Yml_Interrupted, Yml_Bytes (drop 100 (yml_terminated example_file))] True =
   Inr example_file_cfg"
proof -
  have shape: "list_all yml_line_ok (List.map fst example_file)" "length example_file \<le> 128"
    "take 100 (yml_terminated example_file) \<noteq> []" "drop 100 (yml_terminated example_file) \<noteq> []" by code_simp+
  have path: "ascii ''/etc/llps.pxf'' \<noteq> []" "length (ascii ''/etc/llps.pxf'') < LLPS_YML_MAX_TEXT" by code_simp+
  show ?thesis
    using yml_reads_lines [OF path, of "[Yml_Bytes (take 100 (yml_terminated example_file)), Yml_Interrupted,
        Yml_Bytes (drop 100 (yml_terminated example_file))]" example_file "[]" True True] shape example_file_lines
    by (simp add: llps_yml_load_config_ex_def yml_line_ok_def)
qed

theorem yml_loaded_config_valid_witness:
  "llps_runtime_cfg_values_are_valid example_file_cfg"
  using yml_loaded_config_valid [OF yml_reads_lines_witness] by simp

text \<open>
  The number parser with the maximum 1 reads the numeral of \<open>2 ^ 32\<close> as 0: its guard subtracts the digit
  from the maximum, wraps around for a digit above it, and lets the value wrap to 0. So a line that asks
  for the readiness gate with a number the parser should refuse switches the gate off.
\<close>

theorem yml_flag_wraps:
  "llps_yml_parse_u32 (ascii ''4294967296'') 0 1 = Inr 0 \<and>
   llps_yml_parse_line (ascii ''require_readiness: 4294967296'') llps_yml_zero_config 0 =
     Inr (llps_yml_zero_config\<lparr>require_readiness := 0\<rparr>, yml_key_bit LLPS_YML_KEY_REQUIRE_READINESS)"
  by code_simp

end
