(* ===== verification/Spec2Isabelle.thy ===== *)
theory Spec2Isabelle
  imports Accept_Path Watchdog Yml_Parser
begin

text \<open>
  LLPS is a TCP proxy in C that defends its own state against memory upsets: what decides the fate
  of a connection is kept with inverse copies, check bytes, checksums and three copies (banks) that
  are voted on whenever they are read. This development is a shallow embedding of that state, of the
  operations on it, of the path of a client from \<^verbatim>\<open>accept\<close> to its session, of the task that serves it
  until its last byte, and of the watchdog that guards all of them. It follows the C
  sources under \<^verbatim>\<open>src/\<close>; a definition has the name of the function or type it models, and a part of a
  function that became a definition of its own says which.

  \<^bold>\<open>Parts and theories.\<close>

  \<^item> \<open>LLPS_Prelude\<close>: the integer types, the collections of facts, exclusive or, counting loops.
  \<^item> \<open>Crc\<close>: \<^verbatim>\<open>support/llps_crc.c\<close>, the checksums, and \<^verbatim>\<open>support/llps_guard.c\<close>, guarded booleans. The
    byte-wise update is the bit-serial division, and a change of one word is always seen.
  \<^item> \<open>Secded\<close>: \<^verbatim>\<open>support/llps_secded.c\<close>, the Hamming code with overall parity for 64, 32 and 16 bits.
    One flipped bit is corrected and two are detected, among the bits that the code of the width uses,
    and the table-driven encoder equals the loop.
  \<^item> \<open>Tmr_Vote\<close>: \<^verbatim>\<open>tmr/llps_tmr_vote.c\<close>, the choice of two agreeing banks, and the locale \<open>tmr_bank\<close>: what
    a kind of bank provides (validity, reading, writing) and what follows for a value kept three times
    (masking, soundness, repair, failure). It is interpreted on the shutdown flag, the configuration
    and the free list.
  \<^item> \<open>Safety_Counters\<close>: \<^verbatim>\<open>session/llps_safety_counters.c\<close>, the counters under a checksum pair.
  \<^item> \<open>Control_Flag\<close>: \<^verbatim>\<open>session/llps_control_flag.c\<close>, the shutdown flag.
  \<^item> \<open>Config\<close>: the record \<^verbatim>\<open>llps_yml_config_t\<close>, \<^verbatim>\<open>config/llps_config_validate.c\<close>, and the domain ids and
    fingerprint of \<^verbatim>\<open>platform/llps_domain.c\<close> and \<^verbatim>\<open>platform/llps_platform.c\<close>.
  \<^item> \<open>Yml_Scalar\<close> and \<open>Yml_Parser\<close>: \<^verbatim>\<open>config/yml_parser.c\<close>, from the character classes and the parsers of
    numbers, host names and paths to the keys, the lines and the reader of the file. Numbers and host
    names are read exactly as described, the reader works line by line however \<^verbatim>\<open>read\<close> cuts the file
    (\<open>yml_reads_lines\<close>), and what a load hands out passes the validation of the server
    (\<open>yml_loaded_config_valid\<close>). The number parser wraps around for a maximum below 9 (\<open>yml_flag_wraps\<close>).
  \<^item> \<open>Runtime_Cfg_Tmr\<close> and \<open>Free_List_Tmr\<close>: \<^verbatim>\<open>session/llps_runtime_cfg_tmr.c\<close> and
    \<^verbatim>\<open>session/llps_free_list_tmr.c\<close>. A vote on the free list first reconciles the configuration, which
    bounds the list.
  \<^item> \<open>Handshake\<close>: the gate of \<^verbatim>\<open>core/llps_state.c\<close> on the first packet. It accepts exactly the
    well-formed handshakes, decides after a bounded number of bytes and reads none it was not given.
  \<^item> \<open>Runtime_State\<close>: failed expectations, the checked clock, the request counter, the bounded copy of
    a text. Rest of \<^verbatim>\<open>core/llps_state.c\<close>, with what it calls:
  \<^item> \<open>Rate_Limit\<close>: the limiter of new sessions. Its guarded table implements a map from addresses to
    windows (\<open>rate_step\<close>), and an address gets at most twice its limit in any window.
  \<^item> \<open>Payload_Ecc\<close>: the codes of a transfer buffer. Sealed bytes survive one flipped bit in every word.
  \<^item> \<open>Session_Integrity\<close>: \<^verbatim>\<open>session/llps_session_integrity.c\<close>, the session record with its inverse copies,
    check bytes and checksum.
  \<^item> \<open>Session_Record\<close> and \<open>Session_Tmr\<close>: \<^verbatim>\<open>session/llps_session_tmr.c\<close>, the records of the banks, the three
    guarded memory regions, writing, voting and repair.
  \<^item> \<open>Session_State\<close>: sessions under their redundancy: sealing, reconciling, state queries, and the
    changes of a session's life.
  \<^item> \<open>Session_Pool\<close>: the initial pool, taking and returning slots, closing. The pool implements a set of
    free slots (\<open>slot_step\<close>) in every run of its operations.
  \<^item> \<open>Accept_Path\<close>: the peer's address, accept errors, both limits, the assignment of a session and the
    batch of accepts, with the helpers of \<^verbatim>\<open>net/llps_net.c\<close>.
  \<^item> \<open>Pump\<close>: one direction of a session, from \<^verbatim>\<open>llps_task_pump\<close> down to the single send. What is sent is a
    prefix of what was received, upset memory or not; a write ends, and when sends make progress it
    delivers everything.
  \<^item> \<open>Connection\<close>: \<^verbatim>\<open>llps_task_connection\<close> with the preface of the client, its gate, the connection to
    the backend and the start of the pumps. With the gate on, the backend sees only what the client sent
    and only when it begins with a handshake, and a client that sends one in time gets through, in
    however many pieces it arrives and is passed on.
  \<^item> \<open>Latches\<close>: \<^verbatim>\<open>session/llps_runtime_latches.c\<close>. Every upset of a latch is seen.
  \<^item> \<open>Synthetic_Evidence\<close>: the synthetic observations of \<^verbatim>\<open>platform/llps_edac.c\<close> and
    \<^verbatim>\<open>platform/llps_numa.c\<close>, and the patrols over them.
  \<^item> \<open>Watchdog\<close>: shutting down, the scrubs of metadata and payload, \<^verbatim>\<open>tmr/llps_tmr_layout.c\<close>, the checks of
    a tick from \<^verbatim>\<open>readiness/llps_readiness_config.c\<close> and the failure masks beside them, the readiness
    monitor, the scan for idle sessions and \<^verbatim>\<open>llps_task_watchdog\<close>. The scrub heals, the scan closes the
    idle only, a requested shutdown takes effect, and one reset client can be enough to request it.

  \<^bold>\<open>State.\<close> C globals are fields of records that the operations pass on: \<open>free_list_env\<close>
  (configuration, its banks, the banks of the free list, the counters), \<open>runtime_state\<close> (that and the
  shutdown flag), \<open>server_state\<close> (that, the session table, the memory regions and the canonical free
  list) and \<open>accept_state\<close> (that, the rate limiter's table, the request counter and whether the server
  goes on). A pointer to a session is its index, arrays are lists of their length, machine integers are
  words of their width, a C \<^verbatim>\<open>int\<close> is its 32 bit pattern. A result \<^verbatim>\<open>bool\<close> with an out parameter is an
  option, a failed \<^verbatim>\<open>LLPS_EXPECT\<close> counts a violation and takes its fallback as the macro does.

  \<^bold>\<open>The environment.\<close> Clock readings, results of system calls, the verdict of the coroutine runtime on
  its scheduler, whether a task could be started, and what the audit log answers are arguments; the
  properties hold for all of them, but for those a hypothesis names. Operations run to completion, as
  the single worker of the runtime runs them, except where a task waits: there the model takes an
  arbitrary function on the server for what the other tasks and the memory do meanwhile, and a property
  says what it must leave alone (\<open>answer_sound\<close> for a pump, \<open>connection_sound\<close> for a connection).

  \<^bold>\<open>Upsets.\<close> Properties of redundancy quantify over the upset memory: one bank or memory region with
  any content, single bits of each protected word of the others. \<open>cfg_held k\<close>, \<open>free_held k\<close> and
  \<open>session_sealed\<close> say what is still right; the bank \<open>k\<close> may hold anything, and the number 3 stands for
  none. A sound pool is \<open>pool_inv\<close>, with the limits \<open>acc_inv\<close>.

  \<^bold>\<open>Bounds.\<close> Loops over arrays run over the list of their indices and need no fuel: 256 slots and
  buckets, three banks, the length of a buffer. The scans of the watchdog read their bound before every
  turn and end because an index below \<open>2 ^ 32\<close> grows (\<open>session_loop\<close>). The loops with a step count of the
  code have that count: 5120 steps of a write, 4096 for the bytes and 1024 for the retries, which
  \<open>pump_write_steps_suffice\<close> shows to be enough; the same count for the preface and its flush; 500 polls
  for the connection to the backend. The loops of a pump and of the watchdog run over the list of what
  their turns meet; the code's own bound of \<open>2 ^ 64 - 1\<close> turns is not reached. The loop over the slots found by \<^verbatim>\<open>llps_find_free_session\<close>
  is one turn, because the \<^verbatim>\<open>continue\<close> of its failed expectations only leaves the macro.

  \<^bold>\<open>Not modelled.\<close> Log output, and what an audit event holds. The loop around the batch of accepts.
  The points inside a scan of the watchdog at which it may yield: a scan is one step. The worker thread
  that probes the platform for the readiness monitor, whose answer is an argument, and the readiness
  gates at start-up. The keyed hash, the software evidence and the observer of the banks. Files, sockets
  and probes of the operating system and firmware, which are input and output: the configuration file
  is the list of what \<^verbatim>\<open>read\<close> returns. Tests and the command line.
\<close>

end
